(* ===== verification/Prelude.thy ===== *)
theory Prelude
  imports Main "HOL-Library.Sublist"
begin

section \<open>Shared vocabulary of the development\<close>

text \<open>
  What every component theory uses: the collections of rewrite rules, the string and
  array operations of the JavaScript standard library that the sources call (searching a
  substring, slicing), and the effect type for code that awaits operations of its
  environment: such code is a function from the environment's state to a thrown error or
  a value, and the next state.
\<close>

named_theorems step_simps \<open>equations of the operations of a state machine\<close>
named_theorems eff_simps \<open>equations of the effect combinators\<close>

subsection \<open>Substrings\<close>

text \<open>
  \<open>find_sub p s\<close> is \<open>s.indexOf(p)\<close>: the least position at which \<open>p\<close> occurs in \<open>s\<close>,
  \<open>None\<close> for the source's \<open>-1\<close>. \<open>index_of p s i\<close> starts the search at \<open>i\<close>.
\<close>

fun find_sub :: "'a list \<Rightarrow> 'a list \<Rightarrow> nat option" where
  "find_sub p [] = (if p = [] then Some 0 else None)"
| "find_sub p (x # xs) =
     (if prefix p (x # xs) then Some 0 else map_option Suc (find_sub p xs))"

definition index_of :: "'a list \<Rightarrow> 'a list \<Rightarrow> nat \<Rightarrow> nat option" where
  "index_of p s i = map_option (\<lambda>k. i + k) (find_sub p (drop i s))"

text \<open>\<open>js_slice s a b\<close> is \<open>s.slice(a, b)\<close> for \<open>0 \<le> a \<le> b\<close>.\<close>

definition js_slice :: "'a list \<Rightarrow> nat \<Rightarrow> nat \<Rightarrow> 'a list" where
  "js_slice s a b = take (b - a) (drop a s)"

lemma find_sub_occurs:
  "find_sub p s = Some i \<Longrightarrow> i + length p \<le> length s \<and> take (length p) (drop i s) = p"
proof (induction s arbitrary: i)
  case Nil
  then show ?case by (auto split: if_splits)
next
  case (Cons x xs)
  show ?case
  proof (cases "prefix p (x # xs)")
    case True
    then have "length p \<le> length (x # xs)" "take (length p) (x # xs) = p"
      by (rule prefix_length_le, simp add: take_is_prefix prefix_def, auto)
    with Cons.prems True show ?thesis by simp
  next
    case False
    with Cons show ?thesis by auto
  qed
qed

lemma find_sub_split:
  assumes "find_sub p s = Some i"
  shows "s = take i s @ p @ drop (i + length p) s"
  using find_sub_occurs [OF assms]
  by (metis add.commute append_take_drop_id drop_drop)

lemma find_sub_least:
  "find_sub p s = Some i \<Longrightarrow> j < i \<Longrightarrow> \<not> prefix p (drop j s)"
proof (induction s arbitrary: i j)
  case Nil
  then show ?case by (auto split: if_splits)
next
  case (Cons x xs)
  then show ?case
    by (cases j) (auto split: if_splits)
qed

lemma find_sub_extend:
  "find_sub p s = Some i \<Longrightarrow> find_sub p (s @ t) = Some i"
proof (induction s arbitrary: i)
  case Nil
  then show ?case by (cases t) (auto split: if_splits)
next
  case (Cons x xs)
  show ?case
  proof (cases "prefix p (x # xs)")
    case True
    then have "prefix p (x # xs @ t)"
      by (metis append_Cons prefix_prefix)
    with True Cons.prems show ?thesis by simp
  next
    case False
    with Cons.prems obtain k where k: "find_sub p xs = Some k" "i = Suc k"
      by (auto split: if_splits)
    have "length p \<le> length (x # xs)"
      using find_sub_occurs [OF k(1)] by simp
    with False have "\<not> prefix p (x # xs @ t)"
      by (metis append_Cons prefix_def prefix_length_prefix prefix_order.refl)
    with k Cons.IH show ?thesis by simp
  qed
qed

lemma find_sub_at:
  assumes "\<And>j. j < length a \<Longrightarrow> \<not> prefix p (drop j (a @ p @ b))"
  shows "find_sub p (a @ p @ b) = Some (length a)"
  using assms
proof (induction a)
  case Nil
  have "prefix p (p @ b)" by simp
  then show ?case
    by (cases "p @ b") (simp_all del: same_prefix_prefix)
next
  case (Cons x a)
  have "\<not> prefix p (x # a @ p @ b)"
    using Cons.prems [of 0] by simp
  moreover have "find_sub p (a @ p @ b) = Some (length a)"
  proof (rule Cons.IH)
    fix j assume "j < length a"
    then show "\<not> prefix p (drop j (a @ p @ b))"
      using Cons.prems [of "Suc j"] by simp
  qed
  ultimately show ?case by simp
qed

lemma find_sub_None:
  "find_sub p s = None \<Longrightarrow> \<not> prefix p (drop j s)"
proof (induction s arbitrary: j)
  case Nil
  then show ?case by (auto split: if_splits)
next
  case (Cons x xs)
  then show ?case by (cases j) (auto split: if_splits)
qed

text \<open>A proper prefix of a concatenation ends in the first part or in the second.\<close>

lemma strict_prefix_append_cases:
  assumes "strict_prefix b (s @ t)"
  obtains "strict_prefix b s" | b' where "b = s @ b'" "strict_prefix b' t"
proof -
  obtain r where r: "s @ t = b @ r" "r \<noteq> []"
    using assms by (auto simp: strict_prefix_def prefix_def)
  then consider us where "s = b @ us" "us @ t = r" | us where "s @ us = b" "t = us @ r"
    by (auto simp: append_eq_append_conv2)
  then show thesis
  proof cases
    case (1 us)
    then show thesis
      using that(1) that(2) [of "[]"] r by (cases us) (auto simp: strict_prefix_def)
  next
    case (2 us)
    then show thesis
      using that(2) [of us] r(2) by (auto simp: strict_prefix_def)
  qed
qed

subsection \<open>Queues\<close>

lemma in_set_tlD: "x \<in> set (tl xs) \<Longrightarrow> x \<in> set xs"
  by (cases xs) simp_all

lemma filter_none: "(\<And>x. x \<in> set xs \<Longrightarrow> \<not> P x) \<Longrightarrow> filter P xs = []"
  by (induction xs) auto

lemma filter_dropWhile:
  "(\<And>x. x \<in> set xs \<Longrightarrow> P x \<Longrightarrow> \<not> R x) \<Longrightarrow> filter R (dropWhile P xs) = filter R xs"
  by (induction xs) auto

lemma in_dropWhile_or: "x \<in> set xs \<Longrightarrow> x \<in> set (dropWhile P xs) \<or> P x"
  by (induction xs) auto

subsection \<open>Effects\<close>

text \<open>
  \<open>('e, 'a, 's) eff\<close> is asynchronous code run to its end: from an environment state it
  gives the thrown error or the value together with the state it leaves, or \<open>None\<close> when a
  loop ran out of fuel. Every \<open>await\<close> of the source is one application of such a function,
  so whatever other code does in between is part of the environment's operations.
\<close>

type_synonym ('e, 'a, 's) eff = "'s \<Rightarrow> (('e + 'a) \<times> 's) option"

definition return_eff :: "'a \<Rightarrow> ('e, 'a, 's) eff" where
  "return_eff a s = Some (Inr a, s)"

definition throw_eff :: "'e \<Rightarrow> ('e, 'a, 's) eff" where
  "throw_eff e s = Some (Inl e, s)"

definition get_eff :: "('s \<Rightarrow> 'a) \<Rightarrow> ('e, 'a, 's) eff" where
  "get_eff f s = Some (Inr (f s), s)"

definition modify_eff :: "('s \<Rightarrow> 's) \<Rightarrow> ('e, unit, 's) eff" where
  "modify_eff f s = Some (Inr (), f s)"

definition bind_eff :: "('e, 'a, 's) eff \<Rightarrow> ('a \<Rightarrow> ('e, 'b, 's) eff) \<Rightarrow> ('e, 'b, 's) eff" where
  "bind_eff m k s =
     (case m s of
        None \<Rightarrow> None
      | Some (Inl e, s') \<Rightarrow> Some (Inl e, s')
      | Some (Inr a, s') \<Rightarrow> k a s')"

text \<open>\<open>try { m } catch (e) { h(e) }\<close>\<close>

definition catch_eff :: "('e, 'a, 's) eff \<Rightarrow> ('e \<Rightarrow> ('e, 'a, 's) eff) \<Rightarrow> ('e, 'a, 's) eff" where
  "catch_eff m h s =
     (case m s of
        None \<Rightarrow> None
      | Some (Inl e, s') \<Rightarrow> h e s'
      | Some (Inr a, s') \<Rightarrow> Some (Inr a, s'))"

text \<open>
  \<open>try { m } finally { f }\<close>: \<open>f\<close> runs on both exits, and an error it throws replaces the
  outcome of \<open>m\<close>.
\<close>

definition finally_eff :: "('e, 'a, 's) eff \<Rightarrow> ('e, unit, 's) eff \<Rightarrow> ('e, 'a, 's) eff" where
  "finally_eff m f s =
     (case m s of
        None \<Rightarrow> None
      | Some (r, s') \<Rightarrow>
          (case f s' of
             None \<Rightarrow> None
           | Some (Inl e, s'') \<Rightarrow> Some (Inl e, s'')
           | Some (Inr _, s'') \<Rightarrow> Some (r, s'')))"

definition then_eff :: "('e, 'a, 's) eff \<Rightarrow> ('e, 'b, 's) eff \<Rightarrow> ('e, 'b, 's) eff" where
  "then_eff m n = bind_eff m (\<lambda>_. n)"

definition when_eff :: "bool \<Rightarrow> ('e, unit, 's) eff \<Rightarrow> ('e, unit, 's) eff" where
  "when_eff b m = (if b then m else return_eff ())"

lemmas eff_defs =
  return_eff_def throw_eff_def get_eff_def modify_eff_def bind_eff_def catch_eff_def
  finally_eff_def then_eff_def when_eff_def

lemma bind_eff_SomeE:
  assumes "bind_eff m k s = Some (r, s'')"
  obtains e s' where "m s = Some (Inl e, s')" "r = Inl e" "s'' = s'"
  | a s' where "m s = Some (Inr a, s')" "k a s' = Some (r, s'')"
  using assms by (auto simp: bind_eff_def split: option.splits sum.splits)

lemma return_eff_simp [eff_simps]: "return_eff a s = Some (Inr a, s)"
  by (simp add: return_eff_def)

lemma throw_eff_simp [eff_simps]: "throw_eff e s = Some (Inl e, s)"
  by (simp add: throw_eff_def)

lemma get_eff_simp [eff_simps]: "get_eff f s = Some (Inr (f s), s)"
  by (simp add: get_eff_def)

lemma modify_eff_simp [eff_simps]: "modify_eff f s = Some (Inr (), f s)"
  by (simp add: modify_eff_def)

lemma bind_eff_Inr [eff_simps]: "m s = Some (Inr a, s') \<Longrightarrow> bind_eff m k s = k a s'"
  by (simp add: bind_eff_def)

lemma bind_eff_Inl [eff_simps]: "m s = Some (Inl e, s') \<Longrightarrow> bind_eff m k s = Some (Inl e, s')"
  by (simp add: bind_eff_def)

subsection \<open>A program logic for effects\<close>

text \<open>
  \<open>triple P m Q E\<close>: from a state with \<open>P\<close>, if \<open>m\<close> ends it ends in \<open>Q\<close> with a value or in
  \<open>E\<close> with a thrown error. That it ends is stated separately where it matters.
\<close>

definition triple ::
  "('s \<Rightarrow> bool) \<Rightarrow> ('e, 'a, 's) eff \<Rightarrow> ('a \<Rightarrow> 's \<Rightarrow> bool) \<Rightarrow> ('e \<Rightarrow> 's \<Rightarrow> bool) \<Rightarrow> bool" where
  "triple P m Q E \<longleftrightarrow>
     (\<forall>s r s'. P s \<longrightarrow> m s = Some (r, s') \<longrightarrow>
        (case r of Inl e \<Rightarrow> E e s' | Inr a \<Rightarrow> Q a s'))"

named_theorems triple_intro \<open>rules of the program logic, one per combinator\<close>

lemma tripleD:
  "triple P m Q E \<Longrightarrow> P s \<Longrightarrow> m s = Some (Inr a, s') \<Longrightarrow> Q a s'"
  "triple P m Q E \<Longrightarrow> P s \<Longrightarrow> m s = Some (Inl e, s') \<Longrightarrow> E e s'"
  by (fastforce simp: triple_def)+

lemma triple_weaken:
  "triple P' m Q' E' \<Longrightarrow> (\<And>s. P s \<Longrightarrow> P' s) \<Longrightarrow> (\<And>a s. Q' a s \<Longrightarrow> Q a s) \<Longrightarrow>
   (\<And>e s. E' e s \<Longrightarrow> E e s) \<Longrightarrow> triple P m Q E"
  by (fastforce simp: triple_def split: sum.splits)

lemma triple_return [triple_intro]: "triple (Q a) (return_eff a) Q E"
  by (simp add: triple_def return_eff_def)

lemma triple_throw [triple_intro]: "triple (E e) (throw_eff e) Q E"
  by (simp add: triple_def throw_eff_def)

lemma tripleI:
  "(\<And>s a s'. P s \<Longrightarrow> m s = Some (Inr a, s') \<Longrightarrow> Q a s') \<Longrightarrow>
   (\<And>s e s'. P s \<Longrightarrow> m s = Some (Inl e, s') \<Longrightarrow> E e s') \<Longrightarrow> triple P m Q E"
  by (auto simp: triple_def split: sum.splits)

lemma triple_bind [triple_intro]:
  assumes "triple P m R E" "\<And>a. triple (R a) (k a) Q E"
  shows "triple P (bind_eff m k) Q E"
proof (rule tripleI)
  fix s a s'
  assume P: "P s" and "bind_eff m k s = Some (Inr a, s')"
  then obtain b s1 where "m s = Some (Inr b, s1)" "k b s1 = Some (Inr a, s')"
    by (auto elim!: bind_eff_SomeE)
  then show "Q a s'"
    using tripleD(1) [OF assms(1) P] tripleD(1) [OF assms(2)] by blast
next
  fix s e s'
  assume P: "P s" and "bind_eff m k s = Some (Inl e, s')"
  then have "m s = Some (Inl e, s') \<or> (\<exists>b s1. m s = Some (Inr b, s1) \<and> k b s1 = Some (Inl e, s'))"
    by (auto elim!: bind_eff_SomeE)
  then show "E e s'"
    using tripleD [OF assms(1) P] tripleD(2) [OF assms(2)] by blast
qed

lemma triple_then [triple_intro]:
  "triple P m (\<lambda>_. R) E \<Longrightarrow> triple R n Q E \<Longrightarrow> triple P (then_eff m n) Q E"
  unfolding then_eff_def by (rule triple_bind)

lemma triple_catch [triple_intro]:
  assumes "triple P m Q R" "\<And>e. triple (R e) (h e) Q E"
  shows "triple P (catch_eff m h) Q E"
proof (rule tripleI)
  fix s a s'
  assume P: "P s" and "catch_eff m h s = Some (Inr a, s')"
  then have "m s = Some (Inr a, s') \<or> (\<exists>e s1. m s = Some (Inl e, s1) \<and> h e s1 = Some (Inr a, s'))"
    by (auto simp: catch_eff_def split: option.splits sum.splits)
  then show "Q a s'"
    using tripleD [OF assms(1) P] tripleD(1) [OF assms(2)] by blast
next
  fix s e s'
  assume P: "P s" and "catch_eff m h s = Some (Inl e, s')"
  then have "\<exists>e' s1. m s = Some (Inl e', s1) \<and> h e' s1 = Some (Inl e, s')"
    by (auto simp: catch_eff_def split: option.splits sum.splits)
  then show "E e s'"
    using tripleD(2) [OF assms(1) P] tripleD(2) [OF assms(2)] by blast
qed

lemma triple_finally [triple_intro]:
  assumes "triple P m (\<lambda>a. R (Inr a)) (\<lambda>e. R (Inl e))"
    and "\<And>r. triple (R r) f (\<lambda>_ s. case r of Inl e \<Rightarrow> E e s | Inr a \<Rightarrow> Q a s) E"
  shows "triple P (finally_eff m f) Q E"
proof (rule tripleI)
  fix s a s'
  assume P: "P s" and "finally_eff m f s = Some (Inr a, s')"
  then obtain s1 where "m s = Some (Inr a, s1)" "f s1 = Some (Inr (), s')"
    by (auto simp: finally_eff_def split: option.splits sum.splits prod.splits)
  then show "Q a s'"
    using tripleD(1) [OF assms(1) P] tripleD(1) [OF assms(2) [of "Inr a"]] by fastforce
next
  fix s e s'
  assume P: "P s" and "finally_eff m f s = Some (Inl e, s')"
  then obtain r s1 where "m s = Some (r, s1)"
      "f s1 = Some (Inl e, s') \<or> f s1 = Some (Inr (), s') \<and> r = Inl e"
    by (auto simp: finally_eff_def split: option.splits sum.splits prod.splits)
  then show "E e s'"
    using tripleD [OF assms(1) P] tripleD [OF assms(2) [of r]] by (cases r) fastforce+
qed

lemma triple_if [triple_intro]:
  "(b \<Longrightarrow> triple P m Q E) \<Longrightarrow> (\<not> b \<Longrightarrow> triple P n Q E) \<Longrightarrow> triple P (if b then m else n) Q E"
  by simp

lemma triple_when [triple_intro]:
  "triple P m (\<lambda>_. Q ()) E \<Longrightarrow> (\<And>s. P s \<Longrightarrow> Q () s) \<Longrightarrow> triple P (when_eff b m) Q E"
  by (auto simp: when_eff_def triple_def return_eff_def)

lemma triple_get: "(\<And>x. triple (\<lambda>s. P s \<and> f s = x) (k x) Q E) \<Longrightarrow> triple P (bind_eff (get_eff f) k) Q E"
  by (auto simp: triple_def bind_eff_def get_eff_def)

lemma triple_modify: "(\<And>s. P s \<Longrightarrow> Q (f s)) \<Longrightarrow> triple P (modify_eff f) (\<lambda>_. Q) E"
  by (auto simp: triple_def modify_eff_def)

lemma triple_pre: "triple P' m Q E \<Longrightarrow> (\<And>s. P s \<Longrightarrow> P' s) \<Longrightarrow> triple P m Q E"
  by (fastforce simp: triple_def)

lemma triple_pure: "(b \<Longrightarrow> triple P m Q E) \<Longrightarrow> triple (\<lambda>s. P s \<and> b) m Q E"
  by (auto simp: triple_def)

lemma triple_option:
  "(x = None \<Longrightarrow> triple P m Q E) \<Longrightarrow> (\<And>a. x = Some a \<Longrightarrow> triple P (k a) Q E) \<Longrightarrow>
   triple P (case x of None \<Rightarrow> m | Some a \<Rightarrow> k a) Q E"
  by (cases x) simp_all

lemma triple_sum:
  "(\<And>a. x = Inl a \<Longrightarrow> triple P (h a) Q E) \<Longrightarrow> (\<And>b. x = Inr b \<Longrightarrow> triple P (k b) Q E) \<Longrightarrow>
   triple P (case x of Inl a \<Rightarrow> h a | Inr b \<Rightarrow> k b) Q E"
  by (cases x) simp_all

text \<open>A step that keeps an invariant on both exits.\<close>

abbreviation keeps_inv :: "('s \<Rightarrow> bool) \<Rightarrow> ('e, 'a, 's) eff \<Rightarrow> bool" where
  "keeps_inv I m \<equiv> triple I m (\<lambda>_. I) (\<lambda>_. I)"

lemma keeps_weaken: "keeps_inv P m \<Longrightarrow> (\<And>e s. P s \<Longrightarrow> E e s) \<Longrightarrow> triple P m (\<lambda>_. P) E"
  by (rule triple_weaken [where P' = P and Q' = "\<lambda>_. P" and E' = "\<lambda>_. P"])

lemma keeps_inv_get: "keeps_inv I (get_eff f)"
  by (simp add: triple_def get_eff_def)

lemma keeps_inv_when: "keeps_inv I m \<Longrightarrow> keeps_inv I (when_eff b m)"
  by (auto simp: when_eff_def triple_def return_eff_def)

lemma keeps_inv_return: "keeps_inv I (return_eff a)"
  by (simp add: triple_def return_eff_def)

lemma keeps_inv_throw: "keeps_inv I (throw_eff e)"
  by (simp add: triple_def throw_eff_def)

lemma keeps_inv_bind: "keeps_inv I m \<Longrightarrow> (\<And>a. keeps_inv I (k a)) \<Longrightarrow> keeps_inv I (bind_eff m k)"
  by (rule triple_bind)

lemma keeps_inv_then: "keeps_inv I m \<Longrightarrow> keeps_inv I n \<Longrightarrow> keeps_inv I (then_eff m n)"
  by (rule triple_then)

lemma keeps_inv_catch: "keeps_inv I m \<Longrightarrow> (\<And>e. keeps_inv I (h e)) \<Longrightarrow> keeps_inv I (catch_eff m h)"
  by (rule triple_catch)

lemma keeps_inv_modify: "(\<And>s. I s \<Longrightarrow> I (f s)) \<Longrightarrow> keeps_inv I (modify_eff f)"
  by (rule triple_modify)

lemma keeps_inv_if: "(b \<Longrightarrow> keeps_inv I m) \<Longrightarrow> (\<not> b \<Longrightarrow> keeps_inv I n) \<Longrightarrow> keeps_inv I (if b then m else n)"
  by simp

lemma keeps_inv_prod:
  "(\<And>a b. x = (a, b) \<Longrightarrow> keeps_inv I (k a b)) \<Longrightarrow> keeps_inv I (case x of (a, b) \<Rightarrow> k a b)"
  by (cases x) simp

lemma keeps_inv_list:
  "(x = [] \<Longrightarrow> keeps_inv I m) \<Longrightarrow> (\<And>a r. x = a # r \<Longrightarrow> keeps_inv I (k a r)) \<Longrightarrow>
   keeps_inv I (case x of [] \<Rightarrow> m | a # r \<Rightarrow> k a r)"
  by (cases x) simp_all

lemmas keeps_inv_intros =
  keeps_inv_return keeps_inv_throw keeps_inv_bind keeps_inv_then keeps_inv_catch keeps_inv_modify keeps_inv_if
  keeps_inv_get keeps_inv_when triple_option keeps_inv_prod triple_sum keeps_inv_list

text \<open>Two judgements about one run, and effects that always end.\<close>

lemma triple_conj:
  assumes "triple P m Q E" "triple P' m Q' E'"
  shows "triple (\<lambda>s. P s \<and> P' s) m (\<lambda>a s. Q a s \<and> Q' a s) (\<lambda>e s. E e s \<and> E' e s)"
  using tripleD [OF assms(1)] tripleD [OF assms(2)] by (auto intro!: tripleI)

definition ends :: "('e, 'a, 's) eff \<Rightarrow> bool" where
  "ends m \<longleftrightarrow> (\<forall>s. m s \<noteq> None)"

lemma endsD: "ends m \<Longrightarrow> m s \<noteq> None"
  by (simp add: ends_def)

lemma ends_return: "ends (return_eff a)"
  by (simp add: ends_def return_eff_def)

lemma ends_throw: "ends (throw_eff e)"
  by (simp add: ends_def throw_eff_def)

lemma ends_get: "ends (get_eff f)"
  by (simp add: ends_def get_eff_def)

lemma ends_modify: "ends (modify_eff f)"
  by (simp add: ends_def modify_eff_def)

lemma ends_bind: "ends m \<Longrightarrow> (\<And>a. ends (k a)) \<Longrightarrow> ends (bind_eff m k)"
  by (auto simp: ends_def bind_eff_def split: option.split sum.split)

lemma ends_then: "ends m \<Longrightarrow> ends n \<Longrightarrow> ends (then_eff m n)"
  unfolding then_eff_def by (rule ends_bind)

lemma ends_catch: "ends m \<Longrightarrow> (\<And>e. ends (h e)) \<Longrightarrow> ends (catch_eff m h)"
  by (auto simp: ends_def catch_eff_def split: option.split sum.split)

lemma ends_finally: "ends m \<Longrightarrow> ends f \<Longrightarrow> ends (finally_eff m f)"
  unfolding ends_def finally_eff_def
  by (auto split: option.split sum.split) (metis option.distinct(1))

lemma ends_if: "(b \<Longrightarrow> ends m) \<Longrightarrow> (\<not> b \<Longrightarrow> ends n) \<Longrightarrow> ends (if b then m else n)"
  by simp

lemma ends_option:
  "(x = None \<Longrightarrow> ends m) \<Longrightarrow> (\<And>a. x = Some a \<Longrightarrow> ends (k a)) \<Longrightarrow> ends (case x of None \<Rightarrow> m | Some a \<Rightarrow> k a)"
  by (cases x) simp_all

lemma ends_sum:
  "(\<And>a. x = Inl a \<Longrightarrow> ends (h a)) \<Longrightarrow> (\<And>b. x = Inr b \<Longrightarrow> ends (k b)) \<Longrightarrow>
   ends (case x of Inl a \<Rightarrow> h a | Inr b \<Rightarrow> k b)"
  by (cases x) simp_all

lemma ends_prod: "(\<And>a b. x = (a, b) \<Longrightarrow> ends (k a b)) \<Longrightarrow> ends (case x of (a, b) \<Rightarrow> k a b)"
  by (cases x) simp

lemmas ends_intros =
  ends_return ends_throw ends_get ends_modify ends_bind ends_then ends_catch ends_finally ends_if ends_option
  ends_sum ends_prod

end
