(* ===== verification/Naive_Socket.thy ===== *)
theory Naive_Socket
  imports Prelude "HOL-Library.Word"
begin

section \<open>The TCP client (naive-socket/src/naive-socket.ts, promise.ts)\<close>

text \<open>
  A serialized request queue over one socket: at most one request is on the wire, incoming
  data is matched against it, per-request timeouts, reconnect after a close. JavaScript
  objects that are shared by reference (a request that is in the queue, in a timer closure
  and in a write callback) live in the store \<open>works\<close> and are named by their number.
  Everything Node calls back into the client is an event; \<open>sock_step\<close> runs one of them.

  What is a parameter: the socket library (\<open>openError\<close> says which \<open>tls.connect\<close> calls
  throw), the UTF-8 decoder of the standard library (\<open>decodeChunk\<close>), the consumer of
  unsolicited data, and the state listener, of which the model keeps what the listeners of
  this repository do: react to \<open>Connected\<close> only, by sending the requests
  \<open>connectedRequests\<close> from inside the callback. Logging has no effect on the state and is
  left out; calls into the socket and the consumer are recorded in \<open>sock_out\<close>.
\<close>

type_synonym byte = "8 word"

subsection \<open>Promises settled from outside\<close>

datatype sock_error =
    DeadSocket | ResetSocket | TimeoutError int | OpenError string
  | WriteFailed "string option" | Reason string

datatype promise = Pending | Resolved string | Rejected sock_error

definition isSettled :: "promise \<Rightarrow> bool" where
  "isSettled p \<longleftrightarrow> p \<noteq> Pending"

definition p_resolve :: "string \<Rightarrow> promise \<Rightarrow> promise" where
  "p_resolve r p = (if isSettled p then p else Resolved r)"

definition p_reject :: "sock_error \<Rightarrow> promise \<Rightarrow> promise" where
  "p_reject e p = (if isSettled p then p else Rejected e)"

lemma settled_resolve [simp]: "isSettled (p_resolve r p)"
  by (simp add: p_resolve_def isSettled_def)

lemma settled_reject [simp]: "isSettled (p_reject e p)"
  by (simp add: p_reject_def isSettled_def)

subsection \<open>Requests, works and the client's state\<close>

datatype ConnectionState = Connecting | Connected | Disconnected

text \<open>A regular expression is given by its first capture group on a buffer.\<close>

datatype Fulfill =
    FulfillBy "string \<Rightarrow> int"
  | FulfillRegex "string \<Rightarrow> string option"
  | FulfillLength int

record SendRequest =
  req_message :: string
  req_fulfill :: "Fulfill option"
  req_timeoutMillis :: "int option"
  req_urgent :: bool
  req_expectResponse :: "bool option"

text \<open>\<open>w_timer\<close>: a timeout of this work is pending. \<open>w_arms\<close> counts how often it was started.\<close>

record SendWork =
  w_message :: string
  w_fulfill :: Fulfill
  w_timeoutMillis :: int
  w_expectResponse :: bool
  w_promise :: promise
  w_timer :: bool
  w_written :: bool
  w_resent :: bool
  w_deadlineStarted :: bool
  w_arms :: nat

datatype consumer_result = Took int | ConsumerThrew

record SocketOptions =
  connectionRetryInterval :: int
  onUnsolicitedData :: "(string \<Rightarrow> consumer_result) option"
  connectedRequests :: "SendRequest list"
  openError :: "nat \<Rightarrow> string option"
  decodeChunk :: "byte list \<Rightarrow> byte list \<Rightarrow> string \<times> byte list"

datatype sock_call =
    Opened nat | Destroyed nat | Wrote nat nat string
  | StateChanged ConnectionState | Consumed string | DiscardedBytes nat

text \<open>
  \<open>sock_writing\<close> holds the writes whose callback has not run yet, \<open>sock_reconnects\<close> counts
  the pending reconnect timers, \<open>sock_ended\<close> is what \<open>destroyed\<close>, \<open>readableEnded\<close> and
  \<open>writableEnded\<close> of the current socket report. \<open>sock_onWire\<close> is bookkeeping of the model
  only: the requests written to the current socket whose response has not been consumed.
\<close>

record NaiveSocketImpl =
  sendWorks :: "nat list"
  works :: "nat \<Rightarrow> SendWork"
  nextWork :: nat
  sock_decoder :: "byte list"
  currentBuffer :: string
  connectionState :: ConnectionState
  sock_socket :: "nat option"
  nextSocket :: nat
  sock_ended :: bool
  sock_alive :: bool
  sock_reconnects :: nat
  sock_writing :: "nat list"
  sock_onWire :: "nat list"
  sock_out :: "sock_call list"

definition noWork :: SendWork where
  "noWork = \<lparr>w_message = [], w_fulfill = FulfillLength 0, w_timeoutMillis = 0,
     w_expectResponse = True, w_promise = Pending, w_timer = False, w_written = False,
     w_resent = False, w_deadlineStarted = False, w_arms = 0\<rparr>"

definition createNaiveSocket :: NaiveSocketImpl where
  "createNaiveSocket = \<lparr>sendWorks = [], works = (\<lambda>_. noWork), nextWork = 0,
     sock_decoder = [], currentBuffer = [], connectionState = Disconnected,
     sock_socket = None, nextSocket = 0, sock_ended = False, sock_alive = True,
     sock_reconnects = 0, sock_writing = [], sock_onWire = [], sock_out = []\<rparr>"

definition upd_work :: "nat \<Rightarrow> (SendWork \<Rightarrow> SendWork) \<Rightarrow> NaiveSocketImpl \<Rightarrow> NaiveSocketImpl" where
  "upd_work w f s = s\<lparr>works := (works s)(w := f (works s w))\<rparr>"

definition emit_call :: "sock_call \<Rightarrow> NaiveSocketImpl \<Rightarrow> NaiveSocketImpl" where
  "emit_call a s = s\<lparr>sock_out := sock_out s @ [a]\<rparr>"

definition settle_work :: "(promise \<Rightarrow> promise) \<Rightarrow> nat \<Rightarrow> NaiveSocketImpl \<Rightarrow> NaiveSocketImpl" where
  "settle_work f w = upd_work w (\<lambda>k. k\<lparr>w_promise := f (w_promise k), w_timer := False\<rparr>)"

subsection \<open>The operations\<close>

definition armTimeout :: "nat \<Rightarrow> NaiveSocketImpl \<Rightarrow> NaiveSocketImpl" where
  "armTimeout w s =
     (if w_timeoutMillis (works s w) \<le> 0 then s
      else upd_work w (\<lambda>k. k\<lparr>w_timer := True, w_arms := Suc (w_arms k)\<rparr>) s)"

definition buildSendWork :: "SendRequest \<Rightarrow> NaiveSocketImpl \<Rightarrow> NaiveSocketImpl \<times> nat" where
  "buildSendWork r s =
     (let w = nextWork s;
          k = \<lparr>w_message = req_message r,
               w_fulfill = (case req_fulfill r of
                  None \<Rightarrow> FulfillBy (\<lambda>buffer. int (length buffer)) | Some f \<Rightarrow> f),
               w_timeoutMillis = (case req_timeoutMillis r of None \<Rightarrow> 0 | Some t \<Rightarrow> t),
               w_expectResponse = (case req_expectResponse r of None \<Rightarrow> True | Some b \<Rightarrow> b),
               w_promise = Pending, w_timer = False, w_written = False, w_resent = False,
               w_deadlineStarted = False, w_arms = 0\<rparr>
      in (armTimeout w (s\<lparr>works := (works s)(w := k), nextWork := Suc w\<rparr>), w))"

definition changeConnectionState :: "ConnectionState \<Rightarrow> NaiveSocketImpl \<Rightarrow> NaiveSocketImpl" where
  "changeConnectionState st s = emit_call (StateChanged st) (s\<lparr>connectionState := st\<rparr>)"

definition failAllPendingWork :: "sock_error \<Rightarrow> NaiveSocketImpl \<Rightarrow> NaiveSocketImpl" where
  "failAllPendingWork e s =
     fold (settle_work (p_reject e)) (sendWorks s) (s\<lparr>sendWorks := []\<rparr>)"

definition openSocket :: "SocketOptions \<Rightarrow> NaiveSocketImpl \<Rightarrow> string + NaiveSocketImpl" where
  "openSocket c s =
     (case openError c (nextSocket s) of
        Some e \<Rightarrow> Inl e
      | None \<Rightarrow> Inr (emit_call (Opened (nextSocket s))
          (s\<lparr>sock_socket := Some (nextSocket s), nextSocket := Suc (nextSocket s),
             sock_ended := False\<rparr>)))"

definition connect :: "SocketOptions \<Rightarrow> NaiveSocketImpl \<Rightarrow> NaiveSocketImpl" where
  "connect c s0 =
     (let s = changeConnectionState Connecting s0 in
      case openSocket c s of
        Inr s' \<Rightarrow> s'
      | Inl e \<Rightarrow>
          (changeConnectionState Disconnected (failAllPendingWork (OpenError e) s))
            \<lparr>sock_socket := None, nextSocket := Suc (nextSocket s)\<rparr>)"

definition clear_written :: "nat list \<Rightarrow> NaiveSocketImpl \<Rightarrow> NaiveSocketImpl" where
  "clear_written = fold (\<lambda>w. upd_work w (\<lambda>k. k\<lparr>w_written := False\<rparr>))"

definition doDisconnect :: "NaiveSocketImpl \<Rightarrow> NaiveSocketImpl" where
  "doDisconnect s =
     (let s1 = (case sock_socket s of None \<Rightarrow> s | Some n \<Rightarrow> emit_call (Destroyed n) s);
          s2 = s1\<lparr>sock_decoder := [], currentBuffer := [], sock_onWire := []\<rparr>;
          s3 = clear_written (sendWorks s2) s2
      in (changeConnectionState Disconnected s3)\<lparr>sock_socket := None\<rparr>)"

definition write_work :: "nat \<Rightarrow> nat \<Rightarrow> NaiveSocketImpl \<Rightarrow> NaiveSocketImpl" where
  "write_work n w s =
     emit_call (Wrote n w (w_message (works s w)))
       (s\<lparr>sock_writing := sock_writing s @ [w],
          sock_onWire := sock_onWire s @ (if w_expectResponse (works s w) then [w] else [])\<rparr>)"

definition doNextSendWork :: "SocketOptions \<Rightarrow> NaiveSocketImpl \<Rightarrow> NaiveSocketImpl" where
  "doNextSendWork c s =
     (if connectionState s = Connecting then s
      else case sock_socket s of
        None \<Rightarrow> connect c s
      | Some n \<Rightarrow>
          (if connectionState s \<noteq> Connected then connect c s
           else if sock_ended s then connect c (doDisconnect s)
           else
             (let s1 = s\<lparr>sendWorks :=
                    dropWhile (\<lambda>w. isSettled (w_promise (works s w))) (sendWorks s)\<rparr> in
              case sendWorks s1 of
                [] \<Rightarrow> s1
              | w # _ \<Rightarrow>
                  (if w_written (works s1 w) then s1
                   else
                     (let s2 = upd_work w (\<lambda>k. k\<lparr>w_written := True\<rparr>) s1;
                          s3 = (if w_deadlineStarted (works s2 w) then s2
                                else armTimeout w
                                  (upd_work w (\<lambda>k. k\<lparr>w_deadlineStarted := True\<rparr>) s2))
                      in write_work n w s3)))))"

definition send :: "SocketOptions \<Rightarrow> SendRequest \<Rightarrow> NaiveSocketImpl \<Rightarrow> NaiveSocketImpl" where
  "send c r s =
     (let (s1, w) = buildSendWork r (s\<lparr>sock_alive := True\<rparr>);
          q = sendWorks s1;
          q' = (if req_urgent r
                then (case q of
                        h # t \<Rightarrow> if w_written (works s1 h) then h # w # t else w # q
                      | [] \<Rightarrow> [w])
                else q @ [w]);
          s2 = s1\<lparr>sendWorks := q'\<rparr>
      in if length q' = 1 then doNextSendWork c s2 else s2)"

definition retryToConnect :: "SocketOptions \<Rightarrow> NaiveSocketImpl \<Rightarrow> NaiveSocketImpl" where
  "retryToConnect c s =
     (let s1 = doDisconnect s in
      if sendWorks s1 = [] \<and> onUnsolicitedData c = None then s1
      else if connectionRetryInterval c < 0 then s1
      else s1\<lparr>sock_reconnects := Suc (sock_reconnects s1)\<rparr>)"

definition reconnectTimer :: "SocketOptions \<Rightarrow> NaiveSocketImpl \<Rightarrow> NaiveSocketImpl" where
  "reconnectTimer c s =
     (if sock_reconnects s = 0 then s
      else
        (let s1 = s\<lparr>sock_reconnects := sock_reconnects s - 1\<rparr> in
         if sock_alive s1 \<and> connectionState s1 = Disconnected then connect c s1 else s1))"

definition disconnect :: "sock_error option \<Rightarrow> NaiveSocketImpl \<Rightarrow> NaiveSocketImpl" where
  "disconnect reason s =
     failAllPendingWork (case reason of None \<Rightarrow> DeadSocket | Some e \<Rightarrow> e)
       (doDisconnect (s\<lparr>sock_alive := False\<rparr>))"

definition reset :: "SocketOptions \<Rightarrow> sock_error option \<Rightarrow> NaiveSocketImpl \<Rightarrow> NaiveSocketImpl" where
  "reset c reason s =
     retryToConnect c
       (failAllPendingWork (case reason of None \<Rightarrow> ResetSocket | Some e \<Rightarrow> e) s)"

definition onConnect :: "SocketOptions \<Rightarrow> NaiveSocketImpl \<Rightarrow> NaiveSocketImpl" where
  "onConnect c s =
     doNextSendWork c
       (fold (send c) (connectedRequests c) (changeConnectionState Connected s))"

definition onClose :: "SocketOptions \<Rightarrow> NaiveSocketImpl \<Rightarrow> NaiveSocketImpl" where
  "onClose c s = (if sock_alive s then retryToConnect c s else s)"

text \<open>The handler of \<open>error\<close> only logs, in each of the three states.\<close>

definition onError :: "NaiveSocketImpl \<Rightarrow> NaiveSocketImpl" where
  "onError s = s"

definition fulfillByRegex :: "(string \<Rightarrow> string option) \<Rightarrow> string \<Rightarrow> int" where
  "fulfillByRegex regex buffer =
     (case regex buffer of Some cap \<Rightarrow> int (length cap) | None \<Rightarrow> -1)"

definition fulfillByLength :: "int \<Rightarrow> string \<Rightarrow> int" where
  "fulfillByLength n buffer = (if int (length buffer) \<ge> n then n else -1)"

fun fulfill_length :: "Fulfill \<Rightarrow> string \<Rightarrow> int" where
  "fulfill_length (FulfillRegex r) buffer = fulfillByRegex r buffer"
| "fulfill_length (FulfillLength n) buffer = fulfillByLength n buffer"
| "fulfill_length (FulfillBy f) buffer = f buffer"

text \<open>The loop feeds the consumer until it stops taking bytes; each pass shortens the buffer.\<close>

function feed_consumer ::
  "(string \<Rightarrow> consumer_result) \<Rightarrow> string \<Rightarrow> string \<times> sock_call list" where
  "feed_consumer consume buffer =
     (if buffer = [] then ([], [])
      else case consume buffer of
        ConsumerThrew \<Rightarrow> ([], [DiscardedBytes (length buffer)])
      | Took n \<Rightarrow>
          (if n \<le> 0 then (buffer, [])
           else
             (let (rest, calls) = feed_consumer consume (drop (nat n) buffer)
              in (rest, Consumed (take (nat n) buffer) # calls))))"
  by pat_completeness auto
termination
  by (relation "measure (\<lambda>(_, buffer). length buffer)") auto

declare feed_consumer.simps [simp del]

definition consumeUnsolicitedData :: "SocketOptions \<Rightarrow> NaiveSocketImpl \<Rightarrow> NaiveSocketImpl" where
  "consumeUnsolicitedData c s =
     (case onUnsolicitedData c of
        None \<Rightarrow> emit_call (DiscardedBytes (length (currentBuffer s))) (s\<lparr>currentBuffer := []\<rparr>)
      | Some consume \<Rightarrow>
          (let (rest, calls) = feed_consumer consume (currentBuffer s)
           in s\<lparr>currentBuffer := rest, sock_out := sock_out s @ calls\<rparr>))"

definition head_expects :: "NaiveSocketImpl \<Rightarrow> bool" where
  "head_expects s = (case sendWorks s of [] \<Rightarrow> False | w # _ \<Rightarrow> w_expectResponse (works s w))"

definition onData :: "SocketOptions \<Rightarrow> byte list \<Rightarrow> NaiveSocketImpl \<Rightarrow> NaiveSocketImpl" where
  "onData c chunk s0 =
     (let (txt, pending) = decodeChunk c (sock_decoder s0) chunk;
          s = s0\<lparr>currentBuffer := currentBuffer s0 @ txt, sock_decoder := pending\<rparr>
      in if \<not> head_expects s then consumeUnsolicitedData c s
         else
           (let w = hd (sendWorks s);
                n = fulfill_length (w_fulfill (works s w)) (currentBuffer s)
            in if n \<le> 0 then s
               else
                 (let s1 = settle_work (p_resolve (take (nat n) (currentBuffer s))) w s;
                      s2 = s1\<lparr>currentBuffer := drop (nat n) (currentBuffer s1),
                              sendWorks := tl (sendWorks s1), sock_onWire := tl (sock_onWire s1)\<rparr>;
                      s3 = doNextSendWork c s2
                  in if currentBuffer s3 \<noteq> [] \<and> \<not> head_expects s3
                     then consumeUnsolicitedData c s3 else s3)))"

text \<open>What the callback of \<open>socket.write\<close> is called with: no error, or one with its code.\<close>

datatype write_result = WriteOk | WriteError "string option"

definition NOTHING_SENT_CODES :: "string list" where
  "NOTHING_SENT_CODES =
     [''EPIPE'', ''ECONNRESET'', ''ERR_STREAM_WRITE_AFTER_END'', ''ERR_STREAM_DESTROYED'']"

definition isNothingSentError :: "string option \<Rightarrow> bool" where
  "isNothingSentError code =
     (case code of None \<Rightarrow> False | Some k \<Rightarrow> k \<in> set NOTHING_SENT_CODES)"

definition is_head :: "nat \<Rightarrow> NaiveSocketImpl \<Rightarrow> bool" where
  "is_head w s = (case sendWorks s of [] \<Rightarrow> False | h # _ \<Rightarrow> h = w)"

definition writeCallback ::
  "SocketOptions \<Rightarrow> nat \<Rightarrow> write_result \<Rightarrow> NaiveSocketImpl \<Rightarrow> NaiveSocketImpl" where
  "writeCallback c w r s =
     (case r of
        WriteError code \<Rightarrow>
          (if isNothingSentError code \<and> \<not> w_resent (works s w) \<and> is_head w s \<and> sock_alive s
           then connect c (doDisconnect (upd_work w (\<lambda>k. k\<lparr>w_resent := True\<rparr>) s))
           else
             (let s1 = (if is_head w s then s\<lparr>sendWorks := tl (sendWorks s)\<rparr> else s)
              in retryToConnect c (settle_work (p_reject (WriteFailed code)) w s1)))
      | WriteOk \<Rightarrow>
          (if w_expectResponse (works s w) then s
           else
             (let s1 = settle_work (p_resolve []) w s
              in if is_head w s1
                 then doNextSendWork c (s1\<lparr>sendWorks := tl (sendWorks s1)\<rparr>) else s1)))"

definition timeoutFires :: "nat \<Rightarrow> NaiveSocketImpl \<Rightarrow> NaiveSocketImpl" where
  "timeoutFires w s =
     (if w_timer (works s w)
      then settle_work (p_reject (TimeoutError (w_timeoutMillis (works s w)))) w s else s)"

subsection \<open>Events\<close>

datatype sock_event =
    EvSend SendRequest | EvDisconnect "sock_error option" | EvReset "sock_error option"
  | EvConnect nat | EvError nat | EvData nat "byte list" | EvClose nat | EvEnded nat
  | EvTimeout nat | EvReconnect | EvWritten nat write_result

text \<open>\<open>current\<close>: an event of a socket that is no longer the current one does nothing.\<close>

definition current :: "nat \<Rightarrow> (NaiveSocketImpl \<Rightarrow> NaiveSocketImpl) \<Rightarrow> NaiveSocketImpl \<Rightarrow> NaiveSocketImpl" where
  "current n listener s = (if sock_socket s = Some n then listener s else s)"

fun sock_step :: "SocketOptions \<Rightarrow> sock_event \<Rightarrow> NaiveSocketImpl \<Rightarrow> NaiveSocketImpl" where
  "sock_step c (EvSend r) s = send c r s"
| "sock_step c (EvDisconnect e) s = disconnect e s"
| "sock_step c (EvReset e) s = reset c e s"
| "sock_step c (EvConnect n) s =
     (if connectionState s = Connecting then current n (onConnect c) s else s)"
| "sock_step c (EvError n) s = current n onError s"
| "sock_step c (EvData n chunk) s =
     (if connectionState s = Connected then current n (onData c chunk) s else s)"
| "sock_step c (EvClose n) s = current n (onClose c) s"
| "sock_step c (EvEnded n) s = current n (\<lambda>s. s\<lparr>sock_ended := True\<rparr>) s"
| "sock_step c (EvTimeout w) s = timeoutFires w s"
| "sock_step c EvReconnect s = reconnectTimer c s"
| "sock_step c (EvWritten w r) s =
     (if w \<in> set (sock_writing s)
      then writeCallback c w r (s\<lparr>sock_writing := remove1 w (sock_writing s)\<rparr>) else s)"

definition sock_run :: "SocketOptions \<Rightarrow> sock_event list \<Rightarrow> NaiveSocketImpl" where
  "sock_run c es = fold (sock_step c) es createNaiveSocket"

subsection \<open>Closed forms of the helpers\<close>

lemma upd_work_simps [simp]:
  "sendWorks (upd_work w f s) = sendWorks s"
  "works (upd_work w f s) = (works s)(w := f (works s w))"
  "nextWork (upd_work w f s) = nextWork s"
  "connectionState (upd_work w f s) = connectionState s"
  "sock_socket (upd_work w f s) = sock_socket s"
  "sock_ended (upd_work w f s) = sock_ended s"
  "sock_alive (upd_work w f s) = sock_alive s"
  "sock_writing (upd_work w f s) = sock_writing s"
  "sock_onWire (upd_work w f s) = sock_onWire s"
  "currentBuffer (upd_work w f s) = currentBuffer s"
  "sock_decoder (upd_work w f s) = sock_decoder s"
  "sock_reconnects (upd_work w f s) = sock_reconnects s"
  "nextSocket (upd_work w f s) = nextSocket s"
  "sock_out (upd_work w f s) = sock_out s"
  by (simp_all add: upd_work_def)

lemma emit_call_simps [simp]:
  "sendWorks (emit_call a s) = sendWorks s"
  "works (emit_call a s) = works s"
  "nextWork (emit_call a s) = nextWork s"
  "connectionState (emit_call a s) = connectionState s"
  "sock_socket (emit_call a s) = sock_socket s"
  "sock_ended (emit_call a s) = sock_ended s"
  "sock_alive (emit_call a s) = sock_alive s"
  "sock_writing (emit_call a s) = sock_writing s"
  "sock_onWire (emit_call a s) = sock_onWire s"
  "currentBuffer (emit_call a s) = currentBuffer s"
  "sock_decoder (emit_call a s) = sock_decoder s"
  "sock_reconnects (emit_call a s) = sock_reconnects s"
  "nextSocket (emit_call a s) = nextSocket s"
  by (simp_all add: emit_call_def)

lemma upd_work_eq: "upd_work w f s = s\<lparr>works := works (upd_work w f s)\<rparr>"
  by (simp add: upd_work_def)

lemma clear_written_eq:
  "clear_written ws s =
     s\<lparr>works := (\<lambda>i. if i \<in> set ws then (works s i)\<lparr>w_written := False\<rparr> else works s i)\<rparr>"
  unfolding clear_written_def
  by (induction ws arbitrary: s) (auto simp: upd_work_def fun_eq_iff)

lemma fold_settle_eq:
  "distinct ws \<Longrightarrow> fold (settle_work f) ws s =
     s\<lparr>works := (\<lambda>i. if i \<in> set ws
        then (works s i)\<lparr>w_promise := f (w_promise (works s i)), w_timer := False\<rparr>
        else works s i)\<rparr>"
  by (induction ws arbitrary: s) (auto simp: settle_work_def upd_work_def fun_eq_iff)

lemma failAll_eq:
  "distinct (sendWorks s) \<Longrightarrow> failAllPendingWork e s =
     s\<lparr>sendWorks := [],
       works := (\<lambda>i. if i \<in> set (sendWorks s)
        then (works s i)\<lparr>w_promise := p_reject e (w_promise (works s i)), w_timer := False\<rparr>
        else works s i)\<rparr>"
  by (simp add: failAllPendingWork_def fold_settle_eq cong: if_cong)

lemma changeConnectionState_simps [simp]:
  "sendWorks (changeConnectionState st s) = sendWorks s"
  "works (changeConnectionState st s) = works s"
  "nextWork (changeConnectionState st s) = nextWork s"
  "connectionState (changeConnectionState st s) = st"
  "sock_socket (changeConnectionState st s) = sock_socket s"
  "sock_ended (changeConnectionState st s) = sock_ended s"
  "sock_alive (changeConnectionState st s) = sock_alive s"
  "sock_writing (changeConnectionState st s) = sock_writing s"
  "sock_onWire (changeConnectionState st s) = sock_onWire s"
  "currentBuffer (changeConnectionState st s) = currentBuffer s"
  "nextSocket (changeConnectionState st s) = nextSocket s"
  by (simp_all add: changeConnectionState_def)

lemma doDisconnect_simps [simp]:
  "sendWorks (doDisconnect s) = sendWorks s"
  "works (doDisconnect s) =
     (\<lambda>i. if i \<in> set (sendWorks s) then (works s i)\<lparr>w_written := False\<rparr> else works s i)"
  "nextWork (doDisconnect s) = nextWork s"
  "connectionState (doDisconnect s) = Disconnected"
  "sock_socket (doDisconnect s) = None"
  "sock_alive (doDisconnect s) = sock_alive s"
  "sock_writing (doDisconnect s) = sock_writing s"
  "sock_onWire (doDisconnect s) = []"
  "currentBuffer (doDisconnect s) = []"
  by (simp_all add: doDisconnect_def Let_def clear_written_eq fun_eq_iff split: option.splits)

subsection \<open>The invariant\<close>

text \<open>
  \<open>sock_wf\<close>: the queue has no duplicates and only allocated works; a work that left the
  queue is settled; only the head of the queue can be written, and nothing is unless the
  client is connected; there is a socket exactly when the client is not disconnected; what
  is outstanding on the wire is the written head, if it expects a response; a timeout was
  started at most once before the first write and at most once more with it.
\<close>

definition arms_ok :: "SendWork \<Rightarrow> bool" where
  "arms_ok k \<longleftrightarrow> w_arms k \<le> (if w_deadlineStarted k then 2 else 1)"

lemma arms_ok_frame [simp]:
  "arms_ok (k\<lparr>w_promise := p\<rparr>) = arms_ok k"
  "arms_ok (k\<lparr>w_timer := b\<rparr>) = arms_ok k"
  "arms_ok (k\<lparr>w_written := b\<rparr>) = arms_ok k"
  "arms_ok (k\<lparr>w_resent := b\<rparr>) = arms_ok k"
  "arms_ok (k\<lparr>w_promise := p, w_timer := b\<rparr>) = arms_ok k"
  by (simp_all add: arms_ok_def)

definition sock_base :: "NaiveSocketImpl \<Rightarrow> bool" where
  "sock_base s \<longleftrightarrow>
     distinct (sendWorks s) \<and> (\<forall>w\<in>set (sendWorks s). w < nextWork s) \<and>
     (\<forall>w<nextWork s. w \<in> set (sendWorks s) \<or> isSettled (w_promise (works s w))) \<and>
     (\<forall>w. arms_ok (works s w)) \<and>
     (\<forall>w\<in>set (sock_writing s). w < nextWork s)"

definition sock_wf :: "NaiveSocketImpl \<Rightarrow> bool" where
  "sock_wf s \<longleftrightarrow>
     sock_base s \<and>
     (\<forall>w\<in>set (tl (sendWorks s)). \<not> w_written (works s w)) \<and>
     (connectionState s = Connected \<or> (\<forall>w\<in>set (sendWorks s). \<not> w_written (works s w))) \<and>
     (connectionState s = Disconnected \<longleftrightarrow> sock_socket s = None) \<and>
     sock_onWire s =
       filter (\<lambda>w. w_written (works s w) \<and> w_expectResponse (works s w)) (sendWorks s)"

text \<open>A connected client with work has handed the head of its queue to the socket.\<close>

definition sock_live :: "NaiveSocketImpl \<Rightarrow> bool" where
  "sock_live s \<longleftrightarrow>
     (connectionState s = Connected \<longrightarrow> sendWorks s \<noteq> [] \<longrightarrow> w_written (works s (hd (sendWorks s))))"

text \<open>No written work of the queue is settled yet: the state in which the queue is resumed.\<close>

definition sock_fresh :: "NaiveSocketImpl \<Rightarrow> bool" where
  "sock_fresh s \<longleftrightarrow>
     (\<forall>w\<in>set (sendWorks s). w_written (works s w) \<longrightarrow> \<not> isSettled (w_promise (works s w)))"

lemma wf_created: "sock_wf createNaiveSocket" "sock_live createNaiveSocket"
  by (simp_all add: sock_wf_def sock_base_def sock_live_def createNaiveSocket_def noWork_def arms_ok_def)

lemma wf_base: "sock_wf s \<Longrightarrow> sock_base s"
  by (simp add: sock_wf_def)

lemma doDisconnect_wf:
  assumes "sock_base s"
  shows "sock_wf (doDisconnect s)" "sock_live (doDisconnect s)" "sock_fresh (doDisconnect s)"
  using assms by (auto simp: sock_wf_def sock_base_def sock_live_def sock_fresh_def
      intro!: filter_none [symmetric] dest: in_set_tlD)

lemma failAll_base:
  assumes "sock_base s"
  shows "sock_base (failAllPendingWork e s)"
  using assms by (auto simp: sock_base_def failAll_eq)

lemma failAll_wf:
  assumes "sock_wf s" "sock_onWire s = []"
  shows "sock_wf (failAllPendingWork e s)"
  using assms by (auto simp: sock_wf_def sock_base_def failAll_eq)

lemma connect_wf:
  assumes "sock_wf s" "connectionState s = Disconnected"
  shows "sock_wf (connect c s)" "sock_live (connect c s)" "sock_fresh (connect c s)"
proof -
  have d: "distinct (sendWorks s)" and nw: "\<forall>w\<in>set (sendWorks s). \<not> w_written (works s w)"
    using assms by (auto simp: sock_wf_def sock_base_def)
  have ow: "sock_onWire s = []"
    using assms nw by (auto simp: sock_wf_def intro!: filter_none)
  show "sock_wf (connect c s)" "sock_live (connect c s)" "sock_fresh (connect c s)"
    using assms d nw ow
    by (auto simp: connect_def openSocket_def Let_def failAll_eq sock_wf_def sock_base_def
        sock_live_def sock_fresh_def split: option.splits dest: list.set_sel(2))
qed

subsection \<open>Every operation keeps the invariant\<close>

lemma armTimeout_simps [simp]:
  "sendWorks (armTimeout w s) = sendWorks s"
  "nextWork (armTimeout w s) = nextWork s"
  "connectionState (armTimeout w s) = connectionState s"
  "sock_socket (armTimeout w s) = sock_socket s"
  "sock_ended (armTimeout w s) = sock_ended s"
  "sock_writing (armTimeout w s) = sock_writing s"
  "sock_onWire (armTimeout w s) = sock_onWire s"
  "currentBuffer (armTimeout w s) = currentBuffer s"
  "w_promise (works (armTimeout w s) i) = w_promise (works s i)"
  "w_written (works (armTimeout w s) i) = w_written (works s i)"
  "w_expectResponse (works (armTimeout w s) i) = w_expectResponse (works s i)"
  "w_deadlineStarted (works (armTimeout w s) i) = w_deadlineStarted (works s i)"
  "w_message (works (armTimeout w s) i) = w_message (works s i)"
  "i \<noteq> w \<Longrightarrow> works (armTimeout w s) i = works s i"
  "w_arms (works (armTimeout w s) i) \<le>
     w_arms (works s i) + (if i = w then 1 else 0)"
  by (auto simp: armTimeout_def)

lemma write_work_simps [simp]:
  "sendWorks (write_work n w s) = sendWorks s"
  "works (write_work n w s) = works s"
  "nextWork (write_work n w s) = nextWork s"
  "connectionState (write_work n w s) = connectionState s"
  "sock_socket (write_work n w s) = sock_socket s"
  "currentBuffer (write_work n w s) = currentBuffer s"
  "sock_writing (write_work n w s) = sock_writing s @ [w]"
  "sock_onWire (write_work n w s) =
     sock_onWire s @ (if w_expectResponse (works s w) then [w] else [])"
  by (simp_all add: write_work_def)

lemma set_tl_dropWhile: "set (tl (dropWhile P xs)) \<subseteq> set (tl xs)"
proof (cases xs)
  case (Cons x ys)
  have "set (dropWhile P ys) \<subseteq> set ys"
    by (auto dest: set_dropWhileD)
  with Cons show ?thesis
    by (auto dest: in_set_tlD set_dropWhileD)
qed simp

lemma drop_settled_wf:
  assumes "sock_wf s" "sock_fresh s"
  defines "s1 \<equiv> s\<lparr>sendWorks :=
     dropWhile (\<lambda>w. isSettled (w_promise (works s w))) (sendWorks s)\<rparr>"
  shows "sock_wf s1" "sock_fresh s1"
proof -
  let ?P = "\<lambda>w. isSettled (w_promise (works s w))"
  let ?R = "\<lambda>w. w_written (works s w) \<and> w_expectResponse (works s w)"
  have wire: "sock_onWire s = filter ?R (dropWhile ?P (sendWorks s))"
    using assms by (subst filter_dropWhile) (auto simp: sock_wf_def sock_fresh_def)
  have sub: "x \<in> set (sendWorks s)" if "x \<in> set (dropWhile ?P (sendWorks s))" for x
    using that by (auto dest: set_dropWhileD)
  have gone: "x \<in> set (dropWhile ?P (sendWorks s)) \<or> ?P x" if "x < nextWork s" for x
    using that assms(1) in_dropWhile_or [of x "sendWorks s" ?P]
    by (auto simp: sock_wf_def sock_base_def)
  have "distinct (dropWhile ?P (sendWorks s))"
    using assms(1) by (simp add: sock_wf_def sock_base_def)
  moreover have "\<forall>w\<in>set (dropWhile ?P (sendWorks s)). w < nextWork s"
    using wf_base [OF assms(1)] sub unfolding sock_base_def by blast
  moreover have "\<forall>w<nextWork s. w \<in> set (dropWhile ?P (sendWorks s)) \<or> ?P w"
    using gone by blast
  moreover have "(\<forall>w. arms_ok (works s w)) \<and> (\<forall>w\<in>set (sock_writing s). w < nextWork s)"
    using wf_base [OF assms(1)] unfolding sock_base_def by blast
  ultimately have "sock_base s1"
    by (simp add: s1_def sock_base_def)
  moreover have "\<forall>w\<in>set (tl (sendWorks s1)). \<not> w_written (works s1 w)"
    using assms(1) set_tl_dropWhile [of ?P "sendWorks s"] by (auto simp: s1_def sock_wf_def)
  moreover have "connectionState s1 = Connected \<or>
      (\<forall>w\<in>set (sendWorks s1). \<not> w_written (works s1 w))"
    using assms(1) sub by (auto simp: s1_def sock_wf_def)
  ultimately show "sock_wf s1"
    using assms(1) wire by (simp add: sock_wf_def s1_def)
  show "sock_fresh s1"
    using assms(2) by (auto simp: s1_def sock_fresh_def dest: set_dropWhileD)
qed

lemma hand_over_wf:
  assumes "sock_wf s" "sock_fresh s" "connectionState s = Connected"
    and "sendWorks s = w # ws" "\<not> w_written (works s w)" "\<not> isSettled (w_promise (works s w))"
  defines "s2 \<equiv> upd_work w (\<lambda>k. k\<lparr>w_written := True\<rparr>) s"
  defines "s3 \<equiv> (if w_deadlineStarted (works s2 w) then s2
     else armTimeout w (upd_work w (\<lambda>k. k\<lparr>w_deadlineStarted := True\<rparr>) s2))"
  shows "sock_wf (write_work n w s3)" "sock_live (write_work n w s3)" "sock_fresh (write_work n w s3)"
proof -
  have fields: "sendWorks s3 = sendWorks s" "nextWork s3 = nextWork s"
      "connectionState s3 = Connected" "sock_socket s3 = sock_socket s"
      "sock_writing s3 = sock_writing s" "sock_onWire s3 = sock_onWire s"
    using assms(3) by (simp_all add: s3_def s2_def)
  have p: "w_promise (works s3 i) = w_promise (works s i)"
      "w_expectResponse (works s3 i) = w_expectResponse (works s i)" for i
    by (simp_all add: s3_def s2_def)
  have wr: "w_written (works s3 i) = (i = w \<or> w_written (works s i))" for i
    by (simp add: s3_def s2_def)
  have arms: "arms_ok (works s3 i)" for i
  proof (cases "i = w")
    case True
    have "arms_ok (works s w)" using assms(1) by (simp add: sock_wf_def sock_base_def)
    then show ?thesis
      using True by (auto simp: s3_def s2_def armTimeout_def arms_ok_def split: if_splits)
  next
    case False
    have "arms_ok (works s i)" using assms(1) by (simp add: sock_wf_def sock_base_def)
    then show ?thesis using False by (simp add: s3_def s2_def)
  qed
  have unwritten: "\<not> w_written (works s i)" if "i \<in> set ws" for i
    using assms(1,4) that by (auto simp: sock_wf_def sock_base_def)
  have wnin: "w \<notin> set ws" and wlt: "w < nextWork s"
    using assms(1,4) by (auto simp: sock_wf_def sock_base_def)
  have ow: "sock_onWire s = []"
    using assms(1,4,5) unwritten by (auto simp: sock_wf_def intro!: filter_none)
  have fl: "filter (\<lambda>i. (i = w \<or> w_written (works s i)) \<and> w_expectResponse (works s i)) ws = []"
    using wnin unwritten by (auto intro!: filter_none)
  show "sock_wf (write_work n w s3)"
    using assms(1,3,4) wlt wnin ow fl [symmetric] unwritten arms
    by (auto simp: sock_wf_def sock_base_def fields p wr intro!: filter_none [symmetric])
  show "sock_live (write_work n w s3)"
    by (simp add: sock_live_def fields wr assms(4))
  show "sock_fresh (write_work n w s3)"
    using assms(2,6) by (auto simp: sock_fresh_def fields p wr)
qed

lemma doNext_wf:
  assumes "sock_wf s" "sock_fresh s"
  shows "sock_wf (doNextSendWork c s) \<and> sock_live (doNextSendWork c s) \<and>
         sock_fresh (doNextSendWork c s)"
proof -
  consider (connecting) "connectionState s = Connecting"
    | (disconnected) "connectionState s = Disconnected" "sock_socket s = None"
    | (ended) n where "connectionState s = Connected" "sock_socket s = Some n" "sock_ended s"
    | (usable) n where "connectionState s = Connected" "sock_socket s = Some n" "\<not> sock_ended s"
    using assms(1) by (cases "connectionState s") (auto simp: sock_wf_def)
  then show ?thesis
  proof cases
    case connecting
    with assms show ?thesis by (simp add: doNextSendWork_def sock_live_def)
  next
    case disconnected
    with assms(1) show ?thesis by (simp add: doNextSendWork_def connect_wf)
  next
    case ended
    with doDisconnect_wf(1) [OF wf_base [OF assms(1)]] show ?thesis
      by (simp add: doNextSendWork_def connect_wf)
  next
    case usable
    define s1 where "s1 = s\<lparr>sendWorks :=
       dropWhile (\<lambda>w. isSettled (w_promise (works s w))) (sendWorks s)\<rparr>"
    have s1: "sock_wf s1" "sock_fresh s1"
      using drop_settled_wf [OF assms] by (simp_all add: s1_def)
    have works1: "works s1 = works s" and conn1: "connectionState s1 = Connected"
      using usable by (simp_all add: s1_def)
    have dn: "doNextSendWork c s = (case sendWorks s1 of [] \<Rightarrow> s1
      | w # _ \<Rightarrow> (if w_written (works s1 w) then s1
         else write_work n w
           (if w_deadlineStarted (works (upd_work w (\<lambda>k. k\<lparr>w_written := True\<rparr>) s1) w)
            then upd_work w (\<lambda>k. k\<lparr>w_written := True\<rparr>) s1
            else armTimeout w (upd_work w (\<lambda>k. k\<lparr>w_deadlineStarted := True\<rparr>)
                   (upd_work w (\<lambda>k. k\<lparr>w_written := True\<rparr>) s1)))))"
      unfolding s1_def doNextSendWork_def using usable by (simp add: Let_def cong: if_cong list.case_cong)
    show ?thesis
    proof (cases "sendWorks s1")
      case Nil
      with dn s1 show ?thesis by (simp add: sock_live_def)
    next
      case (Cons w ws)
      have uns: "\<not> isSettled (w_promise (works s1 w))"
        using Cons works1 by (auto simp: s1_def dropWhile_eq_Cons_conv)
      show ?thesis
      proof (cases "w_written (works s1 w)")
        case True
        with dn Cons s1 show ?thesis by (simp add: sock_live_def)
      next
        case False
        have "doNextSendWork c s = write_work n w
           (if w_deadlineStarted (works (upd_work w (\<lambda>k. k\<lparr>w_written := True\<rparr>) s1) w)
            then upd_work w (\<lambda>k. k\<lparr>w_written := True\<rparr>) s1
            else armTimeout w (upd_work w (\<lambda>k. k\<lparr>w_deadlineStarted := True\<rparr>)
                   (upd_work w (\<lambda>k. k\<lparr>w_written := True\<rparr>) s1)))"
          using dn Cons False by simp
        then show ?thesis
          using hand_over_wf [OF s1 conn1 Cons False uns, of n] by simp
      qed
    qed
  qed
qed

text \<open>Sending: the new work joins the queue; an empty queue is then driven at once.\<close>

lemma buildSendWork_simps:
  assumes "buildSendWork r s = (s1, w)"
  shows "w = nextWork s" "nextWork s1 = Suc (nextWork s)" "sendWorks s1 = sendWorks s"
    "connectionState s1 = connectionState s" "sock_socket s1 = sock_socket s"
    "sock_onWire s1 = sock_onWire s" "sock_writing s1 = sock_writing s"
    "\<not> w_written (works s1 w)" "w_promise (works s1 w) = Pending"
    "i \<noteq> w \<Longrightarrow> works s1 i = works s i" "arms_ok (works s1 w)"
  using assms by (auto simp: buildSendWork_def Let_def armTimeout_def arms_ok_def
      split: if_splits)

lemma enqueue_wf:
  assumes "sock_wf s" "buildSendWork r s = (s1, w)" "q = sendWorks s"
    "q' = (if req_urgent r
           then (case q of
                   h # t \<Rightarrow> if w_written (works s1 h) then h # w # t else w # q
                 | [] \<Rightarrow> [w])
           else q @ [w])"
  defines "s2 \<equiv> s1\<lparr>sendWorks := q'\<rparr>"
  shows "sock_wf s2" "sock_fresh s \<Longrightarrow> sock_fresh s2" "length q' = 1 \<Longrightarrow> sock_fresh s2"
    "sock_live s \<Longrightarrow> length q' \<noteq> 1 \<Longrightarrow> sock_live s2"
proof -
  note b = buildSendWork_simps [OF assms(2)]
  have wq: "w \<notin> set q" "\<And>i. i \<in> set q \<Longrightarrow> works s1 i = works s i"
    using assms(1) b(1,10) by (auto simp: sock_wf_def sock_base_def assms(3))
  have setq': "set q' = insert w (set q)" and dist: "distinct q'"
    using assms(1) wq(1)
    by (auto simp: assms(4) sock_wf_def sock_base_def assms(3) split: list.splits)
  have len: "length q' = Suc (length q)"
    by (simp add: assms(4) split: list.splits)
  have old: "w_written (works s1 i) = w_written (works s i)"
      "w_expectResponse (works s1 i) = w_expectResponse (works s i)" if "i \<in> set q" for i
    using wq(2) that by simp_all
  have base: "sock_base s2"
  proof -
    have "\<forall>i<Suc (nextWork s). i \<in> set q' \<or> isSettled (w_promise (works s1 i))"
    proof (intro allI impI)
      fix i assume "i < Suc (nextWork s)"
      then consider "i = w" | "i < nextWork s" "i \<noteq> w" using b(1) by linarith
      then show "i \<in> set q' \<or> isSettled (w_promise (works s1 i))"
        using assms(1,3) setq' b(10) by cases (auto simp: sock_wf_def sock_base_def)
    qed
    moreover have "arms_ok (works s1 i)" for i
      using wf_base [OF assms(1)] b(10,11) by (cases "i = w") (auto simp: sock_base_def)
    ultimately show ?thesis
      using wf_base [OF assms(1)] dist setq' b(1,2,7)
      by (auto simp: sock_base_def s2_def assms(3) less_Suc_eq)
  qed
  have unw: "\<not> w_written (works s1 i)" if "i \<in> set (tl q')" for i
  proof (cases "i = w")
    case False
    moreover have "i \<in> set (tl q) \<or> (\<exists>t. q = i # t \<and> \<not> w_written (works s i))"
      using that False old by (cases q) (auto simp: assms(4) split: if_splits)
    ultimately show ?thesis
      using assms(1,3) old by (auto simp: sock_wf_def dest: in_set_tlD)
  qed (use b in simp)
  have "filter (\<lambda>i. w_written (works s1 i) \<and> w_expectResponse (works s1 i)) q' =
        filter (\<lambda>i. w_written (works s i) \<and> w_expectResponse (works s i)) q"
    using b(8) old by (cases q) (auto simp: assms(4) intro!: filter_cong)
  then show "sock_wf s2"
    using assms(1,3) base unw setq' old b(4-6,8)
    by (auto simp: sock_wf_def s2_def)
  show "sock_fresh s \<Longrightarrow> sock_fresh s2"
    using setq' old wq(2) b(8) by (auto simp: sock_fresh_def s2_def assms(3))
  show "length q' = 1 \<Longrightarrow> sock_fresh s2"
    using len setq' b(8) by (auto simp: sock_fresh_def s2_def)
  show "sock_live s \<Longrightarrow> length q' \<noteq> 1 \<Longrightarrow> sock_live s2"
    using len old b(4)
    by (cases q) (auto simp: sock_live_def s2_def assms(3,4))
qed

lemma send_wf:
  assumes "sock_wf s"
  shows "sock_wf (send c r s)" "sock_fresh s \<Longrightarrow> sock_fresh (send c r s)"
    "sock_live s \<Longrightarrow> sock_live (send c r s)"
proof -
  obtain s1 w where b: "buildSendWork r (s\<lparr>sock_alive := True\<rparr>) = (s1, w)"
    by (cases "buildSendWork r (s\<lparr>sock_alive := True\<rparr>)")
  define q where "q = sendWorks (s\<lparr>sock_alive := True\<rparr>)"
  define q' where "q' = (if req_urgent r
           then (case q of
                   h # t \<Rightarrow> if w_written (works s1 h) then h # w # t else w # q
                 | [] \<Rightarrow> [w])
           else q @ [w])"
  have wf: "sock_wf (s\<lparr>sock_alive := True\<rparr>)"
    using assms by (simp add: sock_wf_def sock_base_def)
  note e = enqueue_wf [OF wf b q_def q'_def]
  have send: "send c r s = (if length q' = 1 then doNextSendWork c (s1\<lparr>sendWorks := q'\<rparr>)
      else s1\<lparr>sendWorks := q'\<rparr>)"
    unfolding send_def b q'_def Let_def prod.case
    using buildSendWork_simps(3) [OF b] q_def by presburger
  show "sock_wf (send c r s)" "sock_fresh s \<Longrightarrow> sock_fresh (send c r s)"
      "sock_live s \<Longrightarrow> sock_live (send c r s)"
    using send e doNext_wf [OF e(1)] by (auto simp: sock_fresh_def sock_live_def)
qed

text \<open>Bookkeeping that no clause of the invariant reads.\<close>

lemma wf_frame:
  assumes "sendWorks s' = sendWorks s" "works s' = works s" "nextWork s' = nextWork s"
    "connectionState s' = connectionState s" "sock_socket s' = sock_socket s"
    "sock_onWire s' = sock_onWire s" "set (sock_writing s') \<subseteq> set (sock_writing s)"
  shows "sock_base s \<Longrightarrow> sock_base s'" "sock_wf s \<Longrightarrow> sock_wf s'"
    "sock_live s' = sock_live s" "sock_fresh s' = sock_fresh s"
  using assms by (auto simp: sock_wf_def sock_base_def sock_live_def sock_fresh_def)

lemma settle_work_simps [simp]:
  "sendWorks (settle_work f w s) = sendWorks s"
  "nextWork (settle_work f w s) = nextWork s"
  "connectionState (settle_work f w s) = connectionState s"
  "sock_socket (settle_work f w s) = sock_socket s"
  "sock_onWire (settle_work f w s) = sock_onWire s"
  "sock_writing (settle_work f w s) = sock_writing s"
  "sock_alive (settle_work f w s) = sock_alive s"
  "currentBuffer (settle_work f w s) = currentBuffer s"
  "w_written (works (settle_work f w s) i) = w_written (works s i)"
  "w_expectResponse (works (settle_work f w s) i) = w_expectResponse (works s i)"
  "w_arms (works (settle_work f w s) i) = w_arms (works s i)"
  "w_deadlineStarted (works (settle_work f w s) i) = w_deadlineStarted (works s i)"
  "w_promise (works (settle_work f w s) i) =
     (if i = w then f (w_promise (works s w)) else w_promise (works s i))"
  "arms_ok (works (settle_work f w s) i) = arms_ok (works s i)"
  by (simp_all add: settle_work_def arms_ok_def)

text \<open>A settling function: it leaves every promise settled.\<close>

lemma settle_base:
  assumes "sock_base s" "\<And>p. isSettled (f p)"
  shows "sock_base (settle_work f w s)"
  using assms by (auto simp: sock_base_def)

lemma settle_wf:
  assumes "sock_wf s" "\<And>p. isSettled (f p)"
  shows "sock_wf (settle_work f w s)" "sock_live s \<Longrightarrow> sock_live (settle_work f w s)"
  using assms settle_base [OF wf_base] by (auto simp: sock_wf_def sock_live_def)

text \<open>A settled head can leave the queue.\<close>

lemma drop_head_base:
  assumes "sock_base s" "sendWorks s = w # ws" "isSettled (w_promise (works s w))"
  shows "sock_base (s\<lparr>sendWorks := ws\<rparr>)"
  using assms by (auto simp: sock_base_def)

lemma settle_head_wf:
  assumes "sock_wf s" "sendWorks s = w # ws" "\<And>p. isSettled (f p)"
    "connectionState s = Connected"
  defines "s' \<equiv> (settle_work f w s)\<lparr>sendWorks := ws, sock_onWire := tl (sock_onWire s)\<rparr>"
  shows "sock_wf s'" "sock_fresh s'"
proof -
  have unw: "\<not> w_written (works s i)" if "i \<in> set ws" for i
    using assms(1,2) that by (simp add: sock_wf_def)
  have base: "sock_base s'"
    using drop_head_base [of "settle_work f w s" w ws] settle_base [OF wf_base [OF assms(1)], of f w]
      assms(2,3) by (simp add: s'_def sock_base_def)
  have "filter (\<lambda>i. w_written (works s i) \<and> w_expectResponse (works s i)) ws = []"
    using unw by (intro filter_none) auto
  then have "tl (sock_onWire s) = []"
    using assms(1,2) by (simp add: sock_wf_def)
  moreover have "filter (\<lambda>i. w_written (works s' i) \<and> w_expectResponse (works s' i)) ws = []"
    using unw by (intro filter_none) (auto simp: s'_def)
  ultimately show "sock_wf s'"
    using base unw assms(1,4) by (auto simp: sock_wf_def s'_def dest: in_set_tlD)
  show "sock_fresh s'"
    using unw by (auto simp: sock_fresh_def s'_def)
qed

lemma retry_wf:
  assumes "sock_base s"
  shows "sock_wf (retryToConnect c s)" "sock_live (retryToConnect c s)"
  using doDisconnect_wf [OF assms]
  by (auto simp: retryToConnect_def Let_def sock_wf_def sock_base_def sock_live_def)

lemma reconnect_now_wf:
  assumes "sock_base s"
  shows "sock_wf (connect c (doDisconnect s))" "sock_live (connect c (doDisconnect s))"
  using connect_wf [OF doDisconnect_wf(1) [OF assms]] by simp_all

lemma disconnect_wf:
  assumes "sock_wf s"
  shows "sock_wf (disconnect e s)" "sock_live (disconnect e s)"
proof -
  let ?s = "s\<lparr>sock_alive := False\<rparr>"
  have "sock_wf (doDisconnect ?s)"
    using assms by (intro doDisconnect_wf) (simp add: sock_wf_def sock_base_def)
  then show wf: "sock_wf (disconnect e s)"
    unfolding disconnect_def by (rule failAll_wf) simp
  have "distinct (sendWorks (doDisconnect ?s))"
    using assms by (simp add: sock_wf_def sock_base_def)
  then show "sock_live (disconnect e s)"
    by (simp add: disconnect_def failAll_eq sock_live_def)
qed

lemma reset_wf:
  assumes "sock_wf s"
  shows "sock_wf (reset c e s)" "sock_live (reset c e s)"
  unfolding reset_def by (rule retry_wf [OF failAll_base [OF wf_base [OF assms]]])+

lemma consume_wf:
  assumes "sock_wf s"
  shows "sock_wf (consumeUnsolicitedData c s)"
    "sock_live (consumeUnsolicitedData c s) = sock_live s"
  by (rule wf_frame(2) [OF _ _ _ _ _ _ _ assms] wf_frame(3);
      simp add: consumeUnsolicitedData_def split: option.splits prod.splits)+

lemma sends_wf:
  "sock_wf s \<Longrightarrow> sock_fresh s \<Longrightarrow>
   sock_wf (fold (send c) rs s) \<and> sock_fresh (fold (send c) rs s)"
  by (induction rs arbitrary: s) (simp_all add: send_wf)

lemma onConnect_wf:
  assumes "sock_wf s" "connectionState s = Connecting"
  shows "sock_wf (onConnect c s) \<and> sock_live (onConnect c s)"
proof -
  let ?s = "changeConnectionState Connected s"
  have wf: "sock_wf ?s" and fresh: "sock_fresh ?s"
    using assms by (auto simp: sock_wf_def sock_base_def sock_fresh_def)
  show ?thesis
    using doNext_wf sends_wf [OF wf fresh] unfolding onConnect_def by blast
qed

lemma onData_wf:
  assumes "sock_wf s" "sock_live s" "connectionState s = Connected"
  shows "sock_wf (onData c chunk s) \<and> sock_live (onData c chunk s)"
proof -
  obtain new pnd where d: "decodeChunk c (sock_decoder s) chunk = (new, pnd)"
    by fastforce
  define s0 where "s0 = s\<lparr>currentBuffer := currentBuffer s @ new, sock_decoder := pnd\<rparr>"
  have s0: "sock_wf s0" "sock_live s0" "connectionState s0 = Connected"
    using assms by (auto simp: s0_def sock_wf_def sock_base_def sock_live_def)
  show ?thesis
  proof (cases "head_expects s0")
    case False
    then show ?thesis
      using d consume_wf [OF s0(1)] s0(2) by (simp add: onData_def s0_def)
  next
    case True
    then obtain w ws where q: "sendWorks s0 = w # ws"
      by (auto simp: head_expects_def split: list.splits)
    let ?n = "fulfill_length (w_fulfill (works s0 w)) (currentBuffer s0)"
    define s1 where "s1 = settle_work (p_resolve (take (nat ?n) (currentBuffer s0))) w s0"
    define s2 where "s2 = s1\<lparr>currentBuffer := drop (nat ?n) (currentBuffer s1),
      sendWorks := tl (sendWorks s1), sock_onWire := tl (sock_onWire s1)\<rparr>"
    have "sock_wf (s1\<lparr>sendWorks := ws, sock_onWire := tl (sock_onWire s0)\<rparr>)"
        "sock_fresh (s1\<lparr>sendWorks := ws, sock_onWire := tl (sock_onWire s0)\<rparr>)"
      unfolding s1_def by (rule settle_head_wf [OF s0(1) q _ s0(3)]; simp)+
    then have "sock_wf s2" "sock_fresh s2"
      using q by (auto simp: s2_def s1_def sock_wf_def sock_base_def sock_fresh_def)
    then have s3: "sock_wf (doNextSendWork c s2)" "sock_live (doNextSendWork c s2)"
      using doNext_wf by blast+
    have "onData c chunk s = (if ?n \<le> 0 then s0
       else if currentBuffer (doNextSendWork c s2) \<noteq> [] \<and> \<not> head_expects (doNextSendWork c s2)
       then consumeUnsolicitedData c (doNextSendWork c s2) else doNextSendWork c s2)"
      using d True q unfolding onData_def s2_def s1_def s0_def by (simp add: Let_def)
    then show ?thesis
      using s0 s3 consume_wf [OF s3(1)] by simp
  qed
qed

lemma writeCallback_wf:
  assumes "sock_wf s" "sock_live s" "w < nextWork s"
  shows "sock_wf (writeCallback c w r s) \<and> sock_live (writeCallback c w r s)"
proof (cases r)
  case (WriteError code)
  let ?s1 = "if is_head w s then s\<lparr>sendWorks := tl (sendWorks s)\<rparr> else s"
  have "sock_base (upd_work w (\<lambda>k. k\<lparr>w_resent := True\<rparr>) s)"
    using assms(1) by (auto simp: sock_wf_def sock_base_def)
  note resend = reconnect_now_wf [OF this]
  have "sock_base (settle_work (p_reject (WriteFailed code)) w ?s1)"
    using wf_base [OF assms(1)] by (cases "sendWorks s") (auto simp: sock_base_def is_head_def)
  note fail = retry_wf [OF this]
  show ?thesis
    using WriteError resend fail by (simp add: writeCallback_def Let_def)
next
  case WriteOk
  define s1 where "s1 = settle_work (p_resolve []) w s"
  have s1: "sock_wf s1" "sock_live s1"
    using settle_wf [OF assms(1)] assms(2) by (simp_all add: s1_def)
  have cb: "writeCallback c w r s =
      (if w_expectResponse (works s w) then s
       else if is_head w s1 then doNextSendWork c (s1\<lparr>sendWorks := tl (sendWorks s1)\<rparr>) else s1)"
    using WriteOk by (simp add: writeCallback_def s1_def Let_def)
  show ?thesis
  proof (cases "\<not> w_expectResponse (works s w) \<and> is_head w s1")
    case False
    with cb s1 assms show ?thesis by auto
  next
    case True
    then obtain ws where q: "sendWorks s1 = w # ws"
      by (auto simp: is_head_def split: list.splits)
    have unw: "\<not> w_written (works s1 i)" if "i \<in> set ws" for i
      using s1(1) q that by (simp add: sock_wf_def)
    have "filter (\<lambda>i. w_written (works s1 i) \<and> w_expectResponse (works s1 i)) ws = []"
      using unw by (intro filter_none) auto
    moreover have "sock_base (s1\<lparr>sendWorks := ws\<rparr>)"
      using drop_head_base [OF wf_base [OF s1(1)] q] by (simp add: s1_def)
    moreover have "\<not> w_expectResponse (works s1 w)"
      using True by (simp add: s1_def)
    ultimately have "sock_wf (s1\<lparr>sendWorks := ws\<rparr>)"
      using s1(1) q unw by (auto simp: sock_wf_def dest: in_set_tlD)
    moreover have "sock_fresh (s1\<lparr>sendWorks := ws\<rparr>)"
      using unw by (auto simp: sock_fresh_def)
    ultimately show ?thesis
      using cb True q doNext_wf by simp
  qed
qed

lemma step_wf:
  assumes "sock_wf s" "sock_live s"
  shows "sock_wf (sock_step c e s) \<and> sock_live (sock_step c e s)"
proof (cases e)
  case (EvWritten w r)
  show ?thesis
  proof (cases "w \<in> set (sock_writing s)")
    case True
    let ?s = "s\<lparr>sock_writing := remove1 w (sock_writing s)\<rparr>"
    have "set (remove1 w (sock_writing s)) \<subseteq> set (sock_writing s)"
      by (rule set_remove1_subset)
    then have "sock_wf ?s" "sock_live ?s"
      using wf_frame(2) [of ?s s] wf_frame(3) [of ?s s] assms by simp_all
    moreover have "w < nextWork ?s"
      using assms True by (simp add: sock_wf_def sock_base_def)
    ultimately show ?thesis
      using EvWritten True writeCallback_wf by simp
  qed (use EvWritten assms in simp)
next
  case (EvEnded n)
  then show ?thesis
    using assms wf_frame(2,3) [of "s\<lparr>sock_ended := True\<rparr>" s] by (simp add: current_def)
next
  case EvReconnect
  let ?s = "s\<lparr>sock_reconnects := sock_reconnects s - 1\<rparr>"
  have "sock_wf ?s" "sock_live ?s"
    using assms wf_frame(2,3) [of ?s s] by simp_all
  then show ?thesis
    using EvReconnect assms connect_wf by (auto simp: reconnectTimer_def Let_def)
qed (use assms in \<open>auto simp: current_def onError_def onClose_def timeoutFires_def
    send_wf disconnect_wf reset_wf onConnect_wf onData_wf retry_wf wf_base settle_wf\<close>)

lemma run_wf: "sock_wf (sock_run c es) \<and> sock_live (sock_run c es)"
proof -
  have "sock_wf s \<Longrightarrow> sock_live s \<Longrightarrow>
        sock_wf (fold (sock_step c) es s) \<and> sock_live (fold (sock_step c) es s)" for s
    by (induction es arbitrary: s) (simp_all add: step_wf)
  then show ?thesis
    using wf_created by (simp add: sock_run_def)
qed

subsection \<open>What happens to a promise\<close>

text \<open>
  \<open>keeps_settled s s'\<close>: between the two states a settled request kept its outcome.
  \<open>no_answer s s'\<close>: no request was resolved, at most rejected.
\<close>

definition keeps_settled :: "NaiveSocketImpl \<Rightarrow> NaiveSocketImpl \<Rightarrow> bool" where
  "keeps_settled s s' \<longleftrightarrow> nextWork s \<le> nextWork s' \<and>
     (\<forall>w<nextWork s. isSettled (w_promise (works s w)) \<longrightarrow>
        w_promise (works s' w) = w_promise (works s w))"

definition no_answer :: "NaiveSocketImpl \<Rightarrow> NaiveSocketImpl \<Rightarrow> bool" where
  "no_answer s s' \<longleftrightarrow>
     (\<forall>w r. w_promise (works s' w) = Resolved r \<longrightarrow> w_promise (works s w) = Resolved r)"

lemma keeps_refl: "nextWork s' = nextWork s \<Longrightarrow> works s' = works s \<Longrightarrow> keeps_settled s s'"
  by (simp add: keeps_settled_def)

lemma keeps_trans: "keeps_settled s1 s2 \<Longrightarrow> keeps_settled s2 s3 \<Longrightarrow> keeps_settled s1 s3"
  unfolding keeps_settled_def by (metis order_less_le_trans order_trans)

lemma keeps_fold:
  "(\<And>x s. keeps_settled s (f x s)) \<Longrightarrow> keeps_settled s (fold f xs s)"
  by (induction xs arbitrary: s) (auto intro: keeps_refl keeps_trans)

lemma keeps_settle:
  "(\<And>p. isSettled p \<Longrightarrow> f p = p) \<Longrightarrow> keeps_settled s (settle_work f w s)"
  by (simp add: keeps_settled_def)

lemma settled_fixed [simp]:
  "isSettled p \<Longrightarrow> p_resolve r p = p" "isSettled p \<Longrightarrow> p_reject e p = p"
  by (simp_all add: p_resolve_def p_reject_def)

lemma keeps_failAll: "keeps_settled s (failAllPendingWork e s)"
proof -
  have "keeps_settled (s\<lparr>sendWorks := []\<rparr>) (failAllPendingWork e s)"
    unfolding failAllPendingWork_def by (intro keeps_fold keeps_settle) simp
  then show ?thesis by (simp add: keeps_settled_def)
qed

lemma keeps_connect: "keeps_settled s (connect c s)"
  using keeps_failAll [of "changeConnectionState Connecting s"]
  by (simp add: connect_def openSocket_def Let_def keeps_settled_def split: option.splits)

lemma keeps_doDisconnect: "keeps_settled s (doDisconnect s)"
  by (simp add: keeps_settled_def)

lemma keeps_doNext: "keeps_settled s (doNextSendWork c s)"
proof -
  note reconnect = keeps_trans [OF keeps_doDisconnect keeps_connect]
  show ?thesis
    using keeps_connect [of s c] reconnect [of s c]
    by (auto simp: doNextSendWork_def Let_def keeps_settled_def split: option.splits list.splits)
qed

lemma keeps_send: "keeps_settled s (send c r s)"
proof -
  obtain s1 w where b: "buildSendWork r (s\<lparr>sock_alive := True\<rparr>) = (s1, w)"
    by (cases "buildSendWork r (s\<lparr>sock_alive := True\<rparr>)")
  note b' = buildSendWork_simps [OF b]
  have k: "keeps_settled s (s1\<lparr>sendWorks := q\<rparr>)" for q
    using b'(1,2,10) by (simp add: keeps_settled_def)
  show ?thesis
    using b k keeps_trans [OF k keeps_doNext] by (simp add: send_def Let_def)
qed

lemma keeps_retry: "keeps_settled s (retryToConnect c s)"
  by (simp add: retryToConnect_def Let_def keeps_settled_def)

lemma consume_works [simp]:
  "works (consumeUnsolicitedData c s) = works s"
  "nextWork (consumeUnsolicitedData c s) = nextWork s"
  by (simp_all add: consumeUnsolicitedData_def split: option.splits prod.splits)

lemma keeps_onData: "keeps_settled s (onData c chunk s)"
proof -
  obtain new pnd where d: "decodeChunk c (sock_decoder s) chunk = (new, pnd)"
    by fastforce
  define s0 where "s0 = s\<lparr>currentBuffer := currentBuffer s @ new, sock_decoder := pnd\<rparr>"
  have s0: "keeps_settled s s0" "keeps_settled s (consumeUnsolicitedData c s0)"
    by (simp_all add: keeps_settled_def s0_def)
  have "keeps_settled s (doNextSendWork c ((settle_work (p_resolve r) w s0)
      \<lparr>currentBuffer := b, sendWorks := q, sock_onWire := ow\<rparr>))" for r w b q ow
  proof (rule keeps_trans [OF _ keeps_doNext])
    have "keeps_settled s0 (settle_work (p_resolve r) w s0)"
      by (rule keeps_settle) simp
    then show "keeps_settled s ((settle_work (p_resolve r) w s0)
        \<lparr>currentBuffer := b, sendWorks := q, sock_onWire := ow\<rparr>)"
      using s0(1) by (simp add: keeps_settled_def s0_def)
  qed
  then show ?thesis
    using d s0 by (auto simp: onData_def Let_def s0_def keeps_settled_def)
qed

lemma keeps_writeCallback: "keeps_settled s (writeCallback c w r s)"
proof (cases r)
  case (WriteError code)
  have "keeps_settled s (connect c (doDisconnect (upd_work w (\<lambda>k. k\<lparr>w_resent := True\<rparr>) s)))"
    by (rule keeps_trans [OF _ keeps_connect]) (simp add: keeps_settled_def)
  moreover have "keeps_settled s (retryToConnect c (settle_work (p_reject (WriteFailed code)) w s'))"
    if "works s' = works s" "nextWork s' = nextWork s" for s'
    using that by (intro keeps_trans [OF _ keeps_retry]) (simp add: keeps_settled_def)
  ultimately show ?thesis
    using WriteError by (simp add: writeCallback_def Let_def)
next
  case WriteOk
  have k: "keeps_settled s (settle_work (p_resolve []) w s)"
    by (rule keeps_settle) simp
  then have "keeps_settled s ((settle_work (p_resolve []) w s)\<lparr>sendWorks := q\<rparr>)" for q
    by (simp add: keeps_settled_def)
  then show ?thesis
    using WriteOk k keeps_trans [OF _ keeps_doNext]
    by (auto simp: writeCallback_def Let_def intro: keeps_refl)
qed

lemma keeps_step: "keeps_settled s (sock_step c e s)"
proof (cases e)
  case (EvDisconnect reason)
  have "keeps_settled s (doDisconnect (s\<lparr>sock_alive := False\<rparr>))"
    by (simp add: keeps_settled_def)
  then show ?thesis
    using EvDisconnect by (simp add: disconnect_def keeps_trans [OF _ keeps_failAll])
next
  case (EvConnect n)
  have "keeps_settled s (changeConnectionState Connected s)"
    by (simp add: keeps_settled_def)
  then have "keeps_settled s (onConnect c s)"
    unfolding onConnect_def
    by (rule keeps_trans [OF keeps_trans [OF _ keeps_fold [OF keeps_send]] keeps_doNext])
  then show ?thesis
    using EvConnect by (simp add: current_def keeps_refl)
next
  case EvReconnect
  have "keeps_settled s (connect c (s\<lparr>sock_reconnects := sock_reconnects s - 1\<rparr>))"
    by (rule keeps_trans [OF _ keeps_connect]) (simp add: keeps_settled_def)
  then show ?thesis
    using EvReconnect by (simp add: reconnectTimer_def Let_def keeps_refl)
next
  case (EvWritten w r)
  have "keeps_settled s (writeCallback c w r (s\<lparr>sock_writing := remove1 w (sock_writing s)\<rparr>))"
    by (rule keeps_trans [OF _ keeps_writeCallback]) (simp add: keeps_settled_def)
  then show ?thesis
    using EvWritten by (simp add: keeps_refl)
next
  case (EvReset reason)
  then show ?thesis
    by (simp add: reset_def keeps_trans [OF keeps_failAll keeps_retry])
qed (simp_all add: current_def onError_def onClose_def timeoutFires_def keeps_refl
    keeps_send keeps_onData keeps_retry keeps_settle)

lemma keeps_run: "keeps_settled s (fold (sock_step c) es s)"
  by (rule keeps_fold) (rule keeps_step)

text \<open>Only the head of the queue can be answered, and only by the data event.\<close>

lemma no_answer_refl: "no_answer s s"
  by (simp add: no_answer_def)

lemma no_answer_failAll:
  "distinct (sendWorks s) \<Longrightarrow> no_answer s (failAllPendingWork e s)"
  by (auto simp: no_answer_def failAll_eq p_reject_def split: if_splits)

lemma no_answer_connect:
  assumes "distinct (sendWorks s)"
  shows "no_answer s (connect c s)"
  using no_answer_failAll [of "changeConnectionState Connecting s"] assms
  by (simp add: connect_def openSocket_def Let_def no_answer_def split: option.splits)

lemma no_answer_doNext:
  assumes "distinct (sendWorks s)"
  shows "no_answer s (doNextSendWork c s)"
proof -
  have "no_answer (doDisconnect s) (connect c (doDisconnect s))"
    using assms by (intro no_answer_connect) simp
  then have "no_answer s (connect c (doDisconnect s))"
    by (auto simp: no_answer_def split: if_splits)
  then show ?thesis
    using no_answer_connect [OF assms]
    by (auto simp: doNextSendWork_def Let_def no_answer_def split: option.splits list.splits)
qed

lemma onData_answer:
  assumes "sock_wf s" "connectionState s = Connected" "sock_live s"
    and "w_promise (works s w) \<noteq> Resolved r"
    and "w_promise (works (onData c chunk s) w) = Resolved r"
  shows "sock_onWire s = [w] \<and>
    (\<exists>n>0. int n = fulfill_length (w_fulfill (works s w))
              (currentBuffer s @ fst (decodeChunk c (sock_decoder s) chunk)) \<and>
           r = take n (currentBuffer s @ fst (decodeChunk c (sock_decoder s) chunk)))"
proof -
  obtain new pnd where d: "decodeChunk c (sock_decoder s) chunk = (new, pnd)"
    by fastforce
  define s0 where "s0 = s\<lparr>currentBuffer := currentBuffer s @ new, sock_decoder := pnd\<rparr>"
  have w0: "works s0 = works s" by (simp add: s0_def)
  have "works (onData c chunk s) = works s" if "\<not> head_expects s0"
    using that d by (simp add: onData_def s0_def Let_def)
  then have "head_expects s0"
    using assms(4,5) by metis
  then obtain v ws where q: "sendWorks s = v # ws" and ex: "w_expectResponse (works s v)"
    by (auto simp: head_expects_def s0_def split: list.splits)
  let ?n = "fulfill_length (w_fulfill (works s v)) (currentBuffer s @ new)"
  let ?r = "take (nat ?n) (currentBuffer s @ new)"
  have "works (onData c chunk s) = works s \<or> ?n > 0 \<and> no_answer (settle_work (p_resolve ?r) v s) (onData c chunk s)"
  proof (cases "?n \<le> 0")
    case True
    then show ?thesis
      using d q ex by (simp add: onData_def s0_def head_expects_def Let_def cong: if_cong)
  next
    case False
    define s2 where "s2 = (settle_work (p_resolve ?r) v s0)
      \<lparr>currentBuffer := drop (nat ?n) (currentBuffer s @ new), sendWorks := ws,
        sock_onWire := tl (sock_onWire s)\<rparr>"
    have "works (onData c chunk s) = works (doNextSendWork c s2)"
      using False d q ex by (simp add: onData_def s0_def s2_def head_expects_def Let_def)
    moreover have "no_answer s2 (doNextSendWork c s2)"
      using assms(1) q by (intro no_answer_doNext) (simp add: s2_def sock_wf_def sock_base_def)
    ultimately show ?thesis
      using False by (simp add: no_answer_def s2_def settle_work_def w0)
  qed
  then have pos: "?n > 0" and na: "no_answer (settle_work (p_resolve ?r) v s) (onData c chunk s)"
    using assms(4,5) by metis+
  then have "w_promise (works (settle_work (p_resolve ?r) v s) w) = Resolved r"
    using assms(5) unfolding no_answer_def by blast
  then have v: "w = v" and r: "r = ?r"
    using assms(4) by (simp_all add: p_resolve_def split: if_splits)
  have "w_written (works s v)"
    using assms(2,3) q by (simp add: sock_live_def)
  moreover have "filter (\<lambda>w. w_written (works s w) \<and> w_expectResponse (works s w)) ws = []"
    using assms(1) q by (intro filter_none) (simp add: sock_wf_def)
  ultimately have "sock_onWire s = [w]"
    using assms(1) q ex v by (simp add: sock_wf_def)
  then show ?thesis
    using pos r v d by (auto intro!: exI [of _ "nat ?n"])
qed

subsection \<open>After a shutdown\<close>

text \<open>
  A shut-down client: nothing queued, no socket, not alive. Only a \<open>send\<close> leaves this state:
  a timer that was pending at the shutdown, or a late event of the old socket, does not.
\<close>

definition sock_down :: "NaiveSocketImpl \<Rightarrow> bool" where
  "sock_down s \<longleftrightarrow> sendWorks s = [] \<and> sock_socket s = None \<and>
     connectionState s = Disconnected \<and> \<not> sock_alive s"

lemma disconnect_down: "sock_wf s \<Longrightarrow> sock_down (disconnect e s)"
  by (simp add: sock_down_def disconnect_def failAll_eq sock_wf_def sock_base_def)

fun is_send :: "sock_event \<Rightarrow> bool" where
  "is_send (EvSend _) = True"
| "is_send _ = False"

lemma doDisconnect_nextSocket [simp]: "nextSocket (doDisconnect s) = nextSocket s"
  by (simp add: doDisconnect_def clear_written_eq Let_def split: option.splits)

lemma down_retry:
  "sock_down s \<Longrightarrow> sock_down (retryToConnect c s) \<and> nextSocket (retryToConnect c s) = nextSocket s"
  by (simp add: sock_down_def retryToConnect_def Let_def)

lemma down_step:
  assumes "sock_down s" "\<not> is_send e"
  shows "sock_down (sock_step c e s) \<and> nextSocket (sock_step c e s) = nextSocket s"
proof (cases e)
  case (EvWritten w r)
  have settle: "sock_down (settle_work f w s') \<and> nextSocket (settle_work f w s') = nextSocket s'"
    if "sock_down s'" for f s'
    using that by (simp add: sock_down_def settle_work_def)
  have "sock_down (s\<lparr>sock_writing := ws\<rparr>)" for ws
    using assms(1) by (simp add: sock_down_def)
  then show ?thesis
    using EvWritten assms(1) settle down_retry
    by (auto simp: writeCallback_def Let_def is_head_def sock_down_def split: write_result.split)
next
  case (EvReset reason)
  have "sock_down (failAllPendingWork e' s) \<and> nextSocket (failAllPendingWork e' s) = nextSocket s" for e'
    using assms(1) by (simp add: sock_down_def failAll_eq)
  then show ?thesis
    using EvReset down_retry by (simp add: reset_def)
next
  case (EvDisconnect reason)
  then show ?thesis
    using assms(1) by (simp add: sock_down_def disconnect_def failAll_eq)
next
  case EvReconnect
  then show ?thesis
    using assms(1) by (simp add: sock_down_def reconnectTimer_def Let_def)
next
  case (EvTimeout w)
  then show ?thesis
    using assms(1) by (simp add: sock_down_def timeoutFires_def settle_work_def)
qed (use assms in \<open>simp_all add: sock_down_def current_def\<close>)

lemma down_run:
  "sock_down s \<Longrightarrow> \<forall>e\<in>set es. \<not> is_send e \<Longrightarrow>
   sock_down (fold (sock_step c) es s) \<and> nextSocket (fold (sock_step c) es s) = nextSocket s"
  by (induction es arbitrary: s) (simp_all add: down_step)

subsection \<open>A client without reconnects\<close>

text \<open>
  With a negative \<open>connectionRetryInterval\<close> an unexpected close leaves the unanswered requests
  in the queue and schedules nothing. \<open>send\<close> drives the queue only when it holds exactly the
  new request, so from then on no request opens a connection.
\<close>

definition sock_stranded :: "NaiveSocketImpl \<Rightarrow> bool" where
  "sock_stranded s \<longleftrightarrow>
     sendWorks s \<noteq> [] \<and> sock_socket s = None \<and> connectionState s = Disconnected \<and>
     sock_reconnects s = 0"

fun is_send_or_timeout :: "sock_event \<Rightarrow> bool" where
  "is_send_or_timeout (EvSend _) = True"
| "is_send_or_timeout (EvTimeout _) = True"
| "is_send_or_timeout _ = False"

lemma stranded_step:
  assumes "sock_stranded s" "is_send_or_timeout e"
  shows "sock_stranded (sock_step c e s) \<and> nextSocket (sock_step c e s) = nextSocket s"
proof (cases e)
  case (EvSend r)
  obtain s1 w where b: "buildSendWork r (s\<lparr>sock_alive := True\<rparr>) = (s1, w)"
    by (cases "buildSendWork r (s\<lparr>sock_alive := True\<rparr>)")
  have more: "sock_reconnects s1 = sock_reconnects s" "nextSocket s1 = nextSocket s"
    using b by (auto simp: buildSendWork_def Let_def armTimeout_def split: if_splits)
  have "sendWorks s1 \<noteq> []"
    using assms(1) buildSendWork_simps(3) [OF b] by (simp add: sock_stranded_def)
  then obtain h t where "sendWorks s1 = h # t"
    by (cases "sendWorks s1") simp_all
  then show ?thesis
    using assms(1) EvSend b more buildSendWork_simps(3-5) [OF b]
    by (simp add: send_def Let_def sock_stranded_def)
qed (use assms in \<open>simp_all add: timeoutFires_def sock_stranded_def settle_work_def\<close>)

lemma stranded_run:
  "sock_stranded s \<Longrightarrow> \<forall>e\<in>set es. is_send_or_timeout e \<Longrightarrow>
   sock_stranded (fold (sock_step c) es s) \<and> nextSocket (fold (sock_step c) es s) = nextSocket s"
  by (induction es arbitrary: s) (simp_all add: stranded_step)

lemma close_strands:
  assumes "connectionRetryInterval c < 0" "sock_socket s = Some n" "sock_alive s"
    "sendWorks s \<noteq> []" "sock_reconnects s = 0"
  shows "sock_stranded (sock_step c (EvClose n) s)"
proof -
  have "sock_reconnects (doDisconnect s) = sock_reconnects s"
    by (simp add: doDisconnect_def clear_written_eq changeConnectionState_def Let_def split: option.splits)
  then show ?thesis
    using assms by (simp add: current_def onClose_def retryToConnect_def Let_def sock_stranded_def)
qed

subsection \<open>A concrete client\<close>

text \<open>
  A client whose peer speaks ASCII, and a session: two requests, the first answered in two
  chunks, the second still on the wire.
\<close>

definition asciiChunk :: "byte list \<Rightarrow> byte list \<Rightarrow> string \<times> byte list" where
  "asciiChunk st chunk = (map (\<lambda>b. char_of (unat b)) (st @ chunk), [])"

definition demoSocket :: SocketOptions where
  "demoSocket = \<lparr>connectionRetryInterval = -1, onUnsolicitedData = None, connectedRequests = [],
     openError = (\<lambda>_. None), decodeChunk = asciiChunk\<rparr>"

definition demoRequest :: "string \<Rightarrow> SendRequest" where
  "demoRequest m = \<lparr>req_message = m, req_fulfill = Some (FulfillLength 2),
     req_timeoutMillis = Some 100, req_urgent = False, req_expectResponse = None\<rparr>"

definition demoOpen :: "sock_event list" where
  "demoOpen = [EvSend (demoRequest ''PING''), EvSend (demoRequest ''ECHO''), EvConnect 0, EvData 0 [111]]"

subsection \<open>The properties of the client\<close>

text \<open>
  C20: No request is lost and none is answered twice. In every reachable state each issued
  request is still queued or its promise is settled, and once settled it keeps its outcome
  whatever happens afterwards.
\<close>

theorem request_accounted:
  assumes "w < nextWork (sock_run c es)"
  shows "(w \<in> set (sendWorks (sock_run c es)) \<or> isSettled (w_promise (works (sock_run c es) w))) \<and>
    (isSettled (w_promise (works (sock_run c es) w)) \<longrightarrow>
       w_promise (works (sock_run c (es @ es')) w) = w_promise (works (sock_run c es) w))"
  using assms run_wf [of c es] keeps_run [of "sock_run c es" c es']
  by (auto simp: sock_run_def sock_wf_def sock_base_def keeps_settled_def)

text \<open>
  C19: A response goes to the request it answers. When a data event resolves a request, that
  request is the only one outstanding on the wire, the event belongs to the current socket,
  and the value is the part of the receive buffer its own matcher claims.
\<close>

theorem response_goes_to_outstanding:
  assumes "w_promise (works (sock_run c es) w) = Pending"
    and "w_promise (works (sock_run c (es @ [EvData n chunk])) w) = Resolved r"
  shows "sock_socket (sock_run c es) = Some n \<and> sock_onWire (sock_run c es) = [w] \<and>
    (\<exists>k>0. int k = fulfill_length (w_fulfill (works (sock_run c es) w))
              (currentBuffer (sock_run c es) @
               fst (decodeChunk c (sock_decoder (sock_run c es)) chunk)) \<and>
           r = take k (currentBuffer (sock_run c es) @
                 fst (decodeChunk c (sock_decoder (sock_run c es)) chunk)))"
proof -
  let ?s = "sock_run c es"
  have step: "sock_run c (es @ [EvData n chunk]) = sock_step c (EvData n chunk) ?s"
    by (simp add: sock_run_def)
  then have conn: "connectionState ?s = Connected" "sock_socket ?s = Some n"
    using assms by (auto simp: current_def split: if_splits)
  then have "w_promise (works (onData c chunk ?s) w) = Resolved r"
    using assms(2) step by (simp add: current_def)
  then show ?thesis
    using onData_answer [of ?s w r c chunk] run_wf [of c es] conn assms(1) by simp
qed

text \<open>
  The pipeline never stalls and never has two requests in flight. While connected, a
  nonempty queue has its head handed to the socket and nothing behind the head, and at most
  the head is waiting for a response.
\<close>

theorem pipeline_live:
  assumes "connectionState (sock_run c es) = Connected" "sendWorks (sock_run c es) = w # ws"
  shows "w_written (works (sock_run c es) w) \<and> (\<forall>v\<in>set ws. \<not> w_written (works (sock_run c es) v)) \<and>
    sock_onWire (sock_run c es) = (if w_expectResponse (works (sock_run c es) w) then [w] else [])"
proof -
  have wf: "sock_wf (sock_run c es)" "sock_live (sock_run c es)"
    using run_wf by blast+
  have unw: "\<forall>v\<in>set ws. \<not> w_written (works (sock_run c es) v)"
    using wf(1) assms(2) by (simp add: sock_wf_def)
  moreover have "w_written (works (sock_run c es) w)"
    using wf(2) assms by (simp add: sock_live_def)
  moreover have "filter (\<lambda>v. w_written (works (sock_run c es) v) \<and>
      w_expectResponse (works (sock_run c es) v)) ws = []"
    using unw by (intro filter_none) simp
  ultimately show ?thesis
    using wf(1) assms(2) by (simp add: sock_wf_def)
qed

text \<open>
  The timeout of a request is started at most twice, and at most once before the request
  is first written: the documented ceiling of twice \<open>timeoutMillis\<close>.
\<close>

theorem timeout_armed_at_most_twice:
  "w_arms (works (sock_run c es) w) \<le>
     (if w_deadlineStarted (works (sock_run c es) w) then 2 else 1)"
  using run_wf [of c es] by (simp add: sock_wf_def sock_base_def arms_ok_def)

text \<open>
  \<open>disconnect\<close> settles every request and stays disconnected: until the next \<open>send\<close>, no
  pending timer, late socket event or write callback opens another socket.
\<close>

theorem shutdown_is_final:
  assumes "s = sock_step c (EvDisconnect reason) (sock_run c es)" "\<forall>e\<in>set es'. \<not> is_send e"
  shows "(\<forall>w<nextWork s. isSettled (w_promise (works s w))) \<and>
    sock_down (fold (sock_step c) es' s) \<and> nextSocket (fold (sock_step c) es' s) = nextSocket s"
proof -
  have wf: "sock_wf (sock_run c es)"
    using run_wf by blast
  have "sock_wf s" and down: "sock_down s"
    using disconnect_wf(1) [OF wf] disconnect_down [OF wf] assms(1) by simp_all
  then have "\<forall>w<nextWork s. isSettled (w_promise (works s w))"
    by (auto simp: sock_wf_def sock_base_def sock_down_def)
  then show ?thesis
    using down_run [OF down assms(2)] by blast
qed

text \<open>
  A client with reconnects disabled is dead after one unexpected close with a request in
  the queue: no later \<open>send\<close> opens a connection, also not after the timeouts have rejected
  every request, although a send on an idle closed client opens one.
\<close>

theorem retry_disabled_strands_queue:
  assumes "connectionRetryInterval c < 0" "s = sock_run c es" "sock_socket s = Some n"
    "sock_alive s" "sendWorks s \<noteq> []" "sock_reconnects s = 0"
    "\<forall>e\<in>set es'. is_send_or_timeout e"
  shows "connectionState (sock_run c (es @ EvClose n # es')) = Disconnected \<and>
    nextSocket (sock_run c (es @ EvClose n # es')) = nextSocket (sock_run c es) \<and>
    sendWorks (sock_run c (es @ EvClose n # es')) \<noteq> []"
proof -
  have "sock_stranded (sock_step c (EvClose n) s)"
    using close_strands assms by blast
  moreover have "nextSocket (sock_step c (EvClose n) s) = nextSocket s"
    using assms(3,4) by (simp add: current_def onClose_def retryToConnect_def Let_def)
  ultimately show ?thesis
    using stranded_run [OF _ assms(7), of _ c] assms(2)
    by (simp add: sock_run_def sock_stranded_def)
qed

subsection \<open>Witnesses\<close>

theorem request_accounted_witness:
  "isSettled (w_promise (works (sock_run demoSocket (demoOpen @ [EvTimeout 0])) 0)) \<and>
   w_promise (works (sock_run demoSocket ((demoOpen @ [EvTimeout 0]) @ [EvData 0 [107]])) 0) =
     w_promise (works (sock_run demoSocket (demoOpen @ [EvTimeout 0])) 0)"
proof -
  have "0 < nextWork (sock_run demoSocket (demoOpen @ [EvTimeout 0]))" by code_simp
  moreover have "isSettled (w_promise (works (sock_run demoSocket (demoOpen @ [EvTimeout 0])) 0))"
    by code_simp
  ultimately show ?thesis
    using request_accounted [of 0 demoSocket "demoOpen @ [EvTimeout 0]" "[EvData 0 [107]]"] by blast
qed

theorem response_goes_to_outstanding_witness:
  "w_promise (works (sock_run demoSocket (demoOpen @ [EvData 0 [107]])) 0) = Resolved ''ok'' \<and>
   sock_onWire (sock_run demoSocket demoOpen) = [0]"
proof -
  have "w_promise (works (sock_run demoSocket demoOpen) 0) = Pending" by code_simp
  moreover have "w_promise (works (sock_run demoSocket (demoOpen @ [EvData 0 [107]])) 0) = Resolved ''ok''"
    by code_simp
  ultimately show ?thesis
    using response_goes_to_outstanding [of demoSocket demoOpen 0 0 "[107]" "''ok''"] by blast
qed

theorem pipeline_live_witness:
  "w_written (works (sock_run demoSocket demoOpen) 0) \<and>
   \<not> w_written (works (sock_run demoSocket demoOpen) 1)"
proof -
  have "connectionState (sock_run demoSocket demoOpen) = Connected"
      "sendWorks (sock_run demoSocket demoOpen) = [0, 1]" by code_simp+
  then show ?thesis
    using pipeline_live [of demoSocket demoOpen 0 "[1]"] by simp
qed

theorem shutdown_is_final_witness:
  "isSettled (w_promise (works (sock_step demoSocket (EvDisconnect None) (sock_run demoSocket demoOpen)) 1)) \<and>
   sock_down (fold (sock_step demoSocket) [EvReconnect, EvClose 0]
     (sock_step demoSocket (EvDisconnect None) (sock_run demoSocket demoOpen)))"
proof -
  have "1 < nextWork (sock_step demoSocket (EvDisconnect None) (sock_run demoSocket demoOpen))"
    by code_simp
  then show ?thesis
    using shutdown_is_final [OF refl, of "[EvReconnect, EvClose 0]" demoSocket None demoOpen] by simp
qed

theorem retry_disabled_strands_queue_witness:
  "sendWorks (sock_run demoSocket (demoOpen @ EvClose 0 # [EvSend (demoRequest ''PING'')])) \<noteq> [] \<and>
   connectionState (sock_run demoSocket (demoOpen @ EvClose 0 # [EvSend (demoRequest ''PING'')])) = Disconnected"
proof -
  have "sock_socket (sock_run demoSocket demoOpen) = Some 0" "sock_alive (sock_run demoSocket demoOpen)"
      "sendWorks (sock_run demoSocket demoOpen) = [0, 1]" "sock_reconnects (sock_run demoSocket demoOpen) = 0"
    by code_simp+
  moreover have "connectionRetryInterval demoSocket < 0" by (simp add: demoSocket_def)
  ultimately show ?thesis
    using retry_disabled_strands_queue [OF _ refl, of demoSocket demoOpen 0 "[EvSend (demoRequest ''PING'')]"]
    by simp
qed

end
