(* ===== verification/Text_Match.thy ===== *)
theory Text_Match
  imports Prelude
begin

section \<open>The text scanner (naive-socket/src/match.ts)\<close>

text \<open>
  A cursor over a receive buffer: \<open>capture\<close> consumes the text up to and including the
  next end mark and records what came before it; \<open>evaluate\<close> is the number of characters
  the whole chain consumed, or \<open>-1\<close> when a capture found no mark. The lemmas show that a
  successful capture splits the buffer at its first mark, and that more input at the end
  of the buffer never changes what a successful capture has done: the property on which
  matching a stream that arrives in chunks rests.
\<close>

record 'a text_match =
  tm_buffer :: "'a list"
  captured :: "'a list list"
  tm_pos :: int
  tm_error :: bool

definition createTextMatch :: "'a list \<Rightarrow> 'a text_match" where
  "createTextMatch buffer = \<lparr>tm_buffer = buffer, captured = [], tm_pos = 0, tm_error = False\<rparr>"

definition capture :: "'a list \<Rightarrow> 'a text_match \<Rightarrow> 'a text_match" where
  "capture endMark m =
     (if tm_error m then m
      else
        (let start = nat (tm_pos m) in
         case index_of endMark (tm_buffer m) start of
           None \<Rightarrow> m\<lparr>tm_pos := -1, tm_error := True\<rparr>
         | Some pos \<Rightarrow>
             (let pos' = int pos + int (length endMark) in
              m\<lparr>captured := captured m @ [js_slice (tm_buffer m) start pos],
                tm_pos := pos',
                tm_error := (pos' > int (length (tm_buffer m)))\<rparr>)))"

definition tm_values :: "'a text_match \<Rightarrow> 'a list list" where
  "tm_values m = captured m"

definition evaluate :: "'a text_match \<Rightarrow> int" where
  "evaluate m = (if tm_error m then -1 else tm_pos m)"

type_synonym 'a text_match_chain = "'a text_match \<Rightarrow> 'a text_match"

definition withMatch :: "'a text_match_chain \<Rightarrow> 'a list \<Rightarrow> int" where
  "withMatch check buffer = evaluate (check (createTextMatch buffer))"

subsection \<open>What one capture does\<close>

text \<open>The cursor of a scanner that has not failed lies inside its buffer.\<close>

definition tm_ok :: "'a text_match \<Rightarrow> bool" where
  "tm_ok m \<longleftrightarrow> tm_error m \<or> (0 \<le> tm_pos m \<and> tm_pos m \<le> int (length (tm_buffer m)))"

lemma tm_ok_create [simp]: "tm_ok (createTextMatch b)"
  by (simp add: tm_ok_def createTextMatch_def)

lemma capture_buffer [simp]: "tm_buffer (capture e m) = tm_buffer m"
  by (simp add: capture_def Let_def split: option.splits)

lemma capture_error_mono: "tm_error m \<Longrightarrow> capture e m = m"
  by (simp add: capture_def)

lemma index_of_bounds:
  assumes "index_of p s i = Some k" "i \<le> length s"
  shows "i \<le> k \<and> k + length p \<le> length s"
  using assms find_sub_occurs [of p "drop i s"] by (auto simp: index_of_def)

lemma capture_ok:
  assumes "tm_ok m"
  shows "tm_ok (capture e m)"
  using assms index_of_bounds [of e "tm_buffer m" "nat (tm_pos m)"]
  by (auto simp: tm_ok_def capture_def Let_def split: option.splits)

text \<open>More input behind the buffer: the scanner that has seen it as well.\<close>

definition tm_extend :: "'a list \<Rightarrow> 'a text_match \<Rightarrow> 'a text_match" where
  "tm_extend t m = m\<lparr>tm_buffer := tm_buffer m @ t\<rparr>"

lemma tm_extend_fields [simp]:
  "tm_error (tm_extend t m) = tm_error m" "tm_pos (tm_extend t m) = tm_pos m"
  "captured (tm_extend t m) = captured m" "tm_buffer (tm_extend t m) = tm_buffer m @ t"
  by (simp_all add: tm_extend_def)

lemma tm_extend_create: "tm_extend t (createTextMatch b) = createTextMatch (b @ t)"
  by (simp add: tm_extend_def createTextMatch_def)

lemma index_of_extend:
  "index_of p s i = Some k \<Longrightarrow> i \<le> length s \<Longrightarrow> index_of p (s @ t) i = Some k"
  by (auto simp: index_of_def dest: find_sub_extend)

lemma js_slice_extend: "b \<le> length s \<Longrightarrow> js_slice (s @ t) a b = js_slice s a b"
  by (simp add: js_slice_def)

lemma capture_extend:
  assumes "tm_ok m" "\<not> tm_error (capture e m)"
  shows "capture e (tm_extend t m) = tm_extend t (capture e m)"
proof -
  have ne: "\<not> tm_error m"
    using assms(2) by (auto simp: capture_error_mono)
  let ?i = "nat (tm_pos m)"
  have i: "?i \<le> length (tm_buffer m)"
    using assms(1) ne by (simp add: tm_ok_def nat_le_iff)
  obtain k where k: "index_of e (tm_buffer m) ?i = Some k"
    using assms(2) ne by (auto simp: capture_def Let_def split: option.splits)
  have kb: "?i \<le> k" "k + length e \<le> length (tm_buffer m)"
    using index_of_bounds [OF k i] by simp_all
  then show ?thesis
    using ne k index_of_extend [OF k i, of t]
    by (simp add: capture_def Let_def tm_extend_def js_slice_extend)
qed

text \<open>A successful capture splits the rest of the buffer at the first end mark.\<close>

lemma capture_splits:
  assumes "tm_ok m" "\<not> tm_error (capture e m)"
  obtains v where "captured (capture e m) = captured m @ [v]"
    and "drop (nat (tm_pos m)) (tm_buffer m) = v @ e @ drop (nat (tm_pos (capture e m))) (tm_buffer m)"
    and "tm_pos (capture e m) = tm_pos m + int (length v) + int (length e)"
    and "find_sub e (v @ e) = Some (length v)"
proof -
  have ne: "\<not> tm_error m"
    using assms(2) by (auto simp: capture_error_mono)
  let ?i = "nat (tm_pos m)" and ?r = "drop (nat (tm_pos m)) (tm_buffer m)"
  obtain k where k: "find_sub e ?r = Some k"
    using assms(2) ne by (auto simp: capture_def Let_def index_of_def split: option.splits)
  have split: "?r = take k ?r @ e @ drop (k + length e) ?r"
    by (rule find_sub_split [OF k])
  have len: "k + length e \<le> length ?r"
    using find_sub_occurs [OF k] by simp
  have v: "captured (capture e m) = captured m @ [take k ?r]"
    using ne k by (simp add: capture_def Let_def index_of_def js_slice_def)
  have pos: "tm_pos (capture e m) = tm_pos m + int k + int (length e)"
    using ne k assms(1) by (simp add: capture_def Let_def index_of_def tm_ok_def)
  have first: "find_sub e (take k ?r @ e) = Some k"
  proof -
    have "find_sub e (take k ?r @ e @ []) = Some (length (take k ?r))"
    proof (rule find_sub_at)
      fix j assume j: "j < length (take k ?r)"
      then have "\<not> prefix e (drop j ?r)"
        using find_sub_least [OF k] by simp
      moreover have "prefix (drop j (take k ?r @ e @ [])) (drop j ?r)"
        using split j by (metis append.assoc append_Nil2 drop_append prefixI)
      ultimately show "\<not> prefix e (drop j (take k ?r @ e @ []))"
        by (meson prefix_order.trans)
    qed
    then show ?thesis using len by simp
  qed
  show ?thesis
  proof (rule that [OF v])
    show "?r = take k ?r @ e @ drop (nat (tm_pos (capture e m))) (tm_buffer m)"
      using split pos ne assms(1) by (simp add: tm_ok_def nat_add_distrib ac_simps)
    show "tm_pos (capture e m) = tm_pos m + int (length (take k ?r)) + int (length e)"
      using pos len by simp
    show "find_sub e (take k ?r @ e) = Some (length (take k ?r))"
      using first len by simp
  qed
qed

subsection \<open>Chains of captures\<close>

definition capture_all :: "'a list list \<Rightarrow> 'a text_match \<Rightarrow> 'a text_match" where
  "capture_all marks m = fold capture marks m"

lemma capture_all_simps [simp]:
  "capture_all [] m = m"
  "capture_all (e # es) m = capture_all es (capture e m)"
  by (simp_all add: capture_all_def)

lemma capture_all_error: "tm_error m \<Longrightarrow> capture_all es m = m"
  by (induction es) (simp_all add: capture_error_mono)

lemma capture_all_ok: "tm_ok m \<Longrightarrow> tm_ok (capture_all es m)"
  by (induction es arbitrary: m) (simp_all add: capture_ok)

lemma capture_all_extend:
  "tm_ok m \<Longrightarrow> \<not> tm_error (capture_all es m) \<Longrightarrow>
   capture_all es (tm_extend t m) = tm_extend t (capture_all es m)"
proof (induction es arbitrary: m)
  case Nil
  then show ?case by simp
next
  case (Cons e es)
  have "\<not> tm_error (capture e m)"
    using Cons.prems(2) by (auto simp: capture_all_error)
  with Cons show ?case by (simp add: capture_extend capture_ok)
qed

text \<open>
  A chain is \<^emph>\<open>stable\<close> when input behind a buffer on which it succeeds does not change
  what it does. Chains built from \<open>capture\<close> are stable, also when they choose their next
  capture from the values captured so far.
\<close>

definition stable_chain :: "'a text_match_chain \<Rightarrow> bool" where
  "stable_chain check \<longleftrightarrow>
     (\<forall>m t. tm_ok m \<longrightarrow> \<not> tm_error (check m) \<longrightarrow>
        tm_ok (check m) \<and> check (tm_extend t m) = tm_extend t (check m))"

lemma stable_chainD:
  "stable_chain check \<Longrightarrow> tm_ok m \<Longrightarrow> \<not> tm_error (check m) \<Longrightarrow>
   tm_ok (check m) \<and> check (tm_extend t m) = tm_extend t (check m)"
  by (simp add: stable_chain_def)

lemma stable_capture_all: "stable_chain (capture_all es)"
  by (simp add: stable_chain_def capture_all_ok capture_all_extend)

lemma stable_withMatch:
  assumes "stable_chain check" "0 \<le> withMatch check b"
  shows "withMatch check (b @ t) = withMatch check b"
proof -
  have "\<not> tm_error (check (createTextMatch b))"
    using assms(2) by (auto simp: withMatch_def evaluate_def split: if_splits)
  then show ?thesis
    using stable_chainD [OF assms(1) tm_ok_create]
    by (metis evaluate_def tm_extend_create tm_extend_fields(1) tm_extend_fields(2) withMatch_def)
qed

lemma withMatch_bound:
  assumes "stable_chain check" "0 \<le> withMatch check b" "tm_buffer (check (createTextMatch b)) = b"
  shows "withMatch check b \<le> int (length b)"
proof -
  have ne: "\<not> tm_error (check (createTextMatch b))"
    using assms(2) by (auto simp: withMatch_def evaluate_def split: if_splits)
  then show ?thesis
    using stable_chainD [OF assms(1) tm_ok_create ne] assms(3)
    by (simp add: withMatch_def evaluate_def tm_ok_def)
qed

subsection \<open>The interface between a protocol and the socket\<close>

text \<open>
  What the socket expects of the function that recognises a response at the front of the
  receive buffer: a positive result is a length of the buffer, and stays the answer when
  more input follows. \<open>first_hit\<close> is what the socket gets from it: of a stream that arrives
  in pieces, the first piece with which the function succeeds already gives the answer of
  the whole stream.
\<close>

locale response_matcher =
  fixes matches :: "'a list \<Rightarrow> int"
  assumes bound: "0 < matches b \<Longrightarrow> matches b \<le> int (length b)"
    and stable: "0 < matches b \<Longrightarrow> matches (b @ t) = matches b"
begin

lemma take_stable: "0 < matches b \<Longrightarrow> take (nat (matches (b @ t))) (b @ t) = take (nat (matches b)) b"
  using bound [of b] by (simp add: stable)

lemma prefix_silent: "matches (b @ t) \<le> 0 \<Longrightarrow> matches b \<le> 0"
  using stable [of b t] by force

lemma first_hit:
  "matches b \<le> 0 \<Longrightarrow> 0 < matches (b @ concat cs) \<Longrightarrow>
   \<exists>pre x post. cs = pre @ x # post \<and> matches (b @ concat pre) \<le> 0 \<and>
     0 < matches (b @ concat pre @ x) \<and> matches (b @ concat pre @ x) = matches (b @ concat cs)"
proof (induction cs arbitrary: b)
  case Nil
  then show ?case by simp
next
  case (Cons x cs)
  show ?case
  proof (cases "0 < matches (b @ x)")
    case True
    then show ?thesis
      using Cons.prems(1) stable [OF True, of "concat cs"]
      by (intro exI [of _ "[]"] exI [of _ x] exI [of _ cs]) simp
  next
    case False
    then obtain pre y post where "cs = pre @ y # post" "matches ((b @ x) @ concat pre) \<le> 0"
        "0 < matches ((b @ x) @ concat pre @ y)"
        "matches ((b @ x) @ concat pre @ y) = matches ((b @ x) @ concat cs)"
      using Cons.IH [of "b @ x"] Cons.prems(2) by fastforce
    then show ?thesis
      by (intro exI [of _ "x # pre"] exI [of _ y] exI [of _ post]) simp
  qed
qed

end

lemma capture_all_buffer [simp]: "tm_buffer (capture_all es m) = tm_buffer m"
  by (induction es arbitrary: m) simp_all

interpretation marks: response_matcher "withMatch (capture_all es)" for es
proof
  fix b t :: "'a list"
  assume pos: "0 < withMatch (capture_all es) b"
  show "withMatch (capture_all es) b \<le> int (length b)"
    using pos by (intro withMatch_bound [OF stable_capture_all]) (simp_all add: createTextMatch_def)
  show "withMatch (capture_all es) (b @ t) = withMatch (capture_all es) b"
    using pos by (intro stable_withMatch [OF stable_capture_all]) simp
qed

subsection \<open>Chains that look at what they captured\<close>

text \<open>
  A chain that leaves a failed scanner alone and is stable. Such chains compose, also when
  the second one is chosen by the values the first one captured.
\<close>

definition good_chain :: "'a text_match_chain \<Rightarrow> bool" where
  "good_chain f \<longleftrightarrow> (\<forall>m. tm_error m \<longrightarrow> f m = m) \<and> stable_chain f \<and> (\<forall>m. tm_buffer (f m) = tm_buffer m)"

lemma good_capture: "good_chain (capture e)"
  by (simp add: good_chain_def capture_error_mono stable_chain_def capture_ok capture_extend)

lemma good_id: "good_chain (\<lambda>m. m)"
  by (simp add: good_chain_def stable_chain_def)

lemma good_bind:
  assumes "good_chain f" "\<And>v. good_chain (g v)"
  shows "good_chain (\<lambda>m. g (captured (f m)) (f m))"
proof -
  have err: "tm_error m \<Longrightarrow> g (captured (f m)) (f m) = m" for m
    using assms by (simp add: good_chain_def)
  have stable: "tm_ok (g (captured (f m)) (f m)) \<and>
      g (captured (f (tm_extend t m))) (f (tm_extend t m)) = tm_extend t (g (captured (f m)) (f m))"
    if "tm_ok m" "\<not> tm_error (g (captured (f m)) (f m))" for m t
  proof -
    have ne: "\<not> tm_error (f m)"
      using assms(2) [of "captured (f m)"] that(2) unfolding good_chain_def by metis
    have f: "tm_ok (f m)" "f (tm_extend t m) = tm_extend t (f m)"
      using stable_chainD [of f m, OF _ that(1) ne] assms(1) by (simp_all add: good_chain_def)
    have "tm_ok (g (captured (f m)) (f m)) \<and>
        g (captured (f m)) (tm_extend t (f m)) = tm_extend t (g (captured (f m)) (f m))"
      using stable_chainD [of "g (captured (f m))", OF _ f(1) that(2)] assms(2) [of "captured (f m)"]
      by (simp add: good_chain_def)
    then show ?thesis by (simp add: f(2))
  qed
  then show ?thesis
    using err assms by (simp add: good_chain_def stable_chain_def)
qed

lemma good_comp: "good_chain f \<Longrightarrow> good_chain g \<Longrightarrow> good_chain (\<lambda>m. g (f m))"
  using good_bind [of f "\<lambda>_. g"] by simp

lemma good_if: "good_chain f \<Longrightarrow> good_chain g \<Longrightarrow> good_chain (if b then f else g)"
  by simp

lemma good_matcher:
  assumes "good_chain f"
  shows "response_matcher (withMatch f)"
proof
  fix b t :: "'a list"
  assume pos: "0 < withMatch f b"
  show "withMatch f b \<le> int (length b)"
    using pos assms by (intro withMatch_bound) (simp_all add: good_chain_def createTextMatch_def)
  show "withMatch f (b @ t) = withMatch f b"
    using pos assms by (intro stable_withMatch) (simp_all add: good_chain_def)
qed

text \<open>One capture on a buffer whose unread part starts with a value and its end mark.\<close>

lemma capture_value:
  assumes "\<not> tm_error m" "tm_buffer m = pre @ v @ e @ rest" "tm_pos m = int (length pre)"
    "find_sub e (v @ e @ rest) = Some (length v)"
  shows "capture e m = m\<lparr>captured := captured m @ [v], tm_pos := int (length (pre @ v @ e)), tm_error := False\<rparr>"
  using assms by (simp add: capture_def index_of_def js_slice_def Let_def)

end
