(* ===== verification/Socket_Match.thy ===== *)
theory Socket_Match
  imports Naive_Socket Text_Match
begin

section \<open>Responses that arrive in pieces\<close>

text \<open>
  The socket together with a response matcher: however the peer's bytes are cut into chunks,
  the request at the head of the queue is resolved with the same response.
\<close>

fun decodeAll :: "SocketOptions \<Rightarrow> byte list \<Rightarrow> byte list list \<Rightarrow> string" where
  "decodeAll c st [] = []"
| "decodeAll c st (ch # chs) =
     fst (decodeChunk c st ch) @ decodeAll c (snd (decodeChunk c st ch)) chs"

lemma onData_quiet:
  assumes "sendWorks s = w # ws" "w_expectResponse (works s w)"
    "fulfill_length (w_fulfill (works s w)) (currentBuffer s @ fst (decodeChunk c (sock_decoder s) chunk)) \<le> 0"
  shows "onData c chunk s =
    s\<lparr>currentBuffer := currentBuffer s @ fst (decodeChunk c (sock_decoder s) chunk),
      sock_decoder := snd (decodeChunk c (sock_decoder s) chunk)\<rparr>"
proof -
  obtain new pnd where "decodeChunk c (sock_decoder s) chunk = (new, pnd)"
    by fastforce
  with assms show ?thesis by (simp add: onData_def head_expects_def Let_def)
qed

lemma onData_resolves:
  fixes c :: SocketOptions and chunk :: "byte list"
  assumes "sendWorks s = w # ws" "w_expectResponse (works s w)" "w_promise (works s w) = Pending"
    "w < nextWork s"
  defines "b \<equiv> currentBuffer s @ fst (decodeChunk c (sock_decoder s) chunk)"
  defines "n \<equiv> fulfill_length (w_fulfill (works s w)) b"
  assumes "0 < n"
  shows "w_promise (works (onData c chunk s) w) = Resolved (take (nat n) b)"
proof -
  obtain new pnd where d: "decodeChunk c (sock_decoder s) chunk = (new, pnd)"
    by fastforce
  define s2 where "s2 = (settle_work (p_resolve (take (nat n) b)) w
      (s\<lparr>currentBuffer := b, sock_decoder := pnd\<rparr>))
    \<lparr>currentBuffer := drop (nat n) b, sendWorks := ws, sock_onWire := tl (sock_onWire s)\<rparr>"
  have p2: "w_promise (works s2 w) = Resolved (take (nat n) b)" "w < nextWork s2"
    using assms(3,4) by (simp_all add: s2_def p_resolve_def isSettled_def)
  have "works (onData c chunk s) = works (doNextSendWork c s2)"
    using assms(1,2,7) d by (simp add: onData_def s2_def b_def n_def head_expects_def Let_def)
  then show ?thesis
    using keeps_doNext [of s2 c] p2 by (simp add: keeps_settled_def isSettled_def)
qed

lemma chunks_resolve:
  assumes "response_matcher matches"
    "fulfill_length (w_fulfill (works s w)) = matches"
    "sendWorks s = w # ws" "w_expectResponse (works s w)" "w_promise (works s w) = Pending"
    "w < nextWork s" "matches (currentBuffer s) \<le> 0"
    "0 < matches (currentBuffer s @ decodeAll c (sock_decoder s) chunks)"
  shows "w_promise (works (fold (onData c) chunks s) w) =
    Resolved (take (nat (matches (currentBuffer s @ decodeAll c (sock_decoder s) chunks)))
      (currentBuffer s @ decodeAll c (sock_decoder s) chunks))"
  using assms(2-)
proof (induction chunks arbitrary: s)
  case Nil
  then show ?case by simp
next
  case (Cons chunk chunks)
  let ?new = "fst (decodeChunk c (sock_decoder s) chunk)"
  let ?rest = "decodeAll c (snd (decodeChunk c (sock_decoder s) chunk)) chunks"
  show ?case
  proof (cases "matches (currentBuffer s @ ?new) \<le> 0")
    case True
    then show ?thesis
      using Cons.IH [of "onData c chunk s"] Cons.prems onData_quiet [of s w ws c chunk] by simp
  next
    case False
    then have pos: "0 < matches (currentBuffer s @ ?new)" by simp
    have "w_promise (works (onData c chunk s) w) =
        Resolved (take (nat (matches (currentBuffer s @ ?new))) (currentBuffer s @ ?new))"
      using onData_resolves [of s w ws c chunk] Cons.prems pos by simp
    moreover have "w < nextWork (onData c chunk s)"
      using keeps_onData [of s c chunk] Cons.prems(5) by (simp add: keeps_settled_def)
    moreover have "keeps_settled (onData c chunk s) (fold (onData c) chunks (onData c chunk s))"
      by (rule keeps_fold) (rule keeps_onData)
    ultimately show ?thesis
      using response_matcher.take_stable [OF assms(1) pos, of ?rest] by (simp add: keeps_settled_def isSettled_def)
  qed
qed

text \<open>
  C21: However the bytes of a response are cut into chunks, the waiting request is resolved
  with the same text: the part of the whole stream its capture chain consumes.
\<close>

theorem chunking_is_invisible:
  assumes "sendWorks s = w # ws" "w < nextWork s" "w_promise (works s w) = Pending"
    "w_expectResponse (works s w)" "w_fulfill (works s w) = FulfillBy (withMatch (capture_all es))"
    "withMatch (capture_all es) (currentBuffer s) \<le> 0"
    "text = currentBuffer s @ decodeAll c (sock_decoder s) chunks"
    "0 < withMatch (capture_all es) text"
  shows "w_promise (works (fold (onData c) chunks s) w) =
    Resolved (take (nat (withMatch (capture_all es) text)) text)"
proof -
  have "fulfill_length (w_fulfill (works s w)) = withMatch (capture_all es)"
    using assms(5) by (simp add: fun_eq_iff)
  then show ?thesis
    using chunks_resolve [OF marks.response_matcher_axioms _ assms(1,4,3,2), of es] assms(6-8)
    by simp
qed

definition lineRequest :: SendRequest where
  "lineRequest = \<lparr>req_message = ''GET'', req_fulfill = Some (FulfillBy (withMatch (capture_all [''!'']))),
     req_timeoutMillis = None, req_urgent = False, req_expectResponse = None\<rparr>"

theorem chunking_is_invisible_witness:
  "w_promise (works (fold (onData demoSocket) [[111], [107, 33, 120]]
     (sock_run demoSocket [EvSend lineRequest, EvConnect 0])) 0) = Resolved ''ok!'' \<and>
   w_promise (works (fold (onData demoSocket) [[111, 107], [33]]
     (sock_run demoSocket [EvSend lineRequest, EvConnect 0])) 0) = Resolved ''ok!''"
proof -
  let ?s = "sock_run demoSocket [EvSend lineRequest, EvConnect 0]"
  have q: "sendWorks ?s = [0]" "0 < nextWork ?s" "w_promise (works ?s 0) = Pending"
      "w_expectResponse (works ?s 0)" "currentBuffer ?s = []"
    by code_simp+
  have f: "w_fulfill (works ?s 0) = FulfillBy (withMatch (capture_all [''!'']))"
    by (simp add: sock_run_def createNaiveSocket_def send_def buildSendWork_def lineRequest_def
        armTimeout_def doNextSendWork_def connect_def openSocket_def demoSocket_def
        changeConnectionState_def current_def onConnect_def write_work_def upd_work_def
        emit_call_def isSettled_def Let_def)
  have m: "withMatch (capture_all [''!'']) ''ok!x'' = 3" "withMatch (capture_all [''!'']) ''ok!'' = 3"
      "withMatch (capture_all [''!'']) [] = -1"
    by code_simp+
  have d: "decodeAll demoSocket (sock_decoder ?s) [[111], [107, 33, 120]] = ''ok!x''"
      "decodeAll demoSocket (sock_decoder ?s) [[111, 107], [33]] = ''ok!''"
    by code_simp+
  have "''ok!x'' = currentBuffer ?s @ decodeAll demoSocket (sock_decoder ?s) [[111], [107, 33, 120]]"
      "''ok!'' = currentBuffer ?s @ decodeAll demoSocket (sock_decoder ?s) [[111, 107], [33]]"
    using q(5) d by (simp_all only: append_Nil)
  note t = chunking_is_invisible [OF q(1-4) f _ this(1)] chunking_is_invisible [OF q(1-4) f _ this(2)]
  show ?thesis
    using t q(5) m by simp
qed

end
