(* ===== verification/Actor_Model.thy ===== *)
theory Actor_Model
  imports Prelude
begin

section \<open>Messages, queues, locks and awaiters (actor-system/src)\<close>

text \<open>
  The three pluggable pieces of the actor system as interfaces, each with the laws the rest
  of the system relies on, and the in-process implementations of inMemory.ts, which are
  shown to satisfy them. Operations are effects on a world: an \<open>await\<close> of the source is one
  application.
\<close>

subsection \<open>Messages (message.ts)\<close>

datatype AwaitPolicy = Forget | Act | Commit

record AwaiterMeta =
  messageId :: string
  awaitPolicy :: AwaitPolicy
  awaitTimeoutMillis :: int

record 'i UserMessage = AwaiterMeta +
  item :: 'i

definition copyAwaiterMeta :: "'i UserMessage \<Rightarrow> AwaiterMeta" where
  "copyAwaiterMeta input =
     \<lparr>messageId = messageId input, awaitPolicy = awaitPolicy input,
      awaitTimeoutMillis = awaitTimeoutMillis input\<rparr>"

subsection \<open>The interfaces\<close>

text \<open>
  A queue keeps a list of messages per actor: \<open>push\<close> appends and answers the depth, \<open>peek\<close>
  and \<open>pop\<close> look at and remove the oldest message, \<open>flush\<close> removes them all. No operation
  touches another actor's queue.
\<close>

locale fifo_queue =
  fixes view :: "'w \<Rightarrow> string \<Rightarrow> 'm list"
    and q_size :: "string \<Rightarrow> ('e, nat, 'w) eff"
    and q_push :: "string \<Rightarrow> 'm \<Rightarrow> ('e, nat, 'w) eff"
    and q_pop :: "string \<Rightarrow> ('e, 'm option, 'w) eff"
    and q_peek :: "string \<Rightarrow> ('e, 'm option, 'w) eff"
    and q_flush :: "string \<Rightarrow> ('e, 'm list, 'w) eff"
  assumes size_law: "q_size a s = Some (Inr (length (view s a)), s)"
    and peek_law: "q_peek a s = Some (Inr (case view s a of [] \<Rightarrow> None | m # _ \<Rightarrow> Some m), s)"
    and push_law: "\<exists>s'. q_push a m s = Some (Inr (Suc (length (view s a))), s') \<and>
      view s' = (view s)(a := view s a @ [m])"
    and pop_law: "\<exists>s'. q_pop a s =
        Some (Inr (case view s a of [] \<Rightarrow> None | m # _ \<Rightarrow> Some m), s') \<and>
      view s' = (view s)(a := tl (view s a))"
    and flush_law: "\<exists>s'. q_flush a s = Some (Inr (view s a), s') \<and> view s' = (view s)(a := [])"
begin

text \<open>What was pushed comes out in the same order.\<close>

fun push_all :: "string \<Rightarrow> 'm list \<Rightarrow> 'w \<Rightarrow> 'w" where
  "push_all a [] s = s"
| "push_all a (m # ms) s = push_all a ms (snd (the (q_push a m s)))"

lemma view_push_all: "view (push_all a ms s) = (view s)(a := view s a @ ms)"
proof (induction ms arbitrary: s)
  case Nil
  then show ?case by simp
next
  case (Cons m ms)
  obtain s' where s': "q_push a m s = Some (Inr (Suc (length (view s a))), s')"
      "view s' = (view s)(a := view s a @ [m])"
    using push_law by blast
  then show ?case using Cons.IH [of s'] by (auto simp: fun_eq_iff)
qed

lemma flush_after_push:
  "\<exists>s'. q_flush a (push_all a ms s) = Some (Inr (view s a @ ms), s') \<and>
     view s' = (view s)(a := [])"
  using flush_law [of a "push_all a ms s"] by (simp add: view_push_all)

end

text \<open>
  A lock has at most one holder per actor; \<open>tryAcquire\<close> succeeds exactly when there is none.
\<close>

locale actor_lock =
  fixes held :: "'w \<Rightarrow> string \<Rightarrow> bool"
    and l_acquire :: "string \<Rightarrow> ('e, bool, 'w) eff"
    and l_release :: "string \<Rightarrow> ('e, bool, 'w) eff"
  assumes acquire_law: "\<exists>s'. l_acquire a s = Some (Inr (\<not> held s a), s') \<and>
      held s' = (held s)(a := True)"
    and release_law: "\<exists>s'. l_release a s = Some (Inr (held s a), s') \<and>
      held s' = (held s)(a := False)"
begin

text \<open>Of two attempts without a release between them the second one fails.\<close>

lemma exclusive:
  assumes "l_acquire a s = Some (Inr True, s1)" "held s2 a = held s1 a"
  shows "\<exists>s3. l_acquire a s2 = Some (Inr False, s3)"
  using acquire_law [of a s] acquire_law [of a s2] assms by auto

lemma reacquire_after_release:
  assumes "l_release a s = Some (r, s1)"
  shows "\<exists>s2. l_acquire a s1 = Some (Inr True, s2)"
  using release_law [of a s] acquire_law [of a s1] assms by auto

end

subsection \<open>The in-process implementations (inMemory.ts)\<close>

text \<open>
  The world holds the queues, the lock holders and the awaiters; \<open>mw_app\<close> is whatever the
  handlers keep. A queue that was never pushed to is absent from the map, and \<open>flush\<close>
  deletes the entry while \<open>pop\<close> leaves an empty array behind.
\<close>

record ('m, 'u) mem_world =
  queues :: "string \<rightharpoonup> 'm list"
  lockHolders :: "string set"
  resolvers :: "string \<rightharpoonup> nat"
  nextWait :: nat
  finished :: "(nat \<times> bool) list"
  mw_app :: 'u

definition mem_size :: "string \<Rightarrow> ('e, nat, ('m, 'u) mem_world) eff" where
  "mem_size actorId w =
     return_eff (case queues w actorId of None \<Rightarrow> 0 | Some q \<Rightarrow> length q) w"

definition mem_push :: "string \<Rightarrow> 'm \<Rightarrow> ('e, nat, ('m, 'u) mem_world) eff" where
  "mem_push actorId m w =
     (case queues w actorId of
        Some q \<Rightarrow> return_eff (length (q @ [m])) (w\<lparr>queues := (queues w)(actorId \<mapsto> q @ [m])\<rparr>)
      | None \<Rightarrow> return_eff 1 (w\<lparr>queues := (queues w)(actorId \<mapsto> [m])\<rparr>))"

definition mem_pop :: "string \<Rightarrow> ('e, 'm option, ('m, 'u) mem_world) eff" where
  "mem_pop actorId w =
     (case queues w actorId of
        None \<Rightarrow> return_eff None w
      | Some [] \<Rightarrow> return_eff None w
      | Some (m # q) \<Rightarrow> return_eff (Some m) (w\<lparr>queues := (queues w)(actorId \<mapsto> q)\<rparr>))"

definition mem_peek :: "string \<Rightarrow> ('e, 'm option, ('m, 'u) mem_world) eff" where
  "mem_peek actorId w =
     (case queues w actorId of
        None \<Rightarrow> return_eff None w
      | Some [] \<Rightarrow> return_eff None w
      | Some (m # q) \<Rightarrow> return_eff (Some m) w)"

definition mem_flush :: "string \<Rightarrow> ('e, 'm list, ('m, 'u) mem_world) eff" where
  "mem_flush actorId w =
     (case queues w actorId of
        None \<Rightarrow> return_eff [] w
      | Some [] \<Rightarrow> return_eff [] w
      | Some q \<Rightarrow> return_eff q (w\<lparr>queues := (queues w)(actorId := None)\<rparr>))"

definition mem_tryAcquire :: "string \<Rightarrow> ('e, bool, ('m, 'u) mem_world) eff" where
  "mem_tryAcquire actorId w =
     (if actorId \<in> lockHolders w then return_eff False w
      else return_eff True (w\<lparr>lockHolders := insert actorId (lockHolders w)\<rparr>))"

definition mem_release :: "string \<Rightarrow> ('e, bool, ('m, 'u) mem_world) eff" where
  "mem_release actorId w =
     return_eff (actorId \<in> lockHolders w) (w\<lparr>lockHolders := lockHolders w - {actorId}\<rparr>)"

text \<open>
  \<open>wait\<close> registers a promise, here by number; \<open>finish\<close> settles the promise registered last
  under an id, once. \<open>finished\<close> lists the promises that were settled, with their values.
\<close>

definition mem_finish :: "string \<Rightarrow> bool \<Rightarrow> ('m, 'u) mem_world \<Rightarrow> ('m, 'u) mem_world" where
  "mem_finish i result w =
     (case resolvers w i of
        None \<Rightarrow> w
      | Some k \<Rightarrow> w\<lparr>finished := finished w @ [(k, result)], resolvers := (resolvers w)(i := None)\<rparr>)"

definition mem_wait :: "string \<Rightarrow> string \<Rightarrow> ('m, 'u) mem_world \<Rightarrow> nat \<times> ('m, 'u) mem_world" where
  "mem_wait actorId mid w =
     (nextWait w,
      w\<lparr>resolvers := (resolvers w)(actorId @ mid \<mapsto> nextWait w), nextWait := Suc (nextWait w)\<rparr>)"

definition mem_resolve :: "string \<Rightarrow> string \<Rightarrow> ('e, unit, ('m, 'u) mem_world) eff" where
  "mem_resolve actorId mid w = return_eff () (mem_finish (actorId @ mid) True w)"

subsection \<open>They satisfy the interfaces\<close>

definition mem_view :: "('m, 'u) mem_world \<Rightarrow> string \<Rightarrow> 'm list" where
  "mem_view w a = (case queues w a of None \<Rightarrow> [] | Some q \<Rightarrow> q)"

definition mem_held :: "('m, 'u) mem_world \<Rightarrow> string \<Rightarrow> bool" where
  "mem_held w a \<longleftrightarrow> a \<in> lockHolders w"

interpretation memq: fifo_queue mem_view mem_size mem_push mem_pop mem_peek mem_flush
  by unfold_locales
    (auto simp: mem_view_def mem_size_def mem_push_def mem_pop_def mem_peek_def mem_flush_def
      fun_eq_iff eff_simps split: option.splits list.splits)

interpretation meml: actor_lock mem_held mem_tryAcquire mem_release
  by unfold_locales
    (auto simp: mem_held_def mem_tryAcquire_def mem_release_def fun_eq_iff eff_simps)

end
