(* ===== verification/Actor_Event_Loop.thy ===== *)
theory Actor_Event_Loop
  imports Prelude
begin

section \<open>The event loop and its lock heartbeat (actor-system: eventLoop.ts, lockHeartbeat.ts)\<close>

text \<open>
  \<open>eventLoop\<close> runs a game under the actor's lock while a timer renews the lease. The two
  interleave at every \<open>await\<close>, so they are modelled as one state machine: an event is the
  answer of an awaited call, a tick of the timer, or a call of \<open>poll\<close> by the game. The calls
  made are recorded in \<open>el_calls\<close>. The lock, the queue and the game are the environment: any
  answer may come at any time. Logging is left out.
\<close>

subsection \<open>The heartbeat\<close>

datatype answer = Yes | No | Failed

datatype el_call =
    LAcquire | LRenew | LReacquire | LOnLockLost | LOnAcquired | LLoop | LFlush | LPollRefused | LRelease

datatype beat = NoBeat | Renewing | Reacquiring

record EventLoopOptions =
  lock_has_renew :: bool
  lockRenewIntervalMillis :: "int option"
  has_onAcquired :: bool

record heartbeat =
  hb_timer :: bool
  hb_inFlight :: bool
  hb_lost :: bool
  hb_beat :: beat

definition startLockHeartbeat :: "EventLoopOptions \<Rightarrow> heartbeat" where
  "startLockHeartbeat c =
     \<lparr>hb_timer = (lock_has_renew c \<and>
        (case lockRenewIntervalMillis c of None \<Rightarrow> False | Some i \<Rightarrow> i > 0)),
      hb_inFlight = False, hb_lost = False, hb_beat = NoBeat\<rparr>"

text \<open>The function it returns: the timer stops, a beat that is in flight goes on.\<close>

definition stopHeartbeat :: "heartbeat \<Rightarrow> heartbeat" where
  "stopHeartbeat h = h\<lparr>hb_timer := False\<rparr>"

definition hb_tick :: "heartbeat \<Rightarrow> heartbeat \<times> el_call list" where
  "hb_tick h =
     (if \<not> hb_timer h \<or> hb_inFlight h \<or> hb_lost h then (h, [])
      else (h\<lparr>hb_inFlight := True, hb_beat := Renewing\<rparr>, [LRenew]))"

definition beat_done :: "heartbeat \<Rightarrow> heartbeat" where
  "beat_done h = h\<lparr>hb_inFlight := False, hb_beat := NoBeat\<rparr>"

text \<open>The continuations of \<open>beat\<close> after its two awaits; a throw is caught and logged.\<close>

definition beat_renewed :: "answer \<Rightarrow> heartbeat \<Rightarrow> heartbeat \<times> el_call list" where
  "beat_renewed a h =
     (if hb_beat h \<noteq> Renewing then (h, [])
      else case a of
        No \<Rightarrow> (h\<lparr>hb_beat := Reacquiring\<rparr>, [LReacquire])
      | _ \<Rightarrow> (beat_done h, []))"

definition beat_reacquired :: "answer \<Rightarrow> heartbeat \<Rightarrow> heartbeat \<times> el_call list" where
  "beat_reacquired a h =
     (if hb_beat h \<noteq> Reacquiring then (h, [])
      else case a of
        No \<Rightarrow> (beat_done (h\<lparr>hb_lost := True\<rparr>), [LOnLockLost])
      | _ \<Rightarrow> (beat_done h, []))"

subsection \<open>The event loop\<close>

text \<open>\<open>Releasing o\<close>: in the \<open>finally\<close> block, with the error the game ended with, if any.\<close>

datatype el_phase =
    Acquiring | Preparing | Running
  | Releasing "string option" | ReleasingAgain "string option" | Finished "string + bool"

record el_state =
  el_phase :: el_phase
  lockLost :: bool
  el_hb :: heartbeat
  el_calls :: "el_call list"

datatype el_event =
    EvAcquired "string + bool" | EvPrepared "string option" | EvPoll | EvLoopEnded "string option"
  | EvReleased bool | EvTick | EvRenewed answer | EvReacquired answer

definition el_start :: el_state where
  "el_start = \<lparr>el_phase = Acquiring, lockLost = False,
     el_hb = \<lparr>hb_timer = False, hb_inFlight = False, hb_lost = False, hb_beat = NoBeat\<rparr>,
     el_calls = [LAcquire]\<rparr>"

definition run_loop :: "el_state \<Rightarrow> el_state" where
  "run_loop s = s\<lparr>el_phase := Running, el_calls := el_calls s @ [LLoop]\<rparr>"

text \<open>The \<open>finally\<close> block: stop the heartbeat and try to release.\<close>

definition finish :: "string option \<Rightarrow> el_state \<Rightarrow> el_state" where
  "finish out s = s\<lparr>el_hb := stopHeartbeat (el_hb s), el_phase := Releasing out,
     el_calls := el_calls s @ [LRelease]\<rparr>"

definition outcome :: "string option \<Rightarrow> string + bool" where
  "outcome out = (case out of None \<Rightarrow> Inr True | Some e \<Rightarrow> Inl e)"

definition poll :: "el_state \<Rightarrow> el_state" where
  "poll s = (if lockLost s then s\<lparr>el_calls := el_calls s @ [LPollRefused]\<rparr>
             else s\<lparr>el_calls := el_calls s @ [LFlush]\<rparr>)"

definition heart :: "heartbeat \<times> el_call list \<Rightarrow> el_state \<Rightarrow> el_state" where
  "heart r s = s\<lparr>el_hb := fst r, el_calls := el_calls s @ snd r,
     lockLost := (lockLost s \<or> LOnLockLost \<in> set (snd r))\<rparr>"

fun eventLoop :: "EventLoopOptions \<Rightarrow> el_event \<Rightarrow> el_state \<Rightarrow> el_state" where
  "eventLoop c (EvAcquired r) s =
     (if el_phase s \<noteq> Acquiring then s
      else case r of
        Inl e \<Rightarrow> s\<lparr>el_phase := Finished (Inl e)\<rparr>
      | Inr False \<Rightarrow> s\<lparr>el_phase := Finished (Inr False)\<rparr>
      | Inr True \<Rightarrow>
          (let s1 = s\<lparr>el_hb := startLockHeartbeat c\<rparr> in
           if has_onAcquired c
           then s1\<lparr>el_phase := Preparing, el_calls := el_calls s1 @ [LOnAcquired]\<rparr>
           else run_loop s1))"
| "eventLoop c (EvPrepared err) s =
     (if el_phase s \<noteq> Preparing then s
      else case err of None \<Rightarrow> run_loop s | Some e \<Rightarrow> finish (Some e) s)"
| "eventLoop c EvPoll s = (if LLoop \<in> set (el_calls s) then poll s else s)"
| "eventLoop c (EvLoopEnded err) s = (if el_phase s = Running then finish err s else s)"
| "eventLoop c (EvReleased ok) s =
     (case el_phase s of
        Releasing out \<Rightarrow>
          (if ok then s\<lparr>el_phase := Finished (outcome out)\<rparr>
           else s\<lparr>el_phase := ReleasingAgain out, el_calls := el_calls s @ [LRelease]\<rparr>)
      | ReleasingAgain out \<Rightarrow> s\<lparr>el_phase := Finished (outcome out)\<rparr>
      | _ \<Rightarrow> s)"
| "eventLoop c EvTick s = heart (hb_tick (el_hb s)) s"
| "eventLoop c (EvRenewed a) s = heart (beat_renewed a (el_hb s)) s"
| "eventLoop c (EvReacquired a) s = heart (beat_reacquired a (el_hb s)) s"

text \<open>
  The game can call \<open>poll\<close> as soon as its loop was given it, also after the loop ended. The
  states a run can reach, whatever the order of the events:
\<close>

inductive el_reach :: "EventLoopOptions \<Rightarrow> el_state \<Rightarrow> bool" for c :: EventLoopOptions where
  start: "el_reach c el_start"
| step: "el_reach c s \<Longrightarrow> el_reach c (eventLoop c e s)"

definition el_run :: "EventLoopOptions \<Rightarrow> el_event list \<Rightarrow> el_state" where
  "el_run c es = fold (eventLoop c) es el_start"

lemma el_run_reach: "el_reach c (el_run c es)"
  by (induction es rule: rev_induct) (auto simp: el_run_def intro: el_reach.intros)

subsection \<open>The invariant\<close>

text \<open>
  \<open>quiet_after_loss calls\<close>: no \<open>flush\<close> after the loss was reported. \<open>releases\<close> counts the
  attempts to release; how many there can be is fixed by the phase.
\<close>

definition quiet_after_loss :: "el_call list \<Rightarrow> bool" where
  "quiet_after_loss calls \<longleftrightarrow> LFlush \<notin> set (dropWhile (\<lambda>c. c \<noteq> LOnLockLost) calls)"

lemma quiet_snoc:
  "quiet_after_loss (calls @ [c]) \<longleftrightarrow>
     quiet_after_loss calls \<and> (LOnLockLost \<in> set calls \<longrightarrow> c \<noteq> LFlush)"
  by (induction calls) (auto simp: quiet_after_loss_def)

fun release_bound :: "el_phase \<Rightarrow> nat \<Rightarrow> bool" where
  "release_bound Acquiring n = (n = 0)"
| "release_bound Preparing n = (n = 0)"
| "release_bound Running n = (n = 0)"
| "release_bound (Releasing _) n = (n = 1)"
| "release_bound (ReleasingAgain _) n = (n = 2)"
| "release_bound (Finished r) n = (n \<le> 2)"

definition started :: "el_call list \<Rightarrow> bool" where
  "started calls \<longleftrightarrow> LOnAcquired \<in> set calls \<or> LLoop \<in> set calls"

definition el_inv :: "el_state \<Rightarrow> bool" where
  "el_inv s \<longleftrightarrow>
     quiet_after_loss (el_calls s) \<and>
     lockLost s = hb_lost (el_hb s) \<and>
     count_list (el_calls s) LOnLockLost = (if lockLost s then 1 else 0) \<and>
     hb_inFlight (el_hb s) = (hb_beat (el_hb s) \<noteq> NoBeat) \<and>
     (hb_lost (el_hb s) \<longrightarrow> \<not> hb_inFlight (el_hb s)) \<and>
     release_bound (el_phase s) (count_list (el_calls s) LRelease) \<and>
     (el_phase s \<in> {Preparing, Running} \<longrightarrow> started (el_calls s)) \<and>
     (hb_timer (el_hb s) \<longrightarrow> el_phase s \<in> {Preparing, Running}) \<and>
     (el_phase s = Acquiring \<longrightarrow> \<not> started (el_calls s) \<and> \<not> hb_lost (el_hb s) \<and>
        hb_beat (el_hb s) = NoBeat) \<and>
     (\<forall>r. el_phase s = Finished r \<longrightarrow> started (el_calls s) \<longrightarrow>
        r \<noteq> Inr False \<and> 1 \<le> count_list (el_calls s) LRelease)"

lemma lost_in_calls: "count_list calls LOnLockLost = (if b then 1 else 0) \<Longrightarrow> LOnLockLost \<in> set calls \<longleftrightarrow> b"
  using count_list_0_iff [of calls LOnLockLost] by (auto split: if_splits)

lemma el_inv_start: "el_inv el_start"
  by (simp add: el_inv_def el_start_def quiet_after_loss_def started_def)

lemma finish_inv:
  assumes "el_inv s" "el_phase s \<in> {Preparing, Running}"
  shows "el_inv (finish out s)"
  using assms by (auto simp: el_inv_def finish_def stopHeartbeat_def quiet_snoc started_def)

lemma run_loop_inv:
  assumes "el_inv s" "el_phase s = Preparing"
  shows "el_inv (run_loop s)"
  using assms by (auto simp: el_inv_def run_loop_def quiet_snoc started_def)

lemma acquired_inv:
  assumes "el_inv s" "el_phase s = Acquiring"
  shows "el_inv (eventLoop c (EvAcquired r) s)"
  using assms
  by (auto simp: el_inv_def run_loop_def quiet_snoc started_def startLockHeartbeat_def Let_def
      split: sum.splits bool.splits)

lemma poll_inv:
  assumes "el_inv s"
  shows "el_inv (poll s)"
  using assms lost_in_calls [of "el_calls s" "lockLost s"]
  by (auto simp: el_inv_def poll_def quiet_snoc started_def)

lemma released_inv:
  assumes "el_inv s"
  shows "el_inv (eventLoop c (EvReleased ok) s)"
  using assms
  by (cases "el_phase s")
    (auto simp: el_inv_def quiet_snoc started_def outcome_def split: option.splits)

text \<open>What the three heartbeat events do to the state.\<close>

lemma heart_quiet:
  assumes "el_inv s" "h' = el_hb s \<or> h' = beat_done (el_hb s)"
  shows "el_inv (heart (h', []) s)"
  using assms(2)
proof
  assume "h' = el_hb s"
  then show ?thesis using assms(1) by (simp add: heart_def)
next
  assume "h' = beat_done (el_hb s)"
  then show ?thesis
    using assms(1) by (simp add: el_inv_def heart_def beat_done_def)
qed

lemma heart_ask:
  assumes "el_inv s" "call \<in> {LRenew, LReacquire}" "b \<noteq> NoBeat" "\<not> hb_lost (el_hb s)"
    "el_phase s \<noteq> Acquiring"
  shows "el_inv (heart ((el_hb s)\<lparr>hb_inFlight := True, hb_beat := b\<rparr>, [call]) s)"
  using assms by (auto simp: el_inv_def heart_def quiet_snoc started_def)

lemma heart_lost:
  assumes "el_inv s" "hb_beat (el_hb s) = Reacquiring"
  shows "el_inv (heart (beat_done ((el_hb s)\<lparr>hb_lost := True\<rparr>), [LOnLockLost]) s)"
proof -
  have "\<not> lockLost s" "el_phase s \<noteq> Acquiring"
    using assms by (auto simp: el_inv_def)
  with assms(1) show ?thesis
    by (auto simp: el_inv_def heart_def beat_done_def quiet_snoc started_def)
qed

lemma tick_inv: "el_inv s \<Longrightarrow> el_inv (heart (hb_tick (el_hb s)) s)"
proof -
  assume inv: "el_inv s"
  then have "hb_timer (el_hb s) \<Longrightarrow> el_phase s \<noteq> Acquiring"
    by (auto simp: el_inv_def)
  with inv show ?thesis
    using heart_quiet [OF inv] heart_ask [OF inv, of LRenew Renewing] by (simp add: hb_tick_def)
qed

lemma renewed_inv:
  assumes "el_inv s"
  shows "el_inv (heart (beat_renewed a (el_hb s)) s)"
proof (cases "hb_beat (el_hb s) = Renewing \<and> a = No")
  case True
  then have "hb_inFlight (el_hb s)" "\<not> hb_lost (el_hb s)" "el_phase s \<noteq> Acquiring"
    using assms by (auto simp: el_inv_def)
  then have "(el_hb s)\<lparr>hb_beat := Reacquiring\<rparr> = (el_hb s)\<lparr>hb_inFlight := True, hb_beat := Reacquiring\<rparr>"
    by (cases "el_hb s") simp
  with True show ?thesis
    using heart_ask [OF assms, of LReacquire Reacquiring] \<open>\<not> hb_lost (el_hb s)\<close> \<open>el_phase s \<noteq> Acquiring\<close>
    by (simp add: beat_renewed_def)
next
  case False
  then show ?thesis
    using heart_quiet [OF assms] by (cases a) (auto simp: beat_renewed_def)
qed

lemma reacquired_inv:
  assumes "el_inv s"
  shows "el_inv (heart (beat_reacquired a (el_hb s)) s)"
  using heart_quiet [OF assms] heart_lost [OF assms]
  by (cases a) (auto simp: beat_reacquired_def)

lemma el_inv_step:
  assumes "el_inv s"
  shows "el_inv (eventLoop c e s)"
proof (cases e)
  case (EvAcquired r)
  show ?thesis
  proof (cases "el_phase s = Acquiring")
    case True
    then show ?thesis using EvAcquired acquired_inv [OF assms] by simp
  qed (use EvAcquired assms in simp)
next
  case (EvPrepared err)
  with assms show ?thesis by (cases err) (auto simp: run_loop_inv finish_inv)
next
  case (EvReleased ok)
  with assms show ?thesis using released_inv by simp
qed (use assms in \<open>simp_all add: poll_inv finish_inv tick_inv renewed_inv reacquired_inv\<close>)

lemma el_inv_reach: "el_reach c s \<Longrightarrow> el_inv s"
  by (induction rule: el_reach.induct) (rule el_inv_start, rule el_inv_step)

subsection \<open>The properties\<close>

text \<open>
  C14: A loop that lost its actor consumes nothing more: after the loss was reported no \<open>flush\<close>
  is made any more, and it is reported at most once.
\<close>

theorem nothing_consumed_after_loss:
  "quiet_after_loss (el_calls (el_run c es)) \<and>
   count_list (el_calls (el_run c es)) LOnLockLost \<le> 1 \<and>
   (lockLost (el_run c es) \<longleftrightarrow> LOnLockLost \<in> set (el_calls (el_run c es)))"
proof -
  let ?s = "el_run c es"
  have "el_inv ?s"
    by (rule el_inv_reach [OF el_run_reach])
  then have "quiet_after_loss (el_calls ?s)"
      and n: "count_list (el_calls ?s) LOnLockLost = (if lockLost ?s then 1 else 0)"
    unfolding el_inv_def by blast+
  moreover have "LOnLockLost \<in> set (el_calls ?s) \<longleftrightarrow> lockLost ?s"
    by (rule lost_in_calls [OF n])
  ultimately show ?thesis by simp
qed

text \<open>
  When a loop that started has ended, the timer is stopped, the release was tried once or
  twice, and the answer is not that of a call that could not get the lock.
\<close>

theorem release_tried:
  assumes "el_phase (el_run c es) = Finished r" "started (el_calls (el_run c es))"
  shows "r \<noteq> Inr False \<and> \<not> hb_timer (el_hb (el_run c es)) \<and>
    count_list (el_calls (el_run c es)) LRelease \<in> {1, 2}"
proof -
  have inv: "el_inv (el_run c es)"
    by (rule el_inv_reach [OF el_run_reach])
  then have "1 \<le> count_list (el_calls (el_run c es)) LRelease"
      "count_list (el_calls (el_run c es)) LRelease \<le> 2"
      "r \<noteq> Inr False" "\<not> hb_timer (el_hb (el_run c es))"
    using assms by (auto simp: el_inv_def)
  then show ?thesis by auto
qed

text \<open>
  Releasing never changes the outcome of a game: whether the first attempt works, or it
  fails and the second one works or fails, the call ends as the loop did.
\<close>

theorem release_keeps_outcome:
  assumes "el_phase (el_run c es) = Running"
  shows "el_phase (el_run c (es @ [EvLoopEnded out, EvReleased True])) = Finished (outcome out) \<and>
    el_phase (el_run c (es @ [EvLoopEnded out, EvReleased False, EvReleased ok])) = Finished (outcome out)"
  using assms by (simp add: el_run_def finish_def)

text \<open>
  Stopping the heartbeat does not stop a beat in flight: when its renewal was answered
  no, the beat asks for the lock again although the call has released it and returned. If
  that succeeds, the actor is locked with nobody running it until the lease expires.
\<close>

theorem beat_outlives_release:
  assumes "el_phase (el_run c es) = Running" "hb_beat (el_hb (el_run c es)) = Renewing"
  defines "s \<equiv> el_run c (es @ [EvLoopEnded None, EvReleased True, EvRenewed No])"
  shows "el_phase s = Finished (Inr True) \<and>
    el_calls s = el_calls (el_run c es) @ [LRelease, LReacquire]"
  using assms(1,2)
  by (simp add: s_def el_run_def finish_def stopHeartbeat_def heart_def beat_renewed_def outcome_def)

subsection \<open>Witnesses\<close>

definition gameOptions :: EventLoopOptions where
  "gameOptions = \<lparr>lock_has_renew = True, lockRenewIntervalMillis = Some 1000, has_onAcquired = True\<rparr>"

definition gameStart :: "el_event list" where
  "gameStart = [EvAcquired (Inr True), EvPrepared None, EvPoll, EvTick]"

theorem release_tried_witness:
  "count_list (el_calls (el_run gameOptions
     (gameStart @ [EvLoopEnded None, EvReleased False, EvReleased False]))) LRelease \<in> {1, 2}"
proof -
  have "el_phase (el_run gameOptions
     (gameStart @ [EvLoopEnded None, EvReleased False, EvReleased False])) = Finished (Inr True)"
    by code_simp
  moreover have "started (el_calls (el_run gameOptions
     (gameStart @ [EvLoopEnded None, EvReleased False, EvReleased False])))"
    by code_simp
  ultimately show ?thesis using release_tried by blast
qed

theorem release_keeps_outcome_witness:
  "el_phase (el_run gameOptions (gameStart @ [EvLoopEnded (Some ''crash''), EvReleased True])) =
     Finished (Inl ''crash'')"
proof -
  have "el_phase (el_run gameOptions gameStart) = Running" by code_simp
  from release_keeps_outcome [OF this, of "Some ''crash''" True] show ?thesis
    by (simp add: outcome_def)
qed

theorem beat_outlives_release_witness:
  "el_phase (el_run gameOptions (gameStart @ [EvLoopEnded None, EvReleased True, EvRenewed No])) =
     Finished (Inr True) \<and>
   last (el_calls (el_run gameOptions (gameStart @ [EvLoopEnded None, EvReleased True, EvRenewed No]))) =
     LReacquire"
proof -
  have "el_phase (el_run gameOptions gameStart) = Running"
      "hb_beat (el_hb (el_run gameOptions gameStart)) = Renewing"
    by code_simp+
  from beat_outlives_release [OF this] show ?thesis by simp
qed

end
