(* ===== verification/Actor_Process.thy ===== *)
theory Actor_Process
  imports Actor_Model Actor_Event_Loop
begin

section \<open>Draining an actor's queue (actor-system: process.ts, awaiting.ts, enqueue.ts, post.ts, send.ts)\<close>

text \<open>
  The environment of an actor is a record of effects on a world \<open>'w\<close>: its queue, lock and
  awaiter, its handlers, the clock and \<open>sleep\<close>. Every call into the environment that took
  effect is recorded in \<open>act_trace\<close>, in the order of the effects; this is bookkeeping of the
  model, on which the properties about the order of calls are stated. Logging is left out.

  While the code awaits, the world moves on (\<open>env_await\<close>): other processes act, and the timer
  of the lock's heartbeat fires or its beat goes on, calling \<open>renew\<close> and \<open>tryAcquire\<close> on the
  same lock. That happens before and after the awaited call takes effect. The heartbeat is
  the one of \<open>Actor_Event_Loop\<close>.

  \<open>Cut\<close> stands for a run that is looked at before its end: the loops' fuel is spent, the
  process dies, or a call never returns. No \<open>catch\<close> and no \<open>finally\<close> sees it. So every prefix
  of every run is an outcome for some fuel, and what holds of all outcomes holds at each
  moment of runs that never end as well.
\<close>

datatype 'i act_call =
    CAcquire bool | CRelease | CSize | CPeek | CPop "'i UserMessage option" | CFlush | CPush
  | CPrepare | CCommit | CHandle "'i list" | CError | CResolve string | CWait string | CSleep
  | CShift | CUUID | CRenew answer | CReacquire answer

record ('i, 'w) act_state =
  act_world :: 'w
  act_trace :: "'i act_call list"
  act_hb :: heartbeat
  act_lost :: bool

datatype stop = Thrown string | Cut

type_synonym ('a, 'i, 'w) act = "(stop, 'a, ('i, 'w) act_state) eff"

datatype consume = Single | Bulk

datatype hb_move = Tick | Proceed

record ('i, 'w) ActorEnv =
  env_id :: string
  env_consume :: consume
  env_size :: "string \<Rightarrow> (string, nat, 'w) eff"
  env_push :: "string \<Rightarrow> 'i UserMessage \<Rightarrow> (string, nat, 'w) eff"
  env_pop :: "string \<Rightarrow> (string, 'i UserMessage option, 'w) eff"
  env_peek :: "string \<Rightarrow> (string, 'i UserMessage option, 'w) eff"
  env_flush :: "string \<Rightarrow> (string, 'i UserMessage list, 'w) eff"
  env_tryAcquire :: "string \<Rightarrow> (string, bool, 'w) eff"
  env_release :: "string \<Rightarrow> (string, bool, 'w) eff"
  env_renew :: "(string \<Rightarrow> (string, bool, 'w) eff) option"
  env_wait :: "string \<Rightarrow> string \<Rightarrow> int \<Rightarrow> (string, bool, 'w) eff"
  env_resolve :: "string \<Rightarrow> string \<Rightarrow> (string, unit, 'w) eff"
  onMessage :: "'i \<Rightarrow> (string, unit, 'w) eff"
  onMessages :: "'i list \<Rightarrow> (string, unit, 'w) eff"
  onPrepare :: "(string \<Rightarrow> (string, unit, 'w) eff) option"
  onCommit :: "(string \<Rightarrow> (string, unit, 'w) eff) option"
  env_onError :: "(string \<Rightarrow> (string, unit, 'w) eff) option"
  env_shift :: "(string \<Rightarrow> (string, unit, 'w) eff) option"
  env_now :: "'w \<Rightarrow> int"
  env_sleep :: "int \<Rightarrow> (string, unit, 'w) eff"
  env_randomUUID :: "(string, string, 'w) eff"
  env_await :: "'w \<Rightarrow> hb_move list \<times> 'w"

subsection \<open>Awaiting a call, with the heartbeat beside it\<close>

definition answer_of :: "string + bool \<Rightarrow> answer" where
  "answer_of r = (case r of Inl e \<Rightarrow> Failed | Inr b \<Rightarrow> if b then Yes else No)"

text \<open>What a step of the heartbeat leaves behind; \<open>onLost\<close> sets \<open>lockLost\<close>.\<close>

definition on_beat :: "heartbeat \<times> el_call list \<Rightarrow> ('i, 'w) act_state \<Rightarrow> ('i, 'w) act_state" where
  "on_beat r s = s\<lparr>act_hb := fst r, act_lost := (act_lost s \<or> LOnLockLost \<in> set (snd r))\<rparr>"

definition answered :: "'i act_call \<Rightarrow> 'w \<Rightarrow> ('i, 'w) act_state \<Rightarrow> ('i, 'w) act_state" where
  "answered c w s = s\<lparr>act_world := w, act_trace := act_trace s @ [c]\<rparr>"

fun heart_move :: "('i, 'w) ActorEnv \<Rightarrow> hb_move \<Rightarrow> ('i, 'w) act_state \<Rightarrow> ('i, 'w) act_state" where
  "heart_move env Tick s = on_beat (hb_tick (act_hb s)) s"
| "heart_move env Proceed s =
     (case hb_beat (act_hb s) of
        NoBeat \<Rightarrow> s
      | Renewing \<Rightarrow>
          (case env_renew env of
             None \<Rightarrow> s
           | Some renew \<Rightarrow>
               (case renew (env_id env) (act_world s) of
                  None \<Rightarrow> s
                | Some (r, w) \<Rightarrow>
                    on_beat (beat_renewed (answer_of r) (act_hb s))
                      (answered (CRenew (answer_of r)) w s)))
      | Reacquiring \<Rightarrow>
          (case env_tryAcquire env (env_id env) (act_world s) of
             None \<Rightarrow> s
           | Some (r, w) \<Rightarrow>
               on_beat (beat_reacquired (answer_of r) (act_hb s))
                 (answered (CReacquire (answer_of r)) w s)))"

definition meanwhile :: "('i, 'w) ActorEnv \<Rightarrow> ('i, 'w) act_state \<Rightarrow> ('i, 'w) act_state" where
  "meanwhile env s =
     (case env_await env (act_world s) of
        (moves, w) \<Rightarrow> fold (heart_move env) moves (s\<lparr>act_world := w\<rparr>))"

text \<open>One awaited call into the environment. One that never returns cuts the run.\<close>

definition call ::
  "('i, 'w) ActorEnv \<Rightarrow> (string + 'a \<Rightarrow> 'i act_call) \<Rightarrow> (string, 'a, 'w) eff \<Rightarrow> ('a, 'i, 'w) act" where
  "call env c m s =
     (let s1 = meanwhile env s in
      case m (act_world s1) of
        None \<Rightarrow> Some (Inl Cut, s1)
      | Some (r, w) \<Rightarrow> Some (map_sum Thrown id r, meanwhile env (answered (c r) w s1)))"

definition pop_answer :: "string + 'i UserMessage option \<Rightarrow> 'i act_call" where
  "pop_answer r = CPop (case r of Inl e \<Rightarrow> None | Inr x \<Rightarrow> x)"

definition world :: "('w \<Rightarrow> 'a) \<Rightarrow> ('a, 'i, 'w) act" where
  "world f = get_eff (\<lambda>s. f (act_world s))"

definition catching :: "('a, 'i, 'w) act \<Rightarrow> (string \<Rightarrow> ('a, 'i, 'w) act) \<Rightarrow> ('a, 'i, 'w) act" where
  "catching m h = catch_eff m (\<lambda>x. case x of Cut \<Rightarrow> throw_eff Cut | Thrown e \<Rightarrow> h e)"

definition finally_do :: "('a, 'i, 'w) act \<Rightarrow> (unit, 'i, 'w) act \<Rightarrow> ('a, 'i, 'w) act" where
  "finally_do m f s =
     (case m s of
        Some (Inl Cut, s') \<Rightarrow> Some (Inl Cut, s')
      | _ \<Rightarrow> finally_eff m f s)"

definition heartbeat_of :: "bool \<Rightarrow> int option \<Rightarrow> heartbeat" where
  "heartbeat_of can_renew interval =
     startLockHeartbeat \<lparr>lock_has_renew = can_renew, lockRenewIntervalMillis = interval,
       has_onAcquired = False\<rparr>"

subsection \<open>Notifying and awaiting (awaiting.ts)\<close>

definition notifyCompletion :: "('i, 'w) ActorEnv \<Rightarrow> AwaiterMeta \<Rightarrow> (unit, 'i, 'w) act" where
  "notifyCompletion env meta =
     catching (call env (\<lambda>_. CResolve (messageId meta)) (env_resolve env (env_id env) (messageId meta)))
       (\<lambda>_. return_eff ())"

text \<open>\<open>Promise.all\<close> starts every resolve; a failing one is swallowed after all have started.\<close>

fun notifyCompletions :: "('i, 'w) ActorEnv \<Rightarrow> AwaiterMeta list \<Rightarrow> (unit, 'i, 'w) act" where
  "notifyCompletions env [] = return_eff ()"
| "notifyCompletions env (m # ms) =
     then_eff (notifyCompletion env m) (notifyCompletions env ms)"

definition awaitMessage :: "('i, 'w) ActorEnv \<Rightarrow> string \<Rightarrow> int \<Rightarrow> (bool, 'i, 'w) act" where
  "awaitMessage env mid awaitTimeout =
     call env (\<lambda>_. CWait mid) (env_wait env (env_id env) mid awaitTimeout)"

definition awaitMessageAfterTryToProcess ::
  "('i, 'w) ActorEnv \<Rightarrow> AwaiterMeta \<Rightarrow> (AwaiterMeta list, 'i, 'w) act \<Rightarrow> (bool, 'i, 'w) act" where
  "awaitMessageAfterTryToProcess env currentMeta process =
     bind_eff process (\<lambda>resolvedMetas.
       if awaitPolicy currentMeta = Forget then return_eff True
       else if \<exists>meta\<in>set resolvedMetas. messageId meta = messageId currentMeta then return_eff True
       else awaitMessage env (messageId currentMeta) (awaitTimeoutMillis currentMeta))"

subsection \<open>Draining under the lock (process.ts)\<close>

definition processMessage :: "('i, 'w) ActorEnv \<Rightarrow> 'i UserMessage \<Rightarrow> (unit, 'i, 'w) act" where
  "processMessage env message =
     catching (call env (\<lambda>_. CHandle [item message]) (onMessage env (item message)))
       (\<lambda>error. case env_onError env of
          None \<Rightarrow> return_eff ()
        | Some onError \<Rightarrow> call env (\<lambda>_. CError) (onError error))"

text \<open>
  \<open>notifyCompletion\<close> is started inside the loop and awaited at its end; it never fails, and
  its \<open>resolve\<close> call happens where it is started.
\<close>

fun processQueueInLock ::
  "nat \<Rightarrow> ('i, 'w) ActorEnv \<Rightarrow> (('i, 'w) act_state \<Rightarrow> bool) \<Rightarrow> AwaiterMeta list \<Rightarrow>
   (AwaiterMeta list, 'i, 'w) act" where
  "processQueueInLock 0 env isAlive metas = throw_eff Cut"
| "processQueueInLock (Suc n) env isAlive metas =
     bind_eff (get_eff isAlive) (\<lambda>alive.
       if \<not> alive then return_eff metas
       else bind_eff (call env (\<lambda>_. CSize) (env_size env (env_id env))) (\<lambda>size.
         if size = 0 then return_eff metas
         else bind_eff (call env (\<lambda>_. CPeek) (env_peek env (env_id env))) (\<lambda>maybe.
           case maybe of
             None \<Rightarrow> return_eff metas
           | Some message \<Rightarrow>
               then_eff (processMessage env message)
                 (then_eff
                   (when_eff (awaitPolicy message = Act)
                     (notifyCompletion env (copyAwaiterMeta message)))
                   (bind_eff (call env pop_answer (env_pop env (env_id env))) (\<lambda>_.
                     processQueueInLock n env isAlive (metas @ [copyAwaiterMeta message])))))))"

definition hook ::
  "('i, 'w) ActorEnv \<Rightarrow> 'i act_call \<Rightarrow> (string \<Rightarrow> (string, unit, 'w) eff) option \<Rightarrow> string \<Rightarrow>
   (unit, 'i, 'w) act" where
  "hook env c h i = (case h of None \<Rightarrow> return_eff () | Some f \<Rightarrow> call env (\<lambda>_. c) (f i))"

definition processInSingleMode ::
  "nat \<Rightarrow> ('i, 'w) ActorEnv \<Rightarrow> (('i, 'w) act_state \<Rightarrow> bool) \<Rightarrow> (AwaiterMeta list, 'i, 'w) act" where
  "processInSingleMode n env isAlive =
     bind_eff (get_eff isAlive) (\<lambda>alive.
       if \<not> alive then return_eff []
       else then_eff (hook env CPrepare (onPrepare env) (env_id env))
         (bind_eff (processQueueInLock n env isAlive []) (\<lambda>localMetas.
           then_eff (hook env CCommit (onCommit env) (env_id env)) (return_eff localMetas))))"

fun processInBulkMode ::
  "nat \<Rightarrow> ('i, 'w) ActorEnv \<Rightarrow> (('i, 'w) act_state \<Rightarrow> bool) \<Rightarrow> AwaiterMeta list \<Rightarrow>
   (AwaiterMeta list, 'i, 'w) act" where
  "processInBulkMode 0 env isAlive metas = throw_eff Cut"
| "processInBulkMode (Suc n) env isAlive metas =
     bind_eff (get_eff isAlive) (\<lambda>alive.
       if \<not> alive then return_eff metas
       else bind_eff (call env (\<lambda>_. CFlush) (env_flush env (env_id env))) (\<lambda>messages.
         if messages = [] then return_eff metas
         else
           then_eff
             (catching (call env (\<lambda>_. CHandle (map item messages)) (onMessages env (map item messages)))
               (\<lambda>error. case env_onError env of
                  None \<Rightarrow> return_eff ()
                | Some onError \<Rightarrow> call env (\<lambda>_. CError) (onError error)))
             (let metas' = metas @ map copyAwaiterMeta messages in
              then_eff (notifyCompletions env (filter (\<lambda>m. awaitPolicy m = Act) metas'))
                (processInBulkMode n env isAlive metas'))))"

fun processLoop ::
  "nat \<Rightarrow> ('i, 'w) ActorEnv \<Rightarrow> (('i, 'w) act_state \<Rightarrow> bool) \<Rightarrow> AwaiterMeta list \<Rightarrow>
   (AwaiterMeta list, 'i, 'w) act" where
  "processLoop 0 env isAlive metas = throw_eff Cut"
| "processLoop (Suc n) env isAlive metas =
     bind_eff (get_eff isAlive) (\<lambda>alive.
       if \<not> alive then return_eff metas
       else
         bind_eff
           (case env_consume env of
              Single \<Rightarrow> processInSingleMode n env isAlive
            | Bulk \<Rightarrow> processInBulkMode n env isAlive []) (\<lambda>localMetas.
         let metas' = metas @ localMetas in
         then_eff (notifyCompletions env (filter (\<lambda>m. awaitPolicy m = Commit) metas'))
           (bind_eff (call env (\<lambda>_. CSize) (env_size env (env_id env))) (\<lambda>size.
              if size = 0 then return_eff metas'
              else processLoop n env isAlive metas'))))"

subsection \<open>tryToProcess\<close>

record TryToProcessOptions =
  oneShot :: "bool option"
  aliveMillis :: "int option"
  shiftable :: "bool option"
  lockRenewIntervalMillis :: "int option"
  idleIntervalMillis :: "int option"

definition defaultIdleIntervalMillis :: int where
  "defaultIdleIntervalMillis = 50"

definition once :: "TryToProcessOptions \<Rightarrow> bool" where
  "once opts \<longleftrightarrow> oneShot opts = Some True \<or> (oneShot opts = None \<and> aliveMillis opts = None)"

definition isAlive :: "('i, 'w) ActorEnv \<Rightarrow> TryToProcessOptions \<Rightarrow> int \<Rightarrow> 'w \<Rightarrow> bool" where
  "isAlive env opts start w =
     (case aliveMillis opts of
        None \<Rightarrow> True
      | Some a \<Rightarrow> if a > 0 then env_now env w - start < a else True)"

definition stillOurs ::
  "('i, 'w) ActorEnv \<Rightarrow> TryToProcessOptions \<Rightarrow> int \<Rightarrow> ('i, 'w) act_state \<Rightarrow> bool" where
  "stillOurs env opts start s \<longleftrightarrow> isAlive env opts start (act_world s) \<and> \<not> act_lost s"

text \<open>\<open>Infinity\<close>, the answer without a positive \<open>aliveMillis\<close>, is \<open>None\<close>.\<close>

definition remainingMillis :: "('i, 'w) ActorEnv \<Rightarrow> TryToProcessOptions \<Rightarrow> int \<Rightarrow> 'w \<Rightarrow> int option" where
  "remainingMillis env opts start w =
     (case aliveMillis opts of
        None \<Rightarrow> None
      | Some a \<Rightarrow> if a > 0 then Some (max 0 (start + a - env_now env w)) else None)"

definition sleep :: "('i, 'w) ActorEnv \<Rightarrow> int \<Rightarrow> (unit, 'i, 'w) act" where
  "sleep env millis =
     (if millis > 0 then call env (\<lambda>_. CSleep) (env_sleep env millis) else return_eff ())"

definition idle_sleep :: "('i, 'w) ActorEnv \<Rightarrow> TryToProcessOptions \<Rightarrow> int \<Rightarrow> (unit, 'i, 'w) act" where
  "idle_sleep env opts start =
     bind_eff (world (remainingMillis env opts start)) (\<lambda>remaining.
       let idle = (case idleIntervalMillis opts of None \<Rightarrow> defaultIdleIntervalMillis | Some i \<Rightarrow> i) in
       sleep env (case remaining of None \<Rightarrow> idle | Some r \<Rightarrow> min idle r))"

fun acquire :: "nat \<Rightarrow> ('i, 'w) ActorEnv \<Rightarrow> TryToProcessOptions \<Rightarrow> int \<Rightarrow> (bool, 'i, 'w) act" where
  "acquire 0 env opts start = throw_eff Cut"
| "acquire (Suc n) env opts start =
     bind_eff (call env (\<lambda>r. CAcquire (r = Inr True)) (env_tryAcquire env (env_id env))) (\<lambda>ok.
       if ok then return_eff True
       else if once opts then return_eff False
       else bind_eff (world (isAlive env opts start)) (\<lambda>alive.
         if \<not> alive then return_eff False
         else then_eff (idle_sleep env opts start) (acquire n env opts start)))"

fun drain :: "nat \<Rightarrow> ('i, 'w) ActorEnv \<Rightarrow> TryToProcessOptions \<Rightarrow> int \<Rightarrow> AwaiterMeta list \<Rightarrow>
    (AwaiterMeta list, 'i, 'w) act" where
  "drain 0 env opts start metas = throw_eff Cut"
| "drain (Suc n) env opts start metas =
     bind_eff (get_eff (stillOurs env opts start)) (\<lambda>ours.
       if \<not> ours then return_eff metas
       else bind_eff (processLoop n env (stillOurs env opts start) []) (\<lambda>localMetas.
         let metas' = metas @ localMetas in
         bind_eff (get_eff (stillOurs env opts start)) (\<lambda>ours'.
           if once opts \<or> \<not> ours' then return_eff metas'
           else then_eff (idle_sleep env opts start) (drain n env opts start metas'))))"

definition release_lock :: "('i, 'w) ActorEnv \<Rightarrow> (unit, 'i, 'w) act" where
  "release_lock env =
     then_eff (modify_eff (\<lambda>s. s\<lparr>act_hb := stopHeartbeat (act_hb s)\<rparr>))
       (then_eff (call env (\<lambda>_. CRelease) (env_release env (env_id env))) (return_eff ()))"

text \<open>The lock is ours: \<open>lockLost\<close> starts false and the heartbeat starts.\<close>

definition begin_heartbeat :: "('i, 'w) ActorEnv \<Rightarrow> TryToProcessOptions \<Rightarrow> (unit, 'i, 'w) act" where
  "begin_heartbeat env opts =
     modify_eff (\<lambda>s. s\<lparr>act_lost := False,
       act_hb := heartbeat_of (env_renew env \<noteq> None) (lockRenewIntervalMillis opts)\<rparr>)"

definition tryToProcess ::
  "nat \<Rightarrow> ('i, 'w) ActorEnv \<Rightarrow> TryToProcessOptions \<Rightarrow> (AwaiterMeta list, 'i, 'w) act" where
  "tryToProcess n env opts =
     bind_eff (world (env_now env)) (\<lambda>start.
       bind_eff (acquire n env opts start) (\<lambda>ok.
         if \<not> ok then return_eff []
         else then_eff (begin_heartbeat env opts) (bind_eff
           (finally_do
             (bind_eff (drain n env opts start []) (\<lambda>metas.
                bind_eff (world (isAlive env opts start)) (\<lambda>alive.
                  return_eff (metas, shiftable opts = Some True \<and> \<not> alive))))
             (release_lock env))
           (\<lambda>(metas, shiftOnTimeout).
              then_eff
                (when_eff shiftOnTimeout (hook env CShift (env_shift env) (env_id env)))
                (return_eff metas)))))"

subsection \<open>Entry points: enqueue, post, send\<close>

text \<open>Missing metadata is filled in; an empty id counts as missing, as \<open>||\<close> has it.\<close>

record 'i MessageInput =
  in_messageId :: "string option"
  in_awaitPolicy :: "AwaitPolicy option"
  in_awaitTimeoutMillis :: "int option"
  in_item :: 'i

definition enqueue :: "('i, 'w) ActorEnv \<Rightarrow> 'i MessageInput \<Rightarrow> ('i UserMessage \<times> nat, 'i, 'w) act" where
  "enqueue env input =
     bind_eff
       (case in_messageId input of
          None \<Rightarrow> call env (\<lambda>_. CUUID) (env_randomUUID env)
        | Some i \<Rightarrow> if i = [] then call env (\<lambda>_. CUUID) (env_randomUUID env) else return_eff i)
       (\<lambda>mid.
          let message = \<lparr>messageId = mid,
                awaitPolicy = (case in_awaitPolicy input of None \<Rightarrow> Forget | Some p \<Rightarrow> p),
                awaitTimeoutMillis = (case in_awaitTimeoutMillis input of None \<Rightarrow> 0 | Some t \<Rightarrow> t),
                item = in_item input\<rparr>
          in bind_eff (call env (\<lambda>_. CPush) (env_push env (env_id env) message))
               (\<lambda>queueDepth. return_eff (message, queueDepth)))"

definition post :: "('i, 'w) ActorEnv \<Rightarrow> 'i MessageInput \<Rightarrow> (bool, 'i, 'w) act" where
  "post env input =
     bind_eff (enqueue env input) (\<lambda>(message, _).
       if awaitPolicy message = Forget then return_eff True
       else awaitMessage env (messageId message) (awaitTimeoutMillis message))"

definition actor_send ::
  "nat \<Rightarrow> ('i, 'w) ActorEnv \<Rightarrow> 'i MessageInput \<Rightarrow> TryToProcessOptions \<Rightarrow> (bool, 'i, 'w) act" where
  "actor_send n env input opts =
     bind_eff (enqueue env input) (\<lambda>(message, _).
       awaitMessageAfterTryToProcess env (copyAwaiterMeta message) (tryToProcess n env opts))"


subsection \<open>The order of calls\<close>

text \<open>
  What a trace says about the lock: \<open>Waiting\<close> while only attempts to acquire it and pauses
  have happened, \<open>Held\<close> from the successful attempt to the release, \<open>Released\<close> after it, when
  only the shift may follow. The heartbeat's calls belong to the last two. Anything else is
  \<open>Broken\<close>.
\<close>

datatype lock_phase = Waiting | Held | Released | Broken

fun lock_step :: "'i act_call \<Rightarrow> lock_phase \<Rightarrow> lock_phase" where
  "lock_step (CAcquire b) p = (if p = Waiting then (if b then Held else Waiting) else Broken)"
| "lock_step CSleep p = (if p = Waiting \<or> p = Held then p else Broken)"
| "lock_step CRelease p = (if p = Held then Released else Broken)"
| "lock_step CShift p = (if p = Released then Released else Broken)"
| "lock_step (CRenew a) p = (if p = Held \<or> p = Released then p else Broken)"
| "lock_step (CReacquire a) p = (if p = Held \<or> p = Released then p else Broken)"
| "lock_step _ p = (if p = Held then Held else Broken)"

definition lock_phase_of :: "'i act_call list \<Rightarrow> lock_phase" where
  "lock_phase_of tr = fold lock_step tr Waiting"

text \<open>
  The heartbeat asks for the lock again only after a refused renewal, and stops for good when
  that is refused as well; anything else is \<open>Wrong\<close>.
\<close>

datatype beat_phase = Beating | Refused | Lost | Wrong

fun beat_step :: "'i act_call \<Rightarrow> beat_phase \<Rightarrow> beat_phase" where
  "beat_step (CRenew a) p = (if p = Beating then (if a = No then Refused else Beating) else Wrong)"
| "beat_step (CReacquire a) p = (if p = Refused then (if a = No then Lost else Beating) else Wrong)"
| "beat_step _ p = p"

definition beat_phase_of :: "'i act_call list \<Rightarrow> beat_phase" where
  "beat_phase_of tr = fold beat_step tr Beating"

fun is_beat :: "'i act_call \<Rightarrow> bool" where
  "is_beat (CRenew a) = True"
| "is_beat (CReacquire a) = True"
| "is_beat _ = False"

fun is_handle :: "'i act_call \<Rightarrow> bool" where
  "is_handle (CHandle is) = True"
| "is_handle _ = False"

definition late_beats :: "'i act_call list \<Rightarrow> nat" where
  "late_beats tr = length (filter is_beat (dropWhile (\<lambda>c. c \<noteq> CRelease) tr))"

definition handled_after_loss :: "'i act_call list \<Rightarrow> nat" where
  "handled_after_loss tr = length (filter is_handle (dropWhile (\<lambda>c. c \<noteq> CReacquire No) tr))"

lemma lock_phase_snoc [simp]: "lock_phase_of (tr @ [c]) = lock_step c (lock_phase_of tr)"
  by (simp add: lock_phase_of_def)

lemma beat_phase_snoc [simp]: "beat_phase_of (tr @ [c]) = beat_step c (beat_phase_of tr)"
  by (simp add: beat_phase_of_def)

lemma count_after_snoc:
  assumes "\<not> p x"
  shows "length (filter p (dropWhile (\<lambda>c. c \<noteq> x) (tr @ [c]))) =
    length (filter p (dropWhile (\<lambda>c. c \<noteq> x) tr)) + (if x \<in> set tr \<and> p c then 1 else 0)"
  using assms by (induction tr) auto

lemma late_beats_snoc [simp]:
  "late_beats (tr @ [c]) = late_beats tr + (if CRelease \<in> set tr \<and> is_beat c then 1 else 0)"
  unfolding late_beats_def by (rule count_after_snoc) simp

lemma handled_after_loss_snoc [simp]:
  "handled_after_loss (tr @ [c]) =
     handled_after_loss tr + (if CReacquire No \<in> set tr \<and> is_handle c then 1 else 0)"
  unfolding handled_after_loss_def by (rule count_after_snoc) simp

lemma not_yet [simp]:
  "CRelease \<notin> set tr \<Longrightarrow> late_beats tr = 0"
  "CReacquire No \<notin> set tr \<Longrightarrow> handled_after_loss tr = 0"
proof -
  show "CRelease \<notin> set tr \<Longrightarrow> late_beats tr = 0"
    by (metis (mono_tags, lifting) dropWhile_eq_Nil_conv filter.simps(1) late_beats_def list.size(3))
  show "CReacquire No \<notin> set tr \<Longrightarrow> handled_after_loss tr = 0"
    by (metis (mono_tags, lifting) dropWhile_eq_Nil_conv filter.simps(1) handled_after_loss_def list.size(3))
qed

text \<open>
  The state in a phase of the lock: how the heartbeat stands to the trace, and what is left
  of a beat in flight after the release.
\<close>

definition beats_left :: "beat \<Rightarrow> nat" where
  "beats_left b = (case b of NoBeat \<Rightarrow> 0 | Reacquiring \<Rightarrow> 1 | Renewing \<Rightarrow> 2)"

lemma beats_left_simps [simp]:
  "beats_left NoBeat = 0" "beats_left Reacquiring = 1" "beats_left Renewing = 2"
  by (simp_all add: beats_left_def)

definition heart_sound :: "('i, 'w) act_state \<Rightarrow> bool" where
  "heart_sound s \<longleftrightarrow>
     beat_phase_of (act_trace s) =
       (if act_lost s then Lost else if hb_beat (act_hb s) = Reacquiring then Refused else Beating) \<and>
     hb_lost (act_hb s) = act_lost s \<and>
     (act_lost s \<longrightarrow> hb_beat (act_hb s) = NoBeat) \<and>
     (hb_inFlight (act_hb s) \<longleftrightarrow> hb_beat (act_hb s) \<noteq> NoBeat) \<and>
     (CReacquire No \<in> set (act_trace s) \<longleftrightarrow> act_lost s)"

definition in_phase :: "lock_phase \<Rightarrow> ('i, 'w) act_state \<Rightarrow> bool" where
  "in_phase p s \<longleftrightarrow>
     heart_sound s \<and> lock_phase_of (act_trace s) = p \<and> p \<noteq> Broken \<and>
     (CRelease \<in> set (act_trace s) \<longleftrightarrow> p = Released) \<and>
     (p = Waiting \<longrightarrow> \<not> hb_timer (act_hb s) \<and> hb_beat (act_hb s) = NoBeat \<and> \<not> act_lost s) \<and>
     (p = Released \<longrightarrow> \<not> hb_timer (act_hb s) \<and>
        late_beats (act_trace s) + beats_left (hb_beat (act_hb s)) \<le> 2)"

text \<open>What the heartbeat keeps while the code awaits.\<close>

definition kept :: "('i, 'w) act_state \<Rightarrow> ('i, 'w) act_state \<Rightarrow> bool" where
  "kept s s' \<longleftrightarrow> handled_after_loss (act_trace s') = handled_after_loss (act_trace s) \<and>
     (hb_timer (act_hb s') \<longrightarrow> hb_timer (act_hb s)) \<and>
     (\<not> hb_timer (act_hb s) \<longrightarrow> hb_beat (act_hb s) = NoBeat \<longrightarrow>
        hb_beat (act_hb s') = NoBeat \<and> act_lost s' = act_lost s)"

lemma kept_refl: "kept s s" "kept s (s\<lparr>act_world := w\<rparr>)"
  by (simp_all add: kept_def)

lemma kept_trans: "kept s s1 \<Longrightarrow> kept s1 s2 \<Longrightarrow> kept s s2"
  by (auto simp: kept_def)

lemma in_phase_world [simp]: "in_phase p (s\<lparr>act_world := w\<rparr>) = in_phase p s"
  by (simp add: in_phase_def heart_sound_def)

lemmas heart_defs = on_beat_def answered_def beat_renewed_def beat_reacquired_def beat_done_def
  hb_tick_def kept_def in_phase_def heart_sound_def

lemma tick_keeps: "in_phase p s \<Longrightarrow> in_phase p (heart_move env Tick s) \<and> kept s (heart_move env Tick s)"
  by (cases p) (auto simp: heart_defs)

lemma renewed_keeps:
  assumes "in_phase p s" "hb_beat (act_hb s) = Renewing"
  shows "in_phase p (on_beat (beat_renewed a (act_hb s)) (answered (CRenew a) w s)) \<and>
    kept s (on_beat (beat_renewed a (act_hb s)) (answered (CRenew a) w s))"
  using assms by (cases p; cases a) (auto simp: heart_defs)

lemma reacquired_keeps:
  assumes "in_phase p s" "hb_beat (act_hb s) = Reacquiring"
  shows "in_phase p (on_beat (beat_reacquired a (act_hb s)) (answered (CReacquire a) w s)) \<and>
    kept s (on_beat (beat_reacquired a (act_hb s)) (answered (CReacquire a) w s))"
  using assms by (cases p; cases a) (auto simp: heart_defs)

lemma heart_move_keeps:
  assumes "in_phase p s"
  shows "in_phase p (heart_move env mv s) \<and> kept s (heart_move env mv s)"
proof (cases mv)
  case Tick
  then show ?thesis using tick_keeps [OF assms] by simp
next
  case Proceed
  then show ?thesis
    using renewed_keeps [OF assms] reacquired_keeps [OF assms] assms
    by (auto simp: kept_refl split: beat.split option.split)
qed

lemma meanwhile_keeps:
  assumes "in_phase p s"
  shows "in_phase p (meanwhile env s) \<and> kept s (meanwhile env s)"
proof -
  have "in_phase p (fold (heart_move env) moves s1) \<and> kept s (fold (heart_move env) moves s1)"
    if "in_phase p s1" "kept s s1" for moves s1
    using that
    by (induction moves arbitrary: s1) (auto dest: heart_move_keeps intro: kept_trans)
  then show ?thesis
    using assms by (auto simp: meanwhile_def kept_refl split: prod.split)
qed

subsection \<open>Rules for the actor's effects\<close>

lemma triple_call:
  assumes "\<And>s. P s \<Longrightarrow> P (meanwhile env s)" "\<And>s. P s \<Longrightarrow> E Cut s"
    and "\<And>s e w. P s \<Longrightarrow> m (act_world s) = Some (Inl e, w) \<Longrightarrow>
      E (Thrown e) (meanwhile env (answered (c (Inl e)) w s))"
    and "\<And>s a w. P s \<Longrightarrow> m (act_world s) = Some (Inr a, w) \<Longrightarrow>
      Q a (meanwhile env (answered (c (Inr a)) w s))"
  shows "triple P (call env c m) Q E"
  using assms(2-4) assms(1)
  by (auto simp: call_def Let_def map_sum_def intro!: tripleI split: option.splits prod.splits sum.splits)

lemma triple_catching:
  assumes "triple P m Q R" "\<And>s. R Cut s \<Longrightarrow> E Cut s" "\<And>e. triple (R (Thrown e)) (h e) Q E"
  shows "triple P (catching m h) Q E"
  unfolding catching_def
proof (rule triple_catch [OF assms(1)])
  fix x
  show "triple (R x) (case x of Cut \<Rightarrow> throw_eff Cut | Thrown e \<Rightarrow> h e) Q E"
    using assms(2,3) by (cases x) (auto simp: triple_def throw_eff_def)
qed

lemma triple_finally_do:
  assumes "triple P m (\<lambda>_. R) (\<lambda>x. case x of Cut \<Rightarrow> E Cut | Thrown e \<Rightarrow> R)"
    and "triple R f (\<lambda>_. F) E" "\<And>a s. F s \<Longrightarrow> Q a s" "\<And>e s. F s \<Longrightarrow> E (Thrown e) s"
  shows "triple P (finally_do m f) Q E"
  unfolding triple_def
proof (intro allI impI)
  fix s r s'
  assume P: "P s" and run: "finally_do m f s = Some (r, s')"
  show "case r of Inl e \<Rightarrow> E e s' | Inr a \<Rightarrow> Q a s'"
  proof (cases "\<exists>s1. m s = Some (Inl Cut, s1)")
    case True
    then show ?thesis
      using run tripleD(2) [OF assms(1) P] by (auto simp: finally_do_def)
  next
    case False
    then obtain r1 s1 where s1: "m s = Some (r1, s1)" "r1 \<noteq> Inl Cut"
        "finally_eff m f s = Some (r, s')"
      using run by (auto simp: finally_do_def finally_eff_def split: option.splits sum.splits stop.splits)
    then have R: "R s1"
      using tripleD [OF assms(1) P] by (cases r1) (auto split: stop.splits)
    obtain e where "f s1 = Some (Inl e, s') \<and> r = Inl e \<or> f s1 = Some (Inr (), s') \<and> r = r1"
      using s1 by (auto simp: finally_eff_def split: option.splits sum.splits)
    then show ?thesis
      using tripleD [OF assms(2) R] assms(3,4) s1(2) by (cases r1) (auto split: stop.splits, metis stop.exhaust)
  qed
qed

lemma triple_world [triple_intro]: "triple P (world f) (\<lambda>_. P) E"
  by (simp add: triple_def world_def get_eff_def)

subsection \<open>The lock discipline\<close>

text \<open>
  \<open>phase_at p b\<close>: in phase \<open>p\<close>, with at most one handler call since the lock was lost, and none
  if \<open>b\<close>.
\<close>

definition phase_at :: "lock_phase \<Rightarrow> bool \<Rightarrow> ('i, 'w) act_state \<Rightarrow> bool" where
  "phase_at p b s \<longleftrightarrow> in_phase p s \<and> handled_after_loss (act_trace s) \<le> (if b then 0 else 1)"

abbreviation owned :: "('i, 'w) act_state \<Rightarrow> bool" where
  "owned \<equiv> phase_at Held False"

abbreviation unlost :: "('i, 'w) act_state \<Rightarrow> bool" where
  "unlost \<equiv> phase_at Held True"

lemma phase_meanwhile: "phase_at p b s \<Longrightarrow> phase_at p b (meanwhile env s)"
  using meanwhile_keeps [of p s env] by (simp add: phase_at_def kept_def)

lemma phase_owned: "phase_at p b s \<Longrightarrow> phase_at p False s"
  by (simp add: phase_at_def split: if_splits)

lemmas unlost_owned = phase_owned [of Held True]

text \<open>The calls of the drain that neither handle a message nor touch the lock.\<close>

fun plain_call :: "'i act_call \<Rightarrow> bool" where
  "plain_call (CAcquire _) = False"
| "plain_call CRelease = False"
| "plain_call CShift = False"
| "plain_call (CHandle _) = False"
| "plain_call (CRenew _) = False"
| "plain_call (CReacquire _) = False"
| "plain_call _ = True"

lemma plain_answered:
  assumes "plain_call c" "phase_at Held b s"
  shows "phase_at Held b (answered c w s)"
  using assms by (cases c) (simp_all add: phase_at_def in_phase_def heart_sound_def answered_def)

lemma held_call:
  assumes "\<And>r. plain_call (c r)"
  shows "triple (phase_at Held b) (call env c m) (\<lambda>_. phase_at Held b) (\<lambda>_. owned)"
  by (intro triple_call) (blast intro: phase_meanwhile plain_answered [OF assms] phase_owned)+

lemma held_return: "triple (phase_at Held b) (return_eff a) (\<lambda>_. owned) E"
  using phase_owned by (auto simp: triple_def return_eff_def)

lemma handle_answered: "unlost s \<Longrightarrow> owned (answered (CHandle xs) w s)"
  by (auto simp: phase_at_def in_phase_def heart_sound_def answered_def)

lemma handle_call: "triple unlost (call env (\<lambda>_. CHandle xs) m) (\<lambda>_. owned) (\<lambda>_. owned)"
  by (intro triple_call) (blast intro: phase_meanwhile handle_answered unlost_owned)+

text \<open>A positive answer of \<open>stillOurs\<close> says that the lock is not lost.\<close>

lemma triple_alive:
  assumes "\<And>s. alive s \<Longrightarrow> \<not> act_lost s"
    and "triple unlost (k True) Q E" "triple owned (k False) Q E"
  shows "triple owned (bind_eff (get_eff alive) k) Q E"
proof (rule triple_get)
  fix x
  have "unlost s" if "owned s" "alive s" for s
    using that assms(1) [of s] by (auto simp: phase_at_def in_phase_def heart_sound_def)
  then show "triple (\<lambda>s. owned s \<and> alive s = x) (k x) Q E"
    using assms(2,3) by (cases x) (auto elim: triple_pre)
qed

lemma owned_notify: "keeps_inv owned (notifyCompletion env m)"
  unfolding notifyCompletion_def by (rule triple_catching held_call held_return | simp)+

lemma owned_notifies: "keeps_inv owned (notifyCompletions env ms)"
  by (induction ms) (auto intro: triple_intro owned_notify)

lemma owned_hook:
  assumes "plain_call c"
  shows "triple (phase_at Held b) (hook env c h i) (\<lambda>_. owned) (\<lambda>_. owned)"
proof (cases h)
  case None
  then show ?thesis using held_return by (simp add: hook_def)
next
  case (Some f)
  have "triple (phase_at Held b) (call env (\<lambda>_. c) (f i)) (\<lambda>_. owned) (\<lambda>_. owned)"
    by (rule triple_weaken [OF held_call [where b = b]]) (use assms phase_owned in blast)+
  then show ?thesis using Some by (simp add: hook_def)
qed

text \<open>The handler is called once; what it throws goes to the error hook.\<close>

definition guarded :: "('i, 'w) ActorEnv \<Rightarrow> 'i list \<Rightarrow> (string, unit, 'w) eff \<Rightarrow> (unit, 'i, 'w) act" where
  "guarded env xs m =
     catching (call env (\<lambda>_. CHandle xs) m)
       (\<lambda>error. case env_onError env of
          None \<Rightarrow> return_eff ()
        | Some onError \<Rightarrow> call env (\<lambda>_. CError) (onError error))"

lemma guarded_once: "triple unlost (guarded env xs m) (\<lambda>_. owned) (\<lambda>_. owned)"
  unfolding guarded_def
  by (rule triple_catching [OF handle_call])
    (auto intro!: triple_option held_return held_call)

lemma owned_queue:
  assumes "\<And>s. alive s \<Longrightarrow> \<not> act_lost s"
  shows "keeps_inv owned (processQueueInLock n env alive metas)"
proof (induction n arbitrary: metas)
  case 0
  then show ?case by (simp add: keeps_inv_throw)
next
  case (Suc n)
  have "triple unlost (processMessage env m) (\<lambda>_. owned) (\<lambda>_. owned)" for m
    using guarded_once [of env "[item m]"] by (simp add: processMessage_def guarded_def)
  then have step: "triple unlost
      (then_eff (processMessage env m)
        (then_eff (when_eff b (notifyCompletion env meta))
          (bind_eff (call env pop_answer (env_pop env i)) (\<lambda>_. processQueueInLock n env alive metas'))))
      (\<lambda>_. owned) (\<lambda>_. owned)"
    for m b meta i metas'
    by (rule triple_then)
      (rule triple_then triple_bind keeps_inv_when owned_notify held_call Suc | simp add: pop_answer_def)+
  show ?case
    unfolding processQueueInLock.simps
    by (rule triple_alive [OF assms])
      (rule triple_bind triple_if triple_option held_return held_call step | simp)+
qed

lemma owned_single:
  assumes "\<And>s. alive s \<Longrightarrow> \<not> act_lost s"
  shows "keeps_inv owned (processInSingleMode n env alive)"
  unfolding processInSingleMode_def
  by (rule triple_alive [OF assms])
    (rule triple_bind triple_then triple_if held_return owned_hook owned_queue [OF assms] | simp)+

lemma owned_bulk:
  assumes "\<And>s. alive s \<Longrightarrow> \<not> act_lost s"
  shows "keeps_inv owned (processInBulkMode n env alive metas)"
proof (induction n arbitrary: metas)
  case 0
  then show ?case by (simp add: keeps_inv_throw)
next
  case (Suc n)
  show ?case
    unfolding processInBulkMode.simps Let_def guarded_def [symmetric]
    by (rule triple_alive [OF assms])
      (rule triple_bind triple_then triple_if held_return held_call guarded_once owned_notifies Suc | simp)+
qed

lemma owned_loop:
  assumes "\<And>s. alive s \<Longrightarrow> \<not> act_lost s"
  shows "keeps_inv owned (processLoop n env alive metas)"
proof (induction n arbitrary: metas)
  case 0
  then show ?case by (simp add: keeps_inv_throw)
next
  case (Suc n)
  have mode: "triple unlost
      (case env_consume env of Single \<Rightarrow> processInSingleMode n env alive
       | Bulk \<Rightarrow> processInBulkMode n env alive []) (\<lambda>_. owned) (\<lambda>_. owned)"
    by (cases "env_consume env")
      (simp_all add: triple_pre [OF owned_single [OF assms] unlost_owned]
        triple_pre [OF owned_bulk [OF assms] unlost_owned])
  show ?case
    unfolding processLoop.simps Let_def
    by (rule triple_alive [OF assms])
      (rule triple_bind triple_then triple_if held_return held_call mode owned_notifies Suc | simp)+
qed

lemma owned_sleep: "keeps_inv owned (idle_sleep env opts start)"
  unfolding idle_sleep_def sleep_def Let_def
  by (rule triple_bind triple_world triple_if held_return held_call | simp)+

lemma ours_unlost: "stillOurs env opts start s \<Longrightarrow> \<not> act_lost s"
  by (simp add: stillOurs_def)

lemma owned_drain: "keeps_inv owned (drain n env opts start metas)"
proof (induction n arbitrary: metas)
  case 0
  then show ?case by (simp add: keeps_inv_throw)
next
  case (Suc n)
  have loop: "triple unlost (processLoop n env (stillOurs env opts start) []) (\<lambda>_. owned) (\<lambda>_. owned)"
    by (rule triple_pre [OF owned_loop [OF ours_unlost] unlost_owned])
  have again: "triple owned
      (bind_eff (get_eff (stillOurs env opts start)) (\<lambda>ours'.
         if once opts \<or> \<not> ours' then return_eff metas'
         else then_eff (idle_sleep env opts start) (drain n env opts start metas')))
      (\<lambda>_. owned) (\<lambda>_. owned)" for metas'
    by (rule triple_bind [OF keeps_inv_get])
      (rule triple_then triple_if held_return owned_sleep Suc | simp)+
  show ?case
    unfolding drain.simps Let_def
    by (rule triple_alive [OF ours_unlost])
      (rule triple_bind [OF loop] triple_if held_return again | simp)+
qed

lemma triple_skip: "(\<And>s. P s \<Longrightarrow> Q a s) \<Longrightarrow> triple P (return_eff a) Q E"
  by (simp add: triple_def return_eff_def)

abbreviation waiting :: "('i, 'w) act_state \<Rightarrow> bool" where
  "waiting \<equiv> phase_at Waiting False"

abbreviation released :: "('i, 'w) act_state \<Rightarrow> bool" where
  "released \<equiv> phase_at Released False"

text \<open>\<open>taken\<close>: the lock was just taken and the heartbeat is not running yet.\<close>

definition taken :: "('i, 'w) act_state \<Rightarrow> bool" where
  "taken s \<longleftrightarrow> unlost s \<and> \<not> hb_timer (act_hb s) \<and> hb_beat (act_hb s) = NoBeat \<and> \<not> act_lost s"

definition acquired :: "bool \<Rightarrow> ('i, 'w) act_state \<Rightarrow> bool" where
  "acquired ok s = (if ok then taken s else waiting s)"

lemma acquired_simps [simp]: "acquired True = taken" "acquired False = waiting"
  by (simp_all add: acquired_def fun_eq_iff)

lemma taken_meanwhile: "taken s \<Longrightarrow> taken (meanwhile env s)"
  using phase_meanwhile [of Held True s env] meanwhile_keeps [of Held s env]
  by (auto simp: taken_def kept_def phase_at_def)

lemma acquire_answered:
  assumes "waiting s"
  shows "acquired b (answered (CAcquire b) w s)"
  using assms
  by (auto simp: acquired_def taken_def phase_at_def in_phase_def heart_sound_def answered_def)

lemma waiting_answered: "waiting s \<Longrightarrow> waiting (answered CSleep w s)"
  by (simp add: phase_at_def in_phase_def heart_sound_def answered_def)

lemma waiting_sleep: "keeps_inv waiting (idle_sleep env opts start)"
proof -
  have sleep: "keeps_inv waiting (call env (\<lambda>_. CSleep) m)" for m
    by (intro triple_call) (blast intro: phase_meanwhile waiting_answered)+
  show ?thesis
    unfolding idle_sleep_def sleep_def Let_def
    by (rule triple_bind triple_world triple_if triple_return sleep | simp)+
qed

lemma acquire_attempt:
  "triple waiting (call env (\<lambda>r. CAcquire (r = Inr True)) m) acquired (\<lambda>_. waiting)"
proof (intro triple_call)
  fix s :: "('a, 'b) act_state" and a w
  assume s: "waiting s"
  show "acquired a (meanwhile env (answered (CAcquire (Inr a = Inr True)) w s))"
    using acquire_answered [OF s, of a w]
    by (cases a) (auto intro: taken_meanwhile phase_meanwhile)
next
  fix s :: "('a, 'b) act_state" and e w
  assume s: "waiting s"
  show "waiting (meanwhile env (answered (CAcquire (Inl e = Inr True)) w s))"
    using acquire_answered [OF s, of False w] by (auto intro: phase_meanwhile)
qed (auto intro: phase_meanwhile)

lemma acquire_phase:
  "triple waiting (acquire n env opts start) acquired (\<lambda>_. waiting)"
proof (induction n)
  case 0
  then show ?case by (simp add: triple_def throw_eff_def)
next
  case (Suc n)
  have answer: "triple (acquired b) (return_eff b) acquired (\<lambda>_. waiting)" for b
    by (rule triple_return)
  have cont: "triple (acquired ok)
      (if ok then return_eff True
       else if once opts then return_eff False
       else bind_eff (world (isAlive env opts start)) (\<lambda>alive.
         if \<not> alive then return_eff False
         else then_eff (idle_sleep env opts start) (acquire n env opts start)))
      acquired (\<lambda>_. waiting)" for ok
  proof (cases ok)
    case True
    then show ?thesis using answer [of True] by simp
  next
    case False
    have "triple waiting
      (if once opts then return_eff False
       else bind_eff (world (isAlive env opts start)) (\<lambda>alive.
         if \<not> alive then return_eff False
         else then_eff (idle_sleep env opts start) (acquire n env opts start)))
      acquired (\<lambda>_. waiting)"
      using answer [of False]
      by (intro triple_if triple_bind [OF triple_world] triple_then [OF waiting_sleep Suc]) simp_all
    with False show ?thesis by simp
  qed
  show ?case
    unfolding acquire.simps by (rule triple_bind [OF acquire_attempt cont])
qed

lemma begin_phase: "triple taken (begin_heartbeat env opts) (\<lambda>_. owned) E"
  unfolding begin_heartbeat_def
  by (rule triple_modify)
    (auto simp: taken_def phase_at_def in_phase_def heart_sound_def heartbeat_of_def startLockHeartbeat_def)

text \<open>The \<open>finally\<close> block, also when the release itself throws.\<close>

definition stopped :: "('i, 'w) act_state \<Rightarrow> bool" where
  "stopped s \<longleftrightarrow> owned s \<and> \<not> hb_timer (act_hb s)"

lemma stopped_meanwhile: "stopped s \<Longrightarrow> stopped (meanwhile env s)"
  using phase_meanwhile [of Held False s env] meanwhile_keeps [of Held s env]
  by (auto simp: stopped_def kept_def phase_at_def)

lemma release_answered: "stopped s \<Longrightarrow> released (answered CRelease w s)"
  by (cases "hb_beat (act_hb s)")
    (auto simp: stopped_def phase_at_def in_phase_def heart_sound_def answered_def)

definition cut_or_released :: "stop \<Rightarrow> ('i, 'w) act_state \<Rightarrow> bool" where
  "cut_or_released x s \<longleftrightarrow> (if x = Cut then owned s else released s)"

lemma release_phase: "triple owned (release_lock env) (\<lambda>_. released) cut_or_released"
proof -
  have "triple stopped (call env (\<lambda>_. CRelease) m) (\<lambda>_. released) cut_or_released" for m
    by (intro triple_call)
      (auto intro: stopped_meanwhile phase_meanwhile release_answered simp: cut_or_released_def,
       simp add: stopped_def)
  moreover have "triple owned (modify_eff (\<lambda>s. s\<lparr>act_hb := stopHeartbeat (act_hb s)\<rparr>)) (\<lambda>_. stopped) E" for E
    by (rule triple_modify)
      (auto simp: stopped_def stopHeartbeat_def phase_at_def in_phase_def heart_sound_def)
  ultimately show ?thesis
    unfolding release_lock_def by (intro triple_then triple_skip)
qed

lemma shift_phase: "keeps_inv released (hook env CShift h i)"
proof -
  have "released (answered CShift w s)" if "released s" for w and s :: "('a, 'b) act_state"
    using that by (simp add: phase_at_def in_phase_def heart_sound_def answered_def)
  then have "keeps_inv released (call env (\<lambda>_. CShift) m)" for m
    by (intro triple_call) (blast intro: phase_meanwhile)+
  then show ?thesis
    by (cases h) (auto simp: hook_def intro: triple_return)
qed

definition try_end :: "bool \<Rightarrow> ('i, 'w) act_state \<Rightarrow> bool" where
  "try_end isCut s \<longleftrightarrow> isCut \<and> owned s \<or> waiting s \<or> released s"

lemma drained_phase:
  "triple owned
    (finally_do
      (bind_eff (drain n env opts start []) (\<lambda>metas.
         bind_eff (world (isAlive env opts start)) (\<lambda>alive.
           return_eff (metas, shiftable opts = Some True \<and> \<not> alive))))
      (release_lock env)) (\<lambda>_. released) cut_or_released"
proof (rule triple_finally_do [OF _ release_phase])
  show "triple owned
      (bind_eff (drain n env opts start []) (\<lambda>metas.
         bind_eff (world (isAlive env opts start)) (\<lambda>alive.
           return_eff (metas, shiftable opts = Some True \<and> \<not> alive)))) (\<lambda>_. owned)
      (\<lambda>x. case x of Cut \<Rightarrow> cut_or_released Cut | Thrown e \<Rightarrow> owned)"
    by (rule triple_weaken [where P' = owned and Q' = "\<lambda>_. owned" and E' = "\<lambda>_. owned"],
        (rule triple_bind triple_world triple_return owned_drain | simp)+)
      (auto simp: cut_or_released_def split: stop.split)
qed (simp_all add: cut_or_released_def)

lemma try_phase:
  "triple waiting (tryToProcess n env opts) (\<lambda>_. try_end False) (\<lambda>x. try_end (x = Cut))"
proof -
  let ?Q = "\<lambda>_. try_end False" and ?E = "\<lambda>x. try_end (x = Cut)"
  have after: "triple released
      (case x of (metas, shiftOnTimeout) \<Rightarrow>
        then_eff (when_eff shiftOnTimeout (hook env CShift (env_shift env) (env_id env)))
          (return_eff metas)) ?Q ?E" for x :: "AwaiterMeta list \<times> bool"
    by (rule triple_weaken [where P' = released and Q' = "\<lambda>_. released" and E' = "\<lambda>_. released"])
      (auto simp: try_end_def intro!: triple_then keeps_inv_when shift_phase triple_return keeps_inv_prod)
  let ?work = "\<lambda>start. then_eff (begin_heartbeat env opts) (bind_eff
       (finally_do
         (bind_eff (drain n env opts start []) (\<lambda>metas.
            bind_eff (world (isAlive env opts start)) (\<lambda>alive.
              return_eff (metas, shiftable opts = Some True \<and> \<not> alive))))
         (release_lock env))
       (\<lambda>(metas, shiftOnTimeout).
          then_eff (when_eff shiftOnTimeout (hook env CShift (env_shift env) (env_id env)))
            (return_eff metas)))"
  have "triple taken (?work start) ?Q ?E" for start
    by (rule triple_then [OF begin_phase triple_bind [OF triple_weaken [OF drained_phase] after]])
      (auto simp: try_end_def cut_or_released_def split: if_splits)
  then have decided: "triple (acquired ok) (if \<not> ok then return_eff [] else ?work start) ?Q ?E" for ok start
    by (cases ok) (auto simp: try_end_def intro: triple_skip)
  show ?thesis
    unfolding tryToProcess_def
    by (rule triple_bind [OF triple_world],
        rule triple_bind [OF triple_weaken [OF acquire_phase] decided]) (simp_all add: try_end_def)
qed

subsection \<open>Every run has an outcome\<close>

lemma ends_call: "ends (call env c m)"
  by (auto simp: ends_def call_def Let_def split: option.split)

lemma ends_catching: "ends m \<Longrightarrow> (\<And>e. ends (h e)) \<Longrightarrow> ends (catching m h)"
  unfolding catching_def by (intro ends_catch) (auto intro: ends_throw split: stop.split)

lemma ends_finally_do:
  assumes "ends m" "ends f"
  shows "ends (finally_do m f)"
  using endsD [OF ends_finally [OF assms]] endsD [OF assms(1)]
  by (auto simp: ends_def finally_do_def split: option.split sum.split stop.split)

lemma ends_when: "ends m \<Longrightarrow> ends (when_eff b m)"
  by (simp add: when_eff_def ends_return)

lemma ends_world: "ends (world f)"
  by (simp add: world_def ends_get)

lemmas act_ends = ends_intros ends_call ends_catching ends_finally_do ends_when ends_world

lemma notify_ends: "ends (notifyCompletion env m)"
  unfolding notifyCompletion_def by (rule act_ends)+

lemma notifies_end: "ends (notifyCompletions env ms)"
  by (induction ms) (auto intro: act_ends notify_ends)

lemma processMessage_ends: "ends (processMessage env m)"
  unfolding processMessage_def by (rule act_ends)+

lemma hook_ends: "ends (hook env c h i)"
  unfolding hook_def by (rule act_ends)+

lemma queue_ends: "ends (processQueueInLock n env alive metas)"
proof (induction n arbitrary: metas)
  case (Suc n)
  then show ?case
    unfolding processQueueInLock.simps
    by (intro act_ends processMessage_ends notify_ends)
qed (simp add: ends_throw)

lemma bulk_ends: "ends (processInBulkMode n env alive metas)"
proof (induction n arbitrary: metas)
  case (Suc n)
  then show ?case
    unfolding processInBulkMode.simps Let_def by (intro act_ends notifies_end)
qed (simp add: ends_throw)

lemma single_ends: "ends (processInSingleMode n env alive)"
  unfolding processInSingleMode_def by (intro act_ends hook_ends queue_ends)

lemma loop_ends: "ends (processLoop n env alive metas)"
proof (induction n arbitrary: metas)
  case (Suc n)
  have "ends (case env_consume env of Single \<Rightarrow> processInSingleMode n env alive
       | Bulk \<Rightarrow> processInBulkMode n env alive [])"
    by (cases "env_consume env") (simp_all add: single_ends bulk_ends)
  with Suc show ?case
    unfolding processLoop.simps Let_def by (intro act_ends notifies_end)
qed (simp add: ends_throw)

lemma sleep_ends: "ends (idle_sleep env opts start)"
  unfolding idle_sleep_def sleep_def Let_def by (intro act_ends)

lemma acquire_ends: "ends (acquire n env opts start)"
  by (induction n) (auto intro!: act_ends sleep_ends)

lemma drain_ends: "ends (drain n env opts start metas)"
proof (induction n arbitrary: metas)
  case (Suc n)
  then show ?case
    unfolding drain.simps Let_def by (intro act_ends loop_ends sleep_ends)
qed (simp add: ends_throw)

lemma try_ends: "ends (tryToProcess n env opts)"
  unfolding tryToProcess_def begin_heartbeat_def release_lock_def
  by (intro act_ends acquire_ends drain_ends hook_ends)

lemma try_outcome: "\<exists>r s'. tryToProcess n env opts s = Some (r, s')"
  using endsD [OF try_ends, of n env opts s] by auto

text \<open>The state a call starts in: nothing called yet, no heartbeat.\<close>

definition act_start :: "'w \<Rightarrow> ('i, 'w) act_state" where
  "act_start w = \<lparr>act_world = w, act_trace = [],
     act_hb = \<lparr>hb_timer = False, hb_inFlight = False, hb_lost = False, hb_beat = NoBeat\<rparr>,
     act_lost = False\<rparr>"

lemma start_waiting: "waiting (act_start w)"
  by (simp add: act_start_def phase_at_def in_phase_def heart_sound_def lock_phase_of_def
      beat_phase_of_def)

text \<open>
  C12: The lock discipline of \<open>tryToProcess\<close> with its heartbeat, whatever the environment does,
  throwing, never answering and losing the lock included, and at every moment of the run.
  A call that did not take the lock made no other call than attempts to take it and pauses.
  One that took it ends with exactly one release, every queue and handler call lies between
  the two, and the shift comes after; only a call that is cut off can leave the lock held.
  The heartbeat asks for the lock again only when a renewal was refused, and never again once
  that was refused too; after that loss at most one more message (or batch) is handled, and
  after the release at most the two calls of a beat in flight are made.
\<close>

theorem lock_discipline:
  "\<exists>r s'. tryToProcess n env opts (act_start w) = Some (r, s') \<and>
     lock_phase_of (act_trace s') \<in>
       (if r = Inl Cut then {Waiting, Held, Released} else {Waiting, Released}) \<and>
     beat_phase_of (act_trace s') \<noteq> Wrong \<and>
     handled_after_loss (act_trace s') \<le> 1 \<and> late_beats (act_trace s') \<le> 2"
proof -
  obtain r s' where run: "tryToProcess n env opts (act_start w) = Some (r, s')"
    using try_outcome by blast
  have "try_end (r = Inl Cut) s'"
    using tripleD [OF try_phase start_waiting, of _ _ _ _ _ s'] run by (cases r) auto
  then have "(r = Inl Cut \<and> owned s') \<or> waiting s' \<or> released s'"
    by (simp add: try_end_def)
  then show ?thesis
    using run by (auto simp: phase_at_def in_phase_def heart_sound_def split: if_splits)
qed

text \<open>
  The two late calls are real, and the second can take the lock: here a beat is in flight when
  the work ends, its renewal is refused because the lock was released before it, and it
  acquires the lock that nobody will release.
\<close>

definition relockEnv :: "(nat, nat) ActorEnv" where
  "relockEnv =
     \<lparr>env_id = ''a'', env_consume = Single, env_size = (\<lambda>a w. Some (Inr 0, Suc w)),
      env_push = (\<lambda>a m. return_eff 1), env_pop = (\<lambda>a. return_eff None),
      env_peek = (\<lambda>a. return_eff None), env_flush = (\<lambda>a. return_eff []),
      env_tryAcquire = (\<lambda>a w. Some (Inr True, Suc w)), env_release = (\<lambda>a w. Some (Inr True, Suc w)),
      env_renew = Some (\<lambda>a w. Some (Inr (w < 4), w)),
      env_wait = (\<lambda>a m t. return_eff True), env_resolve = (\<lambda>a m. return_eff ()),
      onMessage = (\<lambda>x. return_eff ()), onMessages = (\<lambda>xs. return_eff ()),
      onPrepare = None, onCommit = None, env_onError = None, env_shift = None, env_now = (\<lambda>w. 0),
      env_sleep = (\<lambda>t. return_eff ()), env_randomUUID = return_eff ''uuid'',
      env_await = (\<lambda>w. (if w = 1 then [Tick] else if w = 4 then [Proceed, Proceed] else [], w))\<rparr>"

definition relockOptions :: TryToProcessOptions where
  "relockOptions = \<lparr>oneShot = None, aliveMillis = None, shiftable = None,
     lockRenewIntervalMillis = Some 1000, idleIntervalMillis = None\<rparr>"

theorem lock_can_stay_taken:
  "map_option (\<lambda>(r, s'). (r, act_trace s')) (tryToProcess 9 relockEnv relockOptions (act_start 0)) =
     Some (Inr [], [CAcquire True, CSize, CSize, CRelease, CRenew No, CReacquire Yes])"
  by code_simp

end
