(* ===== verification/Actor_Drain.thy ===== *)
theory Actor_Drain
  imports Actor_Process
begin

section \<open>What a drain achieves (actor-system: process.ts, enqueue.ts, send.ts)\<close>

text \<open>
  The promises of \<open>tryToProcess\<close> about messages: consumption is at-least-once on any queue
  that one call at a time consumes, and on the in-process queue, lock and awaiter a one-shot
  call drains the queue and \<open>send\<close> completes in its own thread.
\<close>

subsection \<open>At-least-once consumption\<close>

text \<open>The messages a trace says were handled, and those it says were removed.\<close>

definition handled_items :: "'i act_call list \<Rightarrow> 'i list" where
  "handled_items tr = concat (map (\<lambda>c. case c of CHandle xs \<Rightarrow> xs | _ \<Rightarrow> []) tr)"

definition popped :: "'i act_call list \<Rightarrow> 'i UserMessage list" where
  "popped tr = concat (map (\<lambda>c. case c of CPop (Some m) \<Rightarrow> [m] | _ \<Rightarrow> []) tr)"

fun silent :: "'i act_call \<Rightarrow> bool" where
  "silent (CHandle xs) = False"
| "silent (CPop x) = False"
| "silent _ = True"

lemma handled_snoc [simp]:
  "handled_items (tr @ [CHandle xs]) = handled_items tr @ xs"
  "handled_items (tr @ [CPop x]) = handled_items tr"
  "popped (tr @ [CHandle xs]) = popped tr"
  "popped (tr @ [CPop x]) = popped tr @ (case x of None \<Rightarrow> [] | Some m \<Rightarrow> [m])"
  by (simp_all add: handled_items_def popped_def split: option.split)

lemma silent_snoc:
  assumes "silent c"
  shows "handled_items (tr @ [c]) = handled_items tr" "popped (tr @ [c]) = popped tr"
  using assms by (cases c; simp add: handled_items_def popped_def)+

text \<open>
  Of the items handled, the messages removed and the queue \<open>q\<close>, when the queue was \<open>v\<close> at the
  start: all that was removed was handled; its head \<open>m\<close> was looked at; \<open>m\<close> was handled as well.
  \<open>accounted\<close> is what holds at all times: at most one message is handled and not known to
  be removed. It is the head of the queue, or the removal failed after taking effect.
\<close>

definition settled ::
  "'i UserMessage list \<Rightarrow> 'i list \<Rightarrow> 'i UserMessage list \<Rightarrow> 'i UserMessage list \<Rightarrow> bool" where
  "settled v h p q \<longleftrightarrow> h = map item p \<and> prefix v (p @ q)"

definition looked_at ::
  "'i UserMessage list \<Rightarrow> 'i UserMessage \<Rightarrow> 'i list \<Rightarrow> 'i UserMessage list \<Rightarrow> 'i UserMessage list \<Rightarrow>
   bool" where
  "looked_at v m h p q \<longleftrightarrow> settled v h p q \<and> prefix [m] q"

definition handled_head ::
  "'i UserMessage list \<Rightarrow> 'i UserMessage \<Rightarrow> 'i list \<Rightarrow> 'i UserMessage list \<Rightarrow> 'i UserMessage list \<Rightarrow>
   bool" where
  "handled_head v m h p q \<longleftrightarrow> h = map item (p @ [m]) \<and> prefix v (p @ q) \<and> prefix [m] q"

definition accounted ::
  "'i UserMessage list \<Rightarrow> 'i list \<Rightarrow> 'i UserMessage list \<Rightarrow> 'i UserMessage list \<Rightarrow> bool" where
  "accounted v h p q \<longleftrightarrow> (\<exists>pending. length pending \<le> 1 \<and> h = map item (p @ pending) \<and>
     (prefix pending q \<and> prefix v (p @ q) \<or> prefix v (p @ pending @ q)))"

lemma append_grows: "prefix v (p @ q) \<Longrightarrow> prefix q q' \<Longrightarrow> prefix v (p @ q')"
  by (meson prefix_order.trans same_prefix_prefix)

lemma settled_accounted: "settled v h p q \<Longrightarrow> accounted v h p q"
  by (auto simp: settled_def accounted_def intro!: exI [of _ "[]"])

lemma looked_accounted: "looked_at v m h p q \<Longrightarrow> accounted v h p q"
  by (simp add: looked_at_def settled_accounted)

lemma handled_accounted: "handled_head v m h p q \<Longrightarrow> accounted v h p q"
  unfolding handled_head_def accounted_def by (rule exI [of _ "[m]"]) simp

lemma accounted_grows:
  assumes "accounted v h p q" "prefix q q'"
  shows "accounted v h p q'"
proof -
  obtain l where l: "length l \<le> 1" "h = map item (p @ l)"
      "prefix l q \<and> prefix v (p @ q) \<or> prefix v (p @ l @ q)"
    using assms(1) by (auto simp: accounted_def)
  have "prefix v ((p @ l) @ q')" if "prefix v (p @ l @ q)"
    by (rule append_grows [OF _ assms(2)]) (use that in simp)
  then have "prefix l q' \<and> prefix v (p @ q') \<or> prefix v (p @ l @ q')"
    using l(3) assms(2) append_grows by (auto intro: prefix_order.trans)
  with l(1,2) show ?thesis
    unfolding accounted_def by blast
qed

lemma pop_settles:
  assumes "handled_head v m h p (m' # q)" "prefix q q'"
  shows "settled v h (p @ [m']) q'"
  using assms append_grows [of v "p @ [m']" q q'] by (auto simp: handled_head_def settled_def)

lemma pop_unknown:
  assumes "handled_head v m h p q" "prefix (tl q) q'"
  shows "accounted v h p q'"
proof -
  obtain t where "q = m # t"
    using assms(1) by (auto simp: handled_head_def prefix_def)
  then show ?thesis
    using assms append_grows [of v "p @ [m]" t q']
    by (auto simp: handled_head_def accounted_def intro!: exI [of _ "[m]"])
qed

text \<open>
  The queue of an actor that only this call consumes, as \<open>view\<close> shows it: whatever else
  happens, in the environment's operations and while the code awaits, can only append to it.
  \<open>peek\<close> shows the head and \<open>pop\<close> removes and answers it; a \<open>pop\<close> that fails may have removed it.
\<close>

definition appends :: "('w \<Rightarrow> 'm list) \<Rightarrow> ('e, 'a, 'w) eff \<Rightarrow> bool" where
  "appends view m \<longleftrightarrow> (\<forall>w r w'. m w = Some (r, w') \<longrightarrow> prefix (view w) (view w'))"

locale sole_consumer =
  fixes env :: "('i, 'w) ActorEnv" and view :: "'w \<Rightarrow> 'i UserMessage list"
  assumes one_by_one: "env_consume env = Single"
    and peek_head: "env_peek env (env_id env) w = Some (Inr (Some m), w') \<Longrightarrow> prefix [m] (view w')"
    and pop_head: "env_pop env (env_id env) w = Some (Inr x, w') \<Longrightarrow>
      (case x of None \<Rightarrow> view w = [] | Some m \<Rightarrow> \<exists>q. view w = m # q \<and> prefix q (view w'))"
    and pop_failed: "env_pop env (env_id env) w = Some (Inl e, w') \<Longrightarrow>
      prefix (view w) (view w') \<or> prefix (tl (view w)) (view w')"
    and await_appends: "prefix (view w) (view (snd (env_await env w)))"
    and queue_appends: "appends view (env_size env (env_id env))" "appends view (env_peek env (env_id env))"
    and lock_appends: "appends view (env_tryAcquire env (env_id env))"
      "appends view (env_release env (env_id env))"
      "env_renew env = Some f \<Longrightarrow> appends view (f (env_id env))"
    and handler_appends: "appends view (onMessage env i)"
      "onPrepare env = Some g \<or> onCommit env = Some g \<or> env_onError env = Some g \<or> env_shift env = Some g
        \<Longrightarrow> appends view (g a)"
    and other_appends: "appends view (env_resolve env (env_id env) a)" "appends view (env_sleep env t)"
begin

text \<open>
  A statement about the calls and the queue that stays true while messages are appended and
  calls are made that neither handle nor remove one.
\<close>

definition stable :: "(('i list) \<Rightarrow> 'i UserMessage list \<Rightarrow> 'i UserMessage list \<Rightarrow> bool) \<Rightarrow> bool" where
  "stable P \<longleftrightarrow> (\<forall>h p q q'. P h p q \<longrightarrow> prefix q q' \<longrightarrow> P h p q')"

definition now_is :: "(('i list) \<Rightarrow> 'i UserMessage list \<Rightarrow> 'i UserMessage list \<Rightarrow> bool) \<Rightarrow>
    ('i, 'w) act_state \<Rightarrow> bool" where
  "now_is P s \<longleftrightarrow> P (handled_items (act_trace s)) (popped (act_trace s)) (view (act_world s))"

lemma now_silent:
  assumes "stable P" "now_is P s" "silent c" "prefix (view (act_world s)) (view w)"
  shows "now_is P (answered c w s)"
  using assms by (auto simp: stable_def now_is_def answered_def silent_snoc)

lemma now_on_beat [simp]: "now_is P (on_beat r s) = now_is P s"
  by (simp add: now_is_def on_beat_def)

lemma now_heart_move:
  assumes "stable P" "now_is P s"
  shows "now_is P (heart_move env mv s)"
proof (cases mv)
  case Proceed
  have "now_is P (answered (CRenew a) w s)"
    if "env_renew env = Some f" "f (env_id env) (act_world s) = Some (r, w)" for f r w a
    using lock_appends(3) [OF that(1)] that(2) by (auto simp: appends_def intro!: now_silent assms)
  moreover have "now_is P (answered (CReacquire a) w s)"
    if "env_tryAcquire env (env_id env) (act_world s) = Some (r, w)" for r w a
    using lock_appends(1) that by (auto simp: appends_def intro!: now_silent assms)
  ultimately show ?thesis
    using Proceed assms(2) by (auto split: beat.split option.split)
qed (use assms in simp)

lemma now_meanwhile:
  assumes "stable P" "now_is P s"
  shows "now_is P (meanwhile env s)"
proof -
  have moves: "now_is P (fold (heart_move env) moves s1)" if "now_is P s1" for moves s1
    using that by (induction moves arbitrary: s1) (auto intro: now_heart_move assms(1))
  have "now_is P (s\<lparr>act_world := w\<rparr>)" if "env_await env (act_world s) = (mvs, w)" for mvs w
    using assms await_appends [of "act_world s"] that by (auto simp: stable_def now_is_def)
  then show ?thesis
    using moves by (auto simp: meanwhile_def split: prod.split)
qed

lemma silent_call:
  assumes "stable P" "appends view m" "\<And>r. silent (c r)" "\<And>s. now_is P s \<Longrightarrow> E s"
  shows "triple (now_is P) (call env c m) (\<lambda>_. now_is P) (\<lambda>_. E)"
  using assms(2,3)
  by (intro triple_call)
    (auto simp: appends_def intro!: assms(4) now_meanwhile [OF assms(1)] now_silent [OF assms(1)])

lemma stable_simps [simp]:
  "stable (settled v)" "stable (looked_at v m)" "stable (handled_head v m)" "stable (accounted v)"
proof -
  show "stable (settled v)" "stable (looked_at v m)" "stable (handled_head v m)"
    by (auto simp: stable_def settled_def looked_at_def handled_head_def
        intro: append_grows prefix_order.trans)
  show "stable (accounted v)"
    using accounted_grows by (auto simp: stable_def)
qed

lemma now_accounted [intro]:
  "now_is (settled v) s \<Longrightarrow> now_is (accounted v) s"
  "now_is (looked_at v m) s \<Longrightarrow> now_is (accounted v) s"
  "now_is (handled_head v m) s \<Longrightarrow> now_is (accounted v) s"
  by (auto simp: now_is_def intro: settled_accounted looked_accounted handled_accounted)

text \<open>The three calls that matter.\<close>

lemma peek_triple:
  "triple (now_is (settled v)) (call env (\<lambda>_. CPeek) (env_peek env (env_id env)))
     (\<lambda>x. case x of None \<Rightarrow> now_is (settled v) | Some m \<Rightarrow> now_is (looked_at v m))
     (\<lambda>_. now_is (accounted v))"
proof (intro triple_call)
  fix s :: "('i, 'w) act_state" and x w
  assume s: "now_is (settled v) s" and run: "env_peek env (env_id env) (act_world s) = Some (Inr x, w)"
  have "now_is (settled v) (answered CPeek w s)"
    using queue_appends(2) run by (auto simp: appends_def intro!: now_silent s)
  moreover have "now_is (looked_at v m) (answered CPeek w s)" if "x = Some m" for m
    using calculation peek_head [of "act_world s" m w] run that
    by (simp add: now_is_def looked_at_def answered_def)
  ultimately show "(case x of None \<Rightarrow> now_is (settled v) | Some m \<Rightarrow> now_is (looked_at v m))
      (meanwhile env (answered CPeek w s))"
    by (auto intro: now_meanwhile split: option.split)
next
  fix s :: "('i, 'w) act_state" and e w
  assume "now_is (settled v) s" "env_peek env (env_id env) (act_world s) = Some (Inl e, w)"
  then show "now_is (accounted v) (meanwhile env (answered CPeek w s))"
    using queue_appends(2) by (auto simp: appends_def intro!: now_meanwhile now_silent)
qed (auto intro: now_meanwhile)

lemma handled_answered:
  assumes "now_is (looked_at v m) s" "onMessage env (item m) (act_world s) = Some (r, w)"
  shows "now_is (handled_head v m) (meanwhile env (answered (CHandle [item m]) w s))"
proof (rule now_meanwhile)
  have "prefix (view (act_world s)) (view w)"
    using handler_appends(1) assms(2) by (auto simp: appends_def)
  then show "now_is (handled_head v m) (answered (CHandle [item m]) w s)"
    using assms(1)
    by (auto simp: now_is_def looked_at_def settled_def handled_head_def answered_def
        intro: append_grows prefix_order.trans)
qed simp

lemma message_triple:
  "triple (now_is (looked_at v m)) (processMessage env m) (\<lambda>_. now_is (handled_head v m))
     (\<lambda>_. now_is (accounted v))"
  unfolding processMessage_def
proof (rule triple_catching)
  show "triple (now_is (looked_at v m)) (call env (\<lambda>_. CHandle [item m]) (onMessage env (item m)))
      (\<lambda>_. now_is (handled_head v m))
      (\<lambda>x. if x = Cut then now_is (looked_at v m) else now_is (handled_head v m))"
    by (intro triple_call) (auto intro: now_meanwhile handled_answered)
  show "triple (if Thrown e = Cut then now_is (looked_at v m) else now_is (handled_head v m))
      (case env_onError env of None \<Rightarrow> return_eff () | Some onError \<Rightarrow> call env (\<lambda>_. CError) (onError e))
      (\<lambda>_. now_is (handled_head v m)) (\<lambda>_. now_is (accounted v))" for e
    using handler_appends(2)
    by (auto intro!: triple_option triple_skip silent_call)
qed auto

lemma pop_triple:
  "triple (now_is (handled_head v m)) (call env pop_answer (env_pop env (env_id env)))
     (\<lambda>_. now_is (settled v)) (\<lambda>_. now_is (accounted v))"
proof (intro triple_call)
  fix s :: "('i, 'w) act_state" and x w
  assume s: "now_is (handled_head v m) s"
    and run: "env_pop env (env_id env) (act_world s) = Some (Inr x, w)"
  have "view (act_world s) \<noteq> []"
    using s by (auto simp: now_is_def handled_head_def)
  then obtain m' q where q: "x = Some m'" "view (act_world s) = m' # q" "prefix q (view w)"
    using pop_head [OF run] by (auto split: option.splits)
  have "now_is (settled v) (answered (pop_answer (Inr x)) w s)"
    using s pop_settles [of v m _ _ m' q "view w"] q
    by (simp add: now_is_def answered_def pop_answer_def)
  then show "now_is (settled v) (meanwhile env (answered (pop_answer (Inr x)) w s))"
    by (simp add: now_meanwhile)
next
  fix s :: "('i, 'w) act_state" and e w
  assume s: "now_is (handled_head v m) s"
    and run: "env_pop env (env_id env) (act_world s) = Some (Inl e, w)"
  have "now_is (accounted v) (answered (CPop None) w s)"
    using pop_failed [OF run]
  proof
    assume "prefix (view (act_world s)) (view w)"
    then have "now_is (handled_head v m) (answered (CPop None) w s)"
      using s by (auto simp: now_is_def answered_def handled_head_def
          intro: append_grows prefix_order.trans)
    then show ?thesis by blast
  next
    assume "prefix (tl (view (act_world s))) (view w)"
    then show ?thesis
      using s pop_unknown by (fastforce simp: now_is_def answered_def)
  qed
  then show "now_is (accounted v) (meanwhile env (answered (pop_answer (Inl e)) w s))"
    by (auto simp: pop_answer_def intro: now_meanwhile)
qed (auto intro: now_meanwhile)

text \<open>The rest makes silent calls around them.\<close>

lemma settled_return: "triple (now_is (settled v)) (return_eff a) (\<lambda>_. now_is (settled v)) E"
  by (simp add: triple_skip)

lemma settled_get: "triple (now_is (settled v)) (get_eff f) (\<lambda>_. now_is (settled v)) E"
  by (simp add: triple_def get_eff_def)

lemma settled_call:
  assumes "appends view m" "\<And>r. silent (c r)"
  shows "triple (now_is (settled v)) (call env c m) (\<lambda>_. now_is (settled v)) (\<lambda>_. now_is (accounted v))"
  using assms by (intro silent_call) auto

lemma notify_stable:
  assumes "stable P" "\<And>s. now_is P s \<Longrightarrow> now_is (accounted v) s"
  shows "triple (now_is P) (notifyCompletion env m) (\<lambda>_. now_is P) (\<lambda>_. now_is (accounted v))"
  unfolding notifyCompletion_def
  by (rule triple_catching [where R = "\<lambda>_. now_is P"])
    (use assms other_appends(1) in \<open>auto intro!: silent_call triple_skip\<close>)

lemma settled_notifies:
  "triple (now_is (settled v)) (notifyCompletions env ms) (\<lambda>_. now_is (settled v)) (\<lambda>_. now_is (accounted v))"
  by (induction ms) (auto intro!: triple_then settled_return notify_stable)

lemma settled_hook:
  assumes "h = onPrepare env \<or> h = onCommit env" "silent c"
  shows "triple (now_is (settled v)) (hook env c h i) (\<lambda>_. now_is (settled v)) (\<lambda>_. now_is (accounted v))"
  using assms handler_appends(2)
  by (cases h) (auto simp: hook_def intro!: settled_return settled_call)

lemma cut_short: "triple (now_is (settled v)) (throw_eff Cut) Q (\<lambda>_. now_is (accounted v))"
  by (auto simp: triple_def throw_eff_def)

lemma settled_queue:
  "triple (now_is (settled v)) (processQueueInLock n env alive metas) (\<lambda>_. now_is (settled v))
     (\<lambda>_. now_is (accounted v))"
proof (induction n arbitrary: metas)
  case 0
  then show ?case by (simp add: cut_short)
next
  case (Suc n)
  have step: "triple (now_is (looked_at v m))
      (then_eff (processMessage env m)
        (then_eff (when_eff b (notifyCompletion env meta))
          (bind_eff (call env pop_answer (env_pop env (env_id env)))
            (\<lambda>_. processQueueInLock n env alive metas'))))
      (\<lambda>_. now_is (settled v)) (\<lambda>_. now_is (accounted v))" for m b meta metas'
    by (rule triple_then [OF message_triple] triple_then [OF triple_when [OF notify_stable]]
        triple_bind [OF pop_triple] Suc | auto)+
  have look: "triple (case x of None \<Rightarrow> now_is (settled v) | Some m \<Rightarrow> now_is (looked_at v m))
      (case x of None \<Rightarrow> return_eff metas | Some m \<Rightarrow> k m)
      (\<lambda>_. now_is (settled v)) (\<lambda>_. now_is (accounted v))"
    if "\<And>m. triple (now_is (looked_at v m)) (k m) (\<lambda>_. now_is (settled v)) (\<lambda>_. now_is (accounted v))"
    for x k
    using that by (cases x) (simp_all add: settled_return)
  show ?case
    unfolding processQueueInLock.simps
    by (rule triple_bind settled_get triple_if settled_return settled_call queue_appends(1) peek_triple
        look step | simp)+
qed

lemma settled_single:
  "triple (now_is (settled v)) (processInSingleMode n env alive) (\<lambda>_. now_is (settled v))
     (\<lambda>_. now_is (accounted v))"
  unfolding processInSingleMode_def
  by (rule triple_bind triple_then settled_get triple_if settled_return settled_hook settled_queue | simp)+

lemma settled_loop:
  "triple (now_is (settled v)) (processLoop n env alive metas) (\<lambda>_. now_is (settled v))
     (\<lambda>_. now_is (accounted v))"
proof (induction n arbitrary: metas)
  case 0
  then show ?case by (simp add: cut_short)
next
  case (Suc n)
  show ?case
    unfolding processLoop.simps Let_def one_by_one
    by (rule triple_bind triple_then settled_get triple_if settled_return settled_single settled_notifies
        settled_call queue_appends(1) Suc | simp)+
qed

lemma settled_sleep:
  "triple (now_is (settled v)) (idle_sleep env opts start) (\<lambda>_. now_is (settled v))
     (\<lambda>_. now_is (accounted v))"
  unfolding idle_sleep_def sleep_def Let_def
  by (rule triple_bind triple_world triple_if settled_return settled_call other_appends(2) | simp)+

lemma settled_acquire:
  "triple (now_is (settled v)) (acquire n env opts start) (\<lambda>_. now_is (settled v))
     (\<lambda>_. now_is (accounted v))"
proof (induction n)
  case 0
  then show ?case by (simp add: cut_short)
next
  case (Suc n)
  show ?case
    unfolding acquire.simps
    by (rule triple_bind triple_then triple_world triple_if settled_return settled_call lock_appends(1)
        settled_sleep Suc | simp)+
qed

lemma settled_drain:
  "triple (now_is (settled v)) (drain n env opts start metas) (\<lambda>_. now_is (settled v))
     (\<lambda>_. now_is (accounted v))"
proof (induction n arbitrary: metas)
  case 0
  then show ?case by (simp add: cut_short)
next
  case (Suc n)
  show ?case
    unfolding drain.simps Let_def
    by (rule triple_bind triple_then settled_get triple_if settled_return settled_loop settled_sleep Suc
        | simp)+
qed

text \<open>After the drain, whatever it ended with, only silent calls follow.\<close>

lemma now_heart [simp]: "now_is P (s\<lparr>act_hb := h\<rparr>) = now_is P s" "now_is P (s\<lparr>act_lost := b\<rparr>) = now_is P s"
  by (simp_all add: now_is_def)

lemma accounted_call:
  assumes "appends view m" "\<And>r. silent (c r)"
  shows "keeps_inv (now_is (accounted v)) (call env c m)"
  using assms by (intro silent_call) auto

lemma accounted_release: "keeps_inv (now_is (accounted v)) (release_lock env)"
  unfolding release_lock_def
  by (intro keeps_inv_then keeps_inv_modify accounted_call lock_appends(2) keeps_inv_return) simp_all

lemma accounted_shift: "keeps_inv (now_is (accounted v)) (hook env CShift (env_shift env) i)"
  using handler_appends(2)
  by (cases "env_shift env") (auto simp: hook_def intro!: keeps_inv_return accounted_call)

lemma try_accounted:
  "triple (now_is (settled v)) (tryToProcess n env opts) (\<lambda>_. now_is (accounted v))
     (\<lambda>_. now_is (accounted v))"
proof -
  have drained: "triple (now_is (settled v))
      (bind_eff (drain n env opts start []) (\<lambda>metas.
         bind_eff (world (isAlive env opts start)) (\<lambda>alive.
           return_eff (metas, shiftable opts = Some True \<and> \<not> alive))))
      (\<lambda>_. now_is (accounted v))
      (\<lambda>x. case x of Cut \<Rightarrow> now_is (accounted v) | Thrown e \<Rightarrow> now_is (accounted v))" for start
    by (rule triple_weaken [where Q' = "\<lambda>_. now_is (settled v)" and E' = "\<lambda>_. now_is (accounted v)"],
        (rule triple_bind triple_world settled_return settled_drain | simp)+)
      (auto split: stop.split)
  have heart: "triple (now_is (settled v)) (begin_heartbeat env opts) (\<lambda>_. now_is (settled v)) E" for E
    unfolding begin_heartbeat_def by (rule triple_modify) (simp add: now_is_def)
  have after: "keeps_inv (now_is (accounted v))
      (case x of (metas, shiftOnTimeout) \<Rightarrow>
        then_eff (when_eff shiftOnTimeout (hook env CShift (env_shift env) (env_id env)))
          (return_eff metas))" for x :: "AwaiterMeta list \<times> bool"
    by (intro keeps_inv_prod keeps_inv_then keeps_inv_when accounted_shift keeps_inv_return)
  have work: "triple (now_is (settled v))
      (bind_eff
         (finally_do
           (bind_eff (drain n env opts start []) (\<lambda>metas.
              bind_eff (world (isAlive env opts start)) (\<lambda>alive.
                return_eff (metas, shiftable opts = Some True \<and> \<not> alive))))
           (release_lock env))
         (\<lambda>(metas, shiftOnTimeout).
            then_eff (when_eff shiftOnTimeout (hook env CShift (env_shift env) (env_id env)))
              (return_eff metas)))
      (\<lambda>_. now_is (accounted v)) (\<lambda>_. now_is (accounted v))" for start
    by (rule triple_bind [OF triple_finally_do [OF drained accounted_release] after])
  have refused: "triple (now_is (settled v)) (return_eff []) (\<lambda>_. now_is (accounted v)) E" for E
    by (rule triple_skip) (rule now_accounted)
  show ?thesis
    unfolding tryToProcess_def
    by (intro triple_bind [OF triple_world] triple_bind [OF settled_acquire] triple_if refused
        triple_then [OF heart work])
qed

lemma try_counts:
  "\<exists>r s'. tryToProcess n env opts (act_start w) = Some (r, s') \<and>
     accounted (view w) (handled_items (act_trace s')) (popped (act_trace s')) (view (act_world s'))"
proof -
  have start: "now_is (settled (view w)) (act_start w)"
    by (simp add: now_is_def settled_def act_start_def handled_items_def popped_def)
  obtain r s' where run: "tryToProcess n env opts (act_start w) = Some (r, s')"
    using try_outcome by blast
  then have "now_is (accounted (view w)) s'"
    using tripleD [OF try_accounted start, of _ _ _ s'] by (cases r) auto
  with run show ?thesis by (auto simp: now_is_def)
qed

end

subsection \<open>What a one-shot call achieves\<close>

text \<open>
  An actor whose queue and lock keep their contracts, whose handlers do not touch them, and
  for which nothing else happens while it awaits: \<open>app\<close> is the state its handlers work on, \<open>step\<close> the effect of one
  message on it, failing or not.
\<close>

locale sync_actor =
  fifo_queue view "env_size env" "env_push env" "env_pop env" "env_peek env" "env_flush env" +
  actor_lock held "env_tryAcquire env" "env_release env"
  for env :: "('i, 'w) ActorEnv"
    and view :: "'w \<Rightarrow> string \<Rightarrow> 'i UserMessage list"
    and held :: "'w \<Rightarrow> string \<Rightarrow> bool" +
  fixes app :: "'w \<Rightarrow> 'u" and step :: "'i \<Rightarrow> 'u \<Rightarrow> 'u"
  assumes pop_frame: "env_pop env a w = Some (r, w') \<Longrightarrow> app w' = app w \<and> held w' = held w"
    and acquire_frame: "env_tryAcquire env a w = Some (b, w') \<Longrightarrow> app w' = app w \<and> view w' = view w"
    and release_frame: "env_release env a w = Some (b, w') \<Longrightarrow> app w' = app w \<and> view w' = view w"
    and handle_law: "\<exists>r w'. onMessage env i w = Some (r, w') \<and>
      app w' = step i (app w) \<and> view w' = view w \<and> held w' = held w"
    and resolve_law: "\<exists>r w'. env_resolve env a m w = Some (r, w') \<and>
      app w' = app w \<and> view w' = view w \<and> held w' = held w"
    and error_law: "env_onError env = Some f \<Longrightarrow> \<exists>w'. f e w = Some (Inr (), w') \<and>
      app w' = app w \<and> view w' = view w \<and> held w' = held w"
    and hook_law: "onPrepare env = Some f \<or> onCommit env = Some f \<Longrightarrow> \<exists>w'. f a w = Some (Inr (), w') \<and>
      app w' = app w \<and> view w' = view w \<and> held w' = held w"
    and single: "env_consume env = Single"
    and alone: "env_await env w = ([], w)"
begin

lemma meanwhile_alone [simp]: "meanwhile env s = s"
  by (simp add: meanwhile_def alone)

definition same :: "('i, 'w) act_state \<Rightarrow> ('i, 'w) act_state \<Rightarrow> bool" where
  "same s s' \<longleftrightarrow> app (act_world s') = app (act_world s) \<and>
     view (act_world s') = view (act_world s) \<and> held (act_world s') = held (act_world s) \<and>
     act_lost s' = act_lost s"

lemma same_trans: "same s1 s2 \<Longrightarrow> same s2 s3 \<Longrightarrow> same s1 s3"
  by (simp add: same_def)

lemma notify_runs: "\<exists>s'. notifyCompletion env m s = Some (Inr (), s') \<and> same s s'"
proof -
  obtain r w' where w': "env_resolve env (env_id env) (messageId m) (act_world s) = Some (r, w')"
      "app w' = app (act_world s)" "view w' = view (act_world s)" "held w' = held (act_world s)"
    using resolve_law by blast
  then show ?thesis
    by (cases r)
      (auto simp: notifyCompletion_def catching_def catch_eff_def call_def answered_def eff_simps same_def)
qed

lemma notifies_run: "\<exists>s'. notifyCompletions env ms s = Some (Inr (), s') \<and> same s s'"
proof (induction ms arbitrary: s)
  case Nil
  then show ?case by (simp add: return_eff_def same_def)
next
  case (Cons m ms)
  obtain s1 where s1: "notifyCompletion env m s = Some (Inr (), s1)" "same s s1"
    using notify_runs by blast
  obtain s2 where "notifyCompletions env ms s1 = Some (Inr (), s2)" "same s1 s2"
    using Cons.IH by blast
  with s1 show ?case
    by (auto simp: then_eff_def bind_eff_def intro: same_trans)
qed

lemma hook_runs:
  "h = onPrepare env \<or> h = onCommit env \<Longrightarrow> \<exists>s'. hook env c h i s = Some (Inr (), s') \<and> same s s'"
proof (cases h)
  case (Some f)
  assume "h = onPrepare env \<or> h = onCommit env"
  then obtain w' where "f i (act_world s) = Some (Inr (), w')" "app w' = app (act_world s)"
      "view w' = view (act_world s)" "held w' = held (act_world s)"
    using hook_law [of f i "act_world s"] Some by auto
  with Some show ?thesis by (simp add: hook_def call_def answered_def same_def)
qed (simp add: hook_def return_eff_def same_def)

lemma message_runs:
  "\<exists>s'. processMessage env m s = Some (Inr (), s') \<and>
     app (act_world s') = step (item m) (app (act_world s)) \<and>
     view (act_world s') = view (act_world s) \<and> held (act_world s') = held (act_world s) \<and>
     act_lost s' = act_lost s"
proof -
  obtain r w' where w': "onMessage env (item m) (act_world s) = Some (r, w')"
      "app w' = step (item m) (app (act_world s))" "view w' = view (act_world s)"
      "held w' = held (act_world s)"
    using handle_law by blast
  show ?thesis
  proof (cases r)
    case (Inr u)
    with w' show ?thesis by (simp add: processMessage_def catching_def catch_eff_def call_def answered_def)
  next
    case (Inl e)
    show ?thesis
    proof (cases "env_onError env")
      case None
      with Inl w' show ?thesis
        by (simp add: processMessage_def catching_def catch_eff_def call_def answered_def return_eff_def)
    next
      case (Some f)
      obtain w'' where "f e w' = Some (Inr (), w'')" "app w'' = app w'" "view w'' = view w'"
          "held w'' = held w'"
        using error_law [OF Some] by blast
      with Inl Some w' show ?thesis
        by (simp add: processMessage_def catching_def catch_eff_def call_def answered_def)
    qed
  qed
qed

text \<open>The queue \<open>q\<close> was handled and nothing else changed.\<close>

definition drained :: "'i UserMessage list \<Rightarrow> ('i, 'w) act_state \<Rightarrow> ('i, 'w) act_state \<Rightarrow> bool" where
  "drained q s s' \<longleftrightarrow>
     app (act_world s') = fold step (map item q) (app (act_world s)) \<and>
     view (act_world s') = (view (act_world s))(env_id env := []) \<and>
     held (act_world s') = held (act_world s) \<and> act_lost s' = act_lost s"

lemma drained_same:
  "same s s1 \<Longrightarrow> drained q s1 s' \<Longrightarrow> drained q s s'"
  "drained q s s1 \<Longrightarrow> same s1 s' \<Longrightarrow> drained q s s'"
  by (simp_all add: same_def drained_def)

lemma queue_runs:
  assumes alive: "\<And>s. \<not> act_lost s \<Longrightarrow> alive s"
    and "\<not> act_lost s" "view (act_world s) (env_id env) = q" "length q < n"
  shows "\<exists>s'. processQueueInLock n env alive metas s =
    Some (Inr (metas @ map copyAwaiterMeta q), s') \<and> drained q s s'"
  using assms(2-)
proof (induction q arbitrary: s n metas)
  case Nil
  then obtain k where "n = Suc k" by (cases n) auto
  then show ?case
    using Nil alive [of s] size_law [of "env_id env" "act_world s"]
    by (auto simp: bind_eff_def get_eff_def call_def answered_def return_eff_def drained_def fun_eq_iff)
next
  case (Cons m q)
  obtain k where n: "n = Suc k" using Cons.prems(3) by (cases n) auto
  define s0 where "s0 = answered CPeek (act_world s) (answered CSize (act_world s) s)"
  obtain s1 where s1: "processMessage env m s0 = Some (Inr (), s1)"
      "app (act_world s1) = step (item m) (app (act_world s))"
      "view (act_world s1) = view (act_world s)" "held (act_world s1) = held (act_world s)"
      "\<not> act_lost s1"
    using message_runs [of m s0] Cons.prems(1) by (auto simp: s0_def answered_def)
  obtain s2 where s2: "when_eff (awaitPolicy m = Act) (notifyCompletion env (copyAwaiterMeta m)) s1
        = Some (Inr (), s2)" "same s1 s2"
    using notify_runs [of "copyAwaiterMeta m" s1]
    by (cases "awaitPolicy m = Act") (auto simp: when_eff_def return_eff_def same_def)
  obtain w3 where w3: "env_pop env (env_id env) (act_world s2) = Some (Inr (Some m), w3)"
      "view w3 = (view (act_world s))(env_id env := q)"
    using pop_law [of "env_id env" "act_world s2"] s1(3) s2(2) Cons.prems(2) by (auto simp: same_def)
  define s3 where "s3 = answered (CPop (Some m)) w3 s2"
  have s3': "app (act_world s3) = step (item m) (app (act_world s))"
      "held (act_world s3) = held (act_world s)" "\<not> act_lost s3"
      "view (act_world s3) = (view (act_world s))(env_id env := q)"
    using pop_frame [OF w3(1)] s1 s2(2) w3(2) by (simp_all add: same_def s3_def answered_def)
  have v3: "view (act_world s3) (env_id env) = q" and lt: "length q < k"
    using s3'(4) Cons.prems(3) n by simp_all
  obtain s4 where s4: "processQueueInLock k env alive (metas @ [copyAwaiterMeta m]) s3 =
        Some (Inr ((metas @ [copyAwaiterMeta m]) @ map copyAwaiterMeta q), s4)" "drained q s3 s4"
    using Cons.IH [OF s3'(3) v3 lt, of "metas @ [copyAwaiterMeta m]"] by blast
  have "processQueueInLock n env alive metas s =
      processQueueInLock k env alive (metas @ [copyAwaiterMeta m]) s3"
    using n alive [OF Cons.prems(1)] size_law [of "env_id env" "act_world s"]
      peek_law [of "env_id env" "act_world s"] Cons.prems(2) s1(1) s2(1) w3(1)
    by (simp add: bind_eff_def then_eff_def get_eff_def call_def answered_def pop_answer_def s0_def s3_def)
  moreover have "drained (m # q) s s4"
    using s4(2) s3' Cons.prems(1) by (auto simp: drained_def fun_eq_iff)
  ultimately show ?case
    using s4(1) by simp
qed

lemma loop_runs:
  assumes alive: "\<And>s. \<not> act_lost s \<Longrightarrow> alive s"
    and lost: "\<not> act_lost s" and q: "view (act_world s) (env_id env) = q" "Suc (length q) < n"
  shows "\<exists>s'. processLoop n env alive [] s = Some (Inr (map copyAwaiterMeta q), s') \<and> drained q s s'"
proof -
  obtain k where n: "n = Suc k" using q(2) by (cases n) auto
  obtain s1 where s1: "hook env CPrepare (onPrepare env) (env_id env) s = Some (Inr (), s1)" "same s s1"
    using hook_runs by blast
  obtain s2 where s2: "processQueueInLock k env alive [] s1 = Some (Inr (map copyAwaiterMeta q), s2)"
      "drained q s1 s2"
    using queue_runs [where alive = alive and s = s1 and q = q and n = k and metas = "[]"] alive s1(2)
      lost q n
    by (auto simp: same_def)
  obtain s3 where s3: "hook env CCommit (onCommit env) (env_id env) s2 = Some (Inr (), s3)" "same s2 s3"
    using hook_runs by blast
  have mode: "processInSingleMode k env alive s = Some (Inr (map copyAwaiterMeta q), s3)"
    using alive [OF lost] s1(1) s2(1) s3(1)
    by (simp add: processInSingleMode_def bind_eff_def then_eff_def get_eff_def return_eff_def)
  obtain s4 where s4: "notifyCompletions env
        (filter (\<lambda>m. awaitPolicy m = Commit) (map copyAwaiterMeta q)) s3 = Some (Inr (), s4)" "same s3 s4"
    using notifies_run by blast
  have d: "drained q s s4"
    using drained_same s1(2) s2(2) s3(2) s4(2) by blast
  then have "view (act_world s4) (env_id env) = []"
    by (simp add: drained_def)
  then have "processLoop n env alive [] s =
      Some (Inr (map copyAwaiterMeta q), answered CSize (act_world s4) s4)"
    using n alive [OF lost] single mode s4(1) size_law [of "env_id env" "act_world s4"]
    by (simp add: bind_eff_def then_eff_def get_eff_def call_def return_eff_def)
  then show ?thesis
    using d by (simp add: drained_def answered_def)
qed

lemma try_runs:
  assumes opts: "once opts" "aliveMillis opts = None" and free: "\<not> held (act_world s) (env_id env)"
    and q: "view (act_world s) (env_id env) = q" "length q + 2 < n"
  shows "\<exists>s'. tryToProcess n env opts s = Some (Inr (map copyAwaiterMeta q), s') \<and>
    app (act_world s') = fold step (map item q) (app (act_world s)) \<and>
    view (act_world s') = (view (act_world s))(env_id env := []) \<and>
    held (act_world s') = held (act_world s)"
proof -
  obtain k where n: "n = Suc k" using q(2) by (cases n) auto
  let ?start = "env_now env (act_world s)"
  have alive: "isAlive env opts ?start w" for w
    using opts(2) by (simp add: isAlive_def)
  then have ours: "stillOurs env opts ?start s" if "\<not> act_lost s" for s
    using that by (simp add: stillOurs_def)
  obtain w1 where w1: "env_tryAcquire env (env_id env) (act_world s) = Some (Inr True, w1)"
      "held w1 = (held (act_world s))(env_id env := True)"
    using acquire_law [of "env_id env" "act_world s"] free by auto
  define s1 where "s1 = answered (CAcquire True) w1 s"
  define s2 where "s2 = s1\<lparr>act_lost := False,
      act_hb := heartbeat_of (env_renew env \<noteq> None) (lockRenewIntervalMillis opts)\<rparr>"
  have acq: "acquire n env opts ?start s = Some (Inr True, s1)"
    using n w1(1) by (simp add: bind_eff_def call_def return_eff_def s1_def)
  have s2': "\<not> act_lost s2" "act_world s2 = w1" "view w1 = view (act_world s)" "app w1 = app (act_world s)"
    using acquire_frame [OF w1(1)] by (simp_all add: s2_def s1_def answered_def)
  obtain s3 where s3: "processLoop k env (stillOurs env opts ?start) [] s2 =
        Some (Inr (map copyAwaiterMeta q), s3)" "drained q s2 s3"
    using loop_runs [where alive = "stillOurs env opts ?start" and s = s2 and q = q and n = k]
      ours s2' q n
    by auto
  have dr: "drain n env opts ?start [] s2 = Some (Inr (map copyAwaiterMeta q), s3)"
    using n ours [OF s2'(1)] s3(1) opts(1) by (simp add: bind_eff_def get_eff_def return_eff_def)
  have h3: "held (act_world s3) = (held (act_world s))(env_id env := True)"
    using s3(2) s2' w1(2) by (simp add: drained_def)
  obtain w4 where w4: "env_release env (env_id env) (act_world s3) = Some (Inr True, w4)"
      "held w4 = (held (act_world s3))(env_id env := False)"
    using release_law [of "env_id env" "act_world s3"] h3 by auto
  have "tryToProcess n env opts s = Some (Inr (map copyAwaiterMeta q),
      answered CRelease w4 (s3\<lparr>act_hb := stopHeartbeat (act_hb s3)\<rparr>))"
    using acq dr alive w4(1)
    by (simp add: tryToProcess_def bind_eff_def then_eff_def world_def get_eff_def finally_do_def
        finally_eff_def release_lock_def begin_heartbeat_def modify_eff_def s2_def call_def return_eff_def
        when_eff_def)
  moreover have "held w4 = held (act_world s)"
    using w4(2) h3 free by (auto simp: fun_eq_iff)
  moreover have "app w4 = app (act_world s3)" "view w4 = view (act_world s3)"
    using release_frame [OF w4(1)] by simp_all
  ultimately show ?thesis
    using s3(2) s2' by (auto simp: drained_def answered_def)
qed

end

subsection \<open>The in-process actor\<close>

text \<open>
  An actor on the in-process queue, lock and awaiter. Its handler maps the message and the
  actor's state to the next state or to a thrown error, which the error hook ignores.
\<close>

definition mem_env ::
  "string \<Rightarrow> consume \<Rightarrow> ('i \<Rightarrow> 'u \<Rightarrow> string + 'u) \<Rightarrow> ('i, ('i UserMessage, 'u) mem_world) ActorEnv" where
  "mem_env i cons handler =
     \<lparr>env_id = i, env_consume = cons, env_size = mem_size, env_push = mem_push, env_pop = mem_pop,
      env_peek = mem_peek, env_flush = mem_flush, env_tryAcquire = mem_tryAcquire,
      env_release = mem_release, env_renew = None,
      env_wait = (\<lambda>a m t w. Some (Inr True, snd (mem_wait a m w))),
      env_resolve = mem_resolve,
      onMessage = (\<lambda>x w. case handler x (mw_app w) of
          Inl e \<Rightarrow> Some (Inl e, w) | Inr u \<Rightarrow> Some (Inr (), w\<lparr>mw_app := u\<rparr>)),
      onMessages = (\<lambda>xs w. return_eff () w),
      onPrepare = None, onCommit = None, env_onError = Some (\<lambda>e. return_eff ()),
      env_shift = None, env_now = (\<lambda>w. 0),
      env_sleep = (\<lambda>t. return_eff ()), env_randomUUID = return_eff ''uuid'',
      env_await = (\<lambda>w. ([], w))\<rparr>"

definition handler_step :: "('i \<Rightarrow> 'u \<Rightarrow> string + 'u) \<Rightarrow> 'i \<Rightarrow> 'u \<Rightarrow> 'u" where
  "handler_step handler x u = (case handler x u of Inl e \<Rightarrow> u | Inr u' \<Rightarrow> u')"

lemma mem_env_fields [simp]:
  "env_id (mem_env i k h) = i" "env_consume (mem_env i k h) = k"
  "env_size (mem_env i k h) = mem_size" "env_push (mem_env i k h) = mem_push"
  "env_pop (mem_env i k h) = mem_pop" "env_peek (mem_env i k h) = mem_peek"
  "env_flush (mem_env i k h) = mem_flush" "env_tryAcquire (mem_env i k h) = mem_tryAcquire"
  "env_release (mem_env i k h) = mem_release" "env_resolve (mem_env i k h) = mem_resolve"
  "onPrepare (mem_env i k h) = None" "onCommit (mem_env i k h) = None"
  "env_onError (mem_env i k h) = Some (\<lambda>e. return_eff ())" "env_renew (mem_env i k h) = None"
  "env_await (mem_env i k h) = (\<lambda>w. ([], w))" "env_sleep (mem_env i k h) = (\<lambda>t. return_eff ())"
  "env_now (mem_env i k h) = (\<lambda>w. 0)" "env_shift (mem_env i k h) = None"
  by (simp_all add: mem_env_def)

interpretation mem_actor: sync_actor "mem_env i Single h" mem_view mem_held mw_app "handler_step h"
  for i h
proof
  fix a w r w'
  assume "env_pop (mem_env i Single h) a w = Some (r, w')"
  then show "mw_app w' = mw_app w \<and> mem_held w' = mem_held w"
    by (auto simp: mem_pop_def mem_held_def fun_eq_iff eff_simps split: option.splits list.splits)
next
  fix a w b w'
  assume "env_tryAcquire (mem_env i Single h) a w = Some (b, w')"
  then show "mw_app w' = mw_app w \<and> mem_view w' = mem_view w"
    by (auto simp: mem_tryAcquire_def mem_view_def fun_eq_iff eff_simps split: if_splits)
next
  fix a w b w'
  assume "env_release (mem_env i Single h) a w = Some (b, w')"
  then show "mw_app w' = mw_app w \<and> mem_view w' = mem_view w"
    by (auto simp: mem_release_def mem_view_def fun_eq_iff eff_simps)
next
  fix x w
  show "\<exists>r w'. onMessage (mem_env i Single h) x w = Some (r, w') \<and>
      mw_app w' = handler_step h x (mw_app w) \<and> mem_view w' = mem_view w \<and> mem_held w' = mem_held w"
    by (cases "h x (mw_app w)")
      (auto simp: mem_env_def handler_step_def mem_view_def mem_held_def fun_eq_iff)
next
  fix a m w
  show "\<exists>r w'. env_resolve (mem_env i Single h) a m w = Some (r, w') \<and>
      mw_app w' = mw_app w \<and> mem_view w' = mem_view w \<and> mem_held w' = mem_held w"
    by (auto simp: mem_resolve_def mem_finish_def mem_view_def mem_held_def fun_eq_iff eff_simps
        split: option.splits)
qed (auto simp: memq.size_law memq.peek_law eff_simps
      intro: memq.push_law memq.pop_law memq.flush_law meml.acquire_law meml.release_law)


subsection \<open>The properties\<close>

interpretation mem_consumer: sole_consumer "mem_env i Single h" "\<lambda>w. mem_view w i"
  for i h
proof
  fix x w
  show "appends (\<lambda>w. mem_view w i) (onMessage (mem_env i Single h) x)"
    by (auto simp: appends_def mem_env_def mem_view_def split: sum.splits)
qed (auto simp: appends_def eff_simps mem_view_def mem_size_def mem_peek_def mem_pop_def
    mem_tryAcquire_def mem_release_def mem_resolve_def mem_finish_def
    split: option.splits list.splits if_splits)

text \<open>
  C13: In single mode consumption is at-least-once, whatever fails and at every moment of the
  call. On a queue that only this call consumes, while any number of others append to it
  (\<open>sole_consumer\<close>), the items given to the handler are exactly those of the messages removed
  so far, in queue order and each once, and at most one more. That one is still the head of
  the queue, or its removal failed after taking effect. So no message leaves the queue
  unhandled, and of those queued at the start what is not removed is still there, in order.
\<close>

theorem at_least_once:
  assumes "sole_consumer env view"
  shows "\<exists>r s' pending. tryToProcess n env opts (act_start w) = Some (r, s') \<and>
    handled_items (act_trace s') = map item (popped (act_trace s') @ pending) \<and> length pending \<le> 1 \<and>
    (prefix pending (view (act_world s')) \<and> prefix (view w) (popped (act_trace s') @ view (act_world s')) \<or>
     prefix (view w) (popped (act_trace s') @ pending @ view (act_world s')))"
  using sole_consumer.try_counts [OF assms, of n opts w] unfolding accounted_def by blast

text \<open>
  A one-shot call on a free in-process actor returns, with enough fuel for the queue, and
  has handled every queued message in order, failing handlers included: it answers their
  metadata, leaves the queue empty, other queues alone, and the lock free again.
\<close>

theorem one_shot_drains:
  assumes "once opts" "aliveMillis opts = None" "i \<notin> lockHolders w" "length (mem_view w i) + 2 < n"
    and "act_world s = w"
  shows "\<exists>s'. tryToProcess n (mem_env i Single h) opts s =
      Some (Inr (map copyAwaiterMeta (mem_view w i)), s') \<and>
    mw_app (act_world s') = fold (handler_step h) (map item (mem_view w i)) (mw_app w) \<and>
    mem_view (act_world s') = (mem_view w)(i := []) \<and> lockHolders (act_world s') = lockHolders w"
proof -
  have "\<exists>s'. tryToProcess n (mem_env i Single h) opts s =
      Some (Inr (map copyAwaiterMeta (mem_view w i)), s') \<and>
    mw_app (act_world s') = fold (handler_step h) (map item (mem_view w i)) (mw_app w) \<and>
    mem_view (act_world s') = (mem_view w)(i := []) \<and> mem_held (act_world s') = mem_held w"
    using mem_actor.try_runs [where opts = opts and s = s and i = i
        and q = "mem_view w i" and n = n and h = h] assms
    by (simp add: mem_held_def)
  then show ?thesis
    by (auto simp: mem_held_def fun_eq_iff set_eq_iff)
qed

lemma enqueue_mem:
  assumes "act_world s = w" and "enqueue (mem_env i k h) input s = Some (r, s1)"
  shows "\<exists>m. r = Inr (m, Suc (length (mem_view w i))) \<and> item m = in_item input \<and>
    mem_view (act_world s1) = (mem_view w)(i := mem_view w i @ [m]) \<and>
    lockHolders (act_world s1) = lockHolders w \<and> mw_app (act_world s1) = mw_app w"
  using assms
  by (auto simp: enqueue_def bind_eff_def call_def meanwhile_def answered_def Let_def mem_env_def eff_simps mem_push_def
      mem_view_def fun_eq_iff split: option.splits if_splits)

text \<open>
  \<open>send\<close> on a free in-process actor completes in this thread: it answers true without
  waiting for anyone, with the messages queued before it and then its own handled in order.
\<close>

theorem send_completes_here:
  assumes "once opts" "aliveMillis opts = None" "i \<notin> lockHolders w" "length (mem_view w i) + 3 < n"
    and "enqueue (mem_env i Single h) input (act_start w) = Some (Inr (m, d), s1)"
  shows "\<exists>s'. actor_send n (mem_env i Single h) input opts (act_start w) =
      Some (Inr True, s') \<and> d = Suc (length (mem_view w i)) \<and>
    mw_app (act_world s') =
      fold (handler_step h) (map item (mem_view w i) @ [in_item input]) (mw_app w) \<and>
    mem_view (act_world s') = (mem_view w)(i := []) \<and> lockHolders (act_world s') = lockHolders w"
proof -
  have m: "d = Suc (length (mem_view w i))" "item m = in_item input"
      "mem_view (act_world s1) = (mem_view w)(i := mem_view w i @ [m])"
      "lockHolders (act_world s1) = lockHolders w" "mw_app (act_world s1) = mw_app w"
    using enqueue_mem [OF _ assms(5), of w] by (auto simp: act_start_def)
  obtain s' where s': "tryToProcess n (mem_env i Single h) opts s1 =
        Some (Inr (map copyAwaiterMeta (mem_view w i @ [m])), s')"
      "mw_app (act_world s') = fold (handler_step h) (map item (mem_view w i @ [m])) (mw_app w)"
      "mem_view (act_world s') = (mem_view (act_world s1))(i := [])"
      "lockHolders (act_world s') = lockHolders w"
    using mem_actor.try_runs [where opts = opts and s = s1 and i = i and q = "mem_view w i @ [m]"
        and n = n and h = h] assms(1-4) m
    by (auto simp: mem_held_def fun_eq_iff set_eq_iff)
  have "actor_send n (mem_env i Single h) input opts (act_start w) = Some (Inr True, s')"
    using assms(5) s'(1)
    by (simp add: actor_send_def awaitMessageAfterTryToProcess_def bind_eff_def return_eff_def
        copyAwaiterMeta_def)
  then show ?thesis
    using s'(2-4) m by (auto simp: fun_eq_iff)
qed

subsection \<open>Witnesses\<close>

text \<open>An adder that refuses zero, with two messages queued, and the options of a plain call.\<close>

definition adder :: "nat \<Rightarrow> nat \<Rightarrow> string + nat" where
  "adder x u = (if x = 0 then Inl ''zero'' else Inr (u + x))"

definition adderMessage :: "nat \<Rightarrow> nat UserMessage" where
  "adderMessage x = \<lparr>messageId = ''m'', awaitPolicy = Act, awaitTimeoutMillis = 0, item = x\<rparr>"

definition adderWorld :: "(nat UserMessage, nat) mem_world" where
  "adderWorld = \<lparr>queues = [''adder'' \<mapsto> [adderMessage 2, adderMessage 0]], lockHolders = {},
     resolvers = Map.empty, nextWait = 0, finished = [], mw_app = 1\<rparr>"

definition plainOptions :: TryToProcessOptions where
  "plainOptions = \<lparr>oneShot = None, aliveMillis = None, shiftable = None, lockRenewIntervalMillis = None,
     idleIntervalMillis = None\<rparr>"

lemma adder_facts:
  "once plainOptions" "aliveMillis plainOptions = None" "''adder'' \<notin> lockHolders adderWorld"
  "mem_view adderWorld ''adder'' = [adderMessage 2, adderMessage 0]"
  "fold (handler_step adder) (map item [adderMessage 2, adderMessage 0]) (mw_app adderWorld) = 3"
  "fold (handler_step adder) (map item [adderMessage 2, adderMessage 0] @ [4]) (mw_app adderWorld) = 7"
  by (simp_all add: plainOptions_def once_def adderWorld_def mem_view_def handler_step_def adder_def
      adderMessage_def)

theorem at_least_once_witness:
  "\<exists>r s' pending. tryToProcess 9 (mem_env ''adder'' Single adder) plainOptions (act_start adderWorld) =
      Some (r, s') \<and>
    handled_items (act_trace s') = map item (popped (act_trace s') @ pending) \<and> length pending \<le> 1 \<and>
    (prefix pending (mem_view (act_world s') ''adder'') \<and>
       prefix [adderMessage 2, adderMessage 0] (popped (act_trace s') @ mem_view (act_world s') ''adder'') \<or>
     prefix [adderMessage 2, adderMessage 0]
       (popped (act_trace s') @ pending @ mem_view (act_world s') ''adder''))"
  using at_least_once [OF mem_consumer.sole_consumer_axioms, of 9 "''adder''" adder plainOptions adderWorld]
  by (simp add: adder_facts(4))

theorem one_shot_drains_witness:
  "\<exists>s'. tryToProcess 9 (mem_env ''adder'' Single adder) plainOptions
      (act_start adderWorld) =
      Some (Inr (map copyAwaiterMeta [adderMessage 2, adderMessage 0]), s') \<and>
    mw_app (act_world s') = 3"
proof -
  have "length (mem_view adderWorld ''adder'') + 2 < 9" by (simp add: adder_facts(4))
  note d = one_shot_drains [OF adder_facts(1-3) this, of "act_start adderWorld" adder]
  then show ?thesis
    unfolding adder_facts(4,5) by (auto simp: act_start_def)
qed

definition adderInput :: "nat MessageInput" where
  "adderInput = \<lparr>in_messageId = None, in_awaitPolicy = Some Commit, in_awaitTimeoutMillis = None, in_item = 4\<rparr>"

theorem send_completes_here_witness:
  "\<exists>s'. actor_send 9 (mem_env ''adder'' Single adder) adderInput plainOptions
      (act_start adderWorld) = Some (Inr True, s') \<and> mw_app (act_world s') = 7"
proof -
  have "enqueue (mem_env ''adder'' Single adder) adderInput
      (act_start adderWorld) \<noteq> None" by code_simp
  then obtain r s1 where e: "enqueue (mem_env ''adder'' Single adder) adderInput
      (act_start adderWorld) = Some (r, s1)"
    by fastforce
  then obtain m where r: "r = Inr (m, Suc (length (mem_view adderWorld ''adder'')))"
    using enqueue_mem [OF _ e] by (auto simp: act_start_def)
  have len: "length (mem_view adderWorld ''adder'') + 3 < 9" by (simp add: adder_facts(4))
  have input: "in_item adderInput = 4" by (simp add: adderInput_def)
  note d = send_completes_here [OF adder_facts(1-3) len e [unfolded r]]
  then show ?thesis
    unfolding input adder_facts(4,6) by blast
qed

end
