(* ===== verification/Js_String.thy ===== *)
theory Js_String
  imports Prelude "HOL-Library.Word"
begin

section \<open>JavaScript strings\<close>

text \<open>
  What the sources use of the JavaScript standard library on strings: a string is a list of
  UTF-16 code units; \<open>codePointAt\<close> joins a surrogate pair, \<open>byteLength\<close> is
  \<open>Buffer.byteLength\<close> in UTF-8 (a lone surrogate is written as the three bytes of U+FFFD),
  \<open>js_integer\<close> is \<open>Number(s)\<close> where \<open>Number.isInteger\<close> accepts it, and \<open>show_nat\<close> the
  decimal text of a template literal. Numbers are exact here, without the rounding of
  values beyond \<open>2 ^ 53\<close>.
\<close>

type_synonym u16 = "16 word"
type_synonym ustring = "u16 list"

definition ascii :: "string \<Rightarrow> ustring" where
  "ascii s = map (\<lambda>c. of_nat (of_char c)) s"

lemma ascii_simps [simp]:
  "ascii [] = []" "ascii (c # s) = of_nat (of_char c) # ascii s" "ascii (s @ t) = ascii s @ ascii t"
  "length (ascii s) = length s"
  by (simp_all add: ascii_def)

definition crlf :: ustring where
  "crlf = [13, 10]"

subsection \<open>Code points and UTF-8 lengths\<close>

definition is_high :: "u16 \<Rightarrow> bool" where
  "is_high u \<longleftrightarrow> 0xD800 \<le> u \<and> u \<le> 0xDBFF"

definition is_low :: "u16 \<Rightarrow> bool" where
  "is_low u \<longleftrightarrow> 0xDC00 \<le> u \<and> u \<le> 0xDFFF"

text \<open>The code point at the front of a string, and how many units it takes.\<close>

fun codePoint :: "ustring \<Rightarrow> nat option" where
  "codePoint [] = None"
| "codePoint (u # us) =
     (if is_high u \<and> us \<noteq> [] \<and> is_low (hd us)
      then Some ((unat u - 0xD800) * 0x400 + (unat (hd us) - 0xDC00) + 0x10000)
      else Some (unat u))"

definition codePointAt :: "ustring \<Rightarrow> nat \<Rightarrow> nat option" where
  "codePointAt s i = codePoint (drop i s)"

definition utf8Length :: "nat \<Rightarrow> nat" where
  "utf8Length cp = (if cp < 0x80 then 1 else if cp < 0x800 then 2 else if cp < 0x10000 then 3 else 4)"

fun byteLength :: "ustring \<Rightarrow> nat" where
  "byteLength [] = 0"
| "byteLength [u] = utf8Length (unat u)"
| "byteLength (u # v # us) =
     (if is_high u \<and> is_low v then 4 + byteLength us
      else utf8Length (unat u) + byteLength (v # us))"

lemma unat_u16: "unat (u :: u16) < 0x10000"
proof -
  have "unat u < 2 ^ LENGTH(16)" by (rule unsigned_less)
  then show ?thesis by simp
qed

lemma codePoint_pair:
  assumes "is_high u" "is_low v"
  shows "\<exists>cp. codePoint (u # v # us) = Some cp \<and> 0xffff < cp \<and> utf8Length cp = 4"
  using assms by (simp add: utf8Length_def)

lemma codePoint_single:
  assumes "\<not> (is_high u \<and> us \<noteq> [] \<and> is_low (hd us))"
  shows "codePoint (u # us) = Some (unat u)" "unat u \<le> 0xffff"
  using assms unat_u16 [of u] by auto

lemma utf8_pos [simp]: "0 < utf8Length cp"
  by (simp add: utf8Length_def)

lemma utf8_unit: "utf8Length (unat (u :: u16)) \<le> 3"
  using unat_u16 [of u] by (simp add: utf8Length_def)

lemma high_length: "is_high u \<Longrightarrow> utf8Length (unat u) = 3"
  using unat_u16 [of u] by (simp add: utf8Length_def is_high_def word_le_nat_alt)

lemma low_length: "is_low u \<Longrightarrow> utf8Length (unat u) = 3"
  using unat_u16 [of u] by (simp add: utf8Length_def is_low_def word_le_nat_alt)

lemma not_high_low: "\<not> (is_high u \<and> is_low u)"
  by (auto simp: is_high_def is_low_def word_le_nat_alt)

text \<open>A string that does not end in the first half of a pair composes.\<close>

lemma byteLength_append:
  "t = [] \<or> \<not> is_low (hd t) \<Longrightarrow> byteLength (s @ t) = byteLength s + byteLength t"
proof (induction s rule: byteLength.induct)
  case 1
  then show ?case by simp
next
  case (2 u)
  then show ?case by (cases t) auto
next
  case (3 u v us)
  then show ?case by auto
qed

subsection \<open>Decimal numbers\<close>

fun show_nat :: "nat \<Rightarrow> ustring" where
  "show_nat n = (if n < 10 then [of_nat (48 + n)] else show_nat (n div 10) @ [of_nat (48 + n mod 10)])"

declare show_nat.simps [simp del]

definition digit :: "u16 \<Rightarrow> nat option" where
  "digit u = (if 48 \<le> u \<and> u \<le> 57 then Some (unat u - 48) else None)"

definition is_digit :: "u16 \<Rightarrow> bool" where
  "is_digit u \<longleftrightarrow> 48 \<le> u \<and> u \<le> 57"

definition digits_value :: "ustring \<Rightarrow> nat" where
  "digits_value s = fold (\<lambda>u n. 10 * n + (unat u - 48)) s 0"

text \<open>The characters \<open>\s\<close> and \<open>trim\<close> call white space.\<close>

definition is_space :: "u16 \<Rightarrow> bool" where
  "is_space u \<longleftrightarrow> (9 \<le> u \<and> u \<le> 13) \<or> u = 32 \<or> u = 0xA0 \<or> u = 0x1680 \<or>
     (0x2000 \<le> u \<and> u \<le> 0x200A) \<or> u = 0x2028 \<or> u = 0x2029 \<or> u = 0x202F \<or> u = 0x205F \<or>
     u = 0x3000 \<or> u = 0xFEFF"

definition trim :: "ustring \<Rightarrow> ustring" where
  "trim s = rev (dropWhile is_space (rev (dropWhile is_space s)))"

definition radix_digit :: "nat \<Rightarrow> u16 \<Rightarrow> nat option" where
  "radix_digit r u =
     (let d = (if 48 \<le> u \<and> u \<le> 57 then unat u - 48
               else if 97 \<le> u \<and> u \<le> 102 then unat u - 87
               else if 65 \<le> u \<and> u \<le> 70 then unat u - 55 else 99)
      in if d < r then Some d else None)"

definition radix_value :: "nat \<Rightarrow> ustring \<Rightarrow> int option" where
  "radix_value r s =
     (if s = [] \<or> None \<in> set (map (radix_digit r) s) then None
      else Some (int (fold (\<lambda>u n. r * n + the (radix_digit r u)) s 0)))"

text \<open>An unsigned decimal literal with optional fraction and exponent, where it is whole.\<close>

definition exponent :: "ustring \<Rightarrow> int option" where
  "exponent s =
     (case s of
        [] \<Rightarrow> Some 0
      | u # r \<Rightarrow>
          (if u \<noteq> 101 \<and> u \<noteq> 69 then None
           else
             (let (neg, ds) = (case r of v # r' \<Rightarrow> if v = 45 then (True, r') else if v = 43 then (False, r') else (False, r)
                               | [] \<Rightarrow> (False, []))
              in if ds = [] \<or> \<not> list_all is_digit ds then None
                 else Some (if neg then - int (digits_value ds) else int (digits_value ds)))))"

definition decimal :: "ustring \<Rightarrow> int option" where
  "decimal s =
     (let ip = takeWhile is_digit s; r = dropWhile is_digit s;
          (fp, r') = (case r of u # t \<Rightarrow> if u = 46 then (takeWhile is_digit t, dropWhile is_digit t) else ([], r)
                      | [] \<Rightarrow> ([], []))
      in if ip = [] \<and> fp = [] then None
         else case exponent r' of
           None \<Rightarrow> None
         | Some e \<Rightarrow>
             (let m = int (digits_value (ip @ fp)); k = e - int (length fp) in
              if 0 \<le> k then Some (m * 10 ^ nat k)
              else if 10 ^ nat (- k) dvd m then Some (m div 10 ^ nat (- k)) else None))"

definition js_integer :: "ustring \<Rightarrow> int option" where
  "js_integer s =
     (let t = trim s in
      case t of
        [] \<Rightarrow> Some 0
      | u # r \<Rightarrow>
          (if u = 45 then map_option uminus (decimal r)
           else if u = 43 then decimal r
           else if u = 48 \<and> r \<noteq> [] \<and> (hd r = 120 \<or> hd r = 88) then radix_value 16 (tl r)
           else if u = 48 \<and> r \<noteq> [] \<and> (hd r = 111 \<or> hd r = 79) then radix_value 8 (tl r)
           else if u = 48 \<and> r \<noteq> [] \<and> (hd r = 98 \<or> hd r = 66) then radix_value 2 (tl r)
           else decimal t))"

subsection \<open>Joining, integers and JSON strings\<close>

text \<open>\<open>join\<close> of an array of strings, the text of an integer, and \<open>JSON.stringify\<close> of a string.\<close>

definition join :: "ustring \<Rightarrow> ustring list \<Rightarrow> ustring" where
  "join sep parts =
     (case parts of [] \<Rightarrow> [] | p # ps \<Rightarrow> p @ concat (map (\<lambda>q. sep @ q) ps))"

definition show_int :: "int \<Rightarrow> ustring" where
  "show_int i = (if i < 0 then 45 # show_nat (nat (- i)) else show_nat (nat i))"

definition hex_digit :: "nat \<Rightarrow> u16" where
  "hex_digit d = (if d < 10 then of_nat (48 + d) else of_nat (87 + d))"

definition unicode_escape :: "u16 \<Rightarrow> ustring" where
  "unicode_escape u =
     [92, 117, hex_digit (unat u div 4096), hex_digit (unat u div 256 mod 16),
      hex_digit (unat u div 16 mod 16), hex_digit (unat u mod 16)]"

fun json_chars :: "ustring \<Rightarrow> ustring" where
  "json_chars [] = []"
| "json_chars (u # us) =
     (if is_high u \<and> us \<noteq> [] \<and> is_low (hd us) then u # hd us # json_chars (tl us)
      else if u = 34 then [92, 34] @ json_chars us
      else if u = 92 then [92, 92] @ json_chars us
      else if u = 8 then [92, 98] @ json_chars us
      else if u = 12 then [92, 102] @ json_chars us
      else if u = 10 then [92, 110] @ json_chars us
      else if u = 13 then [92, 114] @ json_chars us
      else if u = 9 then [92, 116] @ json_chars us
      else if u < 32 \<or> is_high u \<or> is_low u then unicode_escape u @ json_chars us
      else u # json_chars us)"

subsection \<open>Printing and reading back a natural number\<close>

lemma digit_char:
  assumes "d < 10"
  shows "is_digit (of_nat (48 + d))" "unat (of_nat (48 + d) :: u16) = 48 + d"
proof -
  show "unat (of_nat (48 + d) :: u16) = 48 + d"
    using assms by (simp add: unat_of_nat del: of_nat_add)
  then show "is_digit (of_nat (48 + d))"
    using assms by (simp add: is_digit_def word_le_nat_alt)
qed

lemma digits_value_snoc: "digits_value (s @ [u]) = 10 * digits_value s + (unat u - 48)"
  by (simp add: digits_value_def)

lemma show_nat_digits: "list_all is_digit (show_nat n) \<and> show_nat n \<noteq> [] \<and> digits_value (show_nat n) = n"
proof (induction n rule: show_nat.induct)
  case (1 n)
  show ?case
  proof (cases "n < 10")
    case True
    then show ?thesis
      using digit_char [of n] by (subst (1 2 3) show_nat.simps) (simp add: digits_value_def del: of_nat_add)
  next
    case False
    then show ?thesis
      using 1 digit_char [of "n mod 10"]
      by (subst (1 2 3) show_nat.simps) (simp add: digits_value_snoc del: of_nat_add)
  qed
qed

lemma digit_not_space: "is_digit u \<Longrightarrow> \<not> is_space u"
  by (auto simp: is_digit_def is_space_def word_le_nat_alt)

lemma trim_digits:
  assumes "list_all is_digit s"
  shows "trim s = s"
proof -
  have "dropWhile is_space t = t" if "list_all is_digit t" for t
    using that by (cases t) (auto simp: digit_not_space)
  moreover have "list_all is_digit (rev s)"
    using assms by (simp add: list_all_iff)
  ultimately show ?thesis
    using assms by (simp add: trim_def)
qed

lemma decimal_digits:
  assumes "list_all is_digit s" "s \<noteq> []"
  shows "decimal s = Some (int (digits_value s))"
proof -
  have td: "takeWhile is_digit s = s" "dropWhile is_digit s = []"
    using assms(1) by (simp_all add: list_all_iff)
  show ?thesis
    unfolding decimal_def Let_def td using assms(2) by (simp add: exponent_def)
qed

lemma js_integer_digits:
  assumes "list_all is_digit s" "s \<noteq> []"
  shows "js_integer s = Some (int (digits_value s))"
proof -
  obtain u r where s: "s = u # r" using assms(2) by (cases s) auto
  have u: "u \<noteq> 45" "u \<noteq> 43"
    using assms(1) s by (auto simp: is_digit_def word_le_nat_alt)
  have "hd r \<notin> {120, 88, 111, 79, 98, 66}" if "r \<noteq> []"
    using assms(1) s that by (cases r) (auto simp: is_digit_def word_le_nat_alt)
  then show ?thesis
    using trim_digits [OF assms(1)] decimal_digits [OF assms] u s by (auto simp: js_integer_def)
qed

lemma js_integer_show: "js_integer (show_nat n) = Some (int n)"
  using js_integer_digits [of "show_nat n"] show_nat_digits [of n] by simp

lemma show_nat_plain: "u \<in> set (show_nat n) \<Longrightarrow> is_digit u"
  using show_nat_digits [of n] by (simp add: list_all_iff)

end
