(* ===== verification/Redis_Push_Frame.thy ===== *)
theory Redis_Push_Frame
  imports Js_String
begin

section \<open>Frames of a subscriber connection (naive-redis/src/subscriber/pushFrame.ts)\<close>

text \<open>
  \<open>parsePushFrame\<close> reads one RESP reply from the front of a buffer of characters, although
  the lengths in it count UTF-8 bytes. The lemmas show that a reply as a server writes it is
  read back whole, whatever follows it, and that of a reply that has not arrived completely
  nothing is consumed.
\<close>

datatype frame_error =
    InvalidArrayHeader ustring | InvalidBulkHeader ustring | NotOnBoundary nat

datatype push_event = Subscribed | Unsubscribed

datatype PushFrame =
    Message ustring ustring | Subscription push_event ustring "int option" | Other

definition incompletePushFrame :: int where
  "incompletePushFrame = -1"

definition readLine :: "ustring \<Rightarrow> nat \<Rightarrow> (ustring \<times> nat) option" where
  "readLine buffer position =
     (case index_of crlf buffer position of
        None \<Rightarrow> None
      | Some e \<Rightarrow> Some (js_slice buffer position e, e + length crlf))"

definition readInline :: "ustring \<Rightarrow> nat \<Rightarrow> (ustring \<times> nat) option" where
  "readInline buffer position =
     (case readLine buffer position of
        None \<Rightarrow> None
      | Some (line, nxt) \<Rightarrow> Some (drop 1 line, nxt))"

function chars_loop :: "ustring \<Rightarrow> nat \<Rightarrow> nat \<Rightarrow> nat \<Rightarrow> nat \<times> nat" where
  "chars_loop buffer byteLen index bytes =
     (if index < length buffer \<and> bytes < byteLen
      then case codePointAt buffer index of
             None \<Rightarrow> (bytes, index)
           | Some cp \<Rightarrow>
               chars_loop buffer byteLen (index + (if cp > 0xffff then 2 else 1)) (bytes + utf8Length cp)
      else (bytes, index))"
  by pat_completeness auto
termination
  by (relation "measure (\<lambda>(buffer, byteLen, index, bytes). length buffer - index)") auto

declare chars_loop.simps [simp del]

text \<open>\<open>Inr None\<close>: the buffer is short.\<close>

definition charactersForBytes :: "ustring \<Rightarrow> nat \<Rightarrow> nat \<Rightarrow> frame_error + nat option" where
  "charactersForBytes buffer start byteLen =
     (let (bytes, index) = chars_loop buffer byteLen start 0 in
      if bytes < byteLen then Inr None
      else if bytes > byteLen then Inl (NotOnBoundary byteLen)
      else Inr (Some (index - start)))"

definition readBulk :: "ustring \<Rightarrow> nat \<Rightarrow> frame_error + (ustring option \<times> nat) option" where
  "readBulk buffer position =
     (case readLine buffer position of
        None \<Rightarrow> Inr None
      | Some (line, nxt) \<Rightarrow>
          (case js_integer (drop 1 line) of
             None \<Rightarrow> Inl (InvalidBulkHeader line)
           | Some n \<Rightarrow>
               (if n < 0 then Inr (Some (None, nxt))
                else case charactersForBytes buffer nxt (nat n) of
                  Inl e \<Rightarrow> Inl e
                | Inr None \<Rightarrow> Inr None
                | Inr (Some chars) \<Rightarrow>
                    (if length buffer < nxt + chars + length crlf then Inr None
                     else Inr (Some (Some (js_slice buffer nxt (nxt + chars)), nxt + chars + length crlf))))))"

definition toFrame :: "ustring option list \<Rightarrow> PushFrame" where
  "toFrame parts =
     (let third = (if 2 < length parts then parts ! 2 else None) in
      case (if 1 < length parts then parts ! 1 else None) of
        None \<Rightarrow> Other
      | Some channel \<Rightarrow>
          (if hd parts = Some (ascii ''message'') \<and> third \<noteq> None
           then Message channel (the third)
           else if hd parts = Some (ascii ''subscribe'')
           then Subscription Subscribed channel (case third of None \<Rightarrow> Some 0 | Some t \<Rightarrow> js_integer t)
           else if hd parts = Some (ascii ''unsubscribe'')
           then Subscription Unsubscribed channel (case third of None \<Rightarrow> Some 0 | Some t \<Rightarrow> js_integer t)
           else Other))"

definition readElement :: "ustring \<Rightarrow> nat \<Rightarrow> frame_error + (ustring option \<times> nat) option" where
  "readElement buffer position =
     (if position < length buffer \<and> buffer ! position = 36 then readBulk buffer position
      else Inr (map_option (\<lambda>(line, nxt). (Some line, nxt)) (readInline buffer position)))"

fun readParts ::
  "nat \<Rightarrow> ustring \<Rightarrow> nat \<Rightarrow> ustring option list \<Rightarrow> frame_error + (ustring option list \<times> nat) option" where
  "readParts 0 buffer position parts = Inr (Some (parts, position))"
| "readParts (Suc n) buffer position parts =
     (case readElement buffer position of
        Inl e \<Rightarrow> Inl e
      | Inr None \<Rightarrow> Inr None
      | Inr (Some (v, nxt)) \<Rightarrow> readParts n buffer nxt (parts @ [v]))"

definition parsePushFrame :: "ustring \<Rightarrow> frame_error + int \<times> PushFrame option" where
  "parsePushFrame buffer =
     (if buffer = [] then Inr (incompletePushFrame, None)
      else case readLine buffer 0 of
        None \<Rightarrow> Inr (incompletePushFrame, None)
      | Some (header, nxt) \<Rightarrow>
          (if \<not> (header \<noteq> [] \<and> hd header = 42) then Inr (int nxt, Some Other)
           else case js_integer (drop 1 header) of
             None \<Rightarrow> Inl (InvalidArrayHeader header)
           | Some count \<Rightarrow>
               (if count < 0 then Inr (int nxt, Some Other)
                else case readParts (nat count) buffer nxt [] of
                  Inl e \<Rightarrow> Inl e
                | Inr None \<Rightarrow> Inr (incompletePushFrame, None)
                | Inr (Some (parts, position)) \<Rightarrow> Inr (int position, Some (toFrame parts)))))"

subsection \<open>Replies as a server writes them\<close>

datatype element = Bulk ustring | NullBulk | Line u16 ustring

fun encode :: "element \<Rightarrow> ustring" where
  "encode (Bulk s) = 36 # show_nat (byteLength s) @ crlf @ s @ crlf"
| "encode NullBulk = 36 # ascii ''-1'' @ crlf"
| "encode (Line m s) = m # s @ crlf"

fun element_value :: "element \<Rightarrow> ustring option" where
  "element_value (Bulk s) = Some s"
| "element_value NullBulk = None"
| "element_value (Line m s) = Some s"

text \<open>A line element has a type marker other than that of a bulk, and is one line.\<close>

fun element_ok :: "element \<Rightarrow> bool" where
  "element_ok (Line m s) \<longleftrightarrow> m \<noteq> 36 \<and> m \<noteq> 13 \<and> 13 \<notin> set s"
| "element_ok _ \<longleftrightarrow> True"

definition encode_array :: "element list \<Rightarrow> ustring" where
  "encode_array es = 42 # show_nat (length es) @ crlf @ concat (map encode es)"

subsection \<open>Reading one line\<close>

lemma crlf_not_in_line:
  assumes "13 \<notin> set line" "j < length line"
  shows "\<not> prefix crlf (drop j (line @ rest))"
proof
  assume "prefix crlf (drop j (line @ rest))"
  then have "drop j (line @ rest) \<noteq> [] \<and> hd (drop j (line @ rest)) = 13"
    by (auto simp: crlf_def prefix_def)
  moreover have "hd (drop j (line @ rest)) = line ! j"
    using assms(2) by (simp add: hd_append hd_drop_conv_nth)
  ultimately show False
    using assms nth_mem [of j line] by auto
qed

lemma find_line: "13 \<notin> set line \<Longrightarrow> find_sub crlf (line @ crlf @ rest) = Some (length line)"
  by (rule find_sub_at) (rule crlf_not_in_line)

lemma find_no_line:
  assumes "13 \<notin> set line" "strict_prefix b (line @ crlf)"
  shows "find_sub crlf b = None"
proof (cases "find_sub crlf b")
  case (Some i)
  obtain t where t: "line @ crlf = b @ t" "t \<noteq> []"
    using assms(2) by (auto simp: strict_prefix_def prefix_def)
  have "find_sub crlf (b @ t) = Some i"
    by (rule find_sub_extend [OF Some])
  moreover have "find_sub crlf (line @ crlf) = Some (length line)"
    using find_line [OF assms(1), of "[]"] by simp
  ultimately have "i = length line"
    using t(1) by simp
  moreover have "i + length crlf \<le> length b"
    using find_sub_occurs [OF Some] by simp
  moreover have "length b < length (line @ crlf)"
    using t by (metis length_append less_add_same_cancel1 length_greater_0_conv)
  ultimately show ?thesis by simp
qed simp

lemma readLine_complete:
  assumes "13 \<notin> set line"
  shows "readLine (pre @ line @ crlf @ rest) (length pre) =
    Some (line, length pre + length line + length crlf)"
  using find_line [OF assms, of rest]
  by (simp add: readLine_def index_of_def js_slice_def)

lemma readLine_incomplete:
  assumes "13 \<notin> set line" "strict_prefix b (line @ crlf)"
  shows "readLine (pre @ b) (length pre) = None"
  using find_no_line [OF assms] by (simp add: readLine_def index_of_def)

lemma show_nat_line: "13 \<notin> set (show_nat n)"
  using show_nat_plain [of 13 n] by (auto simp: is_digit_def)

subsection \<open>Counting the characters of a bulk\<close>

lemma codePointAt_append: "codePointAt (pre @ s) (length pre) = codePoint s"
  by (simp add: codePointAt_def)

lemma chars_step:
  assumes "s \<noteq> []" "b < n" "codePoint s = Some cp"
  shows "chars_loop (pre @ s) n (length pre) b =
    chars_loop (pre @ s) n (length pre + (if cp > 0xffff then 2 else 1)) (b + utf8Length cp)"
  using assms by (subst chars_loop.simps) (simp add: codePointAt_append)

lemma chars_stop: "n \<le> b \<Longrightarrow> chars_loop buffer n i b = (b, i)"
  by (subst chars_loop.simps) simp

lemma chars_end: "chars_loop buffer n (length buffer) b = (b, length buffer)"
  by (subst chars_loop.simps) simp

lemma byteLength_pos: "s \<noteq> [] \<Longrightarrow> 0 < byteLength s"
  by (induction s rule: byteLength.induct) auto

lemma chars_single:
  assumes "\<not> (is_high u \<and> us \<noteq> [] \<and> is_low (hd us))" "b < n"
  shows "chars_loop (pre @ u # us) n (length pre) b =
    chars_loop ((pre @ [u]) @ us) n (length (pre @ [u])) (b + utf8Length (unat u))"
proof -
  have cp: "codePoint (u # us) = Some (unat u)" "\<not> 0xffff < unat u"
    using codePoint_single [OF assms(1)] by simp_all
  from chars_step [of "u # us" b n "unat u" pre] cp assms(2) show ?thesis by simp
qed

lemma chars_pair:
  assumes "is_high u" "is_low v" "b < n"
  shows "chars_loop (pre @ u # v # us) n (length pre) b =
    chars_loop ((pre @ [u, v]) @ us) n (length (pre @ [u, v])) (b + 4)"
proof -
  obtain cp where "codePoint (u # v # us) = Some cp" "0xffff < cp" "utf8Length cp = 4"
    using codePoint_pair [OF assms(1,2)] by blast
  then show ?thesis
    using chars_step [of "u # v # us" b n cp pre] assms(3) by simp
qed

lemma chars_complete:
  assumes "t = [] \<or> \<not> is_low (hd t)"
  shows "chars_loop (pre @ s @ t) (b + byteLength s) (length pre) b =
    (b + byteLength s, length pre + length s)"
proof (induction s arbitrary: pre b rule: byteLength.induct)
  case 1
  then show ?case by (simp add: chars_stop)
next
  case (2 u)
  have "\<not> (is_high u \<and> t \<noteq> [] \<and> is_low (hd t))" using assms by auto
  then show ?case
    using chars_single [of u t b "b + utf8Length (unat u)" pre] by (simp add: chars_stop)
next
  case (3 u v us)
  show ?case
  proof (cases "is_high u \<and> is_low v")
    case True
    then show ?thesis
      using "3.IH"(1) [OF True, of "pre @ [u, v]" "b + 4"]
        chars_pair [of u v b "b + byteLength (u # v # us)" pre "us @ t"]
      by (simp add: add.assoc)
  next
    case False
    then have "byteLength (u # v # us) = utf8Length (unat u) + byteLength (v # us)" by auto
    with False show ?thesis
      using "3.IH"(2) [OF False, of "pre @ [u]" "b + utf8Length (unat u)"]
        chars_single [of u "v # us @ t" b "b + byteLength (u # v # us)" pre]
        byteLength_pos [of "u # v # us"]
      by (simp add: add.assoc del: byteLength.simps(3))
  qed
qed

lemma chars_incomplete:
  "strict_prefix s' s \<Longrightarrow>
   fst (chars_loop (pre @ s') (b + byteLength s) (length pre) b) < b + byteLength s"
proof (induction s arbitrary: s' pre b rule: byteLength.induct)
  case 1
  then show ?case by simp
next
  case (2 u)
  then have "s' = []" by (auto simp: strict_prefix_def prefix_Cons)
  then show ?case using chars_end [of pre] by simp
next
  case (3 u v us)
  consider "s' = []" | "s' = [u]" | us' where "s' = u # v # us'" "strict_prefix us' us"
    using "3.prems" by (auto simp: strict_prefix_def prefix_Cons)
  then show ?case
  proof cases
    case 1
    then show ?thesis
      using chars_end [of pre] byteLength_pos [of "u # v # us"] by simp
  next
    case 2
    have "chars_loop (pre @ [u]) (b + byteLength (u # v # us)) (length pre) b =
        (b + utf8Length (unat u), Suc (length pre))"
      using chars_single [of u "[]" b "b + byteLength (u # v # us)" pre]
        byteLength_pos [of "u # v # us"] chars_end [of "pre @ [u]"] by simp
    moreover have "utf8Length (unat u) < byteLength (u # v # us)"
      using high_length [of u] byteLength_pos [of "v # us"] by auto
    ultimately show ?thesis using 2 by simp
  next
    case (3 us')
    show ?thesis
    proof (cases "is_high u \<and> is_low v")
      case True
      then show ?thesis
        using "3.IH"(1) [OF True 3(2), of "pre @ [u, v]" "b + 4"] 3(1)
          chars_pair [of u v b "b + byteLength (u # v # us)" pre us']
        by (simp add: add.assoc)
    next
      case False
      have "strict_prefix (v # us') (v # us)" using 3(2) by simp
      moreover have "byteLength (u # v # us) = utf8Length (unat u) + byteLength (v # us)"
        using False by auto
      ultimately show ?thesis
        using "3.IH"(2) [OF False, of "v # us'" "pre @ [u]" "b + utf8Length (unat u)"] 3(1)
          chars_single [of u "v # us'" b "b + byteLength (u # v # us)" pre]
          byteLength_pos [of "u # v # us"] False
        by (simp add: add.assoc del: byteLength.simps(3))
    qed
  qed
qed

subsection \<open>Reading an element\<close>

lemma crlf_not_low: "\<not> is_low (hd (crlf @ rest))"
  by (simp add: crlf_def is_low_def word_le_nat_alt)

lemma charactersForBytes_complete:
  "charactersForBytes (pre @ s @ crlf @ rest) (length pre) (byteLength s) = Inr (Some (length s))"
  using chars_complete [of "crlf @ rest" pre s 0] crlf_not_low
  by (simp add: charactersForBytes_def)

lemma charactersForBytes_incomplete:
  assumes "strict_prefix s' s"
  shows "charactersForBytes (pre @ s') (length pre) (byteLength s) = Inr None"
  using chars_incomplete [OF assms, of pre 0]
  by (auto simp: charactersForBytes_def split: prod.splits)

lemma header_line:
  "readLine (pre @ 36 # show_nat n @ crlf @ rest) (length pre) =
     Some (36 # show_nat n, length pre + Suc (length (show_nat n)) + length crlf)"
  using readLine_complete [of "36 # show_nat n" pre rest] show_nat_line by simp

lemma readBulk_complete:
  "readBulk (pre @ encode (Bulk s) @ rest) (length pre) =
     Inr (Some (Some s, length pre + length (encode (Bulk s))))"
proof -
  let ?n = "show_nat (byteLength s)"
  let ?pre = "pre @ 36 # ?n @ crlf"
  have line: "readLine (pre @ 36 # ?n @ crlf @ s @ crlf @ rest) (length pre) =
      Some (36 # ?n, length ?pre)"
    using header_line [of pre "byteLength s" "s @ crlf @ rest"] by simp
  have chars: "charactersForBytes (pre @ 36 # ?n @ crlf @ s @ crlf @ rest) (length ?pre) (byteLength s) =
      Inr (Some (length s))"
    using charactersForBytes_complete [of ?pre s rest] by simp
  have body: "js_slice (pre @ 36 # ?n @ crlf @ s @ crlf @ rest) (length ?pre) (length ?pre + length s) = s"
    by (simp add: js_slice_def)
  show ?thesis
    using line chars body by (simp add: readBulk_def js_integer_show)
qed

lemma readElement_complete:
  assumes "element_ok e"
  shows "readElement (pre @ encode e @ rest) (length pre) =
    Inr (Some (element_value e, length pre + length (encode e)))"
proof (cases e)
  case (Bulk s)
  then show ?thesis
    using readBulk_complete [of pre s rest] by (simp add: readElement_def nth_append)
next
  case NullBulk
  have line: "readLine (pre @ 36 # 45 # 49 # crlf @ rest) (length pre) =
      Some ([36, 45, 49], length pre + 3 + length crlf)"
    using readLine_complete [of "[36, 45, 49]" pre rest] by simp
  have "js_integer [45, 49] = Some (-1)" by code_simp
  with line NullBulk show ?thesis
    by (simp add: readElement_def readBulk_def nth_append)
next
  case (Line m s)
  have line: "readLine (pre @ m # s @ crlf @ rest) (length pre) =
      Some (m # s, length pre + Suc (length s) + length crlf)"
    using readLine_complete [of "m # s" pre rest] assms Line by auto
  with Line assms show ?thesis
    by (simp add: readElement_def readInline_def nth_append)
qed

lemma readBulk_incomplete:
  assumes "strict_prefix b (encode (Bulk s))"
  shows "readBulk (pre @ b) (length pre) = Inr None"
proof -
  let ?n = "show_nat (byteLength s)"
  have "strict_prefix b ((36 # ?n @ crlf) @ (s @ crlf))"
    using assms by simp
  then consider "strict_prefix b (36 # ?n @ crlf)"
    | b' where "b = (36 # ?n @ crlf) @ b'" "strict_prefix b' (s @ crlf)"
    by (rule strict_prefix_append_cases)
  then show ?thesis
  proof cases
    case 1
    then have "readLine (pre @ b) (length pre) = None"
      using readLine_incomplete [of "36 # ?n" b pre] show_nat_line by simp
    then show ?thesis by (simp add: readBulk_def)
  next
    case (2 b')
    let ?pre = "pre @ 36 # ?n @ crlf"
    have line: "readLine (pre @ b) (length pre) = Some (36 # ?n, length ?pre)"
      using header_line [of pre "byteLength s" b'] 2(1) by simp
    from 2(2) consider "strict_prefix b' s" | c where "b' = s @ c" "strict_prefix c crlf"
      by (rule strict_prefix_append_cases)
    then show ?thesis
    proof cases
      case 1
      then show ?thesis
        using line charactersForBytes_incomplete [of b' s ?pre] 2(1)
        by (simp add: readBulk_def js_integer_show)
    next
      case (2 c)
      have "c = [] \<or> \<not> is_low (hd c)"
        using 2(2) by (auto simp: crlf_def strict_prefix_def prefix_Cons is_low_def word_le_nat_alt)
      then have "charactersForBytes (?pre @ s @ c) (length ?pre) (byteLength s) = Inr (Some (length s))"
        using chars_complete [of c ?pre s 0] by (simp add: charactersForBytes_def)
      moreover have "length c < length crlf"
        using 2(2) by (rule prefix_length_less)
      ultimately show ?thesis
        using line 2(1) \<open>b = (36 # ?n @ crlf) @ b'\<close> by (simp add: readBulk_def js_integer_show)
    qed
  qed
qed

lemma readElement_incomplete:
  assumes "element_ok e" "strict_prefix b (encode e)"
  shows "readElement (pre @ b) (length pre) = Inr None"
proof (cases e)
  case (Bulk s)
  show ?thesis
  proof (cases b)
    case Nil
    then show ?thesis
      by (simp add: readElement_def readInline_def readLine_def index_of_def crlf_def)
  next
    case (Cons u us)
    then have "u = 36" using assms(2) Bulk by (auto simp: strict_prefix_def)
    then show ?thesis
      using Cons readBulk_incomplete [of b s pre] assms(2) Bulk
      by (simp add: readElement_def nth_append)
  qed
next
  case NullBulk
  then have "readLine (pre @ b) (length pre) = None"
    using readLine_incomplete [of "[36, 45, 49]" b pre] assms(2) by simp
  then show ?thesis by (simp add: readElement_def readInline_def readBulk_def)
next
  case (Line m s)
  then have "readLine (pre @ b) (length pre) = None"
    using readLine_incomplete [of "m # s" b pre] assms by auto
  then show ?thesis by (simp add: readElement_def readInline_def readBulk_def)
qed

subsection \<open>Reading an array\<close>

lemma readParts_complete:
  "\<forall>e\<in>set es. element_ok e \<Longrightarrow>
   readParts (length es) (pre @ concat (map encode es) @ rest) (length pre) parts =
     Inr (Some (parts @ map element_value es, length pre + length (concat (map encode es))))"
proof (induction es arbitrary: pre parts)
  case Nil
  then show ?case by simp
next
  case (Cons e es)
  have "readElement (pre @ encode e @ concat (map encode es) @ rest) (length pre) =
      Inr (Some (element_value e, length (pre @ encode e)))"
    using readElement_complete [of e pre] Cons.prems by simp
  moreover have "readParts (length es) ((pre @ encode e) @ concat (map encode es) @ rest)
      (length (pre @ encode e)) (parts @ [element_value e]) =
      Inr (Some ((parts @ [element_value e]) @ map element_value es,
        length (pre @ encode e) + length (concat (map encode es))))"
    using Cons.prems by (intro Cons.IH) simp
  ultimately show ?case by (simp add: add.assoc)
qed

lemma readParts_incomplete:
  "\<forall>e\<in>set es. element_ok e \<Longrightarrow> strict_prefix b (concat (map encode es)) \<Longrightarrow>
   readParts (length es) (pre @ b) (length pre) parts = Inr None"
proof (induction es arbitrary: pre b parts)
  case Nil
  then show ?case by simp
next
  case (Cons e es)
  have "strict_prefix b (encode e @ concat (map encode es))" using Cons.prems(2) by simp
  then consider "strict_prefix b (encode e)"
    | b' where "b = encode e @ b'" "strict_prefix b' (concat (map encode es))"
    by (rule strict_prefix_append_cases)
  then show ?case
  proof cases
    case 1
    then show ?thesis
      using readElement_incomplete [of e b pre] Cons.prems(1) by simp
  next
    case (2 b')
    have "readElement (pre @ encode e @ b') (length pre) =
        Inr (Some (element_value e, length (pre @ encode e)))"
      using readElement_complete [of e pre b'] Cons.prems(1) by simp
    moreover have "readParts (length es) ((pre @ encode e) @ b') (length (pre @ encode e))
        (parts @ [element_value e]) = Inr None"
      using Cons.prems(1) 2(2) by (intro Cons.IH) simp_all
    ultimately show ?thesis using 2(1) by simp
  qed
qed

lemma array_line:
  "readLine (42 # show_nat n @ crlf @ rest) 0 =
     Some (42 # show_nat n, Suc (length (show_nat n)) + length crlf)"
  using readLine_complete [of "42 # show_nat n" "[]" rest] show_nat_line by simp

lemma parse_complete:
  assumes "\<forall>e\<in>set es. element_ok e"
  shows "parsePushFrame (encode_array es @ rest) =
    Inr (int (length (encode_array es)), Some (toFrame (map element_value es)))"
proof -
  let ?pre = "42 # show_nat (length es) @ crlf"
  have "readParts (length es) (?pre @ concat (map encode es) @ rest) (length ?pre) [] =
      Inr (Some ([] @ map element_value es, length ?pre + length (concat (map encode es))))"
    by (rule readParts_complete [OF assms])
  then show ?thesis
    by (simp add: parsePushFrame_def encode_array_def array_line js_integer_show)
qed

lemma parse_incomplete:
  assumes "\<forall>e\<in>set es. element_ok e" "strict_prefix b (encode_array es)"
  shows "parsePushFrame b = Inr (incompletePushFrame, None)"
proof -
  let ?pre = "42 # show_nat (length es) @ crlf"
  have "strict_prefix b (?pre @ concat (map encode es))"
    using assms(2) by (simp add: encode_array_def)
  then consider "strict_prefix b ?pre" | b' where "b = ?pre @ b'" "strict_prefix b' (concat (map encode es))"
    by (rule strict_prefix_append_cases)
  then show ?thesis
  proof cases
    case 1
    then have "readLine b 0 = None"
      using readLine_incomplete [of "42 # show_nat (length es)" b "[]"] show_nat_line by simp
    then show ?thesis by (simp add: parsePushFrame_def)
  next
    case (2 b')
    then have "readParts (length es) (?pre @ b') (length ?pre) [] = Inr None"
      using readParts_incomplete [OF assms(1) 2(2)] by blast
    then show ?thesis
      using 2(1) by (simp add: parsePushFrame_def array_line js_integer_show)
  qed
qed

end
