(* ===== verification/Redis_Subscriber.thy ===== *)
theory Redis_Subscriber
  imports Redis_Push_Frame "HOL-Library.Multiset"
begin

section \<open>The subscriber connection (naive-redis/src/subscriber/createRedisSubscriber.ts)\<close>

text \<open>
  The subscriber reads every inbound frame, settles the confirmations its callers wait for,
  and after each connect authenticates and replays its subscriptions. What the socket calls
  back, and what the awaited writes answer, are events of \<open>sub_step\<close>; a \<open>restore\<close> in flight is
  kept with the generation it belongs to. The channels are a JavaScript \<open>Set\<close>: entries carry
  a stamp, so that the live iteration of \<open>for ... of\<close> visits what the source visits.
  \<open>sub_settled\<close>, \<open>sub_sent\<close>, \<open>sub_delivered\<close>, \<open>sub_notices\<close> and \<open>sub_resets\<close> record what
  happened. Logging is left out, and a handler that throws is swallowed by the source.
\<close>

datatype sub_error = SubTimeout | InvalidPassword | Cause string | DeadSocket

type_synonym waiter_key = "push_event \<times> ustring"

datatype restore_stage = AwaitAuth | Replay nat

record restore =
  r_mine :: nat
  r_reconnected :: bool
  r_stage :: restore_stage

record subscriber =
  channels :: "(nat \<times> ustring) list"
  nextStamp :: nat
  waiters :: "(waiter_key \<times> nat list) list"
  nextWaiter :: nat
  everConnected :: bool
  generation :: nat
  restores :: "restore list"
  sub_settled :: "(nat \<times> sub_error option) list"
  sub_sent :: "ustring list list"
  sub_delivered :: "(ustring \<times> ustring) list"
  sub_notices :: "(ustring list \<times> bool) list"
  sub_resets :: nat

record subscriber_options =
  sub_password :: "ustring option"
  sub_username :: "ustring option"
  has_onReconnected :: bool

definition createRedisSubscriber :: subscriber where
  "createRedisSubscriber =
     \<lparr>channels = [], nextStamp = 0, waiters = [], nextWaiter = 0, everConnected = False,
      generation = 0, restores = [], sub_settled = [], sub_sent = [], sub_delivered = [],
      sub_notices = [], sub_resets = 0\<rparr>"

definition set_add :: "ustring \<Rightarrow> subscriber \<Rightarrow> subscriber" where
  "set_add ch s =
     (if ch \<in> snd ` set (channels s) then s
      else s\<lparr>channels := channels s @ [(nextStamp s, ch)], nextStamp := Suc (nextStamp s)\<rparr>)"

definition set_delete :: "ustring \<Rightarrow> subscriber \<Rightarrow> subscriber" where
  "set_delete ch s = s\<lparr>channels := filter (\<lambda>(_, c). c \<noteq> ch) (channels s)\<rparr>"

definition settle :: "waiter_key \<Rightarrow> sub_error option \<Rightarrow> subscriber \<Rightarrow> subscriber" where
  "settle key err s =
     (case map_of (waiters s) key of
        None \<Rightarrow> s
      | Some ws \<Rightarrow>
          s\<lparr>waiters := filter (\<lambda>(k, _). k \<noteq> key) (waiters s),
            sub_settled := sub_settled s @ map (\<lambda>w. (w, err)) ws\<rparr>)"

definition settleAll :: "sub_error \<Rightarrow> subscriber \<Rightarrow> subscriber" where
  "settleAll err s = fold (\<lambda>key. settle key (Some err)) (map fst (waiters s)) s"

text \<open>\<open>waiters.set\<close> keeps the place of a key that is present and appends a new one.\<close>

definition confirmation :: "waiter_key \<Rightarrow> subscriber \<Rightarrow> subscriber" where
  "confirmation key s =
     s\<lparr>waiters :=
         (if map_of (waiters s) key = None then waiters s @ [(key, [nextWaiter s])]
          else map (\<lambda>(k, ws). if k = key then (k, ws @ [nextWaiter s]) else (k, ws)) (waiters s)),
       nextWaiter := Suc (nextWaiter s)\<rparr>"

definition sendCommand :: "ustring list \<Rightarrow> subscriber \<Rightarrow> subscriber" where
  "sendCommand command s = s\<lparr>sub_sent := sub_sent s @ [command]\<rparr>"

definition subscribe :: "ustring \<Rightarrow> subscriber \<Rightarrow> subscriber" where
  "subscribe ch s =
     sendCommand [ascii ''SUBSCRIBE'', ch] (confirmation (Subscribed, ch) (set_add ch s))"

definition unsubscribe :: "ustring \<Rightarrow> subscriber \<Rightarrow> subscriber" where
  "unsubscribe ch s =
     sendCommand [ascii ''UNSUBSCRIBE'', ch] (confirmation (Unsubscribed, ch) (set_delete ch s))"

definition sub_disconnect :: "subscriber \<Rightarrow> subscriber" where
  "sub_disconnect s = settleAll DeadSocket (s\<lparr>channels := []\<rparr>)"

subsection \<open>Reading the push stream\<close>

definition consume_frame :: "PushFrame \<Rightarrow> subscriber \<Rightarrow> subscriber" where
  "consume_frame f s =
     (case f of
        Message ch p \<Rightarrow> s\<lparr>sub_delivered := sub_delivered s @ [(ch, p)]\<rparr>
      | Subscription ev ch n \<Rightarrow> settle (ev, ch) None s
      | Other \<Rightarrow> s)"

definition consume :: "ustring \<Rightarrow> subscriber \<Rightarrow> frame_error + int \<times> subscriber" where
  "consume buffer s =
     (case parsePushFrame buffer of
        Inl e \<Rightarrow> Inl e
      | Inr (consumed, frame) \<Rightarrow>
          (if consumed = incompletePushFrame then Inr (incompletePushFrame, s)
           else Inr (consumed, case frame of None \<Rightarrow> s | Some f \<Rightarrow> consume_frame f s)))"

text \<open>
  The loop in which the socket feeds its receive buffer to the consumer: it stops when the
  consumer takes nothing, and discards the buffer when the consumer throws.
\<close>

function feed :: "ustring \<Rightarrow> subscriber \<Rightarrow> ustring \<times> subscriber" where
  "feed buffer s =
     (if buffer = [] then ([], s)
      else case consume buffer s of
        Inl e \<Rightarrow> ([], s)
      | Inr (n, s') \<Rightarrow> if n \<le> 0 then (buffer, s') else feed (drop (nat n) buffer) s')"
  by pat_completeness auto
termination
  by (relation "measure (\<lambda>(buffer, s). length buffer)") auto

declare feed.simps [simp del]

definition push_chunk :: "ustring \<Rightarrow> ustring \<times> subscriber \<Rightarrow> ustring \<times> subscriber" where
  "push_chunk chunk bs = feed (fst bs @ chunk) (snd bs)"

subsection \<open>Restoring after a connect\<close>

definition notifyReconnected ::
  "subscriber_options \<Rightarrow> bool \<Rightarrow> bool \<Rightarrow> subscriber \<Rightarrow> subscriber" where
  "notifyReconnected c reconnected restored s =
     (if \<not> reconnected \<or> \<not> has_onReconnected c then s
      else s\<lparr>sub_notices := sub_notices s @ [(map snd (channels s), restored)]\<rparr>)"

definition drop_restore :: "nat \<Rightarrow> subscriber \<Rightarrow> subscriber" where
  "drop_restore mine s = s\<lparr>restores := filter (\<lambda>r. r_mine r \<noteq> mine) (restores s)\<rparr>"

text \<open>The two continuations of \<open>restore(...)\<close>: \<open>then\<close> and \<open>catch\<close>.\<close>

definition restored_ok :: "subscriber_options \<Rightarrow> restore \<Rightarrow> subscriber \<Rightarrow> subscriber" where
  "restored_ok c r s0 =
     (let s = drop_restore (r_mine r) s0 in
      if r_mine r \<noteq> generation s then s else notifyReconnected c (r_reconnected r) True s)"

definition restore_failed :: "subscriber_options \<Rightarrow> restore \<Rightarrow> sub_error \<Rightarrow> subscriber \<Rightarrow> subscriber" where
  "restore_failed c r err s0 =
     (let s = drop_restore (r_mine r) s0 in
      if r_mine r \<noteq> generation s then s
      else
        (let s1 = settleAll err s; s2 = s1\<lparr>sub_resets := Suc (sub_resets s1)\<rparr>
         in notifyReconnected c (r_reconnected r) False s2))"

text \<open>One step of the replay loop: the next entry of the set after the one with \<open>stamp\<close>.\<close>

definition replay_from :: "subscriber_options \<Rightarrow> restore \<Rightarrow> (nat \<times> ustring) list \<Rightarrow> subscriber \<Rightarrow> subscriber" where
  "replay_from c r rest s =
     (case rest of
        [] \<Rightarrow> restored_ok c r s
      | (st, ch) # _ \<Rightarrow>
          sendCommand [ascii ''SUBSCRIBE'', ch]
            (s\<lparr>restores := r\<lparr>r_stage := Replay st\<rparr> # filter (\<lambda>q. r_mine q \<noteq> r_mine r) (restores s)\<rparr>))"

definition restore_authenticated :: "subscriber_options \<Rightarrow> restore \<Rightarrow> subscriber \<Rightarrow> subscriber" where
  "restore_authenticated c r s =
     (if \<not> r_reconnected r \<or> r_mine r \<noteq> generation s then restored_ok c r s
      else replay_from c r (channels s) s)"

definition connected :: "subscriber_options \<Rightarrow> subscriber \<Rightarrow> subscriber" where
  "connected c s0 =
     (let s = s0\<lparr>everConnected := True, generation := Suc (generation s0)\<rparr>;
          r = \<lparr>r_mine = generation s, r_reconnected = everConnected s0, r_stage = AwaitAuth\<rparr>
      in case sub_password c of
           Some p \<Rightarrow>
             sendCommand (case sub_username c of
                 Some u \<Rightarrow> [ascii ''AUTH'', u, p] | None \<Rightarrow> [ascii ''AUTH'', p])
               (s\<lparr>restores := r # restores s\<rparr>)
         | None \<Rightarrow> restore_authenticated c r s)"

datatype awaited = Answered bool | Rejected sub_error

datatype sub_event =
    SubSubscribe ustring | SubUnsubscribe ustring | SubDisconnect | SubConnected
  | SubAuth nat awaited | SubReplayed nat awaited | SubTimer waiter_key | SubFrame PushFrame

fun sub_step :: "subscriber_options \<Rightarrow> sub_event \<Rightarrow> subscriber \<Rightarrow> subscriber" where
  "sub_step c (SubSubscribe ch) s = subscribe ch s"
| "sub_step c (SubUnsubscribe ch) s = unsubscribe ch s"
| "sub_step c SubDisconnect s = sub_disconnect s"
| "sub_step c SubConnected s = connected c s"
| "sub_step c (SubAuth mine a) s =
     (case find (\<lambda>r. r_mine r = mine \<and> r_stage r = AwaitAuth) (restores s) of
        None \<Rightarrow> s
      | Some r \<Rightarrow>
          (case a of
             Answered ok \<Rightarrow>
               if ok then restore_authenticated c r s else restore_failed c r InvalidPassword s
           | Rejected e \<Rightarrow> restore_failed c r e s))"
| "sub_step c (SubReplayed mine a) s =
     (case find (\<lambda>r. r_mine r = mine \<and> r_stage r \<noteq> AwaitAuth) (restores s) of
        None \<Rightarrow> s
      | Some r \<Rightarrow>
          (case (a, r_stage r) of
             (Answered _, Replay st) \<Rightarrow>
               replay_from c r (filter (\<lambda>(st', _). st < st') (channels s)) s
           | (Rejected e, _) \<Rightarrow> restore_failed c r e s
           | _ \<Rightarrow> s))"
| "sub_step c (SubTimer key) s = settle key (Some SubTimeout) s"
| "sub_step c (SubFrame f) s = consume_frame f s"

definition sub_run :: "subscriber_options \<Rightarrow> sub_event list \<Rightarrow> subscriber" where
  "sub_run c es = fold (sub_step c) es createRedisSubscriber"

subsection \<open>The stream and its chunks\<close>

text \<open>The frame a reply stands for, and a stream: whole replies and the start of another one.\<close>

definition reply_frame :: "element list \<Rightarrow> PushFrame" where
  "reply_frame es = toFrame (map element_value es)"

definition reply_ok :: "element list \<Rightarrow> bool" where
  "reply_ok es \<longleftrightarrow> (\<forall>e\<in>set es. element_ok e)"

definition encodes :: "element list list \<Rightarrow> ustring" where
  "encodes rs = concat (map encode_array rs)"

lemma encodes_simps [simp]:
  "encodes [] = []" "encodes (r # rs) = encode_array r @ encodes rs"
  by (simp_all add: encodes_def)

lemma encode_array_pos: "0 < length (encode_array es)"
  by (simp add: encode_array_def)

lemma consume_complete:
  "reply_ok r \<Longrightarrow> consume (encode_array r @ rest) s =
     Inr (int (length (encode_array r)), consume_frame (reply_frame r) s)"
  using parse_complete [of r rest]
  by (simp add: consume_def reply_ok_def reply_frame_def incompletePushFrame_def)

lemma consume_incomplete:
  "reply_ok r \<Longrightarrow> strict_prefix b (encode_array r) \<Longrightarrow> consume b s = Inr (incompletePushFrame, s)"
  using parse_incomplete [of r b] by (simp add: consume_def reply_ok_def)

lemma feed_stream:
  "\<forall>r\<in>set rs. reply_ok r \<Longrightarrow> reply_ok r' \<Longrightarrow> strict_prefix part (encode_array r') \<Longrightarrow>
   feed (encodes rs @ part) s = (part, fold (\<lambda>r. consume_frame (reply_frame r)) rs s)"
proof (induction rs arbitrary: s)
  case Nil
  then show ?case
    using consume_incomplete [of r' part s] by (simp add: feed.simps incompletePushFrame_def)
next
  case (Cons r rs)
  have ne: "encodes (r # rs) @ part \<noteq> []"
    using encode_array_pos [of r] by auto
  have "consume (encodes (r # rs) @ part) s =
      Inr (int (length (encode_array r)), consume_frame (reply_frame r) s)"
    using consume_complete [of r "encodes rs @ part" s] Cons.prems(1) by simp
  then have "feed (encodes (r # rs) @ part) s = feed (encodes rs @ part) (consume_frame (reply_frame r) s)"
    using ne encode_array_pos [of r] by (subst feed.simps) simp
  with Cons show ?case by simp
qed

text \<open>What has arrived of a stream is again whole replies and the start of another one.\<close>

lemma stream_prefix:
  assumes "\<forall>r\<in>set rs. reply_ok r" "reply_ok r'" "strict_prefix part (encode_array r')"
    "encodes rs @ part = p @ t"
  shows "\<exists>k part' q. p = encodes (take k rs) @ part' \<and> reply_ok q \<and>
    strict_prefix part' (encode_array q) \<and> encodes (drop k rs) @ part = part' @ t"
  using assms(1,4)
proof (induction rs arbitrary: p)
  case Nil
  then have "part = p @ t" by simp
  then have "prefix p part" by (rule prefixI)
  then have "strict_prefix p (encode_array r')"
    using assms(3) by (rule prefix_order.le_less_trans)
  with Nil assms(2) show ?case
    by (intro exI [of _ 0] exI [of _ p] exI [of _ r']) simp
next
  case (Cons r rs)
  show ?case
  proof (cases "strict_prefix p (encode_array r)")
    case True
    with Cons.prems show ?thesis
      by (intro exI [of _ 0] exI [of _ p] exI [of _ r]) simp
  next
    case False
    have "encode_array r @ (encodes rs @ part) = p @ t"
      using Cons.prems(2) by simp
    then obtain p' where p': "p = encode_array r @ p'" "encodes rs @ part = p' @ t"
      using False by (auto simp: append_eq_append_conv2 strict_prefix_def)
    then obtain k part' q where "p' = encodes (take k rs) @ part'" "reply_ok q"
        "strict_prefix part' (encode_array q)" "encodes (drop k rs) @ part = part' @ t"
      using Cons.IH [of p'] Cons.prems(1) by auto
    with p'(1) show ?thesis
      by (intro exI [of _ "Suc k"] exI [of _ part'] exI [of _ q]) simp
  qed
qed

lemma chunks_stream:
  assumes "reply_ok r'" "strict_prefix part (encode_array r')"
  shows "\<forall>r\<in>set rs. reply_ok r \<Longrightarrow> buf @ concat chunks = encodes rs @ part \<Longrightarrow> feed buf s = (buf, s) \<Longrightarrow>
    fold push_chunk chunks (buf, s) = (part, fold (\<lambda>r. consume_frame (reply_frame r)) rs s)"
proof (induction chunks arbitrary: buf rs s)
  case Nil
  then show ?case using feed_stream [OF Nil.prems(1) assms, of s] by simp
next
  case (Cons chunk chunks)
  have "encodes rs @ part = (buf @ chunk) @ concat chunks"
    using Cons.prems(2) by simp
  then obtain k part' q where k: "buf @ chunk = encodes (take k rs) @ part'" "reply_ok q"
      "strict_prefix part' (encode_array q)" "encodes (drop k rs) @ part = part' @ concat chunks"
    using stream_prefix [OF Cons.prems(1) assms] by blast
  let ?s = "fold (\<lambda>r. consume_frame (reply_frame r)) (take k rs) s"
  have ok: "\<forall>r\<in>set (take k rs). reply_ok r" "\<forall>r\<in>set (drop k rs). reply_ok r"
    using Cons.prems(1) by (auto dest: in_set_takeD in_set_dropD)
  have "push_chunk chunk (buf, s) = (part', ?s)"
    using feed_stream [OF ok(1) k(2,3), of s] k(1) by (simp add: push_chunk_def)
  moreover have "fold push_chunk chunks (part', ?s) =
      (part, fold (\<lambda>r. consume_frame (reply_frame r)) (drop k rs) ?s)"
  proof (rule Cons.IH)
    show "feed part' ?s = (part', ?s)"
      using feed_stream [of "[]" q part' ?s] k(2,3) by simp
  qed (use ok k(4) in simp_all)
  moreover have "fold (\<lambda>r. consume_frame (reply_frame r)) (drop k rs) ?s =
      fold (\<lambda>r. consume_frame (reply_frame r)) rs s"
    by (metis append_take_drop_id comp_apply fold_append)
  ultimately show ?case by simp
qed

subsection \<open>Every confirmation is settled at most once\<close>

text \<open>
  \<open>sub_wf\<close>: a key occurs once in the map of waiters; every confirmation ever handed out is
  either waiting under one key or has been settled once; the entries of the channel set are
  in the order of their stamps.
\<close>

definition waiting :: "subscriber \<Rightarrow> nat list" where
  "waiting s = concat (map snd (waiters s))"

definition sub_wf :: "subscriber \<Rightarrow> bool" where
  "sub_wf s \<longleftrightarrow>
     distinct (map fst (waiters s)) \<and>
     mset (map fst (sub_settled s)) + mset (waiting s) = mset [0..<nextWaiter s] \<and>
     sorted_wrt (<) (map fst (channels s)) \<and> (\<forall>st\<in>fst ` set (channels s). st < nextStamp s)"

lemma sub_wf_frame:
  assumes "waiters s' = waiters s" "sub_settled s' = sub_settled s" "nextWaiter s' = nextWaiter s"
    "channels s' = channels s" "nextStamp s' = nextStamp s"
  shows "sub_wf s' = sub_wf s"
  using assms by (simp add: sub_wf_def waiting_def)

lemma filter_other_keys:
  assumes "distinct (map fst ws)" "map_of ws key = Some x"
  shows "mset (concat (map snd ws)) = mset x + mset (concat (map snd (filter (\<lambda>(k, _). k \<noteq> key) ws)))"
  using assms
proof (induction ws)
  case Nil
  then show ?case by simp
next
  case (Cons w ws)
  obtain k y where w: "w = (k, y)" by (cases w)
  show ?case
  proof (cases "k = key")
    case True
    have "filter (\<lambda>(k, _). k \<noteq> key) ws = ws"
      using Cons.prems(1) w True by (intro filter_True) (auto simp: image_iff)
    then show ?thesis using Cons.prems(2) w True by simp
  next
    case False
    then show ?thesis using Cons w by simp
  qed
qed

lemma sub_settle_wf: "sub_wf s \<Longrightarrow> sub_wf (settle key err s)"
proof (cases "map_of (waiters s) key")
  case (Some ws)
  assume wf: "sub_wf s"
  have "distinct (map fst (filter (\<lambda>(k, _). k \<noteq> key) (waiters s)))"
    using wf by (auto simp: sub_wf_def distinct_map inj_on_def)
  moreover have "mset (waiting s) =
      mset ws + mset (concat (map snd (filter (\<lambda>(k, _). k \<noteq> key) (waiters s))))"
    using filter_other_keys [of "waiters s" key ws] wf Some by (simp add: sub_wf_def waiting_def)
  ultimately show ?thesis
    using wf Some by (simp add: sub_wf_def settle_def waiting_def comp_def ac_simps)
qed (simp add: settle_def)

lemma settleAll_wf: "sub_wf s \<Longrightarrow> sub_wf (settleAll err s)"
proof -
  have "sub_wf s \<Longrightarrow> sub_wf (fold (\<lambda>key. settle key (Some err)) ks s)" for ks
    by (induction ks arbitrary: s) (simp_all add: sub_settle_wf)
  then show "sub_wf s \<Longrightarrow> sub_wf (settleAll err s)" by (simp add: settleAll_def)
qed

lemma append_waiter:
  assumes "distinct (map fst ws)" "map_of ws key \<noteq> None"
  shows "mset (concat (map snd (map (\<lambda>(k, x). if k = key then (k, x @ [w]) else (k, x)) ws))) =
    add_mset w (mset (concat (map snd ws)))"
  using assms
proof (induction ws)
  case Nil
  then show ?case by simp
next
  case (Cons v ws)
  obtain k x where v: "v = (k, x)" by (cases v)
  show ?case
  proof (cases "k = key")
    case True
    have "map (\<lambda>(k, x). if k = key then (k, x @ [w]) else (k, x)) ws = ws"
      using Cons.prems(1) v True by (intro map_idI) (auto simp: image_iff)
    then show ?thesis using v True by simp
  next
    case False
    then show ?thesis using Cons v by simp
  qed
qed

lemma confirmation_wf:
  assumes "sub_wf s"
  shows "sub_wf (confirmation key s)"
proof (cases "map_of (waiters s) key")
  case None
  then have "key \<notin> fst ` set (waiters s)"
    by (simp add: map_of_eq_None_iff)
  then show ?thesis
    using None assms by (auto simp: sub_wf_def confirmation_def waiting_def)
next
  case (Some ws)
  have "map fst (map (\<lambda>(k, x). if k = key then (k, x @ [nextWaiter s]) else (k, x)) (waiters s)) =
      map fst (waiters s)"
    by (induction "waiters s") (auto split: if_splits)
  then show ?thesis
    using Some assms append_waiter [of "waiters s" key "nextWaiter s"]
    by (simp add: sub_wf_def confirmation_def waiting_def del: map_map)
qed

lemma set_add_wf: "sub_wf s \<Longrightarrow> sub_wf (set_add ch s)"
  by (auto simp: sub_wf_def set_add_def waiting_def sorted_wrt_append less_Suc_eq)

lemma set_delete_wf: "sub_wf s \<Longrightarrow> sub_wf (set_delete ch s)"
  by (auto simp: sub_wf_def set_delete_def waiting_def sorted_wrt_map intro: sorted_wrt_filter)

lemma sendCommand_wf [simp]: "sub_wf (sendCommand cmd s) = sub_wf s"
  by (rule sub_wf_frame) (simp_all add: sendCommand_def)

lemma consume_frame_wf: "sub_wf s \<Longrightarrow> sub_wf (consume_frame f s)"
proof (cases f)
  case (Message ch p)
  assume "sub_wf s"
  then show ?thesis
    using Message by (simp add: consume_frame_def sub_wf_def waiting_def)
qed (simp_all add: consume_frame_def sub_settle_wf)

lemma notify_wf [simp]: "sub_wf (notifyReconnected c b r s) = sub_wf s"
  by (rule sub_wf_frame) (simp_all add: notifyReconnected_def)

lemma drop_restore_wf [simp]: "sub_wf (drop_restore mine s) = sub_wf s"
  by (rule sub_wf_frame) (simp_all add: drop_restore_def)

lemma restored_wf [simp]: "sub_wf (restored_ok c r s) = sub_wf s"
  by (simp add: restored_ok_def Let_def)

lemma restore_failed_wf: "sub_wf s \<Longrightarrow> sub_wf (restore_failed c r err s)"
proof -
  assume "sub_wf s"
  then have "sub_wf (settleAll err (drop_restore (r_mine r) s))"
    by (simp add: settleAll_wf)
  moreover have "sub_wf (s'\<lparr>sub_resets := n\<rparr>) = sub_wf s'" for s' n
    by (rule sub_wf_frame) simp_all
  ultimately show ?thesis
    using \<open>sub_wf s\<close> by (simp add: restore_failed_def Let_def)
qed

lemma restores_wf [simp]: "sub_wf (s\<lparr>restores := rs\<rparr>) = sub_wf s"
  by (rule sub_wf_frame) simp_all

lemma replay_wf [simp]: "sub_wf (replay_from c r rest s) = sub_wf s"
  by (cases rest) (auto simp: replay_from_def split: prod.splits)

lemma authenticated_wf [simp]: "sub_wf (restore_authenticated c r s) = sub_wf s"
  by (simp add: restore_authenticated_def)

lemma connected_wf [simp]: "sub_wf (connected c s) = sub_wf s"
proof -
  have "sub_wf (s\<lparr>everConnected := b, generation := g\<rparr>) = sub_wf s" for b g
    by (rule sub_wf_frame) simp_all
  then show ?thesis
    by (auto simp: connected_def Let_def split: option.splits)
qed

lemma sub_step_wf: "sub_wf s \<Longrightarrow> sub_wf (sub_step c e s)"
proof (cases e)
  case SubDisconnect
  assume "sub_wf s"
  then have "sub_wf (s\<lparr>channels := []\<rparr>)" by (simp add: sub_wf_def waiting_def)
  then show ?thesis using SubDisconnect by (simp add: sub_disconnect_def settleAll_wf)
next
  case (SubReplayed mine a)
  assume "sub_wf s"
  then show ?thesis
    using SubReplayed restore_failed_wf
    by (auto split: option.splits awaited.splits restore_stage.splits)
qed (auto simp: subscribe_def unsubscribe_def confirmation_wf set_add_wf set_delete_wf sub_settle_wf
    consume_frame_wf restore_failed_wf split: option.splits awaited.splits)

lemma sub_run_wf: "sub_wf (sub_run c es)"
proof -
  have "sub_wf s \<Longrightarrow> sub_wf (fold (sub_step c) es s)" for s
    by (induction es arbitrary: s) (simp_all add: sub_step_wf)
  then show ?thesis
    by (simp add: sub_run_def sub_wf_def createRedisSubscriber_def waiting_def)
qed

subsection \<open>The properties\<close>

text \<open>
  A published message survives the wire: parsing what a server pushes gives back exactly
  the channel and the payload and consumes exactly the frame, whatever characters they
  contain, line breaks and surrogate pairs included, and whatever follows.
\<close>

theorem message_roundtrip:
  "parsePushFrame (encode_array [Bulk (ascii ''message''), Bulk ch, Bulk payload] @ rest) =
     Inr (int (length (encode_array [Bulk (ascii ''message''), Bulk ch, Bulk payload])),
       Some (Message ch payload)) \<and>
   parsePushFrame (encode_array [Bulk (ascii ''subscribe''), Bulk ch, Line 58 (show_nat n)] @ rest) =
     Inr (int (length (encode_array [Bulk (ascii ''subscribe''), Bulk ch, Line 58 (show_nat n)])),
       Some (Subscription Subscribed ch (Some (int n))))"
proof -
  have ok: "\<forall>e\<in>set [Bulk (ascii ''message''), Bulk ch, Bulk payload]. element_ok e"
      "\<forall>e\<in>set [Bulk (ascii ''subscribe''), Bulk ch, Line 58 (show_nat n)]. element_ok e"
    using show_nat_line [of n] by simp_all
  have frames: "toFrame (map element_value [Bulk (ascii ''message''), Bulk ch, Bulk payload]) =
        Message ch payload"
      "toFrame (map element_value [Bulk (ascii ''subscribe''), Bulk ch, Line 58 (show_nat n)]) =
        Subscription Subscribed ch (Some (int n))"
    by (simp_all add: toFrame_def js_integer_show)
  show ?thesis
    using parse_complete [OF ok(1), of rest] parse_complete [OF ok(2), of rest] frames by simp
qed

text \<open>
  However the stream of replies is cut into chunks, the subscriber processes exactly the
  replies that have arrived whole, in order, and keeps the rest for the next chunk.
\<close>

theorem stream_chunking:
  assumes "\<forall>r\<in>set rs. reply_ok r" "reply_ok r'" "strict_prefix part (encode_array r')"
    "concat chunks = encodes rs @ part"
  shows "fold push_chunk chunks ([], s) = (part, fold (\<lambda>r. consume_frame (reply_frame r)) rs s)"
proof (rule chunks_stream [OF assms(2,3,1)])
  show "feed [] s = ([], s)" by (simp add: feed.simps)
qed (use assms(4) in simp)

lemma settle_keys: "map fst (waiters (settle key err s)) = filter (\<lambda>k. k \<noteq> key) (map fst (waiters s))"
proof (cases "map_of (waiters s) key")
  case None
  then have "key \<notin> fst ` set (waiters s)" by (simp add: map_of_eq_None_iff)
  then have "filter (\<lambda>k. k \<noteq> key) (map fst (waiters s)) = map fst (waiters s)"
    by (intro filter_True) auto
  with None show ?thesis by (simp add: settle_def)
next
  case (Some ws)
  then show ?thesis
    by (simp add: settle_def filter_map comp_def case_prod_unfold)
qed

lemma settle_folds_keys:
  "map fst (waiters (fold (\<lambda>key. settle key err) ks s)) = filter (\<lambda>k. k \<notin> set ks) (map fst (waiters s))"
  by (induction ks arbitrary: s) (auto simp: settle_keys intro: filter_cong)

text \<open>
  Every confirmation a caller waits for is settled at most once: in every reachable state
  it is waiting under one key or has been settled once, and a disconnect leaves none waiting.
\<close>

theorem confirmations_settle_once:
  "distinct (map fst (sub_settled (sub_run c es)) @ waiting (sub_run c es)) \<and>
   set (map fst (sub_settled (sub_run c es)) @ waiting (sub_run c es)) = {..<nextWaiter (sub_run c es)} \<and>
   waiters (sub_run c (es @ [SubDisconnect])) = []"
proof -
  let ?s = "sub_run c es"
  let ?ids = "map fst (sub_settled ?s) @ waiting ?s"
  have ids: "mset ?ids = mset [0..<nextWaiter ?s]"
    using sub_run_wf [of c es] by (simp add: sub_wf_def)
  then have "distinct ?ids"
    using mset_eq_imp_distinct_iff [OF ids] by simp
  moreover have "set ?ids = {..<nextWaiter ?s}"
    using mset_eq_setD [OF ids] by auto
  moreover have "map fst (waiters (sub_run c (es @ [SubDisconnect]))) = []"
    by (simp add: sub_run_def sub_disconnect_def settleAll_def settle_folds_keys)
  ultimately show ?thesis by simp
qed

text \<open>The replay loop, from the entry it has just sent to the end of the set.\<close>

definition subscribe_commands :: "(nat \<times> ustring) list \<Rightarrow> ustring list list" where
  "subscribe_commands cs = map (\<lambda>(_, ch). [ascii ''SUBSCRIBE'', ch]) cs"

lemma replay_step:
  assumes "restores s = r # rs" "r_mine r = generation s" "r_stage r = Replay st"
    "channels s = pre @ (st, ch) # rest" "sorted_wrt (<) (map fst (channels s))"
  shows "sub_step c (SubReplayed (generation s) (Answered ok)) s = replay_from c r rest s"
proof -
  have "filter (\<lambda>(st', _). st < st') (channels s) = rest"
  proof -
    have "filter (\<lambda>(st', _). st < st') pre = []"
      using assms(4,5) by (intro filter_none) (fastforce simp: sorted_wrt_append)
    moreover have "filter (\<lambda>(st', _). st < st') rest = rest"
      using assms(4,5) by (intro filter_True) (fastforce simp: sorted_wrt_append)
    ultimately show ?thesis using assms(4) by simp
  qed
  then show ?thesis
    using assms(1-3) by simp
qed

lemma replay_steps:
  assumes "sorted_wrt (<) (map fst (channels s))" "r_mine r = generation s" "r_reconnected r"
  shows "channels s = pre @ (st, ch) # rest \<Longrightarrow> restores s = r\<lparr>r_stage := Replay st\<rparr> # rs \<Longrightarrow>
    s' = fold (sub_step c) (replicate (Suc (length rest)) (SubReplayed (generation s) (Answered True))) s \<Longrightarrow>
    sub_sent s' = sub_sent s @ subscribe_commands rest \<and>
    sub_notices s' = sub_notices s @ (if has_onReconnected c then [(map snd (channels s), True)] else [])"
  using assms
proof (induction rest arbitrary: s pre st ch rs)
  case Nil
  have "sub_step c (SubReplayed (generation s) (Answered True)) s =
      replay_from c (r\<lparr>r_stage := Replay st\<rparr>) [] s"
    using Nil by (intro replay_step) auto
  then show ?case
    using Nil by (simp add: replay_from_def restored_ok_def drop_restore_def notifyReconnected_def
        subscribe_commands_def)
next
  case (Cons e rest)
  obtain st2 ch2 where e: "e = (st2, ch2)" by (cases e)
  define s1 where "s1 = sub_step c (SubReplayed (generation s) (Answered True)) s"
  have "s1 = replay_from c (r\<lparr>r_stage := Replay st\<rparr>) (e # rest) s"
    unfolding s1_def using Cons.prems by (intro replay_step) auto
  then have s1: "channels s1 = (pre @ [(st, ch)]) @ (st2, ch2) # rest" "generation s1 = generation s"
      "sub_sent s1 = sub_sent s @ [[ascii ''SUBSCRIBE'', ch2]]" "sub_notices s1 = sub_notices s"
      "\<exists>rs'. restores s1 = r\<lparr>r_stage := Replay st2\<rparr> # rs'" "channels s1 = channels s"
    using Cons.prems(1) e by (auto simp: replay_from_def sendCommand_def)
  then obtain rs' where "restores s1 = r\<lparr>r_stage := Replay st2\<rparr> # rs'" by blast
  moreover have "s' = fold (sub_step c)
      (replicate (Suc (length rest)) (SubReplayed (generation s1) (Answered True))) s1"
    using Cons.prems(3) s1(2) by (simp add: s1_def)
  ultimately have "sub_sent s' = sub_sent s1 @ subscribe_commands rest \<and>
      sub_notices s' = sub_notices s1 @
        (if has_onReconnected c then [(map snd (channels s1), True)] else [])"
    using Cons.IH [OF s1(1)] Cons.prems(4-6) s1(2,6) by simp
  then show ?case
    using s1 e by (simp add: subscribe_commands_def)
qed

text \<open>
  A reconnect replays the whole subscription set: once its \<open>AUTH\<close> and its writes have
  been answered, the commands sent are the \<open>AUTH\<close> and one \<open>SUBSCRIBE\<close> per subscribed channel
  in order, and the caller is told that everything is restored.
\<close>

theorem reconnect_replays_everything:
  assumes "s = sub_run c es" "everConnected s" "sub_password c = Some p" "sub_username c = None"
    and "s' = fold (sub_step c)
      (SubConnected # SubAuth (Suc (generation s)) (Answered True) #
       replicate (length (channels s)) (SubReplayed (Suc (generation s)) (Answered True))) s"
  shows "sub_sent s' = sub_sent s @ [[ascii ''AUTH'', p]] @ subscribe_commands (channels s) \<and>
    sub_notices s' = sub_notices s @ (if has_onReconnected c then [(map snd (channels s), True)] else [])"
proof -
  define s1 where "s1 = sub_step c SubConnected s"
  define r where "r = \<lparr>r_mine = Suc (generation s), r_reconnected = True, r_stage = AwaitAuth\<rparr>"
  define s2 where "s2 = sub_step c (SubAuth (Suc (generation s)) (Answered True)) s1"
  have s1: "restores s1 = r # restores s" "generation s1 = Suc (generation s)" "channels s1 = channels s"
      "sub_sent s1 = sub_sent s @ [[ascii ''AUTH'', p]]" "sub_notices s1 = sub_notices s"
    using assms(2-4) by (simp_all add: s1_def connected_def Let_def sendCommand_def r_def)
  have s2: "s2 = replay_from c r (channels s1) s1"
    using s1 by (simp add: s2_def r_def restore_authenticated_def)
  have s': "s' = fold (sub_step c)
      (replicate (length (channels s)) (SubReplayed (Suc (generation s)) (Answered True))) s2"
    using assms(5) by (simp add: s1_def s2_def)
  show ?thesis
  proof (cases "channels s")
    case Nil
    then show ?thesis
      using s' s2 s1
      by (simp add: replay_from_def restored_ok_def drop_restore_def notifyReconnected_def
          subscribe_commands_def r_def)
  next
    case (Cons e rest)
    obtain st ch where e: "e = (st, ch)" by (cases e)
    have f: "channels s2 = [] @ (st, ch) # rest" "generation s2 = Suc (generation s)"
        "sub_sent s2 = sub_sent s1 @ [[ascii ''SUBSCRIBE'', ch]]" "sub_notices s2 = sub_notices s"
        "restores s2 = r\<lparr>r_stage := Replay st\<rparr> # filter (\<lambda>q. r_mine q \<noteq> r_mine r) (restores s1)"
        "channels s2 = channels s"
      using s1 s2 Cons e by (simp_all add: replay_from_def sendCommand_def)
    have "sorted_wrt (<) (map fst (channels s2))"
      using sub_run_wf [of c es] f(6) assms(1) by (simp add: sub_wf_def)
    then have "sub_sent s' = sub_sent s2 @ subscribe_commands rest \<and>
        sub_notices s' = sub_notices s2 @
          (if has_onReconnected c then [(map snd (channels s2), True)] else [])"
      using replay_steps [OF _ _ _ f(1,5), of s' c] s' f(2) Cons by (simp add: r_def)
    then show ?thesis
      using f s1 Cons e by (simp add: subscribe_commands_def)
  qed
qed

subsection \<open>Witnesses\<close>

definition demoReply :: "element list" where
  "demoReply = [Bulk (ascii ''message''), Bulk (ascii ''c''), Bulk [0xD83D, 0xDE00, 13, 10]]"

theorem stream_chunking_witness:
  "fold push_chunk [take 5 (encode_array demoReply), drop 5 (encode_array demoReply) @ [42]]
     ([], createRedisSubscriber) =
   ([42], createRedisSubscriber\<lparr>sub_delivered := [(ascii ''c'', [0xD83D, 0xDE00, 13, 10])]\<rparr>)"
proof -
  have "reply_ok demoReply" by (simp add: reply_ok_def demoReply_def)
  moreover have "strict_prefix [42] (encode_array demoReply)"
    by (simp add: encode_array_def strict_prefix_def crlf_def)
  moreover have "concat [take 5 (encode_array demoReply), drop 5 (encode_array demoReply) @ [42]] =
      encodes [demoReply] @ [42]"
    by simp
  ultimately have "fold push_chunk [take 5 (encode_array demoReply), drop 5 (encode_array demoReply) @ [42]]
      ([], createRedisSubscriber) =
      ([42], fold (\<lambda>r. consume_frame (reply_frame r)) [demoReply] createRedisSubscriber)"
    by (intro stream_chunking [of "[demoReply]" demoReply "[42]"]) simp_all
  moreover have "reply_frame demoReply = Message (ascii ''c'') [0xD83D, 0xDE00, 13, 10]"
    by (simp add: reply_frame_def demoReply_def toFrame_def)
  ultimately show ?thesis
    by (simp add: consume_frame_def createRedisSubscriber_def)
qed

definition demoSub :: subscriber_options where
  "demoSub = \<lparr>sub_password = Some (ascii ''pw''), sub_username = None, has_onReconnected = True\<rparr>"

theorem reconnect_replays_everything_witness:
  "sub_notices (fold (sub_step demoSub)
      [SubConnected, SubAuth 2 (Answered True), SubReplayed 2 (Answered True)]
      (sub_run demoSub [SubSubscribe (ascii ''c''), SubConnected])) = [([ascii ''c''], True)]"
proof -
  let ?s = "sub_run demoSub [SubSubscribe (ascii ''c''), SubConnected]"
  have s: "everConnected ?s" "generation ?s = 1" "channels ?s = [(0, ascii ''c'')]" "sub_notices ?s = []"
    by code_simp+
  have c: "sub_password demoSub = Some (ascii ''pw'')" "sub_username demoSub = None" "has_onReconnected demoSub"
    by (simp_all add: demoSub_def)
  show ?thesis
    using reconnect_replays_everything [OF refl s(1) c(1,2) refl] s(2-4) c(3)
    by (simp add: numeral_2_eq_2 del: sub_step.simps)
qed

end
