(* ===== verification/Redis_Protocol.thy ===== *)
theory Redis_Protocol
  imports Redis_Push_Frame Text_Match
begin

section \<open>Commands and replies (naive-redis: exchange/, send.ts and the commands)\<close>

text \<open>
  How a command is written and how its reply is recognised and decoded. Regular expressions
  are functions that give the first capture group of the first match; \<open>throw\<close> is \<open>Inl\<close>. The
  lemmas show that a serialized command carries exactly its arguments, and that the matchers
  take exactly one reply off the connection.
\<close>

subsection \<open>Writing commands (serialize.ts, inline.ts, quote.ts)\<close>

text \<open>A control character, \<open>\p{Cc}\<close>, and a character the inline form can carry.\<close>

definition is_control :: "u16 \<Rightarrow> bool" where
  "is_control u \<longleftrightarrow> u \<le> 0x1F \<or> (0x7F \<le> u \<and> u \<le> 0x9F)"

definition inlineSafe :: "ustring \<Rightarrow> bool" where
  "inlineSafe part \<longleftrightarrow> part \<noteq> [] \<and>
     list_all (\<lambda>u. \<not> is_space u \<and> u \<noteq> 34 \<and> u \<noteq> 39 \<and> u \<noteq> 92 \<and> \<not> is_control u) part"

definition maxInlineRequestLength :: nat where
  "maxInlineRequestLength = 2 ^ 16"

definition serializeCommand :: "ustring list \<Rightarrow> ustring" where
  "serializeCommand command =
     (let totalLength = sum_list (map length command) in
      if totalLength \<le> maxInlineRequestLength \<and> list_all inlineSafe command
      then join [32] command
      else join crlf ((42 # show_nat (length command)) #
             concat (map (\<lambda>part. [36 # show_nat (byteLength part), part]) command)) @ crlf)"

definition quoteArg :: "ustring \<Rightarrow> ustring" where
  "quoteArg v = 34 # json_chars v @ [34]"

datatype inline_arg = Text ustring | Num int

fun formatArg :: "inline_arg \<Rightarrow> ustring" where
  "formatArg (Num i) = show_int i"
| "formatArg (Text t) = quoteArg t"

definition inlineCommand :: "ustring \<Rightarrow> inline_arg list \<Rightarrow> ustring list option \<Rightarrow> ustring" where
  "inlineCommand name args lst =
     (let head = join [32] (name # map formatArg args) in
      case lst of None \<Rightarrow> head | Some l \<Rightarrow> head @ [32] @ join [32] (map quoteArg l))"

subsection \<open>Recognising one reply (reply.ts)\<close>

definition lastValue :: "u16 text_match \<Rightarrow> ustring option" where
  "lastValue m = (case rev (tm_values m) of [] \<Rightarrow> None | v # _ \<Rightarrow> Some v)"

definition starts :: "u16 \<Rightarrow> ustring \<Rightarrow> bool" where
  "starts u s \<longleftrightarrow> s \<noteq> [] \<and> hd s = u"

text \<open>\<open>Number.parseInt(s, 10)\<close>: the digits at the front, \<open>NaN\<close> is \<open>None\<close>.\<close>

definition parse_int :: "ustring \<Rightarrow> int option" where
  "parse_int s0 =
     (let s = dropWhile is_space s0;
          (neg, r) = (case s of u # t \<Rightarrow> if u = 45 then (True, t) else if u = 43 then (False, t) else (False, s)
                      | [] \<Rightarrow> (False, []));
          ds = takeWhile is_digit r
      in if ds = [] then None
         else Some (if neg then - int (digits_value ds) else int (digits_value ds)))"

definition null_bulk :: ustring where
  "null_bulk = ascii ''$-1''"

definition capture_element :: "u16 text_match_chain" where
  "capture_element m =
     (let m1 = capture crlf m in
      case lastValue m1 of
        None \<Rightarrow> m1
      | Some element \<Rightarrow>
          (if starts 36 element \<and> element \<noteq> null_bulk then capture crlf m1 else m1))"

definition captureReply :: "u16 text_match_chain" where
  "captureReply m =
     (let m1 = capture crlf m in
      case lastValue m1 of
        None \<Rightarrow> m1
      | Some header \<Rightarrow>
          (if starts 36 header then (if header = null_bulk then m1 else capture crlf m1)
           else if starts 42 header then
             (case parse_int (drop 1 header) of
                None \<Rightarrow> m1
              | Some count \<Rightarrow> (capture_element ^^ nat count) m1)
           else m1))"

datatype ReplyKind = Status | Error | Integer | BulkReply | Array | Unknown

definition replyKind :: "ustring option \<Rightarrow> ReplyKind" where
  "replyKind header =
     (case header of
        None \<Rightarrow> Unknown
      | Some h \<Rightarrow>
          (if starts 43 h then Status else if starts 45 h then Error else if starts 58 h then Integer
           else if starts 36 h then BulkReply else if starts 42 h then Array else Unknown))"

subsection \<open>Decoding replies (ensureValue.ts, singleGet.ts, singleCount.ts, singleInteger.ts, multipleGet.ts, ok.ts)\<close>

datatype redis_error =
    EmptyResponse | RedisError ustring | NotExpected ustring | NotInteger ReplyKind
  | MismatchLength | InvalidPassword | SendError ustring

definition nth_opt :: "'a list \<Rightarrow> nat \<Rightarrow> 'a option" where
  "nth_opt xs i = (if i < length xs then Some (xs ! i) else None)"

definition ensureGet :: "ustring list \<Rightarrow> nat \<Rightarrow> redis_error + ustring" where
  "ensureGet result index =
     (case nth_opt result index of
        None \<Rightarrow> Inl EmptyResponse
      | Some value \<Rightarrow>
          (if value = [] then Inl EmptyResponse
           else if starts 45 value
           then Inl (RedisError (case nth_opt result 0 of None \<Rightarrow> [] | Some r \<Rightarrow> r))
           else Inr value))"

text \<open>\<open>RegExp.exec\<close> of an unanchored expression: the first place where it matches.\<close>

fun re_exec :: "(ustring \<Rightarrow> ustring option) \<Rightarrow> ustring \<Rightarrow> ustring option" where
  "re_exec m [] = m []"
| "re_exec m (u # us) = (case m (u # us) of Some r \<Rightarrow> Some r | None \<Rightarrow> re_exec m us)"

definition ensureValue :: "ustring list \<Rightarrow> nat \<Rightarrow> (ustring \<Rightarrow> ustring option) \<Rightarrow> redis_error + ustring" where
  "ensureValue result index expected =
     (case ensureGet result index of
        Inl e \<Rightarrow> Inl e
      | Inr value \<Rightarrow>
          (case re_exec expected value of
             None \<Rightarrow> Inl (NotExpected value)
           | Some g \<Rightarrow> Inr g))"

text \<open>\<open>/<mark>([0-9]+)/\<close>, \<open>/<mark>(-?[0-9]+)/\<close>, \<open>/\+(OK)/\<close> and \<open>/(\+OK|\$-1)/\<close> at one place.\<close>

definition re_digits :: "u16 \<Rightarrow> ustring \<Rightarrow> ustring option" where
  "re_digits mark s =
     (let ds = takeWhile is_digit (drop 1 s) in if starts mark s \<and> ds \<noteq> [] then Some ds else None)"

definition re_signed :: "u16 \<Rightarrow> ustring \<Rightarrow> ustring option" where
  "re_signed mark s =
     (let r = drop 1 s; neg = starts 45 r; ds = takeWhile is_digit (if neg then drop 1 r else r)
      in if starts mark s \<and> ds \<noteq> [] then Some (if neg then 45 # ds else ds) else None)"

definition re_ok :: "ustring \<Rightarrow> ustring option" where
  "re_ok s = (if prefix (ascii ''+OK'') s then Some (ascii ''OK'') else None)"

definition re_ok_or_null :: "ustring \<Rightarrow> ustring option" where
  "re_ok_or_null s =
     (if prefix (ascii ''+OK'') s then Some (ascii ''+OK'')
      else if prefix null_bulk s then Some null_bulk else None)"

definition ok_match :: "u16 text_match_chain" where
  "ok_match m = capture crlf m"

definition ok_transform :: "ustring list \<Rightarrow> redis_error + bool" where
  "ok_transform result = map_sum id (\<lambda>v. v = ascii ''OK'') (ensureValue result 0 re_ok)"

definition set_transform :: "ustring list \<Rightarrow> redis_error + bool" where
  "set_transform result = map_sum id (\<lambda>v. v = ascii ''+OK'') (ensureValue result 0 re_ok_or_null)"

definition singleCount_transform :: "ustring list \<Rightarrow> redis_error + nat" where
  "singleCount_transform result = map_sum id digits_value (ensureValue result 0 (re_digits 58))"

definition singleGet_match :: "u16 text_match_chain" where
  "singleGet_match m =
     (let m1 = capture crlf m in
      case nth_opt (tm_values m1) 0 of
        None \<Rightarrow> m1
      | Some first \<Rightarrow> if first = [] \<or> first = null_bulk \<or> starts 45 first then m1 else capture crlf m1)"

definition singleGet_transform :: "ustring list \<Rightarrow> redis_error + ustring option" where
  "singleGet_transform result =
     map_sum id (\<lambda>len. if len = ascii ''-1'' then None else nth_opt result 1)
       (ensureValue result 0 (re_signed 36))"

definition singleInteger_transform :: "ustring list \<Rightarrow> redis_error + int option" where
  "singleInteger_transform result =
     (let header = nth_opt result 0; kind = replyKind header in
      if kind = Error then Inl (RedisError (case header of None \<Rightarrow> [] | Some h \<Rightarrow> h))
      else if kind \<noteq> Integer then Inl (NotInteger kind)
      else Inr (parse_int (drop 1 (case header of None \<Rightarrow> [] | Some h \<Rightarrow> h))))"

definition multipleGet_match :: "u16 text_match_chain" where
  "multipleGet_match m =
     (let m1 = capture crlf m in
      case nth_opt (tm_values m1) 0 of
        None \<Rightarrow> m1
      | Some first \<Rightarrow>
          (if first = [] \<or> first = ascii ''*0'' \<or> starts 45 first then m1
           else case js_integer (drop 1 first) of
             None \<Rightarrow> m1
           | Some count \<Rightarrow> ((\<lambda>m. capture crlf (capture crlf m)) ^^ nat count) m1))"

fun even_values :: "nat \<Rightarrow> ustring list \<Rightarrow> ustring list" where
  "even_values i [] = []"
| "even_values i (v # vs) = (if i \<noteq> 0 \<and> i mod 2 = 0 then v # even_values (Suc i) vs else even_values (Suc i) vs)"

definition multipleGet_transform :: "ustring list \<Rightarrow> redis_error + ustring list" where
  "multipleGet_transform result =
     (case ensureValue result 0 (re_digits 42) of
        Inl e \<Rightarrow> Inl e
      | Inr len \<Rightarrow>
          (let values = even_values 0 result in
           if digits_value len \<noteq> length values then Inl MismatchLength else Inr values))"

subsection \<open>Sending a command (send.ts)\<close>

definition isAuthenticationError :: "ustring \<Rightarrow> bool" where
  "isAuthenticationError response \<longleftrightarrow>
     prefix (ascii ''-NOAUTH'') response \<or> prefix (ascii ''-WRONGPASS'') response"

text \<open>
  The connection: \<open>rc_send\<close> is the socket's \<open>send\<close> with a match chain, \<open>rc_authenticated\<close> the
  pending authentication, awaited by \<open>rc_await\<close> and forgotten by \<open>rc_forget\<close>.
\<close>

record 'w RedisConnection =
  rc_send :: "ustring \<Rightarrow> u16 text_match_chain \<Rightarrow> int \<Rightarrow> bool \<Rightarrow> (redis_error, ustring, 'w) eff"
  rc_disconnect :: "ustring option \<Rightarrow> 'w \<Rightarrow> 'w"
  rc_authenticated :: "'w \<Rightarrow> bool"
  rc_await :: "(redis_error, bool, 'w) eff"
  rc_forget :: "'w \<Rightarrow> 'w"
  rc_timeoutMillis :: int

record 'a RedisSendOptions =
  so_commands :: "ustring list"
  so_match :: "u16 text_match_chain"
  so_transform :: "ustring list \<Rightarrow> redis_error + 'a"
  so_urgent :: bool
  so_timeoutMillis :: "int option"
  so_recoverAuthentication :: bool

definition decode_response :: "'a RedisSendOptions \<Rightarrow> ustring \<Rightarrow> redis_error + 'a" where
  "decode_response p response = so_transform p (tm_values (so_match p (createTextMatch response)))"

definition of_result :: "redis_error + 'a \<Rightarrow> (redis_error, 'a, 'w) eff" where
  "of_result r = (case r of Inl e \<Rightarrow> throw_eff e | Inr a \<Rightarrow> return_eff a)"

fun doSend :: "nat \<Rightarrow> 'w RedisConnection \<Rightarrow> 'a RedisSendOptions \<Rightarrow> (redis_error, 'a, 'w) eff" where
  "doSend retries c p =
     bind_eff
       (rc_send c (join crlf (so_commands p) @ crlf) (so_match p)
          (case so_timeoutMillis p of None \<Rightarrow> rc_timeoutMillis c | Some t \<Rightarrow> t) (so_urgent p))
       (\<lambda>response.
          if so_recoverAuthentication p \<and> isAuthenticationError response then
            bind_eff (get_eff (rc_authenticated c)) (\<lambda>hasCredentials.
              then_eff (modify_eff (rc_forget c))
                (then_eff (modify_eff (rc_disconnect c (Some (trim response))))
                  (case retries of
                     Suc k \<Rightarrow> if hasCredentials then doSend k c p else of_result (decode_response p response)
                   | 0 \<Rightarrow> of_result (decode_response p response))))
          else of_result (decode_response p response))"

declare doSend.simps [simp del]

definition redisSend :: "'w RedisConnection \<Rightarrow> 'a RedisSendOptions \<Rightarrow> (redis_error, 'a, 'w) eff" where
  "redisSend c p =
     bind_eff (get_eff (rc_authenticated c)) (\<lambda>pending.
       if pending then
         bind_eff (rc_await c) (\<lambda>success.
           if \<not> success then throw_eff InvalidPassword else doSend 1 c p)
       else doSend 1 c p)"

subsection \<open>The commands\<close>

definition plain :: "ustring \<Rightarrow> u16 text_match_chain \<Rightarrow> (ustring list \<Rightarrow> redis_error + 'a) \<Rightarrow> 'a RedisSendOptions" where
  "plain command matcher transform =
     \<lparr>so_commands = [command], so_match = matcher, so_transform = transform, so_urgent = False,
      so_timeoutMillis = None, so_recoverAuthentication = True\<rparr>"

definition singleCount :: "ustring \<Rightarrow> nat RedisSendOptions" where
  "singleCount command = plain command (capture crlf) singleCount_transform"

definition singleGet :: "ustring \<Rightarrow> ustring option RedisSendOptions" where
  "singleGet command = plain command singleGet_match singleGet_transform"

definition multipleGet :: "ustring \<Rightarrow> ustring list RedisSendOptions" where
  "multipleGet command = plain command multipleGet_match multipleGet_transform"

definition redis_ok :: "ustring \<Rightarrow> bool RedisSendOptions" where
  "redis_ok command = plain command ok_match ok_transform"

definition singleInteger :: "ustring \<Rightarrow> bool \<Rightarrow> int option RedisSendOptions" where
  "singleInteger command urgent =
     (plain command captureReply singleInteger_transform)\<lparr>so_urgent := urgent\<rparr>"

definition redisAuth :: "ustring \<Rightarrow> ustring option \<Rightarrow> int option \<Rightarrow> bool RedisSendOptions" where
  "redisAuth password username timeout =
     (redis_ok (serializeCommand (case username of
          Some u \<Rightarrow> [ascii ''AUTH'', u, password] | None \<Rightarrow> [ascii ''AUTH'', password])))
       \<lparr>so_urgent := True, so_timeoutMillis := timeout, so_recoverAuthentication := False\<rparr>"

datatype onlySet = NX | XX

definition redisSet :: "ustring \<Rightarrow> ustring \<Rightarrow> int option \<Rightarrow> onlySet option \<Rightarrow> bool RedisSendOptions" where
  "redisSet key v expirationMillis only =
     plain
       (serializeCommand ([ascii ''SET'', key, v] @
          (case expirationMillis of None \<Rightarrow> [] | Some ms \<Rightarrow> [ascii ''PX'', show_int ms]) @
          (case only of None \<Rightarrow> [] | Some NX \<Rightarrow> [ascii ''NX''] | Some XX \<Rightarrow> [ascii ''XX''])))
       (capture crlf) set_transform"

definition redisGet :: "ustring \<Rightarrow> ustring option RedisSendOptions" where
  "redisGet key = singleGet (inlineCommand (ascii ''GET'') [Text key] None)"

definition redisDel :: "ustring list \<Rightarrow> nat RedisSendOptions" where
  "redisDel keys = singleCount (inlineCommand (ascii ''DEL'') [] (Some keys))"

definition redisExists :: "ustring list \<Rightarrow> nat RedisSendOptions" where
  "redisExists keys = singleCount (inlineCommand (ascii ''EXISTS'') [] (Some keys))"

text \<open>\<open>redisExpire\<close> refuses an amount of seconds that is not positive; seconds are integers here.\<close>

definition redisExpire :: "ustring \<Rightarrow> int \<Rightarrow> nat RedisSendOptions option" where
  "redisExpire key seconds =
     (if seconds \<le> 0 then None
      else Some (singleCount (serializeCommand [ascii ''EXPIRE'', key, show_int seconds])))"

definition redisIncr :: "ustring \<Rightarrow> nat RedisSendOptions" where
  "redisIncr key = singleCount (inlineCommand (ascii ''INCR'') [Text key] None)"

definition redisPublish :: "ustring \<Rightarrow> ustring \<Rightarrow> nat RedisSendOptions" where
  "redisPublish channel msg = singleCount (serializeCommand [ascii ''PUBLISH'', channel, msg])"

definition redisRpush :: "ustring \<Rightarrow> ustring list \<Rightarrow> nat RedisSendOptions" where
  "redisRpush key vs = singleCount (inlineCommand (ascii ''RPUSH'') [Text key] (Some vs))"

definition redisLpop :: "ustring \<Rightarrow> ustring option RedisSendOptions" where
  "redisLpop key = singleGet (inlineCommand (ascii ''LPOP'') [Text key] None)"

definition redisLrange :: "ustring \<Rightarrow> int \<Rightarrow> int \<Rightarrow> ustring list RedisSendOptions" where
  "redisLrange key start stop = multipleGet (inlineCommand (ascii ''LRANGE'') [Text key, Num start, Num stop] None)"

definition redisLlen :: "ustring \<Rightarrow> nat RedisSendOptions" where
  "redisLlen key = singleCount (inlineCommand (ascii ''LLEN'') [Text key] None)"

definition redisLindex :: "ustring \<Rightarrow> int \<Rightarrow> ustring option RedisSendOptions" where
  "redisLindex key pos = singleGet (inlineCommand (ascii ''LINDEX'') [Text key, Num pos] None)"

definition redisLtrim :: "ustring \<Rightarrow> int \<Rightarrow> int \<Rightarrow> bool RedisSendOptions" where
  "redisLtrim key start stop = redis_ok (inlineCommand (ascii ''LTRIM'') [Text key, Num start, Num stop] None)"

definition redisSadd :: "ustring \<Rightarrow> ustring list \<Rightarrow> nat RedisSendOptions" where
  "redisSadd key vs = singleCount (inlineCommand (ascii ''SADD'') [Text key] (Some vs))"

definition redisSrem :: "ustring \<Rightarrow> ustring list \<Rightarrow> nat RedisSendOptions" where
  "redisSrem key vs = singleCount (inlineCommand (ascii ''SREM'') [Text key] (Some vs))"

definition redisSmembers :: "ustring \<Rightarrow> ustring list RedisSendOptions" where
  "redisSmembers key = multipleGet (inlineCommand (ascii ''SMEMBERS'') [Text key] None)"

definition redisEval :: "ustring \<Rightarrow> ustring list \<Rightarrow> ustring list \<Rightarrow> bool \<Rightarrow> int option RedisSendOptions" where
  "redisEval script keys args urgent =
     singleInteger (serializeCommand ([ascii ''EVAL'', script, show_nat (length keys)] @ keys @ args)) urgent"

subsection \<open>What a command says\<close>

text \<open>
  A decoder for the proofs below: the words of a line, or the parts of an array, which it reads with the
  parser of the push frames; and the commands as \<open>doSend\<close> writes them, one after another.
\<close>

fun split_blank :: "ustring \<Rightarrow> ustring list" where
  "split_blank [] = [[]]"
| "split_blank (u # us) =
     (if u = 32 then [] # split_blank us
      else case split_blank us of [] \<Rightarrow> [[u]] | w # ws \<Rightarrow> (u # w) # ws)"

definition next_command :: "ustring \<Rightarrow> (ustring list \<times> ustring) option" where
  "next_command s =
     (case readLine s 0 of
        None \<Rightarrow> None
      | Some (line, nxt) \<Rightarrow>
          (if \<not> starts 42 line then Some (split_blank line, drop nxt s)
           else case js_integer (drop 1 line) of
             None \<Rightarrow> None
           | Some n \<Rightarrow>
               (case readParts (nat n) s nxt [] of
                  Inr (Some (parts, pos)) \<Rightarrow> Some (map the parts, drop (pos + 2) s)
                | _ \<Rightarrow> None)))"

definition command_line :: "ustring list \<Rightarrow> ustring" where
  "command_line command = join crlf [serializeCommand command] @ crlf"

definition command_lines :: "ustring list list \<Rightarrow> ustring" where
  "command_lines commands = concat (map command_line commands)"

text \<open>A command has a name, which does not start with \<open>*\<close>.\<close>

definition proper :: "ustring list \<Rightarrow> bool" where
  "proper command \<longleftrightarrow> command \<noteq> [] \<and> \<not> starts 42 (hd command)"

lemma split_blank_word:
  assumes "32 \<notin> set w"
  shows "split_blank w = [w]" "split_blank (w @ 32 # r) = w # split_blank r"
proof -
  show "split_blank w = [w]"
    using assms by (induction w) auto
  show "split_blank (w @ 32 # r) = w # split_blank r"
    using assms by (induction w) auto
qed

lemma split_blank_join:
  "ws \<noteq> [] \<Longrightarrow> \<forall>w\<in>set ws. 32 \<notin> set w \<Longrightarrow> split_blank (join [32] ws) = ws"
proof (induction ws)
  case Nil
  then show ?case by simp
next
  case (Cons w ws)
  show ?case
  proof (cases ws)
    case Nil
    then show ?thesis using Cons.prems split_blank_word(1) by (simp add: join_def)
  next
    case (Cons v vs)
    have "join [32] (w # ws) = w @ 32 # join [32] ws"
      using Cons by (simp add: join_def)
    then show ?thesis
      using Cons.IH Cons.prems Cons split_blank_word(2) [of w "join [32] ws"] by simp
  qed
qed

lemma spaces: "is_space 32" "is_space 13" "is_space 10"
  by (simp_all add: is_space_def word_le_nat_alt)

lemma inlineSafe_plain:
  assumes "inlineSafe w" "u \<in> set w"
  shows "u \<noteq> 32" "u \<noteq> 13" "u \<noteq> 10"
proof -
  have "\<not> is_space u"
    using assms unfolding inlineSafe_def list_all_iff by blast
  then show "u \<noteq> 32" "u \<noteq> 13" "u \<noteq> 10"
    using spaces by metis+
qed

lemma array_form:
  "join crlf ((42 # show_nat (length command)) #
     concat (map (\<lambda>part. [36 # show_nat (byteLength part), part]) command)) @ crlf =
   encode_array (map Bulk command)"
proof -
  have "concat (map (\<lambda>q. crlf @ q) (concat (map (\<lambda>part. [36 # show_nat (byteLength part), part]) c))) @ crlf =
      crlf @ concat (map encode (map Bulk c))" for c
    by (induction c) simp_all
  then show ?thesis
    by (simp add: join_def encode_array_def)
qed

lemma array_parts:
  "\<exists>nxt. readLine (encode_array (map Bulk command) @ rest) 0 = Some (42 # show_nat (length command), nxt) \<and>
     readParts (length command) (encode_array (map Bulk command) @ rest) nxt [] =
       Inr (Some (map Some command, length (encode_array (map Bulk command))))"
proof -
  let ?pre = "42 # show_nat (length command) @ crlf"
  have "readParts (length (map Bulk command)) (?pre @ concat (map encode (map Bulk command)) @ rest)
      (length ?pre) [] = Inr (Some ([] @ map element_value (map Bulk command),
        length ?pre + length (concat (map encode (map Bulk command)))))"
    by (rule readParts_complete) simp
  moreover have "map element_value (map Bulk command) = map Some command"
    by simp
  moreover have "readLine (encode_array (map Bulk command) @ rest) 0 =
      Some (42 # show_nat (length command), length ?pre)"
    using array_line [of "length command"] by (simp add: encode_array_def)
  ultimately show ?thesis
    by (intro exI [of _ "length ?pre"]) (simp add: encode_array_def)
qed

definition inline_form :: "ustring list \<Rightarrow> bool" where
  "inline_form command \<longleftrightarrow> sum_list (map length command) \<le> maxInlineRequestLength \<and> list_all inlineSafe command"

lemma serialize_forms:
  "inline_form command \<Longrightarrow> serializeCommand command = join [32] command"
  "\<not> inline_form command \<Longrightarrow> serializeCommand command = encode_array (map Bulk command)"
  unfolding serializeCommand_def Let_def array_form inline_form_def by (rule if_P, assumption) (rule if_not_P, assumption)

lemma join_chars: "u \<in> set (join [32] ws) \<Longrightarrow> u = 32 \<or> (\<exists>w \<in> set ws. u \<in> set w)"
  by (cases ws) (auto simp: join_def split: if_splits)

lemma next_line_command:
  assumes "proper command"
  shows "next_command (command_line command @ rest) = Some (command, rest)"
proof (cases "inline_form command")
  case True
  let ?line = "join [32] command"
  have words: "\<forall>w\<in>set command. 32 \<notin> set w" and no_end: "13 \<notin> set ?line"
    using True inlineSafe_plain(1,2) join_chars [of 13 command] unfolding inline_form_def list_all_iff by fastforce+
  have "hd command \<noteq> []" "command \<noteq> []"
    using True assms by (cases command; simp add: inline_form_def inlineSafe_def proper_def)+
  then have "\<not> starts 42 ?line"
    using assms by (cases command) (auto simp: proper_def join_def starts_def)
  moreover have "readLine (command_line command @ rest) 0 = Some (?line, length ?line + 2)"
    using readLine_complete [OF no_end, of "[]" rest] True by (simp add: command_line_def join_def serialize_forms crlf_def)
  moreover have "drop (length ?line + 2) (command_line command @ rest) = rest"
    using True by (simp add: command_line_def join_def serialize_forms crlf_def)
  ultimately show ?thesis
    using split_blank_join [OF \<open>command \<noteq> []\<close> words] by (simp add: next_command_def)
next
  case False
  let ?text = "encode_array (map Bulk command)"
  have command_line: "command_line command @ rest = ?text @ crlf @ rest"
    using False by (simp add: command_line_def join_def serialize_forms)
  have "drop (length ?text + 2) (?text @ crlf @ rest) = rest" by (simp add: crlf_def)
  then show ?thesis
    using array_parts [of command "crlf @ rest"]
    by (auto simp: next_command_def command_line starts_def js_integer_show comp_def)
qed

lemma command_lines_unique:
  "\<forall>c \<in> set cs \<union> set ds. proper c \<Longrightarrow> command_lines cs = command_lines ds \<Longrightarrow> cs = ds"
proof (induction cs arbitrary: ds)
  case Nil
  then show ?case by (cases ds) (auto simp: command_lines_def command_line_def crlf_def)
next
  case (Cons c cs)
  show ?case
  proof (cases ds)
    case Nil
    then show ?thesis using Cons.prems by (auto simp: command_lines_def command_line_def crlf_def)
  next
    case (Cons d ds')
    have "Some (c, command_lines cs) = next_command (command_lines (c # cs))"
      using Cons.prems(1) by (simp add: command_lines_def next_line_command)
    also have "\<dots> = Some (d, command_lines ds')"
      unfolding Cons.prems(2) using Cons.prems(1) Cons by (simp add: command_lines_def next_line_command)
    finally show ?thesis using Cons.IH [of ds'] Cons.prems(1) Cons by simp
  qed
qed

text \<open>
  C40: No argument can break out of its command: two sequences of commands that are written as the same
  text are the same sequence, whatever characters their arguments contain. A command is a plain line only
  when none of its words is empty or has a blank, a quote, a backslash or a control character; otherwise it
  is an array, from which the parser of this package takes exactly the arguments by their lengths in bytes.
\<close>

theorem commands_cannot_be_forged:
  assumes "\<forall>c \<in> set cs \<union> set ds. proper c" "command_lines cs = command_lines ds"
  shows "cs = ds \<and> (\<forall>c \<in> set cs.
    serializeCommand c = join [32] c \<and>
      (\<forall>w \<in> set c. w \<noteq> [] \<and> (\<forall>u \<in> set w. 0x20 < u \<and> u \<notin> {34, 39, 92} \<and> \<not> (0x7F \<le> u \<and> u \<le> 0x9F))) \<or>
    (\<exists>nxt. readLine (serializeCommand c) 0 = Some (42 # show_nat (length c), nxt) \<and>
       readParts (length c) (serializeCommand c) nxt [] = Inr (Some (map Some c, length (serializeCommand c)))))"
proof -
  have plain: "w \<noteq> [] \<and> (\<forall>u \<in> set w. 0x20 < u \<and> u \<notin> {34, 39, 92} \<and> \<not> (0x7F \<le> u \<and> u \<le> 0x9F))"
    if "inline_form c" "w \<in> set c" for c w
  proof -
    have safe: "inlineSafe w" using that by (simp add: inline_form_def list_all_iff)
    have "0x20 < u" if "u \<noteq> 0x20" "\<not> u \<le> 0x1F" for u :: u16
      using that by unat_arith
    then show ?thesis
      using safe inlineSafe_plain(1) [OF safe] by (auto simp: inlineSafe_def list_all_iff is_control_def)
  qed
  have "serializeCommand c = join [32] c \<and>
      (\<forall>w \<in> set c. w \<noteq> [] \<and> (\<forall>u \<in> set w. 0x20 < u \<and> u \<notin> {34, 39, 92} \<and> \<not> (0x7F \<le> u \<and> u \<le> 0x9F))) \<or>
    (\<exists>nxt. readLine (serializeCommand c) 0 = Some (42 # show_nat (length c), nxt) \<and>
       readParts (length c) (serializeCommand c) nxt [] = Inr (Some (map Some c, length (serializeCommand c))))" for c
    using plain [of c] array_parts [of c "[]"] by (cases "inline_form c") (simp_all add: serialize_forms)
  then show ?thesis using command_lines_unique [OF assms] by blast
qed

subsection \<open>Taking one reply off the connection\<close>

text \<open>A value that the line-based matchers can read back: it does not contain a line break.\<close>

definition one_line :: "ustring \<Rightarrow> bool" where
  "one_line v \<longleftrightarrow> find_sub crlf (v @ crlf) = Some (length v)"

lemma one_line_simple: "13 \<notin> set v \<Longrightarrow> one_line v"
  using find_line [of v "[]"] by (simp add: one_line_def)

lemma one_line_find: "one_line v \<Longrightarrow> find_sub crlf (v @ crlf @ rest) = Some (length v)"
  using find_sub_extend [of crlf "v @ crlf" "length v" rest] by (simp add: one_line_def)

text \<open>The scanner stands after \<open>pre\<close>, with \<open>rest\<close> unread.\<close>

definition at :: "u16 text_match \<Rightarrow> ustring \<Rightarrow> ustring \<Rightarrow> bool" where
  "at m pre rest \<longleftrightarrow> \<not> tm_error m \<and> tm_buffer m = pre @ rest \<and> tm_pos m = int (length pre)"

lemma at_start: "at (createTextMatch b) [] b"
  by (simp add: at_def createTextMatch_def)

lemma at_capture:
  assumes "at m pre (v @ crlf @ rest)" "one_line v"
  shows "at (capture crlf m) (pre @ v @ crlf) rest" "captured (capture crlf m) = captured m @ [v]"
proof -
  have "capture crlf m = m\<lparr>captured := captured m @ [v], tm_pos := int (length (pre @ v @ crlf)), tm_error := False\<rparr>"
    using assms by (intro capture_value one_line_find) (simp_all add: at_def)
  then show "at (capture crlf m) (pre @ v @ crlf) rest" "captured (capture crlf m) = captured m @ [v]"
    using assms(1) by (simp_all add: at_def)
qed

text \<open>Elements whose text these matchers can delimit.\<close>

fun line_element :: "element \<Rightarrow> bool" where
  "line_element (Bulk v) \<longleftrightarrow> one_line v"
| "line_element NullBulk \<longleftrightarrow> True"
| "line_element (Line m s) \<longleftrightarrow> m \<noteq> 36 \<and> m \<noteq> 13 \<and> 13 \<notin> set s"

lemma header_one_line: "one_line (36 # show_nat n)"
  using show_nat_line by (intro one_line_simple) simp

lemma header_not_null: "36 # show_nat n \<noteq> null_bulk"
proof
  assume "36 # show_nat n = null_bulk"
  then have "45 \<in> set (show_nat n)" by (simp add: null_bulk_def)
  then show False using show_nat_plain [of 45 n] by (simp add: is_digit_def)
qed

lemma at_element:
  assumes "at m pre (encode e @ rest)" "line_element e"
  shows "at (capture_element m) (pre @ encode e) rest"
proof (cases e)
  case (Bulk v)
  have m1: "at (capture crlf m) (pre @ (36 # show_nat (byteLength v)) @ crlf) (v @ crlf @ rest)"
      "captured (capture crlf m) = captured m @ [36 # show_nat (byteLength v)]"
    using at_capture [OF _ header_one_line, of m pre "byteLength v" "v @ crlf @ rest"] assms(1) Bulk
    by simp_all
  then show ?thesis
    using at_capture(1) [OF m1(1)] assms(2) Bulk header_not_null
    by (simp add: capture_element_def lastValue_def tm_values_def starts_def Let_def)
next
  case NullBulk
  have "one_line null_bulk" by (intro one_line_simple) (simp add: null_bulk_def)
  then have m1: "at (capture crlf m) (pre @ null_bulk @ crlf) rest"
      "captured (capture crlf m) = captured m @ [null_bulk]"
    using at_capture [of m pre null_bulk rest] assms(1) NullBulk by (simp_all add: null_bulk_def)
  then show ?thesis
    using NullBulk by (simp add: capture_element_def lastValue_def tm_values_def Let_def null_bulk_def)
next
  case (Line mk s)
  have "one_line (mk # s)" using assms(2) Line by (intro one_line_simple) auto
  then have m1: "at (capture crlf m) (pre @ (mk # s) @ crlf) rest"
      "captured (capture crlf m) = captured m @ [mk # s]"
    using at_capture [of m pre "mk # s" rest] assms(1) Line by simp_all
  then show ?thesis
    using Line assms(2)
    by (simp add: capture_element_def lastValue_def tm_values_def Let_def starts_def)
qed

lemma at_elements:
  "at m pre (concat (map encode es) @ rest) \<Longrightarrow> \<forall>e\<in>set es. line_element e \<Longrightarrow>
   at ((capture_element ^^ length es) m) (pre @ concat (map encode es)) rest"
proof (induction es arbitrary: m pre)
  case Nil
  then show ?case by simp
next
  case (Cons e es)
  have "at (capture_element m) (pre @ encode e) (concat (map encode es) @ rest)"
    using Cons.prems by (intro at_element) simp_all
  then have "at ((capture_element ^^ length es) (capture_element m))
      ((pre @ encode e) @ concat (map encode es)) rest"
    using Cons.prems(2) by (intro Cons.IH) simp_all
  then show ?case by (simp add: funpow_swap1)
qed

lemma parse_int_show: "parse_int (show_nat n) = Some (int n)"
proof -
  obtain u r where s: "show_nat n = u # r" and d: "list_all is_digit (u # r)" "digits_value (u # r) = n"
    using show_nat_digits [of n] by (cases "show_nat n") auto
  have u: "\<not> is_space u" "u \<noteq> 45" "u \<noteq> 43"
    using d(1) digit_not_space [of u] by (auto simp: is_digit_def)
  have "takeWhile is_digit r = r" "is_digit u"
    using d(1) by (simp_all add: list_all_iff)
  then show ?thesis
    using u d(2) s by (simp add: parse_int_def Let_def del: takeWhile_eq_all_conv)
qed

text \<open>The replies that \<open>captureReply\<close> frames: a single element or a flat array.\<close>

datatype reply = One element | Many "element list"

fun encode_reply :: "reply \<Rightarrow> ustring" where
  "encode_reply (One e) = encode e"
| "encode_reply (Many es) = encode_array es"

fun reply_lines :: "reply \<Rightarrow> bool" where
  "reply_lines (One e) \<longleftrightarrow> line_element e \<and> (\<forall>s. e \<noteq> Line 42 s)"
| "reply_lines (Many es) \<longleftrightarrow> (\<forall>e\<in>set es. line_element e)"

lemma capture_element_reply:
  assumes "line_element e" "\<forall>s. e \<noteq> Line 42 s" "at m pre (encode e @ rest)"
  shows "captureReply m = capture_element m"
proof (cases e)
  case (Bulk v)
  have "captured (capture crlf m) = captured m @ [36 # show_nat (byteLength v)]"
    using at_capture(2) [OF _ header_one_line, of m pre "byteLength v" "v @ crlf @ rest"] assms(3) Bulk
    by simp
  then show ?thesis
    using header_not_null
    by (simp add: captureReply_def capture_element_def lastValue_def tm_values_def starts_def Let_def)
next
  case NullBulk
  have "one_line null_bulk" by (intro one_line_simple) (simp add: null_bulk_def)
  then have "captured (capture crlf m) = captured m @ [null_bulk]"
    using at_capture(2) [of m pre null_bulk rest] assms(3) NullBulk by (simp add: null_bulk_def)
  then show ?thesis
    by (simp add: captureReply_def capture_element_def lastValue_def tm_values_def starts_def Let_def
        null_bulk_def)
next
  case (Line mk s)
  have "one_line (mk # s)" using assms(1) Line by (intro one_line_simple) auto
  then have "captured (capture crlf m) = captured m @ [mk # s]"
    using at_capture(2) [of m pre "mk # s" rest] assms(3) Line by simp
  then show ?thesis
    using Line assms(1,2)
    by (simp add: captureReply_def capture_element_def lastValue_def tm_values_def starts_def Let_def)
qed

lemma at_reply:
  assumes "reply_lines r" "at m pre (encode_reply r @ rest)"
  shows "at (captureReply m) (pre @ encode_reply r) rest"
proof (cases r)
  case (One e)
  then show ?thesis
    using assms at_element [of m pre e rest] capture_element_reply [of e m pre rest] by simp
next
  case (Many es)
  let ?h = "42 # show_nat (length es)"
  have "one_line ?h" using show_nat_line by (intro one_line_simple) simp
  then have m1: "at (capture crlf m) (pre @ ?h @ crlf) (concat (map encode es) @ rest)"
      "captured (capture crlf m) = captured m @ [?h]"
    using at_capture [of m pre ?h "concat (map encode es) @ rest"] assms(2) Many
    by (simp_all add: encode_array_def)
  then have "captureReply m = (capture_element ^^ length es) (capture crlf m)"
    using parse_int_show [of "length es"]
    by (simp add: captureReply_def lastValue_def tm_values_def starts_def Let_def)
  then show ?thesis
    using at_elements [OF m1(1)] assms(1) Many by (simp add: encode_array_def)
qed

lemma good_element: "good_chain capture_element"
proof -
  let ?g = "\<lambda>v m1. case (case rev v of [] \<Rightarrow> None | x # _ \<Rightarrow> Some x) of
      None \<Rightarrow> m1
    | Some el \<Rightarrow> (if starts 36 el \<and> el \<noteq> null_bulk then capture crlf m1 else m1)"
  have "good_chain (?g v)" for v
  proof (cases "rev v")
    case Nil
    then show ?thesis using good_id by simp
  next
    case (Cons a t)
    then show ?thesis
      by (cases "starts 36 a"; cases "a = null_bulk") (simp_all add: good_id good_capture del: rev_eq_Cons_iff)
  qed
  then have "good_chain (\<lambda>m. ?g (captured (capture crlf m)) (capture crlf m))"
    by (rule good_bind [OF good_capture, where g = ?g])
  moreover have "capture_element = (\<lambda>m. ?g (captured (capture crlf m)) (capture crlf m))"
    by (rule ext) (simp add: capture_element_def lastValue_def tm_values_def Let_def)
  ultimately show ?thesis
    by (simp only:)
qed

lemma good_power: "good_chain f \<Longrightarrow> good_chain (f ^^ n)"
proof (induction n)
  case 0
  then show ?case using good_id by (simp add: id_def)
next
  case (Suc n)
  then show ?case using good_comp [of "f ^^ n" f] by (simp add: comp_def)
qed

lemma good_reply: "good_chain captureReply"
proof -
  let ?g = "\<lambda>v m1. case (case rev v of [] \<Rightarrow> None | x # _ \<Rightarrow> Some x) of
      None \<Rightarrow> m1
    | Some h \<Rightarrow>
        (if starts 36 h then (if h = null_bulk then m1 else capture crlf m1)
         else if starts 42 h then
           (case parse_int (drop 1 h) of None \<Rightarrow> m1 | Some n \<Rightarrow> (capture_element ^^ nat n) m1)
         else m1)"
  have "good_chain (?g v)" for v
  proof (cases "rev v")
    case Nil
    then show ?thesis using good_id by simp
  next
    case (Cons h t)
    then show ?thesis
      using good_id good_capture good_power [OF good_element]
      by (cases "starts 36 h"; cases "h = null_bulk"; cases "starts 42 h"; cases "parse_int (drop 1 h)")
        (simp_all del: rev_eq_Cons_iff drop_Suc_Cons One_nat_def)
  qed
  then have "good_chain (\<lambda>m. ?g (captured (capture crlf m)) (capture crlf m))"
    by (rule good_bind [OF good_capture, where g = ?g])
  moreover have "captureReply = (\<lambda>m. ?g (captured (capture crlf m)) (capture crlf m))"
    by (rule ext) (simp add: captureReply_def lastValue_def tm_values_def Let_def)
  ultimately show ?thesis
    by (simp only:)
qed

interpretation replies: response_matcher "withMatch captureReply"
  by (rule good_matcher [OF good_reply])

lemma encode_pos: "0 < length (encode e)"
  by (cases e) simp_all

lemma reply_pos: "0 < length (encode_reply r)"
  using encode_pos by (cases r) (simp_all add: encode_array_def del: length_greater_0_conv)

lemma reply_length:
  "reply_lines r \<Longrightarrow> withMatch captureReply (encode_reply r @ rest) = int (length (encode_reply r))"
  using at_reply [of r _ "[]" rest] at_start [of "encode_reply r @ rest"]
  by (simp add: withMatch_def evaluate_def at_def)

text \<open>
  \<open>captureReply\<close> takes exactly one reply off the connection, whatever its type and
  whatever follows it, and takes nothing while the reply is incomplete: the next command
  starts at a reply boundary.
\<close>

theorem captureReply_frames_one_reply:
  assumes "reply_lines r"
  shows "withMatch captureReply (encode_reply r @ rest) = int (length (encode_reply r)) \<and>
    (\<forall>b. strict_prefix b (encode_reply r) \<longrightarrow> withMatch captureReply b \<le> 0)"
proof -
  have "withMatch captureReply b \<le> 0" if b: "strict_prefix b (encode_reply r)" for b
  proof (rule ccontr)
    assume "\<not> withMatch captureReply b \<le> 0"
    then have pos: "0 < withMatch captureReply b" by simp
    obtain t where t: "encode_reply r = b @ t" using b by (auto simp: strict_prefix_def prefix_def)
    have "withMatch captureReply b = int (length (encode_reply r))"
      using replies.stable [OF pos, of t] reply_length [OF assms, of "[]"] t by simp
    moreover have "withMatch captureReply b \<le> int (length b)"
      by (rule replies.bound [OF pos])
    moreover have "length b < length (encode_reply r)"
      by (rule prefix_length_less [OF b])
    ultimately show False by simp
  qed
  with reply_length [OF assms] show ?thesis by blast
qed

subsection \<open>What the commands answer\<close>

lemma digits_front:
  "list_all is_digit ds \<Longrightarrow> ds \<noteq> [] \<Longrightarrow>
   (let xs = takeWhile is_digit ds in if xs \<noteq> [] then Some (f xs) else None) = Some (f ds)"
proof -
  assume a: "list_all is_digit ds" "ds \<noteq> []"
  have "takeWhile is_digit ds = ds" using a(1) by (simp add: list_all_iff)
  with a(2) show ?thesis by (simp only: Let_def if_True simp_thms)
qed

lemma re_exec_front: "m s = Some r \<Longrightarrow> re_exec m s = Some r"
  by (cases s) simp_all

lemma count_answer:
  "singleCount_transform [58 # show_nat n] = Inr n"
proof -
  have d: "list_all is_digit (show_nat n)" "show_nat n \<noteq> []" "digits_value (show_nat n) = n"
    using show_nat_digits [of n] by auto
  have "re_digits 58 (58 # show_nat n) = Some (show_nat n)"
    using digits_front [OF d(1,2), of "\<lambda>x. x"] by (simp add: re_digits_def starts_def)
  then show ?thesis
    using re_exec_front d(3)
    by (simp add: singleCount_transform_def ensureValue_def ensureGet_def nth_opt_def starts_def)
qed

lemma get_answer:
  "singleGet_transform [36 # show_nat n, v] = Inr (Some v)"
  "singleGet_transform [null_bulk] = Inr None"
proof -
  have d: "list_all is_digit (show_nat n)" "show_nat n \<noteq> []"
    using show_nat_digits [of n] by auto
  have front: "\<not> starts 45 (show_nat n)"
    using show_nat_plain [of 45 n] by (cases "show_nat n") (auto simp: starts_def is_digit_def)
  have "re_signed 36 (36 # show_nat n) = Some (show_nat n)"
    using digits_front [OF d, of "\<lambda>x. x"] front d(2)
    by (simp add: re_signed_def starts_def Let_def del: takeWhile_eq_all_conv split: if_splits)
  moreover have "show_nat n \<noteq> ascii ''-1''"
    using front by (auto simp: starts_def)
  ultimately show "singleGet_transform [36 # show_nat n, v] = Inr (Some v)"
    using re_exec_front
    by (simp add: singleGet_transform_def ensureValue_def ensureGet_def nth_opt_def starts_def)
  show "singleGet_transform [null_bulk] = Inr None" by code_simp
qed

lemma get_bulk:
  assumes "one_line v"
  shows "at (singleGet_match (createTextMatch (encode (Bulk v) @ r))) (encode (Bulk v)) r"
    "captured (singleGet_match (createTextMatch (encode (Bulk v) @ r))) = [36 # show_nat (byteLength v), v]"
proof -
  let ?m = "createTextMatch (encode (Bulk v) @ r)"
  have m1: "at (capture crlf ?m) ((36 # show_nat (byteLength v)) @ crlf) (v @ crlf @ r)"
      "captured (capture crlf ?m) = [36 # show_nat (byteLength v)]"
    using at_capture [OF _ header_one_line, of ?m "[]" "byteLength v" "v @ crlf @ r"] at_start
    by (simp_all add: createTextMatch_def)
  then have "singleGet_match ?m = capture crlf (capture crlf ?m)"
    using header_not_null by (simp add: singleGet_match_def tm_values_def nth_opt_def starts_def Let_def)
  then show "at (singleGet_match ?m) (encode (Bulk v)) r"
      "captured (singleGet_match ?m) = [36 # show_nat (byteLength v), v]"
    using at_capture [OF m1(1) assms] m1(2) by simp_all
qed

lemma get_line:
  assumes "one_line h" "h = null_bulk \<or> starts 45 h"
  shows "at (singleGet_match (createTextMatch (h @ crlf @ r))) (h @ crlf) r"
    "captured (singleGet_match (createTextMatch (h @ crlf @ r))) = [h]"
proof -
  let ?m = "createTextMatch (h @ crlf @ r)"
  have m1: "at (capture crlf ?m) (h @ crlf) r" "captured (capture crlf ?m) = [h]"
    using at_capture [OF _ assms(1), of ?m "[]" r] at_start by (simp_all add: createTextMatch_def)
  then have "singleGet_match ?m = capture crlf ?m"
    using assms(2) by (auto simp: singleGet_match_def tm_values_def nth_opt_def Let_def)
  with m1 show "at (singleGet_match ?m) (h @ crlf) r" "captured (singleGet_match ?m) = [h]"
    by simp_all
qed

lemma null_one_line: "one_line null_bulk"
  by (intro one_line_simple) (simp add: null_bulk_def)

lemma error_starts: "starts 45 (45 # err)"
  by (simp add: starts_def)

lemma encode_null: "encode NullBulk = null_bulk @ crlf"
  by (simp add: null_bulk_def)

lemma match_length:
  "at (matcher (createTextMatch (pre @ r))) pre r \<Longrightarrow> withMatch matcher (pre @ r) = int (length pre)"
  by (simp add: withMatch_def evaluate_def at_def)

lemma get_decoded:
  "captured (singleGet_match (createTextMatch pre)) = c \<Longrightarrow>
   decode_response (redisGet key) pre = singleGet_transform c"
  by (simp add: decode_response_def redisGet_def singleGet_def plain_def tm_values_def)

lemma get_bulk_decoded:
  "one_line v \<Longrightarrow> decode_response (redisGet key) (encode (Bulk v)) = Inr (Some v)"
  using get_decoded [OF get_bulk(2) [of v "[]", unfolded append_Nil2]] get_answer(1) by metis

lemma get_null_decoded: "decode_response (redisGet key) (encode NullBulk) = Inr None"
  using get_decoded [OF get_line(2) [OF null_one_line disjI1 [OF refl], of "[]", unfolded append_Nil2]]
    get_answer(2)
  unfolding encode_null by metis

lemma get_error_decoded:
  assumes "one_line (45 # err)"
  shows "decode_response (redisGet key) (encode (Line 45 err)) = Inl (RedisError (45 # err))"
proof -
  have "singleGet_transform [45 # err] = Inl (RedisError (45 # err))"
    by (simp add: singleGet_transform_def ensureValue_def ensureGet_def nth_opt_def starts_def)
  then show ?thesis
    using get_decoded [OF get_line(2) [OF assms disjI2 [OF error_starts], of "[]", unfolded append_Nil2]]
    by simp
qed

text \<open>
  A value read back is the value stored: from the reply to a \<open>GET\<close> with any value that
  has no line break, also an empty one, followed by anything, the command takes exactly this
  reply and answers the value; a missing key answers null, and an error reply throws it.
\<close>

theorem get_answers_the_value:
  assumes "one_line v" "13 \<notin> set err"
  shows "withMatch singleGet_match (encode (Bulk v) @ rest) = int (length (encode (Bulk v))) \<and>
    decode_response (redisGet key) (encode (Bulk v)) = Inr (Some v) \<and>
    withMatch singleGet_match (encode NullBulk @ rest) = int (length (encode NullBulk)) \<and>
    decode_response (redisGet key) (encode NullBulk) = Inr None \<and>
    withMatch singleGet_match (encode (Line 45 err) @ rest) = int (length (encode (Line 45 err))) \<and>
    decode_response (redisGet key) (encode (Line 45 err)) = Inl (RedisError (45 # err))"
proof -
  have err: "one_line (45 # err)" using assms(2) by (intro one_line_simple) simp
  have "withMatch singleGet_match (encode (Bulk v) @ rest) = int (length (encode (Bulk v)))"
    by (rule match_length [of singleGet_match, OF get_bulk(1) [OF assms(1)]])
  moreover have "withMatch singleGet_match (encode NullBulk @ rest) = int (length (encode NullBulk))"
    using match_length [of singleGet_match "null_bulk @ crlf"] get_line(1) [OF null_one_line disjI1 [OF refl]]
    unfolding encode_null by (simp only: append_assoc)
  moreover have "withMatch singleGet_match (encode (Line 45 err) @ rest) = int (length (encode (Line 45 err)))"
    using match_length [of singleGet_match "(45 # err) @ crlf"] get_line(1) [OF err disjI2 [OF error_starts]]
    by (simp only: append_assoc encode.simps append.simps)
  ultimately show ?thesis
    using get_bulk_decoded [OF assms(1)] get_null_decoded get_error_decoded [OF err] by blast
qed

subsection \<open>Witnesses\<close>

theorem commands_cannot_be_forged_witness:
  "\<exists>nxt. readLine (serializeCommand [ascii ''SET'', ascii ''key'', [120, 13, 10, 42]]) 0 = Some (ascii ''*3'', nxt) \<and>
     readParts 3 (serializeCommand [ascii ''SET'', ascii ''key'', [120, 13, 10, 42]]) nxt [] =
       Inr (Some (map Some [ascii ''SET'', ascii ''key'', [120, 13, 10, 42]],
         length (serializeCommand [ascii ''SET'', ascii ''key'', [120, 13, 10, 42]])))"
proof -
  let ?c = "[ascii ''SET'', ascii ''key'', [120, 13, 10, 42 :: u16]]"
  have "proper ?c" by (simp add: proper_def starts_def)
  then have "\<forall>c \<in> set [?c] \<union> set [?c]. proper c" by simp
  from commands_cannot_be_forged [OF this refl]
  have "\<exists>nxt. readLine (serializeCommand ?c) 0 = Some (42 # show_nat (length ?c), nxt) \<and>
     readParts (length ?c) (serializeCommand ?c) nxt [] = Inr (Some (map Some ?c, length (serializeCommand ?c)))"
    by auto
  moreover have "42 # show_nat (length ?c) = ascii ''*3''" by code_simp
  moreover have "length ?c = 3" by simp
  ultimately show ?thesis by metis
qed

theorem captureReply_frames_one_reply_witness:
  "withMatch captureReply (encode_reply (Many [Bulk (ascii ''ab''), NullBulk, Line 58 (ascii ''7'')]) @ [43]) = 21"
proof -
  have "one_line (ascii ''ab'')" by (intro one_line_simple) simp
  then have "reply_lines (Many [Bulk (ascii ''ab''), NullBulk, Line 58 (ascii ''7'')])"
    by simp
  moreover have "length (encode_reply (Many [Bulk (ascii ''ab''), NullBulk, Line 58 (ascii ''7'')])) = 21"
    by code_simp
  ultimately show ?thesis
    using captureReply_frames_one_reply
      [of "Many [Bulk (ascii ''ab''), NullBulk, Line 58 (ascii ''7'')]" "[43]"]
    by (simp only: of_nat_numeral)
qed

theorem get_answers_the_value_witness:
  "decode_response (redisGet (ascii ''k'')) (encode (Bulk (ascii ''v''))) = Inr (Some (ascii ''v''))"
proof -
  have "one_line (ascii ''v'')" by (intro one_line_simple) simp
  moreover have "13 \<notin> set (ascii ''x'')" by simp
  ultimately show ?thesis
    using get_answers_the_value [of "ascii ''v''" "ascii ''x''" "[]" "ascii ''k''"] by blast
qed

end
