(* ===== verification/Redis_Client.thy ===== *)
theory Redis_Client
  imports Redis_Protocol
begin

section \<open>Connections and the simple client (naive-redis: connection.ts and simple/)\<close>

text \<open>
  The life of the automatic \<open>AUTH\<close> of a connection as events on \<open>auth_state\<close>, and the simple
  client, which opens a connection per operation. The lemmas show that an \<open>AUTH\<close> that
  outlived its socket never tears a newer one down, how a command recovers from a lost
  authentication, and that the cache answers what it stored without computing it again.
\<close>

subsection \<open>Authentication of a connection (connection.ts)\<close>

text \<open>
  \<open>as_authenticated\<close> is the promise of the \<open>AUTH\<close> of the current socket, by its number;
  \<open>as_sent\<close> and \<open>as_disconnects\<close> record the urgent commands and the disconnects.
\<close>

datatype auth_outcome = AuthAnswered bool | AuthRejected ustring

record auth_state =
  as_authenticated :: "nat option"
  as_next :: nat
  as_sent :: "bool RedisSendOptions list"
  as_disconnects :: "redis_error list"

record RedisConnectionOptions =
  co_username :: "ustring option"
  co_password :: "ustring option"
  co_timeoutMillis :: int
  co_authTimeoutMillis :: "int option"

definition authTimeoutMillis :: "RedisConnectionOptions \<Rightarrow> int" where
  "authTimeoutMillis c =
     (case co_authTimeoutMillis c of Some t \<Rightarrow> t | None \<Rightarrow> max (co_timeoutMillis c) 5000)"

definition createRedisConnection :: auth_state where
  "createRedisConnection =
     \<lparr>as_authenticated = None, as_next = 0, as_sent = [], as_disconnects = []\<rparr>"

definition onConnected :: "RedisConnectionOptions \<Rightarrow> auth_state \<Rightarrow> auth_state" where
  "onConnected c s =
     (case co_password c of
        None \<Rightarrow> s
      | Some password \<Rightarrow>
          (if password = [] then s
           else s\<lparr>as_authenticated := Some (as_next s), as_next := Suc (as_next s),
                 as_sent := as_sent s @
                   [redisAuth password (co_username c) (Some (authTimeoutMillis c))]\<rparr>))"

definition auth_settled :: "nat \<Rightarrow> auth_outcome \<Rightarrow> auth_state \<Rightarrow> auth_state" where
  "auth_settled mine out s =
     (let failed = (\<lambda>e. if as_authenticated s \<noteq> Some mine then s
                        else s\<lparr>as_authenticated := None, as_disconnects := as_disconnects s @ [e]\<rparr>)
      in case out of
           AuthAnswered success \<Rightarrow> if success then s else failed InvalidPassword
         | AuthRejected e \<Rightarrow> failed (SendError e))"

text \<open>\<open>redisSend\<close> forgets the authentication and drops the socket when a command is refused.\<close>

datatype conn_event = Connected | Settled nat auth_outcome | Refused ustring

fun conn_step :: "RedisConnectionOptions \<Rightarrow> conn_event \<Rightarrow> auth_state \<Rightarrow> auth_state" where
  "conn_step c Connected s = onConnected c s"
| "conn_step c (Settled mine out) s = auth_settled mine out s"
| "conn_step c (Refused reply) s =
     s\<lparr>as_authenticated := None, as_disconnects := as_disconnects s @ [SendError (trim reply)]\<rparr>"

definition conn_run :: "RedisConnectionOptions \<Rightarrow> conn_event list \<Rightarrow> auth_state" where
  "conn_run c es = fold (conn_step c) es createRedisConnection"

subsection \<open>One connection per operation (simple/)\<close>

text \<open>\<open>connect\<close> stands for \<open>createRedisConnection\<close> with the configuration.\<close>

definition redisSimpleWork ::
  "(redis_error, 'w RedisConnection, 'w) eff \<Rightarrow> ('w RedisConnection \<Rightarrow> (redis_error, 'r, 'w) eff) \<Rightarrow>
   (redis_error, 'r, 'w) eff" where
  "redisSimpleWork connect work =
     bind_eff connect (\<lambda>connection.
       finally_eff (work connection) (modify_eff (rc_disconnect connection None)))"

definition redisSimpleGet ::
  "(redis_error, 'w RedisConnection, 'w) eff \<Rightarrow> ustring \<Rightarrow> (ustring \<Rightarrow> redis_error + 'r) \<Rightarrow>
   (redis_error, 'r option, 'w) eff" where
  "redisSimpleGet connect key dec =
     redisSimpleWork connect (\<lambda>connection.
       bind_eff (redisSend connection (redisGet key)) (\<lambda>maybe.
         case maybe of
           None \<Rightarrow> return_eff None
         | Some text \<Rightarrow> if text = [] then return_eff None else of_result (map_sum id Some (dec text))))"

definition redisSimpleSet ::
  "(redis_error, 'w RedisConnection, 'w) eff \<Rightarrow> ustring \<Rightarrow> 'r \<Rightarrow> int option \<Rightarrow> ('r \<Rightarrow> ustring) \<Rightarrow>
   (redis_error, bool, 'w) eff" where
  "redisSimpleSet connect key v expirationMillis enc =
     redisSimpleWork connect (\<lambda>connection.
       redisSend connection (redisSet key (enc v) expirationMillis None))"

definition redisSimpleDel ::
  "(redis_error, 'w RedisConnection, 'w) eff \<Rightarrow> ustring \<Rightarrow> (redis_error, nat, 'w) eff" where
  "redisSimpleDel connect key =
     redisSimpleWork connect (\<lambda>connection. redisSend connection (redisDel [key]))"

record ('a, 'r, 'w) cache_options =
  ch_connect :: "(redis_error, 'w RedisConnection, 'w) eff"
  ch_cacheKey :: "'a \<Rightarrow> ustring"
  ch_expirationMillis :: "int option"
  ch_decode :: "ustring \<Rightarrow> redis_error + 'r"
  ch_encode :: "'r \<Rightarrow> ustring"

definition computeIfAbsent ::
  "('a, 'r, 'w) cache_options \<Rightarrow> ('a \<Rightarrow> (redis_error, 'r, 'w) eff) \<Rightarrow> 'a \<Rightarrow> (redis_error, 'r, 'w) eff" where
  "computeIfAbsent opt fn args =
     (let key = ch_cacheKey opt args in
      redisSimpleWork (ch_connect opt) (\<lambda>connection.
        bind_eff (redisSend connection (redisGet key)) (\<lambda>maybe.
          case maybe of
            Some text \<Rightarrow> of_result (ch_decode opt text)
          | None \<Rightarrow>
              bind_eff (fn args) (\<lambda>result.
                then_eff
                  (redisSend connection (redisSet key (ch_encode opt result) (ch_expirationMillis opt) None))
                  (return_eff result)))))"

definition cache_refresh ::
  "('a, 'r, 'w) cache_options \<Rightarrow> ('a \<Rightarrow> (redis_error, 'r, 'w) eff) \<Rightarrow> 'a \<Rightarrow> (redis_error, unit, 'w) eff" where
  "cache_refresh opt fn args =
     bind_eff (fn args) (\<lambda>result.
       then_eff (redisSimpleSet (ch_connect opt) (ch_cacheKey opt args) result (ch_expirationMillis opt) (ch_encode opt))
         (return_eff ()))"

definition cache_clear :: "('a, 'r, 'w) cache_options \<Rightarrow> 'a \<Rightarrow> (redis_error, unit, 'w) eff" where
  "cache_clear opt args =
     then_eff (redisSimpleDel (ch_connect opt) (ch_cacheKey opt args)) (return_eff ())"

definition cache_peek :: "('a, 'r, 'w) cache_options \<Rightarrow> 'a \<Rightarrow> (redis_error, 'r option, 'w) eff" where
  "cache_peek opt args = redisSimpleGet (ch_connect opt) (ch_cacheKey opt args) (ch_decode opt)"

text \<open>\<open>createRedisSimple\<close> puts its prefix in front of the keys of its caches.\<close>

definition simple_cache_options ::
  "(redis_error, 'w RedisConnection, 'w) eff \<Rightarrow> ustring \<Rightarrow> ('a \<Rightarrow> ustring) \<Rightarrow> int option \<Rightarrow>
   (ustring \<Rightarrow> redis_error + 'r) \<Rightarrow> ('r \<Rightarrow> ustring) \<Rightarrow> ('a, 'r, 'w) cache_options" where
  "simple_cache_options connect keyPrefix cacheKey expirationMillis dec enc =
     \<lparr>ch_connect = connect, ch_cacheKey = (\<lambda>args. keyPrefix @ cacheKey args),
      ch_expirationMillis = expirationMillis, ch_decode = dec, ch_encode = enc\<rparr>"

subsection \<open>One command on a connection\<close>

lemma send_plain:
  assumes "\<not> rc_authenticated c w" "\<not> isAuthenticationError response"
    and "rc_send c (join crlf (so_commands p) @ crlf) (so_match p)
      (case so_timeoutMillis p of None \<Rightarrow> rc_timeoutMillis c | Some t \<Rightarrow> t) (so_urgent p) w =
      Some (Inr response, w')"
  shows "redisSend c p w = Some (decode_response p response, w')"
  using assms
  by (simp add: redisSend_def doSend.simps eff_defs of_result_def split: sum.splits)

text \<open>
  A lost authentication is recovered once: when a command on an authenticated connection
  is refused, the socket is dropped and the command is sent again, and the second answer is
  what the caller gets, also when it is a refusal.
\<close>

theorem refused_command_is_retried_once:
  assumes "rc_authenticated c w" "rc_await c w = Some (Inr True, w1)" "so_recoverAuthentication p"
    and "so_timeoutMillis p = Some t" "isAuthenticationError r1" "rc_authenticated c w2"
    and "rc_send c (join crlf (so_commands p) @ crlf) (so_match p) t (so_urgent p) w1 = Some (Inr r1, w2)"
    and "rc_send c (join crlf (so_commands p) @ crlf) (so_match p) t (so_urgent p)
      (rc_disconnect c (Some (trim r1)) (rc_forget c w2)) = Some (Inr r2, w3)"
  shows "redisSend c p w = Some (decode_response p r2,
    if isAuthenticationError r2 then rc_disconnect c (Some (trim r2)) (rc_forget c w3) else w3)"
  using assms
  by (simp add: redisSend_def doSend.simps eff_defs of_result_def split: sum.splits)

subsection \<open>Authentications that outlive their socket\<close>

lemma conn_run_below:
  "as_authenticated (conn_run c es) = Some n \<Longrightarrow> n < as_next (conn_run c es)"
proof (induction es rule: rev_induct)
  case Nil
  then show ?case by (simp add: conn_run_def createRedisConnection_def)
next
  case (snoc e es)
  then show ?case
    by (cases e)
      (auto simp: conn_run_def onConnected_def auth_settled_def Let_def
        split: option.splits if_splits auth_outcome.splits)
qed

lemma settled_other:
  "\<forall>(m, out)\<in>set xs. as_authenticated s \<noteq> Some m \<Longrightarrow> fold (\<lambda>(m, out). auth_settled m out) xs s = s"
proof (induction xs arbitrary: s)
  case Nil
  then show ?case by simp
next
  case (Cons x xs)
  obtain m out where x: "x = (m, out)" by (cases x)
  have "auth_settled m out s = s"
    using Cons.prems x by (simp add: auth_settled_def Let_def split: auth_outcome.splits)
  then show ?case using Cons x by simp
qed

text \<open>
  An \<open>AUTH\<close> that outlived its socket changes nothing: after a reconnect has sent a new
  one, no outcome of an older one disconnects, and the outcome of the new one disconnects
  exactly when it failed, however often it is reported.
\<close>

theorem stale_auth_is_ignored:
  assumes "co_password c = Some password" "password \<noteq> []"
    and "s = conn_run c es" "s' = conn_step c Connected s"
    and "\<forall>(m, out)\<in>set olds. m < as_next s"
  shows "fold (\<lambda>(m, out). auth_settled m out) olds s' = s' \<and>
    as_authenticated s' = Some (as_next s) \<and>
    auth_settled (as_next s) (AuthAnswered True) s' = s' \<and>
    as_disconnects (auth_settled (as_next s) out (auth_settled (as_next s) (AuthAnswered False) s')) =
      as_disconnects s @ [InvalidPassword]"
proof -
  have s': "as_authenticated s' = Some (as_next s)" "as_disconnects s' = as_disconnects s"
    using assms(1,2,4) by (simp_all add: onConnected_def)
  have "fold (\<lambda>(m, out). auth_settled m out) olds s' = s'"
    using assms(5) s'(1) by (intro settled_other) auto
  then show ?thesis
    using s' by (simp add: auth_settled_def Let_def split: auth_outcome.splits)
qed

subsection \<open>The cache\<close>

text \<open>
  What the cache relies on: a server that answers \<open>GET key\<close> with what is stored and stores
  the value of \<open>SET key v\<close>, on a connection that needs no authentication.
\<close>

definition serves ::
  "'w RedisConnection \<Rightarrow> ('w \<Rightarrow> ustring option) \<Rightarrow> ustring \<Rightarrow> ustring \<Rightarrow> int option \<Rightarrow> bool" where
  "serves c stored key v ms \<longleftrightarrow>
     (\<forall>w. \<not> rc_authenticated c w) \<and>
     (\<forall>w t u. rc_send c (join crlf (so_commands (redisGet key)) @ crlf) singleGet_match t u w =
        Some (Inr (encode (case stored w of None \<Rightarrow> NullBulk | Some x \<Rightarrow> Bulk x)), w)) \<and>
     (\<forall>w t u. \<exists>w'. rc_send c (join crlf (so_commands (redisSet key v ms None)) @ crlf) (capture crlf) t u w =
        Some (Inr (ascii ''+OK'' @ crlf), w') \<and> stored w' = Some v) \<and>
     (\<forall>w. stored (rc_disconnect c None w) = stored w)"

lemma serves_get:
  assumes "serves c stored key v ms" "case stored w of None \<Rightarrow> True | Some x \<Rightarrow> one_line x"
  shows "redisSend c (redisGet key) w = Some (Inr (stored w), w)"
proof -
  let ?r = "encode (case stored w of None \<Rightarrow> NullBulk | Some x \<Rightarrow> Bulk x)"
  have plain: "so_match (redisGet key) = singleGet_match"
    by (simp add: redisGet_def singleGet_def plain_def)
  have "\<not> isAuthenticationError ?r"
    by (cases "stored w") (simp_all add: isAuthenticationError_def)
  then have "redisSend c (redisGet key) w = Some (decode_response (redisGet key) ?r, w)"
    using assms(1) plain by (intro send_plain) (simp_all add: serves_def del: encode.simps)
  moreover have "decode_response (redisGet key) ?r = Inr (stored w)"
    using assms(2) get_bulk_decoded get_null_decoded by (cases "stored w") (simp_all del: encode.simps)
  ultimately show ?thesis by simp
qed

lemma serves_set:
  assumes "serves c stored key v ms"
  shows "\<exists>w'. redisSend c (redisSet key v ms None) w = Some (Inr True, w') \<and> stored w' = Some v"
proof -
  let ?p = "redisSet key v ms None"
  have plain: "so_match ?p = capture crlf"
    by (simp add: redisSet_def plain_def)
  have "\<exists>w'. rc_send c (join crlf (so_commands ?p) @ crlf) (capture crlf) t u w =
      Some (Inr (ascii ''+OK'' @ crlf), w') \<and> stored w' = Some v" for t u
    using assms unfolding serves_def by blast
  then obtain w' where w': "rc_send c (join crlf (so_commands ?p) @ crlf) (capture crlf)
      (case so_timeoutMillis ?p of None \<Rightarrow> rc_timeoutMillis c | Some t \<Rightarrow> t) (so_urgent ?p) w =
      Some (Inr (ascii ''+OK'' @ crlf), w')" "stored w' = Some v"
    by blast
  have "\<not> isAuthenticationError (ascii ''+OK'' @ crlf)"
    by (simp add: isAuthenticationError_def)
  then have "redisSend c ?p w = Some (decode_response ?p (ascii ''+OK'' @ crlf), w')"
    using assms w'(1) plain by (intro send_plain) (simp_all only: serves_def not_False_eq_True)
  moreover have "decode_response ?p (ascii ''+OK'' @ crlf) = Inr True"
    unfolding decode_response_def redisSet_def plain_def by (simp, code_simp)
  ultimately show ?thesis using w'(2) by auto
qed

lemma in_work:
  assumes "connect w = Some (Inr c, w1)" "work c w1 = Some (r, w2)"
  shows "redisSimpleWork connect work w = Some (r, rc_disconnect c None w2)"
  using assms by (simp add: redisSimpleWork_def eff_defs)

text \<open>
  The cache computes once: when nothing is stored under the key, it runs the function,
  stores the encoded result and answers it; when something is stored, it answers that,
  decoded, without running the function and without changing what is stored.
\<close>

theorem cache_computes_once:
  fixes fn :: "'a \<Rightarrow> (redis_error, 'r, 'w) eff"
  assumes "serves c stored (ch_cacheKey opt a) (ch_encode opt r) (ch_expirationMillis opt)"
    and "ch_connect opt w = Some (Inr c, w1)" "stored w1 = stored w"
    and "\<And>w. \<exists>w'. fn a w = Some (Inr r, w') \<and> stored w' = stored w"
  shows "(stored w = None \<longrightarrow>
      (\<exists>w'. computeIfAbsent opt fn a w = Some (Inr r, w') \<and> stored w' = Some (ch_encode opt r))) \<and>
    (\<forall>v. stored w = Some v \<and> one_line v \<longrightarrow>
      (\<forall>other. computeIfAbsent opt other a w = Some (ch_decode opt v, rc_disconnect c None w1)) \<and>
      stored (rc_disconnect c None w1) = stored w)"
proof -
  let ?key = "ch_cacheKey opt a"
  have keeps: "stored (rc_disconnect c None u) = stored u" for u
    using assms(1) by (simp add: serves_def)
  have "\<exists>w'. computeIfAbsent opt fn a w = Some (Inr r, w') \<and> stored w' = Some (ch_encode opt r)"
    if none: "stored w = None"
  proof -
    have get: "redisSend c (redisGet ?key) w1 = Some (Inr None, w1)"
      using serves_get [OF assms(1), of w1] none assms(3) by simp
    obtain w2 where fn: "fn a w1 = Some (Inr r, w2)"
      using assms(4) by blast
    obtain w3 where set: "redisSend c (redisSet ?key (ch_encode opt r) (ch_expirationMillis opt) None) w2 =
        Some (Inr True, w3)" "stored w3 = Some (ch_encode opt r)"
      using serves_set [OF assms(1), of w2] by blast
    have "computeIfAbsent opt fn a w = Some (Inr r, rc_disconnect c None w3)"
      unfolding computeIfAbsent_def Let_def
      by (rule in_work [where ?w1.0 = w1]) (simp_all add: assms(2) get fn set(1) eff_defs)
    with set(2) keeps show ?thesis by simp
  qed
  moreover have "computeIfAbsent opt other a w = Some (ch_decode opt v, rc_disconnect c None w1)"
    if "stored w = Some v" "one_line v" for v other
  proof -
    have "redisSend c (redisGet ?key) w1 = Some (Inr (Some v), w1)"
      using serves_get [OF assms(1), of w1] that assms(3) by simp
    then show ?thesis
      unfolding computeIfAbsent_def Let_def
      by (intro in_work [where ?w1.0 = w1])
        (simp_all add: assms(2) eff_defs of_result_def split: sum.splits)
  qed
  ultimately show ?thesis
    using keeps assms(3) by simp
qed

text \<open>
  \<open>refresh\<close> stores what the function answers, \<open>peek\<close> reads it without computing, and
  reads an empty stored text as absent, which \<open>computeIfAbsent\<close> decodes.
\<close>

theorem peek_and_compute_differ_on_empty:
  assumes "serves c stored (ch_cacheKey opt a) v (ch_expirationMillis opt)"
    and "ch_connect opt w = Some (Inr c, w1)" "stored w1 = Some x" "one_line x"
  shows "cache_peek opt a w =
      Some (if x = [] then Inr None else map_sum id Some (ch_decode opt x), rc_disconnect c None w1) \<and>
    computeIfAbsent opt fn a w = Some (ch_decode opt x, rc_disconnect c None w1)"
proof -
  have get: "redisSend c (redisGet (ch_cacheKey opt a)) w1 = Some (Inr (Some x), w1)"
    using serves_get [OF assms(1), of w1] assms(3,4) by simp
  have "cache_peek opt a w =
      Some (if x = [] then Inr None else map_sum id Some (ch_decode opt x), rc_disconnect c None w1)"
    unfolding cache_peek_def redisSimpleGet_def
    by (rule in_work [where ?w1.0 = w1])
      (simp_all add: assms(2) get eff_defs of_result_def split: sum.splits)
  moreover have "computeIfAbsent opt fn a w = Some (ch_decode opt x, rc_disconnect c None w1)"
    unfolding computeIfAbsent_def Let_def
    by (rule in_work [where ?w1.0 = w1])
      (simp_all add: assms(2) get eff_defs of_result_def split: sum.splits)
  ultimately show ?thesis by blast
qed

subsection \<open>Witnesses\<close>

text \<open>A server with one key: its world is what is stored.\<close>

definition demoConnection :: "ustring option RedisConnection" where
  "demoConnection =
     \<lparr>rc_send = (\<lambda>m matcher t u w.
        if m = join crlf (so_commands (redisGet (ascii ''k''))) @ crlf
        then Some (Inr (encode (case w of None \<Rightarrow> NullBulk | Some x \<Rightarrow> Bulk x)), w)
        else Some (Inr (ascii ''+OK'' @ crlf), Some (ascii ''v''))),
      rc_disconnect = (\<lambda>_ w. w), rc_authenticated = (\<lambda>_. False), rc_await = return_eff False,
      rc_forget = id, rc_timeoutMillis = 5000\<rparr>"

definition demoCache :: "(unit, ustring, ustring option) cache_options" where
  "demoCache = simple_cache_options (return_eff demoConnection) (ascii ''k'') (\<lambda>_. []) None Inr (\<lambda>r. r)"

lemma demo_serves: "serves demoConnection id (ascii ''k'') (ascii ''v'') None"
proof -
  have "so_commands (redisSet (ascii ''k'') (ascii ''v'') None None) =
        [serializeCommand [ascii ''SET'', ascii ''k'', ascii ''v'']]"
      "so_commands (redisGet (ascii ''k'')) = [inlineCommand (ascii ''GET'') [Text (ascii ''k'')] None]"
    by (simp_all add: redisSet_def redisGet_def singleGet_def plain_def)
  moreover have "join crlf [serializeCommand [ascii ''SET'', ascii ''k'', ascii ''v'']] \<noteq>
      join crlf [inlineCommand (ascii ''GET'') [Text (ascii ''k'')] None]"
    by (simp add: serializeCommand_def inlineCommand_def join_def Let_def)
  ultimately have "join crlf (so_commands (redisSet (ascii ''k'') (ascii ''v'') None None)) \<noteq>
      join crlf (so_commands (redisGet (ascii ''k'')))"
    by (simp only: not_False_eq_True)
  then show ?thesis
    by (simp add: serves_def demoConnection_def del: encode.simps)
qed

lemma demo_cache:
  "ch_cacheKey demoCache a = ascii ''k''" "ch_encode demoCache r = r" "ch_expirationMillis demoCache = None"
  "ch_connect demoCache w = Some (Inr demoConnection, w)" "ch_decode demoCache = Inr"
  by (simp_all add: demoCache_def simple_cache_options_def return_eff_def)

theorem cache_computes_once_witness:
  "\<exists>w'. computeIfAbsent demoCache (\<lambda>_. return_eff (ascii ''v'')) () None = Some (Inr (ascii ''v''), w') \<and>
    w' = Some (ascii ''v'')"
  using cache_computes_once [where opt = demoCache and c = demoConnection and stored = id and a = "()" and
      r = "ascii ''v''" and w = None and ?w1.0 = None and fn = "\<lambda>_. return_eff (ascii ''v'')"]
    demo_serves
  by (simp only: demo_cache id_apply return_eff_def simp_thms) blast

theorem peek_and_compute_differ_on_empty_witness:
  "cache_peek demoCache () (Some []) = Some (Inr None, Some []) \<and>
   computeIfAbsent demoCache (\<lambda>_. return_eff (ascii ''v'')) () (Some []) = Some (Inr [], Some [])"
proof -
  have "one_line []" by (intro one_line_simple) simp
  moreover have "rc_disconnect demoConnection None (Some []) = Some []"
    by (simp add: demoConnection_def)
  ultimately show ?thesis
    using peek_and_compute_differ_on_empty [where opt = demoCache and c = demoConnection and stored = id
        and a = "()" and v = "ascii ''v''" and w = "Some []" and ?w1.0 = "Some []" and x = "[]"]
      demo_serves
    by (simp only: demo_cache id_apply simp_thms if_True)
qed

definition demoRefusing :: "nat RedisConnection" where
  "demoRefusing =
     \<lparr>rc_send = (\<lambda>m matcher t u w. Some (Inr (if w = 0 then ascii ''-NOAUTH x'' @ crlf else ascii '':3'' @ crlf), w)),
      rc_disconnect = (\<lambda>_ w. Suc w), rc_authenticated = (\<lambda>w. w = 0), rc_await = return_eff True,
      rc_forget = id, rc_timeoutMillis = 5000\<rparr>"

definition demoCount :: "nat RedisSendOptions" where
  "demoCount = singleCount (ascii ''INCR k'')\<lparr>so_timeoutMillis := Some 9\<rparr>"

theorem refused_command_is_retried_once_witness:
  "redisSend demoRefusing demoCount 0 = Some (Inr 3, 1)"
proof -
  have "redisSend demoRefusing demoCount 0 =
      Some (decode_response demoCount (ascii '':3'' @ crlf),
        if isAuthenticationError (ascii '':3'' @ crlf)
        then rc_disconnect demoRefusing (Some (trim (ascii '':3'' @ crlf))) (rc_forget demoRefusing 1) else 1)"
    by (rule refused_command_is_retried_once [where ?w1.0 = 0 and ?w2.0 = 0 and t = 9 and
          ?r1.0 = "ascii ''-NOAUTH x'' @ crlf"])
      (simp_all add: demoRefusing_def demoCount_def return_eff_def isAuthenticationError_def
        singleCount_def plain_def)
  moreover have "decode_response demoCount (ascii '':3'' @ crlf) = Inr 3"
    unfolding demoCount_def singleCount_def plain_def by (simp add: decode_response_def, code_simp)
  moreover have "\<not> isAuthenticationError (ascii '':3'' @ crlf)"
    by (simp add: isAuthenticationError_def)
  ultimately show ?thesis by simp
qed

definition demoAuth :: RedisConnectionOptions where
  "demoAuth = \<lparr>co_username = None, co_password = Some (ascii ''p''), co_timeoutMillis = 5000, co_authTimeoutMillis = None\<rparr>"

theorem stale_auth_is_ignored_witness:
  "as_disconnects (auth_settled 0 (AuthRejected (ascii ''late''))
     (conn_step demoAuth Connected (conn_run demoAuth [Connected]))) = []"
proof -
  let ?s = "conn_run demoAuth [Connected]"
  have s: "as_next ?s = 1" "as_disconnects ?s = []" "as_disconnects (conn_step demoAuth Connected ?s) = []"
    by (simp_all add: conn_run_def createRedisConnection_def onConnected_def demoAuth_def)
  have "fold (\<lambda>(m, out). auth_settled m out) [(0, AuthRejected (ascii ''late''))]
      (conn_step demoAuth Connected ?s) = conn_step demoAuth Connected ?s"
    by (rule stale_auth_is_ignored [where password = "ascii ''p''" and s = ?s and es = "[Connected]",
          THEN conjunct1])
      (simp_all only: s(1) refl, simp_all add: demoAuth_def)
  with s(3) show ?thesis by simp
qed

end
