(* ===== verification/Redis_Api.thy ===== *)
theory Redis_Api
  imports Redis_Protocol
begin

section \<open>The Redis commands as the packages on top of naive-redis use them\<close>

text \<open>
  The lock, the queue, the awaiter and the repository call the commands of naive-redis on one
  connection. \<open>redis_api\<close> names the commands they call, \<open>api_of\<close> builds them from a connection,
  and the laws state what the documentation of Redis says of them, for a server whose strings
  and lists are given by two views of the world. A \<open>None\<close> from \<open>EVAL\<close> is \<open>NaN\<close>.
\<close>

record ('e, 'w) redis_api =
  ra_get :: "ustring \<Rightarrow> ('e, ustring option, 'w) eff"
  ra_set :: "ustring \<Rightarrow> ustring \<Rightarrow> int option \<Rightarrow> onlySet option \<Rightarrow> ('e, bool, 'w) eff"
  ra_del :: "ustring list \<Rightarrow> ('e, nat, 'w) eff"
  ra_eval :: "ustring \<Rightarrow> ustring list \<Rightarrow> ustring list \<Rightarrow> bool \<Rightarrow> ('e, int option, 'w) eff"
  ra_expire :: "ustring \<Rightarrow> int \<Rightarrow> ('e, bool, 'w) eff"
  ra_rpush :: "ustring \<Rightarrow> ustring list \<Rightarrow> ('e, nat, 'w) eff"
  ra_lpop :: "ustring \<Rightarrow> ('e, ustring option, 'w) eff"
  ra_llen :: "ustring \<Rightarrow> ('e, nat, 'w) eff"
  ra_lindex :: "ustring \<Rightarrow> int \<Rightarrow> ('e, ustring option, 'w) eff"
  ra_lrange :: "ustring \<Rightarrow> int \<Rightarrow> int \<Rightarrow> ('e, ustring list, 'w) eff"
  ra_ltrim :: "ustring \<Rightarrow> int \<Rightarrow> int \<Rightarrow> ('e, bool, 'w) eff"

text \<open>\<open>redisExpire\<close> rejects an amount of seconds that is not positive.\<close>

definition api_of :: "'w RedisConnection \<Rightarrow> (redis_error, 'w) redis_api" where
  "api_of c =
     \<lparr>ra_get = (\<lambda>k. redisSend c (redisGet k)),
      ra_set = (\<lambda>k v ms only. redisSend c (redisSet k v ms only)),
      ra_del = (\<lambda>ks. redisSend c (redisDel ks)),
      ra_eval = (\<lambda>script keys args urgent. redisSend c (redisEval script keys args urgent)),
      ra_expire = (\<lambda>k s. case redisExpire k s of
          None \<Rightarrow> throw_eff (NotExpected (show_int s))
        | Some p \<Rightarrow> bind_eff (redisSend c p) (\<lambda>applied. return_eff (applied = 1))),
      ra_rpush = (\<lambda>k vs. redisSend c (redisRpush k vs)),
      ra_lpop = (\<lambda>k. redisSend c (redisLpop k)),
      ra_llen = (\<lambda>k. redisSend c (redisLlen k)),
      ra_lindex = (\<lambda>k i. redisSend c (redisLindex k i)),
      ra_lrange = (\<lambda>k i j. redisSend c (redisLrange k i j)),
      ra_ltrim = (\<lambda>k i j. redisSend c (redisLtrim k i j))\<rparr>"

subsection \<open>What the documentation of Redis says\<close>

text \<open>The elements from \<open>start\<close> to \<open>stop\<close>, both included; negative indices count from the end.\<close>

definition list_range :: "int \<Rightarrow> int \<Rightarrow> 'a list \<Rightarrow> 'a list" where
  "list_range start stop xs =
     (let n = int (length xs);
          i = (if start < 0 then max 0 (n + start) else start);
          j = (if stop < 0 then n + stop else min stop (n - 1))
      in if i > j then [] else take (nat (j - i + 1)) (drop (nat i) xs))"

lemma list_range_all: "list_range 0 (- 1) xs = xs"
  by (simp add: list_range_def)

lemma list_range_from:
  "n \<le> length xs \<Longrightarrow> list_range (int n) (- 1) xs = drop n xs"
  by (auto simp: list_range_def Let_def not_less)

definition list_laws :: "('e, 'w) redis_api \<Rightarrow> ('w \<Rightarrow> ustring \<Rightarrow> ustring list) \<Rightarrow> bool" where
  "list_laws r lview \<longleftrightarrow>
     (\<forall>k w. ra_llen r k w = Some (Inr (length (lview w k)), w)) \<and>
     (\<forall>k vs w. \<exists>w'. ra_rpush r k vs w = Some (Inr (length (lview w k @ vs)), w') \<and>
        lview w' = (lview w)(k := lview w k @ vs)) \<and>
     (\<forall>k s w. 0 < s \<longrightarrow> (\<exists>b w'. ra_expire r k s w = Some (Inr b, w') \<and> lview w' = lview w)) \<and>
     (\<forall>k w. \<exists>w'. ra_lpop r k w =
         Some (Inr (if lview w k = [] then None else Some (hd (lview w k))), w') \<and>
        lview w' = (lview w)(k := tl (lview w k))) \<and>
     (\<forall>k w. ra_lindex r k 0 w = Some (Inr (if lview w k = [] then None else Some (hd (lview w k))), w)) \<and>
     (\<forall>k i j w. ra_lrange r k i j w = Some (Inr (list_range i j (lview w k)), w)) \<and>
     (\<forall>k i j w. \<exists>w'. ra_ltrim r k i j w = Some (Inr True, w') \<and>
        lview w' = (lview w)(k := list_range i j (lview w k)))"

lemma list_lawsD:
  assumes "list_laws r lview"
  shows "ra_llen r k w = Some (Inr (length (lview w k)), w)"
    "\<exists>w'. ra_rpush r k vs w = Some (Inr (length (lview w k @ vs)), w') \<and>
       lview w' = (lview w)(k := lview w k @ vs)"
    "0 < s \<Longrightarrow> \<exists>b w'. ra_expire r k s w = Some (Inr b, w') \<and> lview w' = lview w"
    "\<exists>w'. ra_lpop r k w = Some (Inr (if lview w k = [] then None else Some (hd (lview w k))), w') \<and>
       lview w' = (lview w)(k := tl (lview w k))"
    "ra_lindex r k 0 w = Some (Inr (if lview w k = [] then None else Some (hd (lview w k))), w)"
    "ra_lrange r k i j w = Some (Inr (list_range i j (lview w k)), w)"
    "\<exists>w'. ra_ltrim r k i j w = Some (Inr True, w') \<and> lview w' = (lview w)(k := list_range i j (lview w k))"
  using assms by (simp_all add: list_laws_def)

definition string_laws :: "('e, 'w) redis_api \<Rightarrow> ('w \<Rightarrow> ustring \<Rightarrow> ustring option) \<Rightarrow> bool" where
  "string_laws r strings \<longleftrightarrow>
     (\<forall>k w. ra_get r k w = Some (Inr (strings w k), w)) \<and>
     (\<forall>k v ms w. \<exists>w'. ra_set r k v ms None w = Some (Inr True, w') \<and>
        strings w' = (strings w)(k \<mapsto> v)) \<and>
     (\<forall>k v ms w. strings w k \<noteq> None \<longrightarrow> ra_set r k v ms (Some NX) w = Some (Inr False, w)) \<and>
     (\<forall>k v ms w. strings w k = None \<longrightarrow> (\<exists>w'. ra_set r k v ms (Some NX) w = Some (Inr True, w') \<and>
        strings w' = (strings w)(k \<mapsto> v))) \<and>
     (\<forall>ks w. \<exists>n w'. ra_del r ks w = Some (Inr n, w') \<and>
        strings w' = (\<lambda>k. if k \<in> set ks then None else strings w k))"

text \<open>
  \<open>EVAL\<close> runs a script atomically: its reply and what it leaves are those of \<open>body\<close>, the
  script as a function on the strings, for
  arguments that satisfy \<open>good\<close>.
\<close>

definition runs_script ::
  "('e, 'w) redis_api \<Rightarrow> ('w \<Rightarrow> ustring \<Rightarrow> ustring option) \<Rightarrow> ustring \<Rightarrow>
   (ustring list \<Rightarrow> ustring list \<Rightarrow> (ustring \<Rightarrow> ustring option) \<Rightarrow> int \<times> (ustring \<Rightarrow> ustring option)) \<Rightarrow>
   (ustring list \<Rightarrow> ustring list \<Rightarrow> bool) \<Rightarrow> bool" where
  "runs_script r strings script body good \<longleftrightarrow>
     (\<forall>keys args urgent w. good keys args \<longrightarrow> (\<exists>w'. ra_eval r script keys args urgent w =
         Some (Inr (Some (fst (body keys args (strings w)))), w') \<and>
       strings w' = snd (body keys args (strings w))))"

subsection \<open>The laws can hold\<close>

text \<open>A server as a record, for the witnesses: strings, lists and a clock.\<close>

record demo_server =
  ds_strings :: "ustring \<Rightarrow> ustring option"
  ds_lists :: "ustring \<Rightarrow> ustring list"
  ds_clock :: int

definition demoRedis ::
  "(ustring \<Rightarrow> ustring list \<Rightarrow> ustring list \<Rightarrow> (ustring \<Rightarrow> ustring option) \<Rightarrow> int \<times> (ustring \<Rightarrow> ustring option)) \<Rightarrow>
   ('e, demo_server) redis_api" where
  "demoRedis bodies =
     \<lparr>ra_get = (\<lambda>k. get_eff (\<lambda>w. ds_strings w k)),
      ra_set = (\<lambda>k v ms only w.
        if (only = Some NX \<and> ds_strings w k \<noteq> None) \<or> (only = Some XX \<and> ds_strings w k = None)
        then Some (Inr False, w) else Some (Inr True, w\<lparr>ds_strings := (ds_strings w)(k \<mapsto> v)\<rparr>)),
      ra_del = (\<lambda>ks w. Some (Inr (length (filter (\<lambda>k. ds_strings w k \<noteq> None) ks)),
        w\<lparr>ds_strings := (\<lambda>k. if k \<in> set ks then None else ds_strings w k)\<rparr>)),
      ra_eval = (\<lambda>script keys args urgent w.
        Some (Inr (Some (fst (bodies script keys args (ds_strings w)))),
          w\<lparr>ds_strings := snd (bodies script keys args (ds_strings w))\<rparr>)),
      ra_expire = (\<lambda>k s. return_eff True),
      ra_rpush = (\<lambda>k vs w. Some (Inr (length (ds_lists w k @ vs)), w\<lparr>ds_lists := (ds_lists w)(k := ds_lists w k @ vs)\<rparr>)),
      ra_lpop = (\<lambda>k w. Some (Inr (if ds_lists w k = [] then None else Some (hd (ds_lists w k))),
        w\<lparr>ds_lists := (ds_lists w)(k := tl (ds_lists w k))\<rparr>)),
      ra_llen = (\<lambda>k. get_eff (\<lambda>w. length (ds_lists w k))),
      ra_lindex = (\<lambda>k i. get_eff (\<lambda>w. if ds_lists w k = [] then None else Some (hd (ds_lists w k)))),
      ra_lrange = (\<lambda>k i j. get_eff (\<lambda>w. list_range i j (ds_lists w k))),
      ra_ltrim = (\<lambda>k i j w. Some (Inr True, w\<lparr>ds_lists := (ds_lists w)(k := list_range i j (ds_lists w k))\<rparr>))\<rparr>"

definition demoServer :: demo_server where
  "demoServer = \<lparr>ds_strings = Map.empty, ds_lists = (\<lambda>_. []), ds_clock = 0\<rparr>"

lemma demo_list_laws: "list_laws (demoRedis bodies) ds_lists"
  by (auto simp: list_laws_def demoRedis_def eff_defs)

lemma demo_string_laws: "string_laws (demoRedis bodies) ds_strings"
  by (simp add: string_laws_def demoRedis_def eff_defs)

lemma demo_runs_script: "bodies script = body \<Longrightarrow> runs_script (demoRedis bodies) ds_strings script body good"
  by (simp add: runs_script_def demoRedis_def)

end
