(* ===== verification/Actor_Redis.thy ===== *)
theory Actor_Redis
  imports Actor_Model Redis_Api
begin

section \<open>Queue, lock and awaiter on Redis (actor-system-redis/src)\<close>

text \<open>
  The three pieces of the actor system on a Redis server, over the commands of \<open>redis_api\<close>.
  The lemmas show that the lock is exclusive although leases expire at any moment and holders
  do not notice, that the queue satisfies the contract \<open>fifo_queue\<close> of the in-process one,
  and that the awaiter always answers.
\<close>

subsection \<open>The lock (lock.ts)\<close>

definition compareAndDelete :: ustring where
  \<open>compareAndDelete = ascii ''if redis.call("GET", KEYS[1]) == ARGV[1] then return redis.call("DEL", KEYS[1]) else return 0 end''\<close>

definition compareAndExtend :: ustring where
  \<open>compareAndExtend = ascii ''if redis.call("GET", KEYS[1]) == ARGV[1] then return redis.call("PEXPIRE", KEYS[1], ARGV[2]) else return 0 end''\<close>

definition compareOnly :: ustring where
  \<open>compareOnly = ascii ''if redis.call("GET", KEYS[1]) == ARGV[1] then return 1 else return 0 end''\<close>

text \<open>The scripts as functions; deleting or extending a key that is present answers 1.\<close>

definition compareAndDelete_body ::
  "ustring list \<Rightarrow> ustring list \<Rightarrow> (ustring \<Rightarrow> ustring option) \<Rightarrow> int \<times> (ustring \<Rightarrow> ustring option)" where
  "compareAndDelete_body keys args strings =
     (if strings (keys ! 0) = Some (args ! 0) then (1, strings(keys ! 0 := None)) else (0, strings))"

definition compareAndExtend_body ::
  "ustring list \<Rightarrow> ustring list \<Rightarrow> (ustring \<Rightarrow> ustring option) \<Rightarrow> int \<times> (ustring \<Rightarrow> ustring option)" where
  "compareAndExtend_body keys args strings =
     (if strings (keys ! 0) = Some (args ! 0) then (1, strings) else (0, strings))"

definition compareOnly_body ::
  "ustring list \<Rightarrow> ustring list \<Rightarrow> (ustring \<Rightarrow> ustring option) \<Rightarrow> int \<times> (ustring \<Rightarrow> ustring option)" where
  "compareOnly_body keys args strings =
     (if strings (keys ! 0) = Some (args ! 0) then (1, strings) else (0, strings))"

text \<open>
  One process: its tokens, and the number of identifiers that \<open>randomUUID\<close>, here \<open>rl_uuid\<close>, has
  given so far. The lock timeout is a whole number of milliseconds.
\<close>

record 'w lock_state =
  ls_world :: 'w
  ls_tokens :: "string \<rightharpoonup> ustring"
  ls_uuids :: nat

record ('e, 'w) redis_lock =
  rl_api :: "('e, 'w) redis_api"
  rl_keyPrefix :: ustring
  rl_lockTimeout :: int
  rl_uuid :: "nat \<Rightarrow> ustring"

definition lock_key :: "('e, 'w) redis_lock \<Rightarrow> string \<Rightarrow> ustring" where
  "lock_key l actorId = rl_keyPrefix l @ ascii actorId"

definition on_world :: "('e, 'a, 'w) eff \<Rightarrow> ('e, 'a, 'w lock_state) eff" where
  "on_world m s = map_option (\<lambda>(r, w). (r, s\<lparr>ls_world := w\<rparr>)) (m (ls_world s))"

definition lock_tryAcquire :: "('e, 'w) redis_lock \<Rightarrow> string \<Rightarrow> ('e, bool, 'w lock_state) eff" where
  "lock_tryAcquire l actorId =
     bind_eff (get_eff (\<lambda>s. rl_uuid l (ls_uuids s))) (\<lambda>token.
       then_eff (modify_eff (\<lambda>s. s\<lparr>ls_uuids := Suc (ls_uuids s)\<rparr>))
         (bind_eff
            (on_world (ra_set (rl_api l) (lock_key l actorId) token
               (if rl_lockTimeout l > 0 then Some (rl_lockTimeout l) else None) (Some NX)))
            (\<lambda>success.
               then_eff
                 (when_eff success (modify_eff (\<lambda>s. s\<lparr>ls_tokens := (ls_tokens s)(actorId \<mapsto> token)\<rparr>)))
                 (return_eff success))))"

definition forget_token :: "string \<Rightarrow> ('e, unit, 'w lock_state) eff" where
  "forget_token actorId = modify_eff (\<lambda>s. s\<lparr>ls_tokens := (ls_tokens s)(actorId := None)\<rparr>)"

definition lock_release :: "('e, 'w) redis_lock \<Rightarrow> string \<Rightarrow> ('e, bool, 'w lock_state) eff" where
  "lock_release l actorId =
     bind_eff (get_eff (\<lambda>s. ls_tokens s actorId)) (\<lambda>maybe.
       case maybe of
         None \<Rightarrow> return_eff False
       | Some token \<Rightarrow>
           bind_eff (on_world (ra_eval (rl_api l) compareAndDelete [lock_key l actorId] [token] False))
             (\<lambda>deleted. then_eff (forget_token actorId) (return_eff (deleted = Some 1))))"

definition lock_renew :: "('e, 'w) redis_lock \<Rightarrow> string \<Rightarrow> ('e, bool, 'w lock_state) eff" where
  "lock_renew l actorId =
     bind_eff (get_eff (\<lambda>s. ls_tokens s actorId)) (\<lambda>maybe.
       case maybe of
         None \<Rightarrow> return_eff False
       | Some token \<Rightarrow>
           bind_eff
             (on_world (ra_eval (rl_api l)
                (if rl_lockTimeout l > 0 then compareAndExtend else compareOnly) [lock_key l actorId]
                (if rl_lockTimeout l > 0 then [token, show_int (rl_lockTimeout l)] else [token]) True))
             (\<lambda>extended.
                then_eff (when_eff (extended \<noteq> Some 1) (forget_token actorId))
                  (return_eff (extended = Some 1))))"

text \<open>
  Several processes on one server, whose operations interleave with the expiry of leases. A
  process that crashes is one that has no further events.
\<close>

record 'w lock_system =
  lk_world :: 'w
  lk_tokens :: "nat \<Rightarrow> string \<rightharpoonup> ustring"
  lk_uuids :: nat

datatype lock_event = TryAcquire nat string | Release nat string | Renew nat string | Expire string

definition run_op ::
  "nat \<Rightarrow> ('e, bool, 'w lock_state) eff \<Rightarrow> 'w lock_system \<Rightarrow> bool option \<times> 'w lock_system" where
  "run_op p m s =
     (case m \<lparr>ls_world = lk_world s, ls_tokens = lk_tokens s p, ls_uuids = lk_uuids s\<rparr> of
        None \<Rightarrow> (None, s)
      | Some (r, st) \<Rightarrow>
          (case r of Inl _ \<Rightarrow> None | Inr b \<Rightarrow> Some b,
           \<lparr>lk_world = ls_world st, lk_tokens = (lk_tokens s)(p := ls_tokens st), lk_uuids = ls_uuids st\<rparr>))"

fun lock_step ::
  "('e, 'w) redis_lock \<Rightarrow> (ustring \<Rightarrow> 'w \<Rightarrow> 'w) \<Rightarrow> lock_event \<Rightarrow> 'w lock_system \<Rightarrow>
   bool option \<times> 'w lock_system" where
  "lock_step l expire (TryAcquire p a) s = run_op p (lock_tryAcquire l a) s"
| "lock_step l expire (Release p a) s = run_op p (lock_release l a) s"
| "lock_step l expire (Renew p a) s = run_op p (lock_renew l a) s"
| "lock_step l expire (Expire a) s = (None, s\<lparr>lk_world := expire (lock_key l a) (lk_world s)\<rparr>)"

definition lock_run ::
  "('e, 'w) redis_lock \<Rightarrow> (ustring \<Rightarrow> 'w \<Rightarrow> 'w) \<Rightarrow> 'w \<Rightarrow> lock_event list \<Rightarrow> 'w lock_system" where
  "lock_run l expire w es =
     fold (\<lambda>ev s. snd (lock_step l expire ev s)) es
       \<lparr>lk_world = w, lk_tokens = (\<lambda>_. Map.empty), lk_uuids = 0\<rparr>"

definition owns ::
  "('e, 'w) redis_lock \<Rightarrow> ('w \<Rightarrow> ustring \<Rightarrow> ustring option) \<Rightarrow> 'w lock_system \<Rightarrow> nat \<Rightarrow> string \<Rightarrow> bool" where
  "owns l strings s p a \<longleftrightarrow>
     lk_tokens s p a \<noteq> None \<and> strings (lk_world s) (lock_key l a) = lk_tokens s p a"

subsection \<open>The queue (queue.ts)\<close>

record ('e, 'm, 'w) redis_queue =
  rq_api :: "('e, 'w) redis_api"
  rq_keyPrefix :: ustring
  rq_encode :: "'m \<Rightarrow> ustring"
  rq_decode :: "ustring \<Rightarrow> ('e, 'm, 'w) eff"
  rq_ttlSeconds :: int

text \<open>A time to live that is not a positive integer throws.\<close>

definition createRedisQueue ::
  "('e, 'w) redis_api \<Rightarrow> ustring \<Rightarrow> ('m \<Rightarrow> ustring) \<Rightarrow> (ustring \<Rightarrow> ('e, 'm, 'w) eff) \<Rightarrow> int \<Rightarrow>
   ('e, 'm, 'w) redis_queue option" where
  "createRedisQueue api keyPrefix enc dec ttlSeconds =
     (if ttlSeconds < 1 then None
      else Some \<lparr>rq_api = api, rq_keyPrefix = keyPrefix, rq_encode = enc, rq_decode = dec,
        rq_ttlSeconds = ttlSeconds\<rparr>)"

definition queue_key :: "('e, 'm, 'w) redis_queue \<Rightarrow> string \<Rightarrow> ustring" where
  "queue_key q actorId = rq_keyPrefix q @ ascii actorId"

definition queue_size :: "('e, 'm, 'w) redis_queue \<Rightarrow> string \<Rightarrow> ('e, nat, 'w) eff" where
  "queue_size q actorId = ra_llen (rq_api q) (queue_key q actorId)"

definition queue_push :: "('e, 'm, 'w) redis_queue \<Rightarrow> string \<Rightarrow> 'm \<Rightarrow> ('e, nat, 'w) eff" where
  "queue_push q actorId m =
     bind_eff (ra_rpush (rq_api q) (queue_key q actorId) [rq_encode q m]) (\<lambda>depth.
       then_eff (ra_expire (rq_api q) (queue_key q actorId) (rq_ttlSeconds q)) (return_eff depth))"

definition decode_maybe :: "('e, 'm, 'w) redis_queue \<Rightarrow> ustring option \<Rightarrow> ('e, 'm option, 'w) eff" where
  "decode_maybe q v =
     (case v of None \<Rightarrow> return_eff None
      | Some t \<Rightarrow> bind_eff (rq_decode q t) (\<lambda>m. return_eff (Some m)))"

definition queue_pop :: "('e, 'm, 'w) redis_queue \<Rightarrow> string \<Rightarrow> ('e, 'm option, 'w) eff" where
  "queue_pop q actorId = bind_eff (ra_lpop (rq_api q) (queue_key q actorId)) (decode_maybe q)"

definition queue_peek :: "('e, 'm, 'w) redis_queue \<Rightarrow> string \<Rightarrow> ('e, 'm option, 'w) eff" where
  "queue_peek q actorId = bind_eff (ra_lindex (rq_api q) (queue_key q actorId) 0) (decode_maybe q)"

fun decode_all :: "('e, 'm, 'w) redis_queue \<Rightarrow> ustring list \<Rightarrow> ('e, 'm list, 'w) eff" where
  "decode_all q [] = return_eff []"
| "decode_all q (t # ts) =
     bind_eff (rq_decode q t) (\<lambda>m. bind_eff (decode_all q ts) (\<lambda>ms. return_eff (m # ms)))"

definition queue_flush :: "('e, 'm, 'w) redis_queue \<Rightarrow> string \<Rightarrow> ('e, 'm list, 'w) eff" where
  "queue_flush q actorId =
     bind_eff (ra_lrange (rq_api q) (queue_key q actorId) 0 (- 1)) (\<lambda>values.
       if values = [] then return_eff []
       else bind_eff (decode_all q values) (\<lambda>decoded.
         then_eff (ra_ltrim (rq_api q) (queue_key q actorId) (int (length values)) (- 1))
           (return_eff decoded)))"

subsection \<open>The awaiter (awaiter.ts)\<close>

definition resolvedValue :: ustring where
  "resolvedValue = ascii ''1''"

definition resolvedExpirationMillis :: int where
  "resolvedExpirationMillis = 1000"

definition sleepIntervalMillis :: int where
  "sleepIntervalMillis = 50"

record ('e, 'w) redis_awaiter =
  aw_api :: "('e, 'w) redis_api"
  aw_keyPrefix :: ustring
  aw_now :: "'w \<Rightarrow> int"
  aw_sleep :: "int \<Rightarrow> 'w \<Rightarrow> 'w"

definition awaiter_key :: "('e, 'w) redis_awaiter \<Rightarrow> string \<Rightarrow> string \<Rightarrow> ustring" where
  "awaiter_key a actorId mid = aw_keyPrefix a @ ascii actorId @ ascii ''/'' @ ascii mid"

text \<open>
  The polling loop: \<open>deadline\<close> is \<open>start + timeoutMillis\<close>, and \<open>lastError\<close> and \<open>answered\<close> are the
  variables of the source. The fuel bounds the number of polls; without fuel the result is \<open>None\<close>.
\<close>

fun wait_loop ::
  "nat \<Rightarrow> ('e, 'w) redis_awaiter \<Rightarrow> ustring \<Rightarrow> int \<Rightarrow> bool \<Rightarrow> 'e option \<Rightarrow> ('e, bool, 'w) eff" where
  "wait_loop 0 a key deadline answered lastError w = None"
| "wait_loop (Suc fuel) a key deadline answered lastError w =
     (case ra_get (aw_api a) key w of
        None \<Rightarrow> None
      | Some (r, w1) \<Rightarrow>
          (if r = Inr (Some resolvedValue) then Some (Inr True, w1)
           else
             (let answered' = (case r of Inr _ \<Rightarrow> True | Inl _ \<Rightarrow> answered);
                  lastError' = (case r of Inr _ \<Rightarrow> lastError | Inl e \<Rightarrow> Some e);
                  remainMillis = deadline - aw_now a w1;
                  w2 = aw_sleep a (max 0 (min sleepIntervalMillis remainMillis)) w1
              in if remainMillis > 0 then wait_loop fuel a key deadline answered' lastError' w2
                 else if \<not> answered' \<and> lastError' \<noteq> None then Some (Inl (the lastError'), w2)
                 else Some (Inr False, w2))))"

definition polls :: "int \<Rightarrow> nat" where
  "polls timeoutMillis = nat timeoutMillis div 50 + 2"

definition awaiter_wait :: "('e, 'w) redis_awaiter \<Rightarrow> string \<Rightarrow> string \<Rightarrow> int \<Rightarrow> ('e, bool, 'w) eff" where
  "awaiter_wait a actorId mid timeoutMillis w =
     (if timeoutMillis \<le> 0 then Some (Inr False, w)
      else wait_loop (polls timeoutMillis) a (awaiter_key a actorId mid)
        (aw_now a w + timeoutMillis) False None w)"

definition awaiter_resolve :: "('e, 'w) redis_awaiter \<Rightarrow> string \<Rightarrow> string \<Rightarrow> ('e, unit, 'w) eff" where
  "awaiter_resolve a actorId mid =
     catch_eff
       (then_eff (ra_set (aw_api a) (awaiter_key a actorId mid) resolvedValue
          (Some resolvedExpirationMillis) None) (return_eff ()))
       (\<lambda>_. return_eff ())"

subsection \<open>The subsystem (subsystem.ts)\<close>

definition redis_subsystem_queue ::
  "('e, 'w) redis_api \<Rightarrow> ustring \<Rightarrow> ('m \<Rightarrow> ustring) \<Rightarrow> (ustring \<Rightarrow> ('e, 'm, 'w) eff) \<Rightarrow> int \<Rightarrow>
   ('e, 'm, 'w) redis_queue option" where
  "redis_subsystem_queue api keyPrefix enc dec queueTtlSeconds =
     createRedisQueue api (keyPrefix @ ascii ''queue:'') enc dec queueTtlSeconds"

definition redis_subsystem_lock ::
  "('e, 'w) redis_api \<Rightarrow> ustring \<Rightarrow> int \<Rightarrow> (nat \<Rightarrow> ustring) \<Rightarrow> ('e, 'w) redis_lock" where
  "redis_subsystem_lock api keyPrefix lockTimeout uuid =
     \<lparr>rl_api = api, rl_keyPrefix = keyPrefix @ ascii ''lock:'', rl_lockTimeout = lockTimeout, rl_uuid = uuid\<rparr>"

definition redis_subsystem_awaiter ::
  "('e, 'w) redis_api \<Rightarrow> ustring \<Rightarrow> ('w \<Rightarrow> int) \<Rightarrow> (int \<Rightarrow> 'w \<Rightarrow> 'w) \<Rightarrow> ('e, 'w) redis_awaiter" where
  "redis_subsystem_awaiter api keyPrefix now sleep =
     \<lparr>aw_api = api, aw_keyPrefix = keyPrefix @ ascii ''awaiter:'', aw_now = now, aw_sleep = sleep\<rparr>"

subsection \<open>The lock is exclusive\<close>

text \<open>
  What the lock relies on: the documented behaviour of the server, keys that may expire at any
  moment, and identifiers that do not repeat.
\<close>

definition lock_laws ::
  "('e, 'w) redis_lock \<Rightarrow> ('w \<Rightarrow> ustring \<Rightarrow> ustring option) \<Rightarrow> (ustring \<Rightarrow> 'w \<Rightarrow> 'w) \<Rightarrow> bool" where
  "lock_laws l strings expire \<longleftrightarrow>
     string_laws (rl_api l) strings \<and>
     runs_script (rl_api l) strings compareAndDelete compareAndDelete_body
       (\<lambda>keys args. length keys = 1 \<and> length args = 1) \<and>
     runs_script (rl_api l) strings compareAndExtend compareAndExtend_body
       (\<lambda>keys args. length keys = 1 \<and> length args = 2) \<and>
     runs_script (rl_api l) strings compareOnly compareOnly_body
       (\<lambda>keys args. length keys = 1 \<and> length args = 1) \<and>
     (\<forall>k w. strings (expire k w) = (strings w)(k := None)) \<and> inj (rl_uuid l)"

lemma tryAcquire_result:
  assumes "lock_laws l strings expire"
  obtains w' where "lock_tryAcquire l a st = Some (Inr True,
      st\<lparr>ls_uuids := Suc (ls_uuids st), ls_world := w', ls_tokens := (ls_tokens st)(a \<mapsto> rl_uuid l (ls_uuids st))\<rparr>)"
      "strings (ls_world st) (lock_key l a) = None"
      "strings w' = (strings (ls_world st))(lock_key l a \<mapsto> rl_uuid l (ls_uuids st))"
  | "lock_tryAcquire l a st = Some (Inr False, st\<lparr>ls_uuids := Suc (ls_uuids st)\<rparr>)"
      "strings (ls_world st) (lock_key l a) \<noteq> None"
proof (cases "strings (ls_world st) (lock_key l a)")
  case None
  then obtain w' where "ra_set (rl_api l) (lock_key l a) (rl_uuid l (ls_uuids st))
        (if rl_lockTimeout l > 0 then Some (rl_lockTimeout l) else None) (Some NX) (ls_world st) = Some (Inr True, w')"
      "strings w' = (strings (ls_world st))(lock_key l a \<mapsto> rl_uuid l (ls_uuids st))"
    using assms unfolding lock_laws_def string_laws_def by blast
  then show ?thesis
    using None that(1) by (simp add: lock_tryAcquire_def eff_defs on_world_def)
next
  case (Some t)
  then have "ra_set (rl_api l) (lock_key l a) (rl_uuid l (ls_uuids st))
      (if rl_lockTimeout l > 0 then Some (rl_lockTimeout l) else None) (Some NX) (ls_world st) =
      Some (Inr False, ls_world st)"
    using assms unfolding lock_laws_def string_laws_def by blast
  then show ?thesis
    using Some that(2) by (simp add: lock_tryAcquire_def eff_defs on_world_def)
qed

lemma release_result:
  assumes "lock_laws l strings expire" "ls_tokens st a = Some t"
  obtains w' where "lock_release l a st = Some (Inr (strings (ls_world st) (lock_key l a) = Some t),
      st\<lparr>ls_world := w', ls_tokens := (ls_tokens st)(a := None)\<rparr>)"
    "strings w' = (if strings (ls_world st) (lock_key l a) = Some t
      then (strings (ls_world st))(lock_key l a := None) else strings (ls_world st))"
proof -
  let ?b = "compareAndDelete_body [lock_key l a] [t] (strings (ls_world st))"
  have "length [lock_key l a] = 1 \<and> length [t] = 1" by simp
  then obtain w' where "ra_eval (rl_api l) compareAndDelete [lock_key l a] [t] False (ls_world st) =
      Some (Inr (Some (fst ?b)), w')" "strings w' = snd ?b"
    using assms(1) unfolding lock_laws_def runs_script_def by blast
  then show ?thesis
    using assms(2) that [of w']
    by (simp add: lock_release_def eff_defs on_world_def forget_token_def compareAndDelete_body_def split: if_splits)
qed

lemma renew_result:
  assumes "lock_laws l strings expire" "ls_tokens st a = Some t"
  obtains w' where "lock_renew l a st = Some (Inr (strings (ls_world st) (lock_key l a) = Some t),
      st\<lparr>ls_world := w', ls_tokens :=
        (if strings (ls_world st) (lock_key l a) = Some t then ls_tokens st else (ls_tokens st)(a := None))\<rparr>)"
    "strings w' = strings (ls_world st)"
proof -
  let ?args = "if rl_lockTimeout l > 0 then [t, show_int (rl_lockTimeout l)] else [t]"
  let ?script = "if rl_lockTimeout l > 0 then compareAndExtend else compareOnly"
  let ?answer = "if strings (ls_world st) (lock_key l a) = Some t then 1 else 0"
  have lens: "length [lock_key l a] = 1 \<and> length [t, show_int (rl_lockTimeout l)] = 2"
      "length [lock_key l a] = 1 \<and> length [t] = 1"
    by simp_all
  have "\<exists>w'. ra_eval (rl_api l) compareAndExtend [lock_key l a] [t, show_int (rl_lockTimeout l)] True (ls_world st) =
      Some (Inr (Some ?answer), w') \<and> strings w' = strings (ls_world st)"
  proof -
    have b: "compareAndExtend_body [lock_key l a] [t, show_int (rl_lockTimeout l)] (strings (ls_world st)) =
        (?answer, strings (ls_world st))"
      by (simp add: compareAndExtend_body_def)
    show ?thesis
      using assms(1) lens(1) b unfolding lock_laws_def runs_script_def by (metis fst_conv snd_conv)
  qed
  moreover have "\<exists>w'. ra_eval (rl_api l) compareOnly [lock_key l a] [t] True (ls_world st) =
      Some (Inr (Some ?answer), w') \<and> strings w' = strings (ls_world st)"
  proof -
    have b: "compareOnly_body [lock_key l a] [t] (strings (ls_world st)) = (?answer, strings (ls_world st))"
      by (simp add: compareOnly_body_def)
    show ?thesis
      using assms(1) lens(2) b unfolding lock_laws_def runs_script_def by (metis fst_conv snd_conv)
  qed
  ultimately obtain w' where "ra_eval (rl_api l) ?script [lock_key l a] ?args True (ls_world st) =
      Some (Inr (Some ?answer), w')" "strings w' = strings (ls_world st)"
    by (cases "rl_lockTimeout l > 0") auto
  then show ?thesis
    using assms(2) that [of w']
    by (simp add: lock_renew_def eff_defs on_world_def forget_token_def split: if_splits)
qed

text \<open>Every token was given out once, and belongs to one process and actor.\<close>

definition lock_inv ::
  "('e, 'w) redis_lock \<Rightarrow> ('w \<Rightarrow> ustring \<Rightarrow> ustring option) \<Rightarrow> 'w lock_system \<Rightarrow> bool" where
  "lock_inv l strings s \<longleftrightarrow>
     (\<forall>p a t. lk_tokens s p a = Some t \<longrightarrow> t \<in> rl_uuid l ` {..<lk_uuids s}) \<and>
     (\<forall>p q a b t. lk_tokens s p a = Some t \<longrightarrow> lk_tokens s q b = Some t \<longrightarrow> p = q \<and> a = b)"

lemma lock_inv_less:
  assumes "lock_inv l strings s" "lk_uuids s \<le> lk_uuids s'"
    and "\<And>p a t. lk_tokens s' p a = Some t \<Longrightarrow> lk_tokens s p a = Some t"
  shows "lock_inv l strings s'"
proof -
  have "rl_uuid l ` {..<lk_uuids s} \<subseteq> rl_uuid l ` {..<lk_uuids s'}"
    using assms(2) by (intro image_mono) auto
  then show ?thesis
    using assms(1,3) unfolding lock_inv_def by blast
qed

lemma lock_inv_fresh:
  assumes "lock_inv l strings s" "inj (rl_uuid l)" "lk_uuids s' = Suc (lk_uuids s)"
    and "lk_tokens s' = (lk_tokens s)(p := (lk_tokens s p)(a \<mapsto> rl_uuid l (lk_uuids s)))"
  shows "lock_inv l strings s'"
proof -
  have fresh: "rl_uuid l (lk_uuids s) \<notin> rl_uuid l ` {..<lk_uuids s}"
    using assms(2) by (auto simp: inj_def)
  have old: "lk_tokens s q b = Some t \<Longrightarrow> t \<in> rl_uuid l ` {..<lk_uuids s}" for q b t
    using assms(1) unfolding lock_inv_def by blast
  have "t \<in> rl_uuid l ` {..<lk_uuids s'}" if "lk_tokens s' q b = Some t" for q b t
    using that old [of q b t] assms(3,4) by (auto simp: lessThan_Suc split: if_splits)
  moreover have "q = q' \<and> b = b'" if "lk_tokens s' q b = Some t" "lk_tokens s' q' b' = Some t" for q q' b b' t
  proof -
    have "(q = p \<and> b = a \<and> t = rl_uuid l (lk_uuids s)) \<or> lk_tokens s q b = Some t"
        "(q' = p \<and> b' = a \<and> t = rl_uuid l (lk_uuids s)) \<or> lk_tokens s q' b' = Some t"
      using that assms(4) by (auto split: if_splits)
    then show ?thesis
      using fresh old assms(1) unfolding lock_inv_def by metis
  qed
  ultimately show ?thesis
    unfolding lock_inv_def by blast
qed

lemma ascii_inj: "ascii a = ascii b \<longleftrightarrow> a = b"
proof -
  have "inj (\<lambda>c. of_nat (of_char c) :: u16)"
  proof (rule injI)
    fix c d :: char
    assume "(of_nat (of_char c) :: u16) = of_nat (of_char d)"
    then have "unat (of_nat (of_char c) :: u16) = unat (of_nat (of_char d) :: u16)" by simp
    moreover have "(of_char c :: nat) < 65536" "(of_char d :: nat) < 65536"
      using nat_of_char_less_256 [of c] nat_of_char_less_256 [of d] by linarith+
    ultimately have "(of_char c :: nat) = of_char d"
      by (simp add: unat_of_nat)
    then show "c = d" by simp
  qed
  then show ?thesis
    by (simp add: ascii_def inj_map_eq_map)
qed

lemma lock_key_eq: "lock_key l a = lock_key l b \<longleftrightarrow> a = b"
  by (simp add: lock_key_def ascii_inj)

lemma step_tryAcquire:
  assumes "lock_laws l strings expire" "lock_step l expire (TryAcquire p a) s = (answer, s')"
  shows "answer = Some (strings (lk_world s) (lock_key l a) = None) \<and> lk_uuids s' = Suc (lk_uuids s) \<and>
    (if strings (lk_world s) (lock_key l a) = None
     then lk_tokens s' = (lk_tokens s)(p := (lk_tokens s p)(a \<mapsto> rl_uuid l (lk_uuids s))) \<and>
       strings (lk_world s') = (strings (lk_world s))(lock_key l a \<mapsto> rl_uuid l (lk_uuids s))
     else lk_tokens s' = lk_tokens s \<and> strings (lk_world s') = strings (lk_world s))"
  using assms(2)
  by (rule_tac tryAcquire_result [OF assms(1), of a
        "\<lparr>ls_world = lk_world s, ls_tokens = lk_tokens s p, ls_uuids = lk_uuids s\<rparr>"])
    (auto simp: run_op_def fun_upd_idem)

lemma step_release:
  assumes "lock_laws l strings expire" "lock_step l expire (Release p a) s = (answer, s')"
  shows "answer = Some (owns l strings s p a) \<and> lk_uuids s' = lk_uuids s \<and>
    lk_tokens s' = (lk_tokens s)(p := (lk_tokens s p)(a := None)) \<and>
    strings (lk_world s') = (if owns l strings s p a then (strings (lk_world s))(lock_key l a := None)
      else strings (lk_world s))"
proof (cases "lk_tokens s p a")
  case None
  then show ?thesis
    using assms(2)
    by (auto simp: run_op_def lock_release_def eff_defs owns_def fun_upd_idem)
next
  case (Some t)
  let ?st = "\<lparr>ls_world = lk_world s, ls_tokens = lk_tokens s p, ls_uuids = lk_uuids s\<rparr>"
  have "ls_tokens ?st a = Some t" using Some by simp
  from release_result [OF assms(1) this] obtain w'
    where "lock_release l a ?st = Some (Inr (strings (ls_world ?st) (lock_key l a) = Some t),
        ?st\<lparr>ls_world := w', ls_tokens := (ls_tokens ?st)(a := None)\<rparr>)"
      "strings w' = (if strings (ls_world ?st) (lock_key l a) = Some t
        then (strings (ls_world ?st))(lock_key l a := None) else strings (ls_world ?st))"
    by blast
  then show ?thesis
    using assms(2) Some by (auto simp: run_op_def owns_def)
qed

lemma step_renew:
  assumes "lock_laws l strings expire" "lock_step l expire (Renew p a) s = (answer, s')"
  shows "answer = Some (owns l strings s p a) \<and> lk_uuids s' = lk_uuids s \<and>
    lk_tokens s' = (if owns l strings s p a then lk_tokens s
      else (lk_tokens s)(p := (lk_tokens s p)(a := None))) \<and>
    strings (lk_world s') = strings (lk_world s)"
proof (cases "lk_tokens s p a")
  case None
  then show ?thesis
    using assms(2)
    by (auto simp: run_op_def lock_renew_def eff_defs owns_def fun_upd_idem)
next
  case (Some t)
  let ?st = "\<lparr>ls_world = lk_world s, ls_tokens = lk_tokens s p, ls_uuids = lk_uuids s\<rparr>"
  have "ls_tokens ?st a = Some t" using Some by simp
  from renew_result [OF assms(1) this] obtain w'
    where "lock_renew l a ?st = Some (Inr (strings (ls_world ?st) (lock_key l a) = Some t),
        ?st\<lparr>ls_world := w', ls_tokens :=
          (if strings (ls_world ?st) (lock_key l a) = Some t then ls_tokens ?st else (ls_tokens ?st)(a := None))\<rparr>)"
      "strings w' = strings (ls_world ?st)"
    by blast
  then show ?thesis
    using assms(2) Some by (auto simp: run_op_def owns_def fun_upd_idem)
qed

lemma lock_inv_step:
  assumes "lock_laws l strings expire" "lock_inv l strings s"
  shows "lock_inv l strings (snd (lock_step l expire ev s))"
proof -
  obtain answer s' where s': "lock_step l expire ev s = (answer, s')" by (cases "lock_step l expire ev s")
  have inj: "inj (rl_uuid l)" using assms(1) by (simp add: lock_laws_def)
  show ?thesis
  proof (cases ev)
    case (TryAcquire p a)
    note r = step_tryAcquire [OF assms(1) s' [unfolded TryAcquire]]
    show ?thesis
    proof (cases "strings (lk_world s) (lock_key l a) = None")
      case True
      then show ?thesis using r s' by (auto intro: lock_inv_fresh [OF assms(2) inj])
    next
      case False
      then show ?thesis using r s' by (auto intro: lock_inv_less [OF assms(2)])
    qed
  next
    case (Release p a)
    then show ?thesis
      using step_release [OF assms(1) s' [unfolded Release]] s'
      by (auto intro!: lock_inv_less [OF assms(2)] split: if_splits)
  next
    case (Renew p a)
    then show ?thesis
      using step_renew [OF assms(1) s' [unfolded Renew]] s'
      by (auto intro!: lock_inv_less [OF assms(2)] split: if_splits)
  next
    case (Expire a)
    then show ?thesis by (auto intro: lock_inv_less [OF assms(2)])
  qed
qed

lemma lock_inv_run:
  assumes "lock_laws l strings expire"
  shows "lock_inv l strings (lock_run l expire w es)"
proof -
  have "lock_inv l strings s \<Longrightarrow> lock_inv l strings (fold (\<lambda>ev s. snd (lock_step l expire ev s)) es s)" for s
    using lock_inv_step [OF assms] by (induction es arbitrary: s) simp_all
  moreover have "lock_inv l strings \<lparr>lk_world = w, lk_tokens = (\<lambda>_. Map.empty), lk_uuids = 0\<rparr>"
    by (simp add: lock_inv_def)
  ultimately show ?thesis
    by (simp add: lock_run_def)
qed

text \<open>
  C15: The lock is exclusive although leases expire unnoticed: in every reachable state at most
  one process owns an actor; \<open>release\<close> and \<open>renew\<close> answer exactly whether the caller owns it,
  and change what the server holds only when it does; \<open>tryAcquire\<close> succeeds exactly when
  nothing is held; and only its own release or the expiry of its lease ends an ownership.
\<close>

theorem redis_lock_is_exclusive:
  assumes "lock_laws l strings expire" "s = lock_run l expire w es"
  shows "(owns l strings s p a \<and> owns l strings s q a \<longrightarrow> p = q) \<and>
    fst (lock_step l expire (TryAcquire p a) s) = Some (strings (lk_world s) (lock_key l a) = None) \<and>
    (strings (lk_world s) (lock_key l a) = None \<longrightarrow>
       owns l strings (snd (lock_step l expire (TryAcquire p a) s)) p a) \<and>
    fst (lock_step l expire (Release p a) s) = Some (owns l strings s p a) \<and>
    strings (lk_world (snd (lock_step l expire (Release p a) s))) =
      (if owns l strings s p a then (strings (lk_world s))(lock_key l a := None) else strings (lk_world s)) \<and>
    fst (lock_step l expire (Renew p a) s) = Some (owns l strings s p a) \<and>
    strings (lk_world (snd (lock_step l expire (Renew p a) s))) = strings (lk_world s) \<and>
    (owns l strings s p a \<and> ev \<noteq> Release p a \<and> ev \<noteq> Expire a \<longrightarrow>
       owns l strings (snd (lock_step l expire ev s)) p a)"
proof -
  obtain b1 s1 where t: "lock_step l expire (TryAcquire p a) s = (b1, s1)" by (cases "lock_step l expire (TryAcquire p a) s")
  obtain b2 s2 where r: "lock_step l expire (Release p a) s = (b2, s2)" by (cases "lock_step l expire (Release p a) s")
  obtain b3 s3 where n: "lock_step l expire (Renew p a) s = (b3, s3)" by (cases "lock_step l expire (Renew p a) s")
  have inv: "lock_inv l strings s"
    using lock_inv_run [OF assms(1)] assms(2) by simp
  have unique: "p = q" if "owns l strings s p a" "owns l strings s q a"
    using that inv unfolding owns_def lock_inv_def by (metis not_None_eq)
  have stays: "owns l strings s' p a"
    if o: "owns l strings s p a" and ev: "ev \<noteq> Release p a" "ev \<noteq> Expire a"
      and s': "lock_step l expire ev s = (answer, s')" for answer s'
  proof (cases ev)
    case (TryAcquire q b)
    then show ?thesis
      using step_tryAcquire [OF assms(1) s' [unfolded TryAcquire]] o
      by (auto simp: owns_def lock_key_eq split: if_splits)
  next
    case (Release q b)
    have "\<not> (b = a \<and> owns l strings s q b)"
      using inv o ev(1) Release unfolding owns_def lock_inv_def by (metis not_None_eq)
    moreover have "\<not> (q = p \<and> b = a)" using ev(1) Release by simp
    ultimately show ?thesis
      using step_release [OF assms(1) s' [unfolded Release]] o
      by (auto simp: owns_def lock_key_eq split: if_splits)
  next
    case (Renew q b)
    have "lk_tokens s' p a = lk_tokens s p a"
      using step_renew [OF assms(1) s' [unfolded Renew]] o by (auto split: if_splits)
    then show ?thesis
      using step_renew [OF assms(1) s' [unfolded Renew]] o by (simp add: owns_def)
  next
    case (Expire b)
    then show ?thesis
      using s' ev(2) o assms(1) by (auto simp: owns_def lock_laws_def lock_key_eq)
  qed
  obtain b4 s4 where e: "lock_step l expire ev s = (b4, s4)" by (cases "lock_step l expire ev s")
  note t' = step_tryAcquire [OF assms(1) t]
  have "owns l strings s1 p a" if "strings (lk_world s) (lock_key l a) = None"
    using t' that by (simp add: owns_def)
  moreover have "owns l strings s p a \<and> ev \<noteq> Release p a \<and> ev \<noteq> Expire a \<longrightarrow> owns l strings s4 p a"
    using stays [OF _ _ _ e] by blast
  ultimately show ?thesis
    using t' step_release [OF assms(1) r] step_renew [OF assms(1) n] unique
    by (simp only: t r n e fst_conv snd_conv simp_thms) blast
qed

subsection \<open>The queue keeps the contract of a queue\<close>

text \<open>Messages survive the codec, and lists hold encoded messages.\<close>

definition queue_laws ::
  "('e, 'm, 'w) redis_queue \<Rightarrow> ('w \<Rightarrow> ustring \<Rightarrow> ustring list) \<Rightarrow> (ustring \<Rightarrow> 'm) \<Rightarrow> bool" where
  "queue_laws q lview dec \<longleftrightarrow>
     list_laws (rq_api q) lview \<and> 0 < rq_ttlSeconds q \<and>
     (\<forall>m. dec (rq_encode q m) = m) \<and>
     (\<forall>w k. \<forall>t\<in>set (lview w k). rq_decode q t = return_eff (dec t))"

definition queue_view ::
  "('e, 'm, 'w) redis_queue \<Rightarrow> ('w \<Rightarrow> ustring \<Rightarrow> ustring list) \<Rightarrow> (ustring \<Rightarrow> 'm) \<Rightarrow> 'w \<Rightarrow> string \<Rightarrow> 'm list" where
  "queue_view q lview dec w a = map dec (lview w (queue_key q a))"

lemma queue_key_eq: "queue_key q a = queue_key q b \<longleftrightarrow> a = b"
  by (simp add: queue_key_def ascii_inj)

lemma queue_view_upd:
  "lview w' = (lview w)(queue_key q a := ts) \<Longrightarrow>
   queue_view q lview dec w' = (queue_view q lview dec w)(a := map dec ts)"
  by (auto simp: queue_view_def queue_key_eq fun_eq_iff)

lemma decode_all_result:
  "\<forall>t\<in>set ts. rq_decode q t = return_eff (dec t) \<Longrightarrow> decode_all q ts w = Some (Inr (map dec ts), w)"
  by (induction ts) (simp_all add: eff_defs)

text \<open>
  C16: The Redis queue implements the same contract as the in-process queue: it is first in
  first out per actor, the depth, \<open>peek\<close>, \<open>pop\<close> and \<open>flush\<close> answer what was pushed, and no
  operation touches the queue of another actor.
\<close>

theorem redis_queue_is_fifo:
  assumes "queue_laws q lview dec"
  shows "fifo_queue (queue_view q lview dec) (queue_size q) (queue_push q) (queue_pop q) (queue_peek q)
    (queue_flush q)"
proof
  fix a s and m :: 'b
  let ?k = "queue_key q a"
  have laws: "list_laws (rq_api q) lview" "0 < rq_ttlSeconds q" "dec (rq_encode q m) = m"
      "\<forall>t\<in>set (lview s ?k). rq_decode q t = return_eff (dec t)"
    using assms by (simp_all add: queue_laws_def)
  show "queue_size q a s = Some (Inr (length (queue_view q lview dec s a)), s)"
    using laws(1) by (simp add: queue_size_def queue_view_def list_laws_def)
  show "queue_peek q a s =
      Some (Inr (case queue_view q lview dec s a of [] \<Rightarrow> None | m # _ \<Rightarrow> Some m), s)"
    using laws(1,4)
    by (cases "lview s ?k")
      (simp_all add: queue_peek_def queue_view_def list_laws_def eff_defs decode_maybe_def)
  obtain w1 where w1: "ra_rpush (rq_api q) ?k [rq_encode q m] s =
      Some (Inr (length (lview s ?k @ [rq_encode q m])), w1)"
      "lview w1 = (lview s)(?k := lview s ?k @ [rq_encode q m])"
    using list_lawsD(2) [OF laws(1)] by blast
  obtain b w2 where w2: "ra_expire (rq_api q) ?k (rq_ttlSeconds q) w1 = Some (Inr b, w2)" "lview w2 = lview w1"
    using list_lawsD(3) [OF laws(1,2)] by blast
  show "\<exists>s'. queue_push q a m s = Some (Inr (Suc (length (queue_view q lview dec s a))), s') \<and>
      queue_view q lview dec s' = (queue_view q lview dec s)(a := queue_view q lview dec s a @ [m])"
    using w1 w2 laws(3) queue_view_upd [of lview w2 s q a "lview s ?k @ [rq_encode q m]" dec]
    by (simp add: queue_push_def eff_defs queue_view_def)
  obtain w3 where w3: "ra_lpop (rq_api q) ?k s =
      Some (Inr (if lview s ?k = [] then None else Some (hd (lview s ?k))), w3)"
      "lview w3 = (lview s)(?k := tl (lview s ?k))"
    using list_lawsD(4) [OF laws(1)] by blast
  show "\<exists>s'. queue_pop q a s =
      Some (Inr (case queue_view q lview dec s a of [] \<Rightarrow> None | m # _ \<Rightarrow> Some m), s') \<and>
      queue_view q lview dec s' = (queue_view q lview dec s)(a := tl (queue_view q lview dec s a))"
    using w3 laws(4) queue_view_upd [OF w3(2), of dec]
    by (cases "lview s ?k") (simp_all add: queue_pop_def eff_defs decode_maybe_def queue_view_def)
  show "\<exists>s'. queue_flush q a s = Some (Inr (queue_view q lview dec s a), s') \<and>
      queue_view q lview dec s' = (queue_view q lview dec s)(a := [])"
  proof (cases "lview s ?k = []")
    case True
    have range: "ra_lrange (rq_api q) ?k 0 (- 1) s = Some (Inr [], s)"
      using laws(1) True by (simp add: list_laws_def list_range_all)
    have empty: "queue_view q lview dec s a = []"
      using True by (simp add: queue_view_def)
    then have "queue_view q lview dec s = (queue_view q lview dec s)(a := [])"
      by (simp add: fun_eq_iff)
    then show ?thesis
      using range empty by (simp add: queue_flush_def eff_defs)
  next
    case False
    have range: "ra_lrange (rq_api q) ?k 0 (- 1) s = Some (Inr (lview s ?k), s)"
      using laws(1) by (simp add: list_laws_def list_range_all)
    obtain w4 where w4: "ra_ltrim (rq_api q) ?k (int (length (lview s ?k))) (- 1) s = Some (Inr True, w4)"
        "lview w4 = (lview s)(?k := list_range (int (length (lview s ?k))) (- 1) (lview s ?k))"
      using list_lawsD(7) [OF laws(1)] by blast
    have "lview w4 = (lview s)(?k := [])"
      using w4(2) list_range_from [of "length (lview s ?k)" "lview s ?k"] by simp
    then have "queue_view q lview dec w4 = (queue_view q lview dec s)(a := [])"
      using queue_view_upd [of lview w4 s q a "[]" dec] by simp
    then show ?thesis
      using range w4(1) False decode_all_result [OF laws(4), of s]
      by (simp add: queue_flush_def eff_defs queue_view_def)
  qed
qed

subsection \<open>The awaiter always answers\<close>

text \<open>Time does not go back, and a sleep takes at least as long as asked.\<close>

definition awaiter_laws :: "('e, 'w) redis_awaiter \<Rightarrow> bool" where
  "awaiter_laws a \<longleftrightarrow>
     (\<forall>k w. \<exists>r w'. ra_get (aw_api a) k w = Some (r, w') \<and> aw_now a w \<le> aw_now a w') \<and>
     (\<forall>ms w. 0 \<le> ms \<longrightarrow> aw_now a w + ms \<le> aw_now a (aw_sleep a ms w))"

text \<open>One poll, with the names of the source.\<close>

lemma wait_loop_poll:
  assumes "ra_get (aw_api a) key w = Some (r, w1)" "remain = deadline - aw_now a w1"
    and "w2 = aw_sleep a (max 0 (min sleepIntervalMillis remain)) w1" "r \<noteq> Inr (Some resolvedValue)"
  obtains answered' lastError' where "remain > 0 \<Longrightarrow>
      wait_loop (Suc n) a key deadline answered lastError w = wait_loop n a key deadline answered' lastError' w2"
    "remain \<le> 0 \<Longrightarrow>
      \<exists>r'. wait_loop (Suc n) a key deadline answered lastError w = Some (r', w2)"
  using assms by (auto simp: Let_def)

lemma wait_loop_ends:
  assumes "awaiter_laws a" "deadline - aw_now a w \<le> 50 * int n"
  shows "\<exists>r w'. wait_loop (Suc n) a key deadline answered lastError w = Some (r, w') \<and>
    (r = Inr True \<or> deadline \<le> aw_now a w')"
  using assms(2)
proof (induction n arbitrary: w answered lastError)
  case (0 w answered lastError)
  obtain r w1 where get: "ra_get (aw_api a) key w = Some (r, w1)" "aw_now a w \<le> aw_now a w1"
    using assms(1) unfolding awaiter_laws_def by blast
  define remain where "remain = deadline - aw_now a w1"
  define w2 where "w2 = aw_sleep a (max 0 (min sleepIntervalMillis remain)) w1"
  have remain: "remain \<le> 0" using 0 get(2) by (simp add: remain_def)
  then have "aw_now a w1 + 0 \<le> aw_now a w2"
    using assms(1) unfolding awaiter_laws_def w2_def by (metis max.absorb1 min.coboundedI2 order_refl)
  then have w2: "deadline \<le> aw_now a w2" using remain by (simp add: remain_def)
  show ?case
  proof (cases "r = Inr (Some resolvedValue)")
    case True
    then show ?thesis using get(1) by simp
  next
    case False
    then show ?thesis
      using wait_loop_poll [OF get(1) remain_def w2_def False, of 0 answered lastError] remain w2 by blast
  qed
next
  case (Suc n w answered lastError)
  obtain r w1 where get: "ra_get (aw_api a) key w = Some (r, w1)" "aw_now a w \<le> aw_now a w1"
    using assms(1) unfolding awaiter_laws_def by blast
  define remain where "remain = deadline - aw_now a w1"
  define w2 where "w2 = aw_sleep a (max 0 (min sleepIntervalMillis remain)) w1"
  have w2: "aw_now a w1 + max 0 (min sleepIntervalMillis remain) \<le> aw_now a w2"
    using assms(1) unfolding awaiter_laws_def w2_def by simp
  show ?case
  proof (cases "r = Inr (Some resolvedValue)")
    case True
    then show ?thesis using get(1) by simp
  next
    case False
    obtain answered' lastError' where poll:
        "remain > 0 \<Longrightarrow> wait_loop (Suc (Suc n)) a key deadline answered lastError w =
           wait_loop (Suc n) a key deadline answered' lastError' w2"
        "remain \<le> 0 \<Longrightarrow> \<exists>r'. wait_loop (Suc (Suc n)) a key deadline answered lastError w = Some (r', w2)"
      using wait_loop_poll [OF get(1) remain_def w2_def False, of "Suc n" answered lastError] by blast
    show ?thesis
    proof (cases "remain > 0")
      case True
      then have "deadline - aw_now a w2 \<le> 50 * int n"
        using Suc.prems get(2) w2 by (auto simp: remain_def sleepIntervalMillis_def min_def max_def split: if_splits)
      from Suc.IH [OF this] show ?thesis
        unfolding poll(1) [OF True] .
    next
      case False
      then have "deadline \<le> aw_now a w2" using w2 by (simp add: remain_def)
      then show ?thesis using poll(2) False by fastforce
    qed
  qed
qed

text \<open>
  The awaiter always answers: within \<open>timeoutMillis div 50 + 2\<close> polls it answers true, or
  its deadline has passed; a marker that is there at once is seen by the first poll, and
  \<open>resolve\<close> never fails.
\<close>

theorem redis_awaiter_always_answers:
  assumes "awaiter_laws a" "0 < timeoutMillis"
  shows "(\<exists>r w'. awaiter_wait a i m timeoutMillis w = Some (r, w') \<and>
      (r = Inr True \<or> aw_now a w + timeoutMillis \<le> aw_now a w')) \<and>
    (ra_get (aw_api a) (awaiter_key a i m) w = Some (Inr (Some resolvedValue), w1) \<longrightarrow>
      awaiter_wait a i m timeoutMillis w = Some (Inr True, w1)) \<and>
    (ra_set (aw_api a) (awaiter_key a i m) resolvedValue (Some resolvedExpirationMillis) None w = Some (r, w2) \<longrightarrow>
      awaiter_resolve a i m w = Some (Inr (), w2))"
proof -
  have "n \<le> 50 * (n div 50 + 1)" for n :: nat
    by presburger
  from this [of "nat timeoutMillis"] have "timeoutMillis \<le> 50 * int (nat timeoutMillis div 50 + 1)"
    using assms(2) by linarith
  then have "\<exists>r w'. wait_loop (Suc (nat timeoutMillis div 50 + 1)) a (awaiter_key a i m)
      (aw_now a w + timeoutMillis) False None w = Some (r, w') \<and>
      (r = Inr True \<or> aw_now a w + timeoutMillis \<le> aw_now a w')"
    by (intro wait_loop_ends [OF assms(1)]) simp
  moreover have "polls timeoutMillis = Suc (nat timeoutMillis div 50 + 1)"
    by (simp add: polls_def)
  ultimately show ?thesis
    using assms(2)
    by (auto simp: awaiter_wait_def awaiter_resolve_def eff_defs split: sum.splits)
qed

subsection \<open>Witnesses\<close>

definition demoBodies ::
  "ustring \<Rightarrow> ustring list \<Rightarrow> ustring list \<Rightarrow> (ustring \<Rightarrow> ustring option) \<Rightarrow> int \<times> (ustring \<Rightarrow> ustring option)" where
  "demoBodies script =
     (if script = compareAndDelete then compareAndDelete_body
      else if script = compareAndExtend then compareAndExtend_body else compareOnly_body)"

lemma scripts_differ:
  "compareAndExtend \<noteq> compareAndDelete" "compareOnly \<noteq> compareAndDelete" "compareOnly \<noteq> compareAndExtend"
  unfolding compareAndExtend_def compareAndDelete_def compareOnly_def ascii_inj by simp_all

definition demoLock :: "(unit, demo_server) redis_lock" where
  "demoLock = redis_subsystem_lock (demoRedis demoBodies) (ascii ''p:'') 1000 (\<lambda>n. replicate n 120)"

definition demoExpire :: "ustring \<Rightarrow> demo_server \<Rightarrow> demo_server" where
  "demoExpire k w = w\<lparr>ds_strings := (ds_strings w)(k := None)\<rparr>"

lemma demo_lock_laws: "lock_laws demoLock ds_strings demoExpire"
proof -
  have "inj (\<lambda>n. replicate n (120 :: u16))"
    by (rule injI) (metis length_replicate)
  then show ?thesis
    by (simp add: lock_laws_def demoLock_def redis_subsystem_lock_def demo_string_laws demo_runs_script
        demoBodies_def scripts_differ demoExpire_def)
qed

text \<open>Process 1 takes the lock after the lease of process 0 expired; process 0 cannot release it.\<close>

theorem redis_lock_is_exclusive_witness:
  "owns demoLock ds_strings (lock_run demoLock demoExpire demoServer
     [TryAcquire 0 ''a'', Expire ''a'', TryAcquire 1 ''a'', Release 0 ''a'']) 1 ''a''"
proof -
  let ?es = "[TryAcquire 0 ''a'', Expire ''a'']"
  let ?s = "lock_run demoLock demoExpire demoServer ?es"
  have free: "ds_strings (lk_world ?s) (lock_key demoLock ''a'') = None"
    by (simp add: lock_run_def demoExpire_def)
  let ?s1 = "lock_run demoLock demoExpire demoServer (?es @ [TryAcquire 1 ''a''])"
  have "owns demoLock ds_strings (snd (lock_step demoLock demoExpire (TryAcquire 1 ''a'') ?s)) 1 ''a''"
    using redis_lock_is_exclusive [OF demo_lock_laws refl,
        of demoServer ?es 1 "''a''"] free by blast
  then have "owns demoLock ds_strings ?s1 1 ''a''"
    by (simp add: lock_run_def)
  then have "owns demoLock ds_strings (snd (lock_step demoLock demoExpire (Release 0 ''a'') ?s1)) 1 ''a''"
    using redis_lock_is_exclusive [OF demo_lock_laws refl,
        of demoServer "?es @ [TryAcquire 1 ''a'']" 1 "''a''" 0 "Release 0 ''a''"] by simp
  then show ?thesis
    by (simp add: lock_run_def)
qed

definition demoQueue :: "(unit, ustring, demo_server) redis_queue" where
  "demoQueue = the (redis_subsystem_queue (demoRedis demoBodies) (ascii ''p:'') (\<lambda>m. m) return_eff 900)"

theorem redis_queue_is_fifo_witness:
  "fifo_queue (queue_view demoQueue ds_lists id) (queue_size demoQueue) (queue_push demoQueue)
     (queue_pop demoQueue) (queue_peek demoQueue) (queue_flush demoQueue)"
  by (rule redis_queue_is_fifo)
    (simp add: queue_laws_def demoQueue_def redis_subsystem_queue_def createRedisQueue_def demo_list_laws)

text \<open>A store in which nothing ever appears, whose world is the clock.\<close>

definition demoAwaiter :: "(unit, demo_server) redis_awaiter" where
  "demoAwaiter = redis_subsystem_awaiter (demoRedis demoBodies) (ascii ''p:'') ds_clock
     (\<lambda>ms w. w\<lparr>ds_clock := ds_clock w + ms\<rparr>)"

theorem redis_awaiter_always_answers_witness:
  "\<exists>r w'. awaiter_wait demoAwaiter ''a'' ''m'' 120 demoServer = Some (r, w') \<and>
    (r = Inr True \<or> ds_clock demoServer + 120 \<le> ds_clock w')"
proof -
  have now: "aw_now demoAwaiter = ds_clock"
    by (simp add: demoAwaiter_def redis_subsystem_awaiter_def)
  have "awaiter_laws demoAwaiter"
    by (simp add: awaiter_laws_def demoAwaiter_def redis_subsystem_awaiter_def demoRedis_def eff_defs)
  then show ?thesis
    using redis_awaiter_always_answers [of demoAwaiter 120] unfolding now by simp
qed

end
