(* ===== verification/Repository.thy ===== *)
theory Repository
  imports Js_String Prelude "HOL-Library.AList"
begin

section \<open>Repositories and versioned documents (repository/src)\<close>

text \<open>
  A repository keeps values under keys; optional operations write with a time to live and
  conditionally on the revision that was read. Documents are read, modified and written back.
  The lemmas show that on a repository with conditional writes no update is lost, however
  many writers interleave, and that a writer that is left alone succeeds.
\<close>

subsection \<open>The interface (repository.ts)\<close>

text \<open>\<open>None\<close> as a value is \<open>undefined\<close>; \<open>JsonError\<close> is what the serializer or the parser throws.\<close>

datatype repo_error =
    ConcurrentModification ustring nat | CannotStoreUndefined | TtlRequired | JsonError | BackendError ustring

record ('v, 't) Revision =
  rev_value :: 'v
  rev_token :: 't

record ('v, 't, 'w) Repository =
  rp_get :: "ustring \<Rightarrow> (repo_error, 'v option, 'w) eff"
  rp_set :: "ustring \<Rightarrow> 'v option \<Rightarrow> (repo_error, unit, 'w) eff"
  rp_delete :: "ustring \<Rightarrow> (repo_error, unit, 'w) eff"
  rp_setWithExpire :: "(ustring \<Rightarrow> 'v option \<Rightarrow> int \<Rightarrow> (repo_error, unit, 'w) eff) option"
  rp_getRevision :: "(ustring \<Rightarrow> (repo_error, ('v, 't) Revision option, 'w) eff) option"
  rp_compareAndSet ::
    "(ustring \<Rightarrow> 't option \<Rightarrow> 'v option \<Rightarrow> int option \<Rightarrow> (repo_error, bool, 'w) eff) option"

definition isCasRepository :: "('v, 't, 'w) Repository \<Rightarrow> bool" where
  "isCasRepository r \<longleftrightarrow> rp_getRevision r \<noteq> None \<and> rp_compareAndSet r \<noteq> None"

definition isExpirableRepository :: "('v, 't, 'w) Repository \<Rightarrow> bool" where
  "isExpirableRepository r \<longleftrightarrow> rp_setWithExpire r \<noteq> None"

subsection \<open>Repositories over string primitives (createRepositoryFromKV)\<close>

record ('t, 'w) KVPrimitives =
  kv_get :: "ustring \<Rightarrow> (repo_error, ustring option, 'w) eff"
  kv_set :: "ustring \<Rightarrow> ustring \<Rightarrow> (repo_error, unit, 'w) eff"
  kv_delete :: "ustring \<Rightarrow> (repo_error, unit, 'w) eff"
  kv_setWithExpire :: "(ustring \<Rightarrow> ustring \<Rightarrow> int \<Rightarrow> (repo_error, unit, 'w) eff) option"
  kv_getRevision :: "(ustring \<Rightarrow> (repo_error, (ustring \<times> 't) option, 'w) eff) option"
  kv_compareAndSet ::
    "(ustring \<Rightarrow> 't option \<Rightarrow> ustring \<Rightarrow> int option \<Rightarrow> (repo_error, bool, 'w) eff) option"

definition serialize :: "('v \<Rightarrow> ustring) \<Rightarrow> 'v option \<Rightarrow> (repo_error, ustring, 'w) eff" where
  "serialize stringify v =
     (case v of None \<Rightarrow> throw_eff CannotStoreUndefined | Some x \<Rightarrow> return_eff (stringify x))"

definition json_parse :: "(ustring \<Rightarrow> 'v option) \<Rightarrow> ustring \<Rightarrow> (repo_error, 'v, 'w) eff" where
  "json_parse parse text =
     (case parse text of None \<Rightarrow> throw_eff JsonError | Some x \<Rightarrow> return_eff x)"

definition createRepositoryFromKV ::
  "('v \<Rightarrow> ustring) \<Rightarrow> (ustring \<Rightarrow> 'v option) \<Rightarrow> ('t, 'w) KVPrimitives \<Rightarrow> ('v, 't, 'w) Repository" where
  "createRepositoryFromKV stringify parse p =
     (let cas = kv_getRevision p \<noteq> None \<and> kv_compareAndSet p \<noteq> None in
      \<lparr>rp_get = (\<lambda>key. bind_eff (kv_get p key) (\<lambda>text.
         case text of None \<Rightarrow> return_eff None | Some t \<Rightarrow> bind_eff (json_parse parse t) (\<lambda>v. return_eff (Some v)))),
       rp_set = (\<lambda>key v. bind_eff (serialize stringify v) (kv_set p key)),
       rp_delete = kv_delete p,
       rp_setWithExpire = map_option (\<lambda>f key v ms. bind_eff (serialize stringify v) (\<lambda>t. f key t ms))
         (kv_setWithExpire p),
       rp_getRevision =
         (if \<not> cas then None
          else Some (\<lambda>key. bind_eff (the (kv_getRevision p) key) (\<lambda>rev.
            case rev of
              None \<Rightarrow> return_eff None
            | Some (t, token) \<Rightarrow>
                bind_eff (json_parse parse t) (\<lambda>v. return_eff (Some \<lparr>rev_value = v, rev_token = token\<rparr>))))),
       rp_compareAndSet =
         (if \<not> cas then None
          else Some (\<lambda>key token v ms. bind_eff (serialize stringify v) (\<lambda>t. the (kv_compareAndSet p) key token t ms)))\<rparr>)"

subsection \<open>The in-memory repository (memory.ts)\<close>

text \<open>\<open>tokenOf\<close> is the hash of the serialized value, a parameter; the clock is part of the world.\<close>

record ('v, 't) ExpirableEntry =
  en_expired :: int
  en_value :: 'v
  en_token :: 't

record ('v, 't) memory =
  mm_now :: int
  mm_store :: "ustring \<rightharpoonup> ('v, 't) ExpirableEntry"

definition live :: "ustring \<Rightarrow> ('v, 't) memory \<Rightarrow> ('v, 't) ExpirableEntry option" where
  "live key w =
     (case mm_store w key of
        None \<Rightarrow> None
      | Some entry \<Rightarrow> if en_expired entry > 0 \<and> en_expired entry < mm_now w then None else Some entry)"

definition mem_write :: "('v \<Rightarrow> 't) \<Rightarrow> ustring \<Rightarrow> 'v \<Rightarrow> int option \<Rightarrow> ('v, 't) memory \<Rightarrow> ('v, 't) memory" where
  "mem_write tokenOf key v expiresInMillis w =
     w\<lparr>mm_store := (mm_store w)(key \<mapsto>
        \<lparr>en_expired = (case expiresInMillis of Some ms \<Rightarrow> if ms > 0 then mm_now w + ms else 0 | None \<Rightarrow> 0),
         en_value = v, en_token = tokenOf v\<rparr>)\<rparr>"

text \<open>Writing \<open>undefined\<close> throws: its serialization cannot be hashed.\<close>

definition mem_put ::
  "('v \<Rightarrow> 't) \<Rightarrow> ustring \<Rightarrow> 'v option \<Rightarrow> int option \<Rightarrow> (repo_error, unit, ('v, 't) memory) eff" where
  "mem_put tokenOf key v ms =
     (case v of None \<Rightarrow> throw_eff JsonError | Some x \<Rightarrow> modify_eff (mem_write tokenOf key x ms))"

definition memory_getRevision ::
  "ustring \<Rightarrow> (repo_error, ('v, 't) Revision option, ('v, 't) memory) eff" where
  "memory_getRevision key =
     get_eff (\<lambda>w. map_option (\<lambda>e. \<lparr>rev_value = en_value e, rev_token = en_token e\<rparr>) (live key w))"

definition memory_compareAndSet ::
  "('v \<Rightarrow> 't) \<Rightarrow> ustring \<Rightarrow> 't option \<Rightarrow> 'v option \<Rightarrow> int option \<Rightarrow> (repo_error, bool, ('v, 't) memory) eff" where
  "memory_compareAndSet tokenOf key expectedToken v ms =
     bind_eff (get_eff (live key)) (\<lambda>entry.
       if map_option en_token entry \<noteq> expectedToken then return_eff False
       else then_eff (mem_put tokenOf key v ms) (return_eff True))"

definition createInMemoryRepository :: "('v \<Rightarrow> 't) \<Rightarrow> ('v, 't, ('v, 't) memory) Repository" where
  "createInMemoryRepository tokenOf =
     \<lparr>rp_get = (\<lambda>key. get_eff (\<lambda>w. map_option en_value (live key w))),
      rp_set = (\<lambda>key v. mem_put tokenOf key v None),
      rp_delete = (\<lambda>key. modify_eff (\<lambda>w. w\<lparr>mm_store := (mm_store w)(key := None)\<rparr>)),
      rp_setWithExpire = Some (\<lambda>key v ms. mem_put tokenOf key v (Some ms)),
      rp_getRevision = Some memory_getRevision,
      rp_compareAndSet = Some (memory_compareAndSet tokenOf)\<rparr>"

subsection \<open>Reading, modifying and writing a document (document/write.ts)\<close>

text \<open>Contents are arrays and objects, which are never falsy.\<close>

record 'c Versioned =
  vd_version :: nat
  vd_content :: 'c

record DocumentWriteOptions =
  dw_expiresInMillis :: "int option"
  dw_maxRetries :: nat

definition defaultMaxRetries :: nat where
  "defaultMaxRetries = 3"

definition ensureDocument :: "'c Versioned option \<Rightarrow> 'c \<Rightarrow> 'c Versioned" where
  "ensureDocument doc emptyContent =
     (case doc of
        None \<Rightarrow> \<lparr>vd_version = 0, vd_content = emptyContent\<rparr>
      | Some d \<Rightarrow> \<lparr>vd_version = vd_version d, vd_content = vd_content d\<rparr>)"

definition edited :: "('c \<Rightarrow> 'c) \<Rightarrow> 'c Versioned \<Rightarrow> 'c Versioned" where
  "edited modifier doc = \<lparr>vd_version = vd_version doc + 1, vd_content = modifier (vd_content doc)\<rparr>"

text \<open>The two halves of one attempt: the read with the modification, and the conditional write.\<close>

definition attempt_read ::
  "('c Versioned, 't, 'w) Repository \<Rightarrow> ustring \<Rightarrow> 'c \<Rightarrow> ('c \<Rightarrow> 'c) \<Rightarrow>
   (repo_error, 't option \<times> 'c Versioned, 'w) eff" where
  "attempt_read r key emptyContent modifier =
     bind_eff (the (rp_getRevision r) key) (\<lambda>revision.
       return_eff (map_option rev_token revision,
         edited modifier (ensureDocument (map_option rev_value revision) emptyContent)))"

definition attempt_write ::
  "('c Versioned, 't, 'w) Repository \<Rightarrow> ustring \<Rightarrow> DocumentWriteOptions \<Rightarrow> 't option \<Rightarrow> 'c Versioned \<Rightarrow>
   (repo_error, bool, 'w) eff" where
  "attempt_write r key opts token newDoc =
     the (rp_compareAndSet r) key token (Some newDoc) (dw_expiresInMillis opts)"

text \<open>The loop, by the number of retries that are left.\<close>

fun edit_loop ::
  "('c Versioned, 't, 'w) Repository \<Rightarrow> ustring \<Rightarrow> 'c \<Rightarrow> ('c \<Rightarrow> 'c) \<Rightarrow> DocumentWriteOptions \<Rightarrow> nat \<Rightarrow> nat \<Rightarrow>
   (repo_error, 'c Versioned, 'w) eff" where
  "edit_loop r key emptyContent modifier opts attempt left =
     bind_eff (attempt_read r key emptyContent modifier) (\<lambda>(token, newDoc).
       bind_eff (attempt_write r key opts token newDoc) (\<lambda>written.
         if written then return_eff newDoc
         else case left of
             0 \<Rightarrow> throw_eff (ConcurrentModification key (attempt + 1))
           | Suc k \<Rightarrow> edit_loop r key emptyContent modifier opts (attempt + 1) k))"

declare edit_loop.simps [simp del]

definition editDocument ::
  "('c Versioned, 't, 'w) Repository \<Rightarrow> ustring \<Rightarrow> 'c \<Rightarrow> ('c \<Rightarrow> 'c) \<Rightarrow> DocumentWriteOptions \<Rightarrow>
   (repo_error, 'c Versioned, 'w) eff" where
  "editDocument r key emptyContent modifier opts =
     (if \<not> isCasRepository r then
        bind_eff (rp_get r key) (\<lambda>actual.
          let newDoc = edited modifier (ensureDocument actual emptyContent) in
          then_eff
            (case (dw_expiresInMillis opts, rp_setWithExpire r) of
               (Some ms, Some setWithExpire) \<Rightarrow> setWithExpire key (Some newDoc) ms
             | _ \<Rightarrow> rp_set r key (Some newDoc))
            (return_eff newDoc))
      else edit_loop r key emptyContent modifier opts 0 (dw_maxRetries opts))"

subsection \<open>List and map documents (document/list.ts, document/map.ts)\<close>

definition read_document ::
  "('c Versioned, 't, 'w) Repository \<Rightarrow> ustring \<Rightarrow> 'c \<Rightarrow> (repo_error, 'c Versioned, 'w) eff" where
  "read_document r key emptyContent =
     bind_eff (rp_get r key) (\<lambda>actual. return_eff (ensureDocument actual emptyContent))"

definition list_edit ::
  "('v list Versioned, 't, 'w) Repository \<Rightarrow> ustring \<Rightarrow> DocumentWriteOptions \<Rightarrow> ('v list \<Rightarrow> 'v list) \<Rightarrow>
   (repo_error, 'v list Versioned, 'w) eff" where
  "list_edit r key opts modifier = editDocument r key [] modifier opts"

definition list_insert ::
  "('v list Versioned, 't, 'w) Repository \<Rightarrow> ustring \<Rightarrow> DocumentWriteOptions \<Rightarrow> 'v \<Rightarrow>
   (repo_error, 'v list Versioned, 'w) eff" where
  "list_insert r key opts v = list_edit r key opts (\<lambda>vs. vs @ [v])"

definition list_deleteIf ::
  "('v list Versioned, 't, 'w) Repository \<Rightarrow> ustring \<Rightarrow> DocumentWriteOptions \<Rightarrow> ('v \<Rightarrow> bool) \<Rightarrow>
   (repo_error, 'v list Versioned, 'w) eff" where
  "list_deleteIf r key opts p = list_edit r key opts (filter (\<lambda>v. \<not> p v))"

definition truncate_document :: "('c Versioned, 't, 'w) Repository \<Rightarrow> ustring \<Rightarrow> (repo_error, unit, 'w) eff" where
  "truncate_document r key = rp_delete r key"

definition view_document ::
  "('c Versioned, 't, 'w) Repository \<Rightarrow> ustring \<Rightarrow> 'c \<Rightarrow> ('c \<Rightarrow> 'u) \<Rightarrow> (repo_error, 'u, 'w) eff" where
  "view_document r key emptyContent selector =
     bind_eff (read_document r key emptyContent) (\<lambda>doc. return_eff (selector (vd_content doc)))"

text \<open>
  An object is an association list in the order of its properties. \<open>truthy\<close> is the truth of a
  value as JavaScript tests it; \<open>None\<close> is \<open>undefined\<close>.
\<close>

type_synonym 'v KeyValues = "(ustring \<times> 'v) list"

definition map_change :: "('v \<Rightarrow> bool) \<Rightarrow> ustring \<Rightarrow> 'v option \<Rightarrow> 'v KeyValues \<Rightarrow> 'v KeyValues" where
  "map_change truthy k v kvs =
     (case v of
        None \<Rightarrow> AList.delete k kvs
      | Some x \<Rightarrow> if \<not> truthy x then AList.delete k kvs else AList.update k x kvs)"

definition map_insertOrUpdate ::
  "('v KeyValues Versioned, 't, 'w) Repository \<Rightarrow> ustring \<Rightarrow> DocumentWriteOptions \<Rightarrow> ('v \<Rightarrow> bool) \<Rightarrow>
   ustring \<Rightarrow> 'v option \<Rightarrow> (repo_error, 'v KeyValues Versioned, 'w) eff" where
  "map_insertOrUpdate r key opts truthy k v = editDocument r key [] (map_change truthy k v) opts"

definition map_delete ::
  "('v KeyValues Versioned, 't, 'w) Repository \<Rightarrow> ustring \<Rightarrow> DocumentWriteOptions \<Rightarrow> ('v \<Rightarrow> bool) \<Rightarrow>
   ustring \<Rightarrow> (repo_error, 'v KeyValues Versioned, 'w) eff" where
  "map_delete r key opts truthy k = map_insertOrUpdate r key opts truthy k None"

subsection \<open>Writers that interleave\<close>

text \<open>
  Calls of \<open>editDocument\<close> on one repository with conditional writes, cut at their awaits: a
  step of a call runs one half of an attempt. \<open>es_log\<close> records the calls that wrote, with
  their modifiers, in the order of the writes; an outside event changes the world otherwise.
\<close>

datatype ('c, 't) edit_phase =
    Reading nat | Writing nat "'t option" "'c Versioned" | Written "'c Versioned" | GaveUp nat

record ('c, 't) edit_call =
  ec_modifier :: "'c \<Rightarrow> 'c"
  ec_phase :: "('c, 't) edit_phase"

record ('c, 't, 'w) edit_system =
  es_world :: 'w
  es_calls :: "('c, 't) edit_call list"
  es_log :: "(nat \<times> ('c \<Rightarrow> 'c)) list"

datatype ('c, 'w) edit_event = Start "'c \<Rightarrow> 'c" | Step nat | Outside "'w \<Rightarrow> 'w"

fun call_step ::
  "('c Versioned, 't, 'w) Repository \<Rightarrow> ustring \<Rightarrow> 'c \<Rightarrow> DocumentWriteOptions \<Rightarrow> ('c \<Rightarrow> 'c) \<Rightarrow>
   ('c, 't) edit_phase \<Rightarrow> 'w \<Rightarrow> ('c, 't) edit_phase \<times> 'w" where
  "call_step r key e opts m (Reading a) w =
     (case attempt_read r key e m w of
        Some (Inr (token, newDoc), w') \<Rightarrow> (Writing a token newDoc, w')
      | _ \<Rightarrow> (Reading a, w))"
| "call_step r key e opts m (Writing a token newDoc) w =
     (case attempt_write r key opts token newDoc w of
        Some (Inr written, w') \<Rightarrow>
          (if written then Written newDoc
           else if dw_maxRetries opts \<le> a then GaveUp (a + 1) else Reading (a + 1), w')
      | _ \<Rightarrow> (Writing a token newDoc, w))"
| "call_step r key e opts m ph w = (ph, w)"

fun es_step ::
  "('c Versioned, 't, 'w) Repository \<Rightarrow> ustring \<Rightarrow> 'c \<Rightarrow> DocumentWriteOptions \<Rightarrow> ('c, 'w) edit_event \<Rightarrow>
   ('c, 't, 'w) edit_system \<Rightarrow> ('c, 't, 'w) edit_system" where
  "es_step r key e opts (Start m) s =
     s\<lparr>es_calls := es_calls s @ [\<lparr>ec_modifier = m, ec_phase = Reading 0\<rparr>]\<rparr>"
| "es_step r key e opts (Outside f) s = s\<lparr>es_world := f (es_world s)\<rparr>"
| "es_step r key e opts (Step i) s =
     (if i < length (es_calls s) then
        (let c = es_calls s ! i;
             (ph, w) = call_step r key e opts (ec_modifier c) (ec_phase c) (es_world s)
         in s\<lparr>es_world := w, es_calls := (es_calls s)[i := c\<lparr>ec_phase := ph\<rparr>],
              es_log := es_log s @
                (case (ec_phase c, ph) of (Writing _ _ _, Written _) \<Rightarrow> [(i, ec_modifier c)] | _ \<Rightarrow> [])\<rparr>)
      else s)"

definition es_run ::
  "('c Versioned, 't, 'w) Repository \<Rightarrow> ustring \<Rightarrow> 'c \<Rightarrow> DocumentWriteOptions \<Rightarrow> 'w \<Rightarrow>
   ('c, 'w) edit_event list \<Rightarrow> ('c, 't, 'w) edit_system" where
  "es_run r key e opts w es = fold (es_step r key e opts) es \<lparr>es_world = w, es_calls = [], es_log = []\<rparr>"

text \<open>What the document is after a list of modifiers, one edit after the other.\<close>

definition replay :: "'c \<Rightarrow> 'c Versioned option \<Rightarrow> ('c \<Rightarrow> 'c) list \<Rightarrow> 'c Versioned option" where
  "replay e x ms = foldl (\<lambda>x m. Some (edited m (ensureDocument x e))) x ms"

lemma replay_snoc: "replay e x (ms @ [m]) = Some (edited m (ensureDocument (replay e x ms) e))"
  by (simp add: replay_def)

lemma replay_None:
  "replay e None ms =
     (if ms = [] then None
      else Some \<lparr>vd_version = length ms, vd_content = foldl (\<lambda>c m. m c) e ms\<rparr>)"
proof (induction ms rule: rev_induct)
  case Nil
  then show ?case by (simp add: replay_def)
next
  case (snoc m ms)
  then show ?case by (simp add: replay_snoc edited_def ensureDocument_def)
qed

subsection \<open>The contract of conditional writes\<close>

text \<open>
  \<open>revision\<close> is what the key holds: a conditional write succeeds exactly when the token is that
  of the revision, and then the key holds the written value; one with the token of another
  value leaves what the key holds.
\<close>

locale cas_repository =
  fixes r :: "('c Versioned, 't, 'w) Repository"
    and key :: ustring
    and opts :: DocumentWriteOptions
    and revision :: "'w \<Rightarrow> ('c Versioned, 't) Revision option"
    and tokenOf :: "'c Versioned \<Rightarrow> 't"
    and ok :: "'w \<Rightarrow> bool"
  assumes is_cas: "isCasRepository r"
    and reads: "ok w \<Longrightarrow> the (rp_getRevision r) key w = Some (Inr (revision w), w)"
    and wins: "ok w \<Longrightarrow> map_option rev_token (revision w) = t \<Longrightarrow>
      \<exists>w'. the (rp_compareAndSet r) key t (Some v) (dw_expiresInMillis opts) w = Some (Inr True, w') \<and>
        ok w' \<and> revision w' = Some \<lparr>rev_value = v, rev_token = tokenOf v\<rparr>"
    and loses: "ok w \<Longrightarrow> t = map_option tokenOf other \<Longrightarrow> map_option rev_token (revision w) \<noteq> t \<Longrightarrow>
      \<exists>w'. the (rp_compareAndSet r) key t (Some v) (dw_expiresInMillis opts) w = Some (Inr False, w') \<and>
        ok w' \<and> revision w' = revision w"
    and token: "ok w \<Longrightarrow> revision w = Some x \<Longrightarrow> rev_token x = tokenOf (rev_value x)"
begin

abbreviation stored :: "'w \<Rightarrow> 'c Versioned option" where
  "stored w \<equiv> map_option rev_value (revision w)"

lemma tokens: "ok w \<Longrightarrow> map_option rev_token (revision w) = map_option tokenOf (stored w)"
  using token by (cases "revision w") auto

lemma attempt_read_result:
  "ok w \<Longrightarrow> attempt_read r key e m w =
     Some (Inr (map_option tokenOf (stored w), edited m (ensureDocument (stored w) e)), w)"
  using reads tokens by (simp add: attempt_read_def eff_defs)

lemma attempt_write_wins:
  assumes "ok w" "t = map_option tokenOf (stored w)"
  obtains w' where "attempt_write r key opts t d w = Some (Inr True, w')" "ok w'" "stored w' = Some d"
  using wins [OF assms(1), of t d] tokens [OF assms(1)] assms(2)
  by (auto simp: attempt_write_def)

lemma attempt_write_loses:
  assumes "ok w" "t = map_option tokenOf x" "t \<noteq> map_option tokenOf (stored w)"
  obtains w' where "attempt_write r key opts t d w = Some (Inr False, w')" "ok w'" "stored w' = stored w"
  using loses [OF assms(1,2), of d] tokens [OF assms(1)] assms(3) by (auto simp: attempt_write_def)

lemma edit_alone:
  assumes "ok w"
  shows "\<exists>w'. editDocument r key e m opts w = Some (Inr (edited m (ensureDocument (stored w) e)), w') \<and>
    ok w' \<and> stored w' = Some (edited m (ensureDocument (stored w) e))"
proof -
  obtain w' where w': "attempt_write r key opts (map_option tokenOf (stored w))
      (edited m (ensureDocument (stored w) e)) w = Some (Inr True, w')"
      "ok w'" "stored w' = Some (edited m (ensureDocument (stored w) e))"
    using attempt_write_wins [OF assms refl] by blast
  have "editDocument r key e m opts w = Some (Inr (edited m (ensureDocument (stored w) e)), w')"
    using is_cas attempt_read_result [OF assms, of e m] w'(1)
    by (simp add: editDocument_def edit_loop.simps bind_eff_def return_eff_def)
  with w' show ?thesis by blast
qed

text \<open>The invariant of a call, relative to the log of the writes.\<close>

definition call_ok ::
  "'c \<Rightarrow> 'c Versioned option \<Rightarrow> ('c \<Rightarrow> 'c) list \<Rightarrow> ('c, 't) edit_call \<Rightarrow> bool" where
  "call_ok e x ms c \<longleftrightarrow>
     (case ec_phase c of
        Reading a \<Rightarrow> a \<le> length ms \<and> a \<le> dw_maxRetries opts
      | Writing a t d \<Rightarrow> a \<le> dw_maxRetries opts \<and>
          (\<exists>l. a \<le> l \<and> l \<le> length ms \<and> t = map_option tokenOf (replay e x (take l ms)) \<and>
             d = edited (ec_modifier c) (ensureDocument (replay e x (take l ms)) e))
      | Written d \<Rightarrow> True
      | GaveUp n \<Rightarrow> n = dw_maxRetries opts + 1 \<and> n \<le> length ms)"

definition sys_ok :: "'c \<Rightarrow> 'c Versioned option \<Rightarrow> ('c, 't, 'w) edit_system \<Rightarrow> bool" where
  "sys_ok e x s \<longleftrightarrow>
     ok (es_world s) \<and> stored (es_world s) = replay e x (map snd (es_log s)) \<and>
     (\<forall>c\<in>set (es_calls s). call_ok e x (map snd (es_log s)) c) \<and>
     distinct (map fst (es_log s)) \<and>
     (\<forall>i m. (i, m) \<in> set (es_log s) \<longrightarrow> i < length (es_calls s) \<and> m = ec_modifier (es_calls s ! i)) \<and>
     (\<forall>i<length (es_calls s). i \<in> fst ` set (es_log s) \<longleftrightarrow> (\<exists>d. ec_phase (es_calls s ! i) = Written d))"

lemma call_ok_mono:
  assumes "call_ok e x ms c"
  shows "call_ok e x (ms @ ms') c"
proof (cases "ec_phase c")
  case (Writing a t d)
  then obtain l where "a \<le> l" "l \<le> length ms" "t = map_option tokenOf (replay e x (take l ms))"
      "d = edited (ec_modifier c) (ensureDocument (replay e x (take l ms)) e)" "a \<le> dw_maxRetries opts"
    using assms by (auto simp: call_ok_def)
  moreover from this(2) have "take l (ms @ ms') = take l ms" "l \<le> length (ms @ ms')" by simp_all
  ultimately have "a \<le> dw_maxRetries opts \<and> (\<exists>l. a \<le> l \<and> l \<le> length (ms @ ms') \<and>
      t = map_option tokenOf (replay e x (take l (ms @ ms'))) \<and>
      d = edited (ec_modifier c) (ensureDocument (replay e x (take l (ms @ ms'))) e))"
    by metis
  then show ?thesis using Writing by (simp add: call_ok_def)
qed (use assms in \<open>auto simp: call_ok_def\<close>)

lemma sys_ok_quiet:
  assumes "sys_ok e x s" "i < length (es_calls s)" "call_ok e x (map snd (es_log s)) c"
    and "ec_modifier c = ec_modifier (es_calls s ! i)"
    and "\<forall>d. ec_phase (es_calls s ! i) \<noteq> Written d" "\<forall>d. ec_phase c \<noteq> Written d"
    and "ok w" "stored w = stored (es_world s)"
  shows "sys_ok e x (s\<lparr>es_world := w, es_calls := (es_calls s)[i := c]\<rparr>)"
proof -
  have "\<forall>c'\<in>set ((es_calls s)[i := c]). call_ok e x (map snd (es_log s)) c'"
    using assms(1,3) set_update_subset_insert [of "es_calls s" i c] unfolding sys_ok_def by blast
  then show ?thesis
    using assms by (auto simp: sys_ok_def nth_list_update)
qed

lemma sys_ok_write:
  assumes "sys_ok e x s" "i < length (es_calls s)" "ec_phase (es_calls s ! i) = Writing a t d"
    and "t = map_option tokenOf (stored (es_world s))" "inj tokenOf" "ok w" "stored w = Some d"
  shows "sys_ok e x (s\<lparr>es_world := w, es_calls := (es_calls s)[i := (es_calls s ! i)\<lparr>ec_phase := Written d\<rparr>],
    es_log := es_log s @ [(i, ec_modifier (es_calls s ! i))]\<rparr>)"
proof -
  let ?c = "es_calls s ! i" and ?ms = "map snd (es_log s)"
  have st: "stored (es_world s) = replay e x ?ms"
    using assms(1) by (simp add: sys_ok_def)
  have "call_ok e x ?ms ?c"
    using assms(1,2) by (simp add: sys_ok_def)
  then obtain l where l: "t = map_option tokenOf (replay e x (take l ?ms))"
      "d = edited (ec_modifier ?c) (ensureDocument (replay e x (take l ?ms)) e)"
    using assms(3) by (auto simp: call_ok_def)
  have "replay e x (take l ?ms) = replay e x ?ms"
    using l(1) assms(4,5) st by (metis option.inj_map injD)
  then have d: "Some d = replay e x (?ms @ [ec_modifier ?c])"
    using l(2) by (simp add: replay_snoc)
  have fresh: "i \<notin> fst ` set (es_log s)"
  proof -
    have "i \<in> fst ` set (es_log s) \<longleftrightarrow> (\<exists>d. ec_phase (es_calls s ! i) = Written d)"
      using assms(1,2) by (simp add: sys_ok_def)
    then show ?thesis using assms(3) by simp
  qed
  have calls: "\<forall>c\<in>set ((es_calls s)[i := ?c\<lparr>ec_phase := Written d\<rparr>]). call_ok e x (?ms @ [ec_modifier ?c]) c"
  proof
    fix c
    assume "c \<in> set ((es_calls s)[i := ?c\<lparr>ec_phase := Written d\<rparr>])"
    then have "c = ?c\<lparr>ec_phase := Written d\<rparr> \<or> c \<in> set (es_calls s)"
      using set_update_subset_insert by fastforce
    then show "call_ok e x (?ms @ [ec_modifier ?c]) c"
      using assms(1) call_ok_mono by (auto simp: call_ok_def sys_ok_def)
  qed
  let ?calls = "(es_calls s)[i := ?c\<lparr>ec_phase := Written d\<rparr>]" and ?log = "es_log s @ [(i, ec_modifier ?c)]"
  have old: "j < length (es_calls s) \<and> m = ec_modifier (es_calls s ! j)" if "(j, m) \<in> set (es_log s)" for j m
    using assms(1) that by (simp add: sys_ok_def)
  have log: "j < length ?calls \<and> m = ec_modifier (?calls ! j)" if "(j, m) \<in> set ?log" for j m
    using that old [of j m] assms(2) by (auto simp: nth_list_update)
  have marks: "j \<in> fst ` set ?log \<longleftrightarrow> (\<exists>d. ec_phase (?calls ! j) = Written d)" if "j < length ?calls" for j
  proof (cases "j = i")
    case True
    then show ?thesis using assms(2) by simp
  next
    case False
    then show ?thesis using assms(1) that by (simp add: sys_ok_def)
  qed
  have dist: "distinct (map fst ?log)"
    using assms(1) fresh by (simp add: sys_ok_def)
  let ?s = "s\<lparr>es_world := w, es_calls := ?calls, es_log := ?log\<rparr>"
  have parts: "es_world ?s = w" "es_calls ?s = ?calls" "es_log ?s = ?log"
    by simp_all
  have st': "stored w = replay e x (map snd ?log)" and calls': "\<forall>c\<in>set ?calls. call_ok e x (map snd ?log) c"
    using d assms(7) calls by simp_all
  show ?thesis
    unfolding sys_ok_def parts using assms(6) st' calls' dist log marks by blast
qed

lemma sys_ok_step:
  assumes "sys_ok e x s" "inj tokenOf"
    and "\<And>f w. ev = Outside f \<Longrightarrow> ok w \<Longrightarrow> ok (f w) \<and> stored (f w) = stored w"
  shows "sys_ok e x (es_step r key e opts ev s)"
proof (cases ev)
  case (Start m)
  have "call_ok e x (map snd (es_log s)) \<lparr>ec_modifier = m, ec_phase = Reading 0\<rparr>"
    by (simp add: call_ok_def)
  moreover have "i < length (es_calls s)" if "(i, m) \<in> set (es_log s)" for i m
    using that assms(1) by (simp add: sys_ok_def)
  ultimately show ?thesis
    using Start assms(1) by (auto simp: sys_ok_def nth_append dest: less_SucE intro: less_SucI)
next
  case (Outside f)
  then show ?thesis
    using assms(1) assms(3) [OF Outside, of "es_world s"] by (simp add: sys_ok_def)
next
  case (Step i)
  show ?thesis
  proof (cases "i < length (es_calls s)")
    case False
    then show ?thesis using Step assms(1) by simp
  next
    case True
    let ?c = "es_calls s ! i" and ?w = "es_world s" and ?ms = "map snd (es_log s)"
    have w: "ok ?w" "stored ?w = replay e x ?ms" "call_ok e x ?ms ?c"
      using assms(1) True by (simp_all add: sys_ok_def)
    show ?thesis
    proof (cases "ec_phase ?c")
      case (Reading a)
      let ?d = "edited (ec_modifier ?c) (ensureDocument (stored ?w) e)"
      let ?c' = "?c\<lparr>ec_phase := Writing a (map_option tokenOf (stored ?w)) ?d\<rparr>"
      have "call_ok e x ?ms ?c'"
        using w Reading by (auto simp: call_ok_def intro!: exI [of _ "length ?ms"])
      then have "sys_ok e x (s\<lparr>es_world := ?w, es_calls := (es_calls s)[i := ?c']\<rparr>)"
        using Reading w(1) by (intro sys_ok_quiet [OF assms(1) True]) simp_all
      then show ?thesis
        using Step True Reading attempt_read_result [OF w(1)] by (simp add: Let_def)
    next
      case (Writing a t d)
      show ?thesis
      proof (cases "t = map_option tokenOf (stored ?w)")
        case True
        obtain w' where w': "attempt_write r key opts t d ?w = Some (Inr True, w')" "ok w'" "stored w' = Some d"
          using attempt_write_wins [OF w(1) True] by blast
        have "sys_ok e x (s\<lparr>es_world := w', es_calls := (es_calls s)[i := ?c\<lparr>ec_phase := Written d\<rparr>],
            es_log := es_log s @ [(i, ec_modifier ?c)]\<rparr>)"
          by (rule sys_ok_write [OF assms(1) \<open>i < length (es_calls s)\<close> Writing True assms(2) w'(2,3)])
        then show ?thesis
          using Step \<open>i < length (es_calls s)\<close> Writing w'(1) by (simp add: Let_def)
      next
        case False
        let ?ph = "if dw_maxRetries opts \<le> a then GaveUp (a + 1) else Reading (a + 1)"
        obtain l where l: "a \<le> l" "l \<le> length ?ms" "t = map_option tokenOf (replay e x (take l ?ms))"
            "a \<le> dw_maxRetries opts"
          using w(3) Writing by (auto simp: call_ok_def)
        have "l \<noteq> length ?ms"
          using False l(3) w(2) by auto
        then have "call_ok e x ?ms (?c\<lparr>ec_phase := ?ph\<rparr>)"
          using l by (auto simp: call_ok_def)
        moreover obtain w' where w': "attempt_write r key opts t d ?w = Some (Inr False, w')" "ok w'"
            "stored w' = stored ?w"
          using attempt_write_loses [OF w(1) l(3) False] by blast
        ultimately have "sys_ok e x (s\<lparr>es_world := w', es_calls := (es_calls s)[i := ?c\<lparr>ec_phase := ?ph\<rparr>]\<rparr>)"
          using Writing by (intro sys_ok_quiet [OF assms(1) \<open>i < length (es_calls s)\<close>]) simp_all
        then show ?thesis
          using Step \<open>i < length (es_calls s)\<close> Writing w'(1)
          by (cases "dw_maxRetries opts \<le> a") (simp_all add: Let_def)
      qed
    next
      case (Written d)
      then have "?c\<lparr>ec_phase := Written d\<rparr> = ?c"
        by (cases ?c) simp
      then have "s\<lparr>es_calls := (es_calls s)[i := ?c\<lparr>ec_phase := Written d\<rparr>]\<rparr> = s"
        by simp
      then show ?thesis
        using Step True Written assms(1) by (simp add: Let_def)
    next
      case (GaveUp n)
      then have "?c\<lparr>ec_phase := GaveUp n\<rparr> = ?c"
        by (cases ?c) simp
      then have "s\<lparr>es_calls := (es_calls s)[i := ?c\<lparr>ec_phase := GaveUp n\<rparr>]\<rparr> = s"
        by simp
      then show ?thesis
        using Step True GaveUp assms(1) by (simp add: Let_def)
    qed
  qed
qed

lemma sys_ok_run:
  assumes "ok w" "inj tokenOf"
    and "\<And>f w. Outside f \<in> set es \<Longrightarrow> ok w \<Longrightarrow> ok (f w) \<and> stored (f w) = stored w"
  shows "sys_ok e (stored w) (es_run r key e opts w es)"
proof -
  have "sys_ok e x s \<Longrightarrow> sys_ok e x (fold (es_step r key e opts) es s)" for s x
    using assms(3)
  proof (induction es arbitrary: s)
    case Nil
    then show ?case by simp
  next
    case (Cons ev es)
    have "sys_ok e x (es_step r key e opts ev s)"
      using Cons.prems assms(2) by (intro sys_ok_step) auto
    then show ?case using Cons by simp
  qed
  moreover have "sys_ok e (stored w) \<lparr>es_world = w, es_calls = [], es_log = []\<rparr>"
    using assms(1) by (simp add: sys_ok_def replay_def)
  ultimately show ?thesis
    by (simp add: es_run_def)
qed

end

subsection \<open>The in-memory repository keeps the contract\<close>

definition memory_revision :: "ustring \<Rightarrow> ('v, 't) memory \<Rightarrow> ('v, 't) Revision option" where
  "memory_revision key w = map_option (\<lambda>e. \<lparr>rev_value = en_value e, rev_token = en_token e\<rparr>) (live key w)"

text \<open>Tokens are those of the values, and documents written without a time to live never expire.\<close>

definition memory_ok :: "('v \<Rightarrow> 't) \<Rightarrow> ustring \<Rightarrow> DocumentWriteOptions \<Rightarrow> ('v, 't) memory \<Rightarrow> bool" where
  "memory_ok tokenOf key opts w \<longleftrightarrow>
     (\<forall>e. mm_store w key = Some e \<longrightarrow> en_token e = tokenOf (en_value e) \<and>
        (dw_expiresInMillis opts = None \<longrightarrow> en_expired e = 0))"

lemma live_written:
  "live key (mem_write tokenOf key v ms w) =
     Some \<lparr>en_expired = (case ms of Some m \<Rightarrow> if m > 0 then mm_now w + m else 0 | None \<Rightarrow> 0),
       en_value = v, en_token = tokenOf v\<rparr>"
  by (simp add: live_def mem_write_def split: option.splits)

lemma memory_ok_written: "memory_ok tokenOf key opts (mem_write tokenOf key v (dw_expiresInMillis opts) w)"
  by (simp add: memory_ok_def mem_write_def)

lemma memory_tokens:
  "map_option rev_token (memory_revision key w) = map_option en_token (live key w)"
  by (simp add: memory_revision_def option.map_comp comp_def)

lemma memory_cas:
  "memory_compareAndSet tokenOf key t (Some v) ms w =
     (if map_option en_token (live key w) = t then Some (Inr True, mem_write tokenOf key v ms w)
      else Some (Inr False, w))"
  by (simp add: memory_compareAndSet_def mem_put_def eff_defs)

interpretation memory: cas_repository "createInMemoryRepository tokenOf" key opts "memory_revision key"
  tokenOf "memory_ok tokenOf key opts" for tokenOf key opts
proof unfold_locales
  show "isCasRepository (createInMemoryRepository tokenOf)"
    by (simp add: isCasRepository_def createInMemoryRepository_def)
  show "the (rp_getRevision (createInMemoryRepository tokenOf)) key w = Some (Inr (memory_revision key w), w)" for w
    by (simp add: createInMemoryRepository_def memory_getRevision_def memory_revision_def get_eff_def)
  show "\<exists>w'. the (rp_compareAndSet (createInMemoryRepository tokenOf)) key t (Some v)
      (dw_expiresInMillis opts) w = Some (Inr True, w') \<and> memory_ok tokenOf key opts w' \<and>
      memory_revision key w' = Some \<lparr>rev_value = v, rev_token = tokenOf v\<rparr>"
    if "map_option rev_token (memory_revision key w) = t" for w t v
    using that memory_ok_written memory_cas [of tokenOf key t v]
    by (simp add: createInMemoryRepository_def memory_tokens live_written memory_revision_def
        option.map_comp comp_def)
  show "\<exists>w'. the (rp_compareAndSet (createInMemoryRepository tokenOf)) key t (Some v)
      (dw_expiresInMillis opts) w = Some (Inr False, w') \<and>
      memory_ok tokenOf key opts w' \<and> memory_revision key w' = memory_revision key w"
    if "memory_ok tokenOf key opts w" "map_option rev_token (memory_revision key w) \<noteq> t" for w t v
    using that memory_cas [of tokenOf key t v]
    by (simp add: createInMemoryRepository_def memory_tokens)
  show "rev_token x = tokenOf (rev_value x)"
    if "memory_ok tokenOf key opts w" "memory_revision key w = Some x" for w x
    using that by (auto simp: memory_ok_def memory_revision_def live_def split: option.splits if_splits)
qed

text \<open>What else may happen meanwhile: other keys are written and time passes.\<close>

definition elsewhere :: "('v \<Rightarrow> 't) \<Rightarrow> ustring \<Rightarrow> (('v, 't) memory \<Rightarrow> ('v, 't) memory) \<Rightarrow> bool" where
  "elsewhere tokenOf key f \<longleftrightarrow>
     (\<exists>k v ms. k \<noteq> key \<and> f = mem_write tokenOf k v ms) \<or>
     (\<exists>n. f = (\<lambda>w. w\<lparr>mm_now := mm_now w + int n\<rparr>))"

lemma elsewhere_harmless:
  assumes "elsewhere tokenOf key f" "dw_expiresInMillis opts = None" "memory_ok tokenOf key opts w"
  shows "memory_ok tokenOf key opts (f w)"
    "map_option rev_value (memory_revision key (f w)) = map_option rev_value (memory_revision key w)"
proof -
  have "mm_store (f w) key = mm_store w key"
    using assms(1) by (auto simp: elsewhere_def mem_write_def)
  then show "memory_ok tokenOf key opts (f w)"
      "map_option rev_value (memory_revision key (f w)) = map_option rev_value (memory_revision key w)"
    using assms(2,3) by (auto simp: memory_ok_def memory_revision_def live_def split: option.splits)
qed

definition emptyMemory :: "int \<Rightarrow> ('v, 't) memory" where
  "emptyMemory now = \<lparr>mm_now = now, mm_store = Map.empty\<rparr>"

lemma memory_run:
  fixes tokenOf :: "'c Versioned \<Rightarrow> 't"
  assumes "inj tokenOf" "dw_expiresInMillis opts = None" "\<forall>f. Outside f \<in> set es \<longrightarrow> elsewhere tokenOf key f"
  shows "memory.sys_ok opts key tokenOf e None
    (es_run (createInMemoryRepository tokenOf) key e opts (emptyMemory now) es)"
proof -
  define w0 :: "('c Versioned, 't) memory" where "w0 = emptyMemory now"
  have start: "memory_ok tokenOf key opts w0" "memory_revision key w0 = None"
    by (simp_all add: memory_ok_def w0_def emptyMemory_def memory_revision_def live_def)
  have "memory.sys_ok opts key tokenOf e (map_option rev_value (memory_revision key w0))
      (es_run (createInMemoryRepository tokenOf) key e opts w0 es)"
  proof (rule memory.sys_ok_run)
    show "memory_ok tokenOf key opts w0" by (rule start(1))
    show "inj tokenOf" by (rule assms(1))
    show "memory_ok tokenOf key opts (f w) \<and>
        map_option rev_value (memory_revision key (f w)) = map_option rev_value (memory_revision key w)"
      if "Outside f \<in> set es" "memory_ok tokenOf key opts w" for f w
      using elsewhere_harmless [OF _ assms(2) that(2)] assms(3) that(1) by blast
  qed
  then show ?thesis unfolding start(2) option.map by (simp only: w0_def)
qed

subsection \<open>The properties\<close>

text \<open>
  C17: No update is lost: however many edits of a document interleave, also with writes of
  other keys, what is stored is the result of the modifiers of exactly the edits that
  returned, each applied once, one after the other, and the version counts them.
\<close>

theorem no_update_is_lost:
  fixes tokenOf :: "'c Versioned \<Rightarrow> 't"
  assumes "inj tokenOf" "dw_expiresInMillis opts = None"
    and "\<forall>f. Outside f \<in> set es \<longrightarrow> elsewhere tokenOf key f"
    and "s = es_run (createInMemoryRepository tokenOf) key e opts (emptyMemory now) es"
  shows "map_option en_value (live key (es_world s)) =
      (if es_log s = [] then None
       else Some \<lparr>vd_version = length (es_log s), vd_content = foldl (\<lambda>c m. m c) e (map snd (es_log s))\<rparr>) \<and>
    distinct (map fst (es_log s)) \<and>
    fst ` set (es_log s) = {i. i < length (es_calls s) \<and> (\<exists>d. ec_phase (es_calls s ! i) = Written d)} \<and>
    (\<forall>(i, m)\<in>set (es_log s). m = ec_modifier (es_calls s ! i))"
proof -
  have inv: "memory.sys_ok opts key tokenOf e None s"
    using memory_run [OF assms(1-3)] assms(4) by simp
  have "map_option rev_value (memory_revision key (es_world s)) = replay e None (map snd (es_log s))"
    using inv by (simp add: memory.sys_ok_def)
  then have "map_option en_value (live key (es_world s)) = replay e None (map snd (es_log s))"
    by (simp add: memory_revision_def option.map_comp comp_def)
  moreover have parts: "distinct (map fst (es_log s))"
      "\<forall>i m. (i, m) \<in> set (es_log s) \<longrightarrow> i < length (es_calls s) \<and> m = ec_modifier (es_calls s ! i)"
      "\<forall>i<length (es_calls s). i \<in> fst ` set (es_log s) \<longleftrightarrow> (\<exists>d. ec_phase (es_calls s ! i) = Written d)"
    using inv by (simp_all add: memory.sys_ok_def)
  moreover have "i < length (es_calls s)" if "i \<in> fst ` set (es_log s)" for i
    using that parts(2) by auto
  then have "fst ` set (es_log s) = {i. i < length (es_calls s) \<and> (\<exists>d. ec_phase (es_calls s ! i) = Written d)}"
    using parts(3) by blast
  ultimately show ?thesis
    by (simp add: replay_None split_beta)
qed

text \<open>
  An edit gives up only after it has lost every one of its attempts to another edit that
  wrote: by then at least \<open>maxRetries + 1\<close> edits have been written.
\<close>

theorem gives_up_after_lost_races:
  fixes tokenOf :: "'c Versioned \<Rightarrow> 't"
  assumes "inj tokenOf" "dw_expiresInMillis opts = None"
    and "\<forall>f. Outside f \<in> set es \<longrightarrow> elsewhere tokenOf key f"
    and "s = es_run (createInMemoryRepository tokenOf) key e opts (emptyMemory now) es"
    and "c \<in> set (es_calls s)" "ec_phase c = GaveUp n"
  shows "n = dw_maxRetries opts + 1 \<and> n \<le> length (es_log s)"
proof -
  have "memory.call_ok opts tokenOf e None (map snd (es_log s)) c"
    using memory_run [OF assms(1-3)] assms(4,5) by (simp add: memory.sys_ok_def)
  then show ?thesis
    using assms(6) by (simp add: memory.call_ok_def)
qed

lemma read_memory:
  "read_document (createInMemoryRepository tokenOf) key e w =
     Some (Inr (ensureDocument (map_option en_value (live key w)) e), w)"
  by (simp add: read_document_def createInMemoryRepository_def eff_defs)

text \<open>
  Setting a key of a map document and reading it back: on the in-memory repository the
  edit succeeds, the document read afterwards is the one returned, its other keys are as
  before, and the key holds the value, except that a falsy value, such as 0, removes the key.
\<close>

theorem map_set_then_read:
  assumes "memory_ok tokenOf key opts w"
  shows "\<exists>d w'. map_insertOrUpdate (createInMemoryRepository tokenOf) key opts truthy k v w = Some (Inr d, w') \<and>
    read_document (createInMemoryRepository tokenOf) key [] w' = Some (Inr d, w') \<and>
    map_of (vd_content d) =
      (map_of (vd_content (ensureDocument (map_option en_value (live key w)) [])))
        (k := (case v of Some x \<Rightarrow> if truthy x then Some x else None | None \<Rightarrow> None)) \<and>
    vd_version d = vd_version (ensureDocument (map_option en_value (live key w)) []) + 1"
proof -
  have stored: "map_option rev_value (memory_revision key u) = map_option en_value (live key u)" for u
    by (simp add: memory_revision_def option.map_comp comp_def)
  let ?old = "ensureDocument (map_option en_value (live key w)) []"
  let ?d = "edited (map_change truthy k v) ?old"
  obtain w' where w': "map_insertOrUpdate (createInMemoryRepository tokenOf) key opts truthy k v w = Some (Inr ?d, w')"
      "map_option en_value (live key w') = Some ?d"
    using memory.edit_alone [OF assms, where e = "[]" and m = "map_change truthy k v"]
    unfolding stored map_insertOrUpdate_def by blast
  have "ensureDocument (Some ?d) [] = ?d"
    by (simp add: ensureDocument_def)
  then have "read_document (createInMemoryRepository tokenOf) key [] w' = Some (Inr ?d, w')"
    by (simp only: read_memory w'(2))
  moreover have "map_of (vd_content ?d) = (map_of (vd_content ?old))
      (k := (case v of Some x \<Rightarrow> if truthy x then Some x else None | None \<Rightarrow> None))"
    by (cases v) (auto simp: edited_def map_change_def AList.update_conv' AList.delete_conv' fun_upd_def)
  moreover have "vd_version ?d = vd_version ?old + 1"
    by (simp add: edited_def)
  ultimately show ?thesis
    using w'(1) by blast
qed

subsection \<open>Witnesses\<close>

definition demoOptions :: DocumentWriteOptions where
  "demoOptions = \<lparr>dw_expiresInMillis = None, dw_maxRetries = 0\<rparr>"

text \<open>Two edits that both read before either writes: the second writer loses and gives up.\<close>

definition demoSchedule :: "(nat, (nat Versioned, nat Versioned) memory) edit_event list" where
  "demoSchedule = [Start Suc, Start (\<lambda>n. n * 5), Step 0, Step 1, Step 0, Step 1]"

definition demoEnd :: "(nat, nat Versioned, (nat Versioned, nat Versioned) memory) edit_system" where
  "demoEnd = es_run (createInMemoryRepository id) (ascii ''k'') 7 demoOptions (emptyMemory 0) demoSchedule"

lemma demo_end: "map fst (es_log demoEnd) = [0]" "map ec_phase (es_calls demoEnd) =
    [Written \<lparr>vd_version = 1, vd_content = 8\<rparr>, GaveUp 1]"
  by (simp_all add: demoEnd_def es_run_def demoSchedule_def demoOptions_def emptyMemory_def
      attempt_read_def attempt_write_def createInMemoryRepository_def memory_getRevision_def
      memory_compareAndSet_def mem_put_def mem_write_def live_def eff_defs edited_def ensureDocument_def
      Let_def)

lemma demo_conditions:
  "inj (id :: nat Versioned \<Rightarrow> nat Versioned)" "dw_expiresInMillis demoOptions = None"
  "\<forall>f. Outside f \<in> set demoSchedule \<longrightarrow> elsewhere id (ascii ''k'') f"
  by (simp_all add: demoOptions_def demoSchedule_def)

theorem no_update_is_lost_witness:
  "map_option en_value (live (ascii ''k'') (es_world demoEnd)) =
     Some \<lparr>vd_version = 1, vd_content = foldl (\<lambda>c m. m c) 7 (map snd (es_log demoEnd))\<rparr>"
proof -
  have "es_log demoEnd \<noteq> []" "length (es_log demoEnd) = 1"
    using demo_end(1) by (auto dest: arg_cong [where f = length])
  then show ?thesis
    using no_update_is_lost [OF demo_conditions demoEnd_def] by (simp only: if_False)
qed

theorem gives_up_after_lost_races_witness: "length (es_log demoEnd) \<ge> 1"
proof -
  have "length (es_calls demoEnd) = 2"
    using arg_cong [OF demo_end(2), where f = length] by simp
  moreover from this have "ec_phase (es_calls demoEnd ! 1) = GaveUp 1"
    using arg_cong [OF demo_end(2), where f = "\<lambda>xs. xs ! 1"] by simp
  ultimately show ?thesis
    using gives_up_after_lost_races [OF demo_conditions demoEnd_def, of "es_calls demoEnd ! 1" 1] by simp
qed

theorem map_set_then_read_witness:
  "\<exists>d w'. map_insertOrUpdate (createInMemoryRepository id) (ascii ''k'') demoOptions (\<lambda>n. n \<noteq> (0::int))
      (ascii ''a'') (Some 0) (emptyMemory 0) = Some (Inr d, w') \<and>
    map_of (vd_content d) (ascii ''a'') = None"
proof -
  have "memory_ok id (ascii ''k'') demoOptions (emptyMemory 0)"
    by (simp add: memory_ok_def emptyMemory_def)
  from map_set_then_read [OF this, of "\<lambda>n. n \<noteq> 0" "ascii ''a''" "Some 0"]
  show ?thesis by (auto simp: demoOptions_def)
qed

end
