(* ===== verification/Repository_Backends.thy ===== *)
theory Repository_Backends
  imports Repository Redis_Api
begin

section \<open>Repositories on Redis, DynamoDB and S3\<close>

text \<open>
  The three backends over \<open>createRepositoryFromKV\<close>. The services are parameters; what is
  modelled is which requests are made, under which conditions, and how answers and errors are
  turned into results. The lemmas show that the Redis repository keeps the contract of
  conditional writes, and that on DynamoDB an expired item that has not been swept yet counts
  as absent for reads and for conditional writes alike. A codec is the pair of its composition
  with \<open>JSON.parse\<close> and \<open>JSON.stringify\<close>.
\<close>

subsection \<open>Redis (repository-redis/src/redis.ts)\<close>

definition compareAndSetScript :: ustring where
  "compareAndSetScript = join [10]
     [ascii ''local cur = redis.call('' @ [39] @ ascii ''GET'' @ [39] @ ascii '', KEYS[1])'',
      ascii ''if ARGV[1] == '' @ [39, 39] @ ascii '' then'',
      ascii ''  if cur then return 0 end'',
      ascii ''elseif not cur or redis.sha1hex(cur) ~= ARGV[1] then'',
      ascii ''  return 0'',
      ascii ''end'',
      ascii ''redis.call('' @ [39] @ ascii ''SET'' @ [39] @ ascii '', KEYS[1], ARGV[2], '' @ [39] @ ascii ''PX'' @ [39]
        @ ascii '', ARGV[3])'',
      ascii ''return 1'']"

definition compareAndSet_body ::
  "(ustring \<Rightarrow> ustring) \<Rightarrow> ustring list \<Rightarrow> ustring list \<Rightarrow> (ustring \<Rightarrow> ustring option) \<Rightarrow>
   int \<times> (ustring \<Rightarrow> ustring option)" where
  "compareAndSet_body sha1 keys args strings =
     (let cur = strings (keys ! 0);
          refused = (if args ! 0 = [] then cur \<noteq> None
                     else case cur of None \<Rightarrow> True | Some c \<Rightarrow> sha1 c \<noteq> args ! 0)
      in if refused then (0, strings) else (1, strings(keys ! 0 \<mapsto> args ! 1)))"

record 'w redis_repository =
  rr_api :: "(repo_error, 'w) redis_api"
  rr_prefix :: ustring
  rr_codec :: "((ustring \<Rightarrow> ustring) \<times> (ustring \<Rightarrow> ustring)) option"
  rr_sha1 :: "ustring \<Rightarrow> ustring"

definition asRedisKey :: "'w redis_repository \<Rightarrow> ustring \<Rightarrow> ustring" where
  "asRedisKey r key =
     (if rr_prefix r \<noteq> [] then ascii ''repo:'' @ rr_prefix r @ ascii '':'' @ key else ascii ''repo:'' @ key)"

definition asStored :: "'w redis_repository \<Rightarrow> ustring \<Rightarrow> ustring" where
  "asStored r serialized = (case rr_codec r of None \<Rightarrow> serialized | Some (f, g) \<Rightarrow> f serialized)"

definition asSerialized :: "'w redis_repository \<Rightarrow> ustring \<Rightarrow> ustring" where
  "asSerialized r stored = (case rr_codec r of None \<Rightarrow> stored | Some (f, g) \<Rightarrow> g stored)"

definition assertTtl :: "int option \<Rightarrow> (repo_error, int, 'w) eff" where
  "assertTtl ms = (case ms of None \<Rightarrow> throw_eff TtlRequired
     | Some m \<Rightarrow> if m \<le> 0 then throw_eff TtlRequired else return_eff m)"

definition redis_primitives :: "'w redis_repository \<Rightarrow> (ustring, 'w) KVPrimitives" where
  "redis_primitives r =
     \<lparr>kv_get = (\<lambda>key. catch_eff
         (bind_eff (ra_get (rr_api r) (asRedisKey r key)) (\<lambda>stored.
            return_eff (case stored of None \<Rightarrow> None | Some s \<Rightarrow> if s = [] then None else Some (asSerialized r s))))
         (\<lambda>_. return_eff None)),
      kv_set = (\<lambda>key serialized. throw_eff TtlRequired),
      kv_delete = (\<lambda>key. then_eff (ra_del (rr_api r) [asRedisKey r key]) (return_eff ())),
      kv_setWithExpire = Some (\<lambda>key serialized ms.
        then_eff (ra_set (rr_api r) (asRedisKey r key) (asStored r serialized) (Some ms) None) (return_eff ())),
      kv_getRevision = Some (\<lambda>key.
        bind_eff (ra_get (rr_api r) (asRedisKey r key)) (\<lambda>stored.
          return_eff (case stored of None \<Rightarrow> None
            | Some s \<Rightarrow> if s = [] then None else Some (asSerialized r s, rr_sha1 r s)))),
      kv_compareAndSet = Some (\<lambda>key expectedToken serialized expiresInMillis.
        bind_eff (assertTtl expiresInMillis) (\<lambda>ms.
          bind_eff (ra_eval (rr_api r) compareAndSetScript [asRedisKey r key]
              [case expectedToken of None \<Rightarrow> [] | Some t \<Rightarrow> t, asStored r serialized, show_int ms] False)
            (\<lambda>written. return_eff (written = Some 1))))\<rparr>"

definition createRedisRepository ::
  "('v \<Rightarrow> ustring) \<Rightarrow> (ustring \<Rightarrow> 'v option) \<Rightarrow> 'w redis_repository \<Rightarrow> ('v, ustring, 'w) Repository" where
  "createRedisRepository stringify parse r =
     (let kv = createRepositoryFromKV stringify parse (redis_primitives r) in
      kv\<lparr>rp_set := (\<lambda>key v. if v = None then rp_delete kv key else throw_eff TtlRequired),
         rp_setWithExpire := Some (\<lambda>key v ms.
           if v = None then rp_delete kv key
           else if ms \<le> 0 then throw_eff TtlRequired
           else the (rp_setWithExpire kv) key v ms),
         rp_compareAndSet := Some (\<lambda>key token v ms.
           if v = None then throw_eff CannotStoreUndefined
           else the (rp_compareAndSet kv) key token v ms)\<rparr>)"

definition redis_withPrefix :: "ustring \<Rightarrow> 'w redis_repository \<Rightarrow> 'w redis_repository" where
  "redis_withPrefix newPrefix r = r\<lparr>rr_prefix := newPrefix\<rparr>"

subsection \<open>DynamoDB (repository-dynamodb/src/dynamo.ts)\<close>

text \<open>A value that is not a string is \<open>None\<close>; so is a time to live that is not a number.\<close>

record StoredItem =
  it_value :: "ustring option"
  it_rev :: ustring
  it_ttl :: "int option"

text \<open>
  The two condition expressions with their values: \<open>attribute_not_exists(#pk) OR #ttl < :now\<close>, and
  \<open>#rev = :rev AND (attribute_not_exists(#ttl) OR #ttl >= :now)\<close>.
\<close>

datatype put_condition = AbsentOrExpired int | SameRevision ustring int

record 'w dynamo_client =
  dy_get :: "ustring \<Rightarrow> (repo_error, StoredItem option, 'w) eff"
  dy_put :: "ustring \<Rightarrow> StoredItem \<Rightarrow> put_condition option \<Rightarrow> (repo_error, unit, 'w) eff"
  dy_delete :: "ustring \<Rightarrow> (repo_error, unit, 'w) eff"
  dy_now :: "'w \<Rightarrow> int"
  dy_uuid :: "(repo_error, ustring, 'w) eff"

record 'w dynamo_repository =
  dr_client :: "'w dynamo_client"
  dr_prefix :: ustring
  dr_codec :: "((ustring \<Rightarrow> ustring) \<times> (ustring \<Rightarrow> ustring)) option"

definition dynamo_condition_failed :: repo_error where
  "dynamo_condition_failed = BackendError (ascii ''ConditionalCheckFailedException'')"

definition dynamo_isConditionFailure :: "repo_error \<Rightarrow> bool" where
  "dynamo_isConditionFailure e \<longleftrightarrow> e = dynamo_condition_failed"

definition dynamo_assertTtl :: "int \<Rightarrow> (repo_error, unit, 'w) eff" where
  "dynamo_assertTtl ms = (if ms > 0 then return_eff () else throw_eff TtlRequired)"

definition asItemKey :: "'w dynamo_repository \<Rightarrow> ustring \<Rightarrow> ustring" where
  "asItemKey r key = dr_prefix r @ key"

definition nowSeconds :: "'w dynamo_repository \<Rightarrow> 'w \<Rightarrow> int" where
  "nowSeconds r w = dy_now (dr_client r) w div 1000"

text \<open>\<open>Math.ceil((Date.now() + expiresInMillis) / 1000)\<close> of whole milliseconds.\<close>

definition expiresAt :: "'w dynamo_repository \<Rightarrow> int \<Rightarrow> 'w \<Rightarrow> int" where
  "expiresAt r ms w = - ((- (dy_now (dr_client r) w + ms)) div 1000)"

definition toValue :: "'w dynamo_repository \<Rightarrow> ustring \<Rightarrow> ustring" where
  "toValue r serialized = (case dr_codec r of None \<Rightarrow> serialized | Some (f, g) \<Rightarrow> f serialized)"

definition fromValue :: "'w dynamo_repository \<Rightarrow> ustring \<Rightarrow> ustring" where
  "fromValue r v = (case dr_codec r of None \<Rightarrow> v | Some (f, g) \<Rightarrow> g v)"

definition isLive :: "int \<Rightarrow> StoredItem \<Rightarrow> bool" where
  "isLive now it = (case it_ttl it of None \<Rightarrow> True | Some ttl \<Rightarrow> ttl \<ge> now)"

definition readItem :: "'w dynamo_repository \<Rightarrow> ustring \<Rightarrow> (repo_error, StoredItem option, 'w) eff" where
  "readItem r key =
     bind_eff (dy_get (dr_client r) (asItemKey r key)) (\<lambda>found.
       case found of
         None \<Rightarrow> return_eff None
       | Some it \<Rightarrow>
           if it_value it = None then return_eff None
           else bind_eff (get_eff (nowSeconds r)) (\<lambda>now. return_eff (if isLive now it then Some it else None)))"

definition newItem :: "'w dynamo_repository \<Rightarrow> ustring \<Rightarrow> int option \<Rightarrow> (repo_error, StoredItem, 'w) eff" where
  "newItem r serialized ms =
     bind_eff (dy_uuid (dr_client r)) (\<lambda>uuid.
       get_eff (\<lambda>w. \<lparr>it_value = Some (toValue r serialized), it_rev = uuid,
         it_ttl = map_option (\<lambda>m. expiresAt r m w) ms\<rparr>))"

definition dynamo_put ::
  "'w dynamo_repository \<Rightarrow> ustring \<Rightarrow> ustring \<Rightarrow> int option \<Rightarrow> put_condition option \<Rightarrow> (repo_error, unit, 'w) eff" where
  "dynamo_put r key serialized ms condition =
     bind_eff (newItem r serialized ms) (\<lambda>it. dy_put (dr_client r) (asItemKey r key) it condition)"

definition dynamo_condition :: "ustring option \<Rightarrow> int \<Rightarrow> put_condition" where
  "dynamo_condition expectedToken now =
     (case expectedToken of None \<Rightarrow> AbsentOrExpired now | Some token \<Rightarrow> SameRevision token now)"

definition dynamo_getRevision ::
  "'w dynamo_repository \<Rightarrow> ustring \<Rightarrow> (repo_error, (ustring \<times> ustring) option, 'w) eff" where
  "dynamo_getRevision r key =
     bind_eff (readItem r key) (\<lambda>found.
       return_eff (map_option (\<lambda>it. (fromValue r (the (it_value it)), it_rev it)) found))"

definition dynamo_compareAndSet ::
  "'w dynamo_repository \<Rightarrow> ustring \<Rightarrow> ustring option \<Rightarrow> ustring \<Rightarrow> int option \<Rightarrow> (repo_error, bool, 'w) eff" where
  "dynamo_compareAndSet r key expectedToken serialized ms =
     then_eff (case ms of None \<Rightarrow> return_eff () | Some m \<Rightarrow> dynamo_assertTtl m)
       (bind_eff (get_eff (nowSeconds r)) (\<lambda>now.
          catch_eff
            (then_eff (dynamo_put r key serialized ms (Some (dynamo_condition expectedToken now))) (return_eff True))
            (\<lambda>e. if dynamo_isConditionFailure e then return_eff False else throw_eff e)))"

definition dynamo_primitives :: "'w dynamo_repository \<Rightarrow> (ustring, 'w) KVPrimitives" where
  "dynamo_primitives r =
     \<lparr>kv_get = (\<lambda>key. bind_eff (readItem r key) (\<lambda>found.
        return_eff (map_option (\<lambda>it. fromValue r (the (it_value it))) found))),
      kv_set = (\<lambda>key serialized. dynamo_put r key serialized None None),
      kv_delete = (\<lambda>key. dy_delete (dr_client r) (asItemKey r key)),
      kv_setWithExpire = Some (\<lambda>key serialized ms.
        then_eff (dynamo_assertTtl ms) (dynamo_put r key serialized (Some ms) None)),
      kv_getRevision = Some (dynamo_getRevision r),
      kv_compareAndSet = Some (dynamo_compareAndSet r)\<rparr>"

definition createDynamoRepository ::
  "('v \<Rightarrow> ustring) \<Rightarrow> (ustring \<Rightarrow> 'v option) \<Rightarrow> 'w dynamo_repository \<Rightarrow> ('v, ustring, 'w) Repository" where
  "createDynamoRepository stringify parse r =
     (let kv = createRepositoryFromKV stringify parse (dynamo_primitives r) in
      kv\<lparr>rp_set := (\<lambda>key v. if v = None then rp_delete kv key else rp_set kv key v)\<rparr>)"

subsection \<open>S3 (repository-s3/src/s3.ts)\<close>

record s3_error =
  s3_name :: string
  s3_message :: string
  s3_status :: "nat option"

record s3_object =
  so_body :: "ustring option"
  so_etag :: "ustring option"

text \<open>\<open>PutIfNoneMatch\<close> is \<open>IfNoneMatch: "*"\<close>, \<open>PutIfMatch\<close> is \<open>IfMatch\<close> with an ETag.\<close>

datatype s3_condition = PutIfNoneMatch | PutIfMatch ustring

record 'w s3_client =
  s3_getObject :: "ustring \<Rightarrow> (s3_error, s3_object, 'w) eff"
  s3_putObject :: "ustring \<Rightarrow> ustring \<Rightarrow> s3_condition option \<Rightarrow> (s3_error, unit, 'w) eff"
  s3_deleteObject :: "ustring \<Rightarrow> (s3_error, unit, 'w) eff"

record 'w s3_repository =
  sr_client :: "'w s3_client"
  sr_prefix :: ustring
  sr_codec :: "((ustring \<Rightarrow> ustring) \<times> (ustring \<Rightarrow> ustring)) option"

definition isNoSuchKeyError :: "s3_error \<Rightarrow> bool" where
  "isNoSuchKeyError e \<longleftrightarrow>
     s3_name e = ''NoSuchKey'' \<or> find_sub ''The specified key does not exist.'' (s3_message e) \<noteq> None"

definition s3_isConditionFailure :: "s3_error \<Rightarrow> bool" where
  "s3_isConditionFailure e \<longleftrightarrow>
     s3_name e = ''PreconditionFailed'' \<or> s3_name e = ''ConditionalRequestConflict'' \<or>
     s3_status e = Some 412 \<or> s3_status e = Some 409"

definition asS3Key :: "'w s3_repository \<Rightarrow> ustring \<Rightarrow> ustring" where
  "asS3Key r key = sr_prefix r @ key"

definition toBody :: "'w s3_repository \<Rightarrow> ustring \<Rightarrow> ustring" where
  "toBody r serialized = (case sr_codec r of None \<Rightarrow> serialized | Some (f, g) \<Rightarrow> f serialized)"

definition fromBody :: "'w s3_repository \<Rightarrow> ustring \<Rightarrow> ustring" where
  "fromBody r body = (case sr_codec r of None \<Rightarrow> body | Some (f, g) \<Rightarrow> g body)"

text \<open>Errors of the service keep their name when they are rethrown.\<close>

definition rethrow :: "s3_error \<Rightarrow> repo_error" where
  "rethrow e = BackendError (ascii (s3_name e))"

definition of_s3 :: "(s3_error, 'a, 'w) eff \<Rightarrow> (s3_error \<Rightarrow> (repo_error, 'a, 'w) eff) \<Rightarrow> (repo_error, 'a, 'w) eff" where
  "of_s3 m handler w =
     (case m w of
        None \<Rightarrow> None
      | Some (Inr a, w') \<Rightarrow> Some (Inr a, w')
      | Some (Inl e, w') \<Rightarrow> handler e w')"

definition s3_read :: "'w s3_repository \<Rightarrow> ustring \<Rightarrow> (repo_error, s3_object option, 'w) eff" where
  "s3_read r key =
     of_s3 (\<lambda>w. map_option (\<lambda>(x, w'). (map_sum id Some x, w')) (s3_getObject (sr_client r) (asS3Key r key) w))
       (\<lambda>e. if isNoSuchKeyError e then return_eff None else throw_eff (rethrow e))"

definition s3_get :: "'w s3_repository \<Rightarrow> ustring \<Rightarrow> (repo_error, ustring option, 'w) eff" where
  "s3_get r key =
     bind_eff (s3_read r key) (\<lambda>found.
       return_eff (case found of None \<Rightarrow> None | Some content \<Rightarrow> map_option (fromBody r) (so_body content)))"

definition s3_getRevision :: "'w s3_repository \<Rightarrow> ustring \<Rightarrow> (repo_error, (ustring \<times> ustring) option, 'w) eff" where
  "s3_getRevision r key =
     bind_eff (s3_read r key) (\<lambda>found.
       case found of
         None \<Rightarrow> return_eff None
       | Some content \<Rightarrow>
           (case so_body content of
              None \<Rightarrow> return_eff None
            | Some body \<Rightarrow>
                (case so_etag content of
                   None \<Rightarrow> throw_eff (BackendError (asS3Key r key))
                 | Some etag \<Rightarrow>
                     if etag = [] then throw_eff (BackendError (asS3Key r key))
                     else return_eff (Some (fromBody r body, etag)))))"

definition s3_compareAndSet ::
  "'w s3_repository \<Rightarrow> ustring \<Rightarrow> ustring option \<Rightarrow> ustring \<Rightarrow> int option \<Rightarrow> (repo_error, bool, 'w) eff" where
  "s3_compareAndSet r key expectedToken serialized ms =
     of_s3
       (then_eff (s3_putObject (sr_client r) (asS3Key r key) (toBody r serialized)
          (Some (case expectedToken of None \<Rightarrow> PutIfNoneMatch | Some etag \<Rightarrow> PutIfMatch etag)))
          (return_eff True))
       (\<lambda>e. if s3_isConditionFailure e then return_eff False else throw_eff (rethrow e))"

definition s3_primitives :: "'w s3_repository \<Rightarrow> (ustring, 'w) KVPrimitives" where
  "s3_primitives r =
     \<lparr>kv_get = s3_get r,
      kv_set = (\<lambda>key serialized. of_s3 (s3_putObject (sr_client r) (asS3Key r key) (toBody r serialized) None)
        (\<lambda>e. throw_eff (rethrow e))),
      kv_delete = (\<lambda>key. of_s3 (s3_deleteObject (sr_client r) (asS3Key r key)) (\<lambda>e. throw_eff (rethrow e))),
      kv_setWithExpire = None,
      kv_getRevision = Some (s3_getRevision r),
      kv_compareAndSet = Some (s3_compareAndSet r)\<rparr>"

definition createS3Repository ::
  "('v \<Rightarrow> ustring) \<Rightarrow> (ustring \<Rightarrow> 'v option) \<Rightarrow> 'w s3_repository \<Rightarrow> ('v, ustring, 'w) Repository" where
  "createS3Repository stringify parse r =
     (let kv = createRepositoryFromKV stringify parse (s3_primitives r) in
      kv\<lparr>rp_set := (\<lambda>key v. if v = None then rp_delete kv key else rp_set kv key v)\<rparr>)"

subsection \<open>The Redis repository keeps the contract of conditional writes\<close>

text \<open>
  What it relies on: the documented behaviour of the server, a codec that reads back what it
  wrote and writes no empty text, and a hash that is never empty.
\<close>

definition redis_repo_laws ::
  "('v \<Rightarrow> ustring) \<Rightarrow> (ustring \<Rightarrow> 'v option) \<Rightarrow> 'w redis_repository \<Rightarrow> ('w \<Rightarrow> ustring \<Rightarrow> ustring option) \<Rightarrow> bool" where
  "redis_repo_laws stringify parse r strings \<longleftrightarrow>
     string_laws (rr_api r) strings \<and>
     runs_script (rr_api r) strings compareAndSetScript (compareAndSet_body (rr_sha1 r))
       (\<lambda>keys args. length keys = 1 \<and> length args = 3) \<and>
     (\<forall>v. parse (asSerialized r (asStored r (stringify v))) = Some v) \<and>
     (\<forall>v. asStored r (stringify v) \<noteq> []) \<and> (\<forall>s. rr_sha1 r s \<noteq> [])"

definition redis_revision ::
  "(ustring \<Rightarrow> 'v option) \<Rightarrow> 'w redis_repository \<Rightarrow> ('w \<Rightarrow> ustring \<Rightarrow> ustring option) \<Rightarrow> ustring \<Rightarrow> 'w \<Rightarrow>
   ('v, ustring) Revision option" where
  "redis_revision parse r strings key w =
     map_option (\<lambda>s. \<lparr>rev_value = the (parse (asSerialized r s)), rev_token = rr_sha1 r s\<rparr>)
       (strings w (asRedisKey r key))"

definition redis_written ::
  "('v \<Rightarrow> ustring) \<Rightarrow> 'w redis_repository \<Rightarrow> ('w \<Rightarrow> ustring \<Rightarrow> ustring option) \<Rightarrow> ustring \<Rightarrow> 'w \<Rightarrow> bool" where
  "redis_written stringify r strings key w \<longleftrightarrow>
     (\<forall>s. strings w (asRedisKey r key) = Some s \<longrightarrow> (\<exists>v. s = asStored r (stringify v)))"

lemma redis_getRevision_result:
  assumes "redis_repo_laws stringify parse r strings" "redis_written stringify r strings key w"
  shows "the (rp_getRevision (createRedisRepository stringify parse r)) key w =
    Some (Inr (redis_revision parse r strings key w), w)"
proof -
  have get: "ra_get (rr_api r) (asRedisKey r key) w = Some (Inr (strings w (asRedisKey r key)), w)"
    using assms(1) by (simp add: redis_repo_laws_def string_laws_def)
  show ?thesis
  proof (cases "strings w (asRedisKey r key)")
    case None
    then show ?thesis
      using get by (simp add: createRedisRepository_def createRepositoryFromKV_def redis_primitives_def
          eff_defs redis_revision_def Let_def)
  next
    case (Some s)
    then obtain v where v: "s = asStored r (stringify v)"
      using assms(2) unfolding redis_written_def by blast
    have "s \<noteq> []" "parse (asSerialized r s) = Some v"
      using assms(1) v by (simp_all add: redis_repo_laws_def)
    then show ?thesis
      using get Some by (simp add: createRedisRepository_def createRepositoryFromKV_def redis_primitives_def
          eff_defs redis_revision_def Let_def json_parse_def)
  qed
qed

lemma redis_compareAndSet_result:
  fixes r :: "'w redis_repository"
  assumes "redis_repo_laws stringify parse r strings" "0 < ms" "t \<noteq> Some []"
  shows "\<exists>w'. the (rp_compareAndSet (createRedisRepository stringify parse r)) key t (Some v) (Some ms) w =
      Some (Inr (map_option (rr_sha1 r) (strings w (asRedisKey r key)) = t), w') \<and>
    strings w' = (if map_option (rr_sha1 r) (strings w (asRedisKey r key)) = t
      then (strings w)(asRedisKey r key \<mapsto> asStored r (stringify v)) else strings w)"
proof -
  let ?k = "asRedisKey r key" and ?text = "asStored r (stringify v)"
  let ?args = "[case t of None \<Rightarrow> [] | Some x \<Rightarrow> x, ?text, show_int ms]"
  let ?body = "compareAndSet_body (rr_sha1 r) [?k] ?args (strings w)"
  have "length [?k] = 1 \<and> length ?args = 3" by simp
  then obtain w' where w': "ra_eval (rr_api r) compareAndSetScript [?k] ?args False w =
      Some (Inr (Some (fst ?body)), w')" "strings w' = snd ?body"
    using assms(1) unfolding redis_repo_laws_def runs_script_def by blast
  have body: "?body = (if map_option (rr_sha1 r) (strings w ?k) = t then (1, (strings w)(?k \<mapsto> ?text))
      else (0, strings w))"
    using assms(3) by (cases t; cases "strings w ?k") (auto simp: compareAndSet_body_def Let_def)
  have "the (rp_compareAndSet (createRedisRepository stringify parse r)) key t (Some v) (Some ms) w =
      Some (Inr (fst ?body = 1), w')"
    using w'(1) assms(2)
    by (simp add: createRedisRepository_def createRepositoryFromKV_def redis_primitives_def Let_def
        serialize_def assertTtl_def eff_defs)
  then show ?thesis
    using w'(2) body by (auto split: if_splits)
qed

text \<open>
  C18: The Redis repository keeps the contract of conditional writes of the in-memory one, for
  every key that holds what it wrote and every time to live: so documents on Redis lose no
  update either.
\<close>

theorem redis_repository_keeps_contract:
  assumes "redis_repo_laws stringify parse r strings" "dw_expiresInMillis opts = Some ms" "0 < ms"
  shows "cas_repository (createRedisRepository stringify parse r) key opts
    (redis_revision parse r strings key) (\<lambda>v. rr_sha1 r (asStored r (stringify v)))
    (redis_written stringify r strings key)"
proof
  let ?repo = "createRedisRepository stringify parse r" and ?k = "asRedisKey r key"
  have sha: "rr_sha1 r s \<noteq> []" for s
    using assms(1) by (simp add: redis_repo_laws_def)
  have tokens: "map_option rev_token (redis_revision parse r strings key w) =
      map_option (rr_sha1 r) (strings w ?k)" for w
    by (simp add: redis_revision_def option.map_comp comp_def)
  show "isCasRepository ?repo"
    by (simp add: isCasRepository_def createRedisRepository_def createRepositoryFromKV_def
        redis_primitives_def Let_def)
  show "the (rp_getRevision ?repo) key w = Some (Inr (redis_revision parse r strings key w), w)"
    if "redis_written stringify r strings key w" for w
    by (rule redis_getRevision_result [OF assms(1) that])
  show "\<exists>w'. the (rp_compareAndSet ?repo) key t (Some v) (dw_expiresInMillis opts) w = Some (Inr True, w') \<and>
      redis_written stringify r strings key w' \<and>
      redis_revision parse r strings key w' =
        Some \<lparr>rev_value = v, rev_token = rr_sha1 r (asStored r (stringify v))\<rparr>"
    if "map_option rev_token (redis_revision parse r strings key w) = t" for w t v
  proof -
    have t: "map_option (rr_sha1 r) (strings w ?k) = t" "t \<noteq> Some []"
      using that sha unfolding tokens by auto
    obtain w' where "the (rp_compareAndSet ?repo) key t (Some v) (Some ms) w = Some (Inr True, w')"
        "strings w' = (strings w)(?k \<mapsto> asStored r (stringify v))"
      using redis_compareAndSet_result [OF assms(1,3) t(2), of key v w] t(1) by auto
    then show ?thesis
      using assms(1,2) by (auto simp: redis_written_def redis_revision_def redis_repo_laws_def)
  qed
  show "\<exists>w'. the (rp_compareAndSet ?repo) key t (Some v) (dw_expiresInMillis opts) w = Some (Inr False, w') \<and>
      redis_written stringify r strings key w' \<and>
      redis_revision parse r strings key w' = redis_revision parse r strings key w"
    if ok: "redis_written stringify r strings key w"
      and t: "t = map_option (\<lambda>v. rr_sha1 r (asStored r (stringify v))) other"
        "map_option rev_token (redis_revision parse r strings key w) \<noteq> t" for w t other v
  proof -
    have "t \<noteq> Some []" using t(1) sha by auto
    then obtain w' where "the (rp_compareAndSet ?repo) key t (Some v) (Some ms) w = Some (Inr False, w')"
        "strings w' = strings w"
      using redis_compareAndSet_result [OF assms(1,3), of t key v w] t(2) unfolding tokens by auto
    then show ?thesis
      using ok assms(2) by (auto simp: redis_written_def redis_revision_def)
  qed
  show "rev_token x = rr_sha1 r (asStored r (stringify (rev_value x)))"
    if "redis_written stringify r strings key w" "redis_revision parse r strings key w = Some x" for w x
    using that assms(1) by (auto simp: redis_written_def redis_revision_def redis_repo_laws_def)
qed

subsection \<open>Expired items of DynamoDB\<close>

text \<open>
  The documented behaviour of the table: conditions are evaluated against the stored item,
  also an expired one that has not been swept, and a failed one changes nothing.
\<close>

definition condition_holds :: "put_condition \<Rightarrow> StoredItem option \<Rightarrow> bool" where
  "condition_holds c stored =
     (case c of
        AbsentOrExpired now \<Rightarrow>
          (case stored of None \<Rightarrow> True
           | Some it \<Rightarrow> (case it_ttl it of None \<Rightarrow> False | Some ttl \<Rightarrow> ttl < now))
      | SameRevision token now \<Rightarrow>
          (case stored of None \<Rightarrow> False
           | Some it \<Rightarrow> it_rev it = token \<and> (case it_ttl it of None \<Rightarrow> True | Some ttl \<Rightarrow> ttl \<ge> now)))"

definition dynamo_laws :: "'w dynamo_client \<Rightarrow> ('w \<Rightarrow> ustring \<Rightarrow> StoredItem option) \<Rightarrow> bool" where
  "dynamo_laws d items \<longleftrightarrow>
     (\<forall>k w. dy_get d k w = Some (Inr (items w k), w)) \<and>
     (\<forall>k it c w. condition_holds c (items w k) \<longrightarrow>
        (\<exists>w'. dy_put d k it (Some c) w = Some (Inr (), w') \<and> items w' = (items w)(k \<mapsto> it))) \<and>
     (\<forall>k it c w. \<not> condition_holds c (items w k) \<longrightarrow>
        dy_put d k it (Some c) w = Some (Inl dynamo_condition_failed, w)) \<and>
     (\<forall>w. \<exists>u w'. dy_uuid d w = Some (Inr u, w') \<and> items w' = items w)"

text \<open>
  On DynamoDB reads and conditional writes agree on what exists: a conditional write
  succeeds exactly when its token is the one \<open>getRevision\<close> would answer at this moment, also
  when an expired item is still in the table, and stores the value; otherwise it changes
  nothing.
\<close>

theorem dynamo_writes_match_reads:
  assumes "dynamo_laws (dr_client r) items" "\<forall>m. ms = Some m \<longrightarrow> 0 < m"
    and "\<forall>it. items w (asItemKey r key) = Some it \<longrightarrow> it_value it \<noteq> None"
    and "dynamo_getRevision r key w = Some (Inr found, w)"
  shows "\<exists>w'. dynamo_compareAndSet r key token serialized ms w = Some (Inr (map_option snd found = token), w') \<and>
    (if map_option snd found = token
     then \<exists>it. items w' = (items w)(asItemKey r key \<mapsto> it) \<and> it_value it = Some (toValue r serialized)
     else items w' = items w)"
proof -
  let ?d = "dr_client r" and ?k = "asItemKey r key" and ?now = "nowSeconds r w"
  obtain u w1 where u: "dy_uuid ?d w = Some (Inr u, w1)" "items w1 = items w"
    using assms(1) unfolding dynamo_laws_def by blast
  let ?it = "\<lparr>it_value = Some (toValue r serialized), it_rev = u, it_ttl = map_option (\<lambda>m. expiresAt r m w1) ms\<rparr>"
  have ttl: "(case ms of None \<Rightarrow> return_eff () | Some m \<Rightarrow> dynamo_assertTtl m) w = Some (Inr (), w)"
    using assms(2) by (cases ms) (simp_all add: dynamo_assertTtl_def eff_defs)
  have put: "dynamo_put r key serialized ms (Some c) w = dy_put ?d ?k ?it (Some c) w1" for c
    using u(1) by (simp add: dynamo_put_def newItem_def eff_defs)
  have get: "dy_get ?d ?k w = Some (Inr (items w ?k), w)"
    using assms(1) by (simp add: dynamo_laws_def)
  have found: "map_option snd found = (case items w ?k of None \<Rightarrow> None
      | Some it \<Rightarrow> if isLive ?now it then Some (it_rev it) else None)"
  proof (cases "items w ?k")
    case None
    then show ?thesis using assms(4) get by (simp add: dynamo_getRevision_def readItem_def eff_defs)
  next
    case (Some it)
    have "it_value it \<noteq> None"
      using assms(3) Some by blast
    then show ?thesis
      using assms(4) get Some
      by (auto simp: dynamo_getRevision_def readItem_def eff_defs split: if_splits)
  qed
  have agree: "condition_holds (dynamo_condition token ?now) (items w ?k) \<longleftrightarrow> map_option snd found = token"
    unfolding found
    by (cases token; cases "items w ?k")
      (auto simp: condition_holds_def dynamo_condition_def isLive_def split: option.splits)
  show ?thesis
  proof (cases "map_option snd found = token")
    case True
    then obtain w2 where w2: "dy_put ?d ?k ?it (Some (dynamo_condition token ?now)) w1 = Some (Inr (), w2)"
        "items w2 = (items w1)(?k \<mapsto> ?it)"
      using assms(1) agree u(2) unfolding dynamo_laws_def by metis
    have "dynamo_compareAndSet r key token serialized ms w = Some (Inr True, w2)"
      using w2(1) ttl put by (simp add: dynamo_compareAndSet_def eff_defs)
    moreover have "\<exists>it. items w2 = (items w)(?k \<mapsto> it) \<and> it_value it = Some (toValue r serialized)"
      using w2(2) u(2) by (intro exI [of _ ?it]) simp
    ultimately show ?thesis
      using True by auto
  next
    case False
    then have "dy_put ?d ?k ?it (Some (dynamo_condition token ?now)) w1 = Some (Inl dynamo_condition_failed, w1)"
      using assms(1) agree u(2) unfolding dynamo_laws_def by metis
    then show ?thesis
      using False ttl put u(2) by (simp add: dynamo_compareAndSet_def eff_defs dynamo_isConditionFailure_def)
  qed
qed

subsection \<open>Witnesses\<close>

text \<open>Documents of numbers, written as that many characters; the hash adds one more.\<close>

definition demoStringify :: "nat Versioned \<Rightarrow> ustring" where
  "demoStringify d = replicate (Suc (vd_version d)) 118 @ replicate (vd_content d) 99"

definition demoParse :: "ustring \<Rightarrow> nat Versioned option" where
  "demoParse s =
     Some \<lparr>vd_version = length (filter (\<lambda>u. u = 118) s) - 1, vd_content = length (filter (\<lambda>u. u = 99) s)\<rparr>"

definition demoRepository :: "demo_server redis_repository" where
  "demoRepository =
     \<lparr>rr_api = demoRedis (\<lambda>_. compareAndSet_body (\<lambda>s. 115 # s)), rr_prefix = [], rr_codec = None,
      rr_sha1 = (\<lambda>s. 115 # s)\<rparr>"

lemma demo_parse: "demoParse (demoStringify d) = Some d"
  by (simp add: demoParse_def demoStringify_def)

theorem redis_repository_keeps_contract_witness:
  "cas_repository (createRedisRepository demoStringify demoParse demoRepository) (ascii ''k'')
     \<lparr>dw_expiresInMillis = Some 1000, dw_maxRetries = 3\<rparr>
     (redis_revision demoParse demoRepository ds_strings (ascii ''k''))
     (\<lambda>v. rr_sha1 demoRepository (asStored demoRepository (demoStringify v)))
     (redis_written demoStringify demoRepository ds_strings (ascii ''k''))"
proof (rule redis_repository_keeps_contract [where ms = 1000])
  have "demoStringify v \<noteq> []" for v
    by (simp add: demoStringify_def)
  then show "redis_repo_laws demoStringify demoParse demoRepository ds_strings"
    by (simp add: redis_repo_laws_def demoRepository_def demo_string_laws demo_runs_script asStored_def
        asSerialized_def demo_parse)
qed simp_all

text \<open>A table whose only item expired at second 5, at second 9.\<close>

definition demoTable :: "(ustring \<Rightarrow> StoredItem option) dynamo_client" where
  "demoTable =
     \<lparr>dy_get = (\<lambda>k. get_eff (\<lambda>w. w k)),
      dy_put = (\<lambda>k it c w.
        if c = None \<or> condition_holds (the c) (w k) then Some (Inr (), w(k \<mapsto> it))
        else Some (Inl dynamo_condition_failed, w)),
      dy_delete = (\<lambda>k w. Some (Inr (), w(k := None))),
      dy_now = (\<lambda>_. 9000), dy_uuid = return_eff (ascii ''u'')\<rparr>"

definition demoGhosts :: "ustring \<Rightarrow> StoredItem option" where
  "demoGhosts = [ascii ''k'' \<mapsto> \<lparr>it_value = Some (ascii ''1''), it_rev = ascii ''r'', it_ttl = Some 5\<rparr>]"

definition demoDynamo :: "(ustring \<Rightarrow> StoredItem option) dynamo_repository" where
  "demoDynamo = \<lparr>dr_client = demoTable, dr_prefix = [], dr_codec = None\<rparr>"

theorem dynamo_writes_match_reads_witness:
  "\<exists>w'. dynamo_compareAndSet demoDynamo (ascii ''k'') None (ascii ''2'') None demoGhosts = Some (Inr True, w')"
proof -
  have laws: "dynamo_laws (dr_client demoDynamo) id"
    by (simp add: dynamo_laws_def demoDynamo_def demoTable_def eff_defs)
  have typed: "\<forall>it. id demoGhosts (asItemKey demoDynamo (ascii ''k'')) = Some it \<longrightarrow> it_value it \<noteq> None"
    by (simp add: demoGhosts_def asItemKey_def demoDynamo_def)
  have read: "dynamo_getRevision demoDynamo (ascii ''k'') demoGhosts = Some (Inr None, demoGhosts)"
    by (simp add: dynamo_getRevision_def readItem_def demoDynamo_def demoTable_def demoGhosts_def eff_defs
        asItemKey_def nowSeconds_def isLive_def)
  show ?thesis
    using dynamo_writes_match_reads [OF laws _ typed read, of None None "ascii ''2''"] by auto
qed

end
