(* ===== verification/Game_Json.thy ===== *)
theory Game_Json
  imports Js_String "HOL-Library.List_Lexorder" "HOL-Library.Multiset"
begin

section \<open>Canonical JSON (game-kit: json.ts)\<close>

text \<open>
  JSON values as the kit hashes and copies them. A number is the text \<open>JSON.stringify\<close> gives
  for it, so \<open>0\<close> and \<open>-0\<close> are one value and a number that is not finite is a text that is no
  JSON number; \<open>JOther\<close> stands for whatever is not JSON (\<open>undefined\<close>, functions, cycles, sparse
  arrays, accessors). The keys of an object are kept in their order. The lemmas show that the
  canonical text identifies exactly the values that differ in the order of keys only.
\<close>

datatype json =
  JNull
| JBool bool
| JNum ustring
| JStr ustring
| JArr "json list"
| JObj "(ustring \<times> json) list"
| JOther

subsection \<open>The canonical text\<close>

definition number_char :: "u16 \<Rightarrow> bool" where
  "number_char u \<longleftrightarrow> is_digit u \<or> u \<in> {43, 45, 46, 69, 101}"

definition is_number :: "ustring \<Rightarrow> bool" where
  "is_number t \<longleftrightarrow> t \<noteq> [] \<and> (is_digit (hd t) \<or> hd t = 45) \<and> list_all number_char t"

text \<open>A string without a lone surrogate.\<close>

fun well_paired :: "ustring \<Rightarrow> bool" where
  "well_paired [] \<longleftrightarrow> True"
| "well_paired (u # us) \<longleftrightarrow>
     (if is_high u then us \<noteq> [] \<and> is_low (hd us) \<and> well_paired (tl us)
      else \<not> is_low u \<and> well_paired us)"

definition json_string :: "ustring \<Rightarrow> ustring" where
  "json_string s = 34 # json_chars s @ [34]"

definition encode_string :: "ustring \<Rightarrow> ustring option" where
  "encode_string s = (if well_paired s then Some (json_string s) else None)"

text \<open>All results, or nothing when one of them throws.\<close>

fun all_of :: "'a option list \<Rightarrow> 'a list option" where
  "all_of [] = Some []"
| "all_of (x # xs) = (case x of None \<Rightarrow> None | Some a \<Rightarrow> map_option (\<lambda>as. a # as) (all_of xs))"

definition encode_entry :: "(json \<Rightarrow> ustring option) \<Rightarrow> ustring \<times> json \<Rightarrow> ustring option" where
  "encode_entry enc e =
     (case encode_string (fst e) of
        None \<Rightarrow> None
      | Some k \<Rightarrow> map_option (\<lambda>v. k @ 58 # v) (enc (snd e)))"

lemma encode_entry_cong [fundef_cong]:
  assumes "e = e'" "enc (snd e') = enc' (snd e')"
  shows "encode_entry enc e = encode_entry enc' e'"
  unfolding encode_entry_def assms(1) assms(2) by (rule refl)

definition array_text :: "ustring list \<Rightarrow> ustring" where
  "array_text ts = 91 # join [44] ts @ [93]"

definition object_text :: "ustring list \<Rightarrow> ustring" where
  "object_text ts = 123 # join [44] ts @ [125]"

lemma entry_size: "e \<in> set kvs \<Longrightarrow> size (snd e) < size (JObj kvs)"
  by (induction kvs) auto

function (sequential) canonicalJson :: "json \<Rightarrow> ustring option" where
  "canonicalJson JNull = Some (ascii ''null'')"
| "canonicalJson (JBool b) = Some (if b then ascii ''true'' else ascii ''false'')"
| "canonicalJson (JNum t) = (if is_number t then Some t else None)"
| "canonicalJson (JStr s) = encode_string s"
| "canonicalJson (JArr vs) = map_option array_text (all_of (map canonicalJson vs))"
| "canonicalJson (JObj kvs) =
     map_option object_text (all_of (map (encode_entry canonicalJson) (sort_key fst kvs)))"
| "canonicalJson JOther = None"
  by pat_completeness auto
termination
  by (relation "measure size") (auto dest: entry_size simp: less_Suc_eq_le size_list_estimation')

text \<open>
  \<open>JSON.parse(canonicalJson(v))\<close>: the same value with the keys of its objects in order.
\<close>

fun sorted_json :: "json \<Rightarrow> json" where
  "sorted_json (JArr vs) = JArr (map sorted_json vs)"
| "sorted_json (JObj kvs) = JObj (sort_key fst (map (\<lambda>e. (fst e, sorted_json (snd e))) kvs))"
| "sorted_json v = v"

definition copyJson :: "json \<Rightarrow> json option" where
  "copyJson v = (if canonicalJson v = None then None else Some (sorted_json v))"

text \<open>The length in UTF-8; the hash is a parameter, from the text to its hexadecimal digest.\<close>

definition json_bytes :: "json \<Rightarrow> nat option" where
  "json_bytes v = map_option byteLength (canonicalJson v)"

definition hashJson :: "(ustring \<Rightarrow> ustring) \<Rightarrow> json \<Rightarrow> ustring option" where
  "hashJson sha v = map_option sha (canonicalJson v)"

subsection \<open>A string reads back\<close>

definition hex_value :: "u16 \<Rightarrow> nat" where
  "hex_value u = (if u \<le> 57 then unat u - 48 else unat u - 87)"

lemma hex_value_digit: "d < 16 \<Longrightarrow> hex_value (hex_digit d) = d"
proof -
  assume d: "d < 16"
  have "unat (of_nat (48 + d) :: u16) = 48 + d" "unat (of_nat (87 + d) :: u16) = 87 + d"
    using d by (simp_all add: unat_of_nat del: of_nat_add)
  then show ?thesis
    using d by (auto simp: hex_value_def hex_digit_def word_le_nat_alt simp del: of_nat_add)
qed

lemma unit_digits:
  "of_nat (4096 * (unat u div 4096) + 256 * (unat u div 256 mod 16) + 16 * (unat u div 16 mod 16) +
     unat u mod 16) = (u :: u16)"
proof -
  have step: "n = 16 * (n div 16) + n mod 16" for n :: nat
    by simp
  have glue: "n = 16 * a + i \<Longrightarrow> a = 16 * b + j \<Longrightarrow> b = 16 * c + k \<Longrightarrow> 4096 * c + 256 * k + 16 * j + i = n"
    for n a b c i j k :: nat
    by simp
  have "unat u div 256 = unat u div 16 div 16" "unat u div 4096 = unat u div 16 div 16 div 16"
    by (simp_all flip: div_mult2_eq)
  then have digits: "4096 * (unat u div 4096) + 256 * (unat u div 256 mod 16) + 16 * (unat u div 16 mod 16) +
      unat u mod 16 = unat u"
    using glue [OF step [of "unat u"] step [of "unat u div 16"] step [of "unat u div 16 div 16"]] by simp
  show ?thesis unfolding digits by simp
qed

text \<open>Reading one unit back.\<close>

definition short_escape :: "u16 \<Rightarrow> u16" where
  "short_escape c =
     (if c = 98 then 8 else if c = 102 then 12 else if c = 110 then 10 else if c = 114 then 13
      else if c = 116 then 9 else c)"

fun unescape :: "ustring \<Rightarrow> u16 \<times> ustring" where
  "unescape (c # d # r) =
     (if c \<noteq> 92 then (c, d # r)
      else if d = 117 then
        (of_nat (4096 * hex_value (r ! 0) + 256 * hex_value (r ! 1) + 16 * hex_value (r ! 2) + hex_value (r ! 3)),
         drop 4 r)
      else (short_escape d, r))"
| "unescape s = (hd s, tl s)"

lemma unescape_unicode: "unescape (unicode_escape u @ x) = (u, x)"
proof -
  have "unat u div 4096 < 16"
    using unat_u16 [of u] by simp
  then show ?thesis
    using unit_digits [of u]
    by (simp add: unicode_escape_def hex_value_digit numeral_2_eq_2 numeral_3_eq_3 del: of_nat_add of_nat_mult)
qed

text \<open>One unit that is not part of a pair, as \<open>json_chars\<close> writes it.\<close>

definition escape_unit :: "u16 \<Rightarrow> ustring" where
  "escape_unit u = json_chars [u]"

lemma escape_unit_cases:
  "escape_unit u =
     (if u = 34 then [92, 34] else if u = 92 then [92, 92] else if u = 8 then [92, 98]
      else if u = 12 then [92, 102] else if u = 10 then [92, 110] else if u = 13 then [92, 114]
      else if u = 9 then [92, 116] else if u < 32 \<or> is_high u \<or> is_low u then unicode_escape u else [u])"
  by (simp add: escape_unit_def)

lemma json_chars_unit:
  assumes "\<not> (is_high u \<and> us \<noteq> [] \<and> is_low (hd us))"
  shows "json_chars (u # us) = escape_unit u @ json_chars us"
  using assms
  by (simp only: json_chars.simps(2) if_False escape_unit_cases if_distrib [where f = "\<lambda>t. t @ json_chars us"]
      append_Cons append_Nil)

lemma escape_unit_nonempty: "escape_unit u \<noteq> []"
  by (simp add: escape_unit_cases unicode_escape_def)

lemma escape_unit_hd: "hd (escape_unit u) \<noteq> 34" "hd (escape_unit u) = 92 \<or> hd (escape_unit u) = u"
  by (auto simp: escape_unit_cases unicode_escape_def)

lemma unescape_unit: "unescape (escape_unit u @ x) = (u, x)"
proof -
  have "u \<in> {34, 92, 8, 12, 10, 13, 9} \<or> escape_unit u = unicode_escape u \<or> (escape_unit u = [u] \<and> u \<noteq> 92)"
    by (simp add: escape_unit_cases)
  then consider "u \<in> {34, 92, 8, 12, 10, 13, 9}" | "escape_unit u = unicode_escape u" | "escape_unit u = [u]" "u \<noteq> 92"
    by blast
  then show ?thesis
  proof cases
    case 1
    then show ?thesis by (auto simp: escape_unit_cases short_escape_def)
  next
    case 2
    then show ?thesis by (simp add: unescape_unicode)
  next
    case 3
    then show ?thesis by (cases x) simp_all
  qed
qed

lemma escape_unit_unique:
  "escape_unit u @ x = escape_unit v @ y \<Longrightarrow> u = v \<and> x = y"
  using unescape_unit by (metis prod.inject)

lemma json_chars_hd: "json_chars (u # us) \<noteq> [] \<and> hd (json_chars (u # us)) \<noteq> 34"
proof (cases "is_high u \<and> us \<noteq> [] \<and> is_low (hd us)")
  case True
  then have "json_chars (u # us) = u # hd us # json_chars (tl us)" "u \<noteq> 34"
    by (auto simp: is_high_def)
  then show ?thesis by (simp del: json_chars.simps)
next
  case False
  then show ?thesis
    using escape_unit_hd(1) [of u] escape_unit_nonempty [of u] by (simp add: json_chars_unit del: json_chars.simps)
qed

lemma json_chars_unique:
  "well_paired s \<Longrightarrow> well_paired t \<Longrightarrow> json_chars s @ 34 # a = json_chars t @ 34 # b \<Longrightarrow> s = t \<and> a = b"
proof (induction s arbitrary: t rule: well_paired.induct)
  case 1
  show ?case
  proof (cases t)
    case (Cons v vs)
    have "hd (json_chars t @ 34 # b) \<noteq> 34"
      using json_chars_hd [of v vs] Cons by (simp del: json_chars.simps)
    then show ?thesis using 1(3) by (metis append_Nil json_chars.simps(1) list.sel(1))
  qed (use 1 in simp)
next
  case (2 u us)
  show ?case
  proof (cases t)
    case Nil
    have "hd (json_chars (u # us) @ 34 # a) \<noteq> 34"
      using json_chars_hd [of u us] by (simp del: json_chars.simps)
    then show ?thesis using 2(5) Nil by (metis append_Nil json_chars.simps(1) list.sel(1))
  next
    case (Cons v vs)
    show ?thesis
    proof (cases "is_high u")
      case True
      then obtain w us' where us: "us = w # us'" "is_low w" "well_paired us'"
        using 2(3) by (cases us) auto
      have lhs: "json_chars (u # us) = u # w # json_chars us'"
        using us True by simp
      have "is_high v"
      proof (rule ccontr)
        assume nv: "\<not> is_high v"
        have "hd (escape_unit v @ json_chars vs @ 34 # b) = u"
          using 2(5) lhs json_chars_unit [of v vs] nv Cons
          by (metis append.assoc append_Cons list.sel(1))
        then have "u = 92 \<or> u = v"
          using escape_unit_hd(2) [of v] escape_unit_nonempty [of v] by (auto simp: hd_append)
        then show False using True nv by (auto simp: is_high_def)
      qed
      then obtain x vs' where vs: "vs = x # vs'" "is_low x" "well_paired vs'"
        using 2(4) Cons by (cases vs) auto
      have "u = v" "w = x" "json_chars us' @ 34 # a = json_chars vs' @ 34 # b"
        using 2(5) lhs Cons vs \<open>is_high v\<close> by auto
      then show ?thesis
        using 2(1) [of vs'] True us vs Cons by simp
    next
      case False
      have lhs: "json_chars (u # us) = escape_unit u @ json_chars us"
        using False by (intro json_chars_unit) simp
      have us: "well_paired us" using 2(3) False by simp
      have nv: "\<not> is_high v"
      proof
        assume v: "is_high v"
        then obtain x vs' where vs: "vs = x # vs'" "is_low x"
          using 2(4) Cons by (cases vs) auto
        have "hd (escape_unit u @ json_chars us @ 34 # a) = v"
          using 2(5) lhs v vs Cons by simp
        then have "v = 92 \<or> v = u"
          using escape_unit_hd(2) [of u] escape_unit_nonempty [of u] by (auto simp: hd_append)
        then show False using v False by (auto simp: is_high_def)
      qed
      have "escape_unit u @ (json_chars us @ 34 # a) = escape_unit v @ (json_chars vs @ 34 # b)"
        using 2(5) lhs Cons json_chars_unit [of v vs] nv by simp
      then have "u = v" "json_chars us @ 34 # a = json_chars vs @ 34 # b"
        using escape_unit_unique by blast+
      moreover have "well_paired vs" using 2(4) Cons nv by simp
      ultimately show ?thesis
        using 2(2) [of vs] us False Cons by simp
    qed
  qed
qed

lemma json_string_unique:
  assumes "encode_string s = Some x" "encode_string t = Some y" "x @ a = y @ b"
  shows "s = t \<and> a = b"
proof -
  have "well_paired s" "well_paired t" "x = 34 # json_chars s @ [34]" "y = 34 # json_chars t @ [34]"
    using assms(1,2) by (simp_all add: encode_string_def json_string_def split: if_splits)
  then show ?thesis
    using assms(3) json_chars_unique [of s t a b] by simp
qed

subsection \<open>The canonical text identifies a value\<close>

text \<open>What follows a value inside another one, or nothing.\<close>

definition delimited :: "ustring \<Rightarrow> bool" where
  "delimited s \<longleftrightarrow> s = [] \<or> hd s \<in> {44, 93, 125}"

text \<open>Encodings of \<open>x\<close> can be told from those of any other value, whatever follows them.\<close>

definition unique_code :: "('a \<Rightarrow> ustring option) \<Rightarrow> ('a \<Rightarrow> 'b) \<Rightarrow> 'a \<Rightarrow> bool" where
  "unique_code enc norm x \<longleftrightarrow>
     (\<forall>y t u a b. enc x = Some t \<longrightarrow> enc y = Some u \<longrightarrow> t @ a = u @ b \<longrightarrow> delimited a \<longrightarrow> delimited b \<longrightarrow>
        norm x = norm y \<and> a = b)"

lemma unique_codeD:
  "unique_code enc norm x \<Longrightarrow> enc x = Some t \<Longrightarrow> enc y = Some u \<Longrightarrow> t @ a = u @ b \<Longrightarrow>
   delimited a \<Longrightarrow> delimited b \<Longrightarrow> norm x = norm y \<and> a = b"
  unfolding unique_code_def by blast

lemma all_of_Some: "all_of xs = Some ys \<longleftrightarrow> xs = map Some ys"
proof (induction xs arbitrary: ys)
  case (Cons x xs)
  then show ?case by (cases ys) (auto split: option.splits)
qed auto

lemma join_Nil [simp]: "join sep [] = []"
  by (simp add: join_def)

lemma join_Cons: "join sep (t # ts) = t @ (if ts = [] then [] else sep @ join sep ts)"
  by (cases ts) (simp_all add: join_def)

lemma delimited_simps [simp]:
  "delimited (44 # s)" "delimited (93 # s)" "delimited (125 # s)" "delimited []"
  by (simp_all add: delimited_def)

lemma elements_unique:
  assumes "\<forall>x\<in>set xs. unique_code enc norm x"
    and "map enc xs = map Some ts" "map enc ys = map Some us"
    and "\<forall>y t. enc y = Some t \<longrightarrow> t \<noteq> [] \<and> hd t \<notin> {44, 93, 125}"
    and "c \<in> {93, 125}" "join [44] ts @ c # a = join [44] us @ c # b"
  shows "map norm xs = map norm ys \<and> a = b"
  using assms(1-3,6)
proof (induction xs arbitrary: ys ts us)
  case Nil
  then have "ts = []" by simp
  have "us = []"
  proof (rule ccontr)
    assume "us \<noteq> []"
    then obtain u us' where us: "us = u # us'" by (cases us) auto
    then obtain y where "enc y = Some u" using Nil(3) by (cases ys) auto
    then have u: "u \<noteq> []" "hd u \<notin> {44, 93, 125}" using assms(4) by auto
    have "hd (join [44] us @ c # b) = hd u"
      using u(1) us by (simp add: join_Cons)
    then show False
      using Nil(4) \<open>ts = []\<close> u(2) assms(5) by (metis append_Nil insertCI join_Nil list.sel(1) insertE)
  qed
  then show ?case using Nil \<open>ts = []\<close> by simp
next
  case (Cons x xs)
  obtain t ts' where ts: "ts = t # ts'" "enc x = Some t" "map enc xs = map Some ts'"
    using Cons.prems(2) by (cases ts) auto
  have "us \<noteq> []"
  proof
    assume "us = []"
    have t: "t \<noteq> []" "hd t \<notin> {44, 93, 125}" using assms(4) ts(2) by auto
    have "hd (join [44] ts @ c # a) = hd t"
      using t(1) ts by (simp add: join_Cons)
    then show False
      using Cons.prems(4) \<open>us = []\<close> t(2) assms(5) by (metis append_Nil insertCI join_Nil list.sel(1) insertE)
  qed
  then obtain u us' y ys' where us: "us = u # us'" "ys = y # ys'" "enc y = Some u" "map enc ys' = map Some us'"
    using Cons.prems(3) by (cases us; cases ys) auto
  let ?a = "(if ts' = [] then [] else [44] @ join [44] ts') @ c # a"
  let ?b = "(if us' = [] then [] else [44] @ join [44] us') @ c # b"
  have d: "delimited ?a" "delimited ?b"
    using assms(5) by (auto simp: delimited_def)
  have "t @ ?a = u @ ?b"
    using Cons.prems(4) ts(1) us(1) by (simp add: join_Cons)
  then have one: "norm x = norm y" "?a = ?b"
    using unique_codeD [where enc = enc and norm = norm and x = x and y = y and t = t and u = u and a = ?a and b = ?b]
      Cons.prems(1) ts(2) us(3) d by simp_all
  have c: "c \<noteq> 44" using assms(5) by auto
  have "join [44] ts' @ c # a = join [44] us' @ c # b"
    using one(2) c by (auto simp: join_def split: if_splits)
  then have "map norm xs = map norm ys' \<and> a = b"
    using Cons.IH Cons.prems(1) ts(3) us(4) by simp
  then show ?case using one(1) us(2) by simp
qed

lemma number_unique:
  assumes "is_number t" "is_number u" "t @ a = u @ b" "delimited a" "delimited b"
  shows "t = u \<and> a = b"
proof -
  have stop: "takeWhile number_char (s @ c) = s" if "is_number s" "delimited c" for s c
  proof -
    have "takeWhile number_char c = []"
      using that(2) by (cases c) (auto simp: delimited_def number_char_def is_digit_def word_le_nat_alt)
    then show ?thesis
      using that(1) by (simp add: is_number_def list_all_iff del: takeWhile_eq_all_conv)
  qed
  have "t = u"
    using stop [OF assms(1,4)] stop [OF assms(2,5)] assms(3) by simp
  then show ?thesis using assms(3) by simp
qed

text \<open>Sorting by key before or after the values are sorted themselves.\<close>

definition sort_entry :: "ustring \<times> json \<Rightarrow> ustring \<times> json" where
  "sort_entry e = (fst e, sorted_json (snd e))"

lemma insort_entry: "map sort_entry (insort_key fst e kvs) = insort_key fst (sort_entry e) (map sort_entry kvs)"
  by (induction kvs) (simp_all add: sort_entry_def)

lemma sorted_entries: "sort_key fst (map sort_entry kvs) = map sort_entry (sort_key fst kvs)"
  by (induction kvs) (simp_all add: insort_entry)

lemma sorted_json_object: "sorted_json (JObj kvs) = JObj (map sort_entry (sort_key fst kvs))"
  using sorted_entries [of kvs] by (simp add: sort_entry_def [abs_def])

lemma canonicalJson_hd:
  assumes "canonicalJson v = Some t"
  shows "t \<noteq> [] \<and> hd t \<notin> {44, 93, 125}"
proof (cases v)
  case (JNum n)
  then have "is_number t" using assms by (simp split: if_splits)
  then show ?thesis by (auto simp: is_number_def is_digit_def word_le_nat_alt)
next
  case (JBool b)
  then show ?thesis using assms by (cases b) auto
qed (use assms in \<open>auto simp: encode_string_def json_string_def array_text_def object_text_def split: if_splits\<close>)

text \<open>The kind of a value shows in its first character.\<close>

definition kind_of :: "json \<Rightarrow> nat" where
  "kind_of v = (case v of JNull \<Rightarrow> 0 | JBool b \<Rightarrow> if b then 1 else 2 | JNum _ \<Rightarrow> 3 | JStr _ \<Rightarrow> 4 | JArr _ \<Rightarrow> 5
     | JObj _ \<Rightarrow> 6 | JOther \<Rightarrow> 7)"

definition kind_of_char :: "u16 \<Rightarrow> nat" where
  "kind_of_char u = (if u = 110 then 0 else if u = 116 then 1 else if u = 102 then 2 else if u = 34 then 4
     else if u = 91 then 5 else if u = 123 then 6 else 3)"

lemma kind_of_text:
  assumes "canonicalJson v = Some t"
  shows "kind_of_char (hd t) = kind_of v"
proof (cases v)
  case (JNum n)
  then have "is_number t" using assms by (simp split: if_splits)
  then show ?thesis using JNum by (auto simp: is_number_def is_digit_def word_le_nat_alt kind_of_def kind_of_char_def)
next
  case (JBool b)
  then show ?thesis using assms by (cases b) (auto simp: kind_of_def kind_of_char_def)
qed (use assms in \<open>auto simp: kind_of_def kind_of_char_def encode_string_def json_string_def array_text_def
      object_text_def split: if_splits\<close>)

lemma same_kind:
  assumes "canonicalJson v = Some t" "canonicalJson w = Some u" "t @ a = u @ b"
  shows "kind_of w = kind_of v"
proof -
  have "hd t = hd u"
    using assms(3) canonicalJson_hd [OF assms(1)] canonicalJson_hd [OF assms(2)] by (metis hd_append)
  then show ?thesis
    using kind_of_text [OF assms(1)] kind_of_text [OF assms(2)] by simp
qed

lemma entry_unique:
  assumes "unique_code canonicalJson sorted_json (snd e)"
  shows "unique_code (encode_entry canonicalJson) sort_entry e"
  unfolding unique_code_def
proof (intro allI impI)
  fix e' t u a b
  assume prems: "encode_entry canonicalJson e = Some t" "encode_entry canonicalJson e' = Some u"
    "t @ a = u @ b" "delimited a" "delimited b"
  obtain k v where kv: "encode_string (fst e) = Some k" "canonicalJson (snd e) = Some v" "t = k @ 58 # v"
    using prems(1) by (auto simp: encode_entry_def split: option.splits)
  obtain k' v' where kv': "encode_string (fst e') = Some k'" "canonicalJson (snd e') = Some v'" "u = k' @ 58 # v'"
    using prems(2) by (auto simp: encode_entry_def split: option.splits)
  have "fst e = fst e' \<and> 58 # v @ a = 58 # v' @ b"
    using json_string_unique [OF kv(1) kv'(1), of "58 # v @ a" "58 # v' @ b"] prems(3) kv(3) kv'(3) by simp
  then show "sort_entry e = sort_entry e' \<and> a = b"
    using unique_codeD [OF assms kv(2) kv'(2) _ prems(4,5)] by (simp add: sort_entry_def)
qed

lemma entry_hd: "encode_entry canonicalJson e = Some t \<Longrightarrow> t \<noteq> [] \<and> hd t \<notin> {44, 93, 125}"
  by (auto simp: encode_entry_def encode_string_def json_string_def split: option.splits if_splits)

lemma canonicalJson_unique: "unique_code canonicalJson sorted_json v"
proof (induction v rule: canonicalJson.induct)
  case (5 vs)
  show ?case
    unfolding unique_code_def
  proof (intro allI impI)
    fix w t u a b
    assume prems: "canonicalJson (JArr vs) = Some t" "canonicalJson w = Some u" "t @ a = u @ b"
      "delimited a" "delimited b"
    have "kind_of w = 5"
      using same_kind [OF prems(1-3)] by (simp add: kind_of_def)
    then obtain ws where w: "w = JArr ws" by (cases w) (auto simp: kind_of_def split: if_splits)
    obtain ts us where ts: "map canonicalJson vs = map Some ts" "t = array_text ts"
        "map canonicalJson ws = map Some us" "u = array_text us"
      using prems(1,2) w by (auto simp: all_of_Some)
    have "map sorted_json vs = map sorted_json ws \<and> a = b"
      by (rule elements_unique [OF _ ts(1,3), of _ 93])
        (use 5 canonicalJson_hd prems(3) ts in \<open>auto simp: array_text_def\<close>)
    then show "sorted_json (JArr vs) = sorted_json w \<and> a = b" using w by simp
  qed
next
  case (6 kvs)
  show ?case
    unfolding unique_code_def
  proof (intro allI impI)
    fix w t u a b
    assume prems: "canonicalJson (JObj kvs) = Some t" "canonicalJson w = Some u" "t @ a = u @ b"
      "delimited a" "delimited b"
    have "kind_of w = 6"
      using same_kind [OF prems(1-3)] by (simp add: kind_of_def)
    then obtain ws where w: "w = JObj ws" by (cases w) (auto simp: kind_of_def split: if_splits)
    obtain ts us where ts: "map (encode_entry canonicalJson) (sort_key fst kvs) = map Some ts" "t = object_text ts"
        "map (encode_entry canonicalJson) (sort_key fst ws) = map Some us" "u = object_text us"
      using prems(1,2) w by (auto simp: all_of_Some)
    have "map sort_entry (sort_key fst kvs) = map sort_entry (sort_key fst ws) \<and> a = b"
      by (rule elements_unique [OF _ ts(1,3), of _ 125])
        (use 6 entry_unique entry_hd prems(3) ts in \<open>auto simp: object_text_def\<close>)
    then show "sorted_json (JObj kvs) = sorted_json w \<and> a = b" using w by (simp only: sorted_json_object)
  qed
next
  case (3 n)
  show ?case
    unfolding unique_code_def
  proof (intro allI impI)
    fix w t u a b
    assume prems: "canonicalJson (JNum n) = Some t" "canonicalJson w = Some u" "t @ a = u @ b"
      "delimited a" "delimited b"
    obtain m where "w = JNum m"
      using same_kind [OF prems(1-3)] by (cases w) (auto simp: kind_of_def split: if_splits)
    then show "sorted_json (JNum n) = sorted_json w \<and> a = b"
      using prems number_unique [of t u a b] by (simp split: if_splits)
  qed
next
  case (4 s)
  show ?case
    unfolding unique_code_def
  proof (intro allI impI)
    fix w t u a b
    assume prems: "canonicalJson (JStr s) = Some t" "canonicalJson w = Some u" "t @ a = u @ b"
      "delimited a" "delimited b"
    obtain r where "w = JStr r"
      using same_kind [OF prems(1-3)] by (cases w) (auto simp: kind_of_def split: if_splits)
    then show "sorted_json (JStr s) = sorted_json w \<and> a = b"
      using prems json_string_unique [of s t r u a b] by simp
  qed
next
  case (2 x)
  show ?case
    unfolding unique_code_def
  proof (intro allI impI)
    fix w t u a b
    assume prems: "canonicalJson (JBool x) = Some t" "canonicalJson w = Some u" "t @ a = u @ b"
      "delimited a" "delimited b"
    then have "w = JBool x"
      using same_kind [OF prems(1-3)] by (cases w) (auto simp: kind_of_def split: if_splits)
    then show "sorted_json (JBool x) = sorted_json w \<and> a = b" using prems by auto
  qed
next
  case 1
  show ?case
    unfolding unique_code_def
  proof (intro allI impI)
    fix w t u a b
    assume prems: "canonicalJson JNull = Some t" "canonicalJson w = Some u" "t @ a = u @ b"
      "delimited a" "delimited b"
    then have "w = JNull"
      using same_kind [OF prems(1-3)] by (cases w) (auto simp: kind_of_def split: if_splits)
    then show "sorted_json JNull = sorted_json w \<and> a = b" using prems by auto
  qed
qed (simp add: unique_code_def)

lemma encode_entry_sorted:
  "canonicalJson (sorted_json (snd e)) = canonicalJson (snd e) \<Longrightarrow>
   encode_entry canonicalJson (sort_entry e) = encode_entry canonicalJson e"
  by (cases "encode_string (fst e)") (simp_all add: encode_entry_def sort_entry_def)

lemma canonicalJson_sorted: "canonicalJson (sorted_json v) = canonicalJson v"
proof (induction v rule: canonicalJson.induct)
  case (5 vs)
  then show ?case by (simp cong: map_cong)
next
  case (6 kvs)
  have "sort_key fst (map sort_entry (sort_key fst kvs)) = map sort_entry (sort_key fst kvs)"
    by (simp add: sorted_entries sort_key_id_if_sorted)
  moreover have "map (encode_entry canonicalJson) (map sort_entry (sort_key fst kvs)) =
      map (encode_entry canonicalJson) (sort_key fst kvs)"
    using 6 encode_entry_sorted by (simp add: comp_def)
  ultimately show ?case
    by (simp only: sorted_json_object canonicalJson.simps)
qed simp_all

lemma canonicalJson_object_sorted:
  "canonicalJson (JObj (map sort_entry kvs)) = canonicalJson (JObj kvs)"
proof -
  have "canonicalJson (JObj (map sort_entry kvs)) = canonicalJson (JObj (sort_key fst (map sort_entry kvs)))"
    by (simp add: sort_key_id_if_sorted)
  also have "\<dots> = canonicalJson (sorted_json (JObj kvs))"
    by (simp only: sorted_json_object sorted_entries)
  finally show ?thesis by (simp only: canonicalJson_sorted)
qed

lemma canonicalJson_iff:
  "canonicalJson v = Some t \<Longrightarrow> canonicalJson w = Some t \<longleftrightarrow> sorted_json w = sorted_json v"
  using unique_codeD [OF canonicalJson_unique, of v t w t "[]" "[]"] canonicalJson_sorted [of v]
    canonicalJson_sorted [of w] by auto

lemma sorted_json_idem [simp]: "sorted_json (sorted_json v) = sorted_json v"
proof (induction v rule: canonicalJson.induct)
  case (5 vs)
  then show ?case by simp
next
  case (6 kvs)
  have "map sort_entry (map sort_entry (sort_key fst kvs)) = map sort_entry (sort_key fst kvs)"
    using 6 by (simp add: sort_entry_def)
  moreover have "sort_key fst (map sort_entry (sort_key fst kvs)) = map sort_entry (sort_key fst kvs)"
    by (simp add: sorted_entries sort_key_id_if_sorted)
  ultimately show ?case
    by (simp only: sorted_json_object)
qed simp_all

lemma copyJson_Some: "copyJson v = Some c \<longleftrightarrow> canonicalJson v \<noteq> None \<and> c = sorted_json v"
  by (auto simp: copyJson_def)

lemma copyJson_idem: "copyJson v = Some c \<Longrightarrow> copyJson c = Some c"
  by (auto simp: copyJson_Some canonicalJson_sorted)

lemma key_order:
  assumes "distinct (map fst kvs)" "distinct (map fst kvs')" "set kvs = set kvs'"
  shows "canonicalJson (JObj kvs) = canonicalJson (JObj kvs')"
proof -
  have "mset kvs = mset kvs'"
    using assms by (simp add: distinct_map set_eq_iff_mset_eq_distinct)
  then have "sort_key fst kvs = sort_key fst kvs'"
    using assms(1) by (intro sort_key_inj_key_eq) (simp_all add: distinct_map)
  then show ?thesis by simp
qed

text \<open>
  C5: The canonical text, which the kit hashes and compares, identifies exactly the values up to
  the order of the keys of their objects: two values have the same text exactly when their
  copies are the same (and a value that is not JSON has neither), a copy has the text of its
  original and is its own copy, and writing the keys of an object in another order changes nothing.
\<close>

theorem canonical_text_identifies_values:
  "(canonicalJson v = canonicalJson w \<longleftrightarrow> copyJson v = copyJson w) \<and>
   (copyJson v = Some c \<longrightarrow> canonicalJson c = canonicalJson v \<and> copyJson c = Some c) \<and>
   (distinct (map fst kvs) \<and> distinct (map fst kvs') \<and> set kvs = set kvs' \<longrightarrow>
      canonicalJson (JObj kvs) = canonicalJson (JObj kvs'))"
proof (intro conjI impI)
  show "canonicalJson v = canonicalJson w \<longleftrightarrow> copyJson v = copyJson w"
  proof (cases "canonicalJson v")
    case None
    then show ?thesis by (auto simp: copyJson_def)
  next
    case (Some t)
    then show ?thesis
      unfolding copyJson_def Some
      using canonicalJson_iff [OF Some, of w] by (cases "canonicalJson w") (simp, metis option.distinct(1) option.inject)
  qed
  show "canonicalJson c = canonicalJson v" if "copyJson v = Some c"
    using that by (simp add: copyJson_Some canonicalJson_sorted)
  show "copyJson c = Some c" if "copyJson v = Some c"
    using that by (rule copyJson_idem)
  show "canonicalJson (JObj kvs) = canonicalJson (JObj kvs')"
    if "distinct (map fst kvs) \<and> distinct (map fst kvs') \<and> set kvs = set kvs'"
    using that key_order by blast
qed

theorem canonical_text_identifies_values_witness:
  "canonicalJson (JObj [(ascii ''b'', JNum (ascii ''1'')), (ascii ''a'', JNull)]) =
     canonicalJson (JObj [(ascii ''a'', JNull), (ascii ''b'', JNum (ascii ''1''))]) \<and>
   canonicalJson (JArr [JNum (ascii ''12'')]) \<noteq> canonicalJson (JArr [JNum (ascii ''1''), JNum (ascii ''2'')])"
proof
  let ?b = "(ascii ''b'', JNum (ascii ''1''))" and ?a = "(ascii ''a'', JNull)"
  have "distinct (map fst [?b, ?a]) \<and> distinct (map fst [?a, ?b]) \<and> set [?b, ?a] = set [?a, ?b]"
    by auto
  then show "canonicalJson (JObj [?b, ?a]) = canonicalJson (JObj [?a, ?b])"
    using canonical_text_identifies_values [of JNull JNull JNull "[?b, ?a]" "[?a, ?b]"] by (simp only: simp_thms)
  have "is_number (ascii ''12'')"
    by (simp add: is_number_def number_char_def is_digit_def)
  then have "canonicalJson (JArr [JNum (ascii ''12'')]) \<noteq> None"
    by simp
  then have "copyJson (JArr [JNum (ascii ''12'')]) = Some (JArr [JNum (ascii ''12'')])"
    unfolding copyJson_def by simp
  moreover have "copyJson (JArr [JNum (ascii ''1''), JNum (ascii ''2'')]) \<noteq> Some (JArr [JNum (ascii ''12'')])"
    unfolding copyJson_def by simp
  ultimately have "copyJson (JArr [JNum (ascii ''12'')]) \<noteq> copyJson (JArr [JNum (ascii ''1''), JNum (ascii ''2'')])"
    by simp
  then show "canonicalJson (JArr [JNum (ascii ''12'')]) \<noteq> canonicalJson (JArr [JNum (ascii ''1''), JNum (ascii ''2'')])"
    using canonical_text_identifies_values [of "JArr [JNum (ascii ''12'')]" "JArr [JNum (ascii ''1''), JNum (ascii ''2'')]"]
    by (simp only: simp_thms)
qed

end
