(* ===== verification/Game_Kit.thy ===== *)
theory Game_Kit
  imports Game_Json
begin

section \<open>Errors and the runtime (game-kit: runtime.ts, types.ts)\<close>

text \<open>
  The errors the kit throws and how a foreign error becomes one of them, and \<open>Runtime.run\<close>,
  which every call to a service goes through: it refuses without an identity, and the result of a
  call that a sign-out or another identity overtook is dropped. A thrown value is an error of the
  kit, an error of a service client with its status, code and reason, or a plain \<open>TypeError\<close> or
  \<open>RangeError\<close>.
\<close>

datatype KitErrorCode =
  NotConfigured | SignedOut | Offline | Conflict | OutOfRange | PayloadTooLarge | NotYourTurn | Mismatch
| Unavailable | RateLimited | ChannelInactive | Forbidden | InvalidState | Cancelled | ServerOnly
| AlreadyClaimed | InboxFull | LobbyRequired | Cooldown | ProposalClosed | PushRefused | Proposed

record service_error =
  se_status :: "int option"
  se_code :: "string option"
  se_reason :: "string option"

datatype thrown =
  KitError string KitErrorCode
| ServiceError service_error
| TypeError
| RangeError

definition retryable :: "KitErrorCode \<Rightarrow> bool" where
  "retryable code \<longleftrightarrow> code \<in> {Offline, Conflict, Unavailable, RateLimited, InboxFull, Cooldown}"

definition service_code :: "string \<Rightarrow> service_error \<Rightarrow> KitErrorCode" where
  "service_code module e =
     (if se_reason e = Some ''cooldown'' then Cooldown
      else if se_reason e \<in> {Some ''proposal_closed'', Some ''not_proposed''} then ProposalClosed
      else if se_reason e \<in> {Some ''proposed'', Some ''confirmed''} then Proposed
      else if module = ''mail'' \<and> se_reason e \<in> {Some ''owner_full'', Some ''sender_full'', Some ''collection_full''}
        then InboxFull
      else if module = ''push'' \<and> se_status e \<in> {Some 400, Some 409} then PushRefused
      else if se_code e = Some ''cancelled'' then Cancelled
      else if se_status e = Some 401 then SignedOut
      else if se_status e = Some 403 then Forbidden
      else if se_status e = Some 410 then ChannelInactive
      else if se_status e = Some 429 then RateLimited
      else if se_reason e = Some ''out_of_range'' then OutOfRange
      else if se_status e = Some 409 then Conflict
      else Unavailable)"

definition mapError :: "string \<Rightarrow> thrown \<Rightarrow> thrown" where
  "mapError module e =
     (case e of
        KitError m c \<Rightarrow> e
      | ServiceError se \<Rightarrow> KitError module (service_code module se)
      | _ \<Rightarrow> KitError module Unavailable)"

definition code_of :: "thrown \<Rightarrow> KitErrorCode option" where
  "code_of e = (case e of KitError m c \<Rightarrow> Some c | _ \<Rightarrow> None)"

text \<open>
  The runtime. The generation counts sign-outs and changes of identity; \<open>stop\<close> and \<open>change\<close> also
  tell the modules, which is part of their own models.
\<close>

record Runtime =
  rt_identity :: "ustring option"
  rt_generation :: nat
  rt_foreground :: bool
  rt_disposed :: bool

definition rt_stop :: "Runtime \<Rightarrow> Runtime" where
  "rt_stop r = r\<lparr>rt_generation := Suc (rt_generation r), rt_identity := None\<rparr>"

definition rt_change :: "Runtime \<Rightarrow> Runtime" where
  "rt_change r = r\<lparr>rt_generation := Suc (rt_generation r)\<rparr>"

text \<open>
  \<open>run\<close>, over a state of which \<open>rt\<close> reads the runtime; \<open>stop\<close> signs out.
\<close>

definition runtime_run ::
  "('s \<Rightarrow> Runtime) \<Rightarrow> ('s \<Rightarrow> 's) \<Rightarrow> string \<Rightarrow> (thrown, 'a, 's) eff \<Rightarrow> (thrown, 'a, 's) eff" where
  "runtime_run rt stop module action s =
     (if rt_identity (rt s) = None \<or> rt_disposed (rt s) then Some (Inl (KitError module SignedOut), s)
      else
        (let generation = rt_generation (rt s) in
         case action s of
           None \<Rightarrow> None
         | Some (r, s') \<Rightarrow>
             (if rt_generation (rt s') \<noteq> generation then Some (Inl (KitError module SignedOut), s')
              else
                case r of
                  Inr a \<Rightarrow> Some (Inr a, s')
                | Inl e \<Rightarrow>
                    (if e = RangeError \<or> e = TypeError then Some (Inl e, s')
                     else
                       (let mapped = mapError module e in
                        Some (Inl mapped, if code_of mapped = Some SignedOut then stop s' else s'))))))"

end
