(* ===== verification/Game_Turns.thy ===== *)
theory Game_Turns
  imports Game_Kit
begin

section \<open>Replicated turn games (game-kit: turns.ts)\<close>

text \<open>
  Every member of a room holds the log of the moves, chained by hashes. A game is a record of the
  variables of \<open>createTurnGame\<close> with the world it runs in; what the source enqueues on its lane
  (the handler of a message, \<open>submit\<close>, \<open>finish\<close>, \<open>persist\<close>) is one event here, and so are the
  timer of a log request, one message of a chunk stream and \<open>dispose\<close>. Messages carry values of
  the types the handlers cast them to. Sending, storing, the clock, random identifiers and the
  roster of the room are operations of the world, which may fail and may change it.
\<close>

subsection \<open>The log\<close>

record TurnRecord =
  tr_index :: int
  tr_move :: json
  tr_by :: ustring
  tr_hash :: ustring

definition zeroHash :: ustring where
  "zeroHash = replicate 64 48"

definition record_entries :: "TurnRecord \<Rightarrow> (ustring \<times> json) list" where
  "record_entries r =
     [(ascii ''index'', JNum (show_int (tr_index r))), (ascii ''move'', tr_move r), (ascii ''by'', JStr (tr_by r)),
      (ascii ''hash'', JStr (tr_hash r))]"

definition record_json :: "TurnRecord \<Rightarrow> json" where
  "record_json r = JObj (record_entries r)"

text \<open>\<open>bytes(value)\<close>, which throws for what is not JSON.\<close>

definition bytes :: "json \<Rightarrow> thrown + nat" where
  "bytes v = (case json_bytes v of None \<Rightarrow> Inl TypeError | Some n \<Rightarrow> Inr n)"

definition log_bytes :: "TurnRecord list \<Rightarrow> thrown + nat" where
  "log_bytes rs = bytes (JArr (map record_json rs))"

definition turns_error :: "KitErrorCode \<Rightarrow> thrown" where
  "turns_error c = KitError ''turns'' c"

text \<open>The loop of \<open>chunks\<close>: the parts so far and the part being filled.\<close>

fun chunks_loop ::
  "nat \<Rightarrow> TurnRecord list \<Rightarrow> TurnRecord list list \<Rightarrow> TurnRecord list \<Rightarrow> thrown + TurnRecord list list" where
  "chunks_loop limit [] result part = Inr (if part \<noteq> [] then result @ [part] else result)"
| "chunks_loop limit (r # rs) result part =
     (case log_bytes [r] of
        Inl e \<Rightarrow> Inl e
      | Inr n \<Rightarrow>
          (if limit < n then Inl (turns_error PayloadTooLarge)
           else
             case log_bytes (part @ [r]) of
               Inl e \<Rightarrow> Inl e
             | Inr k \<Rightarrow>
                 (if limit < k then chunks_loop limit rs (result @ [part]) [r]
                  else chunks_loop limit rs result (part @ [r]))))"

definition chunks :: "TurnRecord list \<Rightarrow> nat \<Rightarrow> thrown + TurnRecord list list" where
  "chunks records limit = chunks_loop limit records [] []"

text \<open>
  The options. \<open>apply\<close> is the game's rule, \<open>None\<close> where it throws; \<open>sha\<close> is SHA-256 in
  hexadecimal digits.
\<close>

record turn_options =
  to_players :: "ustring list"
  to_initial :: json
  to_apply :: "json \<Rightarrow> json \<Rightarrow> ustring \<Rightarrow> json option"
  to_persist :: bool
  to_saveResultAs :: "ustring option"
  to_maxBytes :: nat
  to_ttl :: int
  to_sha :: "ustring \<Rightarrow> ustring"

definition isSafeInteger :: "int \<Rightarrow> bool" where
  "isSafeInteger n \<longleftrightarrow> \<bar>n\<bar> < 2 ^ 53"

definition player_at :: "turn_options \<Rightarrow> int \<Rightarrow> ustring" where
  "player_at opt i = to_players opt ! nat (i mod int (length (to_players opt)))"

definition chain_json :: "ustring \<Rightarrow> int \<Rightarrow> ustring \<Rightarrow> json \<Rightarrow> json" where
  "chain_json previousHash i author move = JArr [JStr previousHash, JNum (show_int i), JStr author, move]"

text \<open>\<open>copyJson(options.apply(copyJson(state), copyJson(move), by))\<close>, which may throw.\<close>

definition apply_move :: "turn_options \<Rightarrow> json \<Rightarrow> json \<Rightarrow> ustring \<Rightarrow> json option" where
  "apply_move opt st move author =
     (case (copyJson st, copyJson move) of
        (Some s, Some m) \<Rightarrow> Option.bind (to_apply opt s m author) copyJson
      | _ \<Rightarrow> None)"

text \<open>One record of \<open>validate\<close>, and its loop: the state the log leads to.\<close>

definition validate_record ::
  "turn_options \<Rightarrow> int \<Rightarrow> ustring \<Rightarrow> json \<Rightarrow> TurnRecord \<Rightarrow> thrown + json" where
  "validate_record opt i previousHash rebuilt r =
     (if tr_index r \<noteq> i \<or> tr_by r \<noteq> player_at opt i then Inl (turns_error Mismatch)
      else
        case hashJson (to_sha opt) (chain_json previousHash i (tr_by r) (tr_move r)) of
          None \<Rightarrow> Inl TypeError
        | Some h \<Rightarrow>
            (if tr_hash r \<noteq> h then Inl (turns_error Mismatch)
             else
               case apply_move opt rebuilt (tr_move r) (tr_by r) of
                 None \<Rightarrow> Inl TypeError
               | Some st \<Rightarrow> Inr st))"

fun validate_from ::
  "turn_options \<Rightarrow> int \<Rightarrow> ustring \<Rightarrow> json \<Rightarrow> TurnRecord list \<Rightarrow> thrown + json" where
  "validate_from opt i previousHash rebuilt [] = Inr rebuilt"
| "validate_from opt i previousHash rebuilt (r # rs) =
     (case validate_record opt i previousHash rebuilt r of
        Inl e \<Rightarrow> Inl e
      | Inr st \<Rightarrow> validate_from opt (i + 1) (tr_hash r) st rs)"

definition validate :: "turn_options \<Rightarrow> TurnRecord list \<Rightarrow> thrown + json" where
  "validate opt log =
     (case copyJson (to_initial opt) of
        None \<Rightarrow> Inl TypeError
      | Some st \<Rightarrow> validate_from opt 0 zeroHash st log)"

definition log_hash :: "TurnRecord list \<Rightarrow> ustring" where
  "log_hash log = (if log = [] then zeroHash else tr_hash (last log))"

definition copy_record :: "TurnRecord \<Rightarrow> TurnRecord" where
  "copy_record r = r\<lparr>tr_move := sorted_json (tr_move r)\<rparr>"

subsection \<open>Messages, saved values and the state\<close>

record Manifest =
  mf_gameId :: ustring
  mf_requestId :: ustring
  mf_count :: int
  mf_finalHash :: ustring
  mf_chunks :: int

text \<open>The messages of the room with names \<open>kit.turns.start\<close>, \<open>kit.turn\<close>, \<open>kit.turns.log\<close> and so on.\<close>

datatype turn_message =
  StartMessage (sm_gameId: ustring) (sm_players: "ustring list") (sm_initialHash: ustring)
| TurnMessage TurnRecord ustring
| LogMessage ustring ustring
| ManifestMessage Manifest
| ChunkMessage ustring ustring int "TurnRecord list"
| FinishMessage ustring json int ustring "ustring option"

record saved_manifest =
  sv_gameId :: ustring
  sv_players :: "ustring list"
  sv_initialHash :: ustring
  sv_revision :: ustring
  sv_chunks :: int
  sv_count :: int
  sv_finalHash :: ustring

datatype saved =
  SavedManifest saved_manifest
| SavedPart "TurnRecord list"
| SavedResult "ustring option" json "ustring list" ustring

datatype turn_event_out = Turned json json ustring int | MismatchAt int ustring | Failed thrown

record assembly =
  as_manifest :: Manifest
  as_from :: ustring
  as_parts :: "(int \<times> TurnRecord list) list"
  as_totalBytes :: nat

record pending_finish =
  pf_result :: json
  pf_count :: int
  pf_finalHash :: ustring

text \<open>A log on its way to a peer: the receiver, its request and the parts not sent yet.\<close>

record chunk_stream =
  cs_to :: ustring
  cs_requestId :: ustring
  cs_next :: nat
  cs_parts :: "TurnRecord list list"

text \<open>What the game asks of the room, the saves, the clock and the random generator.\<close>

record 'w turn_env =
  te_options :: turn_options
  te_room :: ustring
  te_me :: ustring
  te_active :: "'w \<Rightarrow> bool"
  te_members :: "'w \<Rightarrow> (ustring \<times> bool) list"
  te_host :: "'w \<Rightarrow> ustring option"
  te_send :: "turn_message \<Rightarrow> ustring option \<Rightarrow> (thrown, unit, 'w) eff"
  te_store :: "ustring \<Rightarrow> saved \<Rightarrow> int option \<Rightarrow> (thrown, unit, 'w) eff"
  te_load :: "ustring \<Rightarrow> (thrown, saved option, 'w) eff"
  te_now :: "'w \<Rightarrow> int"
  te_uuid :: "(thrown, ustring, 'w) eff"

text \<open>
  The variables; \<open>tg_timer\<close> is the request a pending timeout is about, and \<open>tg_initialized\<close> the
  outcome of the initialization, \<open>None\<close> while it runs.
\<close>

record 'w turn_game =
  tg_state :: json
  tg_records :: "TurnRecord list"
  tg_frozen :: bool
  tg_disposed :: bool
  tg_finished :: bool
  tg_resultSaved :: bool
  tg_persistenceDirty :: bool
  tg_finishResult :: json
  tg_elapsed :: "ustring \<Rightarrow> int"
  tg_turnStarted :: int
  tg_gameId :: "ustring option"
  tg_initialHash :: ustring
  tg_assembly :: "assembly option"
  tg_requestId :: "ustring option"
  tg_requestedFrom :: "ustring option"
  tg_replayRequestId :: "ustring option"
  tg_pendingFinish :: "pending_finish option"
  tg_timer :: "ustring option"
  tg_buffered :: "(ustring \<times> TurnRecord \<times> ustring) list"
  tg_streams :: "chunk_stream list"
  tg_events :: "turn_event_out list"
  tg_initialized :: "(thrown + unit) option"
  tg_world :: 'w

type_synonym ('a, 'w) turn_eff = "(thrown, 'a, 'w turn_game) eff"

definition in_world :: "(thrown, 'a, 'w) eff \<Rightarrow> ('a, 'w) turn_eff" where
  "in_world m s =
     (case m (tg_world s) of None \<Rightarrow> None | Some (r, w) \<Rightarrow> Some (r, s\<lparr>tg_world := w\<rparr>))"

definition active :: "'w turn_env \<Rightarrow> 'w turn_game \<Rightarrow> bool" where
  "active env s \<longleftrightarrow> \<not> tg_disposed s \<and> te_active env (tg_world s)"

definition isHost :: "'w turn_env \<Rightarrow> 'w turn_game \<Rightarrow> bool" where
  "isHost env s \<longleftrightarrow> te_host env (tg_world s) = Some (te_me env)"

definition lift_sum :: "thrown + 'a \<Rightarrow> ('a, 'w) turn_eff" where
  "lift_sum r = (case r of Inl e \<Rightarrow> throw_eff e | Inr a \<Rightarrow> return_eff a)"

definition emit :: "turn_event_out \<Rightarrow> 'w turn_game \<Rightarrow> 'w turn_game" where
  "emit ev s = s\<lparr>tg_events := tg_events s @ [ev]\<rparr>"

definition fail_game :: "int \<Rightarrow> ustring \<Rightarrow> 'w turn_game \<Rightarrow> 'w turn_game" where
  "fail_game index author s =
     emit (MismatchAt index author)
       (s\<lparr>tg_frozen := True, tg_timer := None, tg_requestId := None, tg_assembly := None, tg_buffered := []\<rparr>)"

definition fail_now :: "int \<Rightarrow> ustring \<Rightarrow> (unit, 'w) turn_eff" where
  "fail_now index author = modify_eff (fail_game index author)"

text \<open>\<open>fail(records.length, by)\<close>\<close>

definition fail_here :: "ustring \<Rightarrow> (unit, 'w) turn_eff" where
  "fail_here author = modify_eff (\<lambda>s. fail_game (int (length (tg_records s))) author s)"

definition report :: "thrown \<Rightarrow> (unit, 'w) turn_eff" where
  "report e = modify_eff (emit (Failed (mapError ''turns'' e)))"

subsection \<open>Persisting\<close>

definition part_key :: "'w turn_env \<Rightarrow> ustring \<Rightarrow> ustring \<Rightarrow> nat \<Rightarrow> ustring" where
  "part_key env gameId revision i =
     ascii ''turns:'' @ te_room env @ ascii '':'' @ gameId @ ascii '':'' @ revision @ ascii '':'' @ show_nat i"

definition manifest_key :: "'w turn_env \<Rightarrow> ustring" where
  "manifest_key env = ascii ''turns:'' @ te_room env"

text \<open>\<open>if (!active() || frozen) throw ...\<close>\<close>

definition check_alive :: "'w turn_env \<Rightarrow> (unit, 'w) turn_eff" where
  "check_alive env =
     bind_eff (get_eff (\<lambda>s. active env s \<and> \<not> tg_frozen s)) (\<lambda>ok.
       if ok then return_eff () else throw_eff (turns_error InvalidState))"

fun store_parts ::
  "'w turn_env \<Rightarrow> ustring \<Rightarrow> ustring \<Rightarrow> nat \<Rightarrow> TurnRecord list list \<Rightarrow> (unit, 'w) turn_eff" where
  "store_parts env gameId revision i [] = return_eff ()"
| "store_parts env gameId revision i (p # ps) =
     then_eff (check_alive env)
       (then_eff (in_world (te_store env (part_key env gameId revision i) (SavedPart p) (Some (to_ttl (te_options env)))))
          (store_parts env gameId revision (Suc i) ps))"

definition saved_of :: "'w turn_env \<Rightarrow> ustring \<Rightarrow> ustring \<Rightarrow> nat \<Rightarrow> 'w turn_game \<Rightarrow> saved" where
  "saved_of env gameId revision n s =
     SavedManifest \<lparr>sv_gameId = gameId, sv_players = to_players (te_options env),
       sv_initialHash = tg_initialHash s, sv_revision = revision, sv_chunks = int n,
       sv_count = int (length (tg_records s)), sv_finalHash = log_hash (tg_records s)\<rparr>"

definition persist :: "'w turn_env \<Rightarrow> (unit, 'w) turn_eff" where
  "persist env =
     bind_eff (get_eff tg_gameId) (\<lambda>g.
       if \<not> to_persist (te_options env) then return_eff ()
       else case g of
         None \<Rightarrow> return_eff ()
       | Some gameId \<Rightarrow>
           bind_eff (in_world (te_uuid env)) (\<lambda>revision.
           bind_eff (get_eff tg_records) (\<lambda>records.
           bind_eff (lift_sum (chunks records 15000)) (\<lambda>parts.
           then_eff (store_parts env gameId revision 0 parts)
          (then_eff (check_alive env)
          (then_eff
             (bind_eff (get_eff (saved_of env gameId revision (length parts))) (\<lambda>v.
                in_world (te_store env (manifest_key env) v (Some (to_ttl (te_options env))))))
             (modify_eff (\<lambda>s. s\<lparr>tg_persistenceDirty := False\<rparr>))))))))"

text \<open>\<open>try { await persist(); } catch (error) { events.emit("error", ...); }\<close>\<close>

definition try_persist :: "'w turn_env \<Rightarrow> (unit, 'w) turn_eff" where
  "try_persist env = catch_eff (persist env) report"

subsection \<open>Asking for the log\<close>

definition responderFor :: "'w turn_env \<Rightarrow> ustring \<Rightarrow> 'w turn_game \<Rightarrow> ustring option" where
  "responderFor env requester s =
     (let members = te_members env (tg_world s) in
      case find (\<lambda>m. Some (fst m) = te_host env (tg_world s) \<and> snd m \<and> fst m \<noteq> requester) members of
        Some m \<Rightarrow> Some (fst m)
      | None \<Rightarrow> find (\<lambda>p. p \<noteq> requester \<and> (p, True) \<in> set members) (to_players (te_options env)))"

definition requestLog :: "'w turn_env \<Rightarrow> (unit, 'w) turn_eff" where
  "requestLog env =
     bind_eff (get_eff (\<lambda>s. (active env s, tg_requestId s, responderFor env (te_me env) s))) (\<lambda>(alive, r, target).
       if \<not> alive \<or> r \<noteq> None then return_eff ()
       else case target of
         None \<Rightarrow> return_eff ()
       | Some peer \<Rightarrow>
           bind_eff (in_world (te_uuid env)) (\<lambda>request.
           then_eff
             (modify_eff (\<lambda>s. s\<lparr>tg_requestedFrom := Some peer, tg_requestId := Some request,
                tg_replayRequestId := Some request, tg_assembly := None, tg_buffered := [],
                tg_timer := Some request\<rparr>))
             (bind_eff (get_eff tg_gameId) (\<lambda>g.
                in_world (te_send env (LogMessage (case g of None \<Rightarrow> [] | Some i \<Rightarrow> i) request) (Some peer))))))"

text \<open>The timeout of a request.\<close>

definition requestTimeout :: "'w turn_game \<Rightarrow> 'w turn_game" where
  "requestTimeout s =
     (case tg_timer s of
        None \<Rightarrow> s
      | Some expected \<Rightarrow>
          (if tg_requestId s = Some expected
           then emit (Failed (turns_error Unavailable))
             (s\<lparr>tg_timer := None, tg_requestId := None, tg_assembly := None, tg_buffered := []\<rparr>)
           else s\<lparr>tg_timer := None\<rparr>))"

subsection \<open>Accepting a move\<close>

text \<open>\<open>copyJson\<close> of a whole payload, which throws when a part of it is not JSON.\<close>

definition copy_payload :: "TurnRecord \<Rightarrow> ustring \<Rightarrow> (TurnRecord, 'w) turn_eff" where
  "copy_payload r gameId =
     (case canonicalJson (JObj (record_entries r @ [(ascii ''gameId'', JStr gameId)])) of
        None \<Rightarrow> throw_eff TypeError
      | Some _ \<Rightarrow> return_eff (copy_record r))"

definition buffered_json :: "(ustring \<times> TurnRecord \<times> ustring) list \<Rightarrow> json" where
  "buffered_json bs =
     JArr (map (\<lambda>(from, r, g). JObj [(ascii ''from'', JStr from),
       (ascii ''payload'', JObj (record_entries r @ [(ascii ''gameId'', JStr g)]))]) bs)"

text \<open>The check of the author and the hash; what throws in it fails the game as well.\<close>

definition move_authentic :: "'w turn_env \<Rightarrow> ustring \<Rightarrow> TurnRecord \<Rightarrow> 'w turn_game \<Rightarrow> bool" where
  "move_authentic env from r s \<longleftrightarrow>
     tr_by r = from \<and> tr_by r = player_at (te_options env) (int (length (tg_records s))) \<and>
     hashJson (to_sha (te_options env)) (chain_json (log_hash (tg_records s)) (tr_index r) (tr_by r) (tr_move r)) =
       Some (tr_hash r)"

definition take_move :: "'w turn_env \<Rightarrow> TurnRecord \<Rightarrow> json \<Rightarrow> 'w turn_game \<Rightarrow> 'w turn_game" where
  "take_move env r next s =
     emit (Turned next (sorted_json (tr_move r)) (tr_by r) (tr_index r))
       (s\<lparr>tg_elapsed := (tg_elapsed s)(tr_by r :=
            tg_elapsed s (tr_by r) + max 0 (te_now env (tg_world s) - tg_turnStarted s)),
          tg_turnStarted := te_now env (tg_world s), tg_state := next,
          tg_records := tg_records s @ [copy_record r],
          tg_persistenceDirty := to_persist (te_options env)\<rparr>)"

text \<open>A move that arrives while the log is awaited; the next move of the log; any move.\<close>

definition buffer_move :: "'w turn_env \<Rightarrow> ustring \<Rightarrow> TurnRecord \<Rightarrow> ustring \<Rightarrow> (unit, 'w) turn_eff" where
  "buffer_move env from r gameId =
     bind_eff (copy_payload r gameId) (\<lambda>copy.
     then_eff (modify_eff (\<lambda>t. t\<lparr>tg_buffered := tg_buffered t @ [(from, copy, gameId)]\<rparr>))
    (bind_eff (get_eff tg_buffered) (\<lambda>buffered.
     bind_eff (lift_sum (bytes (buffered_json buffered))) (\<lambda>len.
       when_eff (to_maxBytes (te_options env) < len) (fail_here from)))))"

definition accept_next :: "'w turn_env \<Rightarrow> ustring \<Rightarrow> TurnRecord \<Rightarrow> (unit, 'w) turn_eff" where
  "accept_next env from r =
     bind_eff (get_eff id) (\<lambda>s.
       if \<not> move_authentic env from r s then fail_here from
       else
         case apply_move (te_options env) (tg_state s) (tr_move r) (tr_by r) of
           None \<Rightarrow> fail_now (tr_index r) from
         | Some next \<Rightarrow>
             (case log_bytes (tg_records s @ [copy_record r]) of
                Inl _ \<Rightarrow> fail_now (tr_index r) from
              | Inr len \<Rightarrow>
                  (if to_maxBytes (te_options env) < len then throw_eff (turns_error PayloadTooLarge)
                   else then_eff (modify_eff (take_move env r next)) (try_persist env))))"

definition accept :: "'w turn_env \<Rightarrow> ustring \<Rightarrow> TurnRecord \<Rightarrow> ustring \<Rightarrow> (unit, 'w) turn_eff" where
  "accept env from r gameId =
     bind_eff (get_eff id) (\<lambda>s.
       if tg_gameId s \<noteq> Some gameId \<or> tg_frozen s \<or> tg_finished s then return_eff ()
       else if tg_requestId s \<noteq> None then buffer_move env from r gameId
       else if tr_index r < int (length (tg_records s)) then
         when_eff (tr_index r < 0 \<or> tr_hash (tg_records s ! nat (tr_index r)) \<noteq> tr_hash r \<or> tr_by r \<noteq> from)
           (fail_now (tr_index r) from)
       else if int (length (tg_records s)) < tr_index r then
         then_eff (requestLog env)
           (bind_eff (copy_payload r gameId) (\<lambda>copy.
              modify_eff (\<lambda>t. t\<lparr>tg_buffered := tg_buffered t @ [(from, copy, gameId)]\<rparr>)))
       else accept_next env from r)"

subsection \<open>Answering a request for the log\<close>

definition announce :: "'w turn_env \<Rightarrow> ustring option \<Rightarrow> (unit, 'w) turn_eff" where
  "announce env to =
     bind_eff (get_eff (\<lambda>s. (tg_gameId s, tg_initialHash s))) (\<lambda>(g, h).
       case g of
         None \<Rightarrow> return_eff ()
       | Some gameId \<Rightarrow> in_world (te_send env (StartMessage gameId (to_players (te_options env)) h) to))"

definition replyLog :: "'w turn_env \<Rightarrow> ustring \<Rightarrow> ustring \<Rightarrow> ustring \<Rightarrow> (unit, 'w) turn_eff" where
  "replyLog env from wanted request =
     bind_eff (get_eff id) (\<lambda>s.
       case tg_gameId s of
         None \<Rightarrow> return_eff ()
       | Some gameId \<Rightarrow>
           (if wanted \<noteq> [] \<and> wanted \<noteq> gameId then return_eff ()
            else if responderFor env from s \<noteq> Some (te_me env) then return_eff ()
            else
              bind_eff (lift_sum (chunks (map copy_record (tg_records s)) 7000)) (\<lambda>parts.
              then_eff (announce env (Some from))
             (then_eff
                (in_world (te_send env
                   (ManifestMessage \<lparr>mf_gameId = gameId, mf_requestId = request,
                      mf_count = int (length (tg_records s)), mf_finalHash = log_hash (tg_records s),
                      mf_chunks = int (length parts)\<rparr>) (Some from)))
                (modify_eff (\<lambda>t. t\<lparr>tg_streams := tg_streams t @
                   [\<lparr>cs_to = from, cs_requestId = request, cs_next = 0, cs_parts = parts\<rparr>]\<rparr>))))))"

text \<open>
  The next message of the stream at position \<open>k\<close>: a part, or the result after the last one. A
  message that cannot be sent ends the stream.
\<close>

definition drop_stream :: "nat \<Rightarrow> 'w turn_game \<Rightarrow> 'w turn_game" where
  "drop_stream k s = s\<lparr>tg_streams := take k (tg_streams s) @ drop (Suc k) (tg_streams s)\<rparr>"

definition stream_step :: "'w turn_env \<Rightarrow> nat \<Rightarrow> (unit, 'w) turn_eff" where
  "stream_step env k =
     bind_eff (get_eff id) (\<lambda>s.
       if length (tg_streams s) \<le> k then return_eff ()
       else if \<not> active env s then modify_eff (drop_stream k)
       else
         (let c = tg_streams s ! k; gameId = (case tg_gameId s of None \<Rightarrow> [] | Some g \<Rightarrow> g) in
          case cs_parts c of
            p # ps \<Rightarrow>
              catch_eff
                (then_eff
                   (in_world (te_send env (ChunkMessage gameId (cs_requestId c) (int (cs_next c)) p) (Some (cs_to c))))
                   (modify_eff (\<lambda>t. t\<lparr>tg_streams :=
                      (tg_streams t)[k := c\<lparr>cs_next := Suc (cs_next c), cs_parts := ps\<rparr>]\<rparr>)))
                (\<lambda>e. modify_eff (drop_stream k))
          | [] \<Rightarrow>
              then_eff
                (when_eff (tg_finished s)
                   (catch_eff
                      (in_world (te_send env
                         (FinishMessage gameId (tg_finishResult s) (int (length (tg_records s))) (log_hash (tg_records s))
                            (Some (cs_requestId c))) (Some (cs_to c))))
                      (\<lambda>e. return_eff ())))
                (modify_eff (drop_stream k))))"

subsection \<open>Finishing\<close>

definition finishLocal :: "'w turn_env \<Rightarrow> json \<Rightarrow> (unit, 'w) turn_eff" where
  "finishLocal env result =
     bind_eff (get_eff id) (\<lambda>s.
       if tg_resultSaved s then return_eff ()
       else
         then_eff
           (if tg_finished s then return_eff ()
            else
              case copyJson result of
                None \<Rightarrow> throw_eff TypeError
              | Some r \<Rightarrow> modify_eff (\<lambda>t. t\<lparr>tg_finishResult := r, tg_finished := True\<rparr>))
        (then_eff (when_eff (tg_persistenceDirty s) (persist env))
        (then_eff
           (case to_saveResultAs (te_options env) of
              None \<Rightarrow> return_eff ()
            | Some name \<Rightarrow>
                bind_eff (get_eff id) (\<lambda>t.
                  in_world (te_store env name
                    (SavedResult (tg_gameId t) (tg_finishResult t) (to_players (te_options env))
                       (log_hash (tg_records t))) None)))
           (modify_eff (\<lambda>t. t\<lparr>tg_resultSaved := True\<rparr>)))))"

subsection \<open>Receiving a log\<close>

fun collect_parts :: "(int \<times> TurnRecord list) list \<Rightarrow> nat \<Rightarrow> nat \<Rightarrow> TurnRecord list option" where
  "collect_parts parts i 0 = Some []"
| "collect_parts parts i (Suc n) =
     (case map_of parts (int i) of
        None \<Rightarrow> None
      | Some p \<Rightarrow> map_option (\<lambda>log. p @ log) (collect_parts parts (Suc i) n))"

text \<open>The log extends the one at hand, hash by hash.\<close>

definition log_matches :: "Manifest \<Rightarrow> TurnRecord list \<Rightarrow> TurnRecord list \<Rightarrow> bool" where
  "log_matches m records log \<longleftrightarrow>
     int (length log) = mf_count m \<and> log_hash log = mf_finalHash m \<and> length records \<le> length log \<and>
     map tr_hash records = take (length records) (map tr_hash log)"

fun accept_all ::
  "'w turn_env \<Rightarrow> (ustring \<times> TurnRecord \<times> ustring) list \<Rightarrow> (unit, 'w) turn_eff" where
  "accept_all env [] = return_eff ()"
| "accept_all env (b # bs) = then_eff (accept env (fst b) (fst (snd b)) (snd (snd b))) (accept_all env bs)"

definition settle_finish :: "'w turn_env \<Rightarrow> ustring \<Rightarrow> (bool, 'w) turn_eff" where
  "settle_finish env from =
     bind_eff (get_eff id) (\<lambda>s.
       case tg_pendingFinish s of
         None \<Rightarrow> return_eff True
       | Some f \<Rightarrow>
           (if tg_frozen s then return_eff True
            else
              then_eff (modify_eff (\<lambda>t. t\<lparr>tg_pendingFinish := None\<rparr>))
                (if pf_count f \<noteq> int (length (tg_records s)) \<or> pf_finalHash f \<noteq> log_hash (tg_records s)
                 then then_eff (fail_here from) (return_eff False)
                 else then_eff (finishLocal env (pf_result f)) (return_eff True))))"

definition commitAssembly :: "'w turn_env \<Rightarrow> (unit, 'w) turn_eff" where
  "commitAssembly env =
     bind_eff (get_eff id) (\<lambda>s.
       case tg_assembly s of
         None \<Rightarrow> return_eff ()
       | Some a \<Rightarrow>
           (if int (length (as_parts a)) \<noteq> mf_chunks (as_manifest a) then return_eff ()
            else
              case collect_parts (as_parts a) 0 (nat (mf_chunks (as_manifest a))) of
                None \<Rightarrow> return_eff ()
              | Some log \<Rightarrow>
                  (if \<not> log_matches (as_manifest a) (tg_records s) log then fail_here (as_from a)
                   else
                     case validate (te_options env) log of
                       Inl _ \<Rightarrow> fail_here (as_from a)
                     | Inr rebuilt \<Rightarrow>
                         (if \<not> active env s then return_eff ()
                          else
                            then_eff
                              (modify_eff (\<lambda>t. t\<lparr>tg_records := map copy_record log,
                                 tg_persistenceDirty := to_persist (te_options env), tg_state := rebuilt,
                                 tg_requestId := None, tg_assembly := None, tg_timer := None, tg_buffered := []\<rparr>))
                           (then_eff (accept_all env (tg_buffered s))
                           (bind_eff (settle_finish env (as_from a)) (\<lambda>ok.
                              when_eff ok (try_persist env))))))))"

subsection \<open>The handlers of the messages\<close>

text \<open>\<open>await initialized\<close>: it does not come back before the initialization ended.\<close>

definition await_init :: "(unit, 'w) turn_eff" where
  "await_init s =
     (case tg_initialized s of
        None \<Rightarrow> None
      | Some (Inl e) \<Rightarrow> Some (Inl e, s)
      | Some (Inr u) \<Rightarrow> Some (Inr u, s))"

definition is_hex_digest :: "ustring \<Rightarrow> bool" where
  "is_hex_digest h \<longleftrightarrow> length h = 64 \<and> list_all (\<lambda>u. is_digit u \<or> (97 \<le> u \<and> u \<le> 102)) h"

definition on_start :: "'w turn_env \<Rightarrow> ustring \<Rightarrow> ustring \<Rightarrow> ustring list \<Rightarrow> ustring \<Rightarrow> (unit, 'w) turn_eff" where
  "on_start env from gameId players initialHash =
     bind_eff (get_eff (\<lambda>s. te_host env (tg_world s) = Some from \<or> tg_requestedFrom s = Some from)) (\<lambda>ok.
       if \<not> ok then return_eff ()
       else
         then_eff await_init
           (bind_eff (get_eff id) (\<lambda>s.
              if initialHash \<noteq> tg_initialHash s \<or> players \<noteq> to_players (te_options env) \<or>
                 (tg_gameId s \<noteq> None \<and> tg_gameId s \<noteq> Some gameId)
              then fail_here from
              else modify_eff (\<lambda>t. t\<lparr>tg_gameId := Some gameId\<rparr>))))"

definition manifest_ok :: "nat \<Rightarrow> Manifest \<Rightarrow> bool" where
  "manifest_ok maxBytes m \<longleftrightarrow>
     isSafeInteger (mf_count m) \<and> 0 \<le> mf_count m \<and> isSafeInteger (mf_chunks m) \<and> 0 \<le> mf_chunks m \<and>
     mf_chunks m \<le> mf_count m \<and> \<not> (mf_count m = 0 \<and> mf_chunks m \<noteq> 0) \<and>
     mf_count m \<le> int (maxBytes div 80) \<and> is_hex_digest (mf_finalHash m)"

definition on_manifest :: "'w turn_env \<Rightarrow> ustring \<Rightarrow> Manifest \<Rightarrow> (unit, 'w) turn_eff" where
  "on_manifest env from m =
     bind_eff (get_eff id) (\<lambda>s.
       if tg_requestId s = None \<or> Some (mf_requestId m) \<noteq> tg_requestId s \<or> Some (mf_gameId m) \<noteq> tg_gameId s
       then return_eff ()
       else if Some from \<noteq> tg_requestedFrom s \<or> \<not> manifest_ok (to_maxBytes (te_options env)) m then fail_here from
       else if (case tg_assembly s of None \<Rightarrow> False | Some a \<Rightarrow> as_from a \<noteq> from) then return_eff ()
       else
         then_eff
           (modify_eff (\<lambda>t. t\<lparr>tg_assembly :=
              Some \<lparr>as_manifest = m, as_from = from, as_parts = [], as_totalBytes = 0\<rparr>\<rparr>))
           (commitAssembly env))"

definition on_chunk ::
  "'w turn_env \<Rightarrow> ustring \<Rightarrow> ustring \<Rightarrow> ustring \<Rightarrow> int \<Rightarrow> TurnRecord list \<Rightarrow> (unit, 'w) turn_eff" where
  "on_chunk env from gameId request part records =
     bind_eff (get_eff id) (\<lambda>s.
       case tg_assembly s of
         None \<Rightarrow> return_eff ()
       | Some a \<Rightarrow>
           (if from \<noteq> as_from a \<or> Some gameId \<noteq> tg_gameId s \<or> Some request \<noteq> tg_requestId s then return_eff ()
            else if \<not> isSafeInteger part \<or> part < 0 \<or> mf_chunks (as_manifest a) \<le> part \<or> records = [] then fail_here from
            else
              case map_of (as_parts a) part of
                Some old \<Rightarrow> when_eff (old \<noteq> records) (fail_here from)
              | None \<Rightarrow>
                  bind_eff (lift_sum (log_bytes records)) (\<lambda>len.
                    let total = as_totalBytes a + len in
                    if to_maxBytes (te_options env) < total
                    then then_eff (modify_eff (\<lambda>t. t\<lparr>tg_assembly := Some (a\<lparr>as_totalBytes := total\<rparr>)\<rparr>))
                           (fail_here from)
                    else
                      then_eff
                        (modify_eff (\<lambda>t. t\<lparr>tg_assembly :=
                           Some (a\<lparr>as_totalBytes := total, as_parts := (part, map copy_record records) # as_parts a\<rparr>)\<rparr>))
                        (commitAssembly env))))"

definition on_finish ::
  "'w turn_env \<Rightarrow> ustring \<Rightarrow> ustring \<Rightarrow> json \<Rightarrow> int \<Rightarrow> ustring \<Rightarrow> ustring option \<Rightarrow> (unit, 'w) turn_eff" where
  "on_finish env from gameId result moves finalHash request =
     bind_eff (get_eff id) (\<lambda>s.
       let n = int (length (tg_records s));
           postpone = (case copyJson result of
               None \<Rightarrow> throw_eff TypeError
             | Some r \<Rightarrow> modify_eff (\<lambda>t. t\<lparr>tg_pendingFinish :=
                 Some \<lparr>pf_result = r, pf_count = moves, pf_finalHash = finalHash\<rparr>\<rparr>)) in
       if Some gameId \<noteq> tg_gameId s \<or>
          (te_host env (tg_world s) \<noteq> Some from \<and>
           \<not> (tg_requestedFrom s = Some from \<and> request = tg_replayRequestId s)) \<or> tg_frozen s
       then return_eff ()
       else if \<not> isSafeInteger moves \<or> moves < 0 \<or> \<not> is_hex_digest finalHash then fail_here from
       else if tg_requestId s \<noteq> None then postpone
       else if n < moves then then_eff (requestLog env) postpone
       else if moves \<noteq> n \<or> finalHash \<noteq> log_hash (tg_records s) then fail_here from
       else finishLocal env result)"

definition on_message :: "'w turn_env \<Rightarrow> ustring \<Rightarrow> turn_message \<Rightarrow> (unit, 'w) turn_eff" where
  "on_message env from msg =
     (case msg of
        StartMessage gameId players initialHash \<Rightarrow> on_start env from gameId players initialHash
      | TurnMessage r gameId \<Rightarrow> accept env from r gameId
      | LogMessage gameId request \<Rightarrow> then_eff await_init (replyLog env from gameId request)
      | ManifestMessage m \<Rightarrow> on_manifest env from m
      | ChunkMessage gameId request part records \<Rightarrow> on_chunk env from gameId request part records
      | FinishMessage gameId result n finalHash request \<Rightarrow> on_finish env from gameId result n finalHash request)"

subsection \<open>Initialization\<close>

definition restorable :: "nat \<Rightarrow> saved_manifest \<Rightarrow> bool" where
  "restorable maxBytes m \<longleftrightarrow>
     isSafeInteger (sv_chunks m) \<and> 0 \<le> sv_chunks m \<and> isSafeInteger (sv_count m) \<and> 0 \<le> sv_count m \<and>
     sv_chunks m \<le> sv_count m \<and> sv_count m \<le> int (maxBytes div 80) \<and> \<not> (sv_count m = 0 \<and> sv_chunks m \<noteq> 0)"

fun load_parts ::
  "'w turn_env \<Rightarrow> ustring \<Rightarrow> ustring \<Rightarrow> nat \<Rightarrow> nat \<Rightarrow> TurnRecord list \<Rightarrow> (TurnRecord list, 'w) turn_eff" where
  "load_parts env gameId revision i 0 log = return_eff log"
| "load_parts env gameId revision i (Suc n) log =
     bind_eff (in_world (te_load env (part_key env gameId revision i))) (\<lambda>v.
       case v of
         None \<Rightarrow> throw_eff (turns_error Unavailable)
       | Some (SavedPart part) \<Rightarrow>
           (if part = [] then throw_eff (turns_error Mismatch)
            else
              bind_eff (lift_sum (log_bytes (log @ part))) (\<lambda>len.
                if to_maxBytes (te_options env) < len then throw_eff (turns_error PayloadTooLarge)
                else load_parts env gameId revision (Suc i) n (log @ part)))
       | Some _ \<Rightarrow> throw_eff (turns_error Mismatch))"

definition restore :: "'w turn_env \<Rightarrow> (unit, 'w) turn_eff" where
  "restore env =
     bind_eff (in_world (te_load env (manifest_key env))) (\<lambda>v.
     bind_eff (get_eff tg_initialHash) (\<lambda>initialHash.
       case v of
         Some (SavedManifest m) \<Rightarrow>
           (if sv_initialHash m \<noteq> initialHash \<or> sv_players m \<noteq> to_players (te_options env) then return_eff ()
            else if \<not> restorable (to_maxBytes (te_options env)) m then throw_eff (turns_error Mismatch)
            else
              bind_eff (load_parts env (sv_gameId m) (sv_revision m) 0 (nat (sv_chunks m)) []) (\<lambda>log.
                if int (length log) \<noteq> sv_count m \<or> log_hash log \<noteq> sv_finalHash m then throw_eff (turns_error Mismatch)
                else
                  bind_eff (lift_sum (validate (te_options env) log)) (\<lambda>rebuilt.
                    modify_eff (\<lambda>s. s\<lparr>tg_state := rebuilt, tg_records := log, tg_gameId := Some (sv_gameId m)\<rparr>))))
       | _ \<Rightarrow> return_eff ()))"

definition initialize :: "'w turn_env \<Rightarrow> (unit, 'w) turn_eff" where
  "initialize env =
     then_eff
       (case hashJson (to_sha (te_options env)) (to_initial (te_options env)) of
          None \<Rightarrow> throw_eff TypeError
        | Some h \<Rightarrow> modify_eff (\<lambda>s. s\<lparr>tg_initialHash := h\<rparr>))
       (bind_eff (get_eff (active env)) (\<lambda>alive.
          if \<not> alive then return_eff ()
          else
            then_eff (when_eff (to_persist (te_options env)) (restore env))
              (bind_eff (get_eff (\<lambda>s. (isHost env s, tg_gameId s))) (\<lambda>(host, g).
                 if host then
                   then_eff
                     (case g of
                        Some _ \<Rightarrow> return_eff ()
                      | None \<Rightarrow> bind_eff (in_world (te_uuid env)) (\<lambda>i. modify_eff (\<lambda>s. s\<lparr>tg_gameId := Some i\<rparr>)))
                     (announce env None)
                 else requestLog env))))"

text \<open>The task of the initialization; a mismatch fails the game.\<close>

definition start_game :: "'w turn_env \<Rightarrow> 'w turn_game \<Rightarrow> 'w turn_game" where
  "start_game env s =
     (if tg_initialized s \<noteq> None then s
      else
        case initialize env s of
          None \<Rightarrow> s
        | Some (Inr u, t) \<Rightarrow> t\<lparr>tg_initialized := Some (Inr u)\<rparr>
        | Some (Inl e, t) \<Rightarrow>
            (let t' = t\<lparr>tg_initialized := Some (Inl e)\<rparr> in
             if code_of (mapError ''turns'' e) = Some Mismatch
             then fail_game (int (length (tg_records t')))
                    (case te_host env (tg_world t') of None \<Rightarrow> [] | Some h \<Rightarrow> h) t'
             else t'))"

definition createTurnGame :: "'w turn_env \<Rightarrow> 'w \<Rightarrow> thrown + 'w turn_game" where
  "createTurnGame env w =
     (let opt = te_options env; members = map fst (te_members env w) in
      if \<not> isSafeInteger (int (to_maxBytes opt)) \<or> to_maxBytes opt = 0 \<or> to_ttl opt \<le> 0 \<or> 31622400 < to_ttl opt
      then Inl RangeError
      else if to_players opt = [] \<or> \<not> distinct (to_players opt) \<or> \<not> list_all (\<lambda>p. p \<in> set members) (to_players opt)
      then Inl TypeError
      else
        case copyJson (to_initial opt) of
          None \<Rightarrow> Inl TypeError
        | Some st \<Rightarrow>
            Inr \<lparr>tg_state = st, tg_records = [], tg_frozen = False, tg_disposed = False, tg_finished = False,
              tg_resultSaved = False, tg_persistenceDirty = False, tg_finishResult = JOther, tg_elapsed = (\<lambda>_. 0),
              tg_turnStarted = te_now env w, tg_gameId = None, tg_initialHash = [], tg_assembly = None,
              tg_requestId = None, tg_requestedFrom = None, tg_replayRequestId = None, tg_pendingFinish = None,
              tg_timer = None, tg_buffered = [], tg_streams = [], tg_events = [], tg_initialized = None, tg_world = w\<rparr>)"

subsection \<open>The operations of the game\<close>

definition check :: "'w turn_env \<Rightarrow> (unit, 'w) turn_eff" where
  "check env =
     bind_eff (get_eff id) (\<lambda>s.
       if \<not> active env s then throw_eff (turns_error SignedOut)
       else if tg_frozen s \<or> tg_finished s then throw_eff (turns_error InvalidState)
       else return_eff ())"

definition submit_record :: "'w turn_env \<Rightarrow> json \<Rightarrow> 'w turn_game \<Rightarrow> TurnRecord option" where
  "submit_record env move s =
     (let n = int (length (tg_records s)) in
      case (copyJson move,
            hashJson (to_sha (te_options env)) (chain_json (log_hash (tg_records s)) n (te_me env) move)) of
        (Some m, Some h) \<Rightarrow> Some \<lparr>tr_index = n, tr_move = m, tr_by = te_me env, tr_hash = h\<rparr>
      | _ \<Rightarrow> None)"

definition submit :: "'w turn_env \<Rightarrow> json \<Rightarrow> (unit, 'w) turn_eff" where
  "submit env move =
     then_eff await_init
    (then_eff (check env)
    (bind_eff (get_eff id) (\<lambda>s.
       case tg_gameId s of
         None \<Rightarrow> throw_eff (turns_error InvalidState)
       | Some gameId \<Rightarrow>
           (if tg_requestId s \<noteq> None then throw_eff (turns_error InvalidState)
            else if te_me env \<noteq> player_at (te_options env) (int (length (tg_records s)))
            then throw_eff (turns_error NotYourTurn)
            else
              case submit_record env move s of
                None \<Rightarrow> throw_eff TypeError
              | Some r \<Rightarrow>
                  bind_eff (lift_sum (chunks [r] 7000)) (\<lambda>_.
                  bind_eff (lift_sum (log_bytes (tg_records s @ [r]))) (\<lambda>len.
                    if to_maxBytes (te_options env) < len then throw_eff (turns_error PayloadTooLarge)
                    else if (case (copyJson (tg_state s), copyJson move) of
                               (Some st, Some m) \<Rightarrow> to_apply (te_options env) st m (te_me env) = None
                             | _ \<Rightarrow> True)
                    then throw_eff (turns_error InvalidState)
                    else
                      then_eff (in_world (te_send env (TurnMessage r gameId) None))
                        (accept env (te_me env) r gameId)))))))"

text \<open>
  \<open>JSON.stringify(finishResult) !== JSON.stringify(result)\<close> compares with the order of the keys.
\<close>

definition finish :: "'w turn_env \<Rightarrow> json \<Rightarrow> (unit, 'w) turn_eff" where
  "finish env result =
     then_eff await_init
    (bind_eff (get_eff id) (\<lambda>s.
       if \<not> active env s \<or> tg_frozen s then throw_eff (turns_error InvalidState)
       else if \<not> isHost env s then throw_eff (turns_error InvalidState)
       else if tg_finished s \<and> tg_finishResult s \<noteq> result then throw_eff (turns_error InvalidState)
       else
         then_eff
           (if tg_finished s then return_eff ()
            else
              case (tg_gameId s, copyJson result) of
                (_, None) \<Rightarrow> throw_eff TypeError
              | (g, Some r) \<Rightarrow>
                  in_world (te_send env
                    (FinishMessage (case g of None \<Rightarrow> [] | Some i \<Rightarrow> i) r (int (length (tg_records s)))
                       (log_hash (tg_records s)) None) None))
           (finishLocal env result)))"

definition elapsed :: "'w turn_env \<Rightarrow> 'w turn_game \<Rightarrow> ustring \<Rightarrow> int" where
  "elapsed env s p =
     tg_elapsed s p +
     (if \<not> tg_finished s \<and> \<not> tg_frozen s \<and> p = player_at (te_options env) (int (length (tg_records s)))
      then max 0 (te_now env (tg_world s) - tg_turnStarted s) else 0)"

definition dispose :: "'w turn_game \<Rightarrow> 'w turn_game" where
  "dispose s =
     (if tg_disposed s then s
      else s\<lparr>tg_disposed := True, tg_timer := None, tg_buffered := [], tg_assembly := None\<rparr>)"

subsection \<open>The events of a game\<close>

text \<open>
  \<open>Message\<close>, \<open>Connected\<close>, \<open>HostChanged\<close>, \<open>SavePending\<close> and \<open>SaveResult\<close> run what the listeners
  enqueue; what these throw is reported. \<open>Outside\<close> is whatever else happens to the world.
\<close>

datatype 'w turn_event =
  Initialize | Message ustring turn_message | Connected | HostChanged | SavePending | SaveResult | Timeout
| StreamNext nat | Submit json | Finish json | Dispose | Outside "'w \<Rightarrow> 'w"

definition run_lane :: "'w turn_env \<Rightarrow> (unit, 'w) turn_eff \<Rightarrow> 'w turn_game \<Rightarrow> 'w turn_game" where
  "run_lane env task s =
     (if \<not> active env s then s
      else case catch_eff task report s of None \<Rightarrow> s | Some (_, t) \<Rightarrow> t)"

definition run_task :: "(unit, 'w) turn_eff \<Rightarrow> 'w turn_game \<Rightarrow> 'w turn_game" where
  "run_task task s = (case task s of None \<Rightarrow> s | Some (_, t) \<Rightarrow> t)"

definition host_changed :: "'w turn_env \<Rightarrow> (unit, 'w) turn_eff" where
  "host_changed env = bind_eff (get_eff (isHost env)) (\<lambda>host. if host then announce env None else requestLog env)"

fun turn_step :: "'w turn_env \<Rightarrow> 'w turn_event \<Rightarrow> 'w turn_game \<Rightarrow> 'w turn_game" where
  "turn_step env Initialize s = start_game env s"
| "turn_step env (Message from msg) s = run_lane env (on_message env from msg) s"
| "turn_step env Connected s = (if tg_gameId s = None then s else run_lane env (requestLog env) s)"
| "turn_step env HostChanged s = run_lane env (host_changed env) s"
| "turn_step env SavePending s = run_lane env (persist env) s"
| "turn_step env SaveResult s = (if tg_finished s then run_lane env (finishLocal env (tg_finishResult s)) s else s)"
| "turn_step env Timeout s = requestTimeout s"
| "turn_step env (StreamNext k) s = run_task (stream_step env k) s"
| "turn_step env (Submit move) s = run_task (submit env move) s"
| "turn_step env (Finish result) s = run_task (finish env result) s"
| "turn_step env Dispose s = dispose s"
| "turn_step env (Outside f) s = s\<lparr>tg_world := f (tg_world s)\<rparr>"

definition turn_run :: "'w turn_env \<Rightarrow> 'w turn_game \<Rightarrow> 'w turn_event list \<Rightarrow> 'w turn_game" where
  "turn_run env s es = fold (turn_step env) es s"

end
