(* ===== verification/Game_Turns_Log.thy ===== *)
theory Game_Turns_Log
  imports Game_Turns
begin

section \<open>The log of a turn game\<close>

text \<open>
  Facts about logs that do not depend on a game: validation record by record, logs of equal
  hashes, and sizes of logs and of the parts they are cut into.
\<close>

subsection \<open>Validation\<close>

lemma copyJson_sorted: "copyJson (sorted_json v) = copyJson v"
  by (simp add: copyJson_def canonicalJson_sorted)

lemma chain_text_sorted:
  "canonicalJson (chain_json p i a (sorted_json m)) = canonicalJson (chain_json p i a m)"
  by (simp add: chain_json_def canonicalJson_sorted)

lemma copy_record_simps [simp]:
  "tr_hash (copy_record r) = tr_hash r" "tr_index (copy_record r) = tr_index r" "tr_by (copy_record r) = tr_by r"
  "tr_move (copy_record r) = sorted_json (tr_move r)"
  by (simp_all add: copy_record_def)

lemma copy_record_eq:
  "copy_record q = copy_record r \<longleftrightarrow>
     tr_index q = tr_index r \<and> tr_by q = tr_by r \<and> tr_hash q = tr_hash r \<and>
     sorted_json (tr_move q) = sorted_json (tr_move r)"
  by (cases q; cases r) (auto simp: copy_record_def)

lemma validate_record_copy [simp]:
  "validate_record opt i p st (copy_record r) = validate_record opt i p st r"
  by (simp only: validate_record_def copy_record_simps hashJson_def chain_text_sorted apply_move_def copyJson_sorted)

lemma log_hash_copy [simp]: "log_hash (map copy_record log) = log_hash log"
  by (simp add: log_hash_def last_map)

lemma validate_from_copy [simp]:
  "validate_from opt i p st (map copy_record log) = validate_from opt i p st log"
  by (induction log arbitrary: i p st) (simp_all split: sum.splits)

lemma validate_copy [simp]: "validate opt (map copy_record log) = validate opt log"
  by (simp add: validate_def split: option.splits)

definition hash_after :: "ustring \<Rightarrow> TurnRecord list \<Rightarrow> ustring" where
  "hash_after p log = (if log = [] then p else tr_hash (last log))"

lemma validate_from_append:
  "validate_from opt i p st (l1 @ l2) =
     (case validate_from opt i p st l1 of
        Inl e \<Rightarrow> Inl e
      | Inr st' \<Rightarrow> validate_from opt (i + int (length l1)) (hash_after p l1) st' l2)"
proof (induction l1 arbitrary: i p st)
  case Nil
  then show ?case by (simp add: hash_after_def)
next
  case (Cons r l1)
  then show ?case
    by (simp add: hash_after_def algebra_simps split: sum.splits)
qed

lemma validate_append:
  "validate opt (l1 @ l2) =
     (case validate opt l1 of
        Inl e \<Rightarrow> Inl e
      | Inr st \<Rightarrow> validate_from opt (int (length l1)) (log_hash l1) st l2)"
  by (simp add: validate_def validate_from_append hash_after_def log_hash_def split: option.splits sum.splits)

lemma validate_snoc:
  "validate opt log = Inr st \<Longrightarrow>
   validate opt (log @ [r]) = validate_record opt (int (length log)) (log_hash log) st r"
  by (simp add: validate_append split: sum.splits)

lemma validate_Nil: "validate opt [] = Inr st \<longleftrightarrow> copyJson (to_initial opt) = Some st"
  by (simp add: validate_def split: option.splits)

text \<open>The text that is hashed for the record at a position.\<close>

definition previous_hash :: "TurnRecord list \<Rightarrow> nat \<Rightarrow> ustring" where
  "previous_hash log i = log_hash (take i log)"

definition chain_value :: "TurnRecord list \<Rightarrow> nat \<Rightarrow> json" where
  "chain_value log i = chain_json (previous_hash log i) (int i) (tr_by (log ! i)) (tr_move (log ! i))"

definition chain_texts :: "TurnRecord list \<Rightarrow> ustring set" where
  "chain_texts log = {t. \<exists>i < length log. canonicalJson (chain_value log i) = Some t}"

lemma validate_nth:
  assumes "validate opt log = Inr st" "i < length log"
  shows "tr_index (log ! i) = int i \<and> tr_by (log ! i) = player_at opt (int i) \<and>
    hashJson (to_sha opt) (chain_value log i) = Some (tr_hash (log ! i))"
proof -
  have split: "log = take i log @ log ! i # drop (Suc i) log"
    using assms(2) by (simp add: id_take_nth_drop)
  obtain st' where st': "validate opt (take i log) = Inr st'"
      "validate_from opt (int i) (log_hash (take i log)) st' (log ! i # drop (Suc i) log) = Inr st"
    using assms validate_append [of opt "take i log" "log ! i # drop (Suc i) log"] split
    by (auto split: sum.splits)
  then obtain st'' where "validate_record opt (int i) (log_hash (take i log)) st' (log ! i) = Inr st''"
    by (auto split: sum.splits)
  then show ?thesis
    by (auto simp: validate_record_def chain_value_def previous_hash_def split: if_splits option.splits)
qed

lemma log_hash_take_Suc: "i < length log \<Longrightarrow> log_hash (take (Suc i) log) = tr_hash (log ! i)"
  by (simp add: log_hash_def take_Suc_conv_app_nth)

text \<open>Two valid logs with the same hash at a position, and no collision, agree up to there.\<close>

lemma hash_determines:
  assumes "validate opt l1 = Inr s1" "validate opt l2 = Inr s2"
    and "inj_on (to_sha opt) (chain_texts l1 \<union> chain_texts l2)"
    and "i < length l1" "i < length l2" "tr_hash (l1 ! i) = tr_hash (l2 ! i)"
  shows "previous_hash l1 i = previous_hash l2 i \<and> copy_record (l1 ! i) = copy_record (l2 ! i)"
proof -
  note v = validate_nth [OF assms(1,4)] validate_nth [OF assms(2,5)]
  obtain t1 t2 where t: "canonicalJson (chain_value l1 i) = Some t1" "canonicalJson (chain_value l2 i) = Some t2"
      "to_sha opt t1 = to_sha opt t2"
    using v assms(6) by (auto simp: hashJson_def)
  have "t1 \<in> chain_texts l1" "t2 \<in> chain_texts l2"
    using t(1,2) assms(4,5) by (auto simp: chain_texts_def)
  then have "t1 = t2"
    using t(3) assms(3) by (auto dest: inj_onD)
  then have "sorted_json (chain_value l1 i) = sorted_json (chain_value l2 i)"
    using canonicalJson_iff [OF t(1), of "chain_value l2 i"] t(2) by simp
  then show ?thesis
    using v assms(6) by (simp add: chain_value_def chain_json_def copy_record_eq)
qed

lemma logs_agree:
  assumes "validate opt l1 = Inr s1" "validate opt l2 = Inr s2"
    and "inj_on (to_sha opt) (chain_texts l1 \<union> chain_texts l2)"
  shows "i < length l1 \<Longrightarrow> i < length l2 \<Longrightarrow> tr_hash (l1 ! i) = tr_hash (l2 ! i) \<Longrightarrow>
    map copy_record (take (Suc i) l1) = map copy_record (take (Suc i) l2)"
proof (induction i)
  case 0
  then show ?case
    using hash_determines [OF assms, of 0] by (cases l1; cases l2) simp_all
next
  case (Suc k)
  have k: "k < length l1" "k < length l2" using Suc.prems by simp_all
  have same: "previous_hash l1 (Suc k) = previous_hash l2 (Suc k)"
      "copy_record (l1 ! Suc k) = copy_record (l2 ! Suc k)"
    using hash_determines [OF assms Suc.prems] by simp_all
  then have "tr_hash (l1 ! k) = tr_hash (l2 ! k)"
    using k by (simp add: previous_hash_def log_hash_take_Suc)
  then have "map copy_record (take (Suc k) l1) = map copy_record (take (Suc k) l2)"
    using Suc.IH k by blast
  then show ?case
    using same(2) Suc.prems(1,2) by (simp add: take_Suc_conv_app_nth)
qed

lemma logs_agree_whole:
  assumes "validate opt l1 = Inr s1" "validate opt l2 = Inr s2"
    and "inj_on (to_sha opt) (chain_texts l1 \<union> chain_texts l2)"
    and "length l1 = length l2" "log_hash l1 = log_hash l2"
  shows "map copy_record l1 = map copy_record l2 \<and> s1 = s2"
proof -
  have same: "map copy_record l1 = map copy_record l2"
  proof (cases "l1 = []")
    case False
    then obtain n where n: "length l1 = Suc n" by (cases l1) auto
    then have "l2 \<noteq> []" using assms(4) by (cases l2) auto
    then have "tr_hash (l1 ! n) = tr_hash (l2 ! n)"
      using False n assms(4,5) by (simp add: log_hash_def last_conv_nth)
    then show ?thesis
      using logs_agree [OF assms(1-3), of n] n assms(4) by simp
  qed (use assms(4) in simp)
  then have "validate opt l1 = validate opt l2"
    using validate_copy by metis
  then show ?thesis using same assms(1,2) by simp
qed

subsection \<open>Sizes\<close>

definition record_text :: "TurnRecord \<Rightarrow> ustring option" where
  "record_text r = canonicalJson (record_json r)"

lemma all_of_map_Some [simp]: "all_of (map Some ts) = Some ts"
  by (simp add: all_of_Some)

lemma log_bytes_iff:
  "log_bytes rs = Inr n \<longleftrightarrow> (\<exists>ts. map record_text rs = map Some ts \<and> n = byteLength (array_text ts))"
  by (auto simp: log_bytes_def bytes_def json_bytes_def record_text_def [abs_def] all_of_Some comp_def
      split: option.splits)

text \<open>A text that starts and ends with a character of its own.\<close>

lemma byteLength_ascii: "u < 128 \<Longrightarrow> byteLength (u # s) = 1 + byteLength s"
proof -
  assume u: "u < 128"
  then have "\<not> is_high u" "utf8Length (unat u) = 1"
    by (auto simp: is_high_def word_less_nat_alt word_le_nat_alt utf8Length_def)
  then show ?thesis by (cases s) simp_all
qed

lemma byteLength_sep: "u < 128 \<Longrightarrow> byteLength (s @ u # t) = byteLength s + (1 + byteLength t)"
proof -
  assume u: "u < 128"
  then have "\<not> is_low u"
    by (auto simp: is_low_def word_less_nat_alt word_le_nat_alt)
  then show ?thesis
    using byteLength_append [of "u # t" s] byteLength_ascii [OF u] by simp
qed

fun joined_bytes :: "ustring list \<Rightarrow> nat" where
  "joined_bytes [] = 0"
| "joined_bytes [t] = byteLength t"
| "joined_bytes (t # ts) = byteLength t + 1 + joined_bytes ts"

lemma byteLength_array: "byteLength (array_text ts) = 2 + joined_bytes ts"
proof -
  have "byteLength (join [44] ts @ [93]) = 1 + joined_bytes ts"
  proof (induction ts rule: joined_bytes.induct)
    case (2 t)
    then show ?case using byteLength_sep [of 93 t "[]"] by (simp add: join_Cons)
  next
    case (3 t t' ts)
    have "byteLength (join [44] (t # t' # ts) @ [93]) =
        byteLength t + (1 + byteLength (join [44] (t' # ts) @ [93]))"
      using byteLength_sep [of 44 t "join [44] (t' # ts) @ [93]"] by (simp add: join_Cons [of _ t])
    then show ?case using 3 by simp
  qed (simp add: utf8Length_def)
  then show ?thesis
    by (simp add: array_text_def byteLength_ascii)
qed

lemma joined_bytes_append: "joined_bytes (ts @ us) \<le> joined_bytes ts + 1 + joined_bytes us"
proof (induction ts rule: joined_bytes.induct)
  case (2 t)
  then show ?case by (cases us) simp_all
qed simp_all

lemma log_bytes_append:
  assumes "log_bytes l1 = Inr m" "log_bytes l2 = Inr n"
  shows "\<exists>k \<le> m + n. log_bytes (l1 @ l2) = Inr k"
proof -
  obtain ts us where "map record_text l1 = map Some ts" "m = byteLength (array_text ts)"
      "map record_text l2 = map Some us" "n = byteLength (array_text us)"
    using assms by (auto simp: log_bytes_iff)
  then have "log_bytes (l1 @ l2) = Inr (byteLength (array_text (ts @ us)))"
      "byteLength (array_text (ts @ us)) \<le> m + n"
    using joined_bytes_append [of ts us] by (auto simp: log_bytes_iff byteLength_array intro: exI [of _ "ts @ us"])
  then show ?thesis by blast
qed

lemma record_text_copy [simp]: "record_text (copy_record r) = record_text r"
proof -
  have "record_entries (copy_record r) = map sort_entry (record_entries r)"
    by (simp add: record_entries_def sort_entry_def)
  then show ?thesis
    by (simp only: record_text_def record_json_def canonicalJson_object_sorted)
qed

lemma log_bytes_copy [simp]: "log_bytes (map copy_record rs) = log_bytes rs"
  by (simp add: log_bytes_def bytes_def json_bytes_def comp_def flip: record_text_def)

text \<open>A record with its hash takes at least 80 bytes, so a log that fits has at most \<open>maxBytes / 80\<close> records.\<close>

lemma length_byteLength: "length s \<le> byteLength s"
proof (induction s rule: byteLength.induct)
  case (2 u)
  then show ?case by (simp add: Suc_leI)
next
  case (3 u v us)
  show ?case
  proof (cases "is_high u \<and> is_low v")
    case True
    then show ?thesis using 3(1) by simp
  next
    case False
    then show ?thesis using 3(2) utf8_pos [of "unat u"] by (simp del: utf8_pos) linarith
  qed
qed simp

lemma length_escape_unit: "1 \<le> length (escape_unit u)"
  using escape_unit_nonempty [of u] by (cases "escape_unit u") auto

lemma length_json_chars: "length s \<le> length (json_chars s)"
proof (induction s rule: json_chars.induct)
  case (2 u us)
  show ?case
  proof (cases "is_high u \<and> us \<noteq> [] \<and> is_low (hd us)")
    case True
    then have "length (tl us) \<le> length (json_chars (tl us))" using 2(1) by blast
    then show ?thesis using True by (cases us) auto
  next
    case False
    have "json_chars (u # us) = escape_unit u @ json_chars us"
      by (rule json_chars_unit [OF False])
    moreover have "length us \<le> length (json_chars us)"
      using 2 False by blast
    ultimately show ?thesis
      using length_escape_unit [of u] by simp
  qed
qed simp

lemma length_join: "length (join [44] ts) + 1 = sum_list (map length ts) + length ts" if "ts \<noteq> []"
  using that
proof (induction ts)
  case (Cons t ts)
  then show ?case by (cases "ts = []") (simp_all add: join_Cons)
qed simp

lemma length_object:
  assumes "canonicalJson (JObj kvs) = Some t" "kvs \<noteq> []"
  shows "length t = sum_list (map (\<lambda>e. length (the (encode_entry canonicalJson e))) kvs) + length kvs + 1"
proof -
  obtain ts where ts: "map (encode_entry canonicalJson) (sort_key fst kvs) = map Some ts" "t = object_text ts"
    using assms(1) by (auto simp: all_of_Some)
  have "map length ts = map (length \<circ> the \<circ> encode_entry canonicalJson) (sort_key fst kvs)"
    using arg_cong [OF ts(1), of "map (length \<circ> the)"] by (simp add: comp_def)
  then have "mset (map length ts) = mset (map (length \<circ> the \<circ> encode_entry canonicalJson) kvs)"
    by simp
  then have "sum_list (map length ts) = sum_list (map (length \<circ> the \<circ> encode_entry canonicalJson) kvs)"
    by (metis sum_mset_sum_list)
  moreover have "length ts = length kvs"
    using arg_cong [OF ts(1), of length] by simp
  ultimately show ?thesis
    using length_join [of ts] ts(2) assms(2) by (cases "ts = []") (auto simp: object_text_def comp_def)
qed

lemma object_entries:
  assumes "canonicalJson (JObj kvs) = Some t" "e \<in> set kvs"
  shows "\<exists>u. encode_entry canonicalJson e = Some u"
proof -
  obtain ts where "map (encode_entry canonicalJson) (sort_key fst kvs) = map Some ts"
    using assms(1) by (auto simp: all_of_Some)
  then have "encode_entry canonicalJson ` set kvs = Some ` set ts"
    using list.set_map set_sort by metis
  then show ?thesis using assms(2) by blast
qed

lemma length_entry:
  "encode_entry canonicalJson e = Some t \<Longrightarrow> length (fst e) + 3 \<le> length t"
  using length_json_chars [of "fst e"]
  by (auto simp: encode_entry_def encode_string_def json_string_def split: option.splits if_splits)

lemma record_text_long:
  assumes "record_text r = Some t" "64 \<le> length (tr_hash r)"
  shows "80 \<le> length t"
proof -
  have whole: "canonicalJson (JObj (record_entries r)) = Some t"
    using assms(1) by (simp add: record_text_def record_json_def)
  obtain i m a h where e: "encode_entry canonicalJson (ascii ''index'', JNum (show_int (tr_index r))) = Some i"
      "encode_entry canonicalJson (ascii ''move'', tr_move r) = Some m"
      "encode_entry canonicalJson (ascii ''by'', JStr (tr_by r)) = Some a"
      "encode_entry canonicalJson (ascii ''hash'', JStr (tr_hash r)) = Some h"
    using object_entries [OF whole] by (force simp: record_entries_def)
  have "64 \<le> length h"
    using e(4) assms(2) length_json_chars [of "tr_hash r"]
    by (auto simp: encode_entry_def encode_string_def json_string_def split: option.splits if_splits)
  moreover have "5 \<le> length a" "7 \<le> length m" "8 \<le> length i"
    using length_entry [OF e(1)] length_entry [OF e(2)] length_entry [OF e(3)] by simp_all
  moreover have "length t = length i + length m + length a + length h + 5"
    using length_object [OF whole] e by (simp add: record_entries_def)
  ultimately show ?thesis by simp
qed

lemma joined_bytes_long: "(\<forall>t\<in>set ts. 80 \<le> length t) \<Longrightarrow> 80 * length ts \<le> joined_bytes ts"
proof (induction ts rule: joined_bytes.induct)
  case (2 t)
  then show ?case using length_byteLength [of t] by simp
next
  case (3 t t' ts)
  then show ?case using length_byteLength [of t] by simp
qed simp

lemma log_bytes_long:
  assumes "log_bytes log = Inr n" "\<forall>r\<in>set log. 64 \<le> length (tr_hash r)"
  shows "80 * length log \<le> n"
proof -
  obtain ts where ts: "map record_text log = map Some ts" "n = 2 + joined_bytes ts"
    using assms(1) by (auto simp: log_bytes_iff byteLength_array)
  have "80 \<le> length t" if "t \<in> set ts" for t
  proof -
    have "Some t \<in> set (map record_text log)" using ts(1) that by simp
    then show ?thesis using record_text_long assms(2) by fastforce
  qed
  then show ?thesis
    using joined_bytes_long [of ts] ts(2) map_eq_imp_length_eq [OF ts(1)] by simp
qed

lemma joined_bytes_mono: "joined_bytes ts \<le> joined_bytes (ts @ us)"
proof (induction ts rule: joined_bytes.induct)
  case (2 t)
  then show ?case by (cases us) simp_all
qed simp_all

lemma log_bytes_prefix:
  assumes "log_bytes (l1 @ l2) = Inr n"
  shows "\<exists>k \<le> n. log_bytes l1 = Inr k"
proof -
  obtain ts where ts: "map record_text (l1 @ l2) = map Some ts" "n = 2 + joined_bytes ts"
    using assms by (auto simp: log_bytes_iff byteLength_array)
  then have "map record_text l1 = map Some (take (length l1) ts)"
    by (metis append_eq_conv_conj length_map map_append take_map)
  moreover have "joined_bytes (take (length l1) ts) \<le> joined_bytes ts"
    using joined_bytes_mono [of "take (length l1) ts" "drop (length l1) ts"] by simp
  ultimately show ?thesis
    using ts(2) by (auto simp: log_bytes_iff byteLength_array)
qed

subsection \<open>Cutting a log into parts\<close>

definition part_fits :: "nat \<Rightarrow> TurnRecord list \<Rightarrow> bool" where
  "part_fits limit p \<longleftrightarrow> p \<noteq> [] \<and> (\<exists>n \<le> limit. log_bytes p = Inr n)"

lemma chunks_loop_parts:
  "chunks_loop limit rs result part = Inr parts \<Longrightarrow> list_all (part_fits limit) result \<Longrightarrow>
   part = [] \<or> part_fits limit part \<Longrightarrow>
   concat parts = concat result @ part @ rs \<and> list_all (part_fits limit) parts"
proof (induction limit rs result part rule: chunks_loop.induct)
  case (2 limit r rs result part)
  then show ?case
    by (force simp: part_fits_def split: sum.splits if_splits)
qed (auto split: if_splits)

lemma chunks_parts:
  "chunks rs limit = Inr parts \<Longrightarrow> concat parts = rs \<and> list_all (part_fits limit) parts"
  unfolding chunks_def using chunks_loop_parts [of limit rs "[]" "[]" parts] by simp

lemma parts_at_most: "list_all (part_fits limit) parts \<Longrightarrow> length parts \<le> length (concat parts)"
proof (induction parts)
  case (Cons p parts)
  then show ?case by (cases p) (auto simp: part_fits_def)
qed simp

lemma chunks_loop_fits:
  "(\<And>r. r \<in> set rs \<Longrightarrow> part_fits limit [r]) \<Longrightarrow> part = [] \<or> part_fits limit part \<Longrightarrow>
   \<exists>parts. chunks_loop limit rs result part = Inr parts"
proof (induction limit rs result part rule: chunks_loop.induct)
  case (2 limit r rs result part)
  obtain n where n: "log_bytes [r] = Inr n" "n \<le> limit"
    using 2(3) [of r] by (auto simp: part_fits_def)
  obtain k where k: "log_bytes (part @ [r]) = Inr k"
    using 2(4) n log_bytes_append [of part _ "[r]" n] by (auto simp: part_fits_def)
  show ?case
    using 2 n k by (auto simp: part_fits_def)
qed auto

end
