(* ===== verification/Game_Turns_Safety.thy ===== *)
theory Game_Turns_Safety
  imports Game_Turns_Log
begin

section \<open>What holds of every game, whatever messages arrive\<close>

text \<open>
  The invariant of a game: the code's own \<open>validate\<close> accepts the log and rebuilds the state, the
  log fits the limit, and the parts received so far fit it together. It is kept by every event,
  with arbitrary messages and failures; the log only ever grows.
\<close>

subsection \<open>The invariant\<close>

definition log_fits :: "'w turn_env \<Rightarrow> TurnRecord list \<Rightarrow> bool" where
  "log_fits env log \<longleftrightarrow> log = [] \<or> (\<exists>n \<le> to_maxBytes (te_options env). log_bytes log = Inr n)"

definition part_bytes :: "TurnRecord list \<Rightarrow> nat" where
  "part_bytes p = (case log_bytes p of Inl _ \<Rightarrow> 0 | Inr n \<Rightarrow> n)"

definition assembly_ok :: "'w turn_env \<Rightarrow> assembly \<Rightarrow> bool" where
  "assembly_ok env a \<longleftrightarrow>
     distinct (map fst (as_parts a)) \<and>
     (\<forall>(i, p)\<in>set (as_parts a). 0 \<le> i \<and> i < mf_chunks (as_manifest a) \<and> (\<exists>n. log_bytes p = Inr n)) \<and>
     as_totalBytes a = (\<Sum>(i, p)\<leftarrow>as_parts a. part_bytes p) \<and>
     as_totalBytes a \<le> to_maxBytes (te_options env)"

definition core_ok :: "'w turn_env \<Rightarrow> 'w turn_game \<Rightarrow> bool" where
  "core_ok env s \<longleftrightarrow>
     validate (te_options env) (tg_records s) = Inr (tg_state s) \<and> log_fits env (tg_records s) \<and>
     (\<forall>a. tg_assembly s = Some a \<longrightarrow> assembly_ok env a)"

text \<open>What a later state keeps of an earlier one.\<close>

definition grown :: "'w turn_game \<Rightarrow> 'w turn_game \<Rightarrow> bool" where
  "grown s0 s \<longleftrightarrow>
     prefix (map tr_hash (tg_records s0)) (map tr_hash (tg_records s)) \<and>
     (tg_frozen s0 \<longrightarrow> tg_frozen s) \<and> (tg_disposed s0 \<longrightarrow> tg_disposed s) \<and>
     (tg_finished s0 \<longrightarrow> tg_finished s \<and> tg_finishResult s = tg_finishResult s0)"

definition fresh :: "'w turn_game \<Rightarrow> bool" where
  "fresh s \<longleftrightarrow> tg_gameId s = None \<and> tg_records s = [] \<and> tg_assembly s = None"

definition hashed :: "'w turn_env \<Rightarrow> 'w turn_game \<Rightarrow> bool" where
  "hashed env s \<longleftrightarrow> hashJson (to_sha (te_options env)) (to_initial (te_options env)) = Some (tg_initialHash s)"

definition game_ok :: "'w turn_env \<Rightarrow> 'w turn_game \<Rightarrow> 'w turn_game \<Rightarrow> bool" where
  "game_ok env s0 s \<longleftrightarrow>
     core_ok env s \<and> grown s0 s \<and> (tg_initialized s = None \<longrightarrow> fresh s) \<and>
     (tg_gameId s \<noteq> None \<or> tg_initialized s = Some (Inr ()) \<longrightarrow> hashed env s)"

lemmas ok_defs = game_ok_def core_ok_def grown_def fresh_def hashed_def

lemma grown_refl [simp]: "grown s s"
  by (simp add: grown_def)

lemma grown_trans: "grown s t \<Longrightarrow> grown t u \<Longrightarrow> grown s u"
  by (auto simp: grown_def)

subsection \<open>Rules\<close>

lemma triple_here:
  "(I x \<Longrightarrow> triple (\<lambda>s. s = x) m Q E) \<Longrightarrow> triple (\<lambda>s. I s \<and> id s = x) m Q E"
  by (auto simp: triple_def)

lemma triple_here_weak:
  "triple I m Q E \<Longrightarrow> triple (\<lambda>s. I s \<and> f s = x) m Q E"
  by (auto simp: triple_def)

lemma modify_here: "Q (f x) \<Longrightarrow> triple (\<lambda>s. s = x) (modify_eff f) (\<lambda>_. Q) E"
  by (simp add: triple_def modify_eff_def)

lemma return_here: "Q a x \<Longrightarrow> triple (\<lambda>s. s = x) (return_eff a) Q E"
  by (simp add: triple_def return_eff_def)

lemma throw_here: "E e x \<Longrightarrow> triple (\<lambda>s. s = x) (throw_eff e) Q E"
  by (simp add: triple_def throw_eff_def)

lemma from_here: "I x \<Longrightarrow> triple I m Q E \<Longrightarrow> triple (\<lambda>s. s = x) m Q E"
  by (auto simp: triple_def)

lemma keeps_world: "(\<And>s w. I s \<Longrightarrow> I (s\<lparr>tg_world := w\<rparr>)) \<Longrightarrow> keeps_inv I (in_world m)"
  by (auto simp: triple_def in_world_def split: option.splits sum.splits)

lemma bind_lift [simp]:
  "bind_eff (lift_sum (Inr a)) k = k a" "bind_eff (lift_sum (Inl e)) k = throw_eff e"
  by (rule ext, simp add: lift_sum_def bind_eff_def return_eff_def throw_eff_def)+

lemma keeps_lift_sum: "keeps_inv I (lift_sum r)"
  by (cases r) (simp_all add: lift_sum_def keeps_inv_intros)

lemma game_ok_world [simp]: "game_ok env s0 (s\<lparr>tg_world := w\<rparr>) = game_ok env s0 s"
  by (simp add: ok_defs)

lemma game_ok_fail [simp]: "game_ok env s0 s \<Longrightarrow> game_ok env s0 (fail_game i p s)"
  by (auto simp: ok_defs fail_game_def emit_def)

lemma game_ok_emit [simp]: "game_ok env s0 (emit ev s) = game_ok env s0 s"
  by (simp add: ok_defs emit_def)

lemma ok_world: "keeps_inv (game_ok env s0) (in_world m)"
  by (rule keeps_world) simp

lemma ok_fail: "keeps_inv (game_ok env s0) (fail_now i p)" "keeps_inv (game_ok env s0) (fail_here p)"
  by (simp_all add: fail_now_def fail_here_def keeps_inv_modify)

lemma ok_report: "keeps_inv (game_ok env s0) (report e)"
  by (simp add: report_def keeps_inv_modify)

lemma ok_check_alive: "keeps_inv (game_ok env s0) (check_alive env)"
  by (simp add: check_alive_def keeps_inv_intros)

lemmas ok_intros = keeps_inv_intros keeps_lift_sum ok_world ok_fail ok_report ok_check_alive

lemma ok_store_parts: "keeps_inv (game_ok env s0) (store_parts env g r i ps)"
  by (induction ps arbitrary: i) (auto intro!: ok_intros)

lemma ok_persist: "keeps_inv (game_ok env s0) (persist env)"
  unfolding persist_def
  by (intro ok_intros ok_store_parts) (auto simp: ok_defs)

lemma ok_try_persist: "keeps_inv (game_ok env s0) (try_persist env)"
  by (simp add: try_persist_def ok_intros ok_persist)

lemma keeps_requestLog:
  assumes "\<And>s w. I s \<Longrightarrow> I (s\<lparr>tg_world := w\<rparr>)"
    and "\<And>s p r. I s \<Longrightarrow> I (s\<lparr>tg_requestedFrom := Some p, tg_requestId := Some r, tg_replayRequestId := Some r,
       tg_assembly := None, tg_buffered := [], tg_timer := Some r\<rparr>)"
  shows "keeps_inv I (requestLog env)"
  unfolding requestLog_def
  by (intro keeps_inv_intros keeps_world assms)

lemma ok_requestLog: "keeps_inv (game_ok env s0) (requestLog env)"
  by (rule keeps_requestLog) (auto simp: ok_defs)

lemma ok_announce: "keeps_inv (game_ok env s0) (announce env to)"
  unfolding announce_def by (intro ok_intros)

subsection \<open>Accepting a move keeps the invariant\<close>

lemma validate_accepted:
  assumes "validate opt log = Inr st" "tr_index r = int (length log)" "tr_by r = player_at opt (int (length log))"
    and "hashJson (to_sha opt) (chain_json (log_hash log) (tr_index r) (tr_by r) (tr_move r)) = Some (tr_hash r)"
    and "apply_move opt st (tr_move r) (tr_by r) = Some next"
  shows "validate opt (log @ [copy_record r]) = Inr next"
  unfolding validate_snoc [OF assms(1)] validate_record_copy
  using assms(2-5) by (simp add: validate_record_def)

lemma ok_take_move:
  assumes "game_ok env s0 s" "tg_gameId s \<noteq> None" "tr_index r = int (length (tg_records s))" "move_authentic env from r s"
    and "apply_move (te_options env) (tg_state s) (tr_move r) (tr_by r) = Some next"
    and "log_bytes (tg_records s @ [copy_record r]) = Inr len" "len \<le> to_maxBytes (te_options env)"
  shows "game_ok env s0 (take_move env r next s)"
proof -
  have "validate (te_options env) (tg_records s @ [copy_record r]) = Inr next"
    using assms by (intro validate_accepted) (auto simp: ok_defs move_authentic_def)
  moreover have "log_fits env (tg_records s @ [copy_record r])"
    using assms(6,7) by (auto simp: log_fits_def)
  ultimately show ?thesis
    using assms(1,2) by (simp add: ok_defs take_move_def emit_def)
qed

lemma ok_copy_payload: "keeps_inv (game_ok env s0) (copy_payload r g)"
  unfolding copy_payload_def by (intro ok_intros)

lemma ok_buffer: "keeps_inv (game_ok env s0) (modify_eff (\<lambda>t. t\<lparr>tg_buffered := tg_buffered t @ b\<rparr>))"
  by (intro ok_intros) (simp add: ok_defs)

lemma ok_buffer_move: "keeps_inv (game_ok env s0) (buffer_move env from r g)"
  unfolding buffer_move_def by (intro ok_intros ok_copy_payload ok_buffer) (simp add: ok_defs)

lemma ok_accept_next:
  "triple (\<lambda>s. game_ok env s0 s \<and> tg_gameId s \<noteq> None \<and> tr_index r = int (length (tg_records s)))
     (accept_next env from r) (\<lambda>_. game_ok env s0) (\<lambda>_. game_ok env s0)"
  unfolding accept_next_def
proof (rule triple_get, rule triple_here)
  fix x
  assume pre: "game_ok env s0 x \<and> tg_gameId x \<noteq> None \<and> tr_index r = int (length (tg_records x))"
  then have weak: "triple (\<lambda>s. s = x) m (\<lambda>_. game_ok env s0) (\<lambda>_. game_ok env s0)"
    if "keeps_inv (game_ok env s0) m" for m :: "(unit, 'a) turn_eff"
    using from_here [of "game_ok env s0", OF _ that] by simp
  show "triple (\<lambda>s. s = x)
     (if \<not> move_authentic env from r x then fail_here from
      else
        case apply_move (te_options env) (tg_state x) (tr_move r) (tr_by r) of
          None \<Rightarrow> fail_now (tr_index r) from
        | Some next \<Rightarrow>
            (case log_bytes (tg_records x @ [copy_record r]) of
               Inl _ \<Rightarrow> fail_now (tr_index r) from
             | Inr len \<Rightarrow>
                 (if to_maxBytes (te_options env) < len then throw_eff (turns_error PayloadTooLarge)
                  else then_eff (modify_eff (take_move env r next)) (try_persist env))))
     (\<lambda>_. game_ok env s0) (\<lambda>_. game_ok env s0)"
  proof (intro triple_if)
    show "triple (\<lambda>s. s = x) (fail_here from) (\<lambda>_. game_ok env s0) (\<lambda>_. game_ok env s0)"
      by (intro weak ok_fail)
  next
    assume auth: "\<not> \<not> move_authentic env from r x"
    have taken: "game_ok env s0 (take_move env r next x)"
      if "apply_move (te_options env) (tg_state x) (tr_move r) (tr_by r) = Some next"
        "log_bytes (tg_records x @ [copy_record r]) = Inr len" "\<not> to_maxBytes (te_options env) < len" for "next" len
      using ok_take_move [of env s0 x r "from" "next" len] pre auth that by simp
    show "triple (\<lambda>s. s = x)
       (case apply_move (te_options env) (tg_state x) (tr_move r) (tr_by r) of
          None \<Rightarrow> fail_now (tr_index r) from
        | Some next \<Rightarrow>
            (case log_bytes (tg_records x @ [copy_record r]) of
               Inl _ \<Rightarrow> fail_now (tr_index r) from
             | Inr len \<Rightarrow>
                 (if to_maxBytes (te_options env) < len then throw_eff (turns_error PayloadTooLarge)
                  else then_eff (modify_eff (take_move env r next)) (try_persist env))))
       (\<lambda>_. game_ok env s0) (\<lambda>_. game_ok env s0)"
      by (intro triple_option triple_sum triple_if triple_then [OF modify_here [where Q = "game_ok env s0"]] weak [OF ok_fail(1)]
          weak [OF keeps_inv_throw] ok_try_persist taken)
  qed
qed

lemma ok_accept: "keeps_inv (game_ok env s0) (accept env from r g)"
  unfolding accept_def
proof (rule triple_get)
  fix x
  have accepted: "triple (\<lambda>s. game_ok env s0 s \<and> id s = x) (accept_next env from r) (\<lambda>_. game_ok env s0) (\<lambda>_. game_ok env s0)"
    if "tg_gameId x = Some g" "tr_index r = int (length (tg_records x))"
    by (rule triple_pre [OF ok_accept_next]) (use that in auto)
  show "triple (\<lambda>s. game_ok env s0 s \<and> id s = x)
     (if tg_gameId x \<noteq> Some g \<or> tg_frozen x \<or> tg_finished x then return_eff ()
       else if tg_requestId x \<noteq> None then buffer_move env from r g
       else if tr_index r < int (length (tg_records x)) then
         when_eff (tr_index r < 0 \<or> tr_hash (tg_records x ! nat (tr_index r)) \<noteq> tr_hash r \<or> tr_by r \<noteq> from)
           (fail_now (tr_index r) from)
       else if int (length (tg_records x)) < tr_index r then
         then_eff (requestLog env)
           (bind_eff (copy_payload r g) (\<lambda>copy.
              modify_eff (\<lambda>t. t\<lparr>tg_buffered := tg_buffered t @ [(from, copy, g)]\<rparr>)))
       else accept_next env from r)
     (\<lambda>_. game_ok env s0) (\<lambda>_. game_ok env s0)"
    using accepted
    by (auto intro!: triple_here_weak ok_buffer_move ok_intros ok_requestLog ok_copy_payload ok_buffer)
qed

lemma ok_accept_all: "keeps_inv (game_ok env s0) (accept_all env bs)"
  by (induction bs) (auto intro!: keeps_inv_intros ok_accept)

subsection \<open>Finishing keeps the invariant\<close>

lemma ok_finishLocal: "keeps_inv (game_ok env s0) (finishLocal env result)"
  unfolding finishLocal_def
proof (rule triple_get)
  fix x :: "'a turn_game"
  let ?I = "game_ok env s0"
  let ?mark = "if tg_finished x then return_eff ()
      else case copyJson result of None \<Rightarrow> throw_eff TypeError
        | Some r \<Rightarrow> modify_eff (\<lambda>t. t\<lparr>tg_finishResult := r, tg_finished := True\<rparr>)"
  have mark: "triple (\<lambda>s. ?I s \<and> id s = x) ?mark (\<lambda>_. ?I) (\<lambda>_. ?I)"
  proof (intro triple_if)
    assume "\<not> tg_finished x"
    then show "triple (\<lambda>s. ?I s \<and> id s = x) (case copyJson result of None \<Rightarrow> throw_eff TypeError
        | Some r \<Rightarrow> modify_eff (\<lambda>t. t\<lparr>tg_finishResult := r, tg_finished := True\<rparr>)) (\<lambda>_. ?I) (\<lambda>_. ?I)"
      by (intro triple_option triple_modify triple_here_weak [OF keeps_inv_throw]) (auto simp: ok_defs)
  qed (intro triple_here_weak keeps_inv_return)
  have after: "keeps_inv ?I
     (then_eff (when_eff (tg_persistenceDirty x) (persist env))
        (then_eff
           (case to_saveResultAs (te_options env) of
              None \<Rightarrow> return_eff ()
            | Some name \<Rightarrow>
                bind_eff (get_eff id) (\<lambda>t.
                  in_world (te_store env name
                    (SavedResult (tg_gameId t) (tg_finishResult t) (to_players (te_options env))
                       (log_hash (tg_records t))) None)))
           (modify_eff (\<lambda>t. t\<lparr>tg_resultSaved := True\<rparr>))))"
    by (intro ok_intros ok_persist) (simp add: ok_defs)
  show "triple (\<lambda>s. ?I s \<and> id s = x)
      (if tg_resultSaved x then return_eff ()
       else then_eff ?mark
        (then_eff (when_eff (tg_persistenceDirty x) (persist env))
        (then_eff
           (case to_saveResultAs (te_options env) of
              None \<Rightarrow> return_eff ()
            | Some name \<Rightarrow>
                bind_eff (get_eff id) (\<lambda>t.
                  in_world (te_store env name
                    (SavedResult (tg_gameId t) (tg_finishResult t) (to_players (te_options env))
                       (log_hash (tg_records t))) None)))
           (modify_eff (\<lambda>t. t\<lparr>tg_resultSaved := True\<rparr>)))))
      (\<lambda>_. ?I) (\<lambda>_. ?I)"
    by (intro triple_if triple_then [OF mark after] triple_here_weak keeps_inv_return)
qed

lemma ok_settle_finish: "keeps_inv (game_ok env s0) (settle_finish env peer)"
  unfolding settle_finish_def
  by (intro ok_intros ok_finishLocal) (auto simp: ok_defs)

subsection \<open>Taking over a log keeps the invariant\<close>

lemma collect_parts_Some:
  "collect_parts parts i n = Some log \<Longrightarrow>
   log = concat (map (\<lambda>k. the (map_of parts (int k))) [i..<i + n]) \<and> (\<forall>k \<in> {i..<i + n}. map_of parts (int k) \<noteq> None)"
proof (induction n arbitrary: i log)
  case (Suc n)
  then obtain p l where p: "map_of parts (int i) = Some p" "collect_parts parts (Suc i) n = Some l" "log = p @ l"
    by (auto split: option.splits)
  have "[i..<i + Suc n] = i # [Suc i..<Suc i + n]"
    by (simp add: upt_conv_Cons)
  moreover have "{i..<i + Suc n} = insert i {Suc i..<Suc i + n}"
    by auto
  ultimately show ?case
    using Suc.IH [OF p(2)] p by simp
qed simp

lemma concat_bytes:
  "\<forall>p\<in>set ps. \<exists>n. log_bytes p = Inr n \<Longrightarrow> ps \<noteq> [] \<Longrightarrow>
   \<exists>n \<le> sum_list (map part_bytes ps). log_bytes (concat ps) = Inr n"
proof (induction ps)
  case (Cons p ps)
  obtain m where m: "log_bytes p = Inr m" using Cons.prems by auto
  show ?case
  proof (cases "ps = []")
    case False
    then obtain n where n: "n \<le> sum_list (map part_bytes ps)" "log_bytes (concat ps) = Inr n"
      using Cons by auto
    then obtain k where "k \<le> m + n" "log_bytes (p @ concat ps) = Inr k"
      using log_bytes_append m by blast
    then show ?thesis
      using m n(1) by (auto simp: part_bytes_def [of p] intro!: exI [of _ k])
  qed (use m in \<open>simp add: part_bytes_def\<close>)
qed simp

lemma assembly_fits:
  assumes "assembly_ok env a" "int (length (as_parts a)) = mf_chunks (as_manifest a)"
    and "collect_parts (as_parts a) 0 (nat (mf_chunks (as_manifest a))) = Some log"
  shows "log_fits env log"
proof -
  let ?parts = "as_parts a" and ?n = "length (as_parts a)"
  have ok: "distinct (map fst ?parts)" "\<forall>(i, p)\<in>set ?parts. 0 \<le> i \<and> i < int ?n \<and> (\<exists>n. log_bytes p = Inr n)"
      "as_totalBytes a = (\<Sum>(i, p)\<leftarrow>?parts. part_bytes p)" "as_totalBytes a \<le> to_maxBytes (te_options env)"
    using assms(1,2) by (auto simp: assembly_ok_def)
  let ?part = "\<lambda>k. the (map_of ?parts (int k))"
  have log: "log = concat (map ?part [0..<?n])" "\<forall>k<?n. map_of ?parts (int k) \<noteq> None"
    using collect_parts_Some [of ?parts 0 ?n log] assms(3) unfolding assms(2) [symmetric] by auto
  have bytes: "\<forall>p\<in>set (map ?part [0..<?n]). \<exists>n. log_bytes p = Inr n"
    using log(2) ok(2) by (fastforce dest: map_of_SomeD)
  have keys: "fst ` set ?parts = int ` {0..<?n}"
  proof (rule card_subset_eq)
    show "fst ` set ?parts \<subseteq> int ` {0..<?n}"
      using ok(2) by (force intro: image_eqI [of _ int "nat _"])
    show "card (fst ` set ?parts) = card (int ` {0..<?n})"
      using distinct_card [OF ok(1)] by (simp add: card_image)
  qed simp
  have "(\<Sum>(i, p)\<leftarrow>?parts. part_bytes p) = (\<Sum>(i, p)\<in>set ?parts. part_bytes p)"
    using ok(1) by (simp add: distinct_map sum_list_distinct_conv_sum_set)
  also have "\<dots> = (\<Sum>i\<in>fst ` set ?parts. part_bytes (the (map_of ?parts i)))"
    using ok(1) by (intro sum.reindex_cong [of fst, symmetric]) (auto simp: distinct_map)
  also have "\<dots> = (\<Sum>k\<in>{0..<?n}. part_bytes (?part k))"
    unfolding keys by (rule sum.reindex_cong [of int]) simp_all
  also have "\<dots> = sum_list (map part_bytes (map ?part [0..<?n]))"
    by (simp add: interv_sum_list_conv_sum_set_nat comp_def)
  finally have total: "sum_list (map part_bytes (map ?part [0..<?n])) \<le> to_maxBytes (te_options env)"
    using ok(3,4) by simp
  show ?thesis
  proof (cases "?n = 0")
    case False
    then show ?thesis
      using concat_bytes [OF bytes] total log(1) by (auto simp: log_fits_def intro: order_trans)
  qed (use log(1) in \<open>simp add: log_fits_def\<close>)
qed

lemma ok_commit:
  assumes "game_ok env s0 x" "tg_assembly x = Some a" "int (length (as_parts a)) = mf_chunks (as_manifest a)"
    and "collect_parts (as_parts a) 0 (nat (mf_chunks (as_manifest a))) = Some log"
    and "log_matches (as_manifest a) (tg_records x) log" "validate (te_options env) log = Inr rebuilt"
  shows "game_ok env s0 (x\<lparr>tg_records := map copy_record log, tg_persistenceDirty := d, tg_state := rebuilt,
     tg_requestId := None, tg_assembly := None, tg_timer := None, tg_buffered := []\<rparr>)"
proof -
  have "prefix (map tr_hash (tg_records x)) (map tr_hash log)"
    using assms(5) unfolding log_matches_def by (metis take_is_prefix)
  then have "prefix (map tr_hash (tg_records s0)) (map tr_hash log)"
    using assms(1) by (auto simp: ok_defs intro: prefix_order.trans)
  moreover have "log_fits env (map copy_record log)"
    using assembly_fits [OF _ assms(3,4), of env] assms(1,2) by (simp add: ok_defs log_fits_def)
  moreover have "tg_initialized x \<noteq> None"
    using assms(1,2) by (auto simp: ok_defs)
  ultimately show ?thesis
    using assms(1,6) by (auto simp: ok_defs comp_def)
qed

lemma ok_commitAssembly: "keeps_inv (game_ok env s0) (commitAssembly env)"
  unfolding commitAssembly_def
proof (rule triple_get, intro triple_option triple_sum triple_if, goal_cases)
  case (7 x a log rebuilt)
  have "triple (\<lambda>s. game_ok env s0 s \<and> id s = x)
      (modify_eff (\<lambda>t. t\<lparr>tg_records := map copy_record log, tg_persistenceDirty := to_persist (te_options env),
         tg_state := rebuilt, tg_requestId := None, tg_assembly := None, tg_timer := None, tg_buffered := []\<rparr>))
      (\<lambda>_. game_ok env s0) (\<lambda>_. game_ok env s0)"
    by (rule triple_modify) (use 7 ok_commit [of env s0 x a log rebuilt] in auto)
  then show ?case
    by (rule triple_then) (intro keeps_inv_intros ok_accept_all ok_settle_finish ok_try_persist)
qed (intro triple_here_weak keeps_inv_return ok_fail)+

subsection \<open>The handlers keep the invariant\<close>

lemma ok_await_init:
  "triple (game_ok env s0) await_init (\<lambda>_ s. game_ok env s0 s \<and> tg_initialized s = Some (Inr ())) (\<lambda>_. game_ok env s0)"
  by (auto simp: triple_def await_init_def split: option.splits sum.splits)

lemma ok_await_init_weak: "keeps_inv (game_ok env s0) await_init"
  by (auto simp: triple_def await_init_def split: option.splits sum.splits)

lemma ok_on_start: "keeps_inv (game_ok env s0) (on_start env peer g ps h)"
  unfolding on_start_def
proof (intro keeps_inv_bind keeps_inv_get keeps_inv_if keeps_inv_return triple_then [OF ok_await_init], rule triple_get)
  fix x
  show "triple (\<lambda>s. (game_ok env s0 s \<and> tg_initialized s = Some (Inr ())) \<and> id s = x)
     (if h \<noteq> tg_initialHash x \<or> ps \<noteq> to_players (te_options env) \<or>
         (tg_gameId x \<noteq> None \<and> tg_gameId x \<noteq> Some g)
      then fail_here peer else modify_eff (\<lambda>t. t\<lparr>tg_gameId := Some g\<rparr>))
     (\<lambda>_. game_ok env s0) (\<lambda>_. game_ok env s0)"
    by (intro triple_if triple_modify triple_pre [OF ok_fail(2) [of env s0]]) (auto simp: ok_defs)
qed

lemma ok_replyLog: "keeps_inv (game_ok env s0) (replyLog env peer g r)"
  unfolding replyLog_def by (intro ok_intros ok_announce) (simp add: ok_defs)

lemma ok_on_manifest: "keeps_inv (game_ok env s0) (on_manifest env peer m)"
  unfolding on_manifest_def
proof (rule triple_get, intro triple_if, goal_cases)
  case (4 x)
  have "triple (\<lambda>s. game_ok env s0 s \<and> id s = x)
      (modify_eff (\<lambda>t. t\<lparr>tg_assembly := Some \<lparr>as_manifest = m, as_from = peer, as_parts = [], as_totalBytes = 0\<rparr>\<rparr>))
      (\<lambda>_. game_ok env s0) (\<lambda>_. game_ok env s0)"
    by (rule triple_modify) (use 4 in \<open>auto simp: ok_defs assembly_ok_def\<close>)
  then show ?case
    by (rule triple_then) (rule ok_commitAssembly)
qed (intro triple_here_weak keeps_inv_return ok_fail)+

lemma ok_on_chunk: "keeps_inv (game_ok env s0) (on_chunk env peer g r i rs)"
  unfolding on_chunk_def Let_def
proof (rule triple_get, intro triple_option triple_if, goal_cases)
  case (4 x a)
  have add: "game_ok env s0 (x\<lparr>tg_assembly := Some (a\<lparr>as_totalBytes := as_totalBytes a + n, as_parts := (i, map copy_record rs) # as_parts a\<rparr>)\<rparr>)"
    if "game_ok env s0 x" "log_bytes rs = Inr n" "\<not> to_maxBytes (te_options env) < as_totalBytes a + n" for n
    using that 4 by (auto simp: ok_defs assembly_ok_def part_bytes_def map_of_eq_None_iff)
  show ?case
  proof (cases "log_bytes rs")
    case (Inl e)
    then show ?thesis
      unfolding Inl bind_lift by (intro triple_here_weak keeps_inv_throw)
  next
    case (Inr n)
    show ?thesis
      unfolding Inr bind_lift
    proof (intro triple_if triple_here, goal_cases)
      case 1
      show ?case
        by (rule triple_then [where R = "\<lambda>s. s = x\<lparr>tg_assembly := Some (a\<lparr>as_totalBytes := as_totalBytes a + n\<rparr>)\<rparr>"])
          (use 1 4 in \<open>auto simp: triple_def modify_eff_def fail_here_def fail_game_def emit_def ok_defs\<close>)
    next
      case 2
      show ?case
        by (rule triple_then [OF modify_here [where Q = "game_ok env s0"]])
          (use 2 add Inr ok_commitAssembly in auto)
    qed
  qed
qed (intro triple_here_weak keeps_inv_return keeps_inv_when ok_fail)+

lemma ok_postpone:
  "keeps_inv (game_ok env s0) (case copyJson result of None \<Rightarrow> throw_eff TypeError
     | Some r \<Rightarrow> modify_eff (\<lambda>t. t\<lparr>tg_pendingFinish := Some (f r)\<rparr>))"
  by (intro ok_intros) (simp add: ok_defs)

lemma ok_on_finish: "keeps_inv (game_ok env s0) (on_finish env peer g result n h r)"
  unfolding on_finish_def Let_def by (intro ok_intros ok_postpone ok_requestLog ok_finishLocal)

lemma ok_on_message: "keeps_inv (game_ok env s0) (on_message env peer msg)"
  unfolding on_message_def
  by (cases msg)
    (auto intro!: keeps_inv_then ok_on_start ok_accept ok_await_init_weak ok_replyLog ok_on_manifest ok_on_chunk
      ok_on_finish)

lemma ok_stream_step: "keeps_inv (game_ok env s0) (stream_step env k)"
  unfolding stream_step_def Let_def by (intro ok_intros) (simp_all add: ok_defs drop_stream_def)

lemma ok_host_changed: "keeps_inv (game_ok env s0) (host_changed env)"
  unfolding host_changed_def by (intro ok_intros ok_announce ok_requestLog)

lemma ok_submit: "keeps_inv (game_ok env s0) (submit env move)"
  unfolding submit_def check_def by (intro ok_intros ok_await_init_weak ok_accept)

lemma ok_finish: "keeps_inv (game_ok env s0) (finish env result)"
  unfolding finish_def by (intro ok_intros ok_await_init_weak ok_finishLocal)

subsection \<open>The initialization keeps it\<close>

text \<open>While it runs, the game has an identifier before it is initialized.\<close>

definition starting :: "'w turn_env \<Rightarrow> 'w turn_game \<Rightarrow> 'w turn_game \<Rightarrow> bool" where
  "starting env s0 s \<longleftrightarrow> core_ok env s \<and> grown s0 s \<and> hashed env s"

lemmas starting_defs = starting_def core_ok_def grown_def hashed_def

lemma load_parts_fit:
  "triple (\<lambda>s. starting env s0 s \<and> log_fits env log) (load_parts env g r i n log)
     (\<lambda>out s. starting env s0 s \<and> log_fits env out) (\<lambda>_. starting env s0)"
proof (induction n arbitrary: i log)
  case 0
  show ?case by (simp add: triple_def return_eff_def)
next
  case (Suc n)
  have load: "triple (\<lambda>s. starting env s0 s \<and> log_fits env log) (in_world m)
      (\<lambda>_ s. starting env s0 s \<and> log_fits env log) (\<lambda>_. starting env s0)" for m :: "(thrown, saved option, 'a) eff"
    by (auto simp: triple_def in_world_def starting_defs split: option.splits sum.splits)
  have throw: "triple (\<lambda>s. starting env s0 s \<and> log_fits env log) (throw_eff e) Q (\<lambda>_. starting env s0)"
    for e and Q :: "TurnRecord list \<Rightarrow> 'a turn_game \<Rightarrow> bool"
    by (simp add: triple_def throw_eff_def)
  have more: "triple (\<lambda>s. starting env s0 s \<and> log_fits env log)
      (bind_eff (lift_sum (log_bytes (log @ part))) (\<lambda>len.
         if to_maxBytes (te_options env) < len then throw_eff (turns_error PayloadTooLarge)
         else load_parts env g r (Suc i) n (log @ part)))
      (\<lambda>out s. starting env s0 s \<and> log_fits env out) (\<lambda>_. starting env s0)" for part
  proof (cases "log_bytes (log @ part)")
    case (Inl e)
    then show ?thesis by (simp only: bind_lift throw)
  next
    case (Inr len)
    have "triple (\<lambda>s. starting env s0 s \<and> log_fits env log) (load_parts env g r (Suc i) n (log @ part))
        (\<lambda>out s. starting env s0 s \<and> log_fits env out) (\<lambda>_. starting env s0)"
      if "\<not> to_maxBytes (te_options env) < len"
      by (rule triple_pre [OF Suc.IH]) (use that Inr in \<open>simp add: log_fits_def\<close>)
    then show ?thesis
      unfolding Inr bind_lift by (intro triple_if throw)
  qed
  show ?case
    unfolding load_parts.simps
  proof (rule triple_bind [OF load], rule triple_option)
    fix v :: "saved option" and x
    show "triple (\<lambda>s. starting env s0 s \<and> log_fits env log)
        (case x of SavedPart part \<Rightarrow>
             if part = [] then throw_eff (turns_error Mismatch)
             else
               bind_eff (lift_sum (log_bytes (log @ part))) (\<lambda>len.
                 if to_maxBytes (te_options env) < len then throw_eff (turns_error PayloadTooLarge)
                 else load_parts env g r (Suc i) n (log @ part))
         | _ \<Rightarrow> throw_eff (turns_error Mismatch))
        (\<lambda>out s. starting env s0 s \<and> log_fits env out) (\<lambda>_. starting env s0)"
      by (cases x) (simp_all add: throw more)
  qed (rule throw)
qed

lemma ok_restore:
  assumes "tg_records s0 = []"
  shows "keeps_inv (starting env s0) (restore env)"
  unfolding restore_def
proof (intro keeps_inv_bind keeps_inv_get)
  show "keeps_inv (starting env s0) (in_world m)" for m :: "(thrown, saved option, 'a) eff"
    by (rule keeps_world) (simp add: starting_defs)
next
  fix v :: "saved option" and h
  have load: "keeps_inv (starting env s0)
      (bind_eff (load_parts env g r 0 n []) (\<lambda>log.
         if int (length log) \<noteq> k \<or> log_hash log \<noteq> final then throw_eff (turns_error Mismatch)
         else
           bind_eff (lift_sum (validate (te_options env) log)) (\<lambda>rebuilt.
             modify_eff (\<lambda>s. s\<lparr>tg_state := rebuilt, tg_records := log, tg_gameId := Some g\<rparr>))))" for g r n k final
  proof (rule triple_bind)
    show "triple (starting env s0) (load_parts env g r 0 n []) (\<lambda>out s. starting env s0 s \<and> log_fits env out)
        (\<lambda>_. starting env s0)"
      by (rule triple_pre [OF load_parts_fit]) (simp add: log_fits_def)
  next
    fix log
    show "triple (\<lambda>s. starting env s0 s \<and> log_fits env log)
       (if int (length log) \<noteq> k \<or> log_hash log \<noteq> final then throw_eff (turns_error Mismatch)
         else
           bind_eff (lift_sum (validate (te_options env) log)) (\<lambda>rebuilt.
             modify_eff (\<lambda>s. s\<lparr>tg_state := rebuilt, tg_records := log, tg_gameId := Some g\<rparr>)))
       (\<lambda>_. starting env s0) (\<lambda>_. starting env s0)"
      using assms
      by (cases "validate (te_options env) log")
        (auto simp: triple_def lift_sum_def bind_eff_def throw_eff_def return_eff_def modify_eff_def starting_defs split: if_splits)
  qed
  show "keeps_inv (starting env s0)
      (case v of
         Some (SavedManifest m) \<Rightarrow>
           (if sv_initialHash m \<noteq> h \<or> sv_players m \<noteq> to_players (te_options env) then return_eff ()
            else if \<not> restorable (to_maxBytes (te_options env)) m then throw_eff (turns_error Mismatch)
            else
              bind_eff (load_parts env (sv_gameId m) (sv_revision m) 0 (nat (sv_chunks m)) []) (\<lambda>log.
                if int (length log) \<noteq> sv_count m \<or> log_hash log \<noteq> sv_finalHash m then throw_eff (turns_error Mismatch)
                else
                  bind_eff (lift_sum (validate (te_options env) log)) (\<lambda>rebuilt.
                    modify_eff (\<lambda>s. s\<lparr>tg_state := rebuilt, tg_records := log, tg_gameId := Some (sv_gameId m)\<rparr>))))
       | _ \<Rightarrow> return_eff ())"
  proof (intro triple_option keeps_inv_return)
    fix x
    show "keeps_inv (starting env s0)
      (case x of
         SavedManifest m \<Rightarrow>
           (if sv_initialHash m \<noteq> h \<or> sv_players m \<noteq> to_players (te_options env) then return_eff ()
            else if \<not> restorable (to_maxBytes (te_options env)) m then throw_eff (turns_error Mismatch)
            else
              bind_eff (load_parts env (sv_gameId m) (sv_revision m) 0 (nat (sv_chunks m)) []) (\<lambda>log.
                if int (length log) \<noteq> sv_count m \<or> log_hash log \<noteq> sv_finalHash m then throw_eff (turns_error Mismatch)
                else
                  bind_eff (lift_sum (validate (te_options env) log)) (\<lambda>rebuilt.
                    modify_eff (\<lambda>s. s\<lparr>tg_state := rebuilt, tg_records := log, tg_gameId := Some (sv_gameId m)\<rparr>))))
       | _ \<Rightarrow> return_eff ())"
      by (cases x; simp only: saved.case; intro keeps_inv_if keeps_inv_return keeps_inv_throw load)
  qed
qed

lemma ok_initialize:
  assumes "tg_records s0 = []" "core_ok env s" "grown s0 s" "tg_gameId s = None" "initialize env s = Some (r, t)"
  shows "core_ok env t \<and> grown s0 t \<and> (r = Inr () \<or> tg_gameId t \<noteq> None \<longrightarrow> hashed env t)"
proof -
  have world: "keeps_inv (starting env s0) (in_world m)" for m :: "(thrown, 'b, 'a) eff"
    by (rule keeps_world) (simp add: starting_defs)
  have request: "keeps_inv (starting env s0) (requestLog env)"
    by (rule keeps_requestLog) (simp_all add: starting_defs)
  have announce: "keeps_inv (starting env s0) (announce env to)" for to
    unfolding announce_def by (intro keeps_inv_intros keeps_world) (simp add: starting_defs)
  have rest: "keeps_inv (starting env s0)
     (bind_eff (get_eff (active env)) (\<lambda>alive.
          if \<not> alive then return_eff ()
          else
            then_eff (when_eff (to_persist (te_options env)) (restore env))
              (bind_eff (get_eff (\<lambda>s. (isHost env s, tg_gameId s))) (\<lambda>(host, g).
                 if host then
                   then_eff
                     (case g of
                        Some _ \<Rightarrow> return_eff ()
                      | None \<Rightarrow> bind_eff (in_world (te_uuid env)) (\<lambda>i. modify_eff (\<lambda>s. s\<lparr>tg_gameId := Some i\<rparr>)))
                     (announce env None)
                 else requestLog env))))"
    by (intro keeps_inv_intros ok_restore [OF assms(1)] request announce world keeps_world)
      (simp_all add: starting_defs)
  let ?P = "\<lambda>s. core_ok env s \<and> grown s0 s \<and> tg_gameId s = None"
  have first: "triple ?P
       (case hashJson (to_sha (te_options env)) (to_initial (te_options env)) of
          None \<Rightarrow> throw_eff TypeError
        | Some h \<Rightarrow> modify_eff (\<lambda>s. s\<lparr>tg_initialHash := h\<rparr>))
       (\<lambda>_. starting env s0) (\<lambda>_ s. ?P s \<or> starting env s0 s)"
    by (intro triple_option triple_modify) (auto simp: triple_def throw_eff_def starting_defs)
  have "triple ?P (initialize env) (\<lambda>_. starting env s0) (\<lambda>_ s. ?P s \<or> starting env s0 s)"
    unfolding initialize_def by (rule triple_then [OF first triple_weaken [OF rest]]) auto
  then show ?thesis
    using assms(2-5) unfolding triple_def by (cases r) (force simp: starting_def)+
qed

subsection \<open>Every event keeps the invariant\<close>

lemma keepsD: "keeps_inv I m \<Longrightarrow> I s \<Longrightarrow> m s = Some (r, t) \<Longrightarrow> I t"
  unfolding triple_def by (cases r) auto

lemma ok_run_lane: "keeps_inv (game_ok env s0) m \<Longrightarrow> game_ok env s0 s \<Longrightarrow> game_ok env s0 (run_lane env m s)"
  using keepsD [OF keeps_inv_catch [OF _ ok_report], of env s0 m s] by (auto simp: run_lane_def split: option.splits)

lemma ok_run_task: "keeps_inv (game_ok env s0) m \<Longrightarrow> game_ok env s0 s \<Longrightarrow> game_ok env s0 (run_task m s)"
  using keepsD [of "game_ok env s0" m s] by (auto simp: run_task_def split: option.splits)

lemma ok_start_game:
  assumes "game_ok env s0 s"
  shows "game_ok env s0 (start_game env s)"
proof (cases "tg_initialized s")
  case None
  then have "core_ok env s" "grown s0 s" "tg_records s0 = []" "tg_gameId s = None"
    using assms by (auto simp: ok_defs)
  then have kept: "core_ok env t \<and> grown s0 t \<and> (r = Inr () \<or> tg_gameId t \<noteq> None \<longrightarrow> hashed env t)"
    if "initialize env s = Some (r, t)" for r t
    using ok_initialize that by blast
  have ready: "game_ok env s0 (t\<lparr>tg_initialized := Some r\<rparr>)"
    if "core_ok env t \<and> grown s0 t \<and> (r = Inr () \<or> tg_gameId t \<noteq> None \<longrightarrow> hashed env t)" for t r
    using that by (auto simp: ok_defs)
  show ?thesis
    using None assms kept ready by (auto simp: start_game_def Let_def split: option.splits sum.splits)
qed (use assms in \<open>simp add: start_game_def\<close>)

lemma ok_step: "game_ok env s0 s \<Longrightarrow> game_ok env s0 (turn_step env ev s)"
proof (induction env ev s rule: turn_step.induct)
  case (7 env s)
  then show ?case by (auto simp: requestTimeout_def ok_defs emit_def split: option.splits)
next
  case (11 env s)
  then show ?case by (auto simp: dispose_def ok_defs)
qed (simp_all add: ok_start_game ok_run_lane ok_run_task ok_on_message ok_requestLog ok_host_changed ok_persist
    ok_finishLocal ok_stream_step ok_submit ok_finish)

lemma ok_run: "game_ok env s0 s \<Longrightarrow> game_ok env s0 (turn_run env s es)"
  unfolding turn_run_def by (induction es arbitrary: s) (simp_all add: ok_step)

lemma ok_create: "createTurnGame env w = Inr g \<Longrightarrow> game_ok env g g"
  by (auto simp: createTurnGame_def Let_def ok_defs validate_Nil log_fits_def split: if_splits option.splits)

subsection \<open>What the invariant gives\<close>

text \<open>
  C1: Whatever messages a peer receives and whatever fails, its log is one the code's own
  \<open>validate\<close> accepts and its state is the one this log leads to: the records are numbered, made
  by the players in turn, chained by their hashes and within \<open>maxLogBytes\<close>. The log only ever
  grows, a frozen game stays frozen, and the result of a finished game never changes.
\<close>

theorem turn_log_validates:
  assumes "createTurnGame env w = Inr g" "s = turn_run env g es" "s' = turn_run env s es'"
  shows "validate (te_options env) (tg_records s) = Inr (tg_state s) \<and>
    (\<forall>i < length (tg_records s). tr_index (tg_records s ! i) = int i \<and>
       tr_by (tg_records s ! i) = player_at (te_options env) (int i)) \<and>
    (tg_records s = [] \<or> (\<exists>n \<le> to_maxBytes (te_options env). log_bytes (tg_records s) = Inr n)) \<and>
    prefix (map tr_hash (tg_records s)) (map tr_hash (tg_records s')) \<and>
    (tg_frozen s \<longrightarrow> tg_frozen s') \<and>
    (tg_finished s \<longrightarrow> tg_finished s' \<and> tg_finishResult s' = tg_finishResult s)"
proof -
  have ok: "game_ok env g s"
    using ok_run [OF ok_create [OF assms(1)]] assms(2) by simp
  then have "game_ok env s s"
    by (simp add: ok_defs)
  then have later: "game_ok env s s'"
    using ok_run assms(3) by simp
  have valid: "validate (te_options env) (tg_records s) = Inr (tg_state s)" "log_fits env (tg_records s)"
    using ok by (simp_all add: ok_defs)
  have "grown s s'" using later by (simp add: game_ok_def)
  then show ?thesis
    using valid validate_nth [OF valid(1)] unfolding grown_def log_fits_def by simp
qed

text \<open>
  C2: Two peers of one game whose logs carry the same hash at a position have made the same moves
  up to there, and peers with logs of one length and one final hash have the same state; the only
  assumption is that no two of the texts hashed in the two logs collide.
\<close>

theorem equal_hashes_equal_games:
  assumes "createTurnGame env1 w1 = Inr g1" "s1 = turn_run env1 g1 es1"
    and "createTurnGame env2 w2 = Inr g2" "s2 = turn_run env2 g2 es2"
    and "te_options env1 = opt" "te_options env2 = opt"
    and "inj_on (to_sha opt) (chain_texts (tg_records s1) \<union> chain_texts (tg_records s2))"
  shows "(\<forall>i. i < length (tg_records s1) \<and> i < length (tg_records s2) \<and>
        tr_hash (tg_records s1 ! i) = tr_hash (tg_records s2 ! i) \<longrightarrow>
        map copy_record (take (Suc i) (tg_records s1)) = map copy_record (take (Suc i) (tg_records s2))) \<and>
    (length (tg_records s1) = length (tg_records s2) \<and> log_hash (tg_records s1) = log_hash (tg_records s2) \<longrightarrow>
        tg_state s1 = tg_state s2)"
proof -
  have "validate opt (tg_records s1) = Inr (tg_state s1)" "validate opt (tg_records s2) = Inr (tg_state s2)"
    using ok_run [OF ok_create [OF assms(1)]] ok_run [OF ok_create [OF assms(3)]] assms(2,4-6)
    by (simp_all add: ok_defs)
  then show ?thesis
    using logs_agree logs_agree_whole assms(7) by blast
qed

text \<open>
  \<open>finish\<close> keeps the result with sorted keys but compares the next one as it is written: a
  retry of a failed \<open>finish\<close> with the same object is refused unless its keys are in order.
\<close>

lemma finish_retry_depends_on_key_order:
  assumes "tg_initialized s = Some (Inr ())" "active env s" "isHost env s" "\<not> tg_frozen s" "tg_finished s"
    and "copyJson result = Some (tg_finishResult s)" "result \<noteq> tg_finishResult s"
  shows "finish env result s = Some (Inl (turns_error InvalidState), s)"
  using assms by (simp add: finish_def await_init_def then_eff_def bind_eff_def get_eff_def throw_eff_def)

subsection \<open>Witnesses\<close>

text \<open>A game of two players in which the state is the last move; the hash of everything is the same.\<close>

definition demoTurnOptions :: turn_options where
  "demoTurnOptions =
     \<lparr>to_players = [[97], [98]], to_initial = JNull, to_apply = (\<lambda>st m a. Some m), to_persist = False,
      to_saveResultAs = None, to_maxBytes = 1000, to_ttl = 60, to_sha = (\<lambda>_. [104])\<rparr>"

definition demoPeer :: "ustring \<Rightarrow> unit turn_env" where
  "demoPeer me =
     \<lparr>te_options = demoTurnOptions, te_room = [114], te_me = me, te_active = (\<lambda>_. True),
      te_members = (\<lambda>_. [([97], True), ([98], True)]), te_host = (\<lambda>_. Some [97]),
      te_send = (\<lambda>_ _. return_eff ()), te_store = (\<lambda>_ _ _. return_eff ()), te_load = (\<lambda>_. return_eff None),
      te_now = (\<lambda>_. 0), te_uuid = return_eff [117]\<rparr>"

definition demoMove :: TurnRecord where
  "demoMove = \<lparr>tr_index = 0, tr_move = JBool True, tr_by = [97], tr_hash = [104]\<rparr>"

definition demoStart :: "ustring \<Rightarrow> unit turn_game" where
  "demoStart me = (case createTurnGame (demoPeer me) () of Inr g \<Rightarrow> g)"

definition demoHost :: "unit turn_game" where
  "demoHost = turn_run (demoPeer [97]) (demoStart [97]) [Initialize, Submit (JBool True)]"

definition demoGuest :: "unit turn_game" where
  "demoGuest = turn_run (demoPeer [98]) (demoStart [98])
     [Initialize, Message [97] (StartMessage [117] [[97], [98]] [104]), Timeout, Message [97] (TurnMessage demoMove [117])]"

lemma demo_created: "createTurnGame (demoPeer me) () = Inr (demoStart me)"
proof -
  have "isSafeInteger 1000" by (simp add: isSafeInteger_def)
  then have "\<exists>g. createTurnGame (demoPeer me) () = Inr g"
    by (simp add: createTurnGame_def demoPeer_def demoTurnOptions_def copyJson_def)
  then show ?thesis by (auto simp: demoStart_def)
qed

lemma demo_host: "tg_records demoHost = [demoMove]"
  by code_simp

lemma demo_guest: "tg_records demoGuest = [demoMove]"
  by code_simp

theorem turn_log_validates_witness:
  "validate demoTurnOptions (tg_records demoHost) = Inr (tg_state demoHost) \<and> tg_records demoHost = [demoMove]"
  using turn_log_validates [OF demo_created demoHost_def refl, of "[]"] demo_host by (simp add: demoPeer_def)

theorem equal_hashes_equal_games_witness: "tg_state demoHost = tg_state demoGuest"
proof -
  have "inj_on (to_sha demoTurnOptions) (chain_texts (tg_records demoHost) \<union> chain_texts (tg_records demoGuest))"
    unfolding demo_host demo_guest by (auto simp: chain_texts_def inj_on_def)
  then show ?thesis
    using equal_hashes_equal_games [OF demo_created demoHost_def demo_created demoGuest_def, of demoTurnOptions]
      demo_host demo_guest by (simp add: demoPeer_def)
qed

end
