(* ===== verification/Game_Turns_Storage.thy ===== *)
theory Game_Turns_Storage
  imports Game_Turns_Safety
begin

section \<open>Saving and restoring a turn game\<close>

text \<open>
  The log is saved in parts under a fresh revision before the manifest that names it is written.
  The lemmas follow what \<open>persist\<close> writes and what the initialization of a later game reads; a
  store that fails may or may not have written its value.
\<close>

subsection \<open>The storage\<close>

text \<open>
  \<open>saved\<close> is what is stored under a key. A random revision makes keys that belong to no saved
  manifest; sending does not touch the storage.
\<close>

definition store_laws :: "'w turn_env \<Rightarrow> ('w \<Rightarrow> ustring \<Rightarrow> saved option) \<Rightarrow> bool" where
  "store_laws env saved \<longleftrightarrow>
     (\<forall>k v ttl w. \<exists>r w'. te_store env k v ttl w = Some (r, w') \<and>
        (saved w' = saved w \<or> saved w' = (saved w)(k \<mapsto> v)) \<and> (r = Inr () \<longrightarrow> saved w' k = Some v)) \<and>
     (\<forall>k w. te_load env k w = Some (Inr (saved w k), w)) \<and>
     (\<forall>w. \<exists>r w'. te_uuid env w = Some (r, w') \<and> saved w' = saved w \<and>
        (\<forall>u m g i j. r = Inr u \<longrightarrow> saved w (manifest_key env) = Some (SavedManifest m) \<longrightarrow>
           part_key env g u i \<noteq> part_key env (sv_gameId m) (sv_revision m) j)) \<and>
     (\<forall>m to w. \<exists>r w'. te_send env m to w = Some (r, w') \<and> saved w' = saved w)"

lemma store_lawsD:
  assumes "store_laws env saved"
  shows "\<exists>r w'. te_store env k v ttl w = Some (r, w') \<and>
      (saved w' = saved w \<or> saved w' = (saved w)(k \<mapsto> v)) \<and> (r = Inr () \<longrightarrow> saved w' k = Some v)"
    and "te_load env k w = Some (Inr (saved w k), w)"
    and "\<exists>r w'. te_uuid env w = Some (r, w') \<and> saved w' = saved w \<and>
      (\<forall>u m g i j. r = Inr u \<longrightarrow> saved w (manifest_key env) = Some (SavedManifest m) \<longrightarrow>
         part_key env g u i \<noteq> part_key env (sv_gameId m) (sv_revision m) j)"
    and "\<exists>r w'. te_send env m to w = Some (r, w') \<and> saved w' = saved w"
proof -
  note laws = assms [unfolded store_laws_def]
  show "\<exists>r w'. te_store env k v ttl w = Some (r, w') \<and>
      (saved w' = saved w \<or> saved w' = (saved w)(k \<mapsto> v)) \<and> (r = Inr () \<longrightarrow> saved w' k = Some v)"
    by (rule laws [THEN conjunct1, rule_format])
  show "te_load env k w = Some (Inr (saved w k), w)"
    by (rule laws [THEN conjunct2, THEN conjunct1, rule_format])
  show "\<exists>r w'. te_uuid env w = Some (r, w') \<and> saved w' = saved w \<and>
      (\<forall>u m g i j. r = Inr u \<longrightarrow> saved w (manifest_key env) = Some (SavedManifest m) \<longrightarrow>
         part_key env g u i \<noteq> part_key env (sv_gameId m) (sv_revision m) j)"
    by (rule laws [THEN conjunct2, THEN conjunct2, THEN conjunct1, rule_format])
  show "\<exists>r w'. te_send env m to w = Some (r, w') \<and> saved w' = saved w"
    by (rule laws [THEN conjunct2, THEN conjunct2, THEN conjunct2, rule_format])
qed

lemma same_world: "\<exists>w'. s = s\<lparr>tg_world := w'\<rparr>"
  by (rule exI [of _ "tg_world s"], cases s) simp

lemma show_nat_inj: "show_nat m = show_nat n \<Longrightarrow> m = n"
  by (metis show_nat_digits)

lemma part_key_inj: "part_key env g u i = part_key env g u j \<longleftrightarrow> i = j"
  using show_nat_inj by (auto simp: part_key_def)

lemma manifest_not_part: "manifest_key env \<noteq> part_key env g u i"
  by (auto simp: manifest_key_def part_key_def)

subsection \<open>What persisting writes\<close>

definition part_keys :: "'w turn_env \<Rightarrow> ustring \<Rightarrow> ustring \<Rightarrow> ustring set" where
  "part_keys env g u = range (part_key env g u)"

lemma store_parts_effect:
  assumes "store_laws env saved"
  shows "store_parts env g u i ps s = Some (r, s') \<Longrightarrow>
    (\<exists>w'. s' = s\<lparr>tg_world := w'\<rparr>) \<and>
    (\<forall>k. k \<notin> part_key env g u ` {i..} \<longrightarrow> saved (tg_world s') k = saved (tg_world s) k) \<and>
    (r = Inr () \<longrightarrow> (\<forall>j<length ps. saved (tg_world s') (part_key env g u (i + j)) = Some (SavedPart (ps ! j))))"
proof (induction ps arbitrary: i s)
  case Nil
  then show ?case using same_world [of s] by (auto simp: return_eff_def)
next
  case (Cons p ps)
  show ?case
  proof (cases "active env s \<and> \<not> tg_frozen s")
    case False
    then have "r = Inl (turns_error InvalidState)" "s' = s"
      using Cons.prems by (auto simp: check_alive_def then_eff_def bind_eff_def get_eff_def throw_eff_def)
    then show ?thesis using same_world [of s] by auto
  next
    case True
    let ?k = "part_key env g u i"
    obtain r1 w1 where w1: "te_store env ?k (SavedPart p) (Some (to_ttl (te_options env))) (tg_world s) = Some (r1, w1)"
        "saved w1 = saved (tg_world s) \<or> saved w1 = (saved (tg_world s))(?k \<mapsto> SavedPart p)"
        "r1 = Inr () \<longrightarrow> saved w1 ?k = Some (SavedPart p)"
      using store_lawsD(1) [OF assms] by metis
    have rest: "store_parts env g u i (p # ps) s =
        (case r1 of Inl e \<Rightarrow> Some (Inl e, s\<lparr>tg_world := w1\<rparr>)
         | Inr _ \<Rightarrow> store_parts env g u (Suc i) ps (s\<lparr>tg_world := w1\<rparr>))"
      using True w1(1)
      by (simp add: check_alive_def then_eff_def bind_eff_def get_eff_def return_eff_def in_world_def split: sum.split)
    show ?thesis
    proof (cases r1)
      case (Inl e)
      then show ?thesis using rest Cons.prems w1(2) by (auto split: if_splits)
    next
      case (Inr x)
      have step: "store_parts env g u (Suc i) ps (s\<lparr>tg_world := w1\<rparr>) = Some (r, s')"
        using rest Cons.prems Inr by simp
      note IH = Cons.IH [OF step]
      have kept: "saved (tg_world s') k = saved (tg_world s) k" if "k \<notin> part_key env g u ` {i..}" for k
      proof -
        have "k \<notin> part_key env g u ` {Suc i..}" "k \<noteq> ?k" using that by auto
        then show ?thesis using IH w1(2) by auto
      qed
      have "?k \<notin> part_key env g u ` {Suc i..}"
        by (auto simp: part_key_inj)
      then have first: "saved (tg_world s') ?k = Some (SavedPart p)"
        using IH w1(3) Inr by simp
      have "saved (tg_world s') (part_key env g u (i + j)) = Some (SavedPart ((p # ps) ! j))"
        if "r = Inr ()" "j < length (p # ps)" for j
      proof (cases j)
        case (Suc j')
        then show ?thesis using IH that by auto
      qed (use first in simp)
      then show ?thesis using IH kept by auto
    qed
  qed
qed

definition written :: "'w turn_env \<Rightarrow> (ustring \<Rightarrow> saved option) \<Rightarrow> ustring \<Rightarrow> 'w turn_game \<Rightarrow> bool" where
  "written env view g s \<longleftrightarrow>
     (\<exists>u parts. chunks (tg_records s) 15000 = Inr parts \<and>
        view (manifest_key env) = Some (saved_of env g u (length parts) s) \<and>
        (\<forall>j<length parts. view (part_key env g u j) = Some (SavedPart (parts ! j))))"

lemma persist_effect:
  assumes "store_laws env saved" "to_persist (te_options env)" "tg_gameId s = Some g" "persist env s = Some (r, s')"
  defines "old \<equiv> saved (tg_world s)" and "new \<equiv> saved (tg_world s')"
  shows "written env new g s \<or>
    (r \<noteq> Inr () \<and> new (manifest_key env) = old (manifest_key env) \<and>
     (\<forall>m j. old (manifest_key env) = Some (SavedManifest m) \<longrightarrow>
        new (part_key env (sv_gameId m) (sv_revision m) j) = old (part_key env (sv_gameId m) (sv_revision m) j)))"
proof -
  obtain r1 w1 where w1: "te_uuid env (tg_world s) = Some (r1, w1)" "saved w1 = old"
      "\<And>u m i j. r1 = Inr u \<Longrightarrow> old (manifest_key env) = Some (SavedManifest m) \<Longrightarrow>
         part_key env g u i \<noteq> part_key env (sv_gameId m) (sv_revision m) j"
    using store_lawsD(3) [OF assms(1), of "tg_world s"] unfolding old_def by blast
  show ?thesis
  proof (cases r1)
    case (Inl e)
    then have "new = old" "r = Inl e"
      using assms(2-4) w1(1,2)
      by (auto simp: persist_def bind_eff_def get_eff_def in_world_def new_def)
    then show ?thesis by simp
  next
    case (Inr u)
    let ?s1 = "s\<lparr>tg_world := w1\<rparr>"
    show ?thesis
    proof (cases "chunks (tg_records s) 15000")
      case (Inl e)
      then have "new = old" "r = Inl e"
        using assms(2-4) w1(1,2) Inr
        by (auto simp: persist_def bind_eff_def get_eff_def in_world_def new_def lift_sum_def throw_eff_def)
      then show ?thesis by simp
    next
      case parts: (Inr parts)
      let ?rest = "then_eff (check_alive env)
          (then_eff
             (bind_eff (get_eff (saved_of env g u (length parts))) (\<lambda>v.
                in_world (te_store env (manifest_key env) v (Some (to_ttl (te_options env))))))
             (modify_eff (\<lambda>s. s\<lparr>tg_persistenceDirty := False\<rparr>)))"
      have run: "then_eff (store_parts env g u 0 parts) ?rest ?s1 = Some (r, s')"
        using assms(2-4) w1(1) Inr parts
        by (simp add: persist_def bind_eff_def get_eff_def in_world_def lift_sum_def return_eff_def)
      then obtain r2 s2 where s2: "store_parts env g u 0 parts ?s1 = Some (r2, s2)"
        by (auto simp: then_eff_def bind_eff_def split: option.splits)
      obtain w2 where w2: "s2 = s\<lparr>tg_world := w2\<rparr>"
          "\<And>k. k \<notin> range (part_key env g u) \<Longrightarrow> saved w2 k = old k"
          "r2 = Inr () \<Longrightarrow> \<forall>j<length parts. saved w2 (part_key env g u j) = Some (SavedPart (parts ! j))"
      proof -
        note effect = store_parts_effect [OF assms(1) s2]
        obtain w where "s2 = ?s1\<lparr>tg_world := w\<rparr>" using effect by blast
        then have w: "s2 = s\<lparr>tg_world := w\<rparr>" by simp
        have "\<forall>k. k \<notin> part_key env g u ` {0..} \<longrightarrow> saved (tg_world s2) k = saved (tg_world ?s1) k"
          using effect by (elim conjE)
        then have "saved w k = old k" if "k \<notin> range (part_key env g u)" for k
          using that w1(2) unfolding w by simp
        moreover have "\<forall>j<length parts. saved w (part_key env g u j) = Some (SavedPart (parts ! j))" if "r2 = Inr ()"
          using effect that w by simp
        ultimately show thesis using that w by blast
      qed
      have same: "saved w2 (manifest_key env) = old (manifest_key env) \<and>
          (\<forall>m j. old (manifest_key env) = Some (SavedManifest m) \<longrightarrow>
             saved w2 (part_key env (sv_gameId m) (sv_revision m) j) = old (part_key env (sv_gameId m) (sv_revision m) j))"
        using w2(2) manifest_not_part w1(3) [OF Inr] by (metis rangeE)
      show ?thesis
      proof (cases "r2 = Inr () \<and> active env s2 \<and> \<not> tg_frozen s2")
        case False
        have "r \<noteq> Inr () \<and> tg_world s' = w2"
        proof (cases r2)
          case (Inl e)
          then show ?thesis using run s2 w2(1) by (auto simp: then_eff_def bind_eff_def)
        next
          case ok: (Inr x)
          then have "check_alive env s2 = Some (Inl (turns_error InvalidState), s2)"
            using False by (auto simp: check_alive_def bind_eff_def get_eff_def throw_eff_def)
          then show ?thesis
            using run s2 ok w2(1) by (auto simp: then_eff_def bind_eff_def)
        qed
        then show ?thesis using same by (simp add: new_def)
      next
        case True
        let ?v = "saved_of env g u (length parts) s"
        obtain r3 w3 where w3: "te_store env (manifest_key env) ?v (Some (to_ttl (te_options env))) w2 = Some (r3, w3)"
            "saved w3 = saved w2 \<or> saved w3 = (saved w2)(manifest_key env \<mapsto> ?v)"
            "r3 = Inr () \<longrightarrow> saved w3 (manifest_key env) = Some ?v"
          using store_lawsD(1) [OF assms(1)] by metis
        have v: "saved_of env g u (length parts) s2 = ?v"
          by (simp add: saved_of_def w2(1))
        have alive: "check_alive env s2 = Some (Inr (), s2)"
          using True by (auto simp: check_alive_def bind_eff_def get_eff_def return_eff_def)
        have store: "bind_eff (get_eff (saved_of env g u (length parts))) (\<lambda>v.
            in_world (te_store env (manifest_key env) v (Some (to_ttl (te_options env))))) s2 = Some (r3, s\<lparr>tg_world := w3\<rparr>)"
          using w3(1) v w2(1) by (simp add: bind_eff_def get_eff_def in_world_def)
        have "tg_world s' = w3" "r = r3"
          using run s2 True alive store
          by (cases r3; auto simp: then_eff_def bind_eff_def modify_eff_def)+
        then have new: "new = saved w3" "r = r3" by (simp_all add: new_def)
        show ?thesis
        proof (cases "saved w3 (manifest_key env) = Some ?v")
          case written: True
          have "saved w3 (part_key env g u j) = saved w2 (part_key env g u j)" for j
            using w3(2) manifest_not_part [of env g u j] by auto
          then show ?thesis
            using written w2(3) True parts new by (auto simp: written_def)
        next
          case False
          then have "saved w3 = saved w2" using w3(2) by auto
          then show ?thesis using same False w3(3) new by auto
        qed
      qed
    qed
  qed
qed

subsection \<open>What the initialization reads\<close>

text \<open>The outcome of \<open>load_parts\<close> and \<open>restore\<close> as functions of what is stored.\<close>

fun loaded_parts ::
  "'w turn_env \<Rightarrow> (ustring \<Rightarrow> saved option) \<Rightarrow> ustring \<Rightarrow> ustring \<Rightarrow> nat \<Rightarrow> nat \<Rightarrow> TurnRecord list \<Rightarrow>
   thrown + TurnRecord list" where
  "loaded_parts env view g u i 0 log = Inr log"
| "loaded_parts env view g u i (Suc n) log =
     (case view (part_key env g u i) of
        None \<Rightarrow> Inl (turns_error Unavailable)
      | Some (SavedPart part) \<Rightarrow>
          (if part = [] then Inl (turns_error Mismatch)
           else
             case log_bytes (log @ part) of
               Inl e \<Rightarrow> Inl e
             | Inr len \<Rightarrow>
                 (if to_maxBytes (te_options env) < len then Inl (turns_error PayloadTooLarge)
                  else loaded_parts env view g u (Suc i) n (log @ part)))
      | Some _ \<Rightarrow> Inl (turns_error Mismatch))"

definition restored ::
  "'w turn_env \<Rightarrow> (ustring \<Rightarrow> saved option) \<Rightarrow> ustring \<Rightarrow> thrown + (json \<times> TurnRecord list \<times> ustring) option" where
  "restored env view h =
     (case view (manifest_key env) of
        Some (SavedManifest m) \<Rightarrow>
          (if sv_initialHash m \<noteq> h \<or> sv_players m \<noteq> to_players (te_options env) then Inr None
           else if \<not> restorable (to_maxBytes (te_options env)) m then Inl (turns_error Mismatch)
           else
             case loaded_parts env view (sv_gameId m) (sv_revision m) 0 (nat (sv_chunks m)) [] of
               Inl e \<Rightarrow> Inl e
             | Inr log \<Rightarrow>
                 (if int (length log) \<noteq> sv_count m \<or> log_hash log \<noteq> sv_finalHash m then Inl (turns_error Mismatch)
                  else
                    case validate (te_options env) log of
                      Inl e \<Rightarrow> Inl e
                    | Inr rebuilt \<Rightarrow> Inr (Some (rebuilt, log, sv_gameId m))))
      | _ \<Rightarrow> Inr None)"

lemma load_parts_view:
  assumes "store_laws env saved"
  shows "load_parts env g u i n log s = Some (loaded_parts env (saved (tg_world s)) g u i n log, s)"
proof (induction n arbitrary: i log)
  case 0
  show ?case by (simp add: return_eff_def)
next
  case (Suc n)
  let ?v = "saved (tg_world s) (part_key env g u i)"
  have load: "in_world (te_load env (part_key env g u i)) s = Some (Inr ?v, s)"
    using store_lawsD(2) [OF assms] by (cases s) (simp add: in_world_def)
  show ?case
  proof (cases ?v)
    case None
    then show ?thesis using load by (simp add: bind_eff_def throw_eff_def)
  next
    case (Some v)
    show ?thesis
    proof (cases v)
      case (SavedPart part)
      then show ?thesis
        using load Some Suc.IH [of "Suc i" "log @ part"]
        by (cases "log_bytes (log @ part)") (simp_all add: bind_eff_def throw_eff_def lift_sum_def return_eff_def)
    qed (use load Some in \<open>simp_all add: bind_eff_def throw_eff_def\<close>)
  qed
qed

lemma restore_view:
  assumes "store_laws env saved"
  shows "restore env s = Some (case restored env (saved (tg_world s)) (tg_initialHash s) of
      Inl e \<Rightarrow> (Inl e, s)
    | Inr None \<Rightarrow> (Inr (), s)
    | Inr (Some (st, log, g)) \<Rightarrow> (Inr (), s\<lparr>tg_state := st, tg_records := log, tg_gameId := Some g\<rparr>))"
proof -
  let ?v = "saved (tg_world s) (manifest_key env)"
  have load: "in_world (te_load env (manifest_key env)) s = Some (Inr ?v, s)"
    using store_lawsD(2) [OF assms] by (cases s) (simp add: in_world_def)
  show ?thesis
  proof (cases "\<exists>m. ?v = Some (SavedManifest m)")
    case False
    then have "restored env (saved (tg_world s)) (tg_initialHash s) = Inr None"
      by (auto simp: restored_def split: option.split saved.split)
    then show ?thesis
      using load False
      by (auto simp: restore_def bind_eff_def get_eff_def return_eff_def split: option.split saved.split)
  next
    case True
    then obtain m where m: "?v = Some (SavedManifest m)" by blast
    show ?thesis
      using load m load_parts_view [OF assms, of "sv_gameId m" "sv_revision m" 0 "nat (sv_chunks m)" "[]" s]
      by (auto simp: restore_def restored_def bind_eff_def get_eff_def return_eff_def throw_eff_def lift_sum_def
          modify_eff_def split: sum.split)
  qed
qed

text \<open>The old manifest leads to the same game as long as its parts are untouched.\<close>

lemma loaded_parts_cong:
  "(\<And>j. view' (part_key env g u j) = view (part_key env g u j)) \<Longrightarrow>
   loaded_parts env view' g u i n log = loaded_parts env view g u i n log"
  by (induction n arbitrary: i log) (simp_all split: option.split saved.split sum.split)

lemma restored_cong:
  assumes "view' (manifest_key env) = view (manifest_key env)"
    and "\<And>m j. view (manifest_key env) = Some (SavedManifest m) \<Longrightarrow>
      view' (part_key env (sv_gameId m) (sv_revision m) j) = view (part_key env (sv_gameId m) (sv_revision m) j)"
  shows "restored env view' h = restored env view h"
proof (cases "\<exists>m. view (manifest_key env) = Some (SavedManifest m)")
  case True
  then obtain m where m: "view (manifest_key env) = Some (SavedManifest m)" by blast
  show ?thesis
    using assms(1) m loaded_parts_cong [of view' env "sv_gameId m" "sv_revision m" view] assms(2) [OF m]
    by (simp add: restored_def)
qed (use assms(1) in \<open>auto simp: restored_def split: option.split saved.split\<close>)

lemma loaded_parts_all:
  assumes "\<And>j. j < length ps \<Longrightarrow> view (part_key env g u (i + j)) = Some (SavedPart (ps ! j))"
    and "list_all (\<lambda>p. p \<noteq> []) ps" "log_bytes (log @ concat ps) = Inr n" "n \<le> to_maxBytes (te_options env)"
  shows "loaded_parts env view g u i (length ps) log = Inr (log @ concat ps)"
  using assms
proof (induction ps arbitrary: i log)
  case (Cons p ps)
  obtain k where k: "k \<le> n" "log_bytes (log @ p) = Inr k"
    using log_bytes_prefix [of "log @ p" "concat ps" n] Cons.prems(3) by auto
  have "view (part_key env g u i) = Some (SavedPart p)"
    using Cons.prems(1) [of 0] by simp
  moreover have "loaded_parts env view g u (Suc i) (length ps) (log @ p) = Inr ((log @ p) @ concat ps)"
  proof (rule Cons.IH)
    show "view (part_key env g u (Suc i + j)) = Some (SavedPart (ps ! j))" if "j < length ps" for j
      using Cons.prems(1) [of "Suc j"] that by simp
  qed (use Cons.prems in simp_all)
  ultimately show ?case
    using k Cons.prems(2,4) by simp
qed simp

lemma restored_written:
  assumes "game_ok env s0 s" "written env view g s" "tg_gameId s = Some g"
    and "isSafeInteger (int (to_maxBytes (te_options env)))" "\<forall>t. length (to_sha (te_options env) t) = 64"
  shows "restored env view (tg_initialHash s) = Inr (Some (tg_state s, tg_records s, g))"
proof -
  let ?opt = "te_options env"
  obtain u parts where w: "chunks (tg_records s) 15000 = Inr parts"
      "view (manifest_key env) = Some (saved_of env g u (length parts) s)"
      "\<forall>j<length parts. view (part_key env g u j) = Some (SavedPart (parts ! j))"
    using assms(2) by (auto simp: written_def)
  have valid: "validate ?opt (tg_records s) = Inr (tg_state s)" and fits: "log_fits env (tg_records s)"
    using assms(1) by (simp_all add: ok_defs)
  have parts: "concat parts = tg_records s" "list_all (\<lambda>p. p \<noteq> []) parts" "length parts \<le> length (tg_records s)"
    using chunks_parts [OF w(1)] parts_at_most [of 15000 parts] by (auto simp: list_all_iff part_fits_def)
  have digest: "length (tr_hash r) = 64" if r: "r \<in> set (tg_records s)" for r
  proof -
    obtain i where "i < length (tg_records s)" "r = tg_records s ! i"
      using r by (metis in_set_conv_nth)
    then show ?thesis
      using validate_nth [OF valid, of i] assms(5) by (auto simp: hashJson_def) metis
  qed
  have few: "length (tg_records s) \<le> to_maxBytes ?opt div 80"
  proof (cases "tg_records s = []")
    case False
    then obtain n where "n \<le> to_maxBytes ?opt" "log_bytes (tg_records s) = Inr n"
      using fits by (auto simp: log_fits_def)
    then have "80 * length (tg_records s) \<le> to_maxBytes ?opt"
      using log_bytes_long [of "tg_records s" n] digest by simp
    then show ?thesis by simp
  qed simp
  have loaded: "loaded_parts env view g u 0 (length parts) [] = Inr (tg_records s)"
  proof (cases "tg_records s = []")
    case True
    then show ?thesis using parts(3) by simp
  next
    case False
    then obtain n where "n \<le> to_maxBytes ?opt" "log_bytes ([] @ concat parts) = Inr n"
      using fits parts(1) by (auto simp: log_fits_def)
    then show ?thesis
      using loaded_parts_all [of parts view env g u 0 "[]" n] w(3) parts(1,2) by simp
  qed
  have safe: "isSafeInteger (int k)" if "k \<le> length (tg_records s)" for k
  proof -
    have "k \<le> to_maxBytes ?opt"
      using that few by (meson div_le_dividend le_trans)
    then show ?thesis using assms(4) by (simp add: isSafeInteger_def)
  qed
  have "restorable (to_maxBytes ?opt)
      \<lparr>sv_gameId = g, sv_players = to_players ?opt, sv_initialHash = tg_initialHash s, sv_revision = u,
       sv_chunks = int (length parts), sv_count = int (length (tg_records s)), sv_finalHash = log_hash (tg_records s)\<rparr>"
    using parts(3) few safe [of "length parts"] safe [of "length (tg_records s)"] by (auto simp: restorable_def)
  then show ?thesis
    using w(2) loaded valid by (simp add: restored_def saved_of_def)
qed

subsection \<open>What a restarted game holds\<close>

lemma in_world_total: "(\<And>w. \<exists>r w'. m w = Some (r, w')) \<Longrightarrow> \<exists>r t. in_world m s = Some (r, t)"
  by (auto simp: in_world_def split: option.split)

lemma announce_total: "store_laws env saved \<Longrightarrow> \<exists>r t. announce env to s = Some (r, t)"
  using in_world_total [of "te_send env (StartMessage (the (tg_gameId s)) (to_players (te_options env)) (tg_initialHash s)) to" s]
    store_lawsD(4) [of env saved]
  by (auto simp: announce_def bind_eff_def get_eff_def return_eff_def split: option.split) fastforce

lemma bind_total:
  "\<exists>r t. m s = Some (r, t) \<Longrightarrow> (\<And>a t. \<exists>r u. k a t = Some (r, u)) \<Longrightarrow> \<exists>r t. bind_eff m k s = Some (r, t)"
  by (auto simp: bind_eff_def split: sum.split)

lemma requestLog_total:
  assumes "store_laws env saved"
  shows "\<exists>r t. requestLog env s = Some (r, t)"
proof -
  have uuid: "\<exists>r t. in_world (te_uuid env) s = Some (r, t)" for s
    by (rule in_world_total) (use store_lawsD(3) [OF assms] in blast)
  have send: "\<exists>r t. in_world (te_send env m to) s = Some (r, t)" for m to s
    by (rule in_world_total) (use store_lawsD(4) [OF assms] in blast)
  show ?thesis
    unfolding requestLog_def
    by (rule bind_total)
      (auto simp: get_eff_def return_eff_def then_eff_def modify_eff_def split: option.split
        intro!: bind_total uuid send)
qed

lemma start_view:
  assumes "store_laws env saved" "to_persist (te_options env)" "createTurnGame env w = Inr g0" "te_active env w"
    and "hashJson (to_sha (te_options env)) (to_initial (te_options env)) = Some h"
  shows "case restored env (saved w) h of
      Inr (Some (st, log, i)) \<Rightarrow> tg_state (start_game env g0) = st \<and> tg_records (start_game env g0) = log \<and>
        tg_gameId (start_game env g0) = Some i
    | _ \<Rightarrow> tg_state (start_game env g0) = tg_state g0 \<and> tg_records (start_game env g0) = []"
proof -
  have g0: "tg_initialized g0 = None" "tg_world g0 = w" "tg_records g0 = []" "tg_gameId g0 = None" "\<not> tg_disposed g0"
    using assms(3) by (auto simp: createTurnGame_def Let_def split: if_splits option.splits)
  let ?s1 = "g0\<lparr>tg_initialHash := h\<rparr>"
  let ?rest = "bind_eff (get_eff (\<lambda>s. (isHost env s, tg_gameId s))) (\<lambda>(host, g).
      if host then
        then_eff
          (case g of
             Some _ \<Rightarrow> return_eff ()
           | None \<Rightarrow> bind_eff (in_world (te_uuid env)) (\<lambda>i. modify_eff (\<lambda>s. s\<lparr>tg_gameId := Some i\<rparr>)))
          (announce env None)
      else requestLog env)"
  have init: "initialize env g0 = then_eff (restore env) ?rest ?s1"
    using assms(2,4,5) g0 by (simp add: initialize_def then_eff_def bind_eff_def modify_eff_def get_eff_def active_def when_eff_def)
  have uuid: "\<exists>r t. in_world (te_uuid env) s = Some (r, t)" for s
    by (rule in_world_total) (use store_lawsD(3) [OF assms(1)] in blast)
  have rest: "\<exists>r t. ?rest s = Some (r, t)" for s
    by (rule bind_total)
      (auto simp: get_eff_def return_eff_def then_eff_def modify_eff_def split: option.split
        intro!: bind_total uuid announce_total [OF assms(1)] requestLog_total [OF assms(1)])
  have kept: "keeps_inv (\<lambda>s. tg_state s = st \<and> tg_records s = log) ?rest" for st log
    unfolding announce_def
    by (intro keeps_inv_intros keeps_requestLog keeps_world) simp_all
  let ?J = "\<lambda>st log i s. tg_state s = st \<and> tg_records s = log \<and> tg_gameId s = Some i"
  have kept_id: "?J st log i t" if s: "?J st log i s" and run: "?rest s = Some (r, t)" for st log i s r t
  proof -
    have "keeps_inv (?J st log i) (announce env None)" "keeps_inv (?J st log i) (requestLog env)"
      unfolding announce_def by (intro keeps_inv_intros keeps_requestLog keeps_world; simp)+
    then have both: "keeps_inv (?J st log i) (if isHost env s then announce env None else requestLog env)"
      by simp
    have "(if isHost env s then announce env None else requestLog env) s = Some (r, t)"
      using run s by (auto simp: bind_eff_def get_eff_def then_eff_def return_eff_def split: if_splits)
    then show ?thesis by (rule keepsD [OF both s])
  qed
  let ?view = "restored env (saved w) h"
  have fields: "tg_state (start_game env g0) = tg_state t \<and> tg_records (start_game env g0) = tg_records t \<and>
      tg_gameId (start_game env g0) = tg_gameId t" if "initialize env g0 = Some (r, t)" for r t
    using that g0(1) by (cases r) (auto simp: start_game_def Let_def fail_game_def emit_def)
  have restore: "restore env ?s1 = Some (case ?view of
      Inl e \<Rightarrow> (Inl e, ?s1)
    | Inr None \<Rightarrow> (Inr (), ?s1)
    | Inr (Some (st, log, g)) \<Rightarrow> (Inr (), ?s1\<lparr>tg_state := st, tg_records := log, tg_gameId := Some g\<rparr>))"
    using restore_view [OF assms(1), of ?s1] g0(2) by simp
  show ?thesis
  proof (cases ?view)
    case (Inl e)
    then show ?thesis
      using fields [of "Inl e" ?s1] restore init g0(3) by (simp add: then_eff_def bind_eff_def)
  next
    case (Inr found)
    show ?thesis
    proof (cases found)
      case None
      obtain r t where t: "?rest ?s1 = Some (r, t)" using rest by blast
      then have "initialize env g0 = Some (r, t)"
        using init restore Inr None by (simp add: then_eff_def bind_eff_def)
      moreover have "tg_state t = tg_state g0 \<and> tg_records t = []"
        using keepsD [OF kept [of "tg_state g0" "[]"] _ t] g0(3) by simp
      ultimately show ?thesis using fields Inr None by simp
    next
      case (Some x)
      obtain st log i where x: "x = (st, log, i)" by (cases x) auto
      let ?s2 = "?s1\<lparr>tg_state := st, tg_records := log, tg_gameId := Some i\<rparr>"
      obtain r t where t: "?rest ?s2 = Some (r, t)" using rest by blast
      then have "initialize env g0 = Some (r, t)"
        using init restore Inr Some x by (simp add: then_eff_def bind_eff_def)
      moreover have "?J st log i t"
        by (rule kept_id [OF _ t]) simp
      ultimately show ?thesis using fields Inr Some x by simp
    qed
  qed
qed

text \<open>
  C4: Saving the log of a game is atomic: a game restarted from the storage after \<open>persist\<close> holds
  the log, the state and the identity of the game that was saved, or, only when \<open>persist\<close> threw
  (because any one of its stores failed, or the game was stopped midway), what a game
  restarted before it would have held; a mixture of both is never read.
\<close>

theorem persist_is_atomic:
  assumes "store_laws env saved" "to_persist (te_options env)" "\<forall>t. length (to_sha (te_options env) t) = 64"
    and "createTurnGame env w = Inr g" "s = turn_run env g es" "tg_gameId s = Some i" "persist env s = Some (r, s')"
    and "te_active env (tg_world s)" "createTurnGame env (tg_world s) = Inr before"
    and "te_active env (tg_world s')" "createTurnGame env (tg_world s') = Inr after"
  defines "restart_before \<equiv> start_game env before" and "restart_after \<equiv> start_game env after"
  shows "(tg_records restart_after = tg_records s \<and> tg_state restart_after = tg_state s \<and> tg_gameId restart_after = Some i) \<or>
    (r \<noteq> Inr () \<and> tg_records restart_after = tg_records restart_before \<and> tg_state restart_after = tg_state restart_before)"
proof -
  have ok: "game_ok env g s"
    using ok_run [OF ok_create [OF assms(4)]] assms(5) by simp
  then have h: "hashJson (to_sha (te_options env)) (to_initial (te_options env)) = Some (tg_initialHash s)"
    using assms(6) by (simp add: ok_defs)
  have safe: "isSafeInteger (int (to_maxBytes (te_options env)))"
    using assms(4) by (auto simp: createTurnGame_def Let_def split: if_splits)
  have same_start: "tg_state before = tg_state after"
    using assms(9,11) by (auto simp: createTurnGame_def Let_def split: if_splits option.splits)
  note b = start_view [OF assms(1,2,9,8) h] and a = start_view [OF assms(1,2,11,10) h]
  from persist_effect [OF assms(1,2,6,7)] consider
      "written env (saved (tg_world s')) i s"
    | "r \<noteq> Inr ()" "restored env (saved (tg_world s')) (tg_initialHash s) = restored env (saved (tg_world s)) (tg_initialHash s)"
    using restored_cong [of "saved (tg_world s')" env "saved (tg_world s)"] by blast
  then show ?thesis
  proof cases
    case 1
    then have "restored env (saved (tg_world s')) (tg_initialHash s) = Inr (Some (tg_state s, tg_records s, i))"
      using restored_written [OF ok _ assms(6) safe assms(3)] by blast
    then show ?thesis using a by (simp add: restart_after_def)
  next
    case 2
    then show ?thesis
      using a b same_start by (auto simp: restart_after_def restart_before_def split: sum.splits option.splits)
  qed
qed

subsection \<open>A witness\<close>

text \<open>
  A host in a world that is the storage, which gives out one revision and a second one after it.
\<close>

definition demoStoreOptions :: turn_options where
  "demoStoreOptions =
     \<lparr>to_players = [[97]], to_initial = JNull, to_apply = (\<lambda>st m a. Some m), to_persist = True,
      to_saveResultAs = None, to_maxBytes = 1000, to_ttl = 60, to_sha = (\<lambda>_. replicate 64 104)\<rparr>"

definition demoRevision :: "saved option \<Rightarrow> thrown + ustring" where
  "demoRevision v =
     (case v of
        None \<Rightarrow> Inr [117]
      | Some (SavedManifest m) \<Rightarrow>
          (if sv_gameId m = [117] \<and> sv_revision m = [117] then Inr [118] else Inl TypeError)
      | Some _ \<Rightarrow> Inl TypeError)"

definition demoStoreHost :: "(ustring \<Rightarrow> saved option) turn_env" where
  "demoStoreHost =
     \<lparr>te_options = demoStoreOptions, te_room = [114], te_me = [97], te_active = (\<lambda>_. True),
      te_members = (\<lambda>_. [([97], True)]), te_host = (\<lambda>_. Some [97]),
      te_send = (\<lambda>_ _. return_eff ()), te_store = (\<lambda>k v ttl w. Some (Inr (), w(k \<mapsto> v))),
      te_load = (\<lambda>k w. Some (Inr (w k), w)), te_now = (\<lambda>_. 0),
      te_uuid = (\<lambda>w. Some (demoRevision (w (ascii ''turns:r'')), w))\<rparr>"

definition demoCreated :: "(ustring \<Rightarrow> saved option) \<Rightarrow> (ustring \<Rightarrow> saved option) turn_game" where
  "demoCreated w = (case createTurnGame demoStoreHost w of Inr g \<Rightarrow> g)"

definition demoSaved :: "(ustring \<Rightarrow> saved option) turn_game" where
  "demoSaved = turn_run demoStoreHost (demoCreated (\<lambda>_. None)) [Initialize]"

lemma demo_store_created: "createTurnGame demoStoreHost w = Inr (demoCreated w)"
proof -
  have "isSafeInteger 1000" by (simp add: isSafeInteger_def)
  then have "\<exists>g. createTurnGame demoStoreHost w = Inr g"
    by (simp add: createTurnGame_def demoStoreHost_def demoStoreOptions_def copyJson_def)
  then show ?thesis by (auto simp: demoCreated_def)
qed

lemma key_revision:
  assumes "g @ ascii '':'' @ [118] @ ascii '':'' @ show_nat i = [117] @ ascii '':'' @ [117] @ ascii '':'' @ show_nat j"
  shows False
proof -
  have digits: "takeWhile is_digit (rev (show_nat k) @ [58, c] @ t) = rev (show_nat k)" for k c t
    using show_nat_plain [of _ k] by (subst takeWhile_append2) (auto simp: is_digit_def)
  have "rev (show_nat i) @ [58, 118] @ rev (g @ ascii '':'') = rev (show_nat j) @ [58, 117] @ rev ([117] @ ascii '':'')"
    using arg_cong [OF assms, of rev] by simp
  moreover from this have "rev (show_nat i) = rev (show_nat j)"
    using digits by metis
  ultimately show False by simp
qed

lemma demo_store_laws: "store_laws demoStoreHost id"
proof -
  have "part_key demoStoreHost g u i \<noteq> part_key demoStoreHost (sv_gameId m) (sv_revision m) j"
    if "demoRevision (Some (SavedManifest m)) = Inr u" for g u m i j
  proof -
    have "sv_gameId m = [117]" "sv_revision m = [117]" "u = [118]"
      using that by (auto simp: demoRevision_def split: if_splits)
    then show ?thesis using key_revision [of g i j] by (auto simp: part_key_def)
  qed
  then show ?thesis
    by (simp add: store_laws_def demoStoreHost_def return_eff_def manifest_key_def part_key_def) metis
qed

definition demoPersisted :: "(ustring \<Rightarrow> saved option) turn_game" where
  "demoPersisted = (case persist demoStoreHost demoSaved of Some (_, t) \<Rightarrow> t)"

lemma demo_saved: "tg_gameId demoSaved = Some [117]" "tg_records demoSaved = []" "tg_state demoSaved = JNull"
  by code_simp+

lemma demo_persisted: "persist demoStoreHost demoSaved = Some (Inr (), demoPersisted)"
proof -
  have "case persist demoStoreHost demoSaved of Some (Inr u, t) \<Rightarrow> True | _ \<Rightarrow> False"
    by code_simp
  then show ?thesis by (auto simp: demoPersisted_def split: option.splits sum.splits)
qed

theorem persist_is_atomic_witness:
  "tg_gameId (start_game demoStoreHost (demoCreated (tg_world demoPersisted))) = Some [117] \<and>
   tg_state (start_game demoStoreHost (demoCreated (tg_world demoPersisted))) = JNull"
  using persist_is_atomic [OF demo_store_laws _ _ demo_store_created demoSaved_def demo_saved(1) demo_persisted
      _ demo_store_created _ demo_store_created] demo_saved(3)
  by (simp add: demoStoreHost_def [THEN arg_cong, of te_options] demoStoreHost_def [THEN arg_cong, of te_active]
      demoStoreOptions_def)

end
