(* ===== verification/Game_Turns_Transfer.thy ===== *)
theory Game_Turns_Transfer
  imports Game_Turns_Safety
begin

section \<open>Handing a log to another peer\<close>

text \<open>
  A peer that asked for the log receives a manifest and the parts. The lemmas follow the assembly
  chunk by chunk, in whatever order the chunks arrive and however often, up to the commit.
\<close>

lemma copy_record_idem [simp]: "copy_record (copy_record r) = copy_record r"
  by (simp add: copy_record_eq)

definition manifest_for :: "ustring \<Rightarrow> ustring \<Rightarrow> TurnRecord list \<Rightarrow> TurnRecord list list \<Rightarrow> Manifest" where
  "manifest_for gid req log parts =
     \<lparr>mf_gameId = gid, mf_requestId = req, mf_count = int (length log), mf_finalHash = log_hash log,
      mf_chunks = int (length parts)\<rparr>"

text \<open>The chunks that have arrived, the last one first.\<close>

definition assembled ::
  "ustring \<Rightarrow> Manifest \<Rightarrow> TurnRecord list list \<Rightarrow> nat list \<Rightarrow> assembly" where
  "assembled peer m parts D =
     \<lparr>as_manifest = m, as_from = peer, as_parts = map (\<lambda>i. (int i, parts ! i)) D,
      as_totalBytes = (\<Sum>i\<leftarrow>D. part_bytes (parts ! i))\<rparr>"

definition committed :: "turn_options \<Rightarrow> TurnRecord list \<Rightarrow> json \<Rightarrow> 'w turn_game \<Rightarrow> 'w turn_game" where
  "committed opt log st s =
     s\<lparr>tg_records := log, tg_persistenceDirty := to_persist opt, tg_state := st, tg_requestId := None,
       tg_assembly := None, tg_timer := None, tg_buffered := []\<rparr>"

lemma assembled_lookup:
  "map_of (map (\<lambda>i. (int i, parts ! i)) D) (int i) = (if i \<in> set D then Some (parts ! i) else None)"
  by (induction D) auto

lemma collect_complete:
  "\<forall>j<n. map_of al (int (i + j)) = Some (parts ! (i + j)) \<Longrightarrow>
   collect_parts al i n = Some (concat (map (\<lambda>j. parts ! j) [i..<i + n]))"
proof (induction n arbitrary: i)
  case (Suc n)
  have "map_of al (int i) = Some (parts ! i)"
    using Suc.prems by force
  moreover have "\<forall>j<n. map_of al (int (Suc i + j)) = Some (parts ! (Suc i + j))"
    using Suc.prems by (metis add_Suc_right add_Suc_shift Suc_mono)
  then have "collect_parts al (Suc i) n = Some (concat (map (\<lambda>j. parts ! j) [Suc i..<Suc i + n]))"
    by (rule Suc.IH)
  ultimately show ?case
    by (simp add: upt_conv_Cons del: upt_Suc)
qed simp

lemma commit_incomplete:
  assumes "tg_assembly s = Some (assembled peer m parts D)" "int (length D) \<noteq> mf_chunks m"
  shows "commitAssembly env s = Some (Inr (), s)"
  using assms by (simp add: commitAssembly_def bind_eff_def get_eff_def return_eff_def assembled_def)

lemma commit_complete:
  fixes s :: "'w turn_game"
  assumes "tg_assembly s = Some (assembled peer m parts D)" "m = manifest_for gid req log parts"
    and "distinct D" "set D = {0..<length parts}" "concat parts = log" "map copy_record log = log"
    and "log_matches m (tg_records s) log" "validate (te_options env) log = Inr st" "active env s"
    and "tg_buffered s = []" "tg_pendingFinish s = None" "\<not> to_persist (te_options env)"
  shows "commitAssembly env s = Some (Inr (), committed (te_options env) log st s)"
proof -
  let ?a = "assembled peer m parts D"
  have count: "length D = length parts"
    using distinct_card [OF assms(3)] assms(4) by simp
  have "collect_parts (as_parts ?a) 0 (length parts) = Some (concat (map (\<lambda>j. parts ! j) [0..<0 + length parts]))"
    by (rule collect_complete) (simp add: assembled_def assembled_lookup assms(4))
  then have collect: "collect_parts (as_parts ?a) 0 (nat (mf_chunks (as_manifest ?a))) = Some log"
    using assms(2,5) by (simp add: assembled_def manifest_for_def map_nth)
  have whole: "int (length (as_parts ?a)) = mf_chunks (as_manifest ?a)"
    using count assms(2) by (simp add: assembled_def manifest_for_def)
  have settle: "settle_finish env peer t = Some (Inr True, t)" if "tg_pendingFinish t = None" for t :: "'w turn_game"
    using that by (simp add: settle_finish_def bind_eff_def get_eff_def return_eff_def)
  have "tg_pendingFinish (committed (te_options env) log st s) = None"
    using assms(11) by (simp add: committed_def)
  note settled = settle [OF this]
  have persist: "try_persist env t = Some (Inr (), t)" for t :: "'w turn_game"
    using assms(12) by (simp add: try_persist_def persist_def catch_eff_def bind_eff_def get_eff_def return_eff_def)
  have "as_manifest ?a = m" "as_from ?a = peer" by (simp_all add: assembled_def)
  then show ?thesis
    using assms(1,6-10) whole collect settled persist
    by (simp add: commitAssembly_def bind_eff_def get_eff_def then_eff_def modify_eff_def return_eff_def when_eff_def
        committed_def)
qed

subsection \<open>Chunk by chunk\<close>

text \<open>The requester while the log is on its way, and what it was told.\<close>

definition waiting ::
  "'w turn_env \<Rightarrow> ustring \<Rightarrow> ustring \<Rightarrow> ustring \<Rightarrow> TurnRecord list \<Rightarrow> TurnRecord list list \<Rightarrow> json \<Rightarrow> 'w turn_game \<Rightarrow> bool" where
  "waiting env peer gid req log parts st s \<longleftrightarrow>
     tg_gameId s = Some gid \<and> tg_requestId s = Some req \<and> active env s \<and> tg_buffered s = [] \<and>
     tg_pendingFinish s = None \<and> \<not> to_persist (te_options env) \<and>
     map copy_record log = log \<and> concat parts = log \<and> list_all (\<lambda>p. p \<noteq> [] \<and> (\<exists>n. log_bytes p = Inr n)) parts \<and>
     (\<Sum>p\<leftarrow>parts. part_bytes p) \<le> to_maxBytes (te_options env) \<and> isSafeInteger (int (length parts)) \<and>
     log_matches (manifest_for gid req log parts) (tg_records s) log \<and> validate (te_options env) log = Inr st"

definition assembling :: "ustring \<Rightarrow> Manifest \<Rightarrow> TurnRecord list list \<Rightarrow> nat list \<Rightarrow> 'w turn_game \<Rightarrow> 'w turn_game" where
  "assembling peer m parts D s = s\<lparr>tg_assembly := Some (assembled peer m parts D)\<rparr>"

lemma assembling_simps [simp]:
  "tg_assembly (assembling peer m parts D s) = Some (assembled peer m parts D)"
  "tg_gameId (assembling peer m parts D s) = tg_gameId s" "tg_requestId (assembling peer m parts D s) = tg_requestId s"
  "tg_records (assembling peer m parts D s) = tg_records s" "tg_buffered (assembling peer m parts D s) = tg_buffered s"
  "tg_pendingFinish (assembling peer m parts D s) = tg_pendingFinish s"
  "active env (assembling peer m parts D s) = active env s"
  "committed opt log st (assembling peer m parts D s) = committed opt log st s"
  by (simp_all add: assembling_def committed_def active_def)

lemma known_bytes:
  assumes "distinct D" "set D \<subseteq> {0..<length parts}"
  shows "(\<Sum>i\<leftarrow>D. part_bytes (parts ! i)) \<le> (\<Sum>p\<leftarrow>parts. part_bytes p)"
proof -
  have "(\<Sum>i\<leftarrow>D. part_bytes (parts ! i)) = (\<Sum>i\<in>set D. part_bytes (parts ! i))"
    using assms(1) by (simp add: sum_list_distinct_conv_sum_set)
  also have "\<dots> \<le> (\<Sum>i\<in>{0..<length parts}. part_bytes (parts ! i))"
    using assms(2) by (intro sum_mono2) auto
  also have "\<dots> = (\<Sum>p\<leftarrow>parts. part_bytes p)"
    by (simp add: sum_list_sum_nth)
  finally show ?thesis .
qed

lemma commit_or_wait:
  fixes s :: "'w turn_game"
  assumes "waiting env peer gid req log parts st s" "distinct D" "set D \<subseteq> {0..<length parts}"
  defines "m \<equiv> manifest_for gid req log parts"
  shows "commitAssembly env (assembling peer m parts D s) =
    Some (Inr (), if set D = {0..<length parts} then committed (te_options env) log st s else assembling peer m parts D s)"
proof (cases "set D = {0..<length parts}")
  case True
  have "commitAssembly env (assembling peer m parts D s) =
      Some (Inr (), committed (te_options env) log st (assembling peer m parts D s))"
    using assms(1,2) True
    by (intro commit_complete [where D = D and parts = parts and m = m and peer = peer])
      (simp_all add: waiting_def m_def)
  then show ?thesis using True by simp
next
  case False
  have "int (length D) \<noteq> mf_chunks m"
  proof
    assume "int (length D) = mf_chunks m"
    then have "card (set D) = card {0..<length parts}"
      using distinct_card [OF assms(2)] by (simp add: m_def manifest_for_def)
    then show False
      using card_subset_eq [of "{0..<length parts}" "set D"] assms(3) False by simp
  qed
  then show ?thesis
    using commit_incomplete [of "assembling peer m parts D s" peer m parts D env] False by simp
qed

lemma chunk_step:
  fixes s :: "'w turn_game"
  assumes "waiting env peer gid req log parts st s" "distinct D" "set D \<subset> {0..<length parts}" "i < length parts"
  defines "m \<equiv> manifest_for gid req log parts"
  shows "turn_step env (Message peer (ChunkMessage gid req (int i) (parts ! i))) (assembling peer m parts D s) =
    (if insert i (set D) = {0..<length parts} then committed (te_options env) log st s
     else assembling peer m parts (if i \<in> set D then D else i # D) s)"
proof -
  let ?s = "assembling peer m parts D s"
  have w: "tg_gameId s = Some gid" "tg_requestId s = Some req" "active env s"
      "map copy_record log = log" "concat parts = log"
      "list_all (\<lambda>p. p \<noteq> [] \<and> (\<exists>n. log_bytes p = Inr n)) parts"
      "(\<Sum>p\<leftarrow>parts. part_bytes p) \<le> to_maxBytes (te_options env)" "isSafeInteger (int (length parts))"
    using assms(1) by (simp_all add: waiting_def)
  have part: "parts ! i \<noteq> []" "log_bytes (parts ! i) = Inr (part_bytes (parts ! i))"
    using w(6) assms(4) by (auto simp: list_all_length part_bytes_def)
  have copied: "map copy_record (parts ! i) = parts ! i"
  proof -
    have "copy_record r = r" if "r \<in> set log" for r
      using that w(4) by (metis map_idI map_eq_conv list.map_ident)
    moreover have "set (parts ! i) \<subseteq> set log"
      using w(5) nth_mem [OF assms(4)] by auto
    ultimately show ?thesis by (intro map_idI) auto
  qed
  have safe: "isSafeInteger (int i)"
    using w(8) assms(4) by (simp add: isSafeInteger_def)
  have run: "turn_step env (Message peer (ChunkMessage gid req (int i) (parts ! i))) ?s = t"
    if "on_chunk env peer gid req (int i) (parts ! i) ?s = Some (Inr (), t)" for t
    using that w(3) by (simp add: run_lane_def on_message_def catch_eff_def)
  have guard: "\<not> (peer \<noteq> as_from (assembled peer m parts D) \<or> Some gid \<noteq> tg_gameId ?s \<or> Some req \<noteq> tg_requestId ?s)"
    "\<not> (\<not> isSafeInteger (int i) \<or> int i < 0 \<or> mf_chunks (as_manifest (assembled peer m parts D)) \<le> int i \<or> parts ! i = [])"
    using w(1,2) safe part(1) assms(4) by (simp_all add: assembled_def m_def manifest_for_def)
  show ?thesis
  proof (cases "i \<in> set D")
    case True
    have "on_chunk env peer gid req (int i) (parts ! i) ?s = Some (Inr (), ?s)"
      using guard True
      by (simp add: on_chunk_def bind_eff_def get_eff_def assembled_lookup return_eff_def when_eff_def)
        (simp add: assembled_def assembled_lookup return_eff_def when_eff_def True)
    then show ?thesis
      using run True assms(3) by (auto simp: insert_absorb)
  next
    case False
    have bytes: "as_totalBytes (assembled peer m parts D) + part_bytes (parts ! i) \<le> to_maxBytes (te_options env)"
    proof -
      have "set (i # D) \<subseteq> {0..<length parts}" "distinct (i # D)"
        using assms(2-4) False by auto
      then show ?thesis
        using known_bytes [of "i # D" parts] w(7) by (simp add: assembled_def)
    qed
    have "on_chunk env peer gid req (int i) (parts ! i) ?s = commitAssembly env (assembling peer m parts (i # D) s)"
    proof -
      let ?a = "assembled peer m parts D"
      have lookup: "map_of (as_parts ?a) (int i) = None"
        using False by (simp add: assembled_def assembled_lookup)
      have added: "?a\<lparr>as_totalBytes := as_totalBytes ?a + part_bytes (parts ! i),
          as_parts := (int i, parts ! i) # as_parts ?a\<rparr> = assembled peer m parts (i # D)"
        by (simp add: assembled_def)
      have next_state: "?s\<lparr>tg_assembly := Some (assembled peer m parts (i # D))\<rparr> = assembling peer m parts (i # D) s"
        by (simp add: assembling_def)
      show ?thesis
        unfolding on_chunk_def bind_eff_def get_eff_def Let_def then_eff_def modify_eff_def
        using guard lookup bytes part(2) copied added next_state by (simp add: lift_sum_def return_eff_def)
    qed
    then show ?thesis
      using run commit_or_wait [OF assms(1), of "i # D"] assms(2-4) False by (simp add: m_def)
  qed
qed

lemma late_chunk:
  "tg_assembly s = None \<Longrightarrow> turn_step env (Message peer (ChunkMessage gid req i p)) s = s"
  by (simp add: run_lane_def on_message_def on_chunk_def catch_eff_def bind_eff_def get_eff_def return_eff_def)

definition chunk_messages :: "ustring \<Rightarrow> ustring \<Rightarrow> ustring \<Rightarrow> TurnRecord list list \<Rightarrow> nat list \<Rightarrow> 'w turn_event list" where
  "chunk_messages peer gid req parts order =
     map (\<lambda>i. Message peer (ChunkMessage gid req (int i) (parts ! i))) order"

lemma late_chunks:
  "tg_assembly s = None \<Longrightarrow> turn_run env s (chunk_messages peer gid req parts order) = s"
  by (induction order) (simp_all add: turn_run_def chunk_messages_def late_chunk del: turn_step.simps)

lemma all_chunks:
  fixes s :: "'w turn_game"
  assumes "waiting env peer gid req log parts st s"
  defines "m \<equiv> manifest_for gid req log parts"
  shows "distinct D \<Longrightarrow> set D \<subset> {0..<length parts} \<Longrightarrow> set order \<subseteq> {0..<length parts} \<Longrightarrow>
    set D \<union> set order = {0..<length parts} \<Longrightarrow>
    turn_run env (assembling peer m parts D s) (chunk_messages peer gid req parts order) = committed (te_options env) log st s"
proof (induction order arbitrary: D)
  case (Cons i order)
  have step: "turn_run env (assembling peer m parts D s) (chunk_messages peer gid req parts (i # order)) =
      turn_run env (turn_step env (Message peer (ChunkMessage gid req (int i) (parts ! i))) (assembling peer m parts D s))
        (chunk_messages peer gid req parts order)"
    by (simp add: turn_run_def chunk_messages_def del: turn_step.simps)
  have i: "i < length parts" using Cons.prems(3) by auto
  show ?case
  proof (cases "insert i (set D) = {0..<length parts}")
    case True
    have "tg_assembly (committed (te_options env) log st s) = None"
      by (simp add: committed_def)
    then show ?thesis
      using step chunk_step [OF assms(1) Cons.prems(1,2) i] True late_chunks unfolding m_def by metis
  next
    case False
    let ?D = "if i \<in> set D then D else i # D"
    have "turn_run env (assembling peer m parts ?D s) (chunk_messages peer gid req parts order) =
        committed (te_options env) log st s"
    proof (rule Cons.IH)
      show "distinct ?D" using Cons.prems(1) by simp
      have "set ?D = insert i (set D)" by auto
      then show "set ?D \<subset> {0..<length parts}" using Cons.prems(2) i False by auto
      show "set order \<subseteq> {0..<length parts}" using Cons.prems(3) by simp
      show "set ?D \<union> set order = {0..<length parts}"
        using Cons.prems(4) \<open>set ?D = insert i (set D)\<close> by auto
    qed
    then show ?thesis
      using step chunk_step [OF assms(1) Cons.prems(1,2) i] False unfolding m_def by simp
  qed
qed auto

lemma manifest_step:
  fixes s :: "'w turn_game"
  assumes "waiting env peer gid req log parts st s" "tg_requestedFrom s = Some peer" "tg_assembly s = None"
  defines "m \<equiv> manifest_for gid req log parts"
  assumes "manifest_ok (to_maxBytes (te_options env)) m"
  shows "turn_step env (Message peer (ManifestMessage m)) s =
    (if parts = [] then committed (te_options env) log st s else assembling peer m parts [] s)"
proof -
  have w: "tg_gameId s = Some gid" "tg_requestId s = Some req" "active env s"
    using assms(1) by (simp_all add: waiting_def)
  have start: "s\<lparr>tg_assembly := Some \<lparr>as_manifest = m, as_from = peer, as_parts = [], as_totalBytes = 0\<rparr>\<rparr> =
      assembling peer m parts [] s"
    by (simp add: assembling_def assembled_def)
  have "on_manifest env peer m s = commitAssembly env (assembling peer m parts [] s)"
    using w assms(2,3,5) start
    by (simp add: on_manifest_def bind_eff_def get_eff_def then_eff_def modify_eff_def m_def manifest_for_def)
  also have "\<dots> = Some (Inr (), if parts = [] then committed (te_options env) log st s else assembling peer m parts [] s)"
    using commit_or_wait [OF assms(1), of "[]"] by (simp add: m_def)
  finally show ?thesis
    using w(3) by (simp add: run_lane_def on_message_def catch_eff_def)
qed

text \<open>
  C3: A peer that asked for the log ends with exactly the log and the state of the peer that
  answers, in whatever order the chunks arrive and however often, unfrozen if it was, provided
  its own moves are the beginning of that log and the chunks fit \<open>maxLogBytes\<close> together.
\<close>

theorem log_transfer_is_exact:
  assumes "createTurnGame env w = Inr g" "s = turn_run env g es"
    and "createTurnGame env' w' = Inr g'" "other = turn_run env' g' es'" "te_options env' = te_options env"
    and "tg_gameId s = Some gid" "tg_requestId s = Some req" "tg_requestedFrom s = Some peer" "tg_assembly s = None"
    and "tg_buffered s = []" "tg_pendingFinish s = None" "\<not> to_persist (te_options env)" "active env s"
    and "prefix (map tr_hash (tg_records s)) (map tr_hash (tg_records other))"
    and "log = map copy_record (tg_records other)" "chunks log 7000 = Inr parts"
    and "(\<Sum>p\<leftarrow>parts. part_bytes p) \<le> to_maxBytes (te_options env)"
    and "\<forall>t. is_hex_digest (to_sha (te_options env) t)"
    and "set order = {0..<length parts}"
    and "t = turn_run env s
      (Message peer (ManifestMessage (manifest_for gid req log parts)) # chunk_messages peer gid req parts order)"
  shows "tg_records t = log \<and> tg_state t = tg_state other \<and> tg_requestId t = None \<and> tg_frozen t = tg_frozen s"
proof -
  let ?opt = "te_options env" and ?m = "manifest_for gid req log parts"
  have ok: "game_ok env' g' other"
    using ok_run [OF ok_create [OF assms(3)]] assms(4) by simp
  have valid: "validate ?opt log = Inr (tg_state other)" and fits: "log_fits env' (tg_records other)"
    using ok assms(5,15) by (simp_all add: ok_defs)
  have parts: "concat parts = log" "list_all (part_fits 7000) parts" "length parts \<le> length log"
    using chunks_parts [OF assms(16)] parts_at_most [of 7000 parts] by auto
  have digest: "is_hex_digest (tr_hash (log ! i))" if "i < length log" for i
    using validate_nth [OF valid that] assms(18) by (auto simp: hashJson_def) metis
  have final: "is_hex_digest (log_hash log)"
  proof (cases "log = []")
    case True
    have "is_digit 48" by (simp add: is_digit_def)
    then show ?thesis using True by (simp add: log_hash_def zeroHash_def is_hex_digest_def list_all_iff)
  next
    case False
    then show ?thesis using digest [of "length log - 1"] by (simp add: log_hash_def last_conv_nth)
  qed
  have few: "length log \<le> to_maxBytes ?opt div 80"
  proof (cases "log = []")
    case False
    then obtain n where n: "n \<le> to_maxBytes ?opt" "log_bytes log = Inr n"
      using fits assms(5,15) by (auto simp: log_fits_def)
    have "\<forall>r\<in>set log. 64 \<le> length (tr_hash r)"
      using digest by (auto simp: in_set_conv_nth is_hex_digest_def)
    then have "80 * length log \<le> to_maxBytes ?opt"
      using log_bytes_long [OF n(2)] n(1) by simp
    then show ?thesis by simp
  qed simp
  have safe: "isSafeInteger (int k)" if "k \<le> length log" for k
  proof -
    have "isSafeInteger (int (to_maxBytes ?opt))"
      using assms(1) by (auto simp: createTurnGame_def Let_def split: if_splits)
    moreover have "k \<le> to_maxBytes ?opt"
      using that few by (meson div_le_dividend le_trans)
    ultimately show ?thesis by (simp add: isSafeInteger_def)
  qed
  have m_ok: "manifest_ok (to_maxBytes ?opt) ?m"
    using few final parts safe [of "length parts"] safe [of "length log"]
    by (auto simp: manifest_ok_def manifest_for_def)
  have "log_matches ?m (tg_records s) log"
  proof -
    have hashes: "map tr_hash log = map tr_hash (tg_records other)"
      using assms(15) by simp
    then show ?thesis
      using assms(14) prefix_length_le [OF assms(14)] map_eq_imp_length_eq [OF hashes]
      by (auto simp: log_matches_def manifest_for_def prefix_def hashes)
  qed
  moreover have "list_all (\<lambda>p. p \<noteq> [] \<and> (\<exists>n. log_bytes p = Inr n)) parts"
    using parts(2) by (auto simp: list_all_iff part_fits_def)
  moreover have "map copy_record log = log"
    using assms(15) by simp
  ultimately have wait: "waiting env peer gid req log parts (tg_state other) s"
    using assms(6,7,10-13,17) parts(1,3) valid safe by (simp add: waiting_def)
  have "t = committed ?opt log (tg_state other) s"
  proof (cases "parts = []")
    case True
    then have "order = []" using assms(19) by simp
    then show ?thesis
      using assms(20) manifest_step [OF wait assms(8,9) m_ok] True
      by (simp add: turn_run_def chunk_messages_def del: turn_step.simps)
  next
    case False
    have "t = turn_run env (assembling peer ?m parts [] s) (chunk_messages peer gid req parts order)"
      using assms(20) manifest_step [OF wait assms(8,9) m_ok] False by (simp add: turn_run_def del: turn_step.simps)
    moreover have "{} \<subset> {0..<length parts}"
      using False by (simp add: psubset_eq)
    ultimately show ?thesis
      using all_chunks [OF wait, of "[]" order] assms(19) by simp
  qed
  then show ?thesis by (simp add: committed_def)
qed

subsection \<open>A witness\<close>

text \<open>A host with one move; the guest asks for the log when it starts.\<close>

definition demoDigest :: ustring where
  "demoDigest = replicate 64 97"

definition demoTransferPeer :: "ustring \<Rightarrow> unit turn_env" where
  "demoTransferPeer me = demoPeer me
     \<lparr>te_options := demoTurnOptions\<lparr>to_sha := \<lambda>_. demoDigest\<rparr>\<rparr>"

definition demoTransferStart :: "ustring \<Rightarrow> unit turn_game" where
  "demoTransferStart me = (case createTurnGame (demoTransferPeer me) () of Inr g \<Rightarrow> g)"

definition demoOther :: "unit turn_game" where
  "demoOther = turn_run (demoTransferPeer [97]) (demoTransferStart [97]) [Initialize, Submit (JBool True)]"

lemma demo_other: "tg_records demoOther = [demoMove\<lparr>tr_hash := demoDigest\<rparr>]"
  by code_simp

definition demoAsking :: "unit turn_game" where
  "demoAsking = turn_run (demoTransferPeer [98]) (demoTransferStart [98])
     [Initialize, Message [97] (StartMessage [117] [[97], [98]] demoDigest)]"

definition demoLog :: "TurnRecord list" where
  "demoLog = [demoMove\<lparr>tr_hash := demoDigest\<rparr>]"

lemma demo_transfer_created: "createTurnGame (demoTransferPeer me) () = Inr (demoTransferStart me)"
proof -
  have "isSafeInteger 1000" by (simp add: isSafeInteger_def)
  then have "\<exists>g. createTurnGame (demoTransferPeer me) () = Inr g"
    by (simp add: createTurnGame_def demoTransferPeer_def demoPeer_def demoTurnOptions_def copyJson_def)
  then show ?thesis by (auto simp: demoTransferStart_def)
qed

lemma demo_asking:
  "tg_gameId demoAsking = Some [117]" "tg_requestId demoAsking = Some [117]" "tg_requestedFrom demoAsking = Some [97]"
  "tg_assembly demoAsking = None" "tg_buffered demoAsking = []" "tg_pendingFinish demoAsking = None"
  "tg_records demoAsking = []" "tg_disposed demoAsking = False"
  by code_simp+

lemma demo_chunks: "chunks demoLog 7000 = Inr [demoLog]" "part_bytes demoLog \<le> 1000"
  by code_simp+

theorem log_transfer_is_exact_witness:
  "tg_records (turn_run (demoTransferPeer [98]) demoAsking
     (Message [97] (ManifestMessage (manifest_for [117] [117] demoLog [demoLog])) #
      chunk_messages [97] [117] [117] [demoLog] [0, 0])) = demoLog"
proof -
  have digest: "is_hex_digest demoDigest"
    by (simp add: is_hex_digest_def demoDigest_def list_all_iff)
  have log: "demoLog = map copy_record (tg_records demoOther)"
    by (simp add: demo_other demoLog_def demoMove_def copy_record_def)
  have opt: "te_options (demoTransferPeer me) = demoTurnOptions\<lparr>to_sha := \<lambda>_. demoDigest\<rparr>" for me
    by (simp add: demoTransferPeer_def)
  have alive: "active (demoTransferPeer [98]) demoAsking"
    by (simp add: active_def demo_asking demoTransferPeer_def demoPeer_def)
  show ?thesis
    using log_transfer_is_exact [OF demo_transfer_created demoAsking_def demo_transfer_created demoOther_def _
        demo_asking(1-6) _ alive _ log demo_chunks(1) _ _ _ refl, of "[0, 0]"] digest demo_chunks(2)
    by (simp add: opt demoTurnOptions_def demo_asking)
qed

end
