(* ===== verification/Game_Save.thy ===== *)
theory Game_Save
  imports Game_Kit
begin

section \<open>Saves and the offline queue (game-kit: save.ts)\<close>

text \<open>
  The state of \<open>createSave\<close> with the runtime it listens to and the world it runs in. Calls wait on
  a lane; a task of the lane runs to its end before the next one starts, and whatever happens to
  the runtime while it awaits the service or the storage (a sign-out, another identity, the
  background, new calls) is delivered at that await, as the source's handlers would.
\<close>

subsection \<open>Values\<close>

text \<open>
  \<open>JSON.stringify\<close>, \<open>None\<close> where it throws (\<open>JOther\<close> stands for such a value here), and the value
  \<open>JSON.parse\<close> gives back: a number that is not finite is written as \<open>null\<close>.
\<close>

function (sequential) stringify :: "json \<Rightarrow> ustring option" where
  "stringify JNull = Some (ascii ''null'')"
| "stringify (JBool b) = Some (if b then ascii ''true'' else ascii ''false'')"
| "stringify (JNum t) = Some (if is_number t then t else ascii ''null'')"
| "stringify (JStr s) = Some (json_string s)"
| "stringify (JArr vs) = map_option array_text (all_of (map stringify vs))"
| "stringify (JObj kvs) =
     map_option object_text
       (all_of (map (\<lambda>e. map_option (\<lambda>v. json_string (fst e) @ 58 # v) (stringify (snd e))) kvs))"
| "stringify JOther = None"
  by pat_completeness auto
termination
  by (relation "measure size") (auto dest: entry_size simp: less_Suc_eq_le size_list_estimation')

fun reparsed :: "json \<Rightarrow> json" where
  "reparsed (JNum t) = (if is_number t then JNum t else JNull)"
| "reparsed (JArr vs) = JArr (map reparsed vs)"
| "reparsed (JObj kvs) = JObj (map (\<lambda>e. (fst e, reparsed (snd e))) kvs)"
| "reparsed v = v"

definition clone :: "json option \<Rightarrow> nat option \<Rightarrow> thrown + json" where
  "clone value limit =
     (case value of
        None \<Rightarrow> Inl TypeError
      | Some v \<Rightarrow>
          (case stringify v of
             None \<Rightarrow> Inl TypeError
           | Some t \<Rightarrow>
               (if (case limit of None \<Rightarrow> False | Some n \<Rightarrow> n < byteLength t) then Inl RangeError
                else Inr (reparsed v))))"

subsection \<open>The state\<close>

datatype write_kind = StoreWrite | RemoveWrite

record QueuedWrite =
  qw_id :: ustring
  qw_name :: ustring
  qw_kind :: write_kind
  qw_value :: "json option"
  qw_expectedVersion :: "int option"
  qw_ttl :: "int option"

text \<open>A merge of the local and the remote value; it may throw, and \<open>None\<close> is \<open>undefined\<close>.\<close>

type_synonym merge_policy = "json option \<Rightarrow> json option \<Rightarrow> thrown + json option"

record save_options =
  so_merge :: "merge_policy option"
  so_ttl :: "int option"

record cached =
  ca_value :: "json option"
  ca_version :: "int option"

datatype save_task =
  LoadTask ustring
| StoreTask ustring "json option" save_options
| UpdateTask ustring "json option \<Rightarrow> thrown + json option" save_options
| RemoveTask ustring
| AddTask ustring int "int option" "int option"
| ClaimTask ustring int
| FlushTask

datatype save_result = Loaded "json option" | Counted int | Claimed bool | Finished

text \<open>What may happen while a task awaits something.\<close>

datatype outside =
  SignOut
| NewIdentity ustring
| BumpGeneration
| Foreground bool
| Dispose
| Call save_task

datatype condition = IfNoneMatch | IfMatch int

text \<open>
  The service, for the identity the client was made for, the storage of the queue, the random
  identifiers, and what the world delivers. \<open>sv_load\<close> gives \<open>None\<close> for what is no array and a
  \<open>None\<close> inside for an element that is no queued write.
\<close>

record 'w save_env =
  sv_channelId :: ustring
  sv_url :: "ustring option"
  sv_collection :: "ustring option"
  sv_adapter :: bool
  sv_mergePolicies :: "ustring \<Rightarrow> merge_policy option"
  sv_maxMergeRetries :: nat
  sv_getEntry :: "ustring \<Rightarrow> ustring \<Rightarrow> (thrown, (json \<times> int) option, 'w) eff"
  sv_put :: "ustring \<Rightarrow> ustring \<Rightarrow> json \<Rightarrow> condition \<Rightarrow> int option \<Rightarrow> (thrown, int option, 'w) eff"
  sv_delete :: "ustring \<Rightarrow> ustring \<Rightarrow> int \<Rightarrow> (thrown, unit, 'w) eff"
  sv_incr :: "ustring \<Rightarrow> ustring \<Rightarrow> int \<Rightarrow> int option \<Rightarrow> int option \<Rightarrow> (thrown, int, 'w) eff"
  sv_load :: "ustring \<Rightarrow> (thrown, QueuedWrite option list option, 'w) eff"
  sv_store :: "ustring \<Rightarrow> QueuedWrite list \<Rightarrow> (thrown, unit, 'w) eff"
  sv_uuid :: "'w \<Rightarrow> ustring \<times> 'w"
  sv_outside :: "'w \<Rightarrow> outside list \<times> 'w"

text \<open>
  \<open>sa_item\<close> is the write object the running task applies, which during a flush is the head of the
  queue; \<open>sa_lane\<close> holds the calls with the generation they were made in.
\<close>

record 'w save =
  sa_cache :: "ustring \<Rightarrow> cached option"
  sa_inlineMerges :: "ustring \<Rightarrow> merge_policy option"
  sa_writes :: "QueuedWrite list"
  sa_namespace :: "ustring option"
  sa_operationGeneration :: "nat option"
  sa_item :: "QueuedWrite option"
  sa_lane :: "(nat \<times> save_task) list"
  sa_runtime :: Runtime
  sa_world :: 'w

type_synonym ('a, 'w) save_eff = "(thrown, 'a, 'w save) eff"

definition createSave :: "int option \<Rightarrow> Runtime \<Rightarrow> 'w \<Rightarrow> thrown + (nat \<times> 'w save)" where
  "createSave maxMergeRetries rt w =
     (let retries = case maxMergeRetries of None \<Rightarrow> 3 | Some n \<Rightarrow> n in
      if retries < 0 \<or> 2 ^ 53 \<le> retries then Inl RangeError
      else Inr (nat retries,
        \<lparr>sa_cache = (\<lambda>_. None), sa_inlineMerges = (\<lambda>_. None), sa_writes = [], sa_namespace = None,
         sa_operationGeneration = None, sa_item = None, sa_lane = [], sa_runtime = rt, sa_world = w\<rparr>))"

definition save_error :: "KitErrorCode \<Rightarrow> thrown" where
  "save_error c = KitError ''save'' c"

subsection \<open>The lane and the events of the runtime\<close>

definition enlane :: "save_task \<Rightarrow> 'w save \<Rightarrow> 'w save" where
  "enlane t s = s\<lparr>sa_lane := sa_lane s @ [(rt_generation (sa_runtime s), t)]\<rparr>"

text \<open>The handlers of \<open>change\<close> and \<open>stop\<close>, of \<open>dispose\<close> and of \<open>foreground\<close>.\<close>

definition forget :: "'w save \<Rightarrow> 'w save" where
  "forget s = s\<lparr>sa_cache := (\<lambda>_. None), sa_writes := [], sa_namespace := None, sa_inlineMerges := (\<lambda>_. None)\<rparr>"

definition forget_disposed :: "'w save \<Rightarrow> 'w save" where
  "forget_disposed s = s\<lparr>sa_cache := (\<lambda>_. None), sa_writes := [], sa_inlineMerges := (\<lambda>_. None)\<rparr>"

definition on_foreground :: "'w save \<Rightarrow> 'w save" where
  "on_foreground s =
     (if rt_foreground (sa_runtime s) \<and> rt_identity (sa_runtime s) \<noteq> None then enlane FlushTask s else s)"

definition sign_out :: "'w save \<Rightarrow> 'w save" where
  "sign_out s = forget (s\<lparr>sa_runtime := rt_stop (sa_runtime s)\<rparr>)"

definition set_foreground :: "bool \<Rightarrow> 'w save \<Rightarrow> 'w save" where
  "set_foreground b s =
     (if rt_disposed (sa_runtime s) \<or> rt_foreground (sa_runtime s) = b then s
      else on_foreground (s\<lparr>sa_runtime := (sa_runtime s)\<lparr>rt_foreground := b\<rparr>\<rparr>))"

definition rt_dispose :: "Runtime \<Rightarrow> Runtime" where
  "rt_dispose r = r\<lparr>rt_disposed := True, rt_generation := Suc (rt_generation r), rt_identity := None\<rparr>"

text \<open>
  A new identity is refused after \<open>dispose\<close>, which also takes the handlers away.
\<close>

definition deliver :: "outside \<Rightarrow> 'w save \<Rightarrow> 'w save" where
  "deliver ev s =
     (case ev of
        SignOut \<Rightarrow>
          (if rt_disposed (sa_runtime s) then s\<lparr>sa_runtime := rt_stop (sa_runtime s)\<rparr> else sign_out s)
      | NewIdentity u \<Rightarrow>
          (if rt_disposed (sa_runtime s) then s
           else forget (s\<lparr>sa_runtime := rt_change ((sa_runtime s)\<lparr>rt_identity := Some u\<rparr>)\<rparr>))
      | BumpGeneration \<Rightarrow>
          (if rt_identity (sa_runtime s) = None then s\<lparr>sa_runtime := rt_change (sa_runtime s)\<rparr> else s)
      | Foreground b \<Rightarrow> set_foreground b s
      | Dispose \<Rightarrow>
          (if rt_disposed (sa_runtime s) then s
           else forget_disposed (s\<lparr>sa_runtime := rt_dispose (sa_runtime s)\<rparr>))
      | Call t \<Rightarrow> enlane t s)"

definition settle :: "'w save_env \<Rightarrow> 'w save \<Rightarrow> 'w save" where
  "settle env s =
     (let (evs, w) = sv_outside env (sa_world s) in fold deliver evs (s\<lparr>sa_world := w\<rparr>))"

text \<open>\<open>await\<close> of an operation of the world.\<close>

definition await :: "'w save_env \<Rightarrow> (thrown, 'a, 'w) eff \<Rightarrow> ('a, 'w) save_eff" where
  "await env m s =
     (case m (sa_world s) of None \<Rightarrow> None | Some (r, w) \<Rightarrow> Some (r, settle env (s\<lparr>sa_world := w\<rparr>)))"

definition guardOperation :: "(unit, 'w) save_eff" where
  "guardOperation =
     bind_eff (get_eff (\<lambda>s. sa_operationGeneration s \<noteq> Some (rt_generation (sa_runtime s)))) (\<lambda>stale.
       if stale then throw_eff (save_error SignedOut) else return_eff ())"

text \<open>\<open>if (generation !== runtime.generation) throw ...\<close>\<close>

definition guard_generation :: "nat \<Rightarrow> (unit, 'w) save_eff" where
  "guard_generation generation =
     bind_eff (get_eff (\<lambda>s. generation \<noteq> rt_generation (sa_runtime s))) (\<lambda>stale.
       if stale then throw_eff (save_error SignedOut) else return_eff ())"

definition serial :: "nat \<Rightarrow> ('a, 'w) save_eff \<Rightarrow> ('a, 'w) save_eff" where
  "serial generation action =
     then_eff (guard_generation generation)
    (then_eff (modify_eff (\<lambda>s. s\<lparr>sa_operationGeneration := Some generation\<rparr>))
       (finally_eff
          (bind_eff action (\<lambda>result. then_eff guardOperation (return_eff result)))
          (modify_eff (\<lambda>s. s\<lparr>sa_operationGeneration := None\<rparr>))))"

text \<open>\<open>runtime.run\<close> and \<open>runtime.kv\<close>, which gives the identity the client speaks for.\<close>

definition run_save :: "('a, 'w) save_eff \<Rightarrow> ('a, 'w) save_eff" where
  "run_save = runtime_run sa_runtime sign_out ''save''"

definition runtime_kv :: "'w save_env \<Rightarrow> (ustring, 'w) save_eff" where
  "runtime_kv env =
     (if sv_collection env \<in> {None, Some []} \<or> sv_url env \<in> {None, Some []} then throw_eff (save_error NotConfigured)
      else
        bind_eff (get_eff sa_runtime) (\<lambda>rt.
          case rt_identity rt of
            None \<Rightarrow> throw_eff (save_error SignedOut)
          | Some u \<Rightarrow> if rt_disposed rt then throw_eff (save_error SignedOut) else return_eff u))"

definition lift_clone :: "thrown + 'a \<Rightarrow> ('a, 'w) save_eff" where
  "lift_clone r = (case r of Inl e \<Rightarrow> throw_eff e | Inr a \<Rightarrow> return_eff a)"

subsection \<open>Reading and the queue\<close>

definition identityKey :: "'w save_env \<Rightarrow> ustring \<Rightarrow> ustring" where
  "identityKey env u =
     array_text (map json_string
       [sv_channelId env, the (sv_url env), the (sv_collection env), u])"

definition hydrate :: "'w save_env \<Rightarrow> (unit, 'w) save_eff" where
  "hydrate env =
     then_eff guardOperation
       (if \<not> sv_adapter env then return_eff ()
        else
          bind_eff (runtime_kv env) (\<lambda>u.
          bind_eff (get_eff sa_namespace) (\<lambda>ns.
            if ns = Some (identityKey env u) then return_eff ()
            else
              bind_eff (get_eff (\<lambda>s. rt_generation (sa_runtime s))) (\<lambda>generation.
              bind_eff
                (catch_eff (await env (sv_load env (identityKey env u)))
                   (\<lambda>e. throw_eff (save_error Unavailable))) (\<lambda>loaded.
              then_eff (guard_generation generation)
                (case loaded of
                   None \<Rightarrow> throw_eff (save_error InvalidState)
                 | Some rows \<Rightarrow>
                     (case all_of rows of
                        None \<Rightarrow> throw_eff (save_error InvalidState)
                      | Some queued \<Rightarrow>
                          modify_eff (\<lambda>s. s\<lparr>sa_namespace := Some (identityKey env u), sa_writes := queued\<rparr>))))))))"

definition overlay :: "ustring \<Rightarrow> 'w save \<Rightarrow> QueuedWrite option" where
  "overlay name s = find (\<lambda>w. qw_name w = name) (rev (sa_writes s))"

definition cache_set :: "ustring \<Rightarrow> cached \<Rightarrow> (unit, 'w) save_eff" where
  "cache_set name c = modify_eff (\<lambda>s. s\<lparr>sa_cache := (sa_cache s)(name \<mapsto> c)\<rparr>)"

definition no_value :: cached where
  "no_value = \<lparr>ca_value = None, ca_version = None\<rparr>"

definition entry_cached :: "(json \<times> int) option \<Rightarrow> cached" where
  "entry_cached entry = \<lparr>ca_value = map_option fst entry, ca_version = map_option snd entry\<rparr>"

text \<open>The value of a row or of a staged write as the caller gets it.\<close>

definition staged_value :: "QueuedWrite \<Rightarrow> (json option, 'w) save_eff" where
  "staged_value w =
     (case qw_kind w of
        RemoveWrite \<Rightarrow> return_eff None
      | StoreWrite \<Rightarrow> bind_eff (lift_clone (clone (qw_value w) None)) (\<lambda>v. return_eff (Some v)))"

definition fetch_entry :: "'w save_env \<Rightarrow> ustring \<Rightarrow> (json option, 'w) save_eff" where
  "fetch_entry env name =
     bind_eff (run_save (bind_eff (runtime_kv env) (\<lambda>u. await env (sv_getEntry env u name)))) (\<lambda>entry.
     then_eff guardOperation
    (then_eff (cache_set name (entry_cached entry))
       (case entry of
          None \<Rightarrow> return_eff None
        | Some (v, n) \<Rightarrow> bind_eff (lift_clone (clone (Some v) None)) (\<lambda>c. return_eff (Some c)))))"

definition cached_value :: "'w save_env \<Rightarrow> ustring \<Rightarrow> thrown \<Rightarrow> (json option, 'w) save_eff" where
  "cached_value env name e =
     then_eff guardOperation
       (bind_eff (get_eff (\<lambda>s. sa_cache s name)) (\<lambda>c.
          case c of
            None \<Rightarrow> throw_eff e
          | Some c \<Rightarrow>
              if sv_adapter env \<and> code_of e = Some Unavailable then return_eff (ca_value c) else throw_eff e))"

definition save_read :: "'w save_env \<Rightarrow> ustring \<Rightarrow> (json option, 'w) save_eff" where
  "save_read env name =
     then_eff (bind_eff (runtime_kv env) (\<lambda>u. return_eff ()))
    (then_eff (hydrate env)
    (then_eff guardOperation
       (bind_eff (get_eff (overlay name)) (\<lambda>staged.
          case staged of
            Some w \<Rightarrow> staged_value w
          | None \<Rightarrow> catch_eff (fetch_entry env name) (cached_value env name)))))"

text \<open>
  \<open>clone(next)\<close> of a queue: a value that is no JSON makes it throw, and the storage gets the
  values as they are read back.
\<close>

definition clone_write :: "QueuedWrite \<Rightarrow> QueuedWrite option" where
  "clone_write w =
     (case qw_value w of
        None \<Rightarrow> Some w
      | Some v \<Rightarrow> if stringify v = None then None else Some (w\<lparr>qw_value := Some (reparsed v)\<rparr>))"

definition store_queue :: "'w save_env \<Rightarrow> ustring \<Rightarrow> QueuedWrite list \<Rightarrow> (unit, 'w) save_eff" where
  "store_queue env key queue =
     catch_eff
       (case all_of (map clone_write queue) of
          None \<Rightarrow> throw_eff TypeError
        | Some copies \<Rightarrow> await env (sv_store env key copies))
       (\<lambda>e. throw_eff (save_error Unavailable))"

definition persistQueue :: "'w save_env \<Rightarrow> ('w save \<Rightarrow> QueuedWrite list) \<Rightarrow> (unit, 'w) save_eff" where
  "persistQueue env mk =
     bind_eff (get_eff mk) (\<lambda>queue.
     then_eff guardOperation
       (bind_eff (get_eff (\<lambda>s. (rt_generation (sa_runtime s), the (sa_namespace s)))) (\<lambda>(generation, key).
          then_eff (store_queue env key queue)
         (then_eff (guard_generation generation)
            (modify_eff (\<lambda>s. s\<lparr>sa_writes := queue\<rparr>))))))"

definition enqueue_write :: "'w save_env \<Rightarrow> merge_policy option \<Rightarrow> (unit, 'w) save_eff" where
  "enqueue_write env merge =
     bind_eff (get_eff (\<lambda>s. the (sa_item s))) (\<lambda>item.
     then_eff (persistQueue env (\<lambda>s. sa_writes s @ [item]))
       (case merge of
          None \<Rightarrow> return_eff ()
        | Some f \<Rightarrow> modify_eff (\<lambda>s. s\<lparr>sa_inlineMerges := (sa_inlineMerges s)(qw_id item \<mapsto> f)\<rparr>)))"

subsection \<open>Applying a write\<close>

definition isKvConflict :: "thrown \<Rightarrow> bool" where
  "isKvConflict e = (case e of ServiceError se \<Rightarrow> se_status se = Some 409 | _ \<Rightarrow> False)"

text \<open>One attempt, with the identity the client was made for.\<close>

definition attempt ::
  "'w save_env \<Rightarrow> ustring \<Rightarrow> nat \<Rightarrow> QueuedWrite \<Rightarrow> (unit, 'w) save_eff" where
  "attempt env u generation w =
     (case qw_kind w of
        RemoveWrite \<Rightarrow>
          then_eff
            (case qw_expectedVersion w of
               Some n \<Rightarrow> await env (sv_delete env u (qw_name w) n)
             | None \<Rightarrow>
                 bind_eff (await env (sv_getEntry env u (qw_name w))) (\<lambda>row.
                   if row \<noteq> None then throw_eff (save_error Conflict) else return_eff ()))
         (then_eff (guard_generation generation) (cache_set (qw_name w) no_value))
      | StoreWrite \<Rightarrow>
          (case qw_value w of
             None \<Rightarrow> throw_eff TypeError
           | Some v \<Rightarrow>
               bind_eff
                 (await env (sv_put env u (qw_name w) v
                   (case qw_expectedVersion w of None \<Rightarrow> IfNoneMatch | Some n \<Rightarrow> IfMatch n) (qw_ttl w)))
                 (\<lambda>version.
               then_eff (guard_generation generation)
                 (bind_eff (lift_clone (clone (Some v) None)) (\<lambda>c.
                   cache_set (qw_name w) \<lparr>ca_value = Some c, ca_version = version\<rparr>)))))"

text \<open>
  The write with a merged value and the version it was merged with. In a flush the write is the
  head of the queue, so the queue changes with it.
\<close>

definition merged_write :: "QueuedWrite \<Rightarrow> json \<Rightarrow> (json \<times> int) option \<Rightarrow> QueuedWrite" where
  "merged_write w value remote = w\<lparr>qw_value := Some value, qw_expectedVersion := map_option snd remote\<rparr>"

definition set_item :: "bool \<Rightarrow> QueuedWrite \<Rightarrow> 'w save \<Rightarrow> 'w save" where
  "set_item recover w s =
     s\<lparr>sa_item := Some w, sa_writes := (if recover then w # tl (sa_writes s) else sa_writes s)\<rparr>"

text \<open>\<open>clone(await merge(value, remote?.value))\<close>\<close>

definition merge_value ::
  "'w save_env \<Rightarrow> merge_policy \<Rightarrow> json option \<Rightarrow> (json \<times> int) option \<Rightarrow> (json, 'w) save_eff" where
  "merge_value env f value remote =
     bind_eff (await env (\<lambda>w. Some (f value (map_option fst remote), w))) (\<lambda>merged.
       lift_clone (clone merged None))"

definition remerge ::
  "'w save_env \<Rightarrow> ustring \<Rightarrow> nat \<Rightarrow> merge_policy \<Rightarrow> bool \<Rightarrow> QueuedWrite \<Rightarrow> (QueuedWrite, 'w) save_eff" where
  "remerge env u generation f recover w =
     bind_eff (await env (sv_getEntry env u (qw_name w))) (\<lambda>remote.
     then_eff (guard_generation generation)
       (bind_eff (merge_value env f (qw_value w) remote) (\<lambda>value.
        then_eff (guard_generation generation)
       (then_eff (modify_eff (set_item recover (merged_write w value remote)))
       (then_eff (if recover then persistQueue env sa_writes else return_eff ())
          (return_eff (merged_write w value remote)))))))"

text \<open>The loop; \<open>left\<close> is \<open>retries - attempt\<close>.\<close>

fun apply_loop ::
  "'w save_env \<Rightarrow> ustring \<Rightarrow> nat \<Rightarrow> merge_policy option \<Rightarrow> bool \<Rightarrow> nat \<Rightarrow> QueuedWrite \<Rightarrow> (unit, 'w) save_eff" where
  "apply_loop env u generation merge recover 0 w =
     then_eff (guard_generation generation) (attempt env u generation w)"
| "apply_loop env u generation merge recover (Suc left) w =
     then_eff (guard_generation generation)
       (catch_eff (attempt env u generation w)
          (\<lambda>e.
            case merge of
              None \<Rightarrow> throw_eff e
            | Some f \<Rightarrow>
                if \<not> isKvConflict e \<or> qw_kind w = RemoveWrite then throw_eff e
                else
                  bind_eff (remerge env u generation f recover w)
                    (apply_loop env u generation merge recover left)))"

text \<open>What is already done when a queued write is tried again.\<close>

definition already_applied :: "QueuedWrite \<Rightarrow> (json \<times> int) option \<Rightarrow> cached option" where
  "already_applied w remote =
     (case remote of
        None \<Rightarrow> if qw_kind w = RemoveWrite then Some no_value else None
      | Some (v, n) \<Rightarrow>
          if qw_kind w = StoreWrite \<and> (case qw_expectedVersion w of None \<Rightarrow> 0 | Some m \<Rightarrow> m) < n \<and>
             stringify v = Option.bind (qw_value w) stringify
          then Some \<lparr>ca_value = Some (reparsed v), ca_version = Some n\<rparr> else None)"

definition save_apply :: "'w save_env \<Rightarrow> merge_policy option \<Rightarrow> bool \<Rightarrow> (unit, 'w) save_eff" where
  "save_apply env merge recover =
     then_eff guardOperation
       (bind_eff (get_eff (\<lambda>s. (rt_generation (sa_runtime s), the (sa_item s)))) (\<lambda>(generation, w).
        bind_eff (runtime_kv env) (\<lambda>u.
          if recover then
            bind_eff (await env (sv_getEntry env u (qw_name w))) (\<lambda>remote.
            then_eff guardOperation
              (case already_applied w remote of
                 Some c \<Rightarrow> cache_set (qw_name w) c
               | None \<Rightarrow> apply_loop env u generation merge recover (sv_maxMergeRetries env) w))
          else apply_loop env u generation merge recover (sv_maxMergeRetries env) w)))"

subsection \<open>Writing and flushing\<close>

definition expected_version :: "ustring \<Rightarrow> 'w save \<Rightarrow> int option" where
  "expected_version name s =
     (case overlay name s of
        Some previous \<Rightarrow>
          (case qw_kind previous of
             RemoveWrite \<Rightarrow> None
           | StoreWrite \<Rightarrow> Some ((case qw_expectedVersion previous of None \<Rightarrow> 0 | Some n \<Rightarrow> n) + 1))
      | None \<Rightarrow> Option.bind (sa_cache s name) ca_version)"

definition kvMaxValueBytes :: nat where
  "kvMaxValueBytes = 16 * 1024"

definition choose_id :: "'w save_env \<Rightarrow> (ustring, 'w) save_eff" where
  "choose_id env s = (let (u, w) = sv_uuid env (sa_world s) in Some (Inr u, s\<lparr>sa_world := w\<rparr>))"

definition make_item ::
  "'w save_env \<Rightarrow> ustring \<Rightarrow> write_kind \<Rightarrow> json option \<Rightarrow> save_options \<Rightarrow> (unit, 'w) save_eff" where
  "make_item env name kind value opts =
     bind_eff (get_eff (expected_version name)) (\<lambda>expected.
     bind_eff (choose_id env) (\<lambda>i.
     bind_eff
       (case kind of
          RemoveWrite \<Rightarrow> return_eff None
        | StoreWrite \<Rightarrow> bind_eff (lift_clone (clone value (Some kvMaxValueBytes))) (\<lambda>v. return_eff (Some v)))
       (\<lambda>v. modify_eff (\<lambda>s. s\<lparr>sa_item :=
          Some \<lparr>qw_id = i, qw_name = name, qw_kind = kind, qw_value = v, qw_expectedVersion = expected,
            qw_ttl = so_ttl opts\<rparr>\<rparr>))))"

definition policy :: "'w save_env \<Rightarrow> merge_policy option \<Rightarrow> ustring \<Rightarrow> merge_policy option" where
  "policy env inline name = (case inline of Some f \<Rightarrow> Some f | None \<Rightarrow> sv_mergePolicies env name)"

definition send_item :: "'w save_env \<Rightarrow> ustring \<Rightarrow> save_options \<Rightarrow> (unit, 'w) save_eff" where
  "send_item env name opts =
     bind_eff (get_eff (\<lambda>s. sv_adapter env \<and> sa_writes s \<noteq> [])) (\<lambda>pending.
       if pending then enqueue_write env (so_merge opts)
       else
         catch_eff (run_save (save_apply env (policy env (so_merge opts) name) False))
           (\<lambda>e. if sv_adapter env \<and> code_of e = Some Unavailable then enqueue_write env (so_merge opts) else throw_eff e))"

definition save_write ::
  "'w save_env \<Rightarrow> ustring \<Rightarrow> write_kind \<Rightarrow> json option \<Rightarrow> save_options \<Rightarrow> (unit, 'w) save_eff" where
  "save_write env name kind value opts =
     then_eff (hydrate env)
    (then_eff guardOperation
    (then_eff
       (bind_eff (get_eff (\<lambda>s. sa_cache s name = None \<and> overlay name s = None)) (\<lambda>unknown.
          if unknown then bind_eff (save_read env name) (\<lambda>v. return_eff ()) else return_eff ()))
    (then_eff guardOperation
    (then_eff (make_item env name kind value opts)
       (send_item env name opts)))))"

text \<open>
  The queue after its head was applied: the next write to the same name is based on the revision
  that was committed.
\<close>

fun rebase :: "ustring \<Rightarrow> int option \<Rightarrow> QueuedWrite list \<Rightarrow> QueuedWrite list" where
  "rebase name version [] = []"
| "rebase name version (w # ws) =
     (if qw_name w = name then w\<lparr>qw_expectedVersion := version\<rparr> # ws else w # rebase name version ws)"

definition rest_of_queue :: "ustring \<Rightarrow> 'w save \<Rightarrow> QueuedWrite list" where
  "rest_of_queue name s = rebase name (Option.bind (sa_cache s name) ca_version) (tl (sa_writes s))"

definition flush_head :: "'w save_env \<Rightarrow> (unit, 'w) save_eff" where
  "flush_head env =
     bind_eff (get_eff (\<lambda>s. hd (sa_writes s))) (\<lambda>item.
     then_eff (modify_eff (\<lambda>s. s\<lparr>sa_item := Some item\<rparr>))
       (bind_eff (get_eff (\<lambda>s. policy env (sa_inlineMerges s (qw_id item)) (qw_name item))) (\<lambda>merge.
        then_eff (run_save (save_apply env merge True))
       (then_eff (persistQueue env (rest_of_queue (qw_name item)))
          (modify_eff (\<lambda>s. s\<lparr>sa_inlineMerges := (sa_inlineMerges s)(qw_id item := None)\<rparr>))))))"

definition may_flush :: "'w save \<Rightarrow> bool" where
  "may_flush s \<longleftrightarrow> sa_writes s \<noteq> [] \<and> rt_foreground (sa_runtime s) \<and> rt_identity (sa_runtime s) \<noteq> None \<and>
     \<not> rt_disposed (sa_runtime s)"

fun flush_loop :: "nat \<Rightarrow> 'w save_env \<Rightarrow> (unit, 'w) save_eff" where
  "flush_loop 0 env = (\<lambda>s. None)"
| "flush_loop (Suc n) env =
     bind_eff (get_eff may_flush) (\<lambda>more.
       if more then then_eff (flush_head env) (flush_loop n env) else return_eff ())"

text \<open>Every round takes one write off the queue, so one more round than writes is enough.\<close>

definition save_flush :: "'w save_env \<Rightarrow> (unit, 'w) save_eff" where
  "save_flush env =
     bind_eff (get_eff (\<lambda>s. rt_foreground (sa_runtime s))) (\<lambda>foreground.
       if \<not> sv_adapter env \<or> \<not> foreground then return_eff ()
       else
         then_eff (hydrate env)
        (then_eff guardOperation
           (bind_eff (get_eff (\<lambda>s. length (sa_writes s))) (\<lambda>n. flush_loop (Suc n) env))))"

subsection \<open>The calls\<close>

definition no_options :: save_options where
  "no_options = \<lparr>so_merge = None, so_ttl = None\<rparr>"

definition save_update ::
  "'w save_env \<Rightarrow> ustring \<Rightarrow> (json option \<Rightarrow> thrown + json option) \<Rightarrow> save_options \<Rightarrow> (unit, 'w) save_eff" where
  "save_update env name f opts =
     bind_eff (save_read env name) (\<lambda>value.
     bind_eff (lift_clone (f value)) (\<lambda>updated.
       save_write env name StoreWrite updated opts))"

definition save_add ::
  "'w save_env \<Rightarrow> ustring \<Rightarrow> int \<Rightarrow> int option \<Rightarrow> int option \<Rightarrow> (int, 'w) save_eff" where
  "save_add env name delta low high =
     run_save (bind_eff (runtime_kv env) (\<lambda>u. await env (sv_incr env u name delta low high)))"

text \<open>A lost claim is a conflict the service gives no reason for.\<close>

definition lost_claim :: "thrown \<Rightarrow> bool" where
  "lost_claim e \<longleftrightarrow> isKvConflict e \<and> (case e of ServiceError se \<Rightarrow> se_reason se = None | _ \<Rightarrow> True)"

definition claimOnce :: "'w save_env \<Rightarrow> ustring \<Rightarrow> int \<Rightarrow> (bool, 'w) save_eff" where
  "claimOnce env name ttl =
     run_save
       (catch_eff
          (bind_eff (runtime_kv env) (\<lambda>u.
           then_eff
             (bind_eff (await env (sv_put env u name (JBool True) IfNoneMatch (Some ttl))) (\<lambda>v. return_eff ()))
             (return_eff True)))
          (\<lambda>e. if lost_claim e then return_eff False else throw_eff e))"

definition run_task :: "'w save_env \<Rightarrow> save_task \<Rightarrow> (save_result, 'w) save_eff" where
  "run_task env t =
     (case t of
        LoadTask name \<Rightarrow> bind_eff (save_read env name) (\<lambda>v. return_eff (Loaded v))
      | StoreTask name value opts \<Rightarrow> then_eff (save_write env name StoreWrite value opts) (return_eff Finished)
      | UpdateTask name f opts \<Rightarrow> then_eff (save_update env name f opts) (return_eff Finished)
      | RemoveTask name \<Rightarrow> then_eff (save_write env name RemoveWrite None no_options) (return_eff Finished)
      | AddTask name delta low high \<Rightarrow> bind_eff (save_add env name delta low high) (\<lambda>n. return_eff (Counted n))
      | ClaimTask name ttl \<Rightarrow> bind_eff (claimOnce env name ttl) (\<lambda>b. return_eff (Claimed b))
      | FlushTask \<Rightarrow> then_eff (save_flush env) (return_eff Finished))"

text \<open>The head of the lane runs to its end, whatever its outcome.\<close>

definition lane_task :: "'w save_env \<Rightarrow> (save_result option, 'w) save_eff" where
  "lane_task env s =
     (case sa_lane s of
        [] \<Rightarrow> Some (Inr None, s)
      | (generation, t) # rest \<Rightarrow>
          bind_eff (serial generation (run_task env t)) (\<lambda>r. return_eff (Some r)) (s\<lparr>sa_lane := rest\<rparr>))"

definition pendingCount :: "'w save \<Rightarrow> nat" where
  "pendingCount s = length (sa_writes s)"

end
