(* ===== verification/Game_Save_Safety.thy ===== *)
theory Game_Save_Safety
  imports Game_Save
begin

section \<open>What a save overwrites\<close>

text \<open>
  Over a service that honours the conditions of a write, whatever other clients write in between:
  each write of a save replaces the entry it was based on or merged with, the queue goes out in
  its order, a flush ends, and the queue belongs to the identity that is signed in.
\<close>

subsection \<open>The service\<close>

text \<open>
  \<open>log\<close> lists what took effect of this client's writes, each with its owner, its key, the entry it
  replaced and the new value, \<open>None\<close> for a deletion; the client may not hear of it. \<open>hist\<close> is the
  value each version of a key has had. Other clients may write at any time.
\<close>

type_synonym logged = "ustring \<times> ustring \<times> (json \<times> int) option \<times> json option"

definition grows :: "('w \<Rightarrow> logged list) \<Rightarrow> ('w \<Rightarrow> ustring \<Rightarrow> ustring \<Rightarrow> int \<Rightarrow> json option) \<Rightarrow> 'w \<Rightarrow> 'w \<Rightarrow> bool" where
  "grows log hist w w' \<longleftrightarrow>
     (\<exists>new. log w' = log w @ new) \<and> (\<forall>u k n v. hist w u k n = Some v \<longrightarrow> hist w' u k n = Some v)"

definition quiet :: "('w \<Rightarrow> logged list) \<Rightarrow> ('w \<Rightarrow> ustring \<Rightarrow> ustring \<Rightarrow> int \<Rightarrow> json option) \<Rightarrow> 'w \<Rightarrow> 'w \<Rightarrow> bool" where
  "quiet log hist w w' \<longleftrightarrow>
     log w' = log w \<and> (\<forall>u k n v. hist w u k n = Some v \<longrightarrow> hist w' u k n = Some v)"

definition replaced_version :: "(json \<times> int) option \<Rightarrow> int option" where
  "replaced_version old = map_option snd old"

definition condition_met :: "condition \<Rightarrow> (json \<times> int) option \<Rightarrow> bool" where
  "condition_met c old \<longleftrightarrow> replaced_version old = (case c of IfNoneMatch \<Rightarrow> None | IfMatch n \<Rightarrow> Some n)"

definition recorded ::
  "('w \<Rightarrow> logged list) \<Rightarrow> ('w \<Rightarrow> ustring \<Rightarrow> ustring \<Rightarrow> int \<Rightarrow> json option) \<Rightarrow> ustring \<Rightarrow> ustring \<Rightarrow> condition \<Rightarrow>
   json option \<Rightarrow> 'w \<Rightarrow> 'w \<Rightarrow> bool" where
  "recorded log hist u k c v w w' \<longleftrightarrow>
     (\<forall>u k n v. hist w u k n = Some v \<longrightarrow> hist w' u k n = Some v) \<and>
     (log w' = log w \<or>
      (\<exists>old. log w' = log w @ [(u, k, old, v)] \<and> condition_met c old \<and>
         (\<forall>o' n. old = Some (o', n) \<longrightarrow> hist w' u k n = Some o')))"

definition kv_laws ::
  "'w save_env \<Rightarrow> ('w \<Rightarrow> logged list) \<Rightarrow> ('w \<Rightarrow> ustring \<Rightarrow> ustring \<Rightarrow> int \<Rightarrow> json option) \<Rightarrow> bool" where
  "kv_laws env log hist \<longleftrightarrow>
     (\<forall>u k w r w'. sv_getEntry env u k w = Some (r, w') \<longrightarrow>
        quiet log hist w w' \<and> (\<forall>v n. r = Inr (Some (v, n)) \<longrightarrow> hist w' u k n = Some v)) \<and>
     (\<forall>u k v c ttl w r w'. sv_put env u k v c ttl w = Some (r, w') \<longrightarrow> recorded log hist u k c (Some v) w w') \<and>
     (\<forall>u k n w r w'. sv_delete env u k n w = Some (r, w') \<longrightarrow> recorded log hist u k (IfMatch n) None w w') \<and>
     (\<forall>ns w r w'. sv_load env ns w = Some (r, w') \<longrightarrow> quiet log hist w w') \<and>
     (\<forall>ns q w r w'. sv_store env ns q w = Some (r, w') \<longrightarrow> quiet log hist w w') \<and>
     (\<forall>w. quiet log hist w (snd (sv_uuid env w))) \<and>
     (\<forall>w. quiet log hist w (snd (sv_outside env w)))"

lemma kv_lawsD:
  assumes "kv_laws env log hist"
  shows "sv_getEntry env u k w = Some (r, w') \<Longrightarrow> quiet log hist w w'"
    and "sv_getEntry env u k w = Some (Inr (Some (v, n)), w') \<Longrightarrow> hist w' u k n = Some v"
    and "sv_put env u k v c ttl w = Some (r', w') \<Longrightarrow> recorded log hist u k c (Some v) w w'"
    and "sv_delete env u k n w = Some (r'', w') \<Longrightarrow> recorded log hist u k (IfMatch n) None w w'"
    and "sv_load env ns w = Some (r2, w') \<Longrightarrow> quiet log hist w w'"
    and "sv_store env ns q w = Some (r3, w') \<Longrightarrow> quiet log hist w w'"
    and "quiet log hist w (snd (sv_uuid env w))"
    and "quiet log hist w (snd (sv_outside env w))"
proof -
  note laws = assms [unfolded kv_laws_def]
  show "sv_getEntry env u k w = Some (r, w') \<Longrightarrow> quiet log hist w w'"
    by (drule laws [THEN conjunct1, rule_format]) (elim conjE)
  show "sv_getEntry env u k w = Some (Inr (Some (v, n)), w') \<Longrightarrow> hist w' u k n = Some v"
    by (drule laws [THEN conjunct1, rule_format]) simp
  show "sv_put env u k v c ttl w = Some (r', w') \<Longrightarrow> recorded log hist u k c (Some v) w w'"
    by (rule laws [THEN conjunct2, THEN conjunct1, rule_format])
  show "sv_delete env u k n w = Some (r'', w') \<Longrightarrow> recorded log hist u k (IfMatch n) None w w'"
    by (rule laws [THEN conjunct2, THEN conjunct2, THEN conjunct1, rule_format])
  show "sv_load env ns w = Some (r2, w') \<Longrightarrow> quiet log hist w w'"
    by (rule laws [THEN conjunct2, THEN conjunct2, THEN conjunct2, THEN conjunct1, rule_format])
  show "sv_store env ns q w = Some (r3, w') \<Longrightarrow> quiet log hist w w'"
    by (rule laws [THEN conjunct2, THEN conjunct2, THEN conjunct2, THEN conjunct2, THEN conjunct1, rule_format])
  show "quiet log hist w (snd (sv_uuid env w))"
    by (rule laws [THEN conjunct2, THEN conjunct2, THEN conjunct2, THEN conjunct2, THEN conjunct2, THEN conjunct1, rule_format])
  show "quiet log hist w (snd (sv_outside env w))"
    by (rule laws [THEN conjunct2, THEN conjunct2, THEN conjunct2, THEN conjunct2, THEN conjunct2, THEN conjunct2, rule_format])
qed

subsection \<open>An operation's step\<close>

text \<open>
  The writes of an operation on \<open>w\<close> from \<open>base\<close> on, for the identity \<open>u\<close>: each of them replaced
  the version \<open>w\<close> expected, or was merged with the very value it replaced.
\<close>

definition based :: "merge_policy option \<Rightarrow> ustring \<Rightarrow> QueuedWrite \<Rightarrow> logged \<Rightarrow> bool" where
  "based merge u w e \<longleftrightarrow>
     (case e of (owner, name, old, v) \<Rightarrow>
        owner = u \<and> name = qw_name w \<and>
        (v = (case qw_kind w of StoreWrite \<Rightarrow> qw_value w | RemoveWrite \<Rightarrow> None) \<and>
           replaced_version old = qw_expectedVersion w \<or>
         (\<exists>f mine x. merge = Some f \<and> f mine (map_option fst old) = Inr (Some x) \<and> v = Some (reparsed x))))"

text \<open>The state of the loop's write: the original, or one merged with a value the key has had.\<close>

definition grounded ::
  "('w \<Rightarrow> ustring \<Rightarrow> ustring \<Rightarrow> int \<Rightarrow> json option) \<Rightarrow> merge_policy option \<Rightarrow> ustring \<Rightarrow> QueuedWrite \<Rightarrow>
   QueuedWrite \<Rightarrow> 'w \<Rightarrow> bool" where
  "grounded hist merge u w0 w world \<longleftrightarrow>
     qw_name w = qw_name w0 \<and> qw_kind w = qw_kind w0 \<and>
     (qw_value w = qw_value w0 \<and> qw_expectedVersion w = qw_expectedVersion w0 \<or>
      (\<exists>f mine x remote. merge = Some f \<and> qw_kind w = StoreWrite \<and> f mine (map_option fst remote) = Inr (Some x) \<and>
         qw_value w = Some (reparsed x) \<and> qw_expectedVersion w = map_option snd remote \<and>
         (\<forall>v n. remote = Some (v, n) \<longrightarrow> hist world u (qw_name w) n = Some v)))"

definition writes_based ::
  "('w \<Rightarrow> logged list) \<Rightarrow> logged list \<Rightarrow> merge_policy option \<Rightarrow> ustring \<Rightarrow> QueuedWrite \<Rightarrow> 'w \<Rightarrow> bool" where
  "writes_based log base merge u w0 world \<longleftrightarrow>
     (\<exists>new. log world = base @ new \<and> (\<forall>e \<in> set new. based merge u w0 e))"

definition loop_inv where
  "loop_inv log hist base merge u w0 w s \<longleftrightarrow>
     writes_based log base merge u w0 (sa_world s) \<and> grounded hist merge u w0 w (sa_world s)"

lemma quiet_refl: "quiet log hist w w"
  by (simp add: quiet_def)

lemma quiet_trans: "quiet log hist a b \<Longrightarrow> quiet log hist b c \<Longrightarrow> quiet log hist a c"
  by (simp add: quiet_def)

lemma deliver_world: "sa_world (deliver ev s) = sa_world s"
  by (cases ev)
    (simp_all add: deliver_def forget_def forget_disposed_def sign_out_def set_foreground_def on_foreground_def enlane_def)

lemma fold_deliver_world: "sa_world (fold deliver evs s) = sa_world s"
  by (induction evs arbitrary: s) (simp_all add: deliver_world)

lemma settle_world: "sa_world (settle env s) = snd (sv_outside env (sa_world s))"
  by (simp add: settle_def fold_deliver_world split: prod.split)

lemma awaitE:
  assumes "await env m s = Some (r, s')"
  obtains w where "m (sa_world s) = Some (r, w)" "s' = settle env (s\<lparr>sa_world := w\<rparr>)"
    "sa_world s' = snd (sv_outside env w)"
  using assms settle_world [of env "s\<lparr>sa_world := _\<rparr>"]
  by (auto simp: await_def split: option.splits prod.splits)

text \<open>A property of the world that the quiet steps keep is kept by what awaits quiet operations.\<close>

definition stable where
  "stable log hist P \<longleftrightarrow> (\<forall>w w'. quiet log hist w w' \<longrightarrow> P w \<longrightarrow> P w')"

lemma stableD: "stable log hist P \<Longrightarrow> quiet log hist w w' \<Longrightarrow> P w \<Longrightarrow> P w'"
  by (simp add: stable_def)

lemma stable_writes: "stable log hist (writes_based log base merge u w0)"
  by (simp add: stable_def quiet_def writes_based_def)

lemma stable_grounded: "stable log hist (grounded hist merge u w0 w)"
proof -
  have "grounded hist merge u w0 w b" if "quiet log hist a b" "grounded hist merge u w0 w a" for a b
    using that unfolding grounded_def quiet_def by (elim conjE) blast
  then show ?thesis by (simp add: stable_def)
qed

lemma stable_conj: "stable log hist P \<Longrightarrow> stable log hist Q \<Longrightarrow> stable log hist (\<lambda>w. P w \<and> Q w)"
  by (simp add: stable_def)

lemma stable_settle: "kv_laws env log hist \<Longrightarrow> stable log hist P \<Longrightarrow> P w \<Longrightarrow> P (snd (sv_outside env w))"
  by (rule stableD [OF _ kv_lawsD(8)])

lemma await_quiet:
  assumes "kv_laws env log hist" "stable log hist P" "\<And>w r w'. m w = Some (r, w') \<Longrightarrow> quiet log hist w w'"
  shows "keeps_inv (\<lambda>s. P (sa_world s)) (await env m)"
  using stable_settle [OF assms(1,2)] stableD [OF assms(2) assms(3)]
  by (auto intro!: tripleI elim!: awaitE)

text \<open>What does not await anything.\<close>

lemma same_world_modify: "(\<And>s. sa_world (f s) = sa_world s) \<Longrightarrow> keeps_inv (\<lambda>s. P (sa_world s)) (modify_eff f)"
  by (rule keeps_inv_modify) simp

lemma guard_kept: "keeps_inv I guardOperation" "keeps_inv I (guard_generation g)"
  unfolding guardOperation_def guard_generation_def by (intro keeps_inv_intros)+

lemma kv_kept: "keeps_inv I (runtime_kv env)"
  unfolding runtime_kv_def by (intro keeps_inv_intros)

lemma clone_kept: "keeps_inv I (lift_clone r)"
  unfolding lift_clone_def by (intro keeps_inv_intros)

lemma cache_kept: "keeps_inv (\<lambda>s. P (sa_world s)) (cache_set name c)"
  unfolding cache_set_def by (rule same_world_modify) simp

lemma set_item_world: "sa_world (set_item b w s) = sa_world s"
  by (simp add: set_item_def)

lemma run_triple:
  assumes "triple P m (\<lambda>_. I) (\<lambda>_. I)" "\<And>s. P s \<Longrightarrow> I s" "\<And>s. I s \<Longrightarrow> I (sign_out s)"
  shows "triple P (run_save m) (\<lambda>_. I) (\<lambda>_. I)"
proof -
  have "I s'" if P: "P s" and run: "run_save m s = Some (r, s')" for s r s'
  proof (cases "m s")
    case None
    then show ?thesis
      using run assms(2) [OF P] by (auto simp: run_save_def runtime_run_def split: if_splits)
  next
    case (Some p)
    obtain r1 s1 where p: "m s = Some (r1, s1)" using Some by (cases p) auto
    have "I s1"
      using tripleD [OF assms(1) P] p by (cases r1) auto
    then show ?thesis
      using run p assms(2) [OF P] assms(3)
      by (auto simp: run_save_def runtime_run_def Let_def split: if_splits sum.splits)
  qed
  then show ?thesis by (blast intro: tripleI)
qed

lemma sign_out_world: "sa_world (sign_out s) = sa_world s"
  by (simp add: sign_out_def forget_def)

lemma grounded_recorded:
  assumes "recorded log hist u k c v a b" "grounded hist merge u w0 w a"
  shows "grounded hist merge u w0 w b"
proof -
  have "\<forall>u k n v. hist a u k n = Some v \<longrightarrow> hist b u k n = Some v"
    using assms(1) by (simp add: recorded_def)
  then show ?thesis
    using assms(2) unfolding grounded_def by (elim conjE) blast
qed

lemma recorded_based:
  assumes "grounded hist merge u w0 w b" "condition_met c old"
    and "c = (case qw_expectedVersion w of None \<Rightarrow> IfNoneMatch | Some n \<Rightarrow> IfMatch n)"
    and "v = (case qw_kind w of StoreWrite \<Rightarrow> qw_value w | RemoveWrite \<Rightarrow> None)"
    and "\<forall>o' n. old = Some (o', n) \<longrightarrow> hist b u (qw_name w) n = Some o'"
  shows "based merge u w0 (u, qw_name w, old, v)"
proof -
  have version: "replaced_version old = qw_expectedVersion w"
    using assms(2,3) by (auto simp: condition_met_def split: option.splits)
  have same: "qw_name w = qw_name w0" "qw_kind w = qw_kind w0"
    using assms(1) by (simp_all add: grounded_def)
  consider "qw_value w = qw_value w0" "qw_expectedVersion w = qw_expectedVersion w0"
    | f mine x remote where "merge = Some f" "qw_kind w = StoreWrite" "f mine (map_option fst remote) = Inr (Some x)"
      "qw_value w = Some (reparsed x)" "qw_expectedVersion w = map_option snd remote"
      "\<forall>v n. remote = Some (v, n) \<longrightarrow> hist b u (qw_name w) n = Some v"
    using assms(1) unfolding grounded_def by (elim conjE disjE exE) blast+
  then show ?thesis
  proof cases
    case 1
    then show ?thesis using version same assms(4) by (simp add: based_def split: write_kind.split)
  next
    case 2
    have "map_option snd old = map_option snd remote"
      using version 2(5) by (simp add: replaced_version_def)
    then have "map_option fst old = map_option fst remote"
      using 2(6) assms(5) by (cases old; cases remote) auto
    then show ?thesis
      using 2 same assms(4) by (auto simp: based_def)
  qed
qed

text \<open>The two parts of the invariant, as a property of the world.\<close>

definition op_inv where
  "op_inv log hist base merge u w0 w world \<longleftrightarrow>
     writes_based log base merge u w0 world \<and> grounded hist merge u w0 w world"

lemma stable_op_inv: "stable log hist (op_inv log hist base merge u w0 w)"
  unfolding op_inv_def by (rule stable_conj [OF stable_writes stable_grounded])

lemma op_inv_recorded:
  assumes "op_inv log hist base merge u w0 w a" "recorded log hist u (qw_name w) c v a b"
    and "c = (case qw_expectedVersion w of None \<Rightarrow> IfNoneMatch | Some n \<Rightarrow> IfMatch n)"
    and "v = (case qw_kind w of StoreWrite \<Rightarrow> qw_value w | RemoveWrite \<Rightarrow> None)"
  shows "op_inv log hist base merge u w0 w b"
proof -
  have grounded: "grounded hist merge u w0 w b"
    using grounded_recorded [OF assms(2)] assms(1) by (simp add: op_inv_def)
  obtain new where new: "log a = base @ new" "\<forall>e \<in> set new. based merge u w0 e"
    using assms(1) by (auto simp: op_inv_def writes_based_def)
  have "writes_based log base merge u w0 b"
  proof (cases "log b = log a")
    case True
    then show ?thesis using new by (auto simp: writes_based_def)
  next
    case False
    then obtain old where old: "log b = log a @ [(u, qw_name w, old, v)]" "condition_met c old"
        "\<forall>o' n. old = Some (o', n) \<longrightarrow> hist b u (qw_name w) n = Some o'"
      using assms(2) by (auto simp: recorded_def)
    have "based merge u w0 (u, qw_name w, old, v)"
      by (rule recorded_based [OF grounded old(2) assms(3,4) old(3)])
    then show ?thesis
      using new old(1) by (auto simp: writes_based_def)
  qed
  then show ?thesis using grounded by (simp add: op_inv_def)
qed

lemma await_recorded:
  assumes "kv_laws env log hist"
    and "\<And>a r b. m a = Some (r, b) \<Longrightarrow> recorded log hist u (qw_name w) c v a b"
    and "c = (case qw_expectedVersion w of None \<Rightarrow> IfNoneMatch | Some n \<Rightarrow> IfMatch n)"
    and "v = (case qw_kind w of StoreWrite \<Rightarrow> qw_value w | RemoveWrite \<Rightarrow> None)"
  shows "keeps_inv (\<lambda>s. op_inv log hist base merge u w0 w (sa_world s)) (await env m)"
  using stable_settle [OF assms(1) stable_op_inv] op_inv_recorded [OF _ assms(2) assms(3,4)]
  by (auto intro!: tripleI elim!: awaitE)

lemma await_entry:
  assumes "kv_laws env log hist" "stable log hist P"
  shows "keeps_inv (\<lambda>s. P (sa_world s)) (await env (sv_getEntry env u k))"
  by (rule await_quiet [OF assms]) (rule kv_lawsD(1) [OF assms(1)])

lemma attempt_kept:
  assumes "kv_laws env log hist"
  shows "keeps_inv (\<lambda>s. op_inv log hist base merge u w0 w (sa_world s)) (attempt env u g w)"
proof (cases "qw_kind w")
  case StoreWrite
  show ?thesis
  proof (cases "qw_value w")
    case None
    then show ?thesis using StoreWrite by (simp add: attempt_def keeps_inv_throw)
  next
    case (Some v)
    have put: "keeps_inv (\<lambda>s. op_inv log hist base merge u w0 w (sa_world s))
        (await env (sv_put env u (qw_name w) v
           (case qw_expectedVersion w of None \<Rightarrow> IfNoneMatch | Some n \<Rightarrow> IfMatch n) (qw_ttl w)))"
      by (rule await_recorded [OF assms kv_lawsD(3) [OF assms]]) (simp_all add: Some StoreWrite)
    show ?thesis
      unfolding attempt_def StoreWrite Some write_kind.case option.case
      by (intro keeps_inv_intros put guard_kept clone_kept cache_kept)
  qed
next
  case RemoveWrite
  have delete: "keeps_inv (\<lambda>s. op_inv log hist base merge u w0 w (sa_world s)) (await env (sv_delete env u (qw_name w) n))"
    if "qw_expectedVersion w = Some n" for n
    by (rule await_recorded [OF assms kv_lawsD(4) [OF assms]]) (simp_all add: that RemoveWrite)
  show ?thesis
    unfolding attempt_def RemoveWrite write_kind.case
    by (intro keeps_inv_intros delete guard_kept cache_kept await_entry [OF assms stable_op_inv])
qed

subsection \<open>The loop\<close>

lemma persist_queue_kept:
  assumes "kv_laws env log hist" "stable log hist P"
  shows "keeps_inv (\<lambda>s. P (sa_world s)) (persistQueue env mk)"
proof -
  have store: "keeps_inv (\<lambda>s. P (sa_world s)) (await env (sv_store env ns q))" for ns q
    by (rule await_quiet [OF assms]) (rule kv_lawsD(6) [OF assms(1)])
  show ?thesis
    unfolding persistQueue_def store_queue_def
    by (intro keeps_inv_intros guard_kept store same_world_modify) simp
qed

lemma fetched:
  assumes "kv_laws env log hist" "stable log hist P"
  shows "triple (\<lambda>s. P (sa_world s)) (await env (sv_getEntry env u k))
     (\<lambda>remote s. P (sa_world s) \<and> (\<forall>v n. remote = Some (v, n) \<longrightarrow> hist (sa_world s) u k n = Some v)) (\<lambda>_ s. P (sa_world s))"
proof (rule tripleI)
  fix s a s'
  assume P: "P (sa_world s)" and "await env (sv_getEntry env u k) s = Some (Inr a, s')"
  then obtain w where w: "sv_getEntry env u k (sa_world s) = Some (Inr a, w)"
      "sa_world s' = snd (sv_outside env w)"
    by (auto elim!: awaitE)
  have "P (sa_world s')"
    using w stableD [OF assms(2) kv_lawsD(1) [OF assms(1) w(1)] P] stable_settle [OF assms] by metis
  moreover have "hist (sa_world s') u k n = Some v" if "a = Some (v, n)" for v n
    using kv_lawsD(2) [OF assms(1)] kv_lawsD(8) [OF assms(1), of w] w that
    by (simp add: quiet_def)
  ultimately show "P (sa_world s') \<and> (\<forall>v n. a = Some (v, n) \<longrightarrow> hist (sa_world s') u k n = Some v)"
    by blast
next
  fix s e s'
  assume "P (sa_world s)" "await env (sv_getEntry env u k) s = Some (Inl e, s')"
  then show "P (sa_world s')"
    using tripleD(2) [OF await_entry [OF assms]] by blast
qed

text \<open>\<open>remerge\<close> gives a write merged with what the key had under the version it expects then.\<close>

lemma stable_hist: "stable log hist (\<lambda>world. \<forall>v n. remote = Some (v, n) \<longrightarrow> hist world u k n = Some v)"
  by (simp add: stable_def quiet_def)

lemma merge_value_ends:
  assumes "kv_laws env log hist" "stable log hist P"
  shows "triple (\<lambda>s. P (sa_world s)) (merge_value env f value remote)
     (\<lambda>v s. P (sa_world s) \<and> (\<exists>x. f value (map_option fst remote) = Inr (Some x) \<and> v = reparsed x)) (\<lambda>_ s. P (sa_world s))"
proof -
  have run: "triple (\<lambda>s. P (sa_world s)) (await env (\<lambda>w. Some (f value (map_option fst remote), w)))
     (\<lambda>merged s. P (sa_world s) \<and> f value (map_option fst remote) = Inr merged) (\<lambda>_ s. P (sa_world s))"
    using stable_settle [OF assms] by (auto intro!: tripleI elim!: awaitE)
  have end': "triple (\<lambda>s. P (sa_world s) \<and> f value (map_option fst remote) = Inr merged) (lift_clone (clone merged None))
     (\<lambda>v s. P (sa_world s) \<and> (\<exists>x. f value (map_option fst remote) = Inr (Some x) \<and> v = reparsed x)) (\<lambda>_ s. P (sa_world s))"
    for merged
    by (auto simp: triple_def lift_clone_def clone_def return_eff_def throw_eff_def split: option.splits if_splits sum.splits)
  show ?thesis
    unfolding merge_value_def by (rule triple_bind [OF run end'])
qed

lemma remerge_grounds:
  assumes "kv_laws env log hist" "qw_kind w = StoreWrite" "merge = Some f"
  shows "triple (\<lambda>s. op_inv log hist base merge u w0 w (sa_world s)) (remerge env u g f recover w)
     (\<lambda>w' s. op_inv log hist base merge u w0 w' (sa_world s) \<and> qw_kind w' = StoreWrite)
     (\<lambda>_ s. writes_based log base merge u w0 (sa_world s))"
proof -
  let ?P = "op_inv log hist base merge u w0 w"
  let ?H = "\<lambda>remote world. \<forall>v n. remote = Some (v, n) \<longrightarrow> hist world u (qw_name w) n = Some v"
  let ?E = "\<lambda>_ s. writes_based log base merge u w0 (sa_world s)"
  let ?R = "\<lambda>remote world. ?P world \<and> ?H remote world"
  have stable: "stable log hist (?R remote)" for remote
    by (rule stable_conj [OF stable_op_inv stable_hist])
  have new: "op_inv log hist base merge u w0 (merged_write w (reparsed x) remote) world"
    if "?R remote world" "f mine (map_option fst remote) = Inr (Some x)" for remote x mine world
  proof -
    let ?w = "merged_write w (reparsed x) remote"
    have "qw_name ?w = qw_name w0" "qw_kind ?w = qw_kind w0" "qw_kind ?w = StoreWrite" "qw_name ?w = qw_name w"
      "qw_value ?w = Some (reparsed x)" "qw_expectedVersion ?w = map_option snd remote"
      using that(1) assms(2) by (simp_all add: op_inv_def grounded_def merged_write_def)
    moreover have "\<exists>f mine x' r. merge = Some f \<and> f mine (map_option fst r) = Inr (Some x') \<and>
        reparsed x = reparsed x' \<and> map_option snd remote = map_option snd r \<and>
        (\<forall>v n. r = Some (v, n) \<longrightarrow> hist world u (qw_name w) n = Some v)"
      using that assms(3) by blast
    ultimately show ?thesis
      using that(1) unfolding op_inv_def grounded_def by simp
  qed
  have step: "triple (\<lambda>s. ?R remote (sa_world s)) (merge_value env f (qw_value w) remote)
      (\<lambda>v s. op_inv log hist base merge u w0 (merged_write w v remote) (sa_world s)) ?E" for remote
  proof (rule triple_weaken [OF merge_value_ends [OF assms(1) stable [of remote]]], goal_cases)
    case (2 a s)
    then show ?case using new by blast
  next
    case (3 e s)
    then show ?case by (simp add: op_inv_def)
  qed
  have rest: "triple (\<lambda>s. op_inv log hist base merge u w0 w' (sa_world s))
      (then_eff (guard_generation g)
         (then_eff (modify_eff (set_item recover w'))
         (then_eff (if recover then persistQueue env sa_writes else return_eff ()) (return_eff w'))))
      (\<lambda>w'' s. op_inv log hist base merge u w0 w'' (sa_world s) \<and> w'' = w') ?E" for w'
  proof -
    have kept: "keeps_inv (\<lambda>s. op_inv log hist base merge u w0 w' (sa_world s))
       (then_eff (guard_generation g)
         (then_eff (modify_eff (set_item recover w'))
            (if recover then persistQueue env sa_writes else return_eff ())))"
      by (intro keeps_inv_intros guard_kept persist_queue_kept [OF assms(1) stable_op_inv]) (simp add: set_item_world)
    show ?thesis
      by (rule triple_weaken [where P' = "\<lambda>s. op_inv log hist base merge u w0 w' (sa_world s)" and
            Q' = "\<lambda>w'' s. op_inv log hist base merge u w0 w'' (sa_world s) \<and> w'' = w'" and
            E' = "\<lambda>_ s. op_inv log hist base merge u w0 w' (sa_world s)"])
        (intro triple_then [OF guard_kept(2)] triple_then [OF same_world_modify]
           triple_then [OF keeps_inv_if [OF persist_queue_kept [OF assms(1) stable_op_inv] keeps_inv_return]],
         auto simp: triple_def return_eff_def set_item_world op_inv_def)
  qed
  have fetch: "triple (\<lambda>s. ?P (sa_world s)) (await env (sv_getEntry env u (qw_name w))) (\<lambda>remote s. ?R remote (sa_world s)) ?E"
    by (rule triple_weaken [OF fetched [OF assms(1) stable_op_inv]]) (auto simp: op_inv_def)
  have guard: "triple (\<lambda>s. ?R remote (sa_world s)) (guard_generation g) (\<lambda>_ s. ?R remote (sa_world s)) ?E" for remote
    by (rule keeps_weaken [OF guard_kept(2)]) (simp add: op_inv_def)
  have kind: "qw_kind (merged_write w v remote) = StoreWrite" for v remote
    by (simp add: merged_write_def assms(2))
  show ?thesis
    unfolding remerge_def
    by (rule triple_bind [OF fetch], rule triple_then [OF guard], rule triple_bind [OF step],
        rule triple_weaken [OF rest]) (auto simp: kind)
qed

lemma apply_loop_based:
  assumes "kv_laws env log hist"
  shows "triple (\<lambda>s. op_inv log hist base merge u w0 w (sa_world s)) (apply_loop env u g merge recover left w)
     (\<lambda>_ s. writes_based log base merge u w0 (sa_world s)) (\<lambda>_ s. writes_based log base merge u w0 (sa_world s))"
proof (induction left arbitrary: w)
  case 0
  show ?case
    by (simp only: apply_loop.simps)
      (rule triple_weaken [OF keeps_inv_then [OF guard_kept(2) attempt_kept [OF assms]]], assumption,
        simp_all only: op_inv_def)
next
  case (Suc left)
  let ?E = "\<lambda>_ s. writes_based log base merge u w0 (sa_world s)"
  let ?P = "\<lambda>s. op_inv log hist base merge u w0 w (sa_world s)"
  have guard: "triple ?P (guard_generation g) (\<lambda>_. ?P) ?E"
    by (rule keeps_weaken [OF guard_kept(2)]) (simp add: op_inv_def)
  have tried: "triple ?P (attempt env u g w) ?E (\<lambda>_. ?P)"
    by (rule triple_weaken [OF attempt_kept [OF assms]]) (auto simp: op_inv_def)
  have failed: "triple ?P (throw_eff e) ?E ?E" for e
    by (rule triple_weaken [OF keeps_inv_throw [where I = ?P]]) (auto simp: op_inv_def)
  have again: "triple ?P (bind_eff (remerge env u g f recover w) (apply_loop env u g merge recover left)) ?E ?E"
    if "merge = Some f" "qw_kind w = StoreWrite" for f
    by (rule triple_bind [OF remerge_grounds [OF assms that(2,1)]], rule triple_weaken [OF Suc.IH]) auto
  have "triple ?P (case merge of None \<Rightarrow> throw_eff e
          | Some f \<Rightarrow>
              if \<not> isKvConflict e \<or> qw_kind w = RemoveWrite then throw_eff e
              else bind_eff (remerge env u g f recover w) (apply_loop env u g merge recover left)) ?E ?E" for e
    by (intro triple_option triple_if failed again) (auto intro: write_kind.exhaust)
  then show ?case
    by (simp only: apply_loop.simps) (intro triple_then [OF guard] triple_catch [OF tried])
qed

lemma apply_from:
  assumes "kv_laws env log hist"
  shows "triple (\<lambda>s. log (sa_world s) = base) (apply_loop env u g merge recover left w)
     (\<lambda>_ s. writes_based log base merge u w (sa_world s)) (\<lambda>_ s. writes_based log base merge u w (sa_world s))"
  by (rule triple_pre [OF apply_loop_based [OF assms]])
    (simp add: op_inv_def writes_based_def grounded_def)

lemma stable_log: "stable log hist (\<lambda>world. log world = base)"
  by (simp add: stable_def quiet_def)

lemma save_apply_based:
  assumes "kv_laws env log hist"
  shows "triple (\<lambda>s. log (sa_world s) = base \<and> sa_item s = Some w \<and> rt_identity (sa_runtime s) = identity)
     (save_apply env merge recover)
     (\<lambda>_ s. log (sa_world s) = base \<or> (\<exists>u. identity = Some u \<and> writes_based log base merge u w (sa_world s)))
     (\<lambda>_ s. log (sa_world s) = base \<or> (\<exists>u. identity = Some u \<and> writes_based log base merge u w (sa_world s)))"
    (is "triple ?P _ ?Q ?E")
proof -
  have guard: "triple ?P guardOperation (\<lambda>_. ?P) ?E"
    by (rule keeps_weaken [OF guard_kept(1)]) simp
  have kv: "triple ?P (runtime_kv env) (\<lambda>u s. log (sa_world s) = base \<and> identity = Some u) ?E"
    by (auto simp: triple_def runtime_kv_def bind_eff_def get_eff_def throw_eff_def return_eff_def split: option.splits if_splits)
  let ?R = "\<lambda>u s. log (sa_world s) = base \<and> identity = Some u"
  have loop: "triple (?R u) (apply_loop env u g merge recover left w) ?Q ?E" for u g left
    by (cases "identity = Some u")
      (auto intro!: triple_weaken [OF apply_from [OF assms]] simp: triple_def [of "\<lambda>s. False"])
  have cached: "triple (?R u) (cache_set name c) ?Q ?E" for u name c
    by (rule triple_weaken [OF cache_kept [where P = "\<lambda>world. log world = base"]]) auto
  have fetch: "triple (?R u) (await env (sv_getEntry env u k)) (\<lambda>_. ?R u) ?E" for u k
    by (cases "identity = Some u")
      (auto intro!: triple_weaken [OF await_entry [OF assms stable_log]] simp: triple_def [of "\<lambda>s. False"])
  have recheck: "triple (?R u) guardOperation (\<lambda>_. ?R u) ?E" for u
    by (rule keeps_weaken [OF guard_kept(1)]) simp
  show ?thesis
    unfolding save_apply_def
  proof (rule triple_then [OF guard], rule triple_get, goal_cases)
    case (1 x)
    show ?case
    proof (cases "snd x = w")
      case True
      have pre: "triple (\<lambda>s. ?P s \<and> (rt_generation (sa_runtime s), the (sa_item s)) = x) (runtime_kv env) (\<lambda>u. ?R u) ?E"
        by (rule triple_pre [OF kv]) blast
      show ?thesis
        unfolding case_prod_beta True
        by (rule triple_bind [OF pre], rule triple_if,
            intro triple_bind [OF fetch] triple_then [OF recheck] triple_option cached loop, rule loop)
    next
      case False
      then show ?thesis by (auto simp: triple_def)
    qed
  qed
qed

text \<open>
  C6: Over a service that honours conditional writes, applying a queued write, with or without a
  merge, online or while the queue is flushed, only ever replaces what it was based on: each write
  that takes effect (also one whose answer is lost) is for the identity signed in when it started
  and the write's own key, and either writes the write's own value over the version it expected,
  or writes the merge of exactly the value it replaces. Other clients may write at any moment.
\<close>
theorem save_never_overwrites_unseen:
  assumes "kv_laws env log hist" "sa_item s = Some w" "rt_identity (sa_runtime s) = Some u"
    and "save_apply env merge recover s = Some (r, s')"
  shows "\<exists>new. log (sa_world s') = log (sa_world s) @ new \<and>
    (\<forall>(owner, name, old, v) \<in> set new. owner = u \<and> name = qw_name w \<and>
       (v = (case qw_kind w of StoreWrite \<Rightarrow> qw_value w | RemoveWrite \<Rightarrow> None) \<and>
          map_option snd old = qw_expectedVersion w \<or>
        (\<exists>f mine x. merge = Some f \<and> f mine (map_option fst old) = Inr (Some x) \<and> v = Some (reparsed x))))"
proof -
  note based = save_apply_based [OF assms(1), where base = "log (sa_world s)" and w = w and identity = "Some u"]
  have "log (sa_world s') = log (sa_world s) \<or> writes_based log (log (sa_world s)) merge u w (sa_world s')"
    using tripleD [OF based, of s] assms(2-4) by (cases r) auto
  then show ?thesis
    unfolding writes_based_def based_def replaced_version_def by fastforce
qed

end
