(* ===== verification/Game_Save_Queue.thy ===== *)
theory Game_Save_Queue
  imports Game_Save_Safety
begin

section \<open>The order and the end of a flush\<close>

text \<open>
  The queue goes out head first, nothing is taken off it before it was applied, a flush always
  ends, and the queue in memory belongs to the identity that is signed in.
\<close>

subsection \<open>What a change of generation leaves\<close>

text \<open>What the runtime's events may only change together with the generation.\<close>

definition gen :: "'w save \<Rightarrow> nat" where
  "gen s = rt_generation (sa_runtime s)"

definition core ::
  "'w save \<Rightarrow> ustring option \<times> QueuedWrite list \<times> (ustring \<Rightarrow> merge_policy option) \<times> ustring option" where
  "core s = (rt_identity (sa_runtime s), sa_writes s, sa_inlineMerges s, sa_namespace s)"

definition held where
  "held g R s \<longleftrightarrow> g \<le> gen s \<and> (gen s = g \<longrightarrow> R (core s))"

lemma deliver_core: "gen s < gen (deliver ev s) \<or> gen (deliver ev s) = gen s \<and> core (deliver ev s) = core s"
  by (cases ev)
    (simp_all add: deliver_def gen_def core_def forget_def forget_disposed_def sign_out_def set_foreground_def
      on_foreground_def enlane_def rt_stop_def rt_change_def rt_dispose_def)

lemma fold_deliver_core:
  "gen s < gen (fold deliver evs s) \<or> gen (fold deliver evs s) = gen s \<and> core (fold deliver evs s) = core s"
proof (induction evs arbitrary: s)
  case (Cons ev evs)
  show ?case
    using deliver_core [of s ev] Cons.IH [of "deliver ev s"] by auto
qed simp

lemma settle_core: "gen s < gen (settle env s) \<or> gen (settle env s) = gen s \<and> core (settle env s) = core s"
proof -
  obtain evs w where p: "sv_outside env (sa_world s) = (evs, w)" by (cases "sv_outside env (sa_world s)")
  have "gen (s\<lparr>sa_world := w\<rparr>) = gen s" "core (s\<lparr>sa_world := w\<rparr>) = core s"
    by (simp_all add: gen_def core_def)
  then show ?thesis
    using fold_deliver_core [of "s\<lparr>sa_world := w\<rparr>" evs] by (simp add: settle_def p)
qed

lemma held_await: "keeps_inv (held g R) (await env m)"
proof -
  have "held g R s'" if held: "held g R s" and run: "await env m s = Some (r, s')" for s r s'
  proof -
    obtain w where s': "s' = settle env (s\<lparr>sa_world := w\<rparr>)"
      using run by (auto elim: awaitE)
    have "gen (s\<lparr>sa_world := w\<rparr>) = gen s" "core (s\<lparr>sa_world := w\<rparr>) = core s"
      by (simp_all add: gen_def core_def)
    then show ?thesis
      using settle_core [of "s\<lparr>sa_world := w\<rparr>" env] held unfolding s' held_def by auto
  qed
  then show ?thesis by (blast intro: tripleI)
qed

lemma held_modify:
  "(\<And>s. gen (f s) = gen s) \<Longrightarrow> (\<And>s. R (core s) \<Longrightarrow> R (core (f s))) \<Longrightarrow> keeps_inv (held g R) (modify_eff f)"
  by (rule keeps_inv_modify) (auto simp: held_def)

lemma held_cache: "keeps_inv (held g R) (cache_set name c)"
  unfolding cache_set_def by (rule held_modify) (simp_all add: gen_def core_def)



text \<open>\<open>run\<close> gives a value only when the generation is still the one it started in.\<close>

lemma run_save_value: "run_save m s = Some (Inr a, s') \<Longrightarrow> gen s' = gen s \<and> m s = Some (Inr a, s')"
  by (auto simp: run_save_def runtime_run_def Let_def gen_def split: if_splits option.splits sum.splits)

text \<open>A queue is taken over in memory only in the generation in which it was stored.\<close>

lemma persisted:
  fixes env :: "'w save_env"
  assumes "\<And>s. R (core s) \<Longrightarrow> R' (core (s\<lparr>sa_writes := mk s\<rparr>))"
    and "\<And>c q. R c \<Longrightarrow> R' (fst c, q, snd (snd c)) \<longleftrightarrow> W q"
  shows "triple (held g R) (persistQueue env mk) (\<lambda>_. held g R') (\<lambda>_. held g R)"
proof -
  have taken: "R (core s) \<Longrightarrow> R' (core (s\<lparr>sa_writes := q\<rparr>)) \<longleftrightarrow> W q" for s :: "'w save" and q
    using assms(2) [of "core s" q] by (simp add: core_def)
  show ?thesis
    unfolding persistQueue_def
  proof (rule triple_get, goal_cases)
    case (1 q)
    let ?P = "held g (\<lambda>c. R c \<and> W q) :: 'w save \<Rightarrow> bool"
    have start: "held g R s \<Longrightarrow> mk s = q \<Longrightarrow> ?P s" for s
      using assms(1) [of s] taken [of s q] by (auto simp: held_def)
    have weak: "held g (\<lambda>c. R c \<and> W q) s \<Longrightarrow> held g R s" for s :: "'w save"
      by (simp add: held_def)
    have store: "triple ?P (store_queue env key q) (\<lambda>_. ?P) (\<lambda>_. held g R)" for key
      unfolding store_queue_def by (rule keeps_weaken [OF _ weak], intro keeps_inv_intros held_await)
    have guard: "triple ?P guardOperation (\<lambda>_. ?P) (\<lambda>_. held g R)"
      by (rule keeps_weaken [OF guard_kept(1)]) (rule weak)
    have guard': "triple ?P (guard_generation n) (\<lambda>_. ?P) (\<lambda>_. held g R)" for n
      by (rule keeps_weaken [OF guard_kept(2)]) (rule weak)
    have take: "triple ?P (modify_eff (\<lambda>s. s\<lparr>sa_writes := q\<rparr>)) (\<lambda>_. held g R') (\<lambda>_. held g R)"
      by (rule triple_modify) (auto simp: held_def taken, simp_all add: gen_def)
    have rest: "triple (\<lambda>s. ?P s \<and> b s) (then_eff (store_queue env key q)
        (then_eff (guard_generation n) (modify_eff (\<lambda>s. s\<lparr>sa_writes := q\<rparr>)))) (\<lambda>_. held g R') (\<lambda>_. held g R)"
      for b key n
      by (rule triple_pre [OF triple_then [OF store triple_then [OF guard' take]]]) simp
    show ?case
      unfolding case_prod_beta
      by (rule triple_pre [OF triple_then [OF guard triple_get [OF rest]]]) (simp add: start)
  qed
qed


subsection \<open>One write of the queue\<close>

text \<open>The queue while its head is applied: the head may have been merged, the rest is as it was.\<close>

definition heading ::
  "ustring \<Rightarrow> (ustring \<Rightarrow> merge_policy option) \<Rightarrow> QueuedWrite \<Rightarrow> QueuedWrite list \<Rightarrow>
   ustring option \<times> QueuedWrite list \<times> (ustring \<Rightarrow> merge_policy option) \<times> ustring option \<Rightarrow> bool" where
  "heading u inl h rest c \<longleftrightarrow>
     (case c of (i, writes, merges, ns) \<Rightarrow>
        i = Some u \<and> merges = inl \<and>
        (\<exists>h'. writes = h' # rest \<and> qw_id h' = qw_id h \<and> qw_name h' = qw_name h \<and> qw_kind h' = qw_kind h))"

lemma held_kv_kinds:
  "keeps_inv (held g R) guardOperation" "keeps_inv (held g R) (guard_generation n)"
  "keeps_inv (held g R) (runtime_kv env)" "keeps_inv (held g R) (lift_clone c)"
  by (rule guard_kept kv_kept clone_kept)+

lemma attempt_held: "keeps_inv (held g R) (attempt env u n w)"
proof -
  have remove: "keeps_inv (held g R)
      (case qw_expectedVersion w of Some n \<Rightarrow> await env (sv_delete env u (qw_name w) n)
       | None \<Rightarrow> bind_eff (await env (sv_getEntry env u (qw_name w))) (\<lambda>row.
           if row \<noteq> None then throw_eff (save_error Conflict) else return_eff ()))"
    by (intro keeps_inv_intros held_await)
  show ?thesis
    by (cases "qw_kind w")
      (simp_all only: attempt_def write_kind.case, intro keeps_inv_intros held_await held_cache held_kv_kinds,
        intro keeps_inv_then remove held_cache held_kv_kinds)
qed

lemma remerge_held:
  assumes "\<And>c. R c \<Longrightarrow> heading u' inl h rest c" "\<And>c. heading u' inl h rest c \<Longrightarrow> R c"
    and "qw_id w = qw_id h" "qw_name w = qw_name h" "qw_kind w = qw_kind h"
  shows "keeps_inv (held g R) (remerge env u n f True w)"
proof -
  have R: "R c \<longleftrightarrow> heading u' inl h rest c" for c
    using assms(1,2) by blast
  have persist: "keeps_inv (held g R) (persistQueue env sa_writes)"
    by (rule persisted [where W = "\<lambda>q. \<exists>h'. q = h' # rest \<and> qw_id h' = qw_id h \<and> qw_name h' = qw_name h \<and> qw_kind h' = qw_kind h"])
      (auto simp: R heading_def core_def)
  have item: "keeps_inv (held g R) (modify_eff (set_item True (merged_write w v remote)))" for v remote
    by (rule held_modify) (auto simp: gen_def core_def set_item_def merged_write_def R heading_def assms(3-5))
  show ?thesis
    unfolding remerge_def merge_value_def if_True by (intro keeps_inv_intros held_await held_kv_kinds persist item)
qed

lemma apply_loop_held:
  fixes env :: "'w save_env"
  assumes "qw_id w = qw_id h" "qw_name w = qw_name h" "qw_kind w = qw_kind h"
  shows "keeps_inv (held g (heading u' inl h rest)) (apply_loop env u n merge True left w)"
  using assms
proof (induction left arbitrary: w)
  case 0
  show ?case
    by (simp only: apply_loop.simps) (intro keeps_inv_intros attempt_held held_kv_kinds)
next
  case (Suc left)
  let ?I = "held g (heading u' inl h rest) :: 'w save \<Rightarrow> bool"
  let ?same = "\<lambda>w'. qw_id w' = qw_id h \<and> qw_name w' = qw_name h \<and> qw_kind w' = qw_kind h"
  have merged: "triple ?I (remerge env u n f True w) (\<lambda>w' s. ?I s \<and> ?same w') (\<lambda>_. ?I)" for f
  proof (rule tripleI)
    have kept: "keeps_inv ?I (remerge env u n f True w)"
      by (rule remerge_held [OF _ _ Suc.prems])
    fix s
    assume I: "?I s"
    show "?I s' \<and> ?same w'" if "remerge env u n f True w s = Some (Inr w', s')" for w' s'
      using tripleD(1) [OF kept I that] that Suc.prems
      by (auto simp: remerge_def merged_write_def elim!: bind_eff_SomeE simp: then_eff_def return_eff_def)
    show "?I s'" if "remerge env u n f True w s = Some (Inl e, s')" for e s'
      by (rule tripleD(2) [OF kept I that])
  qed
  have again: "keeps_inv ?I (bind_eff (remerge env u n f True w) (apply_loop env u n merge True left))" for f
  proof (rule triple_bind [OF merged])
    show "triple (\<lambda>s. ?I s \<and> ?same w') (apply_loop env u n merge True left w') (\<lambda>_. ?I) (\<lambda>_. ?I)" for w'
      by (rule triple_pure) (simp add: Suc.IH)
  qed
  show ?case
    by (simp only: apply_loop.simps)
      (intro keeps_inv_then keeps_inv_catch triple_option keeps_inv_if keeps_inv_throw attempt_held held_kv_kinds again)
qed

lemma save_apply_held:
  fixes env :: "'w save_env"
  shows "triple (\<lambda>s. held g (heading u' inl h rest) s \<and> sa_item s = Some h) (save_apply env merge True)
     (\<lambda>_. held g (heading u' inl h rest)) (\<lambda>_. held g (heading u' inl h rest))"
proof -
  let ?I = "held g (heading u' inl h rest) :: 'w save \<Rightarrow> bool"
  have guard: "triple (\<lambda>s. ?I s \<and> sa_item s = Some h) guardOperation (\<lambda>_ s. ?I s \<and> sa_item s = Some h) (\<lambda>_. ?I)"
    by (rule keeps_weaken [OF guard_kept(1)]) simp
  have body: "keeps_inv ?I (bind_eff (runtime_kv env) (\<lambda>u.
      bind_eff (await env (sv_getEntry env u (qw_name h))) (\<lambda>remote.
      then_eff guardOperation
        (case already_applied h remote of
           Some c \<Rightarrow> cache_set (qw_name h) c
         | None \<Rightarrow> apply_loop env u n merge True (sv_maxMergeRetries env) h))))" for n
    by (intro keeps_inv_intros held_await held_cache held_kv_kinds apply_loop_held) simp_all
  show ?thesis
    unfolding save_apply_def if_True
  proof (rule triple_then [OF guard], rule triple_get, goal_cases)
    case (1 x)
    show ?case
    proof (cases "snd x = h")
      case True
      show ?thesis
        unfolding case_prod_beta True by (rule triple_pre [OF body]) auto
    qed (auto simp: triple_def)
  qed
qed

subsection \<open>The whole queue\<close>



text \<open>Two queues of the same writes, up to the versions they expect.\<close>

definition same_write :: "QueuedWrite \<Rightarrow> QueuedWrite \<Rightarrow> bool" where
  "same_write a b \<longleftrightarrow> qw_id a = qw_id b \<and> qw_name a = qw_name b \<and> qw_kind a = qw_kind b \<and> qw_value a = qw_value b"

lemma same_write_refl: "list_all2 same_write q q"
  by (rule list_all2_refl) (simp add: same_write_def)

lemma rebase_same: "list_all2 same_write q (rebase name v q)"
  by (induction q) (simp_all add: same_write_refl, simp_all add: same_write_def)

lemma same_write_trans: "list_all2 same_write a b \<Longrightarrow> list_all2 same_write b c \<Longrightarrow> list_all2 same_write a c"
  by (rule list_all2_trans [where ?P1.0 = same_write and ?P2.0 = same_write]) (auto simp: same_write_def)









subsection \<open>Every task ends\<close>

text \<open>A service, a storage and a merge that always answer, if only with an error.\<close>

definition answers :: "'w save_env \<Rightarrow> bool" where
  "answers env \<longleftrightarrow>
     (\<forall>u k w. sv_getEntry env u k w \<noteq> None) \<and> (\<forall>u k v c ttl w. sv_put env u k v c ttl w \<noteq> None) \<and>
     (\<forall>u k n w. sv_delete env u k n w \<noteq> None) \<and> (\<forall>u k d l h w. sv_incr env u k d l h w \<noteq> None) \<and>
     (\<forall>ns w. sv_load env ns w \<noteq> None) \<and> (\<forall>ns q w. sv_store env ns q w \<noteq> None)"

lemma ends_await: "(\<And>w. m w \<noteq> None) \<Longrightarrow> ends (await env m)"
  by (auto simp: ends_def await_def split: option.split)

lemma ends_answers:
  assumes "answers env"
  shows "ends (await env (sv_getEntry env u k))" "ends (await env (sv_put env u k v c ttl))"
    "ends (await env (sv_delete env u k n))" "ends (await env (sv_incr env u k n low high))"
    "ends (await env (sv_load env ns))" "ends (await env (sv_store env ns q))"
  by (rule ends_await; use assms in \<open>simp add: answers_def\<close>)+

lemma ends_small:
  "ends guardOperation" "ends (guard_generation g)" "ends (runtime_kv env)" "ends (lift_clone c)" "ends (cache_set name x)"
  "ends (choose_id env)"
  unfolding guardOperation_def guard_generation_def runtime_kv_def lift_clone_def cache_set_def
  by (intro ends_intros)+ (simp add: ends_def choose_id_def split: prod.split)

lemma ends_kind: "ends m \<Longrightarrow> ends n \<Longrightarrow> ends (case k of StoreWrite \<Rightarrow> m | RemoveWrite \<Rightarrow> n)"
  by (cases k) simp_all

lemma ends_run: "ends m \<Longrightarrow> ends (run_save m)"
  by (simp add: ends_def run_save_def runtime_run_def Let_def split: option.split sum.split)
    (metis option.distinct(1))

lemma ends_merge: "ends (merge_value env f v remote)"
  unfolding merge_value_def by (intro ends_intros ends_await ends_small) simp

lemmas ends_calls = ends_intros ends_small ends_kind ends_run ends_merge ends_answers

lemma ends_persist: "answers env \<Longrightarrow> ends (persistQueue env mk)"
  unfolding persistQueue_def store_queue_def by (intro ends_calls)

lemma ends_attempt: "answers env \<Longrightarrow> ends (attempt env u g w)"
  unfolding attempt_def by (intro ends_calls)

lemma ends_loop: "answers env \<Longrightarrow> ends (apply_loop env u g merge recover left w)"
proof (induction left arbitrary: w)
  case 0
  then show ?case by (simp only: apply_loop.simps) (intro ends_calls ends_attempt)
next
  case (Suc left)
  show ?case
    by (simp only: apply_loop.simps remerge_def) (intro ends_calls ends_attempt ends_persist Suc)
qed

lemma ends_apply: "answers env \<Longrightarrow> ends (save_apply env merge recover)"
  unfolding save_apply_def by (intro ends_calls ends_loop)

lemma ends_hydrate: "answers env \<Longrightarrow> ends (hydrate env)"
  unfolding hydrate_def by (intro ends_calls)

lemma ends_read: "answers env \<Longrightarrow> ends (save_read env name)"
  unfolding save_read_def staged_value_def fetch_entry_def cached_value_def by (intro ends_calls ends_hydrate)

lemma ends_enqueue: "answers env \<Longrightarrow> ends (enqueue_write env merge)"
  unfolding enqueue_write_def by (intro ends_calls ends_persist)

lemma ends_write: "answers env \<Longrightarrow> ends (save_write env name kind v opts)"
  unfolding save_write_def make_item_def send_item_def by (intro ends_calls ends_hydrate ends_read ends_enqueue ends_apply)

lemma ends_flush_head: "answers env \<Longrightarrow> ends (flush_head env)"
  unfolding flush_head_def by (intro ends_calls ends_apply ends_persist)

text \<open>A round that succeeds takes one write off the queue.\<close>

lemma flush_head_shrinks:
  assumes "flush_head env s = Some (Inr (), s')" "sa_writes s = h # rest"
  shows "length (sa_writes s') = length rest"
proof -
  let ?merge = "policy env (sa_inlineMerges s (qw_id h)) (qw_name h)"
  let ?s0 = "s\<lparr>sa_item := Some h\<rparr>"
  let ?strip = "\<lambda>s. s\<lparr>sa_inlineMerges := (sa_inlineMerges s)(qw_id h := None)\<rparr>"
  have run: "then_eff (run_save (save_apply env ?merge True))
      (then_eff (persistQueue env (rest_of_queue (qw_name h))) (modify_eff ?strip)) ?s0 = Some (Inr (), s')"
    using assms by (simp add: flush_head_def then_eff_def bind_eff_def get_eff_def modify_eff_def)
  then obtain s1 s2 where s1: "run_save (save_apply env ?merge True) ?s0 = Some (Inr (), s1)"
      and s2: "persistQueue env (rest_of_queue (qw_name h)) s1 = Some (Inr (), s2)" and s': "s' = ?strip s2"
    by (auto simp: then_eff_def modify_eff_def elim!: bind_eff_SomeE)
  have value1: "gen s1 = gen s" "save_apply env ?merge True ?s0 = Some (Inr (), s1)"
    using run_save_value [OF s1] by (simp_all add: gen_def)
  obtain u where u: "rt_identity (sa_runtime s) = Some u"
    using s1 by (cases "rt_identity (sa_runtime s)") (auto simp: run_save_def runtime_run_def)
  have start: "held (gen s) (heading u (sa_inlineMerges s) h rest) ?s0 \<and> sa_item ?s0 = Some h"
    using assms(2) u by (simp add: held_def heading_def core_def gen_def)
  have "held (gen s) (heading u (sa_inlineMerges s) h rest) s1"
    by (rule tripleD(1) [OF save_apply_held, OF start value1(2)])
  then have "length (rest_of_queue (qw_name h) s1) = length rest"
    using value1(1) list_all2_lengthD [OF rebase_same [of rest]]
    by (auto simp: held_def heading_def core_def rest_of_queue_def)
  moreover have "sa_writes s2 = rest_of_queue (qw_name h) s1"
    using s2 by (auto simp: persistQueue_def then_eff_def get_eff_def modify_eff_def elim!: bind_eff_SomeE split: prod.splits)
  ultimately show ?thesis by (simp add: s')
qed

lemma flush_loop_ends:
  assumes "answers env"
  shows "length (sa_writes s) < n \<Longrightarrow> flush_loop n env s \<noteq> None"
proof (induction n arbitrary: s)
  case (Suc n)
  show ?case
  proof (cases "may_flush s")
    case True
    then obtain h rest where writes: "sa_writes s = h # rest"
      by (cases "sa_writes s") (auto simp: may_flush_def)
    obtain r1 s1 where r1: "flush_head env s = Some (r1, s1)"
      using endsD [OF ends_flush_head [OF assms], of s] by auto
    show ?thesis
    proof (cases r1)
      case (Inr x)
      then have "length (sa_writes s1) < n"
        using flush_head_shrinks [OF _ writes] r1 Suc.prems writes by simp
      then show ?thesis
        using Suc.IH r1 Inr True by (simp add: bind_eff_def get_eff_def then_eff_def)
    qed (use r1 True in \<open>simp add: bind_eff_def get_eff_def then_eff_def\<close>)
  qed (simp add: bind_eff_def get_eff_def return_eff_def)
qed simp

lemma ends_flush: "answers env \<Longrightarrow> ends (save_flush env)"
proof -
  assume answers: "answers env"
  have loop: "ends (bind_eff (get_eff (\<lambda>s. length (sa_writes s))) (\<lambda>n. flush_loop (Suc n) env))"
    using flush_loop_ends [OF answers] unfolding ends_def bind_eff_def get_eff_def
    by (simp del: flush_loop.simps)
  show ?thesis
    unfolding save_flush_def by (intro ends_calls ends_hydrate answers loop)
qed

lemma ends_task: "answers env \<Longrightarrow> ends (run_task env t)"
  unfolding run_task_def save_update_def save_add_def claimOnce_def
  by (cases t) (simp_all only: save_task.case, (intro ends_calls ends_read ends_write ends_flush; assumption)+)

text \<open>
  C11: Every task of the lane ends, whatever the service answers and whatever happens meanwhile:
  loading, storing with its merge retries, and flushing a queue of any length.
\<close>
theorem every_save_task_ends:
  assumes "answers env"
  shows "\<exists>r s'. lane_task env s = Some (r, s')"
proof (cases "sa_lane s")
  case Nil
  then show ?thesis by (simp add: lane_task_def)
next
  case (Cons task waiting)
  have "ends (bind_eff (serial (fst task) (run_task env (snd task))) (\<lambda>r. return_eff (Some r)))"
    unfolding serial_def by (intro ends_calls ends_task assms)
  then show ?thesis
    using endsD [of _ "s\<lparr>sa_lane := waiting\<rparr>"] Cons by (cases task) (fastforce simp: lane_task_def)
qed

subsection \<open>A service with one key\<close>

text \<open>
  The values a key has had, the last one current and numbered by its version, and the log; another
  client is not there, and nothing happens to the runtime.
\<close>

type_synonym one_key = "json list \<times> logged list"

definition one_entry :: "json list \<Rightarrow> (json \<times> int) option" where
  "one_entry vs = (if vs = [] then None else Some (last vs, int (length vs)))"

definition refused :: thrown where
  "refused = ServiceError \<lparr>se_status = Some 409, se_code = Some ''conflict'', se_reason = None\<rparr>"

definition one_put ::
  "ustring \<Rightarrow> ustring \<Rightarrow> json \<Rightarrow> condition \<Rightarrow> int option \<Rightarrow> (thrown, int option, one_key) eff" where
  "one_put u k v c ttl w =
     (if condition_met c (one_entry (fst w))
      then Some (Inr (Some (int (length (fst w)) + 1)), (fst w @ [v], snd w @ [(u, k, one_entry (fst w), Some v)]))
      else Some (Inl refused, w))"

definition one_hist :: "one_key \<Rightarrow> ustring \<Rightarrow> ustring \<Rightarrow> int \<Rightarrow> json option" where
  "one_hist w u k n = (if 1 \<le> n \<and> nat n \<le> length (fst w) then Some (fst w ! (nat n - 1)) else None)"

definition one_env :: "one_key save_env" where
  "one_env =
     \<lparr>sv_channelId = ascii ''ch'', sv_url = Some (ascii ''url''), sv_collection = Some (ascii ''saves''),
      sv_adapter = True, sv_mergePolicies = (\<lambda>_. None), sv_maxMergeRetries = 3,
      sv_getEntry = (\<lambda>u k w. Some (Inr (one_entry (fst w)), w)), sv_put = one_put,
      sv_delete = (\<lambda>u k n w. Some (Inl refused, w)), sv_incr = (\<lambda>u k d l h w. Some (Inl refused, w)),
      sv_load = (\<lambda>ns w. Some (Inr (Some []), w)), sv_store = (\<lambda>ns q w. Some (Inr (), w)),
      sv_uuid = (\<lambda>w. (ascii ''id'', w)), sv_outside = (\<lambda>w. ([], w))\<rparr>"

lemma one_hist_append: "one_hist (vs, l) u k n = Some v \<Longrightarrow> one_hist (vs @ xs, l') u' k' n = Some v"
  by (auto simp: one_hist_def nth_append split: if_splits)

lemma one_hist_entry: "one_entry vs = Some (v, n) \<Longrightarrow> one_hist (vs, l) u k n = Some v"
proof -
  assume "one_entry vs = Some (v, n)"
  then have "vs \<noteq> []" "v = vs ! (length vs - 1)" "n = int (length vs)"
    by (auto simp: one_entry_def last_conv_nth split: if_splits)
  moreover have "0 < length vs" using \<open>vs \<noteq> []\<close> by simp
  ultimately show ?thesis by (simp add: one_hist_def Suc_le_eq)
qed

lemma one_laws: "kv_laws one_env snd one_hist"
proof -
  have put: "recorded snd one_hist u k c (Some v) w w'" if "one_put u k v c ttl w = Some (r, w')" for u k v c ttl w r w'
  proof -
    obtain vs l where w: "w = (vs, l)" by (cases w)
    have "one_hist (vs @ [v], l') u' k n = Some o'" if "one_entry vs = Some (o', n)" for l' o' n u'
      using one_hist_append [OF one_hist_entry] that by blast
    then show ?thesis
      using that one_hist_append [of vs l] unfolding w
      by (auto simp: one_put_def recorded_def split: if_splits)
  qed
  have none: "recorded snd one_hist u k c v w w" for u k c v w
    by (simp add: recorded_def)
  show ?thesis
    unfolding kv_laws_def
    by (auto simp: one_env_def quiet_def none dest: put one_hist_entry)
qed

lemma one_answers: "answers one_env"
  by (simp add: answers_def one_env_def one_put_def)

text \<open>A write that expects the first of two versions, and a merge that keeps both values.\<close>

definition both :: merge_policy where
  "both mine theirs = Inr (Some (JArr [the mine, the theirs]))"

definition stale_write :: QueuedWrite where
  "stale_write = \<lparr>qw_id = ascii ''a'', qw_name = ascii ''slot'', qw_kind = StoreWrite, qw_value = Some (JBool True),
     qw_expectedVersion = Some 1, qw_ttl = None\<rparr>"

definition one_save :: "one_key save" where
  "one_save =
     \<lparr>sa_cache = (\<lambda>_. None), sa_inlineMerges = (\<lambda>_. None)(ascii ''a'' := Some both), sa_writes = [stale_write],
      sa_namespace = Some [], sa_operationGeneration = Some 0, sa_item = Some stale_write, sa_lane = [(0, FlushTask)],
      sa_runtime = \<lparr>rt_identity = Some (ascii ''u''), rt_generation = 0, rt_foreground = True, rt_disposed = False\<rparr>,
      sa_world = ([JNull, JBool False], [])\<rparr>"

lemma one_apply_run: "\<exists>s'. save_apply one_env (Some both) False one_save = Some (Inr (), s') \<and>
    snd (sa_world s') = [(ascii ''u'', ascii ''slot'', Some (JBool False, 2), Some (JArr [JBool True, JBool False]))]"
  by (simp add: save_apply_def guardOperation_def guard_generation_def runtime_kv_def attempt_def remerge_def merge_value_def
      await_def settle_def cache_set_def lift_clone_def isKvConflict_def
      eff_defs one_save_def one_env_def one_put_def one_entry_def stale_write_def condition_met_def replaced_version_def
      refused_def clone_def both_def array_text_def merged_write_def set_item_def ascii_def numeral_3_eq_3)

lemma save_never_overwrites_unseen_witness:
  "\<exists>s' new. save_apply one_env (Some both) False one_save = Some (Inr (), s') \<and>
    snd (sa_world s') = [] @ new \<and> length new = 1 \<and>
    (\<forall>(owner, name, old, v) \<in> set new. owner = ascii ''u'' \<and> name = ascii ''slot'' \<and>
       (v = Some (JBool True) \<and> map_option snd old = Some 1 \<or>
        (\<exists>f mine x. Some both = Some f \<and> f mine (map_option fst old) = Inr (Some x) \<and> v = Some (reparsed x))))"
proof -
  obtain s' where s': "save_apply one_env (Some both) False one_save = Some (Inr (), s')" "length (snd (sa_world s')) = 1"
    using one_apply_run by fastforce
  have item: "sa_item one_save = Some stale_write" "rt_identity (sa_runtime one_save) = Some (ascii ''u'')"
      "snd (sa_world one_save) = []"
    by (simp_all add: one_save_def)
  show ?thesis
    using save_never_overwrites_unseen [OF one_laws item(1,2) s'(1)] s' unfolding item(3)
    by (auto simp: stale_write_def)
qed


lemma every_save_task_ends_witness: "\<exists>r s'. lane_task one_env one_save = Some (r, s')"
  by (rule every_save_task_ends [OF one_answers])

end
