(* ===== verification/Gateway_Socket.thy ===== *)
theory Gateway_Socket
  imports Complex_Main Game_Json
begin

section \<open>The gateway socket (gamebase-client: gateway-socket.ts, close-codes.ts, backoff.ts)\<close>

text \<open>
  A reconnecting WebSocket as a state machine. A step is a call of the client or an event of a
  socket or a timer. Handlers of the socket's own events run inside the step that emits them and
  may call \<open>close\<close> and \<open>send\<close>; they do not throw.
\<close>

subsection \<open>Close codes\<close>

datatype GatewayChannelKind = Lobby | Dungeon

datatype CloseDispositionKind = Reconnect | Stop | Aborted | FinishedRun | ClientBug

record CloseDisposition =
  cd_kind :: CloseDispositionKind
  cd_reason :: ustring

definition disposition :: "CloseDispositionKind \<Rightarrow> string \<Rightarrow> CloseDisposition" where
  "disposition k r = \<lparr>cd_kind = k, cd_reason = ascii r\<rparr>"

definition classifyClose :: "int \<Rightarrow> GatewayChannelKind \<Rightarrow> CloseDisposition" where
  "classifyClose code kind =
     (if code = 4000 then disposition Stop ''replaced by a newer connection''
      else if code = 4001 then
        (if kind = Dungeon then disposition Aborted ''the game actor stopped responding''
         else disposition Stop ''aborted'')
      else if code = 4002 then disposition Reconnect ''idle timeout''
      else if code = 4003 then disposition ClientBug ''too many refused messages''
      else if code = 4004 then disposition Stop ''channel expired or disabled''
      else if code = 4005 then disposition Reconnect ''too slow; the outbound queue filled''
      else if code = 1000 then
        (if kind = Dungeon then disposition FinishedRun ''the game dropped the connection''
         else disposition Stop ''closed normally'')
      else if code = 1001 then disposition Reconnect ''gateway restarting''
      else if code = 1003 then disposition ClientBug ''binary frame sent''
      else if code = 1009 then disposition ClientBug ''frame too large''
      else if code = 1011 then disposition Reconnect ''gateway failed to enter the game''
      else \<lparr>cd_kind = Reconnect, cd_reason = ascii ''connection lost ('' @ show_int code @ ascii '')''\<rparr>)"

subsection \<open>Backoff\<close>

text \<open>
  The delays are computed over the reals; \<open>Math.round\<close> rounds halves up. \<open>bo_random\<close> gives the
  n-th random number drawn.
\<close>

record BackoffOptions =
  bo_initialMs :: real
  bo_maxMs :: real
  bo_factor :: real
  bo_jitter :: real
  bo_maxAttempts :: "nat option"
  bo_random :: "nat \<Rightarrow> real"

definition math_round :: "real \<Rightarrow> int" where
  "math_round x = \<lfloor>x + 1 / 2\<rfloor>"

definition backoff_base :: "BackoffOptions \<Rightarrow> nat \<Rightarrow> real" where
  "backoff_base opts attempts = min (bo_maxMs opts) (bo_initialMs opts * bo_factor opts ^ attempts)"

text \<open>\<open>next()\<close>: the delay and the attempts after it; \<open>draws\<close> counts the random numbers.\<close>

definition backoff_next :: "BackoffOptions \<Rightarrow> nat \<Rightarrow> nat \<Rightarrow> (int \<times> nat) option" where
  "backoff_next opts draws attempts =
     (if (case bo_maxAttempts opts of None \<Rightarrow> False | Some n \<Rightarrow> n \<le> attempts) then None
      else
        (let base = backoff_base opts attempts; spread = base * bo_jitter opts in
         Some (math_round (base - spread + bo_random opts draws * spread * 2), Suc attempts)))"

subsection \<open>The state\<close>

datatype GatewayClientState = Idle | Connecting | Connected | Reconnecting | Closed

datatype gateway_event =
  OpenEvent
| HelloEvent json
| FrameEvent json
| DisconnectedEvent int ustring bool
| ReconnectingEvent nat int
| StoppedEvent CloseDisposition int
| ProtocolErrorEvent ustring

text \<open>What a handler does, and what goes to the sockets.\<close>

datatype reaction = DoClose | DoSend json

datatype wire = Constructed nat | Opened nat | ClosedWith nat int | SentOn nat json

datatype promise = NotCalled | Waiting | Resolved | Rejected ustring

record gateway_options =
  go_kind :: GatewayChannelKind
  go_maxHandshakeFailures :: nat
  go_backoff :: BackoffOptions
  go_constructs :: "nat \<Rightarrow> ustring option"
  go_parse :: "ustring \<Rightarrow> json option"
  go_reacts :: "gateway_event \<Rightarrow> reaction list"

text \<open>
  Sockets are numbered in the order in which their construction is tried. \<open>go_constructs\<close> gives the message of the
  error the constructor of a socket throws, and \<open>go_parse\<close> is \<open>JSON.parse\<close>.
\<close>

record gateway =
  gw_state :: GatewayClientState
  gw_socket :: "nat option"
  gw_created :: nat
  gw_closedByUser :: bool
  gw_ready :: bool
  gw_opened :: bool
  gw_helloTimer :: bool
  gw_reconnectTimer :: bool
  gw_closeOverride :: "CloseDisposition option"
  gw_handshakeFailures :: nat
  gw_attempts :: nat
  gw_draws :: nat
  gw_promise :: promise
  gw_events :: "gateway_event list"
  gw_wire :: "wire list"

definition createGatewaySocket :: gateway where
  "createGatewaySocket =
     \<lparr>gw_state = Idle, gw_socket = None, gw_created = 0, gw_closedByUser = False, gw_ready = False, gw_opened = False,
      gw_helloTimer = False, gw_reconnectTimer = False, gw_closeOverride = None, gw_handshakeFailures = 0,
      gw_attempts = 0, gw_draws = 0, gw_promise = NotCalled, gw_events = [], gw_wire = []\<rparr>"

definition to_wire :: "wire \<Rightarrow> gateway \<Rightarrow> gateway" where
  "to_wire w s = s\<lparr>gw_wire := gw_wire s @ [w]\<rparr>"

definition note_event :: "gateway_event \<Rightarrow> gateway \<Rightarrow> gateway" where
  "note_event ev s = s\<lparr>gw_events := gw_events s @ [ev]\<rparr>"

definition settle_connect :: "promise \<Rightarrow> gateway \<Rightarrow> gateway" where
  "settle_connect p s = (if gw_promise s = Waiting then s\<lparr>gw_promise := p\<rparr> else s)"

text \<open>\<open>socket.close(code)\<close>, if there is a socket.\<close>

definition close_socket :: "nat option \<Rightarrow> int \<Rightarrow> gateway \<Rightarrow> gateway" where
  "close_socket current code s = (case current of None \<Rightarrow> s | Some i \<Rightarrow> to_wire (ClosedWith i code) s)"

subsection \<open>The calls\<close>

text \<open>
  \<open>close\<close>. A handler of the event it emits finds the client closed: another \<open>close\<close> returns at once
  and a \<open>send\<close> throws.
\<close>

definition gateway_close :: "gateway \<Rightarrow> gateway" where
  "gateway_close s =
     (if gw_closedByUser s then s
      else
        (let current = gw_socket s; wasReady = gw_ready s;
             s1 = close_socket current 1000
               (s\<lparr>gw_closedByUser := True, gw_helloTimer := False, gw_reconnectTimer := False, gw_socket := None,
                  gw_ready := False, gw_state := Closed\<rparr>);
             s2 = (if wasReady \<or> current \<noteq> None then note_event (DisconnectedEvent 1000 (ascii ''client closed'') False) s1
                   else s1) in
         settle_connect (Rejected (ascii ''closed before the connection became ready'')) s2))"

text \<open>\<open>send\<close> throws \<open>cannot send in state ...\<close> with the state.\<close>

definition gateway_send :: "json \<Rightarrow> gateway \<Rightarrow> GatewayClientState + gateway" where
  "gateway_send frame s =
     (case gw_socket s of
        Some i \<Rightarrow> if gw_ready s then Inr (to_wire (SentOn i frame) s) else Inl (gw_state s)
      | None \<Rightarrow> Inl (gw_state s))"

definition react :: "reaction \<Rightarrow> gateway \<Rightarrow> gateway" where
  "react a s =
     (case a of
        DoClose \<Rightarrow> gateway_close s
      | DoSend frame \<Rightarrow> (case gateway_send frame s of Inl e \<Rightarrow> s | Inr s' \<Rightarrow> s'))"

definition emit_event :: "gateway_options \<Rightarrow> gateway_event \<Rightarrow> gateway \<Rightarrow> gateway" where
  "emit_event opts ev s = fold react (go_reacts opts ev) (note_event ev s)"

definition markReady :: "gateway \<Rightarrow> gateway" where
  "markReady s = settle_connect Resolved (s\<lparr>gw_ready := True, gw_state := Connected, gw_attempts := 0\<rparr>)"

definition stop_for_good :: "gateway_options \<Rightarrow> int \<Rightarrow> CloseDisposition \<Rightarrow> gateway \<Rightarrow> gateway" where
  "stop_for_good opts code d s =
     settle_connect (Rejected (ascii ''gateway connection stopped: '' @ cd_reason d))
       (emit_event opts (StoppedEvent d code)
          (emit_event opts (DisconnectedEvent code (cd_reason d) False) (s\<lparr>gw_state := Closed\<rparr>)))"

definition scheduleReconnect :: "gateway_options \<Rightarrow> int \<Rightarrow> CloseDisposition \<Rightarrow> gateway \<Rightarrow> gateway" where
  "scheduleReconnect opts code d s =
     (case backoff_next (go_backoff opts) (gw_draws s) (gw_attempts s) of
        None \<Rightarrow> stop_for_good opts code (disposition Stop ''reconnect attempts exhausted'') s
      | Some (delayMs, attempts) \<Rightarrow>
          (let s1 = s\<lparr>gw_attempts := attempts, gw_draws := Suc (gw_draws s), gw_state := Reconnecting\<rparr>;
               s2 = emit_event opts (DisconnectedEvent code (cd_reason d) True) s1;
               s3 = emit_event opts (ReconnectingEvent (gw_attempts s2) delayMs) s2 in
           s3\<lparr>gw_reconnectTimer := True\<rparr>))"

definition handshake_stop :: "nat \<Rightarrow> CloseDisposition" where
  "handshake_stop n =
     \<lparr>cd_kind = Stop, cd_reason = ascii ''handshake failed '' @ show_nat n @ ascii '' times in a row''\<rparr>"

definition handleClose :: "gateway_options \<Rightarrow> nat \<Rightarrow> int \<Rightarrow> gateway \<Rightarrow> gateway" where
  "handleClose opts gone code s =
     (if Some gone \<noteq> gw_socket s then s
      else
        (let s1 = s\<lparr>gw_socket := None, gw_ready := False, gw_helloTimer := False\<rparr> in
         if gw_closedByUser s1 then s1
         else
           (let d0 = (case gw_closeOverride s1 of Some d \<Rightarrow> d | None \<Rightarrow> classifyClose code (go_kind opts));
                s2 = s1\<lparr>gw_closeOverride := None,
                  gw_handshakeFailures := (if gw_opened s1 then gw_handshakeFailures s1 else Suc (gw_handshakeFailures s1))\<rparr>;
                d = (if \<not> gw_opened s1 \<and> cd_kind d0 = Reconnect \<and> go_maxHandshakeFailures opts \<le> gw_handshakeFailures s2
                     then handshake_stop (gw_handshakeFailures s2) else d0) in
            if cd_kind d = Reconnect then scheduleReconnect opts code d s2 else stop_for_good opts code d s2)))"

definition localCloseCode :: int where
  "localCloseCode = 4900"

definition localClose :: "CloseDisposition \<Rightarrow> gateway \<Rightarrow> gateway" where
  "localClose d s = close_socket (gw_socket s) localCloseCode (s\<lparr>gw_closeOverride := Some d\<rparr>)"

text \<open>The \<open>type\<close> of a frame, if it is an object with a string there.\<close>

definition frame_type :: "json \<Rightarrow> ustring option" where
  "frame_type v =
     (case v of
        JObj kvs \<Rightarrow> (case map_of kvs (ascii ''type'') of Some (JStr t) \<Rightarrow> Some t | _ \<Rightarrow> None)
      | _ \<Rightarrow> None)"

text \<open>A message; \<open>None\<close> is one that is not text.\<close>

definition handleMessage :: "gateway_options \<Rightarrow> nat \<Rightarrow> ustring option \<Rightarrow> gateway \<Rightarrow> gateway" where
  "handleMessage opts current data s =
     (if Some current \<noteq> gw_socket s then s
      else
        case data of
          None \<Rightarrow> emit_event opts (ProtocolErrorEvent (ascii ''non-text frame'')) s
        | Some raw \<Rightarrow>
            (case go_parse opts raw of
               None \<Rightarrow> emit_event opts (ProtocolErrorEvent (ascii ''frame is not JSON'')) s
             | Some parsed \<Rightarrow>
                 (case frame_type parsed of
                    None \<Rightarrow> emit_event opts (ProtocolErrorEvent (ascii ''frame has no string type'')) s
                  | Some t \<Rightarrow>
                      (if go_kind opts = Lobby \<and> \<not> gw_ready s then
                         (if t \<noteq> ascii ''hello'' then emit_event opts (ProtocolErrorEvent (ascii ''expected hello, got '' @ t)) s
                          else emit_event opts (HelloEvent parsed) (markReady (s\<lparr>gw_helloTimer := False\<rparr>)))
                       else emit_event opts (FrameEvent parsed) s))))"

definition open_socket :: "gateway_options \<Rightarrow> gateway \<Rightarrow> gateway" where
  "open_socket opts s =
     (if gw_closedByUser s then s
      else
        (let s1 = (if gw_state s \<noteq> Reconnecting then s\<lparr>gw_state := Connecting\<rparr> else s) in
         case go_constructs opts (gw_created s1) of
           Some message \<Rightarrow>
             stop_for_good opts 0 \<lparr>cd_kind = Stop, cd_reason = ascii ''cannot open WebSocket: '' @ message\<rparr>
               (s1\<lparr>gw_created := Suc (gw_created s1)\<rparr>)
         | None \<Rightarrow>
             to_wire (Constructed (gw_created s1))
               (s1\<lparr>gw_created := Suc (gw_created s1), gw_socket := Some (gw_created s1), gw_opened := False\<rparr>)))"

text \<open>The \<open>open\<close> event of a socket; \<open>bearer\<close>: it answers with the subprotocol.\<close>

definition handleOpen :: "gateway_options \<Rightarrow> nat \<Rightarrow> bool \<Rightarrow> gateway \<Rightarrow> gateway" where
  "handleOpen opts current bearer s =
     (if Some current \<noteq> gw_socket s then s
      else
        (let s1 = to_wire (Opened current) (s\<lparr>gw_opened := True, gw_handshakeFailures := 0\<rparr>) in
         if \<not> bearer then localClose (disposition Stop ''gateway did not select the bearer subprotocol'') s1
         else
           (let s2 = emit_event opts OpenEvent s1 in
            if go_kind opts = Dungeon then markReady s2 else s2\<lparr>gw_helloTimer := True\<rparr>)))"

definition helloTimeout :: "gateway \<Rightarrow> gateway" where
  "helloTimeout s =
     (if gw_helloTimer s then localClose (disposition Reconnect ''hello timeout'') (s\<lparr>gw_helloTimer := False\<rparr>) else s)"

definition reconnectTimeout :: "gateway_options \<Rightarrow> gateway \<Rightarrow> gateway" where
  "reconnectTimeout opts s =
     (if gw_reconnectTimer s then open_socket opts (s\<lparr>gw_reconnectTimer := False\<rparr>) else s)"

definition gateway_connect :: "gateway_options \<Rightarrow> gateway \<Rightarrow> gateway" where
  "gateway_connect opts s =
     (if gw_state s \<noteq> Idle then s else open_socket opts (s\<lparr>gw_promise := Waiting\<rparr>))"

datatype gateway_step =
  CallConnect
| CallClose
| CallSend json
| SocketOpen nat bool
| SocketMessage nat "ustring option"
| SocketClose nat int
| HelloTimeout
| ReconnectTimeout

definition gateway_do :: "gateway_options \<Rightarrow> gateway_step \<Rightarrow> gateway \<Rightarrow> gateway" where
  "gateway_do opts st s =
     (case st of
        CallConnect \<Rightarrow> gateway_connect opts s
      | CallClose \<Rightarrow> gateway_close s
      | CallSend frame \<Rightarrow> react (DoSend frame) s
      | SocketOpen i bearer \<Rightarrow> handleOpen opts i bearer s
      | SocketMessage i data \<Rightarrow> handleMessage opts i data s
      | SocketClose i code \<Rightarrow> handleClose opts i code s
      | HelloTimeout \<Rightarrow> helloTimeout s
      | ReconnectTimeout \<Rightarrow> reconnectTimeout opts s)"

definition gateway_run :: "gateway_options \<Rightarrow> gateway_step list \<Rightarrow> gateway" where
  "gateway_run opts steps = fold (gateway_do opts) steps createGatewaySocket"

end
