(* ===== verification/Gateway_Safety.thy ===== *)
theory Gateway_Safety
  imports Gateway_Socket
begin

section \<open>What the gateway socket guarantees\<close>

text \<open>
  For every sequence of calls, socket events and timers, and whatever the handlers do: the number
  of sockets that never opened stays bounded, \<open>close\<close> is final, and the promise of \<open>connect\<close> waits
  only while the client still tries.
\<close>

subsection \<open>Handshakes in a row\<close>

text \<open>The sockets constructed since one last opened.\<close>

definition unopened :: "wire list \<Rightarrow> nat" where
  "unopened ws = foldl (\<lambda>n w. case w of Constructed i \<Rightarrow> Suc n | Opened i \<Rightarrow> 0 | _ \<Rightarrow> n) 0 ws"

lemma unopened_simps [simp]:
  "unopened [] = 0" "unopened (ws @ [Constructed i]) = Suc (unopened ws)" "unopened (ws @ [Opened i]) = 0"
  "unopened (ws @ [ClosedWith i c]) = unopened ws" "unopened (ws @ [SentOn i f]) = unopened ws"
  by (simp_all add: unopened_def)

subsection \<open>The invariant\<close>

definition handshake_limit :: "gateway_options \<Rightarrow> nat" where
  "handshake_limit opts = max 1 (go_maxHandshakeFailures opts)"

definition closed_ok :: "gateway \<Rightarrow> bool" where
  "closed_ok s \<longleftrightarrow> gw_closedByUser s \<and> gw_socket s = None \<and> gw_promise s \<noteq> Waiting \<and> gw_state s \<noteq> Idle"

definition idle_ok :: "gateway \<Rightarrow> bool" where
  "idle_ok s \<longleftrightarrow> gw_promise s = NotCalled \<and> gw_socket s = None"

definition counts_ok :: "gateway_options \<Rightarrow> gateway \<Rightarrow> bool" where
  "counts_ok opts s \<longleftrightarrow>
     unopened (gw_wire s) = gw_handshakeFailures s + (if gw_socket s \<noteq> None \<and> \<not> gw_opened s then 1 else 0) \<and>
     gw_handshakeFailures s \<le> handshake_limit opts \<and>
     (gw_state s \<noteq> Closed \<longrightarrow> gw_handshakeFailures s < handshake_limit opts)"

definition trying_ok :: "gateway \<Rightarrow> bool" where
  "trying_ok s \<longleftrightarrow>
     (gw_state s = Idle \<longrightarrow> idle_ok s) \<and>
     (gw_socket s \<noteq> None \<longrightarrow> gw_state s \<in> {Connecting, Connected, Reconnecting} \<and> \<not> gw_reconnectTimer s) \<and>
     (gw_reconnectTimer s \<longrightarrow> gw_state s = Reconnecting)"

text \<open>All but the promise of a client that stopped, and the whole invariant.\<close>

definition gateway_base :: "gateway_options \<Rightarrow> gateway \<Rightarrow> bool" where
  "gateway_base opts s \<longleftrightarrow>
     unopened (gw_wire s) \<le> handshake_limit opts \<and>
     (if gw_closedByUser s then closed_ok s else counts_ok opts s \<and> trying_ok s)"

definition gateway_ok :: "gateway_options \<Rightarrow> gateway \<Rightarrow> bool" where
  "gateway_ok opts s \<longleftrightarrow> gateway_base opts s \<and> (gw_state s = Closed \<longrightarrow> gw_promise s \<noteq> Waiting \<and> gw_socket s = None)"

lemmas gateway_defs = gateway_base_def closed_ok_def counts_ok_def trying_ok_def idle_ok_def

lemma close_base:
  assumes "gateway_base opts s"
  shows "gateway_base opts (gateway_close s) \<and> gw_closedByUser (gateway_close s)"
  using assms
  by (cases "gw_socket s")
    (auto simp: gateway_close_def Let_def close_socket_def to_wire_def note_event_def settle_connect_def gateway_defs)

lemma send_base: "gateway_base opts s \<Longrightarrow> gateway_base opts (react (DoSend f) s)"
  by (auto simp: react_def gateway_send_def to_wire_def gateway_defs split: option.split)

text \<open>
  What a handler can do: nothing to the fields the machine runs on, or close the client.
\<close>

definition machine where
  "machine s = ((gw_state s, gw_socket s, gw_created s, gw_closedByUser s, gw_ready s, gw_opened s),
     (gw_reconnectTimer s, gw_promise s, gw_attempts s, gw_handshakeFailures s, unopened (gw_wire s)))"

definition untouched :: "gateway \<Rightarrow> gateway \<Rightarrow> bool" where
  "untouched s s' \<longleftrightarrow> machine s' = machine s"

lemma untouched_refl: "untouched s s"
  by (simp add: untouched_def)

lemma untouched_trans: "untouched a b \<Longrightarrow> untouched b c \<Longrightarrow> untouched a c"
  by (simp add: untouched_def)

lemma untouched_fields:
  assumes "untouched s s'"
  shows "gw_state s' = gw_state s" "gw_socket s' = gw_socket s" "gw_created s' = gw_created s"
    "gw_closedByUser s' = gw_closedByUser s" "gw_ready s' = gw_ready s" "gw_opened s' = gw_opened s"
    "gw_reconnectTimer s' = gw_reconnectTimer s" "gw_promise s' = gw_promise s" "gw_attempts s' = gw_attempts s"
    "gw_handshakeFailures s' = gw_handshakeFailures s" "unopened (gw_wire s') = unopened (gw_wire s)"
  using assms by (simp_all add: untouched_def machine_def)

lemma untouched_base: "untouched s s' \<Longrightarrow> gateway_base opts s' = gateway_base opts s"
  unfolding gateway_defs by (simp only: untouched_fields)

lemma react_effect:
  assumes "gateway_base opts s"
  shows "gateway_base opts (react a s) \<and> (untouched s (react a s) \<or> gw_closedByUser (react a s))"
proof (cases a)
  case DoClose
  then show ?thesis using close_base [OF assms] by (simp add: react_def)
next
  case (DoSend f)
  have "untouched s (react (DoSend f) s)"
  proof (cases "gateway_send f s")
    case (Inl e)
    then show ?thesis by (simp add: react_def untouched_refl)
  next
    case (Inr t)
    then obtain i where "t = to_wire (SentOn i f) s"
      by (auto simp: gateway_send_def split: option.splits if_splits)
    then show ?thesis
      using Inr by (simp add: untouched_def react_def to_wire_def machine_def)
  qed
  then show ?thesis using send_base [OF assms] DoSend by blast
qed

lemma react_closed: "gw_closedByUser s \<Longrightarrow> gw_closedByUser (react a s)"
  by (cases a) (auto simp: react_def gateway_close_def gateway_send_def to_wire_def split: option.split)

lemma emit_effect:
  assumes "gateway_base opts s"
  shows "gateway_base opts (emit_event o' ev s) \<and> (untouched s (emit_event o' ev s) \<or> gw_closedByUser (emit_event o' ev s))"
proof -
  have "gateway_base opts (fold react acts t) \<and> (untouched s (fold react acts t) \<or> gw_closedByUser (fold react acts t))"
    if "gateway_base opts t" "untouched s t \<or> gw_closedByUser t" for acts t
    using that
  proof (induction acts arbitrary: t)
    case (Cons a acts)
    have "untouched s (react a t) \<or> gw_closedByUser (react a t)"
      using Cons.prems(2) react_effect [OF Cons.prems(1), of a] react_closed untouched_trans by blast
    then show ?case
      using Cons.IH [of "react a t"] react_effect [OF Cons.prems(1), of a] by simp
  qed simp
  moreover have "untouched s (note_event ev s)"
    by (simp add: untouched_def note_event_def machine_def)
  moreover from this have "gateway_base opts (note_event ev s)"
    using untouched_base assms by blast
  ultimately show ?thesis unfolding emit_event_def by blast
qed

lemma base_open: "gateway_base opts s \<Longrightarrow> \<not> gw_closedByUser s \<Longrightarrow> counts_ok opts s \<and> trying_ok s"
  by (simp add: gateway_base_def)

lemma base_closed: "gateway_base opts s \<Longrightarrow> gw_closedByUser s \<Longrightarrow> closed_ok s"
  by (simp add: gateway_base_def)

subsection \<open>Every step keeps it\<close>

lemma settled_simps [simp]:
  "gw_promise (settle_connect p s) = (if gw_promise s = Waiting then p else gw_promise s)"
  "gw_state (settle_connect p s) = gw_state s" "gw_socket (settle_connect p s) = gw_socket s"
  "gw_wire (settle_connect p s) = gw_wire s" "gw_closedByUser (settle_connect p s) = gw_closedByUser s"
  "gw_ready (settle_connect p s) = gw_ready s" "gw_attempts (settle_connect p s) = gw_attempts s"
  "gw_opened (settle_connect p s) = gw_opened s" "gw_reconnectTimer (settle_connect p s) = gw_reconnectTimer s"
  "gw_handshakeFailures (settle_connect p s) = gw_handshakeFailures s"
  by (simp_all add: settle_connect_def)

lemma settle_connect_base: "gateway_base opts s \<Longrightarrow> p \<noteq> Waiting \<Longrightarrow> gateway_base opts (settle_connect p s)"
proof (cases "gw_promise s = Waiting")
  case True
  assume base: "gateway_base opts s" and "p \<noteq> Waiting"
  have "\<not> gw_closedByUser s" using base_closed [OF base] True by (auto simp: closed_ok_def)
  with base have "counts_ok opts s" "trying_ok s" "unopened (gw_wire s) \<le> handshake_limit opts"
    by (simp_all add: gateway_base_def)
  moreover have "counts_ok opts (settle_connect p s) = counts_ok opts s"
    by (simp only: counts_ok_def settled_simps)
  moreover have "trying_ok (settle_connect p s)"
    using \<open>trying_ok s\<close> True by (simp add: trying_ok_def idle_ok_def)
  ultimately show ?thesis
    using \<open>\<not> gw_closedByUser s\<close> by (simp add: gateway_base_def)
qed (simp add: settle_connect_def)

lemma stop_ok:
  assumes "gateway_base opts (s\<lparr>gw_state := Closed\<rparr>)"
  shows "gateway_ok opts (stop_for_good opts code d s)"
proof -
  let ?s0 = "s\<lparr>gw_state := Closed\<rparr>"
  let ?s1 = "emit_event opts (DisconnectedEvent code (cd_reason d) False) ?s0"
  let ?s2 = "emit_event opts (StoppedEvent d code) ?s1"
  note e1 = emit_effect [OF assms, of opts "DisconnectedEvent code (cd_reason d) False"]
  note e2 = emit_effect [OF conjunct1 [OF e1], of opts "StoppedEvent d code"]
  have "gw_socket ?s2 = None"
  proof (cases "gw_closedByUser ?s2")
    case True
    then show ?thesis using base_closed e2 by (auto simp: closed_ok_def)
  next
    case False
    then have "untouched ?s1 ?s2" using e2 by blast
    then have "\<not> gw_closedByUser ?s1" using False by (simp add: untouched_fields)
    then have "untouched ?s0 ?s1" using e1 by blast
    then show ?thesis
      using \<open>untouched ?s1 ?s2\<close> base_open [OF assms] \<open>\<not> gw_closedByUser ?s1\<close>
      by (auto simp: untouched_fields trying_ok_def)
  qed
  then show ?thesis
    using settle_connect_base [of opts ?s2 "Rejected (ascii ''gateway connection stopped: '' @ cd_reason d)"] e2
    by (auto simp: gateway_ok_def stop_for_good_def)
qed

lemma schedule_ok:
  assumes "gateway_base opts s" "\<not> gw_closedByUser s" "gw_socket s = None" "gw_state s \<noteq> Idle"
    "gw_handshakeFailures s < handshake_limit opts" "\<not> gw_reconnectTimer s"
  shows "gateway_ok opts (scheduleReconnect opts code d s)"
proof (cases "backoff_next (go_backoff opts) (gw_draws s) (gw_attempts s)")
  case None
  have "gateway_base opts (s\<lparr>gw_state := Closed\<rparr>)"
    using assms by (auto simp: gateway_defs)
  then show ?thesis using None stop_ok by (simp add: scheduleReconnect_def)
next
  case (Some p)
  obtain delayMs attempts where p: "p = (delayMs, attempts)" by (cases p)
  let ?s1 = "s\<lparr>gw_attempts := attempts, gw_draws := Suc (gw_draws s), gw_state := Reconnecting\<rparr>"
  let ?s2 = "emit_event opts (DisconnectedEvent code (cd_reason d) True) ?s1"
  let ?s3 = "emit_event opts (ReconnectingEvent (gw_attempts ?s2) delayMs) ?s2"
  have b1: "gateway_base opts ?s1" using assms by (auto simp: gateway_defs)
  note e2 = emit_effect [OF b1, of opts "DisconnectedEvent code (cd_reason d) True"]
  note e3 = emit_effect [OF conjunct1 [OF e2], of opts "ReconnectingEvent (gw_attempts ?s2) delayMs"]
  have result: "scheduleReconnect opts code d s = ?s3\<lparr>gw_reconnectTimer := True\<rparr>"
    using Some by (simp add: scheduleReconnect_def p Let_def)
  show ?thesis
  proof (cases "gw_closedByUser ?s3")
    case True
    then have "closed_ok ?s3" using base_closed e3 by blast
    then show ?thesis
      using e3 True unfolding result by (auto simp: gateway_ok_def gateway_defs)
  next
    case False
    then have "untouched ?s2 ?s3" using e3 by blast
    then have "\<not> gw_closedByUser ?s2" using False by (simp add: untouched_fields)
    then have "untouched ?s1 ?s2" using e2 by blast
    note f = untouched_fields [OF this] untouched_fields [OF \<open>untouched ?s2 ?s3\<close>]
    show ?thesis
      using e3 False assms(3) f unfolding result by (auto simp: gateway_ok_def gateway_defs)
  qed
qed

lemma handleClose_ok:
  assumes "gateway_ok opts s"
  shows "gateway_ok opts (handleClose opts i code s)"
proof (cases "Some i = gw_socket s")
  case False
  then show ?thesis using assms by (simp add: handleClose_def)
next
  case True
  have base: "gateway_base opts s" using assms by (simp add: gateway_ok_def)
  have open': "\<not> gw_closedByUser s"
    using base_closed [OF base] True by (auto simp: closed_ok_def)
  note counts = base_open [OF base open']
  let ?hf = "if gw_opened s then gw_handshakeFailures s else Suc (gw_handshakeFailures s)"
  let ?s2 = "s\<lparr>gw_socket := None, gw_ready := False, gw_helloTimer := False, gw_closeOverride := None,
      gw_handshakeFailures := ?hf\<rparr>"
  let ?d0 = "case gw_closeOverride s of Some d \<Rightarrow> d | None \<Rightarrow> classifyClose code (go_kind opts)"
  let ?d = "if \<not> gw_opened s \<and> cd_kind ?d0 = Reconnect \<and> go_maxHandshakeFailures opts \<le> ?hf then handshake_stop ?hf else ?d0"
  have result: "handleClose opts i code s =
      (if cd_kind ?d = Reconnect then scheduleReconnect opts code ?d ?s2 else stop_for_good opts code ?d ?s2)"
    using True open' by (simp add: handleClose_def Let_def)
  have facts: "gw_state s \<in> {Connecting, Connected, Reconnecting}" "\<not> gw_reconnectTimer s"
      "unopened (gw_wire s) = gw_handshakeFailures s + (if gw_opened s then 0 else 1)"
      "unopened (gw_wire s) \<le> handshake_limit opts" "gw_handshakeFailures s < handshake_limit opts"
    using counts True [symmetric] base by (simp_all add: counts_ok_def trying_ok_def gateway_base_def) auto
  show ?thesis
  proof (cases "cd_kind ?d = Reconnect")
    case reconnect: True
    have "?hf < handshake_limit opts"
    proof (cases "gw_opened s")
      case False
      then have "\<not> go_maxHandshakeFailures opts \<le> ?hf"
        using reconnect by (auto simp: handshake_stop_def split: if_splits)
      then show ?thesis by (simp add: handshake_limit_def)
    qed (use facts(5) in simp)
    then have "gateway_ok opts (scheduleReconnect opts code ?d ?s2)"
      by (intro schedule_ok) (use facts open' in \<open>auto simp: gateway_defs\<close>)
    then show ?thesis unfolding result if_P [OF reconnect] .
  next
    case False
    have "gateway_base opts (?s2\<lparr>gw_state := Closed\<rparr>)"
      using facts open' by (auto simp: gateway_defs)
    then show ?thesis unfolding result if_not_P [OF False] by (rule stop_ok)
  qed
qed

lemma markReady_ok:
  assumes "gateway_base opts s" "gw_socket s \<noteq> None \<or> gw_closedByUser s" "gw_state s \<noteq> Closed \<or> gw_closedByUser s"
  shows "gateway_ok opts (markReady s)"
proof (cases "gw_closedByUser s")
  case True
  then have "closed_ok s" using base_closed assms(1) by blast
  then show ?thesis
    using assms(1) True by (simp add: gateway_ok_def gateway_base_def closed_ok_def markReady_def settle_connect_def)
next
  case False
  note open' = base_open [OF assms(1) False]
  have "counts_ok opts (markReady s)"
    using open' assms(2,3) False by (simp add: counts_ok_def markReady_def settle_connect_def)
  moreover have "trying_ok (markReady s)"
    using open' assms(2) False by (simp add: trying_ok_def markReady_def settle_connect_def)
  ultimately show ?thesis
    using assms(1) False by (simp add: gateway_ok_def gateway_base_def markReady_def settle_connect_def)
qed

lemma gateway_ok_base: "gateway_ok opts s \<Longrightarrow> gateway_base opts s"
  by (simp add: gateway_ok_def)

lemma live_socket:
  assumes "gateway_base opts s" "gw_socket s = Some i"
  shows "\<not> gw_closedByUser s" "gw_state s \<in> {Connecting, Connected, Reconnecting}" "\<not> gw_reconnectTimer s"
proof -
  show open': "\<not> gw_closedByUser s"
    using base_closed [OF assms(1)] assms(2) by (auto simp: closed_ok_def)
  show "gw_state s \<in> {Connecting, Connected, Reconnecting}" "\<not> gw_reconnectTimer s"
    using base_open [OF assms(1) open'] assms(2) by (simp_all add: trying_ok_def)
qed

text \<open>A state with a live socket, and what a step may do to the fields the invariant does not read.\<close>

lemma emit_live_ok:
  assumes "gateway_base opts s" "gw_socket s = Some i"
  shows "gateway_ok opts (emit_event o' ev s) \<and>
    (gw_closedByUser (emit_event o' ev s) \<or>
     gw_socket (emit_event o' ev s) = Some i \<and> gw_state (emit_event o' ev s) = gw_state s)"
proof -
  note e = emit_effect [OF assms(1), of o' ev]
  show ?thesis
  proof (cases "gw_closedByUser (emit_event o' ev s)")
    case True
    then have "closed_ok (emit_event o' ev s)" using base_closed e by blast
    then show ?thesis using e True by (simp add: gateway_ok_def closed_ok_def)
  next
    case False
    then have "untouched s (emit_event o' ev s)" using e by blast
    then show ?thesis
      using e live_socket [OF assms] assms(2) by (auto simp: gateway_ok_def untouched_fields)
  qed
qed

lemma close_socket_untouched: "untouched s (close_socket c code s)"
  by (cases c) (simp_all add: close_socket_def to_wire_def untouched_def machine_def)

lemma override_base: "gateway_base opts (s\<lparr>gw_closeOverride := d\<rparr>) = gateway_base opts s"
  unfolding gateway_defs by simp

lemma localClose_ok: "gateway_ok opts s \<Longrightarrow> gateway_ok opts (localClose d s)"
proof -
  assume ok: "gateway_ok opts s"
  let ?t = "s\<lparr>gw_closeOverride := Some d\<rparr>"
  have "untouched ?t (localClose d s)" unfolding localClose_def by (rule close_socket_untouched)
  then show ?thesis
    using ok untouched_base [of ?t] by (simp add: gateway_ok_def override_base untouched_fields)
qed

lemma helloTimer_ok: "gateway_ok opts (s\<lparr>gw_helloTimer := b\<rparr>) = gateway_ok opts s"
  unfolding gateway_ok_def gateway_defs by simp

lemma handleOpen_ok:
  assumes "gateway_ok opts s"
  shows "gateway_ok opts (handleOpen opts i bearer s)"
proof (cases "Some i = gw_socket s")
  case False
  then show ?thesis using assms by (simp add: handleOpen_def)
next
  case True
  let ?s1 = "to_wire (Opened i) (s\<lparr>gw_opened := True, gw_handshakeFailures := 0\<rparr>)"
  note base = gateway_ok_base [OF assms]
  have live: "\<not> gw_closedByUser s" "gw_state s \<in> {Connecting, Connected, Reconnecting}"
    using live_socket [OF base] True by metis+
  have "0 < handshake_limit opts" by (simp add: handshake_limit_def)
  moreover have "trying_ok ?s1 = trying_ok s"
    by (simp add: trying_ok_def idle_ok_def to_wire_def)
  ultimately have base1: "gateway_base opts ?s1"
    using live(1) base_open [OF base live(1)] by (simp add: gateway_base_def to_wire_def counts_ok_def)
  have socket1: "gw_socket ?s1 = Some i" using True by (simp add: to_wire_def)
  have ok1: "gateway_ok opts ?s1"
    using base1 live(2) by (auto simp: gateway_ok_def to_wire_def)
  note emitted = emit_live_ok [OF base1 socket1, of opts OpenEvent]
  have "gateway_ok opts (markReady (emit_event opts OpenEvent ?s1))"
  proof (rule markReady_ok)
    show "gateway_base opts (emit_event opts OpenEvent ?s1)"
      using emitted by (simp add: gateway_ok_def)
    show "gw_socket (emit_event opts OpenEvent ?s1) \<noteq> None \<or> gw_closedByUser (emit_event opts OpenEvent ?s1)"
      "gw_state (emit_event opts OpenEvent ?s1) \<noteq> Closed \<or> gw_closedByUser (emit_event opts OpenEvent ?s1)"
      using emitted live(2) by (auto simp: to_wire_def)
  qed
  then show ?thesis
    using True localClose_ok [OF ok1] emitted by (simp add: handleOpen_def Let_def helloTimer_ok)
qed

lemma handleMessage_ok:
  assumes "gateway_ok opts s"
  shows "gateway_ok opts (handleMessage opts i data s)"
proof (cases "Some i = gw_socket s")
  case False
  then show ?thesis using assms by (simp add: handleMessage_def)
next
  case True
  then have socket: "gw_socket s = Some i" by simp
  note base = gateway_ok_base [OF assms]
  note live = live_socket [OF base socket]
  have emitted: "gateway_ok opts (emit_event opts ev s)" for ev
    using emit_live_ok [OF base socket] by blast
  let ?t = "markReady (s\<lparr>gw_helloTimer := False\<rparr>)"
  have "gateway_ok opts ?t"
    by (rule markReady_ok)
      (use gateway_ok_base [OF iffD2 [OF helloTimer_ok assms]] socket live in \<open>auto simp: helloTimer_ok\<close>)
  then have hello: "gateway_ok opts (emit_event opts (HelloEvent v) ?t)" for v
    using emit_live_ok [of opts ?t i] socket gateway_ok_base
    by (simp add: markReady_def settle_connect_def)
  show ?thesis
    using True emitted hello by (simp add: handleMessage_def split: option.split)
qed

lemma open_socket_ok:
  assumes "gateway_base opts s" "gw_socket s = None" "\<not> gw_reconnectTimer s"
    and "gw_closedByUser s \<longrightarrow> gateway_ok opts s"
    and "\<not> gw_closedByUser s \<longrightarrow> gw_handshakeFailures s < handshake_limit opts"
  shows "gateway_ok opts (open_socket opts s)"
proof (cases "gw_closedByUser s")
  case True
  then show ?thesis using assms by (simp add: open_socket_def)
next
  case False
  let ?s1 = "if gw_state s \<noteq> Reconnecting then s\<lparr>gw_state := Connecting\<rparr> else s"
  note counts = conjunct1 [OF base_open [OF assms(1) False]]
  show ?thesis
  proof (cases "go_constructs opts (gw_created s)")
    case (Some m)
    have "gateway_base opts (?s1\<lparr>gw_created := Suc (gw_created ?s1), gw_state := Closed\<rparr>)"
      using counts assms(1-3,5) False by (simp add: gateway_base_def counts_ok_def trying_ok_def)
    then show ?thesis
      using stop_ok [of opts "?s1\<lparr>gw_created := Suc (gw_created ?s1)\<rparr>"] False Some
      by (cases "gw_state s = Reconnecting") (simp_all add: open_socket_def Let_def)
  next
    case None
    then show ?thesis
      using counts assms False
      by (auto simp: open_socket_def Let_def to_wire_def gateway_ok_def gateway_base_def counts_ok_def trying_ok_def)
  qed
qed

lemma step_ok:
  assumes "gateway_ok opts s"
  shows "gateway_ok opts (gateway_do opts st s)"
proof (cases st)
  case CallConnect
  show ?thesis
  proof (cases "gw_state s = Idle")
    case True
    have "\<not> gw_closedByUser s"
      using base_closed [OF gateway_ok_base [OF assms]] True by (auto simp: closed_ok_def)
    then have "counts_ok opts s" "trying_ok s"
      using base_open [OF gateway_ok_base [OF assms]] by blast+
    then have "gateway_ok opts (open_socket opts (s\<lparr>gw_promise := Waiting, gw_state := Connecting\<rparr>))"
      using True \<open>\<not> gw_closedByUser s\<close> assms
      by (intro open_socket_ok) (simp_all add: gateway_ok_def gateway_base_def counts_ok_def trying_ok_def idle_ok_def)
    moreover have "open_socket opts (s\<lparr>gw_promise := Waiting, gw_state := Connecting\<rparr>) = open_socket opts (s\<lparr>gw_promise := Waiting\<rparr>)"
      using \<open>\<not> gw_closedByUser s\<close> True by (simp add: open_socket_def Let_def)
    ultimately show ?thesis
      using CallConnect True by (simp add: gateway_do_def gateway_connect_def)
  qed (use CallConnect assms in \<open>simp add: gateway_do_def gateway_connect_def\<close>)
next
  case CallClose
  then have "gateway_base opts (gateway_do opts st s)" "gw_closedByUser (gateway_do opts st s)"
    using close_base [OF gateway_ok_base [OF assms]] by (simp_all add: gateway_do_def)
  then show ?thesis
    using base_closed by (auto simp: gateway_ok_def closed_ok_def)
next
  case (CallSend f)
  have "untouched s (react (DoSend f) s)"
    by (auto simp: react_def gateway_send_def to_wire_def untouched_def machine_def split: option.split)
  then show ?thesis
    using assms untouched_base CallSend by (simp add: gateway_ok_def gateway_do_def untouched_fields)
next
  case ReconnectTimeout
  show ?thesis
  proof (cases "gw_reconnectTimer s")
    case True
    note base = gateway_ok_base [OF assms]
    have "gw_socket s = None"
      using live_socket(3) [OF base] True by (cases "gw_socket s") auto
    moreover have "gw_closedByUser s \<or> gw_state s = Reconnecting"
      using True base_open [OF base] by (auto simp: trying_ok_def)
    ultimately have state: "gw_socket s = None" "gw_closedByUser s \<or> gw_state s = Reconnecting" by blast+
    have "trying_ok (s\<lparr>gw_reconnectTimer := False\<rparr>)" if "trying_ok s"
      using that state(1) by (simp add: trying_ok_def idle_ok_def)
    moreover have "closed_ok (s\<lparr>gw_reconnectTimer := False\<rparr>) = closed_ok s"
      "counts_ok opts (s\<lparr>gw_reconnectTimer := False\<rparr>) = counts_ok opts s"
      by (simp_all add: closed_ok_def counts_ok_def)
    ultimately have same: "gateway_ok opts (s\<lparr>gw_reconnectTimer := False\<rparr>)"
      using assms by (cases "gw_closedByUser s") (simp_all add: gateway_ok_def gateway_base_def)
    have "gw_handshakeFailures s < handshake_limit opts" if "\<not> gw_closedByUser s"
      using base_open [OF base that] state(2) that by (auto simp: counts_ok_def)
    then have "gateway_ok opts (open_socket opts (s\<lparr>gw_reconnectTimer := False\<rparr>))"
      using same state by (intro open_socket_ok) (simp_all add: gateway_ok_def)
    then show ?thesis using True ReconnectTimeout by (simp add: gateway_do_def reconnectTimeout_def)
  qed (use ReconnectTimeout assms in \<open>simp add: gateway_do_def reconnectTimeout_def\<close>)
next
  case HelloTimeout
  then show ?thesis
    using assms localClose_ok by (simp add: gateway_do_def helloTimeout_def helloTimer_ok)
qed (use assms handleOpen_ok handleMessage_ok handleClose_ok in \<open>simp_all add: gateway_do_def\<close>)

lemma run_ok: "gateway_ok opts (gateway_run opts steps)"
proof -
  have "gateway_ok opts s \<Longrightarrow> gateway_ok opts (fold (gateway_do opts) steps s)" for s
    by (induction steps arbitrary: s) (simp_all add: step_ok)
  moreover have "gateway_ok opts createGatewaySocket"
    by (simp add: createGatewaySocket_def gateway_ok_def gateway_base_def counts_ok_def trying_ok_def idle_ok_def
        handshake_limit_def)
  ultimately show ?thesis by (simp add: gateway_run_def)
qed

subsection \<open>A closed client\<close>

text \<open>Nothing a closed client is told makes it do anything.\<close>

lemma closed_step:
  assumes "closed_ok s"
  shows "closed_ok (gateway_do opts st s) \<and> gw_wire (gateway_do opts st s) = gw_wire s \<and>
    gw_promise (gateway_do opts st s) = gw_promise s \<and> gw_events (gateway_do opts st s) = gw_events s"
  using assms
  by (cases st)
    (simp_all add: gateway_do_def closed_ok_def gateway_connect_def gateway_close_def react_def gateway_send_def
      handleOpen_def handleMessage_def handleClose_def helloTimeout_def reconnectTimeout_def localClose_def
      close_socket_def open_socket_def)

lemma closed_run:
  "closed_ok s \<Longrightarrow>
   closed_ok (fold (gateway_do opts) steps s) \<and> gw_wire (fold (gateway_do opts) steps s) = gw_wire s \<and>
   gw_promise (fold (gateway_do opts) steps s) = gw_promise s \<and> gw_events (fold (gateway_do opts) steps s) = gw_events s"
  by (induction steps arbitrary: s) (simp_all add: closed_step)

text \<open>
  \<open>close\<close> is final: whatever the sockets, the timers and later calls do after it, no socket is
  constructed, nothing is sent, no event is emitted, \<open>send\<close> throws, and the promise of \<open>connect\<close>
  was settled by then and stays as it is.
\<close>
theorem gateway_close_is_final:
  "let s = gateway_run opts (before @ [CallClose]); s' = gateway_run opts (before @ [CallClose] @ later) in
   gw_wire s' = gw_wire s \<and> gw_events s' = gw_events s \<and> gw_socket s' = None \<and>
   gw_promise s' = gw_promise s \<and> gw_promise s' \<noteq> Waiting \<and> gateway_send frame s' = Inl (gw_state s')"
proof -
  let ?s = "gateway_run opts (before @ [CallClose])"
  have "gw_closedByUser ?s" "gateway_ok opts ?s"
    using close_base [OF gateway_ok_base [OF run_ok [of opts before]]] run_ok [of opts "before @ [CallClose]"]
    by (simp_all add: gateway_run_def gateway_do_def)
  then have "closed_ok ?s" using base_closed gateway_ok_base by blast
  then show ?thesis
    using closed_run [of ?s opts later] by (simp add: gateway_run_def closed_ok_def gateway_send_def Let_def)
qed

text \<open>
  A client whose sockets never open gives up: at no moment have more than
  \<open>maxHandshakeFailures\<close> sockets (at least one) been constructed since one last opened, so a dead
  token cannot be retried forever; and a client that stopped has settled the promise of \<open>connect\<close>
  and holds no socket.
\<close>
theorem dead_token_is_given_up:
  "unopened (gw_wire (gateway_run opts steps)) \<le> max 1 (go_maxHandshakeFailures opts) \<and>
   (gw_state (gateway_run opts steps) = Closed \<longrightarrow>
      gw_promise (gateway_run opts steps) \<noteq> Waiting \<and> gw_socket (gateway_run opts steps) = None)"
  using run_ok [of opts steps] by (simp add: gateway_ok_def gateway_base_def handshake_limit_def)

subsection \<open>Connected means usable\<close>

definition usable :: "gateway \<Rightarrow> bool" where
  "usable s \<longleftrightarrow> (gw_ready s \<longleftrightarrow> gw_state s = Connected) \<and> (gw_ready s \<longrightarrow> gw_socket s \<noteq> None)"

lemma close_socket_fields [simp]:
  "gw_state (close_socket c n s) = gw_state s" "gw_ready (close_socket c n s) = gw_ready s"
  "gw_socket (close_socket c n s) = gw_socket s"
  by (simp_all add: close_socket_def to_wire_def split: option.split)

lemma react_usable: "usable s \<Longrightarrow> usable (react a s)"
  by (cases a)
    (auto simp: usable_def react_def gateway_close_def Let_def note_event_def gateway_send_def to_wire_def
      split: option.splits)

lemma emit_usable: "usable s \<Longrightarrow> usable (emit_event opts ev s)"
proof -
  have "usable t \<Longrightarrow> usable (fold react acts t)" for acts t
    by (induction acts arbitrary: t) (simp_all add: react_usable)
  then show "usable s \<Longrightarrow> usable (emit_event opts ev s)"
    by (simp add: emit_event_def note_event_def usable_def)
qed

lemma emit_without_close:
  assumes "DoClose \<notin> set (go_reacts opts ev)" "gw_socket s = Some i"
  shows "gw_socket (emit_event opts ev s) = Some i"
proof -
  have "gw_socket (fold react acts t) = gw_socket t" if "DoClose \<notin> set acts" for acts t
    using that
  proof (induction acts arbitrary: t)
    case (Cons a acts)
    moreover have "gw_socket (react a t) = gw_socket t"
      using Cons.prems by (cases a) (auto simp: react_def gateway_send_def to_wire_def split: option.split)
    ultimately show ?case by simp
  qed simp
  then show ?thesis using assms by (simp add: emit_event_def note_event_def)
qed

lemma settle_usable: "usable (settle_connect p s) = usable s"
  by (simp add: usable_def)

lemma stop_usable: "gw_ready s = False \<Longrightarrow> usable (stop_for_good opts code d s)"
  unfolding stop_for_good_def settle_usable by (intro emit_usable) (simp add: usable_def)

lemma timer_usable: "usable (t\<lparr>gw_reconnectTimer := b\<rparr>) = usable t"
  by (simp add: usable_def)

lemma schedule_usable: "gw_ready s = False \<Longrightarrow> usable (scheduleReconnect opts code d s)"
  by (auto simp: scheduleReconnect_def Let_def stop_usable timer_usable split: option.split
      intro!: emit_usable) (simp add: usable_def)

lemma step_usable:
  assumes "gateway_ok opts s" "usable s" "go_kind opts = Dungeon \<Longrightarrow> DoClose \<notin> set (go_reacts opts OpenEvent)"
  shows "usable (gateway_do opts st s)"
proof (cases st)
  case CallConnect
  then show ?thesis
    using assms(2) stop_usable
    by (auto simp: gateway_do_def gateway_connect_def open_socket_def Let_def usable_def to_wire_def split: option.split)
next
  case CallClose
  then show ?thesis
    using react_usable [OF assms(2), of DoClose] by (simp add: gateway_do_def react_def)
next
  case (CallSend f)
  then show ?thesis using react_usable [OF assms(2)] by (simp add: gateway_do_def)
next
  case (SocketOpen i bearer)
  let ?s1 = "to_wire (Opened i) (s\<lparr>gw_opened := True, gw_handshakeFailures := 0\<rparr>)"
  have usable1: "usable ?s1" using assms(2) by (simp add: usable_def to_wire_def)
  have ready: "usable (markReady (emit_event opts OpenEvent ?s1))" if "go_kind opts = Dungeon" "gw_socket s = Some i"
    using emit_without_close [OF assms(3) [OF that(1)], of ?s1 i] that(2)
    by (simp add: usable_def markReady_def to_wire_def)
  have timer: "usable ((emit_event opts OpenEvent ?s1)\<lparr>gw_helloTimer := True\<rparr>)"
    using emit_usable [OF usable1, of opts OpenEvent] by (simp add: usable_def)
  have override: "usable (localClose d ?s1)" for d
    using usable1 by (simp add: localClose_def usable_def)
  show ?thesis
    using SocketOpen ready timer override assms(2) by (auto simp: gateway_do_def handleOpen_def Let_def)
next
  case (SocketMessage i data)
  have hello: "usable (markReady (s\<lparr>gw_helloTimer := False\<rparr>))" if "gw_socket s = Some i"
    using that by (simp add: usable_def markReady_def)
  show ?thesis
    using SocketMessage assms(2) hello
    by (auto simp: gateway_do_def handleMessage_def intro: emit_usable split: option.split)
next
  case (SocketClose i code)
  show ?thesis
    using SocketClose assms(2) live_socket(1) [OF gateway_ok_base [OF assms(1)], of i]
    by (cases "Some i = gw_socket s") (auto simp: gateway_do_def handleClose_def Let_def schedule_usable stop_usable)
next
  case HelloTimeout
  then show ?thesis
    using assms(2) by (simp add: gateway_do_def helloTimeout_def localClose_def usable_def)
next
  case ReconnectTimeout
  have "gw_ready s = False \<or> gw_closedByUser s" if "gw_reconnectTimer s"
    using that assms(2) base_open [OF gateway_ok_base [OF assms(1)]]
    by (cases "gw_closedByUser s") (auto simp: trying_ok_def usable_def)
  then show ?thesis
    using ReconnectTimeout assms(2) stop_usable
    by (auto simp: gateway_do_def reconnectTimeout_def open_socket_def Let_def usable_def to_wire_def split: option.split)
qed

text \<open>
  C38: Unless a handler of \<open>open\<close> closes a dungeon client, the state tells the truth: a client in
  state \<open>connected\<close> has a live socket and \<open>send\<close> puts the frame on it.
\<close>
theorem connected_means_usable:
  assumes "go_kind opts = Dungeon \<longrightarrow> DoClose \<notin> set (go_reacts opts OpenEvent)"
    and "gw_state (gateway_run opts steps) = Connected"
  shows "\<exists>i. gw_socket (gateway_run opts steps) = Some i \<and>
    gateway_send frame (gateway_run opts steps) = Inr (to_wire (SentOn i frame) (gateway_run opts steps))"
proof -
  have "gateway_ok opts s \<Longrightarrow> usable s \<Longrightarrow> usable (fold (gateway_do opts) steps s)" for s
    using step_usable step_ok assms(1) by (induction steps arbitrary: s) simp_all
  moreover have "usable createGatewaySocket"
    by (simp add: usable_def createGatewaySocket_def)
  ultimately have "usable (gateway_run opts steps)"
    using run_ok [of opts "[]"] by (simp add: gateway_run_def)
  then show ?thesis
    using assms(2) by (auto simp: usable_def gateway_send_def)
qed

subsection \<open>A dungeon client\<close>

definition demo_gateway :: "reaction list \<Rightarrow> gateway_options" where
  "demo_gateway on_open =
     \<lparr>go_kind = Dungeon, go_maxHandshakeFailures = 5,
      go_backoff = \<lparr>bo_initialMs = 500, bo_maxMs = 15000, bo_factor = 2, bo_jitter = 0, bo_maxAttempts = None,
        bo_random = (\<lambda>_. 0)\<rparr>,
      go_constructs = (\<lambda>_. None), go_parse = (\<lambda>_. None),
      go_reacts = (\<lambda>ev. if ev = OpenEvent then on_open else [])\<rparr>"

lemmas gateway_eval =
  demo_gateway_def gateway_run_def gateway_do_def gateway_connect_def open_socket_def createGatewaySocket_def
  to_wire_def handleOpen_def Let_def emit_event_def note_event_def markReady_def settle_connect_def

lemma connected_means_usable_witness:
  "\<exists>i. gw_socket (gateway_run (demo_gateway []) [CallConnect, SocketOpen 0 True]) = Some i \<and>
     gateway_send JNull (gateway_run (demo_gateway []) [CallConnect, SocketOpen 0 True]) =
       Inr (to_wire (SentOn i JNull) (gateway_run (demo_gateway []) [CallConnect, SocketOpen 0 True]))"
proof (rule connected_means_usable)
  show "go_kind (demo_gateway []) = Dungeon \<longrightarrow> DoClose \<notin> set (go_reacts (demo_gateway []) OpenEvent)"
    by (simp add: demo_gateway_def)
  show "gw_state (gateway_run (demo_gateway []) [CallConnect, SocketOpen 0 True]) = Connected"
    by (simp add: gateway_eval)
qed

lemma dead_token_is_given_up_witness:
  "let s = gateway_run ((demo_gateway [])\<lparr>go_maxHandshakeFailures := 1\<rparr>) [CallConnect, SocketClose 0 1006] in
   unopened (gw_wire s) \<le> 1 \<and> gw_state s = Closed \<and> gw_promise s \<noteq> Waiting \<and> gw_socket s = None"
proof -
  let ?opts = "(demo_gateway [])\<lparr>go_maxHandshakeFailures := 1\<rparr>"
  have "gw_state (gateway_run ?opts [CallConnect, SocketClose 0 1006]) = Closed"
    by (simp add: gateway_eval handleClose_def classifyClose_def disposition_def handshake_stop_def stop_for_good_def)
  moreover have "max 1 (go_maxHandshakeFailures ?opts) = 1"
    by simp
  ultimately show ?thesis
    using dead_token_is_given_up [of ?opts "[CallConnect, SocketClose 0 1006]"] by (simp only: Let_def) blast
qed

text \<open>
  The excluded case: a handler of \<open>open\<close> that closes a dungeon client leaves it in the state
  \<open>connected\<close>, with no socket and \<open>connect\<close> rejected.
\<close>

lemma close_in_open_handler_stays_connected:
  "let s = gateway_run (demo_gateway [DoClose]) [CallConnect, SocketOpen 0 True] in
   gw_closedByUser s \<and> gw_state s = Connected \<and> gw_socket s = None \<and> gw_promise s \<noteq> Resolved"
  by (simp add: gateway_eval react_def gateway_close_def close_socket_def)

end
