(* ===== verification/Gateway_Lobby.thy ===== *)
theory Gateway_Lobby
  imports Gateway_Safety "HOL-Library.AList"
begin

section \<open>Peers and the clients (gamebase-client: peer-map.ts, lobby-client.ts, game-client.ts, map-fetch.ts)\<close>

text \<open>
  The peers a lobby client shows, the lobby client as a reader of the gateway socket's events, and
  the dungeon client. Frames have the types the clients cast them to. A JavaScript map is an
  association list: setting a known key keeps its place, as \<open>AList.update\<close> does.
\<close>

subsection \<open>The peer map\<close>

record Peer =
  pe_userId :: ustring
  pe_x :: ustring
  pe_y :: ustring
  pe_dir :: "ustring option"

text \<open>Coordinates are the texts of JSON numbers.\<close>

datatype peer_frame =
  Snapshot ustring "Peer list"
| Enter ustring Peer
| Leave ustring ustring
| Moves ustring "Peer list"

datatype PeerChange =
  PeersChanged ustring "Peer list"
| PeerEntered Peer
| PeerLeft ustring
| PeersMoved "Peer list"

datatype ViewViolation = LeaveViolation ustring ustring | PosViolation ustring ustring

record PeerMap =
  pm_self :: ustring
  pm_zone :: "ustring option"
  pm_peers :: "(ustring \<times> Peer) list"
  pm_violations :: "ViewViolation list"

definition createPeerMap :: "ustring \<Rightarrow> PeerMap" where
  "createPeerMap self = \<lparr>pm_self = self, pm_zone = None, pm_peers = [], pm_violations = []\<rparr>"

definition set_peer :: "Peer \<Rightarrow> (ustring \<times> Peer) list \<Rightarrow> (ustring \<times> Peer) list" where
  "set_peer p peers = AList.update (pe_userId p) p peers"

definition snapshot_peers :: "ustring \<Rightarrow> Peer list \<Rightarrow> (ustring \<times> Peer) list" where
  "snapshot_peers self peers = fold set_peer (filter (\<lambda>p. pe_userId p \<noteq> self) peers) []"

definition all_peers :: "PeerMap \<Rightarrow> Peer list" where
  "all_peers m = map snd (pm_peers m)"

definition get_peer :: "PeerMap \<Rightarrow> ustring \<Rightarrow> Peer option" where
  "get_peer m u = map_of (pm_peers m) u"

definition reset_peers :: "PeerMap \<Rightarrow> PeerMap" where
  "reset_peers m = m\<lparr>pm_peers := [], pm_zone := None\<rparr>"

definition moved_peer :: "Peer \<Rightarrow> Peer \<Rightarrow> Peer" where
  "moved_peer existing p =
     existing\<lparr>pe_x := pe_x p, pe_y := pe_y p,
       pe_dir := (case pe_dir p of None \<Rightarrow> pe_dir existing | Some d \<Rightarrow> Some d)\<rparr>"

text \<open>The loop of \<open>pos\<close>: the map and the peers that moved so far.\<close>

fun move_peers :: "Peer list \<Rightarrow> PeerMap \<Rightarrow> Peer list \<Rightarrow> PeerMap \<times> Peer list" where
  "move_peers [] m moved = (m, moved)"
| "move_peers (p # ps) m moved =
     (if pe_userId p = pm_self m then move_peers ps m moved
      else
        case map_of (pm_peers m) (pe_userId p) of
          None \<Rightarrow>
            move_peers ps
              (m\<lparr>pm_violations := pm_violations m @ [PosViolation (pe_userId p) (the (pm_zone m))]\<rparr>) moved
        | Some existing \<Rightarrow>
            (let p' = moved_peer existing p in
             move_peers ps (m\<lparr>pm_peers := AList.update (pe_userId p) p' (pm_peers m)\<rparr>) (moved @ [p'])))"

fun frame_zone :: "peer_frame \<Rightarrow> ustring" where
  "frame_zone (Snapshot z ps) = z"
| "frame_zone (Enter z p) = z"
| "frame_zone (Leave z u) = z"
| "frame_zone (Moves z ps) = z"

definition apply_peers :: "peer_frame \<Rightarrow> PeerMap \<Rightarrow> PeerMap \<times> PeerChange option" where
  "apply_peers frame m =
     (case frame of
        Snapshot z ps \<Rightarrow>
          (let m' = m\<lparr>pm_zone := Some z, pm_peers := snapshot_peers (pm_self m) ps\<rparr> in
           (m', Some (PeersChanged z (all_peers m'))))
      | _ \<Rightarrow>
          (if pm_zone m \<noteq> Some (frame_zone frame) then (m, None)
           else
             case frame of
               Enter z p \<Rightarrow>
                 (if pe_userId p = pm_self m then (m, None)
                  else (m\<lparr>pm_peers := set_peer p (pm_peers m)\<rparr>, Some (PeerEntered p)))
             | Leave z u \<Rightarrow>
                 (if map_of (pm_peers m) u = None then (m\<lparr>pm_violations := pm_violations m @ [LeaveViolation u z]\<rparr>, None)
                  else (m\<lparr>pm_peers := AList.delete u (pm_peers m)\<rparr>, Some (PeerLeft u)))
             | Moves z ps \<Rightarrow>
                 (let (m', moved) = move_peers ps m [] in
                  (m', if moved = [] then None else Some (PeersMoved moved)))
             | Snapshot z ps \<Rightarrow> (m, None)))"

subsection \<open>The lobby client\<close>

datatype SayScope = ZoneScope | PartyScope | UserScope

record Capabilities =
  ca_pos :: "bool option"
  ca_say :: "SayScope list option"
  ca_party :: "bool option"
  ca_event :: "bool option"

record Hello =
  he_userId :: ustring
  he_mapUrl :: ustring
  he_partyId :: "ustring option"
  he_capabilities :: Capabilities

text \<open>A roster as the gateway sends it, which leaves out what is empty, and as the client shows it.\<close>

record party_wire =
  pw_partyId :: ustring
  pw_leaderId :: "ustring option"
  pw_members :: "(ustring \<times> bool) list option"
  pw_invited :: "ustring list option"
  pw_max :: "int option"

record PartyFrame =
  pf_partyId :: ustring
  pf_leaderId :: ustring
  pf_members :: "(ustring \<times> bool) list"
  pf_invited :: "ustring list"
  pf_max :: int

definition or_else :: "'a option \<Rightarrow> 'a \<Rightarrow> 'a" where
  "or_else x d = (case x of None \<Rightarrow> d | Some v \<Rightarrow> v)"

definition normalizePartyFrame :: "party_wire \<Rightarrow> PartyFrame" where
  "normalizePartyFrame w =
     \<lparr>pf_partyId = pw_partyId w, pf_leaderId = or_else (pw_leaderId w) [], pf_members = or_else (pw_members w) [],
      pf_invited = or_else (pw_invited w) [], pf_max = or_else (pw_max w) 0\<rparr>"

definition normalizePartyId :: "ustring option \<Rightarrow> ustring option" where
  "normalizePartyId p = (if p = Some [] then None else p)"

datatype lobby_frame =
  PeerFrame peer_frame
| SayBroadcast ustring SayScope "ustring option" ustring
| EventBroadcast ustring SayScope "ustring option" ustring json
| PartyWire party_wire
| PartyInvite ustring ustring
| PartyDeclined ustring ustring
| Pong
| ErrorFrame ustring ustring
| UnknownFrame ustring

datatype lobby_event =
  LobbyConnected Hello
| LobbyDisconnected int ustring bool
| LobbyReconnecting nat int
| LobbyStopped CloseDisposition int
| LobbySnapshot peer_frame
| LobbyPeer PeerChange
| LobbySay lobby_frame
| LobbyEvent lobby_frame
| LobbyParty PartyFrame
| LobbyInvite ustring ustring
| LobbyDeclined ustring ustring
| LobbyPong
| LobbyError ustring ustring
| LobbyProtocolError ustring
| LobbyFrame lobby_frame

record lobby =
  lo_hello :: "Hello option"
  lo_partyId :: "ustring option"
  lo_roster :: "PartyFrame option"
  lo_peers :: PeerMap
  lo_events :: "lobby_event list"

definition createLobby :: lobby where
  "createLobby = \<lparr>lo_hello = None, lo_partyId = None, lo_roster = None, lo_peers = createPeerMap [], lo_events = []\<rparr>"

definition lobby_emit :: "lobby_event \<Rightarrow> lobby \<Rightarrow> lobby" where
  "lobby_emit ev l = l\<lparr>lo_events := lo_events l @ [ev]\<rparr>"

definition applyPeerFrame :: "peer_frame \<Rightarrow> lobby \<Rightarrow> lobby" where
  "applyPeerFrame frame l =
     (let (m, change) = apply_peers frame (lo_peers l); l' = l\<lparr>lo_peers := m\<rparr> in
      case change of
        None \<Rightarrow> l'
      | Some (PeersChanged z ps) \<Rightarrow> lobby_emit (LobbySnapshot frame) l'
      | Some c \<Rightarrow> lobby_emit (LobbyPeer c) l')"

definition lobby_on_hello :: "Hello \<Rightarrow> lobby \<Rightarrow> lobby" where
  "lobby_on_hello h l =
     lobby_emit (LobbyConnected h)
       (l\<lparr>lo_hello := Some h, lo_partyId := normalizePartyId (he_partyId h), lo_roster := None,
          lo_peers := createPeerMap (he_userId h)\<rparr>)"

text \<open>The \<open>frame\<close> event carries a roster already filled in, which \<open>normalized\<close> writes as a wire frame.\<close>

definition normalized :: "lobby_frame \<Rightarrow> lobby_frame" where
  "normalized f =
     (case f of
        PartyWire w \<Rightarrow>
          (let p = normalizePartyFrame w in
           PartyWire \<lparr>pw_partyId = pf_partyId p, pw_leaderId = Some (pf_leaderId p), pw_members = Some (pf_members p),
             pw_invited = Some (pf_invited p), pw_max = Some (pf_max p)\<rparr>)
      | _ \<Rightarrow> f)"

definition lobby_on_frame :: "lobby_frame \<Rightarrow> lobby \<Rightarrow> lobby" where
  "lobby_on_frame received l0 =
     (let l = lobby_emit (LobbyFrame (normalized received)) l0 in
      case received of
        PeerFrame f \<Rightarrow> applyPeerFrame f l
      | SayBroadcast u sc to t \<Rightarrow> lobby_emit (LobbySay received) l
      | EventBroadcast u sc to n p \<Rightarrow> lobby_emit (LobbyEvent received) l
      | PartyWire w \<Rightarrow>
          (let p = normalizePartyFrame w in
           lobby_emit (LobbyParty p)
             (l\<lparr>lo_roster := Some p, lo_partyId := normalizePartyId (Some (pf_partyId p))\<rparr>))
      | PartyInvite i u \<Rightarrow> lobby_emit (LobbyInvite i u) l
      | PartyDeclined i u \<Rightarrow> lobby_emit (LobbyDeclined i u) l
      | Pong \<Rightarrow> lobby_emit LobbyPong l
      | ErrorFrame c m \<Rightarrow> lobby_emit (LobbyError c m) l
      | UnknownFrame t \<Rightarrow> lobby_emit (LobbyProtocolError (ascii ''unknown frame type '' @ t)) l)"

text \<open>
  The client's handlers of the socket's events; \<open>hello_of\<close> and \<open>frame_of\<close> read a JSON object as the
  types it is cast to.
\<close>

definition lobby_on ::
  "(json \<Rightarrow> Hello) \<Rightarrow> (json \<Rightarrow> lobby_frame) \<Rightarrow> gateway_event \<Rightarrow> lobby \<Rightarrow> lobby" where
  "lobby_on hello_of frame_of ev l =
     (case ev of
        OpenEvent \<Rightarrow> l
      | HelloEvent v \<Rightarrow> lobby_on_hello (hello_of v) l
      | FrameEvent v \<Rightarrow> lobby_on_frame (frame_of v) l
      | DisconnectedEvent code r again \<Rightarrow>
          lobby_emit (LobbyDisconnected code r again) (l\<lparr>lo_peers := reset_peers (lo_peers l)\<rparr>)
      | ReconnectingEvent n d \<Rightarrow> lobby_emit (LobbyReconnecting n d) l
      | StoppedEvent d code \<Rightarrow> lobby_emit (LobbyStopped d code) l
      | ProtocolErrorEvent m \<Rightarrow> lobby_emit (LobbyProtocolError m) l)"

definition lobby_of ::
  "(json \<Rightarrow> Hello) \<Rightarrow> (json \<Rightarrow> lobby_frame) \<Rightarrow> gateway \<Rightarrow> lobby" where
  "lobby_of hello_of frame_of g = fold (lobby_on hello_of frame_of) (gw_events g) createLobby"

subsection \<open>The senders\<close>

datatype lobby_command =
  PosCommand ustring ustring ustring "ustring option"
| SayCommand SayScope "ustring option" ustring
| EventCommand SayScope "ustring option" ustring json
| PartyCreate
| PartyInviteUser ustring
| PartyAccept ustring
| PartyDecline ustring
| PartyLeave
| PartyList
| Ping

definition scope_text :: "SayScope \<Rightarrow> ustring" where
  "scope_text sc = (case sc of ZoneScope \<Rightarrow> ascii ''zone'' | PartyScope \<Rightarrow> ascii ''party'' | UserScope \<Rightarrow> ascii ''user'')"

definition optional :: "string \<Rightarrow> ustring option \<Rightarrow> (ustring \<times> json) list" where
  "optional k v = (case v of None \<Rightarrow> [] | Some t \<Rightarrow> [(ascii k, JStr t)])"

definition typed :: "string \<Rightarrow> (ustring \<times> json) list \<Rightarrow> json" where
  "typed t fs = JObj ((ascii ''type'', JStr (ascii t)) # fs)"

definition command_json :: "lobby_command \<Rightarrow> json" where
  "command_json c =
     (case c of
        PosCommand z x y d \<Rightarrow>
          typed ''pos'' ([(ascii ''zone'', JStr z), (ascii ''x'', JNum x), (ascii ''y'', JNum y)] @ optional ''dir'' d)
      | SayCommand sc to t \<Rightarrow>
          typed ''say'' ([(ascii ''scope'', JStr (scope_text sc))] @ optional ''to'' to @ [(ascii ''text'', JStr t)])
      | EventCommand sc to n p \<Rightarrow>
          typed ''event'' ([(ascii ''scope'', JStr (scope_text sc))] @ optional ''to'' to @
            [(ascii ''name'', JStr n), (ascii ''payload'', p)])
      | PartyCreate \<Rightarrow> typed ''party.create'' []
      | PartyInviteUser u \<Rightarrow> typed ''party.invite'' [(ascii ''userId'', JStr u)]
      | PartyAccept i \<Rightarrow> typed ''party.accept'' [(ascii ''partyId'', JStr i)]
      | PartyDecline i \<Rightarrow> typed ''party.decline'' [(ascii ''partyId'', JStr i)]
      | PartyLeave \<Rightarrow> typed ''party.leave'' []
      | PartyList \<Rightarrow> typed ''party.list'' []
      | Ping \<Rightarrow> typed ''ping'' [])"

datatype lobby_refusal = CapabilityOff | DirTooLong | NotSendable GatewayClientState

text \<open>\<open>requireCapability\<close> and \<open>requireSayScope\<close>: what the last \<open>hello\<close> does not turn off is allowed.\<close>

definition capable :: "(Capabilities \<Rightarrow> bool option) \<Rightarrow> lobby \<Rightarrow> bool" where
  "capable f l \<longleftrightarrow> (case lo_hello l of None \<Rightarrow> True | Some h \<Rightarrow> f (he_capabilities h) \<noteq> Some False)"

definition may_say :: "SayScope \<Rightarrow> lobby \<Rightarrow> bool" where
  "may_say sc l \<longleftrightarrow>
     (case lo_hello l of
        None \<Rightarrow> True
      | Some h \<Rightarrow> (case ca_say (he_capabilities h) of None \<Rightarrow> True | Some allowed \<Rightarrow> sc \<in> set allowed))"

definition maxDirBytes :: nat where
  "maxDirBytes = 16"

definition command_check :: "lobby \<Rightarrow> lobby_command \<Rightarrow> lobby_refusal option" where
  "command_check l c =
     (case c of
        PosCommand z x y d \<Rightarrow>
          (if \<not> capable ca_pos l then Some CapabilityOff
           else if (case d of None \<Rightarrow> False | Some t \<Rightarrow> maxDirBytes < byteLength t) then Some DirTooLong else None)
      | SayCommand sc to t \<Rightarrow> (if may_say sc l then None else Some CapabilityOff)
      | EventCommand sc to n p \<Rightarrow> (if capable ca_event l \<and> may_say sc l then None else Some CapabilityOff)
      | Ping \<Rightarrow> None
      | _ \<Rightarrow> (if capable ca_party l then None else Some CapabilityOff))"

definition lobby_send :: "lobby \<Rightarrow> lobby_command \<Rightarrow> gateway \<Rightarrow> lobby_refusal + gateway" where
  "lobby_send l c g =
     (case command_check l c of
        Some r \<Rightarrow> Inl r
      | None \<Rightarrow> (case gateway_send (command_json c) g of Inl st \<Rightarrow> Inl (NotSendable st) | Inr g' \<Rightarrow> Inr g'))"

subsection \<open>The dungeon client\<close>

datatype game_event =
  GameConnected
| GameFrame json
| GameError json
| GameDisconnected int ustring bool
| GameReconnecting nat int
| GameAborted int ustring
| GameFinished int ustring
| GameStopped CloseDisposition int
| GameProtocolError ustring

definition is_string_field :: "string \<Rightarrow> (ustring \<times> json) list \<Rightarrow> bool" where
  "is_string_field k kvs \<longleftrightarrow> (case map_of kvs (ascii k) of Some (JStr t) \<Rightarrow> True | _ \<Rightarrow> False)"

definition isErrorFrame :: "json \<Rightarrow> bool" where
  "isErrorFrame v \<longleftrightarrow>
     (case v of
        JObj kvs \<Rightarrow>
          map_of kvs (ascii ''type'') = Some (JStr (ascii ''error'')) \<and> is_string_field ''code'' kvs \<and>
          is_string_field ''message'' kvs
      | _ \<Rightarrow> False)"

definition game_on :: "gateway_event \<Rightarrow> game_event list" where
  "game_on ev =
     (case ev of
        OpenEvent \<Rightarrow> [GameConnected]
      | HelloEvent v \<Rightarrow> []
      | FrameEvent v \<Rightarrow> [if isErrorFrame v then GameError v else GameFrame v]
      | DisconnectedEvent code r again \<Rightarrow> [GameDisconnected code r again]
      | ReconnectingEvent n d \<Rightarrow> [GameReconnecting n d]
      | StoppedEvent d code \<Rightarrow>
          [if cd_kind d = Aborted then GameAborted code (cd_reason d)
           else if cd_kind d = FinishedRun then GameFinished code (cd_reason d) else GameStopped d code]
      | ProtocolErrorEvent m \<Rightarrow> [GameProtocolError m])"

definition game_send :: "json \<Rightarrow> gateway \<Rightarrow> GatewayClientState option + gateway" where
  "game_send frame g =
     (if frame_type frame \<in> {Some (ascii ''enter''), Some (ascii ''leave'')} then Inl None
      else case gateway_send frame g of Inl st \<Rightarrow> Inl (Some st) | Inr g' \<Rightarrow> Inr g')"

subsection \<open>Maps\<close>

text \<open>
  The map fetcher. A request is numbered when it is issued; \<open>mp_cache\<close> is the request a URL waits
  for or was answered by.
\<close>

record map_fetcher =
  mp_cache :: "ustring \<Rightarrow> nat option"
  mp_requests :: "ustring list"
  mp_outcomes :: "nat \<Rightarrow> (string + json) option"

definition createMapFetcher :: map_fetcher where
  "createMapFetcher = \<lparr>mp_cache = (\<lambda>_. None), mp_requests = [], mp_outcomes = (\<lambda>_. None)\<rparr>"

text \<open>\<open>fetch\<close> gives the number of the request whose promise it returns.\<close>

definition fetch_map :: "ustring \<Rightarrow> map_fetcher \<Rightarrow> nat \<times> map_fetcher" where
  "fetch_map url f =
     (case mp_cache f url of
        Some r \<Rightarrow> (r, f)
      | None \<Rightarrow>
          (let r = length (mp_requests f) in
           (r, f\<lparr>mp_cache := (mp_cache f)(url \<mapsto> r), mp_requests := mp_requests f @ [url]\<rparr>)))"

text \<open>The answer to a request: the status and the text, or \<open>None\<close> when the network failed.\<close>

definition map_answer :: "(ustring \<Rightarrow> json option) \<Rightarrow> (int \<times> ustring) option \<Rightarrow> string + json" where
  "map_answer parse answer =
     (case answer of
        None \<Rightarrow> Inl ''network''
      | Some (status, body) \<Rightarrow>
          (if 200 \<le> status \<and> status < 300 then
             Inr (case parse body of Some v \<Rightarrow> v | None \<Rightarrow> JStr body)
           else Inl ''status''))"

definition settle_map ::
  "(ustring \<Rightarrow> json option) \<Rightarrow> nat \<Rightarrow> (int \<times> ustring) option \<Rightarrow> map_fetcher \<Rightarrow> map_fetcher" where
  "settle_map parse r answer f =
     (if length (mp_requests f) \<le> r \<or> mp_outcomes f r \<noteq> None then f
      else
        (let out = map_answer parse answer; f' = f\<lparr>mp_outcomes := (mp_outcomes f)(r \<mapsto> out)\<rparr> in
         case out of
           Inl e \<Rightarrow> f'\<lparr>mp_cache := (mp_cache f')(mp_requests f ! r := None)\<rparr>
         | Inr v \<Rightarrow> f'))"

subsection \<open>The peers shown are what was reported\<close>

text \<open>
  The reference: what the frames of the current zone said of a user since it came into view. A snapshot
  begins a zone, and frames of any other zone say nothing. \<open>None\<close>: the user is not in view.
\<close>

definition named :: "ustring \<Rightarrow> Peer list \<Rightarrow> Peer list" where
  "named u ps = filter (\<lambda>p. pe_userId p = u) ps"

type_synonym story = "ustring option \<times> Peer list option"

fun story_step :: "ustring \<Rightarrow> peer_frame \<Rightarrow> story \<Rightarrow> story" where
  "story_step u (Snapshot z ps) (zone, told) = (Some z, if named u ps = [] then None else Some [last (named u ps)])"
| "story_step u (Enter z p) (zone, told) = (zone, if zone = Some z \<and> pe_userId p = u then Some [p] else told)"
| "story_step u (Leave z v) (zone, told) = (zone, if zone = Some z \<and> v = u then None else told)"
| "story_step u (Moves z ps) (zone, told) =
     (zone, if zone = Some z then map_option (\<lambda>rs. rs @ named u ps) told else told)"

definition story_of :: "ustring \<Rightarrow> peer_frame list \<Rightarrow> story" where
  "story_of u frames = fold (story_step u) frames (None, None)"

text \<open>The last place that was reported, and the last direction, if there was one.\<close>

definition shown_as :: "Peer list \<Rightarrow> Peer" where
  "shown_as rs =
     (let dirs = filter (\<lambda>d. d \<noteq> None) (map pe_dir rs) in
      \<lparr>pe_userId = pe_userId (hd rs), pe_x = pe_x (last rs), pe_y = pe_y (last rs),
       pe_dir = (if dirs = [] then None else last dirs)\<rparr>)"

text \<open>The rule of the gateway: who leaves or moves is the receiver or in view.\<close>

fun ruled :: "ustring \<Rightarrow> peer_frame \<Rightarrow> peer_frame list \<Rightarrow> bool" where
  "ruled self (Leave z u) before \<longleftrightarrow> fst (story_of u before) = Some z \<longrightarrow> u \<noteq> self \<and> snd (story_of u before) \<noteq> None"
| "ruled self (Moves z ps) before \<longleftrightarrow>
     (\<forall>p \<in> set ps. fst (story_of (pe_userId p) before) = Some z \<longrightarrow>
       pe_userId p = self \<or> snd (story_of (pe_userId p) before) \<noteq> None)"
| "ruled self f before \<longleftrightarrow> True"

definition ruled_run :: "ustring \<Rightarrow> peer_frame list \<Rightarrow> bool" where
  "ruled_run self frames \<longleftrightarrow> list_all (\<lambda>n. ruled self (frames ! n) (take n frames)) [0..<length frames]"

definition after_frames :: "ustring \<Rightarrow> peer_frame list \<Rightarrow> PeerMap" where
  "after_frames self frames = fold (\<lambda>f m. fst (apply_peers f m)) frames (createPeerMap self)"

definition tells :: "PeerMap \<Rightarrow> peer_frame list \<Rightarrow> bool" where
  "tells m frames \<longleftrightarrow>
     (\<forall>u. pm_zone m = fst (story_of u frames)) \<and> distinct (map fst (pm_peers m)) \<and>
     (\<forall>u. map_of (pm_peers m) u = (if u = pm_self m then None else map_option shown_as (snd (story_of u frames)))) \<and>
     (\<forall>u rs. snd (story_of u frames) = Some rs \<longrightarrow> rs \<noteq> [] \<and> (\<forall>p \<in> set rs. pe_userId p = u))"

lemma story_snoc: "story_of u (frames @ [f]) = story_step u f (story_of u frames)"
  by (simp add: story_of_def)

lemma set_peer_view: "map_of (set_peer p xs) = (map_of xs)(pe_userId p \<mapsto> p)"
  by (simp add: set_peer_def update_conv')

lemma set_peer_distinct: "distinct (map fst xs) \<Longrightarrow> distinct (map fst (set_peer p xs))"
  unfolding set_peer_def by (rule distinct_update)

lemma snapshot_distinct: "distinct (map fst xs) \<Longrightarrow> distinct (map fst (fold set_peer ps xs))"
  by (induction ps arbitrary: xs) (simp_all add: set_peer_distinct)

lemma named_last: "named u ps \<noteq> [] \<Longrightarrow> pe_userId (last (named u ps)) = u"
  using last_in_set [of "named u ps"] by (auto simp: named_def)

lemma snapshot_view:
  "map_of (fold set_peer ps xs) u = (if named u ps = [] then map_of xs u else Some (last (named u ps)))"
  by (induction ps arbitrary: xs) (auto simp: set_peer_view named_def)

lemma named_others: "named u (filter (\<lambda>p. pe_userId p \<noteq> self) ps) = (if u = self then [] else named u ps)"
  by (induction ps) (auto simp: named_def)

lemma shown_alone: "shown_as [p] = p"
  by (simp add: shown_as_def)

text \<open>One more report is what the map does to an entry.\<close>

lemma shown_more:
  assumes "rs \<noteq> []"
  shows "shown_as (rs @ [p]) = moved_peer (shown_as rs) p"
  using assms by (cases "pe_dir p") (auto simp: shown_as_def moved_peer_def Let_def)

definition reported :: "ustring \<Rightarrow> Peer list \<Rightarrow> Peer option \<Rightarrow> Peer option" where
  "reported u ps shown = map_option (\<lambda>old. fold (\<lambda>p old. moved_peer old p) (named u ps) old) shown"

lemma shown_reports: "rs \<noteq> [] \<Longrightarrow> shown_as (rs @ ps) = fold (\<lambda>p old. moved_peer old p) ps (shown_as rs)"
proof (induction ps arbitrary: rs)
  case (Cons p ps)
  then show ?case using Cons.IH [of "rs @ [p]"] by (simp add: shown_more)
qed simp

text \<open>The loop of a position frame: everybody in view moves, and who is not is reported.\<close>

lemma move_peers_view:
  assumes "map_of (pm_peers m) (pm_self m) = None" "distinct (map fst (pm_peers m))"
  shows "\<exists>xs vs. fst (move_peers ps m moved) = m\<lparr>pm_peers := xs, pm_violations := pm_violations m @ vs\<rparr> \<and>
    (\<forall>u. map_of xs u = reported u ps (map_of (pm_peers m) u)) \<and> distinct (map fst xs) \<and>
    (vs = [] \<longleftrightarrow> (\<forall>p \<in> set ps. pe_userId p = pm_self m \<or> map_of (pm_peers m) (pe_userId p) \<noteq> None))"
  using assms
proof (induction ps arbitrary: m moved)
  case Nil
  then show ?case by (intro exI [of _ "pm_peers m"] exI [of _ "[]"]) (simp add: reported_def named_def option.map_ident)
next
  case (Cons p ps)
  show ?case
  proof (cases "pe_userId p = pm_self m")
    case True
    have "reported u (p # ps) (map_of (pm_peers m) u) = reported u ps (map_of (pm_peers m) u)" for u
      using True Cons.prems(1) by (auto simp: reported_def named_def)
    then show ?thesis using True Cons.IH [OF Cons.prems, of moved] by simp
  next
    case False
    show ?thesis
    proof (cases "map_of (pm_peers m) (pe_userId p)")
      case None
      have same: "reported u (p # ps) (map_of (pm_peers m) u) = reported u ps (map_of (pm_peers m) u)" for u
        using None by (auto simp: reported_def named_def)
      let ?m = "m\<lparr>pm_violations := pm_violations m @ [PosViolation (pe_userId p) (the (pm_zone m))]\<rparr>"
      obtain xs vs where "fst (move_peers ps ?m moved) = ?m\<lparr>pm_peers := xs, pm_violations := pm_violations ?m @ vs\<rparr>"
          "\<forall>u. map_of xs u = reported u ps (map_of (pm_peers m) u)" "distinct (map fst xs)"
        using Cons.IH [of ?m moved] Cons.prems by auto
      then show ?thesis
        using False None same
        by (intro exI [of _ xs] exI [of _ "PosViolation (pe_userId p) (the (pm_zone m)) # vs"]) auto
    next
      case (Some old)
      let ?m = "m\<lparr>pm_peers := AList.update (pe_userId p) (moved_peer old p) (pm_peers m)\<rparr>"
      have view: "map_of (pm_peers ?m) u = (if u = pe_userId p then Some (moved_peer old p) else map_of (pm_peers m) u)" for u
        by (simp add: update_conv')
      have "reported u (p # ps) (map_of (pm_peers m) u) = reported u ps (map_of (pm_peers ?m) u)" for u
        unfolding view using Some by (auto simp: reported_def named_def)
      moreover have "map_of (pm_peers ?m) u = None \<longleftrightarrow> map_of (pm_peers m) u = None" for u
        unfolding view using Some by simp
      moreover have "map_of (pm_peers ?m) (pm_self ?m) = None"
        unfolding view using False Cons.prems(1) by simp
      moreover have "distinct (map fst (pm_peers ?m))"
        using Cons.prems(2) by (simp add: distinct_update)
      ultimately show ?thesis
        using Cons.IH [of ?m "moved @ [moved_peer old p]"] False Some by (simp add: Let_def)
    qed
  qed
qed

lemma apply_tells:
  assumes m: "tells m frames"
  shows "tells (fst (apply_peers f m)) (frames @ [f]) \<and> pm_self (fst (apply_peers f m)) = pm_self m \<and>
    (ruled (pm_self m) f frames \<longrightarrow> pm_violations (fst (apply_peers f m)) = pm_violations m)"
proof -
  have zone: "fst (story_of u frames) = pm_zone m" for u using m by (simp add: tells_def)
  then have pair: "story_of u frames = (pm_zone m, snd (story_of u frames))" for u by (metis prod.collapse)
  have shown: "map_of (pm_peers m) u = (if u = pm_self m then None else map_option shown_as (snd (story_of u frames)))" for u
    using m by (simp add: tells_def)
  have told: "snd (story_of u frames) = Some rs \<Longrightarrow> rs \<noteq> [] \<and> (\<forall>p \<in> set rs. pe_userId p = u)" for u rs
    using m by (simp add: tells_def)
  have told_user: "snd (story_of u frames) = Some rs \<Longrightarrow> p \<in> set rs \<Longrightarrow> pe_userId p = u" for u rs p using told by blast
  have told_none: "snd (story_of u frames) \<noteq> Some []" for u using told by blast
  have dist: "distinct (map fst (pm_peers m))" using m by (simp add: tells_def)
  show ?thesis
  proof (cases f)
    case (Snapshot z ps)
    have next_story: "story_of u (frames @ [f]) = (Some z, if named u ps = [] then None else Some [last (named u ps)])" for u
      unfolding story_snoc Snapshot by (subst pair) simp
    show ?thesis
      unfolding tells_def next_story
      by (auto simp: Snapshot apply_peers_def Let_def snapshot_peers_def snapshot_view snapshot_distinct named_others shown_alone named_last)
  next
    case (Enter z p)
    have next_story: "story_of u (frames @ [f]) =
        (pm_zone m, if pm_zone m = Some z \<and> pe_userId p = u then Some [p] else snd (story_of u frames))" for u
      unfolding story_snoc Enter by (subst pair) simp
    show ?thesis
      unfolding tells_def next_story
      using shown told dist
      by (auto simp: Enter apply_peers_def set_peer_view set_peer_distinct shown_alone split: if_splits)
  next
    case (Leave z v)
    have next_story: "story_of u (frames @ [f]) =
        (pm_zone m, if pm_zone m = Some z \<and> v = u then None else snd (story_of u frames))" for u
      unfolding story_snoc Leave by (subst pair) simp
    show ?thesis
      unfolding tells_def next_story
      using shown told dist zone
      by (auto simp: Leave apply_peers_def delete_conv' distinct_delete split: if_splits)
  next
    case (Moves z ps)
    have next_story: "story_of u (frames @ [f]) =
        (pm_zone m, if pm_zone m = Some z then map_option (\<lambda>rs. rs @ named u ps) (snd (story_of u frames)) else snd (story_of u frames))" for u
      unfolding story_snoc Moves by (subst pair) simp
    show ?thesis
    proof (cases "pm_zone m = Some z")
      case False
      then show ?thesis
        unfolding tells_def next_story using shown told dist zone by (auto simp: Moves apply_peers_def)
    next
      case True
      obtain xs vs where xs: "fst (move_peers ps m []) = m\<lparr>pm_peers := xs, pm_violations := pm_violations m @ vs\<rparr>"
          "\<forall>u. map_of xs u = reported u ps (map_of (pm_peers m) u)" "distinct (map fst xs)"
          "vs = [] \<longleftrightarrow> (\<forall>p \<in> set ps. pe_userId p = pm_self m \<or> map_of (pm_peers m) (pe_userId p) \<noteq> None)"
        using move_peers_view [of m ps "[]"] shown [of "pm_self m"] dist by auto
      have "reported u ps (map_of (pm_peers m) u) =
          (if u = pm_self m then None else map_option shown_as (map_option (\<lambda>rs. rs @ named u ps) (snd (story_of u frames))))" for u
        using shown [of u] told [of u] by (cases "snd (story_of u frames)") (auto simp: reported_def shown_reports)
      moreover have "apply_peers f m = (fst (move_peers ps m []),
          if snd (move_peers ps m []) = [] then None else Some (PeersMoved (snd (move_peers ps m []))))"
        using True by (simp add: Moves apply_peers_def split: prod.split)
      moreover have "ruled (pm_self m) f frames \<Longrightarrow> vs = []"
        using xs(4) shown zone True by (auto simp: Moves)
      ultimately show ?thesis
        unfolding tells_def next_story using True xs told_none by (auto simp: named_def dest: told_user)
    qed
  qed
qed

text \<open>
  C39: The peers a client shows are what the gateway reported, whatever frames arrive: the zone is that of
  the last snapshot, and a user other than the client is shown exactly while the frames of this zone have
  it in view, with the last place reported of it and the last direction reported since it came into view;
  late frames of another zone change nothing. No violation is reported as long as the gateway keeps its
  rule that only who is in view leaves or moves.
\<close>
theorem peers_are_what_was_reported:
  "(\<forall>u. pm_zone (after_frames self frames) = fst (story_of u frames) \<and>
     get_peer (after_frames self frames) u = (if u = self then None else map_option shown_as (snd (story_of u frames)))) \<and>
   distinct (map fst (pm_peers (after_frames self frames))) \<and>
   (ruled_run self frames \<longrightarrow> pm_violations (after_frames self frames) = [])"
proof -
  have "tells (after_frames self frames) frames \<and> pm_self (after_frames self frames) = self \<and>
      (ruled_run self frames \<longrightarrow> pm_violations (after_frames self frames) = [])"
  proof (induction frames rule: rev_induct)
    case Nil
    then show ?case by (simp add: after_frames_def createPeerMap_def tells_def story_of_def)
  next
    case (snoc f frames)
    have step: "after_frames self (frames @ [f]) = fst (apply_peers f (after_frames self frames))"
      by (simp add: after_frames_def)
    have "ruled_run self (frames @ [f]) \<Longrightarrow> ruled_run self frames \<and> ruled self f frames"
      by (auto simp: ruled_run_def list_all_iff nth_append)
    then show ?case
      unfolding step using apply_tells [of "after_frames self frames" frames f] snoc.IH by auto
  qed
  then show ?thesis by (auto simp: tells_def get_peer_def)
qed

definition demo_peer :: "string \<Rightarrow> ustring \<Rightarrow> ustring option \<Rightarrow> Peer" where
  "demo_peer u x d = \<lparr>pe_userId = ascii u, pe_x = x, pe_y = [48], pe_dir = d\<rparr>"

definition demo_frames :: "peer_frame list" where
  "demo_frames =
     [Snapshot [1] [demo_peer ''me'' [49] None, demo_peer ''a'' [49] (Some [110])], Moves [1] [demo_peer ''a'' [50] None],
      Moves [2] [demo_peer ''a'' [51] None]]"

theorem peers_are_what_was_reported_witness:
  "get_peer (after_frames (ascii ''me'') demo_frames) (ascii ''a'') = Some (demo_peer ''a'' [50] (Some [110])) \<and>
   pm_violations (after_frames (ascii ''me'') demo_frames) = []"
proof -
  have "ruled_run (ascii ''me'') demo_frames"
    by (simp add: ruled_run_def demo_frames_def upt_rec story_of_def demo_peer_def named_def)
  moreover have "map_option shown_as (snd (story_of (ascii ''a'') demo_frames)) = Some (demo_peer ''a'' [50] (Some [110]))"
    by (simp add: story_of_def demo_frames_def demo_peer_def named_def shown_as_def)
  ultimately show ?thesis
    using peers_are_what_was_reported [of "ascii ''me''" demo_frames] by simp
qed

subsection \<open>Nobody is shown while not connected\<close>

text \<open>
  The gateway's invariant and the lobby client together: unless the client is connected, the peers
  of its lobby are empty.
\<close>

definition nobody :: "lobby \<Rightarrow> bool" where
  "nobody l \<longleftrightarrow> pm_peers (lo_peers l) = [] \<and> pm_zone (lo_peers l) = None"

definition shown :: "(json \<Rightarrow> Hello) \<Rightarrow> (json \<Rightarrow> lobby_frame) \<Rightarrow> gateway \<Rightarrow> bool" where
  "shown hello_of frame_of s \<longleftrightarrow> gw_ready s \<or> nobody (lobby_of hello_of frame_of s)"

lemma lobby_note:
  "lobby_of hello_of frame_of (note_event ev s) = lobby_on hello_of frame_of ev (lobby_of hello_of frame_of s)"
  by (simp add: lobby_of_def note_event_def)

lemma note_disconnected: "nobody (lobby_of hello_of frame_of (note_event (DisconnectedEvent c r b) s))"
  by (simp add: lobby_note lobby_on_def nobody_def lobby_emit_def reset_peers_def)

lemma note_other:
  assumes "nobody (lobby_of hello_of frame_of s)" "\<forall>v. ev \<noteq> FrameEvent v"
  shows "nobody (lobby_of hello_of frame_of (note_event ev s))"
  using assms
  by (cases ev) (simp_all add: lobby_note lobby_on_def nobody_def lobby_emit_def reset_peers_def lobby_on_hello_def createPeerMap_def)

lemma note_shown:
  assumes "shown hello_of frame_of s" "\<And>v. ev = FrameEvent v \<Longrightarrow> gw_ready s"
  shows "shown hello_of frame_of (note_event ev s)"
  using assms note_other [of hello_of frame_of s ev] by (auto simp: shown_def note_event_def)

lemma same_shown:
  assumes "gw_events s' = gw_events s" "gw_ready s' = gw_ready s"
  shows "shown hello_of frame_of s' = shown hello_of frame_of s"
  by (simp add: shown_def lobby_of_def assms)

lemma settle_events [simp]: "gw_events (settle_connect p s) = gw_events s"
  by (simp add: settle_connect_def)

lemma close_socket_events [simp]: "gw_events (close_socket c n s) = gw_events s"
  by (simp add: close_socket_def to_wire_def split: option.split)

lemma close_shown:
  assumes "shown hello_of frame_of s"
  shows "shown hello_of frame_of (gateway_close s)"
proof (cases "gw_closedByUser s")
  case True
  then show ?thesis using assms by (simp add: gateway_close_def)
next
  case False
  let ?s1 = "close_socket (gw_socket s) 1000
      (s\<lparr>gw_closedByUser := True, gw_helloTimer := False, gw_reconnectTimer := False, gw_socket := None,
         gw_ready := False, gw_state := Closed\<rparr>)"
  let ?ev = "DisconnectedEvent 1000 (ascii ''client closed'') False"
  have noted: "shown hello_of frame_of (note_event ?ev ?s1)"
    using note_disconnected by (simp add: shown_def)
  have quiet: "shown hello_of frame_of ?s1" if "\<not> gw_ready s"
    using that assms same_shown [of ?s1 s] by simp
  have settle: "shown hello_of frame_of (settle_connect p t) = shown hello_of frame_of t" for p t
    by (rule same_shown) simp_all
  have "shown hello_of frame_of (if gw_ready s \<or> gw_socket s \<noteq> None then note_event ?ev ?s1 else ?s1)"
    by (cases "gw_ready s \<or> gw_socket s \<noteq> None") (simp_all only: noted quiet if_True if_False, use quiet in blast)
  then show ?thesis using False by (simp only: gateway_close_def Let_def settle if_False)
qed

lemma react_shown: "shown hello_of frame_of s \<Longrightarrow> shown hello_of frame_of (react a s)"
proof (cases a)
  case DoClose
  then show "shown hello_of frame_of s \<Longrightarrow> ?thesis" using close_shown by (simp add: react_def)
next
  case (DoSend f)
  have "gw_events (react (DoSend f) s) = gw_events s" "gw_ready (react (DoSend f) s) = gw_ready s"
    by (auto simp: react_def gateway_send_def to_wire_def split: option.split)
  then show "shown hello_of frame_of s \<Longrightarrow> ?thesis" using same_shown DoSend by blast
qed

lemma reacts_shown: "shown hello_of frame_of s \<Longrightarrow> shown hello_of frame_of (fold react acts s)"
  by (induction acts arbitrary: s) (simp_all add: react_shown)

lemma emit_shown:
  assumes "shown hello_of frame_of s" "\<And>v. ev = FrameEvent v \<Longrightarrow> gw_ready s"
  shows "shown hello_of frame_of (emit_event opts ev s)"
  unfolding emit_event_def by (intro reacts_shown note_shown assms)

lemma disconnect_shown: "shown hello_of frame_of (emit_event opts (DisconnectedEvent c r b) s)"
  unfolding emit_event_def by (rule reacts_shown) (simp add: shown_def note_disconnected)

lemma stop_shown: "shown hello_of frame_of (stop_for_good opts code d s)"
proof -
  have "shown hello_of frame_of (emit_event opts (StoppedEvent d code)
      (emit_event opts (DisconnectedEvent code (cd_reason d) False) (s\<lparr>gw_state := Closed\<rparr>)))"
    by (rule emit_shown [OF disconnect_shown]) simp
  moreover have "shown hello_of frame_of (settle_connect p t) = shown hello_of frame_of t" for p t
    by (rule same_shown) simp_all
  ultimately show ?thesis by (simp add: stop_for_good_def)
qed

lemma schedule_shown: "shown hello_of frame_of (scheduleReconnect opts code d s)"
proof (cases "backoff_next (go_backoff opts) (gw_draws s) (gw_attempts s)")
  case None
  then show ?thesis by (simp add: scheduleReconnect_def stop_shown)
next
  case (Some p)
  have timer: "shown hello_of frame_of (t\<lparr>gw_reconnectTimer := True\<rparr>) = shown hello_of frame_of t" for t
    by (rule same_shown) simp_all
  have reconnecting: "shown hello_of frame_of (emit_event opts (ReconnectingEvent n w)
      (emit_event opts (DisconnectedEvent c r b) t))" for n w c r b t
    by (rule emit_shown [OF disconnect_shown]) simp
  show ?thesis
    using Some by (cases p) (simp add: scheduleReconnect_def Let_def timer reconnecting)
qed

lemma open_socket_shown:
  assumes "shown hello_of frame_of s"
  shows "shown hello_of frame_of (open_socket opts s)"
proof -
  let ?s1 = "if gw_state s \<noteq> Reconnecting then s\<lparr>gw_state := Connecting\<rparr> else s"
  let ?s2 = "to_wire (Constructed (gw_created ?s1))
      (?s1\<lparr>gw_created := Suc (gw_created ?s1), gw_socket := Some (gw_created ?s1), gw_opened := False\<rparr>)"
  have "shown hello_of frame_of ?s2 = shown hello_of frame_of s"
    by (rule same_shown) (simp_all add: to_wire_def)
  then show ?thesis
    using assms
    by (cases "go_constructs opts (gw_created ?s1)") (simp_all only: open_socket_def Let_def stop_shown option.case split: if_split, simp_all)
qed

lemma step_shown:
  assumes "shown hello_of frame_of s" "go_kind opts = Lobby" "gateway_ok opts s"
  shows "shown hello_of frame_of (gateway_do opts st s)"
proof (cases st)
  case CallConnect
  have "shown hello_of frame_of (s\<lparr>gw_promise := Waiting\<rparr>)"
    using assms(1) same_shown [of "s\<lparr>gw_promise := Waiting\<rparr>" s] by simp
  then show ?thesis
    using CallConnect assms(1) open_socket_shown by (simp add: gateway_do_def gateway_connect_def)
next
  case (SocketOpen i bearer)
  let ?s1 = "to_wire (Opened i) (s\<lparr>gw_opened := True, gw_handshakeFailures := 0\<rparr>)"
  have s1: "shown hello_of frame_of ?s1"
    using assms(1) same_shown [of ?s1 s] by (simp add: to_wire_def)
  have "shown hello_of frame_of ((emit_event opts OpenEvent ?s1)\<lparr>gw_helloTimer := True\<rparr>)"
    using emit_shown [OF s1, of OpenEvent opts] same_shown [of "(emit_event opts OpenEvent ?s1)\<lparr>gw_helloTimer := True\<rparr>"] by simp
  moreover have "shown hello_of frame_of (localClose d ?s1)" for d
    using s1 same_shown [of "localClose d ?s1" ?s1] by (simp add: localClose_def)
  ultimately show ?thesis
    using SocketOpen assms by (simp add: gateway_do_def handleOpen_def Let_def)
next
  case (SocketMessage i data)
  have "shown hello_of frame_of (markReady t)" for t
    by (simp add: shown_def markReady_def)
  then show ?thesis
    using SocketMessage assms
    by (auto simp: gateway_do_def handleMessage_def intro!: emit_shown split: option.split)
next
  case (SocketClose i code)
  have "\<not> gw_closedByUser s" if "Some i = gw_socket s"
    using live_socket(1) [OF gateway_ok_base [OF assms(3)], of i] that by simp
  then show ?thesis
    using SocketClose assms(1) by (auto simp: gateway_do_def handleClose_def Let_def schedule_shown stop_shown)
next
  case HelloTimeout
  have "shown hello_of frame_of (localClose d (s\<lparr>gw_helloTimer := False\<rparr>))" for d
    using assms(1) same_shown [of "localClose d (s\<lparr>gw_helloTimer := False\<rparr>)" s] by (simp add: localClose_def)
  then show ?thesis using HelloTimeout assms(1) by (simp add: gateway_do_def helloTimeout_def)
next
  case ReconnectTimeout
  have "shown hello_of frame_of (s\<lparr>gw_reconnectTimer := False\<rparr>)"
    using assms(1) same_shown [of "s\<lparr>gw_reconnectTimer := False\<rparr>" s] by simp
  then show ?thesis
    using ReconnectTimeout assms(1) open_socket_shown by (simp add: gateway_do_def reconnectTimeout_def)
qed (use assms(1) react_shown close_shown in \<open>simp_all add: gateway_do_def\<close>)

text \<open>
  A lobby client shows nobody unless it is connected: whatever the gateway sends and however
  the connection is lost, given up, closed and opened again, a client that is not in state
  \<open>connected\<close> has no peers and no zone, provided no handler closes the client in the middle of a
  frame.
\<close>
theorem disconnected_lobby_shows_nobody:
  assumes "go_kind opts = Lobby" "\<forall>v. DoClose \<notin> set (go_reacts opts (FrameEvent v))"
    and "gw_state (gateway_run opts steps) \<noteq> Connected"
  shows "all_peers (lo_peers (lobby_of hello_of frame_of (gateway_run opts steps))) = [] \<and>
    pm_zone (lo_peers (lobby_of hello_of frame_of (gateway_run opts steps))) = None"
proof -
  have "gateway_ok opts s \<Longrightarrow> usable s \<Longrightarrow> shown hello_of frame_of s \<Longrightarrow>
      usable (fold (gateway_do opts) steps s) \<and> shown hello_of frame_of (fold (gateway_do opts) steps s)" for s
  proof (induction steps arbitrary: s)
    case (Cons st sts)
    have "usable (gateway_do opts st s)"
      by (rule step_usable [OF Cons.prems(1,2)]) (simp add: assms(1))
    from Cons.IH [OF step_ok [OF Cons.prems(1)] this step_shown [OF Cons.prems(3) assms(1) Cons.prems(1)]]
    show ?case by simp
  qed simp
  moreover have "usable createGatewaySocket" "shown hello_of frame_of createGatewaySocket"
    by (simp_all add: usable_def createGatewaySocket_def shown_def lobby_of_def createLobby_def nobody_def createPeerMap_def)
  ultimately have "usable (gateway_run opts steps)" "shown hello_of frame_of (gateway_run opts steps)"
    using run_ok [of opts "[]"] by (simp_all add: gateway_run_def)
  then show ?thesis
    using assms(3) by (simp add: usable_def shown_def nobody_def all_peers_def)
qed

definition demo_hello :: Hello where
  "demo_hello = \<lparr>he_userId = ascii ''me'', he_mapUrl = [], he_partyId = None,
     he_capabilities = \<lparr>ca_pos = None, ca_say = None, ca_party = None, ca_event = None\<rparr>\<rparr>"

definition demo_lobby :: gateway_options where
  "demo_lobby =
     (demo_gateway [])\<lparr>go_kind := Lobby,
       go_parse := (\<lambda>t. Some (JObj [(ascii ''type'', JStr (if t = [] then ascii ''hello'' else ascii ''snapshot''))]))\<rparr>"

lemma disconnected_lobby_shows_nobody_witness:
  "gw_state (gateway_run demo_lobby [CallConnect, SocketOpen 0 True, SocketMessage 0 (Some []), SocketMessage 0 (Some [1]),
       SocketClose 0 1001]) = Reconnecting \<and>
   all_peers (lo_peers (lobby_of (\<lambda>_. demo_hello) (\<lambda>_. PeerFrame (Snapshot [1] [demo_peer ''a'' [49] None]))
     (gateway_run demo_lobby [CallConnect, SocketOpen 0 True, SocketMessage 0 (Some []), SocketMessage 0 (Some [1]),
       SocketClose 0 1001]))) = []"
proof -
  let ?run = "gateway_run demo_lobby [CallConnect, SocketOpen 0 True, SocketMessage 0 (Some []), SocketMessage 0 (Some [1]),
       SocketClose 0 1001]"
  have state: "gw_state ?run = Reconnecting"
    by (simp add: demo_lobby_def gateway_eval handleMessage_def frame_type_def handleClose_def classifyClose_def
        disposition_def scheduleReconnect_def backoff_next_def)
  have "go_kind demo_lobby = Lobby" "\<forall>v. DoClose \<notin> set (go_reacts demo_lobby (FrameEvent v))"
    by (simp_all add: demo_lobby_def demo_gateway_def)
  then show ?thesis
    using disconnected_lobby_shows_nobody [of demo_lobby _ "\<lambda>_. demo_hello"
        "\<lambda>_. PeerFrame (Snapshot [1] [demo_peer ''a'' [49] None])"] state by simp
qed

end
