(* ===== verification/Game_Room.thy ===== *)
theory Game_Room
  imports Gateway_Lobby Game_Kit
begin

section \<open>Rooms (game-kit: room.ts)\<close>

text \<open>
  The room of the kit: the party of a lobby client, its events in numbered envelopes, and the
  commands that wait for the roster. A step is a call, a message of a lobby client, a change of
  identity, a timer, or the end of an \<open>await\<close> of \<open>connect\<close>; what follows an \<open>await\<close> without another
  one belongs to the same step. Handlers may start tasks, which are steps of their own, and do not
  sign out in the middle of a message.
\<close>

subsection \<open>Envelopes\<close>

record Envelope =
  en_roomId :: ustring
  en_senderSession :: ustring
  en_seq :: int
  en_data :: "json option"

text \<open>A number of a JSON value that is an integer, and the integers \<open>Number.isSafeInteger\<close> accepts.\<close>

definition json_integer :: "json \<Rightarrow> int option" where
  "json_integer v = (case v of JNum t \<Rightarrow> js_integer t | _ \<Rightarrow> None)"

definition safe_integer :: "json \<Rightarrow> int option" where
  "safe_integer v =
     (case json_integer v of None \<Rightarrow> None | Some n \<Rightarrow> if \<bar>n\<bar> < 2 ^ 53 then Some n else None)"

definition field_of :: "json \<Rightarrow> string \<Rightarrow> json option" where
  "field_of v k = (case v of JObj kvs \<Rightarrow> map_of kvs (ascii k) | _ \<Rightarrow> None)"

definition string_of :: "json option \<Rightarrow> ustring option" where
  "string_of v = (case v of Some (JStr t) \<Rightarrow> Some t | _ \<Rightarrow> None)"

definition integer_of :: "json option \<Rightarrow> int option" where
  "integer_of v = (case v of None \<Rightarrow> None | Some j \<Rightarrow> safe_integer j)"

definition read_envelope :: "json \<Rightarrow> Envelope option" where
  "read_envelope v =
     (case (integer_of (field_of v ''v''), string_of (field_of v ''roomId''), string_of (field_of v ''senderSession''),
        integer_of (field_of v ''seq'')) of
        (Some n, Some room, Some session, Some seq) \<Rightarrow>
          (if n = 1 \<and> 1 \<le> seq
           then Some \<lparr>en_roomId = room, en_senderSession = session, en_seq = seq, en_data = field_of v ''data''\<rparr> else None)
      | _ \<Rightarrow> None)"

definition envelope_json :: "ustring \<Rightarrow> ustring \<Rightarrow> nat \<Rightarrow> json \<Rightarrow> json" where
  "envelope_json room session seq v =
     JObj [(ascii ''v'', JNum (show_nat 1)), (ascii ''roomId'', JStr room), (ascii ''senderSession'', JStr session),
       (ascii ''seq'', JNum (show_nat seq)), (ascii ''data'', v)]"

text \<open>The state of the game as it travels.\<close>

definition state_json :: "nat \<Rightarrow> json \<Rightarrow> json" where
  "state_json revision snapshot =
     JObj [(ascii ''revision'', JNum (show_nat revision)), (ascii ''snapshot'', snapshot)]"

definition read_state :: "json option \<Rightarrow> (int \<times> json) option" where
  "read_state v =
     (case v of
        None \<Rightarrow> None
      | Some j \<Rightarrow>
          (case (integer_of (field_of j ''revision''), field_of j ''snapshot'') of
             (Some r, Some s) \<Rightarrow> Some (r, s)
           | _ \<Rightarrow> None))"

subsection \<open>The state\<close>

text \<open>
  A command names the lobby client it was created with, when it answers an invitation. A task that
  waits for \<open>connect\<close> finds it connected already, waits for a connection of a generation, or has
  called \<open>connect\<close> on a lobby client that refuses a second call.
\<close>

datatype room_command =
  CreateRoom
| InviteUser ustring
| LeaveRoom
| AcceptInvitation nat ustring
| DeclineInvitation nat ustring

datatype connect_wait = NoWait | WaitFor nat | FailsIn nat

datatype room_event =
  MemberJoined ustring bool
| MemberOnline ustring bool
| MemberLeft ustring bool
| HostChanged ustring
| BecomeHost "json option"
| RoomState json
| ControlEvent ustring ustring "json option"
| GameEvent ustring ustring "json option"
| RosterApplied PartyFrame
| RoomInvited nat ustring ustring
| RoomError thrown
| RoomConnected

record send_task =
  st_id :: nat
  st_generation :: nat
  st_wait :: connect_wait
  st_name :: ustring
  st_data :: json
  st_to :: "ustring option"
  st_publishes :: "(nat \<times> nat \<times> json) option"

datatype lane_phase = LaneFree | LaneConnecting connect_wait | LaneWaiting

record room =
  rm_rt :: Runtime
  rm_lobby :: "nat option"
  rm_lobbies :: nat
  rm_lobbyGeneration :: nat
  rm_lobbyState :: GatewayClientState
  rm_connectPending :: bool
  rm_roster :: "PartyFrame option"
  rm_lane :: "(nat \<times> nat \<times> room_command) list"
  rm_phase :: lane_phase
  rm_pending :: "room_command option"
  rm_commands :: nat
  rm_results :: "(nat \<times> (thrown + unit)) list"
  rm_lastState :: "json option"
  rm_stateRevision :: nat
  rm_receivedRevision :: int
  rm_receivedSession :: "ustring option"
  rm_stateLane :: "(nat \<times> nat \<times> json) list"
  rm_publishing :: bool
  rm_publishes :: "(nat \<times> (thrown + unit)) list"
  rm_interested :: bool
  rm_sequence :: nat
  rm_seen :: "(ustring \<times> int) list"
  rm_tasks :: "send_task list"
  rm_ids :: nat
  rm_sends :: "(nat \<times> (thrown + unit)) list"
  rm_out :: "(nat \<times> lobby_command) list"
  rm_events :: "room_event list"

text \<open>\<open>re_allows\<close>: the capabilities of the channel allow the frame.\<close>

record room_env =
  re_gateway :: bool
  re_session :: ustring
  re_allows :: "lobby_command \<Rightarrow> bool"

definition new_room :: "Runtime \<Rightarrow> room" where
  "new_room rt =
     \<lparr>rm_rt = rt, rm_lobby = None, rm_lobbies = 0, rm_lobbyGeneration = 0, rm_lobbyState = Idle,
      rm_connectPending = False, rm_roster = None, rm_lane = [], rm_phase = LaneFree, rm_pending = None,
      rm_commands = 0, rm_results = [], rm_lastState = None, rm_stateRevision = 0, rm_receivedRevision = -1,
      rm_receivedSession = None, rm_stateLane = [], rm_publishing = False, rm_publishes = [],
      rm_interested = False, rm_sequence = 0, rm_seen = [], rm_tasks = [], rm_ids = 0, rm_sends = [],
      rm_out = [], rm_events = []\<rparr>"

text \<open>The timeout of a command, 10 seconds by default.\<close>

definition createRoom :: "int option \<Rightarrow> Runtime \<Rightarrow> thrown + room" where
  "createRoom timeoutMs rt = (if or_else timeoutMs 10000 \<le> 0 then Inl RangeError else Inr (new_room rt))"

definition room_error :: "KitErrorCode \<Rightarrow> thrown" where
  "room_error c = KitError ''room'' c"

definition generation :: "room \<Rightarrow> nat" where
  "generation m = rt_generation (rm_rt m)"

definition room_id :: "room \<Rightarrow> ustring option" where
  "room_id m = (case rm_roster m of None \<Rightarrow> None | Some f \<Rightarrow> normalizePartyId (Some (pf_partyId f)))"

definition room_members :: "room \<Rightarrow> (ustring \<times> bool) list" where
  "room_members m = (case rm_roster m of None \<Rightarrow> [] | Some f \<Rightarrow> pf_members f)"

definition room_host :: "room \<Rightarrow> ustring option" where
  "room_host m = (case rm_roster m of None \<Rightarrow> None | Some f \<Rightarrow> if pf_leaderId f = [] then None else Some (pf_leaderId f))"

definition is_host :: "room \<Rightarrow> bool" where
  "is_host m \<longleftrightarrow> room_host m \<noteq> None \<and> room_host m = rt_identity (rm_rt m)"

definition room_emit :: "room_event \<Rightarrow> room \<Rightarrow> room" where
  "room_emit ev m = m\<lparr>rm_events := rm_events m @ [ev]\<rparr>"

subsection \<open>The waiting command\<close>

text \<open>The head of the lane ends with a result; \<open>settle_pending\<close> is \<open>pending?.resolve\<close> or \<open>pending?.reject\<close>.\<close>

definition finish_command :: "thrown + unit \<Rightarrow> room \<Rightarrow> room" where
  "finish_command r m =
     m\<lparr>rm_pending := None, rm_results := rm_results m @ [(fst (hd (rm_lane m)), r)], rm_lane := tl (rm_lane m),
       rm_phase := LaneFree\<rparr>"

definition settle_pending :: "thrown + unit \<Rightarrow> room \<Rightarrow> room" where
  "settle_pending r m = (case rm_pending m of None \<Rightarrow> m | Some c \<Rightarrow> finish_command r m)"

definition command_done :: "room_command \<Rightarrow> room \<Rightarrow> bool" where
  "command_done c m =
     (case c of
        CreateRoom \<Rightarrow> room_id m \<noteq> None \<and> is_host m
      | InviteUser u \<Rightarrow>
          (case rm_roster m of
             None \<Rightarrow> False
           | Some f \<Rightarrow> u \<in> set (pf_invited f) \<or> u \<in> fst ` set (pf_members f))
      | LeaveRoom \<Rightarrow> room_id m = None
      | AcceptInvitation n p \<Rightarrow> room_id m = Some p
      | DeclineInvitation n p \<Rightarrow> True)"

definition check_pending :: "room \<Rightarrow> room" where
  "check_pending m =
     (case rm_pending m of
        None \<Rightarrow> m
      | Some c \<Rightarrow> if command_done c m then settle_pending (Inr ()) m else m)"

definition room_stop :: "room \<Rightarrow> room" where
  "room_stop m =
     settle_pending (Inl (room_error SignedOut))
       (m\<lparr>rm_lobby := None, rm_lobbyState := Closed, rm_connectPending := False, rm_roster := None, rm_lastState := None,
          rm_seen := [], rm_receivedRevision := -1, rm_stateRevision := 0\<rparr>)"

definition refusal_code :: "ustring \<Rightarrow> KitErrorCode" where
  "refusal_code code =
     (if code = ascii ''unknown_user'' then Offline
      else if code = ascii ''rate_limited'' then RateLimited
      else if code = ascii ''too_long'' then PayloadTooLarge
      else InvalidState)"

definition refused :: "ustring \<Rightarrow> room \<Rightarrow> room" where
  "refused code m =
     (let e = room_error (refusal_code code) in
      room_emit (RoomError e) (settle_pending (Inl (mapError ''room'' e)) m))"

subsection \<open>Connecting\<close>

text \<open>
  \<open>connect\<close> up to its \<open>await\<close>. A lobby client is created for the first call of a generation; a call
  that finds one that is neither connected nor connecting for the first time calls \<open>connect\<close> on it
  again, which is refused in every state but the first.
\<close>

definition connect_start :: "room_env \<Rightarrow> room \<Rightarrow> thrown + (connect_wait \<times> room)" where
  "connect_start env m =
     (if \<not> re_gateway env then Inl (room_error NotConfigured)
      else if rt_identity (rm_rt m) = None \<or> rt_disposed (rm_rt m) then Inl (room_error SignedOut)
      else if rm_lobby m \<noteq> None \<and> rm_lobbyState m = Connected then Inr (NoWait, m)
      else if rm_connectPending m then Inr (WaitFor (generation m), m)
      else if rm_lobby m \<noteq> None then Inr (FailsIn (generation m), m)
      else
        Inr (WaitFor (generation m),
          m\<lparr>rm_lobby := Some (rm_lobbies m), rm_lobbies := Suc (rm_lobbies m), rm_lobbyGeneration := generation m,
            rm_lobbyState := Connecting, rm_connectPending := True\<rparr>))"

text \<open>How the wait ends: the environment says whether the connection came up.\<close>

definition connect_end :: "connect_wait \<Rightarrow> bool \<Rightarrow> room \<Rightarrow> thrown option" where
  "connect_end w ok m =
     (case w of
        NoWait \<Rightarrow> None
      | WaitFor g \<Rightarrow>
          (if g \<noteq> generation m then Some (room_error SignedOut)
           else if ok then None else Some (room_error Unavailable))
      | FailsIn g \<Rightarrow> Some (room_error (if g \<noteq> generation m then SignedOut else Unavailable)))"

text \<open>A frame on a lobby client: it throws unless that client is connected and allows the frame.\<close>

definition send_on :: "room_env \<Rightarrow> nat option \<Rightarrow> lobby_command \<Rightarrow> room \<Rightarrow> room option" where
  "send_on env socket c m =
     (case socket of
        None \<Rightarrow> None
      | Some n \<Rightarrow>
          (if rm_lobby m = Some n \<and> rm_lobbyState m = Connected \<and> re_allows env c
           then Some (m\<lparr>rm_out := rm_out m @ [(n, c)]\<rparr>) else None))"

subsection \<open>Commands\<close>

definition call_command :: "room_command \<Rightarrow> room \<Rightarrow> room" where
  "call_command c m =
     m\<lparr>rm_lane := rm_lane m @ [(rm_commands m, generation m, c)], rm_commands := Suc (rm_commands m)\<rparr>"

definition command_target :: "room_command \<Rightarrow> room \<Rightarrow> nat option \<times> lobby_command" where
  "command_target c m =
     (case c of
        CreateRoom \<Rightarrow> (rm_lobby m, PartyCreate)
      | InviteUser u \<Rightarrow> (rm_lobby m, PartyInviteUser u)
      | LeaveRoom \<Rightarrow> (rm_lobby m, PartyLeave)
      | AcceptInvitation n p \<Rightarrow> (Some n, PartyAccept p)
      | DeclineInvitation n p \<Rightarrow> (Some n, PartyDecline p))"

text \<open>The head of the lane: up to its \<open>await\<close> of \<open>connect\<close>, and after it.\<close>

definition lane_start :: "room_env \<Rightarrow> room \<Rightarrow> room" where
  "lane_start env m =
     (case rm_lane m of
        [] \<Rightarrow> m
      | (i, g, c) # rest \<Rightarrow>
          (if rm_phase m \<noteq> LaneFree then m
           else if g \<noteq> generation m then finish_command (Inl (room_error SignedOut)) m
           else
             case connect_start env m of
               Inl e \<Rightarrow> finish_command (Inl e) m
             | Inr (w, m') \<Rightarrow> m'\<lparr>rm_phase := LaneConnecting w\<rparr>))"

definition lane_connected :: "room_env \<Rightarrow> bool \<Rightarrow> room \<Rightarrow> room" where
  "lane_connected env ok m =
     (case (rm_phase m, rm_lane m) of
        (LaneConnecting w, (i, g, c) # rest) \<Rightarrow>
          (case connect_end w ok m of
             Some e \<Rightarrow> finish_command (Inl e) m
           | None \<Rightarrow>
               (let m1 = m\<lparr>rm_phase := LaneWaiting, rm_pending := Some c\<rparr>; (socket, frame) = command_target c m1 in
                case send_on env socket frame m1 of
                  None \<Rightarrow> settle_pending (Inl (room_error Unavailable)) m1
                | Some m2 \<Rightarrow> check_pending m2))
      | _ \<Rightarrow> m)"

definition command_timeout :: "room \<Rightarrow> room" where
  "command_timeout m = settle_pending (Inl (room_error Unavailable)) m"

subsection \<open>Sending\<close>

text \<open>
  \<open>sendControl\<close> up to its \<open>await\<close>. \<open>publishes\<close> is the publication that waits for the call, with its
  number, revision and snapshot.
\<close>

definition sent_result :: "nat \<Rightarrow> (nat \<times> nat \<times> json) option \<Rightarrow> thrown + unit \<Rightarrow> room \<Rightarrow> room" where
  "sent_result i publishes r m =
     (case publishes of
        None \<Rightarrow> m\<lparr>rm_sends := rm_sends m @ [(i, r)]\<rparr>
      | Some (p, revision, snapshot) \<Rightarrow>
          m\<lparr>rm_publishes := rm_publishes m @ [(p, r)], rm_stateLane := tl (rm_stateLane m), rm_publishing := False\<rparr>)"

definition sendControl ::
  "room_env \<Rightarrow> ustring \<Rightarrow> json \<Rightarrow> ustring option \<Rightarrow> (nat \<times> nat \<times> json) option \<Rightarrow> room \<Rightarrow> room" where
  "sendControl env name v to publishes m =
     (let i = rm_ids m; m1 = m\<lparr>rm_ids := Suc i\<rparr> in
      case connect_start env m1 of
        Inl e \<Rightarrow> sent_result i publishes (Inl e) m1
      | Inr (w, m2) \<Rightarrow>
          m2\<lparr>rm_tasks := rm_tasks m2 @
            [\<lparr>st_id = i, st_generation = generation m, st_wait = w, st_name = name, st_data = v, st_to = to,
              st_publishes = publishes\<rparr>]\<rparr>)"

text \<open>What \<open>sendControl\<close> does after it: the envelope, its size, its number and the frame.\<close>

definition envelope_limit :: nat where
  "envelope_limit = 8192"

definition post_envelope :: "room_env \<Rightarrow> send_task \<Rightarrow> room \<Rightarrow> (thrown + unit) \<times> room" where
  "post_envelope env t m =
     (if st_generation t \<noteq> generation m then (Inl (room_error SignedOut), m)
      else
        case room_id m of
          None \<Rightarrow> (Inl (room_error InvalidState), m)
        | Some room \<Rightarrow>
            (case copyJson (st_data t) of
               None \<Rightarrow> (Inl TypeError, m)
             | Some v \<Rightarrow>
                 (let envelope = envelope_json room (re_session env) (Suc (rm_sequence m)) v in
                  case json_bytes envelope of
                    None \<Rightarrow> (Inl TypeError, m)
                  | Some n \<Rightarrow>
                      (if envelope_limit < n then (Inl (room_error PayloadTooLarge), m)
                       else
                         (let m1 = m\<lparr>rm_sequence := Suc (rm_sequence m)\<rparr> in
                          case send_on env (rm_lobby m1)
                              (EventCommand (if st_to t = None then PartyScope else UserScope) (st_to t) (st_name t) envelope) m1 of
                            None \<Rightarrow> (Inl (room_error Unavailable), m1)
                          | Some m2 \<Rightarrow> (Inr (), m2))))))"

text \<open>The end of a task's \<open>await\<close>; a publication that was sent becomes the last state.\<close>

definition after_post :: "send_task \<Rightarrow> thrown + unit \<Rightarrow> room \<Rightarrow> room" where
  "after_post t r m =
     (case (st_publishes t, r) of
        (Some (p, revision, snapshot), Inr u) \<Rightarrow>
          sent_result (st_id t) (st_publishes t) r (m\<lparr>rm_stateRevision := revision, rm_lastState := Some snapshot\<rparr>)
      | _ \<Rightarrow> sent_result (st_id t) (st_publishes t) r m)"

definition resume_send :: "room_env \<Rightarrow> nat \<Rightarrow> bool \<Rightarrow> room \<Rightarrow> room" where
  "resume_send env i ok m =
     (case find (\<lambda>t. st_id t = i) (rm_tasks m) of
        None \<Rightarrow> m
      | Some t \<Rightarrow>
          (let m1 = m\<lparr>rm_tasks := filter (\<lambda>t. st_id t \<noteq> i) (rm_tasks m)\<rparr> in
           case connect_end (st_wait t) ok m1 of
             Some e \<Rightarrow> after_post t (Inl e) m1
           | None \<Rightarrow> (let (r, m2) = post_envelope env t m1 in after_post t r m2)))"

definition resync :: "room_env \<Rightarrow> room \<Rightarrow> room" where
  "resync env m =
     (let m1 = m\<lparr>rm_receivedRevision := -1\<rparr> in
      case room_host m1 of
        Some h \<Rightarrow> if is_host m1 then m1 else sendControl env (ascii ''kit.resync'') (JObj []) (Some h) None m1
      | None \<Rightarrow> m1)"

definition valid_name :: "ustring \<Rightarrow> bool" where
  "valid_name name \<longleftrightarrow> name \<noteq> [] \<and> take 4 name \<noteq> ascii ''kit.'' \<and> byteLength name \<le> 64"

definition room_send :: "room_env \<Rightarrow> ustring \<Rightarrow> json \<Rightarrow> room \<Rightarrow> thrown + room" where
  "room_send env name v m =
     (if valid_name name then Inr (sendControl env name v None None m) else Inl RangeError)"

definition whisper :: "room_env \<Rightarrow> ustring \<Rightarrow> ustring \<Rightarrow> json \<Rightarrow> room \<Rightarrow> thrown + room" where
  "whisper env u name v m =
     (if \<not> valid_name name then Inl RangeError
      else if (u, True) \<notin> set (room_members m) then Inl (room_error Offline)
      else Inr (sendControl env name v (Some u) None m))"

text \<open>\<open>publish\<close> copies the snapshot at once and waits its turn.\<close>

definition publish :: "json \<Rightarrow> room \<Rightarrow> thrown + room" where
  "publish snapshot m =
     (case copyJson snapshot of
        None \<Rightarrow> Inl TypeError
      | Some copy \<Rightarrow>
          Inr (m\<lparr>rm_stateLane := rm_stateLane m @ [(rm_ids m, generation m, copy)], rm_ids := Suc (rm_ids m)\<rparr>))"

definition publish_start :: "room_env \<Rightarrow> room \<Rightarrow> room" where
  "publish_start env m =
     (case rm_stateLane m of
        [] \<Rightarrow> m
      | (p, g, copy) # rest \<Rightarrow>
          (if rm_publishing m then m
           else if g \<noteq> generation m then sent_result 0 (Some (p, 0, copy)) (Inl (room_error SignedOut)) m
           else if \<not> is_host m then sent_result 0 (Some (p, 0, copy)) (Inl (room_error InvalidState)) m
           else
             (let revision = Suc (rm_stateRevision m) in
              sendControl env (ascii ''kit.state'') (state_json revision copy) None (Some (p, revision, copy))
                (m\<lparr>rm_publishing := True\<rparr>))))"

subsection \<open>The roster\<close>

definition joined_events :: "(ustring \<times> bool) list \<Rightarrow> (ustring \<times> bool) list \<Rightarrow> room_event list" where
  "joined_events old new =
     concat (map (\<lambda>(u, online).
       case find (\<lambda>p. fst p = u) old of
         None \<Rightarrow> [MemberJoined u online]
       | Some p \<Rightarrow> if snd p \<noteq> online then [MemberOnline u online] else []) new)"

definition left_events :: "(ustring \<times> bool) list \<Rightarrow> (ustring \<times> bool) list \<Rightarrow> room_event list" where
  "left_events old new =
     map (\<lambda>(u, online). MemberLeft u online) (filter (\<lambda>p. \<not> list_ex (\<lambda>q. fst q = fst p) new) old)"

definition change_room :: "PartyFrame \<Rightarrow> room \<Rightarrow> room" where
  "change_room frame m =
     (if map_option pf_partyId (rm_roster m) = Some (pf_partyId frame) then m
      else m\<lparr>rm_lastState := None, rm_seen := [], rm_receivedRevision := -1\<rparr>)"

definition change_host :: "room_env \<Rightarrow> ustring option \<Rightarrow> PartyFrame \<Rightarrow> room \<Rightarrow> room" where
  "change_host env previous frame m =
     (if previous = Some (pf_leaderId frame) \<or> pf_leaderId frame = [] then m
      else
        (let m1 = room_emit (HostChanged (pf_leaderId frame)) (m\<lparr>rm_receivedRevision := -1, rm_stateRevision := 0\<rparr>) in
         if is_host m1 then room_emit (BecomeHost (rm_lastState m1)) m1 else resync env m1))"

definition applyRoster :: "room_env \<Rightarrow> PartyFrame \<Rightarrow> room \<Rightarrow> room" where
  "applyRoster env frame m =
     (let old = room_members m;
          m1 = (change_room frame m)\<lparr>rm_roster := Some frame\<rparr>;
          m2 = fold room_emit (joined_events old (pf_members frame) @ left_events old (pf_members frame)) m1;
          m3 = change_host env (map_option pf_leaderId (rm_roster m)) frame m2 in
      room_emit (RosterApplied frame) (check_pending m3))"

subsection \<open>Events\<close>

definition seen_limit :: nat where
  "seen_limit = 1024"

definition sender_key :: "ustring \<Rightarrow> Envelope \<Rightarrow> ustring" where
  "sender_key from_user e = from_user @ ascii '':'' @ en_senderSession e"

definition mark_seen :: "ustring \<Rightarrow> int \<Rightarrow> (ustring \<times> int) list \<Rightarrow> (ustring \<times> int) list" where
  "mark_seen key seq seen =
     (let seen' = AList.update key seq seen in if seen_limit < length seen' then tl seen' else seen')"

definition fresh :: "ustring \<Rightarrow> int \<Rightarrow> (ustring \<times> int) list \<Rightarrow> bool" where
  "fresh key seq seen \<longleftrightarrow> or_else (map_of seen key) 0 < seq"

definition apply_state :: "ustring \<Rightarrow> Envelope \<Rightarrow> room \<Rightarrow> room" where
  "apply_state from_user e m =
     (case read_state (en_data e) of
        None \<Rightarrow> m
      | Some (revision, snapshot) \<Rightarrow>
          (if room_host m \<noteq> Some from_user then m
           else
             (let m1 = (if rm_receivedSession m = Some (en_senderSession e) then m
                        else m\<lparr>rm_receivedRevision := -1, rm_receivedSession := Some (en_senderSession e)\<rparr>) in
              if revision \<le> rm_receivedRevision m1 then m1
              else
                (let m2 = m1\<lparr>rm_receivedRevision := revision\<rparr> in
                 case copyJson snapshot of
                   None \<Rightarrow> m2
                 | Some copy \<Rightarrow> room_emit (RoomState copy) (m2\<lparr>rm_lastState := Some copy\<rparr>)))))"

definition answer_resync :: "room_env \<Rightarrow> ustring \<Rightarrow> room \<Rightarrow> room" where
  "answer_resync env from_user m =
     (case rm_lastState m of
        None \<Rightarrow> m
      | Some s \<Rightarrow>
          (if is_host m
           then sendControl env (ascii ''kit.state'') (state_json (rm_stateRevision m) s) (Some from_user) None m else m))"

definition deliver_event :: "room_env \<Rightarrow> ustring \<Rightarrow> ustring \<Rightarrow> Envelope \<Rightarrow> room \<Rightarrow> room" where
  "deliver_event env from_user name e m =
     (if name = ascii ''kit.state'' then apply_state from_user e m
      else if name = ascii ''kit.resync'' then answer_resync env from_user m
      else if take 4 name = ascii ''kit.'' then room_emit (ControlEvent name from_user (en_data e)) m
      else room_emit (GameEvent name from_user (en_data e)) m)"

definition accepts :: "ustring \<Rightarrow> json \<Rightarrow> room \<Rightarrow> Envelope option" where
  "accepts from_user payload m =
     (case read_envelope payload of
        None \<Rightarrow> None
      | Some e \<Rightarrow>
          (if room_id m = Some (en_roomId e) \<and> from_user \<in> fst ` set (room_members m) \<and>
              fresh (sender_key from_user e) (en_seq e) (rm_seen m)
           then Some e else None))"

definition applyEvent :: "room_env \<Rightarrow> ustring \<Rightarrow> ustring \<Rightarrow> json \<Rightarrow> room \<Rightarrow> room" where
  "applyEvent env from_user name payload m =
     (case accepts from_user payload m of
        None \<Rightarrow> m
      | Some e \<Rightarrow>
          deliver_event env from_user name e
            (m\<lparr>rm_seen := mark_seen (sender_key from_user e) (en_seq e) (rm_seen m)\<rparr>))"

subsection \<open>Steps\<close>

text \<open>\<open>current\<close>: the message comes from the lobby client in use.\<close>

definition current :: "nat \<Rightarrow> room \<Rightarrow> bool" where
  "current n m \<longleftrightarrow> rm_lobbyGeneration m = generation m \<and> rm_lobby m = Some n \<and> \<not> rt_disposed (rm_rt m)"

definition background_connect :: "room_env \<Rightarrow> room \<Rightarrow> room" where
  "background_connect env m = (case connect_start env m of Inl e \<Rightarrow> m | Inr (w, m') \<Rightarrow> m')"

definition lobby_up :: "room_env \<Rightarrow> nat \<Rightarrow> room \<Rightarrow> room" where
  "lobby_up env n m =
     (if rm_lobby m \<noteq> Some n \<or> rm_lobbyState m = Closed then m
      else
        (let m1 = m\<lparr>rm_lobbyState := Connected\<rparr> in
         if \<not> current n m1 then m1
         else
           (let m2 = room_emit RoomConnected m1 in if room_id m2 \<noteq> None then resync env m2 else m2)))"

text \<open>A lobby client goes down, to connect again or for good.\<close>

definition lobby_down :: "nat \<Rightarrow> bool \<Rightarrow> room \<Rightarrow> room" where
  "lobby_down n again m =
     (if rm_lobby m \<noteq> Some n \<or> rm_lobbyState m = Closed then m
      else
        (let m1 = m\<lparr>rm_lobbyState := (if again then Reconnecting else Closed)\<rparr> in
         if current n m1 then settle_pending (Inl (room_error Unavailable)) m1 else m1))"

definition room_on :: "room_env \<Rightarrow> room \<Rightarrow> room" where
  "room_on env m =
     (let m1 = m\<lparr>rm_interested := True\<rparr> in if rt_identity (rm_rt m1) = None then m1 else background_connect env m1)"

definition sign_out_room :: "room \<Rightarrow> room" where
  "sign_out_room m = room_stop (m\<lparr>rm_rt := rt_stop (rm_rt m)\<rparr>)"

definition dispose_room :: "room \<Rightarrow> room" where
  "dispose_room m =
     (if rt_disposed (rm_rt m) then m
      else room_stop (m\<lparr>rm_rt := (rt_stop (rm_rt m))\<lparr>rt_disposed := True\<rparr>\<rparr>))"

definition identity_change :: "room_env \<Rightarrow> ustring \<Rightarrow> room \<Rightarrow> room" where
  "identity_change env u m =
     (let m1 = room_stop (m\<lparr>rm_rt := rt_change ((rm_rt m)\<lparr>rt_identity := Some u\<rparr>)\<rparr>) in
      if rm_interested m1 then background_connect env m1 else m1)"

datatype room_step =
  CallCommand room_command
| CallSend ustring json
| CallWhisper ustring ustring json
| CallPublish json
| CallOn
| LaneStarts
| LaneConnected bool
| CommandTimeout
| PublishStarts
| SendResumes nat bool
| ConnectSettles
| LobbyUp nat
| LobbyDown nat bool
| PartyMessage nat PartyFrame
| EventMessage nat ustring ustring json
| InviteMessage nat ustring ustring
| ErrorMessage nat ustring
| SignOut
| IdentityChange ustring
| Dispose

definition or_same :: "room \<Rightarrow> thrown + room \<Rightarrow> room" where
  "or_same m r = (case r of Inl e \<Rightarrow> m | Inr m' \<Rightarrow> m')"

text \<open>\<open>invite\<close> refuses an empty user before it becomes a command.\<close>

definition room_step :: "room_env \<Rightarrow> room_step \<Rightarrow> room \<Rightarrow> room" where
  "room_step env st m =
     (case st of
        CallCommand c \<Rightarrow> if c = InviteUser [] then m else call_command c m
      | CallSend name v \<Rightarrow> or_same m (room_send env name v m)
      | CallWhisper u name v \<Rightarrow> or_same m (whisper env u name v m)
      | CallPublish v \<Rightarrow> or_same m (publish v m)
      | CallOn \<Rightarrow> room_on env m
      | LaneStarts \<Rightarrow> lane_start env m
      | LaneConnected ok \<Rightarrow> lane_connected env ok m
      | CommandTimeout \<Rightarrow> command_timeout m
      | PublishStarts \<Rightarrow> publish_start env m
      | SendResumes i ok \<Rightarrow> resume_send env i ok m
      | ConnectSettles \<Rightarrow> m\<lparr>rm_connectPending := False\<rparr>
      | LobbyUp n \<Rightarrow> lobby_up env n m
      | LobbyDown n again \<Rightarrow> lobby_down n again m
      | PartyMessage n frame \<Rightarrow> if current n m then applyRoster env frame m else m
      | EventMessage n from_user name payload \<Rightarrow> if current n m then applyEvent env from_user name payload m else m
      | InviteMessage n party from_user \<Rightarrow> if current n m then room_emit (RoomInvited n party from_user) m else m
      | ErrorMessage n code \<Rightarrow> if current n m then refused code m else m
      | SignOut \<Rightarrow> sign_out_room m
      | IdentityChange u \<Rightarrow> identity_change env u m
      | Dispose \<Rightarrow> dispose_room m)"

definition room_run :: "room_env \<Rightarrow> room_step list \<Rightarrow> room \<Rightarrow> room" where
  "room_run env steps m = fold (room_step env) steps m"

end
