(* ===== verification/Game_Room_Safety.thy ===== *)
theory Game_Room_Safety
  imports Game_Room
begin

section \<open>The commands of a room\<close>

text \<open>
  The commands of the lane settle in the order of the calls, each once, and a resolved one has done
  what it says.
\<close>

subsection \<open>The lane\<close>

text \<open>What the lane consists of; most operations leave it alone.\<close>

definition lane_view where
  "lane_view m = (rm_results m, rm_lane m, rm_commands m, rm_phase m, rm_pending m)"

definition lane_ok :: "room \<Rightarrow> bool" where
  "lane_ok m \<longleftrightarrow>
     map fst (rm_results m) @ map fst (rm_lane m) = [0..<rm_commands m] \<and>
     (rm_phase m = LaneWaiting \<longleftrightarrow> rm_pending m \<noteq> None) \<and> (rm_phase m \<noteq> LaneFree \<longrightarrow> rm_lane m \<noteq> []) \<and>
     (\<forall>c. rm_pending m = Some c \<longrightarrow> c = snd (snd (hd (rm_lane m))))"

lemma lane_ok_view:
  assumes "lane_view m' = lane_view m"
  shows "lane_ok m' = lane_ok m"
  using assms by (simp add: lane_view_def lane_ok_def)

text \<open>
  The tasks of sending leave more alone: the roster, the runtime, what was seen and what was sent.
\<close>

definition talk_view where
  "talk_view m = (lane_view m, rm_roster m, rm_rt m, rm_seen m, rm_out m, rm_sequence m)"

lemmas view_defs = talk_view_def lane_view_def

named_theorems talk_same

lemma talk_lane: "talk_view m' = talk_view m \<Longrightarrow> lane_view m' = lane_view m"
  by (simp add: talk_view_def)

lemma room_emit_talk [talk_same]: "talk_view (room_emit ev m) = talk_view m"
  by (simp add: room_emit_def view_defs)

lemma emits_talk [talk_same]: "talk_view (fold room_emit evs m) = talk_view m"
  by (induction evs arbitrary: m) (simp_all add: talk_same)

lemma connect_start_talk: "connect_start env m = Inr (w, m') \<Longrightarrow> talk_view m' = talk_view m"
  by (auto simp: connect_start_def view_defs split: if_splits)

lemma sent_result_talk [talk_same]: "talk_view (sent_result i p r m) = talk_view m"
  by (simp add: sent_result_def view_defs split: option.split)

lemma sendControl_talk [talk_same]: "talk_view (sendControl env name v to p m) = talk_view m"
proof (cases "connect_start env (m\<lparr>rm_ids := Suc (rm_ids m)\<rparr>)")
  case (Inl e)
  then show ?thesis
    by (simp add: sendControl_def Let_def talk_same) (simp add: view_defs)
next
  case (Inr r)
  then obtain w m' where "connect_start env (m\<lparr>rm_ids := Suc (rm_ids m)\<rparr>) = Inr (w, m')" by (cases r) simp
  with connect_start_talk [OF this] show ?thesis by (simp add: sendControl_def view_defs)
qed

lemma resync_talk [talk_same]: "talk_view (resync env m) = talk_view m"
  by (simp add: resync_def Let_def talk_same split: option.split) (simp add: view_defs)

lemma change_host_talk [talk_same]: "talk_view (change_host env p f m) = talk_view m"
  by (simp add: change_host_def Let_def talk_same) (simp add: view_defs)

lemma apply_state_talk [talk_same]: "talk_view (apply_state u e m) = talk_view m"
  by (auto simp: apply_state_def Let_def talk_same split: option.split) (simp_all add: view_defs)

lemma answer_resync_talk [talk_same]: "talk_view (answer_resync env u m) = talk_view m"
  by (simp add: answer_resync_def talk_same split: option.split)

lemma deliver_event_talk [talk_same]: "talk_view (deliver_event env u name e m) = talk_view m"
  by (simp add: deliver_event_def talk_same)

lemma after_post_talk [talk_same]: "talk_view (after_post t r m) = talk_view m"
  by (simp add: after_post_def talk_same split: option.split sum.split prod.split) (simp add: view_defs)

lemma publish_start_talk [talk_same]: "talk_view (publish_start env m) = talk_view m"
  by (simp add: publish_start_def talk_same Let_def split: list.split prod.split) (simp add: view_defs)

lemma background_connect_talk [talk_same]: "talk_view (background_connect env m) = talk_view m"
  by (auto simp: background_connect_def connect_start_talk split: sum.split prod.split)

lemma or_same_talk:
  assumes "\<And>m'. r = Inr m' \<Longrightarrow> talk_view m' = talk_view m"
  shows "talk_view (or_same m r) = talk_view m"
  using assms by (simp add: or_same_def split: sum.split)

text \<open>The steps that only start or prepare something.\<close>

fun preparing :: "room_step \<Rightarrow> bool" where
  "preparing (CallSend name v) = True"
| "preparing (CallWhisper u name v) = True"
| "preparing (CallPublish v) = True"
| "preparing CallOn = True"
| "preparing PublishStarts = True"
| "preparing ConnectSettles = True"
| "preparing (LobbyUp n) = True"
| "preparing (InviteMessage n p u) = True"
| "preparing st = False"

lemma preparing_talk:
  assumes "preparing st"
  shows "talk_view (room_step env st m) = talk_view m"
proof (cases st)
  case (CallSend name v)
  show ?thesis
    unfolding room_step_def CallSend room_step.case
    by (rule or_same_talk) (auto simp: room_send_def talk_same split: if_splits)
next
  case (CallWhisper u name v)
  show ?thesis
    unfolding room_step_def CallWhisper room_step.case
    by (rule or_same_talk) (auto simp: whisper_def talk_same split: if_splits)
next
  case (CallPublish v)
  show ?thesis
    unfolding room_step_def CallPublish room_step.case
    by (rule or_same_talk) (auto simp: publish_def view_defs split: option.splits)
next
  case CallOn
  have "talk_view (room_on env m) = talk_view m"
    by (simp add: room_on_def Let_def talk_same) (simp add: view_defs)
  then show ?thesis by (simp add: room_step_def CallOn)
next
  case (LobbyUp n)
  have "talk_view (lobby_up env n m) = talk_view m"
    by (simp add: lobby_up_def Let_def talk_same) (simp add: view_defs)
  then show ?thesis by (simp add: room_step_def LobbyUp)
next
  case ConnectSettles
  then show ?thesis by (simp add: room_step_def view_defs)
qed (use assms in \<open>simp_all add: room_step_def talk_same\<close>)

text \<open>The others.\<close>

lemma change_room_lane: "lane_view (change_room f m) = lane_view m"
  by (simp add: change_room_def lane_view_def)

lemma applyEvent_lane: "lane_view (applyEvent env u name v m) = lane_view m"
  using talk_lane [OF deliver_event_talk]
  by (simp add: applyEvent_def split: option.split) (simp add: lane_view_def)

text \<open>A post changes the number and what was sent.\<close>

definition post_view where
  "post_view m = (lane_view m, rm_roster m, rm_rt m, rm_seen m)"

lemma talk_post: "talk_view m' = talk_view m \<Longrightarrow> post_view m' = post_view m"
  by (simp add: talk_view_def post_view_def)

lemma post_envelope_view: "post_envelope env t m = (r, m') \<Longrightarrow> post_view m' = post_view m"
  by (auto simp: post_envelope_def send_on_def Let_def post_view_def lane_view_def split: if_splits option.splits)

lemma resume_send_view: "post_view (resume_send env i ok m) = post_view m"
proof (cases "find (\<lambda>t. st_id t = i) (rm_tasks m)")
  case (Some t)
  let ?m1 = "m\<lparr>rm_tasks := filter (\<lambda>t. st_id t \<noteq> i) (rm_tasks m)\<rparr>"
  obtain r m2 where post: "post_envelope env t ?m1 = (r, m2)" by force
  have "post_view ?m1 = post_view m" by (simp add: post_view_def lane_view_def)
  then show ?thesis
    using Some post post_envelope_view [OF post] talk_post [OF after_post_talk]
    by (simp add: resume_send_def Let_def split: option.split)
qed (simp add: resume_send_def)

lemma resume_send_lane: "lane_view (resume_send env i ok m) = lane_view m"
  using resume_send_view by (simp add: post_view_def)

text \<open>The head of the lane ends.\<close>

lemma finish_ok:
  assumes "lane_ok m" "rm_lane m \<noteq> []"
  shows "lane_ok (finish_command r m)"
  using assms by (cases "rm_lane m") (auto simp: lane_ok_def finish_command_def)

lemma pending_lane: "lane_ok m \<Longrightarrow> rm_pending m \<noteq> None \<Longrightarrow> rm_lane m \<noteq> []"
  by (auto simp: lane_ok_def)

lemma settle_ok: "lane_ok m \<Longrightarrow> lane_ok (settle_pending r m)"
  using finish_ok [of m r] pending_lane [of m] by (cases "rm_pending m") (simp_all add: settle_pending_def)

lemma check_ok: "lane_ok m \<Longrightarrow> lane_ok (check_pending m)"
  by (auto simp: check_pending_def settle_ok split: option.split)

lemma room_stop_lane: "lane_ok m \<Longrightarrow> lane_ok (room_stop m)"
  unfolding room_stop_def by (rule settle_ok) (simp add: lane_ok_def)

lemma lane_ok_same:
  assumes "lane_ok m" "lane_view m' = lane_view m"
  shows "lane_ok m'"
  using assms(1) lane_ok_view [OF assms(2)] by simp

lemma lane_start_ok:
  assumes "lane_ok m"
  shows "lane_ok (lane_start env m)"
proof (cases "rm_lane m")
  case (Cons x rest)
  obtain i g c where x: "x = (i, g, c)" by (cases x) auto
  have head: "lane_ok (finish_command r m)" for r using finish_ok [OF assms] Cons by simp
  have start: "lane_ok (m'\<lparr>rm_phase := LaneConnecting w\<rparr>)"
    if "connect_start env m = Inr (w, m')" "rm_phase m = LaneFree" for w m'
    using talk_lane [OF connect_start_talk [OF that(1)]] assms that(2) Cons by (auto simp: lane_ok_def lane_view_def)
  then show ?thesis
    using assms Cons x head by (auto simp: lane_start_def split: sum.split prod.split)
qed (simp add: lane_start_def assms)

lemma send_on_lane: "send_on env s c m = Some m' \<Longrightarrow> lane_view m' = lane_view m"
  by (auto simp: send_on_def lane_view_def split: option.splits if_splits)

lemma lane_connected_ok:
  assumes "lane_ok m"
  shows "lane_ok (lane_connected env ok m)"
proof (cases "\<exists>w i g c rest. rm_phase m = LaneConnecting w \<and> rm_lane m = (i, g, c) # rest")
  case True
  then obtain w i g c rest where m: "rm_phase m = LaneConnecting w" "rm_lane m = (i, g, c) # rest" by blast
  let ?m1 = "m\<lparr>rm_phase := LaneWaiting, rm_pending := Some c\<rparr>"
  have m1: "lane_ok ?m1" using assms m by (auto simp: lane_ok_def)
  obtain s f where target: "command_target c ?m1 = (s, f)" by force
  have "lane_ok (check_pending m2)" if "send_on env s f ?m1 = Some m2" for m2
    by (rule check_ok) (rule lane_ok_same [OF m1 send_on_lane [OF that]])
  then show ?thesis
    using m target settle_ok [OF m1] finish_ok [OF assms]
    by (auto simp: lane_connected_def Let_def split: option.split)
next
  case False
  then have "lane_connected env ok m = m"
    by (auto simp: lane_connected_def split: lane_phase.split list.split)
  then show ?thesis by (simp add: assms)
qed

lemma applyRoster_ok:
  assumes "lane_ok m"
  shows "lane_ok (applyRoster env f m)"
proof -
  let ?m1 = "(change_room f m)\<lparr>rm_roster := Some f\<rparr>"
  have "lane_view ?m1 = lane_view m"
    using change_room_lane [of f m] by (simp add: lane_view_def)
  moreover have "talk_view (change_host env p f (fold room_emit evs ?m1)) = talk_view ?m1" for p evs
    by (simp only: talk_same)
  ultimately have "lane_view (change_host env p f (fold room_emit evs ?m1)) = lane_view m" for p evs
    using talk_lane by metis
  from check_ok [OF lane_ok_same [OF assms this]] show ?thesis
    unfolding applyRoster_def Let_def by (rule lane_ok_same [OF _ talk_lane [OF room_emit_talk]])
qed

lemma room_step_ok:
  assumes "lane_ok m"
  shows "lane_ok (room_step env st m)"
proof (cases "preparing st")
  case True
  show ?thesis by (rule lane_ok_same [OF assms talk_lane [OF preparing_talk [OF True]]])
next
  case False
  have rt: "lane_ok (m\<lparr>rm_rt := r\<rparr>)" for r using assms by (simp add: lane_ok_def)
  show ?thesis
  proof (cases st)
    case (CallCommand c)
    then show ?thesis using assms by (auto simp: room_step_def call_command_def lane_ok_def)
  next
    case (LobbyDown n again)
    have "lane_ok (m\<lparr>rm_lobbyState := s\<rparr>)" for s using assms by (simp add: lane_ok_def)
    then show ?thesis using LobbyDown assms by (simp add: room_step_def lobby_down_def Let_def settle_ok)
  next
    case (ErrorMessage n code)
    then show ?thesis
      using assms by (simp add: room_step_def refused_def Let_def lane_ok_same [OF settle_ok talk_lane [OF room_emit_talk]])
  next
    case (IdentityChange u)
    then show ?thesis
      using lane_ok_same [OF room_stop_lane [OF rt] talk_lane [OF background_connect_talk]] room_stop_lane [OF rt]
      by (simp add: room_step_def identity_change_def Let_def)
  next
    case SignOut
    then show ?thesis by (simp add: room_step_def sign_out_room_def room_stop_lane rt)
  next
    case Dispose
    then show ?thesis using assms by (simp add: room_step_def dispose_room_def room_stop_lane rt)
  next
    case (EventMessage n u name v)
    then show ?thesis using assms lane_ok_same [OF assms applyEvent_lane] by (simp add: room_step_def)
  next
    case (SendResumes i ok)
    then show ?thesis using lane_ok_same [OF assms resume_send_lane] by (simp add: room_step_def)
  qed (use False in \<open>simp_all add: room_step_def assms lane_start_ok lane_connected_ok command_timeout_def settle_ok applyRoster_ok\<close>)
qed

lemma room_run_ok: "lane_ok (room_run env steps (new_room rt))"
proof -
  have "lane_ok m \<Longrightarrow> lane_ok (fold (room_step env) steps m)" for m
    by (induction steps arbitrary: m) (simp_all add: room_step_ok)
  then show ?thesis by (simp add: room_run_def new_room_def lane_ok_def)
qed

lemma lane_head:
  assumes "lane_ok m" "rm_lane m \<noteq> []"
  shows "fst (hd (rm_lane m)) = length (rm_results m)"
proof -
  obtain x rest where lane: "rm_lane m = x # rest" using assms(2) by (cases "rm_lane m") auto
  have ids: "map fst (rm_results m) @ fst x # map fst rest = [0..<rm_commands m]"
    using assms(1) lane by (simp add: lane_ok_def)
  have "length (rm_results m) < rm_commands m"
    using arg_cong [OF ids, of length] by simp
  then show ?thesis
    using arg_cong [OF ids, of "\<lambda>xs. xs ! length (rm_results m)"] lane by (simp add: nth_append)
qed

lemma timeout_ends_head:
  assumes "lane_ok m"
  shows "rm_pending m = None \<or>
      rm_results (room_step env CommandTimeout m) =
        rm_results m @ [(length (rm_results m), Inl (room_error Unavailable))] \<and>
      rm_lane (room_step env CommandTimeout m) = tl (rm_lane m)"
  using lane_head [OF assms] pending_lane [OF assms]
  by (auto simp: room_step_def command_timeout_def settle_pending_def finish_command_def)

text \<open>
  The commands of a room settle in the order in which they were called, each at most once, one
  at a time: at every moment the results are those of the first commands, the lane holds the rest,
  and a command that waits for the roster is its head, which the timer ends if nothing else does.
\<close>
theorem commands_settle_in_order:
  "let m = room_run env steps (new_room rt) in
    map fst (rm_results m) @ map fst (rm_lane m) = [0..<rm_commands m] \<and>
    (rm_phase m = LaneWaiting \<longleftrightarrow> rm_pending m \<noteq> None) \<and>
    (rm_pending m = None \<or>
      rm_results (room_step env CommandTimeout m) =
        rm_results m @ [(length (rm_results m), Inl (room_error Unavailable))] \<and>
      rm_lane (room_step env CommandTimeout m) = tl (rm_lane m))"
  using room_run_ok [of env steps rt] timeout_ends_head [OF room_run_ok]
  by (simp add: Let_def lane_ok_def)

subsection \<open>A resolved command has done what it says\<close>

definition sound_step :: "room \<Rightarrow> room \<Rightarrow> bool" where
  "sound_step m m' \<longleftrightarrow>
     rm_results m' = rm_results m \<or> (\<exists>i e. rm_results m' = rm_results m @ [(i, Inl e)]) \<or>
     (\<exists>i g c. rm_results m' = rm_results m @ [(i, Inr ())] \<and> rm_lane m = (i, g, c) # rm_lane m' \<and> command_done c m')"

lemma same_sound: "lane_view m' = lane_view m \<Longrightarrow> sound_step m m'"
  by (simp add: sound_step_def lane_view_def)

lemma settle_error_sound: "lane_view m1 = lane_view m \<Longrightarrow> sound_step m (settle_pending (Inl e) m1)"
  by (auto simp: sound_step_def settle_pending_def finish_command_def lane_view_def split: option.split)

lemma finish_error_sound: "sound_step m (finish_command (Inl e) m)"
  by (simp add: sound_step_def finish_command_def)

lemma finish_done [simp]: "command_done c (finish_command r m) = command_done c m"
  by (simp add: command_done_def finish_command_def room_id_def is_host_def room_host_def split: room_command.split)

lemma emit_done [simp]: "command_done c (room_emit ev m) = command_done c m"
  by (simp add: command_done_def room_emit_def room_id_def is_host_def room_host_def split: room_command.split)

lemma check_sound:
  assumes "lane_ok m1" "rm_results m1 = rm_results m" "rm_lane m1 = rm_lane m"
  shows "sound_step m (check_pending m1)"
proof (cases "rm_pending m1")
  case (Some c)
  then have "rm_lane m1 \<noteq> []" "c = snd (snd (hd (rm_lane m1)))"
    using assms(1) pending_lane by (auto simp: lane_ok_def)
  then obtain i g rest where lane: "rm_lane m1 = (i, g, c) # rest"
    by (cases "rm_lane m1") auto
  show ?thesis
  proof (cases "command_done c m1")
    case True
    have "check_pending m1 = finish_command (Inr ()) m1"
      using Some True by (simp add: check_pending_def settle_pending_def)
    moreover have "rm_lane m = (i, g, c) # rm_lane (finish_command (Inr ()) m1)"
        "rm_results (finish_command (Inr ()) m1) = rm_results m @ [(i, Inr ())]"
      using lane assms(2,3) by (simp_all add: finish_command_def)
    ultimately show ?thesis using True unfolding sound_step_def by auto
  qed (use Some assms(2) in \<open>simp add: check_pending_def sound_step_def\<close>)
qed (use assms(2) in \<open>simp add: check_pending_def sound_step_def\<close>)

lemma emit_sound: "sound_step m m' \<Longrightarrow> sound_step m (room_emit ev m')"
  by (simp add: sound_step_def) (simp add: room_emit_def)

lemma lane_fields:
  assumes "lane_view m' = lane_view m"
  shows "rm_results m' = rm_results m" "rm_lane m' = rm_lane m"
  using assms by (simp_all add: lane_view_def)

lemma talk_done: "talk_view m' = talk_view m \<Longrightarrow> command_done c m' = command_done c m"
  by (simp add: talk_view_def command_done_def room_id_def is_host_def room_host_def split: room_command.split)

lemma talk_sound: "talk_view m2 = talk_view m1 \<Longrightarrow> sound_step m m1 \<Longrightarrow> sound_step m m2"
  using talk_done [of m2 m1] lane_fields [OF talk_lane, of m2 m1] by (simp add: sound_step_def)

lemma roster_view:
  "lane_view (change_host env p f (fold room_emit evs ((change_room f m)\<lparr>rm_roster := Some f\<rparr>))) = lane_view m"
  (is "lane_view (change_host env p f (fold room_emit evs ?m1)) = _")
proof -
  have "lane_view ?m1 = lane_view m"
    using change_room_lane [of f m] by (simp add: lane_view_def)
  moreover have "talk_view (change_host env p f (fold room_emit evs ?m1)) = talk_view ?m1"
    by (simp only: talk_same)
  ultimately show ?thesis using talk_lane by metis
qed

lemma applyRoster_sound:
  assumes "lane_ok m"
  shows "sound_step m (applyRoster env f m)"
  unfolding applyRoster_def Let_def
  by (intro emit_sound check_sound lane_ok_same [OF assms roster_view]) (rule lane_fields [OF roster_view])+

lemma lane_start_sound: "sound_step m (lane_start env m)"
proof -
  have start: "sound_step m (m'\<lparr>rm_phase := LaneConnecting w\<rparr>)" if "connect_start env m = Inr (w, m')" for w m'
    using talk_lane [OF connect_start_talk [OF that]] by (simp add: sound_step_def lane_view_def)
  show ?thesis
    using start finish_error_sound same_sound [of m m]
    by (auto simp: lane_start_def split: list.split sum.split prod.split)
qed

lemma lane_connected_sound:
  assumes "lane_ok m"
  shows "sound_step m (lane_connected env ok m)"
proof (cases "\<exists>w i g c rest. rm_phase m = LaneConnecting w \<and> rm_lane m = (i, g, c) # rest")
  case True
  then obtain w i g c rest where m: "rm_phase m = LaneConnecting w" "rm_lane m = (i, g, c) # rest" by blast
  let ?m1 = "m\<lparr>rm_phase := LaneWaiting, rm_pending := Some c\<rparr>"
  have m1: "lane_ok ?m1" using assms m by (auto simp: lane_ok_def)
  obtain s f where target: "command_target c ?m1 = (s, f)" by force
  have sent: "sound_step m (check_pending m2)" if "send_on env s f ?m1 = Some m2" for m2
    using send_on_lane [OF that] by (intro check_sound lane_ok_same [OF m1 send_on_lane [OF that]]) (simp_all add: lane_view_def)
  have refused: "sound_step m (settle_pending (Inl e) ?m1)" for e
    by (auto simp: sound_step_def settle_pending_def finish_command_def)
  show ?thesis
    using m target sent refused finish_error_sound by (auto simp: lane_connected_def Let_def split: option.split)
next
  case False
  then have "lane_connected env ok m = m"
    by (auto simp: lane_connected_def split: lane_phase.split list.split)
  then show ?thesis by (simp add: same_sound)
qed

lemma room_stop_sound: "lane_view m1 = lane_view m \<Longrightarrow> sound_step m (room_stop m1)"
  unfolding room_stop_def by (rule settle_error_sound) (simp add: lane_view_def)

lemma room_step_sound:
  assumes "lane_ok m"
  shows "sound_step m (room_step env st m)"
proof (cases "preparing st")
  case True
  show ?thesis by (rule same_sound [OF talk_lane [OF preparing_talk [OF True]]])
next
  case False
  have rt: "sound_step m (room_stop (m\<lparr>rm_rt := r\<rparr>))" for r
    by (rule room_stop_sound) (simp add: lane_view_def)
  show ?thesis
  proof (cases st)
    case (CallCommand c)
    then show ?thesis by (simp add: room_step_def call_command_def sound_step_def)
  next
    case (LobbyDown n again)
    have "sound_step m (m\<lparr>rm_lobbyState := s\<rparr>)" "sound_step m (settle_pending (Inl e) (m\<lparr>rm_lobbyState := s\<rparr>))" for s e
      by (rule same_sound settle_error_sound, simp add: lane_view_def)+
    then show ?thesis using LobbyDown same_sound [of m m] by (simp add: room_step_def lobby_down_def Let_def)
  next
    case (ErrorMessage n code)
    then show ?thesis
      using emit_sound [OF settle_error_sound [of m m]] same_sound [of m m] by (simp add: room_step_def refused_def Let_def)
  next
    case (IdentityChange u)
    have "sound_step m (background_connect env (room_stop (m\<lparr>rm_rt := r\<rparr>)))" for r
      by (rule talk_sound [OF background_connect_talk rt])
    then show ?thesis using IdentityChange rt by (simp add: room_step_def identity_change_def Let_def)
  next
    case Dispose
    then show ?thesis using same_sound [of m m] rt by (simp add: room_step_def dispose_room_def)
  next
    case (EventMessage n u name v)
    then show ?thesis using same_sound [OF applyEvent_lane] same_sound [of m m] by (simp add: room_step_def)
  next
    case (SendResumes i ok)
    then show ?thesis using same_sound [OF resume_send_lane] by (simp add: room_step_def)
  qed (use False same_sound [of m m] in \<open>simp_all add: room_step_def assms lane_start_sound lane_connected_sound
      command_timeout_def settle_error_sound applyRoster_sound sign_out_room_def rt\<close>)
qed

text \<open>
  C34: Whenever a step resolves a command of a room, it is the one at the head of the lane and it has
  done what it says in the state the step leaves: \<open>create\<close> ends in a room this player hosts,
  \<open>invite\<close> with the user invited or a member, \<open>leave\<close> outside of any room, and the acceptance of an
  invitation in the room it was for.
\<close>
theorem resolved_command_is_done:
  assumes "rm_results (room_step env st (room_run env steps (new_room rt))) =
      rm_results (room_run env steps (new_room rt)) @ [(i, Inr ())]"
  shows "\<exists>g c. rm_lane (room_run env steps (new_room rt)) =
      (i, g, c) # rm_lane (room_step env st (room_run env steps (new_room rt))) \<and>
    command_done c (room_step env st (room_run env steps (new_room rt)))"
  using room_step_sound [OF room_run_ok, of env steps rt env st] assms by (auto simp: sound_step_def)

definition demo_env :: room_env where
  "demo_env = \<lparr>re_gateway = True, re_session = ascii ''s'', re_allows = (\<lambda>_. True)\<rparr>"

definition demo_runtime :: Runtime where
  "demo_runtime = \<lparr>rt_identity = Some (ascii ''me''), rt_generation = 0, rt_foreground = True, rt_disposed = False\<rparr>"

definition demo_roster :: "string \<Rightarrow> PartyFrame" where
  "demo_roster leader =
     \<lparr>pf_partyId = ascii ''p'', pf_leaderId = ascii leader, pf_members = [(ascii ''me'', True), (ascii ''you'', True)],
      pf_invited = [], pf_max = 4\<rparr>"

lemmas room_eval =
  room_run_def room_step_def demo_env_def demo_runtime_def demo_roster_def new_room_def call_command_def lane_start_def
  connect_start_def generation_def lane_connected_def connect_end_def command_target_def send_on_def check_pending_def
  command_done_def settle_pending_def finish_command_def lobby_up_def current_def room_emit_def room_id_def
  applyRoster_def room_members_def change_room_def joined_events_def left_events_def change_host_def is_host_def
  room_host_def normalizePartyId_def

lemma resolved_command_is_done_witness:
  "\<exists>g c. rm_lane (room_run demo_env [CallCommand CreateRoom, LaneStarts, LobbyUp 0, LaneConnected True] (new_room demo_runtime)) =
      [(0, g, c)] \<and>
    command_done c (room_step demo_env (PartyMessage 0 (demo_roster ''me''))
      (room_run demo_env [CallCommand CreateRoom, LaneStarts, LobbyUp 0, LaneConnected True] (new_room demo_runtime)))"
proof -
  let ?m = "room_run demo_env [CallCommand CreateRoom, LaneStarts, LobbyUp 0, LaneConnected True] (new_room demo_runtime)"
  let ?st = "PartyMessage 0 (demo_roster ''me'')"
  have "rm_results (room_step demo_env ?st ?m) = rm_results ?m @ [(0, Inr ())]"
    by (simp add: room_eval)
  from resolved_command_is_done [OF this]
  obtain g c where "rm_lane ?m = (0, g, c) # rm_lane (room_step demo_env ?st ?m)" "command_done c (room_step demo_env ?st ?m)"
    by blast
  moreover have "length (rm_lane ?m) = 1" by (simp add: room_eval)
  ultimately show ?thesis by auto
qed

end
