(* ===== verification/Game_Room_Events.thy ===== *)
theory Game_Room_Events
  imports Game_Room_Safety
begin

section \<open>Events of a room\<close>

text \<open>
  What a room sends is numbered and bounded, an event is delivered at most once, a host answers a
  member with exactly the state it holds, and a room whose lobby client stopped for good is mute.
\<close>

subsection \<open>What changes what was sent and seen\<close>

definition wire_view where
  "wire_view m = (rm_out m, rm_sequence m)"

definition seen_view where
  "seen_view m = (rm_roster m, rm_seen m)"

lemma talk_views:
  assumes "talk_view m' = talk_view m"
  shows "wire_view m' = wire_view m" "seen_view m' = seen_view m"
  using assms by (simp_all add: talk_view_def wire_view_def seen_view_def)

lemma finish_views [simp]:
  "wire_view (finish_command r m) = wire_view m" "seen_view (finish_command r m) = seen_view m"
  by (simp_all add: finish_command_def wire_view_def seen_view_def)

lemma settle_views [simp]:
  "wire_view (settle_pending r m) = wire_view m" "seen_view (settle_pending r m) = seen_view m"
  by (simp_all add: settle_pending_def split: option.split)

lemma check_views [simp]:
  "wire_view (check_pending m) = wire_view m" "seen_view (check_pending m) = seen_view m"
  by (simp_all add: check_pending_def split: option.split)

lemma stop_wire [simp]: "wire_view (room_stop m) = wire_view m"
  by (simp add: room_stop_def) (simp add: wire_view_def)

lemma emit_views [simp]:
  "wire_view (room_emit ev m) = wire_view m" "seen_view (room_emit ev m) = seen_view m"
  by (simp_all add: room_emit_def wire_view_def seen_view_def)

lemma lane_start_views [simp]:
  "wire_view (lane_start env m) = wire_view m" "seen_view (lane_start env m) = seen_view m"
proof -
  have "wire_view (m'\<lparr>rm_phase := LaneConnecting w\<rparr>) = wire_view m \<and> seen_view (m'\<lparr>rm_phase := LaneConnecting w\<rparr>) = seen_view m"
    if "connect_start env m = Inr (w, m')" for w m'
    using connect_start_talk [OF that] by (simp add: talk_view_def wire_view_def seen_view_def)
  then show "wire_view (lane_start env m) = wire_view m" "seen_view (lane_start env m) = seen_view m"
    by (simp_all add: lane_start_def split: list.split sum.split)
qed

lemma send_on_seen: "send_on env s c m = Some m' \<Longrightarrow> seen_view m' = seen_view m"
  by (auto simp: send_on_def seen_view_def split: option.splits if_splits)

lemma lane_connected_seen [simp]: "seen_view (lane_connected env ok m) = seen_view m"
proof -
  have "seen_view (m\<lparr>rm_phase := p, rm_pending := c\<rparr>) = seen_view m" for p c by (simp add: seen_view_def)
  then show ?thesis
    using send_on_seen by (auto simp: lane_connected_def Let_def split: lane_phase.split list.split option.split prod.split)
qed

lemma applyEvent_wire [simp]: "wire_view (applyEvent env u name v m) = wire_view m"
  using talk_views(1) [OF deliver_event_talk]
  by (simp add: applyEvent_def split: option.split) (simp add: wire_view_def)

lemma applyRoster_wire [simp]: "wire_view (applyRoster env f m) = wire_view m"
proof -
  let ?m1 = "(change_room f m)\<lparr>rm_roster := Some f\<rparr>"
  have "talk_view (change_host env p f (fold room_emit evs ?m1)) = talk_view ?m1" for p evs
    by (simp only: talk_same)
  from talk_views(1) [OF this] show ?thesis
    by (simp add: applyRoster_def Let_def del: fold_append) (simp add: wire_view_def change_room_def)
qed

lemma room_stop_wire [simp]: "wire_view (m\<lparr>rm_rt := r\<rparr>) = wire_view m" "wire_view (m\<lparr>rm_lobbyState := s\<rparr>) = wire_view m"
  by (simp_all add: wire_view_def)

subsection \<open>Numbers\<close>

text \<open>The payloads of the event frames that were sent.\<close>

definition sent_payloads :: "(nat \<times> lobby_command) list \<Rightarrow> json list" where
  "sent_payloads out = concat (map (\<lambda>(n, c). case c of EventCommand sc to name p \<Rightarrow> [p] | _ \<Rightarrow> []) out)"

definition bounded :: "json \<Rightarrow> bool" where
  "bounded v \<longleftrightarrow> (case json_bytes v of None \<Rightarrow> False | Some n \<Rightarrow> n \<le> envelope_limit)"

text \<open>The envelopes \<open>es\<close>, with room, number and content, are what a session sent up to a number.\<close>

definition written :: "ustring \<Rightarrow> nat \<Rightarrow> json list \<Rightarrow> (ustring \<times> nat \<times> json) list \<Rightarrow> bool" where
  "written session limit payloads es \<longleftrightarrow>
     payloads = map (\<lambda>(r, k, v). envelope_json r session k v) es \<and> sorted_wrt (<) (map (fst \<circ> snd) es) \<and>
     (\<forall>(r, k, v) \<in> set es. r \<noteq> [] \<and> 1 \<le> k \<and> k \<le> limit) \<and> list_all bounded payloads"

definition numbers_ok :: "room_env \<Rightarrow> room \<Rightarrow> bool" where
  "numbers_ok env m \<longleftrightarrow> (\<exists>es. written (re_session env) (rm_sequence m) (sent_payloads (rm_out m)) es)"

lemma numbers_view: "wire_view m' = wire_view m \<Longrightarrow> numbers_ok env m' = numbers_ok env m"
  by (simp add: wire_view_def numbers_ok_def)

lemma sent_payloads_simps [simp]:
  "sent_payloads (out @ [(n, EventCommand sc to name p)]) = sent_payloads out @ [p]"
  "sent_payloads (out @ [(n, PartyCreate)]) = sent_payloads out"
  "sent_payloads (out @ [(n, PartyInviteUser u)]) = sent_payloads out"
  "sent_payloads (out @ [(n, PartyLeave)]) = sent_payloads out"
  "sent_payloads (out @ [(n, PartyAccept u)]) = sent_payloads out"
  "sent_payloads (out @ [(n, PartyDecline u)]) = sent_payloads out"
  by (simp_all add: sent_payloads_def)

lemma written_later: "written session limit ps es \<Longrightarrow> limit \<le> limit' \<Longrightarrow> written session limit' ps es"
  by (fastforce simp: written_def)

lemma written_next:
  assumes "written session limit ps es" "r \<noteq> []" "bounded (envelope_json r session (Suc limit) v)"
  shows "written session (Suc limit) (ps @ [envelope_json r session (Suc limit) v]) (es @ [(r, Suc limit, v)])"
  using assms by (fastforce simp: written_def sorted_wrt_append)

lemma room_id_nonempty: "room_id m = Some r \<Longrightarrow> r \<noteq> []"
  by (auto simp: room_id_def normalizePartyId_def split: option.splits if_splits)

lemma post_envelope_numbers:
  assumes "numbers_ok env m" "post_envelope env t m = (r, m')"
  shows "numbers_ok env m'"
proof -
  from assms(1) obtain es where es: "written (re_session env) (rm_sequence m) (sent_payloads (rm_out m)) es"
    by (auto simp: numbers_ok_def)
  have skipped: "numbers_ok env (m\<lparr>rm_sequence := Suc (rm_sequence m)\<rparr>)"
    using written_later [OF es, of "Suc (rm_sequence m)"] by (auto simp: numbers_ok_def)
  have posted: "numbers_ok env (m\<lparr>rm_sequence := Suc (rm_sequence m),
      rm_out := rm_out m @ [(n, EventCommand sc to name (envelope_json room (re_session env) (Suc (rm_sequence m)) v))]\<rparr>)"
    if "room_id m = Some room" "json_bytes (envelope_json room (re_session env) (Suc (rm_sequence m)) v) = Some b"
      "\<not> envelope_limit < b" for n sc to name room v b
    using written_next [OF es room_id_nonempty [OF that(1)], of v] that(2,3)
    by (auto simp: numbers_ok_def bounded_def)
  show ?thesis
    using assms skipped posted
    by (auto simp: post_envelope_def Let_def send_on_def split: if_splits option.splits)
qed

lemma resume_send_numbers:
  assumes "numbers_ok env m"
  shows "numbers_ok env (resume_send env i ok m)"
proof (cases "find (\<lambda>t. st_id t = i) (rm_tasks m)")
  case (Some t)
  let ?m1 = "m\<lparr>rm_tasks := filter (\<lambda>t. st_id t \<noteq> i) (rm_tasks m)\<rparr>"
  obtain r m2 where post: "post_envelope env t ?m1 = (r, m2)" by force
  have m1: "numbers_ok env ?m1" using assms by (simp add: numbers_ok_def)
  have "numbers_ok env (after_post t r' m')" if "numbers_ok env m'" for r' m'
    using that numbers_view [OF talk_views(1) [OF after_post_talk]] by simp
  then show ?thesis
    using Some post m1 post_envelope_numbers [OF m1 post]
    by (simp add: resume_send_def Let_def split: option.split)
qed (simp add: resume_send_def assms)

lemma lane_connected_numbers:
  assumes "numbers_ok env m"
  shows "numbers_ok env (lane_connected env ok m)"
proof (cases "\<exists>w i g c rest. rm_phase m = LaneConnecting w \<and> rm_lane m = (i, g, c) # rest")
  case True
  then obtain w i g c rest where m: "rm_phase m = LaneConnecting w" "rm_lane m = (i, g, c) # rest" by blast
  let ?m1 = "m\<lparr>rm_phase := LaneWaiting, rm_pending := Some c\<rparr>"
  have m1: "numbers_ok env ?m1" using assms by (simp add: numbers_ok_def)
  obtain s f where target: "command_target c ?m1 = (s, f)" by force
  have "numbers_ok env m2" if "send_on env s f ?m1 = Some m2" for m2
    using that target m1
    by (cases c) (auto simp: send_on_def command_target_def numbers_ok_def split: option.splits if_splits)
  then show ?thesis
    using m target m1 assms numbers_view [OF finish_views(1)] numbers_view [OF settle_views(1)] numbers_view [OF check_views(1)]
    by (simp add: lane_connected_def Let_def split: option.split)
next
  case False
  then have "lane_connected env ok m = m"
    by (auto simp: lane_connected_def split: lane_phase.split list.split)
  then show ?thesis by (simp add: assms)
qed

text \<open>Every step but these two leaves alone what was sent.\<close>

fun posting :: "room_step \<Rightarrow> bool" where
  "posting (SendResumes i ok) = True"
| "posting (LaneConnected ok) = True"
| "posting st = False"

lemma other_wire:
  assumes "\<not> posting st"
  shows "wire_view (room_step env st m) = wire_view m"
proof (cases "preparing st")
  case True
  then show ?thesis using talk_views(1) [OF preparing_talk] by blast
next
  case False
  have background: "wire_view (background_connect env m') = wire_view m'" for m'
    by (rule talk_views(1) [OF background_connect_talk])
  have call: "wire_view (call_command c m) = wire_view m" for c
    by (simp add: call_command_def wire_view_def)
  show ?thesis
    using assms False
    by (cases st)
      (simp_all add: room_step_def call command_timeout_def lobby_down_def Let_def refused_def sign_out_room_def
        identity_change_def background dispose_room_def)
qed

lemma room_step_numbers:
  assumes "numbers_ok env m"
  shows "numbers_ok env (room_step env st m)"
proof (cases "posting st")
  case True
  then show ?thesis
    using assms resume_send_numbers lane_connected_numbers by (cases st) (simp_all add: room_step_def)
next
  case False
  from numbers_view [OF other_wire [OF this]] show ?thesis using assms by simp
qed

text \<open>
  Whatever happens, the event frames a room sends are envelopes of its session for the room it
  is in, numbered from 1 without repetition and in increasing order, also across reconnects and
  identities, and none is longer than the limit.
\<close>
theorem envelope_numbers_increase:
  "\<exists>es. sent_payloads (rm_out (room_run env steps (new_room rt))) =
      map (\<lambda>(r, k, v). envelope_json r (re_session env) k v) es \<and>
    sorted_wrt (<) (0 # map (fst \<circ> snd) es) \<and> list_all (\<lambda>e. fst e \<noteq> []) es \<and>
    list_all bounded (sent_payloads (rm_out (room_run env steps (new_room rt))))"
proof -
  have "numbers_ok env m \<Longrightarrow> numbers_ok env (fold (room_step env) steps m)" for m
    by (induction steps arbitrary: m) (simp_all add: room_step_numbers)
  moreover have "numbers_ok env (new_room rt)"
    by (simp add: numbers_ok_def new_room_def sent_payloads_def written_def)
  ultimately obtain es where "written (re_session env) (rm_sequence (room_run env steps (new_room rt)))
      (sent_payloads (rm_out (room_run env steps (new_room rt)))) es"
    by (auto simp: room_run_def numbers_ok_def)
  then have "sent_payloads (rm_out (room_run env steps (new_room rt))) =
        map (\<lambda>(r, k, v). envelope_json r (re_session env) k v) es \<and>
      sorted_wrt (<) (0 # map (fst \<circ> snd) es) \<and> list_all (\<lambda>e. fst e \<noteq> []) es \<and>
      list_all bounded (sent_payloads (rm_out (room_run env steps (new_room rt))))"
    by (force simp: written_def list_all_iff)
  then show ?thesis by (rule exI)
qed

subsection \<open>At most once\<close>

text \<open>
  The steps that stay in a room, the senders whose envelopes a list of steps brings, and what
  \<open>seen\<close> knows of one of them. \<open>K\<close> are all the senders there are.
\<close>

fun stays :: "ustring \<Rightarrow> room_step \<Rightarrow> bool" where
  "stays r (PartyMessage n f) \<longleftrightarrow> pf_partyId f = r"
| "stays r SignOut \<longleftrightarrow> False"
| "stays r (IdentityChange u) \<longleftrightarrow> False"
| "stays r Dispose \<longleftrightarrow> False"
| "stays r st \<longleftrightarrow> True"

fun brought :: "room_step \<Rightarrow> ustring list" where
  "brought (EventMessage n u name p) =
     (case read_envelope p of None \<Rightarrow> [] | Some e \<Rightarrow> [sender_key u e])"
| "brought st = []"

definition knows :: "ustring set \<Rightarrow> ustring \<Rightarrow> ustring \<Rightarrow> int \<Rightarrow> room \<Rightarrow> bool" where
  "knows K r key s m \<longleftrightarrow>
     map_option pf_partyId (rm_roster m) = Some r \<and> distinct (map fst (rm_seen m)) \<and> fst ` set (rm_seen m) \<subseteq> K \<and>
     (\<exists>v. map_of (rm_seen m) key = Some v \<and> s \<le> v)"

lemma knows_view: "seen_view m' = seen_view m \<Longrightarrow> knows K r key s m' = knows K r key s m"
  by (simp add: seen_view_def knows_def)

lemma mark_seen_fits:
  assumes "distinct (map fst seen)" "fst ` set seen \<subseteq> K" "key \<in> K" "finite K" "card K \<le> seen_limit"
  shows "mark_seen key s seen = AList.update key s seen"
proof -
  have d: "distinct (map fst (AList.update key s seen))" by (rule distinct_update [OF assms(1)])
  have "length (AList.update key s seen) = card (fst ` set (AList.update key s seen))"
    using distinct_card [OF d] by simp
  also have "\<dots> \<le> card K"
    using assms(2,3) by (intro card_mono [OF assms(4)]) (auto simp: dom_update)
  finally show ?thesis using assms(5) by (simp add: mark_seen_def)
qed

lemma mark_seen_distinct: "distinct (map fst seen) \<Longrightarrow> distinct (map fst (mark_seen key s seen))"
  using distinct_update [of seen key s] by (simp add: mark_seen_def Let_def distinct_tl map_tl)

lemma applyEvent_seen:
  "seen_view (applyEvent env u name p m) =
     (rm_roster m, case accepts u p m of None \<Rightarrow> rm_seen m | Some e \<Rightarrow> mark_seen (sender_key u e) (en_seq e) (rm_seen m))"
  using talk_views(2) [OF deliver_event_talk]
  by (cases "accepts u p m") (simp_all add: applyEvent_def seen_view_def [of m], simp add: seen_view_def)

lemma accepts_read:
  assumes "accepts u p m = Some e"
  shows "read_envelope p = Some e" "fresh (sender_key u e) (en_seq e) (rm_seen m)"
  using assms by (auto simp: accepts_def split: option.splits if_splits)

lemma applyEvent_knows:
  assumes "knows K r key s m" "finite K" "card K \<le> seen_limit" "set (brought (EventMessage n u name p)) \<subseteq> K"
  shows "knows K r key s (applyEvent env u name p m)"
proof (cases "accepts u p m")
  case None
  then have "seen_view (applyEvent env u name p m) = seen_view m"
    by (simp add: applyEvent_def)
  then show ?thesis using assms(1) knows_view by blast
next
  case (Some e)
  let ?key = "sender_key u e"
  have key: "?key \<in> K" and new: "or_else (map_of (rm_seen m) ?key) 0 < en_seq e"
    using assms(4) accepts_read [OF Some] by (simp_all add: fresh_def)
  obtain v where v: "map_of (rm_seen m) key = Some v" "s \<le> v"
    using assms(1) by (auto simp: knows_def)
  have "mark_seen ?key (en_seq e) (rm_seen m) = AList.update ?key (en_seq e) (rm_seen m)"
    using assms key by (intro mark_seen_fits [of _ K]) (auto simp: knows_def)
  then have seen: "rm_seen (applyEvent env u name p m) = AList.update ?key (en_seq e) (rm_seen m)"
      and "rm_roster (applyEvent env u name p m) = rm_roster m"
    using applyEvent_seen [of env u name p m] Some by (simp_all add: seen_view_def)
  moreover have "\<exists>v'. map_of (AList.update ?key (en_seq e) (rm_seen m)) key = Some v' \<and> s \<le> v'"
    using v new by (auto simp: update_conv' or_else_def)
  ultimately show ?thesis
    using assms(1) key distinct_update [of "rm_seen m" ?key "en_seq e"] by (auto simp: knows_def dom_update)
qed

lemma applyRoster_seen:
  "seen_view (applyRoster env f m) = (Some f, rm_seen (change_room f m))"
proof -
  let ?m1 = "(change_room f m)\<lparr>rm_roster := Some f\<rparr>"
  have "talk_view (change_host env p f (fold room_emit evs ?m1)) = talk_view ?m1" for p evs
    by (simp only: talk_same)
  from talk_views(2) [OF this] show ?thesis
    by (simp add: applyRoster_def Let_def del: fold_append) (simp add: seen_view_def)
qed

lemma quiet_seen:
  assumes "stays r st" "\<forall>n f. st \<noteq> PartyMessage n f" "\<forall>n u name p. st \<noteq> EventMessage n u name p"
  shows "seen_view (room_step env st m) = seen_view m"
proof (cases "preparing st")
  case True
  then show ?thesis using talk_views(2) [OF preparing_talk] by blast
next
  case False
  have call: "seen_view (call_command c m) = seen_view m" for c
    by (simp add: call_command_def seen_view_def)
  have state: "seen_view (m\<lparr>rm_lobbyState := s\<rparr>) = seen_view m" for s
    by (simp add: seen_view_def)
  have send: "seen_view (resume_send env i ok m) = seen_view m" for i ok
    using resume_send_view by (simp add: post_view_def seen_view_def)
  show ?thesis
    using assms False
    by (cases st) (simp_all add: room_step_def call command_timeout_def lobby_down_def state Let_def refused_def send)
qed

lemma room_step_knows:
  assumes "knows K r key s m" "finite K" "card K \<le> seen_limit" "stays r st" "set (brought st) \<subseteq> K"
  shows "knows K r key s (room_step env st m)"
proof (cases st)
  case (PartyMessage n f)
  have "knows K r key s (applyRoster env f m)"
    using applyRoster_seen [of env f m] assms(1,4) PartyMessage
    by (auto simp: seen_view_def knows_def change_room_def)
  then show ?thesis using PartyMessage assms(1) by (simp add: room_step_def)
next
  case (EventMessage n u name p)
  then show ?thesis
    using applyEvent_knows [OF assms(1-3), of n u name p] assms(1,5) by (simp add: room_step_def)
qed (use assms knows_view [OF quiet_seen [OF assms(4)]] in simp_all)

lemma room_run_knows:
  assumes "knows K r key s m" "finite K" "card K \<le> seen_limit" "\<forall>st \<in> set steps. stays r st \<and> set (brought st) \<subseteq> K"
  shows "knows K r key s (room_run env steps m)"
  unfolding room_run_def using assms(1,4)
  by (induction steps arbitrary: m) (simp_all add: room_step_knows assms(2,3))

lemma seen_distinct: "distinct (map fst (rm_seen (room_run env steps (new_room rt))))"
proof -
  have stop: "distinct (map fst (rm_seen (room_stop m)))" for m
    by (simp add: room_stop_def settle_pending_def finish_command_def split: option.split)
  have background: "rm_seen (background_connect env m) = rm_seen m" for m
    using talk_views(2) [OF background_connect_talk] by (simp add: seen_view_def)
  have step: "distinct (map fst (rm_seen (room_step env st m)))" if "distinct (map fst (rm_seen m))" for st m
  proof (cases "(\<exists>n f. st = PartyMessage n f) \<or> (\<exists>n u name p. st = EventMessage n u name p) \<or> \<not> stays [] st")
    case True
    have "rm_seen (applyRoster env f m) \<in> {[], rm_seen m}" for f
      using applyRoster_seen [of env f m] by (simp add: seen_view_def change_room_def)
    moreover have "rm_seen (applyEvent env u name p m) = rm_seen m \<or>
        (\<exists>k s. rm_seen (applyEvent env u name p m) = mark_seen k s (rm_seen m))" for u name p
      using applyEvent_seen [of env u name p m] by (auto simp: seen_view_def split: option.splits)
    ultimately show ?thesis
      using True that mark_seen_distinct [OF that] stop background
      by (cases st) (auto simp: room_step_def sign_out_room_def dispose_room_def identity_change_def Let_def,
          (metis distinct.simps(1) insertE list.simps(8) singletonD)+)
  next
    case False
    then have "seen_view (room_step env st m) = seen_view m" by (intro quiet_seen [of "[]"]) auto
    then show ?thesis using that by (simp add: seen_view_def)
  qed
  have "distinct (map fst (rm_seen m)) \<Longrightarrow> distinct (map fst (rm_seen (fold (room_step env) steps m)))" for m
    by (induction steps arbitrary: m) (simp_all add: step)
  then show ?thesis by (simp add: room_run_def new_room_def)
qed

text \<open>
  C31: An envelope that was accepted is never accepted again, nor an older one of its session, as
  long as the player stays in the room and the events there come from at most 1024 sessions:
  duplicates and late messages of the gateway are dropped, whatever happens in between.
\<close>
theorem event_is_delivered_once:
  assumes "accepts u p (room_run env before (new_room rt)) = Some e" "map_option pf_partyId (rm_roster (room_run env before (new_room rt))) = Some r"
    and "current n (room_run env before (new_room rt))"
    and "card (fst ` set (rm_seen (room_run env before (new_room rt))) \<union>
        set (concat (map brought (EventMessage n u name p # later)))) \<le> seen_limit"
    and "\<forall>st \<in> set later. stays r st"
    and "read_envelope p' = Some e'" "sender_key u' e' = sender_key u e" "en_seq e' \<le> en_seq e"
  shows "accepts u' p' (room_run env (before @ EventMessage n u name p # later) (new_room rt)) = None"
proof -
  let ?m = "room_run env before (new_room rt)"
  let ?K = "fst ` set (rm_seen ?m) \<union> set (concat (map brought (EventMessage n u name p # later)))"
  let ?m1 = "applyEvent env u name p ?m"
  have finite: "finite ?K" by (intro finite_UnI finite_imageI finite_set)
  have "sender_key u e \<in> ?K" using accepts_read(1) [OF assms(1)] by simp
  then have "mark_seen (sender_key u e) (en_seq e) (rm_seen ?m) = AList.update (sender_key u e) (en_seq e) (rm_seen ?m)"
    by (intro mark_seen_fits [OF seen_distinct Un_upper1 _ finite assms(4)])
  then have "rm_seen ?m1 = AList.update (sender_key u e) (en_seq e) (rm_seen ?m)" "rm_roster ?m1 = rm_roster ?m"
    using applyEvent_seen [of env u name p ?m] assms(1) by (simp_all add: seen_view_def)
  then have "knows ?K r (sender_key u e) (en_seq e) ?m1"
    using assms(2) distinct_update [OF seen_distinct] accepts_read(1) [OF assms(1)]
    by (auto simp: knows_def dom_update update_conv')
  then have "knows ?K r (sender_key u e) (en_seq e) (room_run env later ?m1)"
    using assms(5) by (intro room_run_knows [OF _ finite assms(4)]) auto
  moreover have "room_run env (before @ EventMessage n u name p # later) (new_room rt) = room_run env later ?m1"
    using assms(3) by (simp add: room_run_def room_step_def)
  ultimately show ?thesis
    using assms(6-8) by (auto simp: accepts_def fresh_def knows_def or_else_def)
qed

subsection \<open>A written envelope reads back\<close>

lemma safe_show: "n < 2 ^ 53 \<Longrightarrow> safe_integer (JNum (show_nat n)) = Some (int n)"
  by (simp add: safe_integer_def json_integer_def js_integer_show)

lemma envelope_fields:
  "field_of (envelope_json room session seq v) ''v'' = Some (JNum (show_nat 1))"
  "field_of (envelope_json room session seq v) ''roomId'' = Some (JStr room)"
  "field_of (envelope_json room session seq v) ''senderSession'' = Some (JStr session)"
  "field_of (envelope_json room session seq v) ''seq'' = Some (JNum (show_nat seq))"
  "field_of (envelope_json room session seq v) ''data'' = Some v"
  by (simp_all add: envelope_json_def field_of_def)

lemma read_written:
  assumes "1 \<le> seq" "seq < 2 ^ 53"
  shows "read_envelope (envelope_json room session seq v) =
    Some \<lparr>en_roomId = room, en_senderSession = session, en_seq = int seq, en_data = Some v\<rparr>"
  using assms safe_show [of 1] safe_show [of seq]
  by (simp add: read_envelope_def envelope_fields integer_of_def string_of_def del: show_nat.simps)

lemma read_state_copy:
  assumes "copyJson (state_json revision s) = Some v" "copyJson s = Some s" "revision < 2 ^ 53"
  shows "read_state (Some v) = Some (int revision, s)"
proof -
  have "s = sorted_json s" using assms(2) by (simp add: copyJson_Some)
  then have "v = state_json revision s"
    using assms(1) by (simp add: copyJson_Some state_json_def sorted_json_object sort_entry_def insort_key_def)
  then show ?thesis
    using safe_show [OF assms(3)]
    by (simp add: read_state_def state_json_def field_of_def integer_of_def del: show_nat.simps)
qed

subsection \<open>A member that asks gets the state of the host\<close>

lemma answer_task:
  assumes "rm_lastState h = Some s" "rm_tasks (answer_resync env u h) = rm_tasks h @ [t]"
  shows "is_host h" "st_name t = ascii ''kit.state''" "st_to t = Some u"
    "st_data t = state_json (rm_stateRevision h) s" "st_publishes t = None"
proof -
  have tasks: "rm_tasks m' = rm_tasks m" if "connect_start env m = Inr (w, m')" for m w m'
    using that by (auto simp: connect_start_def split: if_splits)
  have "is_host h \<and> st_name t = ascii ''kit.state'' \<and> st_to t = Some u \<and>
      st_data t = state_json (rm_stateRevision h) s \<and> st_publishes t = None"
  proof (cases "is_host h")
    case True
    then show ?thesis
      using assms tasks
      by (auto simp: answer_resync_def sendControl_def Let_def sent_result_def split: sum.splits simp del: ascii_simps)
  qed (use assms in \<open>simp add: answer_resync_def\<close>)
  then show "is_host h" "st_name t = ascii ''kit.state''" "st_to t = Some u"
      "st_data t = state_json (rm_stateRevision h) s" "st_publishes t = None"
    by blast+
qed

lemma post_envelope_frame:
  assumes "post_envelope env t m = (Inr (), m')" "st_to t = Some u"
  obtains n room v where "room_id m = Some room" "copyJson (st_data t) = Some v"
    "rm_out m' = rm_out m @ [(n, EventCommand UserScope (Some u) (st_name t)
      (envelope_json room (re_session env) (Suc (rm_sequence m)) v))]"
  using assms that by (auto simp: post_envelope_def Let_def send_on_def split: if_splits option.splits)

lemma state_event:
  assumes "accepts H p r = Some e" "read_state (en_data e) = Some (revision, s)" "copyJson s = Some s" "0 \<le> revision"
    and "room_host r = Some H" "rm_receivedRevision r = -1"
  shows "rm_lastState (applyEvent env H (ascii ''kit.state'') p r) = Some s"
    "rm_events (applyEvent env H (ascii ''kit.state'') p r) = rm_events r @ [RoomState s]"
proof -
  have "room_host (r\<lparr>rm_seen := q\<rparr>) = Some H" for q using assms(5) by (simp add: room_host_def)
  then show "rm_lastState (applyEvent env H (ascii ''kit.state'') p r) = Some s"
      "rm_events (applyEvent env H (ascii ''kit.state'') p r) = rm_events r @ [RoomState s]"
    using assms by (simp_all add: applyEvent_def deliver_event_def apply_state_def Let_def room_emit_def del: ascii_simps)
qed

text \<open>
  C33: A member that asks the host for the state gets exactly the state the host held when it was
  asked: whenever the host's answer is posted, later and among whatever else, the frame goes to that
  member alone, and a member in that room that still waits for a state shows it and nothing else.
\<close>
theorem resync_restores_the_state:
  assumes "rm_lastState h = Some s" "copyJson s = Some s" "rm_stateRevision h < 2 ^ 53"
    and "rm_tasks (answer_resync env u h) = rm_tasks h @ [t]"
    and "post_envelope env t h' = (Inr (), h'')" "Suc (rm_sequence h') < 2 ^ 53"
    and "room_id r = room_id h'" "room_host r = Some H" "H \<in> fst ` set (room_members r)" "rm_receivedRevision r = -1"
    and "\<forall>e. en_senderSession e = re_session env \<longrightarrow> fresh (sender_key H e) (int (Suc (rm_sequence h'))) (rm_seen r)"
  shows "\<exists>n p. rm_out h'' = rm_out h' @ [(n, EventCommand UserScope (Some u) (ascii ''kit.state'') p)] \<and>
    rm_lastState (applyEvent env' H (ascii ''kit.state'') p r) = Some s \<and>
    rm_events (applyEvent env' H (ascii ''kit.state'') p r) = rm_events r @ [RoomState s]"
proof -
  note task = answer_task [OF assms(1,4)]
  obtain n room v where frame: "room_id h' = Some room" "copyJson (st_data t) = Some v"
      "rm_out h'' = rm_out h' @ [(n, EventCommand UserScope (Some u) (st_name t)
        (envelope_json room (re_session env) (Suc (rm_sequence h')) v))]"
    by (rule post_envelope_frame [OF assms(5) task(3)])
  let ?p = "envelope_json room (re_session env) (Suc (rm_sequence h')) v"
  let ?e = "\<lparr>en_roomId = room, en_senderSession = re_session env, en_seq = int (Suc (rm_sequence h')), en_data = Some v\<rparr>"
  have "read_envelope ?p = Some ?e" using assms(6) by (intro read_written) simp_all
  moreover have "fresh (sender_key H ?e) (en_seq ?e) (rm_seen r)" using assms(11) by simp
  ultimately have accepted: "accepts H ?p r = Some ?e"
    using frame(1) assms(7,9) by (simp add: accepts_def)
  have "read_state (en_data ?e) = Some (int (rm_stateRevision h), s)"
    using read_state_copy [of "rm_stateRevision h" s v] frame(2) task(4) assms(2,3) by simp
  from state_event [OF accepted this assms(2) _ assms(8,10)] show ?thesis
    using frame(3) task(2) by (simp del: ascii_simps)
qed

subsection \<open>A lobby client that stopped\<close>

definition silenced :: "nat \<Rightarrow> (nat \<times> lobby_command) list \<Rightarrow> room \<Rightarrow> bool" where
  "silenced n out m \<longleftrightarrow> rm_lobby m = Some n \<and> rm_lobbyState m = Closed \<and> rm_out m = out"

lemma silenced_start: "silenced n out m \<Longrightarrow> connect_start env m = Inr (w, m') \<Longrightarrow> silenced n out m'"
  by (auto simp: connect_start_def silenced_def split: if_splits)

lemma silenced_send_on: "silenced n out m \<Longrightarrow> send_on env s c m = None"
  by (simp add: send_on_def silenced_def split: option.split)

named_theorems still_silenced

lemma silenced_emit [still_silenced]: "silenced n out (room_emit ev m) = silenced n out m"
  by (simp add: room_emit_def silenced_def)

lemma silenced_emits [still_silenced]: "silenced n out (fold room_emit evs m) = silenced n out m"
  by (induction evs arbitrary: m) (simp_all add: still_silenced)

lemma silenced_sent [still_silenced]: "silenced n out (sent_result i p r m) = silenced n out m"
  by (simp add: sent_result_def silenced_def split: option.split)

lemma silenced_settle [still_silenced]:
  "silenced n out (settle_pending r m) = silenced n out m" "silenced n out (check_pending m) = silenced n out m"
  "silenced n out (finish_command r m) = silenced n out m"
  by (simp_all add: settle_pending_def check_pending_def finish_command_def silenced_def split: option.split)

lemma silenced_sendControl: "silenced n out m \<Longrightarrow> silenced n out (sendControl env name v to p m)"
proof -
  assume "silenced n out m"
  then have m1: "silenced n out (m\<lparr>rm_ids := Suc (rm_ids m)\<rparr>)" by (simp add: silenced_def)
  then have "silenced n out (m2\<lparr>rm_tasks := ts\<rparr>)"
    if "connect_start env (m\<lparr>rm_ids := Suc (rm_ids m)\<rparr>) = Inr (w, m2)" for w m2 ts
    using silenced_start [OF m1 that] by (simp add: silenced_def)
  then show ?thesis
    using m1 by (simp add: sendControl_def Let_def still_silenced split: sum.split prod.split)
qed

lemma silenced_resync: "silenced n out m \<Longrightarrow> silenced n out (resync env m)"
  using silenced_sendControl [of n out "m\<lparr>rm_receivedRevision := -1\<rparr>"]
  by (simp add: resync_def Let_def silenced_def split: option.split)

lemma silenced_roster: "silenced n out m \<Longrightarrow> silenced n out (applyRoster env f m)"
proof -
  assume m: "silenced n out m"
  have host: "silenced n out (change_host env p f m')" if "silenced n out m'" for p m'
  proof -
    have "silenced n out (m'\<lparr>rm_receivedRevision := -1, rm_stateRevision := 0\<rparr>)"
      using that by (simp add: silenced_def)
    then show ?thesis
      using that silenced_resync by (simp add: change_host_def Let_def still_silenced)
  qed
  have "silenced n out ((change_room f m)\<lparr>rm_roster := Some f\<rparr>)"
    using m by (simp add: change_room_def silenced_def)
  then show ?thesis
    unfolding applyRoster_def Let_def by (simp only: still_silenced host)
qed

lemma silenced_event: "silenced n out m \<Longrightarrow> silenced n out (applyEvent env u name p m)"
proof -
  assume m: "silenced n out m"
  have "silenced n out (apply_state u e m')" if "silenced n out m'" for e m'
    using that by (auto simp: apply_state_def Let_def still_silenced split: option.split) (simp_all add: silenced_def)
  moreover have "silenced n out (answer_resync env u m')" if "silenced n out m'" for m'
    using that silenced_sendControl by (simp add: answer_resync_def split: option.split)
  moreover have "silenced n out (m\<lparr>rm_seen := q\<rparr>)" for q using m by (simp add: silenced_def)
  ultimately show ?thesis
    using m by (simp add: applyEvent_def deliver_event_def still_silenced split: option.split)
qed

lemma silenced_post:
  assumes "silenced n out m" "post_envelope env t m = (r, m')"
  shows "silenced n out m'"
proof -
  have next_number: "silenced n out (m\<lparr>rm_sequence := k\<rparr>)" for k using assms(1) by (simp add: silenced_def)
  show ?thesis
    using assms next_number silenced_send_on [OF next_number] by (auto simp: post_envelope_def Let_def split: if_splits option.splits)
qed

lemma silenced_after [still_silenced]: "silenced n out (after_post t r m) = silenced n out m"
  by (simp add: after_post_def still_silenced split: option.split sum.split prod.split) (simp add: silenced_def)

lemma silenced_resume:
  assumes "silenced n out m"
  shows "silenced n out (resume_send env i ok m)"
proof (cases "find (\<lambda>t. st_id t = i) (rm_tasks m)")
  case (Some t)
  let ?m1 = "m\<lparr>rm_tasks := filter (\<lambda>t. st_id t \<noteq> i) (rm_tasks m)\<rparr>"
  obtain r m2 where post: "post_envelope env t ?m1 = (r, m2)" by force
  have m1: "silenced n out ?m1" using assms by (simp add: silenced_def)
  then show ?thesis
    using Some post silenced_post [OF m1 post] by (simp add: resume_send_def Let_def still_silenced split: option.split)
qed (simp add: resume_send_def assms)

lemma silenced_lane_start:
  assumes "silenced n out m"
  shows "silenced n out (lane_start env m)"
proof -
  have "silenced n out (m'\<lparr>rm_phase := q\<rparr>)" if "connect_start env m = Inr (w, m')" for w m' q
    using silenced_start [OF assms that] by (simp add: silenced_def)
  then show ?thesis
    using assms by (simp add: lane_start_def still_silenced split: list.split sum.split prod.split)
qed

lemma silenced_lane_connected:
  assumes "silenced n out m"
  shows "silenced n out (lane_connected env ok m)"
proof -
  have m1: "silenced n out (m\<lparr>rm_phase := q, rm_pending := c\<rparr>)" for q c using assms by (simp add: silenced_def)
  show ?thesis
    using assms m1 silenced_send_on [OF m1]
    by (simp add: lane_connected_def Let_def still_silenced split: lane_phase.split list.split option.split prod.split)
qed

lemma silenced_publish:
  assumes "silenced n out m"
  shows "silenced n out (publish_start env m)"
proof -
  have "silenced n out (m\<lparr>rm_publishing := True\<rparr>)" using assms by (simp add: silenced_def)
  then show ?thesis
    using assms silenced_sendControl
    by (simp add: publish_start_def Let_def still_silenced split: list.split prod.split)
qed

text \<open>The calls a step may be without ending the identity.\<close>

fun ends_identity :: "room_step \<Rightarrow> bool" where
  "ends_identity SignOut = True"
| "ends_identity Dispose = True"
| "ends_identity (IdentityChange u) = True"
| "ends_identity st = False"

lemma silenced_step:
  assumes "silenced n out m" "\<not> ends_identity st"
  shows "silenced n out (room_step env st m)"
proof -
  have down: "rm_lobbyState m = Closed" using assms(1) by (simp add: silenced_def)
  have update: "silenced n out (m\<lparr>rm_interested := True\<rparr>)" "silenced n out (m\<lparr>rm_connectPending := False\<rparr>)"
      "silenced n out (call_command c m)" for c
    using assms(1) by (simp_all add: silenced_def call_command_def)
  have background: "silenced n out (background_connect env m')" if "silenced n out m'" for m'
    using that silenced_start by (auto simp: background_connect_def split: sum.split prod.split)
  have "silenced n out (or_same m (publish v m))" for v
    using assms(1) by (simp add: or_same_def publish_def silenced_def split: option.split)
  moreover have "silenced n out (or_same m (room_send env name v m))" "silenced n out (or_same m (whisper env u name v m))" for u name v
    using assms(1) silenced_sendControl by (simp_all add: or_same_def room_send_def whisper_def)
  moreover have "silenced n out (room_on env m)"
    using update background by (simp add: room_on_def Let_def)
  ultimately show ?thesis
    using assms update down
    by (cases st)
      (simp_all add: room_step_def lobby_up_def lobby_down_def silenced_lane_start silenced_lane_connected
        command_timeout_def still_silenced silenced_publish silenced_resume silenced_roster silenced_event refused_def Let_def)
qed

text \<open>
  Once the lobby client of a room has stopped for good, the room is mute until the identity
  changes: no command, message or publication is ever sent again and no other lobby client takes its
  place, however often the player tries.
\<close>
theorem stopped_lobby_mutes_room:
  assumes "rm_lobby m = Some n" "rm_lobbyState m = Closed" "\<forall>st \<in> set steps. \<not> ends_identity st"
  shows "rm_lobby (room_run env steps m) = Some n \<and> rm_out (room_run env steps m) = rm_out m"
proof -
  have "silenced n (rm_out m) m" using assms(1,2) by (simp add: silenced_def)
  then have "silenced n (rm_out m) (room_run env steps m)"
    unfolding room_run_def using assms(3) by (induction steps rule: rev_induct) (simp_all add: silenced_step)
  then show ?thesis by (simp add: silenced_def)
qed

text \<open>The error of those calls counts as one to try again.\<close>

lemma mute_room_looks_retryable: "connect_end (FailsIn (generation m)) ok m = Some (room_error Unavailable) \<and> retryable Unavailable"
  by (simp add: connect_end_def retryable_def)

lemma stopped_lobby_mutes_room_witness:
  "rm_out (room_run demo_env [CallCommand CreateRoom, LaneStarts, LaneConnected True, CallSend (ascii ''x'') JNull]
     ((new_room demo_runtime)\<lparr>rm_lobby := Some 0, rm_lobbyState := Closed\<rparr>)) = []"
proof -
  let ?m = "(new_room demo_runtime)\<lparr>rm_lobby := Some 0, rm_lobbyState := Closed\<rparr>"
  have "rm_lobby ?m = Some 0" "rm_lobbyState ?m = Closed" "rm_out ?m = []" by (simp_all add: new_room_def)
  with stopped_lobby_mutes_room [of ?m 0 "[CallCommand CreateRoom, LaneStarts, LaneConnected True, CallSend (ascii ''x'') JNull]" demo_env]
  show ?thesis by simp
qed

subsection \<open>Examples\<close>

definition demo_request :: json where
  "demo_request = envelope_json (ascii ''p'') (ascii ''t'') 1 (JObj [])"

definition demo_before :: "room_step list" where
  "demo_before = [CallOn, LobbyUp 0, PartyMessage 0 (demo_roster ''you'')]"

definition demo_asked :: Envelope where
  "demo_asked = \<lparr>en_roomId = ascii ''p'', en_senderSession = ascii ''t'', en_seq = 1, en_data = Some (JObj [])\<rparr>"

lemma demo_reads: "read_envelope demo_request = Some demo_asked"
  unfolding demo_request_def demo_asked_def using read_written [of 1] by (simp del: ascii_simps)

lemma demo_before_state:
  "rm_roster (room_run demo_env demo_before (new_room demo_runtime)) = Some (demo_roster ''you'')"
  "rm_seen (room_run demo_env demo_before (new_room demo_runtime)) = []"
  "current 0 (room_run demo_env demo_before (new_room demo_runtime))"
  by (simp_all add: demo_before_def room_eval room_on_def background_connect_def resync_def sendControl_def)

lemma event_is_delivered_once_witness:
  "accepts (ascii ''you'') demo_request
     (room_run demo_env (demo_before @ [EventMessage 0 (ascii ''you'') (ascii ''x'') demo_request, CallOn]) (new_room demo_runtime)) = None"
proof (rule event_is_delivered_once)
  show "accepts (ascii ''you'') demo_request (room_run demo_env demo_before (new_room demo_runtime)) = Some demo_asked"
    by (simp add: accepts_def demo_reads room_id_def room_members_def demo_before_state fresh_def or_else_def)
      (simp add: demo_asked_def demo_roster_def normalizePartyId_def)
  show "map_option pf_partyId (rm_roster (room_run demo_env demo_before (new_room demo_runtime))) = Some (ascii ''p'')"
    by (simp add: demo_before_state demo_roster_def)
  show "current 0 (room_run demo_env demo_before (new_room demo_runtime))" by (rule demo_before_state)
  show "read_envelope demo_request = Some demo_asked" by (rule demo_reads)
  show "card (fst ` set (rm_seen (room_run demo_env demo_before (new_room demo_runtime))) \<union>
      set (concat (map brought [EventMessage 0 (ascii ''you'') (ascii ''x'') demo_request, CallOn]))) \<le> seen_limit"
    by (simp add: demo_before_state demo_reads seen_limit_def)
qed simp_all

definition demo_host :: room where
  "demo_host =
     (new_room demo_runtime)\<lparr>rm_lobby := Some 0, rm_lobbyState := Connected, rm_roster := Some (demo_roster ''me''),
       rm_lastState := Some JNull, rm_stateRevision := 1\<rparr>"

definition demo_member :: room where
  "demo_member = (new_room demo_runtime)\<lparr>rm_roster := Some (demo_roster ''me'')\<rparr>"

definition demo_task :: send_task where
  "demo_task = \<lparr>st_id = 0, st_generation = 0, st_wait = NoWait, st_name = ascii ''kit.state'',
     st_data = state_json 1 JNull, st_to = Some (ascii ''you''), st_publishes = None\<rparr>"

lemma demo_posts: "fst (post_envelope demo_env demo_task demo_host) = Inr ()"
  by code_simp

lemma resync_restores_the_state_witness:
  "\<exists>n p. rm_out (snd (post_envelope demo_env demo_task demo_host)) =
      rm_out demo_host @ [(n, EventCommand UserScope (Some (ascii ''you'')) (ascii ''kit.state'') p)] \<and>
    rm_lastState (applyEvent demo_env (ascii ''me'') (ascii ''kit.state'') p demo_member) = Some JNull \<and>
    rm_events (applyEvent demo_env (ascii ''me'') (ascii ''kit.state'') p demo_member) = rm_events demo_member @ [RoomState JNull]"
proof (rule resync_restores_the_state)
  show "post_envelope demo_env demo_task demo_host = (Inr (), snd (post_envelope demo_env demo_task demo_host))"
    using demo_posts by (metis prod.collapse)
  show "rm_tasks (answer_resync demo_env (ascii ''you'') demo_host) = rm_tasks demo_host @ [demo_task]"
    by (simp add: answer_resync_def demo_host_def demo_task_def sendControl_def room_eval)
qed (simp_all add: demo_host_def demo_member_def copyJson_def room_eval fresh_def or_else_def)

end
