(* ===== verification/Kv_Client.thy ===== *)
theory Kv_Client
  imports Game_Save
begin

section \<open>The client of the key-value store (kvstore-client)\<close>

text \<open>
  Grammars, paths, errors and requests of the client. A number argument is an integer or \<open>None\<close> for
  any other number. \<open>fetch\<close> is a parameter: it rejects, or answers with a status, headers and a body
  whose text may fail to arrive. \<open>JSON.parse\<close> is a parameter, too. A method is an effect: the
  errors of its arguments are rejections like the others, and each call checks the collection and the
  owner of its namespace, which the source also does when it creates the namespace.
\<close>

subsection \<open>Errors (errors.ts)\<close>

record kv_error =
  ke_status :: int
  ke_code :: ustring
  ke_reason :: "ustring option"
  ke_currentVersion :: "json option"
  ke_currentValue :: "int option"

datatype kv_thrown = KvStoreError kv_error | KvRangeError | KvTypeError | KvBodyLost

definition createKvStoreError :: "int \<Rightarrow> ustring \<Rightarrow> kv_error" where
  "createKvStoreError status code =
     \<lparr>ke_status = status, ke_code = code, ke_reason = None, ke_currentVersion = None, ke_currentValue = None\<rparr>"

text \<open>A property of a value that may be \<open>undefined\<close> or no object.\<close>

definition prop_of :: "json option \<Rightarrow> string \<Rightarrow> json option" where
  "prop_of v k = (case v of Some (JObj kvs) \<Rightarrow> map_of kvs (ascii k) | _ \<Rightarrow> None)"

definition text_of :: "json option \<Rightarrow> ustring option" where
  "text_of v = (case v of Some (JStr t) \<Rightarrow> Some t | _ \<Rightarrow> None)"

definition isSafe :: "int \<Rightarrow> bool" where
  "isSafe n \<longleftrightarrow> \<bar>n\<bar> < 2 ^ 53"

definition safe_of :: "json option \<Rightarrow> int option" where
  "safe_of v =
     (case v of
        Some (JNum t) \<Rightarrow> (case js_integer t of Some n \<Rightarrow> if isSafe n then Some n else None | None \<Rightarrow> None)
      | _ \<Rightarrow> None)"

definition kvStoreErrorFromResponse :: "(ustring \<Rightarrow> json option) \<Rightarrow> int \<Rightarrow> ustring \<Rightarrow> kv_error" where
  "kvStoreErrorFromResponse parse status body =
     (let err = prop_of (parse body) ''error'';
          code = (case text_of (prop_of err ''code'') of Some c \<Rightarrow> c | None \<Rightarrow> ascii ''http_'' @ show_int status);
          details = prop_of err ''details'';
          reason = text_of (prop_of details ''reason'');
          current = (case prop_of details ''current'' of
              Some JNull \<Rightarrow> Some JNull
            | Some (JNum t) \<Rightarrow> Some (JNum t)
            | _ \<Rightarrow> None) in
      \<lparr>ke_status = status, ke_code = code, ke_reason = reason, ke_currentVersion = current,
       ke_currentValue =
         (if status = 409 \<and> code = ascii ''conflict'' \<and> reason = Some (ascii ''out_of_range'')
          then safe_of (prop_of details ''value'') else None)\<rparr>)"

definition isKvStoreError :: "kv_thrown \<Rightarrow> bool" where
  "isKvStoreError e \<longleftrightarrow> (case e of KvStoreError k \<Rightarrow> True | _ \<Rightarrow> False)"

definition has_status :: "int \<Rightarrow> kv_thrown \<Rightarrow> bool" where
  "has_status n e \<longleftrightarrow> (case e of KvStoreError k \<Rightarrow> ke_status k = n | _ \<Rightarrow> False)"

definition kv_isConflict :: "kv_thrown \<Rightarrow> bool" where
  "kv_isConflict e \<longleftrightarrow> has_status 409 e"

definition isKvForbidden :: "kv_thrown \<Rightarrow> bool" where
  "isKvForbidden e \<longleftrightarrow> has_status 403 e"

definition isKvUnauthorized :: "kv_thrown \<Rightarrow> bool" where
  "isKvUnauthorized e \<longleftrightarrow> has_status 401 e"

definition isKvFull :: "kv_thrown \<Rightarrow> bool" where
  "isKvFull e \<longleftrightarrow>
     kv_isConflict e \<and>
     (case e of KvStoreError k \<Rightarrow> ke_reason k \<in> {Some (ascii ''collection_full''), Some (ascii ''owner_full'')} | _ \<Rightarrow> False)"

definition isKvOutOfRange :: "kv_thrown \<Rightarrow> bool" where
  "isKvOutOfRange e \<longleftrightarrow>
     kv_isConflict e \<and>
     (case e of
        KvStoreError k \<Rightarrow> ke_code k = ascii ''conflict'' \<and> ke_reason k = Some (ascii ''out_of_range'')
      | _ \<Rightarrow> False)"

definition etag_digits :: "ustring \<Rightarrow> int option" where
  "etag_digits t =
     (if t \<noteq> [] \<and> length t \<le> 15 \<and> list_all is_digit t then Some (int (digits_value t)) else None)"

definition parseEtagVersion :: "ustring option \<Rightarrow> int option" where
  "parseEtagVersion raw =
     (case raw of
        None \<Rightarrow> None
      | Some r \<Rightarrow>
          (let t = trim r; u = (if take 2 t = [87, 47] then drop 2 t else t) in
           if 2 \<le> length u \<and> hd u = 34 \<and> last u = 34 then etag_digits (butlast (tl u)) else etag_digits u))"

definition parseExpiresAt :: "ustring option \<Rightarrow> int option" where
  "parseExpiresAt raw =
     (case raw of
        None \<Rightarrow> None
      | Some r \<Rightarrow> (case js_integer r of Some n \<Rightarrow> if isSafe n \<and> 0 < n then Some n else None | None \<Rightarrow> None))"

subsection \<open>Local refusals (validate.ts)\<close>

definition upper :: "u16 \<Rightarrow> bool" where
  "upper u \<longleftrightarrow> 65 \<le> u \<and> u \<le> 90"

definition lower :: "u16 \<Rightarrow> bool" where
  "lower u \<longleftrightarrow> 97 \<le> u \<and> u \<le> 122"

definition alnum :: "u16 \<Rightarrow> bool" where
  "alnum u \<longleftrightarrow> upper u \<or> lower u \<or> is_digit u"

definition name_char :: "u16 \<Rightarrow> bool" where
  "name_char u \<longleftrightarrow> alnum u \<or> u = 46 \<or> u = 95 \<or> u = 45"

definition key_char :: "u16 \<Rightarrow> bool" where
  "key_char u \<longleftrightarrow> name_char u \<or> u = 58"

text \<open>Patterns of the form \<open>^[A-Za-z0-9][...]{0,n}$\<close>.\<close>

definition segment :: "(u16 \<Rightarrow> bool) \<Rightarrow> nat \<Rightarrow> ustring \<Rightarrow> bool" where
  "segment p n t \<longleftrightarrow> t \<noteq> [] \<and> alnum (hd t) \<and> list_all p (tl t) \<and> length (tl t) \<le> n"

definition kvKeyPattern :: "ustring \<Rightarrow> bool" where
  "kvKeyPattern t \<longleftrightarrow> segment key_char 127 t"

definition kvCollectionNamePattern :: "ustring \<Rightarrow> bool" where
  "kvCollectionNamePattern t \<longleftrightarrow> segment name_char 63 t"

definition kvCollectionIdPattern :: "ustring \<Rightarrow> bool" where
  "kvCollectionIdPattern t \<longleftrightarrow>
     take 3 t = ascii ''kv_'' \<and> length t = 29 \<and> list_all (\<lambda>u. is_digit u \<or> lower u) (drop 3 t)"

definition hex_lower :: "u16 \<Rightarrow> bool" where
  "hex_lower u \<longleftrightarrow> is_digit u \<or> (97 \<le> u \<and> u \<le> 102)"

definition owner_pair :: "ustring \<Rightarrow> bool" where
  "owner_pair t \<longleftrightarrow>
     (let kind = takeWhile lower t; r = dropWhile lower t in
      1 \<le> length kind \<and> length kind \<le> 8 \<and> r \<noteq> [] \<and> hd r = 58 \<and>
      1 \<le> length (tl r) \<and> length (tl r) \<le> 48 \<and> list_all (\<lambda>u. alnum u \<or> u = 95 \<or> u = 45) (tl r))"

definition kvOwnerIdPattern :: "ustring \<Rightarrow> bool" where
  "kvOwnerIdPattern t \<longleftrightarrow> t = ascii ''me'' \<or> length t = 32 \<and> list_all hex_lower t \<or> owner_pair t"

definition toLowerAscii :: "ustring \<Rightarrow> ustring" where
  "toLowerAscii t = map (\<lambda>u. if upper u then u + 32 else u) t"

type_synonym 'a checked = "kv_thrown + 'a"

definition checkCollectionRef :: "ustring \<Rightarrow> ustring checked" where
  "checkCollectionRef ref =
     (if kvCollectionIdPattern ref then Inr ref
      else if kvCollectionNamePattern ref \<and> \<not> kvCollectionIdPattern (toLowerAscii ref) then Inr ref
      else Inl KvRangeError)"

definition checkKey :: "ustring \<Rightarrow> ustring checked" where
  "checkKey key = (if kvKeyPattern key then Inr key else Inl KvRangeError)"

definition checkOwnerId :: "ustring \<Rightarrow> ustring checked" where
  "checkOwnerId u = (if kvOwnerIdPattern u then Inr u else Inl KvRangeError)"

text \<open>A number that is not finite is a \<open>JNum\<close> whose text is no JSON number.\<close>

definition encodeValue :: "json \<Rightarrow> ustring checked" where
  "encodeValue v =
     (case v of
        JNum t \<Rightarrow> if is_number t then Inr t else Inl KvTypeError
      | _ \<Rightarrow>
          (case stringify v of
             None \<Rightarrow> Inl KvTypeError
           | Some t \<Rightarrow> if kvMaxValueBytes < byteLength t then Inl KvRangeError else Inr t))"

definition kvTtlMaxSeconds :: int where
  "kvTtlMaxSeconds = 366 * 24 * 60 * 60"

definition checkTtl :: "int option option \<Rightarrow> int option checked" where
  "checkTtl ttl =
     (case ttl of
        None \<Rightarrow> Inr None
      | Some (Some n) \<Rightarrow> if n = 0 \<or> 1 \<le> n \<and> n \<le> kvTtlMaxSeconds then Inr (Some n) else Inl KvRangeError
      | Some None \<Rightarrow> Inl KvRangeError)"

definition checkLimit :: "int option option \<Rightarrow> int option checked" where
  "checkLimit limit =
     (case limit of
        None \<Rightarrow> Inr None
      | Some (Some n) \<Rightarrow> if 1 \<le> n \<and> n \<le> 100 then Inr (Some n) else Inl KvRangeError
      | Some None \<Rightarrow> Inl KvRangeError)"

definition checkVersion :: "int option \<Rightarrow> int checked" where
  "checkVersion version =
     (case version of
        Some n \<Rightarrow> if isSafe n \<and> 1 \<le> n then Inr n else Inl KvRangeError
      | None \<Rightarrow> Inl KvRangeError)"

definition checkDelta :: "int option \<Rightarrow> int checked" where
  "checkDelta delta =
     (case delta of Some n \<Rightarrow> if isSafe n then Inr n else Inl KvRangeError | None \<Rightarrow> Inl KvRangeError)"

definition checkPrefix :: "ustring \<Rightarrow> ustring checked" where
  "checkPrefix pre = (if pre = [] \<or> kvKeyPattern pre then Inr pre else Inl KvRangeError)"

subsection \<open>Paths (paths.ts)\<close>

definition bind_checked :: "'a checked \<Rightarrow> ('a \<Rightarrow> 'b checked) \<Rightarrow> 'b checked" where
  "bind_checked m f = (case m of Inl e \<Rightarrow> Inl e | Inr a \<Rightarrow> f a)"

definition collectionPath :: "ustring \<Rightarrow> ustring checked" where
  "collectionPath ref = bind_checked (checkCollectionRef ref) (\<lambda>r. Inr (ascii ''/kv/'' @ r))"

definition entriesPath :: "ustring \<Rightarrow> ustring option \<Rightarrow> ustring checked" where
  "entriesPath ref owner =
     bind_checked (collectionPath ref) (\<lambda>base.
       case owner of
         None \<Rightarrow> Inr (base @ ascii ''/entries'')
       | Some u \<Rightarrow> bind_checked (checkOwnerId u) (\<lambda>o'. Inr (base @ ascii ''/u/'' @ o' @ ascii ''/entries'')))"

definition entryPath :: "ustring \<Rightarrow> ustring option \<Rightarrow> ustring \<Rightarrow> ustring checked" where
  "entryPath ref owner key =
     bind_checked (entriesPath ref owner) (\<lambda>path. bind_checked (checkKey key) (\<lambda>k. Inr (path @ ascii ''/'' @ k)))"

text \<open>\<open>URLSearchParams\<close>: the form encoding of UTF-8, in which a lone surrogate becomes U+FFFD.\<close>

definition utf8 :: "nat \<Rightarrow> nat list" where
  "utf8 c =
     (if c < 128 then [c]
      else if c < 2048 then [192 + c div 64, 128 + c mod 64]
      else if c < 65536 then [224 + c div 4096, 128 + c div 64 mod 64, 128 + c mod 64]
      else [240 + c div 262144, 128 + c div 4096 mod 64, 128 + c div 64 mod 64, 128 + c mod 64])"

definition upper_hex :: "nat \<Rightarrow> u16" where
  "upper_hex d = (if d < 10 then of_nat (48 + d) else of_nat (55 + d))"

definition form_byte :: "nat \<Rightarrow> ustring" where
  "form_byte b =
     (if b = 32 then [43]
      else if alnum (of_nat b) \<or> b \<in> {42, 45, 46, 95} then [of_nat b]
      else [37, upper_hex (b div 16), upper_hex (b mod 16)])"

fun form_encode :: "ustring \<Rightarrow> ustring" where
  "form_encode [] = []"
| "form_encode (u # us) =
     (if is_high u then
        (if us \<noteq> [] \<and> is_low (hd us)
         then concat (map form_byte (utf8 (the (codePoint (u # us))))) @ form_encode (tl us)
         else concat (map form_byte (utf8 0xFFFD)) @ form_encode us)
      else if is_low u then concat (map form_byte (utf8 0xFFFD)) @ form_encode us
      else concat (map form_byte (utf8 (unat u))) @ form_encode us)"

datatype list_order = Asc | Desc

record KvListOptions =
  lo_prefix :: "ustring option"
  lo_cursor :: "ustring option"
  lo_limit :: "int option option"
  lo_order :: "list_order option"
  lo_values :: bool

definition query_param :: "string \<Rightarrow> ustring option \<Rightarrow> ustring list" where
  "query_param k v = (case v of None \<Rightarrow> [] | Some t \<Rightarrow> [ascii k @ ascii ''='' @ form_encode t])"

definition order_text :: "list_order \<Rightarrow> ustring" where
  "order_text d = (case d of Asc \<Rightarrow> ascii ''asc'' | Desc \<Rightarrow> ascii ''desc'')"

definition listQuery :: "KvListOptions \<Rightarrow> ustring checked" where
  "listQuery opts =
     bind_checked (case lo_prefix opts of None \<Rightarrow> Inr None | Some p \<Rightarrow> bind_checked (checkPrefix p) (\<lambda>q. Inr (Some q))) (\<lambda>pre.
     bind_checked (checkLimit (lo_limit opts)) (\<lambda>limit.
       let params = query_param ''prefix'' pre @ query_param ''cursor'' (lo_cursor opts) @
             query_param ''limit'' (map_option show_int limit) @ query_param ''order'' (map_option order_text (lo_order opts)) @
             query_param ''values'' (if lo_values opts then Some (ascii ''1'') else None) in
       Inr (if params = [] then [] else ascii ''?'' @ join (ascii ''&'') params)))"

definition ttlQuery :: "int option option \<Rightarrow> ustring checked" where
  "ttlQuery ttl =
     bind_checked (checkTtl ttl) (\<lambda>c. Inr (case c of None \<Rightarrow> [] | Some n \<Rightarrow> ascii ''?ttl='' @ show_int n))"

subsection \<open>Requests (client.ts)\<close>

datatype kv_method = GET | PUT | PATCH | DELETE

record KvFetchRequest =
  fr_url :: ustring
  fr_method :: kv_method
  fr_headers :: "string \<Rightarrow> ustring option"
  fr_body :: "ustring option"

text \<open>\<open>fs_text\<close> is \<open>None\<close> when the body does not arrive.\<close>

record KvFetchResponse =
  fs_status :: int
  fs_headers :: "string \<Rightarrow> ustring option"
  fs_text :: "ustring option"

record 'w kv_env =
  kx_origin :: ustring
  kx_token :: ustring
  kx_fetch :: "KvFetchRequest \<Rightarrow> (unit, KvFetchResponse, 'w) eff"
  kx_parse :: "ustring \<Rightarrow> json option"

text \<open>
  \<open>createKvStoreClient\<close>: the parts of a URL come from the platform's parser.
\<close>

record url_parts =
  up_protocol :: ustring
  up_username :: ustring
  up_password :: ustring
  up_search :: ustring
  up_hash :: ustring
  up_origin :: ustring
  up_pathname :: ustring

definition checkBaseUrl :: "(ustring \<Rightarrow> url_parts option) \<Rightarrow> ustring \<Rightarrow> ustring checked" where
  "checkBaseUrl parse_url baseUrl =
     (case parse_url baseUrl of
        None \<Rightarrow> Inl KvRangeError
      | Some u \<Rightarrow>
          (if up_protocol u \<notin> {ascii ''https:'', ascii ''http:''} \<or> up_username u \<noteq> [] \<or> up_password u \<noteq> [] \<or>
              up_search u \<noteq> [] \<or> up_hash u \<noteq> []
           then Inl KvRangeError
           else Inr (rev (dropWhile (\<lambda>c. c = 47) (rev (up_origin u @ up_pathname u))))))"

definition valid_token :: "ustring \<Rightarrow> bool" where
  "valid_token t \<longleftrightarrow> t \<noteq> [] \<and> list_all (\<lambda>u. 0x21 \<le> u \<and> u \<le> 0x7E) t"

definition createKvStoreClient ::
  "(ustring \<Rightarrow> url_parts option) \<Rightarrow> (KvFetchRequest \<Rightarrow> (unit, KvFetchResponse, 'w) eff) \<Rightarrow> (ustring \<Rightarrow> json option) \<Rightarrow>
   ustring \<Rightarrow> ustring \<Rightarrow> 'w kv_env checked" where
  "createKvStoreClient parse_url fetch parse baseUrl token =
     bind_checked (checkBaseUrl parse_url baseUrl) (\<lambda>origin.
       if valid_token token then Inr \<lparr>kx_origin = origin, kx_token = token, kx_fetch = fetch, kx_parse = parse\<rparr>
       else Inl KvRangeError)"

definition kv_checked :: "'a checked \<Rightarrow> (kv_thrown, 'a, 'w) eff" where
  "kv_checked c = (case c of Inl e \<Rightarrow> throw_eff e | Inr a \<Rightarrow> return_eff a)"

record RequestSpec =
  rs_method :: kv_method
  rs_path :: ustring
  rs_headers :: "string \<Rightarrow> ustring option"
  rs_body :: "ustring option"

record Answer =
  an_status :: int
  an_headers :: "string \<Rightarrow> ustring option"
  an_text :: ustring

definition build_request :: "ustring \<Rightarrow> ustring \<Rightarrow> RequestSpec \<Rightarrow> KvFetchRequest" where
  "build_request origin token spec =
     (let headers = (\<lambda>h. if h = ''authorization'' \<and> rs_headers spec h = None
            then Some (ascii ''Bearer '' @ token) else rs_headers spec h) in
      \<lparr>fr_url = origin @ rs_path spec, fr_method = rs_method spec,
       fr_headers = (if rs_body spec = None then headers else headers(''content-type'' \<mapsto> ascii ''application/json'')),
       fr_body = rs_body spec\<rparr>)"

definition network_error :: kv_thrown where
  "network_error = KvStoreError (createKvStoreError 0 (ascii ''network''))"

definition kv_request :: "'w kv_env \<Rightarrow> RequestSpec \<Rightarrow> (kv_thrown, Answer, 'w) eff" where
  "kv_request env spec w =
     (case kx_fetch env (build_request (kx_origin env) (kx_token env) spec) w of
        None \<Rightarrow> None
      | Some (Inl u, w') \<Rightarrow> Some (Inl network_error, w')
      | Some (Inr r, w') \<Rightarrow>
          (case fs_text r of
             None \<Rightarrow> Some (Inl KvBodyLost, w')
           | Some t \<Rightarrow>
               (if fs_status r < 200 \<or> 300 \<le> fs_status r
                then Some (Inl (KvStoreError (kvStoreErrorFromResponse (kx_parse env) (fs_status r) t)), w')
                else Some (Inr \<lparr>an_status = fs_status r, an_headers = fs_headers r, an_text = t\<rparr>, w'))))"

definition malformed :: "int \<Rightarrow> kv_thrown" where
  "malformed status = KvStoreError (createKvStoreError status (ascii ''malformed_response''))"

definition parseJson :: "'w kv_env \<Rightarrow> int \<Rightarrow> ustring \<Rightarrow> (kv_thrown, json, 'w) eff" where
  "parseJson env status t = (case kx_parse env t of Some v \<Rightarrow> return_eff v | None \<Rightarrow> throw_eff (malformed status))"

definition conditionHeaders :: "int option option \<Rightarrow> bool \<Rightarrow> (string \<Rightarrow> ustring option) checked" where
  "conditionHeaders ifMatch ifNoneMatch =
     (if ifMatch \<noteq> None \<and> ifNoneMatch then Inl KvRangeError
      else
        case ifMatch of
          Some v \<Rightarrow> bind_checked (checkVersion v) (\<lambda>n. Inr [''if-match'' \<mapsto> 34 # show_int n @ [34]])
        | None \<Rightarrow> Inr (if ifNoneMatch then [''if-none-match'' \<mapsto> ascii ''*''] else Map.empty))"

subsection \<open>A namespace\<close>

record KvEntry =
  kn_value :: json
  kn_version :: int
  kn_from :: "ustring option"
  kn_at :: "int option"
  kn_expiresAt :: "int option"

record KvPutOptions =
  po_ttl :: "int option option"
  po_ifMatch :: "int option option"
  po_ifNoneMatch :: bool

record KvWriteResult =
  wr_created :: "bool option"
  wr_version :: "int option"
  wr_expiresAt :: "int option"

definition get_spec :: "ustring \<Rightarrow> RequestSpec" where
  "get_spec path = \<lparr>rs_method = GET, rs_path = path, rs_headers = Map.empty, rs_body = None\<rparr>"

definition isMissing :: "kv_thrown \<Rightarrow> bool" where
  "isMissing e \<longleftrightarrow> has_status 404 e"

definition entry_of :: "'w kv_env \<Rightarrow> Answer \<Rightarrow> (kv_thrown, KvEntry option, 'w) eff" where
  "entry_of env answer =
     bind_eff (parseJson env (an_status answer) (an_text answer)) (\<lambda>v.
       case parseEtagVersion (an_headers answer ''etag'') of
         None \<Rightarrow> throw_eff (malformed (an_status answer))
       | Some n \<Rightarrow>
           return_eff (Some \<lparr>kn_value = v, kn_version = n, kn_from = an_headers answer ''x-kv-from'',
             kn_at = parseExpiresAt (an_headers answer ''x-kv-at''),
             kn_expiresAt = parseExpiresAt (an_headers answer ''x-kv-expires-at'')\<rparr>))"

definition readEntry ::
  "'w kv_env \<Rightarrow> ustring \<Rightarrow> ustring option \<Rightarrow> ustring \<Rightarrow> (kv_thrown, KvEntry option, 'w) eff" where
  "readEntry env ref owner key =
     bind_eff (kv_checked (entryPath ref owner key)) (\<lambda>path.
       bind_eff
         (catch_eff (bind_eff (kv_request env (get_spec path)) (\<lambda>a. return_eff (Some a)))
           (\<lambda>e. if isMissing e then return_eff None else throw_eff e))
         (\<lambda>answer. case answer of None \<Rightarrow> return_eff None | Some a \<Rightarrow> entry_of env a))"

definition kv_get :: "'w kv_env \<Rightarrow> ustring \<Rightarrow> ustring option \<Rightarrow> ustring \<Rightarrow> (kv_thrown, json option, 'w) eff" where
  "kv_get env ref owner key =
     bind_eff (readEntry env ref owner key) (\<lambda>e. return_eff (map_option kn_value e))"

definition kv_put ::
  "'w kv_env \<Rightarrow> ustring \<Rightarrow> ustring option \<Rightarrow> ustring \<Rightarrow> json \<Rightarrow> KvPutOptions \<Rightarrow> (kv_thrown, KvWriteResult, 'w) eff" where
  "kv_put env ref owner key v opts =
     bind_eff (kv_checked (entryPath ref owner key)) (\<lambda>path.
     bind_eff (kv_checked (ttlQuery (po_ttl opts))) (\<lambda>query.
     bind_eff (kv_checked (conditionHeaders (po_ifMatch opts) (po_ifNoneMatch opts))) (\<lambda>headers.
     bind_eff (kv_checked (encodeValue v)) (\<lambda>body.
     bind_eff (kv_request env \<lparr>rs_method = PUT, rs_path = path @ query, rs_headers = headers, rs_body = Some body\<rparr>) (\<lambda>answer.
       let version = parseEtagVersion (an_headers answer ''etag'') in
       return_eff
         \<lparr>wr_created = (if version = None then None else Some (an_status answer = 201)), wr_version = version,
          wr_expiresAt = parseExpiresAt (an_headers answer ''x-kv-expires-at'')\<rparr>)))))"

datatype missing_policy = IgnoreMissing | ErrorMissing

definition kv_delete ::
  "'w kv_env \<Rightarrow> ustring \<Rightarrow> ustring option \<Rightarrow> ustring \<Rightarrow> int option option \<Rightarrow> missing_policy \<Rightarrow> (kv_thrown, unit, 'w) eff" where
  "kv_delete env ref owner key ifMatch missing =
     bind_eff (kv_checked (entryPath ref owner key)) (\<lambda>path.
     bind_eff (kv_checked (conditionHeaders ifMatch False)) (\<lambda>headers.
       catch_eff
         (bind_eff (kv_request env \<lparr>rs_method = DELETE, rs_path = path, rs_headers = headers, rs_body = None\<rparr>)
           (\<lambda>a. return_eff ()))
         (\<lambda>e. if \<not> isMissing e \<or> missing = ErrorMissing then throw_eff e else return_eff ())))"

definition incr_body :: "int \<Rightarrow> int option \<Rightarrow> int option \<Rightarrow> ustring" where
  "incr_body delta low high =
     object_text
       ([json_string (ascii ''incr'') @ 58 # show_int delta] @
        (case low of None \<Rightarrow> [] | Some n \<Rightarrow> [json_string (ascii ''min'') @ 58 # show_int n]) @
        (case high of None \<Rightarrow> [] | Some n \<Rightarrow> [json_string (ascii ''max'') @ 58 # show_int n]))"

definition checked_option :: "int option option \<Rightarrow> int option checked" where
  "checked_option d = (case d of None \<Rightarrow> Inr None | Some n \<Rightarrow> bind_checked (checkDelta n) (\<lambda>m. Inr (Some m)))"

text \<open>The answer to an increment is passed on as it is: value, version, expiry.\<close>

definition kv_incr ::
  "'w kv_env \<Rightarrow> ustring \<Rightarrow> ustring option \<Rightarrow> ustring \<Rightarrow> int option \<Rightarrow> int option option \<Rightarrow> int option option \<Rightarrow>
   int option option \<Rightarrow> (kv_thrown, json option \<times> json option \<times> int option, 'w) eff" where
  "kv_incr env ref owner key delta ttl low high =
     bind_eff (kv_checked (entryPath ref owner key)) (\<lambda>path.
     bind_eff (kv_checked (ttlQuery ttl)) (\<lambda>query.
     bind_eff (kv_checked (checked_option low)) (\<lambda>minimum.
     bind_eff (kv_checked (checked_option high)) (\<lambda>maximum.
       if (case (minimum, maximum) of (Some a, Some b) \<Rightarrow> b < a | _ \<Rightarrow> False) then throw_eff KvRangeError
       else
         bind_eff (kv_checked (checkDelta delta)) (\<lambda>d.
         bind_eff (kv_request env \<lparr>rs_method = PATCH, rs_path = path @ query, rs_headers = Map.empty,
             rs_body = Some (incr_body d minimum maximum)\<rparr>) (\<lambda>answer.
         bind_eff (parseJson env (an_status answer) (an_text answer)) (\<lambda>result.
           if result = JNull then throw_eff KvTypeError
           else return_eff (prop_of (Some result) ''value'', prop_of (Some result) ''version'',
             parseExpiresAt (an_headers answer ''x-kv-expires-at'')))))))))"

text \<open>A row of a list; only \<open>expiresAt\<close> is tested for its type, and the stored text is parsed.\<close>

record KvListEntry =
  le_owner :: "json option"
  le_from :: "json option"
  le_key :: "json option"
  le_version :: "json option"
  le_bytes :: "json option"
  le_expiresAt :: "json option"
  le_updatedAt :: "json option"
  le_value :: "json option"

definition number_prop :: "json option \<Rightarrow> json option" where
  "number_prop v = (case v of Some (JNum t) \<Rightarrow> Some (JNum t) | _ \<Rightarrow> None)"

definition list_row :: "'w kv_env \<Rightarrow> int \<Rightarrow> json \<Rightarrow> (kv_thrown, KvListEntry, 'w) eff" where
  "list_row env status row =
     (if row = JNull then throw_eff KvTypeError
      else
        bind_eff
          (case prop_of (Some row) ''valueText'' of
             None \<Rightarrow> return_eff None
           | Some (JStr t) \<Rightarrow> bind_eff (parseJson env status t) (\<lambda>v. return_eff (Some v))
           | Some (JArr vs) \<Rightarrow> throw_eff (malformed status)
           | Some (JObj kvs) \<Rightarrow> throw_eff (malformed status)
           | Some v \<Rightarrow> return_eff (Some v))
          (\<lambda>v. return_eff
             \<lparr>le_owner = prop_of (Some row) ''owner'', le_from = prop_of (Some row) ''from'',
              le_key = prop_of (Some row) ''key'', le_version = prop_of (Some row) ''version'',
              le_bytes = prop_of (Some row) ''bytes'', le_expiresAt = number_prop (prop_of (Some row) ''expiresAt''),
              le_updatedAt = prop_of (Some row) ''updatedAt'', le_value = v\<rparr>))"

fun list_rows :: "'w kv_env \<Rightarrow> int \<Rightarrow> json list \<Rightarrow> (kv_thrown, KvListEntry list, 'w) eff" where
  "list_rows env status [] = return_eff []"
| "list_rows env status (r # rs) =
     bind_eff (list_row env status r) (\<lambda>a. bind_eff (list_rows env status rs) (\<lambda>as. return_eff (a # as)))"

definition kv_list ::
  "'w kv_env \<Rightarrow> ustring \<Rightarrow> ustring option \<Rightarrow> KvListOptions \<Rightarrow> (kv_thrown, KvListEntry list \<times> json option, 'w) eff" where
  "kv_list env ref owner opts =
     bind_eff (kv_checked (entriesPath ref owner)) (\<lambda>entries.
     bind_eff (kv_checked (listQuery opts)) (\<lambda>query.
     bind_eff (kv_request env (get_spec (entries @ query))) (\<lambda>answer.
     bind_eff (parseJson env (an_status answer) (an_text answer)) (\<lambda>page.
       if page = JNull then throw_eff KvTypeError
       else
         case prop_of (Some page) ''entries'' of
           Some (JArr rows) \<Rightarrow>
             bind_eff (list_rows env (an_status answer) rows) (\<lambda>out.
               return_eff (out, prop_of (Some page) ''nextCursor''))
         | _ \<Rightarrow> throw_eff (malformed (an_status answer))))))"

definition kv_info :: "'w kv_env \<Rightarrow> ustring \<Rightarrow> (kv_thrown, json, 'w) eff" where
  "kv_info env ref =
     bind_eff (kv_checked (collectionPath ref)) (\<lambda>path.
     bind_eff (kv_request env (get_spec path)) (\<lambda>answer. parseJson env (an_status answer) (an_text answer)))"

definition selfOwner :: ustring where
  "selfOwner = ascii ''me''"

end
