(* ===== verification/Kv_Server.thy ===== *)
theory Kv_Server
  imports Kv_Client "HOL-Library.AList"
begin

section \<open>The service the kit is tested against (test-support/game-kit-fakes.ts)\<close>

text \<open>
  The in-process key-value service of the tests, request by request: routing, owners, conditions,
  versions and expiry. A map is an association list in the order of insertion. The time is the one
  the request is served at; a \<open>ttl\<close> and the limits of an increment are safe integers, as the client
  checks; no refusal and the status 0 are both \<open>None\<close>. The parameters of a query and the bodies of the
  routes beside the store come from the configuration.
\<close>

datatype fake_scope = ProjectScope | OwnerScope | ServerScope | TeamScope

record fake_row =
  rw_value :: ustring
  rw_version :: int
  rw_expiresAt :: "int option"
  rw_from :: ustring
  rw_at :: int

record FakeCollection =
  fc_readScope :: fake_scope
  fc_writeScope :: fake_scope
  fc_versions :: "ustring \<Rightarrow> int option"
  fc_rows :: "(ustring \<times> fake_row) list"

record fake_state =
  fk_collections :: "ustring \<Rightarrow> FakeCollection option"
  fk_tokens :: "ustring \<Rightarrow> ustring option"
  fk_requests :: "(ustring \<times> kv_method \<times> ustring option) list"
  fk_online :: bool
  fk_refusal :: "int option"

record fake_config =
  fo_origin :: ustring
  fo_param :: "ustring \<Rightarrow> string \<Rightarrow> ustring option"
  fo_time :: "int \<Rightarrow> ustring"
  fo_config :: ustring
  fo_verify :: "ustring \<Rightarrow> ustring"
  fo_parse :: "ustring \<Rightarrow> json option"

definition createFakeState :: fake_state where
  "createFakeState =
     \<lparr>fk_collections = Map.empty, fk_tokens = Map.empty, fk_requests = [], fk_online = True, fk_refusal = None\<rparr>"

definition fakeResponse :: "int \<Rightarrow> ustring \<Rightarrow> (string \<Rightarrow> ustring option) \<Rightarrow> KvFetchResponse" where
  "fakeResponse status body headers = \<lparr>fs_status = status, fs_headers = headers, fs_text = Some body\<rparr>"

definition json_text :: "json \<Rightarrow> ustring" where
  "json_text v = (case stringify v of Some t \<Rightarrow> t | None \<Rightarrow> [])"

definition fake_fail :: "int \<Rightarrow> string \<Rightarrow> (ustring \<times> json) list option \<Rightarrow> KvFetchResponse" where
  "fake_fail status code details =
     fakeResponse status
       (json_text (JObj [(ascii ''error'', JObj ((ascii ''code'', JStr (ascii code)) #
          (case details of None \<Rightarrow> [] | Some d \<Rightarrow> [(ascii ''details'', JObj d)])))])) Map.empty"

definition fail_reason :: "int \<Rightarrow> string \<Rightarrow> string \<Rightarrow> KvFetchResponse" where
  "fail_reason status code reason = fake_fail status code (Some [(ascii ''reason'', JStr (ascii reason))])"

subsection \<open>Routes\<close>

definition url_pathname :: "ustring \<Rightarrow> ustring \<Rightarrow> ustring" where
  "url_pathname origin url = takeWhile (\<lambda>u. u \<noteq> 63 \<and> u \<noteq> 35) (drop (length origin) url)"

definition url_search :: "ustring \<Rightarrow> ustring \<Rightarrow> ustring" where
  "url_search origin url = dropWhile (\<lambda>u. u \<noteq> 63) (drop (length origin) url)"

fun split_slash :: "ustring \<Rightarrow> ustring list" where
  "split_slash [] = [[]]"
| "split_slash (u # us) =
     (if u = 47 then [] # split_slash us else (u # hd (split_slash us)) # tl (split_slash us))"

record route =
  ro_name :: ustring
  ro_owner :: "ustring option"
  ro_key :: "ustring option"

definition kv_route :: "ustring \<Rightarrow> route option" where
  "kv_route path =
     (case split_slash path of
        e # k # name # rest \<Rightarrow>
          (if e \<noteq> [] \<or> k \<noteq> ascii ''kv'' \<or> [] \<in> set (name # rest) then None
           else
             (let (owner, rest') =
                (case rest of
                   u # o' # r \<Rightarrow> if u = ascii ''u'' then (Some o', r) else (None, rest)
                 | _ \<Rightarrow> (None, rest)) in
              case rest' of
                [] \<Rightarrow> Some \<lparr>ro_name = name, ro_owner = owner, ro_key = None\<rparr>
              | [s] \<Rightarrow> if s = ascii ''entries'' then Some \<lparr>ro_name = name, ro_owner = owner, ro_key = None\<rparr> else None
              | [s, key] \<Rightarrow>
                  if s = ascii ''entries'' then Some \<lparr>ro_name = name, ro_owner = owner, ro_key = Some key\<rparr> else None
              | _ \<Rightarrow> None))
      | _ \<Rightarrow> None)"

definition ends_with :: "ustring \<Rightarrow> ustring \<Rightarrow> bool" where
  "ends_with suf t \<longleftrightarrow> length suf \<le> length t \<and> drop (length t - length suf) t = suf"

subsection \<open>An entry\<close>

definition row_prefix :: "ustring option \<Rightarrow> ustring" where
  "row_prefix owner = (case owner of None \<Rightarrow> [] | Some u \<Rightarrow> u) @ ascii '':''"

definition live :: "int \<Rightarrow> fake_row option \<Rightarrow> fake_row option" where
  "live time stored =
     (case stored of
        None \<Rightarrow> None
      | Some r \<Rightarrow> (case rw_expiresAt r of None \<Rightarrow> Some r | Some e \<Rightarrow> if time < e then Some r else None))"

definition etag :: "int \<Rightarrow> ustring" where
  "etag n = 34 # show_int n @ [34]"

definition list_answer ::
  "(string \<Rightarrow> ustring option) \<Rightarrow> bool \<Rightarrow> int \<Rightarrow> ustring \<Rightarrow> FakeCollection \<Rightarrow> KvFetchResponse" where
  "list_answer param perOwner time pre col =
     (let wanted = (case param ''prefix'' of None \<Rightarrow> [] | Some p \<Rightarrow> p);
          rows = filter (\<lambda>(k, r). take (length pre) k = pre \<and> live time (Some r) \<noteq> None \<and>
             take (length wanted) (drop (length pre) k) = wanted) (fc_rows col) in
      fakeResponse 200
        (json_text (JObj [(ascii ''entries'', JArr (map (\<lambda>(k, r).
           JObj ([(ascii ''key'', JStr (drop (length pre) k)), (ascii ''version'', JNum (show_int (rw_version r))),
              (ascii ''bytes'', JNum (show_nat (byteLength (rw_value r)))), (ascii ''updatedAt'', JNum (show_int (rw_at r)))] @
             (if perOwner then [(ascii ''from'', JStr (rw_from r))] else []) @
             (if param ''values'' = Some (ascii ''1'') then [(ascii ''valueText'', JStr (rw_value r))] else []))) rows))])) Map.empty)"

definition get_answer :: "bool \<Rightarrow> fake_row option \<Rightarrow> KvFetchResponse" where
  "get_answer perOwner row =
     (case row of
        None \<Rightarrow> fake_fail 404 ''not_found'' None
      | Some r \<Rightarrow>
          fakeResponse 200 (rw_value r)
            (\<lambda>h. if h = ''etag'' then Some (etag (rw_version r))
                 else if perOwner \<and> h = ''x-kv-from'' then Some (rw_from r)
                 else if perOwner \<and> h = ''x-kv-at'' then Some (show_int (rw_at r))
                 else if h = ''x-kv-expires-at'' then map_option show_int (rw_expiresAt r) else None))"

text \<open>The new number of an increment, or its refusal; \<open>None\<close> when the body is no JSON.\<close>

definition patched :: "(ustring \<Rightarrow> json option) \<Rightarrow> ustring \<Rightarrow> fake_row option \<Rightarrow> KvFetchResponse option + ustring" where
  "patched parse body row =
     (case (parse body, case row of None \<Rightarrow> Some (JNum (show_int 0)) | Some r \<Rightarrow> parse (rw_value r)) of
        (Some patch, Some old) \<Rightarrow>
          (if patch = JNull then Inl (if safe_of (Some old) = None then Some (fail_reason 409 ''conflict'' ''not_a_number'') else None)
           else case safe_of (Some old) of
             None \<Rightarrow> Inl (Some (fail_reason 409 ''conflict'' ''not_a_number''))
           | Some base \<Rightarrow>
               (case safe_of (prop_of (Some patch) ''incr'') of
                  None \<Rightarrow> Inl (Some (fail_reason 409 ''conflict'' ''overflow''))
                | Some d \<Rightarrow>
                    (if \<not> isSafe (base + d) then Inl (Some (fail_reason 409 ''conflict'' ''overflow''))
                     else if (case safe_of (prop_of (Some patch) ''min'') of Some a \<Rightarrow> base + d < a | None \<Rightarrow> False) \<or>
                          (case safe_of (prop_of (Some patch) ''max'') of Some b \<Rightarrow> b < base + d | None \<Rightarrow> False)
                     then Inl (Some (fake_fail 409 ''conflict'' (Some [(ascii ''reason'', JStr (ascii ''out_of_range'')),
                            (ascii ''value'', JNum (show_int base))])))
                     else Inr (show_int (base + d)))))
      | _ \<Rightarrow> Inl None)"

definition next_expiry :: "ustring option \<Rightarrow> int \<Rightarrow> fake_row option \<Rightarrow> int option" where
  "next_expiry ttl time stored =
     (case ttl of
        None \<Rightarrow> (case stored of None \<Rightarrow> None | Some r \<Rightarrow> rw_expiresAt r)
      | Some t \<Rightarrow> (case js_integer t of Some n \<Rightarrow> if n = 0 then None else Some (time + n) | None \<Rightarrow> None))"

definition next_version :: "ustring \<Rightarrow> FakeCollection \<Rightarrow> int" where
  "next_version i col =
     (case map_of (fc_rows col) i of
        Some r \<Rightarrow> rw_version r
      | None \<Rightarrow> (case fc_versions col i of Some n \<Rightarrow> n | None \<Rightarrow> 0)) + 1"

definition set_row :: "ustring \<Rightarrow> fake_row \<Rightarrow> FakeCollection \<Rightarrow> FakeCollection" where
  "set_row i r col =
     col\<lparr>fc_versions := (fc_versions col)(i \<mapsto> rw_version r), fc_rows := AList.update i r (fc_rows col)\<rparr>"

definition write_answer ::
  "bool \<Rightarrow> kv_method \<Rightarrow> bool \<Rightarrow> ustring option \<Rightarrow> fake_row \<Rightarrow> KvFetchResponse" where
  "write_answer crossOwner method existed ttl r =
     fakeResponse (if crossOwner then 204 else if method = PATCH then 200 else if existed then 204 else 201)
       (if method = PATCH
        then json_text (JObj [(ascii ''value'', JNum (rw_value r)), (ascii ''version'', JNum (show_int (rw_version r)))])
        else [])
       (\<lambda>h. if h = ''etag'' then Some (etag (rw_version r))
            else if h = ''x-kv-expires-at'' \<and> ttl \<noteq> None \<and> ttl \<noteq> Some [] then map_option show_int (rw_expiresAt r) else None)"

text \<open>
  The routes of an entry after the namespace was checked, in the order of the source: the answer, or
  \<open>None\<close> when the service throws, and the collection afterwards.
\<close>

definition conflict :: "fake_row option \<Rightarrow> KvFetchResponse" where
  "conflict row =
     fake_fail 409 ''conflict'' (Some [(ascii ''current'', case row of None \<Rightarrow> JNull | Some r \<Rightarrow> JNum (show_int (rw_version r)))])"

definition condition_fails :: "KvFetchRequest \<Rightarrow> fake_row option \<Rightarrow> bool" where
  "condition_fails req row \<longleftrightarrow>
     (case fr_headers req ''if-match'' of
        None \<Rightarrow> False
      | Some t \<Rightarrow> t \<noteq> [] \<and> (case row of None \<Rightarrow> True | Some r \<Rightarrow> t \<noteq> etag (rw_version r))) \<or>
     (fr_headers req ''if-none-match'' = Some (ascii ''*'') \<and> row \<noteq> None)"

definition conditional :: "KvFetchRequest \<Rightarrow> bool" where
  "conditional req \<longleftrightarrow>
     fr_headers req ''if-match'' \<notin> {None, Some []} \<or> fr_headers req ''if-none-match'' \<notin> {None, Some []}"

definition store_value ::
  "(ustring \<Rightarrow> json option) \<Rightarrow> KvFetchRequest \<Rightarrow> fake_row option \<Rightarrow> KvFetchResponse option + ustring" where
  "store_value parse req row =
     (let body = (case fr_body req of Some t \<Rightarrow> t | None \<Rightarrow> ascii ''null'') in
      if fr_method req = PATCH then patched parse body row else Inr body)"

definition maxStored :: nat where
  "maxStored = 16384"

definition entry_write ::
  "(ustring \<Rightarrow> json option) \<Rightarrow> bool \<Rightarrow> ustring \<Rightarrow> ustring \<Rightarrow> int \<Rightarrow> ustring option \<Rightarrow> KvFetchRequest \<Rightarrow> FakeCollection \<Rightarrow>
   KvFetchResponse option \<times> FakeCollection" where
  "entry_write parse crossOwner userId i time ttl req col =
     (let stored = map_of (fc_rows col) i; row = live time stored in
      case store_value parse req row of
        Inl answer \<Rightarrow> (answer, col)
      | Inr v \<Rightarrow>
          (if maxStored < byteLength v then (Some (fake_fail 413 ''payload_too_large'' None), col)
           else
             (let r = \<lparr>rw_value = v, rw_version = next_version i col, rw_expiresAt = next_expiry ttl time stored,
                       rw_from = userId, rw_at = time\<rparr> in
              (Some (write_answer crossOwner (fr_method req) (row \<noteq> None) ttl r), set_row i r col))))"

definition entry_answer ::
  "(ustring \<Rightarrow> json option) \<Rightarrow> bool \<Rightarrow> bool \<Rightarrow> ustring \<Rightarrow> ustring \<Rightarrow> ustring \<Rightarrow> int \<Rightarrow> ustring option \<Rightarrow> KvFetchRequest \<Rightarrow>
   FakeCollection \<Rightarrow> KvFetchResponse option \<times> FakeCollection" where
  "entry_answer parse perOwner crossOwner userId pre i time ttl req col =
     (let row = live time (map_of (fc_rows col) i) in
      if fr_method req = GET then (Some (get_answer perOwner row), col)
      else if crossOwner \<and> row \<noteq> None then (Some (fail_reason 409 ''conflict'' ''exists''), col)
      else if crossOwner \<and> conditional req then (Some (fake_fail 400 ''bad_request'' None), col)
      else if fc_writeScope col \<noteq> OwnerScope \<and> \<not> perOwner then (Some (fake_fail 403 ''forbidden'' None), col)
      else if crossOwner \<and> 1000 \<le> length (filter (\<lambda>(k, r). take (length pre) k = pre) (fc_rows col))
        then (Some (fail_reason 409 ''conflict'' ''owner_full''), col)
      else if fr_method req = DELETE \<and> row = None then (Some (fake_fail 404 ''not_found'' None), col)
      else if condition_fails req row then (Some (conflict row), col)
      else if fr_method req = DELETE then (Some (fakeResponse 204 [] Map.empty), col\<lparr>fc_rows := AList.delete i (fc_rows col)\<rparr>)
      else entry_write parse crossOwner userId i time ttl req col)"

subsection \<open>A request\<close>

definition scope_text :: "fake_scope \<Rightarrow> ustring" where
  "scope_text s =
     (case s of ProjectScope \<Rightarrow> ascii ''project'' | OwnerScope \<Rightarrow> ascii ''user'' | ServerScope \<Rightarrow> ascii ''server'' | TeamScope \<Rightarrow> ascii ''team'')"

definition meta_answer :: "ustring \<Rightarrow> FakeCollection \<Rightarrow> KvFetchResponse" where
  "meta_answer name col =
     fakeResponse 200
       (json_text (JObj [(ascii ''id'', JStr name), (ascii ''name'', JStr name),
          (ascii ''readScope'', JStr (scope_text (fc_readScope col))), (ascii ''writeScope'', JStr (scope_text (fc_writeScope col))),
          (ascii ''encrypted'', JBool False), (ascii ''maxEntries'', JNum (show_nat 10000)),
          (ascii ''maxEntriesPerOwner'', JNum (show_nat 10000))])) Map.empty"

definition cross_allowed :: "ustring \<Rightarrow> ustring option \<Rightarrow> KvFetchRequest \<Rightarrow> FakeCollection \<Rightarrow> bool" where
  "cross_allowed userId key req col \<longleftrightarrow>
     fc_writeScope col = ProjectScope \<and> fr_method req = PUT \<and>
     (case key of None \<Rightarrow> False | Some k \<Rightarrow> take (Suc (length userId)) k = userId @ ascii '':'')"

definition collection_answer ::
  "fake_config \<Rightarrow> int \<Rightarrow> ustring \<Rightarrow> ustring \<Rightarrow> route \<Rightarrow> KvFetchRequest \<Rightarrow> FakeCollection \<Rightarrow> KvFetchResponse option \<times> FakeCollection" where
  "collection_answer cfg now path userId rt req col =
     (let perOwner = (fc_readScope col = OwnerScope \<or> fc_writeScope col = OwnerScope);
          owner = (if ro_owner rt = Some (ascii ''me'') then Some userId else ro_owner rt);
          crossOwner = (perOwner \<and> owner \<noteq> Some userId);
          pre = row_prefix owner; time = now div 1000; param = fo_param cfg (url_search (fo_origin cfg) (fr_url req)) in
      if find_sub (ascii ''/entries'') path = None then (Some (meta_answer (ro_name rt) col), col)
      else if perOwner \<noteq> (owner \<noteq> None) then (Some (fail_reason 400 ''bad_request'' ''wrong_namespace''), col)
      else if crossOwner \<and> \<not> cross_allowed userId (ro_key rt) req col then (Some (fake_fail 403 ''forbidden'' None), col)
      else
        case ro_key rt of
          None \<Rightarrow> (Some (list_answer param perOwner time pre col), col)
        | Some key \<Rightarrow>
            entry_answer (fo_parse cfg) perOwner crossOwner userId pre (pre @ key) time (param ''ttl'') req col)"

definition bearer_user :: "fake_state \<Rightarrow> KvFetchRequest \<Rightarrow> ustring option" where
  "bearer_user st req =
     (case fr_headers req ''authorization'' of
        None \<Rightarrow> None
      | Some a \<Rightarrow>
          (if drop 7 a = [] then None
           else case fk_tokens st (drop 7 a) of None \<Rightarrow> None | Some u \<Rightarrow> if u = [] then None else Some u))"

definition handle :: "fake_config \<Rightarrow> int \<Rightarrow> KvFetchRequest \<Rightarrow> fake_state \<Rightarrow> KvFetchResponse option \<times> fake_state" where
  "handle cfg now req st0 =
     (if \<not> fk_online st0 then (None, st0)
      else
        (let path = url_pathname (fo_origin cfg) (fr_url req);
             st = st0\<lparr>fk_requests := fk_requests st0 @ [(path, fr_method req, fr_body req)]\<rparr> in
         case fk_refusal st of
           Some code \<Rightarrow> (Some (fake_fail code (if code = 401 then ''unauthorized'' else ''unavailable'') None), st)
         | None \<Rightarrow>
             (if path = ascii ''/time''
              then (Some (fakeResponse 200 (fo_time cfg now) Map.empty), st)
              else if ends_with (ascii ''/.well-known/config'') path then (Some (fakeResponse 200 (fo_config cfg) Map.empty), st)
              else
                case bearer_user st req of
                  None \<Rightarrow> (Some (fake_fail 401 ''unauthorized'' None), st)
                | Some userId \<Rightarrow>
                    (if ends_with (ascii ''/verify'') path then (Some (fakeResponse 200 (fo_verify cfg userId) Map.empty), st)
                     else
                       case kv_route path of
                         None \<Rightarrow> (Some (fake_fail 404 ''not_found'' None), st)
                       | Some rt \<Rightarrow>
                           (case fk_collections st (ro_name rt) of
                              None \<Rightarrow> (Some (fake_fail 404 ''not_found'' None), st)
                            | Some col \<Rightarrow>
                                (let (answer, col') = collection_answer cfg now path userId rt req col in
                                 (answer, st\<lparr>fk_collections := (fk_collections st)(ro_name rt \<mapsto> col')\<rparr>)))))))"

text \<open>What a test does to the service: \<open>register\<close>, \<open>collection\<close>, \<open>seed\<close>, \<open>setOnline\<close>, \<open>setRefusal\<close>.\<close>

definition register :: "ustring \<Rightarrow> ustring \<Rightarrow> fake_state \<Rightarrow> fake_state" where
  "register token userId st = st\<lparr>fk_tokens := (fk_tokens st)(token \<mapsto> userId)\<rparr>"

definition add_collection :: "ustring \<Rightarrow> fake_scope \<Rightarrow> fake_scope \<Rightarrow> fake_state \<Rightarrow> fake_state" where
  "add_collection name readScope writeScope st =
     st\<lparr>fk_collections := (fk_collections st)(name \<mapsto>
       \<lparr>fc_readScope = readScope, fc_writeScope = writeScope, fc_versions = Map.empty, fc_rows = []\<rparr>)\<rparr>"

definition seed :: "int \<Rightarrow> ustring \<Rightarrow> ustring \<Rightarrow> ustring \<Rightarrow> ustring \<Rightarrow> fake_state \<Rightarrow> fake_state" where
  "seed now name key body owner st =
     (case fk_collections st name of
        None \<Rightarrow> st
      | Some col \<Rightarrow>
          (let i = owner @ ascii '':'' @ key in
           st\<lparr>fk_collections := (fk_collections st)(name \<mapsto>
             set_row i \<lparr>rw_value = body, rw_version = next_version i col, rw_expiresAt = None, rw_from = ascii ''server'',
               rw_at = now div 1000\<rparr> col)\<rparr>))"

end
