(* ===== verification/Kv_Paths.thy ===== *)
theory Kv_Paths
  imports Kv_Server
begin

section \<open>Addresses of entries\<close>

text \<open>
  The grammars of the client leave no character that ends a segment or a path, so the service reads
  back what the client wrote.
\<close>

subsection \<open>Paths\<close>

text \<open>Characters that end neither a segment nor a path.\<close>

definition in_segment :: "u16 \<Rightarrow> bool" where
  "in_segment u \<longleftrightarrow> u \<noteq> 47 \<and> u \<noteq> 63 \<and> u \<noteq> 35"

lemma segment_chars:
  "name_char u \<Longrightarrow> in_segment u" "key_char u \<Longrightarrow> in_segment u" "alnum u \<Longrightarrow> in_segment u" "hex_lower u \<Longrightarrow> in_segment u"
  "lower u \<Longrightarrow> in_segment u" "is_digit u \<Longrightarrow> in_segment u"
  by (auto simp: in_segment_def name_char_def key_char_def alnum_def upper_def lower_def is_digit_def hex_lower_def)

lemma segment_in_segment: "segment p n t \<Longrightarrow> (\<And>u. p u \<Longrightarrow> in_segment u) \<Longrightarrow> list_all in_segment t \<and> t \<noteq> []"
  by (cases t) (auto simp: segment_def list_all_iff segment_chars)

lemma key_segment: "checkKey k = Inr k' \<Longrightarrow> k' = k \<and> list_all in_segment k \<and> k \<noteq> []"
  using segment_in_segment [of key_char 127 k] segment_chars(2) by (auto simp: checkKey_def kvKeyPattern_def split: if_splits)

lemma id_segment: "kvCollectionIdPattern t \<Longrightarrow> list_all in_segment t"
proof -
  assume id: "kvCollectionIdPattern t"
  then have "list_all in_segment (take 3 t @ drop 3 t)"
    by (auto simp: kvCollectionIdPattern_def list_all_iff in_segment_def dest!: bspec)
      (auto simp: is_digit_def lower_def)
  then show ?thesis by (simp only: append_take_drop_id)
qed

lemma collection_segment:
  assumes "checkCollectionRef c = Inr c'"
  shows "c' = c" "list_all in_segment c" "c \<noteq> []"
proof -
  have "c' = c \<and> list_all in_segment c \<and> c \<noteq> []"
    using assms id_segment [of c] segment_in_segment [of name_char 63 c] segment_chars(1)
    by (auto simp: checkCollectionRef_def kvCollectionNamePattern_def kvCollectionIdPattern_def split: if_splits)
  then show "c' = c" "list_all in_segment c" "c \<noteq> []" by simp_all
qed

lemma pair_segment: "owner_pair t \<Longrightarrow> list_all in_segment t \<and> t \<noteq> []"
proof -
  assume pair: "owner_pair t"
  let ?kind = "takeWhile lower t" and ?r = "dropWhile lower t"
  have kind: "list_all in_segment ?kind" by (auto simp: list_all_iff segment_chars(5) dest: set_takeWhileD)
  have "list_all in_segment (tl ?r)"
    using pair by (auto simp: owner_pair_def Let_def list_all_iff in_segment_def alnum_def upper_def lower_def is_digit_def)
  moreover have "?r \<noteq> []" "hd ?r = 58" using pair by (simp_all add: owner_pair_def Let_def)
  ultimately have "list_all in_segment ?r" by (cases ?r) (simp_all add: in_segment_def)
  then have "list_all in_segment (?kind @ ?r)" using kind by (simp only: list_all_append)
  then have "list_all in_segment t" by (simp only: takeWhile_dropWhile_id)
  then show ?thesis using \<open>?r \<noteq> []\<close> by auto
qed

lemma owner_segment:
  assumes "checkOwnerId u = Inr u'"
  shows "u' = u" "list_all in_segment u" "u \<noteq> []"
proof -
  have "list_all in_segment u \<and> u \<noteq> []" if "length u = 32" "list_all hex_lower u"
    using that segment_chars(4) by (auto simp: list_all_iff)
  moreover have "list_all in_segment (ascii ''me'')" by (simp add: in_segment_def)
  ultimately have "u' = u \<and> list_all in_segment u \<and> u \<noteq> []"
    using assms pair_segment [of u] by (auto simp: checkOwnerId_def kvOwnerIdPattern_def split: if_splits)
  then show "u' = u" "list_all in_segment u" "u \<noteq> []" by simp_all
qed

lemma split_slash_last: "list_all in_segment t \<Longrightarrow> split_slash t = [t]"
  by (induction t) (auto simp: in_segment_def)

lemma split_slash_next: "list_all in_segment t \<Longrightarrow> split_slash (t @ 47 # r) = t # split_slash r"
  by (induction t) (auto simp: in_segment_def)

lemma path_stops: "list_all (\<lambda>u. u = 47 \<or> in_segment u) t \<Longrightarrow> list_all (\<lambda>u. u \<noteq> 63 \<and> u \<noteq> 35) t"
  by (auto simp: list_all_iff in_segment_def)

lemma takeWhile_path:
  assumes "list_all (\<lambda>u. u = 47 \<or> in_segment u) t" "query = [] \<or> hd query = 63"
  shows "takeWhile (\<lambda>u. u \<noteq> 63 \<and> u \<noteq> 35) (t @ query) = t"
proof -
  have "\<forall>u \<in> set t. u \<noteq> 63 \<and> u \<noteq> 35" using path_stops [OF assms(1)] by (simp add: list_all_iff)
  then show ?thesis using assms(2) by (cases query) (simp_all add: takeWhile_append2)
qed

lemma entryPath_parts:
  assumes "entryPath c owner k = Inr path"
  shows "list_all in_segment c" "c \<noteq> []" "list_all in_segment k" "k \<noteq> []"
    "\<And>u. owner = Some u \<Longrightarrow> list_all in_segment u \<and> u \<noteq> []"
    "path = ascii ''/kv/'' @ c @ (case owner of None \<Rightarrow> [] | Some u \<Rightarrow> ascii ''/u/'' @ u) @ ascii ''/entries/'' @ k"
proof -
  have checks: "\<exists>c'. checkCollectionRef c = Inr c'" "\<exists>k'. checkKey k = Inr k'" "\<And>u. owner = Some u \<Longrightarrow> \<exists>u'. checkOwnerId u = Inr u'"
    using assms
    by (auto simp: entryPath_def entriesPath_def collectionPath_def bind_checked_def split: sum.splits option.splits)
  show "list_all in_segment c" "c \<noteq> []" "list_all in_segment k" "k \<noteq> []"
    using checks(1,2) collection_segment key_segment by blast+
  show "\<And>u. owner = Some u \<Longrightarrow> list_all in_segment u \<and> u \<noteq> []"
    using checks(3) owner_segment by blast
  show "path = ascii ''/kv/'' @ c @ (case owner of None \<Rightarrow> [] | Some u \<Rightarrow> ascii ''/u/'' @ u) @ ascii ''/entries/'' @ k"
    using assms
    by (auto simp: entryPath_def entriesPath_def collectionPath_def bind_checked_def split: sum.splits option.splits
        dest!: collection_segment(1) owner_segment(1) key_segment [THEN conjunct1])
qed

lemma in_segment_words [simp]:
  "list_all in_segment (ascii ''kv'')" "list_all in_segment (ascii ''u'')" "list_all in_segment (ascii ''entries'')"
  by (simp_all add: in_segment_def)

lemma split_entry_path:
  assumes "entryPath c owner k = Inr path"
  shows "split_slash path =
    [] # ascii ''kv'' # c # (case owner of None \<Rightarrow> [] | Some u \<Rightarrow> [ascii ''u'', u]) @ [ascii ''entries'', k]"
proof -
  note parts = entryPath_parts [OF assms]
  have path: "path = 47 # ascii ''kv'' @ 47 # c @ (case owner of None \<Rightarrow> [] | Some u \<Rightarrow> 47 # ascii ''u'' @ 47 # u) @ 47 # ascii ''entries'' @ 47 # k"
    using parts(6) by (simp split: option.split)
  show ?thesis
  proof (cases owner)
    case None
    then show ?thesis unfolding path using parts(1,3)
      by (simp del: ascii_simps add: split_slash_next split_slash_last)
  next
    case (Some u)
    then show ?thesis unfolding path using parts(1,3) parts(5) [OF Some]
      by (simp del: ascii_simps add: split_slash_next split_slash_last)
  qed
qed

lemma plain_path:
  assumes "entryPath c owner k = Inr path"
  shows "list_all (\<lambda>u. u = 47 \<or> in_segment u) path"
proof -
  note parts = entryPath_parts [OF assms]
  have chars: "list_all (\<lambda>u. u = 47 \<or> in_segment u) t" if "list_all in_segment t" for t
    using that by (simp add: list_all_iff)
  have slashes: "list_all (\<lambda>u. u = 47 \<or> in_segment u) (ascii ''/kv/'')"
      "list_all (\<lambda>u. u = 47 \<or> in_segment u) (ascii ''/u/'')"
      "list_all (\<lambda>u. u = 47 \<or> in_segment u) (ascii ''/entries/'')"
    by (simp_all add: in_segment_def)
  show ?thesis
    unfolding parts(6)
    by (cases owner) (simp_all only: list_all_append option.case chars slashes parts list.pred_inject simp_thms)
qed

lemma entry_route:
  assumes "entryPath c owner k = Inr path" "query = [] \<or> hd query = 63"
  shows "url_pathname origin (origin @ path @ query) = path"
    "kv_route path = Some \<lparr>ro_name = c, ro_owner = owner, ro_key = Some k\<rparr>"
proof -
  note parts = entryPath_parts [OF assms(1)]
  note plain = plain_path [OF assms(1)]
  have "drop (length origin) (origin @ path @ query) = path @ query" by simp
  then show "url_pathname origin (origin @ path @ query) = path"
    by (simp only: url_pathname_def takeWhile_path [OF plain assms(2)])
  have "ascii ''entries'' \<noteq> ascii ''u''" by simp
  then show "kv_route path = Some \<lparr>ro_name = c, ro_owner = owner, ro_key = Some k\<rparr>"
    using parts split_entry_path [OF assms(1)]
    by (cases owner) (auto simp: kv_route_def Let_def)
qed

text \<open>
  The address a client builds for an entry is the address the service reads: whatever collection,
  owner and key the client accepts, with any query, the service takes exactly these three out of the
  URL, so no key can reach into another owner or collection.
\<close>
theorem entry_address_is_read_back:
  assumes "entryPath c owner k = Inr path" "query = [] \<or> hd query = 63"
  shows "url_pathname origin (origin @ path @ query) = path \<and>
    kv_route path = Some \<lparr>ro_name = c, ro_owner = owner, ro_key = Some k\<rparr>"
  using entry_route [OF assms] by blast

lemma entry_address_is_read_back_witness:
  "kv_route (ascii ''/kv/saves/u/me/entries/slot:1'') =
    Some \<lparr>ro_name = ascii ''saves'', ro_owner = Some (ascii ''me''), ro_key = Some (ascii ''slot:1'')\<rparr>"
proof -
  have "entryPath (ascii ''saves'') (Some (ascii ''me'')) (ascii ''slot:1'') = Inr (ascii ''/kv/saves/u/me/entries/slot:1'')"
    by code_simp
  from entry_address_is_read_back [OF this, of "[]" "[]"] show ?thesis by simp
qed

end
