(* ===== verification/Kv_Events.thy ===== *)
theory Kv_Events
  imports Kv_Paths Game_Save_Queue
begin

section \<open>What happens to the service\<close>

text \<open>
  The service of the tests as a history of events: which rows a request may change, and what a history
  amounts to. The value a version of a row has had never changes.
\<close>

subsection \<open>What a request does to a collection\<close>

text \<open>Nothing, or one row is deleted, or one row is set with the next version of its key.\<close>

definition col_step :: "FakeCollection \<Rightarrow> FakeCollection \<Rightarrow> bool" where
  "col_step col col' \<longleftrightarrow>
     col' = col \<or> (\<exists>i. col' = col\<lparr>fc_rows := AList.delete i (fc_rows col)\<rparr>) \<or>
     (\<exists>i r. rw_version r = next_version i col \<and> col' = set_row i r col)"

text \<open>Only the row a request names changes, and only if the condition of the request holds.\<close>

definition row_step :: "KvFetchRequest \<Rightarrow> int \<Rightarrow> FakeCollection \<Rightarrow> FakeCollection \<Rightarrow> bool" where
  "row_step req time col col' \<longleftrightarrow>
     col_step col col' \<and>
     (\<forall>i. map_of (fc_rows col') i \<noteq> map_of (fc_rows col) i \<longrightarrow> \<not> condition_fails req (live time (map_of (fc_rows col) i)))"

lemma row_step_refl [simp]: "row_step req time col col"
  by (simp add: row_step_def col_step_def)

lemma set_row_step:
  assumes "rw_version r = next_version i col" "\<not> condition_fails req (live time (map_of (fc_rows col) i))"
  shows "row_step req time col (set_row i r col)"
proof -
  have "map_of (fc_rows (set_row i r col)) = (map_of (fc_rows col))(i \<mapsto> r)"
    by (simp add: set_row_def update_conv')
  then show ?thesis using assms unfolding row_step_def col_step_def by (metis fun_upd_other)
qed

lemma entry_write_step:
  assumes "\<not> condition_fails req (live time (map_of (fc_rows col) i))"
  shows "row_step req time col (snd (entry_write parse crossOwner userId i time ttl req col))"
  using assms by (simp add: entry_write_def Let_def set_row_step split: sum.split)

lemma entry_answer_step:
  "row_step req time col (snd (entry_answer parse perOwner crossOwner userId pre i time ttl req col))"
proof -
  have "row_step req time col (col\<lparr>fc_rows := AList.delete i (fc_rows col)\<rparr>)"
    if "\<not> condition_fails req (live time (map_of (fc_rows col) i))"
    using that by (auto simp: row_step_def col_step_def delete_conv' split: if_splits)
  then show ?thesis
    using entry_write_step by (simp add: entry_answer_def Let_def)
qed

lemma collection_answer_step:
  "row_step req (now div 1000) col (snd (collection_answer cfg now path userId rt req col))"
  using entry_answer_step by (simp add: collection_answer_def Let_def split: option.split)

definition stored_row :: "fake_state \<Rightarrow> ustring \<Rightarrow> ustring \<Rightarrow> fake_row option" where
  "stored_row st c i = (case fk_collections st c of None \<Rightarrow> None | Some col \<Rightarrow> map_of (fc_rows col) i)"

definition known_version :: "fake_state \<Rightarrow> ustring \<Rightarrow> ustring \<Rightarrow> int option" where
  "known_version st c i = (case fk_collections st c of None \<Rightarrow> None | Some col \<Rightarrow> fc_versions col i)"

lemma handle_collections:
  "fk_collections (snd (handle cfg now req st)) = fk_collections st \<or>
   (\<exists>n col col'. fk_collections st n = Some col \<and> row_step req (now div 1000) col col' \<and>
      fk_collections (snd (handle cfg now req st)) = (fk_collections st)(n \<mapsto> col'))"
proof -
  let ?st = "st\<lparr>fk_requests := fk_requests st @ [(url_pathname (fo_origin cfg) (fr_url req), fr_method req, fr_body req)]\<rparr>"
  have same: "fk_collections ?st = fk_collections st" by simp
  show ?thesis
  proof (cases "\<exists>userId rt col. bearer_user ?st req = Some userId \<and> kv_route (url_pathname (fo_origin cfg) (fr_url req)) = Some rt \<and>
      fk_collections st (ro_name rt) = Some col \<and> fk_collections (snd (handle cfg now req st)) =
        (fk_collections st)(ro_name rt \<mapsto> snd (collection_answer cfg now (url_pathname (fo_origin cfg) (fr_url req)) userId rt req col))")
    case True
    then show ?thesis using collection_answer_step by blast
  next
    case False
    then have "fk_collections (snd (handle cfg now req st)) = fk_collections st"
      by (auto simp: handle_def Let_def split: option.splits prod.splits if_splits)
    then show ?thesis ..
  qed
qed

subsection \<open>The events of a service\<close>

text \<open>
  What happened to the service since the start, and what it amounts to: its state, what this client's
  writes replaced, and the value each version of a row has had. A request of this client carries what
  it is for. A stored text that is no JSON has the value \<open>JOther\<close>.
\<close>

datatype kv_event =
  Asked "(ustring \<times> ustring \<times> json option) option" int KvFetchRequest
| Seeded int ustring ustring ustring ustring
| Online bool
| Refusing "int option"

record replayed =
  rp_state :: fake_state
  rp_log :: "logged list"
  rp_hist :: "ustring \<Rightarrow> int \<Rightarrow> json option"

definition value_of :: "fake_config \<Rightarrow> fake_row \<Rightarrow> json" where
  "value_of cfg r = (case fo_parse cfg (rw_value r) of Some v \<Rightarrow> v | None \<Rightarrow> JOther)"

definition entry_view :: "fake_config \<Rightarrow> fake_row option \<Rightarrow> (json \<times> int) option" where
  "entry_view cfg row = map_option (\<lambda>r. (value_of cfg r, rw_version r)) row"

definition event_state :: "fake_config \<Rightarrow> kv_event \<Rightarrow> fake_state \<Rightarrow> fake_state" where
  "event_state cfg ev st =
     (case ev of
        Asked tag now req \<Rightarrow> snd (handle cfg now req st)
      | Seeded now name key body owner \<Rightarrow> seed now name key body owner st
      | Online b \<Rightarrow> st\<lparr>fk_online := b\<rparr>
      | Refusing r \<Rightarrow> st\<lparr>fk_refusal := r\<rparr>)"

definition noted :: "fake_config \<Rightarrow> ustring \<Rightarrow> kv_event \<Rightarrow> fake_state \<Rightarrow> logged list" where
  "noted cfg c ev st =
     (case ev of
        Asked (Some (u, k, v)) now req \<Rightarrow>
          (let i = u @ ascii '':'' @ k in
           if stored_row (event_state cfg ev st) c i = stored_row st c i then []
           else [(u, k, entry_view cfg (live (now div 1000) (stored_row st c i)), v)])
      | _ \<Rightarrow> [])"

definition remember :: "fake_config \<Rightarrow> ustring \<Rightarrow> fake_state \<Rightarrow> (ustring \<Rightarrow> int \<Rightarrow> json option) \<Rightarrow> ustring \<Rightarrow> int \<Rightarrow> json option" where
  "remember cfg c st hist i n =
     (case stored_row st c i of
        Some r \<Rightarrow> if rw_version r = n then Some (value_of cfg r) else hist i n
      | None \<Rightarrow> hist i n)"

definition replay_event :: "fake_config \<Rightarrow> ustring \<Rightarrow> kv_event \<Rightarrow> replayed \<Rightarrow> replayed" where
  "replay_event cfg c ev p =
     (let st = event_state cfg ev (rp_state p) in
      \<lparr>rp_state = st, rp_log = rp_log p @ noted cfg c ev (rp_state p), rp_hist = remember cfg c st (rp_hist p)\<rparr>)"

definition replay :: "fake_config \<Rightarrow> ustring \<Rightarrow> fake_state \<Rightarrow> kv_event list \<Rightarrow> replayed" where
  "replay cfg c st0 evs = fold (replay_event cfg c) evs \<lparr>rp_state = st0, rp_log = [], rp_hist = (\<lambda>i n. None)\<rparr>"

lemma replay_append: "replay cfg c st0 (evs @ later) = fold (replay_event cfg c) later (replay cfg c st0 evs)"
  by (simp add: replay_def)

text \<open>Versions only grow, so a version of a row has one value for ever.\<close>

definition versions_ok :: "fake_config \<Rightarrow> ustring \<Rightarrow> fake_state \<Rightarrow> (ustring \<Rightarrow> int \<Rightarrow> json option) \<Rightarrow> bool" where
  "versions_ok cfg c st hist \<longleftrightarrow>
     (\<forall>i r. stored_row st c i = Some r \<longrightarrow>
        known_version st c i = Some (rw_version r) \<and> 1 \<le> rw_version r \<and> hist i (rw_version r) = Some (value_of cfg r)) \<and>
     (\<forall>i m. known_version st c i = Some m \<longrightarrow> 1 \<le> m) \<and>
     (\<forall>i n v. hist i n = Some v \<longrightarrow> (\<exists>m. known_version st c i = Some m \<and> n \<le> m))"

text \<open>How a collection may change in an event.\<close>

definition state_step :: "ustring \<Rightarrow> fake_state \<Rightarrow> fake_state \<Rightarrow> bool" where
  "state_step c st st' \<longleftrightarrow>
     (case fk_collections st c of
        None \<Rightarrow> fk_collections st' c = None
      | Some col \<Rightarrow> \<exists>col'. fk_collections st' c = Some col' \<and> col_step col col')"

lemma col_step_refl: "col_step col col"
  by (simp add: col_step_def)

lemma same_state_step: "fk_collections st' = fk_collections st \<Longrightarrow> state_step c st st'"
  by (simp add: state_step_def col_step_refl split: option.split)

lemma updated_state_step:
  assumes "fk_collections st n = Some col" "col_step col col'" "fk_collections st' = (fk_collections st)(n \<mapsto> col')"
  shows "state_step c st st'"
  using assms by (auto simp: state_step_def col_step_refl split: option.split)

lemma event_state_step: "state_step c st (event_state cfg ev st)"
proof (cases ev)
  case (Asked tag now req)
  then show ?thesis
    using handle_collections [of cfg now req st] same_state_step updated_state_step
    by (auto simp: event_state_def row_step_def)
next
  case (Seeded now name key body owner)
  show ?thesis
  proof (cases "fk_collections st name")
    case (Some col)
    let ?r = "\<lparr>rw_value = body, rw_version = next_version (owner @ ascii '':'' @ key) col, rw_expiresAt = None,
        rw_from = ascii ''server'', rw_at = now div 1000\<rparr>"
    have "rw_version ?r = next_version (owner @ ascii '':'' @ key) col" by simp
    then have "col_step col (set_row (owner @ ascii '':'' @ key) ?r col)" unfolding col_step_def by blast
    moreover have "fk_collections (event_state cfg ev st) = (fk_collections st)(name \<mapsto> set_row (owner @ ascii '':'' @ key) ?r col)"
      using Seeded Some by (simp add: event_state_def seed_def Let_def)
    ultimately show ?thesis using updated_state_step Some by blast
  qed (simp add: Seeded event_state_def seed_def same_state_step)
qed (simp_all add: event_state_def same_state_step)

text \<open>The rows and the versions after a step.\<close>

lemma state_step_cases:
  assumes "state_step c st st'" "versions_ok cfg c st hist"
  obtains (same) "stored_row st' c = stored_row st c" "known_version st' c = known_version st c"
  | (deleted) i where "stored_row st' c = (stored_row st c)(i := None)" "known_version st' c = known_version st c"
  | (stored) i r where "stored_row st' c = (stored_row st c)(i \<mapsto> r)" "known_version st' c = (known_version st c)(i \<mapsto> rw_version r)"
      "rw_version r = (case known_version st c i of Some m \<Rightarrow> m | None \<Rightarrow> 0) + 1"
proof (cases "fk_collections st c")
  case None
  then have "stored_row st' c = stored_row st c" "known_version st' c = known_version st c"
    using assms(1) by (simp_all add: state_step_def stored_row_def known_version_def fun_eq_iff)
  then show ?thesis by (rule same)
next
  case (Some col)
  then obtain col' where col': "fk_collections st' c = Some col'" "col_step col col'"
    using assms(1) by (auto simp: state_step_def)
  have rows: "stored_row st c = map_of (fc_rows col)" "known_version st c = fc_versions col"
      "stored_row st' c = map_of (fc_rows col')" "known_version st' c = fc_versions col'"
    using Some col'(1) by (simp_all add: stored_row_def known_version_def fun_eq_iff)
  have next_is: "next_version i col = (case fc_versions col i of Some m \<Rightarrow> m | None \<Rightarrow> 0) + 1" for i
  proof -
    have "fc_versions col i = Some (rw_version q)" if "map_of (fc_rows col) i = Some q" for q
      using assms(2) that rows(1,2) by (simp add: versions_ok_def)
    then show ?thesis by (simp add: next_version_def split: option.split)
  qed
  consider "col' = col" | i where "col' = col\<lparr>fc_rows := AList.delete i (fc_rows col)\<rparr>"
    | i r where "rw_version r = next_version i col" "col' = set_row i r col"
    using col'(2) by (auto simp: col_step_def)
  then show ?thesis
  proof cases
    case 1
    then show ?thesis by (intro same) (simp_all add: rows)
  next
    case (2 i)
    then show ?thesis by (intro deleted [of i]) (simp_all add: rows delete_conv')
  next
    case (3 i r)
    then show ?thesis
      using next_is by (intro stored [of i r]) (simp_all add: rows set_row_def update_conv')
  qed
qed

lemma versions_step:
  assumes "versions_ok cfg c st hist" "state_step c st st'"
  shows "versions_ok cfg c st' (remember cfg c st' hist)"
    "hist i n = Some v \<Longrightarrow> remember cfg c st' hist i n = Some v"
proof -
  note ok = assms(1) [unfolded versions_ok_def]
  have "versions_ok cfg c st' (remember cfg c st' hist) \<and>
      (\<forall>i n v. hist i n = Some v \<longrightarrow> remember cfg c st' hist i n = Some v)"
    using assms(2,1)
  proof (cases rule: state_step_cases)
    case same
    have "remember cfg c st' hist i n = hist i n" for i n
      using ok same by (auto simp: remember_def split: option.split)
    then have "remember cfg c st' hist = hist" by (simp add: fun_eq_iff)
    then show ?thesis using assms(1) same by (simp add: versions_ok_def)
  next
    case (deleted j)
    have "remember cfg c st' hist i n = hist i n" for i n
      using ok deleted by (auto simp: remember_def split: option.split)
    then have "remember cfg c st' hist = hist" by (simp add: fun_eq_iff)
    then show ?thesis using assms(1) deleted by (auto simp: versions_ok_def)
  next
    case (stored j r)
    have hist: "remember cfg c st' hist i n = (if i = j \<and> n = rw_version r then Some (value_of cfg r) else hist i n)" for i n
      using ok stored(1) by (auto simp: remember_def split: option.split)
    have bound: "n < rw_version r" if past: "hist j n = Some v" for n v
    proof -
      obtain m where "known_version st c j = Some m" "n \<le> m"
        using conjunct2 [OF conjunct2 [OF ok]] past by blast
      then show ?thesis using stored(3) by simp
    qed
    have positive: "1 \<le> rw_version r" using ok stored(3) by (auto split: option.splits) fastforce
    have older: "n = rw_version r \<Longrightarrow> hist j n = None" for n using bound [of n] by (cases "hist j n") auto
    have "known_version st' c i = Some (rw_version q) \<and> 1 \<le> rw_version q \<and>
        remember cfg c st' hist i (rw_version q) = Some (value_of cfg q)" if "stored_row st' c i = Some q" for i q
    proof (cases "i = j")
      case True
      then show ?thesis using that stored(1,2) positive hist by simp
    next
      case False
      then show ?thesis using that stored(1,2) ok hist by simp
    qed
    moreover have "1 \<le> m" if "known_version st' c i = Some m" for i m
      using that stored(2) positive ok by (cases "i = j") simp_all
    moreover have "\<exists>m. known_version st' c i = Some m \<and> n \<le> m" if "remember cfg c st' hist i n = Some v" for i n v
      using that stored(2) hist ok bound [of n v, THEN less_imp_le] by (cases "i = j") (auto split: if_splits)
    ultimately have "versions_ok cfg c st' (remember cfg c st' hist)"
      unfolding versions_ok_def by blast
    then show ?thesis using hist older by auto
  qed
  then show "versions_ok cfg c st' (remember cfg c st' hist)" "hist i n = Some v \<Longrightarrow> remember cfg c st' hist i n = Some v"
    by blast+
qed

lemma replay_ok:
  assumes "versions_ok cfg c st0 (\<lambda>i n. None)"
  shows "versions_ok cfg c (rp_state (replay cfg c st0 evs)) (rp_hist (replay cfg c st0 evs))"
proof (induction evs rule: rev_induct)
  case Nil
  then show ?case using assms by (simp add: replay_def)
next
  case (snoc ev evs)
  show ?case
    using versions_step(1) [OF snoc event_state_step] by (simp add: replay_append replay_event_def Let_def)
qed

lemma hist_grows:
  assumes "versions_ok cfg c st0 (\<lambda>i n. None)" "rp_hist (replay cfg c st0 evs) i n = Some v"
  shows "rp_hist (replay cfg c st0 (evs @ later)) i n = Some v"
proof (induction later rule: rev_induct)
  case (snoc ev evs')
  have "versions_ok cfg c (rp_state (replay cfg c st0 (evs @ evs'))) (rp_hist (replay cfg c st0 (evs @ evs')))"
    by (rule replay_ok [OF assms(1)])
  from versions_step(2) [OF this event_state_step snoc] show ?case
    by (simp add: replay_append replay_event_def Let_def)
qed (use assms(2) in simp)

lemma log_of_others:
  assumes "\<forall>ev \<in> set evs. \<forall>tag now req. ev = Asked tag now req \<longrightarrow> tag = None"
  shows "rp_log (fold (replay_event cfg c) evs p) = rp_log p"
  using assms
proof (induction evs arbitrary: p)
  case (Cons ev evs)
  have "noted cfg c ev st = []" for st
    using Cons.prems by (cases ev) (auto simp: noted_def)
  then show ?case using Cons by (simp add: replay_event_def Let_def)
qed simp

end
