(* ===== verification/Kv_Save.thy ===== *)
theory Kv_Save
  imports Kv_Events
begin

section \<open>Saves over the client and the service\<close>

text \<open>
  The saves of the kit rest on a contract of the service (\<open>kv_laws\<close>). Here it is shown of the code:
  of the client of the store over the service of the tests, on a network that loses requests and
  answers, with other clients that write at any moment.
\<close>

subsection \<open>The network\<close>

text \<open>
  Before a request of this client is served, other clients and the service itself may have acted; it
  may not arrive, its answer may be lost or break off. The rest of the world is the storage of the
  queue and whatever else.
\<close>

datatype delivery = Arrives | NeverArrives | AnswerLost | BodyBreaks

record 'r kv_world =
  kw_events :: "kv_event list"
  kw_future :: "nat \<Rightarrow> kv_event list \<times> int \<times> delivery"
  kw_tick :: nat
  kw_rest :: 'r

definition untagged :: "kv_event \<Rightarrow> kv_event" where
  "untagged ev = (case ev of Asked tag now req \<Rightarrow> Asked None now req | _ \<Rightarrow> ev)"

definition deliver_request ::
  "fake_config \<Rightarrow> ustring \<Rightarrow> fake_state \<Rightarrow> (ustring \<times> ustring \<times> json option) option \<Rightarrow> KvFetchRequest \<Rightarrow>
   (unit, KvFetchResponse, 'r kv_world) eff" where
  "deliver_request cfg c st0 tag req w =
     (let (others, now, d) = kw_future w (kw_tick w);
          evs = kw_events w @ map untagged others;
          w1 = w\<lparr>kw_events := evs, kw_tick := Suc (kw_tick w)\<rparr>;
          w2 = w1\<lparr>kw_events := evs @ [Asked tag now req]\<rparr> in
      if d = NeverArrives then Some (Inl (), w1)
      else
        case fst (handle cfg now req (rp_state (replay cfg c st0 evs))) of
          None \<Rightarrow> Some (Inl (), w2)
        | Some a \<Rightarrow>
            Some (if d = AnswerLost then Inl () else if d = BodyBreaks then Inr (a\<lparr>fs_text := None\<rparr>) else Inr a, w2))"

definition kv_client ::
  "fake_config \<Rightarrow> ustring \<Rightarrow> fake_state \<Rightarrow> (ustring \<Rightarrow> ustring) \<Rightarrow> (ustring \<times> ustring \<times> json option) option \<Rightarrow> ustring \<Rightarrow>
   'r kv_world kv_env" where
  "kv_client cfg c st0 token tag u =
     \<lparr>kx_origin = fo_origin cfg, kx_token = token u, kx_fetch = deliver_request cfg c st0 tag, kx_parse = fo_parse cfg\<rparr>"

text \<open>What the kit makes of an error of the client: the body that breaks off is a \<open>TypeError\<close> of \<open>fetch\<close>.\<close>

definition plain :: "ustring \<Rightarrow> string" where
  "plain t = map (\<lambda>u. char_of (unat u)) t"

definition to_thrown :: "kv_thrown \<Rightarrow> thrown" where
  "to_thrown e =
     (case e of
        KvStoreError k \<Rightarrow>
          ServiceError \<lparr>se_status = Some (ke_status k), se_code = Some (plain (ke_code k)), se_reason = map_option plain (ke_reason k)\<rparr>
      | KvRangeError \<Rightarrow> RangeError
      | KvTypeError \<Rightarrow> TypeError
      | KvBodyLost \<Rightarrow> TypeError)"

definition from_kv :: "(kv_thrown, 'a, 'w) eff \<Rightarrow> (thrown, 'a, 'w) eff" where
  "from_kv m w =
     (case m w of
        None \<Rightarrow> None
      | Some (Inl e, w') \<Rightarrow> Some (Inl (to_thrown e), w')
      | Some (Inr a, w') \<Rightarrow> Some (Inr a, w'))"

definition put_options :: "condition \<Rightarrow> int option \<Rightarrow> KvPutOptions" where
  "put_options c ttl =
     \<lparr>po_ttl = map_option Some ttl, po_ifMatch = (case c of IfNoneMatch \<Rightarrow> None | IfMatch n \<Rightarrow> Some (Some n)),
      po_ifNoneMatch = (c = IfNoneMatch)\<rparr>"

text \<open>The environment of the saves, with the player's own namespace of the collection \<open>c\<close>.\<close>

definition kv_save_env ::
  "fake_config \<Rightarrow> ustring \<Rightarrow> fake_state \<Rightarrow> (ustring \<Rightarrow> ustring) \<Rightarrow> 'r kv_world save_env \<Rightarrow> 'r kv_world save_env" where
  "kv_save_env cfg c st0 token base =
     base\<lparr>
       sv_getEntry := (\<lambda>u k. from_kv (bind_eff (readEntry (kv_client cfg c st0 token None u) c (Some selfOwner) k)
         (\<lambda>e. return_eff (map_option (\<lambda>n. (kn_value n, kn_version n)) e)))),
       sv_put := (\<lambda>u k v cond ttl. from_kv (bind_eff
         (kv_put (kv_client cfg c st0 token (Some (u, k, Some v)) u) c (Some selfOwner) k v (put_options cond ttl))
         (\<lambda>r. return_eff (wr_version r)))),
       sv_delete := (\<lambda>u k n. from_kv
         (kv_delete (kv_client cfg c st0 token (Some (u, k, None)) u) c (Some selfOwner) k (Some (Some n)) IgnoreMissing)),
       sv_incr := (\<lambda>u k d low high. from_kv (bind_eff
         (kv_incr (kv_client cfg c st0 token None u) c (Some selfOwner) k (Some d) None (map_option Some low) (map_option Some high))
         (\<lambda>(v, n, x). case safe_of v of Some i \<Rightarrow> return_eff i | None \<Rightarrow> throw_eff KvTypeError)))\<rparr>"

definition kw_log :: "fake_config \<Rightarrow> ustring \<Rightarrow> fake_state \<Rightarrow> 'r kv_world \<Rightarrow> logged list" where
  "kw_log cfg c st0 w = rp_log (replay cfg c st0 (kw_events w))"

definition kw_hist :: "fake_config \<Rightarrow> ustring \<Rightarrow> fake_state \<Rightarrow> 'r kv_world \<Rightarrow> ustring \<Rightarrow> ustring \<Rightarrow> int \<Rightarrow> json option" where
  "kw_hist cfg c st0 w u k n = rp_hist (replay cfg c st0 (kw_events w)) (u @ ascii '':'' @ k) n"

subsection \<open>One request\<close>

text \<open>The events a request adds.\<close>

lemma deliver_cases:
  assumes "deliver_request cfg c st0 tag req w = Some (r, w')"
  obtains others now d where "kw_future w (kw_tick w) = (others, now, d)"
    "kw_events w' = kw_events w @ map untagged others \<or>
     kw_events w' = (kw_events w @ map untagged others) @ [Asked tag now req]"
    "\<And>a. r = Inr a \<Longrightarrow> kw_events w' = (kw_events w @ map untagged others) @ [Asked tag now req] \<and>
      (\<exists>b. fst (handle cfg now req (rp_state (replay cfg c st0 (kw_events w @ map untagged others)))) = Some b \<and>
         (a = b \<or> a = b\<lparr>fs_text := None\<rparr>))"
proof -
  obtain others now d where future: "kw_future w (kw_tick w) = (others, now, d)"
    by (cases "kw_future w (kw_tick w)") auto
  show ?thesis
    by (rule that [OF future]) (use assms future in \<open>auto simp: deliver_request_def Let_def split: option.splits if_splits\<close>)
qed

lemma untagged_log:
  "rp_log (replay cfg c st0 (evs @ map untagged others)) = rp_log (replay cfg c st0 evs)"
proof -
  have "\<forall>ev \<in> set (map untagged others). \<forall>tag now req. ev = Asked tag now req \<longrightarrow> tag = None"
    by (auto simp: untagged_def split: kv_event.splits)
  from log_of_others [OF this] show ?thesis by (simp only: replay_append)
qed

lemma handle_effect:
  assumes "stored_row (snd (handle cfg now req st)) c i \<noteq> stored_row st c i"
  shows "\<not> condition_fails req (live (now div 1000) (stored_row st c i))"
proof -
  obtain n col col' where step: "fk_collections st n = Some col" "row_step req (now div 1000) col col'"
      "fk_collections (snd (handle cfg now req st)) = (fk_collections st)(n \<mapsto> col')"
    using handle_collections [of cfg now req st] assms by (auto simp: stored_row_def)
  have "n = c" using step(3) assms by (cases "n = c") (simp_all add: stored_row_def)
  then show ?thesis using step assms by (auto simp: stored_row_def row_step_def)
qed

lemma live_row: "live time stored = Some r \<Longrightarrow> stored = Some r"
  by (auto simp: live_def split: option.splits if_splits)

lemma grown_hist:
  assumes "versions_ok cfg c st0 (\<lambda>i n. None)" "kw_events w' = kw_events w @ later" "kw_hist cfg c st0 w u k n = Some v"
  shows "kw_hist cfg c st0 w' u k n = Some v"
  using hist_grows [OF assms(1)] assms(2,3) by (simp add: kw_hist_def)

lemma tagged_recorded:
  fixes w w' :: "'r kv_world"
  assumes ok: "versions_ok cfg c st0 (\<lambda>i n. None)"
    and events: "kw_events w' = kw_events w @ map untagged others \<or>
      kw_events w' = (kw_events w @ map untagged others) @ [Asked (Some (u, k, v)) now req]"
    and condition: "\<And>row. \<not> condition_fails req row \<Longrightarrow> (\<forall>r. row = Some r \<longrightarrow> 1 \<le> rw_version r) \<Longrightarrow>
      condition_met cond (entry_view cfg row)"
  shows "recorded (kw_log cfg c st0) (kw_hist cfg c st0) u k cond v w w'"
proof -
  let ?p = "replay cfg c st0 (kw_events w @ map untagged others)"
  let ?i = "u @ ascii '':'' @ k"
  let ?row = "live (now div 1000) (stored_row (rp_state ?p) c ?i)"
  have log: "rp_log ?p = kw_log cfg c st0 w" by (simp add: kw_log_def untagged_log)
  have grows: "\<forall>u k n v. kw_hist cfg c st0 w u k n = Some v \<longrightarrow> kw_hist cfg c st0 w' u k n = Some v"
    using events grown_hist [OF ok] by (metis append.assoc)
  show ?thesis
  proof (cases "kw_events w' = (kw_events w @ map untagged others) @ [Asked (Some (u, k, v)) now req] \<and>
      noted cfg c (Asked (Some (u, k, v)) now req) (rp_state ?p) \<noteq> []")
    case False
    then have "kw_log cfg c st0 w' = kw_log cfg c st0 w"
      using events log by (auto simp: kw_log_def replay_append replay_event_def Let_def simp del: append_assoc)
    then show ?thesis using grows by (simp add: recorded_def)
  next
    case True
    then have effect: "stored_row (snd (handle cfg now req (rp_state ?p))) c ?i \<noteq> stored_row (rp_state ?p) c ?i"
      by (auto simp: noted_def event_state_def Let_def split: if_splits)
    then have "noted cfg c (Asked (Some (u, k, v)) now req) (rp_state ?p) = [(u, k, entry_view cfg ?row, v)]"
      by (simp add: noted_def event_state_def Let_def)
    then have added: "kw_log cfg c st0 w' = kw_log cfg c st0 w @ [(u, k, entry_view cfg ?row, v)]"
      using True log by (simp add: kw_log_def replay_append replay_event_def Let_def del: append_assoc)
    have versions: "versions_ok cfg c (rp_state ?p) (rp_hist ?p)" by (rule replay_ok [OF ok])
    have "1 \<le> rw_version r" if "?row = Some r" for r
      using versions live_row [OF that] by (simp add: versions_ok_def)
    then have met: "condition_met cond (entry_view cfg ?row)"
      using condition [OF handle_effect [OF effect]] by blast
    have old: "kw_hist cfg c st0 w' u k n = Some o'" if "entry_view cfg ?row = Some (o', n)" for o' n
    proof -
      have "\<exists>r. ?row = Some r \<and> o' = value_of cfg r \<and> n = rw_version r"
        using that by (auto simp: entry_view_def)
      then obtain r where r: "?row = Some r" "o' = value_of cfg r" "n = rw_version r" by blast
      have "rp_hist ?p ?i n = Some o'"
        using versions live_row [OF r(1)] r(2,3) by (simp add: versions_ok_def)
      from hist_grows [OF ok this, of "[Asked (Some (u, k, v)) now req]"] True show ?thesis
        by (simp add: kw_hist_def)
    qed
    show ?thesis using grows added met old unfolding recorded_def by blast
  qed
qed

subsection \<open>Conditions on the wire\<close>

lemma show_int_inj: "1 \<le> m \<Longrightarrow> 1 \<le> n \<Longrightarrow> show_int m = show_int n \<Longrightarrow> m = n"
proof -
  assume "1 \<le> m" "1 \<le> n" "show_int m = show_int n"
  then have "js_integer (show_nat (nat m)) = js_integer (show_nat (nat n))" by (simp add: show_int_def)
  then show ?thesis using \<open>1 \<le> m\<close> \<open>1 \<le> n\<close> by (simp add: js_integer_show)
qed

lemma match_header:
  assumes "1 \<le> n" "fr_headers req ''if-match'' = Some (34 # show_int n @ [34])"
    "\<not> condition_fails req row" "\<forall>r. row = Some r \<longrightarrow> 1 \<le> rw_version r"
  shows "condition_met (IfMatch n) (entry_view cfg row)"
proof (cases row)
  case (Some r)
  then have "show_int n = show_int (rw_version r)"
    using assms(2,3) by (auto simp: condition_fails_def etag_def)
  then have "n = rw_version r" using show_int_inj assms(1,4) Some by blast
  then show ?thesis using Some by (simp add: condition_met_def entry_view_def replaced_version_def)
qed (use assms in \<open>simp add: condition_fails_def\<close>)

lemma none_header:
  assumes "fr_headers req ''if-none-match'' = Some (ascii ''*'')" "\<not> condition_fails req row"
  shows "condition_met IfNoneMatch (entry_view cfg row)"
  using assms by (auto simp: condition_fails_def condition_met_def entry_view_def replaced_version_def)

lemma put_condition:
  assumes "conditionHeaders (po_ifMatch (put_options cond ttl)) (po_ifNoneMatch (put_options cond ttl)) = Inr headers"
    and "fr_headers req ''if-match'' = headers ''if-match''" "fr_headers req ''if-none-match'' = headers ''if-none-match''"
    and "\<not> condition_fails req row" "\<forall>r. row = Some r \<longrightarrow> 1 \<le> rw_version r"
  shows "condition_met cond (entry_view cfg row)"
proof (cases cond)
  case IfNoneMatch
  then have "headers = [''if-none-match'' \<mapsto> ascii ''*'']"
    using assms(1) by (simp add: put_options_def conditionHeaders_def)
  then show ?thesis using none_header [of req row cfg] assms(3,4) IfNoneMatch by simp
next
  case (IfMatch n)
  then have "1 \<le> n" "headers = [''if-match'' \<mapsto> 34 # show_int n @ [34]]"
    using assms(1) by (auto simp: put_options_def conditionHeaders_def checkVersion_def bind_checked_def split: if_splits)
  then show ?thesis using match_header [of n req row cfg] assms IfMatch by simp
qed

lemma client_fields [simp]:
  "kx_fetch (kv_client cfg c st0 token tag u) = deliver_request cfg c st0 tag"
  "kx_parse (kv_client cfg c st0 token tag u) = fo_parse cfg" "kx_token (kv_client cfg c st0 token tag u) = token u"
  "kx_origin (kv_client cfg c st0 token tag u) = fo_origin cfg"
  by (simp_all add: kv_client_def)

lemma request_events:
  assumes "kv_request (kv_client cfg c st0 token tag u) spec w = Some (r, w')"
  obtains others now where
    "kw_events w' = kw_events w @ map untagged others \<or>
     kw_events w' = (kw_events w @ map untagged others) @ [Asked tag now (build_request (fo_origin cfg) (token u) spec)]"
proof -
  have "\<exists>q. deliver_request cfg c st0 tag (build_request (fo_origin cfg) (token u) spec) w = Some (q, w')"
    using assms by (auto simp: kv_request_def split: option.splits sum.splits if_splits)
  then obtain q where "deliver_request cfg c st0 tag (build_request (fo_origin cfg) (token u) spec) w = Some (q, w')" ..
  then show ?thesis by (rule deliver_cases) (rule that)
qed

lemma request_headers:
  "fr_headers (build_request origin t spec) ''if-match'' = rs_headers spec ''if-match''"
  "fr_headers (build_request origin t spec) ''if-none-match'' = rs_headers spec ''if-none-match''"
  by (simp_all add: build_request_def Let_def)

lemma checked_SomeE:
  assumes "bind_eff (kv_checked m) f w = Some (r, w')"
  obtains e where "m = Inl e" "r = Inl e" "w' = w" | a where "m = Inr a" "f a w = Some (r, w')"
  using assms by (cases m) (auto simp: kv_checked_def bind_eff_def eff_defs)

text \<open>The conditional request of a write and of a deletion.\<close>

lemma put_events:
  assumes "kv_put env ref owner k v opts w = Some (r, w')"
  obtains "w' = w"
  | path query headers body q where "entryPath ref owner k = Inr path" "ttlQuery (po_ttl opts) = Inr query"
      "conditionHeaders (po_ifMatch opts) (po_ifNoneMatch opts) = Inr headers" "encodeValue v = Inr body"
      "kv_request env \<lparr>rs_method = PUT, rs_path = path @ query, rs_headers = headers, rs_body = Some body\<rparr> w = Some (q, w')"
proof -
  have "w' = w \<or> (\<exists>path query headers body q. entryPath ref owner k = Inr path \<and> ttlQuery (po_ttl opts) = Inr query \<and>
      conditionHeaders (po_ifMatch opts) (po_ifNoneMatch opts) = Inr headers \<and> encodeValue v = Inr body \<and>
      kv_request env \<lparr>rs_method = PUT, rs_path = path @ query, rs_headers = headers, rs_body = Some body\<rparr> w = Some (q, w'))"
    using assms unfolding kv_put_def
    by (elim checked_SomeE bind_eff_SomeE) (auto simp: eff_defs Let_def)
  then show ?thesis using that by blast
qed

lemma caught_request:
  assumes "catch_eff (bind_eff (kv_request env spec) (\<lambda>a. return_eff ())) h w = Some (r, w')"
    and "\<And>e x. h e x = Some (r, w') \<Longrightarrow> x = w'"
  shows "\<exists>q. kv_request env spec w = Some (q, w')"
proof (cases "kv_request env spec w")
  case (Some p)
  then show ?thesis
    using assms by (cases p, cases "fst p") (auto simp: catch_eff_def bind_eff_def return_eff_def)
qed (use assms in \<open>simp add: catch_eff_def bind_eff_def\<close>)

lemma delete_events:
  assumes "kv_delete env ref owner k ifMatch missing w = Some (r, w')"
  obtains "w' = w"
  | spec headers q where "conditionHeaders ifMatch False = Inr headers" "rs_headers spec = headers"
      "kv_request env spec w = Some (q, w')"
proof -
  have "w' = w \<or> (\<exists>headers spec q. conditionHeaders ifMatch False = Inr headers \<and> rs_headers spec = headers \<and>
      kv_request env spec w = Some (q, w'))"
    using assms unfolding kv_delete_def
  proof (elim checked_SomeE)
    fix path headers
    let ?spec = "\<lparr>rs_method = DELETE, rs_path = path, rs_headers = headers, rs_body = None\<rparr>"
    assume "conditionHeaders ifMatch False = Inr headers"
      and run: "catch_eff (bind_eff (kv_request env ?spec) (\<lambda>a. return_eff ()))
        (\<lambda>e. if \<not> isMissing e \<or> missing = ErrorMissing then throw_eff e else return_eff ()) w = Some (r, w')"
    moreover have "\<exists>q. kv_request env ?spec w = Some (q, w')"
      by (rule caught_request [OF run]) (simp add: throw_eff_def return_eff_def split: if_splits)
    ultimately show ?thesis by (metis RequestSpec.select_convs(3))
  qed simp_all
  then show ?thesis using that by blast
qed

subsection \<open>Reading\<close>

lemma state_tokens: "fk_tokens (rp_state (replay cfg c st0 evs)) = fk_tokens st0"
proof (induction evs rule: rev_induct)
  case (snoc ev evs)
  have "fk_tokens (snd (handle cfg now req st)) = fk_tokens st" for now req st
    by (simp add: handle_def Let_def split: option.split prod.split)
  moreover have "fk_tokens (seed now n k b u st) = fk_tokens st" for now n k b u st
    by (simp add: seed_def Let_def split: option.split)
  ultimately have "fk_tokens (event_state cfg ev st) = fk_tokens st" for st
    by (simp add: event_state_def split: kv_event.split)
  then show ?case using snoc by (simp add: replay_append replay_event_def Let_def)
qed (simp add: replay_def)

lemma bearer_request:
  assumes "rs_headers spec ''authorization'' = None" "tok \<noteq> []"
  shows "bearer_user st (build_request origin tok spec) =
    (case fk_tokens st tok of None \<Rightarrow> None | Some u \<Rightarrow> if u = [] then None else Some u)"
  using assms by (simp add: bearer_user_def build_request_def Let_def)

lemma plain_answers [simp]:
  "fs_headers (fakeResponse n b h) = h" "fs_headers (fake_fail n e d) = Map.empty" "fs_headers (fail_reason n e f) = Map.empty"
  "fs_headers (meta_answer name col) = Map.empty" "fs_headers (list_answer param po t pre col) = Map.empty"
  by (simp_all add: fakeResponse_def fake_fail_def fail_reason_def meta_answer_def list_answer_def Let_def)

lemma get_answer_etag:
  assumes "fs_headers (get_answer po row) ''etag'' = Some e"
  shows "\<exists>r. row = Some r \<and> fs_text (get_answer po row) = Some (rw_value r) \<and> e = etag (rw_version r)"
  using assms by (auto simp: get_answer_def fakeResponse_def split: option.splits)

lemma own_get:
  assumes "fst (handle cfg now (build_request (fo_origin cfg) tok (get_spec path)) st) = Some b"
    and "fs_headers b ''etag'' = Some e" "entryPath c (Some selfOwner) k = Inr path" "fk_tokens st tok = Some u" "tok \<noteq> []"
  shows "\<exists>r. live (now div 1000) (stored_row st c (u @ ascii '':'' @ k)) = Some r \<and>
    fs_text b = Some (rw_value r) \<and> e = etag (rw_version r)"
proof -
  let ?req = "build_request (fo_origin cfg) tok (get_spec path)"
  have url: "fr_url ?req = fo_origin cfg @ path @ []" "fr_method ?req = GET"
    by (simp_all add: build_request_def get_spec_def Let_def)
  have route: "url_pathname (fo_origin cfg) (fo_origin cfg @ path @ []) = path"
      "kv_route path = Some \<lparr>ro_name = c, ro_owner = Some selfOwner, ro_key = Some k\<rparr>"
    using entry_route [OF assms(3), where query = "[]"] by blast+
  let ?st = "st\<lparr>fk_requests := fk_requests st @ [(path, GET, fr_body ?req)]\<rparr>"
  have user: "bearer_user ?st ?req = (if u = [] then None else Some u)"
    using bearer_request [of "get_spec path" tok ?st] assms(4,5) by (simp add: get_spec_def)
  have path: "url_pathname (fo_origin cfg) (fr_url ?req) = path" using route(1) url(1) by simp
  obtain col where col: "fk_collections st c = Some col"
      "fst (collection_answer cfg now path u \<lparr>ro_name = c, ro_owner = Some selfOwner, ro_key = Some k\<rparr> ?req col) = Some b"
    using assms(1,2) user path route(2) url(2)
    by (auto simp: handle_def Let_def split: if_splits option.splits prod.splits)
  have "row_prefix (Some u) @ k = u @ ascii '':'' @ k" by (simp add: row_prefix_def)
  then have "\<exists>po. b = get_answer po (live (now div 1000) (map_of (fc_rows col) (u @ ascii '':'' @ k)))"
    using col(2) assms(2) url(2)
    by (auto simp: collection_answer_def entry_answer_def Let_def selfOwner_def split: if_splits)
  then show ?thesis
    using get_answer_etag assms(2) col(1) by (auto simp: stored_row_def)
qed

lemma etag_reads_back:
  assumes "1 \<le> n" "parseEtagVersion (Some (etag n)) = Some m"
  shows "m = n"
proof -
  have digits: "show_int n = show_nat (nat n)" using assms(1) by (simp add: show_int_def)
  have "trim (34 # t @ [34]) = 34 # t @ [34]" for t
    by (simp add: trim_def is_space_def)
  then have "etag_digits (show_nat (nat n)) = Some m"
    using assms(2) digits by (simp add: parseEtagVersion_def etag_def Let_def)
  then show ?thesis
    using show_nat_digits [of "nat n"] assms(1) by (simp add: etag_digits_def split: if_splits)
qed

subsection \<open>The contract of the saves\<close>

text \<open>
  Whatever the rest of the world does while the service is left to other clients; a service without
  entries of the collection, in which every user has a token.
\<close>

definition undisturbed :: "'r kv_world \<Rightarrow> 'r kv_world \<Rightarrow> bool" where
  "undisturbed w w' \<longleftrightarrow> (\<exists>others. kw_events w' = kw_events w @ map untagged others)"

definition leaves_service :: "'r kv_world save_env \<Rightarrow> bool" where
  "leaves_service base \<longleftrightarrow>
     (\<forall>ns w r w'. sv_load base ns w = Some (r, w') \<longrightarrow> undisturbed w w') \<and>
     (\<forall>ns q w r w'. sv_store base ns q w = Some (r, w') \<longrightarrow> undisturbed w w') \<and>
     (\<forall>w. undisturbed w (snd (sv_uuid base w))) \<and> (\<forall>w. undisturbed w (snd (sv_outside base w)))"

definition new_service :: "ustring \<Rightarrow> (ustring \<Rightarrow> ustring) \<Rightarrow> fake_state \<Rightarrow> bool" where
  "new_service c token st \<longleftrightarrow>
     (\<forall>i. stored_row st c i = None \<and> known_version st c i = None) \<and>
     (\<forall>u. token u \<noteq> [] \<and> fk_tokens st (token u) = Some u)"

lemma new_service_ok: "new_service c token st0 \<Longrightarrow> versions_ok cfg c st0 (\<lambda>i n. None)"
  by (simp add: new_service_def versions_ok_def)

lemma undisturbed_quiet:
  assumes "versions_ok cfg c st0 (\<lambda>i n. None)" "undisturbed w w'"
  shows "quiet (kw_log cfg c st0) (kw_hist cfg c st0) w w'"
  using assms grown_hist [OF assms(1)] by (auto simp: undisturbed_def quiet_def kw_log_def untagged_log)

lemma untagged_request:
  assumes "kv_request (kv_client cfg c st0 token None u) spec w = Some (r, w')"
  shows "undisturbed w w'"
  using assms
proof (rule request_events)
  fix others now
  let ?req = "Asked None now (build_request (fo_origin cfg) (token u) spec)"
  assume events: "kw_events w' = kw_events w @ map untagged others \<or> kw_events w' = (kw_events w @ map untagged others) @ [?req]"
  have "map untagged (others @ [?req]) = map untagged others @ [?req]" by (simp add: untagged_def)
  then have "kw_events w' = kw_events w @ map untagged others \<or> kw_events w' = kw_events w @ map untagged (others @ [?req])"
    using events by (simp only: append.assoc)
  then show ?thesis unfolding undisturbed_def by blast
qed

lemma request_answer:
  assumes "kv_request (kv_client cfg c st0 token tag u) spec w = Some (Inr a, w')"
  obtains evs now b where "kw_events w' = evs @ [Asked tag now (build_request (fo_origin cfg) (token u) spec)]"
    "fst (handle cfg now (build_request (fo_origin cfg) (token u) spec) (rp_state (replay cfg c st0 evs))) = Some b"
    "fs_text b = Some (an_text a)" "fs_headers b = an_headers a" "fs_status b = an_status a"
    "\<exists>others. evs = kw_events w @ map untagged others"
proof -
  let ?req = "build_request (fo_origin cfg) (token u) spec"
  have "\<exists>b. deliver_request cfg c st0 tag ?req w = Some (Inr b, w') \<and> fs_text b = Some (an_text a) \<and>
      fs_headers b = an_headers a \<and> fs_status b = an_status a"
    using assms by (auto simp: kv_request_def split: option.splits sum.splits if_splits)
  then obtain b where b: "deliver_request cfg c st0 tag ?req w = Some (Inr b, w')" "fs_text b = Some (an_text a)"
      "fs_headers b = an_headers a" "fs_status b = an_status a" by blast
  from b(1) show ?thesis
  proof (rule deliver_cases)
    fix others now d
    assume "\<And>a. Inr b = Inr a \<Longrightarrow> kw_events w' = (kw_events w @ map untagged others) @ [Asked tag now ?req] \<and>
      (\<exists>b'. fst (handle cfg now ?req (rp_state (replay cfg c st0 (kw_events w @ map untagged others)))) = Some b' \<and>
         (a = b' \<or> a = b'\<lparr>fs_text := None\<rparr>))"
    then obtain b' where "kw_events w' = (kw_events w @ map untagged others) @ [Asked tag now ?req]"
        "fst (handle cfg now ?req (rp_state (replay cfg c st0 (kw_events w @ map untagged others)))) = Some b'"
        "b = b' \<or> b = b'\<lparr>fs_text := None\<rparr>" by blast
    then show ?thesis using that b by auto
  qed
qed

lemma read_outcome:
  assumes "readEntry env ref owner k w = Some (r, w')"
  obtains "w' = w" "\<And>e. r \<noteq> Inr (Some e)"
  | path q where "entryPath ref owner k = Inr path" "kv_request env (get_spec path) w = Some (q, w')"
      "\<And>e. r = Inr (Some e) \<Longrightarrow> \<exists>a. q = Inr a \<and> kx_parse env (an_text a) = Some (kn_value e) \<and>
        parseEtagVersion (an_headers a ''etag'') = Some (kn_version e)"
proof -
  have "(w' = w \<and> (\<forall>e. r \<noteq> Inr (Some e))) \<or>
    (\<exists>path q. entryPath ref owner k = Inr path \<and> kv_request env (get_spec path) w = Some (q, w') \<and>
      (\<forall>e. r = Inr (Some e) \<longrightarrow> (\<exists>a. q = Inr a \<and> kx_parse env (an_text a) = Some (kn_value e) \<and>
        parseEtagVersion (an_headers a ''etag'') = Some (kn_version e))))"
    using assms unfolding readEntry_def
  proof (elim checked_SomeE)
    fix path
    assume path: "entryPath ref owner k = Inr path"
      and run: "bind_eff
        (catch_eff (bind_eff (kv_request env (get_spec path)) (\<lambda>a. return_eff (Some a)))
          (\<lambda>e. if isMissing e then return_eff None else throw_eff e))
        (\<lambda>answer. case answer of None \<Rightarrow> return_eff None | Some a \<Rightarrow> entry_of env a) w = Some (r, w')"
    obtain q w1 where q: "kv_request env (get_spec path) w = Some (q, w1)"
      using run by (cases "kv_request env (get_spec path) w") (auto simp: bind_eff_def catch_eff_def)
    show ?thesis
    proof (cases q)
      case (Inl e)
      then have "w1 = w'" "\<forall>e. r \<noteq> Inr (Some e)"
        using run q by (auto simp: eff_defs split: if_splits)
      then show ?thesis using path q Inl by auto
    next
      case (Inr a)
      then have "entry_of env a w1 = Some (r, w')"
        using run q by (simp add: eff_defs)
      then have "w1 = w'" "\<forall>e. r = Inr (Some e) \<longrightarrow> kx_parse env (an_text a) = Some (kn_value e) \<and>
          parseEtagVersion (an_headers a ''etag'') = Some (kn_version e)"
        by (auto simp: entry_of_def parseJson_def eff_defs split: option.splits)
      then show ?thesis using path q Inr by auto
    qed
  qed auto
  then show ?thesis
  proof (elim disjE exE conjE)
    assume "w' = w" "\<forall>e. r \<noteq> Inr (Some e)"
    then show ?thesis by - (rule that(1), blast+)
  next
    fix path q
    assume "entryPath ref owner k = Inr path" "kv_request env (get_spec path) w = Some (q, w')"
      "\<forall>e. r = Inr (Some e) \<longrightarrow> (\<exists>a. q = Inr a \<and> kx_parse env (an_text a) = Some (kn_value e) \<and>
        parseEtagVersion (an_headers a ''etag'') = Some (kn_version e))"
    then show ?thesis by - (rule that(2), assumption, assumption, blast)
  qed
qed

lemma read_law:
  fixes w w' :: "'r kv_world"
  assumes service: "new_service c token st0"
    and run: "sv_getEntry (kv_save_env cfg c st0 token base) u k w = Some (r, w')"
  shows "quiet (kw_log cfg c st0) (kw_hist cfg c st0) w w'"
    "r = Inr (Some (v, n)) \<Longrightarrow> kw_hist cfg c st0 w' u k n = Some v"
proof -
  note ok = new_service_ok [OF service, of cfg]
  have "\<exists>q. readEntry (kv_client cfg c st0 token None u) c (Some selfOwner) k w = Some (q, w') \<and>
      r = map_sum to_thrown (map_option (\<lambda>n. (kn_value n, kn_version n))) q"
    using run by (auto simp: kv_save_env_def from_kv_def eff_defs split: option.splits sum.splits)
  then obtain q where q: "readEntry (kv_client cfg c st0 token None u) c (Some selfOwner) k w = Some (q, w')"
      and r: "r = map_sum to_thrown (map_option (\<lambda>n. (kn_value n, kn_version n))) q" by (elim exE conjE)
  have entry: "\<exists>e. q = Inr (Some e) \<and> v = kn_value e \<and> n = kn_version e" if "r = Inr (Some (v, n))" for v n
    using r that by (cases q) (auto simp: map_option_case split: option.splits)
  have "undisturbed w w' \<and> (\<forall>v n. r = Inr (Some (v, n)) \<longrightarrow> kw_hist cfg c st0 w' u k n = Some v)"
    using q
  proof (cases rule: read_outcome)
    case 1
    have "undisturbed w w" unfolding undisturbed_def by (rule exI [of _ "[]"]) simp
    then show ?thesis using 1 entry by blast
  next
    case (2 path q')
    have "kw_hist cfg c st0 w' u k n = Some v" if got: "r = Inr (Some (v, n))" for v n
    proof -
      obtain e where e: "q = Inr (Some e)" "v = kn_value e" "n = kn_version e" using entry [OF got] by blast
      obtain a where a: "q' = Inr a" "fo_parse cfg (an_text a) = Some v" "parseEtagVersion (an_headers a ''etag'') = Some n"
        using 2(3) [OF e(1)] e(2,3) by auto
      show ?thesis
        using 2(2) [unfolded a(1)]
      proof (rule request_answer)
        fix evs now b
        assume events: "kw_events w' = evs @ [Asked None now (build_request (fo_origin cfg) (token u) (get_spec path))]"
          and answer: "fst (handle cfg now (build_request (fo_origin cfg) (token u) (get_spec path)) (rp_state (replay cfg c st0 evs))) = Some b"
          and b: "fs_text b = Some (an_text a)" "fs_headers b = an_headers a"
        obtain t where t: "an_headers a ''etag'' = Some t" using a(3) by (cases "an_headers a ''etag''") (auto simp: parseEtagVersion_def)
        obtain row where row: "live (now div 1000) (stored_row (rp_state (replay cfg c st0 evs)) c (u @ ascii '':'' @ k)) = Some row"
            "fs_text b = Some (rw_value row)" "t = etag (rw_version row)"
          using own_get [OF answer _ 2(1), of t u] b(2) t service state_tokens [of cfg c st0 evs] by (auto simp: new_service_def)
        have versions: "versions_ok cfg c (rp_state (replay cfg c st0 evs)) (rp_hist (replay cfg c st0 evs))"
          by (rule replay_ok [OF ok])
        have stored: "stored_row (rp_state (replay cfg c st0 evs)) c (u @ ascii '':'' @ k) = Some row" by (rule live_row [OF row(1)])
        have "1 \<le> rw_version row" "rp_hist (replay cfg c st0 evs) (u @ ascii '':'' @ k) (rw_version row) = Some (value_of cfg row)"
          using versions stored by (simp_all add: versions_ok_def)
        moreover have "n = rw_version row" using etag_reads_back [OF calculation(1), of n] a(3) t row(3) by simp
        moreover have "value_of cfg row = v" using row(2) b(1) a(2) by (simp add: value_of_def)
        ultimately have "rp_hist (replay cfg c st0 evs) (u @ ascii '':'' @ k) n = Some v" by simp
        from hist_grows [OF ok this] show ?thesis using events by (simp add: kw_hist_def)
      qed
    qed
    then show ?thesis using untagged_request [OF 2(2)] by blast
  qed
  then show "quiet (kw_log cfg c st0) (kw_hist cfg c st0) w w'"
      "r = Inr (Some (v, n)) \<Longrightarrow> kw_hist cfg c st0 w' u k n = Some v"
    using undisturbed_quiet [OF ok] by blast+
qed

lemma recorded_here: "recorded log hist u k cond v w w"
  by (simp add: recorded_def)

lemma write_law:
  fixes w w' :: "'r kv_world"
  assumes service: "new_service c token st0"
    and run: "sv_put (kv_save_env cfg c st0 token base) u k v cond ttl w = Some (r, w')"
  shows "recorded (kw_log cfg c st0) (kw_hist cfg c st0) u k cond (Some v) w w'"
proof -
  note ok = new_service_ok [OF service, of cfg]
  have "\<exists>q. kv_put (kv_client cfg c st0 token (Some (u, k, Some v)) u) c (Some selfOwner) k v (put_options cond ttl) w = Some (q, w')"
    using run by (auto simp: kv_save_env_def from_kv_def eff_defs split: option.splits sum.splits)
  then obtain q where "kv_put (kv_client cfg c st0 token (Some (u, k, Some v)) u) c (Some selfOwner) k v (put_options cond ttl) w = Some (q, w')"
    by (elim exE)
  then show ?thesis
  proof (cases rule: put_events)
    case 1
    then show ?thesis by (simp add: recorded_here)
  next
    case (2 path query headers body q')
    let ?spec = "\<lparr>rs_method = PUT, rs_path = path @ query, rs_headers = headers, rs_body = Some body\<rparr>"
    from 2(5) show ?thesis
    proof (rule request_events)
      fix others now
      let ?req = "build_request (fo_origin cfg) (token u) ?spec"
      assume "kw_events w' = kw_events w @ map untagged others \<or>
        kw_events w' = (kw_events w @ map untagged others) @ [Asked (Some (u, k, Some v)) now ?req]"
      then show ?thesis
        by (rule tagged_recorded [OF ok])
          (rule put_condition [OF 2(3)], simp_all add: request_headers)
    qed
  qed
qed

lemma delete_law:
  fixes w w' :: "'r kv_world"
  assumes service: "new_service c token st0"
    and run: "sv_delete (kv_save_env cfg c st0 token base) u k n w = Some (r, w')"
  shows "recorded (kw_log cfg c st0) (kw_hist cfg c st0) u k (IfMatch n) None w w'"
proof -
  note ok = new_service_ok [OF service, of cfg]
  have "\<exists>q. kv_delete (kv_client cfg c st0 token (Some (u, k, None)) u) c (Some selfOwner) k (Some (Some n)) IgnoreMissing w = Some (q, w')"
    using run by (auto simp: kv_save_env_def from_kv_def split: option.splits sum.splits)
  then obtain q where "kv_delete (kv_client cfg c st0 token (Some (u, k, None)) u) c (Some selfOwner) k (Some (Some n)) IgnoreMissing w = Some (q, w')"
    by (elim exE)
  then show ?thesis
  proof (cases rule: delete_events)
    case 1
    then show ?thesis by (simp add: recorded_here)
  next
    case (2 spec headers q')
    have headers: "conditionHeaders (po_ifMatch (put_options (IfMatch n) None)) (po_ifNoneMatch (put_options (IfMatch n) None)) = Inr headers"
      using 2(1) by (simp add: put_options_def)
    from 2(3) show ?thesis
    proof (rule request_events)
      fix others now
      let ?req = "build_request (fo_origin cfg) (token u) spec"
      assume "kw_events w' = kw_events w @ map untagged others \<or>
        kw_events w' = (kw_events w @ map untagged others) @ [Asked (Some (u, k, None)) now ?req]"
      then show ?thesis
        by (rule tagged_recorded [OF ok])
          (rule put_condition [OF headers], simp_all add: request_headers 2(2))
    qed
  qed
qed

definition true_config :: fake_config where
  "true_config =
     \<lparr>fo_origin = ascii ''http://kv'', fo_param = (\<lambda>_ _. None), fo_time = (\<lambda>_. []), fo_config = [], fo_verify = (\<lambda>_. []),
      fo_parse = (\<lambda>t. if t = ascii ''true'' then Some (JBool True) else None)\<rparr>"

definition quiet_base :: "'r kv_world save_env" where
  "quiet_base =
     \<lparr>sv_channelId = ascii ''ch'', sv_url = Some (ascii ''http://kv''), sv_collection = Some (ascii ''saves''),
      sv_adapter = True, sv_mergePolicies = (\<lambda>_. None), sv_maxMergeRetries = 3,
      sv_getEntry = (\<lambda>u k w. Some (Inr None, w)), sv_put = (\<lambda>u k v c t w. Some (Inr None, w)),
      sv_delete = (\<lambda>u k n w. Some (Inr (), w)), sv_incr = (\<lambda>u k d l h w. Some (Inr 0, w)),
      sv_load = (\<lambda>ns w. Some (Inr (Some []), w)), sv_store = (\<lambda>ns q w. Some (Inr (), w)),
      sv_uuid = (\<lambda>w. (ascii ''id'', w)), sv_outside = (\<lambda>w. ([], w))\<rparr>"

definition saves_service :: fake_state where
  "saves_service =
     (add_collection (ascii ''saves'') OwnerScope OwnerScope createFakeState)
       \<lparr>fk_tokens := (\<lambda>t. case t of [] \<Rightarrow> None | x # u \<Rightarrow> if x = 116 then Some u else None)\<rparr>"

text \<open>
  C8: The client of the store over the service of the tests fulfils the contract the saves rest on,
  on a network that loses requests and answers and with any other clients: a read changes nothing and
  returns a value with the version that value has had; a conditional write or deletion takes effect
  at most once, and only if the entry it replaces is the one its condition names, heard of or not.
\<close>
theorem kv_service_fulfils_save_contract:
  fixes base :: "'r kv_world save_env"
  assumes "new_service c token st0" "leaves_service base"
  shows "kv_laws (kv_save_env cfg c st0 token base) (kw_log cfg c st0) (kw_hist cfg c st0)"
proof -
  have rest: "sv_load (kv_save_env cfg c st0 token base) = sv_load base" "sv_store (kv_save_env cfg c st0 token base) = sv_store base"
      "sv_uuid (kv_save_env cfg c st0 token base) = sv_uuid base" "sv_outside (kv_save_env cfg c st0 token base) = sv_outside base"
    by (simp_all add: kv_save_env_def)
  note other = undisturbed_quiet [OF new_service_ok [OF assms(1)]]
  show ?thesis
    unfolding kv_laws_def rest
  proof (intro conjI allI impI)
    fix u k v n r and w w' :: "'r kv_world"
    assume run: "sv_getEntry (kv_save_env cfg c st0 token base) u k w = Some (r, w')"
    show "quiet (kw_log cfg c st0) (kw_hist cfg c st0) w w'" by (rule read_law(1) [OF assms(1) run])
    show "kw_hist cfg c st0 w' u k n = Some v" if "r = Inr (Some (v, n))" by (rule read_law(2) [OF assms(1) run that])
  qed (use assms(2) in \<open>simp_all add: leaves_service_def other write_law [OF assms(1)] delete_law [OF assms(1)]\<close>)
qed

lemma kv_service_fulfils_save_contract_witness:
  "kv_laws (kv_save_env true_config (ascii ''saves'') saves_service ((#) 116) (quiet_base :: unit kv_world save_env))
     (kw_log true_config (ascii ''saves'') saves_service) (kw_hist true_config (ascii ''saves'') saves_service)"
proof (rule kv_service_fulfils_save_contract)
  show "new_service (ascii ''saves'') ((#) 116) saves_service"
    by (simp add: new_service_def saves_service_def add_collection_def createFakeState_def stored_row_def known_version_def)
  have "undisturbed w w" for w :: "unit kv_world"
    unfolding undisturbed_def by (rule exI [of _ "[]"]) simp
  then show "leaves_service (quiet_base :: unit kv_world save_env)"
    by (simp add: leaves_service_def quiet_base_def)
qed

end
