(* ===== verification/Kv_Roundtrip.thy ===== *)
theory Kv_Roundtrip
  imports Kv_Save
begin

section \<open>A client and its service\<close>

text \<open>
  The client over the service with nothing in between: what a write stores is what a read returns, and
  a lost race is answered with the version that won.
\<close>

definition served :: "fake_config \<Rightarrow> int \<Rightarrow> ustring \<Rightarrow> fake_state kv_env" where
  "served cfg now tok =
     \<lparr>kx_origin = fo_origin cfg, kx_token = tok,
      kx_fetch = (\<lambda>req st. case handle cfg now req st of (None, st') \<Rightarrow> Some (Inl (), st') | (Some a, st') \<Rightarrow> Some (Inr a, st')),
      kx_parse = fo_parse cfg\<rparr>"

lemma served_fields [simp]:
  "kx_origin (served cfg now tok) = fo_origin cfg" "kx_token (served cfg now tok) = tok" "kx_parse (served cfg now tok) = fo_parse cfg"
  by (simp_all add: served_def)

lemma served_request:
  "kv_request (served cfg now tok) spec st =
    (case handle cfg now (build_request (fo_origin cfg) tok spec) st of
       (None, st') \<Rightarrow> Some (Inl network_error, st')
     | (Some r, st') \<Rightarrow>
         (case fs_text r of
            None \<Rightarrow> Some (Inl KvBodyLost, st')
          | Some t \<Rightarrow>
              (if fs_status r < 200 \<or> 300 \<le> fs_status r
               then Some (Inl (KvStoreError (kvStoreErrorFromResponse (fo_parse cfg) (fs_status r) t)), st')
               else Some (Inr \<lparr>an_status = fs_status r, an_headers = fs_headers r, an_text = t\<rparr>, st'))))"
  by (simp add: kv_request_def served_def split: prod.split option.split)

definition own_index :: "ustring \<Rightarrow> ustring \<Rightarrow> ustring" where
  "own_index u k = u @ ascii '':'' @ k"

definition owned :: "FakeCollection \<Rightarrow> bool" where
  "owned col \<longleftrightarrow> fc_readScope col = OwnerScope \<or> fc_writeScope col = OwnerScope"

text \<open>The service answers for the path of an entry, and not for one of its other routes.\<close>

definition serves :: "fake_state \<Rightarrow> ustring \<Rightarrow> bool" where
  "serves st path \<longleftrightarrow>
     fk_online st \<and> fk_refusal st = None \<and> path \<noteq> ascii ''/time'' \<and>
     \<not> ends_with (ascii ''/.well-known/config'') path \<and> \<not> ends_with (ascii ''/verify'') path"

definition logged_request :: "KvFetchRequest \<Rightarrow> ustring \<Rightarrow> fake_state \<Rightarrow> fake_state" where
  "logged_request req path st = st\<lparr>fk_requests := fk_requests st @ [(path, fr_method req, fr_body req)]\<rparr>"

text \<open>A request of a user for an entry of the own namespace.\<close>

definition own_request :: "fake_config \<Rightarrow> ustring \<Rightarrow> fake_state \<Rightarrow> ustring \<Rightarrow> ustring \<Rightarrow> ustring \<Rightarrow> ustring \<Rightarrow> RequestSpec \<Rightarrow> bool" where
  "own_request cfg tok st u c k path spec \<longleftrightarrow>
     entryPath c (Some selfOwner) k = Inr path \<and> rs_path spec = path \<and> rs_headers spec ''authorization'' = None \<and>
     tok \<noteq> [] \<and> fk_tokens st tok = Some u \<and> u \<noteq> []"

lemma find_sub_inside: "find_sub p (a @ p @ b) \<noteq> None"
proof (induction a)
  case Nil
  have "prefix p (p @ b)" by simp
  then show ?case by (cases "p @ b") simp_all
qed auto

lemma own_request_parts:
  assumes "own_request cfg tok st u c k path spec"
  shows "url_pathname (fo_origin cfg) (fr_url (build_request (fo_origin cfg) tok spec)) = path"
    "url_search (fo_origin cfg) (fr_url (build_request (fo_origin cfg) tok spec)) = []"
    "kv_route path = Some \<lparr>ro_name = c, ro_owner = Some selfOwner, ro_key = Some k\<rparr>"
    "bearer_user (logged_request req path st) (build_request (fo_origin cfg) tok spec) = Some u"
    "find_sub (ascii ''/entries'') path \<noteq> None"
proof -
  have path: "entryPath c (Some selfOwner) k = Inr path" and url: "fr_url (build_request (fo_origin cfg) tok spec) = fo_origin cfg @ path @ []"
    and tok: "rs_headers spec ''authorization'' = None" "tok \<noteq> []" "fk_tokens st tok = Some u" "u \<noteq> []"
    using assms by (simp_all add: own_request_def build_request_def Let_def)
  show "url_pathname (fo_origin cfg) (fr_url (build_request (fo_origin cfg) tok spec)) = path"
    unfolding url by (rule entry_route(1) [OF path]) simp
  show "kv_route path = Some \<lparr>ro_name = c, ro_owner = Some selfOwner, ro_key = Some k\<rparr>"
    by (rule entry_route(2) [OF path, of "[]"]) simp
  have "\<forall>x \<in> set path. x \<noteq> 63"
    using split_entry_path [OF path] plain_path [OF path] path_stops by (auto simp: list_all_iff)
  then show "url_search (fo_origin cfg) (fr_url (build_request (fo_origin cfg) tok spec)) = []"
    unfolding url url_search_def by (simp add: dropWhile_eq_Nil_conv)
  show "bearer_user (logged_request req path st) (build_request (fo_origin cfg) tok spec) = Some u"
    using bearer_request [OF tok(1,2)] tok(3,4) by (simp add: logged_request_def)
  have "path = (ascii ''/kv/'' @ c @ ascii ''/u/'' @ selfOwner) @ ascii ''/entries'' @ ascii ''/'' @ k"
    using entryPath_parts(6) [OF path] by simp
  then show "find_sub (ascii ''/entries'') path \<noteq> None" by (simp only: find_sub_inside not_False_eq_True)
qed

lemma own_answer:
  assumes "own_request cfg tok st u c k path spec" "serves st path" "fk_collections st c = Some col" "owned col"
  shows "handle cfg now (build_request (fo_origin cfg) tok spec) st =
    (let (answer, col') = entry_answer (fo_parse cfg) True False u (u @ ascii '':'') (own_index u k) (now div 1000)
        (fo_param cfg [] ''ttl'') (build_request (fo_origin cfg) tok spec) col in
     (answer, (logged_request (build_request (fo_origin cfg) tok spec) path st)\<lparr>fk_collections := (fk_collections st)(c \<mapsto> col')\<rparr>))"
proof -
  let ?req = "build_request (fo_origin cfg) tok spec"
  note parts = own_request_parts [OF assms(1)]
  obtain z where z: "find_sub (ascii ''/entries'') path = Some z" using parts(5) by blast
  have col: "collection_answer cfg now path u \<lparr>ro_name = c, ro_owner = Some selfOwner, ro_key = Some k\<rparr> ?req col =
      entry_answer (fo_parse cfg) True False u (u @ ascii '':'') (own_index u k) (now div 1000) (fo_param cfg [] ''ttl'') ?req col"
    using assms(4) parts(2) z unfolding collection_answer_def
    by (simp add: Let_def owned_def selfOwner_def row_prefix_def own_index_def del: ascii_simps)
  have "bearer_user (st\<lparr>fk_requests := fk_requests st @ [(path, fr_method ?req, fr_body ?req)]\<rparr>) ?req = Some u"
    using parts(4) by (simp only: logged_request_def)
  then show ?thesis
    using assms(2,3) parts(1,3) unfolding handle_def
    by (simp add: Let_def serves_def col logged_request_def del: ascii_simps)
qed

lemma own_success:
  assumes "own_request cfg tok st u c k path spec" "fst (handle cfg now (build_request (fo_origin cfg) tok spec) st) = Some b"
    "fs_headers b ''etag'' = Some e"
  obtains col where "serves st path" "fk_collections st c = Some col" "owned col"
proof -
  let ?req = "build_request (fo_origin cfg) tok spec"
  note parts = own_request_parts [OF assms(1)]
  have user: "bearer_user (st\<lparr>fk_requests := fk_requests st @ [(path, fr_method ?req, fr_body ?req)]\<rparr>) ?req = Some u"
    using parts(4) by (simp only: logged_request_def)
  have "serves st path \<and> (\<exists>col. fk_collections st c = Some col \<and>
      fst (collection_answer cfg now path u \<lparr>ro_name = c, ro_owner = Some selfOwner, ro_key = Some k\<rparr> ?req col) = Some b)"
    using assms(2,3) parts(1,3) user
    by (auto simp: handle_def Let_def serves_def simp del: ascii_simps split: if_splits option.splits prod.splits)
  then obtain col where "serves st path" "fk_collections st c = Some col"
      "fst (collection_answer cfg now path u \<lparr>ro_name = c, ro_owner = Some selfOwner, ro_key = Some k\<rparr> ?req col) = Some b"
    by blast
  moreover have "owned col"
    using calculation(3) assms(3) parts(5)
    by (auto simp: collection_answer_def Let_def owned_def selfOwner_def simp del: ascii_simps split: if_splits)
  ultimately show ?thesis by - (rule that)
qed

subsection \<open>What a write stores is what a read returns\<close>

definition plain_put :: "int option option \<Rightarrow> bool \<Rightarrow> KvPutOptions" where
  "plain_put ifMatch ifNoneMatch = \<lparr>po_ttl = None, po_ifMatch = ifMatch, po_ifNoneMatch = ifNoneMatch\<rparr>"

lemma served_Inr:
  assumes "kv_request (served cfg now tok) spec st = Some (Inr a, st')"
  obtains b where "handle cfg now (build_request (fo_origin cfg) tok spec) st = (Some b, st')" "an_headers a = fs_headers b"
    "fs_text b = Some (an_text a)" "200 \<le> fs_status b" "fs_status b < 300"
  using assms by (auto simp: served_request split: prod.splits option.splits if_splits)

lemma put_request:
  assumes "kv_put env c owner k v (plain_put m b) st = Some (Inr res, st')" "encodeValue v = Inr body"
  obtains path headers a where "entryPath c owner k = Inr path" "conditionHeaders m b = Inr headers"
    "kv_request env \<lparr>rs_method = PUT, rs_path = path, rs_headers = headers, rs_body = Some body\<rparr> st = Some (Inr a, st')"
    "wr_version res = parseEtagVersion (an_headers a ''etag'')"
  using assms unfolding kv_put_def
  by (auto simp: plain_put_def ttlQuery_def checkTtl_def bind_checked_def kv_checked_def eff_defs Let_def
      split: sum.splits option.splits)

lemma condition_headers: "conditionHeaders m b = Inr headers \<Longrightarrow> headers ''authorization'' = None"
  by (auto simp: conditionHeaders_def bind_checked_def split: if_splits option.splits sum.splits)

lemma put_stores:
  assumes "entry_answer parse True False u pre i time ttl req col = (Some b, col')" "fr_method req = PUT"
    "fr_body req = Some body" "fs_headers b ''etag'' = Some e"
  obtains r where "col' = set_row i r col" "rw_value r = body" "rw_expiresAt r = next_expiry ttl time (map_of (fc_rows col) i)"
    "e = etag (rw_version r)"
  using assms
  by (auto simp: entry_answer_def entry_write_def store_value_def Let_def write_answer_def conflict_def split: if_splits)

text \<open>
  C9: What a client stores it reads back: after a write without a time to live that was answered with
  a version, a read by the same user, at any later time and with nothing in between, returns the
  value \<open>JSON.parse\<close> makes of the text that was sent, with that version and without an expiry. The
  entry must not have had an expiry before.
\<close>
theorem write_is_read_back:
  assumes put: "kv_put (served cfg now tok) c (Some selfOwner) k v (plain_put m b) st = Some (Inr res, st')"
    and version: "wr_version res = Some n"
    and user: "tok \<noteq> []" "fk_tokens st tok = Some u" "u \<noteq> []"
    and no_ttl: "fo_param cfg [] ''ttl'' = None"
    and no_expiry: "\<forall>r. stored_row st c (own_index u k) = Some r \<longrightarrow> rw_expiresAt r = None"
    and body: "encodeValue v = Inr body" "fo_parse cfg body = Some v'"
  shows "\<exists>e st''. readEntry (served cfg later tok) c (Some selfOwner) k st' = Some (Inr (Some e), st'') \<and>
    kn_value e = v' \<and> kn_version e = n \<and> kn_expiresAt e = None"
  using put body(1)
proof (rule put_request)
  fix path headers a
  assume path: "entryPath c (Some selfOwner) k = Inr path" and headers: "conditionHeaders m b = Inr headers"
    and run: "kv_request (served cfg now tok) \<lparr>rs_method = PUT, rs_path = path, rs_headers = headers, rs_body = Some body\<rparr> st = Some (Inr a, st')"
    and etag: "wr_version res = parseEtagVersion (an_headers a ''etag'')"
  let ?spec = "\<lparr>rs_method = PUT, rs_path = path, rs_headers = headers, rs_body = Some body\<rparr>"
  let ?req = "build_request (fo_origin cfg) tok ?spec"
  obtain e where e: "an_headers a ''etag'' = Some e" "parseEtagVersion (Some e) = Some n"
    using etag version by (cases "an_headers a ''etag''") (auto simp: parseEtagVersion_def)
  obtain ans where ans: "handle cfg now ?req st = (Some ans, st')" "fs_headers ans ''etag'' = Some e"
    using run by (rule served_Inr) (use e(1) in simp)
  have own: "own_request cfg tok st u c k path ?spec"
    using path condition_headers [OF headers] user by (simp add: own_request_def)
  obtain col where col: "serves st path" "fk_collections st c = Some col" "owned col"
    using own_success [OF own] ans by (metis fst_conv)
  obtain col' where col': "entry_answer (fo_parse cfg) True False u (u @ ascii '':'') (own_index u k) (now div 1000) None ?req col = (Some ans, col')"
      "st' = (logged_request ?req path st)\<lparr>fk_collections := (fk_collections st)(c \<mapsto> col')\<rparr>"
    using own_answer [OF own col, of now] ans(1) no_ttl by (auto simp: Let_def split: prod.splits)
  obtain r where r: "col' = set_row (own_index u k) r col" "rw_value r = body" "rw_expiresAt r = None" "e = etag (rw_version r)"
  proof (rule put_stores [OF col'(1)])
    fix r
    assume "rw_expiresAt r = next_expiry None (now div 1000) (map_of (fc_rows col) (own_index u k))"
      "col' = set_row (own_index u k) r col" "rw_value r = body" "e = etag (rw_version r)"
    moreover have "next_expiry None (now div 1000) (map_of (fc_rows col) (own_index u k)) = None"
      using no_expiry col(2) by (auto simp: next_expiry_def stored_row_def split: option.split)
    ultimately show ?thesis using that by simp
  qed (use ans(2) in \<open>simp_all add: build_request_def Let_def\<close>)
  have own': "own_request cfg tok st' u c k path (get_spec path)"
    using path user col'(2) by (simp add: own_request_def get_spec_def logged_request_def)
  have col2: "serves st' path" "fk_collections st' c = Some col'" "owned col'"
    using col col'(2) r(1) by (simp_all add: serves_def logged_request_def owned_def set_row_def)
  have "live (later div 1000) (map_of (fc_rows col') (own_index u k)) = Some r"
    using r(1,3) by (simp add: set_row_def update_conv' live_def)
  then have get: "fst (handle cfg later (build_request (fo_origin cfg) tok (get_spec path)) st') = Some (get_answer True (Some r))"
    using own_answer [OF own' col2, of later]
    by (simp add: entry_answer_def Let_def build_request_def get_spec_def)
  show ?thesis
    using path get e(2) r body(2)
    by (cases "handle cfg later (build_request (fo_origin cfg) tok (get_spec path)) st'")
      (simp add: readEntry_def kv_checked_def eff_defs served_request get_answer_def fakeResponse_def entry_of_def parseJson_def
        parseExpiresAt_def)
qed

lemma write_is_read_back_witness:
  "\<exists>res st'. kv_put (served true_config 5000 (ascii ''tu'')) (ascii ''saves'') (Some selfOwner) (ascii ''slot:1'') (JBool True)
      (plain_put None True) saves_service = Some (Inr res, st') \<and>
    (\<exists>e st''. readEntry (served true_config 9000 (ascii ''tu'')) (ascii ''saves'') (Some selfOwner) (ascii ''slot:1'') st' =
      Some (Inr (Some e), st'') \<and> kn_value e = JBool True \<and> kn_version e = 1 \<and> kn_expiresAt e = None)"
proof -
  let ?put = "kv_put (served true_config 5000 (ascii ''tu'')) (ascii ''saves'') (Some selfOwner) (ascii ''slot:1'') (JBool True)
      (plain_put None True) saves_service"
  let ?col = "\<lparr>fc_readScope = OwnerScope, fc_writeScope = OwnerScope, fc_versions = Map.empty, fc_rows = []\<rparr>"
  let ?path = "ascii ''/kv/saves/u/me/entries/slot:1''"
  let ?spec = "\<lparr>rs_method = PUT, rs_path = ?path, rs_headers = [''if-none-match'' \<mapsto> ascii ''*''], rs_body = Some (ascii ''true'')\<rparr>"
  have path: "entryPath (ascii ''saves'') (Some selfOwner) (ascii ''slot:1'') = Inr ?path" by code_simp
  have own: "own_request true_config (ascii ''tu'') saves_service (ascii ''u'') (ascii ''saves'') (ascii ''slot:1'') ?path ?spec"
    by (simp add: own_request_def path) code_simp
  have serves: "serves saves_service ?path" by code_simp
  have col: "fk_collections saves_service (ascii ''saves'') = Some ?col"
    by (simp add: saves_service_def add_collection_def createFakeState_def)
  have size: "byteLength (ascii ''true'') = 4" "parseEtagVersion (Some (etag 1)) = Some 1" by code_simp+
  have body: "encodeValue (JBool True) = Inr (ascii ''true'')" by code_simp
  have "owned ?col" by (simp add: owned_def)
  from own_answer [OF own serves col this, of 5000]
  have "\<exists>res st'. ?put = Some (Inr res, st') \<and> wr_version res = Some 1"
    using path body size
    by (simp add: kv_put_def kv_checked_def eff_defs served_request plain_put_def ttlQuery_def checkTtl_def bind_checked_def
        conditionHeaders_def entry_answer_def entry_write_def store_value_def Let_def build_request_def write_answer_def
        fakeResponse_def next_version_def maxStored_def live_def condition_fails_def true_config_def del: ascii_simps)
  then obtain res st' where put: "?put = Some (Inr res, st')" "wr_version res = Some 1" by blast
  have "fk_tokens saves_service (ascii ''tu'') = Some (ascii ''u'')" "encodeValue (JBool True) = Inr (ascii ''true'')"
    by code_simp+
  moreover have "stored_row saves_service (ascii ''saves'') i = None" for i
    by (simp add: saves_service_def add_collection_def createFakeState_def stored_row_def)
  ultimately show ?thesis
    using put(1) write_is_read_back [OF put, of "ascii ''u''" "ascii ''true''" "JBool True"] by (simp add: true_config_def)
qed

subsection \<open>A lost race\<close>

definition conflict_body :: "fake_row option \<Rightarrow> json" where
  "conflict_body row =
     JObj [(ascii ''error'', JObj [(ascii ''code'', JStr (ascii ''conflict'')),
       (ascii ''details'', JObj [(ascii ''current'', case row of None \<Rightarrow> JNull | Some r \<Rightarrow> JNum (show_int (rw_version r)))])])]"

lemma conflict_parts:
  "conflict row = \<lparr>fs_status = 409, fs_headers = Map.empty, fs_text = Some (json_text (conflict_body row))\<rparr>"
  by (simp add: conflict_def conflict_body_def fake_fail_def fakeResponse_def)

lemma unmet_condition:
  assumes "conditionHeaders (po_ifMatch (put_options cond None)) (po_ifNoneMatch (put_options cond None)) = Inr headers"
    and "\<not> condition_met cond (entry_view cfg row)" "\<forall>r. row = Some r \<longrightarrow> 1 \<le> rw_version r"
    and "fr_headers req ''if-match'' = headers ''if-match''" "fr_headers req ''if-none-match'' = headers ''if-none-match''"
  shows "condition_fails req row"
proof (cases cond)
  case IfNoneMatch
  then have "headers = [''if-none-match'' \<mapsto> ascii ''*'']" using assms(1) by (simp add: put_options_def conditionHeaders_def)
  then show ?thesis
    using assms(2,5) IfNoneMatch by (cases row) (simp_all add: condition_fails_def condition_met_def entry_view_def replaced_version_def)
next
  case (IfMatch n)
  then have n: "1 \<le> n" "headers = [''if-match'' \<mapsto> 34 # show_int n @ [34]]"
    using assms(1) by (auto simp: put_options_def conditionHeaders_def checkVersion_def bind_checked_def split: if_splits)
  then show ?thesis
    using assms(2-4) IfMatch show_int_inj [of n]
    by (cases row) (auto simp: condition_fails_def condition_met_def entry_view_def replaced_version_def etag_def)
qed

text \<open>
  C10: A conditional write that comes too late fails with the error that says so: whatever the entry is
  by then, the service answers 409, the client throws a \<open>KvStoreError\<close> that \<open>isKvConflict\<close> recognises,
  with the version that won, \<open>null\<close> when the entry is gone, and nothing of the collections changed.
\<close>
theorem lost_race_reports_the_live_version:
  assumes path: "entryPath c (Some selfOwner) k = Inr path" and user: "tok \<noteq> []" "fk_tokens st tok = Some u" "u \<noteq> []"
    and service: "serves st path" "fk_collections st c = Some col" "owned col"
    and request: "encodeValue v = Inr body"
      "conditionHeaders (po_ifMatch (put_options cond None)) (po_ifNoneMatch (put_options cond None)) = Inr headers"
    and row: "row = live (now div 1000) (map_of (fc_rows col) (own_index u k))" "\<forall>r. row = Some r \<longrightarrow> 1 \<le> rw_version r"
    and late: "\<not> condition_met cond (entry_view cfg row)"
    and parse: "fo_parse cfg (json_text (conflict_body row)) = Some (conflict_body row)"
  shows "\<exists>e st'. kv_put (served cfg now tok) c (Some selfOwner) k v (put_options cond None) st = Some (Inl (KvStoreError e), st') \<and>
    kv_isConflict (KvStoreError e) \<and>
    ke_currentVersion e = Some (case row of None \<Rightarrow> JNull | Some r \<Rightarrow> JNum (show_int (rw_version r))) \<and>
    fk_collections st' = fk_collections st"
proof -
  let ?spec = "\<lparr>rs_method = PUT, rs_path = path, rs_headers = headers, rs_body = Some body\<rparr>"
  let ?req = "build_request (fo_origin cfg) tok ?spec"
  have own: "own_request cfg tok st u c k path ?spec"
    using path condition_headers [OF request(2)] user by (simp add: own_request_def)
  have "condition_fails ?req row"
    by (rule unmet_condition [OF request(2) late row(2)]) (simp_all add: request_headers)
  then have "entry_answer (fo_parse cfg) True False u (u @ ascii '':'') (own_index u k) (now div 1000) ttl ?req col = (Some (conflict row), col)"
    for ttl
    using row(1) by (simp add: entry_answer_def Let_def build_request_def)
  then have answer: "handle cfg now ?req st =
      (Some (conflict row), (logged_request ?req path st)\<lparr>fk_collections := (fk_collections st)(c \<mapsto> col)\<rparr>)"
    using own_answer [OF own service, of now] by simp
  have same: "(fk_collections st)(c \<mapsto> col) = fk_collections st" using service(2) by auto
  have ttl: "ttlQuery (po_ttl (put_options cond None)) = Inr []"
    by (simp add: put_options_def ttlQuery_def checkTtl_def bind_checked_def)
  have keys: "ascii ''code'' \<noteq> ascii ''details''" "ascii ''current'' \<noteq> ascii ''reason''" by simp_all
  show ?thesis
    using path request ttl answer parse same
    by (simp add: kv_put_def kv_checked_def eff_defs served_request conflict_parts kvStoreErrorFromResponse_def Let_def
        kv_isConflict_def has_status_def)
      (simp add: conflict_body_def prop_of_def text_of_def split: option.split)
qed

lemma lost_race_reports_the_live_version_witness:
  "\<exists>cfg st' e. kv_put (served cfg 5000 (ascii ''tu'')) (ascii ''saves'') (Some selfOwner) (ascii ''slot'') (JBool True)
      (put_options (IfMatch 3) None) saves_service = Some (Inl (KvStoreError e), st') \<and>
    kv_isConflict (KvStoreError e) \<and> ke_currentVersion e = Some JNull \<and> fk_collections st' = fk_collections saves_service"
proof -
  let ?col = "\<lparr>fc_readScope = OwnerScope, fc_writeScope = OwnerScope, fc_versions = Map.empty, fc_rows = []\<rparr>"
  let ?cfg = "true_config\<lparr>fo_parse := (\<lambda>t. Some (conflict_body None))\<rparr>"
  have path: "entryPath (ascii ''saves'') (Some selfOwner) (ascii ''slot'') = Inr (ascii ''/kv/saves/u/me/entries/slot'')" by code_simp
  have user: "fk_tokens saves_service (ascii ''tu'') = Some (ascii ''u'')" by code_simp
  have serves: "serves saves_service (ascii ''/kv/saves/u/me/entries/slot'')" by code_simp
  have body: "encodeValue (JBool True) = Inr (ascii ''true'')" by code_simp
  have col: "fk_collections saves_service (ascii ''saves'') = Some ?col"
    by (simp add: saves_service_def add_collection_def createFakeState_def)
  have headers: "conditionHeaders (po_ifMatch (put_options (IfMatch 3) None)) (po_ifNoneMatch (put_options (IfMatch 3) None)) =
      Inr [''if-match'' \<mapsto> 34 # show_int 3 @ [34]]"
    by (simp add: put_options_def conditionHeaders_def checkVersion_def bind_checked_def isSafe_def)
  have "owned ?col" by (simp add: owned_def)
  from lost_race_reports_the_live_version [OF path _ user _ serves col this body headers, of None 5000 ?cfg]
  show ?thesis by (auto simp: live_def condition_met_def entry_view_def replaced_version_def)
qed

end
