(* ===== verification/Game_Match.thy ===== *)
theory Game_Match
  imports Game_Kit
begin

section \<open>Deferred matchmaking (game-kit: matchmaking.ts)\<close>

text \<open>
  The ticket of a player: submitting, polling, accepting, declining and cancelling, as a state machine.
  A call becomes a task with a number; a step is a call, the answer of the service to a task, the end of
  a pause, the poll timer, or something that happens to the runtime. What follows an \<open>await\<close> without
  another one belongs to the same step. An observer of \<open>stateChanged\<close> does not call back, and times are
  integral milliseconds. The pauses of \<open>waiters\<close> are the tasks that are paused, so a pause of no time
  counts as one.
\<close>

subsection \<open>The state\<close>

datatype match_mode = DeferredMode | LiveMode

datatype ticket_state = TicketWaiting | TicketProposed | TicketConfirmed | TicketDeclined | TicketExpired | TicketFailed

text \<open>A ticket with the text \<open>JSON.stringify\<close> makes of it.\<close>

record MatchTicket =
  mt_state :: ticket_state
  mt_text :: ustring

datatype match_action = Submit | Accept | Decline

datatype match_request = AskStatus | AskAction match_action | AskDelete

text \<open>
  What a task does: read the ticket, perform an action, cancel; or continue when a reading it shares
  settles, a call of \<open>status\<close> or the poll in the background.
\<close>

datatype task_kind =
  Reading bool
| Performing match_action
| Cancelling
| StatusCall
| Polling

datatype task_at = PausedUntil int | Requested | Joining nat

record match_task =
  tk_kind :: task_kind
  tk_epoch :: nat
  tk_generation :: nat
  tk_delay :: int
  tk_at :: task_at

record match_config =
  mc_mode :: "match_mode option"
  mc_interval :: int

record match_state =
  mm_runtime :: Runtime
  mm_now :: int
  mm_epoch :: nat
  mm_active :: bool
  mm_timer :: "int option"
  mm_lastRead :: "int option"
  mm_nextDelay :: int
  mm_lastTicket :: ustring
  mm_reading :: "(nat \<times> nat) option"
  mm_tasks :: "nat \<Rightarrow> match_task option"
  mm_count :: nat
  mm_results :: "(nat \<times> (thrown + MatchTicket option)) list"
  mm_events :: "(nat \<times> MatchTicket) list"
  mm_requests :: "(nat \<times> nat \<times> match_request \<times> int) list"

text \<open>
  \<open>mm_results\<close> lists the settled calls, \<open>mm_events\<close> what observers of \<open>stateChanged\<close> got, with the
  epoch, and \<open>mm_requests\<close> the requests sent, with their task, epoch and time.
\<close>

definition createMatchmaking :: "match_config \<Rightarrow> Runtime \<Rightarrow> int \<Rightarrow> thrown + match_state" where
  "createMatchmaking cfg rt now =
     (if mc_interval cfg < 1000 then Inl RangeError
      else Inr \<lparr>mm_runtime = rt, mm_now = now, mm_epoch = 0, mm_active = False, mm_timer = None, mm_lastRead = None,
        mm_nextDelay = mc_interval cfg, mm_lastTicket = [], mm_reading = None, mm_tasks = Map.empty, mm_count = 0,
        mm_results = [], mm_events = [], mm_requests = []\<rparr>)"

definition match_error :: "KitErrorCode \<Rightarrow> thrown" where
  "match_error c = KitError ''matchmaking'' c"

definition match_valid :: "match_task \<Rightarrow> match_state \<Rightarrow> bool" where
  "match_valid t s \<longleftrightarrow>
     tk_epoch t = mm_epoch s \<and> tk_generation t = rt_generation (mm_runtime s) \<and> \<not> rt_disposed (mm_runtime s)"

subsection \<open>Settling a task\<close>

text \<open>The end of \<open>runtime.run\<close>: its result, and whether it signs out.\<close>

definition run_result :: "Runtime \<Rightarrow> nat \<Rightarrow> thrown + 'a \<Rightarrow> thrown + 'a" where
  "run_result rt generation r =
     (if rt_generation rt \<noteq> generation then Inl (match_error SignedOut)
      else case r of
        Inr a \<Rightarrow> Inr a
      | Inl e \<Rightarrow> Inl (if e = RangeError \<or> e = TypeError then e else mapError ''matchmaking'' e))"

definition run_signs_out :: "Runtime \<Rightarrow> nat \<Rightarrow> thrown + 'a \<Rightarrow> bool" where
  "run_signs_out rt generation r \<longleftrightarrow>
     rt_generation rt = generation \<and>
     (case r of
        Inr a \<Rightarrow> False
      | Inl e \<Rightarrow> e \<noteq> RangeError \<and> e \<noteq> TypeError \<and> code_of (mapError ''matchmaking'' e) = Some SignedOut)"

definition leave_task :: "nat \<Rightarrow> thrown + MatchTicket option \<Rightarrow> match_state \<Rightarrow> match_state" where
  "leave_task i r s = s\<lparr>mm_tasks := (mm_tasks s)(i := None), mm_results := mm_results s @ [(i, r)]\<rparr>"

text \<open>
  \<open>stop\<close>: the pauses reject, each through the \<open>runtime.run\<close> of its task; so does what joined a reading
  that was paused.
\<close>

definition paused :: "match_task \<Rightarrow> bool" where
  "paused t \<longleftrightarrow> (case tk_at t of PausedUntil d \<Rightarrow> True | _ \<Rightarrow> False)"

definition cut_off :: "match_state \<Rightarrow> nat \<Rightarrow> bool" where
  "cut_off s i \<longleftrightarrow>
     (case mm_tasks s i of
        None \<Rightarrow> False
      | Some t \<Rightarrow>
          paused t \<or>
          (case tk_at t of
             Joining j \<Rightarrow> (case mm_tasks s j of None \<Rightarrow> False | Some u \<Rightarrow> paused u)
           | _ \<Rightarrow> False))"

definition cut_result :: "match_state \<Rightarrow> nat \<Rightarrow> thrown + MatchTicket option" where
  "cut_result s i =
     (case mm_tasks s i of
        None \<Rightarrow> Inl (match_error Cancelled)
      | Some t \<Rightarrow> run_result (mm_runtime s) (tk_generation t) (Inl (match_error Cancelled)))"

definition match_stop :: "match_config \<Rightarrow> match_state \<Rightarrow> match_state" where
  "match_stop cfg s =
     s\<lparr>mm_epoch := Suc (mm_epoch s), mm_active := False, mm_timer := None, mm_reading := None, mm_lastTicket := [],
       mm_lastRead := None, mm_nextDelay := mc_interval cfg,
       mm_tasks := (\<lambda>i. if cut_off s i then None else mm_tasks s i),
       mm_results := mm_results s @ map (\<lambda>i. (i, cut_result s i)) (filter (cut_off s) [0..<mm_count s])\<rparr>"

definition session_stop :: "match_config \<Rightarrow> match_state \<Rightarrow> match_state" where
  "session_stop cfg s = match_stop cfg (s\<lparr>mm_runtime := rt_stop (mm_runtime s)\<rparr>)"

definition run_end :: "match_config \<Rightarrow> nat \<Rightarrow> thrown + MatchTicket option \<Rightarrow> match_state \<Rightarrow> match_state" where
  "run_end cfg i r s =
     (case mm_tasks s i of
        None \<Rightarrow> s
      | Some t \<Rightarrow>
          leave_task i (run_result (mm_runtime s) (tk_generation t) r)
            (if run_signs_out (mm_runtime s) (tk_generation t) r then session_stop cfg s else s))"

subsection \<open>The poll timer and readings\<close>

definition match_arm :: "int \<Rightarrow> match_state \<Rightarrow> match_state" where
  "match_arm delay s =
     s\<lparr>mm_timer :=
       (if mm_active s \<and> rt_foreground (mm_runtime s) \<and> rt_identity (mm_runtime s) \<noteq> None \<and> \<not> rt_disposed (mm_runtime s)
        then Some (mm_now s + delay) else None)\<rparr>"

definition publish :: "match_config \<Rightarrow> MatchTicket option \<Rightarrow> match_state \<Rightarrow> match_state" where
  "publish cfg ticket s =
     (let s1 = s\<lparr>mm_active := (case ticket of None \<Rightarrow> False | Some t \<Rightarrow> mt_state t \<in> {TicketWaiting, TicketProposed})\<rparr>;
          s2 = (case ticket of
              None \<Rightarrow> s1
            | Some t \<Rightarrow>
                (if mt_text t = mm_lastTicket s1 then s1
                 else s1\<lparr>mm_lastTicket := mt_text t, mm_events := mm_events s1 @ [(mm_epoch s1, t)]\<rparr>)) in
      match_arm (mc_interval cfg) s2)"

definition poll_failed :: "match_state \<Rightarrow> match_state" where
  "poll_failed s = (match_arm (mm_nextDelay s) s)\<lparr>mm_nextDelay := min 30000 (mm_nextDelay s * 2)\<rparr>"

text \<open>What the joined calls of a reading do with its result.\<close>

definition poll_done :: "match_config \<Rightarrow> nat \<Rightarrow> match_task \<Rightarrow> thrown + MatchTicket option \<Rightarrow> match_state \<Rightarrow> match_state" where
  "poll_done cfg i t r s =
     (let s1 = leave_task i r s in
      if \<not> match_valid t s then s1
      else
        case r of
          Inr a \<Rightarrow> match_arm (mc_interval cfg) (s1\<lparr>mm_nextDelay := mc_interval cfg\<rparr>)
        | Inl e \<Rightarrow> poll_failed s1)"

definition join_done :: "match_config \<Rightarrow> thrown + MatchTicket option \<Rightarrow> nat \<Rightarrow> match_state \<Rightarrow> match_state" where
  "join_done cfg r i s =
     (case mm_tasks s i of
        None \<Rightarrow> s
      | Some t \<Rightarrow>
          (case tk_kind t of
             Polling \<Rightarrow> poll_done cfg i t r s
           | StatusCall \<Rightarrow> leave_task i r s
           | Performing act \<Rightarrow> run_end cfg i (case r of Inr None \<Rightarrow> Inl (match_error ProposalClosed) | _ \<Rightarrow> r) s
           | _ \<Rightarrow> s))"

definition joined :: "match_state \<Rightarrow> nat \<Rightarrow> nat list" where
  "joined s j = filter (\<lambda>i. case mm_tasks s i of None \<Rightarrow> False | Some t \<Rightarrow> tk_at t = Joining j) [0..<mm_count s]"

definition clear_reading :: "nat \<Rightarrow> match_state \<Rightarrow> match_state" where
  "clear_reading j s = s\<lparr>mm_reading := (if map_option snd (mm_reading s) = Some j then None else mm_reading s)\<rparr>"

definition read_end :: "match_config \<Rightarrow> nat \<Rightarrow> match_task \<Rightarrow> thrown + MatchTicket option \<Rightarrow> match_state \<Rightarrow> match_state" where
  "read_end cfg j t r s =
     (let r' = run_result (mm_runtime s) (tk_generation t) r;
          s1 = (if run_signs_out (mm_runtime s) (tk_generation t) r then session_stop cfg s else s);
          s2 = clear_reading j (leave_task j r' s1) in
      fold (join_done cfg r') (joined s2 j) s2)"

definition send_request :: "nat \<Rightarrow> match_task \<Rightarrow> match_request \<Rightarrow> match_state \<Rightarrow> match_state" where
  "send_request i t q s =
     s\<lparr>mm_tasks := (mm_tasks s)(i \<mapsto> t\<lparr>tk_at := Requested\<rparr>), mm_requests := mm_requests s @ [(i, tk_epoch t, q, mm_now s)]\<rparr>"

definition read_go :: "match_config \<Rightarrow> nat \<Rightarrow> match_task \<Rightarrow> bool \<Rightarrow> match_state \<Rightarrow> match_state" where
  "read_go cfg j t automatic s =
     (if \<not> match_valid t s \<or> (automatic \<and> \<not> rt_foreground (mm_runtime s)) then read_end cfg j t (Inl (match_error Cancelled)) s
      else send_request j t AskStatus (s\<lparr>mm_lastRead := Some (mm_now s)\<rparr>))"

definition add_task :: "match_task \<Rightarrow> match_state \<Rightarrow> match_state" where
  "add_task t s = s\<lparr>mm_tasks := (mm_tasks s)(mm_count s \<mapsto> t), mm_count := Suc (mm_count s)\<rparr>"

definition new_task :: "match_config \<Rightarrow> task_kind \<Rightarrow> task_at \<Rightarrow> match_state \<Rightarrow> match_task" where
  "new_task cfg kind at s =
     \<lparr>tk_kind = kind, tk_epoch = mm_epoch s, tk_generation = rt_generation (mm_runtime s), tk_delay = mc_interval cfg, tk_at = at\<rparr>"

definition check_deferred :: "match_config \<Rightarrow> match_state \<Rightarrow> thrown option" where
  "check_deferred cfg s =
     (case mc_mode cfg of
        None \<Rightarrow> Some (match_error NotConfigured)
      | Some mode \<Rightarrow>
          (if mode \<noteq> DeferredMode then Some (match_error InvalidState)
           else if rt_identity (mm_runtime s) = None \<or> rt_disposed (mm_runtime s) then Some (match_error SignedOut)
           else None))"

text \<open>\<open>read\<close>: the reading to join, which is the one of the epoch or a new one.\<close>

definition start_read :: "match_config \<Rightarrow> bool \<Rightarrow> match_state \<Rightarrow> (thrown + nat) \<times> match_state" where
  "start_read cfg automatic s =
     (if mc_mode cfg = None then (Inl (match_error NotConfigured), s)
      else
        case (case mm_reading s of Some (e, j) \<Rightarrow> if e = mm_epoch s then Some j else None | None \<Rightarrow> None) of
          Some j \<Rightarrow> (Inr j, s)
        | None \<Rightarrow>
            (case check_deferred cfg s of
               Some err \<Rightarrow> (Inl err, s)
             | None \<Rightarrow>
                 (let ms = (case mm_lastRead s of None \<Rightarrow> 0 | Some t \<Rightarrow> max 0 (1000 - (mm_now s - t)));
                      j = mm_count s;
                      s1 = add_task (new_task cfg (Reading automatic) (PausedUntil (mm_now s + ms)) s) s in
                  (Inr j, s1\<lparr>mm_reading := Some (mm_epoch s, j)\<rparr>))))"

definition poll_read :: "match_config \<Rightarrow> match_state \<Rightarrow> match_state" where
  "poll_read cfg s =
     (case start_read cfg True s of
        (Inr j, s1) \<Rightarrow> add_task (new_task cfg Polling (Joining j) s) s1
      | (Inl e, s1) \<Rightarrow> poll_failed s1)"

definition match_wake :: "match_config \<Rightarrow> bool \<Rightarrow> match_state \<Rightarrow> match_state" where
  "match_wake cfg discover s =
     (let s1 = s\<lparr>mm_timer := None\<rparr> in
      if mc_mode cfg \<noteq> Some DeferredMode \<or> \<not> rt_foreground (mm_runtime s) \<or> rt_identity (mm_runtime s) = None \<or>
         rt_disposed (mm_runtime s) then s1
      else
        (let s2 = (if discover then s1\<lparr>mm_active := True\<rparr> else s1) in
         if \<not> mm_active s2 then s2 else poll_read cfg s2))"

subsection \<open>The calls\<close>

text \<open>A call that fails at once has a number of its own, too.\<close>

definition refuse_call :: "thrown \<Rightarrow> match_state \<Rightarrow> match_state" where
  "refuse_call e s = s\<lparr>mm_count := Suc (mm_count s), mm_results := mm_results s @ [(mm_count s, Inl e)]\<rparr>"

definition start_request :: "match_config \<Rightarrow> task_kind \<Rightarrow> match_request \<Rightarrow> match_state \<Rightarrow> match_state" where
  "start_request cfg kind q s =
     (let t = new_task cfg kind Requested s in send_request (mm_count s) t q (add_task t s))"

definition perform :: "match_config \<Rightarrow> match_action \<Rightarrow> match_state \<Rightarrow> match_state" where
  "perform cfg a s =
     (case check_deferred cfg s of
        Some e \<Rightarrow> refuse_call e s
      | None \<Rightarrow> start_request cfg (Performing a) (AskAction a) s)"

definition submit_call :: "match_config \<Rightarrow> match_state \<Rightarrow> match_state" where
  "submit_call cfg s =
     (if mc_mode cfg = None then refuse_call (match_error NotConfigured) s else perform cfg Submit (match_stop cfg s))"

definition status_call :: "match_config \<Rightarrow> match_state \<Rightarrow> match_state" where
  "status_call cfg s =
     (case start_read cfg False s of
        (Inl e, s1) \<Rightarrow> refuse_call e s1
      | (Inr j, s1) \<Rightarrow> add_task (new_task cfg StatusCall (Joining j) s) s1)"

definition cancel_call :: "match_config \<Rightarrow> match_state \<Rightarrow> match_state" where
  "cancel_call cfg s =
     (case mc_mode cfg of
        None \<Rightarrow> refuse_call (match_error NotConfigured) s
      | Some LiveMode \<Rightarrow>
          (let s1 = match_stop cfg s in s1\<lparr>mm_count := Suc (mm_count s1), mm_results := mm_results s1 @ [(mm_count s1, Inr None)]\<rparr>)
      | Some DeferredMode \<Rightarrow>
          (case check_deferred cfg s of
             Some e \<Rightarrow> refuse_call e s
           | None \<Rightarrow> start_request cfg Cancelling AskDelete (match_stop cfg s)))"

subsection \<open>The answers of the service\<close>

text \<open>\<open>retryAfterMs\<close> goes with the error.\<close>

datatype match_answer = Answered "MatchTicket option" | Failed thrown "int option"

definition reason_of :: "thrown \<Rightarrow> string option" where
  "reason_of e = (case e of ServiceError se \<Rightarrow> se_reason se | _ \<Rightarrow> None)"

definition status_of :: "thrown \<Rightarrow> int option" where
  "status_of e = (case e of ServiceError se \<Rightarrow> se_status se | _ \<Rightarrow> None)"

definition ticket_moved :: "thrown \<Rightarrow> bool" where
  "ticket_moved e \<longleftrightarrow>
     reason_of e \<in> {Some ''proposed'', Some ''proposal_closed'', Some ''not_proposed'', Some ''confirmed''}"

definition busy :: "thrown \<Rightarrow> bool" where
  "busy e \<longleftrightarrow> status_of e \<in> {Some 429, Some 503}"

definition perform_retry :: "thrown \<Rightarrow> int option \<Rightarrow> int \<Rightarrow> int option" where
  "perform_retry e after delay =
     (if reason_of e = Some ''cooldown'' then after
      else if reason_of e = Some ''confirming'' then Some 1500
      else if busy e then Some delay else None)"

definition cancel_retry :: "thrown \<Rightarrow> int \<Rightarrow> int option" where
  "cancel_retry e delay =
     (if reason_of e = Some ''confirming'' then Some 1500 else if busy e then Some delay else None)"

definition pause_task :: "nat \<Rightarrow> match_task \<Rightarrow> int \<Rightarrow> match_state \<Rightarrow> match_state" where
  "pause_task i t ms s = s\<lparr>mm_tasks := (mm_tasks s)(i \<mapsto> t\<lparr>tk_at := PausedUntil (mm_now s + ms)\<rparr>)\<rparr>"

definition perform_answer :: "match_config \<Rightarrow> nat \<Rightarrow> match_task \<Rightarrow> match_answer \<Rightarrow> match_state \<Rightarrow> match_state" where
  "perform_answer cfg i t a s =
     (if \<not> match_valid t s then run_end cfg i (Inl (match_error Cancelled)) s
      else
        case a of
          Answered ticket \<Rightarrow> run_end cfg i (Inr ticket) (match_arm (mc_interval cfg) (publish cfg ticket s))
        | Failed e after \<Rightarrow>
            (if ticket_moved e then
               (case start_read cfg False s of
                  (Inl err, s1) \<Rightarrow> run_end cfg i (Inl err) s1
                | (Inr j, s1) \<Rightarrow> s1\<lparr>mm_tasks := (mm_tasks s1)(i \<mapsto> t\<lparr>tk_at := Joining j\<rparr>)\<rparr>)
             else
               case perform_retry e after (tk_delay t) of
                 Some ms \<Rightarrow> pause_task i t (max 1000 ms) s
               | None \<Rightarrow> run_end cfg i (Inl e) s))"

definition cancel_answer :: "match_config \<Rightarrow> nat \<Rightarrow> match_task \<Rightarrow> match_answer \<Rightarrow> match_state \<Rightarrow> match_state" where
  "cancel_answer cfg i t a s =
     (case a of
        Answered ticket \<Rightarrow> run_end cfg i (Inr None) s
      | Failed e after \<Rightarrow>
          (if \<not> match_valid t s then run_end cfg i (Inl (match_error Cancelled)) s
           else
             case cancel_retry e (tk_delay t) of
               Some ms \<Rightarrow> pause_task i t ms s
             | None \<Rightarrow> run_end cfg i (Inl e) s))"

text \<open>An automatic reading does not publish what it reads in the background.\<close>

definition read_answer :: "match_config \<Rightarrow> nat \<Rightarrow> match_task \<Rightarrow> bool \<Rightarrow> match_answer \<Rightarrow> match_state \<Rightarrow> match_state" where
  "read_answer cfg j t automatic a s =
     (case a of
        Failed e after \<Rightarrow> read_end cfg j t (Inl e) s
      | Answered ticket \<Rightarrow>
          (if automatic \<and> \<not> rt_foreground (mm_runtime s) then read_end cfg j t (Inr ticket) s
           else if \<not> match_valid t s then read_end cfg j t (Inl (match_error Cancelled)) s
           else read_end cfg j t (Inr ticket) (publish cfg ticket s)))"

definition match_answer_step :: "match_config \<Rightarrow> nat \<Rightarrow> match_answer \<Rightarrow> match_state \<Rightarrow> match_state" where
  "match_answer_step cfg i a s =
     (case mm_tasks s i of
        None \<Rightarrow> s
      | Some t \<Rightarrow>
          (if tk_at t \<noteq> Requested then s
           else
             case tk_kind t of
               Reading automatic \<Rightarrow> read_answer cfg i t automatic a s
             | Performing act \<Rightarrow> perform_answer cfg i t a s
             | Cancelling \<Rightarrow> cancel_answer cfg i t a s
             | _ \<Rightarrow> s))"

text \<open>A pause is over: on with the loop, the delay doubled.\<close>

definition pause_over :: "match_config \<Rightarrow> nat \<Rightarrow> match_state \<Rightarrow> match_state" where
  "pause_over cfg i s =
     (case mm_tasks s i of
        None \<Rightarrow> s
      | Some t \<Rightarrow>
          (case tk_at t of
             PausedUntil due \<Rightarrow>
               (if mm_now s < due then s
                else
                  case tk_kind t of
                    Reading automatic \<Rightarrow> read_go cfg i t automatic s
                  | Performing act \<Rightarrow>
                      (if \<not> match_valid t s then run_end cfg i (Inl (match_error Cancelled)) s
                       else send_request i (t\<lparr>tk_delay := min 30000 (tk_delay t * 2)\<rparr>) (AskAction act) s)
                  | Cancelling \<Rightarrow>
                      (if \<not> match_valid t s then run_end cfg i (Inl (match_error Cancelled)) s
                       else send_request i (t\<lparr>tk_delay := min 30000 (tk_delay t * 2)\<rparr>) AskDelete s)
                  | _ \<Rightarrow> s)
           | _ \<Rightarrow> s))"

subsection \<open>Steps\<close>

datatype match_step =
  SubmitCall | StatusAsked | CancelCall | ActionCall match_action
| WakeCall
| ServiceAnswers nat match_answer
| PauseOver nat
| TimerFires
| ForegroundSet bool
| SignedOutNow
| IdentityChanges ustring
| KitDisposed
| TimePasses nat

definition match_step :: "match_config \<Rightarrow> match_step \<Rightarrow> match_state \<Rightarrow> match_state" where
  "match_step cfg st s =
     (case st of
        SubmitCall \<Rightarrow> submit_call cfg s
      | StatusAsked \<Rightarrow> status_call cfg s
      | CancelCall \<Rightarrow> cancel_call cfg s
      | ActionCall a \<Rightarrow> perform cfg a s
      | WakeCall \<Rightarrow> match_wake cfg True s
      | ServiceAnswers i a \<Rightarrow> match_answer_step cfg i a s
      | PauseOver i \<Rightarrow> pause_over cfg i s
      | TimerFires \<Rightarrow>
          (case mm_timer s of
             None \<Rightarrow> s
           | Some due \<Rightarrow> if mm_now s < due then s else match_wake cfg False s)
      | ForegroundSet b \<Rightarrow>
          (if rt_disposed (mm_runtime s) \<or> rt_foreground (mm_runtime s) = b then s
           else
             (let s1 = s\<lparr>mm_runtime := (mm_runtime s)\<lparr>rt_foreground := b\<rparr>, mm_timer := None\<rparr> in
              if b then match_wake cfg True s1 else s1))
      | SignedOutNow \<Rightarrow>
          (if rt_identity (mm_runtime s) = None then s\<lparr>mm_runtime := rt_change (mm_runtime s)\<rparr> else session_stop cfg s)
      | IdentityChanges u \<Rightarrow>
          (if rt_disposed (mm_runtime s) then s
           else match_stop cfg (s\<lparr>mm_runtime := rt_change ((mm_runtime s)\<lparr>rt_identity := Some u\<rparr>)\<rparr>))
      | KitDisposed \<Rightarrow>
          (if rt_disposed (mm_runtime s) then s
           else match_stop cfg (s\<lparr>mm_runtime := (mm_runtime s)\<lparr>rt_disposed := True,
             rt_generation := Suc (rt_generation (mm_runtime s)), rt_identity := None\<rparr>\<rparr>))
      | TimePasses n \<Rightarrow> s\<lparr>mm_now := mm_now s + int n\<rparr>)"

inductive match_run :: "match_config \<Rightarrow> match_state \<Rightarrow> match_state \<Rightarrow> bool" for cfg where
  match_here: "match_run cfg s s"
| match_next: "match_run cfg s s' \<Longrightarrow> match_run cfg s (match_step cfg st s')"

end
