(* ===== verification/Game_Match_Safety.thy ===== *)
theory Game_Match_Safety
  imports Game_Match
begin

section \<open>What a player sees of a ticket\<close>

text \<open>
  Every step is a sequence of small updates, each with what the code has checked before it. The
  invariants are proved of the updates: of the tasks, of what observers get, of the requests and their
  spacing.
\<close>

subsection \<open>Small updates\<close>

definition is_reading :: "match_task \<Rightarrow> bool" where
  "is_reading t \<longleftrightarrow> (case tk_kind t of Reading b \<Rightarrow> True | _ \<Rightarrow> False)"

definition on_line :: "match_config \<Rightarrow> match_state \<Rightarrow> bool" where
  "on_line cfg s \<longleftrightarrow> mc_mode cfg = Some DeferredMode \<and> rt_identity (mm_runtime s) \<noteq> None \<and> \<not> rt_disposed (mm_runtime s)"

inductive match_atom :: "match_config \<Rightarrow> match_state \<Rightarrow> match_state \<Rightarrow> bool" for cfg where
  settle_call: "mm_tasks s i = Some t \<Longrightarrow> \<not> is_reading t \<Longrightarrow> match_atom cfg s (leave_task i r s)"
| settle_reading: "mm_tasks s j = Some t \<Longrightarrow> is_reading t \<Longrightarrow> match_atom cfg s (clear_reading j (leave_task j r s))"
| refuse: "match_atom cfg s (refuse_call e s)"
| call_returns: "match_atom cfg s (s\<lparr>mm_count := Suc (mm_count s), mm_results := mm_results s @ [(mm_count s, r)]\<rparr>)"
| stop_all: "rt_generation (mm_runtime s) \<le> rt_generation rt \<Longrightarrow> (rt_disposed (mm_runtime s) \<longrightarrow> rt_disposed rt) \<Longrightarrow>
    match_atom cfg s (match_stop cfg (s\<lparr>mm_runtime := rt\<rparr>))"
| bump: "rt_identity (mm_runtime s) = None \<Longrightarrow> match_atom cfg s (s\<lparr>mm_runtime := rt_change (mm_runtime s)\<rparr>)"
| foreground: "match_atom cfg s (s\<lparr>mm_runtime := (mm_runtime s)\<lparr>rt_foreground := b\<rparr>, mm_timer := None\<rparr>)"
| disarm: "match_atom cfg s (s\<lparr>mm_timer := None\<rparr>)"
| discover: "mm_timer s = None \<Longrightarrow> match_atom cfg s (s\<lparr>mm_active := True\<rparr>)"
| arm: "match_atom cfg s (match_arm delay s)"
| next_delay: "match_atom cfg s (s\<lparr>mm_nextDelay := delay\<rparr>)"
| publishes: "mm_tasks s i = Some t \<Longrightarrow> tk_at t = Requested \<Longrightarrow> tk_epoch t = mm_epoch s \<Longrightarrow> match_atom cfg s (publish cfg ticket s)"
| add_reading: "on_line cfg s \<Longrightarrow> \<forall>e j. mm_reading s = Some (e, j) \<longrightarrow> e \<noteq> mm_epoch s \<Longrightarrow> \<forall>t. mm_lastRead s = Some t \<longrightarrow> t + 1000 \<le> due \<Longrightarrow>
    mm_now s \<le> due \<Longrightarrow>
    match_atom cfg s ((add_task (new_task cfg (Reading automatic) (PausedUntil due) s) s)\<lparr>mm_reading := Some (mm_epoch s, mm_count s)\<rparr>)"
| add_joiner: "mm_reading s = Some (mm_epoch s, j) \<Longrightarrow> kind = StatusCall \<or> kind = Polling \<Longrightarrow>
    match_atom cfg s (add_task (new_task cfg kind (Joining j) s) s)"
| join: "mm_tasks s i = Some t \<Longrightarrow> tk_kind t = Performing a \<Longrightarrow> tk_epoch t = mm_epoch s \<Longrightarrow> mm_reading s = Some (mm_epoch s, j) \<Longrightarrow>
    match_atom cfg s (s\<lparr>mm_tasks := (mm_tasks s)(i \<mapsto> t\<lparr>tk_at := Joining j\<rparr>)\<rparr>)"
| start: "on_line cfg s \<Longrightarrow> kind = Cancelling \<or> kind = Performing a \<Longrightarrow> q \<noteq> AskStatus \<Longrightarrow> match_atom cfg s (start_request cfg kind q s)"
| read_now: "mm_tasks s j = Some t \<Longrightarrow> is_reading t \<Longrightarrow> tk_at t = PausedUntil due \<Longrightarrow> due \<le> mm_now s \<Longrightarrow> tk_epoch t = mm_epoch s \<Longrightarrow>
    match_atom cfg s (send_request j t AskStatus (s\<lparr>mm_lastRead := Some (mm_now s)\<rparr>))"
| ask_again: "mm_tasks s i = Some t \<Longrightarrow> \<not> is_reading t \<Longrightarrow> tk_at t = PausedUntil due \<Longrightarrow> due \<le> mm_now s \<Longrightarrow> tk_epoch t = mm_epoch s \<Longrightarrow> q \<noteq> AskStatus \<Longrightarrow>
    match_atom cfg s (send_request i (t\<lparr>tk_delay := min 30000 (tk_delay t * 2)\<rparr>) q s)"
| pause: "mm_tasks s i = Some t \<Longrightarrow> tk_kind t = Cancelling \<or> tk_kind t = Performing a \<Longrightarrow> tk_at t = Requested \<Longrightarrow> tk_epoch t = mm_epoch s \<Longrightarrow>
    1000 \<le> ms \<or> ms = tk_delay t \<Longrightarrow> match_atom cfg s (pause_task i t ms s)"
| time: "match_atom cfg s (s\<lparr>mm_now := mm_now s + int n\<rparr>)"

definition atoms :: "match_config \<Rightarrow> match_state \<Rightarrow> match_state \<Rightarrow> bool" where
  "atoms cfg = (match_atom cfg)\<^sup>*\<^sup>*"

lemma atoms_here [simp, intro]: "atoms cfg s s"
  by (simp add: atoms_def)

lemma atom_atoms: "match_atom cfg s s' \<Longrightarrow> atoms cfg s s'"
  by (simp add: atoms_def)

lemma atoms_then: "atoms cfg s s' \<Longrightarrow> atoms cfg s' s'' \<Longrightarrow> atoms cfg s s''"
  by (simp add: atoms_def)

lemma then_atom: "atoms cfg s s' \<Longrightarrow> match_atom cfg s' s'' \<Longrightarrow> atoms cfg s s''"
  by (simp add: atoms_def)

lemma stop_atom: "match_atom cfg s (match_stop cfg s)"
  using stop_all [of s "mm_runtime s" cfg] by simp

lemma session_stop_atom: "match_atom cfg s (session_stop cfg s)"
  unfolding session_stop_def by (rule stop_all) (simp_all add: rt_stop_def)

lemma cancelled_stays: "\<not> run_signs_out rt g (Inl (match_error Cancelled))"
  by (simp add: run_signs_out_def match_error_def mapError_def code_of_def)

lemma requested_not_cut: "mm_tasks s i = Some t \<Longrightarrow> tk_at t = Requested \<Longrightarrow> \<not> cut_off s i"
  by (simp add: cut_off_def paused_def)

lemma cut_paused: "mm_tasks s i = Some t \<Longrightarrow> paused t \<Longrightarrow> cut_off s i"
  by (simp add: cut_off_def)

lemma cut_off_tasks:
  assumes "mm_tasks s' = mm_tasks s"
  shows "cut_off s' = cut_off s"
  by (rule ext) (unfold cut_off_def assms, rule refl)

lemma stop_tasks [simp]:
  "mm_tasks (match_stop cfg s) i = (if cut_off s i then None else mm_tasks s i)"
  "mm_tasks (session_stop cfg s) i = (if cut_off s i then None else mm_tasks s i)"
  by (simp_all add: match_stop_def session_stop_def cut_off_tasks [of "s\<lparr>mm_runtime := rt_stop (mm_runtime s)\<rparr>" s])

lemma run_end_atoms:
  assumes "mm_tasks s i = Some t" "\<not> is_reading t" "run_signs_out (mm_runtime s) (tk_generation t) r \<Longrightarrow> \<not> cut_off s i"
  shows "atoms cfg s (run_end cfg i r s)"
proof (cases "run_signs_out (mm_runtime s) (tk_generation t) r")
  case True
  have "mm_tasks (session_stop cfg s) i = Some t" using assms(1,3) True by simp
  from settle_call [OF this assms(2)] show ?thesis
    unfolding run_end_def using assms(1) True by (auto intro: then_atom atom_atoms [OF session_stop_atom])
next
  case False
  then show ?thesis unfolding run_end_def using assms(1) settle_call [OF assms(1,2)] by (auto intro: atom_atoms)
qed

lemma poll_failed_atoms: "atoms cfg s (poll_failed s)"
  unfolding poll_failed_def by (rule then_atom [OF atom_atoms [OF arm] next_delay])

text \<open>Operations that only settle tasks.\<close>

definition only_settles :: "match_state \<Rightarrow> match_state \<Rightarrow> bool" where
  "only_settles s s' \<longleftrightarrow> (\<forall>i. mm_tasks s' i = mm_tasks s i \<or> mm_tasks s' i = None)"

lemma only_settles_refl [simp]: "only_settles s s"
  by (simp add: only_settles_def)

lemma only_settles_trans: "only_settles s s' \<Longrightarrow> only_settles s' s'' \<Longrightarrow> only_settles s s''"
  unfolding only_settles_def by metis

lemma only_settles_None: "only_settles s s' \<Longrightarrow> mm_tasks s i = None \<Longrightarrow> mm_tasks s' i = None"
  unfolding only_settles_def by metis

lemma only_settles_Some: "only_settles s s' \<Longrightarrow> mm_tasks s' i = Some t \<Longrightarrow> mm_tasks s i = Some t"
  unfolding only_settles_def by (metis option.distinct(1))

lemma settling [simp]:
  "only_settles s (leave_task i r s)" "only_settles s (match_stop cfg s)" "only_settles s (session_stop cfg s)"
  "only_settles s (match_arm d s)" "only_settles s (poll_failed s)" "only_settles s (publish cfg ticket s)"
  by (simp_all add: only_settles_def leave_task_def match_arm_def poll_failed_def publish_def Let_def split: option.split)

lemma run_end_settles: "only_settles s (run_end cfg i r s)"
  unfolding run_end_def
  by (auto intro: only_settles_trans [OF settling(3) settling(1)] split: option.split)

lemma poll_done_settles: "only_settles s (poll_done cfg i t r s)"
  unfolding poll_done_def Let_def
  by (auto simp: only_settles_def leave_task_def match_arm_def poll_failed_def split: sum.split)

lemma join_done_settles: "only_settles s (join_done cfg r i s)"
  unfolding join_done_def using run_end_settles poll_done_settles by (auto split: option.split task_kind.split)

lemma joins_settle: "only_settles s (fold (join_done cfg r) is s)"
proof (induction "is" arbitrary: s)
  case (Cons i "is")
  then show ?case using only_settles_trans [OF join_done_settles] by fastforce
qed simp

lemma poll_done_atoms:
  assumes "mm_tasks s i = Some t" "\<not> is_reading t"
  shows "atoms cfg s (poll_done cfg i t r s)"
proof -
  note first = atom_atoms [OF settle_call [OF assms, of cfg r]]
  have "atoms cfg (leave_task i r s) (match_arm d ((leave_task i r s)\<lparr>mm_nextDelay := e\<rparr>))" for d e
    by (rule then_atom [OF atom_atoms [OF next_delay] arm])
  then show ?thesis
    unfolding poll_done_def Let_def using first atoms_then [OF first poll_failed_atoms] atoms_then [OF first]
    by (auto split: sum.split)
qed

lemma join_done_atoms:
  assumes "mm_tasks s j = None" "\<And>t. mm_tasks s i = Some t \<Longrightarrow> tk_at t = Joining j"
  shows "atoms cfg s (join_done cfg r i s)"
proof (cases "mm_tasks s i")
  case (Some t)
  have cut: "\<not> cut_off s i" using assms Some by (simp add: cut_off_def paused_def)
  show ?thesis
  proof (cases "tk_kind t")
    case (Performing a)
    then have "\<not> is_reading t" by (simp add: is_reading_def)
    from run_end_atoms [OF Some this] show ?thesis using Performing cut by (simp add: join_done_def Some)
  next
    case StatusCall
    then have "\<not> is_reading t" by (simp add: is_reading_def)
    from settle_call [OF Some this] show ?thesis using StatusCall by (auto simp: join_done_def Some intro: atom_atoms)
  next
    case Polling
    then have "\<not> is_reading t" by (simp add: is_reading_def)
    from poll_done_atoms [OF Some this] show ?thesis using Polling by (simp add: join_done_def Some)
  qed (simp_all add: join_done_def Some)
qed (simp add: join_done_def)

lemma joins_atoms:
  assumes "mm_tasks s j = None" "\<forall>i \<in> set is. \<forall>t. mm_tasks s i = Some t \<longrightarrow> tk_at t = Joining j"
  shows "atoms cfg s (fold (join_done cfg r) is s)"
  using assms
proof (induction "is" arbitrary: s)
  case (Cons i "is")
  let ?s = "join_done cfg r i s"
  have first: "atoms cfg s ?s" by (rule join_done_atoms) (use Cons.prems in auto)
  have "mm_tasks ?s j = None" by (rule only_settles_None [OF join_done_settles Cons.prems(1)])
  moreover have "\<forall>k \<in> set is. \<forall>t. mm_tasks ?s k = Some t \<longrightarrow> tk_at t = Joining j"
  proof (intro ballI allI impI)
    fix k t
    assume "k \<in> set is" "mm_tasks ?s k = Some t"
    then show "tk_at t = Joining j" using only_settles_Some [OF join_done_settles, of cfg r i s k t] Cons.prems(2) by simp
  qed
  ultimately have "atoms cfg ?s (fold (join_done cfg r) is ?s)" by (rule Cons.IH)
  from atoms_then [OF first this] show ?case by simp
qed simp

lemma joined_at: "i \<in> set (joined s j) \<Longrightarrow> mm_tasks s i = Some t \<Longrightarrow> tk_at t = Joining j"
  by (simp add: joined_def)

lemma read_end_atoms:
  assumes "mm_tasks s j = Some t" "is_reading t" "run_signs_out (mm_runtime s) (tk_generation t) r \<Longrightarrow> \<not> cut_off s j"
  shows "atoms cfg s (read_end cfg j t r s)"
proof -
  let ?s1 = "if run_signs_out (mm_runtime s) (tk_generation t) r then session_stop cfg s else s"
  let ?s2 = "clear_reading j (leave_task j (run_result (mm_runtime s) (tk_generation t) r) ?s1)"
  have "atoms cfg s ?s1" using atom_atoms [OF session_stop_atom] by simp
  moreover have "match_atom cfg ?s1 ?s2" by (rule settle_reading) (use assms in auto)
  ultimately have first: "atoms cfg s ?s2" by (rule then_atom)
  have gone: "mm_tasks ?s2 j = None" by (simp add: clear_reading_def leave_task_def)
  have "\<forall>i \<in> set (joined ?s2 j). \<forall>t. mm_tasks ?s2 i = Some t \<longrightarrow> tk_at t = Joining j" using joined_at by blast
  from atoms_then [OF first joins_atoms [OF gone this]]
  show ?thesis by (simp only: read_end_def Let_def)
qed

subsection \<open>Every step is a sequence of updates\<close>

text \<open>What the updates of a step need to know of the tasks.\<close>

definition tasks_ok :: "match_state \<Rightarrow> bool" where
  "tasks_ok s \<longleftrightarrow>
     (\<forall>i t. mm_tasks s i = Some t \<longrightarrow>
        i < mm_count s \<and> tk_epoch t \<le> mm_epoch s \<and> tk_generation t \<le> rt_generation (mm_runtime s) \<and>
        (tk_epoch t = mm_epoch s \<longrightarrow>
           tk_generation t = rt_generation (mm_runtime s) \<and> rt_identity (mm_runtime s) \<noteq> None) \<and>
        (paused t \<longrightarrow> tk_epoch t = mm_epoch s) \<and> (is_reading t \<longrightarrow> (\<forall>j. tk_at t \<noteq> Joining j)) \<and>
        (is_reading t \<and> tk_epoch t = mm_epoch s \<longrightarrow> mm_reading s = Some (mm_epoch s, i))) \<and>
     (\<forall>e j. mm_reading s = Some (e, j) \<longrightarrow>
        e = mm_epoch s \<and> (\<exists>t. mm_tasks s j = Some t \<and> is_reading t \<and> tk_epoch t = mm_epoch s))"

lemma task_fine:
  assumes "tasks_ok s" "mm_tasks s i = Some t"
  shows "i < mm_count s" "tk_epoch t \<le> mm_epoch s" "tk_generation t \<le> rt_generation (mm_runtime s)"
    "tk_epoch t = mm_epoch s \<Longrightarrow> tk_generation t = rt_generation (mm_runtime s)"
    "tk_epoch t = mm_epoch s \<Longrightarrow> rt_identity (mm_runtime s) \<noteq> None" "paused t \<Longrightarrow> tk_epoch t = mm_epoch s"
    "is_reading t \<Longrightarrow> tk_at t \<noteq> Joining j" "is_reading t \<Longrightarrow> tk_epoch t = mm_epoch s \<Longrightarrow> mm_reading s = Some (mm_epoch s, i)"
  using assms(1) [unfolded tasks_ok_def, THEN conjunct1, rule_format, OF assms(2)] by simp_all

lemma reading_task:
  assumes "tasks_ok s" "mm_reading s = Some (e, j)"
  obtains t where "e = mm_epoch s" "mm_tasks s j = Some t" "is_reading t" "tk_epoch t = mm_epoch s"
  using assms(1) [unfolded tasks_ok_def, THEN conjunct2, rule_format, OF assms(2)] by blast

lemma tasks_ok_shrink:
  assumes "tasks_ok s" "\<And>k t. mm_tasks s' k = Some t \<Longrightarrow> mm_tasks s k = Some t"
    and "mm_count s' = mm_count s" "mm_epoch s' = mm_epoch s" "mm_runtime s' = mm_runtime s"
    and "mm_reading s' = None \<or> mm_reading s' = mm_reading s"
    and "\<And>e j. mm_reading s' = Some (e, j) \<Longrightarrow> mm_tasks s' j = mm_tasks s j"
    and "\<And>k t. mm_tasks s' k = Some t \<Longrightarrow> is_reading t \<Longrightarrow> tk_epoch t = mm_epoch s \<Longrightarrow> mm_reading s' = mm_reading s"
  shows "tasks_ok s'"
  unfolding tasks_ok_def assms(3-5)
proof (intro conjI allI impI)
  fix i t
  assume task: "mm_tasks s' i = Some t"
  have old: "mm_tasks s i = Some t" by (rule assms(2) [OF task])
  note fine = assms(1) [unfolded tasks_ok_def, THEN conjunct1, rule_format, OF old]
  show "i < mm_count s" "tk_epoch t \<le> mm_epoch s" "tk_generation t \<le> rt_generation (mm_runtime s)"
      "tk_epoch t = mm_epoch s \<Longrightarrow> tk_generation t = rt_generation (mm_runtime s)"
      "tk_epoch t = mm_epoch s \<Longrightarrow> rt_identity (mm_runtime s) \<noteq> None"
      "paused t \<Longrightarrow> tk_epoch t = mm_epoch s" "\<And>j. is_reading t \<Longrightarrow> tk_at t \<noteq> Joining j"
    using fine by simp_all
  show "is_reading t \<and> tk_epoch t = mm_epoch s \<Longrightarrow> mm_reading s' = Some (mm_epoch s, i)"
    using fine assms(8) [OF task] by simp
next
  fix e j
  assume reading: "mm_reading s' = Some (e, j)"
  then have "mm_reading s = Some (e, j)" using assms(6) by auto
  then show "e = mm_epoch s" "\<exists>t. mm_tasks s' j = Some t \<and> is_reading t \<and> tk_epoch t = mm_epoch s"
    using assms(1) assms(7) [OF reading] unfolding tasks_ok_def by auto
qed

lemma tasks_ok_update:
  assumes "tasks_ok s" "mm_epoch s' = mm_epoch s" "mm_count s \<le> mm_count s'"
    and "rt_generation (mm_runtime s') = rt_generation (mm_runtime s)"
    and "rt_identity (mm_runtime s) \<noteq> None \<Longrightarrow> rt_identity (mm_runtime s') \<noteq> None"
    and "mm_reading s' = mm_reading s"
    and "\<And>k t. mm_tasks s' k = Some t \<Longrightarrow> \<exists>t0. mm_tasks s k = Some t0 \<and> tk_epoch t = tk_epoch t0 \<and>
      tk_generation t = tk_generation t0 \<and> tk_kind t = tk_kind t0 \<and> (t = t0 \<or> tk_epoch t = mm_epoch s \<and> (is_reading t \<longrightarrow> (\<forall>j. tk_at t \<noteq> Joining j)))"
    and "\<And>k t. mm_tasks s k = Some t \<Longrightarrow> \<exists>t'. mm_tasks s' k = Some t' \<and> tk_epoch t' = tk_epoch t \<and> tk_kind t' = tk_kind t"
  shows "tasks_ok s'"
  unfolding tasks_ok_def assms(2)
proof (intro conjI allI impI)
  fix i t
  assume "mm_tasks s' i = Some t"
  from assms(7) [OF this] obtain t0 where t0: "mm_tasks s i = Some t0" "tk_epoch t = tk_epoch t0" "tk_generation t = tk_generation t0"
      "tk_kind t = tk_kind t0" "t = t0 \<or> tk_epoch t = mm_epoch s \<and> (is_reading t \<longrightarrow> (\<forall>j. tk_at t \<noteq> Joining j))" by blast
  note fine = task_fine [OF assms(1) t0(1)]
  have reads: "is_reading t = is_reading t0" using t0(4) by (simp add: is_reading_def)
  show "i < mm_count s'" "tk_epoch t \<le> mm_epoch s" "tk_generation t \<le> rt_generation (mm_runtime s')"
      "tk_epoch t = mm_epoch s \<Longrightarrow> tk_generation t = rt_generation (mm_runtime s')"
      "tk_epoch t = mm_epoch s \<Longrightarrow> rt_identity (mm_runtime s') \<noteq> None"
      "is_reading t \<and> tk_epoch t = mm_epoch s \<Longrightarrow> mm_reading s' = Some (mm_epoch s, i)"
    using fine assms(3-6) t0(2,3) reads by simp_all
  show "paused t \<Longrightarrow> tk_epoch t = mm_epoch s" "\<And>j. is_reading t \<Longrightarrow> tk_at t \<noteq> Joining j"
    using fine(6,7) t0(5) by auto
next
  fix e j
  assume "mm_reading s' = Some (e, j)"
  then have "mm_reading s = Some (e, j)" by (simp add: assms(6))
  from reading_task [OF assms(1) this] obtain t where t: "e = mm_epoch s" "mm_tasks s j = Some t" "is_reading t" "tk_epoch t = mm_epoch s" .
  then show "e = mm_epoch s" "\<exists>t. mm_tasks s' j = Some t \<and> is_reading t \<and> tk_epoch t = mm_epoch s"
    using assms(8) [OF t(2)] by (auto simp: is_reading_def)
qed

lemma tasks_ok_same:
  assumes "tasks_ok s" "mm_tasks s' = mm_tasks s" "mm_epoch s' = mm_epoch s" "mm_count s \<le> mm_count s'"
    "rt_generation (mm_runtime s') = rt_generation (mm_runtime s)"
    "rt_identity (mm_runtime s') = rt_identity (mm_runtime s)" "mm_reading s' = mm_reading s"
  shows "tasks_ok s'"
  by (rule tasks_ok_update [OF assms(1)]) (simp_all add: assms)

lemma tasks_ok_put:
  assumes "tasks_ok s" "mm_tasks s i = Some t" "tk_epoch t = mm_epoch s" "mm_tasks s' = (mm_tasks s)(i \<mapsto> t')"
    "tk_epoch t' = tk_epoch t" "tk_generation t' = tk_generation t" "tk_kind t' = tk_kind t" "is_reading t' \<Longrightarrow> \<forall>j. tk_at t' \<noteq> Joining j"
    "mm_epoch s' = mm_epoch s" "mm_count s' = mm_count s" "mm_runtime s' = mm_runtime s" "mm_reading s' = mm_reading s"
  shows "tasks_ok s'"
  by (rule tasks_ok_update [OF assms(1)]) (use assms in \<open>auto split: if_splits\<close>)

lemma on_line_identity: "on_line cfg s \<Longrightarrow> rt_identity (mm_runtime s) \<noteq> None"
  by (simp add: on_line_def)

lemma tasks_ok_add:
  assumes "tasks_ok s" "rt_identity (mm_runtime s) \<noteq> None" "mm_tasks s' = (mm_tasks s)(mm_count s \<mapsto> t)" "mm_epoch s' = mm_epoch s"
    "mm_count s' = Suc (mm_count s)" "mm_runtime s' = mm_runtime s"
    "tk_epoch t = mm_epoch s" "tk_generation t = rt_generation (mm_runtime s)" "is_reading t \<Longrightarrow> \<forall>j. tk_at t \<noteq> Joining j"
    "is_reading t \<and> (\<forall>e j. mm_reading s = Some (e, j) \<longrightarrow> e \<noteq> mm_epoch s) \<and> mm_reading s' = Some (mm_epoch s, mm_count s) \<or>
     \<not> is_reading t \<and> mm_reading s' = mm_reading s"
  shows "tasks_ok s'"
  unfolding tasks_ok_def assms(4)
proof (intro conjI allI impI)
  fix i u
  assume u: "mm_tasks s' i = Some u"
  show "i < mm_count s'" "tk_epoch u \<le> mm_epoch s" "tk_generation u \<le> rt_generation (mm_runtime s')"
      "tk_epoch u = mm_epoch s \<Longrightarrow> tk_generation u = rt_generation (mm_runtime s')"
      "tk_epoch u = mm_epoch s \<Longrightarrow> rt_identity (mm_runtime s') \<noteq> None"
      "paused u \<Longrightarrow> tk_epoch u = mm_epoch s" "\<And>j. is_reading u \<Longrightarrow> tk_at u \<noteq> Joining j"
    using u task_fine [OF assms(1), of i u] assms(2,3,5-9) by (auto split: if_splits)
  show "is_reading u \<and> tk_epoch u = mm_epoch s \<Longrightarrow> mm_reading s' = Some (mm_epoch s, i)"
    using u task_fine(8) [OF assms(1), of i u] assms(3,10) by (auto split: if_splits)
next
  fix e j
  assume reading: "mm_reading s' = Some (e, j)"
  have "e = mm_epoch s \<and> (\<exists>t. mm_tasks s' j = Some t \<and> is_reading t \<and> tk_epoch t = mm_epoch s)"
  proof (cases "is_reading t")
    case True
    then show ?thesis using reading assms(3,7,10) by auto
  next
    case False
    then have "mm_reading s = Some (e, j)" using reading assms(10) by simp
    from reading_task [OF assms(1) this] obtain u where "e = mm_epoch s" "mm_tasks s j = Some u" "is_reading u" "tk_epoch u = mm_epoch s" .
    moreover have "j \<noteq> mm_count s" using task_fine(1) [OF assms(1) calculation(2)] by simp
    ultimately show ?thesis using assms(3) by simp
  qed
  then show "e = mm_epoch s" "\<exists>t. mm_tasks s' j = Some t \<and> is_reading t \<and> tk_epoch t = mm_epoch s" by blast+
qed

lemma tasks_ok_stale:
  assumes "tasks_ok s" "\<And>k t. mm_tasks s' k = Some t \<Longrightarrow> mm_tasks s k = Some t \<and> \<not> paused t"
    and "\<And>k t. mm_tasks s' k = Some t \<Longrightarrow> tk_epoch t < mm_epoch s'"
    and "mm_reading s' = None" "mm_count s' = mm_count s" "rt_generation (mm_runtime s) \<le> rt_generation (mm_runtime s')"
  shows "tasks_ok s'"
  unfolding tasks_ok_def
proof (intro conjI allI impI)
  fix i t
  assume task: "mm_tasks s' i = Some t"
  have old: "mm_tasks s i = Some t" "\<not> paused t" using assms(2) [OF task] by blast+
  note stale = assms(3) [OF task]
  show "i < mm_count s'" "tk_epoch t \<le> mm_epoch s'" "tk_generation t \<le> rt_generation (mm_runtime s')"
      "\<And>j. is_reading t \<Longrightarrow> tk_at t \<noteq> Joining j"
    using task_fine [OF assms(1) old(1)] assms(5,6) stale by simp_all
  show "tk_epoch t = mm_epoch s' \<Longrightarrow> tk_generation t = rt_generation (mm_runtime s')"
      "tk_epoch t = mm_epoch s' \<Longrightarrow> rt_identity (mm_runtime s') \<noteq> None" "paused t \<Longrightarrow> tk_epoch t = mm_epoch s'"
      "is_reading t \<and> tk_epoch t = mm_epoch s' \<Longrightarrow> mm_reading s' = Some (mm_epoch s', i)"
    using stale old(2) by simp_all
qed (simp_all add: assms(4))

lemma atom_tasks_ok:
  assumes "match_atom cfg s s'" "tasks_ok s"
  shows "tasks_ok s'"
  using assms
proof (cases rule: match_atom.cases)
  case (settle_call i t r)
  show ?thesis
  proof (rule tasks_ok_shrink [OF assms(2)])
    show "mm_tasks s' j = mm_tasks s j" if reading: "mm_reading s' = Some (e, j)" for e j
    proof -
      have "mm_reading s = Some (e, j)" using reading by (simp add: settle_call(1) leave_task_def)
      from reading_task [OF assms(2) this] have "j \<noteq> i" using settle_call(2,3) by (metis option.inject)
      then show ?thesis by (simp add: settle_call(1) leave_task_def)
    qed
  qed (simp_all add: settle_call(1) leave_task_def split: if_splits)
next
  case (settle_reading j t r)
  have current: "mm_reading s = Some (mm_epoch s, k)" if "mm_tasks s k = Some u" "is_reading u" "tk_epoch u = mm_epoch s" for k u
    using task_fine(8) [OF assms(2) that] .
  show ?thesis
    by (rule tasks_ok_shrink [OF assms(2)])
      (auto simp: settle_reading(1) leave_task_def clear_reading_def dest: current split: if_splits)
next
  case (refuse e)
  show ?thesis by (rule tasks_ok_same [OF assms(2)]) (simp_all add: refuse(1) refuse_call_def)
next
  case (call_returns r)
  show ?thesis by (rule tasks_ok_same [OF assms(2)]) (simp_all add: call_returns(1))
next
  case (stop_all rt)
  show ?thesis
  proof (rule tasks_ok_stale [OF assms(2)])
    fix k t
    assume task: "mm_tasks s' k = Some t"
    show "mm_tasks s k = Some t \<and> \<not> paused t"
      using task cut_paused [of "s\<lparr>mm_runtime := rt\<rparr>" k t] unfolding stop_all(1) by (simp split: if_splits) blast
    then show "tk_epoch t < mm_epoch s'"
      using task_fine(2) [OF assms(2), of k t] by (simp add: stop_all(1) match_stop_def)
  qed (use stop_all(2) in \<open>simp_all add: stop_all(1) match_stop_def\<close>)
next
  case bump
  have none: "tk_epoch t \<noteq> mm_epoch s" if "mm_tasks s i = Some t" for i t
    using task_fine(5) [OF assms(2) that] bump(2) by blast
  have "mm_reading s = None"
  proof (cases "mm_reading s")
    case (Some p)
    then obtain e j where "mm_reading s = Some (e, j)" by (cases p) simp
    from reading_task [OF assms(2) this] show ?thesis using none by metis
  qed
  then show ?thesis
    using none task_fine(2,6) [OF assms(2)]
    by (intro tasks_ok_stale [OF assms(2)]) (auto simp: bump(1) rt_change_def le_neq_implies_less)
next
  case (foreground b)
  show ?thesis by (rule tasks_ok_same [OF assms(2)]) (simp_all add: foreground(1))
next
  case disarm
  show ?thesis by (rule tasks_ok_same [OF assms(2)]) (simp_all add: disarm(1))
next
  case discover
  show ?thesis by (rule tasks_ok_same [OF assms(2)]) (simp_all add: discover(1))
next
  case (arm d)
  show ?thesis by (rule tasks_ok_same [OF assms(2)]) (simp_all add: arm(1) match_arm_def)
next
  case (next_delay d)
  show ?thesis by (rule tasks_ok_same [OF assms(2)]) (simp_all add: next_delay(1))
next
  case (publishes i t ticket)
  show ?thesis
    by (rule tasks_ok_same [OF assms(2)])
      (simp_all add: publishes(1) publish_def match_arm_def Let_def split: option.split)
next
  case (add_reading due b)
  show ?thesis
    by (rule tasks_ok_add [OF assms(2) on_line_identity [OF add_reading(2)], where t = "new_task cfg (Reading b) (PausedUntil due) s"])
      (use add_reading(3) in \<open>simp_all add: add_reading(1) add_task_def new_task_def is_reading_def\<close>)
next
  case (add_joiner j kind)
  have signed_in: "rt_identity (mm_runtime s) \<noteq> None"
    by (rule reading_task [OF assms(2) add_joiner(2)]) (rule task_fine(5) [OF assms(2)])
  show ?thesis
    by (rule tasks_ok_add [OF assms(2) signed_in, where t = "new_task cfg kind (Joining j) s"])
      (use add_joiner(3) in \<open>auto simp: add_joiner(1) add_task_def new_task_def is_reading_def\<close>)
next
  case (join i t a j)
  show ?thesis
    by (rule tasks_ok_put [OF assms(2) join(2,4), where t' = "t\<lparr>tk_at := Joining j\<rparr>"])
      (simp_all add: join(1,3) is_reading_def)
next
  case (start kind a q)
  show ?thesis
    by (rule tasks_ok_add [OF assms(2) on_line_identity [OF start(2)], where t = "new_task cfg kind Requested s"])
      (use start(3) in \<open>auto simp: start(1) start_request_def send_request_def add_task_def new_task_def is_reading_def Let_def\<close>)
next
  case (read_now j t due)
  show ?thesis
    by (rule tasks_ok_put [OF assms(2) read_now(2,6), where t' = "t\<lparr>tk_at := Requested\<rparr>"])
      (simp_all add: read_now(1) send_request_def)
next
  case (ask_again i t due q)
  show ?thesis
    by (rule tasks_ok_put [OF assms(2) ask_again(2,6), where t' = "t\<lparr>tk_delay := min 30000 (tk_delay t * 2), tk_at := Requested\<rparr>"])
      (simp_all add: ask_again(1) send_request_def)
next
  case (pause i t a ms)
  show ?thesis
    by (rule tasks_ok_put [OF assms(2) pause(2,5), where t' = "t\<lparr>tk_at := PausedUntil (mm_now s + ms)\<rparr>"])
      (simp_all add: pause(1) pause_task_def)
next
  case (time n)
  show ?thesis by (rule tasks_ok_same [OF assms(2)]) (simp_all add: time(1))
qed

text \<open>The steps.\<close>

lemma check_on_line: "check_deferred cfg s = None \<Longrightarrow> on_line cfg s"
  by (auto simp: check_deferred_def on_line_def split: option.splits if_splits)

lemma start_read_cases:
  assumes "start_read cfg b s = (x, s1)"
  obtains (refused) e where "x = Inl e" "s1 = s"
  | (joins) j where "x = Inr j" "s1 = s" "mm_reading s = Some (mm_epoch s, j)"
  | (reads) due where "x = Inr (mm_count s)" "match_atom cfg s s1" "mm_reading s1 = Some (mm_epoch s1, mm_count s)" "mm_epoch s1 = mm_epoch s"
      "mm_runtime s1 = mm_runtime s" "\<And>k t. mm_tasks s k = Some t \<Longrightarrow> k \<noteq> mm_count s \<Longrightarrow> mm_tasks s1 k = Some t"
      "s1 = (add_task (new_task cfg (Reading b) (PausedUntil due) s) s)\<lparr>mm_reading := Some (mm_epoch s, mm_count s)\<rparr>"
proof (cases "mc_mode cfg")
  case None
  then show ?thesis using assms by (intro refused [of "match_error NotConfigured"]) (simp_all add: start_read_def)
next
  case (Some mode)
  let ?found = "case mm_reading s of Some (e, j) \<Rightarrow> if e = mm_epoch s then Some j else None | None \<Rightarrow> None"
  show ?thesis
  proof (cases ?found)
    case (Some j)
    then have "mm_reading s = Some (mm_epoch s, j)" by (auto split: option.splits if_splits)
    then show ?thesis using assms \<open>mc_mode cfg = Some mode\<close> by (intro joins [of j]) (simp_all add: start_read_def)
  next
    case None
    then have free: "\<forall>e j. mm_reading s = Some (e, j) \<longrightarrow> e \<noteq> mm_epoch s" by auto
    show ?thesis
    proof (cases "check_deferred cfg s")
      case (Some err)
      then show ?thesis using assms \<open>mc_mode cfg = Some mode\<close> None by (intro refused [of err]) (simp_all add: start_read_def)
    next
      case checked: None
      define due where "due = mm_now s + (case mm_lastRead s of None \<Rightarrow> 0 | Some t \<Rightarrow> max 0 (1000 - (mm_now s - t)))"
      have due: "\<forall>t. mm_lastRead s = Some t \<longrightarrow> t + 1000 \<le> due" "mm_now s \<le> due"
        by (auto simp: due_def split: option.split)
      have x: "x = Inr (mm_count s)"
        and s1: "s1 = (add_task (new_task cfg (Reading b) (PausedUntil due) s) s)\<lparr>mm_reading := Some (mm_epoch s, mm_count s)\<rparr>"
        using assms \<open>mc_mode cfg = Some mode\<close> None checked by (auto simp: start_read_def Let_def due_def)
      have "match_atom cfg s s1" unfolding s1 by (rule add_reading [OF check_on_line [OF checked] free due])
      then show ?thesis using x s1 by (intro reads [of due]) (simp_all add: add_task_def)
    qed
  qed
qed

lemma poll_read_atoms: "atoms cfg s (poll_read cfg s)"
proof (cases "start_read cfg True s")
  case (Pair x s1)
  then show ?thesis
  proof (cases rule: start_read_cases)
    case (refused e)
    then show ?thesis using Pair poll_failed_atoms by (simp add: poll_read_def)
  next
    case (joins j)
    from add_joiner [OF joins(3), of Polling cfg] show ?thesis
      using Pair joins by (simp add: poll_read_def atom_atoms)
  next
    case (reads due)
    have "add_task (new_task cfg Polling (Joining (mm_count s)) s) s1 = add_task (new_task cfg Polling (Joining (mm_count s)) s1) s1"
      using reads(4,5) by (simp add: new_task_def)
    with add_joiner [OF reads(3), of Polling cfg] show ?thesis
      using Pair reads(1) then_atom [OF atom_atoms [OF reads(2)]] by (simp add: poll_read_def)
  qed
qed

lemma wake_atoms: "atoms cfg s (match_wake cfg b s)"
proof -
  let ?s1 = "s\<lparr>mm_timer := None\<rparr>"
  have off: "atoms cfg s ?s1" by (rule atom_atoms [OF disarm])
  have on: "atoms cfg s (if b then ?s1\<lparr>mm_active := True\<rparr> else ?s1)"
    using then_atom [OF off discover] off by simp
  show ?thesis
    using off on atoms_then [OF on poll_read_atoms] by (simp add: match_wake_def Let_def)
qed

lemma status_atoms: "atoms cfg s (status_call cfg s)"
proof (cases "start_read cfg False s")
  case (Pair x s1)
  then show ?thesis
  proof (cases rule: start_read_cases)
    case (refused e)
    then show ?thesis using Pair by (simp add: status_call_def atom_atoms refuse)
  next
    case (joins j)
    from add_joiner [OF joins(3), of StatusCall cfg] show ?thesis
      using Pair joins by (simp add: status_call_def atom_atoms)
  next
    case (reads due)
    have "add_task (new_task cfg StatusCall (Joining (mm_count s)) s) s1 = add_task (new_task cfg StatusCall (Joining (mm_count s)) s1) s1"
      using reads(4,5) by (simp add: new_task_def)
    with add_joiner [OF reads(3), of StatusCall cfg] show ?thesis
      using Pair reads(1) then_atom [OF atom_atoms [OF reads(2)]] by (simp add: status_call_def)
  qed
qed

lemma perform_atoms: "atoms cfg s (perform cfg a s)"
  unfolding perform_def
  by (auto intro!: atom_atoms refuse start check_on_line split: option.split)

lemma submit_atoms: "atoms cfg s (submit_call cfg s)"
  unfolding submit_call_def
  by (auto intro: atom_atoms refuse atoms_then [OF atom_atoms [OF stop_atom] perform_atoms])

lemma stop_on_line: "on_line cfg s \<Longrightarrow> on_line cfg (match_stop cfg s)"
  by (simp add: on_line_def match_stop_def)

lemma cancel_atoms: "atoms cfg s (cancel_call cfg s)"
proof -
  have "atoms cfg s (start_request cfg Cancelling AskDelete (match_stop cfg s))" if "check_deferred cfg s = None"
    by (rule then_atom [OF atom_atoms [OF stop_atom] start [OF stop_on_line [OF check_on_line [OF that]]]]) simp_all
  moreover have "atoms cfg s (let s1 = match_stop cfg s in s1\<lparr>mm_count := Suc (mm_count s1), mm_results := mm_results s1 @ [(mm_count s1, Inr None)]\<rparr>)"
    unfolding Let_def by (rule then_atom [OF atom_atoms [OF stop_atom] call_returns])
  ultimately show ?thesis
    unfolding cancel_call_def by (auto intro: atom_atoms refuse split: option.split match_mode.split)
qed

lemma publish_fields [simp]:
  "mm_tasks (publish cfg ticket s) = mm_tasks s" "mm_runtime (publish cfg ticket s) = mm_runtime s"
  "mm_requests (publish cfg ticket s) = mm_requests s" "mm_count (publish cfg ticket s) = mm_count s"
  "mm_epoch (publish cfg ticket s) = mm_epoch s" "mm_now (publish cfg ticket s) = mm_now s"
  "mm_lastRead (publish cfg ticket s) = mm_lastRead s" "mm_results (publish cfg ticket s) = mm_results s"
  "mm_tasks (match_arm d s) = mm_tasks s" "mm_runtime (match_arm d s) = mm_runtime s"
  by (simp_all add: publish_def match_arm_def Let_def split: option.split)

lemma requested_ends:
  assumes "mm_tasks s i = Some t" "tk_at t = Requested"
  shows "\<not> is_reading t \<Longrightarrow> atoms cfg s (run_end cfg i r s)" "is_reading t \<Longrightarrow> atoms cfg s (read_end cfg i t r s)"
  using run_end_atoms [OF assms(1)] read_end_atoms [OF assms(1)] requested_not_cut [OF assms] by blast+

lemma perform_answer_atoms:
  assumes "tasks_ok s" "mm_tasks s i = Some t" "tk_at t = Requested" "tk_kind t = Performing act"
  shows "atoms cfg s (perform_answer cfg i t a s)"
proof -
  have not_reading: "\<not> is_reading t" using assms(4) by (simp add: is_reading_def)
  note ends = requested_ends(1) [OF assms(2,3) not_reading]
  show ?thesis
  proof (cases "match_valid t s")
    case False
    then show ?thesis using ends by (simp add: perform_answer_def)
  next
    case True
    then have epoch: "tk_epoch t = mm_epoch s" by (simp add: match_valid_def)
    show ?thesis
    proof (cases a)
      case (Answered ticket)
      let ?s = "match_arm (mc_interval cfg) (publish cfg ticket s)"
      have "atoms cfg s ?s"
        by (rule then_atom [OF atom_atoms [OF publishes [OF assms(2,3) epoch]] arm])
      moreover have "atoms cfg ?s (run_end cfg i r ?s)" for r
        using requested_ends(1) [OF _ assms(3) not_reading, of ?s i] assms(2) by simp
      ultimately show ?thesis using atoms_then True Answered by (simp add: perform_answer_def)
    next
      case (Failed e after)
      have pauses: "atoms cfg s (pause_task i t (max 1000 ms) s)" for ms
        by (rule atom_atoms, rule pause [OF assms(2) _ assms(3) epoch]) (use assms(4) in auto)
      show ?thesis
      proof (cases "ticket_moved e")
        case moved: True
        obtain x s1 where x: "start_read cfg False s = (x, s1)" by fastforce
        from x show ?thesis
        proof (cases rule: start_read_cases)
          case (refused err)
          then show ?thesis using x True Failed moved ends by (simp add: perform_answer_def)
        next
          case (joins j)
          from join [OF assms(2,4) epoch joins(3), of cfg] show ?thesis
            using x True Failed moved joins by (simp add: perform_answer_def atom_atoms)
        next
          case (reads due)
          have task: "mm_tasks s1 i = Some t" using reads(6) [OF assms(2)] task_fine(1) [OF assms(1,2)] by simp
          from join [OF task assms(4) _ , of "mm_count s" cfg] show ?thesis
            using x True Failed moved reads epoch then_atom [OF atom_atoms [OF reads(2)]] by (simp add: perform_answer_def)
        qed
      next
        case False
        then show ?thesis using True Failed pauses ends by (auto simp: perform_answer_def split: option.split)
      qed
    qed
  qed
qed

lemma cancel_answer_atoms:
  assumes "mm_tasks s i = Some t" "tk_at t = Requested" "tk_kind t = Cancelling"
  shows "atoms cfg s (cancel_answer cfg i t a s)"
proof -
  have "\<not> is_reading t" using assms(3) by (simp add: is_reading_def)
  note ends = requested_ends(1) [OF assms(1,2) this]
  have pauses: "atoms cfg s (pause_task i t ms s)"
    if "match_valid t s" "cancel_retry e (tk_delay t) = Some ms" for e ms
    by (rule atom_atoms, rule pause [OF assms(1) _ assms(2)])
      (use that assms(3) in \<open>auto simp: match_valid_def cancel_retry_def split: if_splits\<close>)
  show ?thesis
    using ends pauses by (auto simp: cancel_answer_def split: match_answer.split option.split)
qed

lemma read_answer_atoms:
  assumes "mm_tasks s i = Some t" "tk_at t = Requested" "is_reading t"
  shows "atoms cfg s (read_answer cfg i t b a s)"
proof -
  note ends = requested_ends(2) [OF assms(1,2,3)]
  have "atoms cfg s (read_end cfg i t r (publish cfg ticket s))" if "match_valid t s" for r ticket
  proof -
    have "match_atom cfg s (publish cfg ticket s)"
      by (rule publishes [OF assms(1,2)]) (use that in \<open>simp add: match_valid_def\<close>)
    moreover have "atoms cfg (publish cfg ticket s) (read_end cfg i t r (publish cfg ticket s))"
      using requested_ends(2) [OF _ assms(2,3), of "publish cfg ticket s" i] assms(1) by simp
    ultimately show ?thesis using atoms_then [OF atom_atoms] by blast
  qed
  then show ?thesis using ends by (auto simp: read_answer_def split: match_answer.split)
qed

lemma answer_atoms: "tasks_ok s \<Longrightarrow> atoms cfg s (match_answer_step cfg i a s)"
  unfolding match_answer_step_def
  using perform_answer_atoms cancel_answer_atoms read_answer_atoms
  by (auto simp: is_reading_def split: option.split task_kind.split)

lemma pause_over_atoms: "tasks_ok s \<Longrightarrow> atoms cfg s (pause_over cfg i s)"
proof (cases "mm_tasks s i")
  case (Some t)
  assume "tasks_ok s"
  note fine = task_fine [OF this Some]
  show ?thesis
  proof (cases "tk_at t")
    case (PausedUntil due)
    then have epoch: "tk_epoch t = mm_epoch s" using fine(6) by (simp add: paused_def)
    have cancelled: "atoms cfg s (run_end cfg i (Inl (match_error Cancelled)) s)" if "\<not> is_reading t"
      by (rule run_end_atoms [OF Some that]) (simp add: cancelled_stays)
    have stops: "atoms cfg s (read_end cfg i t (Inl (match_error Cancelled)) s)" if "is_reading t"
      by (rule read_end_atoms [OF Some that]) (simp add: cancelled_stays)
    have reads: "atoms cfg s (read_go cfg i t b s)" if "is_reading t" "due \<le> mm_now s" for b
      unfolding read_go_def
      using atom_atoms [OF read_now [OF Some that(1) PausedUntil that(2) epoch]] stops [OF that(1)] by auto
    have again: "atoms cfg s (send_request i (t\<lparr>tk_delay := min 30000 (tk_delay t * 2)\<rparr>) q s)"
      if "\<not> is_reading t" "due \<le> mm_now s" "q \<noteq> AskStatus" for q
      by (rule atom_atoms [OF ask_again [OF Some that(1) PausedUntil that(2) epoch that(3)]])
    show ?thesis
      using cancelled reads again
      by (cases "tk_kind t") (simp_all add: pause_over_def Some PausedUntil is_reading_def)
  qed (simp_all add: pause_over_def Some)
qed (simp add: pause_over_def)

lemma step_atoms:
  assumes "tasks_ok s"
  shows "atoms cfg s (match_step cfg st s)"
proof (cases st)
  case (ForegroundSet b)
  let ?s = "s\<lparr>mm_runtime := (mm_runtime s)\<lparr>rt_foreground := b\<rparr>, mm_timer := None\<rparr>"
  have "atoms cfg s ?s" by (rule atom_atoms [OF foreground])
  then show ?thesis using atoms_then [OF _ wake_atoms, of cfg s ?s True] ForegroundSet by (auto simp: match_step_def Let_def)
next
  case (IdentityChanges u)
  have "match_atom cfg s (match_stop cfg (s\<lparr>mm_runtime := rt_change ((mm_runtime s)\<lparr>rt_identity := Some u\<rparr>)\<rparr>))"
    if "\<not> rt_disposed (mm_runtime s)"
    by (rule stop_all) (use that in \<open>simp_all add: rt_change_def\<close>)
  then show ?thesis using IdentityChanges by (simp add: match_step_def atom_atoms)
next
  case KitDisposed
  have "match_atom cfg s (match_stop cfg (s\<lparr>mm_runtime := (mm_runtime s)\<lparr>rt_disposed := True,
      rt_generation := Suc (rt_generation (mm_runtime s)), rt_identity := None\<rparr>\<rparr>))"
    by (rule stop_all) simp_all
  then show ?thesis using KitDisposed by (simp add: match_step_def atom_atoms)
next
  case SignedOutNow
  then show ?thesis using bump session_stop_atom by (simp add: match_step_def atom_atoms)
next
  case (TimePasses n)
  then show ?thesis using time by (simp add: match_step_def atom_atoms)
qed (use assms in \<open>auto simp: match_step_def submit_atoms status_atoms cancel_atoms perform_atoms wake_atoms answer_atoms pause_over_atoms
    split: option.split\<close>)

text \<open>An invariant of the updates is one of the steps.\<close>

lemma atoms_induct:
  assumes "atoms cfg s s'" "P s" "\<And>x y. match_atom cfg x y \<Longrightarrow> P x \<Longrightarrow> P y"
  shows "P s'"
  using assms(1) unfolding atoms_def by (induction rule: rtranclp_induct) (use assms(2,3) in blast)+

lemma run_atoms:
  assumes "match_run cfg s s'" "tasks_ok s"
  shows "atoms cfg s s' \<and> tasks_ok s'"
  using assms
proof (induction rule: match_run.induct)
  case (match_next s s' st)
  then have "atoms cfg s s'" "atoms cfg s' (match_step cfg st s')" using step_atoms by blast+
  moreover have "tasks_ok (match_step cfg st s')"
    using atoms_induct [OF calculation(2), of tasks_ok] match_next atom_tasks_ok by blast
  ultimately show ?case using atoms_then by blast
qed simp

lemma run_induct:
  assumes "match_run cfg s s'" "tasks_ok s" "P s" "\<And>x y. match_atom cfg x y \<Longrightarrow> tasks_ok x \<Longrightarrow> P x \<Longrightarrow> P y"
  shows "P s'"
proof -
  have "tasks_ok s' \<and> P s'"
    by (rule atoms_induct [of cfg s s' "\<lambda>x. tasks_ok x \<and> P x"])
      (use run_atoms [OF assms(1,2)] assms(2-4) atom_tasks_ok in blast)+
  then show ?thesis ..
qed

lemma created_tasks_ok: "createMatchmaking cfg rt now = Inr s \<Longrightarrow> tasks_ok s"
  by (auto simp: createMatchmaking_def tasks_ok_def split: if_splits)

end
