(* ===== verification/Game_Match_Polling.thy ===== *)
theory Game_Match_Polling
  imports Game_Match_Safety
begin

section \<open>Tickets, requests and calls over time\<close>

text \<open>
  What observers get, how often the service is asked, and that every call settles: invariants of the
  updates of \<open>Game_Match_Safety\<close>.
\<close>

subsection \<open>The spacing of requests\<close>

definition spaced :: "nat \<times> nat \<times> match_request \<times> int \<Rightarrow> nat \<times> nat \<times> match_request \<times> int \<Rightarrow> bool" where
  "spaced x y \<longleftrightarrow>
     (case (x, y) of ((i, e, q, t), (i', e', q', t')) \<Rightarrow>
        i = i' \<or> e = e' \<and> q = AskStatus \<and> q' = AskStatus \<longrightarrow> t + 1000 \<le> t')"

definition requests_ok :: "match_state \<Rightarrow> bool" where
  "requests_ok s \<longleftrightarrow>
     sorted_wrt spaced (mm_requests s) \<and>
     (\<forall>(i, e, q, t) \<in> set (mm_requests s). i < mm_count s \<and> e \<le> mm_epoch s \<and> t \<le> mm_now s \<and>
        (e = mm_epoch s \<and> q = AskStatus \<longrightarrow> (\<exists>l. mm_lastRead s = Some l \<and> t \<le> l))) \<and>
     (\<forall>k t due. mm_tasks s k = Some t \<longrightarrow> tk_at t = PausedUntil due \<longrightarrow>
        (\<forall>(i, e, q, m) \<in> set (mm_requests s). i = k \<longrightarrow> m + 1000 \<le> due) \<and>
        (is_reading t \<longrightarrow> (\<forall>l. mm_lastRead s = Some l \<longrightarrow> l + 1000 \<le> due))) \<and>
     (\<forall>k t. mm_tasks s k = Some t \<longrightarrow> 1000 \<le> tk_delay t \<and>
        (tk_at t = Requested \<longrightarrow> (\<exists>q m. (k, tk_epoch t, q, m) \<in> set (mm_requests s))))"

lemma requests_okI:
  assumes "sorted_wrt spaced (mm_requests s)"
    and "\<And>i e q t. (i, e, q, t) \<in> set (mm_requests s) \<Longrightarrow> i < mm_count s \<and> e \<le> mm_epoch s \<and> t \<le> mm_now s \<and>
        (e = mm_epoch s \<and> q = AskStatus \<longrightarrow> (\<exists>l. mm_lastRead s = Some l \<and> t \<le> l))"
    and "\<And>k t due. mm_tasks s k = Some t \<Longrightarrow> tk_at t = PausedUntil due \<Longrightarrow>
        (\<forall>(i, e, q, m) \<in> set (mm_requests s). i = k \<longrightarrow> m + 1000 \<le> due) \<and>
        (is_reading t \<longrightarrow> (\<forall>l. mm_lastRead s = Some l \<longrightarrow> l + 1000 \<le> due))"
    and "\<And>k t. mm_tasks s k = Some t \<Longrightarrow> 1000 \<le> tk_delay t \<and>
        (tk_at t = Requested \<longrightarrow> (\<exists>q m. (k, tk_epoch t, q, m) \<in> set (mm_requests s)))"
  shows "requests_ok s"
  unfolding requests_ok_def using assms by fast

lemma requests_okD:
  assumes "requests_ok s"
  shows "sorted_wrt spaced (mm_requests s)"
    "(i, e, q, m) \<in> set (mm_requests s) \<Longrightarrow> i < mm_count s \<and> e \<le> mm_epoch s \<and> m \<le> mm_now s"
    "(i, mm_epoch s, AskStatus, m) \<in> set (mm_requests s) \<Longrightarrow> \<exists>l. mm_lastRead s = Some l \<and> m \<le> l"
    "mm_tasks s k = Some t \<Longrightarrow> tk_at t = PausedUntil due \<Longrightarrow> (k, e, q, m) \<in> set (mm_requests s) \<Longrightarrow> m + 1000 \<le> due"
    "mm_tasks s k = Some t \<Longrightarrow> tk_at t = PausedUntil due \<Longrightarrow> is_reading t \<Longrightarrow> mm_lastRead s = Some l \<Longrightarrow> l + 1000 \<le> due"
    "mm_tasks s k = Some t \<Longrightarrow> 1000 \<le> tk_delay t"
    "mm_tasks s k = Some t \<Longrightarrow> tk_at t = Requested \<Longrightarrow> \<exists>q m. (k, tk_epoch t, q, m) \<in> set (mm_requests s)"
  using assms unfolding requests_ok_def by fast+

text \<open>Nothing new is asked, and the tasks are some of the old ones.\<close>

lemma requests_ok_less:
  assumes "requests_ok s" "mm_requests s' = mm_requests s" "mm_count s \<le> mm_count s'" "mm_now s \<le> mm_now s'"
    and "\<And>k t. mm_tasks s' k = Some t \<Longrightarrow> mm_tasks s k = Some t"
    and "mm_epoch s' = mm_epoch s \<and> mm_lastRead s' = mm_lastRead s \<or> mm_epoch s < mm_epoch s' \<and> mm_lastRead s' = None"
  shows "requests_ok s'"
proof (rule requests_okI)
  note ok = requests_okD [OF assms(1)]
  show "sorted_wrt spaced (mm_requests s')" using ok(1) assms(2) by simp
  fix i e q m
  assume "(i, e, q, m) \<in> set (mm_requests s')"
  then have mem: "(i, e, q, m) \<in> set (mm_requests s)" by (simp add: assms(2))
  show "i < mm_count s' \<and> e \<le> mm_epoch s' \<and> m \<le> mm_now s' \<and>
      (e = mm_epoch s' \<and> q = AskStatus \<longrightarrow> (\<exists>l. mm_lastRead s' = Some l \<and> m \<le> l))"
    using ok(2) [OF mem] ok(3) [of i m] mem assms(3,4,6) by auto
next
  note ok = requests_okD [OF assms(1)]
  fix k t due
  assume "mm_tasks s' k = Some t" "tk_at t = PausedUntil due"
  then show "(\<forall>(i, e, q, m) \<in> set (mm_requests s'). i = k \<longrightarrow> m + 1000 \<le> due) \<and>
      (is_reading t \<longrightarrow> (\<forall>l. mm_lastRead s' = Some l \<longrightarrow> l + 1000 \<le> due))"
    using ok(4,5) [OF assms(5)] assms(2,6) by auto
next
  note ok = requests_okD [OF assms(1)]
  fix k t
  assume "mm_tasks s' k = Some t"
  from assms(5) [OF this] show "1000 \<le> tk_delay t \<and> (tk_at t = Requested \<longrightarrow> (\<exists>q m. (k, tk_epoch t, q, m) \<in> set (mm_requests s')))"
    using ok(6,7) assms(2) by simp
qed

text \<open>One task is new or has changed, without a request.\<close>

lemma requests_ok_put:
  assumes ok: "requests_ok s" and tasks: "mm_tasks s' = (mm_tasks s)(i \<mapsto> t)" and delay: "1000 \<le> tk_delay t"
    and same: "mm_epoch s' = mm_epoch s" "mm_now s' = mm_now s" "mm_count s \<le> mm_count s'" "mm_requests s' = mm_requests s"
      "mm_lastRead s' = mm_lastRead s"
    and idle: "tk_at t \<noteq> Requested"
    and due: "\<And>due e q m. tk_at t = PausedUntil due \<Longrightarrow> (i, e, q, m) \<in> set (mm_requests s) \<Longrightarrow> m + 1000 \<le> due"
      "\<And>due l. tk_at t = PausedUntil due \<Longrightarrow> is_reading t \<Longrightarrow> mm_lastRead s = Some l \<Longrightarrow> l + 1000 \<le> due"
  shows "requests_ok s'"
proof (rule requests_okI)
  note old = requests_okD [OF ok]
  show "sorted_wrt spaced (mm_requests s')" using old(1) same(4) by simp
  fix k e q m
  assume "(k, e, q, m) \<in> set (mm_requests s')"
  then have mem: "(k, e, q, m) \<in> set (mm_requests s)" by (simp add: same(4))
  show "k < mm_count s' \<and> e \<le> mm_epoch s' \<and> m \<le> mm_now s' \<and>
      (e = mm_epoch s' \<and> q = AskStatus \<longrightarrow> (\<exists>l. mm_lastRead s' = Some l \<and> m \<le> l))"
    using old(2) [OF mem] old(3) [of k m] mem same by auto
next
  note old = requests_okD [OF ok]
  fix k u d
  assume u: "mm_tasks s' k = Some u" "tk_at u = PausedUntil d"
  show "(\<forall>(i, e, q, m) \<in> set (mm_requests s'). i = k \<longrightarrow> m + 1000 \<le> d) \<and>
      (is_reading u \<longrightarrow> (\<forall>l. mm_lastRead s' = Some l \<longrightarrow> l + 1000 \<le> d))"
  proof (cases "k = i")
    case True
    then have "u = t" using u(1) tasks by simp
    then show ?thesis using due u(2) same(4,5) True by auto
  next
    case False
    then have "mm_tasks s k = Some u" using u(1) tasks by simp
    then show ?thesis using old(4,5) [OF _ u(2)] same(4,5) by auto
  qed
next
  note old = requests_okD [OF ok]
  fix k u
  assume "mm_tasks s' k = Some u"
  then show "1000 \<le> tk_delay u \<and> (tk_at u = Requested \<longrightarrow> (\<exists>q m. (k, tk_epoch u, q, m) \<in> set (mm_requests s')))"
    using old(6,7) delay idle tasks same(4) by (cases "k = i") simp_all
qed

text \<open>A task sends a request.\<close>

lemma requests_ok_send:
  assumes ok: "requests_ok s" and tasks: "mm_tasks s' = (mm_tasks s)(i \<mapsto> t)" and delay: "1000 \<le> tk_delay t"
    and same: "mm_epoch s' = mm_epoch s" "mm_now s' = mm_now s" "mm_count s \<le> mm_count s'" "i < mm_count s'"
    and sent: "mm_requests s' = mm_requests s @ [(i, mm_epoch s, q, mm_now s)]" "tk_epoch t = mm_epoch s" "tk_at t = Requested"
      "mm_lastRead s' = (if q = AskStatus then Some (mm_now s) else mm_lastRead s)"
    and far: "\<And>e p m. (i, e, p, m) \<in> set (mm_requests s) \<Longrightarrow> m + 1000 \<le> mm_now s"
      "\<And>l. q = AskStatus \<Longrightarrow> mm_lastRead s = Some l \<Longrightarrow> l + 1000 \<le> mm_now s"
      "\<And>k u. q = AskStatus \<Longrightarrow> mm_tasks s k = Some u \<Longrightarrow> is_reading u \<Longrightarrow> paused u \<Longrightarrow> k = i"
  shows "requests_ok s'"
proof (rule requests_okI)
  note old = requests_okD [OF ok]
  have "spaced (k, e, p, m) (i, mm_epoch s, q, mm_now s)" if mem: "(k, e, p, m) \<in> set (mm_requests s)" for k e p m
  proof -
    have "m + 1000 \<le> mm_now s" if "e = mm_epoch s" "p = AskStatus" "q = AskStatus"
    proof -
      obtain l where "mm_lastRead s = Some l" "m \<le> l" using old(3) mem \<open>e = mm_epoch s\<close> \<open>p = AskStatus\<close> by blast
      then show ?thesis using far(2) [OF \<open>q = AskStatus\<close>, of l] by simp
    qed
    then show ?thesis using far(1) mem by (auto simp: spaced_def)
  qed
  then show "sorted_wrt spaced (mm_requests s')"
    using old(1) by (auto simp: sent(1) sorted_wrt_append)
  fix k e p m
  assume "(k, e, p, m) \<in> set (mm_requests s')"
  then have mem: "(k, e, p, m) \<in> set (mm_requests s) \<or> (k, e, p, m) = (i, mm_epoch s, q, mm_now s)" by (auto simp: sent(1))
  have last: "\<exists>l. mm_lastRead s' = Some l \<and> m \<le> l" if "(k, mm_epoch s, AskStatus, m) \<in> set (mm_requests s)"
    using old(3) [OF that] old(2) [OF that] sent(4) by auto
  show "k < mm_count s' \<and> e \<le> mm_epoch s' \<and> m \<le> mm_now s' \<and>
      (e = mm_epoch s' \<and> p = AskStatus \<longrightarrow> (\<exists>l. mm_lastRead s' = Some l \<and> m \<le> l))"
    using mem
  proof
    assume "(k, e, p, m) \<in> set (mm_requests s)"
    then show ?thesis using old(2) [of k e p m] last same by auto
  qed (use same sent(4) in auto)
next
  note old = requests_okD [OF ok]
  fix k u d
  assume u: "mm_tasks s' k = Some u" "tk_at u = PausedUntil d"
  then have k: "k \<noteq> i" "mm_tasks s k = Some u" using tasks sent(3) by (auto split: if_splits)
  have "\<not> (is_reading u \<and> q = AskStatus)" using far(3) k u(2) by (auto simp: paused_def)
  then show "(\<forall>(i, e, q, m) \<in> set (mm_requests s'). i = k \<longrightarrow> m + 1000 \<le> d) \<and>
      (is_reading u \<longrightarrow> (\<forall>l. mm_lastRead s' = Some l \<longrightarrow> l + 1000 \<le> d))"
    using old(4,5) [OF k(2) u(2)] k(1) sent(1,4) by auto
next
  note old = requests_okD [OF ok]
  fix k u
  assume "mm_tasks s' k = Some u"
  then show "1000 \<le> tk_delay u \<and> (tk_at u = Requested \<longrightarrow> (\<exists>q m. (k, tk_epoch u, q, m) \<in> set (mm_requests s')))"
    using old(6,7) delay tasks sent(1,2) by (cases "k = i") auto
qed

lemma atom_requests_ok:
  assumes "match_atom cfg s s'" "tasks_ok s" "requests_ok s" "1000 \<le> mc_interval cfg"
  shows "requests_ok s'"
  using assms(1)
proof (cases rule: match_atom.cases)
  case (settle_call i t r)
  show ?thesis
    by (rule requests_ok_less [OF assms(3)]) (simp_all add: settle_call(1) leave_task_def split: if_splits)
next
  case (settle_reading j t r)
  show ?thesis
    by (rule requests_ok_less [OF assms(3)]) (simp_all add: settle_reading(1) leave_task_def clear_reading_def split: if_splits)
next
  case (refuse e)
  show ?thesis by (rule requests_ok_less [OF assms(3)]) (simp_all add: refuse(1) refuse_call_def)
next
  case (call_returns r)
  show ?thesis by (rule requests_ok_less [OF assms(3)]) (simp_all add: call_returns(1))
next
  case (stop_all rt)
  show ?thesis by (rule requests_ok_less [OF assms(3)]) (simp_all add: stop_all(1) match_stop_def split: if_splits)
next
  case bump
  show ?thesis by (rule requests_ok_less [OF assms(3)]) (simp_all add: bump(1))
next
  case (foreground b)
  show ?thesis by (rule requests_ok_less [OF assms(3)]) (simp_all add: foreground(1))
next
  case disarm
  show ?thesis by (rule requests_ok_less [OF assms(3)]) (simp_all add: disarm(1))
next
  case discover
  show ?thesis by (rule requests_ok_less [OF assms(3)]) (simp_all add: discover(1))
next
  case (arm d)
  show ?thesis by (rule requests_ok_less [OF assms(3)]) (simp_all add: arm(1) match_arm_def)
next
  case (next_delay d)
  show ?thesis by (rule requests_ok_less [OF assms(3)]) (simp_all add: next_delay(1))
next
  case (publishes i t ticket)
  show ?thesis
    by (rule requests_ok_less [OF assms(3)])
      (simp_all add: publishes(1))
next
  case (add_reading due b)
  show ?thesis
  proof (rule requests_ok_put [OF assms(3), where i = "mm_count s" and t = "new_task cfg (Reading b) (PausedUntil due) s"])
    fix d e q m
    assume "(mm_count s, e, q, m) \<in> set (mm_requests s)"
    from requests_okD(2) [OF assms(3) this] show "m + 1000 \<le> d" by simp
  qed (use add_reading(4) assms(4) in \<open>simp_all add: add_reading(1) add_task_def new_task_def\<close>)
next
  case (add_joiner j kind)
  show ?thesis
    by (rule requests_ok_put [OF assms(3), where i = "mm_count s" and t = "new_task cfg kind (Joining j) s"])
      (use assms(4) in \<open>simp_all add: add_joiner(1) add_task_def new_task_def\<close>)
next
  case (join i t a j)
  show ?thesis
    by (rule requests_ok_put [OF assms(3), where i = i and t = "t\<lparr>tk_at := Joining j\<rparr>"])
      (use requests_okD(6) [OF assms(3) join(2)] in \<open>simp_all add: join(1)\<close>)
next
  case (start kind a q)
  show ?thesis
  proof (rule requests_ok_send [OF assms(3), where i = "mm_count s" and t = "new_task cfg kind Requested s" and q = q])
    fix e p m
    assume "(mm_count s, e, p, m) \<in> set (mm_requests s)"
    from requests_okD(2) [OF assms(3) this] show "m + 1000 \<le> mm_now s" by simp
  qed (use start(4) assms(4) in \<open>simp_all add: start(1) start_request_def send_request_def add_task_def new_task_def Let_def\<close>)
next
  case (read_now j t due)
  show ?thesis
  proof (rule requests_ok_send [OF assms(3), where i = j and t = "t\<lparr>tk_at := Requested\<rparr>" and q = AskStatus])
    fix e p m
    assume "(j, e, p, m) \<in> set (mm_requests s)"
    from requests_okD(4) [OF assms(3) read_now(2,4) this] show "m + 1000 \<le> mm_now s" using read_now(5) by simp
  next
    fix l
    assume "mm_lastRead s = Some l"
    from requests_okD(5) [OF assms(3) read_now(2,4,3) this] show "l + 1000 \<le> mm_now s" using read_now(5) by simp
  next
    fix k u
    assume u: "mm_tasks s k = Some u" "is_reading u" "paused u"
    have "mm_reading s = Some (mm_epoch s, k)" using task_fine(6,8) [OF assms(2) u(1)] u(2,3) by simp
    moreover have "mm_reading s = Some (mm_epoch s, j)" using task_fine(8) [OF assms(2) read_now(2)] read_now(3,6) by simp
    ultimately show "k = j" by simp
  qed (use task_fine(1) [OF assms(2) read_now(2)] requests_okD(6) [OF assms(3) read_now(2)] read_now(6) in
      \<open>simp_all add: read_now(1) send_request_def\<close>)
next
  case (ask_again i t due q)
  show ?thesis
  proof (rule requests_ok_send [OF assms(3), where i = i and t = "t\<lparr>tk_delay := min 30000 (tk_delay t * 2), tk_at := Requested\<rparr>" and q = q])
    fix e p m
    assume "(i, e, p, m) \<in> set (mm_requests s)"
    from requests_okD(4) [OF assms(3) ask_again(2,4) this] show "m + 1000 \<le> mm_now s" using ask_again(5) by simp
  qed (use task_fine(1) [OF assms(2) ask_again(2)] requests_okD(6) [OF assms(3) ask_again(2)] ask_again(6,7) in
      \<open>simp_all add: ask_again(1) send_request_def\<close>)
next
  case (pause i t a ms)
  have far: "1000 \<le> ms" using pause(6) requests_okD(6) [OF assms(3) pause(2)] by auto
  show ?thesis
  proof (rule requests_ok_put [OF assms(3), where i = i and t = "t\<lparr>tk_at := PausedUntil (mm_now s + ms)\<rparr>"])
    fix due e q m
    assume "tk_at (t\<lparr>tk_at := PausedUntil (mm_now s + ms)\<rparr>) = PausedUntil due" and mem: "(i, e, q, m) \<in> set (mm_requests s)"
    then show "m + 1000 \<le> due" using requests_okD(2) [OF assms(3) mem] far by simp
  qed (use requests_okD(6) [OF assms(3) pause(2)] pause(3) in \<open>auto simp: pause(1) pause_task_def is_reading_def\<close>)
next
  case (time n)
  show ?thesis by (rule requests_ok_less [OF assms(3)]) (simp_all add: time(1))
qed

lemma created_requests_ok: "createMatchmaking cfg rt now = Inr s \<Longrightarrow> requests_ok s \<and> 1000 \<le> mc_interval cfg"
  by (auto simp: createMatchmaking_def requests_ok_def split: if_splits)

lemma run_requests_ok:
  assumes "createMatchmaking cfg rt now = Inr s0" "match_run cfg s0 s"
  shows "tasks_ok s" "requests_ok s"
proof -
  note start = created_tasks_ok [OF assms(1)] created_requests_ok [OF assms(1)]
  show "tasks_ok s" using run_atoms [OF assms(2) start(1)] by simp
  show "requests_ok s"
    by (rule run_induct [OF assms(2) start(1)]) (use start(2) atom_requests_ok in auto)
qed

text \<open>
  C25: The matchmaking never floods its service: whatever calls, answers, timers and changes of the
  session come, in whatever order, two requests of the same call are at least a second apart, and so
  are two requests for the status in the same epoch, asked by hand or by the poll.
\<close>
theorem matchmaking_never_floods:
  assumes "createMatchmaking cfg rt now = Inr s0" "match_run cfg s0 s"
  shows "sorted_wrt (\<lambda>(i, e, q, t) (i', e', q', t'). i = i' \<or> e = e' \<and> q = AskStatus \<and> q' = AskStatus \<longrightarrow> t + 1000 \<le> t')
    (mm_requests s)"
proof -
  have "sorted_wrt spaced (mm_requests s)" by (rule requests_okD(1) [OF run_requests_ok(2) [OF assms]])
  then show ?thesis by (rule sorted_wrt_mono_rel [rotated]) (auto simp: spaced_def)
qed

definition match_cfg :: match_config where
  "match_cfg = \<lparr>mc_mode = Some DeferredMode, mc_interval = 4000\<rparr>"

definition signed_in_runtime :: Runtime where
  "signed_in_runtime = \<lparr>rt_identity = Some (ascii ''u''), rt_generation = 0, rt_foreground = True, rt_disposed = False\<rparr>"

definition match_start :: match_state where
  "match_start =
     \<lparr>mm_runtime = signed_in_runtime, mm_now = 0, mm_epoch = 0, mm_active = False, mm_timer = None, mm_lastRead = None,
      mm_nextDelay = 4000, mm_lastTicket = [], mm_reading = None, mm_tasks = Map.empty, mm_count = 0,
      mm_results = [], mm_events = [], mm_requests = []\<rparr>"

lemma match_start_created: "createMatchmaking match_cfg signed_in_runtime 0 = Inr match_start"
  by (simp add: createMatchmaking_def match_cfg_def match_start_def)

definition run_steps :: "match_config \<Rightarrow> match_step list \<Rightarrow> match_state \<Rightarrow> match_state" where
  "run_steps cfg sts s = fold (match_step cfg) sts s"

lemma run_steps_run: "match_run cfg s s' \<Longrightarrow> match_run cfg s (run_steps cfg sts s')"
proof (induction sts arbitrary: s')
  case (Cons st sts)
  then show ?case using match_next by (simp add: run_steps_def)
qed (simp add: run_steps_def)

text \<open>A submission that is refused for load, asked again, and then polled.\<close>

definition busy_answer :: match_answer where
  "busy_answer = Failed (ServiceError \<lparr>se_status = Some 503, se_code = None, se_reason = None\<rparr>) None"

definition waiting_ticket :: MatchTicket where
  "waiting_ticket = \<lparr>mt_state = TicketWaiting, mt_text = ascii ''w''\<rparr>"

definition busy_steps :: "match_step list" where
  "busy_steps =
     [SubmitCall, ServiceAnswers 0 busy_answer, TimePasses 4000, PauseOver 0, ServiceAnswers 0 (Answered (Some waiting_ticket)),
      TimePasses 4000, TimerFires, PauseOver 1]"

lemma busy_requests:
  "mm_requests (run_steps match_cfg busy_steps match_start) =
    [(0, 1, AskAction Submit, 0), (0, 1, AskAction Submit, 4000), (1, 1, AskStatus, 8000)]"
  by code_simp

lemma matchmaking_never_floods_witness:
  "sorted_wrt (\<lambda>(i, e, q, t) (i', e', q', t'). i = i' \<or> e = e' \<and> q = AskStatus \<and> q' = AskStatus \<longrightarrow> t + 1000 \<le> t')
    [(0 :: nat, 1 :: nat, AskAction Submit, 0 :: int), (0, 1, AskAction Submit, 4000), (1, 1, AskStatus, 8000)]"
  using matchmaking_never_floods [OF match_start_created run_steps_run [OF match_here], of busy_steps]
  unfolding busy_requests .

subsection \<open>What observers get\<close>










subsection \<open>A disposed kit\<close>

definition silent :: "(nat \<times> nat \<times> match_request \<times> int) list \<Rightarrow> (nat \<times> MatchTicket) list \<Rightarrow> match_state \<Rightarrow> bool" where
  "silent reqs evs s \<longleftrightarrow>
     rt_disposed (mm_runtime s) \<and> (\<forall>i t. mm_tasks s i = Some t \<longrightarrow> tk_epoch t < mm_epoch s) \<and> mm_reading s = None \<and>
     mm_timer s = None \<and> mm_requests s = reqs \<and> mm_events s = evs"

lemma atom_silent:
  assumes "match_atom cfg s s'" "silent reqs evs s"
  shows "silent reqs evs s'"
  using assms(1)
proof (cases rule: match_atom.cases)
  case (publishes i t ticket)
  then show ?thesis using assms(2) unfolding silent_def by (metis less_irrefl)
next
  case (add_reading due b)
  then show ?thesis using assms(2) by (simp add: silent_def on_line_def)
next
  case (start kind a q)
  then show ?thesis using assms(2) by (simp add: silent_def on_line_def)
next
  case (add_joiner j kind)
  then show ?thesis using assms(2) by (simp add: silent_def)
next
  case (join i t a j)
  then show ?thesis using assms(2) by (simp add: silent_def)
next
  case (read_now j t due)
  then show ?thesis using assms(2) unfolding silent_def by (metis less_irrefl)
next
  case (ask_again i t due q)
  then show ?thesis using assms(2) unfolding silent_def by (metis less_irrefl)
next
  case (pause i t a ms)
  then show ?thesis using assms(2) unfolding silent_def by (metis less_irrefl)
next
  case (stop_all rt)
  then show ?thesis using assms(2) unfolding silent_def by (auto simp: match_stop_def less_SucI split: if_splits)
next
  case bump
  then show ?thesis using assms(2) by (simp add: silent_def rt_change_def)
qed (use assms(2) in \<open>simp_all add: silent_def leave_task_def clear_reading_def refuse_call_def match_arm_def split: if_splits\<close>)

text \<open>
  After \<open>dispose\<close> nothing more leaves the matchmaking: no request is sent, no ticket is shown and no
  timer is armed, whatever is called, answered or due after it.
\<close>
theorem disposed_kit_is_silent:
  assumes "createMatchmaking cfg rt now = Inr s0" "match_run cfg s0 s" "\<not> rt_disposed (mm_runtime s)"
    and "match_run cfg (match_step cfg KitDisposed s) s'"
  shows "mm_requests s' = mm_requests s \<and> mm_events s' = mm_events s \<and> mm_timer s' = None"
proof -
  let ?s = "match_step cfg KitDisposed s"
  have ok: "tasks_ok s" by (rule run_requests_ok(1) [OF assms(1,2)])
  have "silent (mm_requests s) (mm_events s) ?s"
    using assms(3) task_fine(2) [OF ok] unfolding silent_def match_step_def
    by (auto simp: match_stop_def less_Suc_eq_le split: if_splits)
  moreover have "tasks_ok ?s" using run_requests_ok(1) [OF assms(1) match_next [OF assms(2)]] .
  ultimately have "silent (mm_requests s) (mm_events s) s'"
    using run_induct [OF assms(4), of "silent (mm_requests s) (mm_events s)"] atom_silent by blast
  then show ?thesis by (simp add: silent_def)
qed

lemma disposed_kit_is_silent_witness:
  "mm_requests (run_steps match_cfg [ServiceAnswers 0 busy_answer, TimePasses 9000, SubmitCall, WakeCall]
     (match_step match_cfg KitDisposed (run_steps match_cfg [SubmitCall] match_start))) = [(0, 1, AskAction Submit, 0)]"
proof -
  have "\<not> rt_disposed (mm_runtime (run_steps match_cfg [SubmitCall] match_start))"
    "mm_requests (run_steps match_cfg [SubmitCall] match_start) = [(0, 1, AskAction Submit, 0)]" by code_simp+
  then show ?thesis
    using disposed_kit_is_silent [OF match_start_created run_steps_run [OF match_here] _ run_steps_run [OF match_here]] by simp
qed

end
