(* ===== verification/Game_Match_Calls.thy ===== *)
theory Game_Match_Calls
  imports Game_Match_Polling
begin

section \<open>Every call of the matchmaking settles\<close>

subsection \<open>At most one result per call\<close>

definition results_ok :: "match_state \<Rightarrow> bool" where
  "results_ok s \<longleftrightarrow>
     distinct (map fst (mm_results s)) \<and>
     (\<forall>i. i \<in> fst ` set (mm_results s) \<longleftrightarrow> i < mm_count s \<and> mm_tasks s i = None)"

lemma results_ok_same:
  assumes "results_ok s" "mm_results s' = mm_results s" "mm_count s' = mm_count s"
    "\<And>i. mm_tasks s' i = None \<longleftrightarrow> mm_tasks s i = None"
  shows "results_ok s'"
  using assms by (simp add: results_ok_def)

lemma results_ok_settle:
  assumes "results_ok s" "mm_tasks s i = Some t" "i < mm_count s" "mm_results s' = mm_results s @ [(i, r)]"
    "mm_count s' = mm_count s" "mm_tasks s' = (mm_tasks s)(i := None)"
  shows "results_ok s'"
  using assms unfolding results_ok_def by (auto simp: image_iff)

lemma results_ok_answered:
  assumes "results_ok s" "mm_results s' = mm_results s @ [(mm_count s, r)]"
    "mm_count s' = Suc (mm_count s)" "mm_tasks s' = mm_tasks s" "mm_tasks s (mm_count s) = None"
  shows "results_ok s'"
  using assms unfolding results_ok_def by (auto simp: image_iff less_Suc_eq)

lemma results_ok_add:
  assumes "results_ok s" "mm_results s' = mm_results s" "mm_count s' = Suc (mm_count s)" "mm_tasks s' = (mm_tasks s)(mm_count s \<mapsto> t)"
  shows "results_ok s'"
  using assms unfolding results_ok_def by (auto simp: less_Suc_eq)

lemma cut_off_task: "cut_off s i \<Longrightarrow> mm_tasks s i \<noteq> None"
  by (auto simp: cut_off_def split: option.splits)

lemma results_ok_stop:
  assumes "results_ok s" "tasks_ok s"
  shows "results_ok (match_stop cfg (s\<lparr>mm_runtime := rt\<rparr>))"
proof -
  let ?s = "s\<lparr>mm_runtime := rt\<rparr>"
  let ?cut = "filter (cut_off s) [0..<mm_count s]"
  have cut: "cut_off ?s = cut_off s" by (rule cut_off_tasks) simp
  have results: "map fst (mm_results (match_stop cfg ?s)) = map fst (mm_results s) @ ?cut"
    by (simp add: match_stop_def cut o_def)
  have "set ?cut = {i. cut_off s i}"
  proof -
    have "i < mm_count s" if "cut_off s i" for i
      using cut_off_task [OF that] task_fine(1) [OF assms(2)] by auto
    then show ?thesis by auto
  qed
  moreover have old: "set (map fst (mm_results s)) = {i. i < mm_count s \<and> mm_tasks s i = None}"
    using assms(1) unfolding results_ok_def by auto
  ultimately have set: "set (map fst (mm_results (match_stop cfg ?s))) = {i. i < mm_count s \<and> (mm_tasks s i = None \<or> cut_off s i)}"
    using cut_off_task task_fine(1) [OF assms(2)] unfolding results by fastforce
  have "{i. i < mm_count s \<and> mm_tasks s i = None} \<inter> set ?cut = {}"
  proof -
    have "\<not> cut_off s i" if "mm_tasks s i = None" for i using cut_off_task [of s i] that by blast
    then show ?thesis by auto
  qed
  moreover have "distinct (map fst (mm_results s))" "distinct ?cut" using assms(1) by (simp_all add: results_ok_def)
  ultimately have "distinct (map fst (mm_results (match_stop cfg ?s)))"
    unfolding results distinct_append old by blast
  moreover have "mm_count (match_stop cfg ?s) = mm_count s" by (simp add: match_stop_def)
  then have "i \<in> fst ` set (mm_results (match_stop cfg ?s)) \<longleftrightarrow>
      i < mm_count (match_stop cfg ?s) \<and> mm_tasks (match_stop cfg ?s) i = None" for i
    unfolding set [unfolded set_map] by (simp add: cut)
  ultimately show ?thesis unfolding results_ok_def by blast
qed

lemma atom_results_ok:
  assumes "match_atom cfg s s'" "tasks_ok s" "results_ok s"
  shows "results_ok s'"
proof -
  have fresh: "mm_tasks s (mm_count s) = None"
    using task_fine(1) [OF assms(2), of "mm_count s"] by (cases "mm_tasks s (mm_count s)") auto
  from assms(1) show ?thesis
  proof (cases rule: match_atom.cases)
    case (settle_call i t r)
    show ?thesis
      by (rule results_ok_settle [OF assms(3) settle_call(2) task_fine(1) [OF assms(2) settle_call(2)]])
        (simp_all add: settle_call(1) leave_task_def)
  next
    case (settle_reading j t r)
    show ?thesis
      by (rule results_ok_settle [OF assms(3) settle_reading(2) task_fine(1) [OF assms(2) settle_reading(2)]])
        (simp_all add: settle_reading(1) leave_task_def clear_reading_def)
  next
    case (refuse e)
    show ?thesis by (rule results_ok_answered [OF assms(3)]) (simp_all add: refuse(1) refuse_call_def fresh)
  next
    case (call_returns r)
    show ?thesis by (rule results_ok_answered [OF assms(3)]) (simp_all add: call_returns(1) fresh)
  next
    case (stop_all rt)
    show ?thesis unfolding stop_all(1) by (rule results_ok_stop [OF assms(3,2)])
  next
    case (add_reading due b)
    show ?thesis by (rule results_ok_add [OF assms(3)]) (simp_all add: add_reading(1) add_task_def)
  next
    case (add_joiner j kind)
    show ?thesis by (rule results_ok_add [OF assms(3)]) (simp_all add: add_joiner(1) add_task_def)
  next
    case (start kind a q)
    show ?thesis
      by (rule results_ok_add [OF assms(3)]) (simp_all add: start(1) start_request_def send_request_def add_task_def Let_def)
  qed (rule results_ok_same [OF assms(3)], auto simp: match_arm_def send_request_def pause_task_def)+
qed

subsection \<open>What is joined is being read\<close>

text \<open>A call of \<open>status\<close> and the poll only wait.\<close>

definition kinds_ok :: "match_state \<Rightarrow> bool" where
  "kinds_ok s \<longleftrightarrow>
     (\<forall>i t. mm_tasks s i = Some t \<longrightarrow> tk_kind t = StatusCall \<or> tk_kind t = Polling \<longrightarrow> (\<exists>j. tk_at t = Joining j))"

lemma kinds_okD: "kinds_ok s \<Longrightarrow> mm_tasks s i = Some t \<Longrightarrow> tk_kind t = StatusCall \<or> tk_kind t = Polling \<Longrightarrow> \<exists>j. tk_at t = Joining j"
  unfolding kinds_ok_def by blast

lemma kinds_ok_less: "kinds_ok s \<Longrightarrow> (\<And>i t. mm_tasks s' i = Some t \<Longrightarrow> mm_tasks s i = Some t) \<Longrightarrow> kinds_ok s'"
  unfolding kinds_ok_def by blast

lemma kinds_ok_put:
  assumes "kinds_ok s" "mm_tasks s' = (mm_tasks s)(i \<mapsto> t)" "tk_kind t = StatusCall \<or> tk_kind t = Polling \<Longrightarrow> \<exists>j. tk_at t = Joining j"
  shows "kinds_ok s'"
  using assms(1,3) unfolding kinds_ok_def assms(2) by simp

lemma atom_kinds_ok:
  assumes "match_atom cfg s s'" "kinds_ok s"
  shows "kinds_ok s'"
  using assms(1)
proof (cases rule: match_atom.cases)
  case (add_reading due b)
  show ?thesis
    by (rule kinds_ok_put [OF assms(2), of _ "mm_count s" "new_task cfg (Reading b) (PausedUntil due) s"])
      (simp_all add: add_reading(1) add_task_def new_task_def)
next
  case (add_joiner j kind)
  show ?thesis
    by (rule kinds_ok_put [OF assms(2), of _ "mm_count s" "new_task cfg kind (Joining j) s"])
      (simp_all add: add_joiner(1) add_task_def new_task_def)
next
  case (join i t a j)
  show ?thesis
    by (rule kinds_ok_put [OF assms(2), of _ i "t\<lparr>tk_at := Joining j\<rparr>"]) (simp_all add: join(1))
next
  case (start kind a q)
  show ?thesis
    by (rule kinds_ok_put [OF assms(2), of _ "mm_count s" "new_task cfg kind Requested s"])
      (use start(3) in \<open>auto simp: start(1) start_request_def send_request_def add_task_def new_task_def Let_def\<close>)
next
  case (read_now j t due)
  show ?thesis
    by (rule kinds_ok_put [OF assms(2), of _ j "t\<lparr>tk_at := Requested\<rparr>"])
      (use read_now(3) in \<open>auto simp: read_now(1) send_request_def is_reading_def\<close>)
next
  case (ask_again i t due q)
  have "\<not> (tk_kind t = StatusCall \<or> tk_kind t = Polling)"
    using assms(2) ask_again(2,4) unfolding kinds_ok_def by fastforce
  then show ?thesis
    by (intro kinds_ok_put [OF assms(2), of _ i "t\<lparr>tk_delay := min 30000 (tk_delay t * 2), tk_at := Requested\<rparr>"])
      (simp_all add: ask_again(1) send_request_def)
next
  case (pause i t a ms)
  show ?thesis
    by (rule kinds_ok_put [OF assms(2), of _ i "t\<lparr>tk_at := PausedUntil (mm_now s + ms)\<rparr>"])
      (use pause(3) in \<open>auto simp: pause(1) pause_task_def\<close>)
next
  case (publishes i t ticket)
  show ?thesis by (rule kinds_ok_less [OF assms(2)]) (simp add: publishes(1))
qed (rule kinds_ok_less [OF assms(2)], simp add: leave_task_def clear_reading_def refuse_call_def match_stop_def match_arm_def
  split: if_splits)+

definition joinable :: "match_task \<Rightarrow> bool" where
  "joinable t \<longleftrightarrow> tk_kind t = StatusCall \<or> tk_kind t = Polling \<or> (\<exists>a. tk_kind t = Performing a)"

definition joins_ok :: "match_state \<Rightarrow> bool" where
  "joins_ok s \<longleftrightarrow>
     (\<forall>i t j. mm_tasks s i = Some t \<longrightarrow> tk_at t = Joining j \<longrightarrow> joinable t \<and> (\<exists>u. mm_tasks s j = Some u \<and> is_reading u))"

text \<open>The same but for the calls that wait for \<open>j\<close>.\<close>

definition joins_but :: "nat \<Rightarrow> match_state \<Rightarrow> bool" where
  "joins_but k s \<longleftrightarrow>
     (\<forall>i t j. mm_tasks s i = Some t \<longrightarrow> tk_at t = Joining j \<longrightarrow>
        joinable t \<and> (j = k \<or> (\<exists>u. mm_tasks s j = Some u \<and> is_reading u \<and> \<not> (\<exists>l. tk_at u = Joining l))))"

lemma joins_okD: "joins_ok s \<Longrightarrow> mm_tasks s i = Some t \<Longrightarrow> tk_at t = Joining j \<Longrightarrow>
    joinable t \<and> (\<exists>u. mm_tasks s j = Some u \<and> is_reading u)"
  by (simp add: joins_ok_def)

lemma joins_but_if:
  assumes "joins_ok s" "tasks_ok s"
  shows "joins_but k s"
  unfolding joins_but_def
proof (intro allI impI)
  fix i t j
  assume "mm_tasks s i = Some t" "tk_at t = Joining j"
  then obtain u where "joinable t" "mm_tasks s j = Some u" "is_reading u" using joins_okD [OF assms(1)] by blast
  then show "joinable t \<and> (j = k \<or> (\<exists>u. mm_tasks s j = Some u \<and> is_reading u \<and> \<not> (\<exists>l. tk_at u = Joining l)))"
    using task_fine(7) [OF assms(2)] by blast
qed

lemma joins_but_stop:
  assumes "joins_but k s"
  shows "joins_but k (match_stop cfg (s\<lparr>mm_runtime := rt\<rparr>))"
  unfolding joins_but_def
proof (intro allI impI)
  fix i t j
  have cut: "cut_off (s\<lparr>mm_runtime := rt\<rparr>) = cut_off s" by (rule cut_off_tasks) simp
  assume "mm_tasks (match_stop cfg (s\<lparr>mm_runtime := rt\<rparr>)) i = Some t" and joining: "tk_at t = Joining j"
  then have i: "mm_tasks s i = Some t" "\<not> cut_off s i" by (simp_all add: cut split: if_splits)
  have "joinable t" using assms i(1) joining unfolding joins_but_def by blast
  moreover have "j = k \<or> (\<exists>u. mm_tasks (match_stop cfg (s\<lparr>mm_runtime := rt\<rparr>)) j = Some u \<and> is_reading u \<and> \<not> (\<exists>l. tk_at u = Joining l))"
  proof (cases "j = k")
    case False
    then obtain u where u: "mm_tasks s j = Some u" "is_reading u" "\<not> (\<exists>l. tk_at u = Joining l)"
      using assms i(1) joining unfolding joins_but_def by blast
    have "\<not> paused u" using i u(1) joining by (auto simp: cut_off_def)
    then have "\<not> cut_off s j" using u by (auto simp: cut_off_def split: task_at.splits)
    then show ?thesis using u by (simp add: cut)
  qed simp
  ultimately show "joinable t \<and> (j = k \<or> (\<exists>u. mm_tasks (match_stop cfg (s\<lparr>mm_runtime := rt\<rparr>)) j = Some u \<and> is_reading u \<and>
    \<not> (\<exists>l. tk_at u = Joining l)))" by blast
qed

lemma joins_but_session_stop: "joins_but k s \<Longrightarrow> joins_but k (session_stop cfg s)"
  unfolding session_stop_def by (rule joins_but_stop)

text \<open>A call that is no reading leaves.\<close>

lemma joins_but_leave:
  assumes "joins_but k s" "\<And>t. mm_tasks s i = Some t \<Longrightarrow> \<not> is_reading t" "mm_tasks s' = (mm_tasks s)(i := None)"
  shows "joins_but k s'"
  unfolding joins_but_def
proof (intro allI impI)
  fix l u j
  assume "mm_tasks s' l = Some u" "tk_at u = Joining j"
  then have "mm_tasks s l = Some u" by (simp add: assms(3) split: if_splits)
  note kept = assms(1) [unfolded joins_but_def, rule_format, OF this \<open>tk_at u = Joining j\<close>]
  from conjunct2 [OF kept] have "j = k \<or> (\<exists>u. mm_tasks s' j = Some u \<and> is_reading u \<and> \<not> (\<exists>l. tk_at u = Joining l))"
  proof
    assume "\<exists>v. mm_tasks s j = Some v \<and> is_reading v \<and> \<not> (\<exists>l. tk_at v = Joining l)"
    then obtain v where v: "mm_tasks s j = Some v" "is_reading v" "\<not> (\<exists>l. tk_at v = Joining l)" by blast
    then have "j \<noteq> i" using assms(2) by auto
    then show ?thesis using v by (simp add: assms(3))
  qed simp
  with conjunct1 [OF kept]
  show "joinable u \<and> (j = k \<or> (\<exists>u. mm_tasks s' j = Some u \<and> is_reading u \<and> \<not> (\<exists>l. tk_at u = Joining l)))" ..
qed

lemma joins_but_same: "joins_but k s \<Longrightarrow> mm_tasks s' = mm_tasks s \<Longrightarrow> joins_but k s'"
  by (simp add: joins_but_def)

lemma joins_but_run_end:
  assumes "joins_but k s" "\<And>t. mm_tasks s i = Some t \<Longrightarrow> \<not> is_reading t"
  shows "joins_but k (run_end cfg i r s)"
proof (cases "mm_tasks s i")
  case (Some t)
  have leaves: "joins_but k (leave_task i q x)" if "joins_but k x" "\<And>t. mm_tasks x i = Some t \<Longrightarrow> \<not> is_reading t" for x q
    by (rule joins_but_leave [OF that]) (simp_all add: leave_task_def)
  have "mm_tasks (session_stop cfg s) i = Some t \<Longrightarrow> \<not> is_reading t" for t
    using assms(2) by (simp split: if_splits)
  then show ?thesis
    using leaves [OF assms] leaves [OF joins_but_session_stop [OF assms(1)]] by (simp add: run_end_def Some)
qed (use assms(1) in \<open>simp add: run_end_def\<close>)

lemma joins_but_join_done:
  assumes "joins_but k s"
  shows "joins_but k (join_done cfg r i s)"
proof (cases "mm_tasks s i")
  case (Some t)
  have leaves: "joins_but k (leave_task i q s)" if "\<not> is_reading t" for q
    by (rule joins_but_leave [OF assms, of i]) (use that Some in \<open>simp_all add: leave_task_def\<close>)
  have poll: "joins_but k (poll_done cfg i t r s)" if "\<not> is_reading t"
    by (rule joins_but_same [OF leaves [OF that, of r]])
      (simp add: poll_done_def Let_def poll_failed_def match_arm_def split: sum.split)
  show ?thesis
    using leaves poll joins_but_run_end [OF assms, of i cfg] assms Some
    by (cases "tk_kind t") (simp_all add: join_done_def is_reading_def)
qed (use assms in \<open>simp add: join_done_def\<close>)

lemma joins_but_fold: "joins_but k s \<Longrightarrow> joins_but k (fold (join_done cfg r) is s)"
  by (induction "is" arbitrary: s) (simp_all add: joins_but_join_done)

text \<open>A call that waits settles.\<close>

lemma join_done_gone:
  assumes "\<And>t. mm_tasks s i = Some t \<Longrightarrow> joinable t"
  shows "mm_tasks (join_done cfg r i s) i = None"
proof (cases "mm_tasks s i")
  case (Some t)
  show ?thesis
    using assms [OF Some] Some
    by (auto simp: joinable_def join_done_def run_end_def leave_task_def poll_done_def poll_failed_def match_arm_def Let_def split: sum.split)
qed (simp add: join_done_def)

lemma joins_gone:
  assumes "i \<in> set is"
    and "\<And>t. mm_tasks s i = Some t \<Longrightarrow> joinable t"
  shows "mm_tasks (fold (join_done cfg r) is s) i = None"
  using assms
proof (induction "is" arbitrary: s)
  case (Cons j "is")
  let ?s = "join_done cfg r j s"
  show ?case
  proof (cases "mm_tasks ?s i = None")
    case True
    then show ?thesis using only_settles_None [OF joins_settle True] by simp
  next
    case False
    have "i \<noteq> j"
    proof
      assume "i = j"
      have "mm_tasks (join_done cfg r i s) i = None" by (rule join_done_gone) (rule Cons.prems(2))
      then show False using False \<open>i = j\<close> by simp
    qed
    moreover have "joinable t" if "mm_tasks ?s i = Some t" for t
      using Cons.prems(2) only_settles_Some [OF join_done_settles that] by blast
    ultimately show ?thesis using Cons by simp
  qed
qed simp

lemma joins_ok_if:
  assumes "joins_but k s" "\<And>i t. mm_tasks s i = Some t \<Longrightarrow> tk_at t \<noteq> Joining k"
  shows "joins_ok s"
  using assms unfolding joins_ok_def joins_but_def by blast

lemma joins_but_reading_leaves:
  assumes "joins_but j s" "mm_tasks s' = (mm_tasks s)(j := None)"
  shows "joins_but j s'"
  using assms(1) unfolding joins_but_def assms(2) by (auto split: if_splits)

lemma read_end_joins:
  assumes "joins_ok s" "tasks_ok s" "mm_tasks s j = Some t" "is_reading t"
  shows "joins_ok (read_end cfg j t r s)" "mm_tasks (read_end cfg j t r s) j = None"
    "only_settles s (read_end cfg j t r s)"
proof -
  let ?r = "run_result (mm_runtime s) (tk_generation t) r"
  let ?s1 = "if run_signs_out (mm_runtime s) (tk_generation t) r then session_stop cfg s else s"
  let ?s2 = "clear_reading j (leave_task j ?r ?s1)"
  let ?s3 = "fold (join_done cfg ?r) (joined ?s2 j) ?s2"
  have s3: "read_end cfg j t r s = ?s3" by (simp only: read_end_def Let_def)
  have but: "joins_but j s" by (rule joins_but_if [OF assms(1,2)])
  have "joins_but j ?s1" using but joins_but_session_stop [OF but] by simp
  then have but2: "joins_but j ?s2" by (rule joins_but_reading_leaves) (simp add: clear_reading_def leave_task_def)
  have less: "only_settles s ?s2" by (auto simp: only_settles_def clear_reading_def leave_task_def)
  show settles: "only_settles s (read_end cfg j t r s)"
    unfolding s3 by (rule only_settles_trans [OF less joins_settle])
  have "mm_tasks ?s2 j = None" by (simp add: clear_reading_def leave_task_def)
  then show "mm_tasks (read_end cfg j t r s) j = None" unfolding s3 by (rule only_settles_None [OF joins_settle])
  have "tk_at u \<noteq> Joining j" if u: "mm_tasks ?s3 i = Some u" for i u
  proof
    assume joining: "tk_at u = Joining j"
    have old: "mm_tasks ?s2 i = Some u" by (rule only_settles_Some [OF joins_settle u])
    have "mm_tasks s i = Some u" by (rule only_settles_Some [OF less old])
    then have "i < mm_count s" "joinable u" using task_fine(1) [OF assms(2)] joins_okD [OF assms(1)] joining by blast+
    moreover have "mm_count ?s2 = mm_count s"
      by (simp add: clear_reading_def leave_task_def session_stop_def match_stop_def)
    ultimately have "i \<in> set (joined ?s2 j)" using old joining by (simp add: joined_def)
    from joins_gone [OF this, of ?s2 cfg ?r] have "mm_tasks ?s3 i = None" using old \<open>joinable u\<close> by simp
    then show False using u by simp
  qed
  then show "joins_ok (read_end cfg j t r s)"
    unfolding s3 by (rule joins_ok_if [OF joins_but_fold [OF but2]])
qed

lemma joins_ok_settled:
  assumes "joins_ok s" "tasks_ok s" "only_settles s s'" "joins_but (mm_count s) s'"
  shows "joins_ok s'"
proof (rule joins_ok_if [OF assms(4)])
  fix i t
  assume "mm_tasks s' i = Some t"
  then have old: "mm_tasks s i = Some t" by (rule only_settles_Some [OF assms(3)])
  show "tk_at t \<noteq> Joining (mm_count s)"
  proof
    assume "tk_at t = Joining (mm_count s)"
    from joins_okD [OF assms(1) old this] obtain u where "mm_tasks s (mm_count s) = Some u" by blast
    from task_fine(1) [OF assms(2) this] show False by simp
  qed
qed

lemma joins_ok_stop: "joins_ok s \<Longrightarrow> tasks_ok s \<Longrightarrow> joins_ok (match_stop cfg (s\<lparr>mm_runtime := rt\<rparr>))"
proof (rule joins_ok_settled)
  assume "joins_ok s" "tasks_ok s"
  then show "joins_but (mm_count s) (match_stop cfg (s\<lparr>mm_runtime := rt\<rparr>))" by (intro joins_but_stop joins_but_if)
qed (auto simp: only_settles_def)

lemma joins_ok_run_end:
  assumes "joins_ok s" "tasks_ok s" "\<And>t. mm_tasks s i = Some t \<Longrightarrow> \<not> is_reading t"
  shows "joins_ok (run_end cfg i r s)"
  by (rule joins_ok_settled [OF assms(1,2) run_end_settles joins_but_run_end [OF joins_but_if [OF assms(1,2)] assms(3)]])

lemma joins_ok_same: "joins_ok s \<Longrightarrow> mm_tasks s' = mm_tasks s \<Longrightarrow> joins_ok s'"
  by (simp add: joins_ok_def)

lemma joins_ok_put:
  assumes "joins_ok s" "mm_tasks s' = (mm_tasks s)(i \<mapsto> t')" "\<And>t. mm_tasks s i = Some t \<Longrightarrow> is_reading t' = is_reading t"
    "\<And>j. tk_at t' = Joining j \<Longrightarrow> joinable t' \<and> j \<noteq> i \<and> (\<exists>u. mm_tasks s j = Some u \<and> is_reading u)"
  shows "joins_ok s'"
  unfolding joins_ok_def
proof (intro allI impI)
  fix k t j
  assume t: "mm_tasks s' k = Some t" "tk_at t = Joining j"
  have "joinable t \<and> (\<exists>u. mm_tasks s j = Some u \<and> is_reading u)"
    using t assms(2) assms(4) [of j] joins_okD [OF assms(1), of k t j] by (auto split: if_splits)
  then show "joinable t \<and> (\<exists>u. mm_tasks s' j = Some u \<and> is_reading u)"
    using assms(2,3) by (cases "j = i") auto
qed

lemma fresh_task: "tasks_ok s \<Longrightarrow> mm_tasks s (mm_count s) = None"
  using task_fine(1) [of s "mm_count s"] by (cases "mm_tasks s (mm_count s)") auto

lemma start_read_joins:
  assumes "joins_ok s" "tasks_ok s" "start_read cfg b s = (x, s1)"
  shows "joins_ok s1 \<and> (\<forall>k. k \<noteq> mm_count s \<longrightarrow> mm_tasks s1 k = mm_tasks s k) \<and>
    (\<forall>j. x = Inr j \<longrightarrow> (\<exists>u. mm_tasks s1 j = Some u \<and> is_reading u \<and> j < mm_count s1))"
  using assms(3)
proof (cases rule: start_read_cases)
  case (refused e)
  then show ?thesis using assms(1) by simp
next
  case (joins j)
  obtain t where "mm_tasks s j = Some t" "is_reading t" by (rule reading_task [OF assms(2) joins(3)])
  then show ?thesis using joins assms(1) task_fine(1) [OF assms(2)] by auto
next
  case (reads due)
  have "joins_ok s1"
    by (rule joins_ok_put [OF assms(1), of _ "mm_count s" "new_task cfg (Reading b) (PausedUntil due) s"])
      (use fresh_task [OF assms(2)] in \<open>simp_all add: reads(7) add_task_def new_task_def\<close>)
  then show ?thesis
    using reads(1) unfolding reads(7) by (simp add: add_task_def new_task_def is_reading_def)
qed

lemma joined_call:
  assumes "joins_ok s" "tasks_ok s" "start_read cfg b s = (Inr j, s1)" "joinable t" "tk_at t = Joining j"
  shows "joins_ok (add_task t s1)"
proof -
  note reads = start_read_joins [OF assms(1-3)]
  obtain u where u: "mm_tasks s1 j = Some u" "is_reading u" "j < mm_count s1" using reads by blast
  have free: "mm_tasks s1 (mm_count s1) = None"
    using assms(3)
  proof (cases rule: start_read_cases)
    case (reads due)
    show ?thesis by (rule fresh_task [OF atom_tasks_ok [OF reads(2) assms(2)]])
  qed (use fresh_task [OF assms(2)] in simp_all)
  have ok: "joins_ok s1" using reads by blast
  show ?thesis
  proof (rule joins_ok_put [OF ok, of _ "mm_count s1" t])
    fix l
    assume "tk_at t = Joining l"
    then have "l = j" using assms(5) by simp
    then show "joinable t \<and> l \<noteq> mm_count s1 \<and> (\<exists>u. mm_tasks s1 l = Some u \<and> is_reading u)" using assms(4) u by simp
  qed (simp_all add: add_task_def free)
qed

lemma poll_read_joins:
  assumes "joins_ok s" "tasks_ok s"
  shows "joins_ok (poll_read cfg s)"
proof (cases "start_read cfg True s")
  case (Pair x s1)
  show ?thesis
  proof (cases x)
    case (Inl e)
    have "joins_ok s1" using start_read_joins [OF assms Pair] by blast
    then show ?thesis
      by (rule joins_ok_same) (simp add: poll_read_def Pair Inl poll_failed_def)
  next
    case (Inr j)
    have "joinable (new_task cfg Polling (Joining j) s)" "tk_at (new_task cfg Polling (Joining j) s) = Joining j"
      by (simp_all add: new_task_def joinable_def)
    from joined_call [OF assms Pair [unfolded Inr] this] show ?thesis by (simp add: poll_read_def Pair Inr)
  qed
qed

lemma wake_joins:
  assumes "joins_ok s" "tasks_ok s"
  shows "joins_ok (match_wake cfg b s)"
proof -
  let ?s1 = "s\<lparr>mm_timer := None\<rparr>"
  let ?s2 = "if b then ?s1\<lparr>mm_active := True\<rparr> else ?s1"
  have "joins_ok ?s1" "joins_ok ?s2" by (rule joins_ok_same [OF assms(1)], simp)+
  moreover have "tasks_ok ?s2" by (rule tasks_ok_same [OF assms(2)]) simp_all
  ultimately show ?thesis
    using poll_read_joins [of ?s2 cfg] by (simp add: match_wake_def Let_def)
qed

lemma status_joins:
  assumes "joins_ok s" "tasks_ok s"
  shows "joins_ok (status_call cfg s)"
proof (cases "start_read cfg False s")
  case (Pair x s1)
  show ?thesis
  proof (cases x)
    case (Inl e)
    have "joins_ok s1" using start_read_joins [OF assms Pair] by blast
    then show ?thesis by (rule joins_ok_same) (simp add: status_call_def Pair Inl refuse_call_def)
  next
    case (Inr j)
    have "joinable (new_task cfg StatusCall (Joining j) s)" "tk_at (new_task cfg StatusCall (Joining j) s) = Joining j"
      by (simp_all add: new_task_def joinable_def)
    from joined_call [OF assms Pair [unfolded Inr] this] show ?thesis by (simp add: status_call_def Pair Inr)
  qed
qed

lemma start_request_joins:
  assumes "joins_ok s" "tasks_ok s" "kind = Cancelling \<or> (\<exists>a. kind = Performing a)"
  shows "joins_ok (start_request cfg kind q s)"
  by (rule joins_ok_put [OF assms(1), of _ "mm_count s" "new_task cfg kind Requested s"])
    (use fresh_task [OF assms(2)] in \<open>simp_all add: start_request_def send_request_def add_task_def new_task_def Let_def\<close>)

lemma stopped:
  assumes "joins_ok s" "tasks_ok s"
  shows "joins_ok (match_stop cfg s)" "tasks_ok (match_stop cfg s)"
  using joins_ok_stop [OF assms, of cfg "mm_runtime s"] atom_tasks_ok [OF stop_atom assms(2), of cfg] by simp_all

lemma refuse_joins: "joins_ok s \<Longrightarrow> joins_ok (refuse_call e s)"
  by (rule joins_ok_same) (simp_all add: refuse_call_def)

lemma perform_joins: "joins_ok s \<Longrightarrow> tasks_ok s \<Longrightarrow> joins_ok (perform cfg a s)"
  unfolding perform_def by (auto intro: refuse_joins start_request_joins split: option.split)

lemma submit_joins: "joins_ok s \<Longrightarrow> tasks_ok s \<Longrightarrow> joins_ok (submit_call cfg s)"
  unfolding submit_call_def by (auto intro: refuse_joins perform_joins stopped)

lemma cancel_joins:
  assumes "joins_ok s" "tasks_ok s"
  shows "joins_ok (cancel_call cfg s)"
proof -
  have "joins_ok (let s1 = match_stop cfg s in s1\<lparr>mm_count := Suc (mm_count s1), mm_results := mm_results s1 @ [(mm_count s1, Inr None)]\<rparr>)"
    unfolding Let_def by (rule joins_ok_same [OF stopped(1) [OF assms]]) simp
  then show ?thesis
    unfolding cancel_call_def using assms start_request_joins [OF stopped [OF assms]]
    by (auto intro: refuse_joins split: option.split match_mode.split)
qed

lemma perform_answer_joins:
  assumes "joins_ok s" "tasks_ok s" "mm_tasks s i = Some t" "tk_kind t = Performing act"
  shows "joins_ok (perform_answer cfg i t a s)"
proof -
  have not_reading: "\<not> is_reading t" using assms(4) by (simp add: is_reading_def)
  have ends: "joins_ok (run_end cfg i r x)" if "joins_ok x" "tasks_ok x" "mm_tasks x = mm_tasks s" for x r
    by (rule joins_ok_run_end [OF that(1,2)]) (use that(3) assms(3) not_reading in simp)
  have shown: "joins_ok (run_end cfg i r (match_arm d (publish cfg ticket s)))" for r d ticket
    by (rule ends [OF joins_ok_same [OF assms(1)] tasks_ok_same [OF assms(2)]])
      (simp_all add: publish_def match_arm_def Let_def split: option.split)
  have waits: "joins_ok (pause_task i t ms s)" for ms
    by (rule joins_ok_put [OF assms(1), of _ i "t\<lparr>tk_at := PausedUntil (mm_now s + ms)\<rparr>"])
      (use assms(3) in \<open>simp_all add: pause_task_def is_reading_def\<close>)
  have moved: "joins_ok (case start_read cfg False s of (Inl err, s1) \<Rightarrow> run_end cfg i (Inl err) s1
      | (Inr j, s1) \<Rightarrow> s1\<lparr>mm_tasks := (mm_tasks s1)(i \<mapsto> t\<lparr>tk_at := Joining j\<rparr>)\<rparr>)"
  proof (cases "start_read cfg False s")
    case (Pair x s1)
    note reads = start_read_joins [OF assms(1,2) Pair]
    show ?thesis
    proof (cases x)
      case (Inl e)
      from Pair have "s1 = s" by (cases rule: start_read_cases) (simp_all add: Inl)
      then show ?thesis using Pair Inl ends [OF assms(1,2)] by simp
    next
      case (Inr j)
      then obtain u where u: "mm_tasks s1 j = Some u" "is_reading u" using reads by blast
      have task: "mm_tasks s1 i = Some t" using reads task_fine(1) [OF assms(2,3)] assms(3) by simp
      then have "j \<noteq> i" using u not_reading by auto
      have "joins_ok s1" using reads by blast
      then have "joins_ok (s1\<lparr>mm_tasks := (mm_tasks s1)(i \<mapsto> t\<lparr>tk_at := Joining j\<rparr>)\<rparr>)"
        by (rule joins_ok_put [of s1 _ i "t\<lparr>tk_at := Joining j\<rparr>"])
          (use u task assms(4) \<open>j \<noteq> i\<close> in \<open>simp_all add: is_reading_def joinable_def\<close>)
      then show ?thesis using Pair Inr by simp
    qed
  qed
  show ?thesis
    unfolding perform_answer_def
    using ends [OF assms(1,2)] shown waits moved by (auto split: match_answer.split option.split)
qed

lemma answer_joins:
  assumes "joins_ok s" "tasks_ok s"
  shows "joins_ok (match_answer_step cfg i a s)"
proof (cases "mm_tasks s i")
  case (Some t)
  show ?thesis
  proof (cases "tk_kind t")
    case (Reading b)
    then have reading: "is_reading t" by (simp add: is_reading_def)
    have "joins_ok (read_end cfg i t r (publish cfg ticket s))" for r ticket
      by (rule read_end_joins(1) [OF joins_ok_same [OF assms(1)] tasks_ok_same [OF assms(2)] _ reading])
        (simp_all add: Some publish_def match_arm_def Let_def split: option.split)
    then show ?thesis
      using read_end_joins(1) [OF assms Some reading] Some Reading assms(1)
      by (auto simp: match_answer_step_def read_answer_def split: match_answer.split)
  next
    case (Performing act)
    then show ?thesis using perform_answer_joins [OF assms Some] Some assms(1) by (simp add: match_answer_step_def)
  next
    case Cancelling
    have ends: "joins_ok (run_end cfg i r s)" for r
      by (rule joins_ok_run_end [OF assms]) (use Some Cancelling in \<open>simp add: is_reading_def\<close>)
    have waits: "joins_ok (pause_task i t ms s)" for ms
      by (rule joins_ok_put [OF assms(1), of _ i "t\<lparr>tk_at := PausedUntil (mm_now s + ms)\<rparr>"])
        (use Some in \<open>simp_all add: pause_task_def is_reading_def\<close>)
    show ?thesis
      using ends waits Some Cancelling assms(1)
      by (auto simp: match_answer_step_def cancel_answer_def split: match_answer.split option.split)
  qed (use Some assms(1) in \<open>simp_all add: match_answer_step_def\<close>)
qed (use assms(1) in \<open>simp add: match_answer_step_def\<close>)

lemma pause_over_joins:
  assumes "joins_ok s" "tasks_ok s"
  shows "joins_ok (pause_over cfg i s)"
proof (cases "mm_tasks s i")
  case (Some t)
  have sends: "joins_ok (send_request i (t\<lparr>tk_delay := d\<rparr>) q s)" for d q
    by (rule joins_ok_put [OF assms(1), of _ i "t\<lparr>tk_delay := d, tk_at := Requested\<rparr>"])
      (use Some in \<open>simp_all add: send_request_def is_reading_def\<close>)
  have asks: "joins_ok (read_go cfg i t b s)" if "is_reading t" for b
  proof -
    have "joins_ok (send_request i t AskStatus (s\<lparr>mm_lastRead := Some (mm_now s)\<rparr>))"
      by (rule joins_ok_put [OF assms(1), of _ i "t\<lparr>tk_at := Requested\<rparr>"])
        (use Some in \<open>simp_all add: send_request_def is_reading_def\<close>)
    then show ?thesis using read_end_joins(1) [OF assms Some that] by (simp add: read_go_def)
  qed
  have ends: "joins_ok (run_end cfg i r s)" if "\<not> is_reading t" for r
    by (rule joins_ok_run_end [OF assms]) (use Some that in simp)
  show ?thesis
    using sends asks ends assms(1) Some
    by (cases "tk_kind t") (auto simp: pause_over_def is_reading_def split: task_at.split)
qed (use assms(1) in \<open>simp add: pause_over_def\<close>)

lemma session_stop_joins: "joins_ok s \<Longrightarrow> tasks_ok s \<Longrightarrow> joins_ok (session_stop cfg s)"
  unfolding session_stop_def by (rule joins_ok_stop)

lemma step_joins:
  assumes "joins_ok s" "tasks_ok s"
  shows "joins_ok (match_step cfg st s)"
proof (cases st)
  case (ForegroundSet b)
  let ?s = "s\<lparr>mm_runtime := (mm_runtime s)\<lparr>rt_foreground := b\<rparr>, mm_timer := None\<rparr>"
  have "joins_ok ?s" "tasks_ok ?s" by (rule joins_ok_same [OF assms(1)], simp) (rule tasks_ok_same [OF assms(2)], simp_all)
  then show ?thesis using wake_joins [of ?s cfg True] assms(1) ForegroundSet by (cases b) (simp_all add: match_step_def Let_def)
next
  case SignedOutNow
  have "joins_ok (s\<lparr>mm_runtime := rt_change (mm_runtime s)\<rparr>)" by (rule joins_ok_same [OF assms(1)]) simp
  then show ?thesis using SignedOutNow session_stop_joins [OF assms] by (simp add: match_step_def)
next
  case (TimePasses n)
  have "joins_ok (s\<lparr>mm_now := mm_now s + int n\<rparr>)" by (rule joins_ok_same [OF assms(1)]) simp
  then show ?thesis using TimePasses by (simp add: match_step_def)
qed (use assms in \<open>simp_all add: match_step_def submit_joins status_joins cancel_joins perform_joins wake_joins answer_joins pause_over_joins
    joins_ok_stop split: option.split\<close>)

subsection \<open>After the session\<close>

text \<open>Every task belongs to a session that is over.\<close>

definition stale :: "match_state \<Rightarrow> bool" where
  "stale s \<longleftrightarrow> (\<forall>i t. mm_tasks s i = Some t \<longrightarrow> tk_generation t \<noteq> rt_generation (mm_runtime s))"

definition same_rest :: "match_state \<Rightarrow> match_state \<Rightarrow> bool" where
  "same_rest s s' \<longleftrightarrow> only_settles s s' \<and> mm_runtime s' = mm_runtime s \<and> mm_requests s' = mm_requests s"

lemma stale_same: "stale s \<Longrightarrow> same_rest s s' \<Longrightarrow> stale s'"
  unfolding stale_def same_rest_def using only_settles_Some by metis

lemma same_rest_trans: "same_rest s s' \<Longrightarrow> same_rest s' s'' \<Longrightarrow> same_rest s s''"
  unfolding same_rest_def using only_settles_trans by (metis (no_types))

lemma stale_run: "stale s \<Longrightarrow> mm_tasks s i = Some t \<Longrightarrow> \<not> run_signs_out (mm_runtime s) (tk_generation t) r"
  unfolding stale_def run_signs_out_def by metis

lemma stale_invalid: "stale s \<Longrightarrow> mm_tasks s i = Some t \<Longrightarrow> \<not> match_valid t s"
  by (auto simp: stale_def match_valid_def)

lemma leave_same: "same_rest s (leave_task i r s)"
  by (simp add: same_rest_def leave_task_def only_settles_def)

lemma stale_run_end:
  assumes "stale s"
  shows "same_rest s (run_end cfg i r s)" "mm_tasks (run_end cfg i r s) i = None"
proof -
  have "run_end cfg i r s = (case mm_tasks s i of None \<Rightarrow> s | Some t \<Rightarrow> leave_task i (run_result (mm_runtime s) (tk_generation t) r) s)"
  proof (cases "mm_tasks s i")
    case (Some t)
    then show ?thesis using stale_run [OF assms Some, of r] by (simp add: run_end_def)
  qed (simp add: run_end_def)
  then show "same_rest s (run_end cfg i r s)" "mm_tasks (run_end cfg i r s) i = None"
    using leave_same by (simp_all add: same_rest_def leave_task_def split: option.split)
qed

lemma stale_join_done: "stale s \<Longrightarrow> same_rest s (join_done cfg r i s)"
proof (cases "mm_tasks s i")
  case (Some t)
  assume "stale s"
  then show ?thesis
    using Some stale_invalid [OF _ Some] stale_run_end(1) leave_same
    by (cases "tk_kind t") (simp_all add: join_done_def poll_done_def Let_def same_rest_def)
qed (simp add: join_done_def same_rest_def)

lemma stale_joins: "stale s \<Longrightarrow> same_rest s (fold (join_done cfg r) is s)"
proof (induction "is" arbitrary: s)
  case (Cons i "is")
  note first = stale_join_done [OF Cons.prems, of cfg r i]
  from same_rest_trans [OF first Cons.IH [OF stale_same [OF Cons.prems first]]] show ?case by simp
qed (simp add: same_rest_def)

lemma stale_read_end:
  assumes "stale s" "mm_tasks s j = Some t"
  shows "same_rest s (read_end cfg j t r s)"
proof -
  let ?s2 = "clear_reading j (leave_task j (run_result (mm_runtime s) (tk_generation t) r) s)"
  have two: "same_rest s ?s2" by (simp add: same_rest_def leave_task_def clear_reading_def only_settles_def)
  have "\<not> run_signs_out (mm_runtime s) (tk_generation t) r" by (rule stale_run [OF assms])
  then have "read_end cfg j t r s = fold (join_done cfg (run_result (mm_runtime s) (tk_generation t) r)) (joined ?s2 j) ?s2"
    by (simp add: read_end_def Let_def)
  then show ?thesis using same_rest_trans [OF two stale_joins [OF stale_same [OF assms(1) two]]] by simp
qed

lemma stale_answer:
  assumes "stale s" "joins_ok s" "tasks_ok s" "kinds_ok s"
  shows "same_rest s (match_answer_step cfg i a s)"
    "mm_tasks s i = Some t \<Longrightarrow> tk_at t = Requested \<Longrightarrow> mm_tasks (match_answer_step cfg i a s) i = None"
proof -
  have "same_rest s (match_answer_step cfg i a s) \<and>
      (\<forall>t. mm_tasks s i = Some t \<longrightarrow> tk_at t = Requested \<longrightarrow> mm_tasks (match_answer_step cfg i a s) i = None)"
  proof (cases "\<exists>t. mm_tasks s i = Some t \<and> tk_at t = Requested \<and> (is_reading t \<or> tk_kind t = Cancelling \<or> (\<exists>act. tk_kind t = Performing act))")
    case True
    then obtain t where t: "mm_tasks s i = Some t" "tk_at t = Requested"
        "is_reading t \<or> tk_kind t = Cancelling \<or> (\<exists>act. tk_kind t = Performing act)" by blast
    have "(\<exists>r. match_answer_step cfg i a s = run_end cfg i r s) \<or> (is_reading t \<and> (\<exists>r. match_answer_step cfg i a s = read_end cfg i t r s))"
      using t stale_invalid [OF assms(1) t(1)]
      by (cases a) (auto simp: match_answer_step_def perform_answer_def cancel_answer_def read_answer_def is_reading_def split: task_kind.splits)
    then show ?thesis
      using stale_run_end [OF assms(1)] stale_read_end [OF assms(1) t(1)] read_end_joins(2) [OF assms(2,3) t(1)] by auto
  next
    case False
    have "match_answer_step cfg i a s = s"
      using False by (auto simp: match_answer_step_def is_reading_def split: option.split task_kind.split)
    moreover have "tk_at t \<noteq> Requested" if "mm_tasks s i = Some t" for t
      using False kinds_okD [OF assms(4) that] that
      by (cases "tk_kind t") (auto simp: is_reading_def)
    ultimately show ?thesis by (simp add: same_rest_def)
  qed
  then show "same_rest s (match_answer_step cfg i a s)"
    "mm_tasks s i = Some t \<Longrightarrow> tk_at t = Requested \<Longrightarrow> mm_tasks (match_answer_step cfg i a s) i = None" by blast+
qed

definition settled_ok :: "match_state \<Rightarrow> bool" where
  "settled_ok s \<longleftrightarrow> tasks_ok s \<and> joins_ok s \<and> kinds_ok s \<and> results_ok s"

lemma step_settled_ok: "settled_ok s \<Longrightarrow> settled_ok (match_step cfg st s)"
proof -
  assume ok: "settled_ok s"
  then have atoms: "atoms cfg s (match_step cfg st s)" using step_atoms by (simp add: settled_ok_def)
  have "tasks_ok (match_step cfg st s) \<and> kinds_ok (match_step cfg st s) \<and> results_ok (match_step cfg st s)"
    by (rule atoms_induct [OF atoms, of "\<lambda>x. tasks_ok x \<and> kinds_ok x \<and> results_ok x"])
      (use ok atom_tasks_ok atom_kinds_ok atom_results_ok in \<open>auto simp: settled_ok_def\<close>)
  then show ?thesis using ok step_joins by (simp add: settled_ok_def)
qed

lemma run_settled_ok: "match_run cfg s s' \<Longrightarrow> settled_ok s \<Longrightarrow> settled_ok s'"
  by (induction rule: match_run.induct) (simp_all add: step_settled_ok)

lemma created_settled_ok: "createMatchmaking cfg rt now = Inr s \<Longrightarrow> settled_ok s"
  using created_tasks_ok [of cfg rt now s]
  by (auto simp: settled_ok_def createMatchmaking_def joins_ok_def kinds_ok_def results_ok_def split: if_splits)

text \<open>All outstanding requests are answered.\<close>

lemma answers_settle:
  assumes "settled_ok s" "stale s" "\<And>i t. mm_tasks s i = Some t \<Longrightarrow> tk_at t = Requested \<Longrightarrow> \<exists>a. (i, a) \<in> set answers"
  shows "same_rest s (run_steps cfg (map (\<lambda>(i, a). ServiceAnswers i a) answers) s)"
    "settled_ok (run_steps cfg (map (\<lambda>(i, a). ServiceAnswers i a) answers) s)"
    "mm_tasks (run_steps cfg (map (\<lambda>(i, a). ServiceAnswers i a) answers) s) i = Some t \<Longrightarrow> tk_at t \<noteq> Requested"
proof -
  have "same_rest s (run_steps cfg (map (\<lambda>(i, a). ServiceAnswers i a) answers) s) \<and>
      settled_ok (run_steps cfg (map (\<lambda>(i, a). ServiceAnswers i a) answers) s) \<and>
      (\<forall>i t. mm_tasks (run_steps cfg (map (\<lambda>(i, a). ServiceAnswers i a) answers) s) i = Some t \<longrightarrow> tk_at t \<noteq> Requested)"
    using assms
  proof (induction answers arbitrary: s)
    case Nil
    then show ?case by (auto simp: run_steps_def same_rest_def)
  next
    case (Cons x answers)
    obtain j a where x: "x = (j, a)" by (cases x)
    let ?s = "match_answer_step cfg j a s"
    have ok: "joins_ok s" "tasks_ok s" "kinds_ok s" using Cons.prems(1) by (simp_all add: settled_ok_def)
    note answered = stale_answer [OF Cons.prems(2) ok, where cfg = cfg and i = j and a = a]
    have step: "?s = match_step cfg (ServiceAnswers j a) s" by (simp add: match_step_def)
    have ok': "settled_ok ?s" unfolding step by (rule step_settled_ok [OF Cons.prems(1)])
    have stale': "stale ?s" by (rule stale_same [OF Cons.prems(2) answered(1)])
    have rest: "\<exists>a. (i, a) \<in> set answers" if task: "mm_tasks ?s i = Some t" "tk_at t = Requested" for i t
    proof -
      have old: "mm_tasks s i = Some t" using answered(1) task(1) only_settles_Some by (auto simp: same_rest_def)
      have "i \<noteq> j" using answered(2) old task by auto
      then show ?thesis using Cons.prems(3) [OF old task(2)] x by auto
    qed
    have "run_steps cfg (map (\<lambda>(i, a). ServiceAnswers i a) (x # answers)) s =
        run_steps cfg (map (\<lambda>(i, a). ServiceAnswers i a) answers) ?s"
      by (simp add: run_steps_def x match_step_def)
    then show ?case using Cons.IH [OF ok' stale' rest] same_rest_trans [OF answered(1)] by simp
  qed
  then show "same_rest s (run_steps cfg (map (\<lambda>(i, a). ServiceAnswers i a) answers) s)"
    "settled_ok (run_steps cfg (map (\<lambda>(i, a). ServiceAnswers i a) answers) s)"
    "mm_tasks (run_steps cfg (map (\<lambda>(i, a). ServiceAnswers i a) answers) s) i = Some t \<Longrightarrow> tk_at t \<noteq> Requested"
    by blast+
qed

text \<open>Nothing is left when nothing is outstanding.\<close>

lemma nothing_left:
  assumes "settled_ok s" "stale s" "\<And>i t. mm_tasks s i = Some t \<Longrightarrow> tk_at t \<noteq> Requested"
  shows "mm_tasks s = Map.empty"
proof -
  have ok: "tasks_ok s" "joins_ok s" using assms(1) by (simp_all add: settled_ok_def)
  have unpaused: "\<not> paused t" if "mm_tasks s i = Some t" for i t
    using task_fine(4,6) [OF ok(1) that] assms(2) that by (auto simp: stale_def)
  have joining: "\<exists>j. tk_at t = Joining j" if "mm_tasks s i = Some t" for i t
    using unpaused [OF that] assms(3) [OF that] by (cases "tk_at t") (simp_all add: paused_def)
  have "mm_tasks s i = None" for i
  proof (cases "mm_tasks s i")
    case (Some t)
    then obtain j u where "mm_tasks s j = Some u" "is_reading u" using joining joins_okD [OF ok(2)] by blast
    then show ?thesis using joining task_fine(7) [OF ok(1)] by blast
  qed
  then show ?thesis by (simp add: fun_eq_iff)
qed

lemma signed_out_stale:
  assumes "tasks_ok s"
  shows "stale (match_step cfg SignedOutNow s)"
proof -
  have "tk_generation t < Suc (rt_generation (mm_runtime s))" if "mm_tasks s i = Some t" for i t
    using task_fine(3) [OF assms that] by simp
  then show ?thesis
    unfolding stale_def match_step_def
    by (fastforce simp: session_stop_def match_stop_def rt_stop_def rt_change_def split: if_splits)
qed

text \<open>
  C27: Every call of the matchmaking settles, and only once: after a sign-out the pauses are over at
  once, and when the service has answered the requests that were under way, in any order and whatever
  the answers, every call ever made has exactly one result and none of them has sent another request.
\<close>
theorem every_matchmaking_call_settles:
  assumes "createMatchmaking cfg rt now = Inr s0" "match_run cfg s0 s" "s1 = match_step cfg SignedOutNow s"
    and "\<forall>i t. mm_tasks s1 i = Some t \<longrightarrow> tk_at t = Requested \<longrightarrow> (\<exists>a. (i, a) \<in> set answers)"
    and "s2 = run_steps cfg (map (\<lambda>(i, a). ServiceAnswers i a) answers) s1"
  shows "mm_tasks s2 = Map.empty \<and> distinct (map fst (mm_results s2)) \<and> fst ` set (mm_results s2) = {i. i < mm_count s2} \<and>
    mm_requests s2 = mm_requests s1"
proof -
  have ok: "settled_ok s" by (rule run_settled_ok [OF assms(2) created_settled_ok [OF assms(1)]])
  have ok1: "settled_ok s1" unfolding assms(3) by (rule step_settled_ok [OF ok])
  have stale: "stale s1" unfolding assms(3) by (rule signed_out_stale) (use ok in \<open>simp add: settled_ok_def\<close>)
  note done_all = answers_settle [OF ok1 stale, where answers = answers and cfg = cfg, folded assms(5)]
  have outstanding: "\<And>i t. mm_tasks s1 i = Some t \<Longrightarrow> tk_at t = Requested \<Longrightarrow> \<exists>a. (i, a) \<in> set answers"
    using assms(4) by blast
  have empty: "mm_tasks s2 = Map.empty"
    by (rule nothing_left) (use done_all outstanding stale_same [OF stale] in blast)+
  moreover have "results_ok s2" using done_all(2) outstanding by (simp add: settled_ok_def)
  moreover have "mm_requests s2 = mm_requests s1" using done_all(1) outstanding by (simp add: same_rest_def)
  ultimately show ?thesis unfolding results_ok_def by auto
qed

text \<open>A submission that pauses, a reading with a second caller, and a poll.\<close>

definition open_calls :: match_state where
  "open_calls = run_steps match_cfg [SubmitCall, StatusAsked, StatusAsked, PauseOver 1, ServiceAnswers 0 busy_answer] match_start"

lemma every_matchmaking_call_settles_witness:
  "mm_results (run_steps match_cfg [ServiceAnswers 1 (Answered (Some waiting_ticket))] (match_step match_cfg SignedOutNow open_calls)) \<noteq> [] \<and>
   mm_tasks (run_steps match_cfg [ServiceAnswers 1 (Answered (Some waiting_ticket))] (match_step match_cfg SignedOutNow open_calls)) = Map.empty"
proof -
  let ?s1 = "match_step match_cfg SignedOutNow open_calls"
  have count: "mm_count ?s1 = 4" by code_simp
  have "settled_ok ?s1"
    unfolding open_calls_def
    by (rule step_settled_ok, rule run_settled_ok [OF run_steps_run [OF match_here] created_settled_ok [OF match_start_created]])
  then have range: "i < 4" if "mm_tasks ?s1 i = Some t" for i t
    using that task_fine(1) [OF _ that] count by (simp add: settled_ok_def)
  have others: "\<forall>i \<in> set [0, 2, 3]. case mm_tasks ?s1 i of None \<Rightarrow> True | Some t \<Rightarrow> tk_at t \<noteq> Requested" by code_simp
  have "i = 1" if task: "mm_tasks ?s1 i = Some t" "tk_at t = Requested" for i t
  proof (rule ccontr)
    assume "i \<noteq> 1"
    with range [OF task(1)] have "i \<in> set [0, 2, 3]" by auto
    with others task show False by fastforce
  qed
  then have outstanding: "\<forall>i t. mm_tasks ?s1 i = Some t \<longrightarrow> tk_at t = Requested \<longrightarrow>
      (\<exists>a. (i, a) \<in> set [(1, Answered (Some waiting_ticket))])"
    by simp
  have "mm_results (run_steps match_cfg [ServiceAnswers 1 (Answered (Some waiting_ticket))] ?s1) \<noteq> []" by code_simp
  with every_matchmaking_call_settles [OF match_start_created run_steps_run [OF match_here] refl
      outstanding [unfolded open_calls_def] refl]
  show ?thesis by (simp add: open_calls_def)
qed

end
