(* ===== verification/Lambda_Authorizer.thy ===== *)
theory Lambda_Authorizer
  imports Kv_Client
begin

section \<open>Lambda authorizers (lambda-authorizer, lambda-authorizer-jwt)\<close>

text \<open>
  Where a credential is read from, how it is parsed, and when a policy allows a request. An authorizer
  is an effect on a world \<open>'w\<close>; the login, \<open>jsonwebtoken\<close> and the base64 decoder of the platform are
  parameters, and errors are the values \<open>'e\<close> they throw or the two of the package. Log lines are left
  out. \<open>toLowerCase\<close> is exact for comparing with ASCII text: letters outside ASCII become no ASCII
  text, but for the Kelvin sign.
\<close>

subsection \<open>Sources (sources.ts)\<close>

definition lower_unit :: "u16 \<Rightarrow> u16" where
  "lower_unit u = (if 65 \<le> u \<and> u \<le> 90 then u + 32 else if u = 0x212A then 107 else u)"

definition toLowerCase :: "ustring \<Rightarrow> ustring" where
  "toLowerCase s = map lower_unit s"

fun split_unit :: "u16 \<Rightarrow> ustring \<Rightarrow> ustring list" where
  "split_unit d [] = [[]]"
| "split_unit d (u # us) =
     (if u = d then [] # split_unit d us else (u # hd (split_unit d us)) # tl (split_unit d us))"

type_synonym headers = "(ustring \<times> ustring option) list option"

datatype AuthorizationSource = FromHeader "ustring option" | FromQueryString ustring | FromSubprotocol "ustring option"

record request_event =
  re_headers :: headers
  re_query :: "(ustring \<Rightarrow> ustring option) option"
  re_methodArn :: ustring

definition defaultAuthorizationSources :: "AuthorizationSource list" where
  "defaultAuthorizationSources = [FromHeader None, FromSubprotocol None]"

definition authorizationHeader :: ustring where
  "authorizationHeader = ascii ''authorization''"

definition subprotocolHeader :: ustring where
  "subprotocolHeader = ascii ''sec-websocket-protocol''"

definition subprotocolMarker :: ustring where
  "subprotocolMarker = ascii ''bearer''"

definition readHeader :: "headers \<Rightarrow> ustring \<Rightarrow> ustring option" where
  "readHeader headers name =
     (case headers of
        None \<Rightarrow> None
      | Some hs \<Rightarrow>
          (case find (\<lambda>(k, v). toLowerCase k = toLowerCase name \<and> v \<noteq> None \<and> v \<noteq> Some []) hs of
             None \<Rightarrow> None
           | Some (k, v) \<Rightarrow> v))"

text \<open>The entry after the first one that is the marker.\<close>

fun entry_after :: "(ustring \<Rightarrow> bool) \<Rightarrow> ustring list \<Rightarrow> ustring option" where
  "entry_after p [] = None"
| "entry_after p (x # xs) = (if p x then (case xs of [] \<Rightarrow> None | y # ys \<Rightarrow> Some y) else entry_after p xs)"

definition readSubprotocolToken :: "headers \<Rightarrow> ustring \<Rightarrow> ustring option" where
  "readSubprotocolToken headers marker =
     (case readHeader headers subprotocolHeader of
        None \<Rightarrow> None
      | Some raw \<Rightarrow>
          (let offered = map trim (split_unit 44 raw);
               wanted = toLowerCase marker in
           case entry_after (\<lambda>entry. toLowerCase entry = wanted) offered of
             None \<Rightarrow> None
           | Some token \<Rightarrow> if token = [] then None else Some token))"

definition or_name :: "ustring option \<Rightarrow> ustring \<Rightarrow> ustring" where
  "or_name name other = (case name of None \<Rightarrow> other | Some n \<Rightarrow> n)"

definition readSource :: "request_event \<Rightarrow> AuthorizationSource \<Rightarrow> ustring option" where
  "readSource event source =
     (case source of
        FromHeader name \<Rightarrow> readHeader (re_headers event) (or_name name authorizationHeader)
      | FromQueryString name \<Rightarrow>
          (case re_query event of
             None \<Rightarrow> None
           | Some q \<Rightarrow>
               (case q name of
                  None \<Rightarrow> None
                | Some v \<Rightarrow> if v = [] then None else Some (ascii ''Bearer '' @ v)))
      | FromSubprotocol name \<Rightarrow>
          map_option (\<lambda>token. ascii ''Bearer '' @ token)
            (readSubprotocolToken (re_headers event) (or_name name subprotocolMarker)))"

fun readAuthorization :: "request_event \<Rightarrow> AuthorizationSource list \<Rightarrow> ustring option" where
  "readAuthorization event [] = None"
| "readAuthorization event (source # sources) =
     (case readSource event source of None \<Rightarrow> readAuthorization event sources | Some found \<Rightarrow> Some found)"

subsection \<open>Parsing (parse.ts)\<close>

record BasicCredential =
  bc_id :: ustring
  bc_password :: ustring

datatype Authorization = Basic BasicCredential | Bearer ustring | Unknown ustring ustring

definition splitByDelimiter :: "ustring \<Rightarrow> u16 \<Rightarrow> ustring \<times> ustring" where
  "splitByDelimiter data delim =
     (case find_sub [delim] data of
        None \<Rightarrow> ([], [])
      | Some pos \<Rightarrow> if 0 < pos then (take pos data, drop (pos + 1) data) else ([], []))"

definition parseAuthorization :: "(ustring \<Rightarrow> ustring) \<Rightarrow> ustring \<Rightarrow> Authorization" where
  "parseAuthorization base64_text raw =
     (let (scheme, credential) = splitByDelimiter raw 32;
          lowered = toLowerCase scheme in
      if lowered = ascii ''basic'' then
        (let (i, p) = splitByDelimiter (trim (base64_text credential)) 58 in Basic \<lparr>bc_id = i, bc_password = p\<rparr>)
      else if lowered = ascii ''bearer'' then Bearer credential
      else Unknown scheme credential)"

subsection \<open>Policies (policy.ts, authorizer.ts, requestAuthorizer.ts)\<close>

datatype 'e auth_error = NoAuthorization | Unauthorized | AuthThrown 'e

type_synonym auth_context = "(ustring \<times> json) list"

record Authorized =
  au_allow :: bool
  au_context :: "auth_context option"
  au_principalId :: "ustring option"

datatype policy_effect = Allow | Deny

record auth_policy =
  ap_principalId :: ustring
  ap_effect :: policy_effect
  ap_resource :: ustring
  ap_context :: "auth_context option"

type_synonym ('e, 'w) Authorizer = "Authorization \<Rightarrow> ('e auth_error, Authorized, 'w) eff"

definition refusal :: Authorized where
  "refusal = \<lparr>au_allow = False, au_context = None, au_principalId = None\<rparr>"

definition build_policy :: "ustring \<Rightarrow> Authorized \<Rightarrow> auth_policy" where
  "build_policy methodArn authorized =
     \<lparr>ap_principalId = or_name (au_principalId authorized) (ascii ''user''),
      ap_effect = (if au_allow authorized then Allow else Deny),
      ap_resource = methodArn,
      ap_context = (if au_allow authorized then au_context authorized else None)\<rparr>"

text \<open>An error handler of the caller may return; the default one throws.\<close>

definition authorizeRequest ::
  "(ustring \<Rightarrow> ustring) \<Rightarrow> ustring option \<Rightarrow> ustring \<Rightarrow> ('e, 'w) Authorizer \<Rightarrow>
   ('e auth_error \<Rightarrow> ('e auth_error, unit, 'w) eff) option \<Rightarrow> ('e auth_error, auth_policy, 'w) eff" where
  "authorizeRequest base64_text rawAuthorization methodArn authorize onError =
     bind_eff
       (catch_eff
          (case rawAuthorization of
             None \<Rightarrow> throw_eff NoAuthorization
           | Some raw \<Rightarrow> authorize (parseAuthorization base64_text raw))
          (\<lambda>e. then_eff (case onError of None \<Rightarrow> throw_eff Unauthorized | Some h \<Rightarrow> h e) (return_eff refusal)))
       (\<lambda>authorized. return_eff (build_policy methodArn authorized))"

record token_event =
  te_authorizationToken :: "ustring option"
  te_methodArn :: ustring

definition createAuthorizer ::
  "(ustring \<Rightarrow> ustring) \<Rightarrow> ('e, 'w) Authorizer \<Rightarrow> ('e auth_error \<Rightarrow> ('e auth_error, unit, 'w) eff) option \<Rightarrow>
   token_event \<Rightarrow> ('e auth_error, auth_policy, 'w) eff" where
  "createAuthorizer base64_text authorize onError event =
     authorizeRequest base64_text (te_authorizationToken event) (te_methodArn event) authorize onError"

definition createRequestAuthorizer ::
  "(ustring \<Rightarrow> ustring) \<Rightarrow> ('e, 'w) Authorizer \<Rightarrow> AuthorizationSource list \<Rightarrow>
   ('e auth_error \<Rightarrow> ('e auth_error, unit, 'w) eff) option \<Rightarrow> request_event \<Rightarrow> ('e auth_error, auth_policy, 'w) eff" where
  "createRequestAuthorizer base64_text authorize sources onError event =
     authorizeRequest base64_text (readAuthorization event sources) (re_methodArn event) authorize onError"

subsection \<open>Tokens (verifyBearer.ts, jwtAuthorizer.ts, jwtRequestAuthorizer.ts)\<close>

text \<open>
  \<open>je_verify\<close> is \<open>jwt.verify\<close> with the secret and the options of the deployment, which gives any
  JSON value; \<open>je_sign\<close> is \<open>jwt.sign\<close>.
\<close>

record ('e, 'w) jwt_env =
  je_verify :: "ustring \<Rightarrow> ('e auth_error, json, 'w) eff"
  je_sign :: "json \<Rightarrow> ('e auth_error, ustring, 'w) eff"
  je_login :: "BasicCredential \<Rightarrow> ('e auth_error, bool, 'w) eff"
  je_buildPayload :: "BasicCredential \<Rightarrow> json"
  je_buildContext :: "auth_context \<Rightarrow> ('e auth_error, auth_context, 'w) eff"
  je_requireExpiry :: bool

definition default_payload :: "BasicCredential \<Rightarrow> json" where
  "default_payload credential = JObj [(ascii ''id'', JStr (bc_id credential))]"

text \<open>The first claim that is a text and not empty.\<close>

definition claim_text :: "auth_context \<Rightarrow> string \<Rightarrow> ustring option" where
  "claim_text claims name =
     (case map_of claims (ascii name) of Some (JStr t) \<Rightarrow> if t = [] then None else Some t | _ \<Rightarrow> None)"

definition memberIdFromSubject :: "auth_context \<Rightarrow> auth_context" where
  "memberIdFromSubject claims =
     (case claim_text claims ''sub'' of
        Some t \<Rightarrow> [(ascii ''memberId'', JStr t)]
      | None \<Rightarrow>
          (case claim_text claims ''id'' of Some t \<Rightarrow> [(ascii ''memberId'', JStr t)] | None \<Rightarrow> []))"

definition member_of :: "auth_context \<Rightarrow> ustring option" where
  "member_of ctx = text_of (map_of ctx (ascii ''memberId''))"

definition verifyBearer :: "('e, 'w) jwt_env \<Rightarrow> ustring \<Rightarrow> ('e auth_error, Authorized, 'w) eff" where
  "verifyBearer env token =
     bind_eff (je_verify env token) (\<lambda>verified.
       case verified of
         JObj claims \<Rightarrow>
           (if je_requireExpiry env \<and> map_of claims (ascii ''exp'') = None then return_eff refusal
            else
              bind_eff (je_buildContext env claims) (\<lambda>ctx.
                if ctx = [] then return_eff refusal
                else return_eff \<lparr>au_allow = True, au_context = Some ctx, au_principalId = member_of ctx\<rparr>))
       | _ \<Rightarrow> return_eff refusal)"

definition jwt_authorize :: "('e, 'w) jwt_env \<Rightarrow> ('e, 'w) Authorizer" where
  "jwt_authorize env auth =
     (case auth of
        Basic credential \<Rightarrow>
          bind_eff (je_login env credential) (\<lambda>accepted.
            if \<not> accepted then return_eff refusal
            else
              bind_eff (je_sign env (je_buildPayload env credential)) (\<lambda>token.
                return_eff \<lparr>au_allow = True, au_context = Some [(ascii ''token'', JStr token)], au_principalId = None\<rparr>))
      | Bearer token \<Rightarrow> verifyBearer env token
      | Unknown scheme credential \<Rightarrow> return_eff refusal)"

definition createJwtAuthorizer ::
  "(ustring \<Rightarrow> ustring) \<Rightarrow> ('e, 'w) jwt_env \<Rightarrow> token_event \<Rightarrow> ('e auth_error, auth_policy, 'w) eff" where
  "createJwtAuthorizer base64_text env event = createAuthorizer base64_text (jwt_authorize env) None event"

definition jwt_request_authorize :: "('e, 'w) jwt_env \<Rightarrow> ('e, 'w) Authorizer" where
  "jwt_request_authorize env auth =
     (case auth of Bearer token \<Rightarrow> verifyBearer env token | _ \<Rightarrow> return_eff refusal)"

definition createJwtRequestAuthorizer ::
  "(ustring \<Rightarrow> ustring) \<Rightarrow> ('e, 'w) jwt_env \<Rightarrow> AuthorizationSource list option \<Rightarrow>
   ('e auth_error \<Rightarrow> ('e auth_error, unit, 'w) eff) option \<Rightarrow> request_event \<Rightarrow> ('e auth_error, auth_policy, 'w) eff" where
  "createJwtRequestAuthorizer base64_text env sources onError event =
     createRequestAuthorizer base64_text (jwt_request_authorize env)
       (case sources of None \<Rightarrow> defaultAuthorizationSources | Some ss \<Rightarrow> ss) onError event"

subsection \<open>An allowed request carries a verified token\<close>

lemma policy_simps:
  "ap_effect (build_policy arn a) = Allow \<longleftrightarrow> au_allow a"
  "ap_effect (build_policy arn a) = Deny \<longleftrightarrow> \<not> au_allow a"
  "\<not> au_allow a \<Longrightarrow> ap_context (build_policy arn a) = None"
  by (simp_all add: build_policy_def)

lemma refusal_simps [simp]: "\<not> au_allow refusal"
  by (simp add: refusal_def)

lemma verified_bearer:
  assumes "verifyBearer env token w = Some (Inr a, w')" "au_allow a"
  obtains claims ctx w1 where "je_verify env token w = Some (Inr (JObj claims), w1)"
    "je_requireExpiry env \<longrightarrow> map_of claims (ascii ''exp'') \<noteq> None"
    "je_buildContext env claims w1 = Some (Inr ctx, w')" "ctx \<noteq> []"
    "a = \<lparr>au_allow = True, au_context = Some ctx, au_principalId = member_of ctx\<rparr>"
  using assms by (auto simp: verifyBearer_def eff_simps elim!: bind_eff_SomeE split: json.splits if_splits)

lemma authorized_policy:
  assumes "authorizeRequest b raw arn authorize onError w = Some (Inr p, w')"
  obtains a where "p = build_policy arn a" "au_allow a \<longrightarrow> (\<exists>r. raw = Some r \<and> authorize (parseAuthorization b r) w = Some (Inr a, w'))"
proof -
  obtain a w1 where a: "p = build_policy arn a" "w' = w1"
    "catch_eff (case raw of None \<Rightarrow> throw_eff NoAuthorization | Some r \<Rightarrow> authorize (parseAuthorization b r))
       (\<lambda>e. then_eff (case onError of None \<Rightarrow> throw_eff Unauthorized | Some h \<Rightarrow> h e) (return_eff refusal)) w = Some (Inr a, w1)"
    using assms by (auto simp: authorizeRequest_def eff_simps elim!: bind_eff_SomeE)
  have "\<exists>r. raw = Some r \<and> authorize (parseAuthorization b r) w = Some (Inr a, w1)" if "au_allow a"
    using a(3) that
    by (cases raw) (auto simp: catch_eff_def then_eff_def eff_simps split: option.splits sum.splits prod.splits elim!: bind_eff_SomeE)
  then show thesis using that a(1,2) by blast
qed

text \<open>
  C32: A policy of the authorizer of handshakes allows a request only when one of the sources carries a
  bearer token that verifies to a set of claims with an expiry and an identity, names that identity and
  carries the context built of those claims; every other policy denies, and one that denies carries no
  context.
\<close>
theorem allowed_means_verified:
  assumes "createJwtRequestAuthorizer b env sources onError event w = Some (Inr p, w')"
  shows "ap_resource p = re_methodArn event \<and>
    (if ap_effect p = Allow then
       \<exists>raw token claims ctx w1.
         readAuthorization event (case sources of None \<Rightarrow> defaultAuthorizationSources | Some ss \<Rightarrow> ss) = Some raw \<and>
         parseAuthorization b raw = Bearer token \<and> je_verify env token w = Some (Inr (JObj claims), w1) \<and>
         (je_requireExpiry env \<longrightarrow> map_of claims (ascii ''exp'') \<noteq> None) \<and>
         je_buildContext env claims w1 = Some (Inr ctx, w') \<and> ctx \<noteq> [] \<and> ap_context p = Some ctx \<and>
         ap_principalId p = or_name (member_of ctx) (ascii ''user'')
     else ap_effect p = Deny \<and> ap_context p = None)"
proof -
  obtain a where a: "p = build_policy (re_methodArn event) a"
    "au_allow a \<longrightarrow> (\<exists>r. readAuthorization event (case sources of None \<Rightarrow> defaultAuthorizationSources | Some ss \<Rightarrow> ss) = Some r \<and>
       jwt_request_authorize env (parseAuthorization b r) w = Some (Inr a, w'))"
    using authorized_policy [OF assms [unfolded createJwtRequestAuthorizer_def createRequestAuthorizer_def]] by blast
  show ?thesis
  proof (cases "au_allow a")
    case True
    then obtain raw where raw: "readAuthorization event (case sources of None \<Rightarrow> defaultAuthorizationSources | Some ss \<Rightarrow> ss) = Some raw"
      "jwt_request_authorize env (parseAuthorization b raw) w = Some (Inr a, w')" using a(2) by blast
    then obtain token where token: "parseAuthorization b raw = Bearer token" "verifyBearer env token w = Some (Inr a, w')"
      using True by (auto simp: jwt_request_authorize_def eff_simps split: Authorization.splits)
    obtain claims ctx w1 where v: "je_verify env token w = Some (Inr (JObj claims), w1)"
      "je_requireExpiry env \<longrightarrow> map_of claims (ascii ''exp'') \<noteq> None" "je_buildContext env claims w1 = Some (Inr ctx, w')" "ctx \<noteq> []"
      "a = \<lparr>au_allow = True, au_context = Some ctx, au_principalId = member_of ctx\<rparr>"
      by (rule verified_bearer [OF token(2) True])
    have "ap_effect p = Allow" "ap_resource p = re_methodArn event" "ap_context p = Some ctx"
      "ap_principalId p = or_name (member_of ctx) (ascii ''user'')"
      by (simp_all add: a(1) v(5) build_policy_def)
    then show ?thesis using raw(1) token(1) v(1-4) by (simp only: if_True simp_thms) blast
  next
    case False
    then show ?thesis using a(1) by (simp add: build_policy_def)
  qed
qed

text \<open>Two members of a public channel: the service signs \<open>id\<close> texts by a mark in front of them.\<close>

definition mark_env :: "(unit, nat) jwt_env" where
  "mark_env =
     \<lparr>je_verify = (\<lambda>t. case t of
          u # i \<Rightarrow> (if u = 36 then return_eff (JObj [(ascii ''id'', JStr i), (ascii ''exp'', JNum (ascii ''9''))])
            else throw_eff (AuthThrown ()))
        | [] \<Rightarrow> throw_eff (AuthThrown ())),
      je_sign = (\<lambda>v. case prop_of (Some v) ''id'' of Some (JStr i) \<Rightarrow> return_eff (36 # i) | _ \<Rightarrow> throw_eff (AuthThrown ())),
      je_login = (\<lambda>c. return_eff (bc_password c = ascii ''pw'')),
      je_buildPayload = default_payload,
      je_buildContext = (\<lambda>claims. return_eff (memberIdFromSubject claims)),
      je_requireExpiry = True\<rparr>"

definition handshake_event :: "ustring \<Rightarrow> request_event" where
  "handshake_event header =
     \<lparr>re_headers = Some [(ascii ''Host'', Some (ascii ''h'')), (ascii ''Sec-WebSocket-Protocol'', Some header)],
      re_query = None, re_methodArn = ascii ''arn''\<rparr>"

subsection \<open>A handshake of a browser\<close>

text \<open>What a browser offers: entries without a comma and without white space around them.\<close>

definition offerable :: "ustring \<Rightarrow> bool" where
  "offerable x \<longleftrightarrow> 44 \<notin> set x \<and> trim x = x"

lemma split_unit_simps:
  "d \<notin> set x \<Longrightarrow> split_unit d x = [x]"
  "d \<notin> set x \<Longrightarrow> split_unit d (x @ d # rest) = x # split_unit d rest"
  by (induction x) auto

lemma trim_space: "trim (32 # x) = trim x"
proof -
  have space: "is_space 32" by (simp add: is_space_def)
  then show ?thesis by (simp add: trim_def)
qed

lemma split_offered:
  assumes "xs \<noteq> []" "\<forall>x \<in> set xs. offerable x"
  shows "map trim (split_unit 44 (join [44, 32] xs)) = xs"
proof -
  have later: "map trim (split_unit 44 (32 # join [44, 32] ys)) = ys" if "ys \<noteq> []" "\<forall>y \<in> set ys. offerable y" for ys
    using that
  proof (induction ys)
    case (Cons y ys)
    then have y: "44 \<notin> set (32 # y)" "trim (32 # y) = y" by (simp_all add: offerable_def trim_space)
    show ?case
    proof (cases "ys = []")
      case True
      then show ?thesis using split_unit_simps(1) [OF y(1)] y(2) by (simp add: join_Cons)
    next
      case False
      then have "split_unit 44 (32 # join [44, 32] (y # ys)) = (32 # y) # split_unit 44 (32 # join [44, 32] ys)"
        using split_unit_simps(2) [OF y(1), of "32 # join [44, 32] ys"] by (simp add: join_Cons)
      then show ?thesis using Cons False y(2) by simp
    qed
  qed simp
  obtain x ys where xs: "xs = x # ys" using assms(1) by (cases xs) auto
  have x: "44 \<notin> set x" "trim x = x" using assms(2) xs by (simp_all add: offerable_def)
  show ?thesis
  proof (cases "ys = []")
    case True
    then show ?thesis using xs split_unit_simps(1) [OF x(1)] x(2) by (simp add: join_Cons)
  next
    case False
    then have "split_unit 44 (join [44, 32] xs) = x # split_unit 44 (32 # join [44, 32] ys)"
      using xs split_unit_simps(2) [OF x(1), of "32 # join [44, 32] ys"] by (simp add: join_Cons)
    then show ?thesis using later [OF False] assms(2) xs x(2) by simp
  qed
qed

lemma entry_after_marker:
  assumes "\<forall>x \<in> set pre. \<not> P x" "P marker"
  shows "entry_after P (pre @ marker # token # post) = Some token"
  using assms by (induction pre) auto

lemma read_only_header:
  assumes "(k, Some v) \<in> set hs" "toLowerCase k = toLowerCase name" "v \<noteq> []"
    and "\<forall>(k', v') \<in> set hs. toLowerCase k' = toLowerCase name \<longrightarrow> v' = Some v"
  shows "readHeader (Some hs) name = Some v"
proof -
  have "find (\<lambda>(k, v). toLowerCase k = toLowerCase name \<and> v \<noteq> None \<and> v \<noteq> Some []) hs \<noteq> None"
  proof
    assume "find (\<lambda>(k, v). toLowerCase k = toLowerCase name \<and> v \<noteq> None \<and> v \<noteq> Some []) hs = None"
    then have "\<not> (\<exists>x. x \<in> set hs \<and> (case x of (k, v) \<Rightarrow> toLowerCase k = toLowerCase name \<and> v \<noteq> None \<and> v \<noteq> Some []))"
      by (simp add: find_None_iff)
    then show False using assms(1-3) by auto
  qed
  then obtain k' v' where found: "find (\<lambda>(k, v). toLowerCase k = toLowerCase name \<and> v \<noteq> None \<and> v \<noteq> Some []) hs = Some (k', v')"
    by fastforce
  then have "(k', v') \<in> set hs" "toLowerCase k' = toLowerCase name" using nth_mem by (fastforce simp: find_Some_iff)+
  with assms(4) have "v' = Some v" by auto
  with found show ?thesis by (simp add: readHeader_def)
qed

lemma no_header: "\<forall>(k, v) \<in> set hs. toLowerCase k \<noteq> toLowerCase name \<Longrightarrow> readHeader (Some hs) name = None"
proof -
  assume none: "\<forall>(k, v) \<in> set hs. toLowerCase k \<noteq> toLowerCase name"
  have "find (\<lambda>(k, v). toLowerCase k = toLowerCase name \<and> v \<noteq> None \<and> v \<noteq> Some []) hs = None"
    using none by (auto simp: find_None_iff)
  then show ?thesis by (simp add: readHeader_def)
qed

lemma parse_bearer: "parseAuthorization b (ascii ''Bearer '' @ token) = Bearer token"
proof -
  have "find_sub [32] (ascii ''Bearer'' @ [32] @ token) = Some (length (ascii ''Bearer''))"
    by simp
  then have "splitByDelimiter (ascii ''Bearer '' @ token) 32 = (ascii ''Bearer'', token)"
    by (simp add: splitByDelimiter_def)
  moreover have "toLowerCase (ascii ''Bearer'') = ascii ''bearer''" "ascii ''bearer'' \<noteq> ascii ''basic''" by code_simp+
  ultimately show ?thesis by (simp add: parseAuthorization_def)
qed

lemma offered_token:
  assumes "re_headers event = Some hs" "\<forall>(k, v) \<in> set hs. toLowerCase k \<noteq> authorizationHeader"
    and "(k, Some v) \<in> set hs" "toLowerCase k = subprotocolHeader" "\<forall>(k', v') \<in> set hs. toLowerCase k' = subprotocolHeader \<longrightarrow> v' = Some v"
    and "v = join [44, 32] (pre @ marker # token # post)" "\<forall>x \<in> set (pre @ marker # token # post). offerable x"
    and "toLowerCase marker = subprotocolMarker" "\<forall>x \<in> set pre. toLowerCase x \<noteq> subprotocolMarker" "token \<noteq> []"
  shows "readAuthorization event defaultAuthorizationSources = Some (ascii ''Bearer '' @ token)"
proof -
  have lower: "toLowerCase authorizationHeader = authorizationHeader" "toLowerCase subprotocolHeader = subprotocolHeader"
    "toLowerCase subprotocolMarker = subprotocolMarker" by code_simp+
  have split: "map trim (split_unit 44 v) = pre @ marker # token # post"
    unfolding assms(6) by (rule split_offered) (use assms(7) in simp_all)
  have "v \<noteq> []"
  proof
    assume "v = []"
    then have "pre @ marker # token # post = [[]]" using split by (simp add: trim_def)
    then show False by (cases pre) simp_all
  qed
  then have "readHeader (Some hs) subprotocolHeader = Some v"
    using read_only_header [OF assms(3), of subprotocolHeader] assms(4,5) lower by simp
  moreover have "entry_after (\<lambda>entry. toLowerCase entry = subprotocolMarker) (pre @ marker # token # post) = Some token"
    by (rule entry_after_marker) (use assms(8,9) in auto)
  ultimately have "readSubprotocolToken (Some hs) subprotocolMarker = Some token"
    using split assms(10) lower by (simp add: readSubprotocolToken_def)
  moreover have "readHeader (Some hs) authorizationHeader = None"
    by (rule no_header) (use assms(2) lower in simp)
  ultimately show ?thesis
    using assms(1) by (simp add: defaultAuthorizationSources_def readSource_def or_name_def)
qed

text \<open>
  The token a browser offers is read back: a handshake without an \<open>Authorization\<close> header that offers
  the subprotocols \<open>bearer\<close> and a token, in any case of \<open>bearer\<close> and between any other subprotocols, is
  authorized as exactly that token.
\<close>
theorem offered_token_is_read:
  assumes "re_headers event = Some hs" "\<forall>(k, v) \<in> set hs. toLowerCase k \<noteq> authorizationHeader"
    and "(k, Some v) \<in> set hs" "toLowerCase k = subprotocolHeader" "\<forall>(k', v') \<in> set hs. toLowerCase k' = subprotocolHeader \<longrightarrow> v' = Some v"
    and "v = join [44, 32] (pre @ marker # token # post)" "\<forall>x \<in> set (pre @ marker # token # post). offerable x"
    and "toLowerCase marker = subprotocolMarker" "\<forall>x \<in> set pre. toLowerCase x \<noteq> subprotocolMarker" "token \<noteq> []"
  shows "map_option (parseAuthorization b) (readAuthorization event defaultAuthorizationSources) = Some (Bearer token)"
  by (simp only: offered_token [OF assms] option.map parse_bearer)

theorem offered_token_is_read_witness:
  "map_option (parseAuthorization (\<lambda>t. t)) (readAuthorization (handshake_event (ascii ''v1, BEARER, $ann'')) defaultAuthorizationSources) =
     Some (Bearer (ascii ''$ann''))"
  by (rule offered_token_is_read [where
      hs = "[(ascii ''Host'', Some (ascii ''h'')), (ascii ''Sec-WebSocket-Protocol'', Some (ascii ''v1, BEARER, $ann''))]" and
      k = "ascii ''Sec-WebSocket-Protocol''" and v = "ascii ''v1, BEARER, $ann''" and pre = "[ascii ''v1'']" and
      marker = "ascii ''BEARER''" and post = "[]"]; code_simp)

lemma ann_handshake:
  "readAuthorization (handshake_event (ascii ''v1, BEARER, $ann'')) defaultAuthorizationSources = Some (ascii ''Bearer '' @ ascii ''$ann'')"
  by (rule offered_token [where
      hs = "[(ascii ''Host'', Some (ascii ''h'')), (ascii ''Sec-WebSocket-Protocol'', Some (ascii ''v1, BEARER, $ann''))]" and
      k = "ascii ''Sec-WebSocket-Protocol''" and v = "ascii ''v1, BEARER, $ann''" and pre = "[ascii ''v1'']" and
      marker = "ascii ''BEARER''" and post = "[]"]; code_simp)

theorem allowed_means_verified_witness:
  "\<exists>raw token claims w1.
     readAuthorization (handshake_event (ascii ''v1, BEARER, $ann'')) defaultAuthorizationSources = Some raw \<and>
     parseAuthorization (\<lambda>t. t) raw = Bearer token \<and> je_verify mark_env token 0 = Some (Inr (JObj claims), w1)"
proof -
  let ?ev = "handshake_event (ascii ''v1, BEARER, $ann'')"
  have bearer: "verifyBearer mark_env (ascii ''$ann'') 0 =
      Some (Inr \<lparr>au_allow = True, au_context = Some [(ascii ''memberId'', JStr (ascii ''ann''))], au_principalId = Some (ascii ''ann'')\<rparr>, 0)"
    by code_simp
  obtain p where run: "createJwtRequestAuthorizer (\<lambda>t. t) mark_env None None ?ev 0 = Some (Inr p, 0)" "ap_effect p = Allow"
    by (simp add: createJwtRequestAuthorizer_def createRequestAuthorizer_def authorizeRequest_def ann_handshake parse_bearer
        jwt_request_authorize_def bind_eff_def catch_eff_def return_eff_def bearer build_policy_def del: ascii_simps(2))
  with allowed_means_verified [OF run(1)] show ?thesis by (simp only: if_True option.case simp_thms) blast
qed

subsection \<open>A login opens a handshake\<close>

lemma parse_basic:
  assumes "trim (b c) = i @ 58 # p" "i \<noteq> []" "58 \<notin> set i"
  shows "parseAuthorization b (ascii ''Basic '' @ c) = Basic \<lparr>bc_id = i, bc_password = p\<rparr>"
proof -
  have split: "splitByDelimiter (s @ d # t) d = (s, t)" if "d \<notin> set s" "s \<noteq> []" for s t :: ustring and d
  proof -
    have "find_sub [d] (s @ [d] @ t) = Some (length s)"
    proof (rule find_sub_at)
      fix j assume "j < length s"
      then have "drop j (s @ [d] @ t) = s ! j # drop (Suc j) s @ [d] @ t" "s ! j \<in> set s" by (simp_all add: Cons_nth_drop_Suc [symmetric])
      then show "\<not> prefix [d] (drop j (s @ [d] @ t))" using that(1) by (auto simp: prefix_def)
    qed
    then show ?thesis using that(2) by (simp add: splitByDelimiter_def)
  qed
  have "32 \<notin> set (ascii ''Basic'')" "toLowerCase (ascii ''Basic'') = ascii ''basic''" by code_simp+
  then show ?thesis
    using split [of 32 "ascii ''Basic''" c] split [OF assms(3,2), of p] assms(1) by (simp add: parseAuthorization_def)
qed

text \<open>
  What a login issues opens a handshake: when a login with an id is accepted and the token it signs
  verifies, at a later time, to claims with that id and an expiry, the token is the context of the
  policy of the login, and the handshake a browser makes with it is allowed, in the name of that id.
\<close>
theorem login_opens_handshake:
  assumes "trim (b c) = i @ 58 # pw" "i \<noteq> []" "58 \<notin> set i" "je_buildPayload env = default_payload"
    and "je_buildContext env = (\<lambda>claims. return_eff (memberIdFromSubject claims))"
    and "je_login env \<lparr>bc_id = i, bc_password = pw\<rparr> w = Some (Inr True, w1)"
    and "je_sign env (default_payload \<lparr>bc_id = i, bc_password = pw\<rparr>) w1 = Some (Inr token, w2)"
    and "je_verify env token w3 = Some (Inr (JObj claims), w4)" "claim_text claims ''sub'' = None"
    and "map_of claims (ascii ''id'') = Some (JStr i)" "map_of claims (ascii ''exp'') \<noteq> None"
    and "map_option (parseAuthorization b) (readAuthorization event defaultAuthorizationSources) = Some (Bearer token)"
  shows "\<exists>p q. createJwtAuthorizer b env \<lparr>te_authorizationToken = Some (ascii ''Basic '' @ c), te_methodArn = arn\<rparr> w = Some (Inr p, w2) \<and>
    ap_effect p = Allow \<and> ap_context p = Some [(ascii ''token'', JStr token)] \<and>
    createJwtRequestAuthorizer b env None onError event w3 = Some (Inr q, w4) \<and>
    ap_effect q = Allow \<and> ap_principalId q = i \<and> ap_context q = Some [(ascii ''memberId'', JStr i)]"
proof -
  have login: "jwt_authorize env (parseAuthorization b (ascii ''Basic '' @ c)) w =
      Some (Inr \<lparr>au_allow = True, au_context = Some [(ascii ''token'', JStr token)], au_principalId = None\<rparr>, w2)"
    unfolding parse_basic [where b = b and c = c, OF assms(1-3)] using assms(4,6,7) by (simp add: jwt_authorize_def eff_simps)
  have "memberIdFromSubject claims = [(ascii ''memberId'', JStr i)]"
    using assms(2,9,10) by (simp add: memberIdFromSubject_def claim_text_def)
  then have verify: "verifyBearer env token w3 = Some (Inr \<lparr>au_allow = True, au_context = Some [(ascii ''memberId'', JStr i)], au_principalId = Some i\<rparr>, w4)"
    using assms(5,8,11) by (auto simp: verifyBearer_def eff_simps member_of_def text_of_def)
  obtain raw where raw: "readAuthorization event defaultAuthorizationSources = Some raw" "parseAuthorization b raw = Bearer token"
    using assms(12) by auto
  have "createJwtAuthorizer b env \<lparr>te_authorizationToken = Some (ascii ''Basic '' @ c), te_methodArn = arn\<rparr> w =
      Some (Inr (build_policy arn \<lparr>au_allow = True, au_context = Some [(ascii ''token'', JStr token)], au_principalId = None\<rparr>), w2)"
    unfolding createJwtAuthorizer_def createAuthorizer_def authorizeRequest_def
    using login by (simp only: token_event.simps option.case bind_eff_def catch_eff_def return_eff_def) simp
  moreover have "createJwtRequestAuthorizer b env None onError event w3 =
      Some (Inr (build_policy (re_methodArn event) \<lparr>au_allow = True, au_context = Some [(ascii ''memberId'', JStr i)], au_principalId = Some i\<rparr>), w4)"
    using raw verify by (simp add: createJwtRequestAuthorizer_def createRequestAuthorizer_def authorizeRequest_def
        jwt_request_authorize_def bind_eff_def catch_eff_def return_eff_def)
  ultimately show ?thesis by (simp add: build_policy_def or_name_def del: ascii_simps(2))
qed

theorem login_opens_handshake_witness:
  "\<exists>p q. createJwtAuthorizer (\<lambda>t. t) mark_env \<lparr>te_authorizationToken = Some (ascii ''Basic ann:pw''), te_methodArn = []\<rparr> 0 = Some (Inr p, 0) \<and>
    ap_effect p = Allow \<and> ap_context p = Some [(ascii ''token'', JStr (ascii ''$ann''))] \<and>
    createJwtRequestAuthorizer (\<lambda>t. t) mark_env None None (handshake_event (ascii ''v1, BEARER, $ann'')) 1 = Some (Inr q, 1) \<and>
    ap_effect q = Allow \<and> ap_principalId q = ascii ''ann'' \<and> ap_context q = Some [(ascii ''memberId'', JStr (ascii ''ann''))]"
proof -
  have c: "ascii ''Basic ann:pw'' = ascii ''Basic '' @ ascii ''ann:pw''" by code_simp
  have login: "je_login mark_env \<lparr>bc_id = ascii ''ann'', bc_password = ascii ''pw''\<rparr> 0 = Some (Inr True, 0)"
    "je_sign mark_env (default_payload \<lparr>bc_id = ascii ''ann'', bc_password = ascii ''pw''\<rparr>) 0 = Some (Inr (ascii ''$ann''), 0)"
    "je_verify mark_env (ascii ''$ann'') 1 = Some (Inr (JObj [(ascii ''id'', JStr (ascii ''ann'')), (ascii ''exp'', JNum (ascii ''9''))]), 1)"
    by code_simp+
  have builders: "je_buildPayload mark_env = default_payload" "je_buildContext mark_env = (\<lambda>claims. return_eff (memberIdFromSubject claims))"
    by (simp_all add: mark_env_def)
  have parts: "trim (ascii ''ann:pw'') = ascii ''ann'' @ 58 # ascii ''pw''" "ascii ''ann'' \<noteq> []" "58 \<notin> set (ascii ''ann'')"
    by code_simp+
  have claims: "claim_text [(ascii ''id'', JStr (ascii ''ann'')), (ascii ''exp'', JNum (ascii ''9''))] ''sub'' = None"
    "map_of [(ascii ''id'', JStr (ascii ''ann'')), (ascii ''exp'', JNum (ascii ''9''))] (ascii ''id'') = Some (JStr (ascii ''ann''))"
    "map_of [(ascii ''id'', JStr (ascii ''ann'')), (ascii ''exp'', JNum (ascii ''9''))] (ascii ''exp'') \<noteq> None"
    by code_simp+
  have header: "map_option (parseAuthorization (\<lambda>t. t)) (readAuthorization (handshake_event (ascii ''v1, BEARER, $ann'')) defaultAuthorizationSources) =
      Some (Bearer (ascii ''$ann''))" by (simp only: ann_handshake option.map parse_bearer)
  show ?thesis
    unfolding c
    by (rule login_opens_handshake [where b = "\<lambda>t. t", OF parts builders login claims header])
qed

end
