(* ===== verification/Gamebase_Handlers.thy ===== *)
theory Gamebase_Handlers
  imports Lambda_Authorizer Actor_Redis
begin

section \<open>The connection handlers of a game (lambda-gamebase: handlers, actor)\<close>

text \<open>
  The lambdas behind a WebSocket API: \<open>$connect\<close>, \<open>$default\<close> and \<open>$disconnect\<close> map a connection to a
  game and put messages on the queue of its actor. They run over the Redis commands of \<open>redis_api\<close>, on
  a connection of the caller; what other invocations do meanwhile is part of those commands.
  \<open>JSON.parse\<close>, the text of a message, \<open>randomUUID\<close>, the validator and the resolver of members are
  parameters. Log lines are left out.
\<close>

subsection \<open>Start events (actor/*.ts)\<close>

record ('e, 'w) gateway_env =
  gw_api :: "('e, 'w) redis_api"
  gw_typeError :: 'e
  gw_parse :: "ustring \<Rightarrow> json option"
  gw_encode :: "json UserMessage \<Rightarrow> ustring"
  gw_uuid :: "('e, string, 'w) eff"
  gw_connectionPrefix :: ustring
  gw_eventPrefix :: ustring
  gw_queuePrefix :: ustring
  gw_queueTtlSeconds :: int
  gw_mappingTtlMillis :: int
  gw_validate :: "json \<Rightarrow> bool option"

text \<open>A value JavaScript takes for true; \<open>None\<close> is \<open>undefined\<close>.\<close>

definition truthy :: "json option \<Rightarrow> bool" where
  "truthy v =
     (case v of
        None \<Rightarrow> False
      | Some JNull \<Rightarrow> False
      | Some (JBool b) \<Rightarrow> b
      | Some (JNum t) \<Rightarrow> t \<noteq> ascii ''0''
      | Some (JStr t) \<Rightarrow> t \<noteq> []
      | _ \<Rightarrow> True)"

definition loadActorStartEvent :: "('e, 'w) gateway_env \<Rightarrow> ustring \<Rightarrow> ('e, json option, 'w) eff" where
  "loadActorStartEvent env gameId =
     bind_eff (ra_get (gw_api env) (gw_eventPrefix env @ gameId)) (\<lambda>v.
       return_eff
         (case v of
            None \<Rightarrow> None
          | Some t \<Rightarrow>
              (case gw_parse env t of
                 None \<Rightarrow> None
               | Some event \<Rightarrow> if truthy (prop_of (Some event) ''gameId'') then Some event else None)))"

definition saveActorStartEvent ::
  "(ustring \<Rightarrow> ustring \<Rightarrow> ('e, 'a, 'w) eff) \<Rightarrow> ustring \<Rightarrow> (json \<Rightarrow> ustring) \<Rightarrow> json \<Rightarrow> ('e, bool, 'w) eff" where
  "saveActorStartEvent set_value eventKeyPrefix stringified event =
     (case text_of (prop_of (Some event) ''gameId'') of
        None \<Rightarrow> return_eff False
      | Some gameId \<Rightarrow>
          (if gameId = [] then return_eff False
           else bind_eff (set_value (eventKeyPrefix @ gameId) (stringified event)) (\<lambda>_. return_eff True)))"

definition clearActorStartEvent :: "(ustring \<Rightarrow> ('e, 'a, 'w) eff) \<Rightarrow> ustring \<Rightarrow> ustring \<Rightarrow> ('e, 'a, 'w) eff" where
  "clearActorStartEvent del eventKeyPrefix gameId = del (eventKeyPrefix @ gameId)"

text \<open>
  Whether a member is on the list; \<open>None\<close> is a \<open>TypeError\<close>, for a list that is none or an element
  without properties.
\<close>

fun is_member :: "ustring \<Rightarrow> json list \<Rightarrow> bool option" where
  "is_member memberId [] = Some False"
| "is_member memberId (m # ms) =
     (if m = JNull then None
      else if prop_of (Some m) ''memberId'' = Some (JStr memberId) then Some True
      else is_member memberId ms)"

datatype game_authorization = Authorized json | UnknownGame | NotAMember

definition authorizeGameConnection :: "('e, 'w) gateway_env \<Rightarrow> ustring \<Rightarrow> ustring \<Rightarrow> ('e, game_authorization, 'w) eff" where
  "authorizeGameConnection env gameId memberId =
     bind_eff (loadActorStartEvent env gameId) (\<lambda>startEvent.
       case startEvent of
         None \<Rightarrow> return_eff UnknownGame
       | Some event \<Rightarrow>
           (case prop_of (Some event) ''members'' of
              Some (JArr members) \<Rightarrow>
                (case is_member memberId members of
                   None \<Rightarrow> throw_eff (gw_typeError env)
                 | Some False \<Rightarrow> return_eff NotAMember
                 | Some True \<Rightarrow> return_eff (Authorized event))
            | _ \<Rightarrow> throw_eff (gw_typeError env)))"

text \<open>
  \<open>enqueueToActor\<close>: the queue of the game, whose key is a text here; \<open>push_is_queue_push\<close> below says
  that it is the queue of actor-system-redis.
\<close>

definition enqueueToActor :: "('e, 'w) gateway_env \<Rightarrow> ustring \<Rightarrow> json \<Rightarrow> ('e, unit, 'w) eff" where
  "enqueueToActor env gameId it =
     (if gw_queueTtlSeconds env < 1 then throw_eff (gw_typeError env)
      else
        bind_eff (gw_uuid env) (\<lambda>uuid.
          let message = \<lparr>messageId = uuid, awaitPolicy = Forget, awaitTimeoutMillis = 0, item = it\<rparr>;
              key = gw_queuePrefix env @ gameId in
          bind_eff (ra_rpush (gw_api env) key [gw_encode env message]) (\<lambda>depth.
            then_eff (ra_expire (gw_api env) key (gw_queueTtlSeconds env)) (return_eff ()))))"

lemma push_is_queue_push:
  assumes "createRedisQueue (gw_api env) (gw_queuePrefix env) (gw_encode env) dec (gw_queueTtlSeconds env) = Some q"
  shows "enqueueToActor env (ascii g) it =
    bind_eff (gw_uuid env) (\<lambda>uuid.
      then_eff (queue_push q g \<lparr>messageId = uuid, awaitPolicy = Forget, awaitTimeoutMillis = 0, item = it\<rparr>) (return_eff ()))"
proof -
  have q: "rq_api q = gw_api env" "rq_encode q = gw_encode env" "rq_ttlSeconds q = gw_queueTtlSeconds env"
    "queue_key q g = gw_queuePrefix env @ ascii g" "\<not> gw_queueTtlSeconds env < 1"
    using assms by (auto simp: createRedisQueue_def queue_key_def split: if_splits)
  have assoc: "bind_eff (bind_eff m (\<lambda>d. then_eff n (return_eff d))) (\<lambda>_. return_eff ()) = bind_eff m (\<lambda>d. then_eff n (return_eff ()))"
    for m :: "('e, nat, 'w) eff" and n :: "('e, bool, 'w) eff"
    by (rule ext) (simp add: eff_defs split: option.split sum.split prod.split)
  show ?thesis using q by (simp add: enqueueToActor_def queue_push_def Let_def then_eff_def [of "bind_eff _ _"] assoc)
qed

subsection \<open>Connecting (handleConnect.ts)\<close>

text \<open>
  The event of a handshake: its headers, its query, its connection, and the context the authorizer gave
  the connection.
\<close>

record connect_event =
  ce_headers :: headers
  ce_query :: "(ustring \<Rightarrow> ustring option) option"
  ce_connectionId :: ustring
  ce_authorizer :: "auth_context option"

record gateway_response =
  gr_statusCode :: nat
  gr_subprotocol :: "ustring option"

definition response :: "nat \<Rightarrow> gateway_response" where
  "response code = \<lparr>gr_statusCode = code, gr_subprotocol = None\<rparr>"

definition readParameter :: "connect_event \<Rightarrow> ustring \<Rightarrow> ustring option" where
  "readParameter event name =
     (case readHeader (ce_headers event) name of
        Some v \<Rightarrow> Some v
      | None \<Rightarrow> (case ce_query event of None \<Rightarrow> None | Some q \<Rightarrow> q name))"

definition default_resolveMemberId :: "connect_event \<Rightarrow> ustring option" where
  "default_resolveMemberId event = readParameter event (ascii ''x-member-id'')"

text \<open>The resolver its documentation recommends: the member the authorizer verified.\<close>

definition authorizer_member :: "connect_event \<Rightarrow> ustring option" where
  "authorizer_member event = (case ce_authorizer event of None \<Rightarrow> None | Some ctx \<Rightarrow> member_of ctx)"

definition offeredSubprotocols :: "connect_event \<Rightarrow> ustring list" where
  "offeredSubprotocols event =
     filter (\<lambda>x. x \<noteq> []) (map trim (split_unit 44 (or_name (readHeader (ce_headers event) subprotocolHeader) [])))"

definition accept_connection :: "connect_event \<Rightarrow> (ustring list \<Rightarrow> ustring option) option \<Rightarrow> gateway_response" where
  "accept_connection event selectSubprotocol =
     (case selectSubprotocol of
        None \<Rightarrow> response 200
      | Some select \<Rightarrow>
          (let offered = offeredSubprotocols event in
           case select offered of
             None \<Rightarrow> response 200
           | Some selected \<Rightarrow>
               if selected \<in> set offered then (response 200)\<lparr>gr_subprotocol := Some selected\<rparr> else response 200))"

definition enter_item :: "ustring \<Rightarrow> ustring \<Rightarrow> json" where
  "enter_item connectionId memberId =
     JObj [(ascii ''type'', JStr (ascii ''enter'')), (ascii ''connectionId'', JStr connectionId), (ascii ''memberId'', JStr memberId)]"

definition leave_item :: "ustring \<Rightarrow> json" where
  "leave_item connectionId = JObj [(ascii ''type'', JStr (ascii ''leave'')), (ascii ''connectionId'', JStr connectionId)]"

definition handleConnect ::
  "('e, 'w) gateway_env \<Rightarrow> (connect_event \<Rightarrow> ustring option) \<Rightarrow> (ustring list \<Rightarrow> ustring option) option \<Rightarrow>
   connect_event \<Rightarrow> ('e, gateway_response, 'w) eff" where
  "handleConnect env resolveMemberId selectSubprotocol event =
     (case resolveMemberId event of
        None \<Rightarrow> return_eff (response 400)
      | Some memberId \<Rightarrow>
          if memberId = [] then return_eff (response 400)
          else
            (case readParameter event (ascii ''x-game-id'') of
               None \<Rightarrow> return_eff (response 400)
             | Some gameId \<Rightarrow>
                 if gameId = [] then return_eff (response 400)
                 else
                   bind_eff (authorizeGameConnection env gameId memberId) (\<lambda>authorization.
                     case authorization of
                       Authorized startEvent \<Rightarrow>
                         then_eff (ra_set (gw_api env) (gw_connectionPrefix env @ ce_connectionId event) gameId (Some (gw_mappingTtlMillis env)) None)
                           (then_eff (enqueueToActor env gameId (enter_item (ce_connectionId event) memberId))
                             (return_eff (accept_connection event selectSubprotocol)))
                     | _ \<Rightarrow> return_eff (response 400))))"

subsection \<open>Messages and disconnecting (handleMessages.ts, handleDisconnect.ts)\<close>

definition reservedRequestTypes :: "ustring list" where
  "reservedRequestTypes = [ascii ''enter'', ascii ''leave'']"

definition isReservedRequestType :: "json option \<Rightarrow> bool" where
  "isReservedRequestType t = (case t of Some (JStr s) \<Rightarrow> s \<in> set reservedRequestTypes | _ \<Rightarrow> False)"

text \<open>\<open>{ ...request, connectionId }\<close>: the properties of the request, the last one replaced or added.\<close>

definition own_properties :: "json \<Rightarrow> (ustring \<times> json) list" where
  "own_properties v =
     (case v of
        JObj kvs \<Rightarrow> kvs
      | JArr xs \<Rightarrow> zip (map show_nat [0..<length xs]) xs
      | JStr t \<Rightarrow> map (\<lambda>i. (show_nat i, JStr [t ! i])) [0..<length t]
      | _ \<Rightarrow> [])"

definition stamped :: "json \<Rightarrow> ustring \<Rightarrow> json" where
  "stamped request connectionId =
     (let kvs = own_properties request; key = ascii ''connectionId''; v = JStr connectionId in
      JObj (if key \<in> fst ` set kvs then map (\<lambda>(k, x). (k, if k = key then v else x)) kvs else kvs @ [(key, v)]))"

definition ceil_seconds :: "int \<Rightarrow> int" where
  "ceil_seconds millis = - ((- millis) div 1000)"

definition handleMessages ::
  "('e, 'w) gateway_env \<Rightarrow> ustring \<Rightarrow> ustring option \<Rightarrow> ('e, gateway_response, 'w) eff" where
  "handleMessages env connectionId body =
     (case body of
        None \<Rightarrow> return_eff (response 404)
      | Some text \<Rightarrow>
          if text = [] then return_eff (response 404)
          else
            (case gw_parse env text of
               None \<Rightarrow> return_eff (response 404)
             | Some request \<Rightarrow>
                 if gw_validate env request \<noteq> Some True then return_eff (response 404)
                 else if request = JNull then throw_eff (gw_typeError env)
                 else if isReservedRequestType (prop_of (Some request) ''type'') then return_eff (response 400)
                 else
                   (let mappingKey = gw_connectionPrefix env @ connectionId in
                    bind_eff (ra_get (gw_api env) mappingKey) (\<lambda>v.
                      case v of
                        None \<Rightarrow> return_eff (response 404)
                      | Some gameId \<Rightarrow>
                          if gameId = [] then return_eff (response 404)
                          else
                            then_eff (enqueueToActor env gameId (stamped request connectionId))
                              (then_eff
                                (catch_eff
                                  (then_eff (ra_expire (gw_api env) mappingKey (ceil_seconds (gw_mappingTtlMillis env))) (return_eff ()))
                                  (\<lambda>e. return_eff ()))
                                (return_eff (response 200)))))))"

definition handleDisconnect :: "('e, 'w) gateway_env \<Rightarrow> ustring \<Rightarrow> ('e, gateway_response, 'w) eff" where
  "handleDisconnect env connectionId =
     (let mappingKey = gw_connectionPrefix env @ connectionId in
      then_eff
        (bind_eff (ra_get (gw_api env) mappingKey) (\<lambda>v.
           case v of
             None \<Rightarrow> return_eff ()
           | Some gameId \<Rightarrow>
               if gameId = [] then return_eff ()
               else
                 then_eff (enqueueToActor env gameId (leave_item connectionId))
                   (then_eff (ra_del (gw_api env) [mappingKey]) (return_eff ()))))
        (return_eff (response 200)))"

end
