(* ===== verification/Gamebase_Game.thy ===== *)
theory Gamebase_Game
  imports Gamebase_Handlers
begin

section \<open>The game loop (gamebase-all-together, lambda-gamebase: network, support)\<close>

text \<open>
  The context of a game and the stages that run it. \<open>connectedUsers\<close> maps a connection to the user
  object it shares with \<open>users\<close>, here to its position there. The transport, the queue, the clock and the
  hooks and the controller of the game are parameters; hooks and controller may change the context.
  Times are integral milliseconds, also the step of the simulation, which the source divides by 1000.
  Log lines are left out, and the loops take fuel.
\<close>

subsection \<open>The context\<close>

record BaseGameUser =
  bu_connectionId :: ustring
  bu_memberId :: ustring
  bu_load :: bool

record BaseGameObserver =
  bo_connectionId :: ustring
  bo_memberId :: ustring

record BaseGameContext =
  gc_users :: "BaseGameUser list"
  gc_observers :: "BaseGameObserver list"
  gc_connected :: "(ustring \<times> nat) list"

record GameStartMember =
  gm_memberId :: ustring
  gm_observer :: bool

definition setupBaseGameContext :: "GameStartMember list \<Rightarrow> BaseGameContext" where
  "setupBaseGameContext members =
     \<lparr>gc_users = map (\<lambda>m. \<lparr>bu_connectionId = [], bu_memberId = gm_memberId m, bu_load = False\<rparr>)
        (filter (\<lambda>m. \<not> gm_observer m) members),
      gc_observers = map (\<lambda>m. \<lparr>bo_connectionId = [], bo_memberId = gm_memberId m\<rparr>) (filter gm_observer members),
      gc_connected = []\<rparr>"

text \<open>The position of the first element.\<close>

fun find_index :: "('a \<Rightarrow> bool) \<Rightarrow> 'a list \<Rightarrow> nat option" where
  "find_index p [] = None"
| "find_index p (x # xs) = (if p x then Some 0 else map_option Suc (find_index p xs))"

definition connection_keys :: "BaseGameContext \<Rightarrow> ustring list" where
  "connection_keys c = map fst (gc_connected c)"

definition unbind :: "ustring \<Rightarrow> BaseGameContext \<Rightarrow> BaseGameContext" where
  "unbind connectionId c = c\<lparr>gc_connected := filter (\<lambda>(k, i). k \<noteq> connectionId) (gc_connected c)\<rparr>"

definition bind_user :: "ustring \<Rightarrow> nat \<Rightarrow> BaseGameContext \<Rightarrow> BaseGameContext" where
  "bind_user connectionId i c =
     c\<lparr>gc_connected :=
       (if connectionId \<in> set (connection_keys c)
        then map (\<lambda>(k, j). (k, if k = connectionId then i else j)) (gc_connected c)
        else gc_connected c @ [(connectionId, i)])\<rparr>"

definition set_user :: "nat \<Rightarrow> ustring \<Rightarrow> BaseGameContext \<Rightarrow> BaseGameContext" where
  "set_user i connectionId c =
     c\<lparr>gc_users := (gc_users c)[i := (gc_users c ! i)\<lparr>bu_connectionId := connectionId, bu_load := False\<rparr>]\<rparr>"

definition set_observer :: "nat \<Rightarrow> ustring \<Rightarrow> BaseGameContext \<Rightarrow> BaseGameContext" where
  "set_observer i connectionId c =
     c\<lparr>gc_observers := (gc_observers c)[i := (gc_observers c ! i)\<lparr>bo_connectionId := connectionId\<rparr>]\<rparr>"

subsection \<open>Sending (network/*.ts)\<close>

record 'w game_state =
  gs_context :: BaseGameContext
  gs_world :: 'w

record ('e, 'w) Transport =
  tr_send :: "ustring \<Rightarrow> json \<Rightarrow> ('e, bool, 'w) eff"
  tr_sendMany :: "(ustring list \<Rightarrow> json \<Rightarrow> ('e, bool, 'w) eff) option"
  tr_drop :: "ustring \<Rightarrow> ('e, bool, 'w) eff"

text \<open>The transport, or the error that there is none.\<close>

type_synonym ('e, 'w) network = "'e + ('e, 'w) Transport"

definition in_world :: "('e, 'a, 'w) eff \<Rightarrow> ('e, 'a, 'w game_state) eff" where
  "in_world m s = map_option (\<lambda>(r, w). (r, s\<lparr>gs_world := w\<rparr>)) (m (gs_world s))"

definition fakeConnectionId :: ustring where
  "fakeConnectionId = ascii ''__FAKE_CONNECTION_ID__''"

definition reply :: "('e, 'w) network \<Rightarrow> ustring \<Rightarrow> json \<Rightarrow> ('e, bool, 'w) eff" where
  "reply network connectionId message =
     (if connectionId = fakeConnectionId then return_eff True
      else case network of Inl e \<Rightarrow> throw_eff e | Inr t \<Rightarrow> tr_send t connectionId message)"

definition dropConnection :: "('e, 'w) network \<Rightarrow> ustring \<Rightarrow> ('e, bool, 'w) eff" where
  "dropConnection network connectionId =
     (if connectionId = fakeConnectionId then return_eff True
      else case network of Inl e \<Rightarrow> throw_eff e | Inr t \<Rightarrow> tr_drop t connectionId)"

text \<open>\<open>Promise.all\<close>: all of them run; the first rejection is the result.\<close>

fun promise_all :: "('e, 'a, 's) eff list \<Rightarrow> ('e, 'a list, 's) eff" where
  "promise_all [] s = Some (Inr [], s)"
| "promise_all (m # ms) s =
     (case m s of
        None \<Rightarrow> None
      | Some (r, s1) \<Rightarrow>
          (case promise_all ms s1 of
             None \<Rightarrow> None
           | Some (rs, s2) \<Rightarrow>
               Some (case r of Inl e \<Rightarrow> Inl e | Inr a \<Rightarrow> (case rs of Inl e \<Rightarrow> Inl e | Inr as \<Rightarrow> Inr (a # as)), s2)))"

definition broadcast :: "('e, 'w) network \<Rightarrow> ustring list \<Rightarrow> json \<Rightarrow> ('e, (ustring \<times> bool) list, 'w) eff" where
  "broadcast network connectionIds message =
     (let fakes = filter (\<lambda>c. c = fakeConnectionId) connectionIds;
          real = filter (\<lambda>c. c \<noteq> fakeConnectionId) connectionIds;
          delivered = (\<lambda>oks. map (\<lambda>c. (c, True)) (remdups fakes) @ zip real oks) in
      if real = [] then return_eff (delivered [])
      else
        case network of
          Inl e \<Rightarrow> throw_eff e
        | Inr t \<Rightarrow>
            (case tr_sendMany t of
               Some sendMany \<Rightarrow> bind_eff (sendMany real message) (\<lambda>ok. return_eff (delivered (map (\<lambda>_. ok) real)))
             | None \<Rightarrow> bind_eff (promise_all (map (\<lambda>c. reply network c message) real)) (\<lambda>oks. return_eff (delivered oks))))"

subsection \<open>Entering and leaving (processEnter.ts, processLeave.ts, processEnterLeave.ts)\<close>

datatype GameStage = StageWait | StageRunning | StageEnd

datatype GameEndReason = Cleared | Timeout | NotEnoughPlayers | EndError

record ('e, 'w) game_env =
  ge_network :: "('e, 'w) network"
  ge_now :: "'w \<Rightarrow> int"
  ge_sleep :: "int \<Rightarrow> 'w \<Rightarrow> 'w"
  ge_poll :: "('e, json list, 'w) eff"
  ge_isGameOver :: "('e, bool, 'w game_state) eff"
  ge_processMessage :: "json \<Rightarrow> ('e, unit, 'w game_state) eff"
  ge_updateTimeDelta :: "(int \<Rightarrow> ('e, unit, 'w game_state) eff) option"
  ge_onStageChanged :: "(GameStage \<Rightarrow> int \<Rightarrow> ('e, unit, 'w game_state) eff) option"
  ge_onMemberEntered :: "(ustring \<Rightarrow> ustring \<Rightarrow> ('e, unit, 'w game_state) eff) option"
  ge_onSnapshot :: "(int \<Rightarrow> ('e, unit, 'w game_state) eff) option"
  ge_onGameEnd :: "(GameEndReason \<Rightarrow> ('e, unit, 'w game_state) eff) option"

definition change_context :: "(BaseGameContext \<Rightarrow> BaseGameContext) \<Rightarrow> ('e, unit, 'w game_state) eff" where
  "change_context f = modify_eff (\<lambda>s. s\<lparr>gs_context := f (gs_context s)\<rparr>)"

definition get_context :: "('e, BaseGameContext, 'w game_state) eff" where
  "get_context = get_eff gs_context"

definition enter_message :: "ustring \<Rightarrow> json" where
  "enter_message memberId =
     JObj [(ascii ''type'', JStr (ascii ''enter'')), (ascii ''payload'', JObj [(ascii ''memberId'', JStr memberId)])]"

definition broadcastMemberEntered :: "('e, 'w) game_env \<Rightarrow> ustring \<Rightarrow> ('e, unit, 'w game_state) eff" where
  "broadcastMemberEntered env memberId =
     bind_eff get_context (\<lambda>c.
       then_eff (in_world (broadcast (ge_network env) (connection_keys c) (enter_message memberId))) (return_eff ()))"

definition member_entered :: "('e, 'w) game_env \<Rightarrow> ustring \<Rightarrow> ustring \<Rightarrow> ('e, unit, 'w game_state) eff" where
  "member_entered env connectionId memberId =
     (case ge_onMemberEntered env of
        Some hook \<Rightarrow> hook connectionId memberId
      | None \<Rightarrow> broadcastMemberEntered env memberId)"

text \<open>The connection a user gives up: bound to it, and another one.\<close>

definition superseded :: "nat \<Rightarrow> ustring \<Rightarrow> BaseGameContext \<Rightarrow> ustring option" where
  "superseded i connectionId c =
     (let previous = bu_connectionId (gc_users c ! i) in
      if previous \<noteq> [] \<and> previous \<noteq> connectionId \<and> map_of (gc_connected c) previous = Some i then Some previous else None)"

definition processEnter :: "('e, 'w) game_env \<Rightarrow> ustring \<Rightarrow> ustring \<Rightarrow> ('e, unit, 'w game_state) eff" where
  "processEnter env connectionId memberId =
     bind_eff get_context (\<lambda>c.
       case find_index (\<lambda>u. bo_memberId u = memberId) (gc_observers c) of
         Some i \<Rightarrow> change_context (set_observer i connectionId)
       | None \<Rightarrow>
           (case find_index (\<lambda>u. bu_memberId u = memberId) (gc_users c) of
              None \<Rightarrow> return_eff ()
            | Some i \<Rightarrow>
                then_eff
                  (case superseded i connectionId c of
                     None \<Rightarrow> return_eff ()
                   | Some previous \<Rightarrow>
                       then_eff (change_context (unbind previous))
                         (then_eff (in_world (dropConnection (ge_network env) previous)) (return_eff ())))
                  (then_eff (change_context (\<lambda>c. bind_user connectionId i (set_user i connectionId c)))
                    (member_entered env connectionId memberId))))"

definition processLeave :: "ustring \<Rightarrow> BaseGameContext \<Rightarrow> BaseGameContext" where
  "processLeave connectionId c =
     (case find_index (\<lambda>u. bo_connectionId u = connectionId) (gc_observers c) of
        Some i \<Rightarrow> set_observer i [] c
      | None \<Rightarrow>
          (case map_of (gc_connected c) connectionId of
             None \<Rightarrow> c
           | Some i \<Rightarrow> unbind connectionId (set_user i [] c)))"

text \<open>Texts of a message that are \<open>undefined\<close> or none are the empty text here; the handlers send texts.\<close>

definition message_text :: "json \<Rightarrow> string \<Rightarrow> ustring" where
  "message_text m k = or_name (text_of (prop_of (Some m) k)) []"

definition processEnterLeave :: "('e, 'w) game_env \<Rightarrow> json \<Rightarrow> ('e, unit, 'w game_state) eff" where
  "processEnterLeave env m =
     (if message_text m ''type'' = ascii ''enter'' then processEnter env (message_text m ''connectionId'') (message_text m ''memberId'')
      else if message_text m ''type'' = ascii ''leave'' then change_context (processLeave (message_text m ''connectionId''))
      else return_eff ())"

subsection \<open>Announcing a stage (broadcastStage.ts, createStageAnnouncer.ts)\<close>

definition stage_text :: "GameStage \<Rightarrow> ustring" where
  "stage_text stage = ascii (case stage of StageWait \<Rightarrow> ''wait'' | StageRunning \<Rightarrow> ''running'' | StageEnd \<Rightarrow> ''end'')"

definition stage_message :: "GameStage \<Rightarrow> int \<Rightarrow> json" where
  "stage_message stage age =
     JObj [(ascii ''type'', JStr (ascii ''stage'')),
       (ascii ''payload'', JObj [(ascii ''stage'', JStr (stage_text stage)), (ascii ''age'', JNum (show_int age))])]"

definition broadcastStage :: "('e, 'w) game_env \<Rightarrow> GameStage \<Rightarrow> int \<Rightarrow> ('e, (ustring \<times> bool) list, 'w game_state) eff" where
  "broadcastStage env stage age =
     bind_eff get_context (\<lambda>c. in_world (broadcast (ge_network env) (connection_keys c) (stage_message stage age)))"

definition prune_user :: "ustring \<Rightarrow> BaseGameContext \<Rightarrow> BaseGameContext" where
  "prune_user connectionId c =
     (case map_of (gc_connected c) connectionId of None \<Rightarrow> c | Some i \<Rightarrow> unbind connectionId (set_user i [] c))"

definition pruneUndeliveredUsers :: "(ustring \<times> bool) list \<Rightarrow> BaseGameContext \<Rightarrow> BaseGameContext" where
  "pruneUndeliveredUsers delivered c = fold prune_user (map fst (filter (\<lambda>(k, ok). \<not> ok) delivered)) c"

definition announce :: "('e, 'w) game_env \<Rightarrow> bool \<Rightarrow> GameStage \<Rightarrow> int \<Rightarrow> ('e, unit, 'w game_state) eff" where
  "announce env dropUndelivered stage age =
     (case ge_onStageChanged env of
        Some hook \<Rightarrow> hook stage age
      | None \<Rightarrow>
          bind_eff (broadcastStage env stage age) (\<lambda>delivered.
            when_eff dropUndelivered (change_context (pruneUndeliveredUsers delivered))))"

subsection \<open>The ticker (createTicker.ts)\<close>

definition calculateAge :: "int \<Rightarrow> int \<Rightarrow> int" where
  "calculateAge start now = (now - start) div 1000"

definition ticker_alive :: "int \<Rightarrow> int \<Rightarrow> int \<Rightarrow> bool" where
  "ticker_alive start aliveMillis now \<longleftrightarrow> now - start < aliveMillis"

definition get_now :: "('e, 'w) game_env \<Rightarrow> ('e, int, 'w game_state) eff" where
  "get_now env = get_eff (\<lambda>s. ge_now env (gs_world s))"

definition sleep_for :: "('e, 'w) game_env \<Rightarrow> int \<Rightarrow> ('e, unit, 'w game_state) eff" where
  "sleep_for env ms = modify_eff (\<lambda>s. s\<lparr>gs_world := ge_sleep env ms (gs_world s)\<rparr>)"

text \<open>Announces an age that is new, and gives the age to compare with next.\<close>

definition checkAgeChanged ::
  "('e, 'w) game_env \<Rightarrow> bool \<Rightarrow> GameStage \<Rightarrow> int \<Rightarrow> int \<Rightarrow> ('e, int, 'w game_state) eff" where
  "checkAgeChanged env dropUndelivered stage start ageBefore =
     bind_eff (get_now env) (\<lambda>now.
       let newAge = calculateAge start now in
       if ageBefore = newAge then return_eff ageBefore
       else then_eff (announce env dropUndelivered stage newAge) (return_eff newAge))"

subsection \<open>The wait stage (doInStageWait.ts)\<close>

text \<open>Errors of a message are logged and dropped.\<close>

definition quietly :: "('e, unit, 's) eff \<Rightarrow> ('e, unit, 's) eff" where
  "quietly m = catch_eff m (\<lambda>e. return_eff ())"

fun for_each :: "('a \<Rightarrow> ('e, unit, 's) eff) \<Rightarrow> 'a list \<Rightarrow> ('e, unit, 's) eff" where
  "for_each f [] = return_eff ()"
| "for_each f (x # xs) = then_eff (f x) (for_each f xs)"

definition isAllConnected :: "BaseGameContext \<Rightarrow> bool" where
  "isAllConnected c \<longleftrightarrow> length (gc_connected c) = length (gc_users c)"

record game_options =
  go_gameWaitingSeconds :: int
  go_gameRunningSeconds :: int
  go_pollIntervalMillis :: int
  go_tick :: "(int \<times> int option) option"
  go_snapshotIntervalMillis :: "int option"
  go_minPlayers :: "int option"
  go_dropUndelivered :: bool
  go_endDropDelayMillis :: int
  go_endRepeatCount :: int
  go_endRepeatIntervalMillis :: int

text \<open>
  \<open>go_tick\<close>: \<open>None\<close> is the mode \<open>perMessage\<close>, otherwise the interval of the mode \<open>fixed\<close> and its
  \<open>maxCatchUpSteps\<close>.
\<close>

fun wait_loop :: "nat \<Rightarrow> ('e, 'w) game_env \<Rightarrow> game_options \<Rightarrow> int \<Rightarrow> int \<Rightarrow> ('e, unit, 'w game_state) eff" where
  "wait_loop 0 env opts start ageBefore s = None"
| "wait_loop (Suc fuel) env opts start ageBefore s =
     (if \<not> (ticker_alive start (go_gameWaitingSeconds opts * 1000) (ge_now env (gs_world s)) \<and> \<not> isAllConnected (gs_context s))
      then return_eff () s
      else
        bind_eff (in_world (ge_poll env)) (\<lambda>messages.
          then_eff (for_each (\<lambda>m. quietly (processEnterLeave env m)) messages)
            (bind_eff (checkAgeChanged env (go_dropUndelivered opts) StageWait start ageBefore) (\<lambda>age.
              then_eff (sleep_for env (go_pollIntervalMillis opts)) (wait_loop fuel env opts start age)))) s)"

definition requiredPlayers :: "game_options \<Rightarrow> BaseGameContext \<Rightarrow> int" where
  "requiredPlayers opts c = (case go_minPlayers opts of None \<Rightarrow> int (length (gc_users c)) | Some n \<Rightarrow> n)"

definition doInStageWait :: "nat \<Rightarrow> ('e, 'w) game_env \<Rightarrow> game_options \<Rightarrow> ('e, bool, 'w game_state) eff" where
  "doInStageWait fuel env opts =
     bind_eff get_context (\<lambda>c.
       bind_eff (get_now env) (\<lambda>start.
         then_eff (wait_loop fuel env opts start (- 1))
           (get_eff (\<lambda>s. requiredPlayers opts c \<le> int (length (gc_connected (gs_context s)))))))"

subsection \<open>The running stage (doInStageRunning.ts)\<close>

text \<open>\<open>ru_dropped\<close> counts the ticks the source reports as overrun, which it only logs.\<close>

record run_locals =
  ru_ageBefore :: int
  ru_lastDelta :: int
  ru_lastStep :: int
  ru_lastSnapshot :: int
  ru_owed :: int
  ru_dropped :: int

definition tick_ok :: "game_options \<Rightarrow> bool" where
  "tick_ok opts \<longleftrightarrow>
     (case go_tick opts of
        None \<Rightarrow> True
      | Some (interval, maxSteps) \<Rightarrow> 0 < interval \<and> (case maxSteps of None \<Rightarrow> True | Some n \<Rightarrow> 1 \<le> n))"

definition applyTimeDelta :: "('e, 'w) game_env \<Rightarrow> int \<Rightarrow> ('e, unit, 'w game_state) eff" where
  "applyTimeDelta env delta =
     (case ge_updateTimeDelta env of None \<Rightarrow> return_eff () | Some f \<Rightarrow> quietly (f delta))"

text \<open>The steps of a pass: how many ran, what is still owed, and whether the game is over.\<close>

fun fixed_steps :: "nat \<Rightarrow> ('e, 'w) game_env \<Rightarrow> int \<Rightarrow> int \<Rightarrow> ('e, nat \<times> int \<times> bool, 'w game_state) eff" where
  "fixed_steps 0 env interval owed = return_eff (0, owed, False)"
| "fixed_steps (Suc n) env interval owed =
     (if owed < interval then return_eff (0, owed, False)
      else
        then_eff (applyTimeDelta env interval)
          (bind_eff (ge_isGameOver env) (\<lambda>over.
            if over then return_eff (1, owed - interval, True)
            else
              bind_eff (fixed_steps n env interval (owed - interval)) (\<lambda>(steps, left, stopped).
                return_eff (Suc steps, left, stopped)))))"

definition maxCatchUpSteps :: "int option \<Rightarrow> nat" where
  "maxCatchUpSteps n = (case n of None \<Rightarrow> 5 | Some k \<Rightarrow> nat k)"

definition runFixedSteps :: "('e, 'w) game_env \<Rightarrow> game_options \<Rightarrow> run_locals \<Rightarrow> ('e, nat \<times> run_locals, 'w game_state) eff" where
  "runFixedSteps env opts l =
     (case go_tick opts of
        None \<Rightarrow> return_eff (0, l)
      | Some (interval, maxSteps) \<Rightarrow>
          if ge_updateTimeDelta env = None then return_eff (0, l)
          else
            bind_eff (get_now env) (\<lambda>now.
              bind_eff (fixed_steps (maxCatchUpSteps maxSteps) env interval (ru_owed l + (now - ru_lastStep l)))
                (\<lambda>(steps, owed, stopped).
                  let l1 = l\<lparr>ru_lastStep := now, ru_owed := owed\<rparr> in
                  return_eff (steps,
                    if \<not> stopped \<and> interval \<le> owed then l1\<lparr>ru_owed := 0, ru_dropped := ru_dropped l1 + owed\<rparr> else l1))))"

definition sendSnapshotIfDue :: "('e, 'w) game_env \<Rightarrow> game_options \<Rightarrow> int \<Rightarrow> run_locals \<Rightarrow> ('e, run_locals, 'w game_state) eff" where
  "sendSnapshotIfDue env opts start l =
     (case (ge_onSnapshot env, go_snapshotIntervalMillis opts) of
        (Some hook, Some gap) \<Rightarrow>
          bind_eff (get_now env) (\<lambda>now.
            if now - ru_lastSnapshot l < gap then return_eff l
            else then_eff (quietly (hook (now - start))) (return_eff (l\<lparr>ru_lastSnapshot := now\<rparr>)))
      | _ \<Rightarrow> return_eff l)"

definition process_message :: "('e, 'w) game_env \<Rightarrow> json \<Rightarrow> ('e, unit, 'w game_state) eff" where
  "process_message env m =
     quietly
       (if message_text m ''type'' = ascii ''enter'' \<or> message_text m ''type'' = ascii ''leave'' then processEnterLeave env m
        else ge_processMessage env m)"

text \<open>The messages of a pass; in the mode \<open>perMessage\<close> the time since the last one goes by after each.\<close>

fun process_all ::
  "('e, 'w) game_env \<Rightarrow> game_options \<Rightarrow> json list \<Rightarrow> run_locals \<Rightarrow> ('e, run_locals, 'w game_state) eff" where
  "process_all env opts [] l = return_eff l"
| "process_all env opts (m # ms) l =
     then_eff (process_message env m)
       (bind_eff
         (if go_tick opts = None \<and> ge_updateTimeDelta env \<noteq> None then
            bind_eff (get_now env) (\<lambda>now.
              then_eff (applyTimeDelta env (now - ru_lastDelta l)) (return_eff (l\<lparr>ru_lastDelta := now\<rparr>)))
          else return_eff l)
         (process_all env opts ms))"

definition pass_sleep :: "game_options \<Rightarrow> int \<Rightarrow> int \<Rightarrow> int" where
  "pass_sleep opts loopStarted now =
     (case go_tick opts of
        None \<Rightarrow> go_pollIntervalMillis opts
      | Some (interval, maxSteps) \<Rightarrow> max 0 (interval - (now - loopStarted)))"

text \<open>One pass of the loop: the variables for the next one, or \<open>None\<close> when the game is over.\<close>

definition run_pass :: "('e, 'w) game_env \<Rightarrow> game_options \<Rightarrow> int \<Rightarrow> run_locals \<Rightarrow> ('e, run_locals option, 'w game_state) eff" where
  "run_pass env opts start l =
     bind_eff (get_now env) (\<lambda>loopStarted.
       bind_eff (in_world (ge_poll env)) (\<lambda>messages.
         bind_eff (process_all env opts messages l) (\<lambda>l1.
           bind_eff (runFixedSteps env opts l1) (\<lambda>(steps, l2).
             bind_eff (ge_isGameOver env) (\<lambda>over.
               if over then return_eff None
               else
                 bind_eff (sendSnapshotIfDue env opts start l2) (\<lambda>l3.
                   bind_eff (checkAgeChanged env (go_dropUndelivered opts) StageRunning start (ru_ageBefore l3)) (\<lambda>age.
                     bind_eff (get_now env) (\<lambda>now.
                       then_eff (sleep_for env (pass_sleep opts loopStarted now))
                         (return_eff (Some (l3\<lparr>ru_ageBefore := age\<rparr>)))))))))))"

fun running_loop :: "nat \<Rightarrow> ('e, 'w) game_env \<Rightarrow> game_options \<Rightarrow> int \<Rightarrow> run_locals \<Rightarrow> ('e, unit, 'w game_state) eff" where
  "running_loop 0 env opts start l s = None"
| "running_loop (Suc fuel) env opts start l s =
     (if \<not> ticker_alive start (go_gameRunningSeconds opts * 1000) (ge_now env (gs_world s)) then return_eff () s
      else
        bind_eff (ge_isGameOver env) (\<lambda>over.
          if over then return_eff ()
          else
            bind_eff (run_pass env opts start l) (\<lambda>more.
              case more of None \<Rightarrow> return_eff () | Some l' \<Rightarrow> running_loop fuel env opts start l')) s)"

definition doInStageRunning :: "'e \<Rightarrow> nat \<Rightarrow> ('e, 'w) game_env \<Rightarrow> game_options \<Rightarrow> ('e, unit, 'w game_state) eff" where
  "doInStageRunning bad_tick fuel env opts =
     (if \<not> tick_ok opts then throw_eff bad_tick
      else
        bind_eff (get_now env) (\<lambda>start.
          running_loop fuel env opts start
            \<lparr>ru_ageBefore = - 1, ru_lastDelta = start, ru_lastStep = start, ru_lastSnapshot = start, ru_owed = 0, ru_dropped = 0\<rparr>))"

subsection \<open>The whole game (runGameAllTogether.ts)\<close>

fun repeatWithInterval :: "nat \<Rightarrow> ('e, 'w) game_env \<Rightarrow> int \<Rightarrow> ('e, unit, 'w game_state) eff \<Rightarrow> ('e, unit, 'w game_state) eff" where
  "repeatWithInterval 0 env interval work = return_eff ()"
| "repeatWithInterval (Suc n) env interval work =
     then_eff work (if n = 0 then return_eff () else then_eff (sleep_for env interval) (repeatWithInterval n env interval work))"

definition game_reason :: "'e \<Rightarrow> nat \<Rightarrow> ('e, 'w) game_env \<Rightarrow> game_options \<Rightarrow> ('e, GameEndReason, 'w game_state) eff" where
  "game_reason bad_tick fuel env opts =
     catch_eff
       (bind_eff (doInStageWait fuel env opts) (\<lambda>enoughPlayers.
          if enoughPlayers then
            then_eff (doInStageRunning bad_tick fuel env opts)
              (bind_eff (ge_isGameOver env) (\<lambda>over. return_eff (if over then Cleared else Timeout)))
          else return_eff NotEnoughPlayers))
       (\<lambda>e. return_eff EndError)"

definition end_game :: "('e, 'w) game_env \<Rightarrow> game_options \<Rightarrow> GameEndReason \<Rightarrow> ('e, unit, 'w game_state) eff" where
  "end_game env opts reason =
     (let repeats = nat (max 1 (go_endRepeatCount opts)) in
      then_eff (case ge_onGameEnd env of None \<Rightarrow> return_eff () | Some hook \<Rightarrow> quietly (hook reason))
        (then_eff
          (repeatWithInterval repeats env (go_endRepeatIntervalMillis opts)
            (quietly (announce env (go_dropUndelivered opts) StageEnd (go_gameRunningSeconds opts))))
          (then_eff (when_eff (0 < go_endDropDelayMillis opts) (sleep_for env (go_endDropDelayMillis opts)))
            (bind_eff get_context (\<lambda>c.
              repeatWithInterval repeats env (go_endRepeatIntervalMillis opts)
                (for_each
                  (\<lambda>connectionId. quietly (then_eff (in_world (dropConnection (ge_network env) connectionId)) (return_eff ())))
                  (connection_keys c)))))))"

definition runGameAllTogether :: "'e \<Rightarrow> nat \<Rightarrow> ('e, 'w) game_env \<Rightarrow> game_options \<Rightarrow> ('e, unit, 'w game_state) eff" where
  "runGameAllTogether bad_tick fuel env opts = bind_eff (game_reason bad_tick fuel env opts) (end_game env opts)"

end
