(* ===== verification/Gamebase_Loop.thy ===== *)
theory Gamebase_Loop
  imports Gamebase_Game
begin

section \<open>How a game runs (gamebase-all-together)\<close>

text \<open>
  Every game ends in time, whatever its hooks throw, and the steps of a fixed tick follow the clock.
  \<open>timely\<close> is the part of a program logic for effects that these need: code that returns, with a value
  or an error, does not turn back the clock and leaves a count alone, which is the time of the pauses for
  the one and the number of the steps for the other. \<open>lasts\<close> is code that pauses, for a bounded time.
\<close>

subsection \<open>Code that returns\<close>

text \<open>A time with a count; later moments have the same count.\<close>

datatype moment = Moment (time_of: int) (count_of: int)

instantiation moment :: preorder
begin

definition less_eq_moment :: "moment \<Rightarrow> moment \<Rightarrow> bool" where
  "less_eq_moment a b \<longleftrightarrow> time_of a \<le> time_of b \<and> count_of a = count_of b"

definition less_moment :: "moment \<Rightarrow> moment \<Rightarrow> bool" where
  "less_moment a b \<longleftrightarrow> time_of a < time_of b \<and> count_of a = count_of b"

instance
  by intro_classes (auto simp: less_eq_moment_def less_moment_def)

end

named_theorems timely_intro \<open>rules for code that returns\<close>

definition timely :: "('s \<Rightarrow> 'c :: preorder) \<Rightarrow> ('e, 'a, 's) eff \<Rightarrow> bool" where
  "timely clk m \<longleftrightarrow> (\<forall>s. \<exists>r s'. m s = Some (r, s') \<and> clk s \<le> clk s')"

lemma timelyD: "timely clk m \<Longrightarrow> \<exists>r s'. m s = Some (r, s') \<and> clk s \<le> clk s'"
  by (simp add: timely_def)

lemma timely_simple [timely_intro]:
  "timely clk (return_eff a)" "timely clk (throw_eff e)" "timely clk (get_eff f)"
  by (simp_all add: timely_def eff_defs)

lemma timely_bind [timely_intro]:
  assumes "timely clk m" "\<And>a. timely clk (k a)"
  shows "timely clk (bind_eff m k)"
  unfolding timely_def
proof
  fix s
  obtain r s1 where m: "m s = Some (r, s1)" "clk s \<le> clk s1" using timelyD [OF assms(1)] by blast
  show "\<exists>r s'. bind_eff m k s = Some (r, s') \<and> clk s \<le> clk s'"
  proof (cases r)
    case (Inr a)
    obtain r' s2 where "k a s1 = Some (r', s2)" "clk s1 \<le> clk s2" using timelyD [OF assms(2)] by blast
    then show ?thesis using m Inr by (auto simp: bind_eff_def intro: order_trans)
  qed (use m in \<open>simp add: bind_eff_def\<close>)
qed

lemma timely_then [timely_intro]: "timely clk m \<Longrightarrow> timely clk n \<Longrightarrow> timely clk (then_eff m n)"
  by (simp add: then_eff_def timely_bind)

lemma timely_catch [timely_intro]:
  assumes "timely clk m" "\<And>e. timely clk (h e)"
  shows "timely clk (catch_eff m h)"
  unfolding timely_def
proof
  fix s
  obtain r s1 where m: "m s = Some (r, s1)" "clk s \<le> clk s1" using timelyD [OF assms(1)] by blast
  show "\<exists>r s'. catch_eff m h s = Some (r, s') \<and> clk s \<le> clk s'"
  proof (cases r)
    case (Inl e)
    obtain r' s2 where "h e s1 = Some (r', s2)" "clk s1 \<le> clk s2" using timelyD [OF assms(2)] by blast
    then show ?thesis using m Inl by (auto simp: catch_eff_def intro: order_trans)
  qed (use m in \<open>simp add: catch_eff_def\<close>)
qed

lemma timely_when [timely_intro]: "timely clk m \<Longrightarrow> timely clk (when_eff b m)"
  by (simp add: when_eff_def timely_simple)

lemma timely_world [timely_intro]:
  fixes clk :: "'w \<Rightarrow> 'c :: preorder"
  assumes "timely clk m"
  shows "timely (\<lambda>s. clk (gs_world s)) (in_world m)"
  unfolding timely_def
proof
  fix s :: "'w game_state"
  obtain r w where "m (gs_world s) = Some (r, w)" "clk (gs_world s) \<le> clk w" using timelyD [OF assms] by blast
  then show "\<exists>r s'. in_world m s = Some (r, s') \<and> clk (gs_world s) \<le> clk (gs_world s')" by (simp add: in_world_def)
qed

lemma timely_all [timely_intro]:
  assumes "\<forall>m \<in> set ms. timely clk m"
  shows "timely clk (promise_all ms)"
  unfolding timely_def
proof
  fix s
  show "\<exists>r s'. promise_all ms s = Some (r, s') \<and> clk s \<le> clk s'"
    using assms
  proof (induction ms arbitrary: s)
    case (Cons m ms)
    obtain r s1 where m: "m s = Some (r, s1)" "clk s \<le> clk s1" using timelyD [of clk m] Cons.prems by fastforce
    obtain rs s2 where "promise_all ms s1 = Some (rs, s2)" "clk s1 \<le> clk s2" using Cons by fastforce
    then show ?case using m by (auto intro: order_trans)
  qed simp
qed

lemma timely_for_each [timely_intro]: "(\<And>x. timely clk (f x)) \<Longrightarrow> timely clk (for_each f xs)"
  by (induction xs) (simp_all add: timely_intro)

lemma timely_quietly [timely_intro]: "timely clk m \<Longrightarrow> timely clk (quietly m)"
  unfolding quietly_def by (intro timely_intro)

subsection \<open>Code that pauses\<close>

text \<open>
  \<open>clk\<close> is the time, \<open>pauses\<close> the time of the pauses so far. \<open>clean\<close> code does not throw.
\<close>

definition lasts :: "('s \<Rightarrow> int) \<Rightarrow> ('s \<Rightarrow> int) \<Rightarrow> int \<Rightarrow> bool \<Rightarrow> ('e, 'a, 's) eff \<Rightarrow> bool" where
  "lasts clk pauses b clean m \<longleftrightarrow>
     (\<forall>s. \<exists>r s'. m s = Some (r, s') \<and> clk s \<le> clk s' \<and> pauses s' \<le> pauses s + b \<and> (clean \<longrightarrow> \<not> isl r))"

lemma lastsD:
  "lasts clk pauses b clean m \<Longrightarrow>
     \<exists>r s'. m s = Some (r, s') \<and> clk s \<le> clk s' \<and> pauses s' \<le> pauses s + b \<and> (clean \<longrightarrow> \<not> isl r)"
  by (simp add: lasts_def)

lemma lasts_simple: "lasts clk pauses 0 clean (return_eff a)" "lasts clk pauses 0 clean (get_eff f)"
  by (simp_all add: lasts_def eff_defs)

lemma lasts_bind:
  assumes "lasts clk pauses b clean m" "\<And>a. lasts clk pauses b' clean (k a)" "0 \<le> b'"
  shows "lasts clk pauses (b + b') clean (bind_eff m k)"
  unfolding lasts_def
proof
  fix s
  obtain r s1 where m: "m s = Some (r, s1)" "clk s \<le> clk s1" "pauses s1 \<le> pauses s + b" "clean \<longrightarrow> \<not> isl r"
    using lastsD [OF assms(1)] by blast
  show "\<exists>r s'. bind_eff m k s = Some (r, s') \<and> clk s \<le> clk s' \<and> pauses s' \<le> pauses s + (b + b') \<and> (clean \<longrightarrow> \<not> isl r)"
  proof (cases r)
    case (Inr a)
    obtain r' s2 where "k a s1 = Some (r', s2)" "clk s1 \<le> clk s2" "pauses s2 \<le> pauses s1 + b'" "clean \<longrightarrow> \<not> isl r'"
      using lastsD [OF assms(2)] by blast
    then show ?thesis using m Inr by (auto simp: bind_eff_def)
  qed (use m assms(3) in \<open>auto simp: bind_eff_def\<close>)
qed

lemma lasts_then:
  "lasts clk pauses b clean m \<Longrightarrow> lasts clk pauses b' clean n \<Longrightarrow> 0 \<le> b' \<Longrightarrow> lasts clk pauses (b + b') clean (then_eff m n)"
  unfolding then_eff_def by (rule lasts_bind)

lemma lasts_catch:
  assumes "lasts clk pauses b False m" "\<And>e. lasts clk pauses 0 clean (h e)"
  shows "lasts clk pauses b clean (catch_eff m h)"
  unfolding lasts_def
proof
  fix s
  obtain r s1 where m: "m s = Some (r, s1)" "clk s \<le> clk s1" "pauses s1 \<le> pauses s + b"
    using lastsD [OF assms(1)] by blast
  show "\<exists>r s'. catch_eff m h s = Some (r, s') \<and> clk s \<le> clk s' \<and> pauses s' \<le> pauses s + b \<and> (clean \<longrightarrow> \<not> isl r)"
  proof (cases r)
    case (Inl e)
    obtain r' s2 where "h e s1 = Some (r', s2)" "clk s1 \<le> clk s2" "pauses s2 \<le> pauses s1 + 0" "clean \<longrightarrow> \<not> isl r'"
      using lastsD [OF assms(2)] by blast
    then show ?thesis using m Inl by (auto simp: catch_eff_def)
  qed (use m in \<open>simp add: catch_eff_def\<close>)
qed

lemma lasts_more: "lasts clk pauses b clean m \<Longrightarrow> b \<le> b' \<Longrightarrow> lasts clk pauses b' clean m"
  unfolding lasts_def by (meson add_left_mono order_trans)

text \<open>What the surroundings do takes no pause.\<close>

lemma timely_lasts: "timely (\<lambda>s. Moment (clk s) (pauses s)) m \<Longrightarrow> lasts clk pauses 0 False m"
  unfolding timely_def lasts_def by (fastforce simp: less_eq_moment_def)

lemma quietly_lasts: "timely (\<lambda>s. Moment (clk s) (pauses s)) m \<Longrightarrow> lasts clk pauses 0 clean (quietly m)"
  unfolding quietly_def by (intro lasts_catch timely_lasts lasts_simple)

lemma lasts_each:
  assumes "\<And>x. lasts clk pauses 0 clean (f x)"
  shows "lasts clk pauses 0 clean (for_each f xs)"
proof (induction xs)
  case (Cons x xs)
  from lasts_then [OF assms Cons.IH] show ?case by simp
qed (simp add: lasts_simple)

subsection \<open>The surroundings of a game\<close>

text \<open>
  What a game needs of its surroundings: every call returns, the clock does not go back, and a pause
  takes its time. \<open>tally\<close> is what the calls leave alone.
\<close>

definition game_clock :: "('e, 'w) game_env \<Rightarrow> 'w game_state \<Rightarrow> int" where
  "game_clock env s = ge_now env (gs_world s)"

definition game_moment :: "('e, 'w) game_env \<Rightarrow> ('w \<Rightarrow> int) \<Rightarrow> 'w game_state \<Rightarrow> moment" where
  "game_moment env tally s = Moment (game_clock env s) (tally (gs_world s))"

definition world_moment :: "('e, 'w) game_env \<Rightarrow> ('w \<Rightarrow> int) \<Rightarrow> 'w \<Rightarrow> moment" where
  "world_moment env tally w = Moment (ge_now env w) (tally w)"

definition timely_transport :: "('w \<Rightarrow> 'c :: preorder) \<Rightarrow> ('e, 'w) network \<Rightarrow> bool" where
  "timely_transport clk network \<longleftrightarrow>
     (case network of
        Inl e \<Rightarrow> True
      | Inr t \<Rightarrow>
          (\<forall>c m. timely clk (tr_send t c m)) \<and> (\<forall>c. timely clk (tr_drop t c)) \<and>
          (\<forall>f cs m. tr_sendMany t = Some f \<longrightarrow> timely clk (f cs m)))"

text \<open>All the calls but \<open>updateTimeDelta\<close>.\<close>

definition timely_calls :: "('e, 'w) game_env \<Rightarrow> ('w \<Rightarrow> int) \<Rightarrow> bool" where
  "timely_calls env tally \<longleftrightarrow>
     timely_transport (world_moment env tally) (ge_network env) \<and> timely (world_moment env tally) (ge_poll env) \<and>
     timely (game_moment env tally) (ge_isGameOver env) \<and> (\<forall>m. timely (game_moment env tally) (ge_processMessage env m)) \<and>
     (\<forall>f st a. ge_onStageChanged env = Some f \<longrightarrow> timely (game_moment env tally) (f st a)) \<and>
     (\<forall>f c m. ge_onMemberEntered env = Some f \<longrightarrow> timely (game_moment env tally) (f c m)) \<and>
     (\<forall>f t. ge_onSnapshot env = Some f \<longrightarrow> timely (game_moment env tally) (f t)) \<and>
     (\<forall>f q. ge_onGameEnd env = Some f \<longrightarrow> timely (game_moment env tally) (f q))"

definition timely_deltas :: "('e, 'w) game_env \<Rightarrow> ('w \<Rightarrow> int) \<Rightarrow> bool" where
  "timely_deltas env tally \<longleftrightarrow> (\<forall>f d. ge_updateTimeDelta env = Some f \<longrightarrow> timely (game_moment env tally) (f d))"

text \<open>\<open>pauses\<close> adds up the pauses; the clock goes on at least as long.\<close>

definition timely_game :: "('e, 'w) game_env \<Rightarrow> ('w \<Rightarrow> int) \<Rightarrow> bool" where
  "timely_game env pauses \<longleftrightarrow>
     timely_calls env pauses \<and> timely_deltas env pauses \<and>
     (\<forall>ms w. ge_now env w + max 0 ms \<le> ge_now env (ge_sleep env ms w) \<and> pauses (ge_sleep env ms w) = pauses w + max 0 ms)"

lemma timely_parts:
  assumes "timely_calls env tally"
  shows "timely_transport (world_moment env tally) (ge_network env)" "timely (world_moment env tally) (ge_poll env)"
    "timely (game_moment env tally) (ge_isGameOver env)" "timely (game_moment env tally) (ge_processMessage env m)"
    "ge_onStageChanged env = Some f2 \<Longrightarrow> timely (game_moment env tally) (f2 st a)"
    "ge_onMemberEntered env = Some f3 \<Longrightarrow> timely (game_moment env tally) (f3 c c')"
    "ge_onSnapshot env = Some f4 \<Longrightarrow> timely (game_moment env tally) (f4 t)"
    "ge_onGameEnd env = Some f5 \<Longrightarrow> timely (game_moment env tally) (f5 q)"
  using assms unfolding timely_calls_def by blast+

lemma game_parts:
  assumes "timely_game env pauses"
  shows "timely_calls env pauses" "timely_deltas env pauses"
  using assms unfolding timely_game_def by blast+

lemma timely_lift: "timely (world_moment env tally) m \<Longrightarrow> timely (game_moment env tally) (in_world m)"
  using timely_world [of "world_moment env tally" m] by (simp add: game_moment_def [abs_def] world_moment_def game_clock_def)

lemma timely_network:
  assumes "timely_transport clk network"
  shows "timely clk (reply network c m)" "timely clk (dropConnection network c)" "timely clk (broadcast network cs m)"
proof -
  show r: "timely clk (reply network c m)" for c m
    using assms by (auto simp: reply_def timely_transport_def timely_intro split: sum.split)
  show "timely clk (dropConnection network c)"
    using assms by (auto simp: dropConnection_def timely_transport_def timely_intro split: sum.split)
  have "timely clk (promise_all (map (\<lambda>c. reply network c m) xs))" for xs
    by (rule timely_all) (simp add: r)
  then show "timely clk (broadcast network cs m)"
    using assms r unfolding broadcast_def Let_def
    by (auto simp: timely_transport_def intro!: timely_intro split: sum.split option.split)
qed

lemma timely_basic:
  "timely (game_moment env tally) get_context" "timely (game_moment env tally) (change_context f)" "timely (game_moment env tally) (get_now env)"
  by (simp_all add: timely_def get_context_def change_context_def get_now_def eff_defs game_moment_def game_clock_def)

lemma timely_announce:
  assumes "timely_calls env tally"
  shows "timely (game_moment env tally) (announce env b st a)"
proof (cases "ge_onStageChanged env")
  case None
  have "timely (game_moment env tally) (broadcastStage env st a)"
    unfolding broadcastStage_def
    by (intro timely_intro timely_basic timely_lift timely_network(3) timely_parts(1) assms)
  then show ?thesis by (simp add: announce_def None timely_bind timely_when timely_basic)
qed (simp add: announce_def timely_parts(5) [OF assms])

lemma timely_check_age: "timely_calls env tally \<Longrightarrow> timely (game_moment env tally) (checkAgeChanged env b st start a)"
  unfolding checkAgeChanged_def Let_def by (auto intro!: timely_intro timely_basic timely_announce)

lemma timely_enter:
  assumes "timely_calls env tally"
  shows "timely (game_moment env tally) (processEnter env c m)"
proof -
  have entered: "timely (game_moment env tally) (member_entered env c m)"
    using timely_parts(6) [OF assms]
    by (cases "ge_onMemberEntered env")
      (auto simp: member_entered_def broadcastMemberEntered_def intro!: timely_intro timely_basic timely_lift timely_network(3) timely_parts(1) assms)
  show ?thesis
    unfolding processEnter_def
    by (auto intro!: timely_intro timely_basic entered timely_lift timely_network(2) timely_parts(1) assms split: option.split)
qed

lemma timely_enter_leave: "timely_calls env tally \<Longrightarrow> timely (game_moment env tally) (processEnterLeave env m)"
  by (simp add: processEnterLeave_def timely_enter timely_basic timely_simple)

lemma timely_delta: "timely_deltas env tally \<Longrightarrow> timely (game_moment env tally) (applyTimeDelta env d)"
  by (auto simp: applyTimeDelta_def timely_deltas_def intro!: timely_intro split: option.split)

lemma timely_message: "timely_calls env tally \<Longrightarrow> timely (game_moment env tally) (process_message env m)"
  unfolding process_message_def by (simp add: timely_quietly timely_enter_leave timely_parts(4))

lemma timely_messages:
  assumes "timely_calls env tally" "go_tick opts = None \<longrightarrow> timely_deltas env tally"
  shows "timely (game_moment env tally) (process_all env opts ms l)"
proof (induction ms arbitrary: l)
  case (Cons m ms)
  then show ?case using assms by (auto intro!: timely_intro timely_basic timely_message timely_delta)
qed (simp add: timely_simple)

lemma timely_fixed:
  assumes "timely_calls env tally" "timely_deltas env tally"
  shows "timely (game_moment env tally) (fixed_steps n env interval owed)"
proof (induction n arbitrary: owed)
  case (Suc n)
  then show ?case
    by (auto intro!: timely_intro timely_delta timely_parts(3) assms split: prod.split)
qed (simp add: timely_simple)

lemma timely_fixed_steps:
  "timely_calls env tally \<Longrightarrow> timely_deltas env tally \<Longrightarrow> timely (game_moment env tally) (runFixedSteps env opts l)"
  unfolding runFixedSteps_def Let_def
  by (auto intro!: timely_intro timely_basic timely_fixed split: option.split prod.split)

lemma timely_snapshot: "timely_calls env tally \<Longrightarrow> timely (game_moment env tally) (sendSnapshotIfDue env opts start l)"
  unfolding sendSnapshotIfDue_def
  by (auto intro!: timely_intro timely_basic timely_parts(7) split: option.split)

subsection \<open>Every game ends in time\<close>

text \<open>Code that returns from a given state, with a property.\<close>

definition ends :: "('e, 'a, 's) eff \<Rightarrow> 's \<Rightarrow> ('e + 'a \<Rightarrow> 's \<Rightarrow> bool) \<Rightarrow> bool" where
  "ends m s P \<longleftrightarrow> (\<exists>r s'. m s = Some (r, s') \<and> P r s')"

lemma timely_ends_bind:
  assumes "timely clk m" "\<And>a s1. clk s \<le> clk s1 \<Longrightarrow> ends (k a) s1 P" "\<And>e s1. clk s \<le> clk s1 \<Longrightarrow> P (Inl e) s1"
  shows "ends (bind_eff m k) s P"
proof -
  obtain r s1 where m: "m s = Some (r, s1)" "clk s \<le> clk s1" using timelyD [OF assms(1)] by blast
  show ?thesis
  proof (cases r)
    case (Inr a)
    obtain r' s2 where "k a s1 = Some (r', s2)" "P r' s2" using assms(2) [OF m(2)] unfolding ends_def by blast
    then show ?thesis using m Inr by (auto simp: ends_def bind_eff_def)
  qed (use m assms(3) [OF m(2)] in \<open>simp add: ends_def bind_eff_def\<close>)
qed

lemma timely_ends_then:
  "timely clk m \<Longrightarrow> (\<And>s1. clk s \<le> clk s1 \<Longrightarrow> ends n s1 P) \<Longrightarrow> (\<And>e s1. clk s \<le> clk s1 \<Longrightarrow> P (Inl e) s1) \<Longrightarrow> ends (then_eff m n) s P"
  unfolding then_eff_def by (rule timely_ends_bind)

lemma ends_sleep:
  assumes "timely_game env pauses"
    and "\<And>s1. game_clock env s + max 0 ms \<le> game_clock env s1 \<Longrightarrow> pauses (gs_world s1) = pauses (gs_world s) + max 0 ms \<Longrightarrow> ends n s1 P"
  shows "ends (then_eff (sleep_for env ms) n) s P"
proof -
  let ?s1 = "s\<lparr>gs_world := ge_sleep env ms (gs_world s)\<rparr>"
  have "game_clock env s + max 0 ms \<le> game_clock env ?s1" "pauses (gs_world ?s1) = pauses (gs_world s) + max 0 ms"
    using assms(1) by (simp_all add: timely_game_def game_clock_def)
  moreover have "then_eff (sleep_for env ms) n s = n ?s1" by (simp add: then_eff_def bind_eff_def sleep_for_def modify_eff_def)
  ultimately show ?thesis using assms(2) [of ?s1] by (simp add: ends_def)
qed

lemma ends_now:
  assumes "ends (k (game_clock env s)) s P"
  shows "ends (bind_eff (get_now env) k) s P"
  using assms by (simp add: ends_def bind_eff_def get_now_def get_eff_def game_clock_def)

lemma moment_le:
  "game_moment env tally s \<le> game_moment env tally s' \<longleftrightarrow>
     game_clock env s \<le> game_clock env s' \<and> tally (gs_world s') = tally (gs_world s)"
  by (auto simp: less_eq_moment_def game_moment_def)

text \<open>How long a stage pauses that has \<open>left\<close> to go in passes that pause for \<open>pass\<close>.\<close>

definition stage_pauses :: "int \<Rightarrow> int \<Rightarrow> int" where
  "stage_pauses left pass = (if 0 < left then left + pass else 0)"

lemma stage_pass:
  "0 < left \<Longrightarrow> slept \<le> pass \<Longrightarrow> slept \<le> left - left' \<Longrightarrow> slept + stage_pauses left' pass \<le> stage_pauses left pass"
  by (simp add: stage_pauses_def)

definition in_stage ::
  "('e, 'w) game_env \<Rightarrow> ('w \<Rightarrow> int) \<Rightarrow> 'w game_state \<Rightarrow> int \<Rightarrow> int \<Rightarrow> 'r \<Rightarrow> 'w game_state \<Rightarrow> bool" where
  "in_stage env pauses s left pass r s' \<longleftrightarrow>
     game_clock env s \<le> game_clock env s' \<and> pauses (gs_world s') \<le> pauses (gs_world s) + stage_pauses left pass"

lemma stage_over: "0 \<le> stage_pauses left pass \<Longrightarrow> in_stage env pauses s left pass r s"
  by (simp add: in_stage_def)

lemma stage_nonneg: "0 \<le> pass \<Longrightarrow> 0 \<le> stage_pauses left pass"
  by (simp add: stage_pauses_def)

lemma stage_error:
  assumes "game_moment env pauses s \<le> game_moment env pauses s1" "0 \<le> pass"
  shows "in_stage env pauses s left pass r s1"
  using assms stage_nonneg [of pass left] by (auto simp: in_stage_def moment_le)

lemma stage_goes_on:
  assumes "in_stage env pauses s1 left' pass r s'" "0 < left" "game_clock env s \<le> game_clock env s1"
    and "pauses (gs_world s1) \<le> pauses (gs_world s) + slept" "slept \<le> pass" "slept \<le> left - left'"
  shows "in_stage env pauses s left pass r s'"
  using assms stage_pass [OF assms(2,5,6)] by (auto simp: in_stage_def)

lemma ends_weaken: "ends m s P \<Longrightarrow> (\<And>r s'. P r s' \<Longrightarrow> Q r s') \<Longrightarrow> ends m s Q"
  by (auto simp: ends_def)

lemma wait_passes_end:
  fixes env :: "('e, 'w) game_env"
  assumes env: "timely_game env pauses" and poll: "1 \<le> go_pollIntervalMillis opts"
    and "start + go_gameWaitingSeconds opts * 1000 - game_clock env s \<le> int n"
  shows "ends (wait_loop (Suc n) env opts start a) s
    (in_stage env pauses s (start + go_gameWaitingSeconds opts * 1000 - game_clock env s) (go_pollIntervalMillis opts))"
  using assms(3)
proof (induction n arbitrary: s a)
  case 0
  then show ?case
    using poll by (simp add: ends_def ticker_alive_def game_clock_def return_eff_def in_stage_def stage_pauses_def)
next
  case (Suc n)
  let ?left = "\<lambda>s. start + go_gameWaitingSeconds opts * 1000 - game_clock env s" and ?poll = "go_pollIntervalMillis opts"
  let ?body = "bind_eff (in_world (ge_poll env)) (\<lambda>messages.
    then_eff (for_each (\<lambda>m. quietly (processEnterLeave env m)) messages)
      (bind_eff (checkAgeChanged env (go_dropUndelivered opts) StageWait start a) (\<lambda>age.
        then_eff (sleep_for env ?poll) (wait_loop (Suc n) env opts start age))))"
  note calls = game_parts(1) [OF env]
  have over: "ends (return_eff () :: ('e, unit, 'w game_state) eff) s (in_stage env pauses s (?left s) ?poll)"
    using poll by (simp add: ends_def return_eff_def stage_over stage_nonneg)
  have "ends ?body s (in_stage env pauses s (?left s) ?poll)" if alive: "0 < ?left s"
  proof (intro timely_ends_bind [OF timely_lift [OF timely_parts(2) [OF calls]]]
      timely_ends_then [OF timely_for_each [OF timely_quietly [OF timely_enter_leave [OF calls]]]]
      timely_ends_bind [OF timely_check_age [OF calls]] ends_sleep [OF env])
    fix s1 s2 s3 s4 :: "'w game_state" and age
    assume later: "game_moment env pauses s \<le> game_moment env pauses s1" "game_moment env pauses s1 \<le> game_moment env pauses s2"
        "game_moment env pauses s2 \<le> game_moment env pauses s3"
      and slept: "game_clock env s3 + max 0 ?poll \<le> game_clock env s4" "pauses (gs_world s4) = pauses (gs_world s3) + max 0 ?poll"
    have s3: "game_clock env s \<le> game_clock env s3" "pauses (gs_world s3) = pauses (gs_world s)"
      using order_trans [OF order_trans [OF later(1,2)] later(3)] by (simp_all add: moment_le)
    then have "?left s4 \<le> int n" using slept(1) poll Suc.prems by linarith
    note rest = Suc.IH [OF this, of age]
    show "ends (wait_loop (Suc n) env opts start age) s4 (in_stage env pauses s (?left s) ?poll)"
    proof (rule ends_weaken [OF rest])
      fix r s'
      assume "in_stage env pauses s4 (?left s4) ?poll r s'"
      from stage_goes_on [OF this alive, where slept = ?poll] show "in_stage env pauses s (?left s) ?poll r s'"
        using s3 slept poll by simp
    qed
  qed (use poll in \<open>auto intro!: stage_error intro: order_trans\<close>)
  then show ?case
    using over unfolding wait_loop.simps(2) [of "Suc n"] ends_def
    by (cases "0 < ?left s") (auto simp: ticker_alive_def game_clock_def simp del: wait_loop.simps)
qed

definition pass_millis :: "game_options \<Rightarrow> int" where
  "pass_millis opts = (case go_tick opts of None \<Rightarrow> go_pollIntervalMillis opts | Some (interval, n) \<Rightarrow> interval)"

text \<open>What a pass does to the time: it pauses at most once, and long enough unless the game is over.\<close>

definition advanced ::
  "('e, 'w) game_env \<Rightarrow> ('w \<Rightarrow> int) \<Rightarrow> game_options \<Rightarrow> 'w game_state \<Rightarrow> 'e + run_locals option \<Rightarrow> 'w game_state \<Rightarrow> bool" where
  "advanced env pauses opts s r s' \<longleftrightarrow>
     (\<exists>slept. pauses (gs_world s') = pauses (gs_world s) + slept \<and> 0 \<le> slept \<and> slept \<le> max 0 (pass_millis opts) \<and>
        game_clock env s + slept \<le> game_clock env s') \<and>
     (\<forall>l. r = Inr (Some l) \<longrightarrow> game_clock env s + pass_millis opts \<le> game_clock env s')"

lemma advanced_calls:
  assumes "game_moment env pauses s \<le> game_moment env pauses s'" "\<forall>l. r \<noteq> Inr (Some l)"
  shows "advanced env pauses opts s r s'"
  unfolding advanced_def using assms by (intro conjI exI [of _ 0]) (auto simp: moment_le)

lemma pass_advances:
  fixes env :: "('e, 'w) game_env"
  assumes env: "timely_game env pauses"
  shows "ends (run_pass env opts start l) s (advanced env pauses opts s)"
  unfolding run_pass_def
proof (intro ends_now timely_ends_bind [OF timely_lift [OF timely_parts(2) [OF game_parts(1) [OF env]]]]
    timely_ends_bind [OF timely_messages [OF game_parts(1) [OF env] impI [OF game_parts(2) [OF env]]]])
  note calls = game_parts(1) [OF env]
  fix ms l1 and s1 s2 :: "'w game_state"
  assume s1: "game_moment env pauses s \<le> game_moment env pauses s1" "game_moment env pauses s1 \<le> game_moment env pauses s2"
  have tail: "ends (bind_eff (sendSnapshotIfDue env opts start l2) (\<lambda>l3.
       bind_eff (checkAgeChanged env (go_dropUndelivered opts) StageRunning start (ru_ageBefore l3)) (\<lambda>age.
         bind_eff (get_now env) (\<lambda>now.
           then_eff (sleep_for env (pass_sleep opts (game_clock env s) now)) (return_eff (Some (l3\<lparr>ru_ageBefore := age\<rparr>))))))) s3
      (advanced env pauses opts s)" if s3: "game_moment env pauses s \<le> game_moment env pauses s3" for l2 s3
  proof (intro timely_ends_bind [OF timely_snapshot [OF calls]] timely_ends_bind [OF timely_check_age [OF calls]]
      ends_now ends_sleep [OF env])
    fix l3 age and s4 s5 s6 :: "'w game_state"
    let ?slept = "max 0 (pass_sleep opts (game_clock env s) (game_clock env s5))"
    assume s4: "game_moment env pauses s3 \<le> game_moment env pauses s4" "game_moment env pauses s4 \<le> game_moment env pauses s5"
      and s6: "game_clock env s5 + ?slept \<le> game_clock env s6" "pauses (gs_world s6) = pauses (gs_world s5) + ?slept"
    have s5: "game_clock env s \<le> game_clock env s5" "pauses (gs_world s5) = pauses (gs_world s)"
      using order_trans [OF s3 order_trans [OF s4]] by (simp_all add: moment_le)
    have "?slept \<le> max 0 (pass_millis opts)" "pass_millis opts \<le> game_clock env s5 - game_clock env s + ?slept"
      using s5(1) by (auto simp: pass_millis_def pass_sleep_def split: option.split)
    then show "ends (return_eff (Some (l3\<lparr>ru_ageBefore := age\<rparr>))) s6 (advanced env pauses opts s)"
      using s5 s6 by (auto simp: ends_def return_eff_def advanced_def)
  qed (use s3 in \<open>auto intro!: advanced_calls intro: order_trans\<close>)
  show "ends (bind_eff (runFixedSteps env opts l1) (\<lambda>(steps, l2).
      bind_eff (ge_isGameOver env) (\<lambda>over. if over then return_eff None
        else bind_eff (sendSnapshotIfDue env opts start l2) (\<lambda>l3.
          bind_eff (checkAgeChanged env (go_dropUndelivered opts) StageRunning start (ru_ageBefore l3)) (\<lambda>age.
            bind_eff (get_now env) (\<lambda>now.
              then_eff (sleep_for env (pass_sleep opts (game_clock env s) now)) (return_eff (Some (l3\<lparr>ru_ageBefore := age\<rparr>))))))))) s2
    (advanced env pauses opts s)"
    unfolding prod.case_distrib case_prod_beta
  proof (intro timely_ends_bind [OF timely_fixed_steps [OF calls game_parts(2) [OF env]]] timely_ends_bind [OF timely_parts(3) [OF calls]])
    fix x over and s3 s4 :: "'w game_state"
    assume "game_moment env pauses s2 \<le> game_moment env pauses s3" "game_moment env pauses s3 \<le> game_moment env pauses s4"
    then have s4: "game_moment env pauses s \<le> game_moment env pauses s4" using s1 by (blast intro: order_trans)
    show "ends (if over then return_eff None else bind_eff (sendSnapshotIfDue env opts start (snd x)) (\<lambda>l3.
          bind_eff (checkAgeChanged env (go_dropUndelivered opts) StageRunning start (ru_ageBefore l3)) (\<lambda>age.
            bind_eff (get_now env) (\<lambda>now.
              then_eff (sleep_for env (pass_sleep opts (game_clock env s) now)) (return_eff (Some (l3\<lparr>ru_ageBefore := age\<rparr>))))))) s4
      (advanced env pauses opts s)"
      using tail [OF s4] advanced_calls [OF s4] by (cases over) (auto simp: ends_def return_eff_def)
  qed (use s1 in \<open>auto intro!: advanced_calls intro: order_trans\<close>)
qed (auto intro!: advanced_calls intro: order_trans)

lemma running_loop_ends:
  fixes env :: "('e, 'w) game_env"
  assumes env: "timely_game env pauses" and pass: "1 \<le> pass_millis opts"
    and "start + go_gameRunningSeconds opts * 1000 - game_clock env s \<le> int n"
  shows "ends (running_loop (Suc n) env opts start l) s
    (in_stage env pauses s (start + go_gameRunningSeconds opts * 1000 - game_clock env s) (pass_millis opts))"
  using assms(3)
proof (induction n arbitrary: s l)
  case 0
  then show ?case
    using pass by (simp add: ends_def ticker_alive_def game_clock_def return_eff_def in_stage_def stage_pauses_def)
next
  case (Suc n)
  let ?left = "\<lambda>s. start + go_gameRunningSeconds opts * 1000 - game_clock env s" and ?pass = "pass_millis opts"
  let ?in = "in_stage env pauses s (?left s) ?pass"
  have over: "ends (return_eff () :: ('e, unit, 'w game_state) eff) s1 ?in" if "game_moment env pauses s \<le> game_moment env pauses s1" for s1
    using pass stage_error [OF that, of ?pass] by (simp add: ends_def return_eff_def)
  have again: "ends (bind_eff (run_pass env opts start l) (\<lambda>more.
      case more of None \<Rightarrow> return_eff () | Some l' \<Rightarrow> running_loop (Suc n) env opts start l')) s1 ?in"
    if s1: "game_moment env pauses s \<le> game_moment env pauses s1" and alive: "0 < ?left s" for s1
  proof -
    obtain r s2 where r: "run_pass env opts start l s1 = Some (r, s2)" "advanced env pauses opts s1 r s2"
      using pass_advances [OF env, of opts start l s1] unfolding ends_def by blast
    then obtain slept where slept: "pauses (gs_world s2) = pauses (gs_world s) + slept" "0 \<le> slept" "slept \<le> ?pass"
        "game_clock env s + slept \<le> game_clock env s2" "game_clock env s \<le> game_clock env s1"
      using s1 pass unfolding advanced_def by (auto simp: moment_le)
    have stopped: "in_stage env pauses s (?left s) ?pass q s2" for q :: "'e + unit"
      using slept alive by (simp add: in_stage_def stage_pauses_def)
    show ?thesis
    proof (cases "\<exists>l'. r = Inr (Some l')")
      case True
      then obtain l' where l': "r = Inr (Some l')" by blast
      have "?left s2 \<le> int n" using r(2) l' slept(5) pass Suc.prems by (auto simp: advanced_def)
      from Suc.IH [OF this, of l'] have "ends (running_loop (Suc n) env opts start l') s2 ?in"
      proof (rule ends_weaken)
        fix q s'
        assume "in_stage env pauses s2 (?left s2) ?pass q s'"
        from stage_goes_on [OF this alive, where slept = slept] show "in_stage env pauses s (?left s) ?pass q s'" using slept by simp
      qed
      then show ?thesis using r(1) l' by (simp add: ends_def bind_eff_def del: running_loop.simps)
    next
      case False
      then show ?thesis using r(1) stopped by (cases r) (auto simp: ends_def bind_eff_def return_eff_def split: option.splits)
    qed
  qed
  have "ends (bind_eff (ge_isGameOver env) (\<lambda>over. if over then return_eff ()
      else bind_eff (run_pass env opts start l) (\<lambda>more.
        case more of None \<Rightarrow> return_eff () | Some l' \<Rightarrow> running_loop (Suc n) env opts start l'))) s ?in" if "0 < ?left s"
    by (rule timely_ends_bind [OF timely_parts(3) [OF game_parts(1) [OF env]]])
      (use again [OF _ that] over pass in \<open>auto intro: stage_error simp del: running_loop.simps\<close>)
  then show ?case
    using over [OF order_refl] unfolding running_loop.simps(2) [of "Suc n"] ends_def
    by (cases "0 < ?left s") (auto simp: ticker_alive_def game_clock_def simp del: running_loop.simps)
qed

lemma more_fuel: "nat (x * 1000) < fuel \<Longrightarrow> \<exists>n. fuel = Suc n \<and> x * 1000 \<le> int n"
  by (cases fuel) auto

text \<open>A stage starts with its clock and looks at the context when it is over.\<close>

definition paused_time :: "('w \<Rightarrow> int) \<Rightarrow> 'w game_state \<Rightarrow> int" where
  "paused_time pauses s = pauses (gs_world s)"

lemma calls_last:
  assumes "timely (game_moment env pauses) m"
  shows "lasts (game_clock env) (paused_time pauses) 0 False m"
  by (rule timely_lasts) (use assms in \<open>simp add: game_moment_def [abs_def] paused_time_def\<close>)

lemma quiet_lasts:
  assumes "timely (game_moment env pauses) m"
  shows "lasts (game_clock env) (paused_time pauses) 0 clean (quietly m)"
  by (rule quietly_lasts) (use assms in \<open>simp add: game_moment_def [abs_def] paused_time_def\<close>)

lemma stage_lasts:
  assumes "\<And>s. ends (loop (game_clock env s)) s (in_stage env pauses s left pass)"
  shows "lasts (game_clock env) (paused_time pauses) (stage_pauses left pass) False (bind_eff (get_now env) loop)"
  unfolding lasts_def
proof
  fix s
  from assms [of s] obtain r s' where "loop (game_clock env s) s = Some (r, s')" "in_stage env pauses s left pass r s'"
    unfolding ends_def by blast
  then show "\<exists>r s'. bind_eff (get_now env) loop s = Some (r, s') \<and> game_clock env s \<le> game_clock env s' \<and>
      paused_time pauses s' \<le> paused_time pauses s + stage_pauses left pass \<and> (False \<longrightarrow> \<not> isl r)"
    by (auto simp: bind_eff_def get_now_def get_eff_def game_clock_def in_stage_def paused_time_def)
qed

lemma ends_then_get: "ends m s (in_stage env pauses s left pass) \<Longrightarrow> ends (then_eff m (get_eff f)) s (in_stage env pauses s left pass)"
  by (auto simp: ends_def then_eff_def bind_eff_def get_eff_def in_stage_def split: sum.split)

lemma wait_lasts:
  assumes env: "timely_game env pauses" and poll: "1 \<le> go_pollIntervalMillis opts" and fuel: "nat (go_gameWaitingSeconds opts * 1000) < fuel"
  shows "lasts (game_clock env) (paused_time pauses) (stage_pauses (go_gameWaitingSeconds opts * 1000) (go_pollIntervalMillis opts)) False
    (doInStageWait fuel env opts)"
proof -
  obtain n where n: "fuel = Suc n" "go_gameWaitingSeconds opts * 1000 \<le> int n" using more_fuel [OF fuel] by blast
  have "lasts (game_clock env) (paused_time pauses) (stage_pauses (go_gameWaitingSeconds opts * 1000) (go_pollIntervalMillis opts)) False
      (bind_eff (get_now env) (\<lambda>start. then_eff (wait_loop fuel env opts start (- 1)) (get_eff f)))" for f :: "'b game_state \<Rightarrow> bool"
    unfolding n(1)
    by (intro stage_lasts ends_then_get) (use wait_passes_end [OF env poll, of "game_clock env s" s n "- 1" for s] n(2) in simp)
  from lasts_bind [OF calls_last [OF timely_basic(1)] this stage_nonneg] show ?thesis
    using poll unfolding doInStageWait_def by simp
qed

lemma running_lasts:
  assumes env: "timely_game env pauses" and poll: "1 \<le> go_pollIntervalMillis opts" and fuel: "nat (go_gameRunningSeconds opts * 1000) < fuel"
  shows "lasts (game_clock env) (paused_time pauses) (stage_pauses (go_gameRunningSeconds opts * 1000) (max 0 (pass_millis opts))) False
    (doInStageRunning bad_tick fuel env opts)"
proof (cases "tick_ok opts")
  case True
  then have pass: "1 \<le> pass_millis opts" using poll by (auto simp: tick_ok_def pass_millis_def split: option.splits)
  obtain n where n: "fuel = Suc n" "go_gameRunningSeconds opts * 1000 \<le> int n" using more_fuel [OF fuel] by blast
  show ?thesis
    using stage_lasts [where loop = "\<lambda>start. running_loop (Suc n) env opts start
        \<lparr>ru_ageBefore = - 1, ru_lastDelta = start, ru_lastStep = start, ru_lastSnapshot = start, ru_owed = 0, ru_dropped = 0\<rparr>"
        and left = "go_gameRunningSeconds opts * 1000" and pass = "pass_millis opts" and env = env and pauses = pauses]
      running_loop_ends [OF env pass, of "game_clock env s" s n for s] True pass n
    unfolding doInStageRunning_def by simp
next
  case False
  have "lasts (game_clock env) (paused_time pauses) 0 False (throw_eff bad_tick)" by (simp add: lasts_def throw_eff_def)
  from lasts_more [OF this stage_nonneg [OF max.cobounded1]] show ?thesis using False by (simp add: doInStageRunning_def)
qed

lemma sleep_lasts:
  assumes "timely_game env pauses"
  shows "lasts (game_clock env) (paused_time pauses) (max 0 ms) clean (sleep_for env ms)"
proof -
  have "ge_now env w + max 0 ms \<le> ge_now env (ge_sleep env ms w)" "pauses (ge_sleep env ms w) = pauses w + max 0 ms" for w
    using assms unfolding timely_game_def by blast+
  then have "ge_now env w \<le> ge_now env (ge_sleep env ms w)" "pauses (ge_sleep env ms w) = pauses w + max 0 ms" for w
    by (meson add_increasing2 max.cobounded1 order_trans order_refl, simp)
  then show ?thesis by (simp add: lasts_def sleep_for_def modify_eff_def game_clock_def paused_time_def)
qed

lemma repeat_lasts:
  assumes "timely_game env pauses" "lasts (game_clock env) (paused_time pauses) 0 clean work"
  shows "lasts (game_clock env) (paused_time pauses) (int (n - 1) * max 0 i) clean (repeatWithInterval n env i work)"
proof (induction n)
  case (Suc n)
  show ?case
  proof (cases n)
    case 0
    then show ?thesis using lasts_then [OF assms(2) lasts_simple(1)] by simp
  next
    case (Suc k)
    have "lasts (game_clock env) (paused_time pauses) (0 + (max 0 i + int (n - 1) * max 0 i)) clean
        (then_eff work (then_eff (sleep_for env i) (repeatWithInterval n env i work)))"
      by (intro lasts_then assms(2) sleep_lasts [OF assms(1)] Suc.IH) simp_all
    then show ?thesis using Suc by (simp add: algebra_simps)
  qed
qed (simp add: lasts_simple)

definition end_pauses :: "game_options \<Rightarrow> int" where
  "end_pauses opts = 2 * ((max 1 (go_endRepeatCount opts) - 1) * max 0 (go_endRepeatIntervalMillis opts)) + max 0 (go_endDropDelayMillis opts)"

lemma end_lasts:
  assumes env: "timely_game env pauses"
  shows "lasts (game_clock env) (paused_time pauses) (end_pauses opts) True (end_game env opts reason)"
proof -
  note calls = game_parts(1) [OF env]
  let ?repeats = "nat (max 1 (go_endRepeatCount opts))" and ?i = "go_endRepeatIntervalMillis opts"
  let ?lasts = "lasts (game_clock env) (paused_time pauses)"
  have count: "int (?repeats - 1) = max 1 (go_endRepeatCount opts) - 1" by simp
  have told: "?lasts 0 True (case ge_onGameEnd env of None \<Rightarrow> return_eff () | Some hook \<Rightarrow> quietly (hook reason))"
    using timely_parts(8) [OF calls] by (auto intro!: lasts_simple quiet_lasts split: option.split)
  have dropped: "?lasts 0 True (for_each
      (\<lambda>connectionId. quietly (then_eff (in_world (dropConnection (ge_network env) connectionId)) (return_eff ()))) cs)" for cs
    by (intro lasts_each quiet_lasts timely_intro timely_lift timely_network(2) timely_parts(1) calls)
  have delay: "?lasts (max 0 (go_endDropDelayMillis opts)) True
      (when_eff (0 < go_endDropDelayMillis opts) (sleep_for env (go_endDropDelayMillis opts)))"
    using sleep_lasts [OF env, of "go_endDropDelayMillis opts" True] lasts_simple(1)
    by (cases "0 < go_endDropDelayMillis opts") (simp_all add: when_eff_def max_absorb1 max_absorb2)
  have "?lasts (0 + (int (?repeats - 1) * max 0 ?i + (max 0 (go_endDropDelayMillis opts) + (0 + int (?repeats - 1) * max 0 ?i)))) True
      (end_game env opts reason)"
    unfolding end_game_def Let_def get_context_def
    by (intro lasts_bind lasts_then told delay lasts_simple(2) repeat_lasts [OF env] quiet_lasts timely_announce [OF calls] dropped) simp_all
  then show ?thesis unfolding count by (simp add: end_pauses_def algebra_simps)
qed

text \<open>The time of a game without that of the calls of its surroundings.\<close>

definition game_pauses :: "game_options \<Rightarrow> int" where
  "game_pauses opts =
     stage_pauses (go_gameWaitingSeconds opts * 1000) (go_pollIntervalMillis opts) +
     stage_pauses (go_gameRunningSeconds opts * 1000) (max 0 (pass_millis opts)) + end_pauses opts"

definition busy_time :: "('e, 'w) game_env \<Rightarrow> ('w \<Rightarrow> int) \<Rightarrow> 'w game_state \<Rightarrow> int" where
  "busy_time env pauses s = game_clock env s - paused_time pauses s"

text \<open>
  C35: Every game ends in time and never rejects. When every call of its surroundings returns, a value or
  an error, and a pause takes its time, a game is over, with as many passes of a stage as it has
  milliseconds and one more: after at most its waiting and its running time, one pass of each stage longer,
  the pauses between its announcements and the delay before the connections are dropped, not counting the
  time the surroundings take for their calls.
\<close>
theorem every_game_ends:
  assumes "timely_game env pauses" "1 \<le> go_pollIntervalMillis opts"
    and "nat (go_gameWaitingSeconds opts * 1000) < fuel" "nat (go_gameRunningSeconds opts * 1000) < fuel"
  shows "\<exists>s'. runGameAllTogether bad_tick fuel env opts s = Some (Inr (), s') \<and> game_clock env s \<le> game_clock env s' \<and>
    game_clock env s' \<le> game_clock env s + game_pauses opts + (busy_time env pauses s' - busy_time env pauses s)"
proof -
  let ?lasts = "lasts (game_clock env) (paused_time pauses)"
  let ?wait = "stage_pauses (go_gameWaitingSeconds opts * 1000) (go_pollIntervalMillis opts)"
  let ?run = "stage_pauses (go_gameRunningSeconds opts * 1000) (max 0 (pass_millis opts))"
  have nonneg: "0 \<le> ?run" "0 \<le> end_pauses opts" by (simp_all add: stage_nonneg end_pauses_def)
  have verdict: "?lasts 0 False (bind_eff (ge_isGameOver env) (\<lambda>over. return_eff (if over then Cleared else Timeout)))"
    using lasts_bind [OF calls_last [OF timely_parts(3) [OF game_parts(1) [OF assms(1)]]] lasts_simple(1)] by simp
  have "?lasts (?wait + (?run + 0)) True (game_reason bad_tick fuel env opts)"
    unfolding game_reason_def
  proof (rule lasts_catch [OF lasts_bind [OF wait_lasts [OF assms(1-3)]] lasts_simple(1)])
    show "?lasts (?run + 0) False (if enough then then_eff (doInStageRunning bad_tick fuel env opts)
        (bind_eff (ge_isGameOver env) (\<lambda>over. return_eff (if over then Cleared else Timeout))) else return_eff NotEnoughPlayers)" for enough
      using lasts_then [OF running_lasts [OF assms(1,2,4)] verdict] lasts_more [OF lasts_simple(1) nonneg(1)] by (cases enough) simp_all
  qed (simp add: nonneg)
  from lasts_bind [OF this end_lasts [OF assms(1)] nonneg(2)]
  have "?lasts (game_pauses opts) True (runGameAllTogether bad_tick fuel env opts)"
    unfolding runGameAllTogether_def game_pauses_def by simp
  from lastsD [OF this, of s] obtain r s' where r: "runGameAllTogether bad_tick fuel env opts s = Some (r, s')"
      "game_clock env s \<le> game_clock env s'" "paused_time pauses s' \<le> paused_time pauses s + game_pauses opts" "\<not> isl r"
    by auto
  then show ?thesis by (cases r) (auto simp: busy_time_def)
qed

subsection \<open>A fixed tick follows the clock\<close>

text \<open>
  What the tally counts: the steps with the delta of the tick, and nothing else. Of a step with another
  delta nothing is known. The verdict of the controller is a function of the state.
\<close>

definition ticking :: "('e, 'w) game_env \<Rightarrow> ('w \<Rightarrow> int) \<Rightarrow> ('w game_state \<Rightarrow> bool) \<Rightarrow> int \<Rightarrow> bool" where
  "ticking env tally over interval \<longleftrightarrow>
     timely_calls env tally \<and> ge_isGameOver env = get_eff over \<and>
     (\<exists>f. ge_updateTimeDelta env = Some f \<and>
        (\<forall>s. \<exists>r s'. f interval s = Some (r, s') \<and> game_clock env s \<le> game_clock env s' \<and> tally (gs_world s') = tally (gs_world s) + 1)) \<and>
     (\<forall>ms w. ge_now env w \<le> ge_now env (ge_sleep env ms w) \<and> tally (ge_sleep env ms w) = tally w)"

lemma step_counts:
  assumes "ticking env tally over interval"
  shows "\<exists>s'. applyTimeDelta env interval s = Some (Inr (), s') \<and> game_clock env s \<le> game_clock env s' \<and>
    tally (gs_world s') = tally (gs_world s) + 1"
proof -
  obtain f where f: "ge_updateTimeDelta env = Some f"
      "\<And>s. \<exists>r s'. f interval s = Some (r, s') \<and> game_clock env s \<le> game_clock env s' \<and> tally (gs_world s') = tally (gs_world s) + 1"
    using assms unfolding ticking_def by blast
  obtain r s' where "f interval s = Some (r, s')" "game_clock env s \<le> game_clock env s'" "tally (gs_world s') = tally (gs_world s) + 1"
    using f(2) by blast
  then show ?thesis using f(1) by (cases r) (auto simp: applyTimeDelta_def quietly_def catch_eff_def return_eff_def)
qed

definition due_steps :: "nat \<Rightarrow> int \<Rightarrow> int \<Rightarrow> nat" where
  "due_steps most due interval = min most (nat (due div interval))"

lemma due_Suc:
  assumes "0 < interval" "interval \<le> due"
  shows "due_steps (Suc n) due interval = Suc (due_steps n (due - interval) interval)"
proof -
  have "due div interval = (due - interval) div interval + 1" using div_add_self2 [of interval "due - interval"] assms(1) by simp
  moreover have "0 \<le> (due - interval) div interval" using assms by (simp add: pos_imp_zdiv_nonneg_iff)
  ultimately show ?thesis by (simp add: due_steps_def nat_add_distrib)
qed

lemma due_none: "0 < interval \<Longrightarrow> due < interval \<Longrightarrow> due_steps n due interval = 0"
  by (cases "due < 0") (simp_all add: due_steps_def div_neg_pos_less0 less_imp_le div_pos_pos_trivial)

text \<open>What stays is less than an interval unless the steps were cut off.\<close>

lemma due_left:
  assumes "0 < interval" "interval \<le> due - int (due_steps most due interval) * interval"
  shows "due_steps most due interval = most"
proof (rule ccontr)
  assume "due_steps most due interval \<noteq> most"
  then have n: "due_steps most due interval = nat (due div interval)" by (auto simp: due_steps_def)
  have "(due div interval) * interval \<le> int (nat (due div interval)) * interval" using assms(1) by simp
  moreover have "due - (due div interval) * interval = due mod interval" by (simp add: minus_div_mult_eq_mod)
  ultimately show False using assms(2) pos_mod_bound [OF assms(1), of due] unfolding n by linarith
qed

lemma due_taken:
  assumes "0 < interval" "0 \<le> due"
  shows "int (due_steps most due interval) * interval \<le> due"
proof -
  have "0 \<le> due div interval" using assms by (simp add: pos_imp_zdiv_nonneg_iff)
  then have "int (due_steps most due interval) \<le> due div interval" unfolding due_steps_def by linarith
  then have "int (due_steps most due interval) * interval \<le> due div interval * interval" using assms(1) by simp
  also have "\<dots> \<le> due" using assms(1) by (simp add: div_mult_mod_eq minus_mod_eq_div_mult [symmetric])
  finally show ?thesis .
qed

lemma fixed_steps_count:
  assumes tick: "ticking env tally over interval" and "0 < interval"
  shows "\<exists>k stopped s'. fixed_steps n env interval owed s = Some (Inr (k, owed - int k * interval, stopped), s') \<and>
    game_clock env s \<le> game_clock env s' \<and> tally (gs_world s') = tally (gs_world s) + int k \<and>
    (if stopped then over s' else k = due_steps n owed interval)"
proof (induction n arbitrary: owed s)
  case 0
  show ?case
    by (intro exI [of _ 0] exI [of _ False] exI [of _ s]) (simp add: return_eff_def due_steps_def)
next
  case (Suc n)
  have over: "ge_isGameOver env = get_eff over" using tick unfolding ticking_def by blast
  show ?case
  proof (cases "owed < interval")
    case True
    then show ?thesis
      by (intro exI [of _ 0] exI [of _ False] exI [of _ s]) (simp add: return_eff_def due_none [OF assms(2)])
  next
    case False
    obtain s1 where s1: "applyTimeDelta env interval s = Some (Inr (), s1)" "game_clock env s \<le> game_clock env s1"
        "tally (gs_world s1) = tally (gs_world s) + 1"
      using step_counts [OF tick] by blast
    show ?thesis
    proof (cases "over s1")
      case True
      then show ?thesis
        using s1 False over
        by (intro exI [of _ 1] exI [of _ True] exI [of _ s1]) (simp add: then_eff_def bind_eff_def get_eff_def return_eff_def)
    next
      case no: False
      obtain k stopped s' where k: "fixed_steps n env interval (owed - interval) s1 =
            Some (Inr (k, (owed - interval) - int k * interval, stopped), s')"
          "game_clock env s1 \<le> game_clock env s'" "tally (gs_world s') = tally (gs_world s1) + int k"
          "if stopped then over s' else k = due_steps n (owed - interval) interval"
        using Suc.IH by blast
      show ?thesis
        using s1 k no False over due_Suc [OF assms(2), of owed n]
        by (intro exI [of _ "Suc k"] exI [of _ stopped] exI [of _ s'])
          (auto simp: then_eff_def bind_eff_def get_eff_def return_eff_def algebra_simps)
    qed
  qed
qed

text \<open>The account of a pass whose steps come at \<open>now\<close>.\<close>

definition account :: "('w \<Rightarrow> int) \<Rightarrow> int \<Rightarrow> nat \<Rightarrow> int \<Rightarrow> run_locals \<Rightarrow> 'w \<Rightarrow> run_locals \<Rightarrow> 'w \<Rightarrow> bool" where
  "account tally interval most now l w l' w' \<longleftrightarrow>
     (let due = ru_owed l + (now - ru_lastStep l); n = due_steps most due interval; rest = due - int n * interval in
      tally w' = tally w + int n \<and> ru_lastStep l' = now \<and>
      ru_owed l' = (if interval \<le> rest then 0 else rest) \<and>
      ru_dropped l' = ru_dropped l + (if interval \<le> rest then rest else 0))"

lemma fixed_account:
  assumes tick: "ticking env tally over interval" and opts: "go_tick opts = Some (interval, maxSteps)" "tick_ok opts"
  shows "\<exists>k l' s'. runFixedSteps env opts l s = Some (Inr (k, l'), s') \<and> game_clock env s \<le> game_clock env s' \<and>
    (over s' \<or> account tally interval (maxCatchUpSteps maxSteps) (game_clock env s) l (gs_world s) l' (gs_world s'))"
proof -
  have interval: "0 < interval" using opts by (simp add: tick_ok_def)
  obtain f where f: "ge_updateTimeDelta env = Some f" using tick unfolding ticking_def by blast
  let ?due = "ru_owed l + (game_clock env s - ru_lastStep l)"
  obtain k stopped s' where k: "fixed_steps (maxCatchUpSteps maxSteps) env interval ?due s =
        Some (Inr (k, ?due - int k * interval, stopped), s')"
      "game_clock env s \<le> game_clock env s'" "tally (gs_world s') = tally (gs_world s) + int k"
      "if stopped then over s' else k = due_steps (maxCatchUpSteps maxSteps) ?due interval"
    using fixed_steps_count [OF tick interval] by blast
  then show ?thesis
    using f opts by (cases stopped)
      (auto simp: runFixedSteps_def bind_eff_def get_now_def get_eff_def game_clock_def return_eff_def account_def Let_def)
qed

lemma process_all_fixed:
  "go_tick opts \<noteq> None \<Longrightarrow> process_all env opts ms l s = Some (Inr l1, s1) \<Longrightarrow> l1 = l"
proof (induction ms arbitrary: s)
  case (Cons m ms)
  then show ?case by (auto simp: then_eff_def bind_eff_def return_eff_def split: option.splits sum.splits)
qed (simp add: return_eff_def)

lemma snapshot_account:
  "sendSnapshotIfDue env opts start l s = Some (Inr l1, s1) \<Longrightarrow>
     ru_owed l1 = ru_owed l \<and> ru_lastStep l1 = ru_lastStep l \<and> ru_dropped l1 = ru_dropped l"
  by (auto simp: sendSnapshotIfDue_def then_eff_def bind_eff_def return_eff_def quietly_def catch_eff_def
      split: option.splits sum.splits if_splits)

text \<open>As \<open>timely_ends_bind\<close>, with the result of the first part.\<close>

lemma timely_result_bind:
  assumes "timely clk m" "\<And>a s1. m s = Some (Inr a, s1) \<Longrightarrow> clk s \<le> clk s1 \<Longrightarrow> ends (k a) s1 P" "\<And>e s1. P (Inl e) s1"
  shows "ends (bind_eff m k) s P"
proof -
  obtain r s1 where m: "m s = Some (r, s1)" "clk s \<le> clk s1" using timelyD [OF assms(1)] by blast
  then show ?thesis using assms(2) [of _ s1] assms(3) by (cases r) (auto simp: ends_def bind_eff_def)
qed

lemma moment_leD:
  "game_moment env tally s \<le> game_moment env tally s' \<Longrightarrow> game_clock env s \<le> game_clock env s'"
  "game_moment env tally s \<le> game_moment env tally s' \<Longrightarrow> tally (gs_world s') = tally (gs_world s)"
  by (simp_all add: moment_le)

definition accounted ::
  "('e, 'w) game_env \<Rightarrow> ('w \<Rightarrow> int) \<Rightarrow> int \<Rightarrow> nat \<Rightarrow> run_locals \<Rightarrow> 'w game_state \<Rightarrow> run_locals \<Rightarrow> 'w game_state \<Rightarrow> bool" where
  "accounted env tally interval most l s l' s' \<longleftrightarrow>
     (\<exists>now. game_clock env s \<le> now \<and> now \<le> game_clock env s' \<and> account tally interval most now l (gs_world s) l' (gs_world s'))"

lemma account_cong:
  "\<lbrakk>account tally interval most now l w l1 w1; tally w0 = tally w; tally w2 = tally w1; ru_owed l2 = ru_owed l1;
    ru_lastStep l2 = ru_lastStep l1; ru_dropped l2 = ru_dropped l1\<rbrakk> \<Longrightarrow> account tally interval most now l w0 l2 w2"
  by (simp add: account_def)

lemma pass_account:
  fixes env :: "('e, 'w) game_env"
  assumes tick: "ticking env tally over interval" and opts: "go_tick opts = Some (interval, maxSteps)" "tick_ok opts"
    and run: "run_pass env opts start l s = Some (Inr (Some l'), s')"
  shows "accounted env tally interval (maxCatchUpSteps maxSteps) l s l' s'"
proof -
  let ?P = "\<lambda>r s'. \<forall>l'. r = Inr (Some l') \<longrightarrow> accounted env tally interval (maxCatchUpSteps maxSteps) l s l' s'"
  have calls: "timely_calls env tally" using tick unfolding ticking_def by blast
  have over: "ge_isGameOver env = get_eff over" using tick unfolding ticking_def by blast
  have rest: "ends (bind_eff (sendSnapshotIfDue env opts start l2) (\<lambda>l3.
       bind_eff (checkAgeChanged env (go_dropUndelivered opts) StageRunning start (ru_ageBefore l3)) (\<lambda>age.
         bind_eff (get_now env) (\<lambda>now.
           then_eff (sleep_for env (pass_sleep opts began now)) (return_eff (Some (l3\<lparr>ru_ageBefore := age\<rparr>))))))) s3 ?P"
    if acc: "accounted env tally interval (maxCatchUpSteps maxSteps) l s l2 s3" for l2 s3 began
  proof (intro timely_result_bind [OF timely_snapshot [OF calls]] timely_result_bind [OF timely_check_age [OF calls]] ends_now)
    fix l3 age and s4 s5 :: "'w game_state"
    assume l3: "sendSnapshotIfDue env opts start l2 s3 = Some (Inr l3, s4)"
      and s4: "game_moment env tally s3 \<le> game_moment env tally s4" "game_moment env tally s4 \<le> game_moment env tally s5"
    let ?s6 = "s5\<lparr>gs_world := ge_sleep env (pass_sleep opts began (game_clock env s5)) (gs_world s5)\<rparr>"
    have slept: "game_clock env s5 \<le> game_clock env ?s6" "tally (gs_world ?s6) = tally (gs_world s5)"
      using tick by (simp_all add: ticking_def game_clock_def)
    obtain now where now: "game_clock env s \<le> now" "now \<le> game_clock env s3"
        "account tally interval (maxCatchUpSteps maxSteps) now l (gs_world s) l2 (gs_world s3)"
      using acc unfolding accounted_def by blast
    have "accounted env tally interval (maxCatchUpSteps maxSteps) l s (l3\<lparr>ru_ageBefore := age\<rparr>) ?s6"
      unfolding accounted_def
    proof (intro exI [of _ now] conjI now(1))
      show "now \<le> game_clock env ?s6" using now(2) moment_leD(1) [OF s4(1)] moment_leD(1) [OF s4(2)] slept(1) by linarith
      show "account tally interval (maxCatchUpSteps maxSteps) now l (gs_world s) (l3\<lparr>ru_ageBefore := age\<rparr>) (gs_world ?s6)"
        by (rule account_cong [OF now(3)])
          (use snapshot_account [OF l3] moment_leD(2) [OF s4(1)] moment_leD(2) [OF s4(2)] slept(2) in simp_all)
    qed
    then show "ends (then_eff (sleep_for env (pass_sleep opts began (game_clock env s5))) (return_eff (Some (l3\<lparr>ru_ageBefore := age\<rparr>)))) s5 ?P"
      by (simp add: ends_def then_eff_def bind_eff_def sleep_for_def modify_eff_def return_eff_def)
  qed simp_all
  have "ends (run_pass env opts start l) s ?P"
    unfolding run_pass_def
  proof (intro ends_now timely_result_bind [OF timely_lift [OF timely_parts(2) [OF calls]]]
      timely_result_bind [OF timely_messages [OF calls]])
    fix ms l1 and s1 s2 :: "'w game_state"
    assume s1: "game_moment env tally s \<le> game_moment env tally s1" "game_moment env tally s1 \<le> game_moment env tally s2"
      and l1: "process_all env opts ms l s1 = Some (Inr l1, s2)"
    have l: "l1 = l" using process_all_fixed [OF _ l1] opts(1) by simp
    obtain k l2 s3 where k: "runFixedSteps env opts l s2 = Some (Inr (k, l2), s3)" "game_clock env s2 \<le> game_clock env s3"
        "over s3 \<or> account tally interval (maxCatchUpSteps maxSteps) (game_clock env s2) l (gs_world s2) l2 (gs_world s3)"
      using fixed_account [OF tick opts] by blast
    have acc: "accounted env tally interval (maxCatchUpSteps maxSteps) l s l2 s3" if "\<not> over s3"
      unfolding accounted_def
    proof (intro exI [of _ "game_clock env s2"] conjI k(2))
      show "game_clock env s \<le> game_clock env s2" using moment_leD(1) [OF s1(1)] moment_leD(1) [OF s1(2)] by linarith
      show "account tally interval (maxCatchUpSteps maxSteps) (game_clock env s2) l (gs_world s) l2 (gs_world s3)"
        using k(3) that moment_leD(2) [OF s1(1)] moment_leD(2) [OF s1(2)] by (auto intro: account_cong)
    qed
    show "ends (bind_eff (runFixedSteps env opts l1) (\<lambda>(steps, l2).
      bind_eff (ge_isGameOver env) (\<lambda>over. if over then return_eff None
        else bind_eff (sendSnapshotIfDue env opts start l2) (\<lambda>l3.
          bind_eff (checkAgeChanged env (go_dropUndelivered opts) StageRunning start (ru_ageBefore l3)) (\<lambda>age.
            bind_eff (get_now env) (\<lambda>now.
              then_eff (sleep_for env (pass_sleep opts (game_clock env s) now)) (return_eff (Some (l3\<lparr>ru_ageBefore := age\<rparr>))))))))) s2 ?P"
      using rest [OF acc] k(1) unfolding l over
      by (cases "over s3") (auto simp: ends_def bind_eff_def [of "runFixedSteps env opts l"] bind_eff_def [of "get_eff over"] get_eff_def return_eff_def)
  qed (simp_all add: opts(1))
  then show ?thesis using run by (simp add: ends_def)
qed

text \<open>A pass of the running stage after which it goes on, and where the passes can lead.\<close>

definition game_pass ::
  "('e, 'w) game_env \<Rightarrow> game_options \<Rightarrow> int \<Rightarrow> run_locals \<Rightarrow> 'w game_state \<Rightarrow> run_locals \<Rightarrow> 'w game_state \<Rightarrow> bool" where
  "game_pass env opts start l s l' s' \<longleftrightarrow>
     ticker_alive start (go_gameRunningSeconds opts * 1000) (game_clock env s) \<and>
     ge_isGameOver env s = Some (Inr False, s) \<and> run_pass env opts start l s = Some (Inr (Some l'), s')"

definition first_locals :: "int \<Rightarrow> run_locals" where
  "first_locals start =
     \<lparr>ru_ageBefore = - 1, ru_lastDelta = start, ru_lastStep = start, ru_lastSnapshot = start, ru_owed = 0, ru_dropped = 0\<rparr>"

inductive passes ::
  "('e, 'w) game_env \<Rightarrow> game_options \<Rightarrow> 'w game_state \<Rightarrow> run_locals \<Rightarrow> 'w game_state \<Rightarrow> bool" for env opts s0 where
  first: "passes env opts s0 (first_locals (game_clock env s0)) s0"
| again: "passes env opts s0 l s \<Longrightarrow> game_pass env opts (game_clock env s0) l s l' s' \<Longrightarrow> passes env opts s0 l' s'"

lemma running_stage_passes:
  "tick_ok opts \<Longrightarrow> doInStageRunning bad_tick fuel env opts s0 = running_loop fuel env opts (game_clock env s0) (first_locals (game_clock env s0)) s0"
  "game_pass env opts start l s l' s' \<Longrightarrow> running_loop (Suc fuel) env opts start l s = running_loop fuel env opts start l' s'"
  by (simp_all add: doInStageRunning_def bind_eff_def get_now_def get_eff_def first_locals_def game_clock_def game_pass_def)

definition ledger :: "('e, 'w) game_env \<Rightarrow> ('w \<Rightarrow> int) \<Rightarrow> int \<Rightarrow> 'w game_state \<Rightarrow> run_locals \<Rightarrow> 'w game_state \<Rightarrow> bool" where
  "ledger env tally interval s0 l s \<longleftrightarrow>
     0 \<le> ru_owed l \<and> ru_owed l < interval \<and> ru_lastStep l \<le> game_clock env s \<and>
     (tally (gs_world s) - tally (gs_world s0)) * interval + ru_owed l + ru_dropped l = ru_lastStep l - game_clock env s0"

lemma ledger_pass:
  assumes "0 < interval" "ledger env tally interval s0 l s" "accounted env tally interval most l s l' s'"
  shows "ledger env tally interval s0 l' s'"
proof -
  obtain now where now: "game_clock env s \<le> now" "now \<le> game_clock env s'" "account tally interval most now l (gs_world s) l' (gs_world s')"
    using assms(3) unfolding accounted_def by blast
  let ?due = "ru_owed l + (now - ru_lastStep l)"
  have "0 \<le> ?due" using assms(2) now(1) by (simp add: ledger_def)
  from due_taken [OF assms(1) this, of most] show ?thesis
    using assms now(2,3) by (auto simp: ledger_def account_def Let_def algebra_simps)
qed

lemma passes_ledger:
  assumes "passes env opts s0 l s" "ticking env tally over interval" "go_tick opts = Some (interval, maxSteps)" "tick_ok opts"
  shows "ledger env tally interval s0 l s"
  using assms(1)
proof (induction rule: passes.induct)
  case first
  then show ?case using assms(3,4) by (simp add: ledger_def first_locals_def tick_ok_def)
next
  case (again l s l' s')
  have "0 < interval" using assms(3,4) by (simp add: tick_ok_def)
  moreover have "accounted env tally interval (maxCatchUpSteps maxSteps) l s l' s'"
    using again.hyps(2) pass_account [OF assms(2-4)] unfolding game_pass_def by blast
  ultimately show ?case by (rule ledger_pass [OF _ again.IH])
qed

text \<open>
  C36: With a fixed tick the simulation follows the clock. In every pass of the running stage after which it
  goes on, at a time within the pass, the step with the constant delta has run as often as the time owed
  and elapsed since the steps of the pass before holds the interval, but at most \<open>maxCatchUpSteps\<close> times;
  less than an interval stays owed, and time is dropped only when the bound was reached. Over all passes the
  steps, what is owed and what was dropped add up exactly to the time from the start of the stage to the
  last steps.
\<close>
theorem simulation_follows_the_clock:
  assumes "go_tick opts = Some (interval, maxSteps)" "tick_ok opts" "ticking env tally over interval"
    and "passes env opts s0 l s" "game_pass env opts (game_clock env s0) l s l' s'"
    and "due = ru_owed l + (ru_lastStep l' - ru_lastStep l)" "n = min (maxCatchUpSteps maxSteps) (nat (due div interval))"
  shows "game_clock env s \<le> ru_lastStep l' \<and> ru_lastStep l' \<le> game_clock env s' \<and>
    tally (gs_world s') = tally (gs_world s) + int n \<and>
    int n * interval + ru_owed l' + (ru_dropped l' - ru_dropped l) = due \<and> 0 \<le> ru_owed l' \<and> ru_owed l' < interval \<and>
    (ru_dropped l' \<noteq> ru_dropped l \<longrightarrow> n = maxCatchUpSteps maxSteps) \<and>
    (tally (gs_world s') - tally (gs_world s0)) * interval + ru_owed l' + ru_dropped l' = ru_lastStep l' - game_clock env s0"
proof -
  have interval: "0 < interval" using assms(1,2) by (simp add: tick_ok_def)
  have run: "run_pass env opts (game_clock env s0) l s = Some (Inr (Some l'), s')" using assms(5) by (simp add: game_pass_def)
  have ledger: "ledger env tally interval s0 l' s'"
    by (rule passes_ledger [OF passes.again [OF assms(4,5)] assms(3,1,2)])
  from pass_account [OF assms(3,1,2) run] obtain now where now: "game_clock env s \<le> now" "now \<le> game_clock env s'"
      "account tally interval (maxCatchUpSteps maxSteps) now l (gs_world s) l' (gs_world s')"
    unfolding accounted_def by blast
  have n: "n = due_steps (maxCatchUpSteps maxSteps) due interval" using assms(7) by (simp add: due_steps_def)
  have "ru_lastStep l' = now" using now(3) by (simp add: account_def Let_def)
  then show ?thesis
    using now ledger due_left [OF interval, of due "maxCatchUpSteps maxSteps"] assms(6)
    unfolding n by (auto simp: account_def Let_def ledger_def)
qed

subsection \<open>A game of two\<close>

text \<open>Two players and the queue of their game: batches of messages by the number of polls.\<close>

record party_world =
  pw_clock :: int
  pw_polls :: nat
  pw_sent :: "(ustring \<times> json) list"
  pw_dropped :: "ustring list"
  pw_steps :: nat

definition party_batch :: "nat \<Rightarrow> json list" where
  "party_batch n =
     (if n = 0 then [enter_item [120] [97]]
      else if n = 1 then [enter_item [121] [98], enter_item [122] [97]]
      else [])"

definition party_env :: "(unit, party_world) game_env" where
  "party_env =
     \<lparr>ge_network = Inr \<lparr>tr_send = (\<lambda>c m w. Some (Inr True, w\<lparr>pw_sent := pw_sent w @ [(c, m)]\<rparr>)), tr_sendMany = None,
        tr_drop = (\<lambda>c w. Some (Inr True, w\<lparr>pw_dropped := pw_dropped w @ [c]\<rparr>))\<rparr>,
      ge_now = pw_clock, ge_sleep = (\<lambda>ms w. w\<lparr>pw_clock := pw_clock w + max 0 ms\<rparr>),
      ge_poll = (\<lambda>w. Some (Inr (party_batch (pw_polls w)), w\<lparr>pw_polls := Suc (pw_polls w)\<rparr>)),
      ge_isGameOver = return_eff False,
      ge_processMessage = (\<lambda>m. throw_eff ()),
      ge_updateTimeDelta = Some (\<lambda>d. modify_eff (\<lambda>s. s\<lparr>gs_world := (gs_world s)\<lparr>pw_steps := Suc (pw_steps (gs_world s))\<rparr>\<rparr>)),
      ge_onStageChanged = None, ge_onMemberEntered = None, ge_onSnapshot = Some (\<lambda>t. throw_eff ()),
      ge_onGameEnd = Some (\<lambda>reason. throw_eff ())\<rparr>"

definition party_options :: game_options where
  "party_options =
     \<lparr>go_gameWaitingSeconds = 2, go_gameRunningSeconds = 1, go_pollIntervalMillis = 500, go_tick = Some (400, Some 2),
      go_snapshotIntervalMillis = Some 100, go_minPlayers = None, go_dropUndelivered = False, go_endDropDelayMillis = 1000,
      go_endRepeatCount = 2, go_endRepeatIntervalMillis = 200\<rparr>"

definition party_start :: "party_world game_state" where
  "party_start =
     \<lparr>gs_context = setupBaseGameContext [\<lparr>gm_memberId = [97], gm_observer = False\<rparr>, \<lparr>gm_memberId = [98], gm_observer = False\<rparr>],
      gs_world = \<lparr>pw_clock = 0, pw_polls = 0, pw_sent = [], pw_dropped = [], pw_steps = 0\<rparr>\<rparr>"

definition party_pauses :: "party_world \<Rightarrow> int" where
  "party_pauses w = pw_clock w"

lemma party_timely: "timely_game party_env party_pauses"
  by (simp add: timely_game_def timely_calls_def timely_deltas_def timely_transport_def party_env_def timely_def game_clock_def
      game_moment_def world_moment_def less_eq_moment_def party_pauses_def eff_defs)

theorem every_game_ends_witness:
  "\<exists>s'. runGameAllTogether () 2001 party_env party_options party_start = Some (Inr (), s') \<and> game_clock party_env s' \<le> 5300"
proof -
  have now: "game_clock party_env party_start = 0" by (simp add: game_clock_def party_env_def party_start_def)
  have bound: "game_pauses party_options = 5300"
    by (simp add: game_pauses_def stage_pauses_def pass_millis_def end_pauses_def party_options_def)
  have idle: "busy_time party_env party_pauses s = 0" for s
    by (simp add: busy_time_def game_clock_def paused_time_def party_pauses_def party_env_def)
  show ?thesis
    using every_game_ends [OF party_timely, of party_options 2001 "()" party_start] unfolding now bound idle
    by (auto simp: party_options_def)
qed

text \<open>Two passes of the running stage: after the first one 400 milliseconds have gone by, and a step is due.\<close>

definition party_at :: "int \<Rightarrow> nat \<Rightarrow> nat \<Rightarrow> party_world game_state" where
  "party_at now asked taken =
     party_start\<lparr>gs_world := \<lparr>pw_clock = now, pw_polls = asked, pw_sent = [], pw_dropped = [], pw_steps = taken\<rparr>\<rparr>"

lemma party_ticking: "ticking party_env (\<lambda>w. int (pw_steps w)) (\<lambda>s. False) 400"
proof -
  have "ge_isGameOver party_env = get_eff (\<lambda>s. False)" by (rule ext) (simp add: party_env_def eff_defs)
  then show ?thesis
    by (simp add: ticking_def timely_calls_def timely_transport_def party_env_def timely_def game_clock_def game_moment_def
      world_moment_def less_eq_moment_def modify_eff_def get_eff_def throw_eff_def)
qed

lemma party_first_pass:
  "game_pass party_env party_options 0 (first_locals 0) (party_at 0 2 0) ((first_locals 0)\<lparr>ru_ageBefore := 0\<rparr>) (party_at 400 3 0)"
  unfolding game_pass_def party_at_def by code_simp

lemma party_second_pass:
  "game_pass party_env party_options 0 ((first_locals 0)\<lparr>ru_ageBefore := 0\<rparr>) (party_at 400 3 0)
     ((first_locals 0)\<lparr>ru_ageBefore := 0, ru_lastStep := 400, ru_lastSnapshot := 400\<rparr>) (party_at 800 4 1)"
  unfolding game_pass_def party_at_def by code_simp

theorem simulation_follows_the_clock_witness:
  "int (pw_steps (gs_world (party_at 800 4 1))) = int (pw_steps (gs_world (party_at 400 3 0))) + 1"
proof -
  have start: "game_clock party_env (party_at 0 2 0) = 0" by (simp add: game_clock_def party_env_def party_at_def)
  have opts: "go_tick party_options = Some (400, Some 2)" "tick_ok party_options" by (simp_all add: party_options_def tick_ok_def)
  have reach: "passes party_env party_options (party_at 0 2 0) ((first_locals 0)\<lparr>ru_ageBefore := 0\<rparr>) (party_at 400 3 0)"
    using passes.again [OF passes.first, of party_env party_options "party_at 0 2 0"] party_first_pass unfolding start by blast
  show ?thesis
    using simulation_follows_the_clock [OF opts party_ticking reach, unfolded start, OF party_second_pass refl refl]
    by (simp add: first_locals_def maxCatchUpSteps_def)
qed

end
