(* ===== verification/Gamebase_Guard.thy ===== *)
theory Gamebase_Guard
  imports Gamebase_Loop
begin

section \<open>Invariants of the context of a game (gamebase-all-together)\<close>

text \<open>
  What the operations do to the entries of a context, and the contract \<open>context_guard\<close>: an invariant that
  entering, leaving and pruning keep is kept by every stage of a game.
\<close>

subsection \<open>Entries\<close>

lemma find_index_Some: "find_index p xs = Some i \<Longrightarrow> i < length xs \<and> p (xs ! i)"
  by (induction xs arbitrary: i) (auto split: if_splits)

lemma set_user_names [simp]:
  "map bu_memberId (gc_users (set_user i k c)) = map bu_memberId (gc_users c)"
  "gc_observers (set_user i k c) = gc_observers c" "gc_connected (set_user i k c) = gc_connected c"
  "length (gc_users (set_user i k c)) = length (gc_users c)"
proof -
  show "map bu_memberId (gc_users (set_user i k c)) = map bu_memberId (gc_users c)"
    by (cases "i < length (gc_users c)") (auto intro!: nth_equalityI simp: set_user_def nth_list_update)
qed (simp_all add: set_user_def)

lemma set_observer_names [simp]:
  "map bo_memberId (gc_observers (set_observer i k c)) = map bo_memberId (gc_observers c)"
  "gc_users (set_observer i k c) = gc_users c" "gc_connected (set_observer i k c) = gc_connected c"
proof -
  show "map bo_memberId (gc_observers (set_observer i k c)) = map bo_memberId (gc_observers c)"
    by (cases "i < length (gc_observers c)") (auto intro!: nth_equalityI simp: set_observer_def nth_list_update)
qed (simp_all add: set_observer_def)

lemma unbind_names [simp]:
  "gc_users (unbind k c) = gc_users c" "gc_observers (unbind k c) = gc_observers c"
  by (simp_all add: unbind_def)

lemma bind_names [simp]:
  "gc_users (bind_user k i c) = gc_users c" "gc_observers (bind_user k i c) = gc_observers c"
  by (simp_all add: bind_user_def)

lemma unbind_entries: "(k, i) \<in> set (gc_connected (unbind k' c)) \<longleftrightarrow> (k, i) \<in> set (gc_connected c) \<and> k \<noteq> k'"
  by (auto simp: unbind_def)

lemma bind_entries:
  assumes "(k, j) \<in> set (gc_connected (bind_user k' i c))"
  shows "k = k' \<and> j = i \<or> k \<noteq> k' \<and> (k, j) \<in> set (gc_connected c)"
proof (cases "k' \<in> set (connection_keys c)")
  case True
  then have "(k, j) \<in> (\<lambda>(k, j). (k, if k = k' then i else j)) ` set (gc_connected c)" using assms by (simp add: bind_user_def)
  then show ?thesis by (auto split: if_splits)
next
  case False
  then have "(k, j) \<in> set (gc_connected c) \<or> (k, j) = (k', i)" using assms by (auto simp: bind_user_def)
  then show ?thesis using False by (force simp: connection_keys_def)
qed

definition give_up :: "nat \<Rightarrow> ustring \<Rightarrow> BaseGameContext \<Rightarrow> BaseGameContext" where
  "give_up i k c = (case superseded i k c of None \<Rightarrow> c | Some previous \<Rightarrow> unbind previous c)"

subsection \<open>A game keeps an invariant\<close>

text \<open>
  The contract between the loop and an invariant of its context: what entering, leaving and pruning do to
  it, for messages that are \<open>good\<close>. Under it every stage keeps the invariant.
\<close>

abbreviation keeps :: "(BaseGameContext \<Rightarrow> bool) \<Rightarrow> ('e, 'a, 'w game_state) eff \<Rightarrow> bool" where
  "keeps safe m \<equiv> keeps_inv (\<lambda>s. safe (gs_context s)) m"

lemma keeps_in_world [triple_intro]: "keeps safe (in_world m)"
  by (auto simp: triple_def in_world_def split: sum.split)

lemma keeps_clock [triple_intro]: "keeps safe (get_now env)" "keeps safe (sleep_for env ms)"
  by (simp_all add: triple_def get_now_def sleep_for_def eff_defs)

lemma keeps_change: "(\<And>c. safe c \<Longrightarrow> safe (f c)) \<Longrightarrow> keeps safe (change_context f)"
  by (simp add: triple_def change_context_def modify_eff_def)

lemma keeps_get: "keeps safe get_context"
  unfolding get_context_def by (rule keeps_inv_get)

lemmas keeps_intro =
  keeps_in_world keeps_clock keeps_get keeps_inv_bind keeps_inv_then keeps_inv_catch keeps_inv_return keeps_inv_get keeps_inv_when keeps_inv_throw

lemma keeps_quietly: "keeps safe m \<Longrightarrow> keeps safe (quietly m)"
  unfolding quietly_def by (intro keeps_intro)

text \<open>What the game may do with the context: its hooks and its controller keep the invariant.\<close>

definition careful :: "(BaseGameContext \<Rightarrow> bool) \<Rightarrow> (json \<Rightarrow> bool) \<Rightarrow> ('e, 'w) game_env \<Rightarrow> bool" where
  "careful safe good env \<longleftrightarrow>
     (\<forall>w ms w'. ge_poll env w = Some (Inr ms, w') \<longrightarrow> (\<forall>m \<in> set ms. good m)) \<and>
     keeps safe (ge_isGameOver env) \<and> (\<forall>m. keeps safe (ge_processMessage env m)) \<and>
     (\<forall>f d. ge_updateTimeDelta env = Some f \<longrightarrow> keeps safe (f d)) \<and>
     (\<forall>f st a. ge_onStageChanged env = Some f \<longrightarrow> keeps safe (f st a)) \<and>
     (\<forall>f c m. ge_onMemberEntered env = Some f \<longrightarrow> keeps safe (f c m)) \<and>
     (\<forall>f t. ge_onSnapshot env = Some f \<longrightarrow> keeps safe (f t)) \<and>
     (\<forall>f q. ge_onGameEnd env = Some f \<longrightarrow> keeps safe (f q))"

lemma careful_parts:
  assumes "careful safe good env"
  shows "ge_poll env w = Some (Inr ms, w') \<Longrightarrow> m \<in> set ms \<Longrightarrow> good m"
    "keeps safe (ge_isGameOver env)" "keeps safe (ge_processMessage env m)"
    "ge_updateTimeDelta env = Some f1 \<Longrightarrow> keeps safe (f1 d)"
    "ge_onStageChanged env = Some f2 \<Longrightarrow> keeps safe (f2 st a)"
    "ge_onMemberEntered env = Some f3 \<Longrightarrow> keeps safe (f3 c c')"
    "ge_onSnapshot env = Some f4 \<Longrightarrow> keeps safe (f4 t)"
    "ge_onGameEnd env = Some f5 \<Longrightarrow> keeps safe (f5 q)"
  using assms unfolding careful_def by blast+

lemma keeps_delta: "careful safe good env \<Longrightarrow> keeps safe (applyTimeDelta env d)"
  using careful_parts(4) [of safe good env] by (auto simp: applyTimeDelta_def intro!: keeps_intro keeps_quietly split: option.split)

lemma keeps_fixed: "careful safe good env \<Longrightarrow> keeps safe (fixed_steps n env interval owed)"
proof (induction n arbitrary: owed)
  case (Suc n)
  then show ?case by (auto intro!: keeps_intro keeps_delta careful_parts(2) split: prod.split)
qed (simp add: keeps_inv_return)

locale context_guard =
  fixes safe :: "BaseGameContext \<Rightarrow> bool" and good :: "json \<Rightarrow> bool"
  assumes leaves: "safe c \<Longrightarrow> safe (processLeave k c)"
    and prunes: "safe c \<Longrightarrow> safe (prune_user k c)"
    and observes: "safe c \<Longrightarrow> safe (set_observer i k c)"
    and gives_up: "safe c \<Longrightarrow> safe (give_up i k c)"
    and enters: "\<lbrakk>safe c; good m; message_text m ''type'' = ascii ''enter''; i < length (gc_users c);
      bu_memberId (gc_users c ! i) = message_text m ''memberId''; k = message_text m ''connectionId''\<rbrakk> \<Longrightarrow>
      safe (bind_user k i (set_user i k (give_up i k c)))"
begin

lemma pruned: "safe c \<Longrightarrow> safe (pruneUndeliveredUsers delivered c)"
proof -
  have "safe c \<Longrightarrow> safe (fold prune_user ks c)" for ks c
    by (induction ks arbitrary: c) (simp_all add: prunes)
  then show "safe c \<Longrightarrow> safe (pruneUndeliveredUsers delivered c)" by (simp add: pruneUndeliveredUsers_def)
qed

lemma keeps_announce: "careful safe good env \<Longrightarrow> keeps safe (announce env b st a)"
  using careful_parts(5) [of safe good env]
  by (cases "ge_onStageChanged env")
    (auto simp: announce_def broadcastStage_def intro!: keeps_intro keeps_change pruned)

lemma keeps_check_age: "careful safe good env \<Longrightarrow> keeps safe (checkAgeChanged env b st start a)"
  unfolding checkAgeChanged_def Let_def by (auto intro!: keeps_intro keeps_announce)

lemma keeps_enter:
  assumes "careful safe good env" "good m" "message_text m ''type'' = ascii ''enter''"
    and "k = message_text m ''connectionId''" "n = message_text m ''memberId''"
  shows "keeps safe (processEnter env k n)"
proof (rule tripleI)
  have entered: "keeps safe (member_entered env k n)"
    using careful_parts(6) [OF assms(1)]
    by (cases "ge_onMemberEntered env") (auto simp: member_entered_def broadcastMemberEntered_def intro!: keeps_intro)
  have "safe (gs_context s')" if ok: "safe (gs_context s)" and run: "processEnter env k n s = Some (r, s')" for s r s'
  proof (cases "find_index (\<lambda>u. bo_memberId u = n) (gc_observers (gs_context s))")
    case (Some i)
    then show ?thesis
      using run ok by (auto simp: processEnter_def get_context_def change_context_def eff_defs observes)
  next
    case None
    note no_observer = None
    show ?thesis
    proof (cases "find_index (\<lambda>u. bu_memberId u = n) (gc_users (gs_context s))")
      case None
      then show ?thesis using run ok no_observer by (auto simp: processEnter_def get_context_def eff_defs)
    next
      case (Some i)
      let ?c = "gs_context s"
      have i: "i < length (gc_users ?c)" "bu_memberId (gc_users ?c ! i) = n" using find_index_Some [OF Some] by simp_all
      have entered_ok: "safe (bind_user k i (set_user i k (give_up i k ?c)))"
        by (rule enters [OF ok assms(2,3) i(1)]) (simp_all add: i(2) assms(4,5))
      let ?drop = "case superseded i k ?c of None \<Rightarrow> return_eff ()
        | Some previous \<Rightarrow> then_eff (change_context (unbind previous)) (then_eff (in_world (dropConnection (ge_network env) previous)) (return_eff ()))"
      have dropped: "gs_context s1 = give_up i k ?c \<or> (\<exists>e. q = Inl e) \<and> gs_context s1 = give_up i k ?c" if "?drop s = Some (q, s1)" for q s1
        using that by (auto simp: give_up_def change_context_def in_world_def eff_defs split: option.splits sum.splits)
      have given_up: "safe (give_up i k ?c)"
        by (rule gives_up [OF ok])
      have run': "then_eff ?drop (then_eff (change_context (\<lambda>c. bind_user k i (set_user i k c))) (member_entered env k n)) s = Some (r, s')"
        using run no_observer Some by (simp add: processEnter_def get_context_def bind_eff_def get_eff_def)
      then obtain q s1 where q: "?drop s = Some (q, s1)" by (auto simp: then_eff_def bind_eff_def split: option.splits)
      show ?thesis
      proof (cases q)
        case (Inl e)
        then show ?thesis using run' q dropped [OF q] given_up by (auto simp: then_eff_def bind_eff_def)
      next
        case (Inr u)
        then have rest: "member_entered env k n (s1\<lparr>gs_context := bind_user k i (set_user i k (gs_context s1))\<rparr>) = Some (r, s')"
          using run' q by (simp add: then_eff_def bind_eff_def change_context_def modify_eff_def)
        have "safe (gs_context (s1\<lparr>gs_context := bind_user k i (set_user i k (gs_context s1))\<rparr>))"
          using dropped [OF q] entered_ok by auto
        from entered [unfolded triple_def, rule_format, OF this rest] show ?thesis by (simp split: sum.splits)
      qed
    qed
  qed
  then show "\<And>s a s'. safe (gs_context s) \<Longrightarrow> processEnter env k n s = Some (Inr a, s') \<Longrightarrow> safe (gs_context s')"
    "\<And>s e s'. safe (gs_context s) \<Longrightarrow> processEnter env k n s = Some (Inl e, s') \<Longrightarrow> safe (gs_context s')"
    by blast+
qed

lemma keeps_message:
  assumes "careful safe good env" "good m"
  shows "keeps safe (processEnterLeave env m)" "keeps safe (process_message env m)"
proof -
  show e: "keeps safe (processEnterLeave env m)"
    using assms by (auto simp: processEnterLeave_def intro!: keeps_enter keeps_change leaves keeps_inv_return)
  show "keeps safe (process_message env m)"
    unfolding process_message_def using e careful_parts(3) [OF assms(1), of m] by (intro keeps_quietly) simp
qed

text \<open>Polled messages name their connection.\<close>

lemma keeps_polled:
  assumes "careful safe good env" "\<And>ms. \<forall>m \<in> set ms. good m \<Longrightarrow> keeps safe (k ms)"
  shows "keeps safe (bind_eff (in_world (ge_poll env)) k)"
proof (rule triple_bind [where R = "\<lambda>ms s. safe (gs_context s) \<and> (\<forall>m \<in> set ms. good m)"])
  show "triple (\<lambda>s. safe (gs_context s)) (in_world (ge_poll env))
     (\<lambda>ms s. safe (gs_context s) \<and> (\<forall>m \<in> set ms. good m)) (\<lambda>_ s. safe (gs_context s))"
    using careful_parts(1) [OF assms(1)] by (auto simp: triple_def in_world_def split: sum.split)
  show "triple (\<lambda>s. safe (gs_context s) \<and> (\<forall>m \<in> set ms. good m)) (k ms)
     (\<lambda>_ s. safe (gs_context s)) (\<lambda>_ s. safe (gs_context s))" for ms
    by (rule triple_pure) (rule assms(2))
qed

lemma keeps_each: "(\<And>x. x \<in> set xs \<Longrightarrow> keeps safe (f x)) \<Longrightarrow> keeps safe (for_each f xs)"
  by (induction xs) (simp_all add: keeps_intro)

lemma keeps_wait_loop: "careful safe good env \<Longrightarrow> keeps safe (wait_loop fuel env opts start a)"
proof (induction fuel arbitrary: a)
  case 0
  then show ?case by (simp add: triple_def)
next
  case (Suc fuel)
  have body: "keeps safe (bind_eff (in_world (ge_poll env)) (\<lambda>messages.
    then_eff (for_each (\<lambda>m. quietly (processEnterLeave env m)) messages)
      (bind_eff (checkAgeChanged env (go_dropUndelivered opts) StageWait start a) (\<lambda>age.
        then_eff (sleep_for env (go_pollIntervalMillis opts)) (wait_loop fuel env opts start age)))))"
    by (intro keeps_polled keeps_intro keeps_each keeps_quietly keeps_message(1) keeps_check_age Suc) (use Suc.prems in auto)
  show ?case
    using body by (simp add: triple_def return_eff_def split: sum.split)
qed

lemma keeps_wait: "careful safe good env \<Longrightarrow> keeps safe (doInStageWait fuel env opts)"
  unfolding doInStageWait_def by (intro keeps_intro keeps_wait_loop)

lemma keeps_process_all:
  assumes "careful safe good env"
  shows "\<forall>m \<in> set ms. good m \<Longrightarrow> keeps safe (process_all env opts ms l)"
proof (induction ms arbitrary: l)
  case (Cons m ms)
  then show ?case by (auto intro!: keeps_intro keeps_message(2) keeps_delta assms)
qed (simp add: keeps_inv_return)

lemma keeps_pass: "careful safe good env \<Longrightarrow> keeps safe (run_pass env opts start l)"
proof -
  assume env: "careful safe good env"
  have fixed: "keeps safe (runFixedSteps env opts l)" for l
    unfolding runFixedSteps_def Let_def
    by (auto intro!: keeps_intro keeps_fixed env split: option.split prod.split)
  have snapshot: "keeps safe (sendSnapshotIfDue env opts start l)" for l
    unfolding sendSnapshotIfDue_def using careful_parts(7) [OF env]
    by (auto intro!: keeps_intro keeps_quietly split: option.split)
  show ?thesis
    unfolding run_pass_def
    by (auto intro!: keeps_intro keeps_polled keeps_process_all fixed snapshot keeps_check_age careful_parts(2) env split: prod.split)
qed

lemma keeps_running_loop: "careful safe good env \<Longrightarrow> keeps safe (running_loop fuel env opts start l)"
proof (induction fuel arbitrary: l)
  case 0
  then show ?case by (simp add: triple_def)
next
  case (Suc fuel)
  have body: "keeps safe (bind_eff (ge_isGameOver env) (\<lambda>over. if over then return_eff ()
      else bind_eff (run_pass env opts start l) (\<lambda>more.
        case more of None \<Rightarrow> return_eff () | Some l' \<Rightarrow> running_loop fuel env opts start l')))"
    using Suc by (auto intro!: keeps_intro keeps_pass careful_parts(2) split: option.split)
  show ?case
    using body by (simp add: triple_def return_eff_def split: sum.split)
qed

lemma keeps_running: "careful safe good env \<Longrightarrow> keeps safe (doInStageRunning bad_tick fuel env opts)"
  unfolding doInStageRunning_def by (auto intro!: keeps_intro keeps_running_loop)

lemma keeps_repeat: "keeps safe work \<Longrightarrow> keeps safe (repeatWithInterval n env i work)"
  by (induction n) (simp_all add: keeps_intro)

lemma keeps_end:
  assumes env: "careful safe good env"
  shows "keeps safe (end_game env opts reason)"
proof -
  have told: "keeps safe (case ge_onGameEnd env of None \<Rightarrow> return_eff () | Some hook \<Rightarrow> quietly (hook reason))"
    using careful_parts(8) [OF env] by (auto intro!: keeps_intro keeps_quietly split: option.split)
  show ?thesis
    unfolding end_game_def Let_def
    by (intro keeps_intro told keeps_repeat keeps_quietly keeps_announce keeps_each env)
qed

lemma keeps_game: "careful safe good env \<Longrightarrow> keeps safe (runGameAllTogether bad_tick fuel env opts)"
  unfolding runGameAllTogether_def game_reason_def
  by (auto intro!: keeps_intro keeps_wait keeps_running keeps_end careful_parts(2))

end

end
