(* ===== verification/Gamebase_Party.thy ===== *)
theory Gamebase_Party
  imports Gamebase_Guard
begin

section \<open>Who is connected (gamebase-all-together)\<close>

text \<open>
  An invariant of the context: a connection belongs to one member and a member has one connection. Every
  operation keeps it, so the wait stage counts members, not sockets.
\<close>

subsection \<open>The invariant\<close>

definition bound_ok :: "BaseGameContext \<Rightarrow> bool" where
  "bound_ok c \<longleftrightarrow>
     distinct (connection_keys c) \<and>
     (\<forall>(k, i) \<in> set (gc_connected c). i < length (gc_users c) \<and> k \<noteq> [] \<and> bu_connectionId (gc_users c ! i) = k)"

definition party_ok :: "GameStartMember list \<Rightarrow> BaseGameContext \<Rightarrow> bool" where
  "party_ok members c \<longleftrightarrow>
     bound_ok c \<and> map bu_memberId (gc_users c) = map gm_memberId (filter (\<lambda>m. \<not> gm_observer m) members) \<and>
     map bo_memberId (gc_observers c) = map gm_memberId (filter gm_observer members)"

lemma bound_okD:
  assumes "bound_ok c" "(k, i) \<in> set (gc_connected c)"
  shows "i < length (gc_users c)" "k \<noteq> []" "bu_connectionId (gc_users c ! i) = k" "map_of (gc_connected c) k = Some i"
  using assms by (auto simp: bound_ok_def connection_keys_def)

lemma bound_one_each:
  assumes "bound_ok c"
  shows "distinct (map snd (gc_connected c))" "card (snd ` set (gc_connected c)) = length (gc_connected c)"
    "snd ` set (gc_connected c) \<subseteq> {..<length (gc_users c)}"
proof -
  have "inj_on snd (set (gc_connected c))"
  proof (rule inj_onI)
    fix x y
    assume x: "x \<in> set (gc_connected c)" and y: "y \<in> set (gc_connected c)" and same: "snd x = snd y"
    have "bu_connectionId (gc_users c ! snd x) = fst x" by (rule bound_okD(3) [OF assms]) (use x in simp)
    moreover have "bu_connectionId (gc_users c ! snd y) = fst y" by (rule bound_okD(3) [OF assms]) (use y in simp)
    ultimately show "x = y" using same by (simp add: prod_eq_iff)
  qed
  moreover have "distinct (gc_connected c)" using assms by (simp add: bound_ok_def connection_keys_def distinct_map)
  ultimately show d: "distinct (map snd (gc_connected c))" by (simp add: distinct_map)
  from distinct_card [OF this] show "card (snd ` set (gc_connected c)) = length (gc_connected c)" by simp
  show "snd ` set (gc_connected c) \<subseteq> {..<length (gc_users c)}" using bound_okD(1) [OF assms] by force
qed

text \<open>Everyone is connected when as many connections are bound as there are users.\<close>

lemma all_bound:
  assumes "bound_ok c"
  shows "length (gc_users c) \<le> length (gc_connected c) \<longleftrightarrow> (\<forall>i < length (gc_users c). \<exists>k. (k, i) \<in> set (gc_connected c))"
proof
  assume "length (gc_users c) \<le> length (gc_connected c)"
  then have "snd ` set (gc_connected c) = {..<length (gc_users c)}"
    using bound_one_each(2,3) [OF assms] card_mono [OF finite_lessThan bound_one_each(3) [OF assms]]
    by (intro card_subset_eq) simp_all
  then have all: "i \<in> snd ` set (gc_connected c)" if "i < length (gc_users c)" for i using that by simp
  show "\<forall>i < length (gc_users c). \<exists>k. (k, i) \<in> set (gc_connected c)"
  proof (intro allI impI)
    fix i assume "i < length (gc_users c)"
    from all [OF this] show "\<exists>k. (k, i) \<in> set (gc_connected c)" by auto
  qed
next
  assume "\<forall>i < length (gc_users c). \<exists>k. (k, i) \<in> set (gc_connected c)"
  then have "{..<length (gc_users c)} \<subseteq> snd ` set (gc_connected c)" by force
  from card_mono [OF _ this] show "length (gc_users c) \<le> length (gc_connected c)" using bound_one_each(2) [OF assms] by simp
qed

subsection \<open>Operations keep it\<close>

lemma setup_party: "party_ok members (setupBaseGameContext members)"
  by (simp add: party_ok_def bound_ok_def connection_keys_def setupBaseGameContext_def comp_def)

lemma keys_distinct:
  "distinct (connection_keys c) \<Longrightarrow> distinct (connection_keys (unbind k c))"
  "distinct (connection_keys c) \<Longrightarrow> distinct (connection_keys (bind_user k i c))"
proof -
  assume d: "distinct (connection_keys c)"
  have "connection_keys (unbind k c) = filter (\<lambda>x. x \<noteq> k) (connection_keys c)"
    by (simp add: connection_keys_def unbind_def filter_map comp_def case_prod_unfold)
  with d show "distinct (connection_keys (unbind k c))" by simp
  have "map (fst \<circ> (\<lambda>(k', j). (k', if k' = k then i else j))) xs = map fst xs" for xs :: "(ustring \<times> nat) list"
    by (induction xs) auto
  with d show "distinct (connection_keys (bind_user k i c))" unfolding connection_keys_def bind_user_def
    by (simp del: map_eq_conv)
qed

lemma bound_leaves:
  assumes "bound_ok c" "map_of (gc_connected c) k = Some i"
  shows "bound_ok (unbind k (set_user i [] c))"
proof -
  have ki: "(k, i) \<in> set (gc_connected c)" using assms(2) by (rule map_of_SomeD)
  note i = bound_okD [OF assms(1) ki]
  have "j < length (gc_users c) \<and> k' \<noteq> [] \<and> bu_connectionId (gc_users (set_user i [] c) ! j) = k'"
    if "(k', j) \<in> set (gc_connected c)" "k' \<noteq> k" for k' j
  proof -
    note j = bound_okD [OF assms(1) that(1)]
    have "j \<noteq> i" using i(3) j(3) that(2) by auto
    then show ?thesis using j by (simp add: set_user_def)
  qed
  then show ?thesis
    using assms(1) keys_distinct(1) [of "set_user i [] c" k] by (auto simp: bound_ok_def unbind_entries connection_keys_def)
qed

lemma bound_enters:
  assumes "bound_ok c" "i < length (gc_users c)" "k \<noteq> []"
  shows "bound_ok (bind_user k i (set_user i k (give_up i k c)))"
proof -
  have entries: "(k', j) \<in> set (gc_connected c)" if "(k', j) \<in> set (gc_connected (give_up i k c))" for k' j
    using that by (auto simp: give_up_def unbind_entries split: option.splits)
  have others: "j \<noteq> i" if "(k', j) \<in> set (gc_connected (give_up i k c))" "k' \<noteq> k" for k' j
  proof
    assume "j = i"
    with bound_okD [OF assms(1) entries [OF that(1)]] that(2) have "superseded i k c = Some k'" by (simp add: superseded_def Let_def)
    with that(1) show False by (simp add: give_up_def unbind_entries)
  qed
  have same: "gc_users (give_up i k c) = gc_users c" by (simp add: give_up_def split: option.split)
  have "j < length (gc_users c) \<and> k' \<noteq> [] \<and> bu_connectionId (gc_users (set_user i k (give_up i k c)) ! j) = k'"
    if "(k', j) \<in> set (gc_connected (bind_user k i (set_user i k (give_up i k c))))" for k' j
  proof (cases "k' = k")
    case True
    then have "j = i" using bind_entries [OF that] by auto
    then show ?thesis using True assms(2,3) same by (simp add: set_user_def)
  next
    case False
    then have old: "(k', j) \<in> set (gc_connected (give_up i k c))" using bind_entries [OF that] by simp
    from bound_okD [OF assms(1) entries [OF old]] others [OF old False] show ?thesis by (simp add: set_user_def same)
  qed
  moreover have "distinct (connection_keys (give_up i k c))"
    using assms(1) keys_distinct(1) by (auto simp: give_up_def bound_ok_def split: option.split)
  ultimately show ?thesis
    using keys_distinct(2) [of "set_user i k (give_up i k c)" k i] same by (auto simp: bound_ok_def connection_keys_def)
qed

lemma bound_same: "bound_ok c \<Longrightarrow> gc_users c' = gc_users c \<Longrightarrow> gc_connected c' = gc_connected c \<Longrightarrow> bound_ok c'"
  by (simp add: bound_ok_def connection_keys_def)

interpretation party: context_guard "party_ok members" "\<lambda>m. message_text m ''connectionId'' \<noteq> []" for members
proof unfold_locales
  show "party_ok members (processLeave k c)" if "party_ok members c" for c k
    using that unfolding party_ok_def processLeave_def by (auto split: option.split intro: bound_leaves bound_same)
  show "party_ok members (prune_user k c)" if "party_ok members c" for c k
    using that unfolding party_ok_def prune_user_def by (auto split: option.split intro: bound_leaves)
  show "party_ok members (set_observer i k c)" if "party_ok members c" for c i k
    using that by (auto simp: party_ok_def intro: bound_same)
  show "party_ok members (give_up i k c)" if "party_ok members c" for c i k
    using that keys_distinct(1) unfolding party_ok_def give_up_def by (auto simp: bound_ok_def unbind_entries split: option.split)
  show "party_ok members (bind_user k i (set_user i k (give_up i k c)))"
    if "party_ok members c" "message_text m ''connectionId'' \<noteq> []" "message_text m ''type'' = ascii ''enter''" "i < length (gc_users c)"
      "bu_memberId (gc_users c ! i) = message_text m ''memberId''" "k = message_text m ''connectionId''" for c m i k
    using that bound_enters [of c i k] by (simp add: party_ok_def) (simp add: give_up_def split: option.split)
qed

subsection \<open>What the stages say of members\<close>

text \<open>
  C37: The wait stage counts members, not sockets: whatever enters, leaves, reconnects or is pruned, when
  it ends a connection belongs to one member, a member has at most one connection, and the verdict is
  whether that many members are connected as the game requires; by default, whether every member is.
\<close>
theorem wait_stage_counts_members:
  assumes "careful (party_ok members) (\<lambda>m. message_text m ''connectionId'' \<noteq> []) env" "gs_context s = setupBaseGameContext members"
    and "doInStageWait fuel env opts s = Some (Inr started, s')" "c = gs_context s'"
  shows "distinct (map fst (gc_connected c)) \<and> distinct (map snd (gc_connected c)) \<and>
    (\<forall>(k, i) \<in> set (gc_connected c). i < length (gc_users c) \<and> bu_connectionId (gc_users c ! i) = k) \<and>
    started = (case go_minPlayers opts of
        Some n \<Rightarrow> n \<le> int (card {i. \<exists>k. (k, i) \<in> set (gc_connected c)})
      | None \<Rightarrow> (\<forall>i < length (gc_users c). \<exists>k. (k, i) \<in> set (gc_connected c)))"
proof -
  have start: "party_ok members (gs_context s)" using setup_party assms(2) by simp
  have "party_ok members c" unfolding assms(4) by (rule tripleD(1) [OF party.keeps_wait [OF assms(1)] start assms(3)])
  then have ok: "bound_ok c" and names: "map bu_memberId (gc_users c) = map bu_memberId (gc_users (gs_context s))"
    using start unfolding party_ok_def by simp_all
  have users: "length (gc_users c) = length (gc_users (gs_context s))" by (rule map_eq_imp_length_eq [OF names])
  have verdict: "started = (requiredPlayers opts (gs_context s) \<le> int (length (gc_connected c)))"
    using assms(3,4) by (auto simp: doInStageWait_def get_context_def get_now_def eff_defs split: option.splits sum.splits)
  have "{i. \<exists>k. (k, i) \<in> set (gc_connected c)} = snd ` set (gc_connected c)" by force
  then have "card {i. \<exists>k. (k, i) \<in> set (gc_connected c)} = length (gc_connected c)" using bound_one_each(2) [OF ok] by simp
  then have "started = (case go_minPlayers opts of
        Some n \<Rightarrow> n \<le> int (card {i. \<exists>k. (k, i) \<in> set (gc_connected c)})
      | None \<Rightarrow> (\<forall>i < length (gc_users c). \<exists>k. (k, i) \<in> set (gc_connected c)))"
    using verdict all_bound [OF ok] users by (simp add: requiredPlayers_def split: option.split)
  then show ?thesis using ok bound_one_each(1) [OF ok] by (auto simp: bound_ok_def connection_keys_def)
qed

lemma enter_item_texts:
  "message_text (enter_item k m) ''type'' = ascii ''enter''" "message_text (enter_item k m) ''connectionId'' = k"
  "message_text (enter_item k m) ''memberId'' = m" "message_text (leave_item k) ''type'' = ascii ''leave''"
  "message_text (leave_item k) ''connectionId'' = k"
  by (simp_all add: message_text_def enter_item_def leave_item_def prop_of_def text_of_def or_name_def)

lemma party_careful: "careful (party_ok members) (\<lambda>m. message_text m ''connectionId'' \<noteq> []) party_env"
proof -
  have messages: "\<forall>m \<in> set (party_batch n). message_text m ''connectionId'' \<noteq> []" for n
    by (auto simp: party_batch_def enter_item_texts)
  show ?thesis
    using messages by (auto simp: careful_def party_env_def triple_def eff_defs)
qed

theorem wait_stage_counts_members_witness:
  "\<exists>s' k k'. doInStageWait 5 party_env party_options party_start = Some (Inr True, s') \<and>
    (k, 0) \<in> set (gc_connected (gs_context s')) \<and> (k', 1) \<in> set (gc_connected (gs_context s'))"
proof -
  have "case doInStageWait 5 party_env party_options party_start of
      Some (Inr b, s') \<Rightarrow> b \<and> length (gc_users (gs_context s')) = 2 | _ \<Rightarrow> False" by code_simp
  then obtain q s' where "doInStageWait 5 party_env party_options party_start = Some (q, s')"
    "case q of Inl e \<Rightarrow> False | Inr b \<Rightarrow> b \<and> length (gc_users (gs_context s')) = 2"
    by (auto split: option.splits)
  then have run: "doInStageWait 5 party_env party_options party_start = Some (Inr True, s')"
    and two: "length (gc_users (gs_context s')) = 2" by (simp_all split: sum.splits)
  have "gs_context party_start =
      setupBaseGameContext [\<lparr>gm_memberId = [97], gm_observer = False\<rparr>, \<lparr>gm_memberId = [98], gm_observer = False\<rparr>]"
    by (simp add: party_start_def)
  from wait_stage_counts_members [OF party_careful this run refl]
  have "\<exists>k. (k, i) \<in> set (gc_connected (gs_context s'))" if "i < 2" for i
    using that two by (simp add: party_options_def)
  from this [of 0] this [of 1] run show ?thesis by auto
qed

end
