(* ===== verification/Gamebase_Identity.thy ===== *)
theory Gamebase_Identity
  imports Gamebase_Party
begin

section \<open>Who speaks in a game (lambda-authorizer-jwt, lambda-gamebase, gamebase-all-together together)\<close>

text \<open>
  The packages composed. What the connection handlers put on the queue of a game names only connections
  whose handshake was admitted to it; so whoever the loop binds to a member proved to be that member.
  Other clients of the store act between any two commands, under the same invariant.
\<close>

subsection \<open>Admission\<close>

text \<open>\<open>published g t\<close>: the lobby saved the text \<open>t\<close> as the start event of the game \<open>g\<close>.\<close>

definition invited :: "('e, 'w) gateway_env \<Rightarrow> (ustring \<Rightarrow> ustring \<Rightarrow> bool) \<Rightarrow> ustring \<Rightarrow> ustring \<Rightarrow> bool" where
  "invited env published g m \<longleftrightarrow>
     (\<exists>t event members. published g t \<and> gw_parse env t = Some event \<and>
        prop_of (Some event) ''members'' = Some (JArr members) \<and> is_member m members = Some True)"

text \<open>\<open>seen e\<close>: the handshake \<open>e\<close> took place.\<close>

definition admitted ::
  "('e, 'w) gateway_env \<Rightarrow> (connect_event \<Rightarrow> ustring option) \<Rightarrow> (ustring \<Rightarrow> ustring \<Rightarrow> bool) \<Rightarrow> (connect_event \<Rightarrow> bool) \<Rightarrow>
   ustring \<Rightarrow> ustring \<Rightarrow> ustring \<Rightarrow> bool" where
  "admitted env resolve published seen g c m \<longleftrightarrow>
     invited env published g m \<and>
     (\<exists>e. seen e \<and> ce_connectionId e = c \<and> resolve e = Some m \<and> readParameter e (ascii ''x-game-id'') = Some g)"

text \<open>A message of an admitted connection, which only the handlers make one of a reserved type.\<close>

definition genuine :: "(ustring \<Rightarrow> ustring \<Rightarrow> bool) \<Rightarrow> json \<Rightarrow> bool" where
  "genuine adm it \<longleftrightarrow>
     (\<exists>c m. adm c m \<and>
        (it = enter_item c m \<or> it = leave_item c \<or>
         message_text it ''connectionId'' = c \<and> \<not> isReservedRequestType (prop_of (Some it) ''type'')))"

text \<open>The strings and the lists of the store.\<close>

type_synonym store = "(ustring \<Rightarrow> ustring option) \<times> (ustring \<Rightarrow> ustring list)"

definition gateway_inv ::
  "('e, 'w) gateway_env \<Rightarrow> (ustring \<Rightarrow> ustring \<Rightarrow> bool) \<Rightarrow> (ustring \<Rightarrow> ustring \<Rightarrow> ustring \<Rightarrow> bool) \<Rightarrow> store \<Rightarrow> bool" where
  "gateway_inv env published adm st \<longleftrightarrow>
     (\<forall>g t. fst st (gw_eventPrefix env @ g) = Some t \<longrightarrow> published g t) \<and>
     (\<forall>c g. fst st (gw_connectionPrefix env @ c) = Some g \<longrightarrow> (\<exists>m. adm g c m)) \<and>
     (\<forall>g v. v \<in> set (snd st (gw_queuePrefix env @ g)) \<longrightarrow> (\<exists>msg. v = gw_encode env msg \<and> genuine (adm g) (item msg)))"

subsection \<open>A store that is shared\<close>

text \<open>
  The commands of the handlers on a store other clients use as well. A command acts at one moment, on
  a store the clients kept the invariant \<open>P\<close> of, and they keep it before and after.
\<close>

definition acts :: "('w \<Rightarrow> store) \<Rightarrow> (store \<Rightarrow> bool) \<Rightarrow> ('e, 'a, 'w) eff \<Rightarrow> (store \<Rightarrow> store) \<Rightarrow> bool" where
  "acts view P m f \<longleftrightarrow>
     (\<forall>w r w'. m w = Some (r, w') \<longrightarrow> P (view w) \<longrightarrow> (\<exists>st. P st \<and> (P (f st) \<longrightarrow> P (view w'))))"

definition reads_store :: "('w \<Rightarrow> store) \<Rightarrow> (store \<Rightarrow> bool) \<Rightarrow> ('e, 'a, 'w) eff \<Rightarrow> (store \<Rightarrow> 'a) \<Rightarrow> bool" where
  "reads_store view P m f \<longleftrightarrow>
     (\<forall>w r w'. m w = Some (r, w') \<longrightarrow> P (view w) \<longrightarrow> P (view w') \<and> (\<forall>v. r = Inr v \<longrightarrow> (\<exists>st. P st \<and> v = f st)))"

definition shared_redis :: "('e, 'w) gateway_env \<Rightarrow> ('w \<Rightarrow> store) \<Rightarrow> (store \<Rightarrow> bool) \<Rightarrow> bool" where
  "shared_redis env view P \<longleftrightarrow>
     (\<forall>k. reads_store view P (ra_get (gw_api env) k) (\<lambda>(S, L). S k)) \<and>
     (\<forall>k v ms. acts view P (ra_set (gw_api env) k v ms None) (\<lambda>(S, L). (S(k \<mapsto> v), L))) \<and>
     (\<forall>ks. acts view P (ra_del (gw_api env) ks) (\<lambda>(S, L). (\<lambda>k. if k \<in> set ks then None else S k, L))) \<and>
     (\<forall>k vs. acts view P (ra_rpush (gw_api env) k vs) (\<lambda>(S, L). (S, L(k := L k @ vs)))) \<and>
     (\<forall>k n. acts view P (ra_expire (gw_api env) k n) (\<lambda>st. st)) \<and>
     acts view P (gw_uuid env) (\<lambda>st. st)"

lemma acts_keeps:
  assumes "acts view P m f" "\<And>st. P st \<Longrightarrow> P (f st)"
  shows "keeps_inv (\<lambda>w. P (view w)) m"
proof -
  have "P (view w')" if "m w = Some (r, w')" "P (view w)" for w r w'
    using assms(1) [unfolded acts_def, rule_format, OF that] assms(2) by blast
  then show ?thesis by (auto intro: tripleI)
qed

lemma reads_triple:
  assumes "reads_store view P m f"
  shows "triple (\<lambda>w. P (view w)) m (\<lambda>v w. P (view w) \<and> (\<exists>st. P st \<and> v = f st)) (\<lambda>_ w. P (view w))"
proof -
  have "P (view w') \<and> (\<forall>v. r = Inr v \<longrightarrow> (\<exists>st. P st \<and> v = f st))" if "m w = Some (r, w')" "P (view w)" for w r w'
    using assms [unfolded reads_store_def, rule_format, OF that] .
  then show ?thesis by (auto intro: tripleI)
qed

lemma shared_redisD:
  assumes "shared_redis env view P"
  shows "reads_store view P (ra_get (gw_api env) k) (\<lambda>(S, L). S k)"
    "acts view P (ra_set (gw_api env) k v ms None) (\<lambda>(S, L). (S(k \<mapsto> v), L))"
    "acts view P (ra_del (gw_api env) ks) (\<lambda>(S, L). (\<lambda>k. if k \<in> set ks then None else S k, L))"
    "acts view P (ra_rpush (gw_api env) k vs) (\<lambda>(S, L). (S, L(k := L k @ vs)))"
    "keeps_inv (\<lambda>w. P (view w)) (ra_expire (gw_api env) k n)" "keeps_inv (\<lambda>w. P (view w)) (gw_uuid env)"
proof -
  note law = assms [unfolded shared_redis_def]
  from law show "reads_store view P (ra_get (gw_api env) k) (\<lambda>(S, L). S k)"
    "acts view P (ra_set (gw_api env) k v ms None) (\<lambda>(S, L). (S(k \<mapsto> v), L))"
    "acts view P (ra_del (gw_api env) ks) (\<lambda>(S, L). (\<lambda>k. if k \<in> set ks then None else S k, L))"
    "acts view P (ra_rpush (gw_api env) k vs) (\<lambda>(S, L). (S, L(k := L k @ vs)))" by simp_all
  from law have same: "acts view P (ra_expire (gw_api env) k n) (\<lambda>st. st)" "acts view P (gw_uuid env) (\<lambda>st. st)" by simp_all
  show "keeps_inv (\<lambda>w. P (view w)) (ra_expire (gw_api env) k n)" by (rule acts_keeps [OF same(1)])
  show "keeps_inv (\<lambda>w. P (view w)) (gw_uuid env)" by (rule acts_keeps [OF same(2)])
qed

subsection \<open>The handlers keep the queue genuine\<close>

lemma map_of_stamp:
  "map_of (if key \<in> fst ` set kvs then map (\<lambda>(k, x). (k, if k = key then v else x)) kvs else kvs @ [(key, v)]) k =
    (if k = key then Some v else map_of kvs k)"
proof -
  have replaced: "map_of (map (\<lambda>(k, x). (k, if k = key then v else x)) kvs) k =
      (if k = key then map_option (\<lambda>_. v) (map_of kvs k) else map_of kvs k)"
    by (induction kvs) auto
  have missing: "map_of kvs key = None \<longleftrightarrow> key \<notin> fst ` set kvs" by (rule map_of_eq_None_iff)
  show ?thesis
  proof (cases "key \<in> fst ` set kvs")
    case True
    then show ?thesis using missing replaced by auto
  next
    case False
    then show ?thesis using missing by (auto simp: map_add_def split: option.split)
  qed
qed

lemma stamped_properties:
  "message_text (stamped request c) ''connectionId'' = c"
  "prop_of (Some (stamped request c)) ''type'' = prop_of (Some request) ''type''"
proof -
  let ?key = "ascii ''connectionId''"
  have all: "prop_of (Some (stamped request c)) n =
      (if ascii n = ?key then Some (JStr c) else map_of (own_properties request) (ascii n))" for n
    unfolding stamped_def Let_def prop_of_def option.case json.case map_of_stamp by (rule refl)
  show "message_text (stamped request c) ''connectionId'' = c" by (simp add: message_text_def all text_of_def or_name_def)
  have digits: "ascii ''type'' \<noteq> show_nat i" for i
  proof
    assume "ascii ''type'' = show_nat i"
    then have "is_digit (hd (ascii ''type''))" using show_nat_digits [of i] by (cases "show_nat i") auto
    moreover have "\<not> is_digit (hd (ascii ''type''))" by code_simp
    ultimately show False by simp
  qed
  have none: "map_of (zip (map show_nat [0..<length xs]) xs) (ascii ''type'') = None"
    "map_of (map (\<lambda>i. (show_nat i, JStr [t ! i])) [0..<length t]) (ascii ''type'') = None" for xs :: "json list" and t
  proof -
    have "fst ` set (zip (map show_nat [0..<length xs]) xs) \<subseteq> range show_nat" by (auto dest!: set_zip_leftD)
    then have "ascii ''type'' \<notin> fst ` set (zip (map show_nat [0..<length xs]) xs)" using digits by blast
    then show "map_of (zip (map show_nat [0..<length xs]) xs) (ascii ''type'') = None" unfolding map_of_eq_None_iff .
    have "fst ` set (map (\<lambda>i. (show_nat i, JStr [t ! i])) [0..<length t]) \<subseteq> range show_nat" by auto
    then have "ascii ''type'' \<notin> fst ` set (map (\<lambda>i. (show_nat i, JStr [t ! i])) [0..<length t])" using digits by blast
    then show "map_of (map (\<lambda>i. (show_nat i, JStr [t ! i])) [0..<length t]) (ascii ''type'') = None" unfolding map_of_eq_None_iff .
  qed
  have "ascii ''type'' \<noteq> ?key" by code_simp
  then show "prop_of (Some (stamped request c)) ''type'' = prop_of (Some request) ''type''"
    unfolding all by (simp add: own_properties_def prop_of_def none del: ascii_simps split: json.split)
qed

datatype gateway_request = Connected connect_event | Sent ustring "ustring option" | Disconnected ustring

text \<open>The answer of a request, \<open>None\<close> for an invocation that fails; and many of them.\<close>

definition serve ::
  "('e, 'w) gateway_env \<Rightarrow> (connect_event \<Rightarrow> ustring option) \<Rightarrow> (ustring list \<Rightarrow> ustring option) option \<Rightarrow>
   gateway_request \<Rightarrow> ('e, gateway_response option, 'w) eff" where
  "serve env resolve select request =
     catch_eff
       (bind_eff
         (case request of
            Connected event \<Rightarrow> handleConnect env resolve select event
          | Sent connectionId body \<Rightarrow> handleMessages env connectionId body
          | Disconnected connectionId \<Rightarrow> handleDisconnect env connectionId)
         (\<lambda>answer. return_eff (Some answer)))
       (\<lambda>e. return_eff None)"

fun serve_all ::
  "('e, 'w) gateway_env \<Rightarrow> (connect_event \<Rightarrow> ustring option) \<Rightarrow> (ustring list \<Rightarrow> ustring option) option \<Rightarrow>
   gateway_request list \<Rightarrow> ('e, gateway_response option list, 'w) eff" where
  "serve_all env resolve select [] = return_eff []"
| "serve_all env resolve select (x # xs) =
     bind_eff (serve env resolve select x) (\<lambda>a. bind_eff (serve_all env resolve select xs) (\<lambda>as. return_eff (a # as)))"

text \<open>Between the store and the handlers: what the store and its other clients promise.\<close>

locale shared_gateway =
  fixes env :: "('e, 'w) gateway_env" and view :: "'w \<Rightarrow> store" and published :: "ustring \<Rightarrow> ustring \<Rightarrow> bool"
    and adm :: "ustring \<Rightarrow> ustring \<Rightarrow> ustring \<Rightarrow> bool"
  assumes shared: "shared_redis env view (gateway_inv env published adm)"
    and apart: "gw_connectionPrefix env @ c \<noteq> gw_eventPrefix env @ g"
begin

abbreviation store_ok :: "'w \<Rightarrow> bool" where
  "store_ok w \<equiv> gateway_inv env published adm (view w)"

lemma keeps_read:
  assumes "\<And>v st. gateway_inv env published adm st \<Longrightarrow> v = fst st k \<Longrightarrow> keeps_inv store_ok (f v)"
  shows "keeps_inv store_ok (bind_eff (ra_get (gw_api env) k) f)"
proof (rule triple_bind)
  show "triple store_ok (ra_get (gw_api env) k)
    (\<lambda>v w. store_ok w \<and> (\<exists>st. gateway_inv env published adm st \<and> v = (case st of (S, L) \<Rightarrow> S k))) (\<lambda>_. store_ok)"
    by (rule reads_triple [OF shared_redisD(1) [OF shared]])
  show "triple (\<lambda>w. store_ok w \<and> (\<exists>st. gateway_inv env published adm st \<and> v = (case st of (S, L) \<Rightarrow> S k))) (f v)
    (\<lambda>_. store_ok) (\<lambda>_. store_ok)" for v
    by (rule triple_pure) (auto intro: assms)
qed

lemma keeps_enqueue: "genuine (adm g) it \<Longrightarrow> keeps_inv store_ok (enqueueToActor env g it)"
proof -
  assume it: "genuine (adm g) it"
  have "gateway_inv env published adm (S, L(k := L k @ [gw_encode env msg]))"
    if "gateway_inv env published adm (S, L)" "k = gw_queuePrefix env @ g" "item msg = it" for S L k msg
    using that it by (auto simp: gateway_inv_def)
  then have pushed: "keeps_inv store_ok (ra_rpush (gw_api env) (gw_queuePrefix env @ g) [gw_encode env msg])" if "item msg = it" for msg
    using that by (intro acts_keeps [OF shared_redisD(4) [OF shared]]) (auto split: prod.split)
  show ?thesis
    unfolding enqueueToActor_def Let_def by (intro keeps_inv_intros pushed shared_redisD(5,6) [OF shared]) simp
qed

lemma keeps_bound: "adm g c m \<Longrightarrow> keeps_inv store_ok (ra_set (gw_api env) (gw_connectionPrefix env @ c) g ms None)"
proof (rule acts_keeps [OF shared_redisD(2) [OF shared]])
  fix st :: store
  assume "adm g c m" "gateway_inv env published adm st"
  then show "gateway_inv env published adm (case st of (S, L) \<Rightarrow> (S(gw_connectionPrefix env @ c \<mapsto> g), L))"
    by (auto simp: gateway_inv_def apart [THEN not_sym] split: prod.split)
qed

lemma keeps_unbound: "keeps_inv store_ok (ra_del (gw_api env) ks)"
proof (rule acts_keeps [OF shared_redisD(3) [OF shared]])
  fix st :: store
  assume "gateway_inv env published adm st"
  then show "gateway_inv env published adm (case st of (S, L) \<Rightarrow> (\<lambda>k. if k \<in> set ks then None else S k, L))"
    by (auto simp: gateway_inv_def split: prod.split)
qed

lemma bound_connection: "gateway_inv env published adm st \<Longrightarrow> Some g = fst st (gw_connectionPrefix env @ c) \<Longrightarrow> \<exists>m. adm g c m"
  unfolding gateway_inv_def by metis

lemma keeps_messages: "keeps_inv store_ok (handleMessages env c body)"
proof -
  have genuine: "genuine (adm g) (stamped request c)"
    if "gateway_inv env published adm st" "Some g = fst st (gw_connectionPrefix env @ c)"
      "\<not> isReservedRequestType (prop_of (Some request) ''type'')" for st g request
    using bound_connection [OF that(1,2)] that(3) unfolding genuine_def stamped_properties by blast
  have inner: "keeps_inv store_ok (case v of
        None \<Rightarrow> return_eff (response 404)
      | Some gameId \<Rightarrow>
          if gameId = [] then return_eff (response 404)
          else
            then_eff (enqueueToActor env gameId (stamped request c))
              (then_eff
                (catch_eff
                  (then_eff (ra_expire (gw_api env) (gw_connectionPrefix env @ c) (ceil_seconds (gw_mappingTtlMillis env))) (return_eff ()))
                  (\<lambda>e. return_eff ()))
                (return_eff (response 200))))"
    if "gateway_inv env published adm st" "v = fst st (gw_connectionPrefix env @ c)"
      "\<not> isReservedRequestType (prop_of (Some request) ''type'')" for st v request
    using that by (cases v) (auto intro!: keeps_inv_intros keeps_enqueue shared_redisD(5) [OF shared] genuine)
  show ?thesis
    unfolding handleMessages_def Let_def
    by (cases body) (auto intro!: keeps_inv_return keeps_inv_throw keeps_read inner split: option.split)
qed

lemma keeps_disconnect: "keeps_inv store_ok (handleDisconnect env c)"
proof -
  have genuine: "genuine (adm g) (leave_item c)"
    if "gateway_inv env published adm st" "Some g = fst st (gw_connectionPrefix env @ c)" for st g
    using bound_connection [OF that] unfolding genuine_def by blast
  have inner: "keeps_inv store_ok (case v of
             None \<Rightarrow> return_eff ()
           | Some gameId \<Rightarrow>
               if gameId = [] then return_eff ()
               else
                 then_eff (enqueueToActor env gameId (leave_item c))
                   (then_eff (ra_del (gw_api env) [gw_connectionPrefix env @ c]) (return_eff ())))"
    if "gateway_inv env published adm st" "v = fst st (gw_connectionPrefix env @ c)" for st v
    using that by (cases v) (auto intro!: keeps_inv_intros keeps_enqueue keeps_unbound genuine)
  show ?thesis
    unfolding handleDisconnect_def Let_def by (intro keeps_inv_then keeps_read inner keeps_inv_return)
qed

lemma loaded_event:
  "triple store_ok (loadActorStartEvent env g)
     (\<lambda>v w. store_ok w \<and> (\<forall>event. v = Some event \<longrightarrow> (\<exists>t. published g t \<and> gw_parse env t = Some event))) (\<lambda>_. store_ok)"
  unfolding loadActorStartEvent_def
proof (rule triple_bind)
  show "triple store_ok (ra_get (gw_api env) (gw_eventPrefix env @ g)) (\<lambda>v w. store_ok w \<and> (\<forall>t. v = Some t \<longrightarrow> published g t)) (\<lambda>_. store_ok)"
    by (rule triple_weaken [OF reads_triple [OF shared_redisD(1) [OF shared]]]) (auto simp: gateway_inv_def)
qed (auto simp: triple_def return_eff_def split: option.split)

lemma authorized_member:
  "triple store_ok (authorizeGameConnection env g m)
     (\<lambda>a w. store_ok w \<and> (\<forall>event. a = Authorized event \<longrightarrow> invited env published g m)) (\<lambda>_. store_ok)"
  unfolding authorizeGameConnection_def
proof (rule triple_bind [OF loaded_event], rule triple_pure)
  fix v :: "json option"
  assume read: "\<forall>event. v = Some event \<longrightarrow> (\<exists>t. published g t \<and> gw_parse env t = Some event)"
  have "invited env published g m"
    if "v = Some event" "prop_of (Some event) ''members'' = Some (JArr members)" "is_member m members = Some True" for event members
    using read that unfolding invited_def by blast
  then show "triple store_ok
     (case v of None \<Rightarrow> return_eff UnknownGame
      | Some event \<Rightarrow>
          (case prop_of (Some event) ''members'' of
             Some (JArr members) \<Rightarrow>
               (case is_member m members of
                  None \<Rightarrow> throw_eff (gw_typeError env) | Some False \<Rightarrow> return_eff NotAMember
                | Some True \<Rightarrow> return_eff (Authorized event))
           | _ \<Rightarrow> throw_eff (gw_typeError env)))
     (\<lambda>a w. store_ok w \<and> (\<forall>event. a = Authorized event \<longrightarrow> invited env published g m)) (\<lambda>_. store_ok)"
    by (auto simp: triple_def eff_simps split: option.splits json.splits bool.splits sum.splits)
qed

lemma keeps_handshake:
  assumes "\<And>m g. resolve event = Some m \<Longrightarrow> readParameter event (ascii ''x-game-id'') = Some g \<Longrightarrow> invited env published g m \<Longrightarrow>
    adm g (ce_connectionId event) m"
  shows "keeps_inv store_ok (handleConnect env resolve select event)"
proof -
  have inner: "keeps_inv store_ok (bind_eff (authorizeGameConnection env g m) (\<lambda>authorization.
      case authorization of
        Authorized startEvent \<Rightarrow>
          then_eff (ra_set (gw_api env) (gw_connectionPrefix env @ ce_connectionId event) g (Some (gw_mappingTtlMillis env)) None)
            (then_eff (enqueueToActor env g (enter_item (ce_connectionId event) m))
              (return_eff (accept_connection event select)))
      | _ \<Rightarrow> return_eff (response 400)))"
    if "resolve event = Some m" "readParameter event (ascii ''x-game-id'') = Some g" for m g
  proof (rule triple_bind [OF authorized_member], rule triple_pure)
    fix a assume invited: "\<forall>event. a = Authorized event \<longrightarrow> invited env published g m"
    have "adm g (ce_connectionId event) m" if "a = Authorized startEvent" for startEvent
      using assms [OF \<open>resolve event = Some m\<close> \<open>readParameter event (ascii ''x-game-id'') = Some g\<close>] invited that by blast
    moreover have "genuine (adm g) (enter_item (ce_connectionId event) m)" if "adm g (ce_connectionId event) m"
      using that unfolding genuine_def by blast
    ultimately show "keeps_inv store_ok (case a of
        Authorized startEvent \<Rightarrow>
          then_eff (ra_set (gw_api env) (gw_connectionPrefix env @ ce_connectionId event) g (Some (gw_mappingTtlMillis env)) None)
            (then_eff (enqueueToActor env g (enter_item (ce_connectionId event) m))
              (return_eff (accept_connection event select)))
      | _ \<Rightarrow> return_eff (response 400))"
      by (cases a) (auto intro!: keeps_inv_intros keeps_bound keeps_enqueue)
  qed
  show ?thesis
    unfolding handleConnect_def using inner by (auto intro!: keeps_inv_return split: option.split)
qed

lemma keeps_serving:
  assumes "\<And>event m g. Connected event \<in> set requests \<Longrightarrow> resolve event = Some m \<Longrightarrow>
    readParameter event (ascii ''x-game-id'') = Some g \<Longrightarrow> invited env published g m \<Longrightarrow> adm g (ce_connectionId event) m"
  shows "keeps_inv store_ok (serve_all env resolve select requests)"
  using assms
proof (induction requests)
  case (Cons request requests)
  have "keeps_inv store_ok (case request of
            Connected event \<Rightarrow> handleConnect env resolve select event
          | Sent connectionId body \<Rightarrow> handleMessages env connectionId body
          | Disconnected connectionId \<Rightarrow> handleDisconnect env connectionId)"
    using Cons.prems by (cases request) (auto intro!: keeps_handshake keeps_messages keeps_disconnect)
  then have "keeps_inv store_ok (serve env resolve select request)"
    unfolding serve_def by (intro keeps_inv_catch keeps_inv_bind keeps_inv_return)
  then show ?case using Cons by (auto intro!: keeps_inv_bind keeps_inv_return)
qed (simp add: keeps_inv_return)

end

text \<open>A gateway on the store of \<open>Redis_Api\<close>, with one game \<open>g\<close> for the member \<open>ann\<close>.\<close>

definition demo_start :: json where
  "demo_start = JObj [(ascii ''gameId'', JStr [103]), (ascii ''members'', JArr [JObj [(ascii ''memberId'', JStr (ascii ''ann''))]])]"

definition demo_gateway :: "(unit, demo_server) gateway_env" where
  "demo_gateway =
     \<lparr>gw_api = demoRedis (\<lambda>_ _ _ s. (0, s)), gw_typeError = (),
      gw_parse = (\<lambda>t. if t = [1] then Some demo_start else if t = [2] then Some (JObj [(ascii ''type'', JStr (ascii ''enter''))]) else None),
      gw_encode = (\<lambda>msg. if item msg = enter_item [120] (ascii ''ann'') then [1] else [2]), gw_uuid = return_eff ''id'',
      gw_connectionPrefix = [99], gw_eventPrefix = [101], gw_queuePrefix = [113], gw_queueTtlSeconds = 60,
      gw_mappingTtlMillis = 900000, gw_validate = (\<lambda>_. Some True)\<rparr>"

definition demo_published :: "ustring \<Rightarrow> ustring \<Rightarrow> bool" where
  "demo_published g t \<longleftrightarrow> g = [103] \<and> t = [1]"

definition demo_handshake :: connect_event where
  "demo_handshake =
     \<lparr>ce_headers = None, ce_query = Some (\<lambda>n. if n = ascii ''x-game-id'' then Some [103] else None), ce_connectionId = [120],
      ce_authorizer = Some [(ascii ''memberId'', JStr (ascii ''ann''))]\<rparr>"

definition demo_view :: "demo_server \<Rightarrow> store" where
  "demo_view w = (ds_strings w, ds_lists w)"

interpretation demo: shared_gateway demo_gateway demo_view demo_published adm for adm
proof unfold_locales
  show "shared_redis demo_gateway demo_view (gateway_inv demo_gateway demo_published adm)"
    unfolding shared_redis_def
    by (auto simp: acts_def reads_store_def demo_gateway_def demoRedis_def demo_view_def eff_defs split: if_splits)
  show "gw_connectionPrefix demo_gateway @ c \<noteq> gw_eventPrefix demo_gateway @ g" for c g
    by (simp add: demo_gateway_def)
qed

subsection \<open>Nothing on the queue is forged\<close>

text \<open>
  C29: Nothing on the queue of a game is forged: whatever requests the handlers serve, and whatever other
  clients of the store do that keeps this true, every message there is of a connection whose handshake
  named that game and resolved to a member its start event lists; and one that says a member enters or a
  connection leaves was put there for exactly that handshake, never by a message of a client.
\<close>
theorem queue_is_genuine:
  assumes "shared_redis env view (gateway_inv env published (admitted env resolve published seen))"
    and "\<forall>c g. gw_connectionPrefix env @ c \<noteq> gw_eventPrefix env @ g"
    and "\<forall>event. Connected event \<in> set requests \<longrightarrow> seen event"
    and "gateway_inv env published (admitted env resolve published seen) (view w)"
    and "serve_all env resolve select requests w = Some (Inr answers, w')"
    and "v \<in> set (snd (view w') (gw_queuePrefix env @ g))"
  shows "\<exists>msg c m. v = gw_encode env msg \<and> invited env published g m \<and>
    (\<exists>e. seen e \<and> ce_connectionId e = c \<and> resolve e = Some m \<and> readParameter e (ascii ''x-game-id'') = Some g) \<and>
    (item msg = enter_item c m \<or> item msg = leave_item c \<or>
     message_text (item msg) ''connectionId'' = c \<and> \<not> isReservedRequestType (prop_of (Some (item msg)) ''type''))"
proof -
  have "shared_gateway env view published (admitted env resolve published seen)"
    using assms(1,2) by unfold_locales simp_all
  from shared_gateway.keeps_serving [OF this, where requests = requests and resolve = resolve and select = select]
  have "keeps_inv (\<lambda>w. gateway_inv env published (admitted env resolve published seen) (view w)) (serve_all env resolve select requests)"
    using assms(3) unfolding admitted_def by blast
  from tripleD(1) [OF this assms(4,5)] obtain msg where "v = gw_encode env msg" "genuine (admitted env resolve published seen g) (item msg)"
    using assms(6) unfolding gateway_inv_def by blast
  then show ?thesis unfolding genuine_def admitted_def by blast
qed

definition demo_served :: demo_server where
  "demo_served =
     demoServer\<lparr>ds_strings := [[101, 103] \<mapsto> [1], [99, 120] \<mapsto> [103]], ds_lists := (\<lambda>_. [])([113, 103] := [[1]])\<rparr>"

lemma demo_invited: "is_member (ascii ''ann'') [JObj [(ascii ''memberId'', JStr (ascii ''ann''))]] = Some True"
  by (simp add: prop_of_def)

lemma demo_connects:
  "handleConnect demo_gateway authorizer_member None demo_handshake (demoServer\<lparr>ds_strings := [[101, 103] \<mapsto> [1]]\<rparr>) =
     Some (Inr (response 200), demo_served)"
proof -
  let ?w = "demoServer\<lparr>ds_strings := [[101, 103] \<mapsto> [1]]\<rparr>"
  have "authorizer_member demo_handshake = Some (ascii ''ann'')"
    by (simp add: authorizer_member_def demo_handshake_def member_of_def text_of_def)
  moreover have "readParameter demo_handshake (ascii ''x-game-id'') = Some [103]"
    by (simp add: readParameter_def readHeader_def demo_handshake_def)
  moreover have "prop_of (Some demo_start) ''gameId'' = Some (JStr [103])"
    "prop_of (Some demo_start) ''members'' = Some (JArr [JObj [(ascii ''memberId'', JStr (ascii ''ann''))]])"
    by (simp_all add: demo_start_def prop_of_def)
  then have "authorizeGameConnection demo_gateway [103] (ascii ''ann'') ?w = Some (Inr (Authorized demo_start), ?w)"
    by (simp add: authorizeGameConnection_def loadActorStartEvent_def demo_gateway_def demoRedis_def eff_defs truthy_def demo_invited del: is_member.simps ascii_simps)
  moreover have "ra_set (gw_api demo_gateway) (gw_connectionPrefix demo_gateway @ ce_connectionId demo_handshake) [103]
      (Some (gw_mappingTtlMillis demo_gateway)) None ?w = Some (Inr True, demo_served\<lparr>ds_lists := (\<lambda>_. [])\<rparr>)"
    by (simp add: demo_gateway_def demoRedis_def demo_handshake_def demo_served_def demoServer_def fun_upd_def)
      (intro ext, simp)
  moreover have "enqueueToActor demo_gateway [103] (enter_item (ce_connectionId demo_handshake) (ascii ''ann'')) (demo_served\<lparr>ds_lists := (\<lambda>_. [])\<rparr>) =
      Some (Inr (), demo_served)"
    by (simp add: enqueueToActor_def demo_gateway_def demoRedis_def demo_handshake_def demo_served_def demoServer_def eff_defs Let_def del: ascii_simps)
  moreover have "ascii ''ann'' \<noteq> []" by simp
  ultimately show ?thesis
    by (simp only: handleConnect_def option.case if_False list.distinct bind_eff_Inr then_eff_def game_authorization.case)
      (simp add: bind_eff_Inr return_eff_def accept_connection_def)
qed

lemma demo_refuses: "handleMessages demo_gateway [120] (Some [2]) demo_served = Some (Inr (response 400), demo_served)"
  by (simp add: handleMessages_def demo_gateway_def isReservedRequestType_def reservedRequestTypes_def prop_of_def return_eff_def)

theorem queue_is_genuine_witness:
  "\<exists>msg. serve_all demo_gateway authorizer_member None [Connected demo_handshake, Sent [120] (Some [2])]
      (demoServer\<lparr>ds_strings := [[101, 103] \<mapsto> [1]]\<rparr>) = Some (Inr [Some (response 200), Some (response 400)], demo_served) \<and>
    ds_lists demo_served [113, 103] = [gw_encode demo_gateway msg] \<and> invited demo_gateway demo_published [103] (ascii ''ann'')"
proof -
  let ?w = "demoServer\<lparr>ds_strings := [[101, 103] \<mapsto> [1]]\<rparr>"
  have run: "serve_all demo_gateway authorizer_member None [Connected demo_handshake, Sent [120] (Some [2])] ?w =
      Some (Inr [Some (response 200), Some (response 400)], demo_served)"
    by (simp add: serve_def demo_connects demo_refuses eff_defs)
  have start: "gateway_inv demo_gateway demo_published (admitted demo_gateway authorizer_member demo_published (\<lambda>e. e = demo_handshake)) (demo_view ?w)"
    by (auto simp: gateway_inv_def demo_view_def demo_gateway_def demo_published_def demoServer_def)
  have queued: "[1] \<in> set (snd (demo_view demo_served) (gw_queuePrefix demo_gateway @ [103]))"
    by (simp add: demo_view_def demo_gateway_def demo_served_def)
  have apart: "\<forall>c g. gw_connectionPrefix demo_gateway @ c \<noteq> gw_eventPrefix demo_gateway @ g" by (simp add: demo_gateway_def)
  have seen: "\<forall>event. Connected event \<in> set [Connected demo_handshake, Sent [120] (Some [2])] \<longrightarrow> event = demo_handshake" by simp
  from queue_is_genuine [OF demo.shared apart seen start run queued] obtain msg m where
    "[1] = gw_encode demo_gateway msg" "invited demo_gateway demo_published [103] m" "authorizer_member demo_handshake = Some m" by blast
  moreover have "authorizer_member demo_handshake = Some (ascii ''ann'')" by code_simp
  moreover have "ds_lists demo_served [113, 103] = [[1]]" by (simp add: demo_served_def)
  ultimately show ?thesis using run by auto
qed

subsection \<open>Nobody speaks for another\<close>

definition spoken_for :: "(ustring \<Rightarrow> ustring \<Rightarrow> bool) \<Rightarrow> BaseGameContext \<Rightarrow> bool" where
  "spoken_for adm c \<longleftrightarrow>
     (\<forall>(k, i) \<in> set (gc_connected c). i < length (gc_users c) \<and> adm k (bu_memberId (gc_users c ! i)))"

lemma genuine_enter:
  assumes "genuine adm m" "message_text m ''type'' = ascii ''enter''"
  shows "adm (message_text m ''connectionId'') (message_text m ''memberId'')"
proof -
  obtain c n where adm: "adm c n" and cases: "m = enter_item c n \<or> m = leave_item c \<or> \<not> isReservedRequestType (prop_of (Some m) ''type'')"
    using assms(1) unfolding genuine_def by blast
  have "text_of (prop_of (Some m) ''type'') = Some (ascii ''enter'')"
    using assms(2) by (auto simp: message_text_def or_name_def split: option.splits)
  then have "isReservedRequestType (prop_of (Some m) ''type'')"
    by (auto simp: text_of_def isReservedRequestType_def reservedRequestTypes_def split: option.splits json.splits)
  moreover have "m \<noteq> leave_item c"
  proof
    assume "m = leave_item c"
    then have "message_text m ''type'' = ascii ''leave''" by (simp add: leave_item_def message_text_def prop_of_def text_of_def or_name_def)
    then show False using assms(2) by simp
  qed
  ultimately have "m = enter_item c n" using cases by blast
  then show ?thesis using adm by (simp add: enter_item_texts)
qed

lemma set_user_member: "bu_memberId (gc_users (set_user i k c) ! j) = bu_memberId (gc_users c ! j)"
  by (cases "i < length (gc_users c)") (auto simp: set_user_def nth_list_update list_update_beyond not_less)

lemma spoken_unbinds: "spoken_for adm c \<Longrightarrow> spoken_for adm (unbind k (set_user i k' c))" "spoken_for adm c \<Longrightarrow> spoken_for adm (unbind k c)"
  unfolding spoken_for_def by (auto simp: unbind_entries set_user_member)

lemma spoken_observes: "spoken_for adm (set_observer i k c) = spoken_for adm c"
  by (simp add: spoken_for_def)

interpretation voices: context_guard "spoken_for adm" "genuine adm" for adm
proof unfold_locales
  show "spoken_for adm (processLeave k c)" if "spoken_for adm c" for c k
    using that unfolding processLeave_def by (auto split: option.split simp: spoken_observes intro: spoken_unbinds)
  show "spoken_for adm (prune_user k c)" if "spoken_for adm c" for c k
    using that unfolding prune_user_def by (auto split: option.split intro: spoken_unbinds)
  show "spoken_for adm (set_observer i k c)" if "spoken_for adm c" for c i k
    using that by (simp add: spoken_observes)
  show gives_up: "spoken_for adm (give_up i k c)" if "spoken_for adm c" for c i k
    using that unfolding give_up_def by (auto split: option.split intro: spoken_unbinds)
  show "spoken_for adm (bind_user k i (set_user i k (give_up i k c)))"
    if "spoken_for adm c" "genuine adm m" "message_text m ''type'' = ascii ''enter''" "i < length (gc_users c)"
      "bu_memberId (gc_users c ! i) = message_text m ''memberId''" "k = message_text m ''connectionId''" for c m i k
  proof -
    have same: "gc_users (give_up i k c) = gc_users c" by (simp add: give_up_def split: option.split)
    have "adm k (bu_memberId (gc_users c ! i))" using genuine_enter [OF that(2,3)] that(5,6) by simp
    then show ?thesis
      using gives_up [OF that(1), of i k] that(4) bind_entries [of _ _ k i "set_user i k (give_up i k c)"]
      unfolding spoken_for_def by (fastforce simp: same set_user_member)
  qed
qed

text \<open>What a game polls is what some queue of it held, read as the message it is the text of.\<close>

definition polls_queue ::
  "('e, 'w) gateway_env \<Rightarrow> (store \<Rightarrow> bool) \<Rightarrow> ustring \<Rightarrow> ('f, 'x) game_env \<Rightarrow> bool" where
  "polls_queue env P g game \<longleftrightarrow>
     (\<forall>w ms w'. ge_poll game w = Some (Inr ms, w') \<longrightarrow>
        (\<forall>m \<in> set ms. \<exists>st v. P st \<and> v \<in> set (snd st (gw_queuePrefix env @ g)) \<and> (\<forall>msg. v = gw_encode env msg \<longrightarrow> item msg = m)))"

lemma polled_genuine:
  assumes "polls_queue env (gateway_inv env published adm) g game" "careful I (\<lambda>m. True) game"
  shows "careful I (genuine (adm g)) game"
proof -
  have "genuine (adm g) m" if polled: "ge_poll game w = Some (Inr ms, w')" "m \<in> set ms" for w ms w' m
  proof -
    obtain st v where "gateway_inv env published adm st" "v \<in> set (snd st (gw_queuePrefix env @ g))"
      and m: "\<forall>msg. v = gw_encode env msg \<longrightarrow> item msg = m"
      using assms(1) polled unfolding polls_queue_def by blast
    then obtain msg where "v = gw_encode env msg" "genuine (adm g) (item msg)" unfolding gateway_inv_def by blast
    with m show ?thesis by auto
  qed
  then have "\<forall>w ms w'. ge_poll game w = Some (Inr ms, w') \<longrightarrow> (\<forall>m \<in> set ms. genuine (adm g) m)" by blast
  then show ?thesis using assms(2) by (simp add: careful_def)
qed

lemma allowed_claims:
  assumes "createJwtRequestAuthorizer b jenv sources onError ev w = Some (Inr p, w')" "ap_effect p = Allow"
    and "je_buildContext jenv = (\<lambda>claims. return_eff (memberIdFromSubject claims))"
    and "ap_context p = Some ctx" "member_of ctx = Some m"
  obtains token claims w1 where "je_verify jenv token w = Some (Inr (JObj claims), w1)"
    "claim_text claims ''sub'' = Some m \<or> claim_text claims ''id'' = Some m"
proof -
  obtain a where a: "p = build_policy (re_methodArn ev) a"
    "au_allow a \<longrightarrow> (\<exists>r. readAuthorization ev (case sources of None \<Rightarrow> defaultAuthorizationSources | Some ss \<Rightarrow> ss) = Some r \<and>
       jwt_request_authorize jenv (parseAuthorization b r) w = Some (Inr a, w'))"
    using assms(1) unfolding createJwtRequestAuthorizer_def createRequestAuthorizer_def by (blast elim: authorized_policy)
  have allow: "au_allow a" using assms(2) a(1) by (simp add: policy_simps)
  then obtain r where "jwt_request_authorize jenv (parseAuthorization b r) w = Some (Inr a, w')" using a(2) by blast
  then obtain token where "verifyBearer jenv token w = Some (Inr a, w')"
    using allow by (cases "parseAuthorization b r") (auto simp: jwt_request_authorize_def return_eff_def)
  then obtain claims c w1 where verified: "je_verify jenv token w = Some (Inr (JObj claims), w1)" "je_buildContext jenv claims w1 = Some (Inr c, w')"
    "a = \<lparr>au_allow = True, au_context = Some c, au_principalId = member_of c\<rparr>"
    using allow by (blast elim: verified_bearer)
  have "c = memberIdFromSubject claims" "ctx = c"
    using verified(2,3) assms(3,4) a(1) by (simp_all add: return_eff_def build_policy_def)
  then have "claim_text claims ''sub'' = Some m \<or> claim_text claims ''id'' = Some m"
    using assms(5) by (auto simp: memberIdFromSubject_def member_of_def text_of_def split: option.splits)
  with verified(1) show thesis by (rule that)
qed

text \<open>
  C28: Nobody speaks for another: in a game that polls its queue, when the gateway gives the handlers the
  context the authorizer allowed a handshake with and they take the member from it, then at the end of a
  game every connection bound to a member is one whose handshake named this game and carried a token that
  verified to claims with this member's id, and the start event of the game lists the member.
\<close>
theorem nobody_speaks_for_another:
  assumes "\<forall>e. seen e \<longrightarrow> (\<exists>ev w p w'. createJwtRequestAuthorizer b jenv sources onError ev w = Some (Inr p, w') \<and>
      ap_effect p = Allow \<and> ce_authorizer e = ap_context p)"
    and "je_buildContext jenv = (\<lambda>claims. return_eff (memberIdFromSubject claims))"
    and "polls_queue env (gateway_inv env published (admitted env authorizer_member published seen)) g game"
    and "careful (spoken_for (admitted env authorizer_member published seen g)) (\<lambda>m. True) game"
    and "gs_context s = setupBaseGameContext members"
    and "runGameAllTogether bad_tick fuel game opts s = Some (result, s')" "c = gs_context s'" "(k, i) \<in> set (gc_connected c)"
  shows "i < length (gc_users c) \<and> invited env published g (bu_memberId (gc_users c ! i)) \<and>
    (\<exists>e. seen e \<and> ce_connectionId e = k \<and> readParameter e (ascii ''x-game-id'') = Some g) \<and>
    (\<exists>token w claims w1. je_verify jenv token w = Some (Inr (JObj claims), w1) \<and>
      (claim_text claims ''sub'' = Some (bu_memberId (gc_users c ! i)) \<or> claim_text claims ''id'' = Some (bu_memberId (gc_users c ! i))))"
proof -
  let ?adm = "admitted env authorizer_member published seen"
  have "spoken_for (?adm g) (gs_context s)" unfolding assms(5) by (simp add: spoken_for_def setupBaseGameContext_def)
  moreover have "keeps (spoken_for (?adm g)) (runGameAllTogether bad_tick fuel game opts)"
    by (rule voices.keeps_game [OF polled_genuine [OF assms(3,4)]])
  ultimately have "spoken_for (?adm g) c"
    using assms(6,7) by (cases result) (auto dest: tripleD)
  then have bound: "i < length (gc_users c)" "?adm g k (bu_memberId (gc_users c ! i))"
    using assms(8) unfolding spoken_for_def by auto
  then obtain e where e: "seen e" "ce_connectionId e = k" "authorizer_member e = Some (bu_memberId (gc_users c ! i))"
    "readParameter e (ascii ''x-game-id'') = Some g" and invited: "invited env published g (bu_memberId (gc_users c ! i))"
    unfolding admitted_def by blast
  obtain ctx where ctx: "ce_authorizer e = Some ctx" "member_of ctx = Some (bu_memberId (gc_users c ! i))"
    using e(3) by (auto simp: authorizer_member_def split: option.splits)
  obtain ev w p w' where allowed: "createJwtRequestAuthorizer b jenv sources onError ev w = Some (Inr p, w')" "ap_effect p = Allow"
    "ce_authorizer e = ap_context p" using assms(1) e(1) by blast
  have "ap_context p = Some ctx" using allowed(3) ctx(1) by simp
  from allowed_claims [OF allowed(1,2) assms(2) this ctx(2)] show ?thesis using bound(1) invited e by metis
qed

text \<open>A game of \<open>ann\<close> alone, whose handshake is the one above.\<close>

definition solo_env :: "(unit, party_world) game_env" where
  "solo_env =
     party_env\<lparr>ge_poll := (\<lambda>w. Some (Inr (if pw_polls w = 0 then [enter_item [120] (ascii ''ann'')] else []), w\<lparr>pw_polls := Suc (pw_polls w)\<rparr>))\<rparr>"

definition solo_start :: "party_world game_state" where
  "solo_start = party_start\<lparr>gs_context := setupBaseGameContext [\<lparr>gm_memberId = ascii ''ann'', gm_observer = False\<rparr>]\<rparr>"

definition solo_options :: game_options where
  "solo_options = party_options\<lparr>go_gameRunningSeconds := 0, go_endDropDelayMillis := 0, go_endRepeatCount := 1\<rparr>"

lemma solo_careful: "careful (spoken_for adm) (\<lambda>m. True) solo_env"
  by (simp add: careful_def solo_env_def party_env_def triple_def eff_defs)

lemma demo_served_ok:
  "gateway_inv demo_gateway demo_published (admitted demo_gateway authorizer_member demo_published (\<lambda>e. e = demo_handshake)) (demo_view demo_served)"
proof -
  let ?adm = "admitted demo_gateway authorizer_member demo_published (\<lambda>e. e = demo_handshake)"
  have start: "gateway_inv demo_gateway demo_published ?adm (demo_view (demoServer\<lparr>ds_strings := [[101, 103] \<mapsto> [1]]\<rparr>))"
    by (auto simp: gateway_inv_def demo_view_def demo_gateway_def demo_published_def demoServer_def)
  have kept: "keeps_inv (\<lambda>w. gateway_inv demo_gateway demo_published ?adm (demo_view w)) (handleConnect demo_gateway authorizer_member None demo_handshake)"
    by (rule demo.keeps_handshake) (unfold admitted_def, blast)
  from tripleD(1) [OF kept start demo_connects] show ?thesis .
qed

lemma solo_polls: "polls_queue demo_gateway
    (gateway_inv demo_gateway demo_published (admitted demo_gateway authorizer_member demo_published (\<lambda>e. e = demo_handshake))) [103] solo_env"
proof -
  have "[1] \<in> set (snd (demo_view demo_served) (gw_queuePrefix demo_gateway @ [103]))"
    "\<forall>msg. [1] = gw_encode demo_gateway msg \<longrightarrow> item msg = enter_item [120] (ascii ''ann'')"
    by (simp_all add: demo_view_def demo_gateway_def demo_served_def)
  with demo_served_ok have queued: "\<exists>st v. gateway_inv demo_gateway demo_published
      (admitted demo_gateway authorizer_member demo_published (\<lambda>e. e = demo_handshake)) st \<and>
      v \<in> set (snd st (gw_queuePrefix demo_gateway @ [103])) \<and>
      (\<forall>msg. v = gw_encode demo_gateway msg \<longrightarrow> item msg = enter_item [120] (ascii ''ann''))" by blast
  have "m = enter_item [120] (ascii ''ann'')" if "ge_poll solo_env w = Some (Inr ms, w')" "m \<in> set ms" for w ms w' m
    using that by (auto simp: solo_env_def split: if_splits)
  then show ?thesis unfolding polls_queue_def using queued by metis
qed

theorem nobody_speaks_for_another_witness:
  "\<exists>s' token w claims w1. runGameAllTogether () 9 solo_env solo_options solo_start = Some (Inr (), s') \<and>
    gc_connected (gs_context s') = [([120], 0)] \<and> bu_memberId (gc_users (gs_context s') ! 0) = ascii ''ann'' \<and>
    je_verify mark_env token w = Some (Inr (JObj claims), w1) \<and>
    (claim_text claims ''sub'' = Some (ascii ''ann'') \<or> claim_text claims ''id'' = Some (ascii ''ann''))"
proof -
  have "case runGameAllTogether () 9 solo_env solo_options solo_start of
      Some (Inr u, s') \<Rightarrow> gc_connected (gs_context s') = [([120], 0)] \<and> bu_memberId (gc_users (gs_context s') ! 0) = ascii ''ann'' | _ \<Rightarrow> False"
    by code_simp
  then obtain q s' where "runGameAllTogether () 9 solo_env solo_options solo_start = Some (q, s')" 
    "case q of Inr u \<Rightarrow> gc_connected (gs_context s') = [([120], 0)] \<and> bu_memberId (gc_users (gs_context s') ! 0) = ascii ''ann'' | _ \<Rightarrow> False"
    by (auto split: option.splits)
  then have run: "runGameAllTogether () 9 solo_env solo_options solo_start = Some (Inr (), s')"
    and ends: "gc_connected (gs_context s') = [([120], 0)]" "bu_memberId (gc_users (gs_context s') ! 0) = ascii ''ann''"
    by (simp_all split: sum.splits)
  obtain p where "createJwtRequestAuthorizer (\<lambda>t. t) mark_env None None (handshake_event (ascii ''v1, BEARER, $ann'')) 1 = Some (Inr p, 1)"
    "ap_effect p = Allow" "ap_context p = Some [(ascii ''memberId'', JStr (ascii ''ann''))]"
    using login_opens_handshake_witness by blast
  then have seen: "\<forall>e. e = demo_handshake \<longrightarrow> (\<exists>ev w p w'. createJwtRequestAuthorizer (\<lambda>t. t) mark_env None None ev w = Some (Inr p, w') \<and>
      ap_effect p = Allow \<and> ce_authorizer e = ap_context p)"
    by (metis demo_handshake_def connect_event.select_convs(4))
  have built: "je_buildContext mark_env = (\<lambda>claims. return_eff (memberIdFromSubject claims))" by (simp add: mark_env_def)
  have start: "gs_context solo_start = setupBaseGameContext [\<lparr>gm_memberId = ascii ''ann'', gm_observer = False\<rparr>]"
    by (simp add: solo_start_def)
  have bound: "([120], 0) \<in> set (gc_connected (gs_context s'))" using ends(1) by simp
  from nobody_speaks_for_another [OF seen built solo_polls solo_careful start run refl bound] run ends show ?thesis by metis
qed

end
