(* ===== verification/Gamebase_Actor.thy ===== *)
theory Gamebase_Actor
  imports Gamebase_Game Actor_Event_Loop
begin

section \<open>The lambda of a game and its transports (lambda-gamebase: actor, network)\<close>

text \<open>
  \<open>handleActor\<close> with \<open>startActorLoop\<close> around the event loop of the actor system, as steps: the answers of
  the store, the events of the loop, and the end of the game. What a transport is built from is a parameter:
  \<open>PUBLISH\<close>, the management API of the gateway, the encoding of messages.
\<close>

subsection \<open>Transports (createRedisPubSubTransport.ts, createApiGatewayTransport.ts, resolveTransport.ts)\<close>

datatype gateway_target = ToConnection ustring | ToConnections "ustring list"

datatype GatewayCommand = SendCommand gateway_target json "bool option" | DropCommand ustring

text \<open>\<open>JSON.stringify\<close> and \<open>encodeMessage\<close> may throw, which is \<open>None\<close>.\<close>

record ('e, 'w) RedisPubSubTransportOptions =
  ps_publish :: "ustring \<Rightarrow> ustring \<Rightarrow> ('e, nat, 'w) eff"
  ps_stringify :: "GatewayCommand \<Rightarrow> ustring option"
  ps_encodeMessage :: "json \<Rightarrow> (json \<times> bool option) option"
  ps_channelPrefix :: ustring
  ps_gameId :: ustring

definition publish_command :: "('e, 'w) RedisPubSubTransportOptions \<Rightarrow> GatewayCommand \<Rightarrow> ('e, bool, 'w) eff" where
  "publish_command c command =
     (case ps_stringify c command of
        None \<Rightarrow> return_eff False
      | Some serialized \<Rightarrow>
          catch_eff
            (bind_eff (ps_publish c (ps_channelPrefix c @ ps_gameId c) serialized) (\<lambda>receivers. return_eff (0 < receivers)))
            (\<lambda>e. return_eff False))"

definition pubsub_send :: "('e, 'w) RedisPubSubTransportOptions \<Rightarrow> gateway_target \<Rightarrow> json \<Rightarrow> ('e, bool, 'w) eff" where
  "pubsub_send c target message =
     (case ps_encodeMessage c message of
        None \<Rightarrow> return_eff False
      | Some (encoded, binary) \<Rightarrow> catch_eff (publish_command c (SendCommand target encoded binary)) (\<lambda>e. return_eff False))"

definition createRedisPubSubTransport :: "('e, 'w) RedisPubSubTransportOptions \<Rightarrow> ('e, 'w) Transport" where
  "createRedisPubSubTransport c =
     \<lparr>tr_send = (\<lambda>connectionId. pubsub_send c (ToConnection connectionId)),
      tr_sendMany = Some (\<lambda>connectionIds. pubsub_send c (ToConnections connectionIds)),
      tr_drop = (\<lambda>connectionId. publish_command c (DropCommand connectionId))\<rparr>"

text \<open>The client of the management API, or none: then a call rejects with \<open>ag_missing\<close>.\<close>

record ('e, 'w) management_client =
  mc_post :: "ustring \<Rightarrow> json \<Rightarrow> ('e, unit, 'w) eff"
  mc_delete :: "ustring \<Rightarrow> ('e, unit, 'w) eff"

record ('e, 'w) ApiGatewayTransportOptions =
  ag_client :: "('e, 'w) management_client option"
  ag_missing :: 'e
  ag_isGoneException :: "'e \<Rightarrow> bool"

definition createApiGatewayTransport :: "('e, 'w) ApiGatewayTransportOptions \<Rightarrow> ('e, 'w) Transport" where
  "createApiGatewayTransport c =
     \<lparr>tr_send = (\<lambda>connectionId message.
        case ag_client c of
          None \<Rightarrow> throw_eff (ag_missing c)
        | Some client \<Rightarrow>
            catch_eff (then_eff (mc_post client connectionId message) (return_eff True)) (\<lambda>e. return_eff False)),
      tr_sendMany = None,
      tr_drop = (\<lambda>connectionId.
        case ag_client c of
          None \<Rightarrow> throw_eff (ag_missing c)
        | Some client \<Rightarrow>
            catch_eff (then_eff (mc_delete client connectionId) (return_eff True)) (\<lambda>e. return_eff (ag_isGoneException c e)))\<rparr>"

definition resolveTransport :: "('e, 'w) Transport option \<Rightarrow> ('e, 'w) ApiGatewayTransportOptions \<Rightarrow> ('e, 'w) network" where
  "resolveTransport transport c =
     (case transport of
        Some t \<Rightarrow> Inr t
      | None \<Rightarrow> if ag_client c = None then Inl (ag_missing c) else Inr (createApiGatewayTransport c))"

text \<open>Whatever a broadcast reaches, it does not reject: a delivery that fails is one that is reported.\<close>

definition never_throws :: "('e, 'a, 'w) eff \<Rightarrow> bool" where
  "never_throws m \<longleftrightarrow> (\<forall>w e w'. m w \<noteq> Some (Inl e, w'))"

lemma never_throws_intro:
  "never_throws (return_eff a)"
  "(\<And>e. never_throws (h e)) \<Longrightarrow> never_throws (catch_eff m h)"
  "never_throws m \<Longrightarrow> (\<And>a. never_throws (k a)) \<Longrightarrow> never_throws (bind_eff m k)"
proof -
  show "never_throws (return_eff a)" by (simp add: never_throws_def return_eff_def)
  show "never_throws (catch_eff m h)" if "\<And>e. never_throws (h e)"
    using that by (auto simp: never_throws_def catch_eff_def split: option.splits sum.splits)
  show "never_throws (bind_eff m k)" if "never_throws m" "\<And>a. never_throws (k a)"
    using that by (auto simp: never_throws_def elim!: bind_eff_SomeE)
qed

definition quiet_transport :: "('e, 'w) Transport \<Rightarrow> bool" where
  "quiet_transport t \<longleftrightarrow>
     (\<forall>c m. never_throws (tr_send t c m)) \<and> (\<forall>c. never_throws (tr_drop t c)) \<and>
     (\<forall>f cs m. tr_sendMany t = Some f \<longrightarrow> never_throws (f cs m))"

lemma pubsub_quiet: "quiet_transport (createRedisPubSubTransport c)"
  by (auto simp: quiet_transport_def createRedisPubSubTransport_def pubsub_send_def publish_command_def
      intro!: never_throws_intro split: option.split)

lemma api_gateway_quiet: "ag_client c \<noteq> None \<Longrightarrow> quiet_transport (createApiGatewayTransport c)"
  by (auto simp: quiet_transport_def createApiGatewayTransport_def intro!: never_throws_intro)

lemma resolved_quiet:
  assumes "resolveTransport transport c = Inr t" "\<And>t. transport = Some t \<Longrightarrow> quiet_transport t"
  shows "quiet_transport t"
  using assms by (auto simp: resolveTransport_def api_gateway_quiet split: option.splits if_splits)

lemma promise_all_quiet: "(\<And>m. m \<in> set ms \<Longrightarrow> never_throws m) \<Longrightarrow> never_throws (promise_all ms)"
proof (induction ms)
  case (Cons m ms)
  then have "never_throws m" "never_throws (promise_all ms)" by simp_all
  then show ?case by (auto simp: never_throws_def split: option.splits sum.splits)
qed (simp add: never_throws_def)

theorem broadcast_never_rejects:
  assumes "quiet_transport t"
  shows "never_throws (broadcast (Inr t) connectionIds message)"
proof -
  have "never_throws (reply (Inr t) c message)" for c
    using assms by (auto simp: reply_def quiet_transport_def intro: never_throws_intro)
  then show ?thesis
    using assms by (auto simp: broadcast_def Let_def quiet_transport_def intro!: never_throws_intro promise_all_quiet split: option.split)
qed

subsection \<open>The lambda of the actor (handleActor.ts, startActorLoop.ts)\<close>

text \<open>
  \<open>ha_connection\<close>: a connection was passed or the context gives one; the other flags: what was passed
  instead of a default. \<open>ha_lockRenews\<close>: the lock of the subsystem has \<open>renew\<close>, as the default one has.
\<close>

record HandleActorOptions =
  ha_gameId :: ustring
  ha_callbackUrl :: "ustring option"
  ha_lifetimeSeconds :: int
  ha_lockTimeoutSeconds :: int
  ha_queueTtlSeconds :: "int option"
  ha_connection :: bool
  ha_subsystem :: bool
  ha_lockRenews :: bool
  ha_saveStartEvent :: bool
  ha_deleteStartEvent :: bool

definition aliveSeconds :: "HandleActorOptions \<Rightarrow> int" where
  "aliveSeconds o1 = ha_lifetimeSeconds o1 + 10"

text \<open>Every default that needs a connection is resolved before anything is written.\<close>

definition needs_connection :: "HandleActorOptions \<Rightarrow> bool" where
  "needs_connection o1 \<longleftrightarrow> \<not> (ha_subsystem o1 \<and> ha_saveStartEvent o1 \<and> ha_deleteStartEvent o1)"

definition actor_misconfigured :: "HandleActorOptions \<Rightarrow> bool" where
  "actor_misconfigured o1 \<longleftrightarrow>
     needs_connection o1 \<and> \<not> ha_connection o1 \<or>
     \<not> ha_subsystem o1 \<and> (case ha_queueTtlSeconds o1 of None \<Rightarrow> aliveSeconds o1 | Some n \<Rightarrow> n) < 1"

definition actor_loop_options :: "HandleActorOptions \<Rightarrow> EventLoopOptions" where
  "actor_loop_options o1 =
     \<lparr>lock_has_renew = (\<not> ha_subsystem o1 \<or> ha_lockRenews o1),
      lockRenewIntervalMillis = Some (max 1000 (ha_lockTimeoutSeconds o1 * 1000 div 3)),
      has_onAcquired = (ha_callbackUrl o1 \<noteq> None)\<rparr>"

text \<open>
  The calls in order: \<open>SaveStart\<close> and \<open>ClearStart\<close> are those of the start event, \<open>InLoop\<close> those of the
  event loop, where \<open>LOnAcquired\<close> is \<open>readyCall\<close> and \<open>LLoop\<close> starts \<open>gameMain\<close>.
\<close>

datatype actor_call = SaveStart | InLoop el_call | ClearStart

datatype game_phase = NotPlayed | Playing | ClearingStart | Played

record actor_state =
  ac_loop :: "el_state option"
  ac_game :: game_phase
  ac_result :: "(string + unit) option"
  ac_calls :: "actor_call list"

datatype actor_event = StartSaved "string option" | LoopEvent el_event | GameEnded "string option" | StartCleared "string option"

definition handleActor :: "HandleActorOptions \<Rightarrow> actor_state" where
  "handleActor o1 =
     (if ha_gameId o1 = [] then \<lparr>ac_loop = None, ac_game = NotPlayed, ac_result = Some (Inr ()), ac_calls = []\<rparr>
      else if actor_misconfigured o1 then \<lparr>ac_loop = None, ac_game = NotPlayed, ac_result = Some (Inl ''misconfigured''), ac_calls = []\<rparr>
      else \<lparr>ac_loop = None, ac_game = NotPlayed, ac_result = None, ac_calls = [SaveStart]\<rparr>)"

text \<open>The loop goes one step; the invocation ends with it, and the game begins when it calls it.\<close>

definition set_loop :: "el_state \<Rightarrow> el_state \<Rightarrow> actor_state \<Rightarrow> actor_state" where
  "set_loop el el' s =
     (let made = drop (length (el_calls el)) (el_calls el') in
      s\<lparr>ac_loop := Some el', ac_calls := ac_calls s @ map InLoop made,
        ac_game := (if LLoop \<in> set made then Playing else ac_game s),
        ac_result := (case el_phase el' of
            Finished (Inl e) \<Rightarrow> Some (Inl e)
          | Finished (Inr _) \<Rightarrow> Some (Inr ())
          | _ \<Rightarrow> ac_result s)\<rparr>)"

fun actor_step :: "HandleActorOptions \<Rightarrow> actor_event \<Rightarrow> actor_state \<Rightarrow> actor_state" where
  "actor_step o1 (StartSaved err) s =
     (if ac_result s \<noteq> None \<or> ac_loop s \<noteq> None then s
      else case err of
        Some e \<Rightarrow> s\<lparr>ac_result := Some (Inl e)\<rparr>
      | None \<Rightarrow> s\<lparr>ac_loop := Some el_start, ac_calls := ac_calls s @ map InLoop (el_calls el_start)\<rparr>)"
| "actor_step o1 (LoopEvent ev) s =
     (case ac_loop s of
        None \<Rightarrow> s
      | Some el \<Rightarrow> (case ev of EvLoopEnded _ \<Rightarrow> s | _ \<Rightarrow> set_loop el (eventLoop (actor_loop_options o1) ev el) s))"
| "actor_step o1 (GameEnded err) s =
     (if ac_game s \<noteq> Playing then s else s\<lparr>ac_game := ClearingStart, ac_calls := ac_calls s @ [ClearStart]\<rparr>)"
| "actor_step o1 (StartCleared err) s =
     (case ac_loop s of
        None \<Rightarrow> s
      | Some el \<Rightarrow>
          if ac_game s \<noteq> ClearingStart then s
          else set_loop el (eventLoop (actor_loop_options o1) (EvLoopEnded None) el) (s\<lparr>ac_game := Played\<rparr>))"

definition actor_run :: "HandleActorOptions \<Rightarrow> actor_event list \<Rightarrow> actor_state" where
  "actor_run o1 evs = fold (actor_step o1) evs (handleActor o1)"

text \<open>The calls that mark the course of the invocation; heartbeats and polls go on beside them.\<close>

definition milestones :: "actor_call list \<Rightarrow> actor_call list" where
  "milestones = filter (\<lambda>x. x \<in> {SaveStart, ClearStart} \<union> InLoop ` {LAcquire, LOnAcquired, LLoop, LRelease})"

definition actor_opening :: "HandleActorOptions \<Rightarrow> actor_call list" where
  "actor_opening o1 = [SaveStart, InLoop LAcquire] @ (if ha_callbackUrl o1 = None then [] else [InLoop LOnAcquired])"

text \<open>The calls made, the state of the loop and of the game, in step.\<close>

fun course :: "HandleActorOptions \<Rightarrow> el_phase \<Rightarrow> game_phase \<Rightarrow> actor_call list \<Rightarrow> bool" where
  "course o1 Acquiring g t = (g = NotPlayed \<and> t = [SaveStart, InLoop LAcquire])"
| "course o1 Preparing g t = (g = NotPlayed \<and> ha_callbackUrl o1 \<noteq> None \<and> t = actor_opening o1)"
| "course o1 Running g t =
     (g = Playing \<and> t = actor_opening o1 @ [InLoop LLoop] \<or> g = ClearingStart \<and> t = actor_opening o1 @ [InLoop LLoop, ClearStart])"
| "course o1 (Releasing out) g t =
     (g = NotPlayed \<and> ha_callbackUrl o1 \<noteq> None \<and> out \<noteq> None \<and> t = actor_opening o1 @ [InLoop LRelease] \<or>
      g = Played \<and> out = None \<and> t = actor_opening o1 @ [InLoop LLoop, ClearStart, InLoop LRelease])"
| "course o1 (ReleasingAgain out) g t =
     (g = NotPlayed \<and> ha_callbackUrl o1 \<noteq> None \<and> out \<noteq> None \<and> t = actor_opening o1 @ [InLoop LRelease, InLoop LRelease] \<or>
      g = Played \<and> out = None \<and> t = actor_opening o1 @ [InLoop LLoop, ClearStart, InLoop LRelease, InLoop LRelease])"
| "course o1 (Finished r) g t =
     (g = NotPlayed \<and> r \<noteq> Inr True \<and> t = [SaveStart, InLoop LAcquire] \<or>
      (\<exists>rs. rs \<in> {[InLoop LRelease], [InLoop LRelease, InLoop LRelease]} \<and>
        (g = NotPlayed \<and> ha_callbackUrl o1 \<noteq> None \<and> (\<exists>e. r = Inl e) \<and> t = actor_opening o1 @ rs \<or>
         g = Played \<and> r = Inr True \<and> t = actor_opening o1 @ [InLoop LLoop, ClearStart] @ rs)))"

definition actor_ok :: "HandleActorOptions \<Rightarrow> actor_state \<Rightarrow> bool" where
  "actor_ok o1 s \<longleftrightarrow>
     (case ac_loop s of
        None \<Rightarrow> ac_game s = NotPlayed \<and> milestones (ac_calls s) = ac_calls s \<and>
          (ac_result s = None \<longrightarrow> ac_calls s = [SaveStart]) \<and> ac_calls s \<in> {[], [SaveStart]}
      | Some el \<Rightarrow>
          course o1 (el_phase el) (ac_game s) (milestones (ac_calls s)) \<and>
          (LLoop \<in> set (el_calls el) \<longrightarrow> ac_game s \<noteq> NotPlayed) \<and>
          ac_result s = (case el_phase el of Finished (Inl e) \<Rightarrow> Some (Inl e) | Finished (Inr _) \<Rightarrow> Some (Inr ()) | _ \<Rightarrow> None))"

lemma milestones_simps [simp]:
  "milestones [] = []" "milestones (xs @ ys) = milestones xs @ milestones ys"
  "milestones (x # xs) = (if x \<in> {SaveStart, ClearStart} \<union> InLoop ` {LAcquire, LOnAcquired, LLoop, LRelease} then x # milestones xs else milestones xs)"
  by (simp_all add: milestones_def)

text \<open>What a step of the loop adds to its calls, and where it goes.\<close>

lemma heart_parts:
  "el_phase (heart r s) = el_phase s" "el_calls (heart r s) = el_calls s @ snd r"
  by (simp_all add: heart_def)

lemma beats_make:
  "set (snd (hb_tick h)) \<subseteq> {LRenew}" "set (snd (beat_renewed a h)) \<subseteq> {LReacquire}" "set (snd (beat_reacquired a h)) \<subseteq> {LOnLockLost}"
  by (auto simp: hb_tick_def beat_renewed_def beat_reacquired_def split: answer.split)

lemma quiet_milestones: "set xs \<inter> {LAcquire, LOnAcquired, LLoop, LRelease} = {} \<Longrightarrow> milestones (map InLoop xs) = []"
  by (induction xs) auto

lemma set_loop_ok:
  assumes "el_calls el' = el_calls el @ made" "s' = set_loop el el' s"
  shows "ac_loop s' = Some el'" "ac_calls s' = ac_calls s @ map InLoop made"
    "ac_game s' = (if LLoop \<in> set made then Playing else ac_game s)"
    "ac_result s' = (case el_phase el' of Finished (Inl e) \<Rightarrow> Some (Inl e) | Finished (Inr _) \<Rightarrow> Some (Inr ()) | _ \<Rightarrow> ac_result s)"
  using assms by (simp_all add: set_loop_def Let_def)

text \<open>A step of the loop that is only a heartbeat, a poll or nothing.\<close>

lemma beside_ok:
  assumes "actor_ok o1 s" "ac_loop s = Some el" "el_phase el' = el_phase el" "el_calls el' = el_calls el @ made"
    and "set made \<inter> {LAcquire, LOnAcquired, LLoop, LRelease} = {}"
  shows "actor_ok o1 (set_loop el el' s)"
proof -
  note parts = set_loop_ok [OF assms(4) refl, of s]
  have "LLoop \<notin> set made" using assms(5) by auto
  then show ?thesis
    using assms(1-3) quiet_milestones [OF assms(5)]
    by (auto simp: actor_ok_def parts assms(4) split: el_phase.splits sum.splits)
qed

lemma moved_ok:
  assumes "LLoop \<in> set (el_calls el) \<longrightarrow> ac_game s \<noteq> NotPlayed" "ac_result s = None" "el_calls el' = el_calls el @ made"
    and "course o1 (el_phase el') (if LLoop \<in> set made then Playing else ac_game s) (milestones (ac_calls s) @ milestones (map InLoop made))"
  shows "actor_ok o1 (set_loop el el' s)"
proof -
  note parts = set_loop_ok [OF assms(3) refl, of s]
  show ?thesis
    unfolding actor_ok_def parts option.case using assms by (auto split: el_phase.split sum.split)
qed

lemma actor_okD:
  assumes "actor_ok o1 s" "ac_loop s = Some el"
  shows "course o1 (el_phase el) (ac_game s) (milestones (ac_calls s))" "LLoop \<in> set (el_calls el) \<longrightarrow> ac_game s \<noteq> NotPlayed"
    "\<not> (\<exists>r. el_phase el = Finished r) \<longrightarrow> ac_result s = None"
  using assms by (auto simp: actor_ok_def split: el_phase.splits)

lemma loop_step_ok:
  assumes ok: "actor_ok o1 s" and el: "ac_loop s = Some el" and ev: "\<forall>err. ev \<noteq> EvLoopEnded err"
  shows "actor_ok o1 (set_loop el (eventLoop (actor_loop_options o1) ev el) s)"
proof -
  note at = actor_okD [OF ok el]
  have on: "has_onAcquired (actor_loop_options o1) = (ha_callbackUrl o1 \<noteq> None)" by (simp add: actor_loop_options_def)
  have still: "actor_ok o1 (set_loop el el s)" by (rule beside_ok [OF ok el, of el "[]"]) simp_all
  show ?thesis
  proof (cases ev)
    case (EvAcquired r)
    show ?thesis
    proof (cases "el_phase el = Acquiring")
      case True
      then have "ac_game s = NotPlayed" "milestones (ac_calls s) = [SaveStart, InLoop LAcquire]" "ac_result s = None" using at by auto
      then show ?thesis
        unfolding EvAcquired
        by (intro moved_ok [OF at(2), where made = "case r of Inr True \<Rightarrow> [if ha_callbackUrl o1 \<noteq> None then LOnAcquired else LLoop] | _ \<Rightarrow> []"])
          (auto simp: True on run_loop_def actor_opening_def Let_def split: sum.split bool.split)
    qed (simp add: EvAcquired still)
  next
    case (EvPrepared err)
    show ?thesis
    proof (cases "el_phase el = Preparing")
      case True
      then have "ac_game s = NotPlayed" "ha_callbackUrl o1 \<noteq> None" "milestones (ac_calls s) = actor_opening o1" "ac_result s = None" using at by auto
      then show ?thesis
        unfolding EvPrepared
        by (intro moved_ok [OF at(2), where made = "case err of None \<Rightarrow> [LLoop] | Some e \<Rightarrow> [LRelease]"])
          (auto simp: True run_loop_def finish_def split: option.split)
    qed (simp add: EvPrepared still)
  next
    case EvPoll
    then show ?thesis
      using still by (auto simp: poll_def intro!: beside_ok [OF ok el, where made = "[if lockLost el then LPollRefused else LFlush]"])
  next
    case (EvReleased done1)
    show ?thesis
    proof (cases "el_phase el")
      case (Releasing out)
      then have "ac_result s = None" using at by auto
      then show ?thesis
        unfolding EvReleased using at(1)
        by (intro moved_ok [OF at(2), where made = "if done1 then [] else [LRelease]"]; cases done1; cases out)
          (simp_all add: Releasing outcome_def)
    next
      case (ReleasingAgain out)
      then have "ac_result s = None" using at by auto
      then show ?thesis
        unfolding EvReleased using at(1)
        by (intro moved_ok [OF at(2), where made = "[]"]; cases out) (simp_all add: ReleasingAgain outcome_def)
    qed (simp_all add: EvReleased still)
  next
    case EvTick
    then show ?thesis using beats_make(1) by (auto simp: heart_parts intro!: beside_ok [OF ok el, where made = "snd (hb_tick (el_hb el))"])
  next
    case (EvRenewed a)
    then show ?thesis using beats_make(2) by (auto simp: heart_parts intro!: beside_ok [OF ok el, where made = "snd (beat_renewed a (el_hb el))"])
  next
    case (EvReacquired a)
    then show ?thesis using beats_make(3) by (auto simp: heart_parts intro!: beside_ok [OF ok el, where made = "snd (beat_reacquired a (el_hb el))"])
  qed (use ev in simp)
qed

lemma actor_step_ok: "actor_ok o1 s \<Longrightarrow> actor_ok o1 (actor_step o1 ev s)"
proof (cases ev)
  case (LoopEvent e)
  assume "actor_ok o1 s"
  then show ?thesis using LoopEvent loop_step_ok [of o1 s _ e] by (auto split: option.split el_event.split)
next
  case (StartSaved err)
  assume "actor_ok o1 s"
  then show ?thesis using StartSaved by (auto simp: actor_ok_def el_start_def split: option.splits)
next
  case (GameEnded err)
  assume "actor_ok o1 s"
  then show ?thesis using GameEnded by (auto simp: actor_ok_def split: option.splits el_phase.splits sum.splits)
next
  case (StartCleared err)
  assume ok: "actor_ok o1 s"
  show ?thesis
  proof (cases "ac_loop s")
    case (Some el)
    note at = actor_okD [OF ok Some]
    show ?thesis
    proof (cases "ac_game s = ClearingStart")
      case True
      then have running: "el_phase el = Running" "milestones (ac_calls s) = actor_opening o1 @ [InLoop LLoop, ClearStart]" "ac_result s = None"
        using at by (cases "el_phase el"; auto)+
      then have "actor_ok o1 (set_loop el (finish None el) (s\<lparr>ac_game := Played\<rparr>))"
        by (intro moved_ok [where made = "[LRelease]"]) (auto simp: finish_def)
      then show ?thesis using StartCleared Some True running(1) by simp
    qed (use StartCleared Some ok in simp)
  qed (use StartCleared ok in simp)
qed

lemma actor_run_ok: "actor_ok o1 (actor_run o1 evs)"
proof -
  have "actor_ok o1 s \<Longrightarrow> actor_ok o1 (fold (actor_step o1) evs s)" for s
    by (induction evs arbitrary: s) (simp_all add: actor_step_ok)
  moreover have "actor_ok o1 (handleActor o1)" by (simp add: handleActor_def actor_ok_def)
  ultimately show ?thesis by (simp add: actor_run_def)
qed

text \<open>
  C30: Only the owner of a game announces, plays and clears it: an invocation saves the start event, takes
  the lock, tells the lobby, plays, clears the start event and releases the lock, in this order and each at
  most once but a release that is tried again, with what comes after a failure left out; a duplicate, which
  does not get the lock, does nothing after that and succeeds; and an invocation that played never fails,
  whatever the game, the store and the lock do.
\<close>
theorem only_the_owner_plays:
  assumes "s = actor_run o1 evs"
  shows "(prefix (milestones (ac_calls s)) (actor_opening o1 @ [InLoop LLoop, ClearStart, InLoop LRelease, InLoop LRelease]) \<or>
      prefix (milestones (ac_calls s)) (actor_opening o1 @ [InLoop LRelease, InLoop LRelease])) \<and>
    (\<forall>el. ac_loop s = Some el \<longrightarrow> el_phase el = Finished (Inr False) \<longrightarrow>
      milestones (ac_calls s) = [SaveStart, InLoop LAcquire] \<and> ac_result s = Some (Inr ())) \<and>
    (InLoop LLoop \<in> set (ac_calls s) \<longrightarrow> (\<forall>e. ac_result s \<noteq> Some (Inl e)))"
proof -
  have ok: "actor_ok o1 s" unfolding assms by (rule actor_run_ok)
  have seen: "InLoop LLoop \<in> set (ac_calls s) \<longleftrightarrow> InLoop LLoop \<in> set (milestones (ac_calls s))" by (auto simp: milestones_def)
  show ?thesis
  proof (cases "ac_loop s")
    case None
    then have "ac_calls s \<in> {[], [SaveStart]}" "milestones (ac_calls s) = ac_calls s" using ok by (simp_all add: actor_ok_def)
    then show ?thesis using None by (auto simp: actor_opening_def)
  next
    case (Some el)
    have result: "ac_result s = (case el_phase el of Finished (Inl e) \<Rightarrow> Some (Inl e) | Finished (Inr _) \<Rightarrow> Some (Inr ()) | _ \<Rightarrow> None)"
      using ok Some by (simp add: actor_ok_def)
    from actor_okD(1) [OF ok Some] show ?thesis
      unfolding seen result using Some by (cases "el_phase el") (auto simp: actor_opening_def split: sum.split)
  qed
qed

definition demo_actor :: HandleActorOptions where
  "demo_actor =
     \<lparr>ha_gameId = [103], ha_callbackUrl = Some [117], ha_lifetimeSeconds = 60, ha_lockTimeoutSeconds = 30, ha_queueTtlSeconds = None,
      ha_connection = True, ha_subsystem = False, ha_lockRenews = False, ha_saveStartEvent = False, ha_deleteStartEvent = False\<rparr>"

definition demo_actor_events :: "actor_event list" where
  "demo_actor_events =
     [StartSaved None, LoopEvent (EvAcquired (Inr True)), LoopEvent EvTick, LoopEvent (EvPrepared None), LoopEvent EvPoll,
      LoopEvent (EvRenewed No), GameEnded (Some ''bug''), StartCleared (Some ''store''), LoopEvent (EvReleased False), LoopEvent (EvReleased False)]"

theorem only_the_owner_plays_witness:
  "milestones (ac_calls (actor_run demo_actor demo_actor_events)) =
     [SaveStart, InLoop LAcquire, InLoop LOnAcquired, InLoop LLoop, ClearStart, InLoop LRelease, InLoop LRelease] \<and>
   (ac_result (actor_run demo_actor demo_actor_events) \<noteq> Some (Inl ''bug'')) \<and>
   ac_result (actor_run demo_actor [StartSaved None, LoopEvent (EvAcquired (Inr False))]) = Some (Inr ())"
proof -
  have calls: "milestones (ac_calls (actor_run demo_actor demo_actor_events)) =
      [SaveStart, InLoop LAcquire, InLoop LOnAcquired, InLoop LLoop, ClearStart, InLoop LRelease, InLoop LRelease]"
    "InLoop LLoop \<in> set (ac_calls (actor_run demo_actor demo_actor_events))" by code_simp+
  have "case ac_loop (actor_run demo_actor [StartSaved None, LoopEvent (EvAcquired (Inr False))]) of
      Some el \<Rightarrow> el_phase el = Finished (Inr False) | None \<Rightarrow> False" by code_simp
  then show ?thesis
    using only_the_owner_plays [OF refl, of demo_actor "[StartSaved None, LoopEvent (EvAcquired (Inr False))]"]
      only_the_owner_plays [OF refl, of demo_actor demo_actor_events] calls
    by (auto split: option.splits)
qed

end
