(* ===== verification/Game_Session.thy ===== *)
theory Game_Session
  imports Complex_Main Game_Kit
begin

section \<open>The session of a player (game-kit: session.ts)\<close>

text \<open>
  Signing in, restoring and ending a session, as steps: the calls of the game, the answers of the storage,
  of the service of the time and of the login page, the timers, and what the runtime reports. Steps lie
  between awaits. Reading a token, the page and its redirect are parameters; the storage and the service
  answer anything. Times are real numbers of milliseconds. Log lines are left out.
\<close>

subsection \<open>State\<close>

record SessionIdentity =
  si_token :: ustring
  si_userId :: ustring
  si_expiresAt :: int

datatype storage_action = StoreToken ustring | ClearToken

text \<open>
  \<open>sc_claims\<close> is \<open>readTokenClaims\<close>; \<open>sc_redirect\<close> is \<open>parseRedirect\<close> with the nonce of a call of
  \<open>signIn\<close>, an error or a token.
\<close>

record session_config =
  sc_storage :: bool
  sc_state :: bool
  sc_login :: bool
  sc_timeoutMs :: real
  sc_claims :: "ustring \<Rightarrow> SessionIdentity option"
  sc_redirect :: "nat \<Rightarrow> ustring \<Rightarrow> thrown + ustring"

datatype session_wait = AwaitStored | AwaitTime | AwaitLoad | AwaitTail | AwaitReturn real

text \<open>A call that waits: of \<open>fromToken\<close> the identity and the generation it took, of \<open>restore\<close> the generation.\<close>

record session_task =
  ta_wait :: session_wait
  ta_generation :: nat
  ta_identity :: "SessionIdentity option"
  ta_signIn :: bool

datatype session_result = Identity SessionIdentity | NoIdentity | Ended

text \<open>
  \<open>ss_anchor\<close>: \<open>epochMs\<close> and \<open>monotonic\<close>. The timers have the generation they were armed in and their due
  time. \<open>ss_lane\<close> is the chain of \<open>storageTail\<close>, the head under way, each with the call that awaits it;
  \<open>ss_performed\<close> what went before. A time request has the generation and the time of its start, and the
  call of \<open>fromToken\<close> that awaits it.
\<close>

record session_state =
  ss_identity :: "SessionIdentity option"
  ss_generation :: nat
  ss_foreground :: bool
  ss_disposed :: bool
  ss_now :: real
  ss_anchor :: "(real \<times> real) option"
  ss_expiring :: "(nat \<times> real) option"
  ss_expired :: "(nat \<times> real) option"
  ss_login :: "nat option"
  ss_syncPending :: "nat option"
  ss_lane :: "(storage_action \<times> nat option) list"
  ss_performed :: "storage_action list"
  ss_requests :: "nat \<Rightarrow> (nat \<times> real \<times> nat option) option"
  ss_tasks :: "nat \<Rightarrow> session_task option"
  ss_next :: nat
  ss_results :: "(nat \<times> (thrown + session_result)) list"
  ss_events :: "(nat \<times> string) list"

definition createSession :: "real \<Rightarrow> session_state" where
  "createSession now =
     \<lparr>ss_identity = None, ss_generation = 0, ss_foreground = True, ss_disposed = False, ss_now = now, ss_anchor = None,
      ss_expiring = None, ss_expired = None, ss_login = None, ss_syncPending = None, ss_lane = [], ss_performed = [],
      ss_requests = (\<lambda>_. None), ss_tasks = (\<lambda>_. None), ss_next = 0, ss_results = [], ss_events = []\<rparr>"

subsection \<open>The clock and the end of a session\<close>

definition session_error :: "KitErrorCode \<Rightarrow> thrown" where
  "session_error code = KitError ''session'' code"

definition session_now :: "session_state \<Rightarrow> thrown + real" where
  "session_now s =
     (if ss_identity s = None \<or> ss_disposed s then Inl (session_error SignedOut)
      else case ss_anchor s of
        None \<Rightarrow> Inl (session_error Unavailable)
      | Some (epochMs, monotonic) \<Rightarrow> Inr (epochMs + ss_now s - monotonic))"

definition storageAction :: "storage_action \<Rightarrow> nat option \<Rightarrow> session_state \<Rightarrow> session_state" where
  "storageAction a awaiting s = s\<lparr>ss_lane := ss_lane s @ [(a, awaiting)]\<rparr>"

definition clearTimers :: "session_state \<Rightarrow> session_state" where
  "clearTimers s = s\<lparr>ss_expiring := None, ss_expired := None\<rparr>"

text \<open>\<open>runtime.stop\<close> with the handler of the session; \<open>awaiting\<close>: the call that awaits \<open>storageTail\<close> then.\<close>

definition session_stop :: "session_config \<Rightarrow> nat option \<Rightarrow> session_state \<Rightarrow> session_state" where
  "session_stop cfg awaiting s =
     (let s1 = (clearTimers s)\<lparr>ss_generation := Suc (ss_generation s), ss_identity := None, ss_login := None, ss_anchor := None,
            ss_events := ss_events s @ [(Suc (ss_generation s), ''signedOut'')]\<rparr> in
      if sc_storage cfg then storageAction ClearToken awaiting s1 else s1)"

definition arm :: "session_config \<Rightarrow> session_state \<Rightarrow> session_state" where
  "arm cfg s =
     (case (ss_identity s, session_now s) of
        (Some identity, Inr now) \<Rightarrow>
          (let remaining = of_int (si_expiresAt identity) * 1000 - now in
           if remaining \<le> 0 then session_stop cfg None (clearTimers s)
           else s\<lparr>ss_expiring := Some (ss_generation s, ss_now s + max 0 (remaining - 600000)),
             ss_expired := Some (ss_generation s, ss_now s + remaining)\<rparr>)
      | _ \<Rightarrow> clearTimers s)"

subsection \<open>Settling a call\<close>

text \<open>The result of a call, with what \<open>signIn\<close> does at its end: errors are mapped, its flow is given up.\<close>

definition settle_call :: "nat \<Rightarrow> thrown + session_result \<Rightarrow> session_state \<Rightarrow> session_state" where
  "settle_call c r s =
     (case ss_tasks s c of
        None \<Rightarrow> s
      | Some t \<Rightarrow>
          (let r' = (case r of Inl e \<Rightarrow> Inl (if ta_signIn t then mapError ''session'' e else e) | Inr x \<Rightarrow> Inr x) in
           s\<lparr>ss_tasks := (ss_tasks s)(c := None), ss_results := ss_results s @ [(c, r')],
             ss_login := (if ta_signIn t \<and> ss_login s = Some c then None else ss_login s)\<rparr>))"

definition set_task :: "nat \<Rightarrow> (session_task \<Rightarrow> session_task) \<Rightarrow> session_state \<Rightarrow> session_state" where
  "set_task c f s = s\<lparr>ss_tasks := (ss_tasks s)(c := map_option f (ss_tasks s c))\<rparr>"

definition finish_fromToken :: "nat \<Rightarrow> session_state \<Rightarrow> session_state" where
  "finish_fromToken c s =
     (case ss_tasks s c of
        None \<Rightarrow> s
      | Some t \<Rightarrow>
          (case ta_identity t of
             None \<Rightarrow> s
           | Some identity \<Rightarrow>
               settle_call c
                 (if ss_generation s \<noteq> ta_generation t \<or> ss_identity s = None then Inl (session_error SignedOut)
                  else Inr (Identity identity)) s))"

subsection \<open>Synchronizing the clock\<close>

text \<open>\<open>sync\<close>: without a service it does nothing; otherwise it asks for the time.\<close>

definition sync :: "session_config \<Rightarrow> nat option \<Rightarrow> session_state \<Rightarrow> session_state" where
  "sync cfg awaiting s =
     (if \<not> sc_state cfg then (case awaiting of None \<Rightarrow> s | Some c \<Rightarrow> finish_fromToken c s)
      else
        (let s1 = s\<lparr>ss_requests := (ss_requests s)(ss_next s \<mapsto> (ss_generation s, ss_now s, awaiting)), ss_next := Suc (ss_next s)\<rparr> in
         case awaiting of
           None \<Rightarrow> s1\<lparr>ss_syncPending := Some (ss_next s)\<rparr>
         | Some c \<Rightarrow> set_task c (\<lambda>t. t\<lparr>ta_wait := AwaitTime\<rparr>) s1))"

definition resync :: "session_config \<Rightarrow> session_state \<Rightarrow> session_state" where
  "resync cfg s = (if ss_syncPending s = None \<and> ss_identity s \<noteq> None \<and> ss_anchor s = None then sync cfg None s else s)"

definition time_answered :: "session_config \<Rightarrow> nat \<Rightarrow> real option \<Rightarrow> session_state \<Rightarrow> session_state" where
  "time_answered cfg q answer s =
     (case ss_requests s q of
        None \<Rightarrow> s
      | Some (generation, start, awaiting) \<Rightarrow>
          (let s1 = s\<lparr>ss_requests := (ss_requests s)(q := None),
                 ss_syncPending := (if ss_syncPending s = Some q then None else ss_syncPending s)\<rparr>;
               s2 = (case answer of
                   Some epochMs \<Rightarrow>
                     if generation \<noteq> ss_generation s \<or> ss_identity s = None \<or> ss_disposed s then s1
                     else arm cfg (s1\<lparr>ss_anchor := Some (epochMs, (start + ss_now s) / 2)\<rparr>)
                 | None \<Rightarrow> s1) in
           case awaiting of None \<Rightarrow> s2 | Some c \<Rightarrow> finish_fromToken c s2))"

subsection \<open>Calls\<close>

text \<open>\<open>fromToken\<close> for the call \<open>c\<close>, which \<open>restore\<close> and \<open>signIn\<close> end with as well.\<close>

definition fromToken :: "session_config \<Rightarrow> nat \<Rightarrow> ustring \<Rightarrow> session_state \<Rightarrow> session_state" where
  "fromToken cfg c jwt s =
     (if ss_disposed s then settle_call c (Inl (session_error InvalidState)) s
      else case sc_claims cfg jwt of
        None \<Rightarrow> settle_call c (Inl TypeError) s
      | Some identity \<Rightarrow>
          (let s1 = (clearTimers s)\<lparr>ss_anchor := None, ss_login := None, ss_identity := Some identity, ss_generation := Suc (ss_generation s)\<rparr>;
               s2 = set_task c (\<lambda>t. t\<lparr>ta_wait := AwaitStored, ta_generation := Suc (ss_generation s), ta_identity := Some identity\<rparr>) s1 in
           if sc_storage cfg then storageAction (StoreToken jwt) (Some c) s2 else sync cfg (Some c) s2))"

definition new_call :: "session_wait \<Rightarrow> bool \<Rightarrow> session_state \<Rightarrow> session_state" where
  "new_call wait signIn s =
     s\<lparr>ss_tasks := (ss_tasks s)(ss_next s \<mapsto> \<lparr>ta_wait = wait, ta_generation = ss_generation s, ta_identity = None, ta_signIn = signIn\<rparr>),
       ss_next := Suc (ss_next s)\<rparr>"

definition restore :: "session_config \<Rightarrow> session_state \<Rightarrow> session_state" where
  "restore cfg s =
     (let s1 = new_call AwaitLoad False s in
      if sc_storage cfg then s1 else settle_call (ss_next s) (Inr NoIdentity) s1)"

definition load_answered :: "session_config \<Rightarrow> nat \<Rightarrow> (thrown + ustring option) \<Rightarrow> session_state \<Rightarrow> session_state" where
  "load_answered cfg c answer s =
     (case ss_tasks s c of
        None \<Rightarrow> s
      | Some t \<Rightarrow>
          if ta_wait t \<noteq> AwaitLoad then s
          else case answer of
            Inl e \<Rightarrow> settle_call c (Inl (session_error Unavailable)) s
          | Inr token \<Rightarrow>
              if ta_generation t \<noteq> ss_generation s \<or> ss_disposed s then settle_call c (Inl (session_error SignedOut)) s
              else (case token of
                  None \<Rightarrow> settle_call c (Inr NoIdentity) s
                | Some jwt \<Rightarrow> if jwt = [] then settle_call c (Inr NoIdentity) s else fromToken cfg c jwt s))"

definition signOut :: "session_config \<Rightarrow> session_state \<Rightarrow> session_state" where
  "signOut cfg s =
     (let c = ss_next s; s1 = new_call AwaitTail False s in
      if ss_identity s \<noteq> None then
        (let s2 = session_stop cfg (Some c) s1 in
         if sc_storage cfg then s2 else settle_call c (Inr Ended) s2)
      else
        (let s2 = s1\<lparr>ss_generation := Suc (ss_generation s)\<rparr> in
         if sc_storage cfg then storageAction ClearToken (Some c) s2 else settle_call c (Inr Ended) s2))"

text \<open>The first action of the lane settles, and the call that awaits it goes on.\<close>

definition storage_answered :: "session_config \<Rightarrow> thrown option \<Rightarrow> session_state \<Rightarrow> session_state" where
  "storage_answered cfg failure s =
     (case ss_lane s of
        [] \<Rightarrow> s
      | (a, awaiting) # rest \<Rightarrow>
          (let s1 = s\<lparr>ss_lane := rest, ss_performed := ss_performed s @ [a]\<rparr> in
           case awaiting of
             None \<Rightarrow> s1
           | Some c \<Rightarrow>
               (case (a, failure) of
                  (StoreToken jwt, None) \<Rightarrow> sync cfg (Some c) s1
                | (StoreToken jwt, Some e) \<Rightarrow> settle_call c (Inl (session_error Unavailable)) s1
                | (ClearToken, None) \<Rightarrow> settle_call c (Inr Ended) s1
                | (ClearToken, Some e) \<Rightarrow> settle_call c (Inl e) s1)))"

text \<open>\<open>opened\<close>: the error of opening the login page, if any.\<close>

definition signIn :: "session_config \<Rightarrow> thrown option \<Rightarrow> session_state \<Rightarrow> session_state" where
  "signIn cfg opened s =
     (let c = ss_next s; s1 = new_call (AwaitReturn (ss_now s + sc_timeoutMs cfg)) True s in
      if \<not> sc_login cfg then settle_call c (Inl (session_error NotConfigured)) s1
      else if ss_disposed s \<or> ss_login s \<noteq> None then settle_call c (Inl (session_error InvalidState)) s1
      else case opened of
        Some e \<Rightarrow> settle_call c (Inl e) s1
      | None \<Rightarrow> s1\<lparr>ss_login := Some c\<rparr>)"

definition awaits_return :: "nat \<Rightarrow> session_state \<Rightarrow> real option" where
  "awaits_return c s = (case ss_tasks s c of Some t \<Rightarrow> (case ta_wait t of AwaitReturn due \<Rightarrow> Some due | _ \<Rightarrow> None) | None \<Rightarrow> None)"

definition flow_returned :: "session_config \<Rightarrow> nat \<Rightarrow> (thrown + ustring) \<Rightarrow> session_state \<Rightarrow> session_state" where
  "flow_returned cfg c answer s =
     (if awaits_return c s = None then s
      else case answer of
        Inl e \<Rightarrow> settle_call c (Inl e) s
      | Inr url \<Rightarrow>
          (case sc_redirect cfg c url of
             Inl e \<Rightarrow> settle_call c (Inl e) s
           | Inr jwt \<Rightarrow> fromToken cfg c jwt (s\<lparr>ss_login := None\<rparr>)))"

definition login_timeout :: "nat \<Rightarrow> session_state \<Rightarrow> session_state" where
  "login_timeout c s =
     (case awaits_return c s of
        None \<Rightarrow> s
      | Some due \<Rightarrow> if ss_now s < due then s else settle_call c (Inl (session_error Unavailable)) s)"

subsection \<open>Timers and the runtime\<close>

definition expiring_fires :: "session_state \<Rightarrow> session_state" where
  "expiring_fires s =
     (case ss_expiring s of
        None \<Rightarrow> s
      | Some (generation, due) \<Rightarrow>
          if ss_now s < due then s
          else s\<lparr>ss_expiring := None,
            ss_events := ss_events s @ (if generation = ss_generation s then [(generation, ''expiring'')] else [])\<rparr>)"

definition expired_fires :: "session_config \<Rightarrow> session_state \<Rightarrow> session_state" where
  "expired_fires cfg s =
     (case ss_expired s of
        None \<Rightarrow> s
      | Some (generation, due) \<Rightarrow>
          if ss_now s < due then s
          else
            (let s1 = s\<lparr>ss_expired := None\<rparr> in
             if generation = ss_generation s then session_stop cfg None s1 else s1))"

definition set_foreground :: "session_config \<Rightarrow> bool \<Rightarrow> session_state \<Rightarrow> session_state" where
  "set_foreground cfg foreground s =
     (if ss_disposed s \<or> ss_foreground s = foreground then s
      else
        (let s1 = s\<lparr>ss_foreground := foreground\<rparr> in if foreground then resync cfg s1 else s1))"

text \<open>\<open>dispose\<close> of the kit: the token stays in the storage.\<close>

definition session_dispose :: "session_state \<Rightarrow> session_state" where
  "session_dispose s =
     (if ss_disposed s then s
      else (clearTimers s)\<lparr>ss_disposed := True, ss_generation := Suc (ss_generation s), ss_identity := None\<rparr>)"

datatype session_event =
    FromTokenCall ustring | RestoreCall | SignOutCall | SignInCall "thrown option"
  | StorageAnswered "thrown option" | LoadAnswered nat "thrown + ustring option" | TimeAnswered nat "real option"
  | FlowReturned nat "thrown + ustring" | LoginTimeout nat | ExpiringFires | ExpiredFires
  | ClockMoves real | ForegroundSet bool | ServiceSignsOut | Disposed

fun session_step :: "session_config \<Rightarrow> session_event \<Rightarrow> session_state \<Rightarrow> session_state" where
  "session_step cfg (FromTokenCall jwt) s = fromToken cfg (ss_next s) jwt (new_call AwaitStored False s)"
| "session_step cfg RestoreCall s = restore cfg s"
| "session_step cfg SignOutCall s = signOut cfg s"
| "session_step cfg (SignInCall opened) s = signIn cfg opened s"
| "session_step cfg (StorageAnswered failure) s = storage_answered cfg failure s"
| "session_step cfg (LoadAnswered c answer) s = load_answered cfg c answer s"
| "session_step cfg (TimeAnswered q answer) s = time_answered cfg q answer s"
| "session_step cfg (FlowReturned c answer) s = flow_returned cfg c answer s"
| "session_step cfg (LoginTimeout c) s = login_timeout c s"
| "session_step cfg ExpiringFires s = expiring_fires s"
| "session_step cfg ExpiredFires s = expired_fires cfg s"
| "session_step cfg (ClockMoves d) s = s\<lparr>ss_now := ss_now s + max 0 d\<rparr>"
| "session_step cfg (ForegroundSet b) s = set_foreground cfg b s"
| "session_step cfg ServiceSignsOut s = (if ss_identity s = None then s else session_stop cfg None s)"
| "session_step cfg Disposed s = session_dispose s"

subsection \<open>What the helpers leave alone\<close>

lemma settle_frame [simp]:
  "ss_identity (settle_call c r s) = ss_identity s" "ss_generation (settle_call c r s) = ss_generation s"
  "ss_disposed (settle_call c r s) = ss_disposed s" "ss_now (settle_call c r s) = ss_now s"
  "ss_anchor (settle_call c r s) = ss_anchor s" "ss_expiring (settle_call c r s) = ss_expiring s"
  "ss_expired (settle_call c r s) = ss_expired s" "ss_lane (settle_call c r s) = ss_lane s"
  "ss_performed (settle_call c r s) = ss_performed s"
  by (simp_all add: settle_call_def Let_def split: option.split)

lemma set_task_frame [simp]:
  "ss_identity (set_task c f s) = ss_identity s" "ss_generation (set_task c f s) = ss_generation s"
  "ss_disposed (set_task c f s) = ss_disposed s" "ss_now (set_task c f s) = ss_now s"
  "ss_anchor (set_task c f s) = ss_anchor s" "ss_expiring (set_task c f s) = ss_expiring s"
  "ss_expired (set_task c f s) = ss_expired s" "ss_lane (set_task c f s) = ss_lane s"
  "ss_performed (set_task c f s) = ss_performed s" "ss_results (set_task c f s) = ss_results s"
  by (simp_all add: set_task_def)

lemma finish_frame [simp]:
  "ss_identity (finish_fromToken c s) = ss_identity s" "ss_generation (finish_fromToken c s) = ss_generation s"
  "ss_disposed (finish_fromToken c s) = ss_disposed s" "ss_now (finish_fromToken c s) = ss_now s"
  "ss_anchor (finish_fromToken c s) = ss_anchor s" "ss_expiring (finish_fromToken c s) = ss_expiring s"
  "ss_expired (finish_fromToken c s) = ss_expired s" "ss_lane (finish_fromToken c s) = ss_lane s"
  "ss_performed (finish_fromToken c s) = ss_performed s"
  by (simp_all add: finish_fromToken_def split: option.split)

lemma sync_frame [simp]:
  "ss_identity (sync cfg a s) = ss_identity s" "ss_generation (sync cfg a s) = ss_generation s"
  "ss_disposed (sync cfg a s) = ss_disposed s" "ss_now (sync cfg a s) = ss_now s"
  "ss_anchor (sync cfg a s) = ss_anchor s" "ss_expiring (sync cfg a s) = ss_expiring s"
  "ss_expired (sync cfg a s) = ss_expired s" "ss_lane (sync cfg a s) = ss_lane s"
  "ss_performed (sync cfg a s) = ss_performed s"
  by (simp_all add: sync_def Let_def split: option.split)

lemma new_call_frame [simp]:
  "ss_identity (new_call w b s) = ss_identity s" "ss_generation (new_call w b s) = ss_generation s"
  "ss_disposed (new_call w b s) = ss_disposed s" "ss_now (new_call w b s) = ss_now s"
  "ss_anchor (new_call w b s) = ss_anchor s" "ss_expiring (new_call w b s) = ss_expiring s"
  "ss_expired (new_call w b s) = ss_expired s" "ss_lane (new_call w b s) = ss_lane s"
  "ss_performed (new_call w b s) = ss_performed s" "ss_results (new_call w b s) = ss_results s"
  by (simp_all add: new_call_def)

lemma resync_frame [simp]:
  "ss_identity (resync cfg s) = ss_identity s" "ss_generation (resync cfg s) = ss_generation s"
  "ss_disposed (resync cfg s) = ss_disposed s" "ss_now (resync cfg s) = ss_now s"
  "ss_anchor (resync cfg s) = ss_anchor s" "ss_expiring (resync cfg s) = ss_expiring s"
  "ss_expired (resync cfg s) = ss_expired s" "ss_lane (resync cfg s) = ss_lane s"
  "ss_performed (resync cfg s) = ss_performed s"
  by (simp_all add: resync_def)

lemma storage_frame [simp]:
  "ss_identity (storageAction a w s) = ss_identity s" "ss_generation (storageAction a w s) = ss_generation s"
  "ss_disposed (storageAction a w s) = ss_disposed s" "ss_now (storageAction a w s) = ss_now s"
  "ss_anchor (storageAction a w s) = ss_anchor s" "ss_expiring (storageAction a w s) = ss_expiring s"
  "ss_expired (storageAction a w s) = ss_expired s" "ss_lane (storageAction a w s) = ss_lane s @ [(a, w)]"
  "ss_performed (storageAction a w s) = ss_performed s" "ss_tasks (storageAction a w s) = ss_tasks s"
  "ss_results (storageAction a w s) = ss_results s"
  by (simp_all add: storageAction_def)

lemma clear_frame [simp]:
  "ss_identity (clearTimers s) = ss_identity s" "ss_generation (clearTimers s) = ss_generation s"
  "ss_disposed (clearTimers s) = ss_disposed s" "ss_now (clearTimers s) = ss_now s"
  "ss_anchor (clearTimers s) = ss_anchor s" "ss_expiring (clearTimers s) = None"
  "ss_expired (clearTimers s) = None" "ss_lane (clearTimers s) = ss_lane s"
  "ss_performed (clearTimers s) = ss_performed s" "ss_tasks (clearTimers s) = ss_tasks s" "ss_results (clearTimers s) = ss_results s"
  by (simp_all add: clearTimers_def)

lemma stop_frame [simp]:
  "ss_identity (session_stop cfg a s) = None" "ss_generation (session_stop cfg a s) = Suc (ss_generation s)"
  "ss_disposed (session_stop cfg a s) = ss_disposed s" "ss_now (session_stop cfg a s) = ss_now s"
  "ss_anchor (session_stop cfg a s) = None" "ss_expiring (session_stop cfg a s) = None"
  "ss_expired (session_stop cfg a s) = None" "ss_lane (session_stop cfg a s) = ss_lane s @ (if sc_storage cfg then [(ClearToken, a)] else [])"
  "ss_performed (session_stop cfg a s) = ss_performed s" "ss_tasks (session_stop cfg a s) = ss_tasks s"
  "ss_results (session_stop cfg a s) = ss_results s"
  by (simp_all add: session_stop_def Let_def)

text \<open>Where the clock of the service was read, the session stops or its end is scheduled.\<close>

lemma arm_cases:
  assumes "ss_identity s = Some identity" "ss_anchor s = Some (epochMs, monotonic)" "\<not> ss_disposed s"
    and "remaining = of_int (si_expiresAt identity) * 1000 - (epochMs + ss_now s - monotonic)"
  shows "arm cfg s = (if remaining \<le> 0 then session_stop cfg None (clearTimers s)
    else s\<lparr>ss_expiring := Some (ss_generation s, ss_now s + max 0 (remaining - 600000)),
      ss_expired := Some (ss_generation s, ss_now s + remaining)\<rparr>)"
  using assms by (simp add: arm_def session_now_def Let_def)

subsection \<open>Steps and reachable states\<close>

inductive session_reach :: "session_config \<Rightarrow> session_state \<Rightarrow> bool" for cfg where
  start: "session_reach cfg (createSession now)"
| step: "session_reach cfg s \<Longrightarrow> session_reach cfg (session_step cfg ev s)"

text \<open>An identity is of a kit that is not disposed, its end is scheduled when the clock is known.\<close>

definition session_ok :: "session_state \<Rightarrow> bool" where
  "session_ok s \<longleftrightarrow>
     (ss_identity s \<noteq> None \<longrightarrow> \<not> ss_disposed s) \<and>
     (\<forall>identity epochMs monotonic. ss_identity s = Some identity \<longrightarrow> ss_anchor s = Some (epochMs, monotonic) \<longrightarrow>
        ss_expired s = Some (ss_generation s, of_int (si_expiresAt identity) * 1000 - epochMs + monotonic))"

lemma session_ok_simps [simp]:
  "session_ok (settle_call c r s) = session_ok s" "session_ok (set_task c f s) = session_ok s"
  "session_ok (finish_fromToken c s) = session_ok s" "session_ok (sync cfg w s) = session_ok s"
  "session_ok (resync cfg s) = session_ok s" "session_ok (new_call wait b s) = session_ok s"
  "session_ok (storageAction a w s) = session_ok s" "session_ok (session_stop cfg w s)"
  "session_ok (s\<lparr>ss_login := l\<rparr>) = session_ok s" "session_ok (s\<lparr>ss_requests := rs\<rparr>) = session_ok s"
  "session_ok (s\<lparr>ss_syncPending := p\<rparr>) = session_ok s" "session_ok (s\<lparr>ss_lane := la\<rparr>) = session_ok s"
  "session_ok (s\<lparr>ss_performed := pe\<rparr>) = session_ok s" "session_ok (s\<lparr>ss_events := evs\<rparr>) = session_ok s"
  "session_ok (s\<lparr>ss_foreground := b\<rparr>) = session_ok s" "session_ok (s\<lparr>ss_now := t\<rparr>) = session_ok s"
  "session_ok (s\<lparr>ss_expiring := x\<rparr>) = session_ok s"
  by (simp_all add: session_ok_def)

lemma session_ok_none: "ss_identity s = None \<Longrightarrow> session_ok s"
  by (simp add: session_ok_def)

lemma arm_ok: "ss_identity s \<noteq> None \<Longrightarrow> \<not> ss_disposed s \<Longrightarrow> ss_anchor s \<noteq> None \<Longrightarrow> session_ok (arm cfg s)"
proof -
  assume known: "ss_identity s \<noteq> None" "\<not> ss_disposed s" "ss_anchor s \<noteq> None"
  then obtain identity e m where "ss_identity s = Some identity" "ss_anchor s = Some (e, m)" by auto
  note armed = arm_cases [OF this known(2) refl]
  show ?thesis
    unfolding armed using \<open>ss_identity s = Some identity\<close> \<open>ss_anchor s = Some (e, m)\<close> known(2) by (simp add: session_ok_def)
qed

lemma fromToken_ok: "session_ok s \<Longrightarrow> session_ok (fromToken cfg c jwt s)"
proof -
  assume ok: "session_ok s"
  have "session_ok ((clearTimers s)\<lparr>ss_anchor := None, ss_login := None, ss_identity := i, ss_generation := g\<rparr>)" if "\<not> ss_disposed s" for i g
    using that by (simp add: session_ok_def)
  then show ?thesis using ok by (simp add: fromToken_def Let_def split: option.split)
qed

lemma step_session_ok: "session_ok s \<Longrightarrow> session_ok (session_step cfg ev s)"
proof (cases ev)
  case (TimeAnswered q answer)
  assume "session_ok s"
  then show ?thesis
    using TimeAnswered by (auto simp: time_answered_def Let_def intro!: arm_ok split: option.split)
next
  case ExpiredFires
  assume "session_ok s"
  then show ?thesis
    using ExpiredFires by (auto simp: expired_fires_def Let_def session_ok_def split: option.split)
next
  case Disposed
  assume "session_ok s"
  then show ?thesis using Disposed by (simp add: session_dispose_def session_ok_none)
next
  case SignOutCall
  then show ?thesis by (simp add: signOut_def Let_def session_ok_none)
qed (simp_all add: fromToken_ok restore_def load_answered_def storage_answered_def signIn_def flow_returned_def login_timeout_def
    expiring_fires_def set_foreground_def Let_def split: option.split sum.split list.split storage_action.split)

lemma reach_session_ok: "session_reach cfg s \<Longrightarrow> session_ok s"
  by (induction rule: session_reach.induct) (simp_all add: step_session_ok session_ok_none createSession_def)

subsection \<open>The end of a session\<close>

text \<open>
  C23: A session ends when its token does: while the timers that are due have fired, the time a session
  tells is before the expiry of its token; the timer that is due then signs it out, in every state the
  session can get to, whatever was answered and in whatever order.
\<close>
theorem session_ends_with_its_token:
  assumes "session_reach cfg s" "ss_identity s = Some identity" "session_now s = Inr now"
  shows "\<exists>due. ss_expired s = Some (ss_generation s, due) \<and>
    (if ss_now s < due then now < of_int (si_expiresAt identity) * 1000
     else ss_identity (session_step cfg ExpiredFires s) = None)"
proof -
  obtain epochMs monotonic where clock: "ss_anchor s = Some (epochMs, monotonic)" "now = epochMs + ss_now s - monotonic"
    using assms(2,3) by (auto simp: session_now_def split: if_splits option.splits)
  have "ss_expired s = Some (ss_generation s, of_int (si_expiresAt identity) * 1000 - epochMs + monotonic)"
    using reach_session_ok [OF assms(1)] assms(2) clock(1) by (simp add: session_ok_def)
  then show ?thesis using clock(2) by (auto simp: expired_fires_def Let_def)
qed

subsection \<open>The storage follows the session\<close>

definition storage_actions :: "session_state \<Rightarrow> storage_action list" where
  "storage_actions s = ss_performed s @ map fst (ss_lane s)"

definition stored_ok :: "session_state \<Rightarrow> bool" where
  "stored_ok s \<longleftrightarrow>
     (case ss_identity s of
        Some identity \<Rightarrow> storage_actions s \<noteq> [] \<and> last (storage_actions s) = StoreToken (si_token identity)
      | None \<Rightarrow> ss_disposed s \<or> storage_actions s = [] \<or> last (storage_actions s) = ClearToken)"

lemma storage_actions_simps [simp]:
  "storage_actions (settle_call c r s) = storage_actions s" "storage_actions (set_task c f s) = storage_actions s"
  "storage_actions (finish_fromToken c s) = storage_actions s" "storage_actions (sync cfg w s) = storage_actions s"
  "storage_actions (resync cfg s) = storage_actions s" "storage_actions (new_call wait b s) = storage_actions s"
  "storage_actions (storageAction a w s) = storage_actions s @ [a]" "storage_actions (clearTimers s) = storage_actions s"
  "storage_actions (session_stop cfg w s) = storage_actions s @ (if sc_storage cfg then [ClearToken] else [])"
  "storage_actions (s\<lparr>ss_login := l\<rparr>) = storage_actions s" "storage_actions (s\<lparr>ss_requests := rs\<rparr>) = storage_actions s"
  "storage_actions (s\<lparr>ss_syncPending := p\<rparr>) = storage_actions s" "storage_actions (s\<lparr>ss_events := evs\<rparr>) = storage_actions s"
  "storage_actions (s\<lparr>ss_foreground := b\<rparr>) = storage_actions s" "storage_actions (s\<lparr>ss_now := t\<rparr>) = storage_actions s"
  "storage_actions (s\<lparr>ss_expiring := x\<rparr>) = storage_actions s" "storage_actions (s\<lparr>ss_expired := x\<rparr>) = storage_actions s"
  "storage_actions (s\<lparr>ss_anchor := y\<rparr>) = storage_actions s" "storage_actions (s\<lparr>ss_identity := i\<rparr>) = storage_actions s"
  "storage_actions (s\<lparr>ss_generation := g\<rparr>) = storage_actions s" "storage_actions (s\<lparr>ss_disposed := b\<rparr>) = storage_actions s"
  by (simp_all add: storage_actions_def)

lemma stored_ok_same:
  "ss_identity s' = ss_identity s \<Longrightarrow> ss_disposed s' = ss_disposed s \<Longrightarrow> storage_actions s' = storage_actions s \<Longrightarrow> stored_ok s' = stored_ok s"
  by (simp add: stored_ok_def split: option.split)

lemma stored_ok_simps [simp]:
  "stored_ok (settle_call c r s) = stored_ok s" "stored_ok (set_task c f s) = stored_ok s"
  "stored_ok (finish_fromToken c s) = stored_ok s" "stored_ok (sync cfg w s) = stored_ok s"
  "stored_ok (resync cfg s) = stored_ok s" "stored_ok (new_call wait b s) = stored_ok s" "stored_ok (clearTimers s) = stored_ok s"
  "stored_ok (s\<lparr>ss_login := l\<rparr>) = stored_ok s" "stored_ok (s\<lparr>ss_requests := rs\<rparr>) = stored_ok s"
  "stored_ok (s\<lparr>ss_syncPending := p\<rparr>) = stored_ok s" "stored_ok (s\<lparr>ss_events := evs\<rparr>) = stored_ok s"
  "stored_ok (s\<lparr>ss_foreground := b\<rparr>) = stored_ok s" "stored_ok (s\<lparr>ss_now := t\<rparr>) = stored_ok s"
  "stored_ok (s\<lparr>ss_expiring := x\<rparr>) = stored_ok s" "stored_ok (s\<lparr>ss_expired := x\<rparr>) = stored_ok s"
  "stored_ok (s\<lparr>ss_anchor := y\<rparr>) = stored_ok s" "stored_ok (s\<lparr>ss_generation := g\<rparr>) = stored_ok s"
  by (rule stored_ok_same; simp)+

lemma stopped_stored: "sc_storage cfg \<Longrightarrow> stored_ok (session_stop cfg w s)"
  by (simp add: stored_ok_def)

lemma popped_stored: "ss_lane s = (a, w) # rest \<Longrightarrow> stored_ok (s\<lparr>ss_lane := rest, ss_performed := ss_performed s @ [a]\<rparr>) = stored_ok s"
  by (rule stored_ok_same) (simp_all add: storage_actions_def)

lemma fromToken_stored:
  assumes "sc_storage cfg" "\<forall>jwt identity. sc_claims cfg jwt = Some identity \<longrightarrow> si_token identity = jwt" "stored_ok s"
  shows "stored_ok (fromToken cfg c jwt s)"
  using assms by (auto simp: fromToken_def Let_def stored_ok_def split: option.split)

lemma arm_stored: "sc_storage cfg \<Longrightarrow> stored_ok s \<Longrightarrow> stored_ok (arm cfg s)"
  by (auto simp: arm_def Let_def stopped_stored split: option.split sum.split)

lemma step_stored:
  assumes "sc_storage cfg" "\<forall>jwt identity. sc_claims cfg jwt = Some identity \<longrightarrow> si_token identity = jwt" "stored_ok s"
  shows "stored_ok (session_step cfg ev s)"
proof (cases ev)
  case (TimeAnswered q answer)
  then show ?thesis
    using assms by (auto simp: time_answered_def Let_def intro!: arm_stored split: option.split)
next
  case (StorageAnswered failure)
  then show ?thesis
    using assms(3) by (auto simp: storage_answered_def Let_def popped_stored split: list.split option.split storage_action.split)
next
  case SignOutCall
  then show ?thesis using assms by (simp add: signOut_def Let_def stored_ok_def)
next
  case ExpiredFires
  then show ?thesis using assms by (simp add: expired_fires_def Let_def stopped_stored split: option.split)
next
  case Disposed
  then show ?thesis using assms by (simp add: session_dispose_def stored_ok_def)
qed (use assms in \<open>simp_all add: fromToken_stored restore_def load_answered_def signIn_def flow_returned_def login_timeout_def
    expiring_fires_def set_foreground_def Let_def stopped_stored split: option.split sum.split\<close>)

text \<open>
  C22: The storage follows the session: however sign-ins, sign-outs, expiries and answers of the storage
  overlap, its actions are carried out one at a time in the order of the decisions, and when the last one is
  done what was done last is to store the token of the session there is, or to clear it when there is none.
\<close>
theorem storage_follows_session:
  assumes "session_reach cfg s" "sc_storage cfg" "\<forall>jwt identity. sc_claims cfg jwt = Some identity \<longrightarrow> si_token identity = jwt"
    and "\<not> ss_disposed s" "ss_lane s = []"
  shows "case ss_identity s of
      Some identity \<Rightarrow> ss_performed s \<noteq> [] \<and> last (ss_performed s) = StoreToken (si_token identity)
    | None \<Rightarrow> ss_performed s = [] \<or> last (ss_performed s) = ClearToken"
proof -
  have "stored_ok s" using assms(1)
  proof (induction rule: session_reach.induct)
    case (start now)
    then show ?case by (simp add: stored_ok_def storage_actions_def createSession_def)
  next
    case (step s ev)
    then show ?case by (intro step_stored assms(2,3))
  qed
  then show ?thesis using assms(4,5) by (auto simp: stored_ok_def storage_actions_def split: option.splits)
qed

subsection \<open>Who is signed in\<close>

definition tasks_ok :: "session_state \<Rightarrow> bool" where
  "tasks_ok s \<longleftrightarrow>
     (\<forall>c t identity. ss_tasks s c = Some t \<longrightarrow> ta_identity t = Some identity \<longrightarrow>
        ta_generation t < ss_generation s \<or> ta_generation t = ss_generation s \<and> ss_identity s \<in> {None, Some identity})"

lemma tasks_ok_less:
  assumes "tasks_ok s" "ss_generation s < ss_generation s'" "ss_tasks s' = ss_tasks s"
  shows "tasks_ok s'"
  using assms by (fastforce simp: tasks_ok_def)

lemma tasks_ok_shrinks:
  assumes "tasks_ok s" "ss_generation s' = ss_generation s" "ss_identity s' = ss_identity s"
    and "\<And>c t. ss_tasks s' c = Some t \<Longrightarrow> ta_identity t = None \<or>
      (\<exists>t0. ss_tasks s c = Some t0 \<and> ta_identity t0 = ta_identity t \<and> ta_generation t0 = ta_generation t)"
  shows "tasks_ok s'"
  unfolding tasks_ok_def
proof (intro allI impI)
  fix c t identity
  assume t: "ss_tasks s' c = Some t" "ta_identity t = Some identity"
  from assms(4) [OF t(1)] t(2) obtain t0 where "ss_tasks s c = Some t0" "ta_identity t0 = Some identity" "ta_generation t0 = ta_generation t"
    by auto
  then show "ta_generation t < ss_generation s' \<or> ta_generation t = ss_generation s' \<and> ss_identity s' \<in> {None, Some identity}"
    using assms(1) unfolding tasks_ok_def assms(2,3) by metis
qed

lemma session_tasks_same:
  "tasks_ok s \<Longrightarrow> ss_tasks s' = ss_tasks s \<Longrightarrow> ss_generation s' = ss_generation s \<Longrightarrow> ss_identity s' = ss_identity s \<Longrightarrow> tasks_ok s'"
  by (erule tasks_ok_shrinks) auto

lemma settled_tasks: "ss_tasks (settle_call c r s) = (ss_tasks s)(c := None)"
  by (simp add: settle_call_def Let_def fun_upd_idem split: option.split)

lemma task_helpers:
  "tasks_ok s \<Longrightarrow> tasks_ok (settle_call c r s)" "tasks_ok s \<Longrightarrow> tasks_ok (finish_fromToken c s)"
  "tasks_ok s \<Longrightarrow> tasks_ok (new_call w b s)" "tasks_ok s \<Longrightarrow> tasks_ok (set_task c (\<lambda>t. t\<lparr>ta_wait := w\<rparr>) s)"
  "tasks_ok s \<Longrightarrow> tasks_ok (clearTimers s)" "tasks_ok s \<Longrightarrow> tasks_ok (storageAction a v s)"
proof -
  assume ok: "tasks_ok s"
  show settled: "tasks_ok (settle_call c r s)" for r
    by (rule tasks_ok_shrinks [OF ok]) (simp_all add: settled_tasks split: if_splits)
  show "tasks_ok (finish_fromToken c s)"
    using ok settled by (simp add: finish_fromToken_def split: option.split)
  show "tasks_ok (new_call w b s)"
    by (rule tasks_ok_shrinks [OF ok], simp, simp) (auto simp: new_call_def split: if_splits)
  show "tasks_ok (set_task c (\<lambda>t. t\<lparr>ta_wait := w\<rparr>) s)"
    by (rule tasks_ok_shrinks [OF ok], simp, simp) (auto simp: set_task_def split: if_splits)
  show "tasks_ok (clearTimers s)" "tasks_ok (storageAction a v s)"
    by (rule session_tasks_same [OF ok]; simp)+
qed

lemma session_stop_tasks: "tasks_ok s \<Longrightarrow> tasks_ok (session_stop cfg w s)"
  by (erule tasks_ok_less) simp_all

lemma tasks_ok_updates [simp]:
  "tasks_ok (s\<lparr>ss_login := l\<rparr>) = tasks_ok s" "tasks_ok (s\<lparr>ss_requests := rs\<rparr>) = tasks_ok s" "tasks_ok (s\<lparr>ss_next := n\<rparr>) = tasks_ok s"
  "tasks_ok (s\<lparr>ss_syncPending := p\<rparr>) = tasks_ok s" "tasks_ok (s\<lparr>ss_lane := la\<rparr>) = tasks_ok s"
  "tasks_ok (s\<lparr>ss_performed := pe\<rparr>) = tasks_ok s" "tasks_ok (s\<lparr>ss_events := evs\<rparr>) = tasks_ok s"
  "tasks_ok (s\<lparr>ss_foreground := b\<rparr>) = tasks_ok s" "tasks_ok (s\<lparr>ss_now := t\<rparr>) = tasks_ok s"
  "tasks_ok (s\<lparr>ss_expiring := x\<rparr>) = tasks_ok s" "tasks_ok (s\<lparr>ss_expired := x\<rparr>) = tasks_ok s" "tasks_ok (s\<lparr>ss_anchor := y\<rparr>) = tasks_ok s"
  "tasks_ok (s\<lparr>ss_disposed := b\<rparr>) = tasks_ok s"
  by (simp_all add: tasks_ok_def)

lemma sync_tasks: "tasks_ok s \<Longrightarrow> tasks_ok (sync cfg w s)"
  by (simp add: sync_def Let_def task_helpers split: option.split)

lemma fromToken_tasks: "tasks_ok s \<Longrightarrow> tasks_ok (fromToken cfg c jwt s)"
proof -
  assume ok: "tasks_ok s"
  have "tasks_ok (set_task c (\<lambda>t. t\<lparr>ta_wait := AwaitStored, ta_generation := Suc (ss_generation s), ta_identity := Some i\<rparr>)
      ((clearTimers s)\<lparr>ss_anchor := None, ss_login := None, ss_identity := Some i, ss_generation := Suc (ss_generation s)\<rparr>))" for i
    using ok by (auto simp: tasks_ok_def set_task_def less_Suc_eq)
  then show ?thesis using ok by (simp add: fromToken_def Let_def task_helpers sync_tasks split: option.split)
qed

lemma arm_tasks: "tasks_ok s \<Longrightarrow> tasks_ok (arm cfg s)"
  by (auto simp: arm_def Let_def task_helpers session_stop_tasks split: option.split sum.split)

lemma step_tasks: "tasks_ok s \<Longrightarrow> tasks_ok (session_step cfg ev s)"
proof (cases ev)
  case SignOutCall
  assume ok: "tasks_ok s"
  have "tasks_ok ((new_call AwaitTail False s)\<lparr>ss_generation := Suc (ss_generation s)\<rparr>)"
    by (rule tasks_ok_less [OF task_helpers(3) [OF ok]]) simp_all
  then show ?thesis using SignOutCall ok by (simp add: signOut_def Let_def task_helpers session_stop_tasks)
next
  case Disposed
  assume ok: "tasks_ok s"
  then show ?thesis using Disposed by (auto simp: session_dispose_def intro: tasks_ok_less)
qed (simp_all add: task_helpers sync_tasks fromToken_tasks arm_tasks session_stop_tasks restore_def load_answered_def storage_answered_def signIn_def
    flow_returned_def login_timeout_def expiring_fires_def expired_fires_def set_foreground_def resync_def time_answered_def Let_def
    split: option.split sum.split list.split storage_action.split)

text \<open>The result a call adds.\<close>

definition only_current :: "session_state \<Rightarrow> session_state \<Rightarrow> bool" where
  "only_current s s' \<longleftrightarrow>
     (\<forall>c identity. (c, Inr (Identity identity)) \<in> set (ss_results s') \<longrightarrow> (c, Inr (Identity identity)) \<in> set (ss_results s) \<or> ss_identity s' = Some identity)"

lemma current_same: "ss_results s' = ss_results s \<Longrightarrow> only_current s s'"
  by (simp add: only_current_def)

lemma current_settle:
  assumes "ss_results s1 = ss_results s" "\<And>identity. r = Inr (Identity identity) \<Longrightarrow> ss_identity s1 = Some identity"
  shows "only_current s (settle_call c r s1)"
  using assms by (auto simp: only_current_def settle_call_def Let_def split: option.splits sum.splits)

lemma current_finish: "ss_results s1 = ss_results s \<Longrightarrow> tasks_ok s1 \<Longrightarrow> only_current s (finish_fromToken c s1)"
proof (cases "ss_tasks s1 c")
  case (Some t)
  assume same: "ss_results s1 = ss_results s" and ok: "tasks_ok s1"
  show ?thesis
  proof (cases "ta_identity t")
    case (Some identity)
    have "ss_identity s1 = Some identity" if "ss_generation s1 = ta_generation t" "ss_identity s1 \<noteq> None"
      using ok \<open>ss_tasks s1 c = Some t\<close> Some that unfolding tasks_ok_def by fastforce
    then have "only_current s (settle_call c (if ss_generation s1 \<noteq> ta_generation t \<or> ss_identity s1 = None
        then Inl (session_error SignedOut) else Inr (Identity identity)) s1)"
      by (intro current_settle [OF same]) (auto split: if_splits)
    then show ?thesis using \<open>ss_tasks s1 c = Some t\<close> Some by (simp add: finish_fromToken_def)
  qed (use same \<open>ss_tasks s1 c = Some t\<close> in \<open>simp add: finish_fromToken_def current_same\<close>)
qed (simp add: finish_fromToken_def current_same)

lemma current_sync: "ss_results s1 = ss_results s \<Longrightarrow> tasks_ok s1 \<Longrightarrow> only_current s (sync cfg w s1)"
  by (auto simp: sync_def Let_def intro: current_same intro!: current_finish split: option.split)

lemma current_fromToken:
  assumes "ss_results s1 = ss_results s" "tasks_ok s1"
  shows "only_current s (fromToken cfg c jwt s1)"
proof -
  have "tasks_ok (set_task c (\<lambda>t. t\<lparr>ta_wait := AwaitStored, ta_generation := Suc (ss_generation s1), ta_identity := Some i\<rparr>)
      ((clearTimers s1)\<lparr>ss_anchor := None, ss_login := None, ss_identity := Some i, ss_generation := Suc (ss_generation s1)\<rparr>))" for i
    using assms(2) by (auto simp: tasks_ok_def set_task_def less_Suc_eq)
  then show ?thesis
    using assms(1) by (auto simp: fromToken_def Let_def intro: current_same intro!: current_settle current_sync split: option.split)
qed

lemma arm_results [simp]: "ss_results (arm cfg s) = ss_results s"
  by (auto simp: arm_def Let_def split: option.split sum.split)

lemma step_current: "tasks_ok s \<Longrightarrow> only_current s (session_step cfg ev s)"
proof (cases ev)
  case (TimeAnswered q answer)
  assume ok: "tasks_ok s"
  show ?thesis
    using TimeAnswered ok
    by (auto simp: time_answered_def Let_def intro: current_same intro!: current_finish arm_tasks split: option.split)
next
  case (FromTokenCall jwt)
  assume ok: "tasks_ok s"
  show ?thesis using FromTokenCall ok by (simp add: current_fromToken task_helpers)
next
  case (LoadAnswered c answer)
  assume ok: "tasks_ok s"
  show ?thesis
    using LoadAnswered ok
    by (auto simp: load_answered_def intro: current_same intro!: current_settle current_fromToken split: option.split sum.split)
next
  case (FlowReturned c answer)
  assume ok: "tasks_ok s"
  show ?thesis
    using FlowReturned ok
    by (auto simp: flow_returned_def intro: current_same intro!: current_settle current_fromToken split: option.split sum.split)
next
  case (StorageAnswered failure)
  assume ok: "tasks_ok s"
  show ?thesis
    using StorageAnswered ok
    by (auto simp: storage_answered_def Let_def intro: current_same intro!: current_settle current_sync split: option.split list.split storage_action.split)
next
  case (ForegroundSet b)
  assume ok: "tasks_ok s"
  show ?thesis
    using ForegroundSet ok by (auto simp: set_foreground_def resync_def Let_def intro: current_same intro!: current_sync)
qed (auto simp: restore_def signOut_def signIn_def login_timeout_def expiring_fires_def expired_fires_def session_dispose_def Let_def
    intro: current_same intro!: current_settle split: option.split)

text \<open>
  C24: Whoever is told to be signed in is: a call that resolves with an identity, of a token, of what was
  stored or of a login page, does so while this is the identity of the session, however sign-outs, other
  logins and late answers overlap it; otherwise it rejects.
\<close>
theorem resolved_identity_is_current:
  assumes "session_reach cfg s" "(c, Inr (Identity identity)) \<in> set (ss_results (session_step cfg ev s)) - set (ss_results s)"
  shows "ss_identity (session_step cfg ev s) = Some identity \<and> \<not> ss_disposed (session_step cfg ev s)"
proof -
  have "tasks_ok s" using assms(1)
    by (induction rule: session_reach.induct) (simp_all add: step_tasks, simp add: tasks_ok_def createSession_def)
  then have "ss_identity (session_step cfg ev s) = Some identity"
    using step_current assms(2) unfolding only_current_def by blast
  moreover have "session_ok (session_step cfg ev s)" by (rule reach_session_ok [OF session_reach.step [OF assms(1)]])
  ultimately show ?thesis by (simp add: session_ok_def)
qed

subsection \<open>Concrete runs\<close>

text \<open>A token is its own name here, valid for ten seconds; the clock of the service is a second ahead.\<close>

definition demo_session :: session_config where
  "demo_session =
     \<lparr>sc_storage = True, sc_state = True, sc_login = True, sc_timeoutMs = 600000,
      sc_claims = (\<lambda>jwt. if jwt = [] then None else Some \<lparr>si_token = jwt, si_userId = jwt, si_expiresAt = 10\<rparr>),
      sc_redirect = (\<lambda>c url. Inr url)\<rparr>"

definition session_run :: "session_config \<Rightarrow> session_event list \<Rightarrow> session_state \<Rightarrow> session_state" where
  "session_run cfg evs s = fold (session_step cfg) evs s"

lemma session_run_reach: "session_reach cfg s \<Longrightarrow> session_reach cfg (session_run cfg evs s)"
proof (induction evs arbitrary: s)
  case (Cons ev evs)
  then show ?case using session_reach.step [OF Cons.prems, of ev] by (simp add: session_run_def)
qed (simp add: session_run_def)

lemmas session_eval =
  session_run_def demo_session_def createSession_def fromToken_def new_call_def settle_call_def set_task_def finish_fromToken_def sync_def
  resync_def time_answered_def arm_def session_now_def session_stop_def clearTimers_def storageAction_def storage_answered_def signOut_def
  Let_def

definition signed_in :: "session_event list" where
  "signed_in = [FromTokenCall [97], StorageAnswered None, ClockMoves 100]"

theorem resolved_identity_is_current_witness:
  "ss_identity (session_step demo_session (TimeAnswered 1 (Some 1000)) (session_run demo_session signed_in (createSession 0))) =
     Some \<lparr>si_token = [97], si_userId = [97], si_expiresAt = 10\<rparr>"
proof -
  let ?s = "session_run demo_session signed_in (createSession 0)"
  have "session_reach demo_session ?s" by (rule session_run_reach [OF session_reach.start])
  moreover have "(0, Inr (Identity \<lparr>si_token = [97], si_userId = [97], si_expiresAt = 10\<rparr>)) \<in>
      set (ss_results (session_step demo_session (TimeAnswered 1 (Some 1000)) ?s)) - set (ss_results ?s)"
    by (simp add: session_eval signed_in_def)
  ultimately show ?thesis using resolved_identity_is_current by blast
qed

theorem session_ends_with_its_token_witness:
  "\<exists>due. ss_expired (session_run demo_session (signed_in @ [TimeAnswered 1 (Some 1000), ClockMoves 9000]) (createSession 0)) = Some (1, due) \<and>
    ss_identity (session_step demo_session ExpiredFires
      (session_run demo_session (signed_in @ [TimeAnswered 1 (Some 1000), ClockMoves 9000]) (createSession 0))) = None"
proof -
  let ?s = "session_run demo_session (signed_in @ [TimeAnswered 1 (Some 1000), ClockMoves 9000]) (createSession 0)"
  have reach: "session_reach demo_session ?s" by (rule session_run_reach [OF session_reach.start])
  have "ss_identity ?s = Some \<lparr>si_token = [97], si_userId = [97], si_expiresAt = 10\<rparr>" "session_now ?s = Inr 10050" "ss_generation ?s = 1"
    by (simp_all add: session_eval signed_in_def)
  from session_ends_with_its_token [OF reach this(1,2)] this(3) show ?thesis by (auto split: if_splits)
qed

theorem storage_follows_session_witness:
  "last (ss_performed (session_run demo_session [FromTokenCall [97], SignOutCall, FromTokenCall [98], StorageAnswered None, StorageAnswered None,
      StorageAnswered None] (createSession 0))) = StoreToken [98]"
proof -
  let ?s = "session_run demo_session [FromTokenCall [97], SignOutCall, FromTokenCall [98], StorageAnswered None, StorageAnswered None,
      StorageAnswered None] (createSession 0)"
  have reach: "session_reach demo_session ?s" by (rule session_run_reach [OF session_reach.start])
  have cfg: "sc_storage demo_session" "\<forall>jwt identity. sc_claims demo_session jwt = Some identity \<longrightarrow> si_token identity = jwt"
    by (auto simp: demo_session_def split: if_splits)
  have here: "\<not> ss_disposed ?s" "ss_lane ?s = []" "ss_identity ?s = Some \<lparr>si_token = [98], si_userId = [98], si_expiresAt = 10\<rparr>"
    by (simp_all add: session_eval)
  from storage_follows_session [OF reach cfg here(1,2)] here(3) show ?thesis by simp
qed

end
