(* ===== verification/Spec2Isabelle.thy ===== *)
theory Spec2Isabelle
  imports Socket_Match Actor_Drain Redis_Subscriber Redis_Client
    Actor_Redis Repository Repository_Backends Game_Turns_Storage Game_Turns_Transfer Game_Save_Queue Gateway_Lobby Game_Room_Events
    Kv_Roundtrip Game_Match_Calls Gamebase_Identity Gamebase_Actor Game_Session
begin

text \<open>
  A verification development for the packages of yingyeothon/tslib (TypeScript, under
  \<open>src/packages\<close>): libraries for small online games and for the lambdas behind them.

  \<^bold>\<open>The program and how its parts interact.\<close> At the bottom, naive-socket is a TCP client that takes
  responses off a connection with text matchers, and naive-redis is a Redis client on top of it, with
  a subscriber of its own for push frames. The actor system processes the messages of an actor one at
  a time under a lock, over a queue, a lock and an awaiter that are kept in memory or
  (actor-system-redis) on Redis; its event loop holds the lock for a long game and renews it. The
  repository packages keep documents under revisions on Redis, DynamoDB or S3. For players,
  gamebase-client keeps a WebSocket to the gateway and shows the peers of a lobby, and game-kit builds
  rooms, turn games, matchmaking and saves on the lobby client and on the key-value service. Behind the
  gateway, the authorizers admit a handshake, the handlers of lambda-gamebase put the messages of its
  connection on the queue of the actor of its game, and gamebase-all-together is the loop of that actor.

  \<^bold>\<open>Theories and sources.\<close> Names of definitions are those of the source where HOL allows it; the
  fields of a record are the variables of the closure or object it stands for.

  \<^item> \<open>Prelude\<close>: lists, substring search, the effect type \<open>eff\<close> with its equations (\<open>eff_simps\<close>).
    \<open>Js_String\<close>: strings as UTF-16 units, UTF-8 lengths, \<open>Number(s)\<close>, JSON strings.
  \<^item> \<open>Text_Match\<close>, \<open>Naive_Socket\<close>, \<open>Socket_Match\<close> (naive-socket: textMatch.ts, naiveSocket.ts): the
    scanner and the locale \<open>response_matcher\<close> of the matchers a request may use; the client as a
    step function on its state, with reachable states and their invariants; the two composed.
  \<^item> \<open>Redis_Push_Frame\<close>, \<open>Redis_Subscriber\<close>, \<open>Redis_Protocol\<close>, \<open>Redis_Client\<close> (naive-redis): the push
    parser and the subscriber, the commands, which no argument can break out of, and the reply matchers
    (an interpretation of \<open>response_matcher\<close>), the connection that authenticates on demand.
  \<^item> \<open>Actor_Model\<close>, \<open>Actor_Event_Loop\<close>, \<open>Actor_Process\<close>, \<open>Actor_Drain\<close> (actor-system): the locales
    \<open>fifo_queue\<close>, \<open>actor_lock\<close> with the in-memory providers; the event loop and the lock heartbeat as one
    state machine; \<open>tryToProcess\<close>, \<open>enqueue\<close>, \<open>post\<close>, \<open>send\<close> with the same heartbeat beside every awaited
    call and a trace of the calls, on which the discipline of the lock is stated; what becomes of the
    messages, on the queue of the locale \<open>sole_consumer\<close> and on the in-process one.
  \<^item> \<open>Redis_Api\<close>, \<open>Actor_Redis\<close> (actor-system-redis): the server commands the packages use, as steps
    with expiry; lock, queue and awaiter, the queue as a refinement of \<open>fifo_queue\<close>.
  \<^item> \<open>Repository\<close>, \<open>Repository_Backends\<close> (repository, repository-redis, -dynamodb, -s3): documents
    edited with optimistic retries over the locale \<open>cas_repository\<close>, interpreted in memory; the three
    backends.
  \<^item> \<open>Gateway_Socket\<close>, \<open>Gateway_Safety\<close>, \<open>Gateway_Lobby\<close> (gamebase-client: gateway-socket.ts,
    close-codes.ts, backoff.ts, peer-map.ts, lobby-client.ts, game-client.ts, map-fetch.ts): the
    reconnecting socket as a step function over calls, socket events and timers; its invariant; the
    peer map against what the frames reported, and the clients as readers of the socket's events.
  \<^item> \<open>Game_Json\<close>, \<open>Game_Kit\<close> (game-kit: json.ts, runtime.ts): canonical JSON; the errors and the runtime.
  \<^item> \<open>Game_Turns\<close>, \<open>Game_Turns_Log\<close>, \<open>Game_Turns_Safety\<close>, \<open>Game_Turns_Storage\<close>, \<open>Game_Turns_Transfer\<close>
    (turns.ts): the replicated log, its invariant, what is saved, what is handed over.
  \<^item> \<open>Game_Save\<close>, \<open>Game_Save_Safety\<close>, \<open>Game_Save_Queue\<close> (save.ts): saves with conditions and merges, and
    the offline queue.
  \<^item> \<open>Game_Room\<close>, \<open>Game_Room_Safety\<close>, \<open>Game_Room_Events\<close> (room.ts): the room as a step function, its
    commands, envelopes, state and events.

  \<^item> \<open>Kv_Client\<close> (kvstore-client): grammars, paths, errors and requests of the client of the key-value
    store. \<open>Kv_Server\<close> (test-support/game-kit-fakes.ts): the service the tests run it against.
    \<open>Kv_Paths\<close>, \<open>Kv_Events\<close>, \<open>Kv_Save\<close>, \<open>Kv_Roundtrip\<close>: the two together, at one address, over a history
    of requests of many clients, as the environment of the saves, and with nothing in between.
  \<^item> \<open>Game_Match\<close> (matchmaking.ts): deferred matchmaking, a step function over calls, answers, pauses,
    the poll timer and changes of the session. \<open>Game_Match_Safety\<close>: each step as a sequence of small
    updates; \<open>Game_Match_Polling\<close> and \<open>Game_Match_Calls\<close>: invariants of those, for what is asked and shown
    and for how calls settle.
  \<^item> \<open>Game_Session\<close> (session.ts): the session of a player over calls, answers of the storage, the clock
    service and the login page, and timers: it ends with its token, the storage follows it, and a call
    that resolves names the player who is signed in.

  \<^item> \<open>Lambda_Authorizer\<close> (lambda-authorizer, lambda-authorizer-jwt): the credential of a handshake, the
    policy, tokens issued for a login and verified. \<open>Gamebase_Handlers\<close> (lambda-gamebase: handlers, actor):
    connecting, messages, disconnecting, over the commands of \<open>Redis_Api\<close>.
  \<^item> \<open>Gamebase_Game\<close> (gamebase-all-together; lambda-gamebase: network, support): the context of a game and
    its stages; \<open>Gamebase_Loop\<close>: that they end in time and follow the clock; \<open>Gamebase_Guard\<close>: the locale
    \<open>context_guard\<close> of the invariants a game keeps, interpreted in \<open>Gamebase_Party\<close> (a connection
    belongs to one member) and in \<open>Gamebase_Identity\<close>, which composes authorizer, handlers and loop over
    a store shared with other clients (\<open>shared_gateway\<close>). \<open>Gamebase_Actor\<close>: the lambda of a game around
    the event loop, and the transports.

  \<^bold>\<open>What the lemmas show.\<close> Per component: an invariant that every step keeps (\<open>gateway_ok\<close>,
  \<open>lane_ok\<close>, \<open>game_ok\<close> and the like), the behaviour of the operations on every branch, then the
  properties, each after a comment with its number. Across components: a provider fulfils the contract
  its client is proved against (the Redis queue and repository, the matchers of naive-redis on the
  socket, the client of the store over its service for the saves), and two instances of a component agree (logs and states of turn games, the envelopes of two
  rooms, the conditions of a DynamoDB write and its reads).

  \<^bold>\<open>How time, failure and concurrency appear.\<close> Code that awaits is a function on the world
  (\<open>('e, 'a, 's) eff\<close>): an error or a value with the world after it, or \<open>None\<close> when it does not return.
  Where other code runs at an await and shares state, the component is a state machine instead whose
  steps lie between awaits, in any order (event loop, socket, subscriber, gateway, room), or, for the
  heartbeat beside \<open>tryToProcess\<close>, the steps of the other code run at every await, as many as the world
  says; what the
  environment answers is then part of the step, so a theorem about all runs is about all answers and
  interleavings. A task of a serial lane runs to its end before the next. Raised errors are values of
  a sum type.

  \<^bold>\<open>Fuel and bounds.\<close> The loops of \<open>Actor_Process\<close> take fuel; when it is spent the run is cut off, an
  outcome of its own (\<open>Cut\<close>), so that what is shown of every outcome is shown of every moment of a run,
  endless ones included. A one-shot call on the in-process queue is not cut off with two rounds more than
  the queue is long. The awaiter polls at
  most \<open>timeout div 50 + 2\<close> times. A flush of the save queue takes at most the length of the queue plus
  one rounds, an application at most the retries of the options plus one. A stage of a
  game takes at most one pass per millisecond of its time, and the clock's advance over a game is bounded. Sizes are UTF-8 lengths as
  the source computes them; versions, revisions and counters are integers, with the safe-integer
  checks the source makes.

  \<^bold>\<open>Assumptions.\<close> Values read from a wire have the types the source casts them to, except where it
  tests them. A number of a JSON value is its text. The hash is a parameter, and a statement that
  needs distinct hashes for distinct texts says so. Handlers of a user do not throw where the source
  does not catch, and do not call back in ways the theory of the component excludes in its
  introduction. Logging has no effect on the program and is left out. The delays of the backoff and
  the clock of a session are real numbers.

  \<^bold>\<open>Not modelled.\<close> Packages that only pass calls to a service and map its errors (push-server,
  push-client, platform-client, auth-client, s3-cache-bridge-client, and the mail, friends, board,
  content and push modules of game-kit); asset-client, whose core is decryption by the platform;
  loggers, whose output the program does not depend on; codec, one-line wrappers of JSON; the scripts
  of the repository and the rest of the test support. Not yet modelled, in the order of the plan: live
  matchmaking (\<open>find\<close> and \<open>formRoom\<close>), the popup of a login and the poll lane of game-kit, the event
  broker, the handlers of actor-system-lambda, the batching of logger-s3, the options and the debug start
  of lambda-gamebase.
\<close>

end
